(* ===== verification/Go_Text.thy ===== *)
theory Go_Text
  imports Prelude "HOL-Library.Sublist" "HOL-Library.Char_ord" "HOL-Library.List_Lexorder"
begin

section \<open>Go strings and byte slices\<close>

text \<open>
  A Go string is a list of bytes, here a list of characters below 256. This theory
  models the functions of the packages strings, bytes, unicode/utf8 and strconv that the
  modelled code calls, with the laws the components use.
\<close>

abbreviation newline :: char where "newline \<equiv> CHR 0x0A"

subsection \<open>White space and trimming\<close>

definition is_ascii_space :: "char \<Rightarrow> bool" where
  "is_ascii_space c \<longleftrightarrow> c \<in> {CHR 0x09, CHR 0x0A, CHR 0x0B, CHR 0x0C, CHR 0x0D, CHR 0x20}"

text \<open>The multi-byte encodings of the runes that \<^verbatim>\<open>unicode.IsSpace\<close> accepts.\<close>

definition wide_spaces :: "string list" where
  "wide_spaces =
     [[CHR 0xC2, CHR 0x85], [CHR 0xC2, CHR 0xA0], [CHR 0xE1, CHR 0x9A, CHR 0x80],
      [CHR 0xE2, CHR 0x80, CHR 0x80], [CHR 0xE2, CHR 0x80, CHR 0x81], [CHR 0xE2, CHR 0x80, CHR 0x82],
      [CHR 0xE2, CHR 0x80, CHR 0x83], [CHR 0xE2, CHR 0x80, CHR 0x84], [CHR 0xE2, CHR 0x80, CHR 0x85],
      [CHR 0xE2, CHR 0x80, CHR 0x86], [CHR 0xE2, CHR 0x80, CHR 0x87], [CHR 0xE2, CHR 0x80, CHR 0x88],
      [CHR 0xE2, CHR 0x80, CHR 0x89], [CHR 0xE2, CHR 0x80, CHR 0x8A], [CHR 0xE2, CHR 0x80, CHR 0xA8],
      [CHR 0xE2, CHR 0x80, CHR 0xA9], [CHR 0xE2, CHR 0x80, CHR 0xAF], [CHR 0xE2, CHR 0x81, CHR 0x9F],
      [CHR 0xE3, CHR 0x80, CHR 0x80]]"

definition has_prefix :: "string \<Rightarrow> string \<Rightarrow> bool" where
  "has_prefix s p \<longleftrightarrow> take (length p) s = p"

definition has_suffix :: "string \<Rightarrow> string \<Rightarrow> bool" where
  "has_suffix s p \<longleftrightarrow> has_prefix (rev s) (rev p)"

fun strip_front :: "string list \<Rightarrow> nat \<Rightarrow> string \<Rightarrow> string" where
  "strip_front ws 0 s = s"
| "strip_front ws (Suc n) s =
     (case s of
        [] \<Rightarrow> []
      | c # cs \<Rightarrow>
          if is_ascii_space c then strip_front ws n cs
          else (case List.find (has_prefix s) ws of
                  Some w \<Rightarrow> strip_front ws n (drop (length w) s)
                | None \<Rightarrow> s))"

text \<open>\<^verbatim>\<open>bytes.TrimSpace\<close> and \<^verbatim>\<open>strings.TrimSpace\<close>.\<close>

definition trim_space :: "string \<Rightarrow> string" where
  "trim_space s =
     (let l = strip_front wide_spaces (length s) s
      in rev (strip_front (map rev wide_spaces) (length l) (rev l)))"

text \<open>\<^verbatim>\<open>strings.TrimRight(s, cutset)\<close> for an ASCII cutset.\<close>

definition trim_right :: "char set \<Rightarrow> string \<Rightarrow> string" where
  "trim_right cutset s = rev (dropWhile (\<lambda>c. c \<in> cutset) (rev s))"

definition trim_suffix :: "string \<Rightarrow> string \<Rightarrow> string" where
  "trim_suffix s p = (if has_suffix s p then take (length s - length p) s else s)"

definition cut_prefix :: "string \<Rightarrow> string \<Rightarrow> string option" where
  "cut_prefix s p = (if has_prefix s p then Some (drop (length p) s) else None)"

lemma has_prefix_iff: "has_prefix s p \<longleftrightarrow> (\<exists>t. s = p @ t)"
  unfolding has_prefix_def by (metis append_eq_conv_conj append_take_drop_id)

lemma has_prefix_append [simp]: "has_prefix (p @ t) p"
  by (simp add: has_prefix_def)

lemma has_suffix_iff: "has_suffix s p \<longleftrightarrow> (\<exists>t. s = t @ p)"
  unfolding has_suffix_def has_prefix_iff
  by (metis rev_append rev_rev_ident)

lemma has_suffix_append [simp]: "has_suffix (t @ p) p"
  by (auto simp: has_suffix_iff)

lemma trim_suffix_append [simp]: "trim_suffix (t @ p) p = t"
  by (simp add: trim_suffix_def)

lemma trim_suffix_not: "\<not> has_suffix s p \<Longrightarrow> trim_suffix s p = s"
  by (simp add: trim_suffix_def)

subsection \<open>Split and join\<close>

text \<open>\<^verbatim>\<open>strings.Split(s, sep)\<close> for a one-byte separator: never the empty list.\<close>

fun split_on :: "char \<Rightarrow> string \<Rightarrow> string list" where
  "split_on sep [] = [[]]"
| "split_on sep (c # cs) =
     (if c = sep then [] # split_on sep cs
      else (case split_on sep cs of [] \<Rightarrow> [[c]] | l # ls \<Rightarrow> (c # l) # ls))"

fun join_on :: "string \<Rightarrow> string list \<Rightarrow> string" where
  "join_on sep [] = []"
| "join_on sep [l] = l"
| "join_on sep (l # ls) = l @ sep @ join_on sep ls"

lemma split_on_not_Nil [simp]: "split_on sep s \<noteq> []"
  by (induction s) (auto split: list.splits)

lemma join_on_Cons: "ls \<noteq> [] \<Longrightarrow> join_on sep (l # ls) = l @ sep @ join_on sep ls"
  by (cases ls) auto

lemma join_split [simp]: "join_on [sep] (split_on sep s) = s"
proof (induction s)
  case Nil
  then show ?case by simp
next
  case (Cons c cs)
  obtain l ls where split: "split_on sep cs = l # ls"
    by (metis split_on_not_Nil neq_Nil_conv)
  with Cons show ?case
    by (cases ls) (auto simp: join_on_Cons)
qed

lemma split_on_no_sep: "l \<in> set (split_on sep s) \<Longrightarrow> sep \<notin> set l"
  by (induction s arbitrary: l) (auto split: if_splits list.splits)

lemma split_on_single: "sep \<notin> set l \<Longrightarrow> split_on sep l = [l]"
  by (induction l) auto

lemma split_on_append: "sep \<notin> set l \<Longrightarrow> split_on sep (l @ sep # s) = l # split_on sep s"
  by (induction l) auto

lemma split_join:
  assumes "ls \<noteq> []" and "\<forall>l\<in>set ls. sep \<notin> set l"
  shows "split_on sep (join_on [sep] ls) = ls"
  using assms
proof (induction ls)
  case Nil
  then show ?case by simp
next
  case (Cons l ls)
  then show ?case
    by (cases ls) (auto simp: join_on_Cons split_on_single split_on_append)
qed

subsection \<open>Searching and replacing\<close>

text \<open>
  \<^verbatim>\<open>strings.Index\<close>, \<^verbatim>\<open>strings.Count\<close> and \<^verbatim>\<open>strings.Replace\<close> for a non-empty pattern:
  matches are found from the left and do not overlap.
\<close>

fun index_of :: "string \<Rightarrow> string \<Rightarrow> nat option" where
  "index_of p [] = (if p = [] then Some 0 else None)"
| "index_of p (c # cs) = (if has_prefix (c # cs) p then Some 0 else map_option Suc (index_of p cs))"

definition contains :: "string \<Rightarrow> string \<Rightarrow> bool" where
  "contains s p \<longleftrightarrow> index_of p s \<noteq> None"

definition replace_first :: "string \<Rightarrow> string \<Rightarrow> string \<Rightarrow> string" where
  "replace_first s p r =
     (case index_of p s of
        None \<Rightarrow> s
      | Some i \<Rightarrow> take i s @ r @ drop (i + length p) s)"

fun replace_all :: "nat \<Rightarrow> string \<Rightarrow> string \<Rightarrow> string \<Rightarrow> string" where
  "replace_all 0 p r s = s"
| "replace_all (Suc n) p r s =
     (case s of
        [] \<Rightarrow> []
      | c # cs \<Rightarrow> if has_prefix s p then r @ replace_all n p r (drop (length p) s)
                 else c # replace_all n p r cs)"

fun count_sub :: "nat \<Rightarrow> string \<Rightarrow> string \<Rightarrow> nat" where
  "count_sub 0 p s = 0"
| "count_sub (Suc n) p s =
     (case s of
        [] \<Rightarrow> 0
      | c # cs \<Rightarrow> if has_prefix s p then Suc (count_sub n p (drop (length p) s))
                 else count_sub n p cs)"

definition str_count :: "string \<Rightarrow> string \<Rightarrow> nat" where
  "str_count s p = count_sub (length s) p s"

definition str_replace_all :: "string \<Rightarrow> string \<Rightarrow> string \<Rightarrow> string" where
  "str_replace_all s p r = replace_all (length s) p r s"

lemma index_of_Some:
  "index_of p s = Some i \<Longrightarrow> i + length p \<le> length s \<and> take (length p) (drop i s) = p"
proof (induction s arbitrary: i)
  case Nil
  then show ?case by (auto split: if_splits)
next
  case (Cons c cs)
  show ?case
  proof (cases "has_prefix (c # cs) p")
    case True
    then obtain t where "c # cs = p @ t" by (auto simp: has_prefix_iff)
    moreover from True Cons.prems have "i = 0" by simp
    ultimately show ?thesis by (metis append_eq_conv_conj drop0 length_append le_add1 add_0)
  next
    case False
    with Cons.prems obtain j where "index_of p cs = Some j" "i = Suc j" by auto
    with Cons.IH show ?thesis by auto
  qed
qed

lemma index_of_split:
  assumes "index_of p s = Some i"
  shows "s = take i s @ p @ drop (i + length p) s"
proof -
  from index_of_Some [OF assms] have "take (length p) (drop i s) = p" by simp
  then have "drop i s = p @ drop (length p) (drop i s)"
    by (metis append_take_drop_id)
  then show ?thesis by (metis append_take_drop_id drop_drop add.commute)
qed

lemma index_of_None_iff: "index_of p s = None \<longleftrightarrow> \<not> (\<exists>u v. s = u @ p @ v)"
proof (induction s)
  case Nil
  then show ?case by simp
next
  case (Cons c cs)
  show ?case
  proof (cases "has_prefix (c # cs) p")
    case True
    then obtain t where "c # cs = [] @ p @ t" by (auto simp: has_prefix_iff)
    then have "\<exists>u v. c # cs = u @ p @ v" by blast
    with True show ?thesis by simp
  next
    case False
    then have "(\<exists>u v. c # cs = u @ p @ v) \<longleftrightarrow> (\<exists>u v. cs = u @ p @ v)"
      by (auto simp: has_prefix_iff Cons_eq_append_conv)
    with False Cons show ?thesis by simp
  qed
qed

lemma count_sub_zero_iff:
  assumes "p \<noteq> []" and "length s \<le> n"
  shows "count_sub n p s = 0 \<longleftrightarrow> \<not> contains s p"
  using assms
proof (induction n arbitrary: s)
  case 0
  then show ?case by (simp add: contains_def)
next
  case (Suc n)
  then show ?case by (cases s) (auto simp: contains_def)
qed

lemma str_count_zero_iff: "p \<noteq> [] \<Longrightarrow> str_count s p = 0 \<longleftrightarrow> \<not> contains s p"
  by (simp add: str_count_def count_sub_zero_iff)

lemma replace_all_absent:
  assumes "\<not> contains s p" and "p \<noteq> []"
  shows "replace_all n p r s = s"
  using assms
proof (induction n arbitrary: s)
  case 0
  then show ?case by simp
next
  case (Suc n)
  then show ?case by (cases s) (auto simp: contains_def split: if_splits)
qed

subsection \<open>UTF-8\<close>

text \<open>
  The length of the well-formed UTF-8 sequence at the front of a byte string, or
  \<^const>\<open>None\<close>: the table of \<^verbatim>\<open>utf8.DecodeRune\<close> (no overlong forms, no surrogates,
  nothing above U+10FFFF).
\<close>

definition byte :: "char \<Rightarrow> nat" where
  "byte c = of_char c"

definition cont_byte :: "nat \<Rightarrow> nat \<Rightarrow> char \<Rightarrow> bool" where
  "cont_byte lo hi c \<longleftrightarrow> lo \<le> byte c \<and> byte c \<le> hi"

fun rune_len :: "string \<Rightarrow> nat option" where
  "rune_len [] = None"
| "rune_len (b0 # rest) =
     (let n = byte b0 in
      if n < 128 then Some 1
      else if 194 \<le> n \<and> n \<le> 223 then
        (case rest of b1 # _ \<Rightarrow> if cont_byte 128 191 b1 then Some 2 else None | _ \<Rightarrow> None)
      else if 224 \<le> n \<and> n \<le> 239 then
        (case rest of b1 # b2 # _ \<Rightarrow>
           if cont_byte (if n = 224 then 160 else 128) (if n = 237 then 159 else 191) b1 \<and> cont_byte 128 191 b2
           then Some 3 else None
         | _ \<Rightarrow> None)
      else if 240 \<le> n \<and> n \<le> 244 then
        (case rest of b1 # b2 # b3 # _ \<Rightarrow>
           if cont_byte (if n = 240 then 144 else 128) (if n = 244 then 143 else 191) b1
              \<and> cont_byte 128 191 b2 \<and> cont_byte 128 191 b3
           then Some 4 else None
         | _ \<Rightarrow> None)
      else None)"

fun valid_utf8_fuel :: "nat \<Rightarrow> string \<Rightarrow> bool" where
  "valid_utf8_fuel 0 s = (s = [])"
| "valid_utf8_fuel (Suc n) s =
     (s = [] \<or> (case rune_len s of None \<Rightarrow> False | Some k \<Rightarrow> valid_utf8_fuel n (drop k s)))"

definition valid_utf8 :: "string \<Rightarrow> bool" where
  "valid_utf8 s = valid_utf8_fuel (length s) s"

lemma valid_utf8_Nil [simp]: "valid_utf8 []"
  by (simp add: valid_utf8_def)

subsection \<open>Quoting\<close>

text \<open>\<^verbatim>\<open>%q\<close> (strconv.Quote) for bytes; a byte above 126 is kept, as it is for printable runes.\<close>

definition hex_digit :: "nat \<Rightarrow> char" where
  "hex_digit d = (if d < 10 then char_of (48 + d) else char_of (87 + d))"

definition quote_byte :: "char \<Rightarrow> string" where
  "quote_byte c =
     (if c = CHR 0x22 then [CHR 0x5C, CHR 0x22]
      else if c = CHR 0x5C then [CHR 0x5C, CHR 0x5C]
      else if c = CHR 0x07 then [CHR 0x5C, CHR ''a'']
      else if c = CHR 0x08 then [CHR 0x5C, CHR ''b'']
      else if c = CHR 0x0C then [CHR 0x5C, CHR ''f'']
      else if c = CHR 0x0A then [CHR 0x5C, CHR ''n'']
      else if c = CHR 0x0D then [CHR 0x5C, CHR ''r'']
      else if c = CHR 0x09 then [CHR 0x5C, CHR ''t'']
      else if c = CHR 0x0B then [CHR 0x5C, CHR ''v'']
      else if byte c < 32 \<or> byte c = 127 then
        [CHR 0x5C, CHR ''x'', hex_digit (byte c div 16), hex_digit (byte c mod 16)]
      else [c])"

definition quoted :: "string \<Rightarrow> string" where
  "quoted s = [CHR 0x22] @ concat (map quote_byte s) @ [CHR 0x22]"

end
