(* ===== verification/Json.thy ===== *)
theory Json
  imports Go_Text
begin

section \<open>JSON values as encoding/json reads and writes them\<close>

text \<open>
  Action arguments travel as raw JSON bytes (\<^verbatim>\<open>json.RawMessage\<close>). This theory is the part
  of encoding/json that the modelled code calls on them: reading a value, reading an object
  into a map (a repeated key keeps its last value), and writing a value back in canonical
  form (keys sorted, numbers verbatim, strings escaped). Numbers are kept as their text, as
  with \<^verbatim>\<open>Decoder.UseNumber\<close>. The reader spends one unit of fuel per nested call; every
  call consumes input, so a fuel above the input's length never runs out
  (\<open>parse_value_fuel\<close>). The depth limit of 10,000 levels is not modelled.
\<close>

datatype json =
    JNull
  | JBool bool
  | JNumber string
  | JString string
  | JArray "json list"
  | JObject "(string \<times> json) list"

subsection \<open>Lexical elements\<close>

definition json_space :: "char \<Rightarrow> bool" where
  "json_space c \<longleftrightarrow> c \<in> {CHR 0x20, CHR 0x09, CHR 0x0D, CHR 0x0A}"

definition skip_ws :: "string \<Rightarrow> string" where
  "skip_ws s = dropWhile json_space s"

lemma length_skip_ws: "length (skip_ws s) \<le> length s"
  by (simp add: skip_ws_def length_dropWhile_le)

definition is_digit :: "char \<Rightarrow> bool" where
  "is_digit c \<longleftrightarrow> 48 \<le> byte c \<and> byte c \<le> 57"

definition hex_value :: "char \<Rightarrow> nat option" where
  "hex_value c =
     (let b = byte c in
      if 48 \<le> b \<and> b \<le> 57 then Some (b - 48)
      else if 97 \<le> b \<and> b \<le> 102 then Some (b - 87)
      else if 65 \<le> b \<and> b \<le> 70 then Some (b - 55)
      else None)"

lemma hex_value_digit:
  assumes "d < 16"
  shows "hex_value (hex_digit d) = Some d"
  using assms by (auto simp: hex_value_def hex_digit_def byte_def Let_def)

fun hex4 :: "string \<Rightarrow> (nat \<times> string) option" where
  "hex4 (a # b # c # d # r) =
     (case (hex_value a, hex_value b, hex_value c, hex_value d) of
        (Some w, Some x, Some y, Some z) \<Rightarrow> Some (w * 4096 + x * 256 + y * 16 + z, r)
      | _ \<Rightarrow> None)"
| "hex4 _ = None"

definition utf8_encode :: "nat \<Rightarrow> string" where
  "utf8_encode u =
     (if u < 128 then [char_of u]
      else if u < 2048 then [char_of (192 + u div 64), char_of (128 + u mod 64)]
      else if u < 65536 then
        [char_of (224 + u div 4096), char_of (128 + (u div 64) mod 64), char_of (128 + u mod 64)]
      else
        [char_of (240 + u div 262144), char_of (128 + (u div 4096) mod 64),
         char_of (128 + (u div 64) mod 64), char_of (128 + u mod 64)])"

definition replacement :: string where
  "replacement = [CHR 0xEF, CHR 0xBF, CHR 0xBD]"

text \<open>The body of \<^verbatim>\<open>\u\<close>: a surrogate pair is one rune, a lone surrogate the replacement rune.\<close>

definition unicode_escape :: "string \<Rightarrow> (string \<times> string) option" where
  "unicode_escape s =
     (case hex4 s of
        None \<Rightarrow> None
      | Some (u, r) \<Rightarrow>
          if 55296 \<le> u \<and> u < 57344 then
            (if u < 56320 \<and> take 2 r = [CHR 0x5C, CHR ''u''] then
               (case hex4 (drop 2 r) of
                  Some (v, r') \<Rightarrow>
                    if 56320 \<le> v \<and> v < 57344
                    then Some (utf8_encode (65536 + (u - 55296) * 1024 + (v - 56320)), r')
                    else Some (replacement, r)
                | None \<Rightarrow> None)
             else Some (replacement, r))
          else Some (utf8_encode u, r))"

definition simple_escape :: "char \<Rightarrow> char option" where
  "simple_escape c =
     (if c = CHR 0x22 then Some (CHR 0x22)
      else if c = CHR 0x5C then Some (CHR 0x5C)
      else if c = CHR ''/'' then Some (CHR ''/'')
      else if c = CHR ''b'' then Some (CHR 0x08)
      else if c = CHR ''f'' then Some (CHR 0x0C)
      else if c = CHR ''n'' then Some (CHR 0x0A)
      else if c = CHR ''r'' then Some (CHR 0x0D)
      else if c = CHR ''t'' then Some (CHR 0x09)
      else None)"

text \<open>The rest of a string after its opening quote.\<close>

fun parse_string :: "nat \<Rightarrow> string \<Rightarrow> (string \<times> string) option" where
  "parse_string 0 s = None"
| "parse_string (Suc n) s =
     (case s of
        [] \<Rightarrow> None
      | c # r \<Rightarrow>
          if c = CHR 0x22 then Some ([], r)
          else if c = CHR 0x5C then
            (case r of
               [] \<Rightarrow> None
             | e # r' \<Rightarrow>
                 if e = CHR ''u'' then
                   (case unicode_escape r' of
                      None \<Rightarrow> None
                    | Some (t, r'') \<Rightarrow> map_option (apfst ((@) t)) (parse_string n r''))
                 else
                   (case simple_escape e of
                      None \<Rightarrow> None
                    | Some t \<Rightarrow> map_option (apfst ((#) t)) (parse_string n r')))
          else if byte c < 32 then None
          else
            (case rune_len s of
               None \<Rightarrow> map_option (apfst ((@) replacement)) (parse_string n r)
             | Some k \<Rightarrow> map_option (apfst ((@) (take k s))) (parse_string n (drop k s))))"

definition parse_int_part :: "string \<Rightarrow> (string \<times> string) option" where
  "parse_int_part s =
     (case s of
        [] \<Rightarrow> None
      | c # r \<Rightarrow>
          if c = CHR ''0'' then Some ([c], r)
          else if is_digit c then Some (c # takeWhile is_digit r, dropWhile is_digit r)
          else None)"

definition parse_digits :: "string \<Rightarrow> (string \<times> string) option" where
  "parse_digits s =
     (if takeWhile is_digit s = [] then None else Some (takeWhile is_digit s, dropWhile is_digit s))"

definition parse_frac :: "string \<Rightarrow> (string \<times> string) option" where
  "parse_frac s =
     (case s of
        c # r \<Rightarrow> if c = CHR ''.'' then map_option (apfst ((#) c)) (parse_digits r) else Some ([], s)
      | [] \<Rightarrow> Some ([], s))"

definition parse_exp :: "string \<Rightarrow> (string \<times> string) option" where
  "parse_exp s =
     (case s of
        c # r \<Rightarrow>
          if c = CHR ''e'' \<or> c = CHR ''E'' then
            (case r of
               d # r' \<Rightarrow>
                 if d = CHR ''+'' \<or> d = CHR ''-''
                 then map_option (apfst (\<lambda>x. c # d # x)) (parse_digits r')
                 else map_option (apfst ((#) c)) (parse_digits r)
             | [] \<Rightarrow> None)
          else Some ([], s)
      | [] \<Rightarrow> Some ([], s))"

definition parse_number :: "string \<Rightarrow> (string \<times> string) option" where
  "parse_number s =
     (let (sign, s1) = (case s of c # r \<Rightarrow> if c = CHR ''-'' then ([c], r) else ([], s) | [] \<Rightarrow> ([], s))
      in case parse_int_part s1 of
           None \<Rightarrow> None
         | Some (i, s2) \<Rightarrow>
             (case parse_frac s2 of
                None \<Rightarrow> None
              | Some (f, s3) \<Rightarrow> map_option (apfst (\<lambda>e. sign @ i @ f @ e)) (parse_exp s3)))"

subsection \<open>Values\<close>

fun parse_value :: "nat \<Rightarrow> string \<Rightarrow> (json \<times> string) option"
and parse_members :: "nat \<Rightarrow> string \<Rightarrow> ((string \<times> json) list \<times> string) option"
and parse_elements :: "nat \<Rightarrow> string \<Rightarrow> (json list \<times> string) option" where
  "parse_value 0 s = None"
| "parse_value (Suc n) s =
     (case skip_ws s of
        [] \<Rightarrow> None
      | c # r \<Rightarrow>
          if c = CHR 0x7B then
            (case skip_ws r of
               d # r' \<Rightarrow> if d = CHR 0x7D then Some (JObject [], r')
                         else map_option (apfst JObject) (parse_members n r)
             | [] \<Rightarrow> None)
          else if c = CHR 0x5B then
            (case skip_ws r of
               d # r' \<Rightarrow> if d = CHR 0x5D then Some (JArray [], r')
                         else map_option (apfst JArray) (parse_elements n r)
             | [] \<Rightarrow> None)
          else if c = CHR 0x22 then map_option (apfst JString) (parse_string (length r) r)
          else if take 4 (c # r) = ''null'' then Some (JNull, drop 4 (c # r))
          else if take 4 (c # r) = ''true'' then Some (JBool True, drop 4 (c # r))
          else if take 5 (c # r) = ''false'' then Some (JBool False, drop 5 (c # r))
          else map_option (apfst JNumber) (parse_number (c # r)))"
| "parse_members 0 s = None"
| "parse_members (Suc n) s =
     (case skip_ws s of
        [] \<Rightarrow> None
      | c # r \<Rightarrow>
          if c \<noteq> CHR 0x22 then None
          else (case parse_string (length r) r of
                  None \<Rightarrow> None
                | Some (k, r1) \<Rightarrow>
                    (case skip_ws r1 of
                       [] \<Rightarrow> None
                     | d # r2 \<Rightarrow>
                         if d \<noteq> CHR '':'' then None
                         else (case parse_value n r2 of
                                 None \<Rightarrow> None
                               | Some (v, r3) \<Rightarrow>
                                   (case skip_ws r3 of
                                      [] \<Rightarrow> None
                                    | e # r4 \<Rightarrow>
                                        if e = CHR 0x7D then Some ([(k, v)], r4)
                                        else if e = CHR '','' then
                                          map_option (apfst ((#) (k, v))) (parse_members n r4)
                                        else None)))))"
| "parse_elements 0 s = None"
| "parse_elements (Suc n) s =
     (case parse_value n s of
        None \<Rightarrow> None
      | Some (v, r) \<Rightarrow>
          (case skip_ws r of
             [] \<Rightarrow> None
           | e # r' \<Rightarrow>
               if e = CHR 0x5D then Some ([v], r')
               else if e = CHR '','' then map_option (apfst ((#) v)) (parse_elements n r')
               else None))"

definition parse_fuel :: "string \<Rightarrow> nat" where
  "parse_fuel s = Suc (2 * length s)"

text \<open>\<^verbatim>\<open>json.Unmarshal\<close>: one value, then only white space.\<close>

definition unmarshal :: "string \<Rightarrow> json option" where
  "unmarshal s =
     (case parse_value (parse_fuel s) s of
        Some (v, r) \<Rightarrow> if skip_ws r = [] then Some v else None
      | None \<Rightarrow> None)"

text \<open>
  \<^verbatim>\<open>Decoder.Decode\<close>: the first value of the input. An object or array ends at its bracket;
  after any other value the next byte must be white space.
\<close>

definition decode_first :: "string \<Rightarrow> json option" where
  "decode_first s =
     (case parse_value (parse_fuel s) s of
        None \<Rightarrow> None
      | Some (v, r) \<Rightarrow>
          (case v of
             JObject _ \<Rightarrow> Some v
           | JArray _ \<Rightarrow> Some v
           | _ \<Rightarrow> (case r of [] \<Rightarrow> Some v | c # _ \<Rightarrow> if json_space c then Some v else None)))"

subsection \<open>Canonical output\<close>

definition escape_byte :: "char \<Rightarrow> string" where
  "escape_byte c =
     (if c = CHR 0x22 then [CHR 0x5C, CHR 0x22]
      else if c = CHR 0x5C then [CHR 0x5C, CHR 0x5C]
      else if c = CHR 0x08 then [CHR 0x5C, CHR ''b'']
      else if c = CHR 0x0C then [CHR 0x5C, CHR ''f'']
      else if c = CHR 0x0A then [CHR 0x5C, CHR ''n'']
      else if c = CHR 0x0D then [CHR 0x5C, CHR ''r'']
      else if c = CHR 0x09 then [CHR 0x5C, CHR ''t'']
      else if byte c < 32 \<or> c \<in> {CHR ''<'', CHR ''>'', CHR 0x26} then
        [CHR 0x5C, CHR ''u'', CHR ''0'', CHR ''0'', hex_digit (byte c div 16), hex_digit (byte c mod 16)]
      else [c])"

text \<open>The line separators U+2028 and U+2029 are escaped as well.\<close>

fun escape_string :: "string \<Rightarrow> string" where
  "escape_string (a # b # c # r) =
     (if a = CHR 0xE2 \<and> b = CHR 0x80 \<and> (c = CHR 0xA8 \<or> c = CHR 0xA9)
      then [CHR 0x5C, CHR ''u'', CHR ''2'', CHR ''0'', CHR ''2'', if c = CHR 0xA8 then CHR ''8'' else CHR ''9''] @ escape_string r
      else escape_byte a @ escape_string (b # c # r))"
| "escape_string s = concat (map escape_byte s)"

definition object_map :: "(string \<times> json) list \<Rightarrow> (string \<rightharpoonup> json)" where
  "object_map ms = map_of (rev ms)"

text \<open>A key's last value counts; the keys are written in byte order.\<close>

definition canonical_members :: "(string \<times> 'v) list \<Rightarrow> (string \<times> 'v) list" where
  "canonical_members ms =
     map (\<lambda>k. (k, the (map_of (rev ms) k))) (sort (remdups (map fst ms)))"

fun marshal :: "json \<Rightarrow> string" where
  "marshal JNull = ''null''"
| "marshal (JBool b) = (if b then ''true'' else ''false'')"
| "marshal (JNumber n) = n"
| "marshal (JString s) = [CHR 0x22] @ escape_string s @ [CHR 0x22]"
| "marshal (JArray vs) = [CHR 0x5B] @ join_on '','' (map marshal vs) @ [CHR 0x5D]"
| "marshal (JObject ms) =
     [CHR 0x7B]
     @ join_on '',''
         (map (\<lambda>(k, t). [CHR 0x22] @ escape_string k @ [CHR 0x22] @ '':'' @ t)
              (canonical_members (map (\<lambda>(k, v). (k, marshal v)) ms)))
     @ [CHR 0x7D]"

subsection \<open>The reader consumes its input and its fuel suffices\<close>

lemma length_drop_skip: "skip_ws s = c # r \<Longrightarrow> length r < length s"
  using length_skip_ws [of s] by simp

lemma hex4_consumes: "hex4 s = Some (u, r) \<Longrightarrow> length r < length s"
  by (induction s rule: hex4.induct) (auto split: option.splits)

lemma unicode_escape_consumes:
  assumes "unicode_escape s = Some (t, r)"
  shows "length r < length s"
proof -
  from assms obtain u r1 where h: "hex4 s = Some (u, r1)"
    by (auto simp: unicode_escape_def split: option.splits)
  note l1 = hex4_consumes [OF h]
  from assms h have "r = r1 \<or> (\<exists>v. hex4 (drop 2 r1) = Some (v, r))"
    by (auto simp: unicode_escape_def split: option.splits if_splits)
  then show ?thesis
  proof
    assume "r = r1"
    with l1 show ?thesis by simp
  next
    assume "\<exists>v. hex4 (drop 2 r1) = Some (v, r)"
    then have "length r < length (drop 2 r1)" by (auto dest: hex4_consumes)
    with l1 show ?thesis by simp
  qed
qed

lemma rune_len_bounds: "rune_len s = Some k \<Longrightarrow> 0 < k \<and> k \<le> length s"
  by (cases s) (auto simp: Let_def split: if_splits list.splits)

declare rune_len.simps [simp del]

lemma parse_string_consumes: "parse_string n s = Some (t, r) \<Longrightarrow> length r < length s"
proof (induction n arbitrary: s t r)
  case 0
  then show ?case by simp
next
  case (Suc n)
  from Suc.prems show ?case
    by (auto split: list.splits if_splits option.splits
        dest!: Suc.IH unicode_escape_consumes rune_len_bounds)
qed

lemma parse_digits_consumes: "parse_digits s = Some (t, r) \<Longrightarrow> length r < length s"
  by (cases s) (auto simp: parse_digits_def length_dropWhile_le less_Suc_eq_le split: if_splits)

lemma parse_int_part_consumes: "parse_int_part s = Some (t, r) \<Longrightarrow> length r < length s"
  by (auto simp: parse_int_part_def length_dropWhile_le less_Suc_eq_le split: if_splits list.splits)

lemma parse_frac_consumes: "parse_frac s = Some (t, r) \<Longrightarrow> length r \<le> length s"
  by (auto simp: parse_frac_def dest!: parse_digits_consumes split: if_splits list.splits)

lemma parse_exp_consumes: "parse_exp s = Some (t, r) \<Longrightarrow> length r \<le> length s"
  by (auto simp: parse_exp_def dest!: parse_digits_consumes split: if_splits list.splits)

lemma parse_number_consumes:
  assumes "parse_number s = Some (t, r)"
  shows "length r < length s"
proof -
  obtain sign s1 where s1: "(case s of c # r \<Rightarrow> if c = CHR ''-'' then ([c], r) else ([], s) | [] \<Rightarrow> ([], s)) = (sign, s1)"
    by fastforce
  then have "length s1 \<le> length s" by (auto split: list.splits if_splits)
  moreover from assms s1 obtain i s2 f s3 where
    "parse_int_part s1 = Some (i, s2)" "parse_frac s2 = Some (f, s3)" "\<exists>e. parse_exp s3 = Some (e, r)"
    by (auto simp: parse_number_def split: option.splits)
  ultimately show ?thesis
    by (meson parse_int_part_consumes parse_frac_consumes parse_exp_consumes le_less_trans less_le_trans)
qed

lemma parse_consumes:
  "parse_value n s = Some (v, r) \<Longrightarrow> length r < length s"
  "parse_members n s = Some (ms, r) \<Longrightarrow> length r < length s"
  "parse_elements n s = Some (vs, r) \<Longrightarrow> length r < length s"
proof (induction n arbitrary: s v ms vs r)
  case 0
  { case 1 then show ?case by simp next
    case 2 then show ?case by simp next
    case 3 then show ?case by simp }
next
  case (Suc n)
  { case 1
    then obtain c u where cu: "skip_ws s = c # u" by (auto split: list.splits)
    have len: "Suc (length u) \<le> length s" using length_skip_ws [of s] cu by simp
    have "length r < Suc (length u)"
      using 1 cu length_skip_ws [of u]
      by (auto split: list.splits if_splits
          dest!: Suc.IH parse_string_consumes parse_number_consumes)
    with len show ?case by simp
  next
    case 2
    then obtain c u where cu: "skip_ws s = c # u" by (auto split: list.splits)
    have len: "Suc (length u) \<le> length s" using length_skip_ws [of s] cu by simp
    have "length r < length u"
      using 2 cu
      by (auto split: list.splits if_splits option.splits
          dest!: Suc.IH parse_string_consumes length_drop_skip)
    with len show ?case by simp
  next
    case 3
    then show ?case
      by (auto split: list.splits if_splits option.splits dest!: Suc.IH length_drop_skip) }
qed

declare parse_value.simps [simp del] parse_members.simps [simp del] parse_elements.simps [simp del]

lemma parse_fuel_step:
  "2 * length s < n \<Longrightarrow> parse_value (Suc n) s = parse_value n s"
  "2 * length s < n \<Longrightarrow> parse_members (Suc n) s = parse_members n s"
  "Suc (2 * length s) < n \<Longrightarrow> parse_elements (Suc n) s = parse_elements n s"
proof (induction n arbitrary: s)
  case 0
  { case 1 then show ?case by simp next
    case 2 then show ?case by simp next
    case 3 then show ?case by simp }
next
  case (Suc n)
  have less: "2 * length r < n" if "length r < length s" "2 * length s < Suc n" for r s :: string
    using that by simp
  { case 1
    show ?case
    proof (cases "skip_ws s")
      case Nil
      then show ?thesis by (simp add: parse_value.simps(2))
    next
      case (Cons c u)
      then have "2 * length u < n" "Suc (2 * length u) < n"
        using 1 length_drop_skip [of s c u] by simp_all
      then have "parse_members (Suc n) u = parse_members n u" "parse_elements (Suc n) u = parse_elements n u"
        by (simp_all add: Suc.IH(2,3))
      with Cons show ?thesis by (simp add: parse_value.simps(2) split: list.split)
    qed
  next
    case 2
    show ?case
    proof (cases "skip_ws s")
      case Nil
      then show ?thesis by (simp add: parse_members.simps(2))
    next
      case s: (Cons c u)
      note u = length_drop_skip [OF s]
      show ?thesis
      proof (cases "parse_string (length u) u")
        case None
        with s show ?thesis by (simp add: parse_members.simps(2))
      next
        case key: (Some kr)
        obtain k r1 where kr: "kr = (k, r1)" by fastforce
        note r1 = parse_string_consumes [OF key [unfolded kr]]
        show ?thesis
        proof (cases "skip_ws r1")
          case Nil
          with s key kr show ?thesis by (simp add: parse_members.simps(2))
        next
          case colon: (Cons d r2)
          note r2 = length_drop_skip [OF colon]
          have r2s: "length r2 < length s" using u r1 r2 by simp
          have val: "parse_value (Suc n) r2 = parse_value n r2"
            by (rule Suc.IH(1) [OF less [OF r2s 2]])
          have rest: "parse_members (Suc n) r4 = parse_members n r4"
            if "parse_value n r2 = Some (v, r3)" "skip_ws r3 = e # r4" for v r3 e r4
            using parse_consumes(1) [OF that(1)] length_drop_skip [OF that(2)] r2s
            by (intro Suc.IH(2) less [OF _ 2]) simp
          show ?thesis
            using s key kr colon val rest
            by (simp add: parse_members.simps(2) split: option.split list.split)
        qed
      qed
    qed
  next
    case 3
    then have head: "parse_value (Suc n) s = parse_value n s" by (intro Suc.IH(1)) simp
    have rest: "parse_elements (Suc n) r4 = parse_elements n r4"
      if "parse_value n s = Some (v, r3)" "skip_ws r3 = e # r4" for v r3 e r4
      using parse_consumes(1) [OF that(1)] length_drop_skip [OF that(2)] 3
      by (intro Suc.IH(3)) simp
    show ?case
      using head rest by (simp add: parse_elements.simps(2) split: option.split list.split) }
qed

text \<open>The fuel of \<^const>\<open>unmarshal\<close> and \<^const>\<open>decode_first\<close> is enough: more changes nothing.\<close>

lemma parse_value_fuel:
  assumes "parse_fuel s \<le> n"
  shows "parse_value n s = parse_value (parse_fuel s) s"
  using assms
proof (induction rule: dec_induct)
  case base
  show ?case by simp
next
  case (step m)
  then show ?case by (simp add: parse_fuel_step parse_fuel_def)
qed

end
