(* ===== verification/Protocol.thy ===== *)
theory Protocol
  imports Json
begin

section \<open>The brain and hands wire contract (protocol/protocol.go)\<close>

text \<open>
  Actions go from the brain to the hands, tool results come back. Arguments and payloads
  are raw JSON bytes. An error is its message text.
\<close>

type_synonym action_kind = string

definition ActFinish :: action_kind where
  "ActFinish = ''finish''"

record danger =
  risk_level :: string
  danger_reason :: string

record action =
  act_id :: string
  act_kind :: action_kind
  act_args :: string
  act_danger :: danger

record tool_result =
  tr_action_id :: string
  tr_ok :: bool
  tr_output :: string
  tr_error :: string
  tr_exit_code :: int
  tr_kind :: string
  tr_payload :: string

definition zero_result :: tool_result where
  "zero_result = \<lparr>tr_action_id = [], tr_ok = False, tr_output = [], tr_error = [],
     tr_exit_code = 0, tr_kind = [], tr_payload = []\<rparr>"

definition no_danger :: danger where
  "no_danger = \<lparr>risk_level = [], danger_reason = []\<rparr>"

record interpret_result =
  in_continue :: bool
  in_summary :: string
  in_stop_reason :: string

record turn_log =
  tl_turn :: nat
  tl_actions :: "action list"
  tl_results :: "tool_result list"

record observation =
  ob_turn :: nat
  ob_message :: string
  ob_workspace :: string
  ob_platform :: string
  ob_history :: "turn_log list"
  ob_context :: "string list"
  ob_now :: int

text \<open>The canonical text of a result: output, failure note, or both.\<close>

definition observation_text :: "tool_result \<Rightarrow> string" where
  "observation_text tr =
     (if tr_error tr = [] then tr_output tr
      else if tr_output tr = [] then ''error: '' @ tr_error tr
      else tr_output tr @ [newline] @ ''error: '' @ tr_error tr)"

definition args_absent :: "string \<Rightarrow> bool" where
  "args_absent raw \<longleftrightarrow> trim_space raw = [] \<or> trim_space raw = ''null''"

text \<open>
  \<^verbatim>\<open>ArgsJSON\<close> on an encodable value: a value that encodes to null becomes the empty object.
\<close>

definition args_json :: "json \<Rightarrow> string" where
  "args_json v = (if trim_space (marshal v) = ''null'' then ''{}'' else marshal v)"

text \<open>
  \<^verbatim>\<open>ObjectArgs\<close>: absent arguments are the empty object; anything that is not a JSON object
  is an error. The members are given as parsed values where the code keeps their bytes.
\<close>

definition object_args :: "string \<Rightarrow> error + (string \<times> json) list" where
  "object_args raw =
     (if args_absent raw then Inr []
      else (case unmarshal raw of
              Some (JObject ms) \<Rightarrow> Inr ms
            | Some JNull \<Rightarrow> Inl ''action args must be a JSON object''
            | Some _ \<Rightarrow> Inl ''json: cannot unmarshal value into an object''
            | None \<Rightarrow> Inl ''invalid JSON''))"

text \<open>\<^verbatim>\<open>DecodeArgs\<close>: the object check, then the plugin's own typed decoding.\<close>

definition decode_args :: "(string \<Rightarrow> error + 'd) \<Rightarrow> string \<Rightarrow> error + 'd" where
  "decode_args typed raw =
     (let raw' = (if args_absent raw then ''{}'' else raw) in
      and_then (object_args raw') (\<lambda>_. typed raw'))"

text \<open>
  \<^verbatim>\<open>StringArg\<close>: a missing or null member is the empty string, any other type an error.
\<close>

definition string_arg :: "string \<Rightarrow> string \<Rightarrow> error + string" where
  "string_arg raw key =
     and_then (object_args raw) (\<lambda>ms.
       case object_map ms key of
         None \<Rightarrow> Inr []
       | Some JNull \<Rightarrow> Inr []
       | Some (JString s) \<Rightarrow> Inr s
       | Some _ \<Rightarrow> Inl (''argument '' @ quoted key @ '' must be a string''))"

text \<open>The core-reserved finish action (core.go, \<^verbatim>\<open>Finish\<close>).\<close>

definition finish_action :: "string \<Rightarrow> action" where
  "finish_action reason =
     \<lparr>act_id = [], act_kind = ActFinish,
      act_args = args_json (JObject [(''reason'', JString reason)]), act_danger = no_danger\<rparr>"

lemma observation_text_empty_iff:
  "observation_text tr = [] \<longleftrightarrow> tr_error tr = [] \<and> tr_output tr = []"
  by (simp add: observation_text_def)

lemma object_args_absent [simp]: "args_absent raw \<Longrightarrow> object_args raw = Inr []"
  by (simp add: object_args_def)

lemma string_arg_absent: "args_absent raw \<Longrightarrow> string_arg raw key = Inr []"
  by (simp add: string_arg_def object_map_def)

end
