(* ===== verification/Core_Types.thy ===== *)
theory Core_Types
  imports Protocol Complex_Main
begin

section \<open>Data of the agent core (core.go, hooks.go, permission.go, preflight.go)\<close>

text \<open>
  The records and enumerations of package pons. Code that an application plugs in (brains,
  hooks, tool handlers, middleware, approval handlers, event sinks) is a function argument.
  Such code may keep state and may run concurrently, so each of its functions also receives
  the moment of its call: a clock that never repeats within a run (the length of the log of
  everything that happened before), and, for calls made concurrently, the index of the call
  and its round. Whatever a stateful plugin answers in some execution is the value of some
  function of moment and input, so a statement about all such functions covers all plugins
  and all interleavings.
\<close>

subsection \<open>Numbers\<close>

text \<open>A float64 as the code compares it: a finite value is a rational.\<close>

datatype float64 = FNaN | FPosInf | FNegInf | FNum rat

fun float_le :: "float64 \<Rightarrow> float64 \<Rightarrow> bool" where
  "float_le FNaN _ = False"
| "float_le _ FNaN = False"
| "float_le FNegInf _ = True"
| "float_le _ FPosInf = True"
| "float_le (FNum a) (FNum b) = (a \<le> b)"
| "float_le _ _ = False"

subsection \<open>Permissions\<close>

text \<open>\<^verbatim>\<open>Permission\<close> is an open string type: the empty string, the three constants, anything else.\<close>

datatype permission = Unset | Allow | Ask | Deny | Unknown string

record action_assessment =
  as_risk :: string
  as_confidence :: float64
  as_probability :: bool
  as_reason_code :: string
  as_classifier :: string

record permission_decision =
  pd_permission :: permission
  pd_reason :: string
  pd_assessment :: "action_assessment option"

definition decision :: "permission \<Rightarrow> string \<Rightarrow> permission_decision" where
  "decision p r = \<lparr>pd_permission = p, pd_reason = r, pd_assessment = None\<rparr>"

subsection \<open>Tools and requests\<close>

record tool_param =
  tp_name :: string
  tp_type :: string
  tp_description :: string
  tp_required :: bool

record tool_source =
  so_plugin_name :: string
  so_plugin_version :: string
  so_capability :: string
  so_capability_version :: int
  so_executable :: string
  so_external :: bool
  so_remote :: bool

record tool_spec =
  ts_kind :: action_kind
  ts_description :: string
  ts_params :: "tool_param list"
  ts_input_schema :: string
  ts_source :: tool_source

record action_environment =
  ae_provider :: string
  ae_network :: string

record tool_resource =
  res_kind :: string
  res_value :: string

datatype context_source = ContextUser | ContextAssistant | ContextAction | ContextToolResult

record context_item =
  ci_source :: context_source
  ci_action_id :: string
  ci_kind :: action_kind
  ci_text :: string

record start_input =
  si_turn :: nat
  si_message :: string
  si_workspace :: string
  si_platform :: string
  si_environment :: action_environment
  si_action :: action
  si_tool :: "tool_spec option"
  si_resources :: "tool_resource list"
  si_resource_error :: bool
  si_recent :: "context_item list"

datatype part_type = PartText | PartToolCall | PartOther string

record assistant_part =
  ap_type :: part_type
  ap_text :: string
  ap_action :: action

record assistant_response =
  ar_parts :: "assistant_part list"
  ar_actions :: "action list"

record run_result =
  rr_answer :: string
  rr_turns :: nat
  rr_exhausted :: bool
  rr_history :: "turn_log list"

definition empty_result :: run_result where
  "empty_result = \<lparr>rr_answer = [], rr_turns = 0, rr_exhausted = False, rr_history = []\<rparr>"

subsection \<open>Hooks\<close>

record hook_output =
  ho_stop :: bool
  ho_stop_reason :: string
  ho_system_message :: string
  ho_additional_context :: string

record start_output =
  sto_common :: hook_output
  sto_permission :: permission
  sto_fallback :: permission
  sto_reason :: string
  sto_assessment :: "action_assessment option"
  sto_updated_input :: string

record permission_input =
  pi_start :: start_input
  pi_decision :: permission_decision

record permission_output =
  po_common :: hook_output
  po_permission :: permission

record call_end_input =
  ce_turn :: nat
  ce_action :: action
  ce_tool :: "tool_spec option"
  ce_result :: tool_result
  ce_decision :: "permission_decision option"

record call_end_output =
  co_common :: hook_output
  co_result :: "tool_result option"

record agent_start_input =
  as_message :: string
  as_workspace :: string
  as_platform :: string

record turn_end_input =
  te_turn :: nat
  te_log :: turn_log
  te_err :: "error option"

datatype end_reason = EndNone | EndFinished | EndStopped | EndExhausted | EndFailed

record agent_end_input =
  ae_result :: run_result
  ae_err :: "error option"
  ae_reason :: end_reason
  ae_stop_reason :: string

record agent_end_output =
  ao_common :: hook_output
  ao_continue :: bool
  ao_reason :: string

type_synonym clock = nat

text \<open>A moment of a concurrent call: clock, index of the call, round.\<close>

type_synonym moment = "nat \<times> nat \<times> nat"

text \<open>
  A start hook that fails still returns an output value, and the code reads its permission.
\<close>

record hooks =
  on_agent_start :: "(clock \<Rightarrow> agent_start_input \<Rightarrow> error + hook_output) option"
  on_turn_start :: "(clock \<Rightarrow> nat \<times> observation \<Rightarrow> error + hook_output) option"
  on_assistant_response :: "(clock \<Rightarrow> nat \<times> assistant_response \<Rightarrow> error + hook_output) option"
  on_tool_call_start :: "(moment \<Rightarrow> start_input \<Rightarrow> error option \<times> start_output) option"
  on_permission_request :: "(clock \<Rightarrow> permission_input \<Rightarrow> error + permission_output) option"
  on_tool_call_end :: "(clock \<Rightarrow> call_end_input \<Rightarrow> error + call_end_output) option"
  on_turn_end :: "(clock \<Rightarrow> turn_end_input \<Rightarrow> error + hook_output) option"
  on_agent_end :: "(clock \<Rightarrow> agent_end_input \<Rightarrow> error + agent_end_output) option"

record hook_effects =
  fx_stop :: bool
  fx_stop_reason :: string
  fx_context :: "string list"
  fx_messages :: "string list"

definition no_effects :: hook_effects where
  "no_effects = \<lparr>fx_stop = False, fx_stop_reason = [], fx_context = [], fx_messages = []\<rparr>"

subsection \<open>Events and the log of a run\<close>

datatype event_type =
    EventAgentStart | EventTurnStart | EventAssistantResponse | EventActionStart
  | EventActionDecision | EventActionDenied | EventHookError | EventSystemMessage
  | EventActionEnd | EventTurnEnd | EventFinish | EventStopped | EventExhausted

record event =
  ev_type :: event_type
  ev_turn :: nat
  ev_text :: string
  ev_action :: "action option"
  ev_result :: "tool_result option"
  ev_tool :: "tool_spec option"
  ev_actions :: "action list"
  ev_results :: "tool_result list"
  ev_parts :: "assistant_part list"
  ev_decision :: "permission_decision option"

definition plain_event :: "event_type \<Rightarrow> nat \<Rightarrow> string \<Rightarrow> event" where
  "plain_event t n txt =
     \<lparr>ev_type = t, ev_turn = n, ev_text = txt, ev_action = None, ev_result = None, ev_tool = None,
      ev_actions = [], ev_results = [], ev_parts = [], ev_decision = None\<rparr>"

datatype hook_kind =
    HookAgentStart | HookTurnStart | HookAssistantResponse | HookPermission
  | HookToolCallEnd | HookTurnEnd | HookAgentEnd

text \<open>
  Everything observable that a run does, in order: events, hook calls, brain calls,
  approval calls, preflight of a turn's calls, looks at the context and execution of an action.
\<close>

datatype log_entry =
    LEvent event
  | LHook hook_kind nat
  | LRespond nat
  | LInterpret nat
  | LReconcile nat
  | LApproval nat
  | LPreflight nat
  | LContext
  | LExecute nat nat action

type_synonym run_log = "log_entry list"

subsection \<open>The core and the code plugged into it\<close>

datatype exec_outcome = Returned tool_result "error option" | Panicked string

type_synonym tool_port = "moment \<Rightarrow> action \<Rightarrow> exec_outcome"

record brain =
  br_respond :: "clock \<Rightarrow> observation \<Rightarrow> error + assistant_response"
  br_interpret :: "clock \<Rightarrow> observation \<Rightarrow> tool_result \<Rightarrow> error + interpret_result"
  br_reconcile :: "(clock \<Rightarrow> assistant_response \<Rightarrow> error option) option"

text \<open>
  \<^verbatim>\<open>c_ctx_err\<close> is what \<^verbatim>\<open>ctx.Err()\<close> returns when the run consults it, \<^verbatim>\<open>c_now\<close>
  the wall clock; both are the run's environment. Plain event observers return nothing and
  see every entry of the log, so only the checked sinks are kept.
\<close>

record core =
  c_brain :: "brain option"
  c_workspace :: string
  c_platform :: string
  c_environment :: action_environment
  c_recent :: "context_item list"
  c_max_turns :: int
  c_handlers :: "action_kind \<rightharpoonup> tool_port"
  c_specs :: "(action_kind \<times> tool_spec) list"
  c_wraps :: "(tool_port \<Rightarrow> tool_port) list"
  c_sinks :: "(clock \<Rightarrow> event \<Rightarrow> error option) list"
  c_hooks :: "hooks list"
  c_approver :: "(clock \<Rightarrow> permission_input \<Rightarrow> error + permission) option"
  c_resources :: "action_kind \<rightharpoonup> (action \<Rightarrow> error + tool_resource list)"
  c_ctx_err :: "clock \<Rightarrow> error option"
  c_now :: "clock \<Rightarrow> int"

text \<open>\<^verbatim>\<open>New\<close>: zero capabilities. The context and the clock are those of the run.\<close>

definition new_core :: "(clock \<Rightarrow> error option) \<Rightarrow> (clock \<Rightarrow> int) \<Rightarrow> core" where
  "new_core ctx now =
     \<lparr>c_brain = None, c_workspace = [], c_platform = [],
      c_environment = \<lparr>ae_provider = [], ae_network = []\<rparr>, c_recent = [], c_max_turns = 0,
      c_handlers = (\<lambda>_. None), c_specs = [], c_wraps = [], c_sinks = [], c_hooks = [],
      c_approver = None, c_resources = (\<lambda>_. None), c_ctx_err = ctx, c_now = now\<rparr>"

definition no_hooks :: hooks where
  "no_hooks =
     \<lparr>on_agent_start = None, on_turn_start = None, on_assistant_response = None,
      on_tool_call_start = None, on_permission_request = None, on_tool_call_end = None,
      on_turn_end = None, on_agent_end = None\<rparr>"

end
