(* ===== verification/Hooks.thy ===== *)
theory Hooks
  imports Core_Types
begin

section \<open>The state of a run, the event stream and the lifecycle hooks (hooks.go, core.go emit)\<close>

text \<open>
  The local variables of \<^verbatim>\<open>Run\<close> that outlive a statement are the record
  \<open>run_state\<close>, together with the log of everything observable. A piece of the loop is a
  function from the state to the state and either an exit or a value; \<open>then_do\<close> sequences
  two pieces. The exit of a helper is its error; the exit of the loop itself is
  \<^verbatim>\<open>return result, err\<close>, the state holding the result.
\<close>

subsection \<open>The state of a run\<close>

record run_state =
  rs_log :: run_log
  rs_fx :: hook_effects
  rs_denials :: "string \<Rightarrow> nat"
  rs_recent :: "context_item list"
  rs_history :: "turn_log list"
  rs_result :: run_result
  rs_agent_open :: bool
  rs_open_turn :: "turn_log option"
  rs_end_reason :: end_reason
  rs_end_stop :: string

type_synonym ('x, 'a) run = "run_state \<Rightarrow> run_state \<times> ('x + 'a)"

definition give :: "'a \<Rightarrow> ('x, 'a) run" where
  "give a s = (s, Inr a)"

definition exit_with :: "'x \<Rightarrow> ('x, 'a) run" where
  "exit_with x s = (s, Inl x)"

definition update :: "(run_state \<Rightarrow> run_state) \<Rightarrow> ('x, unit) run" where
  "update f s = (f s, Inr ())"

definition gets :: "(run_state \<Rightarrow> 'a) \<Rightarrow> ('x, 'a) run" where
  "gets f s = (s, Inr (f s))"

definition then_do :: "('x, 'a) run \<Rightarrow> ('a \<Rightarrow> ('x, 'b) run) \<Rightarrow> ('x, 'b) run" where
  "then_do m f s = (case m s of (s', Inl x) \<Rightarrow> (s', Inl x) | (s', Inr a) \<Rightarrow> f a s')"

definition map_exit :: "('x \<Rightarrow> 'y) \<Rightarrow> ('x, 'a) run \<Rightarrow> ('y, 'a) run" where
  "map_exit g m s = (case m s of (s', Inl x) \<Rightarrow> (s', Inl (g x)) | (s', Inr a) \<Rightarrow> (s', Inr a))"

fun each :: "('a \<Rightarrow> ('x, unit) run) \<Rightarrow> 'a list \<Rightarrow> ('x, unit) run" where
  "each f [] = give ()"
| "each f (x # xs) = then_do (f x) (\<lambda>_. each f xs)"

text \<open>\<open>keeps I m\<close>: the piece \<open>m\<close> preserves \<open>I\<close>, whether it exits or not.\<close>

definition keeps :: "(run_state \<Rightarrow> bool) \<Rightarrow> ('x, 'a) run \<Rightarrow> bool" where
  "keeps I m \<longleftrightarrow> (\<forall>s. I s \<longrightarrow> I (fst (m s)))"

lemma keeps_give [inv_intros]: "keeps I (give a)"
  by (simp add: keeps_def give_def)

lemma keeps_exit [inv_intros]: "keeps I (exit_with a)"
  by (simp add: keeps_def exit_with_def)

lemma keeps_gets [inv_intros]: "keeps I (gets f)"
  by (simp add: keeps_def gets_def)

lemma keeps_update: "(\<And>s. I s \<Longrightarrow> I (f s)) \<Longrightarrow> keeps I (update f)"
  by (simp add: keeps_def update_def)

lemma keeps_then [inv_intros]:
  "keeps I m \<Longrightarrow> (\<And>a. keeps I (f a)) \<Longrightarrow> keeps I (then_do m f)"
  unfolding keeps_def then_do_def by (fastforce split: prod.splits sum.splits)

lemma keeps_map_exit [inv_intros]: "keeps I m \<Longrightarrow> keeps I (map_exit g m)"
  unfolding keeps_def map_exit_def by (fastforce split: prod.splits sum.splits)

lemma keeps_each [inv_intros]: "(\<And>x. x \<in> set xs \<Longrightarrow> keeps I (f x)) \<Longrightarrow> keeps I (each f xs)"
  by (induction xs) (auto intro: keeps_give keeps_then)

lemma keeps_if [inv_intros]: "keeps I m \<Longrightarrow> keeps I m' \<Longrightarrow> keeps I (if b then m else m')"
  by simp

lemma keepsD: "keeps I m \<Longrightarrow> I s \<Longrightarrow> I (fst (m s))"
  by (simp add: keeps_def)

lemma keepsE: "keeps I m \<Longrightarrow> I s \<Longrightarrow> m s = (s', r) \<Longrightarrow> I s'"
  by (metis fst_conv keeps_def)

lemma then_do_Inr_iff:
  "then_do m f s = (t, Inr b) \<longleftrightarrow> (\<exists>s' a. m s = (s', Inr a) \<and> f a s' = (t, Inr b))"
  by (auto simp: then_do_def split: prod.splits sum.splits)

lemma then_do_Inl_iff:
  "then_do m f s = (t, Inl x) \<longleftrightarrow>
     m s = (t, Inl x) \<or> (\<exists>s' a. m s = (s', Inr a) \<and> f a s' = (t, Inl x))"
  by (auto simp: then_do_def split: prod.splits sum.splits)

lemma map_exit_Inr_iff: "map_exit g m s = (t, Inr a) \<longleftrightarrow> m s = (t, Inr a)"
  by (auto simp: map_exit_def split: prod.splits sum.splits)

lemma run_piece_simps [simp]:
  "give a s = (t, Inr b) \<longleftrightarrow> t = s \<and> b = a"
  "update f s = (t, Inr u) \<longleftrightarrow> t = f s"
  "gets g s = (t, Inr c) \<longleftrightarrow> t = s \<and> c = g s"
  "exit_with x s \<noteq> (t, Inr c)"
  by (auto simp: give_def update_def gets_def exit_with_def)

subsection \<open>Events and hooks\<close>

definition note_entry :: "log_entry \<Rightarrow> ('x, unit) run" where
  "note_entry x = update (\<lambda>s. s\<lparr>rs_log := rs_log s @ [x]\<rparr>)"

fun first_error :: "(event \<Rightarrow> error option) list \<Rightarrow> event \<Rightarrow> error option" where
  "first_error [] e = None"
| "first_error (f # fs) e = (case f e of Some er \<Rightarrow> Some er | None \<Rightarrow> first_error fs e)"

text \<open>\<^verbatim>\<open>emit\<close>: observers see the event, then the checked sinks until one fails.\<close>

definition emit :: "core \<Rightarrow> event \<Rightarrow> (error, unit) run" where
  "emit c e s =
     (let k = length (rs_log s); s' = s\<lparr>rs_log := rs_log s @ [LEvent e]\<rparr> in
      case first_error (map (\<lambda>f. f k) (c_sinks c)) e of
        None \<Rightarrow> (s', Inr ())
      | Some er \<Rightarrow> (s', Inl er))"

definition add_hooks :: "hooks \<Rightarrow> core \<Rightarrow> core" where
  "add_hooks h c = c\<lparr>c_hooks := c_hooks c @ [h]\<rparr>"

definition fx_add :: "hook_effects \<Rightarrow> hook_output \<Rightarrow> hook_effects" where
  "fx_add fx out =
     (let fx1 = (if ho_stop out \<and> \<not> fx_stop fx
                 then fx\<lparr>fx_stop := True, fx_stop_reason := ho_stop_reason out\<rparr> else fx);
          fx2 = (if ho_additional_context out \<noteq> []
                 then fx1\<lparr>fx_context := fx_context fx1 @ [ho_additional_context out]\<rparr> else fx1)
      in if ho_system_message out \<noteq> []
         then fx2\<lparr>fx_messages := fx_messages fx2 @ [ho_system_message out]\<rparr> else fx2)"

definition hook_failure :: "string \<Rightarrow> nat \<Rightarrow> error \<Rightarrow> error" where
  "hook_failure name i e = name @ '' hook '' @ show_nat i @ '': '' @ e"

text \<open>
  \<^verbatim>\<open>runHooks\<close>: the result is the list of errors and the list of successful outputs, which
  is what the callback \<^verbatim>\<open>use\<close> is applied to, in order.
\<close>

fun run_hooks_from :: "nat \<Rightarrow> hook_kind \<Rightarrow> string \<Rightarrow> (hooks \<Rightarrow> (clock \<Rightarrow> 'i \<Rightarrow> error + 'o) option)
    \<Rightarrow> ('o \<Rightarrow> hook_output) \<Rightarrow> 'i \<Rightarrow> hooks list \<Rightarrow> run_state \<Rightarrow> run_state \<times> error list \<times> 'o list" where
  "run_hooks_from i k name sel common inp [] s = (s, [], [])"
| "run_hooks_from i k name sel common inp (h # hs) s =
     (case sel h of
        None \<Rightarrow> run_hooks_from (Suc i) k name sel common inp hs s
      | Some f \<Rightarrow>
          (let s1 = s\<lparr>rs_log := rs_log s @ [LHook k (Suc i)]\<rparr> in
           case f (length (rs_log s)) inp of
             Inl e \<Rightarrow>
               (let (t, es, os) = run_hooks_from (Suc i) k name sel common inp hs s1
                in (t, hook_failure name (Suc i) e # es, os))
           | Inr out \<Rightarrow>
               (let (t, es, os) = run_hooks_from (Suc i) k name sel common inp hs
                      (s1\<lparr>rs_fx := fx_add (rs_fx s1) (common out)\<rparr>)
                in (t, es, out # os))))"

definition run_hooks :: "core \<Rightarrow> hook_kind \<Rightarrow> string \<Rightarrow> (hooks \<Rightarrow> (clock \<Rightarrow> 'i \<Rightarrow> error + 'o) option)
    \<Rightarrow> ('o \<Rightarrow> hook_output) \<Rightarrow> 'i \<Rightarrow> ('x, error list \<times> 'o list) run" where
  "run_hooks c k name sel common inp s =
     (let (t, es, os) = run_hooks_from 0 k name sel common inp (c_hooks c) s in (t, Inr (es, os)))"

definition clear_messages :: "('x, unit) run" where
  "clear_messages = update (\<lambda>s. s\<lparr>rs_fx := (rs_fx s)\<lparr>fx_messages := []\<rparr>\<rparr>)"

definition report_hooks :: "core \<Rightarrow> nat \<Rightarrow> error list \<Rightarrow> (error, unit) run" where
  "report_hooks c n errs =
     then_do (each (\<lambda>e. map_exit (\<lambda>m. ''event hook_error: '' @ m)
                          (emit c (plain_event EventHookError n e))) errs)
       (\<lambda>_. then_do (gets (\<lambda>s. fx_messages (rs_fx s)))
         (\<lambda>msgs. then_do (each (\<lambda>msg. map_exit (\<lambda>m. ''event system_message: '' @ m)
                                (emit c (plain_event EventSystemMessage n msg))) msgs)
           (\<lambda>_. clear_messages)))"

text \<open>\<^verbatim>\<open>runStep\<close> (core.go): one simple lifecycle step, whose outputs are only common ones.\<close>

definition run_step :: "core \<Rightarrow> nat \<Rightarrow> hook_kind \<Rightarrow> string
    \<Rightarrow> (hooks \<Rightarrow> (clock \<Rightarrow> 'i \<Rightarrow> error + hook_output) option) \<Rightarrow> 'i \<Rightarrow> (error, unit) run" where
  "run_step c n k name sel inp =
     then_do (run_hooks c k name sel (\<lambda>out. out) inp) (\<lambda>(errs, outs). report_hooks c n errs)"

subsection \<open>What the pieces keep\<close>

lemma keeps_note:
  "(\<And>s. I s \<Longrightarrow> I (s\<lparr>rs_log := rs_log s @ [x]\<rparr>)) \<Longrightarrow> keeps I (note_entry x)"
  unfolding note_entry_def by (rule keeps_update)

lemma emit_state: "fst (emit c e s) = s\<lparr>rs_log := rs_log s @ [LEvent e]\<rparr>"
  by (simp add: emit_def Let_def split: option.split)

lemma keeps_emit:
  "(\<And>s. I s \<Longrightarrow> I (s\<lparr>rs_log := rs_log s @ [LEvent e]\<rparr>)) \<Longrightarrow> keeps I (emit c e)"
  by (simp add: keeps_def emit_state)

lemma emit_Inr: "emit c e s = (t, Inr u) \<Longrightarrow> t = s\<lparr>rs_log := rs_log s @ [LEvent e]\<rparr>"
  by (metis emit_state fst_conv)

lemma run_hooks_from_inv:
  assumes "\<And>s j. I s \<Longrightarrow> I (s\<lparr>rs_log := rs_log s @ [LHook k j]\<rparr>)"
    and "\<And>s out. I s \<Longrightarrow> I (s\<lparr>rs_fx := fx_add (rs_fx s) out\<rparr>)"
    and "I s"
  shows "I (fst (run_hooks_from i k name sel common inp hs s))"
  using assms(3)
proof (induction hs arbitrary: i s)
  case (Cons h hs)
  from Cons.prems have I1: "I (s\<lparr>rs_log := rs_log s @ [LHook k (Suc i)]\<rparr>)" by (rule assms(1))
  show ?case
    using Cons.IH [OF Cons.prems] Cons.IH [OF I1] Cons.IH [OF assms(2) [OF I1]]
    by (simp add: Let_def case_prod_beta split: option.split sum.split)
qed simp

lemma keeps_run_hooks:
  assumes "\<And>s j. I s \<Longrightarrow> I (s\<lparr>rs_log := rs_log s @ [LHook k j]\<rparr>)"
    and "\<And>s out. I s \<Longrightarrow> I (s\<lparr>rs_fx := fx_add (rs_fx s) out\<rparr>)"
  shows "keeps I (run_hooks c k name sel common inp)"
  unfolding keeps_def run_hooks_def
  by (auto simp: case_prod_beta intro: run_hooks_from_inv [of I, OF assms])

lemma run_hooks_total: "\<exists>t es os. run_hooks c k name sel common inp s = (t, Inr (es, os))"
  by (simp add: run_hooks_def case_prod_beta)

text \<open>What the outputs and errors of a hook pass say about the hooks.\<close>

lemma run_hooks_from_answers:
  assumes "run_hooks_from i k name sel common inp hs s = (t, es, os)"
  shows "out \<in> set os \<Longrightarrow> \<exists>h \<in> set hs. \<exists>f n. sel h = Some f \<and> f n inp = Inr out"
    and "es = [] \<Longrightarrow> h \<in> set hs \<Longrightarrow> sel h = Some f \<Longrightarrow> \<exists>n out. f n inp = Inr out \<and> out \<in> set os"
  using assms
proof (induction hs arbitrary: i s t es os)
  case Nil
  { case 1 then show ?case by simp next case 2 then show ?case by simp }
next
  case (Cons g hs)
  { case 1
    then show ?case
      by (auto simp: Let_def split: option.splits sum.splits prod.splits dest: Cons.IH(1))
         (metis Cons.IH(1))+
  next
    case 2
    then show ?case
      by (auto simp: Let_def split: option.splits sum.splits prod.splits dest: Cons.IH(2))
         (metis Cons.IH(2))+ }
qed

lemma run_hooks_answers:
  assumes "run_hooks c k name sel common inp s = (t, Inr (es, os))"
  shows "out \<in> set os \<Longrightarrow> \<exists>h \<in> set (c_hooks c). \<exists>f n. sel h = Some f \<and> f n inp = Inr out"
    and "es = [] \<Longrightarrow> h \<in> set (c_hooks c) \<Longrightarrow> sel h = Some f \<Longrightarrow>
           \<exists>n out. f n inp = Inr out \<and> out \<in> set os"
  using assms run_hooks_from_answers [where hs = "c_hooks c" and i = 0 and s = s]
  by (fastforce simp: run_hooks_def split: prod.splits)+

text \<open>A stop request is never withdrawn, and its first reason stays.\<close>

lemma fx_add_stop: "fx_stop fx \<Longrightarrow> fx_stop (fx_add fx out) \<and> fx_stop_reason (fx_add fx out) = fx_stop_reason fx"
  by (simp add: fx_add_def Let_def)

lemma keeps_report_hooks:
  assumes "\<And>s e. I s \<Longrightarrow> ev_type e \<in> {EventHookError, EventSystemMessage} \<Longrightarrow>
      I (s\<lparr>rs_log := rs_log s @ [LEvent e]\<rparr>)"
    and "\<And>s. I s \<Longrightarrow> I (s\<lparr>rs_fx := (rs_fx s)\<lparr>fx_messages := []\<rparr>\<rparr>)"
  shows "keeps I (report_hooks c n errs)"
  unfolding report_hooks_def clear_messages_def
  by (intro keeps_then keeps_each keeps_map_exit keeps_emit keeps_gets keeps_update assms)
     (simp_all add: plain_event_def)

end
