(* ===== verification/Permission.thy ===== *)
theory Permission
  imports Hooks
begin

section \<open>Permission decisions (permission.go)\<close>

text \<open>
  How the answers about one pending tool call are merged, sanitised and resolved. The law
  that makes the merge safe is stated once, in the locale \<open>veto_merge\<close>, for any merge that
  keeps the larger rank; \<^verbatim>\<open>mergeDecision\<close> interprets it.
\<close>

subsection \<open>Reason codes and denial keys\<close>

definition reason_char :: "char \<Rightarrow> bool" where
  "reason_char ch \<longleftrightarrow>
     (97 \<le> byte ch \<and> byte ch \<le> 122) \<or> (48 \<le> byte ch \<and> byte ch \<le> 57) \<or> ch = CHR ''_''"

text \<open>\<^verbatim>\<open>^[a-z][a-z0-9_]{0,63}$\<close>\<close>

fun reason_code_ok :: "string \<Rightarrow> bool" where
  "reason_code_ok [] = False"
| "reason_code_ok (ch # cs) \<longleftrightarrow>
     97 \<le> byte ch \<and> byte ch \<le> 122 \<and> length cs \<le> 63 \<and> list_all reason_char cs"

declare reason_code_ok.simps(2) [simp del]

definition safe_reason_code :: "string \<Rightarrow> string \<Rightarrow> string" where
  "safe_reason_code code fallback = (if reason_code_ok code then code else fallback)"

definition denied_result :: "action \<Rightarrow> string \<Rightarrow> tool_result" where
  "denied_result a reason =
     zero_result\<lparr>tr_action_id := act_id a, tr_kind := act_kind a, tr_ok := False,
       tr_error := ''tool call was not allowed (reason: ''
                   @ safe_reason_code reason ''tool_call_denied'' @ '')''\<rparr>"

text \<open>The key under which denials of a call are counted: its kind and normal-form arguments.\<close>

definition denial_key :: "action \<Rightarrow> string" where
  "denial_key a =
     act_kind a @ [CHR 0x00] @
     (if args_absent (act_args a) then ''{}''
      else (case decode_first (act_args a) of
              Some v \<Rightarrow> marshal v
            | None \<Rightarrow> act_args a))"

definition repeated_denial_limit :: nat where
  "repeated_denial_limit = 3"

subsection \<open>One hook's answer\<close>

definition hook_decision :: "start_output \<Rightarrow> permission_decision" where
  "hook_decision out =
     (case sto_permission out of
        Unset \<Rightarrow> decision Allow []
      | Unknown _ \<Rightarrow> decision Ask ''tool_call_start_uncertain''
      | p \<Rightarrow> \<lparr>pd_permission = p, pd_reason = sto_reason out, pd_assessment = sto_assessment out\<rparr>)"

definition fallback_decision :: "start_output \<Rightarrow> permission_decision" where
  "fallback_decision out =
     (if sto_fallback out = Deny then decision Deny (sto_reason out)
      else decision Ask (sto_reason out))"

subsection \<open>Merging\<close>

fun rank :: "permission \<Rightarrow> nat" where
  "rank Allow = 0"
| "rank Ask = 1"
| "rank Deny = 2"
| "rank Unset = 0"
| "rank (Unknown _) = 0"

definition merge_decision :: "permission_decision \<Rightarrow> permission_decision \<Rightarrow> permission_decision" where
  "merge_decision current candidate =
     (if rank (pd_permission candidate) > rank (pd_permission current) then candidate
      else if rank (pd_permission candidate) = rank (pd_permission current)
              \<and> pd_reason current = [] \<and> pd_assessment current = None then candidate
      else current)"

definition sanitize_decision :: "permission_decision \<Rightarrow> permission_decision" where
  "sanitize_decision d =
     (let d1 = (if pd_permission d = Deny
                then d\<lparr>pd_reason := safe_reason_code (pd_reason d) ''tool_call_denied''\<rparr>
                else if pd_reason d \<noteq> []
                then d\<lparr>pd_reason := safe_reason_code (pd_reason d) ''reason_unavailable''\<rparr>
                else d)
      in (case pd_assessment d1 of
            None \<Rightarrow> d1
          | Some a \<Rightarrow>
              if as_reason_code a \<noteq> []
              then d1\<lparr>pd_assessment := Some (a\<lparr>as_reason_code :=
                     safe_reason_code (as_reason_code a) ''reason_unavailable''\<rparr>)\<rparr>
              else d1))"

text \<open>
  A merge of answers in which the larger rank prevails. Folding such a merge over any
  list of answers gives the maximal rank, so the outcome does not depend on the order of
  the answers, and one top-ranked answer is a veto.
\<close>

locale veto_merge =
  fixes weight :: "'d \<Rightarrow> nat" and merge :: "'d \<Rightarrow> 'd \<Rightarrow> 'd"
  assumes weight_merge: "weight (merge a b) = max (weight a) (weight b)"
    and merge_choice: "merge a b = a \<or> merge a b = b"
begin

lemma weight_fold: "weight (foldl merge a ds) = Max (weight ` set (a # ds))"
proof (induction ds arbitrary: a)
  case (Cons d ds)
  have "weight (foldl merge a (d # ds)) = Max (weight ` set (merge a d # ds))"
    using Cons.IH by simp
  also have "\<dots> = Max (weight ` set (a # d # ds))"
    by (cases "ds = []") (auto simp: weight_merge max.assoc)
  finally show ?case .
qed simp

lemma weight_fold_set: "set ds = set es \<Longrightarrow> weight (foldl merge a ds) = weight (foldl merge a es)"
  by (simp add: weight_fold)

lemma fold_veto: "d \<in> set ds \<Longrightarrow> weight d \<le> weight (foldl merge a ds)"
  by (simp add: weight_fold)

lemma fold_start: "weight a \<le> weight (foldl merge a ds)"
  by (simp add: weight_fold)

lemma fold_member: "foldl merge a ds \<in> set (a # ds)"
proof (induction ds arbitrary: a)
  case (Cons d ds)
  then show ?case using merge_choice [of a d] by (metis foldl_Cons list.set_intros(1,2) set_ConsD)
qed simp

end

interpretation answers: veto_merge "\<lambda>d. rank (pd_permission d)" merge_decision
  by unfold_locales (auto simp: merge_decision_def)

text \<open>The three permissions that a decision of the core can carry.\<close>

definition settled :: "permission \<Rightarrow> bool" where
  "settled p \<longleftrightarrow> p \<in> {Allow, Ask, Deny}"

lemma settled_simps [simp]:
  "settled Allow" "settled Ask" "settled Deny" "\<not> settled Unset" "\<not> settled (Unknown s)"
  by (simp_all add: settled_def)

lemma settled_rank:
  "settled p \<Longrightarrow> rank p = 0 \<longleftrightarrow> p = Allow"
  "rank p = 1 \<longleftrightarrow> p = Ask" "rank p = 2 \<longleftrightarrow> p = Deny" "rank p \<le> 2"
  by (cases p; simp)+

lemma settled_hook_decision [simp]: "settled (pd_permission (hook_decision out))"
  by (simp add: hook_decision_def decision_def split: permission.split)

lemma settled_fallback_decision [simp]: "settled (pd_permission (fallback_decision out))"
  by (simp add: fallback_decision_def decision_def)

lemma settled_merge:
  "settled (pd_permission a) \<Longrightarrow> settled (pd_permission b) \<Longrightarrow> settled (pd_permission (merge_decision a b))"
  by (simp add: merge_decision_def)

lemma merge_deny_iff:
  "pd_permission (merge_decision a b) = Deny \<longleftrightarrow> pd_permission a = Deny \<or> pd_permission b = Deny"
  using answers.weight_merge [of a b] settled_rank(3,4) [of "pd_permission a"]
    settled_rank(3,4) [of "pd_permission b"] settled_rank(3) [of "pd_permission (merge_decision a b)"]
  by (auto simp: max_def split: if_splits)

lemma pd_permission_sanitize [simp]: "pd_permission (sanitize_decision d) = pd_permission d"
  by (simp add: sanitize_decision_def Let_def split: option.split)

subsection \<open>Asking\<close>

definition set_approval_handler ::
  "(clock \<Rightarrow> permission_input \<Rightarrow> error + permission) option \<Rightarrow> core \<Rightarrow> error + core" where
  "set_approval_handler fn c =
     (if fn = None then Inl ''pons: cannot install a nil approval handler''
      else if c_approver c \<noteq> None then Inl ''pons: approval handler already set''
      else Inr (c\<lparr>c_approver := fn\<rparr>))"

definition context_check :: "core \<Rightarrow> (error, unit) run" where
  "context_check c =
     then_do (note_entry LContext)
       (\<lambda>_. then_do (gets (\<lambda>s. c_ctx_err c (length (rs_log s))))
         (\<lambda>r. case r of Some e \<Rightarrow> exit_with e | None \<Rightarrow> give ()))"

definition answer_decision :: "permission_decision \<Rightarrow> error + permission \<Rightarrow> permission_decision" where
  "answer_decision d answer =
     (case answer of
        Inl e \<Rightarrow> d\<lparr>pd_permission := Deny, pd_reason := ''approval_unavailable''\<rparr>
      | Inr Allow \<Rightarrow> d\<lparr>pd_permission := Allow\<rparr>
      | Inr Deny \<Rightarrow> d\<lparr>pd_permission := Deny, pd_reason := ''approval_denied''\<rparr>
      | Inr _ \<Rightarrow> d\<lparr>pd_permission := Deny, pd_reason := ''invalid_approval''\<rparr>)"

definition ask_approver :: "core \<Rightarrow> permission_input \<Rightarrow> (error, permission_decision) run" where
  "ask_approver c inp =
     (case c_approver c of
        None \<Rightarrow> give ((pi_decision inp)\<lparr>pd_permission := Deny, pd_reason := ''approval_required''\<rparr>)
      | Some fn \<Rightarrow>
          then_do (gets (\<lambda>s. fn (length (rs_log s)) inp))
            (\<lambda>answer. then_do (note_entry (LApproval (si_turn (pi_start inp))))
              (\<lambda>_. then_do (context_check c)
                (\<lambda>_. give (answer_decision (pi_decision inp) answer)))))"

definition settle_request :: "core \<Rightarrow> permission_input \<Rightarrow> error list \<Rightarrow> permission_output list
    \<Rightarrow> (error, permission_decision) run" where
  "settle_request c inp errs outs =
     (if errs \<noteq> [] then
        give ((pi_decision inp)\<lparr>pd_permission := Deny, pd_reason := ''permission_hook_failed''\<rparr>)
      else if \<exists>out \<in> set outs. po_permission out \<noteq> Unset \<and> po_permission out \<noteq> Allow then
        give ((pi_decision inp)\<lparr>pd_permission := Deny, pd_reason := ''approval_denied''\<rparr>)
      else if \<exists>out \<in> set outs. po_permission out = Allow then
        give ((pi_decision inp)\<lparr>pd_permission := Allow\<rparr>)
      else ask_approver c inp)"

definition request_permission :: "core \<Rightarrow> permission_input \<Rightarrow> (error, permission_decision) run" where
  "request_permission c inp =
     then_do (run_hooks c HookPermission ''permission request'' on_permission_request po_common inp)
       (\<lambda>(errs, outs). then_do (context_check c)
         (\<lambda>_. then_do (report_hooks c (si_turn (pi_start inp)) errs)
           (\<lambda>_. settle_request c inp errs outs)))"

lemma answer_decision_allow_iff:
  "pd_permission (answer_decision d answer) = Allow \<longleftrightarrow> answer = Inr Allow"
  by (simp add: answer_decision_def split: sum.split permission.split)

lemma answer_decision_binary: "pd_permission (answer_decision d answer) \<in> {Allow, Deny}"
  by (simp add: answer_decision_def split: sum.split permission.split)

lemma ask_approver_binary:
  "ask_approver c inp s = (t, Inr d) \<Longrightarrow> pd_permission d \<in> {Allow, Deny}"
  using answer_decision_binary
  by (auto simp: ask_approver_def then_do_Inr_iff split: option.splits)

lemma ask_approver_allow:
  "ask_approver c inp s = (t, Inr d) \<Longrightarrow> pd_permission d = Allow \<Longrightarrow>
     \<exists>fn. c_approver c = Some fn \<and> fn (length (rs_log s)) inp = Inr Allow"
  by (auto simp: ask_approver_def then_do_Inr_iff answer_decision_allow_iff split: option.splits)

lemma settle_request_binary:
  "settle_request c inp errs outs s = (t, Inr d) \<Longrightarrow> pd_permission d \<in> {Allow, Deny}"
  using ask_approver_binary by (auto simp: settle_request_def split: if_splits)

lemma request_permission_steps:
  "request_permission c inp s = (t, Inr d) \<Longrightarrow>
     \<exists>t0 errs outs t1.
       run_hooks c HookPermission ''permission request'' on_permission_request po_common inp s
         = (t0, (Inr (errs, outs) :: error + _))
       \<and> settle_request c inp errs outs t1 = (t, Inr d)"
  by (clarsimp simp: request_permission_def then_do_Inr_iff) blast

lemma request_permission_binary:
  "request_permission c inp s = (t, Inr d) \<Longrightarrow> pd_permission d \<in> {Allow, Deny}"
  using request_permission_steps settle_request_binary by metis

lemma keeps_context_check:
  "(\<And>s. I s \<Longrightarrow> I (s\<lparr>rs_log := rs_log s @ [LContext]\<rparr>)) \<Longrightarrow> keeps I (context_check c)"
  unfolding context_check_def
  by (intro keeps_then keeps_note keeps_gets) (auto intro: inv_intros split: option.split)

subsection \<open>Properties\<close>

definition no_objection :: "permission \<Rightarrow> bool" where
  "no_objection p \<longleftrightarrow> p = Unset \<or> p = Allow"

lemma request_allow_cases:
  assumes "request_permission c inp s = (t, Inr d)" and "pd_permission d = Allow"
  obtains t0 outs where
    "run_hooks c HookPermission ''permission request'' on_permission_request po_common inp s
       = (t0, (Inr ([], outs) :: error + _))"
    and "\<forall>out \<in> set outs. no_objection (po_permission out)"
    and "(\<exists>out \<in> set outs. po_permission out = Allow)
       \<or> (\<exists>fn k. c_approver c = Some fn \<and> fn k inp = Inr Allow)"
proof -
  from request_permission_steps [OF assms(1)] obtain t0 errs outs t1 where
    run: "run_hooks c HookPermission ''permission request'' on_permission_request po_common inp s
       = (t0, (Inr (errs, outs) :: error + _))"
    and rest: "settle_request c inp errs outs t1 = (t, Inr d)"
    by blast
  note rest = rest [unfolded settle_request_def]
  from rest assms(2) have "errs = []" by (cases "errs = []") auto
  moreover from rest assms(2) this have "\<forall>out \<in> set outs. no_objection (po_permission out)"
    by (auto simp: no_objection_def split: if_splits)
  moreover from rest assms(2) \<open>errs = []\<close> have "(\<exists>out \<in> set outs. po_permission out = Allow)
       \<or> (\<exists>fn k. c_approver c = Some fn \<and> fn k inp = Inr Allow)"
    by (auto split: if_splits dest!: ask_approver_allow)
  ultimately show thesis using that run by blast
qed

text \<open>C37. An asked call is allowed only on an explicit answer: every permission hook answered
  without failure and without objection, and a hook or the approval handler said Allow.\<close>

theorem request_allow_explicit:
  assumes "request_permission c inp s = (t, Inr d)" and "pd_permission d = Allow"
  shows "(\<forall>h \<in> set (c_hooks c). \<forall>f. on_permission_request h = Some f \<longrightarrow>
            (\<exists>k out. f k inp = Inr out \<and> no_objection (po_permission out)))
       \<and> ((\<exists>h \<in> set (c_hooks c). \<exists>f k out. on_permission_request h = Some f
              \<and> f k inp = Inr out \<and> po_permission out = Allow)
          \<or> (\<exists>fn k. c_approver c = Some fn \<and> fn k inp = Inr Allow))"
proof -
  obtain t0 outs where run:
    "run_hooks c HookPermission ''permission request'' on_permission_request po_common inp s
       = (t0, (Inr ([], outs) :: error + _))"
    and ok: "\<forall>out \<in> set outs. no_objection (po_permission out)"
    and yes: "(\<exists>out \<in> set outs. po_permission out = Allow)
       \<or> (\<exists>fn k. c_approver c = Some fn \<and> fn k inp = Inr Allow)"
    using assms by (rule request_allow_cases)
  show ?thesis
    using run_hooks_answers(1) [OF run] run_hooks_answers(2) [OF run refl] ok yes by meson
qed

definition approving_core :: core where
  "approving_core = (new_core (\<lambda>_. None) (\<lambda>_. 0))\<lparr>c_approver := Some (\<lambda>_ _. Inr Allow)\<rparr>"

definition sample_start :: "string \<Rightarrow> start_input" where
  "sample_start kind =
     \<lparr>si_turn = 1, si_message = [], si_workspace = [], si_platform = [],
      si_environment = \<lparr>ae_provider = [], ae_network = []\<rparr>,
      si_action = \<lparr>act_id = ''c1'', act_kind = kind, act_args = ''{}'', act_danger = no_danger\<rparr>,
      si_tool = None, si_resources = [], si_resource_error = False, si_recent = []\<rparr>"

definition initial_state :: run_state where
  "initial_state =
     \<lparr>rs_log = [], rs_fx = no_effects, rs_denials = (\<lambda>_. 0), rs_recent = [], rs_history = [],
      rs_result = empty_result, rs_agent_open = False, rs_open_turn = None,
      rs_end_reason = EndNone, rs_end_stop = []\<rparr>"

lemma request_allow_explicit_witness:
  "\<exists>fn k. c_approver approving_core = Some fn
     \<and> fn k \<lparr>pi_start = sample_start ''bash'', pi_decision = decision Ask ''r''\<rparr> = Inr Allow"
proof -
  let ?inp = "\<lparr>pi_start = sample_start ''bash'', pi_decision = decision Ask ''r''\<rparr>"
  have "\<exists>t. request_permission approving_core ?inp initial_state = (t, Inr (decision Allow ''r''))"
    by (simp add: request_permission_def run_hooks_def approving_core_def new_core_def then_do_def
        context_check_def note_entry_def update_def gets_def give_def report_hooks_def settle_request_def clear_messages_def
        initial_state_def no_effects_def ask_approver_def answer_decision_def decision_def)
  then show ?thesis
    using request_allow_explicit [where c = approving_core and inp = ?inp]
    by (fastforce simp: decision_def approving_core_def new_core_def)
qed

end
