(* ===== verification/Preflight.thy ===== *)
theory Preflight
  imports Permission
begin

section \<open>Preflight: the start hooks decide every pending call (preflight.go)\<close>

text \<open>
  A turn's calls are decided concurrently; each decision is a function of the moment of
  its hook calls (clock of the turn's preflight, index of the call, round of input updates),
  so the list of decisions is the same for every interleaving.
\<close>

subsection \<open>Recent context\<close>

definition max_context_items :: nat where "max_context_items = 24"

definition max_context_text :: nat where "max_context_text = 2048"

definition max_input_updates :: nat where "max_input_updates = 8"

function trim_valid :: "string \<Rightarrow> string" where
  "trim_valid s = (if valid_utf8 s then s else trim_valid (butlast s))"
  by pat_completeness auto
termination
proof (relation "measure length", goal_cases)
  case (2 s)
  then have "s \<noteq> []" by (auto simp: valid_utf8_def)
  then show ?case by (simp add: length_greater_0_conv [symmetric] del: length_greater_0_conv)
qed simp

declare trim_valid.simps [simp del]

definition bounded_text :: "string \<Rightarrow> string" where
  "bounded_text s = (if length s > max_context_text then trim_valid (take max_context_text s) else s)"

definition bounded_action_context :: "context_item list \<Rightarrow> context_item list" where
  "bounded_action_context items =
     map (\<lambda>it. it\<lparr>ci_text := bounded_text (ci_text it)\<rparr>)
       (if length items > max_context_items then drop (length items - max_context_items) items else items)"

definition string_arg_resource :: "string \<Rightarrow> string \<Rightarrow> action \<Rightarrow> error + tool_resource list" where
  "string_arg_resource kind argument a =
     and_then (string_arg (act_args a) argument) (\<lambda>v. Inr [\<lparr>res_kind = kind, res_value = v\<rparr>])"

subsection \<open>Deciding one call\<close>

record call_decision =
  cd_input :: start_input
  cd_decision :: permission_decision
  cd_fx :: hook_effects
  cd_errs :: "error list"

text \<open>The variables of one pass over the start hooks.\<close>

record hook_pass =
  ps_decision :: permission_decision
  ps_decided :: bool
  ps_fallback :: "permission_decision option"
  ps_updated :: "string option"
  ps_fx :: hook_effects
  ps_errs :: "error list"

definition failed_decision :: "start_output \<Rightarrow> permission_decision" where
  "failed_decision out =
     (if sto_permission out = Deny then decision Deny (sto_reason out)
      else decision Ask ''tool_call_start_unavailable'')"

definition pass_failure :: "nat \<Rightarrow> error \<Rightarrow> start_output \<Rightarrow> hook_pass \<Rightarrow> hook_pass" where
  "pass_failure i e out p =
     p\<lparr>ps_errs := ps_errs p @ [hook_failure ''tool call start'' (Suc i) e],
       ps_decision := merge_decision (ps_decision p) (failed_decision out),
       ps_decided := True\<rparr>"

definition pass_fallback :: "start_output \<Rightarrow> hook_pass \<Rightarrow> permission_decision option" where
  "pass_fallback out p =
     (if sto_permission out = Unset \<and> sto_fallback out \<noteq> Unset then
        Some (case ps_fallback p of
                Some f \<Rightarrow> merge_decision f (fallback_decision out)
              | None \<Rightarrow> fallback_decision out)
      else ps_fallback p)"

definition pass_answer :: "start_output \<Rightarrow> hook_pass \<Rightarrow> hook_pass" where
  "pass_answer out p =
     p\<lparr>ps_fx := fx_add (ps_fx p) (sto_common out),
       ps_decision := merge_decision (ps_decision p) (hook_decision out),
       ps_decided := (ps_decided p \<or> sto_permission out \<noteq> Unset),
       ps_fallback := pass_fallback out p\<rparr>"

definition updates_input :: "start_output \<Rightarrow> start_input \<Rightarrow> bool" where
  "updates_input out req \<longleftrightarrow>
     sto_updated_input out \<noteq> [] \<and> sto_permission out \<noteq> Deny
     \<and> sto_updated_input out \<noteq> act_args (si_action req)"

fun start_pass :: "moment \<Rightarrow> nat \<Rightarrow> hooks list \<Rightarrow> start_input \<Rightarrow> hook_pass \<Rightarrow> hook_pass" where
  "start_pass m i [] req p = p"
| "start_pass m i (h # hs) req p =
     (case on_tool_call_start h of
        None \<Rightarrow> start_pass m (Suc i) hs req p
      | Some f \<Rightarrow>
          (case f m req of
             (Some e, out) \<Rightarrow> start_pass m (Suc i) hs req (pass_failure i e out p)
           | (None, out) \<Rightarrow>
               if updates_input out req
               then (pass_answer out p)\<lparr>ps_updated := Some (sto_updated_input out)\<rparr>
               else start_pass m (Suc i) hs req (pass_answer out p)))"

definition project_resources :: "core \<Rightarrow> start_input \<Rightarrow> start_input" where
  "project_resources c req =
     (case c_resources c (act_kind (si_action req)) of
        None \<Rightarrow> req
      | Some project \<Rightarrow>
          (case project (si_action req) of
             Inl _ \<Rightarrow> req\<lparr>si_resources := [], si_resource_error := True\<rparr>
           | Inr rs \<Rightarrow> req\<lparr>si_resources := rs, si_resource_error := False\<rparr>))"

definition update_invalid :: "string \<Rightarrow> bool" where
  "update_invalid trimmed \<longleftrightarrow>
     (case object_args trimmed of Inl _ \<Rightarrow> True | Inr _ \<Rightarrow> trimmed = [] \<or> hd trimmed \<noteq> CHR ''{'')"

definition pass_outcome :: "start_input \<Rightarrow> hook_pass \<Rightarrow> permission_decision" where
  "pass_outcome req p =
     (let d1 = (if \<not> ps_decided p then (case ps_fallback p of Some f \<Rightarrow> f | None \<Rightarrow> ps_decision p)
                else ps_decision p);
          d2 = (if si_resource_error req \<and> pd_permission d1 \<noteq> Deny
                then decision Ask ''resource_projection_failed'' else d1)
      in sanitize_decision d2)"

fun decide_rounds :: "core \<Rightarrow> clock \<Rightarrow> nat \<Rightarrow> nat \<Rightarrow> start_input \<Rightarrow> hook_effects \<Rightarrow> error list
    \<Rightarrow> call_decision" where
  "decide_rounds c k idx 0 req fx errs =
     \<lparr>cd_input = req, cd_decision = decision Deny ''tool_call_update_limit'', cd_fx = fx, cd_errs = errs\<rparr>"
| "decide_rounds c k idx (Suc left) req fx errs =
     (let req' = project_resources c req;
          p = start_pass (k, idx, max_input_updates - Suc left) 0 (c_hooks c) req'
                \<lparr>ps_decision = decision Allow [], ps_decided = False, ps_fallback = None,
                 ps_updated = None, ps_fx = fx, ps_errs = errs\<rparr>;
          result = (\<lambda>d. \<lparr>cd_input = req', cd_decision = d, cd_fx = ps_fx p, cd_errs = ps_errs p\<rparr>)
      in case ps_updated p of
           None \<Rightarrow> result (pass_outcome req' p)
         | Some u \<Rightarrow>
             if pd_permission (ps_decision p) = Deny then result (pass_outcome req' p)
             else if update_invalid (trim_space u) then result (decision Deny ''invalid_tool_call_update'')
             else decide_rounds c k idx left
                    (req'\<lparr>si_action := (si_action req')\<lparr>act_args := trim_space u\<rparr>\<rparr>)
                    (ps_fx p) (ps_errs p))"

declare decide_rounds.simps(2) [simp del]

definition decide_tool_call :: "core \<Rightarrow> clock \<Rightarrow> nat \<Rightarrow> start_input \<Rightarrow> call_decision" where
  "decide_tool_call c k idx req = decide_rounds c k idx max_input_updates req no_effects []"

subsection \<open>Deciding and resolving the calls of a turn\<close>

definition plain_call :: "start_input \<Rightarrow> permission_decision \<Rightarrow> call_decision" where
  "plain_call req d = \<lparr>cd_input = req, cd_decision = d, cd_fx = no_effects, cd_errs = []\<rparr>"

definition preflight_call :: "core \<Rightarrow> clock \<Rightarrow> (string \<Rightarrow> nat) \<Rightarrow> nat \<Rightarrow> start_input \<Rightarrow> call_decision" where
  "preflight_call c k denials idx req =
     (if denials (denial_key (si_action req)) \<ge> repeated_denial_limit
      then plain_call req (decision Deny ''repeated_denial'')
      else decide_tool_call c k idx req)"

definition fold_call_effects :: "call_decision \<Rightarrow> hook_effects \<Rightarrow> hook_effects" where
  "fold_call_effects call fx =
     (let fx1 = fx\<lparr>fx_context := fx_context fx @ fx_context (cd_fx call),
                   fx_messages := fx_messages fx @ fx_messages (cd_fx call)\<rparr>
      in if fx_stop (cd_fx call)
         then fx_add fx1 \<lparr>ho_stop = True, ho_stop_reason = fx_stop_reason (cd_fx call),
                          ho_system_message = [], ho_additional_context = []\<rparr>
         else fx1)"

definition report_call :: "core \<Rightarrow> start_input \<times> call_decision \<Rightarrow> (error, unit) run" where
  "report_call c rc =
     then_do (update (\<lambda>s. s\<lparr>rs_fx := fold_call_effects (snd rc) (rs_fx s)\<rparr>))
       (\<lambda>_. report_hooks c (si_turn (fst rc)) (cd_errs (snd rc)))"

definition has_start_hook :: "core \<Rightarrow> bool" where
  "has_start_hook c \<longleftrightarrow> (\<exists>h \<in> set (c_hooks c). on_tool_call_start h \<noteq> None)"

definition preflight_calls :: "core \<Rightarrow> start_input list \<Rightarrow> run_state \<Rightarrow> call_decision list" where
  "preflight_calls c requests s =
     map (\<lambda>(i, req). preflight_call c (length (rs_log s)) (rs_denials s) i req)
       (List.enumerate 0 requests)"

definition decide_calls :: "core \<Rightarrow> nat \<Rightarrow> start_input list
    \<Rightarrow> (error, call_decision list \<times> bool) run" where
  "decide_calls c turn requests =
     (if \<not> has_start_hook c
      then give (map (\<lambda>req. plain_call req (decision Allow [])) requests, False)
      else then_do (gets (preflight_calls c requests))
        (\<lambda>calls. then_do (note_entry (LPreflight turn))
          (\<lambda>_. then_do (context_check c)
            (\<lambda>_. then_do (each (report_call c) (zip requests calls))
              (\<lambda>_. give (calls, True))))))"

fun resolve_asks :: "core \<Rightarrow> call_decision list \<Rightarrow> (error, call_decision list) run" where
  "resolve_asks c [] = give []"
| "resolve_asks c (call # rest) =
     then_do (gets (\<lambda>s. fx_stop (rs_fx s)))
       (\<lambda>stop.
         if stop then give (call # rest)
         else if pd_permission (cd_decision call) = Ask then
           then_do (request_permission c \<lparr>pi_start = cd_input call, pi_decision = cd_decision call\<rparr>)
             (\<lambda>d. then_do (resolve_asks c rest) (\<lambda>r. give (call\<lparr>cd_decision := d\<rparr> # r)))
         else then_do (resolve_asks c rest) (\<lambda>r. give (call # r)))"

definition final_decision :: "bool \<Rightarrow> permission_decision \<Rightarrow> permission_decision" where
  "final_decision stop d =
     (if stop \<and> pd_permission d \<noteq> Deny then decision Deny ''run_stopped'' else d)"

definition decision_event :: "call_decision \<Rightarrow> event" where
  "decision_event call =
     (plain_event EventActionDecision (si_turn (cd_input call)) [])
       \<lparr>ev_action := Some (si_action (cd_input call)), ev_tool := si_tool (cd_input call),
        ev_decision := Some (cd_decision call)\<rparr>"

definition count_denial :: "start_input \<Rightarrow> call_decision \<Rightarrow> run_state \<Rightarrow> run_state" where
  "count_denial req call s =
     (if pd_permission (cd_decision call) = Deny
      then s\<lparr>rs_denials := (rs_denials s)
               (denial_key (si_action req) := rs_denials s (denial_key (si_action req)) + 1)\<rparr>
      else s)"

definition announce_call :: "core \<Rightarrow> start_input \<times> call_decision \<Rightarrow> (error, unit) run" where
  "announce_call c rc =
     then_do (update (count_denial (fst rc) (snd rc)))
       (\<lambda>_. map_exit (\<lambda>m. ''event action_decision: '' @ m) (emit c (decision_event (snd rc))))"

definition resolve_calls :: "core \<Rightarrow> start_input list \<Rightarrow> call_decision list
    \<Rightarrow> (error, call_decision list) run" where
  "resolve_calls c requests calls =
     then_do (resolve_asks c calls)
       (\<lambda>asked. then_do (gets (\<lambda>s. map (\<lambda>call. call\<lparr>cd_decision :=
                            final_decision (fx_stop (rs_fx s)) (cd_decision call)\<rparr>) asked))
         (\<lambda>final. then_do (each (announce_call c) (zip requests final)) (\<lambda>_. give final)))"

subsection \<open>Dry runs\<close>

record tool_call_check =
  tc_action :: action
  tc_decision :: permission_decision
  tc_output :: hook_output
  tc_errors :: "error list"

definition check_tool_call :: "core \<Rightarrow> clock \<Rightarrow> start_input \<Rightarrow> error + tool_call_check" where
  "check_tool_call c k req =
     (let call = decide_tool_call c k 0 req in
      case c_ctx_err c (Suc k) of
        Some e \<Rightarrow> Inl e
      | None \<Rightarrow> Inr
          \<lparr>tc_action = si_action (cd_input call), tc_decision = cd_decision call,
           tc_output = \<lparr>ho_stop = fx_stop (cd_fx call), ho_stop_reason = fx_stop_reason (cd_fx call),
             ho_system_message = join_on [newline] (fx_messages (cd_fx call)),
             ho_additional_context = join_on [newline] (fx_context (cd_fx call))\<rparr>,
           tc_errors = cd_errs call\<rparr>)"

subsection \<open>One pass as a fold over the answers\<close>

definition start_answers :: "moment \<Rightarrow> start_input \<Rightarrow> hooks list \<Rightarrow> (error option \<times> start_output) list" where
  "start_answers m req hs = [f m req. Some f \<leftarrow> map on_tool_call_start hs]"

fun answer_weight :: "error option \<times> start_output \<Rightarrow> permission_decision" where
  "answer_weight (Some e, out) = failed_decision out"
| "answer_weight (None, out) = hook_decision out"

fun gives_decision :: "error option \<times> start_output \<Rightarrow> bool" where
  "gives_decision (Some e, out) = True"
| "gives_decision (None, out) \<longleftrightarrow> sto_permission out \<noteq> Unset"

fun gives_fallback :: "error option \<times> start_output \<Rightarrow> bool" where
  "gives_fallback (Some e, out) = False"
| "gives_fallback (None, out) \<longleftrightarrow> sto_permission out = Unset \<and> sto_fallback out \<noteq> Unset"

definition answer_fallbacks :: "(error option \<times> start_output) list \<Rightarrow> permission_decision list" where
  "answer_fallbacks as = map (fallback_decision \<circ> snd) (filter gives_fallback as)"

definition merge_fallbacks :: "permission_decision option \<Rightarrow> permission_decision list \<Rightarrow> permission_decision option" where
  "merge_fallbacks f ds =
     (case f of Some d \<Rightarrow> Some (foldl merge_decision d ds)
      | None \<Rightarrow> (case ds of [] \<Rightarrow> None | d # ds' \<Rightarrow> Some (foldl merge_decision d ds')))"

definition unchanged :: "error option \<times> start_output \<Rightarrow> start_input \<Rightarrow> bool" where
  "unchanged a req \<longleftrightarrow> (fst a = None \<longrightarrow> \<not> updates_input (snd a) req)"

lemma start_answers_Cons:
  "start_answers m req (h # hs) =
     (case on_tool_call_start h of Some f \<Rightarrow> [f m req] | None \<Rightarrow> []) @ start_answers m req hs"
  by (simp add: start_answers_def split: option.split)

lemma set_start_answers:
  "set (start_answers m req hs) = {f m req | f h. h \<in> set hs \<and> on_tool_call_start h = Some f}"
proof (induction hs)
  case Nil
  then show ?case by (simp add: start_answers_def)
next
  case (Cons h hs)
  have "{f m req | f g. g \<in> set (h # hs) \<and> on_tool_call_start g = Some f}
      = {f m req | f. on_tool_call_start h = Some f}
        \<union> {f m req | f g. g \<in> set hs \<and> on_tool_call_start g = Some f}"
    by auto
  with Cons show ?case by (auto simp: start_answers_Cons split: option.split)
qed

lemma merge_fallbacks_Nil [simp]: "merge_fallbacks f [] = f"
  by (simp add: merge_fallbacks_def split: option.split)

lemma merge_fallbacks_Cons:
  "merge_fallbacks f (d # ds) =
     merge_fallbacks (Some (case f of Some g \<Rightarrow> merge_decision g d | None \<Rightarrow> d)) ds"
  by (simp add: merge_fallbacks_def split: option.split list.split)

definition pass_agrees :: "hook_pass \<Rightarrow> (error option \<times> start_output) list \<Rightarrow> hook_pass \<Rightarrow> bool" where
  "pass_agrees p as q \<longleftrightarrow>
     ps_decision q = foldl merge_decision (ps_decision p) (map answer_weight as)
     \<and> (ps_decided q \<longleftrightarrow> ps_decided p \<or> (\<exists>a \<in> set as. gives_decision a))
     \<and> ps_fallback q = merge_fallbacks (ps_fallback p) (answer_fallbacks as)
     \<and> ps_updated q = ps_updated p"

lemma pass_agrees_answer:
  "pass_agrees (pass_answer out p) as q \<Longrightarrow> pass_agrees p ((None, out) # as) q"
  by (auto simp: pass_agrees_def pass_answer_def pass_fallback_def answer_fallbacks_def
      merge_fallbacks_Cons)

lemma pass_agrees_failure:
  "pass_agrees (pass_failure i e out p) as q \<Longrightarrow> pass_agrees p ((Some e, out) # as) q"
  by (auto simp: pass_agrees_def pass_failure_def answer_fallbacks_def)

lemma start_pass_agrees:
  assumes "\<forall>a \<in> set (start_answers m req hs). unchanged a req"
  shows "pass_agrees p (start_answers m req hs) (start_pass m i hs req p)"
  using assms
proof (induction hs arbitrary: i p)
  case Nil
  then show ?case by (simp add: start_answers_def answer_fallbacks_def pass_agrees_def)
next
  case (Cons h hs)
  show ?case
  proof (cases "on_tool_call_start h")
    case None
    with Cons show ?thesis by (simp add: start_answers_Cons)
  next
    case (Some f)
    obtain e out where a: "f m req = (e, out)" by (cases "f m req")
    have all: "start_answers m req (h # hs) = (e, out) # start_answers m req hs"
      by (simp add: start_answers_Cons Some a)
    with Cons.prems have rest: "\<forall>a \<in> set (start_answers m req hs). unchanged a req"
      and this_one: "unchanged (e, out) req" by auto
    show ?thesis
    proof (cases e)
      case None
      with this_one have "start_pass m i (h # hs) req p = start_pass m (Suc i) hs req (pass_answer out p)"
        by (simp add: Some a unchanged_def)
      with Cons.IH [OF rest] None show ?thesis by (simp add: all pass_agrees_answer)
    next
      case (Some er)
      have "start_pass m i (h # hs) req p = start_pass m (Suc i) hs req (pass_failure i er out p)"
        by (simp add: \<open>on_tool_call_start h = Some f\<close> a Some)
      with pass_agrees_failure [OF Cons.IH [OF rest]] show ?thesis by (simp only: all Some)
    qed
  qed
qed

text \<open>A pass that ends without an update heard an unchanged call from every hook.\<close>

lemma start_pass_unchanged:
  "ps_updated (start_pass m i hs req p) = None \<Longrightarrow> \<forall>a \<in> set (start_answers m req hs). unchanged a req"
proof (induction hs arbitrary: i p)
  case Nil
  then show ?case by (simp add: start_answers_def)
next
  case (Cons h hs)
  then show ?case
    by (auto simp: start_answers_Cons unchanged_def split: option.splits prod.splits if_splits)
qed

lemma settled_answer_weight [simp]: "settled (pd_permission (answer_weight a))"
  by (cases a rule: answer_weight.cases) (simp_all add: failed_decision_def decision_def)

lemma settled_failed [simp]: "settled (pd_permission (failed_decision out))"
  by (simp add: failed_decision_def decision_def)

lemma start_pass_inv:
  assumes "\<And>i e out p. I p \<Longrightarrow> I (pass_failure i e out p)"
    and "\<And>out p. I p \<Longrightarrow> I (pass_answer out p)"
    and "\<And>u p. I p \<Longrightarrow> I (p\<lparr>ps_updated := u\<rparr>)"
    and "I p"
  shows "I (start_pass m i hs req p)"
  using assms(4)
proof (induction hs arbitrary: i p)
  case (Cons h hs)
  show ?case
  proof (cases "on_tool_call_start h")
    case None
    with Cons show ?thesis by simp
  next
    case (Some f)
    obtain e out where "f m req = (e, out)" by (cases "f m req")
    with Some Cons.IH [OF assms(1) [OF Cons.prems]] Cons.IH [OF assms(2) [OF Cons.prems]]
      assms(3) [OF assms(2) [OF Cons.prems]]
    show ?thesis by (auto split: option.split)
  qed
qed simp

lemma settled_start_pass:
  "settled (pd_permission (ps_decision p)) \<Longrightarrow> settled (pd_permission (ps_decision (start_pass m i hs req p)))"
  by (rule start_pass_inv [where I = "\<lambda>p. settled (pd_permission (ps_decision p))"])
     (simp_all add: pass_failure_def pass_answer_def settled_merge)

lemma fallback_never_allows: "pd_permission (fallback_decision out) \<noteq> Allow"
  by (simp add: fallback_decision_def decision_def)

lemma merge_not_allow:
  assumes "settled (pd_permission a)" and "pd_permission a \<noteq> Allow" and "settled (pd_permission b)"
  shows "pd_permission (merge_decision a b) \<noteq> Allow"
  using assms answers.weight_merge [of a b]
  by (auto simp: settled_def)

definition refuses :: "permission_decision option \<Rightarrow> bool" where
  "refuses f \<longleftrightarrow> (\<forall>d. f = Some d \<longrightarrow> pd_permission d \<in> {Ask, Deny})"

lemma refuses_simps [simp]:
  "refuses None" "refuses (Some d) \<longleftrightarrow> pd_permission d = Ask \<or> pd_permission d = Deny"
  by (auto simp: refuses_def)

lemma refuses_pass_fallback: "refuses (ps_fallback p) \<Longrightarrow> refuses (pass_fallback out p)"
  by (auto simp: pass_fallback_def merge_decision_def fallback_decision_def decision_def
      split: option.split)

lemma refuses_start_pass: "refuses (ps_fallback p) \<Longrightarrow> refuses (ps_fallback (start_pass m i hs req p))"
  by (rule start_pass_inv [where I = "\<lambda>p. refuses (ps_fallback p)"])
     (simp_all add: pass_failure_def pass_answer_def refuses_pass_fallback)

subsection \<open>Allowing is unanimous and refers to the call that runs\<close>

lemma project_resources_idem [simp]: "project_resources c (project_resources c req) = project_resources c req"
  by (simp add: project_resources_def split: option.split sum.split)

definition unanimous :: "core \<Rightarrow> moment \<Rightarrow> start_input \<Rightarrow> bool" where
  "unanimous c m req \<longleftrightarrow>
     (\<forall>h \<in> set (c_hooks c). \<forall>f. on_tool_call_start h = Some f \<longrightarrow>
        (\<exists>out. f m req = (None, out) \<and> no_objection (sto_permission out) \<and> \<not> updates_input out req
          \<and> (sto_permission out = Unset \<and> sto_fallback out \<noteq> Unset \<longrightarrow>
             (\<exists>h' \<in> set (c_hooks c). \<exists>g. on_tool_call_start h' = Some g
                 \<and> fst (g m req) = None \<and> sto_permission (snd (g m req)) = Allow))))"

lemma hook_decision_allow: "pd_permission (hook_decision out) = Allow \<longleftrightarrow> no_objection (sto_permission out)"
  by (simp add: hook_decision_def decision_def no_objection_def split: permission.split)

lemma answer_weight_allow:
  "pd_permission (answer_weight a) = Allow \<longleftrightarrow> fst a = None \<and> no_objection (sto_permission (snd a))"
  by (cases a rule: answer_weight.cases) (simp_all add: failed_decision_def decision_def hook_decision_allow)

lemma fold_allow:
  assumes "pd_permission (foldl merge_decision d ds) = Allow" and "\<forall>x \<in> set (d # ds). settled (pd_permission x)"
    and "x \<in> set ds"
  shows "pd_permission x = Allow"
  using answers.fold_veto [OF assms(3), of d] assms settled_rank(1) by auto

lemma refuses_merge_fallbacks: "f = Some d \<Longrightarrow> refuses f \<Longrightarrow> pd_permission d \<noteq> Allow"
  by auto

text \<open>The state in which every pass starts.\<close>

definition fresh_pass :: "hook_effects \<Rightarrow> error list \<Rightarrow> hook_pass" where
  "fresh_pass fx errs =
     \<lparr>ps_decision = decision Allow [], ps_decided = False, ps_fallback = None,
      ps_updated = None, ps_fx = fx, ps_errs = errs\<rparr>"

lemma pass_outcome_allow:
  assumes "pd_permission (pass_outcome req p) = Allow" and "refuses (ps_fallback p)"
  shows "\<not> si_resource_error req" and "pd_permission (ps_decision p) = Allow"
    and "ps_decided p \<or> ps_fallback p = None"
  using assms by (auto simp: pass_outcome_def Let_def decision_def split: if_splits option.splits)

lemma merge_fallbacks_None: "merge_fallbacks None ds = None \<longleftrightarrow> ds = []"
  by (cases ds) (simp_all add: merge_fallbacks_def)

lemma no_fallback_given: "answer_fallbacks as = [] \<longleftrightarrow> (\<forall>a \<in> set as. \<not> gives_fallback a)"
  by (simp add: answer_fallbacks_def filter_empty_conv)

lemma pass_unanimous:
  assumes upd: "ps_updated (start_pass m 0 (c_hooks c) req (fresh_pass fx errs)) = None"
    and allow: "pd_permission (pass_outcome req (start_pass m 0 (c_hooks c) req (fresh_pass fx errs))) = Allow"
  shows "unanimous c m req"
proof -
  let ?as = "start_answers m req (c_hooks c)"
  let ?q = "start_pass m 0 (c_hooks c) req (fresh_pass fx errs)"
  have same: "\<forall>a \<in> set ?as. unchanged a req" using start_pass_unchanged [OF upd] .
  have agree: "pass_agrees (fresh_pass fx errs) ?as ?q" using start_pass_agrees [OF same] .
  have ref: "refuses (ps_fallback ?q)" by (rule refuses_start_pass) (simp add: fresh_pass_def)
  have dec: "pd_permission (foldl merge_decision (decision Allow []) (map answer_weight ?as)) = Allow"
    using pass_outcome_allow(2) [OF allow ref] agree by (simp add: pass_agrees_def fresh_pass_def)
  have each: "pd_permission (answer_weight a) = Allow" if "a \<in> set ?as" for a
    using fold_allow [OF dec, of "answer_weight a"] that by (simp add: decision_def)
  have fb: "(\<exists>a \<in> set ?as. gives_decision a) \<or> (\<forall>a \<in> set ?as. \<not> gives_fallback a)"
    using pass_outcome_allow(3) [OF allow ref] agree
    by (auto simp: pass_agrees_def fresh_pass_def merge_fallbacks_None no_fallback_given)
  show ?thesis
    unfolding unanimous_def
  proof (intro ballI allI impI)
    fix h f assume h: "h \<in> set (c_hooks c)" "on_tool_call_start h = Some f"
    then have mem: "f m req \<in> set ?as" by (auto simp: set_start_answers)
    obtain out where out: "f m req = (None, out)" "no_objection (sto_permission out)"
      using each [OF mem] by (auto simp: answer_weight_allow prod_eq_iff)
    have "\<not> updates_input out req" using same mem out by (auto simp: unchanged_def)
    moreover have "\<exists>h' \<in> set (c_hooks c). \<exists>g. on_tool_call_start h' = Some g
        \<and> fst (g m req) = None \<and> sto_permission (snd (g m req)) = Allow"
      if "sto_permission out = Unset \<and> sto_fallback out \<noteq> Unset"
    proof -
      from fb mem out that obtain a where a: "a \<in> set ?as" "gives_decision a" by fastforce
      with each [OF a(1)] have "fst a = None \<and> sto_permission (snd a) = Allow"
        by (cases a rule: gives_decision.cases) (auto simp: failed_decision_def decision_def hook_decision_allow no_objection_def
              split: if_splits)
      with a show ?thesis by (auto simp: set_start_answers)
    qed
    ultimately show "\<exists>out. f m req = (None, out) \<and> no_objection (sto_permission out)
        \<and> \<not> updates_input out req \<and> (sto_permission out = Unset \<and> sto_fallback out \<noteq> Unset \<longrightarrow>
             (\<exists>h' \<in> set (c_hooks c). \<exists>g. on_tool_call_start h' = Some g
                 \<and> fst (g m req) = None \<and> sto_permission (snd (g m req)) = Allow))"
      using out by blast
  qed
qed

lemma decide_rounds_Suc:
  "decide_rounds c k idx (Suc left) req fx errs =
     (let req' = project_resources c req;
          p = start_pass (k, idx, max_input_updates - Suc left) 0 (c_hooks c) req' (fresh_pass fx errs);
          result = (\<lambda>d. \<lparr>cd_input = req', cd_decision = d, cd_fx = ps_fx p, cd_errs = ps_errs p\<rparr>)
      in case ps_updated p of
           None \<Rightarrow> result (pass_outcome req' p)
         | Some u \<Rightarrow>
             if pd_permission (ps_decision p) = Deny then result (pass_outcome req' p)
             else if update_invalid (trim_space u) then result (decision Deny ''invalid_tool_call_update'')
             else decide_rounds c k idx left
                    (req'\<lparr>si_action := (si_action req')\<lparr>act_args := trim_space u\<rparr>\<rparr>)
                    (ps_fx p) (ps_errs p))"
  by (simp add: decide_rounds.simps(2) fresh_pass_def)

text \<open>What preflight leaves untouched in a call.\<close>

definition same_call :: "start_input \<Rightarrow> start_input \<Rightarrow> bool" where
  "same_call req inp \<longleftrightarrow>
     si_turn inp = si_turn req \<and> act_id (si_action inp) = act_id (si_action req)
     \<and> act_kind (si_action inp) = act_kind (si_action req)"

lemma same_call_project [simp]: "same_call req (project_resources c inp) = same_call req inp"
  by (simp add: same_call_def project_resources_def split: option.split sum.split)

lemma same_call_decide: "same_call req (cd_input (decide_tool_call c kk idx req))"
proof -
  have "same_call req (cd_input (decide_rounds c kk idx left inp fx errs))" if "same_call req inp"
    for left inp fx errs
    using that
  proof (induction left arbitrary: inp fx errs)
    case (Suc left)
    then have "same_call req (project_resources c inp)" by simp
    with Suc show ?case
      by (auto simp: decide_rounds_Suc Let_def same_call_def split: option.split)
  qed simp
  then show ?thesis by (simp add: decide_tool_call_def same_call_def)
qed

lemma pass_outcome_denied:
  "pd_permission (ps_decision p) = Deny \<Longrightarrow> refuses (ps_fallback p) \<Longrightarrow> pd_permission (pass_outcome req p) \<noteq> Allow"
  by (auto dest: pass_outcome_allow(2))

lemma decide_rounds_allow:
  assumes "pd_permission (cd_decision (decide_rounds c k idx left req fx errs)) = Allow"
    and "left \<le> max_input_updates"
  shows "\<exists>r < max_input_updates. let inp = cd_input (decide_rounds c k idx left req fx errs) in
           unanimous c (k, idx, r) inp \<and> \<not> si_resource_error inp \<and> inp = project_resources c inp"
  using assms
proof (induction left arbitrary: req fx errs)
  case 0
  then show ?case by (simp add: decision_def)
next
  case (Suc left)
  define req' where "req' = project_resources c req"
  define p where
    "p = start_pass (k, idx, max_input_updates - Suc left) 0 (c_hooks c) req' (fresh_pass fx errs)"
  have ref: "refuses (ps_fallback p)"
    unfolding p_def by (rule refuses_start_pass) (simp add: fresh_pass_def)
  note unf = decide_rounds_Suc [of c k idx left req fx errs, folded req'_def, unfolded Let_def, folded p_def]
  show ?case
  proof (cases "ps_updated p")
    case None
    with Suc.prems(1) have allow: "pd_permission (pass_outcome req' p) = Allow" by (simp add: unf)
    have "unanimous c (k, idx, max_input_updates - Suc left) req'"
      using pass_unanimous None allow by (simp add: p_def)
    moreover have "\<not> si_resource_error req'" by (rule pass_outcome_allow(1) [OF allow ref])
    ultimately show ?thesis
      using None by (auto simp: unf req'_def max_input_updates_def
          intro!: exI [of _ "max_input_updates - Suc left"])
  next
    case (Some u)
    have "pd_permission (ps_decision p) \<noteq> Deny"
      using Suc.prems(1) Some pass_outcome_denied [OF _ ref] by (auto simp: unf)
    moreover from this have "\<not> update_invalid (trim_space u)"
      using Suc.prems(1) Some by (auto simp: unf decision_def split: if_splits)
    ultimately have "decide_rounds c k idx (Suc left) req fx errs = decide_rounds c k idx left
        (req'\<lparr>si_action := (si_action req')\<lparr>act_args := trim_space u\<rparr>\<rparr>) (ps_fx p) (ps_errs p)"
      using Some by (simp add: unf)
    with Suc.IH Suc.prems show ?thesis by simp
  qed
qed

text \<open>C19. A call whose preflight decision is Allow was shown, in the form in which it will run,
  to every start hook in one and the same round; none failed, objected or changed it, its
  resources are those the tool projects from it, and no projection failed. A hook's
  fallback request was passed over only because some hook explicitly allowed the call.\<close>

theorem allowed_call_unanimous:
  assumes "pd_permission (cd_decision (decide_tool_call c k idx req)) = Allow"
  shows "\<exists>r < max_input_updates. let inp = cd_input (decide_tool_call c k idx req) in
           unanimous c (k, idx, r) inp \<and> \<not> si_resource_error inp \<and> inp = project_resources c inp"
  using decide_rounds_allow [OF assms [unfolded decide_tool_call_def] order.refl]
  by (simp add: decide_tool_call_def)

text \<open>A hook that first pins the working directory of a call, then allows the pinned call.\<close>

definition pinning_hook :: "moment \<Rightarrow> start_input \<Rightarrow> error option \<times> start_output" where
  "pinning_hook m req =
     (None, \<lparr>sto_common = \<lparr>ho_stop = False, ho_stop_reason = [], ho_system_message = [], ho_additional_context = []\<rparr>,
             sto_permission = Allow, sto_fallback = Unset, sto_reason = ''pinned'', sto_assessment = None,
             sto_updated_input = (if act_args (si_action req) = ''{}'' then '' {\"d\":1}'' else [])\<rparr>)"

definition pinning_core :: core where
  "pinning_core =
     (new_core (\<lambda>_. None) (\<lambda>_. 0))\<lparr>c_hooks := [no_hooks\<lparr>on_tool_call_start := Some pinning_hook\<rparr>]\<rparr>"

lemma pinning_decision:
  "decide_tool_call pinning_core 0 0 (sample_start ''bash'') =
     \<lparr>cd_input = (sample_start ''bash'')\<lparr>si_action :=
        (si_action (sample_start ''bash''))\<lparr>act_args := ''{\"d\":1}''\<rparr>\<rparr>,
      cd_decision = decision Allow ''pinned'', cd_fx = no_effects, cd_errs = []\<rparr>"
  by code_simp

lemma allowed_call_unanimous_witness:
  "unanimous pinning_core (0, 0, 0) ((sample_start ''bash'')\<lparr>si_action :=
        (si_action (sample_start ''bash''))\<lparr>act_args := ''{\"d\":1}''\<rparr>\<rparr>)
   \<or> (\<exists>r \<in> {1..<8}. unanimous pinning_core (0, 0, r) ((sample_start ''bash'')\<lparr>si_action :=
        (si_action (sample_start ''bash''))\<lparr>act_args := ''{\"d\":1}''\<rparr>\<rparr>))"
proof -
  have "pd_permission (cd_decision (decide_tool_call pinning_core 0 0 (sample_start ''bash''))) = Allow"
    by (simp add: pinning_decision decision_def)
  from allowed_call_unanimous [OF this] obtain r where "r < 8" and
    "unanimous pinning_core (0, 0, r) ((sample_start ''bash'')\<lparr>si_action :=
        (si_action (sample_start ''bash''))\<lparr>act_args := ''{\"d\":1}''\<rparr>\<rparr>)"
    by (auto simp: pinning_decision max_input_updates_def Let_def)
  then show ?thesis by (cases "r = 0") auto
qed

subsection \<open>Decisions are settled and carry safe reasons\<close>

definition safe_decision :: "permission_decision \<Rightarrow> bool" where
  "safe_decision d \<longleftrightarrow>
     settled (pd_permission d) \<and> (pd_reason d = [] \<or> reason_code_ok (pd_reason d))
     \<and> (pd_permission d = Deny \<longrightarrow> pd_reason d \<noteq> [])"

lemma reason_codes [simp]:
  "reason_code_ok ''tool_call_denied''" "reason_code_ok ''reason_unavailable''"
  "reason_code_ok ''tool_call_update_limit''" "reason_code_ok ''invalid_tool_call_update''"
  "reason_code_ok ''run_stopped''" "reason_code_ok ''repeated_denial''"
  by code_simp+

lemma safe_reason_code_ok: "reason_code_ok fallback \<Longrightarrow> reason_code_ok (safe_reason_code r fallback)"
  by (simp add: safe_reason_code_def)

lemma reason_code_nonempty: "reason_code_ok r \<Longrightarrow> r \<noteq> []"
  by (cases r) simp_all

lemma safe_sanitized: "settled (pd_permission d) \<Longrightarrow> safe_decision (sanitize_decision d)"
  using safe_reason_code_ok [of "''tool_call_denied''" "pd_reason d"]
    safe_reason_code_ok [of "''reason_unavailable''" "pd_reason d"]
  by (auto simp: safe_decision_def sanitize_decision_def Let_def reason_code_nonempty split: option.split)

lemma settled_pass_outcome:
  assumes "settled (pd_permission (ps_decision p))" and "refuses (ps_fallback p)"
  shows "safe_decision (pass_outcome req p)"
  unfolding pass_outcome_def Let_def
  using assms by (intro safe_sanitized) (auto simp: decision_def refuses_def split: option.split)

lemma safe_denial: "reason_code_ok r \<Longrightarrow> safe_decision (decision Deny r)"
  by (auto simp: safe_decision_def decision_def)

lemma decision_is_safe: "safe_decision (cd_decision (decide_tool_call c k idx req))"
proof -
  have "safe_decision (cd_decision (decide_rounds c k idx left req fx errs))" for left req fx errs
  proof (induction left arbitrary: req fx errs)
    case 0
    show ?case by (simp add: safe_denial)
  next
    case (Suc left)
    have "safe_decision (pass_outcome req' (start_pass m 0 (c_hooks c) req' (fresh_pass fx errs)))" for m req'
      by (intro settled_pass_outcome settled_start_pass refuses_start_pass)
         (simp_all add: fresh_pass_def decision_def)
    with Suc.IH show ?case by (simp add: decide_rounds_Suc Let_def safe_denial split: option.split)
  qed
  then show ?thesis by (simp add: decide_tool_call_def)
qed

text \<open>Whatever the hooks answer, the decision about a call is Allow, Ask or Deny and its reason
  is empty or a safe machine-readable token; a denial always has one.\<close>

theorem call_decision_safe: "safe_decision (cd_decision (decide_tool_call c k idx req))"
  by (rule decision_is_safe)

subsection \<open>The order of the hooks\<close>

definition no_update_hooks :: "core \<Rightarrow> moment \<Rightarrow> start_input \<Rightarrow> bool" where
  "no_update_hooks c m req \<longleftrightarrow> (\<forall>a \<in> set (start_answers m req (c_hooks c)). unchanged a req)"

lemma merge_fallbacks_weight:
  "merge_fallbacks None ds = Some d \<Longrightarrow> rank (pd_permission d) = Max ((\<lambda>d. rank (pd_permission d)) ` set ds)"
  by (cases ds) (auto simp: merge_fallbacks_def answers.weight_fold)

lemma rank_settled_eq:
  "settled p \<Longrightarrow> settled q \<Longrightarrow> rank p = rank q \<Longrightarrow> p = q"
  by (auto simp: settled_def)

lemma decide_first_round:
  assumes "no_update_hooks c (k, idx, 0) (project_resources c req)"
  shows "cd_decision (decide_tool_call c k idx req) =
     pass_outcome (project_resources c req)
       (start_pass (k, idx, 0) 0 (c_hooks c) (project_resources c req) (fresh_pass no_effects []))"
proof -
  have "ps_updated (start_pass (k, idx, 0) 0 (c_hooks c) (project_resources c req) (fresh_pass no_effects [])) = None"
    using start_pass_agrees [OF assms [unfolded no_update_hooks_def], of "fresh_pass no_effects []" 0]
    by (simp add: pass_agrees_def fresh_pass_def)
  then show ?thesis
    using decide_rounds_Suc [of c k idx 7 req no_effects "[]"]
    by (simp add: decide_tool_call_def max_input_updates_def Let_def)
qed

lemma pass_outcome_permission:
  "pd_permission (pass_outcome req p) =
     (let d = (if \<not> ps_decided p then (case ps_fallback p of Some f \<Rightarrow> f | None \<Rightarrow> ps_decision p)
               else ps_decision p)
      in if si_resource_error req \<and> pd_permission d \<noteq> Deny then Ask else pd_permission d)"
  by (simp add: pass_outcome_def Let_def decision_def)

lemma same_answers_same_permission:
  assumes "pass_agrees (fresh_pass fx errs) as p" and "pass_agrees (fresh_pass fx errs) bs q"
    and "set as = set bs"
  shows "pd_permission (pass_outcome req p) = pd_permission (pass_outcome req q)"
proof -
  let ?w = "\<lambda>xs. foldl merge_decision (decision Allow []) (map answer_weight xs)"
  have settled_fold: "settled (pd_permission (foldl merge_decision d xs))"
    if "\<forall>x \<in> set (d # xs). settled (pd_permission x)" for d xs
    using answers.fold_member [of d xs] that by blast
  have "rank (pd_permission (?w as)) = rank (pd_permission (?w bs))"
    by (rule answers.weight_fold_set) (simp add: assms(3))
  then have dec: "pd_permission (ps_decision p) = pd_permission (ps_decision q)"
    using assms(1,2) settled_fold by (intro rank_settled_eq) (auto simp: pass_agrees_def fresh_pass_def decision_def)
  have fbs: "set (answer_fallbacks as) = set (answer_fallbacks bs)"
    using assms(3) by (auto simp: answer_fallbacks_def)
  have settled_fb: "settled (pd_permission d)"
    if "merge_fallbacks None (answer_fallbacks xs) = Some d" for xs d
    using that settled_fold by (cases "answer_fallbacks xs")
      (auto simp: merge_fallbacks_def answer_fallbacks_def Cons_eq_filter_iff Cons_eq_map_conv
         map_eq_Cons_conv filter_eq_Cons_iff)
  have fall: "rel_option (\<lambda>x y. pd_permission x = pd_permission y) (ps_fallback p) (ps_fallback q)"
  proof (cases "answer_fallbacks as")
    case Nil
    with fbs assms(1,2) show ?thesis by (simp add: pass_agrees_def fresh_pass_def)
  next
    case (Cons d ds)
    with fbs have "answer_fallbacks bs \<noteq> []" by auto
    with Cons obtain f g where fg: "merge_fallbacks None (answer_fallbacks as) = Some f"
      "merge_fallbacks None (answer_fallbacks bs) = Some g"
      by (metis list.distinct(1) merge_fallbacks_None option.exhaust)
    then have "pd_permission f = pd_permission g"
      using merge_fallbacks_weight fbs settled_fb by (metis rank_settled_eq)
    with fg assms(1,2) show ?thesis by (simp add: pass_agrees_def fresh_pass_def)
  qed
  show ?thesis
    using dec fall assms
    by (auto simp: pass_outcome_permission Let_def pass_agrees_def fresh_pass_def
        option_rel_Some1 option_rel_Some2 split: option.splits)
qed

text \<open>The registration order of the start hooks does not matter for the permission: two cores
  with the same hooks in different orders give a call that no hook updates the same
  permission, fallbacks and failures included.\<close>

theorem hook_order_irrelevant:
  assumes "no_update_hooks c (k, idx, 0) (project_resources c req)" and "set hs = set (c_hooks c)"
  shows "pd_permission (cd_decision (decide_tool_call (c\<lparr>c_hooks := hs\<rparr>) k idx req))
           = pd_permission (cd_decision (decide_tool_call c k idx req))"
proof -
  let ?c' = "c\<lparr>c_hooks := hs\<rparr>"
  have pr: "project_resources ?c' req = project_resources c req"
    by (simp add: project_resources_def)
  let ?req = "project_resources c req"
  have same: "set (start_answers (k, idx, 0) ?req hs) = set (start_answers (k, idx, 0) ?req (c_hooks c))"
    by (simp add: set_start_answers assms(2))
  then have upd: "no_update_hooks ?c' (k, idx, 0) ?req"
    using assms(1) by (simp add: no_update_hooks_def)
  show ?thesis
    unfolding decide_first_round [OF assms(1)] decide_first_round [OF upd [folded pr]] pr
    by (rule same_answers_same_permission
        [OF start_pass_agrees [OF upd [unfolded no_update_hooks_def]]
            start_pass_agrees [OF assms(1) [unfolded no_update_hooks_def]]])
       (simp add: same)
qed

definition silent_output :: hook_output where
  "silent_output = \<lparr>ho_stop = False, ho_stop_reason = [], ho_system_message = [], ho_additional_context = []\<rparr>"

definition fixed_answer :: "error option \<Rightarrow> permission \<Rightarrow> permission \<Rightarrow> hooks" where
  "fixed_answer e p f = no_hooks\<lparr>on_tool_call_start := Some (\<lambda>_ _.
     (e, \<lparr>sto_common = silent_output, sto_permission = p, sto_fallback = f, sto_reason = ''fixed'',
          sto_assessment = None, sto_updated_input = []\<rparr>))\<rparr>"

definition three_hooks :: core where
  "three_hooks = (new_core (\<lambda>_. None) (\<lambda>_. 0))\<lparr>c_hooks :=
     [fixed_answer None Unset Deny, fixed_answer (Some ''down'') Unset Unset, fixed_answer None Allow Unset]\<rparr>"

lemma hook_order_irrelevant_witness:
  "pd_permission (cd_decision (decide_tool_call
      (three_hooks\<lparr>c_hooks := rev (c_hooks three_hooks)\<rparr>) 0 0 (sample_start ''bash''))) = Ask"
proof -
  have "no_update_hooks three_hooks (0, 0, 0) (project_resources three_hooks (sample_start ''bash''))"
    by (simp add: no_update_hooks_def three_hooks_def fixed_answer_def start_answers_def new_core_def
        unchanged_def updates_input_def)
  moreover have "pd_permission (cd_decision (decide_tool_call three_hooks 0 0 (sample_start ''bash''))) = Ask"
    by code_simp
  ultimately show ?thesis
    using hook_order_irrelevant [of three_hooks 0 0 "sample_start ''bash''" "rev (c_hooks three_hooks)"]
    by simp
qed

subsection \<open>Resolution: every call ends allowed or denied\<close>

definition asked_as :: "core \<Rightarrow> call_decision \<Rightarrow> call_decision \<Rightarrow> bool" where
  "asked_as c a b \<longleftrightarrow>
     b = a \<or> (pd_permission (cd_decision a) = Ask
       \<and> (\<exists>s t d. request_permission c \<lparr>pi_start = cd_input a, pi_decision = cd_decision a\<rparr> s = (t, Inr d)
             \<and> b = a\<lparr>cd_decision := d\<rparr>))"

lemma asked_as_refl [simp]: "asked_as c a a"
  by (simp add: asked_as_def)

lemma asked_as_request:
  "request_permission c \<lparr>pi_start = cd_input a, pi_decision = cd_decision a\<rparr> s = (t, Inr d) \<Longrightarrow>
     pd_permission (cd_decision a) = Ask \<Longrightarrow> asked_as c a (a\<lparr>cd_decision := d\<rparr>)"
  unfolding asked_as_def by blast

lemma asked_as_input: "asked_as c a b \<Longrightarrow> cd_input b = cd_input a"
  by (auto simp: asked_as_def)

lemma asked_as_deny: "asked_as c a b \<Longrightarrow> pd_permission (cd_decision a) = Deny \<Longrightarrow> b = a"
  by (auto simp: asked_as_def)

lemma asked_as_settled:
  "asked_as c a b \<Longrightarrow> settled (pd_permission (cd_decision a)) \<Longrightarrow> settled (pd_permission (cd_decision b))"
  by (auto simp: asked_as_def settled_def dest!: request_permission_binary)

lemma resolve_asks_calls:
  "resolve_asks c calls s = (t, Inr r) \<Longrightarrow> list_all2 (asked_as c) calls r"
proof (induction calls arbitrary: s r t)
  case (Cons call calls)
  then show ?case
    by (auto simp: then_do_Inr_iff split: if_splits)
       (auto intro: asked_as_refl asked_as_request list.rel_refl)
qed simp

lemma resolve_asks_done:
  "resolve_asks c calls s = (t, Inr r) \<Longrightarrow> \<not> fx_stop (rs_fx t) \<Longrightarrow>
     \<forall>call \<in> set r. pd_permission (cd_decision call) \<noteq> Ask"
proof (induction calls arbitrary: s r t)
  case (Cons call calls)
  then show ?case
    by (auto simp: then_do_Inr_iff split: if_splits dest!: request_permission_binary)
qed simp

definition resolved_as :: "core \<Rightarrow> call_decision \<Rightarrow> call_decision \<Rightarrow> bool" where
  "resolved_as c a b \<longleftrightarrow>
     cd_input b = cd_input a \<and> pd_permission (cd_decision b) \<in> {Allow, Deny}
     \<and> (pd_permission (cd_decision a) = Deny \<longrightarrow> cd_decision b = cd_decision a)
     \<and> (pd_permission (cd_decision b) = Allow \<longrightarrow>
          pd_permission (cd_decision a) = Allow
          \<or> (pd_permission (cd_decision a) = Ask
             \<and> (\<exists>s t. request_permission c \<lparr>pi_start = cd_input a, pi_decision = cd_decision a\<rparr> s
                   = (t, Inr (cd_decision b)))))"

lemma resolved_from_asked:
  assumes "asked_as c a b" and "settled (pd_permission (cd_decision a))"
    and "\<not> stop \<Longrightarrow> pd_permission (cd_decision b) \<noteq> Ask"
  shows "resolved_as c a (b\<lparr>cd_decision := final_decision stop (cd_decision b)\<rparr>)"
proof -
  have "pd_permission (final_decision stop (cd_decision b)) \<in> {Allow, Deny}"
    using asked_as_settled [OF assms(1,2)] assms(3)
    by (auto simp: final_decision_def decision_def settled_def)
  then show ?thesis
    using assms(1)
    by (auto simp: resolved_as_def final_decision_def decision_def asked_as_def) blast
qed

lemma resolve_calls_resolved:
  assumes "resolve_calls c requests calls s = (t, Inr final)"
    and "\<forall>call \<in> set calls. settled (pd_permission (cd_decision call))"
  shows "list_all2 (resolved_as c) calls final
     \<and> (\<forall>call \<in> set final. pd_permission (cd_decision call) = Allow \<longrightarrow>
          \<not> (\<exists>s'. resolve_asks c calls s = (s', Inr asked) \<and> fx_stop (rs_fx s')))"
proof -
  from assms(1) obtain s' r where r: "resolve_asks c calls s = (s', Inr r)"
    and final: "final = map (\<lambda>call. call\<lparr>cd_decision :=
                            final_decision (fx_stop (rs_fx s')) (cd_decision call)\<rparr>) r"
    by (auto simp: resolve_calls_def then_do_Inr_iff)
  have "list_all2 (resolved_as c) calls final"
    unfolding final list_all2_map2
    using resolve_asks_calls [OF r] resolve_asks_done [OF r] assms(2)
    by (auto simp: list_all2_conv_all_nth intro!: resolved_from_asked)
  moreover have "\<not> fx_stop (rs_fx s')" if "call \<in> set final" "pd_permission (cd_decision call) = Allow" for call
    using that by (auto simp: final final_decision_def decision_def split: if_splits)
  ultimately show ?thesis using r by auto
qed

text \<open>Resolution settles every call of the turn, in call order: no input changes, no call is left
  undecided, a denial stands, and a call ends allowed only if preflight allowed it or an
  approval was requested for exactly it and granted; no call is allowed once a hook has
  asked the run to stop.\<close>

theorem resolve_calls_settles:
  assumes "resolve_calls c requests calls s = (t, Inr final)"
    and "\<forall>call \<in> set calls. settled (pd_permission (cd_decision call))"
  shows "list_all2 (resolved_as c) calls final
     \<and> (\<forall>call \<in> set final. pd_permission (cd_decision call) = Allow \<longrightarrow>
          \<not> (\<exists>s'. resolve_asks c calls s = (s', Inr asked) \<and> fx_stop (rs_fx s')))"
  using resolve_calls_resolved [OF assms] by blast

lemma resolve_calls_settles_witness:
  "\<exists>t final. resolve_calls approving_core [sample_start ''bash'']
      [plain_call (sample_start ''bash'') (decision Ask ''why'')] initial_state = (t, Inr final)
    \<and> list_all2 (resolved_as approving_core) [plain_call (sample_start ''bash'') (decision Ask ''why'')] final"
proof -
  let ?call = "plain_call (sample_start ''bash'') (decision Ask ''why'')"
  have "snd (resolve_calls approving_core [sample_start ''bash''] [?call] initial_state)
      = Inr [plain_call (sample_start ''bash'') (decision Allow ''why'')]"
    by code_simp
  then obtain t where "resolve_calls approving_core [sample_start ''bash''] [?call] initial_state
      = (t, Inr [plain_call (sample_start ''bash'') (decision Allow ''why'')])"
    by (metis prod.collapse)
  then show ?thesis
    using resolve_calls_settles [of approving_core "[sample_start ''bash'']" "[?call]" initial_state]
    by (simp add: plain_call_def decision_def)
qed

subsection \<open>Bounds of the recent context\<close>

lemma trim_valid_prefix: "prefix (trim_valid s) s \<and> valid_utf8 (trim_valid s)"
proof (induction s rule: trim_valid.induct)
  case (1 s)
  show ?case
  proof (cases "valid_utf8 s")
    case True
    then show ?thesis by (simp add: trim_valid.simps)
  next
    case False
    with 1 show ?thesis
      by (simp add: trim_valid.simps [of s]) (meson prefix_order.trans prefixeq_butlast)
  qed
qed

lemma length_bounded_text: "length (bounded_text s) \<le> max_context_text"
  using trim_valid_prefix [of "take max_context_text s"] prefix_length_le
  by (fastforce simp: bounded_text_def)

lemma prefix_bounded_text: "prefix (bounded_text s) s"
  using trim_valid_prefix [of "take max_context_text s"] take_is_prefix
  by (auto simp: bounded_text_def intro: prefix_order.trans)

text \<open>The context given to classifiers is bounded: the last 24 items at most, in order, each with
  a prefix of its text of at most 2048 bytes that is valid UTF-8 when the text was.\<close>

theorem context_bounded:
  "length (bounded_action_context items) = min max_context_items (length items)
   \<and> list_all2 (\<lambda>b it. prefix (ci_text b) (ci_text it) \<and> length (ci_text b) \<le> max_context_text
        \<and> (valid_utf8 (ci_text it) \<longrightarrow> valid_utf8 (ci_text b))
        \<and> b = it\<lparr>ci_text := ci_text b\<rparr>)
      (bounded_action_context items) (drop (length items - max_context_items) items)"
proof -
  have tail: "(if length items > max_context_items then drop (length items - max_context_items) items else items)
      = drop (length items - max_context_items) items" by auto
  have valid: "valid_utf8 (bounded_text s)" if "valid_utf8 s" for s
    using that trim_valid_prefix by (simp add: bounded_text_def)
  show ?thesis
    unfolding bounded_action_context_def tail
    by (auto simp: list_all2_conv_all_nth length_bounded_text prefix_bounded_text valid)
qed

lemma context_bounded_witness:
  "valid_utf8 (ci_text (hd (bounded_action_context
     [\<lparr>ci_source = ContextUser, ci_action_id = [], ci_kind = [], ci_text = ''hi''\<rparr>])))"
proof -
  have "valid_utf8 ''hi''" by code_simp
  with context_bounded [of "[\<lparr>ci_source = ContextUser, ci_action_id = [], ci_kind = [], ci_text = ''hi''\<rparr>]"]
  show ?thesis by (auto simp: list_all2_Cons2 max_context_items_def)
qed

end
