(* ===== verification/Registry.thy ===== *)
theory Registry
  imports Hooks
begin

section \<open>The additive registry and the tool port (core.go)\<close>

text \<open>
  Plugins only add: a kind, a capability, a brain is registered once and never replaced.
  The tool port dispatches on the kind of an action, inside the registered middleware.
\<close>

subsection \<open>Registration\<close>

record tool_def =
  td_handler :: "tool_port option"
  td_description :: string
  td_params :: "tool_param list"
  td_input_schema :: string
  td_source :: tool_source
  td_resources :: "(action \<Rightarrow> error + tool_resource list) option"

definition has_tool :: "action_kind \<Rightarrow> core \<Rightarrow> bool" where
  "has_tool kind c \<longleftrightarrow> c_handlers c kind \<noteq> None"

definition spec_of_def :: "action_kind \<Rightarrow> tool_def \<Rightarrow> tool_spec" where
  "spec_of_def kind d =
     \<lparr>ts_kind = kind, ts_description = td_description d, ts_params = td_params d,
      ts_input_schema = td_input_schema d, ts_source = td_source d\<rparr>"

definition add_tool :: "action_kind \<Rightarrow> tool_def \<Rightarrow> core \<Rightarrow> error + core" where
  "add_tool kind d c =
     (if kind = [] then Inl ''pons: action kind must not be empty''
      else if kind = ActFinish then
        Inl (''pons: action kind '' @ quoted kind @ '' is reserved for the core'')
      else (case td_handler d of
              None \<Rightarrow> Inl (''pons: action kind '' @ quoted kind @ '' has a nil handler'')
            | Some h \<Rightarrow>
                if has_tool kind c then
                  Inl (''pons: action kind '' @ quoted kind @ '' already registered (plugin conflict)'')
                else Inr (c\<lparr>c_handlers := (c_handlers c)(kind \<mapsto> h),
                            c_resources := (case td_resources d of
                                              None \<Rightarrow> c_resources c
                                            | Some r \<Rightarrow> (c_resources c)(kind \<mapsto> r)),
                            c_specs := (kind, spec_of_def kind d) # c_specs c\<rparr>)))"

definition tool_spec_of :: "core \<Rightarrow> action_kind \<Rightarrow> tool_spec option" where
  "tool_spec_of c kind = map_of (c_specs c) kind"

definition tool_specs :: "core \<Rightarrow> tool_spec list" where
  "tool_specs c = sort_key ts_kind (map snd (c_specs c))"

definition environment_of :: "core \<Rightarrow> tool_spec option \<Rightarrow> action_environment" where
  "environment_of c spec =
     (case spec of
        Some sp \<Rightarrow> if so_remote (ts_source sp) then \<lparr>ae_provider = ''host'', ae_network = ''enabled''\<rparr>
                   else c_environment c
      | None \<Rightarrow> c_environment c)"

definition wrap_tool :: "(tool_port \<Rightarrow> tool_port) \<Rightarrow> core \<Rightarrow> core" where
  "wrap_tool w c = c\<lparr>c_wraps := c_wraps c @ [w]\<rparr>"

definition set_brain :: "brain option \<Rightarrow> core \<Rightarrow> error + core" where
  "set_brain b c =
     (if c_brain c \<noteq> None then Inl ''pons: brain already set''
      else if b = None then Inl ''pons: cannot install a nil brain''
      else Inr (c\<lparr>c_brain := b\<rparr>))"

text \<open>
  Capabilities are values of any type; \<open>nil_value\<close> says which of them are nil.
\<close>

definition register_capability :: "('v \<Rightarrow> bool) \<Rightarrow> string \<Rightarrow> 'v \<Rightarrow> (string \<rightharpoonup> 'v) \<Rightarrow> error + (string \<rightharpoonup> 'v)" where
  "register_capability nil_value name v caps =
     (if name = [] then Inl ''pons: capability name must not be empty''
      else if nil_value v then Inl (''pons: capability '' @ quoted name @ '' is nil'')
      else if caps name \<noteq> None then
        Inl (''pons: capability '' @ quoted name @ '' already registered (plugin conflict)'')
      else Inr (caps(name \<mapsto> v)))"

text \<open>\<^verbatim>\<open>Use\<close>: a plugin's \<^verbatim>\<open>Setup\<close> changes the core and may fail after part of its work.\<close>

fun use_plugins :: "('s \<Rightarrow> 's \<times> error option) list \<Rightarrow> 's \<Rightarrow> 's \<times> error option" where
  "use_plugins [] c = (c, None)"
| "use_plugins (p # ps) c =
     (case p c of
        (c', Some e) \<Rightarrow> (c', Some (''plugin setup: '' @ e))
      | (c', None) \<Rightarrow> use_plugins ps c')"

subsection \<open>The tool port\<close>

definition identify :: "action \<Rightarrow> tool_result \<Rightarrow> tool_result" where
  "identify a tr = tr\<lparr>tr_action_id := act_id a, tr_kind := act_kind a\<rparr>"

definition dispatch :: "core \<Rightarrow> tool_port" where
  "dispatch c m a =
     (case c_handlers c (act_kind a) of
        None \<Rightarrow> Returned (identify a (zero_result\<lparr>tr_error :=
                  ''no plugin provides action kind '' @ quoted (act_kind a)\<rparr>)) None
      | Some h \<Rightarrow>
          (case h m a of
             Returned tr err \<Rightarrow> Returned (identify a tr) err
           | Panicked v \<Rightarrow> Panicked v))"

definition build_tool_port :: "core \<Rightarrow> tool_port" where
  "build_tool_port c = foldr (\<lambda>w port. w port) (c_wraps c) (dispatch c)"

definition execute_tool :: "tool_port \<Rightarrow> tool_port" where
  "execute_tool port m a =
     (case port m a of
        Returned tr err \<Rightarrow> Returned tr err
      | Panicked v \<Rightarrow> Returned zero_result (Some (''tool panic: '' @ v)))"

definition execute :: "core \<Rightarrow> tool_port" where
  "execute c = execute_tool (build_tool_port c)"

subsection \<open>Laws of the registry\<close>

text \<open>The handler table and the vocabulary shown to the brain name the same kinds.\<close>

definition registry_ok :: "core \<Rightarrow> bool" where
  "registry_ok c \<longleftrightarrow>
     dom (c_handlers c) = fst ` set (c_specs c) \<and> distinct (map fst (c_specs c))
     \<and> (\<forall>(kind, sp) \<in> set (c_specs c). ts_kind sp = kind \<and> kind \<noteq> [] \<and> kind \<noteq> ActFinish)
     \<and> dom (c_resources c) \<subseteq> dom (c_handlers c)"

lemma registry_ok_new: "registry_ok (new_core ctx now)"
  by (simp add: registry_ok_def new_core_def)

lemma add_tool_Inr:
  assumes "add_tool kind d c = Inr c'"
  obtains h where "td_handler d = Some h" "c_handlers c kind = None" "kind \<noteq> []" "kind \<noteq> ActFinish"
    "c' = c\<lparr>c_handlers := (c_handlers c)(kind \<mapsto> h),
            c_resources := (case td_resources d of None \<Rightarrow> c_resources c | Some r \<Rightarrow> (c_resources c)(kind \<mapsto> r)),
            c_specs := (kind, spec_of_def kind d) # c_specs c\<rparr>"
  using assms by (auto simp: add_tool_def has_tool_def split: if_splits option.splits)

lemma registry_ok_add_tool [inv_intros]:
  assumes "add_tool kind d c = Inr c'" and "registry_ok c"
  shows "registry_ok c'"
proof -
  from assms(1) obtain h where h: "c_handlers c kind = None" "kind \<noteq> []" "kind \<noteq> ActFinish"
    and c': "c' = c\<lparr>c_handlers := (c_handlers c)(kind \<mapsto> h),
            c_resources := (case td_resources d of None \<Rightarrow> c_resources c | Some r \<Rightarrow> (c_resources c)(kind \<mapsto> r)),
            c_specs := (kind, spec_of_def kind d) # c_specs c\<rparr>"
    by (rule add_tool_Inr) blast
  have "kind \<notin> fst ` set (c_specs c)" using assms(2) h(1) by (auto simp: registry_ok_def)
  with assms(2) h show ?thesis
    by (auto simp: registry_ok_def c' spec_of_def_def split: option.splits) (meson domI subsetD)+
qed

text \<open>
  What is shared by every table that only ever gains entries: once a key is there, no
  registration changes what it is bound to.
\<close>

locale additive =
  fixes look :: "'t \<Rightarrow> 'k \<Rightarrow> 'v option" and reg :: "'k \<Rightarrow> 'd \<Rightarrow> 't \<Rightarrow> error + 't"
  assumes conflict: "look t k \<noteq> None \<Longrightarrow> \<exists>e. reg k d t = Inl e"
    and adds: "reg k d t = Inr t' \<Longrightarrow> look t' k \<noteq> None"
    and frame: "reg k d t = Inr t' \<Longrightarrow> k' \<noteq> k \<Longrightarrow> look t' k' = look t k'"
begin

lemma monotone: "reg k d t = Inr t' \<Longrightarrow> look t k' = Some v \<Longrightarrow> look t' k' = Some v"
  by (metis Inl_not_Inr conflict frame option.distinct(1))

lemma fold_monotone:
  "fold_res (\<lambda>t (k, d). reg k d t) t kds = Inr t' \<Longrightarrow> look t k' = Some v \<Longrightarrow> look t' k' = Some v"
  by (induction kds arbitrary: t) (auto simp: and_then_Inr_iff dest: monotone)

lemma fold_once:
  "fold_res (\<lambda>t (k, d). reg k d t) t kds = Inr t' \<Longrightarrow>
     distinct (map fst kds) \<and> (\<forall>(k, d) \<in> set kds. look t k = None)"
proof (induction kds arbitrary: t)
  case (Cons kd kds)
  obtain k d where kd: "kd = (k, d)" by (cases kd)
  from Cons.prems kd obtain t1 where t1: "reg k d t = Inr t1"
    and rest: "fold_res (\<lambda>t (k, d). reg k d t) t1 kds = Inr t'" by (auto simp: and_then_Inr_iff)
  have k_new: "look t k = None" using conflict [of t k d] t1 by (cases "look t k") auto
  have "look t1 k \<noteq> None" using adds t1 by blast
  with Cons.IH [OF rest] have tail: "distinct (map fst kds)" "k \<notin> fst ` set kds"
    "\<forall>(j, e) \<in> set kds. look t1 j = None" by force+
  from tail(2,3) frame [OF t1] have "\<forall>(j, e) \<in> set kds. look t j = None" by force
  with tail k_new kd show ?case by auto
qed simp

end

interpretation tools: additive c_handlers add_tool
  by unfold_locales (auto simp: add_tool_def has_tool_def split: if_splits option.splits)

interpretation capabilities: additive "\<lambda>caps. caps" "register_capability nil_value" for nil_value
  by unfold_locales (auto simp: register_capability_def split: if_splits)

text \<open>The registry is purely additive: a handler once registered is never replaced, whatever
  tools are added later, and tools added in one composition have distinct, new kinds.\<close>

theorem tools_additive:
  assumes "fold_res (\<lambda>c (kind, d). add_tool kind d c) c defs = Inr c'"
  shows "(\<forall>kind h. c_handlers c kind = Some h \<longrightarrow> c_handlers c' kind = Some h)
     \<and> distinct (map fst defs) \<and> (\<forall>(kind, d) \<in> set defs. c_handlers c kind = None)
     \<and> (registry_ok c \<longrightarrow> registry_ok c')"
proof -
  have "registry_ok c'" if "registry_ok c"
    using assms that by (rule fold_res_invariant) (auto intro: registry_ok_add_tool)
  then show ?thesis
    using tools.fold_monotone [OF assms] tools.fold_once [OF assms] by auto
qed

definition echo_def :: tool_def where
  "echo_def = \<lparr>td_handler = Some (\<lambda>_ a. Returned (zero_result\<lparr>tr_ok := True, tr_output := act_args a\<rparr>) None),
     td_description = ''echo'', td_params = [], td_input_schema = [],
     td_source = \<lparr>so_plugin_name = [], so_plugin_version = [], so_capability = [],
       so_capability_version = 0, so_executable = [], so_external = False, so_remote = False\<rparr>,
     td_resources = None\<rparr>"

lemma tools_additive_witness:
  "\<exists>c'. fold_res (\<lambda>c (kind, d). add_tool kind d c) (new_core (\<lambda>_. None) (\<lambda>_. 0))
      [(''echo'', echo_def), (''cat'', echo_def)] = Inr c' \<and> registry_ok c'"
proof -
  obtain c' where c': "fold_res (\<lambda>c (kind, d). add_tool kind d c) (new_core (\<lambda>_. None) (\<lambda>_. 0))
      [(''echo'', echo_def), (''cat'', echo_def)] = Inr c'"
    by (simp add: add_tool_def echo_def_def new_core_def has_tool_def ActFinish_def)
  from tools_additive [OF this] c' show ?thesis by (simp add: registry_ok_new)
qed

lemma sorted_tool_specs: "sorted (map ts_kind (tool_specs c))"
  by (simp add: tool_specs_def)

text \<open>The vocabulary the brain is shown is sorted by kind, without duplicates, and names exactly
  the kinds that have a handler; the reserved finish action is never among them.\<close>

theorem tool_specs_vocabulary:
  assumes "registry_ok c"
  shows "sorted_wrt (<) (map ts_kind (tool_specs c)) \<and> ts_kind ` set (tool_specs c) = dom (c_handlers c)
     \<and> ActFinish \<notin> ts_kind ` set (tool_specs c)"
proof -
  have kinds: "map (ts_kind \<circ> snd) (c_specs c) = map fst (c_specs c)"
    using assms by (force simp: registry_ok_def)
  have "distinct (map ts_kind (map snd (c_specs c)))"
    unfolding map_map kinds using assms by (simp add: registry_ok_def)
  then have "distinct (map ts_kind (tool_specs c))"
    by (simp add: tool_specs_def distinct_map inj_on_def) metis
  moreover have "ts_kind ` set (tool_specs c) = fst ` set (c_specs c)"
    using arg_cong [OF kinds, of set] by (simp add: tool_specs_def image_comp)
  ultimately show ?thesis
    using assms sorted_tool_specs by (auto simp: registry_ok_def strict_sorted_iff)
qed

lemma tool_specs_vocabulary_witness:
  "sorted_wrt (<) (map ts_kind (tool_specs (new_core (\<lambda>_. None) (\<lambda>_. 0))))"
  using tool_specs_vocabulary [OF registry_ok_new] by blast

subsection \<open>Laws of the port\<close>

lemma identify_simps [simp]:
  "tr_action_id (identify a tr) = act_id a" "tr_kind (identify a tr) = act_kind a"
  "tr_ok (identify a tr) = tr_ok tr" "tr_output (identify a tr) = tr_output tr"
  "tr_error (identify a tr) = tr_error tr"
  by (simp_all add: identify_def)

lemma execute_tool_returns: "\<exists>tr err. execute_tool port m a = Returned tr err"
  by (cases "port m a") (simp_all add: execute_tool_def)

lemma build_tool_port_wrap: "build_tool_port (wrap_tool w c) = foldr (\<lambda>w p. w p) (c_wraps c) (w (dispatch c))"
proof -
  have "dispatch (wrap_tool w c) = dispatch c"
    by (intro ext) (simp add: dispatch_def wrap_tool_def)
  then show ?thesis by (simp add: build_tool_port_def) (simp add: wrap_tool_def)
qed

end
