(* ===== verification/Core_Loop.thy ===== *)
theory Core_Loop
  imports Preflight Registry
begin

section \<open>The turn loop (core.go, Run)\<close>

text \<open>
  \<^verbatim>\<open>Run\<close> as a composition of the phases of a turn, in the order of the code: open the turn and
  ask the brain, plan and preflight the calls, record them, resolve approvals, start and
  execute, close every call, close the turn, then finish, stop or go on. The exit of a
  phase is \<^verbatim>\<open>return result, err\<close>: \<open>None\<close> is a nil error.
\<close>

type_synonym exit = "error option"

subsection \<open>Errors and closing hooks\<close>

definition join_err :: "error option \<Rightarrow> error option \<Rightarrow> error option" where
  "join_err err next =
     (case next of
        None \<Rightarrow> err
      | Some n \<Rightarrow> Some (case err of None \<Rightarrow> n | Some e \<Rightarrow> e @ [newline] @ n))"

definition fail_as :: "string \<Rightarrow> (error, 'a) run \<Rightarrow> (exit, 'a) run" where
  "fail_as p m = map_exit (\<lambda>e. Some (p @ e)) m"

definition at_turn :: "string \<Rightarrow> nat \<Rightarrow> string" where
  "at_turn what n = what @ '' (turn '' @ show_nat n @ ''): ''"

definition end_turn :: "core \<Rightarrow> turn_log \<Rightarrow> error option \<Rightarrow> (error, unit) run" where
  "end_turn c lg err =
     run_step c (tl_turn lg) HookTurnEnd ''agent turn end'' on_turn_end
       \<lparr>te_turn = tl_turn lg, te_log = lg, te_err = err\<rparr>"

text \<open>The first hook that wants a finished run to go on gives the reason.\<close>

fun first_continue :: "agent_end_output list \<Rightarrow> bool \<times> string" where
  "first_continue [] = (False, [])"
| "first_continue (out # outs) = (if ao_continue out then (True, ao_reason out) else first_continue outs)"

definition end_agent :: "core \<Rightarrow> agent_end_input \<Rightarrow> (error, bool \<times> string) run" where
  "end_agent c inp =
     then_do (run_hooks c HookAgentEnd ''agent end'' on_agent_end ao_common inp)
       (\<lambda>(errs, outs). then_do (report_hooks c (rr_turns (ae_result inp)) errs)
         (\<lambda>_. give (if ae_reason inp = EndFinished then first_continue outs else (False, []))))"

definition stop_reason :: "hook_effects \<Rightarrow> string" where
  "stop_reason fx = (if fx_stop_reason fx = [] then ''stopped by hook'' else fx_stop_reason fx)"

definition stop_run :: "core \<Rightarrow> nat \<Rightarrow> (exit, 'a) run" where
  "stop_run c n =
     then_do (gets (\<lambda>s. stop_reason (rs_fx s)))
       (\<lambda>reason. then_do (update (\<lambda>s. s\<lparr>rs_end_reason := EndStopped, rs_end_stop := reason\<rparr>))
         (\<lambda>_. then_do (fail_as ''event stopped: '' (emit c (plain_event EventStopped n reason)))
           (\<lambda>_. exit_with None)))"

definition stop_if_asked :: "core \<Rightarrow> nat \<Rightarrow> (exit, unit) run" where
  "stop_if_asked c n =
     then_do (gets (\<lambda>s. fx_stop (rs_fx s))) (\<lambda>stop. if stop then stop_run c n else give ())"

subsection \<open>Opening a turn and asking the brain\<close>

definition observe :: "core \<Rightarrow> string \<Rightarrow> nat \<Rightarrow> run_state \<Rightarrow> observation" where
  "observe c msg n s =
     \<lparr>ob_turn = n, ob_message = msg, ob_workspace = c_workspace c, ob_platform = c_platform c,
      ob_history = rs_history s, ob_context = [], ob_now = c_now c (length (rs_log s))\<rparr>"

definition ask_brain :: "brain \<Rightarrow> observation \<Rightarrow> (exit, assistant_response) run" where
  "ask_brain b ob =
     then_do (gets (\<lambda>s. br_respond b (length (rs_log s)) (ob\<lparr>ob_context := fx_context (rs_fx s)\<rparr>)))
       (\<lambda>r. then_do (update (\<lambda>s. s\<lparr>rs_fx := (rs_fx s)\<lparr>fx_context := []\<rparr>\<rparr>))
         (\<lambda>_. then_do (note_entry (LRespond (ob_turn ob)))
           (\<lambda>_. case r of
                  Inl e \<Rightarrow> exit_with (Some (at_turn ''brain response'' (ob_turn ob) @ e))
                | Inr response \<Rightarrow> give response)))"

definition text_context :: "assistant_part list \<Rightarrow> context_item list" where
  "text_context parts =
     [\<lparr>ci_source = ContextAssistant, ci_action_id = [], ci_kind = [], ci_text = ap_text p\<rparr>.
        p \<leftarrow> parts, ap_type p = PartText]"

definition begin_turn :: "core \<Rightarrow> brain \<Rightarrow> observation \<Rightarrow> (exit, observation \<times> assistant_response) run" where
  "begin_turn c b ob =
     (let n = ob_turn ob in
      then_do (fail_as ''event turn_start: '' (emit c (plain_event EventTurnStart n [])))
      (\<lambda>_. then_do (update (\<lambda>s. s\<lparr>rs_open_turn := Some \<lparr>tl_turn = n, tl_actions = [], tl_results = []\<rparr>\<rparr>))
      (\<lambda>_. then_do (fail_as [] (run_step c n HookTurnStart ''agent turn start'' on_turn_start (n, ob)))
      (\<lambda>_. then_do (stop_if_asked c n)
      (\<lambda>_. then_do (ask_brain b ob)
      (\<lambda>response. then_do (fail_as [] (run_step c n HookAssistantResponse ''assistant response''
                              on_assistant_response (n, response)))
      (\<lambda>_. then_do (stop_if_asked c n)
      (\<lambda>_. if ar_actions response = [] then
             exit_with (Some (''brain returned no actions at turn '' @ show_nat n))
           else then_do (update (\<lambda>s. s\<lparr>
               rs_open_turn := Some \<lparr>tl_turn = n, tl_actions = ar_actions response, tl_results = []\<rparr>,
               rs_recent := bounded_action_context (rs_recent s @ text_context (ar_parts response))\<rparr>))
             (\<lambda>_. give (ob, response))))))))))"

definition open_turn :: "core \<Rightarrow> brain \<Rightarrow> string \<Rightarrow> nat \<Rightarrow> (exit, observation \<times> assistant_response) run" where
  "open_turn c b msg n = then_do (gets (observe c msg n)) (begin_turn c b)"

subsection \<open>Planning: which calls run, and the parts that name them\<close>

definition runnable :: "action list \<Rightarrow> action list" where
  "runnable actions = takeWhile (\<lambda>a. act_kind a \<noteq> ActFinish) actions"

definition finish_answer :: "action list \<Rightarrow> string option" where
  "finish_answer actions =
     (case dropWhile (\<lambda>a. act_kind a \<noteq> ActFinish) actions of
        [] \<Rightarrow> None
      | fin # _ \<Rightarrow> Some (case string_arg (act_args fin) ''reason'' of Inl _ \<Rightarrow> [] | Inr v \<Rightarrow> v))"

fun collect_ids :: "action list \<Rightarrow> (string \<times> action) list \<Rightarrow> error + (string \<times> action) list" where
  "collect_ids [] rem = Inr rem"
| "collect_ids (a # as) rem =
     (if act_id a = [] then Inl ''tool action is missing its correlation ID''
      else if map_of rem (act_id a) \<noteq> None then Inl (''duplicate tool action ID '' @ quoted (act_id a))
      else collect_ids as ((act_id a, a) # rem))"

definition part_type_name :: "part_type \<Rightarrow> string" where
  "part_type_name t = (case t of PartText \<Rightarrow> ''text'' | PartToolCall \<Rightarrow> ''tool_call'' | PartOther s \<Rightarrow> s)"

fun match_parts :: "nat \<Rightarrow> assistant_part list \<Rightarrow> (string \<times> action) list \<Rightarrow> error + (string \<times> action) list" where
  "match_parts i [] rem = Inr rem"
| "match_parts i (p # ps) rem =
     (case ap_type p of
        PartText \<Rightarrow>
          if ap_text p = [] then Inl (''assistant part '' @ show_nat i @ '' has empty text'')
          else match_parts (Suc i) ps rem
      | PartToolCall \<Rightarrow>
          (case map_of rem (act_id (ap_action p)) of
             None \<Rightarrow> Inl (''assistant part '' @ show_nat i @ '' does not match an executable action'')
           | Some a \<Rightarrow>
               if act_kind a \<noteq> act_kind (ap_action p) \<or> act_args a \<noteq> act_args (ap_action p) then
                 Inl (''assistant part '' @ show_nat i @ '' does not match an executable action'')
               else match_parts (Suc i) ps (filter (\<lambda>e. fst e \<noteq> act_id (ap_action p)) rem))
      | PartOther t \<Rightarrow>
          Inl (''assistant part '' @ show_nat i @ '' has unsupported type '' @ quoted t))"

definition normalize_assistant_parts :: "assistant_part list \<Rightarrow> action list \<Rightarrow> error + assistant_part list" where
  "normalize_assistant_parts parts actions =
     (if parts = [] then
        Inr (map (\<lambda>a. \<lparr>ap_type = PartToolCall, ap_text = [], ap_action = a\<rparr>) actions)
      else and_then (collect_ids actions [])
        (\<lambda>rem. and_then (match_parts 0 parts rem)
          (\<lambda>left. if left \<noteq> [] then Inl ''assistant response omits an executable action'' else Inr parts)))"

definition start_request :: "core \<Rightarrow> observation \<Rightarrow> context_item list \<Rightarrow> action \<Rightarrow> start_input" where
  "start_request c ob recent a =
     \<lparr>si_turn = ob_turn ob, si_message = ob_message ob, si_workspace = c_workspace c,
      si_platform = c_platform c, si_environment = environment_of c (tool_spec_of c (act_kind a)),
      si_action = a, si_tool = tool_spec_of c (act_kind a), si_resources = [],
      si_resource_error = False, si_recent = recent\<rparr>"

definition zero_action :: action where
  "zero_action = \<lparr>act_id = [], act_kind = [], act_args = [], act_danger = no_danger\<rparr>"

text \<open>The parts name the calls that will run, found by ID.\<close>

definition refresh_parts :: "action list \<Rightarrow> assistant_part list \<Rightarrow> assistant_part list" where
  "refresh_parts run parts =
     map (\<lambda>p. if ap_type p = PartToolCall
              then p\<lparr>ap_action := (case map_of (rev (map (\<lambda>a. (act_id a, a)) run)) (act_id (ap_action p)) of
                                     Some a \<Rightarrow> a | None \<Rightarrow> zero_action)\<rparr>
              else p) parts"

record turn_plan =
  tp_calls :: "call_decision list"
  tp_run :: "action list"
  tp_actions :: "action list"
  tp_requests :: "start_input list"
  tp_parts :: "assistant_part list"
  tp_checked :: bool

text \<open>
  The calls that run are a slice of the response's actions, so rewriting them rewrites the
  actions of the open turn as well.
\<close>

definition plan_turn :: "core \<Rightarrow> observation \<Rightarrow> assistant_response \<Rightarrow> (exit, turn_plan) run" where
  "plan_turn c ob response =
     (let n = ob_turn ob; proposed = runnable (ar_actions response) in
      then_do (case (if proposed = [] then Inr [] else normalize_assistant_parts (ar_parts response) proposed) of
                 Inl e \<Rightarrow> exit_with (Some (at_turn ''brain response'' n @ e))
               | Inr parts \<Rightarrow> give parts)
       (\<lambda>parts. then_do (gets (\<lambda>s. map (start_request c ob (rs_recent s)) proposed))
       (\<lambda>requests. then_do (fail_as (at_turn ''tool call start'' n) (decide_calls c n requests))
       (\<lambda>(calls, checked).
          let run = map (\<lambda>call. si_action (cd_input call)) calls;
              actions = run @ drop (length run) (ar_actions response)
          in then_do (update (\<lambda>s. s\<lparr>rs_open_turn := map_option (\<lambda>lg. lg\<lparr>tl_actions := actions\<rparr>) (rs_open_turn s)\<rparr>))
            (\<lambda>_. give \<lparr>tp_calls = calls, tp_run = run, tp_actions = actions, tp_requests = requests,
                       tp_parts = refresh_parts run parts, tp_checked = checked\<rparr>)))))"

subsection \<open>Recording the calls, then resolving approvals\<close>

definition response_event :: "nat \<Rightarrow> turn_plan \<Rightarrow> event" where
  "response_event n pl =
     (plain_event EventAssistantResponse n [])\<lparr>ev_actions := tp_run pl, ev_parts := tp_parts pl\<rparr>"

definition reconcile :: "brain \<Rightarrow> nat \<Rightarrow> turn_plan \<Rightarrow> (exit, unit) run" where
  "reconcile b n pl =
     (case br_reconcile b of
        None \<Rightarrow> give ()
      | Some f \<Rightarrow>
          then_do (gets (\<lambda>s. f (length (rs_log s)) \<lparr>ar_parts = tp_parts pl, ar_actions = tp_run pl\<rparr>))
            (\<lambda>r. then_do (note_entry (LReconcile n))
              (\<lambda>_. case r of
                     None \<Rightarrow> give ()
                   | Some e \<Rightarrow> exit_with (Some (at_turn ''reconcile assistant response'' n @ e)))))"

definition record_calls :: "core \<Rightarrow> brain \<Rightarrow> nat \<Rightarrow> turn_plan \<Rightarrow> (exit, call_decision list) run" where
  "record_calls c b n pl =
     then_do (if tp_run pl = [] then give ()
              else then_do (reconcile b n pl)
                     (\<lambda>_. fail_as ''event assistant_response: '' (emit c (response_event n pl))))
       (\<lambda>_. if tp_checked pl
            then fail_as (at_turn ''tool call permission'' n) (resolve_calls c (tp_requests pl) (tp_calls pl))
            else give (tp_calls pl))"

subsection \<open>Executing\<close>

definition denied :: "call_decision \<Rightarrow> bool" where
  "denied call \<longleftrightarrow> pd_permission (cd_decision call) = Deny"

definition call_action :: "call_decision \<Rightarrow> action" where
  "call_action call = si_action (cd_input call)"

definition start_event :: "core \<Rightarrow> nat \<Rightarrow> action \<Rightarrow> event" where
  "start_event c n a =
     (plain_event EventActionStart n [])\<lparr>ev_action := Some a, ev_tool := tool_spec_of c (act_kind a)\<rparr>"

definition announce_starts :: "core \<Rightarrow> nat \<Rightarrow> call_decision list \<Rightarrow> (exit, unit) run" where
  "announce_starts c n calls =
     each (\<lambda>call. fail_as ''event action_start: '' (emit c (start_event c n (call_action call))))
       (filter (\<lambda>call. \<not> denied call) calls)"

definition run_one :: "tool_port \<Rightarrow> moment \<Rightarrow> action \<Rightarrow> tool_result" where
  "run_one port m a =
     identify a (case execute_tool port m a of
                   Returned tr None \<Rightarrow> tr
                 | Returned tr (Some e) \<Rightarrow> zero_result\<lparr>tr_error := e\<rparr>
                 | Panicked v \<Rightarrow> zero_result)"

definition call_result :: "tool_port \<Rightarrow> clock \<Rightarrow> nat \<Rightarrow> call_decision \<Rightarrow> tool_result" where
  "call_result port k i call =
     (if denied call then denied_result (call_action call) (pd_reason (cd_decision call))
      else run_one port (k, i, 0) (call_action call))"

definition executed_entries :: "nat \<Rightarrow> call_decision list \<Rightarrow> run_log" where
  "executed_entries n calls =
     [LExecute n i (call_action call). (i, call) \<leftarrow> List.enumerate 0 calls, \<not> denied call]"

definition execute_calls :: "core \<Rightarrow> nat \<Rightarrow> call_decision list \<Rightarrow> ('x, tool_result list) run" where
  "execute_calls c n calls =
     then_do (gets (\<lambda>s. map (\<lambda>(i, call). call_result (build_tool_port c) (length (rs_log s)) i call)
                         (List.enumerate 0 calls)))
       (\<lambda>results. then_do (update (\<lambda>s. s\<lparr>rs_log := rs_log s @ executed_entries n calls\<rparr>))
         (\<lambda>_. give results))"

subsection \<open>Closing the calls\<close>

definition withheld :: tool_result where
  "withheld = zero_result\<lparr>tr_error := ''tool result withheld: a tool call end hook failed''\<rparr>"

text \<open>\<^verbatim>\<open>endToolCall\<close>: the hooks in order, each seeing the result the one before left.\<close>

fun end_hooks :: "nat \<Rightarrow> hooks list \<Rightarrow> call_end_input \<Rightarrow> run_state \<Rightarrow> run_state \<times> tool_result \<times> error list" where
  "end_hooks i [] inp s = (s, ce_result inp, [])"
| "end_hooks i (h # hs) inp s =
     (case on_tool_call_end h of
        None \<Rightarrow> end_hooks (Suc i) hs inp s
      | Some f \<Rightarrow>
          (let s1 = s\<lparr>rs_log := rs_log s @ [LHook HookToolCallEnd (Suc i)]\<rparr> in
           case f (length (rs_log s)) inp of
             Inl e \<Rightarrow>
               (let (t, res, errs) = end_hooks (Suc i) hs (inp\<lparr>ce_result := withheld\<rparr>) s1
                in (t, res, hook_failure ''tool call end'' (Suc i) e # errs))
           | Inr out \<Rightarrow>
               end_hooks (Suc i) hs
                 (inp\<lparr>ce_result := (case co_result out of Some r \<Rightarrow> r | None \<Rightarrow> ce_result inp)\<rparr>)
                 (s1\<lparr>rs_fx := fx_add (rs_fx s1) (co_common out)\<rparr>)))"

definition end_tool_call :: "core \<Rightarrow> call_end_input \<Rightarrow> ('x, tool_result \<times> error list) run" where
  "end_tool_call c inp s =
     (let (t, res, errs) = end_hooks 0 (c_hooks c) inp s;
          res1 = identify (ce_action inp) res
      in (t, Inr (if ce_decision inp \<noteq> None \<or> errs \<noteq> [] then res1\<lparr>tr_ok := False\<rparr> else res1, errs)))"

definition close_event :: "core \<Rightarrow> nat \<Rightarrow> call_decision \<Rightarrow> tool_result \<Rightarrow> event" where
  "close_event c n call res =
     (plain_event (if denied call then EventActionDenied else EventActionEnd) n [])
       \<lparr>ev_action := Some (call_action call), ev_result := Some res,
        ev_tool := tool_spec_of c (act_kind (call_action call)),
        ev_decision := (if denied call then Some (cd_decision call) else None)\<rparr>"

definition end_input :: "core \<Rightarrow> nat \<Rightarrow> call_decision \<Rightarrow> tool_result \<Rightarrow> call_end_input" where
  "end_input c n call res =
     \<lparr>ce_turn = n, ce_action = call_action call, ce_tool = tool_spec_of c (act_kind (call_action call)),
      ce_result = res, ce_decision = (if denied call then Some (cd_decision call) else None)\<rparr>"

definition add_open_result :: "tool_result \<Rightarrow> run_state \<Rightarrow> run_state" where
  "add_open_result res s =
     s\<lparr>rs_open_turn := map_option (\<lambda>lg. lg\<lparr>tl_results := tl_results lg @ [res]\<rparr>) (rs_open_turn s)\<rparr>"

definition close_call :: "core \<Rightarrow> nat \<Rightarrow> call_decision \<Rightarrow> tool_result \<Rightarrow> (exit, tool_result) run" where
  "close_call c n call res0 =
     then_do (end_tool_call c (end_input c n call res0))
       (\<lambda>(res, errs). then_do (fail_as [] (report_hooks c n errs))
         (\<lambda>_. then_do (update (add_open_result res))
           (\<lambda>_. then_do (fail_as (if denied call then ''event action_denied: '' else ''event action_end: '')
                          (emit c (close_event c n call res)))
             (\<lambda>_. give res))))"

fun close_calls :: "core \<Rightarrow> nat \<Rightarrow> (call_decision \<times> tool_result) list \<Rightarrow> (exit, tool_result list) run" where
  "close_calls c n [] = give []"
| "close_calls c n ((call, res0) # rest) =
     then_do (close_call c n call res0)
       (\<lambda>res. then_do (close_calls c n rest) (\<lambda>results. give (res # results)))"

subsection \<open>Closing the turn\<close>

definition call_context :: "action list \<Rightarrow> tool_result list \<Rightarrow> context_item list" where
  "call_context run results =
     concat (map (\<lambda>(a, res).
       [\<lparr>ci_source = ContextAction, ci_action_id = act_id a, ci_kind = act_kind a, ci_text = act_args a\<rparr>,
        \<lparr>ci_source = ContextToolResult, ci_action_id = act_id a, ci_kind = act_kind a,
         ci_text = observation_text res\<rparr>]) (zip run results))"

definition turn_end_event :: "turn_log \<Rightarrow> event" where
  "turn_end_event lg =
     (plain_event EventTurnEnd (tl_turn lg) [])\<lparr>ev_actions := tl_actions lg, ev_results := tl_results lg\<rparr>"

definition book_turn :: "turn_plan \<Rightarrow> turn_log \<Rightarrow> run_state \<Rightarrow> run_state" where
  "book_turn pl lg s =
     s\<lparr>rs_recent := bounded_action_context (rs_recent s @ call_context (tp_run pl) (tl_results lg)),
       rs_result := (rs_result s)\<lparr>rr_turns := tl_turn lg, rr_history := rr_history (rs_result s) @ [lg]\<rparr>\<rparr>"

definition close_turn :: "core \<Rightarrow> turn_plan \<Rightarrow> turn_log \<Rightarrow> (exit, unit) run" where
  "close_turn c pl lg =
     then_do (update (book_turn pl lg))
       (\<lambda>_. then_do (fail_as ''event turn_end: '' (emit c (turn_end_event lg)))
         (\<lambda>_. then_do (update (\<lambda>s. s\<lparr>rs_open_turn := None\<rparr>))
           (\<lambda>_. fail_as [] (end_turn c lg None))))"

subsection \<open>Finishing, stopping, going on\<close>

definition max_turns :: "core \<Rightarrow> nat" where
  "max_turns c = (if c_max_turns c \<le> 0 then 25 else nat (c_max_turns c))"

definition end_input_of :: "end_reason \<Rightarrow> run_state \<Rightarrow> agent_end_input" where
  "end_input_of reason s =
     \<lparr>ae_result = rs_result s, ae_err = None, ae_reason = reason, ae_stop_reason = []\<rparr>"

definition set_answer :: "string \<Rightarrow> run_state \<Rightarrow> run_state" where
  "set_answer a s = s\<lparr>rs_result := (rs_result s)\<lparr>rr_answer := a\<rparr>\<rparr>"

definition reopen :: "string \<Rightarrow> run_state \<Rightarrow> run_state" where
  "reopen reason s =
     (let s1 = set_answer [] (s\<lparr>rs_agent_open := True\<rparr>) in
      if reason \<noteq> [] then s1\<lparr>rs_fx := (rs_fx s1)\<lparr>fx_context := fx_context (rs_fx s1) @ [reason]\<rparr>\<rparr> else s1)"

text \<open>Whether a closing hook keeps a finished run going.\<close>

definition ask_continue :: "core \<Rightarrow> nat \<Rightarrow> (exit, bool) run" where
  "ask_continue c n =
     then_do (gets (\<lambda>s. fx_stop (rs_fx s)))
       (\<lambda>stop. if stop then give False else
         then_do (update (\<lambda>s. s\<lparr>rs_agent_open := False\<rparr>))
           (\<lambda>_. then_do (gets (end_input_of EndFinished))
             (\<lambda>inp. then_do (fail_as [] (end_agent c inp))
               (\<lambda>(cont, reason). then_do (gets (\<lambda>s. fx_stop (rs_fx s)))
                 (\<lambda>stop. if cont \<and> \<not> stop \<and> n < max_turns c
                          then then_do (update (reopen reason)) (\<lambda>_. give True)
                          else give False)))))"

definition finish_run :: "core \<Rightarrow> nat \<Rightarrow> string \<Rightarrow> (exit, unit) run" where
  "finish_run c n answer =
     then_do (update (set_answer answer))
       (\<lambda>_. then_do (ask_continue c n)
         (\<lambda>keep_going. if keep_going then give () else
           then_do (update (\<lambda>s. s\<lparr>rs_end_reason := EndFinished\<rparr>))
             (\<lambda>_. then_do (fail_as ''event finish: '' (emit c (plain_event EventFinish n answer)))
               (\<lambda>_. exit_with None))))"

fun interpret_all :: "brain \<Rightarrow> observation \<Rightarrow> tool_result list \<Rightarrow> string option \<Rightarrow> (exit, string option) run" where
  "interpret_all b ob [] stopped = give stopped"
| "interpret_all b ob (tr # trs) stopped =
     then_do (gets (\<lambda>s. br_interpret b (length (rs_log s)) ob tr))
       (\<lambda>r. then_do (note_entry (LInterpret (ob_turn ob)))
         (\<lambda>_. case r of
                Inl e \<Rightarrow> exit_with (Some (at_turn ''brain interpret'' (ob_turn ob) @ e))
              | Inr v \<Rightarrow> interpret_all b ob trs
                  (if \<not> in_continue v \<and> stopped = None then Some (in_stop_reason v) else stopped)))"

definition reflect :: "core \<Rightarrow> brain \<Rightarrow> observation \<Rightarrow> turn_log \<Rightarrow> (exit, unit) run" where
  "reflect c b ob lg =
     then_do (interpret_all b ob (tl_results lg) None)
       (\<lambda>stopped. then_do (update (\<lambda>s. s\<lparr>rs_history := rs_history s @ [lg]\<rparr>))
         (\<lambda>_. then_do (stop_if_asked c (tl_turn lg))
           (\<lambda>_. case stopped of
                  None \<Rightarrow> give ()
                | Some reason \<Rightarrow>
                    then_do (update (\<lambda>s. s\<lparr>rs_end_reason := EndStopped, rs_end_stop := reason\<rparr>))
                      (\<lambda>_. then_do (fail_as ''event stopped: ''
                                     (emit c (plain_event EventStopped (tl_turn lg) reason)))
                        (\<lambda>_. exit_with None)))))"

subsection \<open>The loop\<close>

definition one_turn :: "core \<Rightarrow> brain \<Rightarrow> string \<Rightarrow> nat \<Rightarrow> (exit, unit) run" where
  "one_turn c b msg n =
     then_do (open_turn c b msg n)
      (\<lambda>(ob, response). then_do (plan_turn c ob response)
      (\<lambda>pl. then_do (record_calls c b n pl)
      (\<lambda>calls. then_do (announce_starts c n calls)
      (\<lambda>_. then_do (execute_calls c n calls)
      (\<lambda>results0. then_do (close_calls c n (zip calls results0))
      (\<lambda>results. let lg = \<lparr>tl_turn = n, tl_actions = tp_actions pl, tl_results = results\<rparr> in
         then_do (close_turn c pl lg)
      (\<lambda>_. then_do (case finish_answer (ar_actions response) of
                      Some answer \<Rightarrow> finish_run c n answer
                    | None \<Rightarrow> give ())
      (\<lambda>_. reflect c b ob lg))))))))"

definition exhausted :: "core \<Rightarrow> (exit, unit) run" where
  "exhausted c =
     then_do (update (\<lambda>s. s\<lparr>rs_result := (rs_result s)\<lparr>rr_exhausted := True\<rparr>, rs_end_reason := EndExhausted\<rparr>))
       (\<lambda>_. then_do (fail_as ''event exhausted: ''
                      (emit c (plain_event EventExhausted (max_turns c)
                         (''exhausted '' @ show_nat (max_turns c) @ '' turns''))))
         (\<lambda>_. exit_with None))"

fun turns :: "core \<Rightarrow> brain \<Rightarrow> string \<Rightarrow> nat \<Rightarrow> nat \<Rightarrow> (exit, unit) run" where
  "turns c b msg 0 n = exhausted c"
| "turns c b msg (Suc left) n = then_do (one_turn c b msg n) (\<lambda>_. turns c b msg left (Suc n))"

definition run_body :: "core \<Rightarrow> brain \<Rightarrow> string \<Rightarrow> (exit, unit) run" where
  "run_body c b msg =
     then_do (fail_as ''event agent_start: '' (emit c (plain_event EventAgentStart 0 msg)))
      (\<lambda>_. then_do (update (\<lambda>s. s\<lparr>rs_agent_open := True\<rparr>))
      (\<lambda>_. then_do (fail_as [] (run_step c 0 HookAgentStart ''agent start'' on_agent_start
                \<lparr>as_message = msg, as_workspace = c_workspace c, as_platform = c_platform c\<rparr>))
      (\<lambda>_. then_do (stop_if_asked c 0)
      (\<lambda>_. turns c b msg (max_turns c) 1))))"

text \<open>The deferred closing: the open turn's hooks, then the agent's, on fresh effects.\<close>

definition run_error :: "exit + unit \<Rightarrow> error option" where
  "run_error r = (case r of Inl x \<Rightarrow> x | Inr _ \<Rightarrow> None)"

definition piece_error :: "error + 'a \<Rightarrow> error option" where
  "piece_error r = (case r of Inl e \<Rightarrow> Some e | Inr _ \<Rightarrow> None)"

definition close_open_turn :: "core \<Rightarrow> run_state \<times> error option \<Rightarrow> run_state \<times> error option" where
  "close_open_turn c = (\<lambda>(s, err).
     case rs_open_turn s of
       None \<Rightarrow> (s, err)
     | Some lg \<Rightarrow>
         (let (t, r) = end_turn c lg err (s\<lparr>rs_fx := no_effects\<rparr>) in (t, join_err err (piece_error r))))"

definition close_open_agent :: "core \<Rightarrow> run_state \<times> error option \<Rightarrow> run_state \<times> error option" where
  "close_open_agent c = (\<lambda>(s, err).
     if \<not> rs_agent_open s then (s, err)
     else (let inp = \<lparr>ae_result = rs_result s, ae_err = err,
                      ae_reason = (if err \<noteq> None then EndFailed else rs_end_reason s),
                      ae_stop_reason = rs_end_stop s\<rparr>;
               (t, r) = end_agent c inp (s\<lparr>rs_fx := no_effects\<rparr>)
           in (t, join_err err (piece_error r))))"

definition begin_state :: "core \<Rightarrow> run_state" where
  "begin_state c =
     \<lparr>rs_log = [], rs_fx = no_effects, rs_denials = (\<lambda>_. 0),
      rs_recent = bounded_action_context (c_recent c), rs_history = [], rs_result = empty_result,
      rs_agent_open = False, rs_open_turn = None, rs_end_reason = EndNone, rs_end_stop = []\<rparr>"

definition run_core :: "core \<Rightarrow> string \<Rightarrow> run_state \<times> error option" where
  "run_core c msg =
     (case c_brain c of
        None \<Rightarrow> (begin_state c, Some ''pons: no brain plugin installed'')
      | Some b \<Rightarrow>
          (let (s, r) = run_body c b msg (begin_state c)
           in close_open_agent c (close_open_turn c (s, run_error r))))"

end
