(* ===== verification/Run_Logic.thy ===== *)
theory Run_Logic
  imports Core_Loop
begin

section \<open>A small logic for pieces of the loop\<close>

text \<open>
  \<open>valid P m Q E\<close>: from a state with \<open>P\<close>, the piece \<open>m\<close> either gives a value and
  establishes \<open>Q\<close>, or exits and establishes \<open>E\<close>. The locale \<open>quiet_invariant\<close> is the
  interface between the hook machinery and the loop: an invariant that no quiet entry of
  the log, no effect and no denial count can break is kept by everything that only calls
  hooks, reports them, decides and resolves calls.
\<close>

definition valid :: "(run_state \<Rightarrow> bool) \<Rightarrow> ('x, 'a) run \<Rightarrow> ('a \<Rightarrow> run_state \<Rightarrow> bool)
    \<Rightarrow> ('x \<Rightarrow> run_state \<Rightarrow> bool) \<Rightarrow> bool" where
  "valid P m Q E \<longleftrightarrow>
     (\<forall>s. P s \<longrightarrow> (case m s of (t, Inr a) \<Rightarrow> Q a t | (t, Inl x) \<Rightarrow> E x t))"

lemma validI:
  assumes "\<And>s t a. P s \<Longrightarrow> m s = (t, Inr a) \<Longrightarrow> Q a t"
    and "\<And>s t x. P s \<Longrightarrow> m s = (t, Inl x) \<Longrightarrow> E x t"
  shows "valid P m Q E"
  using assms by (auto simp: valid_def split: prod.split sum.split)

lemma validD:
  assumes "valid P m Q E" and "P s"
  shows "m s = (t, Inr a) \<Longrightarrow> Q a t" and "m s = (t, Inl x) \<Longrightarrow> E x t"
  using assms by (auto simp: valid_def)

lemma valid_then:
  assumes "valid P m Q E" and "\<And>a. valid (Q a) (f a) R E"
  shows "valid P (then_do m f) R E"
proof (rule validI)
  fix s t b assume "P s" "then_do m f s = (t, Inr b)"
  then show "R b t" using assms by (auto simp: then_do_Inr_iff dest: validD(1))
next
  fix s t x assume P: "P s" and "then_do m f s = (t, Inl x)"
  then consider "m s = (t, Inl x)" | s' a where "m s = (s', Inr a)" "f a s' = (t, Inl x)"
    by (auto simp: then_do_Inl_iff)
  then show "E x t"
    by cases (use P assms in \<open>blast dest: validD\<close>)+
qed

lemma valid_weaken:
  assumes "valid P' m Q' E'" and "\<And>s. P s \<Longrightarrow> P' s" and "\<And>a s. Q' a s \<Longrightarrow> Q a s"
    and "\<And>x s. E' x s \<Longrightarrow> E x s"
  shows "valid P m Q E"
proof (rule validI)
  fix s t a assume "P s" "m s = (t, Inr a)"
  then show "Q a t" by (intro assms(3) validD(1) [OF assms(1) assms(2)])
next
  fix s t x assume "P s" "m s = (t, Inl x)"
  then show "E x t" by (intro assms(4) validD(2) [OF assms(1) assms(2)])
qed

text \<open>A piece that keeps an invariant, followed by the rest.\<close>

lemma valid_seq:
  "valid I m (\<lambda>_. I) E \<Longrightarrow> (\<And>a. valid I (f a) R E) \<Longrightarrow> valid I (then_do m f) R E"
  by (rule valid_then)

text \<open>Facts that the successful run of a piece gives, beside what it keeps.\<close>

lemma valid_facts:
  assumes "valid P m (\<lambda>_. I) E" and "\<And>s t a. P s \<Longrightarrow> m s = (t, Inr a) \<Longrightarrow> F a t"
  shows "valid P m (\<lambda>a s. F a s \<and> I s) E"
proof (rule validI)
  fix s t a assume "P s" "m s = (t, Inr a)"
  then show "F a t \<and> I t" using assms(2) validD(1) [OF assms(1)] by blast
next
  fix s t x assume "P s" "m s = (t, Inl x)"
  then show "E x t" by (rule validD(2) [OF assms(1)])
qed

lemma valid_pure:
  assumes "valid P m (\<lambda>_. I) E" and "\<And>s t a. m s = (t, Inr a) \<Longrightarrow> F a"
  shows "valid P m (\<lambda>a s. F a \<and> I s) E"
  using assms by (intro valid_facts)

lemma valid_give: "(\<And>s. P s \<Longrightarrow> Q a s) \<Longrightarrow> valid P (give a) Q E"
  by (simp add: valid_def give_def)

lemma valid_exit: "(\<And>s. P s \<Longrightarrow> E x s) \<Longrightarrow> valid P (exit_with x) Q E"
  by (simp add: valid_def exit_with_def)

lemma valid_gets: "(\<And>s. P s \<Longrightarrow> Q (f s) s) \<Longrightarrow> valid P (gets f) Q E"
  by (simp add: valid_def gets_def)

lemma valid_update: "(\<And>s. P s \<Longrightarrow> Q () (f s)) \<Longrightarrow> valid P (update f) Q E"
  by (simp add: valid_def update_def)

lemma valid_map_exit: "valid P m Q (\<lambda>x. E (g x)) \<Longrightarrow> valid P (map_exit g m) Q E"
  by (auto simp: valid_def map_exit_def split: prod.splits sum.splits)

lemma valid_if: "(b \<Longrightarrow> valid P m Q E) \<Longrightarrow> (\<not> b \<Longrightarrow> valid P m' Q E) \<Longrightarrow> valid P (if b then m else m') Q E"
  by simp

lemma valid_conj_pre: "(A \<Longrightarrow> valid P m Q E) \<Longrightarrow> valid (\<lambda>s. A \<and> P s) m Q E"
  by (auto simp: valid_def)

lemma valid_keeps: "keeps I m \<Longrightarrow> valid I m (\<lambda>_. I) (\<lambda>_. I)"
  unfolding valid_def keeps_def by (fastforce split: prod.split sum.split)

lemma keeps_valid: "valid I m (\<lambda>_. I) (\<lambda>_. I) \<Longrightarrow> keeps I m"
  by (auto simp: valid_def keeps_def split: prod.splits sum.splits) (metis fst_conv sum.exhaust surj_pair)

lemma keeps_fail_as [inv_intros]: "keeps I m \<Longrightarrow> keeps I (fail_as p m)"
  unfolding fail_as_def by (rule keeps_map_exit)

lemma fail_as_Inr: "fail_as p m s = (t, Inr a) \<longleftrightarrow> m s = (t, Inr a)"
  by (simp add: fail_as_def map_exit_Inr_iff)

lemma valid_fail_as: "valid P m Q (\<lambda>e. E (Some (p @ e))) \<Longrightarrow> valid P (fail_as p m) Q E"
  unfolding fail_as_def by (rule valid_map_exit)

lemma valid_emit:
  assumes "\<And>s. P s \<Longrightarrow> Q () (s\<lparr>rs_log := rs_log s @ [LEvent e]\<rparr>)"
    and "\<And>s x. P s \<Longrightarrow> E x (s\<lparr>rs_log := rs_log s @ [LEvent e]\<rparr>)"
  shows "valid P (emit c e) Q E"
  using assms by (auto simp: valid_def emit_def Let_def split: option.split)

lemma valid_note:
  "(\<And>s. P s \<Longrightarrow> Q () (s\<lparr>rs_log := rs_log s @ [x]\<rparr>)) \<Longrightarrow> valid P (note_entry x) Q E"
  unfolding note_entry_def by (rule valid_update)

text \<open>A fact about each element, established by its own step and kept by the others.\<close>

lemma each_establishes:
  assumes "each f xs s = (t, Inr u)"
    and "\<And>x s t u. x \<in> set xs \<Longrightarrow> f x s = (t, Inr u) \<Longrightarrow> P x t"
    and "\<And>x y. x \<in> set xs \<Longrightarrow> y \<in> set xs \<Longrightarrow> keeps (P x) (f y)"
  shows "\<forall>x \<in> set xs. P x t"
  using assms
proof (induction xs arbitrary: s)
  case (Cons y ys)
  from Cons.prems(1) obtain s' where y: "f y s = (s', Inr ())" and ys: "each f ys s' = (t, Inr u)"
    by (auto simp: then_do_Inr_iff)
  have "\<forall>x \<in> set ys. P x t"
    using Cons.prems(2,3) by (intro Cons.IH [OF ys]) auto
  moreover have "P y s'" by (rule Cons.prems(2) [OF _ y]) simp
  then have "P y t"
    using keepsE [where I = "P y" and m = "each f ys" and s = s' and s' = t and r = "Inr u"]
      ys Cons.prems(3) by (auto intro: keeps_each)
  ultimately show ?case by simp
qed simp

subsection \<open>Quiet entries\<close>

definition quiet :: "log_entry \<Rightarrow> bool" where
  "quiet x = (case x of
     LEvent e \<Rightarrow> ev_type e \<in> {EventHookError, EventSystemMessage, EventActionDecision}
   | LHook k _ \<Rightarrow> k \<noteq> HookTurnEnd \<and> k \<noteq> HookAgentEnd
   | LExecute _ _ _ \<Rightarrow> False
   | _ \<Rightarrow> True)"

lemma quiet_simps [simp]:
  "quiet (LEvent e) \<longleftrightarrow> ev_type e \<in> {EventHookError, EventSystemMessage, EventActionDecision}"
  "quiet (LHook k i) \<longleftrightarrow> k \<noteq> HookTurnEnd \<and> k \<noteq> HookAgentEnd"
  "quiet (LRespond n)" "quiet (LInterpret n)" "quiet (LReconcile n)" "quiet (LApproval n)"
  "quiet (LPreflight n)" "quiet LContext" "\<not> quiet (LExecute n i a)"
  by (simp_all add: quiet_def)

lemma plain_event_simps [simp]:
  "ev_type (plain_event t n x) = t" "ev_turn (plain_event t n x) = n"
  by (simp_all add: plain_event_def)

locale quiet_invariant =
  fixes I :: "run_state \<Rightarrow> bool"
  assumes quiet_note: "I s \<Longrightarrow> quiet x \<Longrightarrow> I (s\<lparr>rs_log := rs_log s @ [x]\<rparr>)"
    and quiet_fx: "I s \<Longrightarrow> I (s\<lparr>rs_fx := fx\<rparr>)"
    and quiet_denials: "I s \<Longrightarrow> I (s\<lparr>rs_denials := d\<rparr>)"
begin

lemma keeps_report: "keeps I (report_hooks c n errs)"
  by (rule keeps_report_hooks) (auto intro: quiet_note quiet_fx)

lemma keeps_quiet_hooks: "k \<noteq> HookTurnEnd \<Longrightarrow> k \<noteq> HookAgentEnd \<Longrightarrow> keeps I (run_hooks c k name sel common inp)"
  by (rule keeps_run_hooks) (auto intro: quiet_note quiet_fx)

lemma keeps_step: "k \<noteq> HookTurnEnd \<Longrightarrow> k \<noteq> HookAgentEnd \<Longrightarrow> keeps I (run_step c n k name sel inp)"
  unfolding run_step_def by (intro keeps_then keeps_quiet_hooks) (auto intro: keeps_report split: prod.split)

lemma keeps_context: "keeps I (context_check c)"
  by (rule keeps_context_check) (auto intro: quiet_note)

lemma keeps_quiet_note: "quiet x \<Longrightarrow> keeps I (note_entry x)"
  by (rule keeps_note) (rule quiet_note)

lemma keeps_approver: "keeps I (ask_approver c inp)"
  unfolding ask_approver_def
  by (auto split: option.split intro!: keeps_give keeps_then keeps_gets keeps_quiet_note keeps_context)

lemma keeps_request: "keeps I (request_permission c inp)"
  unfolding request_permission_def settle_request_def
  by (intro keeps_then keeps_quiet_hooks)
     (auto split: prod.split intro!: keeps_then keeps_context keeps_report keeps_if keeps_give keeps_approver)

lemma keeps_resolve_asks: "keeps I (resolve_asks c calls)"
  by (induction calls) (auto intro!: keeps_give keeps_then keeps_gets keeps_request keeps_if)

lemma keeps_announce: "keeps I (announce_call c rc)"
  unfolding announce_call_def
  by (intro keeps_then keeps_map_exit keeps_update keeps_emit)
     (auto intro: quiet_note quiet_denials simp: count_denial_def decision_event_def)

lemma keeps_resolve_calls: "keeps I (resolve_calls c requests calls)"
  unfolding resolve_calls_def
  by (intro keeps_then keeps_resolve_asks keeps_gets keeps_each keeps_announce keeps_give)

lemma keeps_decide_calls: "keeps I (decide_calls c n requests)"
  unfolding decide_calls_def report_call_def
  by (auto intro!: keeps_if keeps_give keeps_then keeps_gets keeps_quiet_note keeps_context keeps_each
      keeps_report keeps_update quiet_fx)

lemma keeps_ask_brain: "keeps I (ask_brain b ob)"
  unfolding ask_brain_def
  by (auto intro!: keeps_then keeps_gets keeps_quiet_note keeps_update quiet_fx keeps_exit keeps_give
      split: sum.split)

lemma keeps_reconcile: "keeps I (reconcile b n pl)"
  unfolding reconcile_def
  by (auto intro!: keeps_give keeps_then keeps_gets keeps_quiet_note keeps_exit split: option.split)

lemma keeps_interpret: "keeps I (interpret_all b ob results stopped)"
  by (induction results arbitrary: stopped)
     (auto intro!: keeps_give keeps_then keeps_gets keeps_quiet_note keeps_exit split: sum.split)

lemma end_hooks_inv: "I s \<Longrightarrow> I (fst (end_hooks i hs inp s))"
proof (induction hs arbitrary: i inp s)
  case (Cons h hs)
  have "I (s\<lparr>rs_log := rs_log s @ [LHook HookToolCallEnd (Suc i)]\<rparr>)"
    using Cons.prems by (rule quiet_note) simp
  with Cons show ?case
    by (auto simp: Let_def case_prod_beta split: option.split sum.split intro!: Cons.IH quiet_fx)
qed simp

lemma keeps_end_tool_call: "keeps I (end_tool_call c inp)"
  by (simp add: keeps_def end_tool_call_def case_prod_beta Let_def end_hooks_inv)

end

end
