(* ===== verification/Run_Safety.thy ===== *)
theory Run_Safety
  imports Run_Logic
begin

section \<open>What every run keeps (core.go)\<close>

text \<open>
  The invariant of the loop: no action executes before its start was announced and, when
  start hooks are registered, before a decision allowing exactly it was announced; every
  closing event carries a result with the identity of its action, unsuccessful when the
  call was denied; completed turns are numbered from one and their results match their
  calls; no terminal event has been emitted yet.
\<close>

subsection \<open>The log\<close>

definition cleared :: "core \<Rightarrow> nat \<Rightarrow> action \<Rightarrow> run_log \<Rightarrow> bool" where
  "cleared c n a p \<longleftrightarrow>
     (\<exists>ev. LEvent ev \<in> set p \<and> ev_type ev = EventActionStart \<and> ev_turn ev = n \<and> ev_action ev = Some a)
     \<and> (has_start_hook c \<longrightarrow>
          (\<exists>ev d. LEvent ev \<in> set p \<and> ev_type ev = EventActionDecision \<and> ev_turn ev = n
             \<and> ev_action ev = Some a \<and> ev_decision ev = Some d \<and> pd_permission d = Allow))"

definition guarded :: "core \<Rightarrow> run_log \<Rightarrow> bool" where
  "guarded c l \<longleftrightarrow> (\<forall>p q n i a. l = p @ LExecute n i a # q \<longrightarrow> cleared c n a p)"

definition closing_ok :: "event \<Rightarrow> bool" where
  "closing_ok ev \<longleftrightarrow>
     (ev_type ev = EventActionEnd \<or> ev_type ev = EventActionDenied \<longrightarrow>
        (\<exists>a res. ev_action ev = Some a \<and> ev_result ev = Some res
           \<and> tr_action_id res = act_id a \<and> tr_kind res = act_kind a
           \<and> (ev_type ev = EventActionDenied \<longrightarrow> \<not> tr_ok res)))"

definition closings_ok :: "run_log \<Rightarrow> bool" where
  "closings_ok l \<longleftrightarrow> (\<forall>ev. LEvent ev \<in> set l \<longrightarrow> closing_ok ev)"

definition terminal_entry :: "log_entry \<Rightarrow> bool" where
  "terminal_entry x = (case x of
     LEvent e \<Rightarrow> ev_type e \<in> {EventFinish, EventStopped, EventExhausted} | _ \<Rightarrow> False)"

definition terminals :: "run_log \<Rightarrow> nat" where
  "terminals l = length (filter terminal_entry l)"

lemma cleared_mono: "cleared c n a p \<Longrightarrow> set p \<subseteq> set q \<Longrightarrow> cleared c n a q"
  unfolding cleared_def by blast

lemma guarded_Nil [simp]: "guarded c []"
  by (simp add: guarded_def)

lemma guarded_snoc:
  "guarded c (l @ [x]) \<longleftrightarrow> guarded c l \<and> (\<forall>n i a. x = LExecute n i a \<longrightarrow> cleared c n a l)"
proof
  assume g: "guarded c (l @ [x])"
  have "cleared c n a p" if "l = p @ LExecute n i a # q" for p q n i a
    using g that by (auto simp: guarded_def)
  moreover have "cleared c n a l" if "x = LExecute n i a" for n i a
    using g that by (auto simp: guarded_def)
  ultimately show "guarded c l \<and> (\<forall>n i a. x = LExecute n i a \<longrightarrow> cleared c n a l)"
    by (auto simp: guarded_def)
next
  assume h: "guarded c l \<and> (\<forall>n i a. x = LExecute n i a \<longrightarrow> cleared c n a l)"
  show "guarded c (l @ [x])"
    unfolding guarded_def
  proof (intro allI impI)
    fix p q n i a assume eq: "l @ [x] = p @ LExecute n i a # q"
    then show "cleared c n a p"
      using h by (cases q rule: rev_cases) (auto simp: guarded_def)
  qed
qed

lemma guarded_append:
  assumes "guarded c l" and "\<forall>x \<in> set es. \<forall>n i a. x = LExecute n i a \<longrightarrow> cleared c n a l"
  shows "guarded c (l @ es)"
  using assms(2)
proof (induction es rule: rev_induct)
  case Nil
  then show ?case using assms(1) by simp
next
  case (snoc x es)
  then have "guarded c (l @ es)" by simp
  moreover have "cleared c n a (l @ es)" if "x = LExecute n i a" for n i a
    using snoc.prems that by (auto intro: cleared_mono)
  ultimately show ?case using guarded_snoc [of c "l @ es" x] by simp
qed

lemma closings_ok_simps [simp]:
  "closings_ok []" "closings_ok (l @ l') \<longleftrightarrow> closings_ok l \<and> closings_ok l'"
  "closings_ok [x] \<longleftrightarrow> (\<forall>ev. x = LEvent ev \<longrightarrow> closing_ok ev)"
  by (auto simp: closings_ok_def)

lemma closing_ok_other [simp]:
  "ev_type ev \<noteq> EventActionEnd \<Longrightarrow> ev_type ev \<noteq> EventActionDenied \<Longrightarrow> closing_ok ev"
  by (simp add: closing_ok_def)

lemma terminals_simps [simp]:
  "terminals [] = 0" "terminals (l @ l') = terminals l + terminals l'"
  "terminals [x] = (if terminal_entry x then 1 else 0)"
  by (simp_all add: terminals_def)

lemma terminal_entry_simps [simp]:
  "terminal_entry (LEvent e) \<longleftrightarrow> ev_type e \<in> {EventFinish, EventStopped, EventExhausted}"
  "\<not> terminal_entry (LHook k i)" "\<not> terminal_entry (LExecute n i a)"
  by (simp_all add: terminal_entry_def)

lemma quiet_not_terminal: "quiet x \<Longrightarrow> \<not> terminal_entry x"
  by (cases x) (auto simp: quiet_def terminal_entry_def)

subsection \<open>The history\<close>

definition turn_log_ok :: "turn_log \<Rightarrow> bool" where
  "turn_log_ok lg \<longleftrightarrow>
     list_all2 (\<lambda>a res. tr_action_id res = act_id a \<and> tr_kind res = act_kind a)
       (runnable (tl_actions lg)) (tl_results lg)"

definition history_ok :: "nat \<Rightarrow> run_result \<Rightarrow> bool" where
  "history_ok k res \<longleftrightarrow>
     rr_turns res = k \<and> map tl_turn (rr_history res) = [1..<Suc k]
     \<and> (\<forall>lg \<in> set (rr_history res). turn_log_ok lg)"

lemma history_ok_frame [simp]:
  "history_ok k (res\<lparr>rr_answer := a\<rparr>) = history_ok k res"
  "history_ok k (res\<lparr>rr_exhausted := x\<rparr>) = history_ok k res"
  by (simp_all add: history_ok_def)

definition loop_inv :: "core \<Rightarrow> nat \<Rightarrow> nat \<Rightarrow> run_state \<Rightarrow> bool" where
  "loop_inv c k t s \<longleftrightarrow>
     guarded c (rs_log s) \<and> closings_ok (rs_log s) \<and> terminals (rs_log s) = t
     \<and> history_ok k (rs_result s)"

lemma loop_inv_frame [simp]:
  "loop_inv c k t (s\<lparr>rs_fx := fx\<rparr>) = loop_inv c k t s"
  "loop_inv c k t (s\<lparr>rs_denials := d\<rparr>) = loop_inv c k t s"
  "loop_inv c k t (s\<lparr>rs_recent := r\<rparr>) = loop_inv c k t s"
  "loop_inv c k t (s\<lparr>rs_history := h\<rparr>) = loop_inv c k t s"
  "loop_inv c k t (s\<lparr>rs_agent_open := b\<rparr>) = loop_inv c k t s"
  "loop_inv c k t (s\<lparr>rs_open_turn := o'\<rparr>) = loop_inv c k t s"
  "loop_inv c k t (s\<lparr>rs_end_reason := e\<rparr>) = loop_inv c k t s"
  "loop_inv c k t (s\<lparr>rs_end_stop := x\<rparr>) = loop_inv c k t s"
  "loop_inv c k t (s\<lparr>rs_result := (rs_result s)\<lparr>rr_answer := a\<rparr>\<rparr>) = loop_inv c k t s"
  "loop_inv c k t (s\<lparr>rs_result := (rs_result s)\<lparr>rr_exhausted := y\<rparr>\<rparr>) = loop_inv c k t s"
  by (simp_all add: loop_inv_def)

lemma loop_inv_note:
  "loop_inv c k t (s\<lparr>rs_log := rs_log s @ [x]\<rparr>) \<longleftrightarrow>
     guarded c (rs_log s @ [x]) \<and> closings_ok (rs_log s @ [x]) \<and> terminals (rs_log s @ [x]) = t
     \<and> history_ok k (rs_result s)"
  by (simp add: loop_inv_def)

lemma loop_inv_hook: "loop_inv c k t s \<Longrightarrow> loop_inv c k t (s\<lparr>rs_log := rs_log s @ [LHook h j]\<rparr>)"
  by (simp add: loop_inv_note guarded_snoc) (simp add: loop_inv_def)

lemma loop_inv_event:
  assumes "loop_inv c k t s" and "closing_ok e"
  shows "loop_inv c k (t + terminals [LEvent e]) (s\<lparr>rs_log := rs_log s @ [LEvent e]\<rparr>)"
  using assms by (simp add: loop_inv_note guarded_snoc) (simp add: loop_inv_def)

interpretation loop: quiet_invariant "loop_inv c k t" for c k t
proof
  fix s x assume "loop_inv c k t s" and q: "quiet x"
  moreover have "\<not> terminal_entry x" using q by (rule quiet_not_terminal)
  moreover have "\<forall>n i a. x \<noteq> LExecute n i a" using q by auto
  moreover have "\<forall>ev. x = LEvent ev \<longrightarrow> closing_ok ev" using q by auto
  ultimately show "loop_inv c k t (s\<lparr>rs_log := rs_log s @ [x]\<rparr>)"
    by (simp add: loop_inv_note guarded_snoc) (simp add: loop_inv_def)
qed simp_all

lemma keeps_any_hooks: "keeps (loop_inv c k t) (run_hooks c h name sel common inp)"
  by (rule keeps_run_hooks) (auto intro: loop_inv_hook)

lemma keeps_end_turn: "keeps (loop_inv c k t) (end_turn c lg err)"
  unfolding end_turn_def run_step_def
  by (auto intro!: keeps_then keeps_any_hooks loop.keeps_report split: prod.split)

lemma keeps_end_agent: "keeps (loop_inv c k t) (end_agent c inp)"
  unfolding end_agent_def
  by (auto intro!: keeps_then keeps_any_hooks loop.keeps_report keeps_give keeps_if split: prod.split)

lemma keeps_plain_emit:
  "closing_ok e \<Longrightarrow> \<not> terminal_entry (LEvent e) \<Longrightarrow> keeps (loop_inv c k t) (emit c e)"
  by (rule keeps_emit) (use loop_inv_event in fastforce)

subsection \<open>Exits\<close>

text \<open>An exit without error has emitted exactly one terminal event, one with an error at most one.\<close>

definition exit_ok :: "core \<Rightarrow> nat \<Rightarrow> exit \<Rightarrow> run_state \<Rightarrow> bool" where
  "exit_ok c N x s \<longleftrightarrow>
     (\<exists>k t. k \<le> N \<and> loop_inv c k t s \<and> (case x of None \<Rightarrow> t = 1 | Some _ \<Rightarrow> t \<le> 1))"

lemma exit_ok_Some: "loop_inv c k t s \<Longrightarrow> t \<le> 1 \<Longrightarrow> k \<le> N \<Longrightarrow> exit_ok c N (Some e) s"
  by (auto simp: exit_ok_def)

lemma exit_ok_None: "loop_inv c k 1 s \<Longrightarrow> k \<le> N \<Longrightarrow> exit_ok c N None s"
  by (auto simp: exit_ok_def)

text \<open>A piece that keeps the invariant, whatever its error is called.\<close>

lemma valid_quiet:
  "keeps (loop_inv c k 0) m \<Longrightarrow> k \<le> N \<Longrightarrow>
     valid (loop_inv c k 0) (fail_as p m) (\<lambda>_. loop_inv c k 0) (exit_ok c N)"
  by (rule valid_fail_as, rule valid_weaken [OF valid_keeps [where I = "loop_inv c k 0"]])
     (auto intro: exit_ok_Some)

lemma valid_terminal:
  assumes "ev_type e \<in> {EventFinish, EventStopped, EventExhausted}" and "k \<le> N"
  shows "valid (loop_inv c k 0) (then_do (fail_as p (emit c e)) (\<lambda>_. exit_with None)) Q (exit_ok c N)"
proof -
  have step: "loop_inv c k (Suc 0) (s\<lparr>rs_log := rs_log s @ [LEvent e]\<rparr>)" if "loop_inv c k 0 s" for s
    using loop_inv_event [OF that, of e] assms(1) by auto
  show ?thesis
    by (rule valid_then [where Q = "\<lambda>_. loop_inv c k (Suc 0)"], rule valid_fail_as, rule valid_emit)
       (auto intro!: valid_exit exit_ok_Some exit_ok_None step assms(2))
qed

lemma valid_stop_run:
  "k \<le> N \<Longrightarrow> valid (loop_inv c k 0) (stop_run c n) Q (exit_ok c N)"
  unfolding stop_run_def
  by (rule valid_then [where Q = "\<lambda>_. loop_inv c k 0"], rule valid_gets, assumption,
      rule valid_then [where Q = "\<lambda>_. loop_inv c k 0"], rule valid_update, simp,
      rule valid_terminal) simp_all

lemma valid_stop_if_asked:
  "k \<le> N \<Longrightarrow> valid (loop_inv c k 0) (stop_if_asked c n) (\<lambda>_. loop_inv c k 0) (exit_ok c N)"
  unfolding stop_if_asked_def
  by (rule valid_then [where Q = "\<lambda>_. loop_inv c k 0"], rule valid_gets)
     (auto intro: valid_stop_run valid_give)

subsection \<open>Opening and planning\<close>

lemma keeps_loop_step [simp]: "keeps (loop_inv c k t) (run_step c n h name sel inp)"
  unfolding run_step_def by (auto intro!: keeps_then keeps_any_hooks loop.keeps_report split: prod.split)

text \<open>The ways of the loop that keep its invariant.\<close>

lemma valid_loop_exit: "k \<le> N \<Longrightarrow> valid (loop_inv c k 0) (exit_with (Some e)) Q (exit_ok c N)"
  by (rule valid_exit) (rule exit_ok_Some, auto)

lemma valid_loop_note:
  "quiet x \<Longrightarrow> valid (loop_inv c k 0) (note_entry x) (\<lambda>_. loop_inv c k 0) (exit_ok c N)"
  by (rule valid_note) (rule loop.quiet_note)

lemma valid_loop_update:
  "(\<And>s. loop_inv c k 0 (f s) = loop_inv c k 0 s) \<Longrightarrow>
     valid (loop_inv c k 0) (update f) (\<lambda>_. loop_inv c k 0) (exit_ok c N)"
  by (rule valid_update) simp

lemma valid_loop_gets: "valid (loop_inv c k 0) (gets f) (\<lambda>_. loop_inv c k 0) E"
  by (rule valid_gets)

lemma valid_loop_give: "valid (loop_inv c k 0) (give a) (\<lambda>_. loop_inv c k 0) E"
  by (rule valid_give)

lemmas valid_loop =
  valid_seq valid_loop_exit valid_loop_note valid_loop_update valid_loop_gets valid_loop_give
  valid_stop_if_asked valid_if

lemma valid_ask_brain:
  "k \<le> N \<Longrightarrow> valid (loop_inv c k 0) (ask_brain b ob) (\<lambda>_. loop_inv c k 0) (exit_ok c N)"
  unfolding ask_brain_def by (auto intro!: valid_loop split: sum.split)

lemma valid_begin_turn:
  assumes "k \<le> N"
  shows "valid (loop_inv c k 0) (begin_turn c b ob) (\<lambda>(ob', response) s. ob' = ob \<and> loop_inv c k 0 s) (exit_ok c N)"
proof -
  have announce: "keeps (loop_inv c k 0) (emit c (plain_event EventTurnStart n []))" for n
    by (rule keeps_plain_emit) simp_all
  have last: "valid (loop_inv c k 0) (give (ob, response)) (\<lambda>(ob', response) s. ob' = ob \<and> loop_inv c k 0 s) E"
    for response E
    by (rule valid_give) simp
  show ?thesis
    unfolding begin_turn_def Let_def
    by (intro valid_seq valid_if last valid_loop_exit valid_stop_if_asked valid_loop_update
        valid_ask_brain valid_quiet [OF announce] valid_quiet [OF keeps_loop_step] assms) simp_all
qed

lemma valid_open_turn:
  assumes "k \<le> N"
  shows "valid (loop_inv c k 0) (open_turn c b msg n) (\<lambda>(ob, response) s. ob_turn ob = n \<and> loop_inv c k 0 s)
           (exit_ok c N)"
  unfolding open_turn_def
proof (rule valid_then [where Q = "\<lambda>ob s. ob_turn ob = n \<and> loop_inv c k 0 s"])
  show "valid (loop_inv c k 0) (gets (observe c msg n)) (\<lambda>ob s. ob_turn ob = n \<and> loop_inv c k 0 s) (exit_ok c N)"
    by (rule valid_gets) (simp add: observe_def)
  show "valid (\<lambda>s. ob_turn ob = n \<and> loop_inv c k 0 s) (begin_turn c b ob)
      (\<lambda>(ob, response) s. ob_turn ob = n \<and> loop_inv c k 0 s) (exit_ok c N)" for ob
    by (rule valid_conj_pre, rule valid_weaken [OF valid_begin_turn [OF assms]]) auto
qed

definition preflighted :: "core \<Rightarrow> start_input \<Rightarrow> call_decision \<Rightarrow> bool" where
  "preflighted c req call \<longleftrightarrow>
     same_call req (cd_input call) \<and> settled (pd_permission (cd_decision call))
     \<and> (\<not> has_start_hook c \<longrightarrow> pd_permission (cd_decision call) = Allow)"

lemma decide_calls_Inr:
  assumes "decide_calls c n requests s = (t, Inr (calls, checked))"
  shows "checked = has_start_hook c \<and> list_all2 (preflighted c) requests calls"
proof (cases "has_start_hook c")
  case True
  with assms have "calls = preflight_calls c requests s" "checked"
    by (auto simp: decide_calls_def then_do_Inr_iff)
  with True show ?thesis
    using same_call_decide decision_is_safe
    by (auto simp: preflight_calls_def list_all2_conv_all_nth preflighted_def preflight_call_def
        plain_call_def same_call_def decision_def safe_decision_def nth_enumerate_eq)
next
  case False
  with assms show ?thesis
    by (auto simp: decide_calls_def list_all2_conv_all_nth preflighted_def plain_call_def
        same_call_def decision_def)
qed

definition plan_ok :: "core \<Rightarrow> nat \<Rightarrow> turn_plan \<Rightarrow> bool" where
  "plan_ok c n pl \<longleftrightarrow>
     tp_checked pl = has_start_hook c \<and> tp_run pl = map call_action (tp_calls pl)
     \<and> length (tp_requests pl) = length (tp_calls pl) \<and> runnable (tp_actions pl) = tp_run pl
     \<and> (\<forall>call \<in> set (tp_calls pl). si_turn (cd_input call) = n \<and> settled (pd_permission (cd_decision call))
          \<and> (\<not> has_start_hook c \<longrightarrow> pd_permission (cd_decision call) = Allow))"

lemma runnable_replace:
  assumes "map act_kind run = map act_kind (runnable actions)"
  shows "runnable (run @ drop (length run) actions) = run"
proof -
  have len: "length run = length (runnable actions)" using assms map_eq_imp_length_eq by blast
  have "\<forall>a \<in> set run. act_kind a \<noteq> ActFinish"
  proof
    fix a assume "a \<in> set run"
    then have "act_kind a \<in> set (map act_kind (runnable actions))"
      using assms by (metis image_eqI list.set_map)
    then show "act_kind a \<noteq> ActFinish" by (auto simp: runnable_def dest: set_takeWhileD)
  qed
  moreover have "takeWhile (\<lambda>a. act_kind a \<noteq> ActFinish) (drop (length run) actions) = []"
    unfolding len runnable_def
    by (simp add: dropWhile_eq_drop [symmetric]) (metis (mono_tags, lifting) hd_dropWhile list.exhaust_sel takeWhile.simps)
  ultimately show ?thesis by (simp add: runnable_def takeWhile_append)
qed

lemma plan_turn_ok:
  assumes "plan_turn c ob response s = (t, Inr pl)"
  shows "plan_ok c (ob_turn ob) pl"
proof -
  let ?proposed = "runnable (ar_actions response)"
  from assms obtain s1 s2 recent calls checked parts where
    d: "decide_calls c (ob_turn ob) (map (start_request c ob recent) ?proposed) s1 = (s2, Inr (calls, checked))"
    and pl: "pl = \<lparr>tp_calls = calls, tp_run = map (\<lambda>call. si_action (cd_input call)) calls,
       tp_actions = map (\<lambda>call. si_action (cd_input call)) calls @ drop (length calls) (ar_actions response),
       tp_requests = map (start_request c ob recent) ?proposed,
       tp_parts = parts, tp_checked = checked\<rparr>"
    by (auto simp: plan_turn_def then_do_Inr_iff fail_as_Inr Let_def)
  note pre = decide_calls_Inr [OF d]
  then have "map act_kind (map (\<lambda>call. si_action (cd_input call)) calls) = map act_kind ?proposed"
    by (auto simp: list_eq_iff_nth_eq list_all2_conv_all_nth preflighted_def same_call_def start_request_def)
  from runnable_replace [OF this] pre show ?thesis
    by (auto simp: plan_ok_def pl call_action_def list_all2_conv_all_nth preflighted_def same_call_def
        start_request_def in_set_conv_nth)
qed

lemma valid_plan_turn:
  assumes "k \<le> N"
  shows "valid (loop_inv c k 0) (plan_turn c ob response)
           (\<lambda>pl s. plan_ok c (ob_turn ob) pl \<and> loop_inv c k 0 s) (exit_ok c N)"
proof (rule valid_pure)
  show "valid (loop_inv c k 0) (plan_turn c ob response) (\<lambda>_. loop_inv c k 0) (exit_ok c N)"
    unfolding plan_turn_def Let_def
    by (intro valid_seq valid_loop_gets valid_quiet [OF loop.keeps_decide_calls] assms)
       (auto split: sum.split prod.split intro!: valid_loop assms)
qed (rule plan_turn_ok)

subsection \<open>Recording, starting, executing\<close>

lemma list_all2_right: "list_all2 P xs ys \<Longrightarrow> y \<in> set ys \<Longrightarrow> \<exists>x \<in> set xs. P x y"
  by (induction rule: list_all2_induct) auto

definition in_log :: "log_entry \<Rightarrow> run_state \<Rightarrow> bool" where
  "in_log x s \<longleftrightarrow> x \<in> set (rs_log s)"

lemma keeps_in_log_emit: "keeps (in_log x) (emit c e)"
  by (rule keeps_emit) (simp add: in_log_def)

definition call_ready :: "core \<Rightarrow> nat \<Rightarrow> call_decision \<Rightarrow> bool" where
  "call_ready c n call \<longleftrightarrow>
     si_turn (cd_input call) = n \<and> pd_permission (cd_decision call) \<in> {Allow, Deny}"

lemma announced:
  assumes "each (announce_call c) rcs s = (t, Inr u)" and "rc \<in> set rcs"
  shows "in_log (LEvent (decision_event (snd rc))) t"
proof -
  have "\<forall>rc \<in> set rcs. in_log (LEvent (decision_event (snd rc))) t"
    using assms(1)
  proof (rule each_establishes)
    fix rc s t u assume "announce_call c rc s = (t, Inr u)"
    then show "in_log (LEvent (decision_event (snd rc))) t"
      by (auto simp: announce_call_def then_do_Inr_iff map_exit_Inr_iff in_log_def dest!: emit_Inr)
  next
    fix rc rc' assume "rc \<in> set rcs" "rc' \<in> set rcs"
    show "keeps (in_log (LEvent (decision_event (snd rc)))) (announce_call c rc')"
      unfolding announce_call_def
      by (intro keeps_then keeps_update keeps_map_exit keeps_in_log_emit) (simp add: in_log_def count_denial_def)
  qed
  with assms(2) show ?thesis by blast
qed

lemma resolve_calls_announced:
  assumes "resolve_calls c requests calls s = (t, Inr final)"
    and "\<forall>call \<in> set calls. settled (pd_permission (cd_decision call))"
    and "length requests = length calls" and "call \<in> set final"
  shows "in_log (LEvent (decision_event call)) t"
proof -
  have "length final = length calls"
    using resolve_calls_resolved [OF assms(1,2)] list_all2_lengthD by fastforce
  from assms(1) obtain s' u where e: "each (announce_call c) (zip requests final) s' = (t, Inr u)"
    by (auto simp: resolve_calls_def then_do_Inr_iff)
  from assms(3,4) \<open>length final = length calls\<close> obtain rc where "rc \<in> set (zip requests final)" "snd rc = call"
    by (metis in_set_impl_in_set_zip2 snd_conv)
  with announced [OF e] show ?thesis by blast
qed

definition calls_ready :: "core \<Rightarrow> nat \<Rightarrow> turn_plan \<Rightarrow> call_decision list \<Rightarrow> run_state \<Rightarrow> bool" where
  "calls_ready c n pl calls s \<longleftrightarrow>
     map call_action calls = tp_run pl
     \<and> (\<forall>call \<in> set calls. call_ready c n call
          \<and> (has_start_hook c \<longrightarrow> in_log (LEvent (decision_event call)) s))"

lemma record_calls_ready:
  assumes "record_calls c b n pl s = (t, Inr calls)" and ok: "plan_ok c n pl"
  shows "calls_ready c n pl calls t"
proof (cases "has_start_hook c")
  case True
  with assms obtain s' where r: "resolve_calls c (tp_requests pl) (tp_calls pl) s' = (t, Inr calls)"
    by (auto simp: record_calls_def plan_ok_def then_do_Inr_iff fail_as_Inr)
  have settled: "\<forall>call \<in> set (tp_calls pl). settled (pd_permission (cd_decision call))"
    using ok by (simp add: plan_ok_def)
  have pre: "list_all2 (resolved_as c) (tp_calls pl) calls"
    using resolve_calls_resolved [OF r settled] by blast
  then have "map call_action calls = tp_run pl"
    using ok by (auto simp: plan_ok_def list_eq_iff_nth_eq list_all2_conv_all_nth resolved_as_def call_action_def)
  moreover have "call_ready c n call" if "call \<in> set calls" for call
  proof -
    from list_all2_right [OF pre that] obtain a where "a \<in> set (tp_calls pl)" "resolved_as c a call" by blast
    with ok show ?thesis by (auto simp: call_ready_def resolved_as_def plan_ok_def)
  qed
  moreover have "in_log (LEvent (decision_event call)) t" if "call \<in> set calls" for call
    using resolve_calls_announced [OF r settled _ that] ok by (simp add: plan_ok_def)
  ultimately show ?thesis by (simp add: calls_ready_def)
next
  case False
  with assms have "calls = tp_calls pl" by (auto simp: record_calls_def plan_ok_def then_do_Inr_iff)
  with ok False show ?thesis by (auto simp: calls_ready_def plan_ok_def call_ready_def)
qed

lemma valid_record_calls:
  assumes "k \<le> N" and "plan_ok c n pl"
  shows "valid (loop_inv c k 0) (record_calls c b n pl)
           (\<lambda>calls s. calls_ready c n pl calls s \<and> loop_inv c k 0 s) (exit_ok c N)"
proof (rule valid_facts)
  have recon: "valid (loop_inv c k 0) (reconcile b n pl) (\<lambda>_. loop_inv c k 0) (exit_ok c N)"
    unfolding reconcile_def by (auto intro!: valid_loop assms(1) split: option.split)
  have event: "keeps (loop_inv c k 0) (emit c (response_event n pl))"
    by (rule keeps_plain_emit) (simp_all add: response_event_def)
  show "valid (loop_inv c k 0) (record_calls c b n pl) (\<lambda>_. loop_inv c k 0) (exit_ok c N)"
    unfolding record_calls_def
    by (intro valid_seq valid_if recon valid_loop_give valid_quiet [OF event]
        valid_quiet [OF loop.keeps_resolve_calls] assms(1))
qed (rule record_calls_ready [OF _ assms(2)])

text \<open>Every call that is not denied is cleared for execution once its start is announced.\<close>

definition all_cleared :: "core \<Rightarrow> nat \<Rightarrow> call_decision list \<Rightarrow> run_state \<Rightarrow> bool" where
  "all_cleared c n calls s \<longleftrightarrow>
     (\<forall>call \<in> set calls. \<not> denied call \<longrightarrow> cleared c n (call_action call) (rs_log s))"

lemma start_announced:
  assumes "announce_starts c n calls s = (t, Inr u)" and "call \<in> set calls" and "\<not> denied call"
  shows "in_log (LEvent (start_event c n (call_action call))) t"
proof -
  let ?xs = "filter (\<lambda>call. \<not> denied call) calls"
  have "\<forall>call \<in> set ?xs. in_log (LEvent (start_event c n (call_action call))) t"
    using assms(1) [unfolded announce_starts_def]
  proof (rule each_establishes)
    fix call s t u
    assume "fail_as ''event action_start: '' (emit c (start_event c n (call_action call))) s = (t, Inr u)"
    then show "in_log (LEvent (start_event c n (call_action call))) t"
      by (auto simp: fail_as_Inr in_log_def dest!: emit_Inr)
  qed (intro keeps_fail_as keeps_in_log_emit)
  with assms(2,3) show ?thesis by simp
qed

lemma keeps_announce_in_log: "keeps (in_log x) (announce_starts c n calls)"
  unfolding announce_starts_def by (intro keeps_each keeps_fail_as keeps_in_log_emit)

lemma starts_clear:
  assumes "announce_starts c n calls s = (t, Inr u)" and "calls_ready c n pl calls s"
  shows "all_cleared c n calls t"
  unfolding all_cleared_def
proof (intro ballI impI)
  fix call assume call: "call \<in> set calls" "\<not> denied call"
  have "in_log (LEvent (start_event c n (call_action call))) t"
    by (rule start_announced [OF assms(1) call])
  moreover have "pd_permission (cd_decision call) = Allow" and turn: "si_turn (cd_input call) = n"
    using assms(2) call by (auto simp: calls_ready_def call_ready_def denied_def)
  moreover have "in_log (LEvent (decision_event call)) t" if "has_start_hook c"
    using assms(2) call that keepsE [OF keeps_announce_in_log _ assms(1)] by (simp add: calls_ready_def)
  ultimately show "cleared c n (call_action call) (rs_log t)"
    unfolding cleared_def in_log_def
    by (fastforce simp: start_event_def decision_event_def call_action_def plain_event_def)
qed

lemma valid_announce_starts:
  assumes "k \<le> N"
  shows "valid (\<lambda>s. calls_ready c n pl calls s \<and> loop_inv c k 0 s) (announce_starts c n calls)
           (\<lambda>_ s. all_cleared c n calls s \<and> loop_inv c k 0 s) (exit_ok c N)"
proof (rule valid_facts)
  have event: "keeps (loop_inv c k 0) (emit c (start_event c n a))" for a
    by (rule keeps_plain_emit) (simp_all add: start_event_def)
  have each_valid: "valid (loop_inv c k 0) (each (\<lambda>call. fail_as p (emit c (start_event c n (call_action call)))) xs)
      (\<lambda>_. loop_inv c k 0) (exit_ok c N)" for xs p
    by (induction xs) (auto intro!: valid_loop_give valid_seq valid_quiet [OF event] assms)
  show "valid (\<lambda>s. calls_ready c n pl calls s \<and> loop_inv c k 0 s) (announce_starts c n calls)
      (\<lambda>_. loop_inv c k 0) (exit_ok c N)"
    unfolding announce_starts_def by (rule valid_weaken [OF each_valid]) auto
qed (auto intro: starts_clear)

lemma executed_entries_cleared:
  assumes "all_cleared c n calls s"
  shows "\<forall>x \<in> set (executed_entries n calls). \<forall>m i a. x = LExecute m i a \<longrightarrow> cleared c m a (rs_log s)"
  using assms by (auto simp: executed_entries_def all_cleared_def in_set_enumerate_eq)

lemma terminals_executed [simp]: "terminals (executed_entries n calls) = 0"
  by (auto simp: terminals_def executed_entries_def filter_empty_conv)

lemma closings_executed [simp]: "closings_ok (executed_entries n calls)"
  by (auto simp: closings_ok_def executed_entries_def)

lemma valid_execute_calls:
  "valid (\<lambda>s. all_cleared c n calls s \<and> loop_inv c k 0 s) (execute_calls c n calls)
     (\<lambda>results s. length results = length calls \<and> loop_inv c k 0 s) E"
proof (rule validI)
  fix s t results
  assume pre: "all_cleared c n calls s \<and> loop_inv c k 0 s" and "execute_calls c n calls s = (t, Inr results)"
  then have "t = s\<lparr>rs_log := rs_log s @ executed_entries n calls\<rparr>" and "length results = length calls"
    by (auto simp: execute_calls_def then_do_Inr_iff)
  moreover have "guarded c (rs_log s @ executed_entries n calls)"
    using pre executed_entries_cleared by (intro guarded_append) (auto simp: loop_inv_def)
  ultimately show "length results = length calls \<and> loop_inv c k 0 t"
    using pre by (simp add: loop_inv_def)
qed (auto simp: execute_calls_def then_do_Inl_iff gets_def update_def give_def)

subsection \<open>Closing calls and turn\<close>

definition answers_call :: "call_decision \<Rightarrow> tool_result \<Rightarrow> bool" where
  "answers_call call res \<longleftrightarrow>
     tr_action_id res = act_id (call_action call) \<and> tr_kind res = act_kind (call_action call)
     \<and> (denied call \<longrightarrow> \<not> tr_ok res)"

lemma end_tool_call_answers:
  assumes "end_tool_call c (end_input c n call res0) s = (t, Inr (res, errs))"
  shows "answers_call call res"
  using assms
  by (auto simp: end_tool_call_def end_input_def answers_call_def Let_def case_prod_beta split: if_splits)

lemma closing_ok_close_event: "answers_call call res \<Longrightarrow> closing_ok (close_event c n call res)"
  by (simp add: closing_ok_def close_event_def answers_call_def)

lemma valid_end_tool_call:
  "valid (loop_inv c k 0) (end_tool_call c (end_input c n call res0))
     (\<lambda>(res, errs) s. answers_call call res \<and> loop_inv c k 0 s) E"
proof (rule validI)
  fix s t r assume "loop_inv c k 0 s" and run: "end_tool_call c (end_input c n call res0) s = (t, Inr r)"
  then have "loop_inv c k 0 t" using keepsE [OF loop.keeps_end_tool_call] by blast
  with end_tool_call_answers run
  show "(case r of (res, errs) \<Rightarrow> \<lambda>s. answers_call call res \<and> loop_inv c k 0 s) t"
    by (cases r) blast
qed (simp add: end_tool_call_def case_prod_beta Let_def)

lemma valid_close_call:
  assumes "k \<le> N"
  shows "valid (loop_inv c k 0) (close_call c n call res0)
           (\<lambda>res s. answers_call call res \<and> loop_inv c k 0 s) (exit_ok c N)"
proof -
  have event: "keeps (loop_inv c k 0) (emit c (close_event c n call res))" if "answers_call call res" for res
    by (rule keeps_plain_emit [OF closing_ok_close_event [OF that]]) (simp add: close_event_def)
  have rest: "valid (loop_inv c k 0)
      (then_do (fail_as [] (report_hooks c n errs))
         (\<lambda>_. then_do (update (add_open_result res))
           (\<lambda>_. then_do (fail_as p (emit c (close_event c n call res))) (\<lambda>_. give res))))
      (\<lambda>res s. answers_call call res \<and> loop_inv c k 0 s) (exit_ok c N)"
    if "answers_call call res" for res errs p
    by (intro valid_seq valid_quiet [OF loop.keeps_report] valid_quiet [OF event [OF that]] valid_loop_update assms)
       (auto intro!: valid_give simp: that add_open_result_def)
  show ?thesis
    unfolding close_call_def
    by (rule valid_then [OF valid_end_tool_call]) (auto intro: valid_conj_pre rest split: prod.split)
qed

lemma valid_close_calls:
  assumes "k \<le> N"
  shows "valid (loop_inv c k 0) (close_calls c n pairs)
           (\<lambda>results s. list_all2 answers_call (map fst pairs) results \<and> loop_inv c k 0 s) (exit_ok c N)"
proof (induction pairs)
  case Nil
  show ?case by (auto intro: valid_give)
next
  case (Cons pair pairs)
  obtain call res0 where pair: "pair = (call, res0)" by (cases pair)
  have rest: "valid (loop_inv c k 0) (then_do (close_calls c n pairs) (\<lambda>results. give (res # results)))
      (\<lambda>results s. list_all2 answers_call (map fst (pair # pairs)) results \<and> loop_inv c k 0 s) (exit_ok c N)"
    if "answers_call call res" for res
    by (rule valid_then [OF Cons.IH]) (auto intro!: valid_give simp: pair that)
  show ?case
    unfolding pair close_calls.simps
    by (rule valid_then [OF valid_close_call [OF assms]], rule valid_conj_pre, rule rest [unfolded pair])
qed

lemma history_ok_add:
  assumes "history_ok k res" and "tl_turn lg = Suc k" and "turn_log_ok lg"
  shows "history_ok (Suc k) (res\<lparr>rr_turns := tl_turn lg, rr_history := rr_history res @ [lg]\<rparr>)"
  using assms by (simp add: history_ok_def)

lemma valid_close_turn:
  assumes "Suc k \<le> N" and "tl_turn lg = Suc k" and "turn_log_ok lg"
  shows "valid (loop_inv c k 0) (close_turn c pl lg) (\<lambda>_. loop_inv c (Suc k) 0) (exit_ok c N)"
proof -
  have event: "keeps (loop_inv c (Suc k) 0) (emit c (turn_end_event lg))"
    by (rule keeps_plain_emit) (simp_all add: turn_end_event_def)
  have book: "loop_inv c (Suc k) 0 (book_turn pl lg s)" if "loop_inv c k 0 s" for s
    using that history_ok_add [OF _ assms(2,3)] by (simp add: book_turn_def loop_inv_def)
  show ?thesis
    unfolding close_turn_def
    by (rule valid_then [where Q = "\<lambda>_. loop_inv c (Suc k) 0"], rule valid_update, rule book, assumption)
       (intro valid_seq valid_quiet [OF event] valid_quiet [OF keeps_end_turn] valid_loop_update assms(1); simp)
qed

subsection \<open>Finishing and going on\<close>

lemma loop_inv_answer [simp]:
  "loop_inv c k t (set_answer a s) = loop_inv c k t s"
  "loop_inv c k t (reopen r s) = loop_inv c k t s"
  by (simp_all add: loop_inv_def set_answer_def reopen_def Let_def)

lemma valid_ask_continue:
  "k \<le> N \<Longrightarrow> valid (loop_inv c k 0) (ask_continue c n) (\<lambda>_. loop_inv c k 0) (exit_ok c N)"
  unfolding ask_continue_def
  by (auto intro!: valid_seq valid_loop_gets valid_if valid_loop_give valid_loop_update
      valid_quiet [OF keeps_end_agent] split: prod.split)

lemma valid_finish_run:
  assumes "k \<le> N"
  shows "valid (loop_inv c k 0) (finish_run c n answer) (\<lambda>_. loop_inv c k 0) (exit_ok c N)"
  unfolding finish_run_def
  by (intro valid_seq valid_loop_update valid_ask_continue valid_if valid_loop_give valid_terminal assms)
     simp_all

lemma valid_interpret_all:
  "k \<le> N \<Longrightarrow> valid (loop_inv c k 0) (interpret_all b ob results stopped) (\<lambda>_. loop_inv c k 0) (exit_ok c N)"
  by (induction results arbitrary: stopped) (auto intro!: valid_loop split: sum.split)

lemma valid_reflect:
  assumes "k \<le> N"
  shows "valid (loop_inv c k 0) (reflect c b ob lg) (\<lambda>_. loop_inv c k 0) (exit_ok c N)"
proof -
  have stop: "valid (loop_inv c k 0)
      (then_do (update (\<lambda>s. s\<lparr>rs_end_reason := EndStopped, rs_end_stop := reason\<rparr>))
        (\<lambda>_. then_do (fail_as ''event stopped: '' (emit c (plain_event EventStopped (tl_turn lg) reason)))
               (\<lambda>_. exit_with None))) (\<lambda>_. loop_inv c k 0) (exit_ok c N)" for reason
    by (intro valid_seq valid_loop_update valid_terminal assms) simp_all
  show ?thesis
    unfolding reflect_def
    by (intro valid_seq valid_interpret_all valid_loop_update valid_stop_if_asked assms)
       (auto intro: valid_loop_give stop split: option.split)
qed

text \<open>The closing half of a turn, from the results of the execution on.\<close>

lemma valid_turn_end:
  assumes N: "Suc k \<le> N" and pl: "plan_ok c (Suc k) pl" and calls: "map call_action calls = tp_run pl"
    and len: "length results0 = length calls"
  shows "valid (loop_inv c k 0)
     (then_do (close_calls c (Suc k) (zip calls results0))
      (\<lambda>results. let lg = \<lparr>tl_turn = Suc k, tl_actions = tp_actions pl, tl_results = results\<rparr> in
         then_do (close_turn c pl lg)
      (\<lambda>_. then_do (case finish_answer (ar_actions response) of
                      Some answer \<Rightarrow> finish_run c (Suc k) answer
                    | None \<Rightarrow> give ())
      (\<lambda>_. reflect c b ob lg))))
     (\<lambda>_. loop_inv c (Suc k) 0) (exit_ok c N)"
proof -
  have after: "valid (loop_inv c (Suc k) 0)
      (then_do (case finish_answer (ar_actions response) of
                  Some answer \<Rightarrow> finish_run c (Suc k) answer | None \<Rightarrow> give ())
        (\<lambda>_. reflect c b ob lg)) (\<lambda>_. loop_inv c (Suc k) 0) (exit_ok c N)" for lg
    by (auto intro!: valid_seq valid_reflect valid_finish_run valid_loop_give N split: option.split)
  have log_ok: "turn_log_ok \<lparr>tl_turn = Suc k, tl_actions = tp_actions pl, tl_results = results\<rparr>"
    if "list_all2 answers_call (map fst (zip calls results0)) results" for results
  proof -
    have "runnable (tp_actions pl) = map call_action calls" using pl calls by (simp add: plan_ok_def)
    with that len show ?thesis
      by (auto simp: turn_log_ok_def list_all2_map1 answers_call_def elim: list_all2_mono)
  qed
  show ?thesis
    unfolding Let_def
    by (rule valid_then [OF valid_close_calls], use N in simp, rule valid_conj_pre,
        rule valid_then [OF valid_close_turn [OF N]], simp, rule log_ok, assumption, rule after)
qed

lemma valid_one_turn:
  assumes N: "Suc k \<le> N"
  shows "valid (loop_inv c k 0) (one_turn c b msg (Suc k)) (\<lambda>_. loop_inv c (Suc k) 0) (exit_ok c N)"
proof -
  have k: "k \<le> N" using N by simp
  have exec: "valid (\<lambda>s. all_cleared c (Suc k) calls s \<and> loop_inv c k 0 s)
      (then_do (execute_calls c (Suc k) calls)
        (\<lambda>results0. then_do (close_calls c (Suc k) (zip calls results0))
      (\<lambda>results. let lg = \<lparr>tl_turn = Suc k, tl_actions = tp_actions pl, tl_results = results\<rparr> in
         then_do (close_turn c pl lg)
      (\<lambda>_. then_do (case finish_answer (ar_actions response) of
                      Some answer \<Rightarrow> finish_run c (Suc k) answer
                    | None \<Rightarrow> give ())
      (\<lambda>_. reflect c b ob lg))))) (\<lambda>_. loop_inv c (Suc k) 0) (exit_ok c N)"
    if "plan_ok c (Suc k) pl" "map call_action calls = tp_run pl" for calls pl ob response
    by (rule valid_then [OF valid_execute_calls], rule valid_conj_pre, rule valid_turn_end [OF N that])
  have rest: "valid (\<lambda>s. calls_ready c (Suc k) pl calls s \<and> loop_inv c k 0 s)
      (then_do (announce_starts c (Suc k) calls) (\<lambda>_. then_do (execute_calls c (Suc k) calls)
        (\<lambda>results0. then_do (close_calls c (Suc k) (zip calls results0))
      (\<lambda>results. let lg = \<lparr>tl_turn = Suc k, tl_actions = tp_actions pl, tl_results = results\<rparr> in
         then_do (close_turn c pl lg)
      (\<lambda>_. then_do (case finish_answer (ar_actions response) of
                      Some answer \<Rightarrow> finish_run c (Suc k) answer
                    | None \<Rightarrow> give ())
      (\<lambda>_. reflect c b ob lg)))))) (\<lambda>_. loop_inv c (Suc k) 0) (exit_ok c N)"
    if pl: "plan_ok c (Suc k) pl" for calls pl ob response
  proof (cases "map call_action calls = tp_run pl")
    case True
    show ?thesis by (rule valid_then [OF valid_announce_starts [OF k]], rule exec [OF pl True])
  next
    case False
    then show ?thesis by (auto simp: valid_def calls_ready_def)
  qed
  have "valid (\<lambda>s. ob_turn ob = Suc k \<and> loop_inv c k 0 s)
      (then_do (plan_turn c ob response) (\<lambda>pl. then_do (record_calls c b (Suc k) pl)
        (\<lambda>calls. then_do (announce_starts c (Suc k) calls) (\<lambda>_. then_do (execute_calls c (Suc k) calls)
        (\<lambda>results0. then_do (close_calls c (Suc k) (zip calls results0))
      (\<lambda>results. let lg = \<lparr>tl_turn = Suc k, tl_actions = tp_actions pl, tl_results = results\<rparr> in
         then_do (close_turn c pl lg)
      (\<lambda>_. then_do (case finish_answer (ar_actions response) of
                      Some answer \<Rightarrow> finish_run c (Suc k) answer
                    | None \<Rightarrow> give ())
      (\<lambda>_. reflect c b ob lg)))))))) (\<lambda>_. loop_inv c (Suc k) 0) (exit_ok c N)" for ob response
    by (rule valid_conj_pre, rule valid_then [OF valid_plan_turn [OF k]], rule valid_conj_pre,
        rule valid_then [OF valid_record_calls [OF k]], simp, rule rest, simp)
  then show ?thesis
    unfolding one_turn_def
    by (intro valid_then [OF valid_open_turn [OF k]]) (auto split: prod.split)
qed

lemma valid_exhausted:
  "k \<le> N \<Longrightarrow> valid (loop_inv c k 0) (exhausted c) Q (exit_ok c N)"
  unfolding exhausted_def by (intro valid_seq valid_loop_update valid_terminal) simp_all

lemma valid_turns:
  "k + left \<le> N \<Longrightarrow> valid (loop_inv c k 0) (turns c b msg left (Suc k)) Q (exit_ok c N)"
proof (induction left arbitrary: k)
  case 0
  then show ?case by (simp add: valid_exhausted)
next
  case (Suc left)
  show ?case
    unfolding turns.simps
    by (rule valid_then [OF valid_one_turn]) (use Suc.prems Suc.IH [of "Suc k"] in auto)
qed

lemma valid_run_body: "valid (loop_inv c 0 0) (run_body c b msg) Q (exit_ok c (max_turns c))"
proof -
  have event: "keeps (loop_inv c 0 0) (emit c (plain_event EventAgentStart 0 msg))"
    by (rule keeps_plain_emit) simp_all
  show ?thesis
    unfolding run_body_def
    by (intro valid_seq valid_quiet [OF event] valid_quiet [OF keeps_loop_step] valid_loop_update
        valid_stop_if_asked) (simp_all add: valid_turns [of 0, simplified])
qed

text \<open>The body never falls through: it exits.\<close>

lemma turns_exits: "turns c b msg left n s \<noteq> (t, Inr u)"
  by (induction left arbitrary: n s) (auto simp: then_do_Inr_iff exhausted_def)

lemma run_body_exits: "\<exists>t x. run_body c b msg s = (t, Inl x)"
proof -
  have "run_body c b msg s \<noteq> (t, Inr u)" for t u
    by (simp add: run_body_def then_do_Inr_iff turns_exits)
  then show ?thesis by (metis sum.exhaust surj_pair)
qed

subsection \<open>The whole run\<close>

lemma exit_ok_join:
  assumes "exit_ok c N err s" and "\<And>k u. loop_inv c k u s \<Longrightarrow> loop_inv c k u t"
  shows "exit_ok c N (join_err err e) t"
  using assms by (fastforce simp: exit_ok_def join_err_def split: option.splits)

lemma loop_inv_no_effects: "keeps (loop_inv c k u) m \<Longrightarrow> loop_inv c k u s \<Longrightarrow>
    m (s\<lparr>rs_fx := no_effects\<rparr>) = (t, r) \<Longrightarrow> loop_inv c k u t"
  by (erule keepsE) simp_all

lemma close_open_turn_inv:
  assumes "exit_ok c N err s" and "close_open_turn c (s, err) = (t, err')"
  shows "exit_ok c N err' t"
proof (cases "rs_open_turn s")
  case None
  with assms show ?thesis by (simp add: close_open_turn_def)
next
  case (Some lg)
  obtain r where r: "end_turn c lg err (s\<lparr>rs_fx := no_effects\<rparr>) = (t, r)" "err' = join_err err (piece_error r)"
    using assms(2) Some by (auto simp: close_open_turn_def Let_def split: prod.splits)
  show ?thesis
    unfolding r(2) by (rule exit_ok_join [OF assms(1)]) (rule loop_inv_no_effects [OF keeps_end_turn _ r(1)])
qed

lemma close_open_agent_inv:
  assumes "exit_ok c N err s" and "close_open_agent c (s, err) = (t, err')"
  shows "exit_ok c N err' t"
proof (cases "rs_agent_open s")
  case False
  with assms show ?thesis by (simp add: close_open_agent_def)
next
  case True
  obtain inp r where r: "end_agent c inp (s\<lparr>rs_fx := no_effects\<rparr>) = (t, r)" "err' = join_err err (piece_error r)"
    using assms(2) True by (auto simp: close_open_agent_def Let_def split: prod.splits)
  show ?thesis
    unfolding r(2) by (rule exit_ok_join [OF assms(1)]) (rule loop_inv_no_effects [OF keeps_end_agent _ r(1)])
qed

lemma loop_inv_begin: "loop_inv c 0 0 (begin_state c)"
  by (simp add: loop_inv_def begin_state_def history_ok_def empty_result_def)

lemma run_core_exit_ok:
  assumes "run_core c msg = (s, err)" and "c_brain c = Some b"
  shows "exit_ok c (max_turns c) err s"
proof -
  obtain s1 x where body: "run_body c b msg (begin_state c) = (s1, Inl x)"
    using run_body_exits by blast
  have ok: "exit_ok c (max_turns c) x s1"
    using validD(2) [OF valid_run_body loop_inv_begin body] .
  obtain s2 e2 where turn: "close_open_turn c (s1, x) = (s2, e2)"
    by (cases "close_open_turn c (s1, x)")
  have "close_open_agent c (s2, e2) = (s, err)"
    using assms body turn by (simp add: run_core_def run_error_def)
  with close_open_turn_inv [OF ok turn] show ?thesis by (rule close_open_agent_inv)
qed

end
