(* ===== verification/Core_Props.thy ===== *)
theory Core_Props
  imports Run_Safety
begin

section \<open>Properties of a run (core.go, Run)\<close>

text \<open>
  The properties of the loop that its users rely on, over \<open>run_core\<close>: for every brain, every
  set of hooks, tools, middleware, sinks and approval handlers, and every interleaving of
  the concurrent calls.
\<close>

lemma run_core_inv:
  "\<exists>k t. k \<le> max_turns c \<and> t \<le> 1 \<and> loop_inv c k t (fst (run_core c msg))
     \<and> (snd (run_core c msg) = None \<longrightarrow> t = 1)"
proof (cases "c_brain c")
  case None
  then show ?thesis using loop_inv_begin [of c]
    by (intro exI [of _ 0]) (simp add: run_core_def)
next
  case (Some b)
  obtain s err where r: "run_core c msg = (s, err)" by (cases "run_core c msg")
  from run_core_exit_ok [OF r Some] r show ?thesis
    by (fastforce simp: exit_ok_def split: option.splits)
qed

text \<open>C2. No action executes that was not cleared: before each execution, in the same turn, the
  start of exactly that action was announced to every observer, and, when start hooks are
  registered, so was a decision that allows exactly that action.\<close>

theorem execution_guarded: "guarded c (rs_log (fst (run_core c msg)))"
  using run_core_inv [of c msg] by (auto simp: loop_inv_def)

text \<open>Every closing event of an action carries a result with that action's identity, whatever the
  handler, the middleware or the hooks returned, and the result of a denied call is never
  successful.\<close>

theorem closings_correlated: "closings_ok (rs_log (fst (run_core c msg)))"
  using run_core_inv [of c msg] by (auto simp: loop_inv_def)

text \<open>The history of a run numbers its completed turns from one, holds for each turn one result
  per executed or denied call in call order with that call's identity, counts them in
  \<^verbatim>\<open>Turns\<close>, and never exceeds the turn budget.\<close>

theorem run_history_wf:
  "history_ok (rr_turns (rs_result (fst (run_core c msg)))) (rs_result (fst (run_core c msg)))
   \<and> rr_turns (rs_result (fst (run_core c msg))) \<le> max_turns c"
  using run_core_inv [of c msg] by (auto simp: loop_inv_def history_ok_def)

text \<open>A run that returns no error emitted exactly one terminal event (finish, stopped or
  exhausted); a run that fails emitted at most one.\<close>

theorem run_terminates_once:
  "terminals (rs_log (fst (run_core c msg))) \<le> 1
   \<and> (snd (run_core c msg) = None \<longrightarrow> terminals (rs_log (fst (run_core c msg))) = 1)"
  using run_core_inv [of c msg] by (auto simp: loop_inv_def)

definition echo_action :: action where
  "echo_action = \<lparr>act_id = ''c1'', act_kind = ''echo'', act_args = ''{}'', act_danger = no_danger\<rparr>"

definition two_step_brain :: brain where
  "two_step_brain =
     \<lparr>br_respond = (\<lambda>_ ob. Inr \<lparr>ar_parts = [], ar_actions =
        (if ob_turn ob = 1 then [echo_action] else [echo_action\<lparr>act_kind := ActFinish\<rparr>])\<rparr>),
      br_interpret = (\<lambda>_ _ _. Inr \<lparr>in_continue = True, in_summary = [], in_stop_reason = []\<rparr>),
      br_reconcile = None\<rparr>"

definition echo_core :: core where
  "echo_core =
     (new_core (\<lambda>_. None) (\<lambda>_. 0))\<lparr>c_brain := Some two_step_brain, c_max_turns := 3,
        c_handlers := [''echo'' \<mapsto> \<lambda>_ a. Returned (zero_result\<lparr>tr_ok := True, tr_output := act_args a\<rparr>) None]\<rparr>"

lemma run_terminates_once_witness:
  "terminals (rs_log (fst (run_core echo_core ''hi''))) = 1"
proof -
  have "snd (run_core echo_core ''hi'') = None" by code_simp
  with run_terminates_once [of echo_core "''hi''"] show ?thesis by blast
qed

subsection \<open>The recorded response names the calls that run\<close>

definition tool_part :: "assistant_part \<Rightarrow> bool" where
  "tool_part p \<longleftrightarrow> ap_type p = PartToolCall"

definition part_ids :: "assistant_part list \<Rightarrow> string list" where
  "part_ids parts = map (act_id \<circ> ap_action) (filter tool_part parts)"

lemma collect_ids_Inr:
  "collect_ids as rem = Inr rem' \<Longrightarrow> distinct (map fst rem) \<Longrightarrow>
     distinct (map act_id as) \<and> distinct (map fst rem') \<and> fst ` set rem' = act_id ` set as \<union> fst ` set rem
     \<and> act_id ` set as \<inter> fst ` set rem = {}"
proof (induction as arbitrary: rem)
  case (Cons a as)
  then have new: "act_id a \<notin> fst ` set rem" and rest: "collect_ids as ((act_id a, a) # rem) = Inr rem'"
    by (auto split: if_splits simp: map_of_eq_None_iff)
  from Cons.IH [OF rest] Cons.prems(2) new show ?case by auto
qed auto

lemma match_parts_Inr:
  "match_parts i parts rem = Inr left \<Longrightarrow>
     distinct (part_ids parts) \<and> fst ` set rem = set (part_ids parts) \<union> fst ` set left
     \<and> set (part_ids parts) \<inter> fst ` set left = {}"
proof (induction parts arbitrary: i rem)
  case (Cons p parts)
  show ?case
  proof (cases "ap_type p")
    case PartText
    with Cons show ?thesis by (auto simp: part_ids_def tool_part_def split: if_splits)
  next
    case PartToolCall
    let ?id = "act_id (ap_action p)"
    let ?rem = "filter (\<lambda>e. fst e \<noteq> ?id) rem"
    from Cons.prems PartToolCall have mem: "?id \<in> fst ` set rem"
      and rest: "match_parts (Suc i) parts ?rem = Inr left"
      by (auto split: option.splits if_splits dest!: map_of_SomeD intro: rev_image_eqI)
    have "fst ` set ?rem = fst ` set rem - {?id}" by auto
    with Cons.IH [OF rest] mem show ?thesis
      using PartToolCall by (auto simp: part_ids_def tool_part_def)
  next
    case (PartOther t)
    with Cons.prems show ?thesis by simp
  qed
qed (simp add: part_ids_def)

lemma normalize_ids:
  assumes "normalize_assistant_parts parts as = Inr out" and "parts \<noteq> [] \<or> distinct (map act_id as)"
  shows "distinct (map act_id as) \<and> set (part_ids out) = act_id ` set as"
proof (cases "parts = []")
  case True
  let ?mk = "\<lambda>a. \<lparr>ap_type = PartToolCall, ap_text = [], ap_action = a\<rparr>"
  from True assms(1) have out: "out = map ?mk as" by (simp add: normalize_assistant_parts_def)
  then have "filter tool_part out = map ?mk as" by (simp add: filter_id_conv tool_part_def)
  with True assms(2) show ?thesis by (simp add: part_ids_def image_image)
next
  case False
  then have "and_then (collect_ids as []) (\<lambda>rem. and_then (match_parts 0 parts rem)
      (\<lambda>left. if left \<noteq> [] then Inl ''assistant response omits an executable action'' else Inr parts)) = Inr out"
    using assms(1) by (simp add: normalize_assistant_parts_def)
  then obtain rem left where rem: "collect_ids as [] = Inr rem" "match_parts 0 parts rem = Inr left"
    and last: "(if left \<noteq> [] then Inl ''assistant response omits an executable action'' else Inr parts) = Inr out"
    by (elim and_then_InrE)
  from last have "left = []" "out = parts" by (simp_all split: if_splits)
  note rem = rem [unfolded \<open>left = []\<close>] \<open>out = parts\<close>
  from collect_ids_Inr [OF rem(1)] match_parts_Inr [OF rem(2)] rem(3) show ?thesis by auto
qed

lemma refresh_tool_actions:
  assumes "distinct (map act_id run)" and "set (part_ids parts) = act_id ` set run"
  shows "ap_action ` set (filter tool_part (refresh_parts run parts)) = set run"
proof -
  have look: "map_of (rev (map (\<lambda>a. (act_id a, a)) run)) (act_id a) = Some a" if "a \<in> set run" for a
  proof (rule map_of_is_SomeI)
    have "map fst (rev (map (\<lambda>a. (act_id a, a)) run)) = rev (map act_id run)" by (simp add: rev_map)
    then show "distinct (map fst (rev (map (\<lambda>a. (act_id a, a)) run)))" using assms(1) by simp
  qed (use that in simp)
  let ?f = "\<lambda>p. case map_of (rev (map (\<lambda>a. (act_id a, a)) run)) (act_id (ap_action p)) of
              Some a \<Rightarrow> a | None \<Rightarrow> zero_action"
  have "filter tool_part (refresh_parts run parts)
      = map (\<lambda>p. p\<lparr>ap_action := ?f p\<rparr>) (filter tool_part parts)"
    by (induction parts) (simp_all add: refresh_parts_def tool_part_def)
  then have "ap_action ` set (filter tool_part (refresh_parts run parts)) = ?f ` set (filter tool_part parts)"
    by (simp add: image_image)
  also have "\<dots> = (\<lambda>i. case map_of (rev (map (\<lambda>a. (act_id a, a)) run)) i of
              Some a \<Rightarrow> a | None \<Rightarrow> zero_action) ` set (part_ids parts)"
    by (simp add: part_ids_def image_image)
  also have "\<dots> = set run"
    unfolding assms(2) using look by (simp add: image_image)
  finally show ?thesis .
qed

lemma plan_turn_parts:
  assumes "plan_turn c ob response s = (t, Inr pl)"
  obtains parts where "(if runnable (ar_actions response) = [] then Inr []
       else normalize_assistant_parts (ar_parts response) (runnable (ar_actions response))) = Inr parts"
    "tp_parts pl = refresh_parts (tp_run pl) parts"
    "map act_id (tp_run pl) = map act_id (runnable (ar_actions response))"
proof -
  from assms obtain s1 s2 recent calls checked parts where
    n: "(if runnable (ar_actions response) = [] then Inr []
       else normalize_assistant_parts (ar_parts response) (runnable (ar_actions response))) = Inr parts"
    and d: "decide_calls c (ob_turn ob) (map (start_request c ob recent) (runnable (ar_actions response))) s1
       = (s2, Inr (calls, checked))"
    and pl: "tp_run pl = map (\<lambda>call. si_action (cd_input call)) calls"
      "tp_parts pl = refresh_parts (tp_run pl) parts"
    by (auto simp: plan_turn_def then_do_Inr_iff fail_as_Inr Let_def split: sum.splits)
  have "map act_id (tp_run pl) = map act_id (runnable (ar_actions response))"
    using decide_calls_Inr [OF d]
    by (auto simp: pl list_eq_iff_nth_eq list_all2_conv_all_nth preflighted_def same_call_def start_request_def)
  with n pl that show thesis by blast
qed

text \<open>The response recorded before execution names exactly the calls that will run: after the start
  hooks updated arguments, the tool-call parts of the recorded response are the calls of the
  plan, by ID, provided the brain's IDs are distinct (which is checked whenever it sends parts).\<close>

theorem recorded_parts_name_the_calls:
  assumes "plan_turn c ob response s = (t, Inr pl)" and "runnable (ar_actions response) \<noteq> []"
    and "ar_parts response \<noteq> [] \<or> distinct (map act_id (runnable (ar_actions response)))"
  shows "ap_action ` set (filter tool_part (tp_parts pl)) = set (tp_run pl) \<and> distinct (map act_id (tp_run pl))"
proof -
  obtain parts where n: "normalize_assistant_parts (ar_parts response) (runnable (ar_actions response)) = Inr parts"
    and p: "tp_parts pl = refresh_parts (tp_run pl) parts"
    and ids: "map act_id (tp_run pl) = map act_id (runnable (ar_actions response))"
    using plan_turn_parts [OF assms(1)] assms(2) by (metis (mono_tags, lifting))
  have "distinct (map act_id (tp_run pl))" "set (part_ids parts) = act_id ` set (tp_run pl)"
    using normalize_ids [OF n assms(3)] ids by (simp_all flip: set_map)
  with refresh_tool_actions p show ?thesis by metis
qed

lemma recorded_parts_name_the_calls_witness:
  "\<exists>pl :: turn_plan. ap_action ` set (filter tool_part (tp_parts pl)) = set (tp_run pl) \<and> tp_run pl \<noteq> []"
proof -
  let ?r = "\<lparr>ar_parts = [], ar_actions = [echo_action]\<rparr>"
  let ?m = "plan_turn echo_core (observe echo_core ''hi'' 1 (begin_state echo_core)) ?r (begin_state echo_core)"
  have "(case snd ?m of Inr pl \<Rightarrow> tp_run pl \<noteq> [] | Inl _ \<Rightarrow> False)" by code_simp
  then obtain t pl where pl: "?m = (t, Inr pl)" "tp_run pl \<noteq> []"
    by (cases ?m) (auto split: sum.splits)
  have "ap_action ` set (filter tool_part (tp_parts pl)) = set (tp_run pl) \<and> distinct (map act_id (tp_run pl))"
    by (rule recorded_parts_name_the_calls [OF pl(1)]) (simp_all add: runnable_def echo_action_def ActFinish_def)
  with pl(2) show ?thesis by blast
qed

end
