(* ===== verification/Runtime_Types.thy ===== *)
theory Runtime_Types
  imports Protocol
begin

section \<open>Conversations, runs and the durable event (runtime/types.go, runtime/manager.go)\<close>

text \<open>
  The values that the runtime persists. Times are microseconds (the store truncates to
  them), a zero time is \<open>None\<close>; an optional payload of an event is an option; statuses and
  event types are enumerations.
\<close>

subsection \<open>Statuses and event types\<close>

datatype run_status = Queued | Running | Completed | Failed | Stopped

datatype tool_status = Requested | ToolCompleted | ToolFailed | ToolDenied | ToolInterrupted

datatype event_kind =
    InputAccepted | InputAdmitted | AssistantCommitted | ToolOutcomeRecorded
  | RunStarted | RunCompleted | RunFailed | RunStopped | EnvironmentProgressed
  | AssistantDelta | ToolProgressed | Heartbeat
  | AgentStarted | AgentFinished | AgentStopped | AgentExhausted
  | IterationStarted | IterationCompleted | ModelCompleted | ToolExecutionStarted
  | ContextCompacted | InputPrepared
  | OtherKind string

text \<open>The types written \<^verbatim>\<open>agent.*\<close>: the internal part of the log.\<close>

fun agent_kind :: "event_kind \<Rightarrow> bool" where
  "agent_kind AgentStarted = True" | "agent_kind AgentFinished = True"
| "agent_kind AgentStopped = True" | "agent_kind AgentExhausted = True"
| "agent_kind IterationStarted = True" | "agent_kind IterationCompleted = True"
| "agent_kind ModelCompleted = True" | "agent_kind ToolExecutionStarted = True"
| "agent_kind ContextCompacted = True" | "agent_kind InputPrepared = True"
| "agent_kind (OtherKind s) = has_prefix ''agent.'' s"
| "agent_kind _ = False"

subsection \<open>Messages and inputs\<close>

record text_part =
  tx_type :: string
  tx_text :: string

record message_part =
  mp_type :: string
  mp_text :: string
  mp_call_id :: string
  mp_kind :: string
  mp_args :: string
  mp_result :: "tool_result option"
  mp_metadata :: "(string \<times> string) list"

definition text_message_part :: "string \<Rightarrow> message_part" where
  "text_message_part t = \<lparr>mp_type = ''text'', mp_text = t, mp_call_id = [], mp_kind = [],
     mp_args = [], mp_result = None, mp_metadata = []\<rparr>"

record run_notice =
  no_status :: run_status
  no_error :: string

record message =
  ms_id :: string
  ms_conv :: string
  ms_inbound :: string
  ms_run_id :: string
  ms_role :: string
  ms_parts :: "message_part list"
  ms_complete :: bool
  ms_final :: bool
  ms_notice :: "run_notice option"
  ms_created :: "int option"

record input_source =
  src_kind :: string
  src_adapter :: string
  src_principal :: string
  src_conversation :: string
  src_agent :: string

record input_submission =
  sub_key :: string
  sub_parts :: "text_part list"
  sub_source :: input_source
  sub_causation :: string
  sub_target :: string
  sub_revision :: string

record assistant_output =
  ao_id :: string
  ao_parts :: "message_part list"
  ao_final :: bool

record tool_outcome =
  to_id :: string
  to_call_id :: string
  to_kind :: string
  to_status :: tool_status
  to_result :: "tool_result option"

record rt_run =
  run_id :: string
  run_conv :: string
  run_inbound :: string
  run_revision :: string
  run_status :: run_status
  run_err :: string
  run_started :: int
  run_completed :: "int option"

record submission =
  sb_id :: string
  sb_conv :: string
  sb_message_id :: string
  sb_revision :: string
  sb_status :: run_status
  sb_err :: string
  sb_accepted :: "int option"

record tool_call =
  tc_id :: string
  tc_conv :: string
  tc_run_id :: string
  tc_inbound :: string
  tc_kind :: string
  tc_args :: string
  tc_status :: tool_status
  tc_result :: "tool_result option"
  tc_updated :: "int option"

subsection \<open>Payloads of the internal events\<close>

record agent_content =
  ac_type :: string
  ac_text :: string
  ac_call_id :: string
  ac_kind :: string
  ac_args :: string
  ac_is_error :: bool
  ac_item :: string

record context_turn =
  ct_role :: string
  ct_content :: "agent_content list"

record agent_boundary =
  ab_turn :: int
  ab_text :: string

record model_output =
  mo_turn :: int
  mo_content :: "agent_content list"

record tool_execution =
  tex_turn :: int
  tex_call_id :: string
  tex_kind :: string

record compaction =
  cm_turn :: int
  cm_summary :: string
  cm_compacted :: int
  cm_retained :: int
  cm_context :: "context_turn list"

record text_delta =
  td_message_id :: string
  td_part_id :: string
  td_text :: string

record progress_note =
  pn_call_id :: string
  pn_text :: string

record env_progress =
  ep_step :: string
  ep_message :: string

subsection \<open>Events\<close>

record rt_event =
  re_id :: nat
  re_kind :: event_kind
  re_conv :: string
  re_run_id :: string
  re_inbound :: string
  re_input :: "input_submission option"
  re_output :: "assistant_output option"
  re_outcome :: "tool_outcome option"
  re_run :: "rt_run option"
  re_delta :: "text_delta option"
  re_progress :: "progress_note option"
  re_environment :: "env_progress option"
  re_boundary :: "agent_boundary option"
  re_iteration :: "int option"
  re_model :: "model_output option"
  re_execution :: "tool_execution option"
  re_compaction :: "compaction option"
  re_prepared :: "context_turn option"
  re_created :: "int option"

text \<open>The event value with a type, a conversation, a run and an input, and no payload.\<close>

definition bare_event :: "event_kind \<Rightarrow> string \<Rightarrow> string \<Rightarrow> string \<Rightarrow> rt_event" where
  "bare_event k conv rid inb =
     \<lparr>re_id = 0, re_kind = k, re_conv = conv, re_run_id = rid, re_inbound = inb, re_input = None,
      re_output = None, re_outcome = None, re_run = None, re_delta = None, re_progress = None,
      re_environment = None, re_boundary = None, re_iteration = None, re_model = None,
      re_execution = None, re_compaction = None, re_prepared = None, re_created = None\<rparr>"

lemma bare_event_simps [simp]:
  "re_id (bare_event k cv r i) = 0" "re_kind (bare_event k cv r i) = k"
  "re_conv (bare_event k cv r i) = cv" "re_run_id (bare_event k cv r i) = r"
  "re_inbound (bare_event k cv r i) = i" "re_input (bare_event k cv r i) = None"
  "re_output (bare_event k cv r i) = None" "re_outcome (bare_event k cv r i) = None"
  "re_run (bare_event k cv r i) = None" "re_compaction (bare_event k cv r i) = None"
  "re_created (bare_event k cv r i) = None" "re_environment (bare_event k cv r i) = None"
  by (simp_all add: bare_event_def)

definition notice_failed_text :: string where
  "notice_failed_text = ''An error occurred while generating a response. Try again.''"

definition notice_stopped_text :: string where
  "notice_stopped_text = ''Stopped. The response was not finished.''"

definition base_message :: "rt_event \<Rightarrow> message" where
  "base_message e =
     \<lparr>ms_id = [], ms_conv = re_conv e, ms_inbound = re_inbound e, ms_run_id = re_run_id e, ms_role = [],
      ms_parts = [], ms_complete = True, ms_final = False, ms_notice = None, ms_created = re_created e\<rparr>"

definition project_message :: "rt_event \<Rightarrow> error + message" where
  "project_message e =
     (if re_kind e = InputAccepted then
        (case re_input e of
           Some inp \<Rightarrow>
             if re_inbound e = [] then Inl ''runtime: input event has no input''
             else Inr ((base_message e)\<lparr>ms_id := re_inbound e, ms_role := ''user'',
                    ms_parts := map (\<lambda>p. (text_message_part (tx_text p))\<lparr>mp_type := tx_type p\<rparr>) (sub_parts inp)\<rparr>)
         | None \<Rightarrow> Inl ''runtime: input event has no input'')
      else if re_kind e = AssistantCommitted then
        (case re_output e of
           Some out \<Rightarrow>
             if ao_id out = [] then Inl ''runtime: assistant event has no output''
             else Inr ((base_message e)\<lparr>ms_id := ao_id out, ms_role := ''assistant'',
                    ms_parts := ao_parts out, ms_final := ao_final out\<rparr>)
         | None \<Rightarrow> Inl ''runtime: assistant event has no output'')
      else if re_kind e = ToolOutcomeRecorded then
        (case re_outcome e of
           Some out \<Rightarrow>
             if to_id out = [] \<or> to_result out = None then Inl ''runtime: tool outcome event has no result''
             else Inr ((base_message e)\<lparr>ms_id := to_id out, ms_role := ''tool'',
                    ms_parts := [\<lparr>mp_type = ''tool_result'', mp_text = [], mp_call_id = to_call_id out,
                                  mp_kind = to_kind out, mp_args = [], mp_result = to_result out,
                                  mp_metadata = []\<rparr>]\<rparr>)
         | None \<Rightarrow> Inl ''runtime: tool outcome event has no result'')
      else if re_kind e = RunFailed \<or> re_kind e = RunStopped then
        (case re_run e of
           Some r \<Rightarrow>
             if re_run_id e = [] then Inl ''runtime: run event has no run''
             else Inr ((base_message e)\<lparr>ms_id := re_run_id e @ '':notice'', ms_role := ''notice'',
                    ms_notice := Some \<lparr>no_status = run_status r, no_error = run_err r\<rparr>,
                    ms_parts := [text_message_part (if re_kind e = RunStopped then notice_stopped_text
                                                    else notice_failed_text)]\<rparr>)
         | None \<Rightarrow> Inl ''runtime: run event has no run'')
      else Inl ''runtime: event does not project a message'')"

subsection \<open>Conversations\<close>

record conversation =
  cv_id :: string
  cv_agent_id :: string
  cv_workspace_id :: string
  cv_agent_workspace :: bool
  cv_workspace :: string
  cv_workspace_lock :: string
  cv_environment :: string
  cv_git_repository :: string
  cv_git_revision :: string
  cv_git_all :: bool
  cv_created :: int

record conversation_options =
  op_workspace :: string
  op_environment :: string
  op_git_repository :: string
  op_git_revision :: string
  op_git_all :: bool

record accepted_message =
  am_conv :: string
  am_inbound :: string
  am_duplicate :: bool

record inbound_message =
  im_id :: string
  im_key :: string
  im_parts :: "text_part list"
  im_accepted :: int

record conversation_view =
  vw_conversation :: conversation
  vw_messages :: "message list"
  vw_submissions :: "submission list"
  vw_active_run :: "rt_run option"
  vw_tool_calls :: "tool_call list"
  vw_environment :: "rt_event list"
  vw_cursor :: nat

record claimed_run =
  cl_conversation :: conversation
  cl_message :: inbound_message
  cl_context :: "context_turn list"
  cl_run :: rt_run
  cl_events :: "rt_event list"

subsection \<open>Validation of an input\<close>

fun validate_parts_from :: "nat \<Rightarrow> text_part list \<Rightarrow> error + unit" where
  "validate_parts_from i [] = Inr ()"
| "validate_parts_from i (p # ps) =
     (if tx_type p \<noteq> ''text'' then
        Inl (''runtime: parts['' @ show_nat i @ ''].type '' @ quoted (tx_type p) @ '' is not supported'')
      else if tx_text p = [] then
        Inl (''runtime: parts['' @ show_nat i @ ''].text is required'')
      else validate_parts_from (Suc i) ps)"

definition validate_parts :: "text_part list \<Rightarrow> error + unit" where
  "validate_parts ps =
     (if ps = [] then Inl ''runtime: at least one text part is required'' else validate_parts_from 0 ps)"

definition validate_source :: "input_submission \<Rightarrow> error + unit" where
  "validate_source inp =
     (let src = sub_source inp in
      if trim_space (src_adapter src) = [] then Inl ''runtime: input source adapter is required''
      else if src_kind src = ''human'' \<or> src_kind src = ''system'' then Inr ()
      else if src_kind src = ''agent'' then
        (if src_conversation src = [] \<or> src_agent src = [] \<or> sub_causation inp = [] then
           Inl ''runtime: agent input requires source conversation, agent, and causation''
         else Inr ())
      else Inl (''runtime: unsupported input source '' @ quoted (src_kind src)))"

definition validate_input :: "input_submission \<Rightarrow> error + unit" where
  "validate_input inp =
     (if trim_space (sub_key inp) = [] then Inl ''runtime: idempotency key is required''
      else and_then (validate_parts (sub_parts inp)) (\<lambda>_. validate_source inp))"

definition message_text :: "text_part list \<Rightarrow> string" where
  "message_text ps = join_on [newline] (map tx_text ps)"

lemma validate_parts_from_ok:
  "validate_parts_from i ps = Inr u \<longleftrightarrow> (\<forall>p \<in> set ps. tx_type p = ''text'' \<and> tx_text p \<noteq> [])"
  by (induction ps arbitrary: i) auto

lemma validate_input_key: "validate_input inp = Inr u \<Longrightarrow> sub_key inp \<noteq> []"
  by (auto simp: validate_input_def trim_space_def split: if_splits)

end
