(* ===== verification/Agent.thy ===== *)
theory Agent
  imports Runtime_Types
begin

section \<open>Agent definitions (runtime/agent.go)\<close>

text \<open>
  The definition a run depends on and its validation. The fingerprint of a definition
  (SHA-256 of its canonical JSON) is a parameter where it is used.
\<close>

definition workspace_agent :: string where "workspace_agent = ''agent''"
definition workspace_per_conversation :: string where "workspace_per_conversation = ''per_conversation''"
definition default_agent_id :: string where "default_agent_id = ''default''"

record mcp_grant =
  gr_enabled :: "string list"
  gr_disabled :: "string list"

record agent_definition =
  ad_id :: string
  ad_name :: string
  ad_persona :: string
  ad_slot :: string
  ad_model :: string
  ad_max_turns :: int
  ad_plugins :: "string list"
  ad_policy :: string
  ad_mcp :: "(string \<times> mcp_grant) list"

record agent_summary =
  as_id :: string
  as_name :: string
  as_policy :: string

definition agent_workspace_id :: "string \<Rightarrow> string" where
  "agent_workspace_id i = ''agent-'' @ i"

definition contains_any :: "string \<Rightarrow> string \<Rightarrow> bool" where
  "contains_any s chars \<longleftrightarrow> (\<exists>c \<in> set s. c \<in> set chars)"

definition slash :: char where "slash = CHR ''/''"
definition backslash :: char where "backslash = CHR 0x5C"

definition invalid_agent :: "string \<Rightarrow> error" where
  "invalid_agent what = ''runtime: invalid agent definition: '' @ what"

definition validate_agent_id :: "string \<Rightarrow> error + unit" where
  "validate_agent_id i =
     (if i = [] \<or> i = ''.'' \<or> i = ''..'' \<or> contains_any i [slash, backslash] \<or> i \<noteq> trim_space i
      then Inl (invalid_agent (''id '' @ quoted i)) else Inr ())"

definition validate_agent :: "agent_definition \<Rightarrow> error + unit" where
  "validate_agent d =
     and_then (validate_agent_id (ad_id d)) (\<lambda>_.
       if ad_name d \<noteq> trim_space (ad_name d) \<or> contains_any (ad_name d) [CHR 0x0D, CHR 0x0A]
       then Inl (invalid_agent ''name must be a single trimmed line'')
       else if ad_policy d \<noteq> workspace_agent \<and> ad_policy d \<noteq> workspace_per_conversation
       then Inl (invalid_agent (''workspace policy '' @ quoted (ad_policy d)))
       else Inr ())"

definition agent_summary_of :: "agent_definition \<Rightarrow> agent_summary" where
  "agent_summary_of d = \<lparr>as_id = ad_id d, as_name = ad_name d, as_policy = ad_policy d\<rparr>"

text \<open>A valid identifier names a directory of its own: one path element, neither \<open>.\<close> nor \<open>..\<close>.\<close>

lemma validate_agent_id_ok:
  "validate_agent_id i = Inr u \<longleftrightarrow>
     i \<noteq> [] \<and> i \<noteq> ''.'' \<and> i \<noteq> ''..'' \<and> slash \<notin> set i \<and> backslash \<notin> set i \<and> trim_space i = i"
  by (auto simp: validate_agent_id_def contains_any_def)

end
