(* ===== verification/Store_Db.thy ===== *)
theory Store_Db
  imports Runtime_Types "HOL-Library.Sublist" "HOL-Library.List_Lexorder"
begin

section \<open>The database of the runtime store (runtime/sqlite/store.go: schema, transactions, log)\<close>

text \<open>
  A table is the list of its rows in rowid order. Each insertion checks the table's primary
  key, unique indexes, foreign keys and CHECK constraints. A transaction is a function
  from the database to an error or a new database and a result, so an error leaves the
  database as it was: this is the rollback. Transactions are immediate and serialize.
  The wall clock and the random identifiers that an operation draws are arguments. The
  payload of a log entry is the event itself: the JSON round trip of the payload is taken
  to be exact.
\<close>

subsection \<open>Rows\<close>

record conv_row =
  cr_conv :: conversation
  cr_next :: nat

record sub_row =
  sr_id :: string
  sr_conv :: string
  sr_key :: string
  sr_message_id :: string
  sr_revision :: string
  sr_status :: run_status
  sr_err :: string
  sr_accepted :: int

record run_row =
  rr_id :: string
  rr_conv :: string
  rr_sub :: string
  rr_inbound :: string
  rr_revision :: string
  rr_status :: run_status
  rr_err :: string
  rr_started :: int
  rr_completed :: "int option"

record tool_row =
  tr_id :: string
  tr_conv :: string
  tr_run :: string
  tr_inbound :: string
  tr_kind_name :: string
  tr_status :: tool_status
  tr_updated :: int

record event_row =
  er_conv :: string
  er_cursor :: nat
  er_kind :: event_kind
  er_message_id :: string
  er_payload :: rt_event
  er_created :: int

record db =
  db_conversations :: "conv_row list"
  db_submissions :: "sub_row list"
  db_runs :: "run_row list"
  db_tools :: "tool_row list"
  db_events :: "event_row list"
  db_reservations :: "(string \<times> int) list"

definition empty_db :: db where
  "empty_db = \<lparr>db_conversations = [], db_submissions = [], db_runs = [], db_tools = [],
     db_events = [], db_reservations = []\<rparr>"

subsection \<open>Errors and transactions\<close>

datatype store_error =
    NoRows
  | NotFound
  | Busy string
  | Constraint string
  | Invalid string

type_synonym 'a tx = "db \<Rightarrow> store_error + (db \<times> 'a)"

definition ok :: "'a \<Rightarrow> 'a tx" where
  "ok a d = Inr (d, a)"

definition bad :: "store_error \<Rightarrow> 'a tx" where
  "bad e d = Inl e"

definition after :: "'a tx \<Rightarrow> ('a \<Rightarrow> 'b tx) \<Rightarrow> 'b tx" where
  "after m f d = (case m d of Inl e \<Rightarrow> Inl e | Inr (d', a) \<Rightarrow> f a d')"

definition read :: "(db \<Rightarrow> 'a) \<Rightarrow> 'a tx" where
  "read f d = Inr (d, f d)"

definition require :: "bool \<Rightarrow> store_error \<Rightarrow> unit tx" where
  "require b e d = (if b then Inr (d, ()) else Inl e)"

definition demand :: "(db \<Rightarrow> 'a option) \<Rightarrow> store_error \<Rightarrow> 'a tx" where
  "demand f e d = (case f d of Some a \<Rightarrow> Inr (d, a) | None \<Rightarrow> Inl e)"

definition lift_error :: "error + 'a \<Rightarrow> 'a tx" where
  "lift_error r d = (case r of Inl e \<Rightarrow> Inl (Invalid e) | Inr a \<Rightarrow> Inr (d, a))"

fun for_each :: "('a \<Rightarrow> 'b tx) \<Rightarrow> 'a list \<Rightarrow> 'b list tx" where
  "for_each f [] = ok []"
| "for_each f (x # xs) = after (f x) (\<lambda>y. after (for_each f xs) (\<lambda>ys. ok (y # ys)))"

text \<open>The state after a transaction that was begun, whether it commits or rolls back.\<close>

definition exec_tx :: "'a tx \<Rightarrow> db \<Rightarrow> db" where
  "exec_tx m d = (case m d of Inl _ \<Rightarrow> d | Inr (d', _) \<Rightarrow> d')"

lemma tx_simps [simp]:
  "ok x d = Inr (d', y) \<longleftrightarrow> d' = d \<and> y = x"
  "bad e d \<noteq> Inr w"
  "read f d = Inr (d', c) \<longleftrightarrow> d' = d \<and> c = f d"
  "require b e d = Inr (d', u) \<longleftrightarrow> b \<and> d' = d"
  "demand g e d = Inr (d', h) \<longleftrightarrow> g d = Some h \<and> d' = d"
  "lift_error r d = Inr (d', i) \<longleftrightarrow> r = Inr i \<and> d' = d"
  by (auto simp: ok_def bad_def read_def require_def demand_def lift_error_def split: option.splits sum.splits)

lemma after_Inr [simp]:
  "after m f d = Inr (d', b) \<longleftrightarrow> (\<exists>d1 a. m d = Inr (d1, a) \<and> f a d1 = Inr (d', b))"
  by (auto simp: after_def split: sum.splits)

text \<open>A transaction keeps an invariant when every successful run does.\<close>

definition tx_keeps :: "(db \<Rightarrow> bool) \<Rightarrow> 'a tx \<Rightarrow> bool" where
  "tx_keeps I m \<longleftrightarrow> (\<forall>d d' a. I d \<longrightarrow> m d = Inr (d', a) \<longrightarrow> I d')"

lemma tx_keepsD: "tx_keeps I m \<Longrightarrow> m d = Inr (d', a) \<Longrightarrow> I d \<Longrightarrow> I d'"
  unfolding tx_keeps_def by blast

lemma tx_keeps_simps [simp, intro]:
  "tx_keeps I (ok a)" "tx_keeps I (bad e)" "tx_keeps I (read f)" "tx_keeps I (require b e)"
  "tx_keeps I (demand g e)" "tx_keeps I (lift_error r)"
  by (simp_all add: tx_keeps_def)

lemma tx_keeps_after [intro]: "tx_keeps I m \<Longrightarrow> (\<And>a. tx_keeps I (f a)) \<Longrightarrow> tx_keeps I (after m f)"
  unfolding tx_keeps_def after_Inr by blast

lemma tx_keeps_for_each [intro]: "(\<And>x. x \<in> set xs \<Longrightarrow> tx_keeps I (f x)) \<Longrightarrow> tx_keeps I (for_each f xs)"
  by (induction xs) (auto intro!: tx_keeps_after)

lemma tx_keeps_exec: "tx_keeps I m \<Longrightarrow> I d \<Longrightarrow> I (exec_tx m d)"
  by (auto simp: exec_tx_def split: sum.split dest: tx_keepsD)

subsection \<open>Lookups\<close>

definition find_conv :: "string \<Rightarrow> db \<Rightarrow> conv_row option" where
  "find_conv cid d = List.find (\<lambda>r. cv_id (cr_conv r) = cid) (db_conversations d)"

definition find_sub :: "string \<Rightarrow> db \<Rightarrow> sub_row option" where
  "find_sub i d = List.find (\<lambda>r. sr_id r = i) (db_submissions d)"

definition find_run :: "string \<Rightarrow> string \<Rightarrow> db \<Rightarrow> run_row option" where
  "find_run rid cid d = List.find (\<lambda>r. rr_id r = rid \<and> rr_conv r = cid) (db_runs d)"

definition conv_exists :: "string \<Rightarrow> db \<Rightarrow> bool" where
  "conv_exists cid d \<longleftrightarrow> (\<exists>r \<in> set (db_conversations d). cv_id (cr_conv r) = cid)"

subsection \<open>Insertions with their constraints\<close>

definition insert_conversation :: "conversation \<Rightarrow> unit tx" where
  "insert_conversation cv d =
     (if conv_exists (cv_id cv) d then Inl (Constraint ''conversations.id'')
      else if cv_agent_id cv = [] then Inl (Constraint ''agent_id'')
      else if cv_workspace_id cv = [] then Inl (Constraint ''workspace_id'')
      else Inr (d\<lparr>db_conversations := db_conversations d @ [\<lparr>cr_conv = cv, cr_next = 1\<rparr>]\<rparr>, ()))"

definition insert_submission :: "sub_row \<Rightarrow> unit tx" where
  "insert_submission r d =
     (if \<exists>x \<in> set (db_submissions d). sr_id x = sr_id r then Inl (Constraint ''submissions.id'')
      else if \<not> conv_exists (sr_conv r) d then Inl (Constraint ''submissions.conversation_id'')
      else if sr_revision r = [] then Inl (Constraint ''agent_revision'')
      else if \<exists>x \<in> set (db_submissions d). sr_conv x = sr_conv r \<and> sr_key x = sr_key r
        then Inl (Constraint ''submissions.idempotency_key'')
      else if sr_status r = Running
              \<and> (\<exists>x \<in> set (db_submissions d). sr_conv x = sr_conv r \<and> sr_status x = Running)
        then Inl (Constraint ''submissions_one_running_per_conversation'')
      else Inr (d\<lparr>db_submissions := db_submissions d @ [r]\<rparr>, ()))"

definition insert_run :: "run_row \<Rightarrow> unit tx" where
  "insert_run r d =
     (if \<exists>x \<in> set (db_runs d). rr_id x = rr_id r then Inl (Constraint ''runs.id'')
      else if \<not> conv_exists (rr_conv r) d then Inl (Constraint ''runs.conversation_id'')
      else if \<not> (\<exists>x \<in> set (db_submissions d). sr_id x = rr_sub r)
        then Inl (Constraint ''runs.submission_id'')
      else if rr_revision r = [] then Inl (Constraint ''agent_revision'')
      else Inr (d\<lparr>db_runs := db_runs d @ [r]\<rparr>, ()))"

definition insert_tool :: "tool_row \<Rightarrow> unit tx" where
  "insert_tool r d =
     (if \<exists>x \<in> set (db_tools d). tr_run x = tr_run r \<and> tr_id x = tr_id r
        then Inl (Constraint ''tool_calls.run_id, id'')
      else if \<not> conv_exists (tr_conv r) d then Inl (Constraint ''tool_calls.conversation_id'')
      else if \<not> (\<exists>x \<in> set (db_runs d). rr_id x = tr_run r) then Inl (Constraint ''tool_calls.run_id'')
      else Inr (d\<lparr>db_tools := db_tools d @ [r]\<rparr>, ()))"

definition insert_event :: "event_row \<Rightarrow> unit tx" where
  "insert_event r d =
     (if \<not> conv_exists (er_conv r) d then Inl (Constraint ''events.conversation_id'')
      else if \<exists>x \<in> set (db_events d). er_conv x = er_conv r \<and> er_cursor x = er_cursor r
        then Inl (Constraint ''events.cursor'')
      else if er_message_id r \<noteq> []
              \<and> (\<exists>x \<in> set (db_events d). er_conv x = er_conv r \<and> er_message_id x = er_message_id r)
        then Inl (Constraint ''events_message_id'')
      else Inr (d\<lparr>db_events := db_events d @ [r]\<rparr>, ()))"

subsection \<open>Updates\<close>

text \<open>An UPDATE changes the rows its WHERE clause selects and counts them.\<close>

definition change :: "('r \<Rightarrow> bool) \<Rightarrow> ('r \<Rightarrow> 'r) \<Rightarrow> 'r list \<Rightarrow> 'r list" where
  "change p f rs = map (\<lambda>r. if p r then f r else r) rs"

text \<open>
  An UPDATE of submissions is refused when it would leave two running submissions in one
  conversation.
\<close>

definition one_running :: "sub_row list \<Rightarrow> bool" where
  "one_running rs \<longleftrightarrow> distinct (map sr_conv (filter (\<lambda>r. sr_status r = Running) rs))"

definition update_submissions :: "(sub_row \<Rightarrow> bool) \<Rightarrow> (sub_row \<Rightarrow> sub_row) \<Rightarrow> nat tx" where
  "update_submissions p f d =
     (let rs = change p f (db_submissions d) in
      if \<not> one_running rs then Inl (Constraint ''submissions_one_running_per_conversation'')
      else Inr (d\<lparr>db_submissions := rs\<rparr>, length (filter p (db_submissions d))))"

definition update_runs :: "(run_row \<Rightarrow> bool) \<Rightarrow> (run_row \<Rightarrow> run_row) \<Rightarrow> nat tx" where
  "update_runs p f d = Inr (d\<lparr>db_runs := change p f (db_runs d)\<rparr>, length (filter p (db_runs d)))"

definition update_tools :: "(tool_row \<Rightarrow> bool) \<Rightarrow> (tool_row \<Rightarrow> tool_row) \<Rightarrow> nat tx" where
  "update_tools p f d = Inr (d\<lparr>db_tools := change p f (db_tools d)\<rparr>, length (filter p (db_tools d)))"

definition set_next_cursor :: "string \<Rightarrow> nat \<Rightarrow> unit tx" where
  "set_next_cursor cid n d =
     Inr (d\<lparr>db_conversations := change (\<lambda>r. cv_id (cr_conv r) = cid) (\<lambda>r. r\<lparr>cr_next := n\<rparr>)
              (db_conversations d)\<rparr>, ())"

subsection \<open>The log\<close>

text \<open>Which message an event carries, for the unique index on messages.\<close>

definition event_message_id :: "rt_event \<Rightarrow> string" where
  "event_message_id e =
     (if re_kind e = InputAccepted then re_inbound e
      else if re_kind e = AssistantCommitted then
        (case re_output e of Some out \<Rightarrow> ao_id out | None \<Rightarrow> [])
      else if re_kind e = ToolOutcomeRecorded then
        (case re_outcome e of Some out \<Rightarrow> to_id out | None \<Rightarrow> [])
      else [])"

definition event_row_of :: "rt_event \<Rightarrow> int \<Rightarrow> event_row" where
  "event_row_of e t =
     \<lparr>er_conv = re_conv e, er_cursor = re_id e, er_kind = re_kind e,
      er_message_id = event_message_id e, er_payload = e, er_created = t\<rparr>"

definition event_time :: "int \<Rightarrow> rt_event \<Rightarrow> int" where
  "event_time now e = (case re_created e of Some t \<Rightarrow> t | None \<Rightarrow> now)"

text \<open>\<^verbatim>\<open>appendEventTx\<close>: the event gets the conversation's next cursor and a time.\<close>

definition append_event :: "int \<Rightarrow> rt_event \<Rightarrow> rt_event tx" where
  "append_event now e =
     after (demand (\<lambda>d. map_option cr_next (find_conv (re_conv e) d)) NoRows)
       (\<lambda>next. let e' = e\<lparr>re_id := next, re_created := Some (event_time now e)\<rparr> in
         after (insert_event (event_row_of e' (event_time now e)))
           (\<lambda>_. after (set_next_cursor (re_conv e) (next + 1)) (\<lambda>_. ok e')))"

end
