(* ===== verification/Store_Context.thy ===== *)
theory Store_Context
  imports Store_Db
begin

section \<open>Rebuilding the provider context from the log (runtime/sqlite/store.go)\<close>

text \<open>
  A claimed run starts with the conversation's context: the latest compaction checkpoint
  and, after it, the turns of every admitted input, committed answer and recorded tool
  outcome. The loop over the rows is a fold over the events with the local maps of
  \<^verbatim>\<open>loadContextAfterTx\<close> as its state.
\<close>

subsection \<open>Reading the log\<close>

definition conversation_log :: "string \<Rightarrow> (event_kind \<Rightarrow> bool) \<Rightarrow> db \<Rightarrow> rt_event list" where
  "conversation_log cid p d =
     map er_payload (sort_key er_cursor (filter (\<lambda>r. er_conv r = cid \<and> p (er_kind r)) (db_events d)))"

definition load_latest_compaction :: "string \<Rightarrow> (compaction option \<times> nat) tx" where
  "load_latest_compaction cid d =
     (case rev (sort_key er_cursor (filter (\<lambda>r. er_conv r = cid \<and> er_kind r = ContextCompacted) (db_events d))) of
        [] \<Rightarrow> Inr (d, (None, 0))
      | r # _ \<Rightarrow>
          (case re_compaction (er_payload r) of
             None \<Rightarrow> Inl (Invalid ''runtime: compaction event has no payload'')
           | Some cm \<Rightarrow>
               if cm_context cm = [] then Inl (Invalid ''runtime: compaction event has no context'')
               else Inr (d, (Some cm, er_cursor r))))"

definition load_input :: "string \<Rightarrow> string \<Rightarrow> text_part list tx" where
  "load_input cid i =
     after (demand (\<lambda>d. List.find (\<lambda>r. er_conv r = cid \<and> er_message_id r = i) (db_events d)) NoRows)
       (\<lambda>r. let e = er_payload r in
         (case re_input e of
            Some inp \<Rightarrow>
              if re_kind e \<noteq> InputAccepted \<or> re_inbound e \<noteq> i
              then bad (Invalid (''runtime: accepted input '' @ quoted i @ '' is missing''))
              else ok (sub_parts inp)
          | None \<Rightarrow> bad (Invalid (''runtime: accepted input '' @ quoted i @ '' is missing''))))"

subsection \<open>One message as a provider turn\<close>

definition no_content :: agent_content where
  "no_content = \<lparr>ac_type = [], ac_text = [], ac_call_id = [], ac_kind = [], ac_args = [],
     ac_is_error = False, ac_item = []\<rparr>"

definition result_text :: "tool_result \<Rightarrow> string" where
  "result_text r = (if trim_space (observation_text r) = [] then ''(no output)'' else observation_text r)"

definition content_of_part :: "message_part \<Rightarrow> error + agent_content" where
  "content_of_part p =
     (if mp_type p = ''text'' then Inr (no_content\<lparr>ac_type := ''text'', ac_text := mp_text p\<rparr>)
      else if mp_type p = ''tool_call'' then
        Inr (no_content\<lparr>ac_type := ''tool_call'', ac_call_id := mp_call_id p, ac_kind := mp_kind p,
               ac_args := mp_args p\<rparr>)
      else if mp_type p = ''tool_result'' then
        (case mp_result p of
           None \<Rightarrow> Inl ''runtime: tool result message has no result''
         | Some r \<Rightarrow> Inr (no_content\<lparr>ac_type := ''tool_result'', ac_call_id := mp_call_id p,
                          ac_text := result_text r, ac_is_error := \<not> tr_ok r\<rparr>))
      else Inl (''runtime: unsupported message part '' @ quoted (mp_type p)))"

fun contents_of_parts :: "message_part list \<Rightarrow> error + agent_content list" where
  "contents_of_parts [] = Inr []"
| "contents_of_parts (p # ps) =
     and_then (content_of_part p) (\<lambda>c. and_then (contents_of_parts ps) (\<lambda>cs. Inr (c # cs)))"

definition context_turn_of :: "message \<Rightarrow> error + context_turn" where
  "context_turn_of m =
     and_then (contents_of_parts (ms_parts m))
       (\<lambda>cs. Inr \<lparr>ct_role = (if ms_role m = ''tool'' then ''user'' else ms_role m), ct_content = cs\<rparr>)"

subsection \<open>Committed content with provider items\<close>

definition provider_item :: "agent_content \<Rightarrow> bool" where
  "provider_item p \<longleftrightarrow> ac_type p = ''provider_item''"

definition empty_text :: "agent_content \<Rightarrow> bool" where
  "empty_text p \<longleftrightarrow> ac_type p = ''text'' \<and> ac_text p = []"

fun merge_provider_items :: "agent_content list \<Rightarrow> agent_content list \<Rightarrow> agent_content list" where
  "merge_provider_items committed [] = committed"
| "merge_provider_items committed (p # model) =
     (if provider_item p then p # merge_provider_items committed model
      else if empty_text p then merge_provider_items committed model
      else (case committed of
              [] \<Rightarrow> merge_provider_items [] model
            | c # cs \<Rightarrow> c # merge_provider_items cs model))"

text \<open>
  The content of a replayed answer is the committed one, block for block, with the opaque
  provider blocks of the model's output kept in their order.
\<close>

lemma merge_keeps_committed:
  "\<forall>c \<in> set committed. \<not> provider_item c \<Longrightarrow>
     filter (\<lambda>c. \<not> provider_item c) (merge_provider_items committed model) = committed"
  by (induction committed model rule: merge_provider_items.induct) (auto split: list.splits)

lemma merge_keeps_items:
  "\<forall>c \<in> set committed. \<not> provider_item c \<Longrightarrow>
     filter provider_item (merge_provider_items committed model) = filter provider_item model"
  by (induction committed model rule: merge_provider_items.induct)
     (auto split: list.splits simp: filter_empty_conv)

text \<open>Provider blocks survive replay: the merged content holds exactly the committed blocks, in
  order, and exactly the model's provider blocks, in order; nothing is lost or invented.\<close>

theorem provider_items_survive:
  assumes "\<forall>c \<in> set committed. \<not> provider_item c"
  shows "filter (\<lambda>c. \<not> provider_item c) (merge_provider_items committed model) = committed
     \<and> filter provider_item (merge_provider_items committed model) = filter provider_item model"
  using merge_keeps_committed [OF assms] merge_keeps_items [OF assms] by blast

lemma provider_items_survive_witness:
  "filter provider_item (merge_provider_items [no_content\<lparr>ac_type := ''text'', ac_text := ''a''\<rparr>]
     [no_content\<lparr>ac_type := ''provider_item'', ac_item := ''x''\<rparr>, no_content\<lparr>ac_type := ''text''\<rparr>])
   = [no_content\<lparr>ac_type := ''provider_item'', ac_item := ''x''\<rparr>]"
  using provider_items_survive [of "[no_content\<lparr>ac_type := ''text'', ac_text := ''a''\<rparr>]"
     "[no_content\<lparr>ac_type := ''provider_item'', ac_item := ''x''\<rparr>, no_content\<lparr>ac_type := ''text''\<rparr>]"]
  by (simp add: provider_item_def no_content_def)

subsection \<open>The fold over the log\<close>

record context_state =
  cs_accepted :: "(string \<times> message) list"
  cs_admitted :: "string list"
  cs_index :: "(string \<times> nat) list"
  cs_pending :: "string \<Rightarrow> context_turn list"
  cs_tail :: "context_turn list"

definition empty_context :: context_state where
  "empty_context = \<lparr>cs_accepted = [], cs_admitted = [], cs_index = [], cs_pending = (\<lambda>_. []), cs_tail = []\<rparr>"

definition ends_in_result :: "context_turn list \<Rightarrow> bool" where
  "ends_in_result tail \<longleftrightarrow>
     tail \<noteq> [] \<and> ct_content (last tail) \<noteq> [] \<and> ac_type (hd (ct_content (last tail))) = ''tool_result''"

text \<open>The turn of a committed answer takes the oldest pending model output of its run.\<close>

definition take_pending :: "string \<Rightarrow> context_turn \<Rightarrow> context_state \<Rightarrow> context_turn \<times> context_state" where
  "take_pending rid turn s =
     (case cs_pending s rid of
        [] \<Rightarrow> (turn, s)
      | m # ms \<Rightarrow> (turn\<lparr>ct_content := merge_provider_items (ct_content turn) (ct_content m)\<rparr>,
                   s\<lparr>cs_pending := (cs_pending s)(rid := ms)\<rparr>))"

definition add_turn :: "string \<Rightarrow> context_turn \<Rightarrow> context_state \<Rightarrow> context_state" where
  "add_turn role turn s =
     (if role = ''tool'' \<and> ends_in_result (cs_tail s)
      then s\<lparr>cs_tail := butlast (cs_tail s) @
               [(last (cs_tail s))\<lparr>ct_content := ct_content (last (cs_tail s)) @ ct_content turn\<rparr>]\<rparr>
      else s\<lparr>cs_tail := cs_tail s @ [turn]\<rparr>)"

definition content_step :: "nat \<Rightarrow> rt_event \<Rightarrow> message \<Rightarrow> context_state \<Rightarrow> error + context_state" where
  "content_step start e m s =
     (if ms_role m = ''user'' then Inr (s\<lparr>cs_accepted := (ms_id m, m) # cs_accepted s\<rparr>)
      else if re_id e \<le> start \<or> re_inbound e \<notin> set (cs_admitted s) \<or> \<not> ms_complete m then Inr s
      else and_then (context_turn_of m) (\<lambda>turn.
        let (turn', s') = (if ms_role m = ''assistant'' then take_pending (re_run_id e) turn s else (turn, s))
        in Inr (add_turn (ms_role m) turn' s')))"

definition admit_step :: "nat \<Rightarrow> rt_event \<Rightarrow> context_state \<Rightarrow> error + context_state" where
  "admit_step start e s =
     (case map_of (cs_accepted s) (re_inbound e) of
        None \<Rightarrow> Inl (''runtime: admitted message '' @ quoted (re_inbound e) @ '' is missing'')
      | Some m \<Rightarrow>
          if re_inbound e \<in> set (cs_admitted s) then
            Inl (''runtime: message '' @ quoted (re_inbound e) @ '' admitted twice'')
          else (let s1 = s\<lparr>cs_admitted := re_inbound e # cs_admitted s\<rparr> in
            if re_id e \<le> start then Inr s1
            else and_then (context_turn_of m) (\<lambda>turn.
              Inr (s1\<lparr>cs_tail := cs_tail s1 @ [turn],
                      cs_index := (re_inbound e, length (cs_tail s1)) # cs_index s1\<rparr>))))"

definition context_step :: "nat \<Rightarrow> context_state \<Rightarrow> rt_event \<Rightarrow> error + context_state" where
  "context_step start s e =
     (if re_kind e \<in> {InputAccepted, AssistantCommitted, ToolOutcomeRecorded} then
        and_then (project_message e) (\<lambda>m. content_step start e m s)
      else if re_kind e = InputAdmitted then admit_step start e s
      else if re_kind e = InputPrepared then
        (case re_prepared e of
           Some turn \<Rightarrow>
             if re_id e \<le> start then Inr s
             else (case map_of (cs_index s) (re_inbound e) of
                     None \<Rightarrow> Inl (''runtime: prepared input '' @ quoted (re_inbound e) @ '' was not admitted'')
                   | Some i \<Rightarrow> Inr (s\<lparr>cs_tail := (cs_tail s)[i := turn]\<rparr>))
         | None \<Rightarrow> Inr s)
      else if re_kind e = ModelCompleted then
        (case re_model e of
           Some out \<Rightarrow>
             if re_id e \<le> start then Inr s
             else Inr (s\<lparr>cs_pending := (cs_pending s)(re_run_id e := cs_pending s (re_run_id e)
                          @ [\<lparr>ct_role = ''assistant'', ct_content = mo_content out\<rparr>])\<rparr>)
         | None \<Rightarrow> Inr s)
      else Inr s)"

definition context_kind :: "event_kind \<Rightarrow> bool" where
  "context_kind k \<longleftrightarrow> k \<in> {InputAccepted, AssistantCommitted, ToolOutcomeRecorded, InputAdmitted,
     ModelCompleted, InputPrepared}"

definition context_after :: "nat \<Rightarrow> rt_event list \<Rightarrow> error + context_turn list" where
  "context_after start es =
     and_then (fold_res (context_step start) empty_context es) (\<lambda>s. Inr (cs_tail s))"

definition load_context_after :: "string \<Rightarrow> nat \<Rightarrow> context_turn list tx" where
  "load_context_after cid start =
     after (read (conversation_log cid context_kind)) (\<lambda>es. lift_error (context_after start es))"

text \<open>The context of a claimed run.\<close>

definition load_context :: "string \<Rightarrow> context_turn list tx" where
  "load_context cid =
     after (load_latest_compaction cid)
       (\<lambda>(cm, cursor). after (load_context_after cid cursor)
         (\<lambda>turns. ok ((case cm of Some c \<Rightarrow> cm_context c | None \<Rightarrow> []) @ turns)))"

subsection \<open>Inputs keep their place\<close>

text \<open>
  The index of an admitted input always points to a turn inside the tail, so a prepared
  input replaces the turn of its own input and never writes out of range.
\<close>

definition index_ok :: "context_state \<Rightarrow> bool" where
  "index_ok s \<longleftrightarrow> (\<forall>(i, n) \<in> set (cs_index s). n < length (cs_tail s) \<and> i \<in> set (cs_admitted s))"

lemma length_add_turn: "length (cs_tail (add_turn role turn s)) \<ge> length (cs_tail s)"
  by (auto simp: add_turn_def ends_in_result_def)

lemma add_turn_frame [simp]:
  "cs_index (add_turn role turn s) = cs_index s" "cs_admitted (add_turn role turn s) = cs_admitted s"
  "cs_accepted (add_turn role turn s) = cs_accepted s"
  by (simp_all add: add_turn_def)

lemma take_pending_frame:
  "take_pending rid turn s = (turn', s') \<Longrightarrow> cs_index s' = cs_index s \<and> cs_tail s' = cs_tail s
     \<and> cs_admitted s' = cs_admitted s"
  by (auto simp: take_pending_def split: list.splits)

lemma index_ok_content_step:
  assumes "content_step start e m s = Inr s'" and "index_ok s"
  shows "index_ok s'"
proof -
  have add: "index_ok (add_turn role turn t)" if "index_ok t" for role turn t
    using that length_add_turn [of t role turn] by (fastforce simp: index_ok_def)
  have pend: "index_ok t" if "take_pending rid turn s = (turn', t)" for rid turn turn' t
    using take_pending_frame [OF that] assms(2) by (simp add: index_ok_def)
  from assms show ?thesis
    by (auto simp: content_step_def and_then_Inr_iff split: if_splits prod.splits intro: add pend)
       (auto simp: index_ok_def)
qed

lemma index_ok_step: "context_step start s e = Inr s' \<Longrightarrow> index_ok s \<Longrightarrow> index_ok s'"
  by (auto simp: context_step_def and_then_Inr_iff split: if_splits option.splits intro: index_ok_content_step)
     (auto simp: admit_step_def and_then_Inr_iff index_ok_def Let_def less_Suc_eq split: if_splits option.splits)

text \<open>Replaying a prefix of the log keeps every admitted input's position inside the context, so
  a prepared input rewrites exactly the turn of its own input.\<close>

theorem prepared_input_in_range:
  assumes "fold_res (context_step start) empty_context es = Inr s" and "map_of (cs_index s) i = Some n"
  shows "n < length (cs_tail s) \<and> i \<in> set (cs_admitted s)"
proof -
  have "index_ok empty_context" by (simp add: index_ok_def empty_context_def)
  with assms(1) have "index_ok s" by (rule fold_res_invariant) (rule index_ok_step)
  with assms(2) show ?thesis by (auto simp: index_ok_def dest: map_of_SomeD)
qed

definition sample_input :: input_submission where
  "sample_input = \<lparr>sub_key = ''k1'', sub_parts = [\<lparr>tx_type = ''text'', tx_text = ''hi''\<rparr>],
     sub_source = \<lparr>src_kind = ''human'', src_adapter = ''http'', src_principal = [], src_conversation = [], src_agent = []\<rparr>,
     sub_causation = [], sub_target = ''default'', sub_revision = ''r1''\<rparr>"

definition sample_log :: "rt_event list" where
  "sample_log =
     [(bare_event InputAccepted ''c'' [] ''m1'')\<lparr>re_id := 1, re_input := Some sample_input\<rparr>,
      (bare_event InputAdmitted ''c'' ''r'' ''m1'')\<lparr>re_id := 2\<rparr>]"

lemma prepared_input_in_range_witness:
  "\<exists>s. fold_res (context_step 0) empty_context sample_log = Inr s \<and> 0 < length (cs_tail s)"
proof -
  obtain s where s: "fold_res (context_step 0) empty_context sample_log = Inr s" "map_of (cs_index s) ''m1'' = Some 0"
    by (simp add: sample_log_def sample_input_def context_step_def project_message_def content_step_def
        admit_step_def base_message_def context_turn_of_def content_of_part_def text_message_part_def
        empty_context_def Let_def)
  from prepared_input_in_range [OF s] s show ?thesis by blast
qed

end
