(* ===== verification/Store_Ops.thy ===== *)
theory Store_Ops
  imports Store_Context "HOL-Library.Product_Lexorder"
begin

section \<open>The operations of the store (runtime/sqlite/store.go)\<close>

text \<open>
  Each operation is one transaction over the tables, in the statement order of the code.
  The wall clock \<open>now\<close> and the fresh identifiers are arguments.
\<close>

subsection \<open>Conversations\<close>

definition create_conversation :: "conversation \<Rightarrow> unit tx" where
  "create_conversation cv =
     insert_conversation (if cv_workspace_lock cv = [] then cv\<lparr>cv_workspace_lock := cv_workspace cv\<rparr> else cv)"

definition conversation_tx :: "string \<Rightarrow> conversation tx" where
  "conversation_tx cid = demand (\<lambda>d. map_option cr_conv (find_conv cid d)) NotFound"

definition conversations :: "db \<Rightarrow> conversation list" where
  "conversations d = rev (sort_key (\<lambda>cv. (cv_created cv, cv_id cv)) (map cr_conv (db_conversations d)))"

subsection \<open>Progress and internal events\<close>

definition running_run :: "rt_run \<Rightarrow> store_error \<Rightarrow> unit tx" where
  "running_run r e =
     after (demand (find_run (run_id r) (run_conv r)) NoRows)
       (\<lambda>row. require (rr_status row = Running) e)"

definition append_environment_progress :: "int \<Rightarrow> rt_run \<Rightarrow> env_progress \<Rightarrow> rt_event tx" where
  "append_environment_progress now r p =
     (if run_id r = [] \<or> run_conv r = [] \<or> ep_step p = [] \<or> ep_message p = []
      then bad (Invalid ''runtime: incomplete environment progress'')
      else after (running_run r (Invalid ''runtime: environment progress requires a running run''))
        (\<lambda>_. append_event now ((bare_event EnvironmentProgressed (run_conv r) (run_id r) (run_inbound r))
                \<lparr>re_environment := Some p\<rparr>)))"

definition agent_payloads :: "rt_event \<Rightarrow> nat" where
  "agent_payloads e =
     length (filter (\<lambda>b. b) [re_boundary e \<noteq> None, re_iteration e \<noteq> None, re_model e \<noteq> None,
       re_execution e \<noteq> None, re_compaction e \<noteq> None, re_prepared e \<noteq> None])"

definition agent_payload_fits :: "rt_event \<Rightarrow> bool" where
  "agent_payload_fits e =
     (case re_kind e of
        AgentStarted \<Rightarrow> re_boundary e \<noteq> None
      | AgentFinished \<Rightarrow> re_boundary e \<noteq> None
      | AgentStopped \<Rightarrow> re_boundary e \<noteq> None
      | AgentExhausted \<Rightarrow> re_boundary e \<noteq> None
      | IterationStarted \<Rightarrow> (case re_iteration e of Some n \<Rightarrow> n > 0 | None \<Rightarrow> False)
      | IterationCompleted \<Rightarrow> (case re_iteration e of Some n \<Rightarrow> n > 0 | None \<Rightarrow> False)
      | ModelCompleted \<Rightarrow> (case re_model e of Some m \<Rightarrow> mo_turn m > 0 | None \<Rightarrow> False)
      | ToolExecutionStarted \<Rightarrow>
          (case re_execution e of Some x \<Rightarrow> tex_turn x > 0 \<and> tex_call_id x \<noteq> [] | None \<Rightarrow> False)
      | ContextCompacted \<Rightarrow>
          (case re_compaction e of Some c \<Rightarrow> cm_turn c > 0 \<and> cm_context c \<noteq> [] | None \<Rightarrow> False)
      | InputPrepared \<Rightarrow>
          (case re_prepared e of Some t \<Rightarrow> ct_role t = ''user'' \<and> ct_content t \<noteq> [] | None \<Rightarrow> False)
      | _ \<Rightarrow> False)"

definition valid_agent_event :: "rt_event \<Rightarrow> bool" where
  "valid_agent_event e \<longleftrightarrow>
     agent_payloads e = 1 \<and> re_input e = None \<and> re_output e = None \<and> re_outcome e = None
     \<and> re_run e = None \<and> agent_payload_fits e"

definition append_agent_event :: "int \<Rightarrow> rt_run \<Rightarrow> rt_event \<Rightarrow> unit tx" where
  "append_agent_event now r e =
     (if run_id r = [] \<or> run_conv r = [] \<or> \<not> valid_agent_event e
      then bad (Invalid ''runtime: invalid agent event'')
      else after (running_run r (Invalid (''runtime: agent step for non-running run '' @ quoted (run_id r))))
        (\<lambda>_. after (append_event now (e\<lparr>re_conv := run_conv r, re_run_id := run_id r, re_inbound := run_inbound r\<rparr>))
          (\<lambda>_. ok ())))"

subsection \<open>Accepting inputs\<close>

definition find_key :: "string \<Rightarrow> string \<Rightarrow> db \<Rightarrow> sub_row option" where
  "find_key cid key d = List.find (\<lambda>r. sr_conv r = cid \<and> sr_key r = key) (db_submissions d)"

definition queued_row :: "int \<Rightarrow> string \<Rightarrow> string \<Rightarrow> input_submission \<Rightarrow> sub_row" where
  "queued_row now i cid inp =
     \<lparr>sr_id = i, sr_conv = cid, sr_key = sub_key inp, sr_message_id = i, sr_revision = sub_revision inp,
      sr_status = Queued, sr_err = [], sr_accepted = now\<rparr>"

definition accept_new :: "int \<Rightarrow> string \<Rightarrow> string \<Rightarrow> input_submission \<Rightarrow> (accepted_message \<times> rt_event list) tx" where
  "accept_new now i cid inp =
     after (conversation_tx cid)
       (\<lambda>cv. after (require (sub_target inp = cv_agent_id cv \<and> sub_revision inp \<noteq> [])
                 (Invalid ''runtime: input target or agent revision does not match conversation''))
       (\<lambda>_. after (insert_submission (queued_row now i cid inp))
       (\<lambda>_. after (append_event now ((bare_event InputAccepted cid [] i)
                     \<lparr>re_input := Some inp, re_created := Some now\<rparr>))
       (\<lambda>e. ok (\<lparr>am_conv = cid, am_inbound = i, am_duplicate = False\<rparr>, [e])))))"

definition accept :: "int \<Rightarrow> string \<Rightarrow> string \<Rightarrow> input_submission \<Rightarrow> (accepted_message \<times> rt_event list) tx" where
  "accept now i cid inp =
     after (lift_error (validate_input inp))
       (\<lambda>_. after (read (find_key cid (sub_key inp)))
         (\<lambda>found. case found of
            Some r \<Rightarrow> ok (\<lparr>am_conv = cid, am_inbound = sr_id r, am_duplicate = True\<rparr>, [])
          | None \<Rightarrow> accept_new now i cid inp))"

subsection \<open>Claiming\<close>

definition conv_busy :: "string \<Rightarrow> db \<Rightarrow> bool" where
  "conv_busy cid d \<longleftrightarrow> (\<exists>x \<in> set (db_submissions d). sr_conv x = cid \<and> sr_status x = Running)"

definition lock_of :: "db \<Rightarrow> string \<Rightarrow> string option" where
  "lock_of d cid = map_option (cv_workspace_lock \<circ> cr_conv) (find_conv cid d)"

definition lock_busy :: "string \<Rightarrow> db \<Rightarrow> bool" where
  "lock_busy lock d \<longleftrightarrow> (\<exists>x \<in> set (db_submissions d). sr_status x = Running \<and> lock_of d (sr_conv x) = Some lock)"

definition reserved :: "string \<Rightarrow> db \<Rightarrow> bool" where
  "reserved wid d \<longleftrightarrow> (\<exists>r \<in> set (db_reservations d). fst r = wid)"

definition runnable_row :: "db \<Rightarrow> sub_row \<Rightarrow> bool" where
  "runnable_row d r \<longleftrightarrow>
     sr_status r = Queued \<and> \<not> conv_busy (sr_conv r) d
     \<and> (case find_conv (sr_conv r) d of
          None \<Rightarrow> False
        | Some cr \<Rightarrow> \<not> lock_busy (cv_workspace_lock (cr_conv cr)) d
                    \<and> \<not> reserved (cv_workspace_id (cr_conv cr)) d)"

text \<open>ORDER BY accepted_at, id LIMIT 1.\<close>

definition next_runnable :: "db \<Rightarrow> sub_row option" where
  "next_runnable d =
     (case sort_key (\<lambda>r. (sr_accepted r, sr_id r)) (filter (runnable_row d) (db_submissions d)) of
        [] \<Rightarrow> None
      | r # _ \<Rightarrow> Some r)"

definition started_run :: "int \<Rightarrow> string \<Rightarrow> sub_row \<Rightarrow> rt_run" where
  "started_run now rid r =
     \<lparr>run_id = rid, run_conv = sr_conv r, run_inbound = sr_id r, run_revision = sr_revision r,
      run_status = Running, run_err = [], run_started = now, run_completed = None\<rparr>"

definition row_of_run :: "rt_run \<Rightarrow> run_row" where
  "row_of_run r =
     \<lparr>rr_id = run_id r, rr_conv = run_conv r, rr_sub = run_inbound r, rr_inbound = run_inbound r,
      rr_revision = run_revision r, rr_status = run_status r, rr_err = [], rr_started = run_started r,
      rr_completed = None\<rparr>"

definition claim_row :: "int \<Rightarrow> string \<Rightarrow> sub_row \<Rightarrow> claimed_run tx" where
  "claim_row now rid r =
     (let cid = sr_conv r; i = sr_id r; run = started_run now rid r in
      after (conversation_tx cid)
       (\<lambda>cv. after (load_input cid i)
       (\<lambda>parts. after (update_submissions (\<lambda>x. sr_id x = i \<and> sr_status x = Queued) (\<lambda>x. x\<lparr>sr_status := Running\<rparr>))
       (\<lambda>n. after (require (n = 1) (Invalid ''runtime: runnable submission lost its claim race''))
       (\<lambda>_. after (insert_run (row_of_run run))
       (\<lambda>_. after (load_context cid)
       (\<lambda>ctx. after (append_event now ((bare_event InputAdmitted cid rid i)\<lparr>re_created := Some now\<rparr>))
       (\<lambda>e1. after (append_event now ((bare_event RunStarted cid rid i)\<lparr>re_run := Some run, re_created := Some now\<rparr>))
       (\<lambda>e2. ok \<lparr>cl_conversation = cv,
              cl_message = \<lparr>im_id = i, im_key = sr_key r, im_parts = parts, im_accepted = sr_accepted r\<rparr>,
              cl_context = ctx, cl_run = run, cl_events = [e1, e2]\<rparr>)))))))))"

definition claim_runnable :: "int \<Rightarrow> string \<Rightarrow> claimed_run option tx" where
  "claim_runnable now rid =
     after (read next_runnable)
       (\<lambda>found. case found of
          None \<Rightarrow> ok None
        | Some r \<Rightarrow> after (claim_row now rid r) (\<lambda>c. ok (Some c)))"

subsection \<open>Assistant turns\<close>

definition part_problem :: "nat \<Rightarrow> string \<Rightarrow> error" where
  "part_problem i what = ''runtime: assistant part '' @ show_nat i @ what"

fun normalize_parts :: "nat \<Rightarrow> message_part list \<Rightarrow> error + (message_part list \<times> message_part list)" where
  "normalize_parts i [] = Inr ([], [])"
| "normalize_parts i (p # ps) =
     (if mp_type p = ''text'' then
        (if mp_text p = [] then Inl (part_problem i '' has empty text'')
         else and_then (normalize_parts (Suc i) ps) (\<lambda>(all, tools). Inr (p # all, tools)))
      else if mp_type p = ''tool_call'' then
        (if mp_call_id p = [] \<or> mp_kind p = [] then Inl (part_problem i '' has an incomplete tool call'')
         else (case object_args (mp_args p) of
                 Inl e \<Rightarrow> Inl (part_problem i ('' arguments: '' @ e))
               | Inr _ \<Rightarrow>
                   (let p' = (if args_absent (mp_args p) then p\<lparr>mp_args := ''{}''\<rparr> else p) in
                    and_then (normalize_parts (Suc i) ps) (\<lambda>(all, tools). Inr (p' # all, p' # tools)))))
      else Inl (part_problem i ('' has unsupported type '' @ quoted (mp_type p))))"

definition requested_row :: "int \<Rightarrow> string \<Rightarrow> string \<Rightarrow> string \<Rightarrow> message_part \<Rightarrow> tool_row" where
  "requested_row now cid rid inb p =
     \<lparr>tr_id = mp_call_id p, tr_conv = cid, tr_run = rid, tr_inbound = inb, tr_kind_name = mp_kind p,
      tr_status = Requested, tr_updated = now\<rparr>"

definition commit_assistant_turn :: "int \<Rightarrow> string \<Rightarrow> rt_run \<Rightarrow> message_part list \<Rightarrow> rt_event list tx" where
  "commit_assistant_turn now oid r parts =
     after (lift_error (normalize_parts 0 parts))
       (\<lambda>(all, tools). after (require (tools \<noteq> []) (Invalid ''runtime: assistant tool turn has no tool calls''))
       (\<lambda>_. after (append_event now ((bare_event AssistantCommitted (run_conv r) (run_id r) (run_inbound r))
                 \<lparr>re_output := Some \<lparr>ao_id = oid, ao_parts = all, ao_final = False\<rparr>, re_created := Some now\<rparr>))
       (\<lambda>e. after (for_each (\<lambda>p. insert_tool (requested_row now (run_conv r) (run_id r) (run_inbound r) p)) tools)
       (\<lambda>_. ok [e]))))"

subsection \<open>Tool outcomes\<close>

definition requested_tool :: "string \<Rightarrow> string \<Rightarrow> tool_row \<Rightarrow> bool" where
  "requested_tool rid i t \<longleftrightarrow> tr_id t = i \<and> tr_run t = rid \<and> tr_status t = Requested"

definition tool_finished :: "int \<Rightarrow> string \<Rightarrow> rt_run \<Rightarrow> tool_result \<Rightarrow> tool_status \<Rightarrow> rt_event list tx" where
  "tool_finished now oid r res st =
     (let i = tr_action_id res in
      after (demand (\<lambda>d. List.find (requested_tool (run_id r) i) (db_tools d)) NoRows)
       (\<lambda>t. after (update_tools (requested_tool (run_id r) i) (\<lambda>x. x\<lparr>tr_status := st, tr_updated := now\<rparr>))
       (\<lambda>n. after (require (n = 1) (Invalid (''runtime: requested tool '' @ quoted i @ '' lost its completion race'')))
       (\<lambda>_. after (append_event now ((bare_event ToolOutcomeRecorded (run_conv r) (run_id r) (run_inbound r))
                 \<lparr>re_created := Some now,
                  re_outcome := Some \<lparr>to_id = oid, to_call_id = i, to_kind = tr_kind_name t, to_status = st,
                                      to_result = Some res\<rparr>\<rparr>))
       (\<lambda>e. ok [e])))))"

definition tool_completed :: "int \<Rightarrow> string \<Rightarrow> rt_run \<Rightarrow> tool_result \<Rightarrow> rt_event list tx" where
  "tool_completed now oid r res = tool_finished now oid r res (if tr_ok res then ToolCompleted else ToolFailed)"

definition tool_denied :: "int \<Rightarrow> string \<Rightarrow> rt_run \<Rightarrow> tool_result \<Rightarrow> rt_event list tx" where
  "tool_denied now oid r res =
     (if tr_ok res then bad (Invalid ''runtime: denied tool result cannot be successful'')
      else tool_finished now oid r res ToolDenied)"

subsection \<open>Ending a run\<close>

definition store_finish_run :: "int \<Rightarrow> string \<Rightarrow> rt_run \<Rightarrow> string \<Rightarrow> rt_event list tx" where
  "store_finish_run now oid r answer =
     after (update_submissions (\<lambda>x. sr_id x = run_inbound r) (\<lambda>x. x\<lparr>sr_status := Completed\<rparr>))
       (\<lambda>_. after (update_runs (\<lambda>x. rr_id x = run_id r) (\<lambda>x. x\<lparr>rr_status := Completed, rr_completed := Some now\<rparr>))
       (\<lambda>_. after (append_event now ((bare_event AssistantCommitted (run_conv r) (run_id r) (run_inbound r))
                 \<lparr>re_created := Some now,
                  re_output := Some \<lparr>ao_id = oid, ao_parts = [text_message_part answer], ao_final = True\<rparr>\<rparr>))
       (\<lambda>e1. after (append_event now ((bare_event RunCompleted (run_conv r) (run_id r) (run_inbound r))
                 \<lparr>re_created := Some now, re_run := Some (r\<lparr>run_status := Completed, run_completed := Some now\<rparr>)\<rparr>))
       (\<lambda>e2. ok [e1, e2]))))"

definition interrupted_result :: "tool_row \<Rightarrow> tool_result" where
  "interrupted_result t =
     zero_result\<lparr>tr_action_id := tr_id t, tr_kind := tr_kind_name t, tr_ok := False,
       tr_error := ''execution was interrupted; outcome unknown''\<rparr>"

definition interrupt_requested_tools :: "int \<Rightarrow> (nat \<Rightarrow> string) \<Rightarrow> rt_run \<Rightarrow> rt_event list tx" where
  "interrupt_requested_tools now ids r =
     after (read (\<lambda>d. filter (\<lambda>t. tr_run t = run_id r \<and> tr_status t = Requested) (db_tools d)))
       (\<lambda>tools. after (for_each (\<lambda>(k, t). tool_finished now (ids k) r (interrupted_result t) ToolInterrupted)
                        (List.enumerate 0 tools))
         (\<lambda>evs. ok (concat evs)))"

definition end_run :: "int \<Rightarrow> (nat \<Rightarrow> string) \<Rightarrow> rt_run \<Rightarrow> run_status \<Rightarrow> event_kind \<Rightarrow> string \<Rightarrow> rt_event list tx" where
  "end_run now ids r st k msg =
     after (interrupt_requested_tools now ids r)
       (\<lambda>evs. after (update_submissions (\<lambda>x. sr_id x = run_inbound r) (\<lambda>x. x\<lparr>sr_status := st, sr_err := msg\<rparr>))
       (\<lambda>_. after (update_runs (\<lambda>x. rr_id x = run_id r)
                     (\<lambda>x. x\<lparr>rr_status := st, rr_err := msg, rr_completed := Some now\<rparr>))
       (\<lambda>_. after (append_event now ((bare_event k (run_conv r) (run_id r) (run_inbound r))
                 \<lparr>re_created := Some now,
                  re_run := Some (r\<lparr>run_status := st, run_err := msg, run_completed := Some now\<rparr>)\<rparr>))
       (\<lambda>e. ok (evs @ [e])))))"

definition store_fail_run :: "int \<Rightarrow> (nat \<Rightarrow> string) \<Rightarrow> rt_run \<Rightarrow> string \<Rightarrow> rt_event list tx" where
  "store_fail_run now ids r msg = end_run now ids r Failed RunFailed msg"

definition store_stop_run :: "int \<Rightarrow> (nat \<Rightarrow> string) \<Rightarrow> rt_run \<Rightarrow> rt_event list tx" where
  "store_stop_run now ids r = end_run now ids r Stopped RunStopped ''stopped by request''"

subsection \<open>Workspaces and recovery\<close>

definition workspace_busy :: "string \<Rightarrow> db \<Rightarrow> bool" where
  "workspace_busy wid d \<longleftrightarrow>
     (\<exists>x \<in> set (db_submissions d). sr_status x = Running
        \<and> map_option (cv_workspace_id \<circ> cr_conv) (find_conv (sr_conv x) d) = Some wid)
     \<or> reserved wid d"

definition reserve_workspace :: "int \<Rightarrow> string \<Rightarrow> unit tx" where
  "reserve_workspace now wid d =
     (if workspace_busy wid d then Inl (Busy wid)
      else if wid = [] then Inl (Constraint ''workspace_id'')
      else Inr (d\<lparr>db_reservations := db_reservations d @ [(wid, now)]\<rparr>, ()))"

definition release_workspace :: "string \<Rightarrow> unit tx" where
  "release_workspace wid d =
     Inr (d\<lparr>db_reservations := filter (\<lambda>r. fst r \<noteq> wid) (db_reservations d)\<rparr>, ())"

definition clear_reservations :: "unit tx" where
  "clear_reservations d = Inr (d\<lparr>db_reservations := []\<rparr>, ())"

definition run_of_row :: "run_row \<Rightarrow> rt_run" where
  "run_of_row x =
     \<lparr>run_id = rr_id x, run_conv = rr_conv x, run_inbound = rr_inbound x, run_revision = rr_revision x,
      run_status = Running, run_err = [], run_started = rr_started x, run_completed = None\<rparr>"

definition running_rows :: "db \<Rightarrow> run_row list" where
  "running_rows d = sort_key rr_started (filter (\<lambda>x. rr_status x = Running) (db_runs d))"

text \<open>Each abandoned run is failed in a transaction of its own; the first error ends recovery.\<close>

fun fail_rows :: "int \<Rightarrow> (nat \<Rightarrow> nat \<Rightarrow> string) \<Rightarrow> nat \<Rightarrow> run_row list \<Rightarrow> db \<Rightarrow> db \<times> store_error option" where
  "fail_rows now ids k [] d = (d, None)"
| "fail_rows now ids k (x # xs) d =
     (case store_fail_run now (ids k) (run_of_row x) ''execution was interrupted; outcome unknown'' d of
        Inl e \<Rightarrow> (d, Some e)
      | Inr (d', _) \<Rightarrow> fail_rows now ids (Suc k) xs d')"

definition recover_running :: "int \<Rightarrow> (nat \<Rightarrow> nat \<Rightarrow> string) \<Rightarrow> db \<Rightarrow> db \<times> store_error option" where
  "recover_running now ids d =
     (let d1 = exec_tx clear_reservations d in fail_rows now ids 0 (running_rows d1) d1)"

subsection \<open>Reading events\<close>

definition events_after :: "string \<Rightarrow> nat \<Rightarrow> (event_kind \<Rightarrow> bool) \<Rightarrow> rt_event list tx" where
  "events_after cid start p =
     after (conversation_tx cid)
       (\<lambda>_. read (\<lambda>d. map er_payload (sort_key er_cursor
          (filter (\<lambda>r. er_conv r = cid \<and> er_cursor r > start \<and> p (er_kind r)) (db_events d)))))"

definition events :: "string \<Rightarrow> nat \<Rightarrow> rt_event list tx" where
  "events cid start = events_after cid start (\<lambda>k. \<not> agent_kind k)"

definition agent_events :: "string \<Rightarrow> nat \<Rightarrow> rt_event list tx" where
  "agent_events cid start = events_after cid start agent_kind"

end
