(* ===== verification/Projection.thy ===== *)
theory Projection
  imports Store_Ops
begin

section \<open>The client's snapshot of a conversation (runtime/projection.go)\<close>

text \<open>
  A view is computed from the public events of one conversation, in log order, and never
  from the indexes. The two maps of the code from an input and from a tool call to its
  position are searched for in the list itself: positions are assigned by appending, so the
  first entry with the key is the one the map points to.
\<close>

definition empty_view :: "conversation \<Rightarrow> conversation_view" where
  "empty_view cv = \<lparr>vw_conversation = cv, vw_messages = [], vw_submissions = [], vw_active_run = None,
     vw_tool_calls = [], vw_environment = [], vw_cursor = 0\<rparr>"

text \<open>The position of the first entry with a key, and the list with that entry changed.\<close>

fun change_first :: "('a \<Rightarrow> bool) \<Rightarrow> ('a \<Rightarrow> 'a) \<Rightarrow> 'a list \<Rightarrow> 'a list option" where
  "change_first p f [] = None"
| "change_first p f (x # xs) =
     (if p x then Some (f x # xs) else map_option (\<lambda>ys. x # ys) (change_first p f xs))"

definition add_message :: "message \<Rightarrow> conversation_view \<Rightarrow> conversation_view" where
  "add_message m v = v\<lparr>vw_messages := vw_messages v @ [m]\<rparr>"

definition view_input :: "rt_event \<Rightarrow> input_submission \<Rightarrow> conversation_view \<Rightarrow> error + conversation_view" where
  "view_input e inp v =
     (if sub_key inp = [] then Inl ''runtime: accepted input has no idempotency key''
      else if \<exists>s \<in> set (vw_submissions v). sb_id s = re_inbound e
        then Inl (''runtime: input '' @ quoted (re_inbound e) @ '' accepted twice'')
      else Inr (v\<lparr>vw_submissions := vw_submissions v @
             [\<lparr>sb_id = re_inbound e, sb_conv = cv_id (vw_conversation v), sb_message_id = re_inbound e,
               sb_revision = sub_revision inp, sb_status = Queued, sb_err = [], sb_accepted = re_created e\<rparr>]\<rparr>))"

definition tool_key :: "tool_call \<Rightarrow> string \<times> string" where
  "tool_key t = (tc_run_id t, tc_id t)"

fun view_calls :: "rt_event \<Rightarrow> message_part list \<Rightarrow> conversation_view \<Rightarrow> error + conversation_view" where
  "view_calls e [] v = Inr v"
| "view_calls e (p # ps) v =
     (if mp_type p \<noteq> ''tool_call'' then view_calls e ps v
      else if mp_call_id p = [] \<or> re_run_id e = [] then Inl ''runtime: tool request has no identity''
      else if \<exists>t \<in> set (vw_tool_calls v). tool_key t = (re_run_id e, mp_call_id p)
        then Inl (''runtime: tool call '' @ quoted (mp_call_id p) @ '' recorded twice'')
      else view_calls e ps (v\<lparr>vw_tool_calls := vw_tool_calls v @
             [\<lparr>tc_id = mp_call_id p, tc_conv = cv_id (vw_conversation v), tc_run_id = re_run_id e,
               tc_inbound = re_inbound e, tc_kind = mp_kind p, tc_args = mp_args p, tc_status = Requested,
               tc_result = None, tc_updated = re_created e\<rparr>]\<rparr>))"

definition view_outcome :: "rt_event \<Rightarrow> tool_outcome \<Rightarrow> conversation_view \<Rightarrow> error + conversation_view" where
  "view_outcome e out v =
     (case change_first (\<lambda>t. tool_key t = (re_run_id e, to_call_id out))
             (\<lambda>t. t\<lparr>tc_status := to_status out, tc_result := to_result out, tc_updated := re_created e\<rparr>)
             (vw_tool_calls v) of
        None \<Rightarrow> Inl (''runtime: tool outcome '' @ quoted (to_call_id out) @ '' has no request'')
      | Some ts \<Rightarrow> Inr (v\<lparr>vw_tool_calls := ts\<rparr>))"

text \<open>A message was projected, so the payload of the event's type is present.\<close>

definition view_content :: "rt_event \<Rightarrow> conversation_view \<Rightarrow> error + conversation_view" where
  "view_content e v =
     and_then (project_message e) (\<lambda>m.
       let v1 = add_message m v in
       if re_kind e = InputAccepted then view_input e (the (re_input e)) v1
       else if re_kind e = AssistantCommitted then view_calls e (ao_parts (the (re_output e))) v1
       else view_outcome e (the (re_outcome e)) v1)"

definition view_notice :: "rt_event \<Rightarrow> conversation_view \<Rightarrow> error + conversation_view" where
  "view_notice e v =
     (if re_kind e = RunFailed \<or> re_kind e = RunStopped
      then and_then (project_message e) (\<lambda>m. Inr (add_message m v))
      else Inr v)"

definition view_run :: "rt_event \<Rightarrow> conversation_view \<Rightarrow> error + conversation_view" where
  "view_run e v =
     (case re_run e of
        None \<Rightarrow> Inl ''runtime: run event has no run''
      | Some r \<Rightarrow> and_then (view_notice e v) (\<lambda>v1.
          (case change_first (\<lambda>s. sb_id s = run_inbound r) (\<lambda>s. s\<lparr>sb_status := run_status r, sb_err := run_err r\<rparr>)
                  (vw_submissions v1) of
             None \<Rightarrow> Inl (''runtime: run '' @ quoted (run_id r) @ '' has no accepted input'')
           | Some ss \<Rightarrow>
               Inr (v1\<lparr>vw_submissions := ss,
                       vw_active_run := (if re_kind e = RunStarted then Some r else None)\<rparr>))))"

definition view_event :: "conversation_view \<Rightarrow> rt_event \<Rightarrow> error + conversation_view" where
  "view_event v e =
     (if re_conv e \<noteq> cv_id (vw_conversation v) then Inl ''runtime: event belongs to another conversation''
      else let v1 = (if re_id e > vw_cursor v then v\<lparr>vw_cursor := re_id e\<rparr> else v) in
        if re_kind e \<in> {InputAccepted, AssistantCommitted, ToolOutcomeRecorded} then view_content e v1
        else if re_kind e \<in> {RunStarted, RunCompleted, RunFailed, RunStopped} then view_run e v1
        else if re_kind e = EnvironmentProgressed \<and> re_environment e \<noteq> None
          then Inr (v1\<lparr>vw_environment := vw_environment v1 @ [e]\<rparr>)
        else Inr v1)"

definition project_view :: "conversation \<Rightarrow> rt_event list \<Rightarrow> error + conversation_view" where
  "project_view cv es = fold_res view_event (empty_view cv) es"

text \<open>\<^verbatim>\<open>Store.View\<close>: the projection of the public log, with the cursor of the whole log.\<close>

definition public_log :: "string \<Rightarrow> db \<Rightarrow> rt_event list" where
  "public_log cid d = map er_payload (sort_key er_cursor
     (filter (\<lambda>r. er_conv r = cid \<and> \<not> agent_kind (er_kind r)) (db_events d)))"

definition store_view :: "string \<Rightarrow> conversation_view tx" where
  "store_view cid =
     after (demand (find_conv cid) NotFound)
       (\<lambda>cr. after (read (public_log cid))
       (\<lambda>es. after (lift_error (project_view (cr_conv cr) es))
       (\<lambda>v. ok (if cr_next cr > 0 then v\<lparr>vw_cursor := cr_next cr - 1\<rparr> else v))))"

end
