(* ===== verification/Store_Inv.thy ===== *)
theory Store_Inv
  imports Store_Ops
begin

section \<open>Reachable states of the store and their invariants\<close>

text \<open>
  The store as a state machine: every operation of the interface is a step, applied with
  any arguments. The locale \<open>store_invariant\<close> lists what an invariant must survive; inside
  it every operation is shown to keep the invariant, once. Two invariants interpret it: the
  log of a conversation is contiguous and describes itself, and running submissions never
  share a conversation or a workspace lock.
\<close>

subsection \<open>Steps\<close>

inductive store_step :: "db \<Rightarrow> db \<Rightarrow> bool" where
  step_create: "create_conversation cv d = Inr (d', u) \<Longrightarrow> store_step d d'"
| step_progress: "append_environment_progress now r p d = Inr (d', e) \<Longrightarrow> store_step d d'"
| step_agent: "append_agent_event now r ev d = Inr (d', u) \<Longrightarrow> store_step d d'"
| step_accept: "accept now i cid inp d = Inr (d', a) \<Longrightarrow> store_step d d'"
| step_claim: "claim_runnable now rid d = Inr (d', c) \<Longrightarrow> store_step d d'"
| step_commit: "commit_assistant_turn now oid r parts d = Inr (d', evs) \<Longrightarrow> store_step d d'"
| step_completed: "tool_completed now oid r res d = Inr (d', evs) \<Longrightarrow> store_step d d'"
| step_denied: "tool_denied now oid r res d = Inr (d', evs) \<Longrightarrow> store_step d d'"
| step_finish: "store_finish_run now oid r answer d = Inr (d', evs) \<Longrightarrow> store_step d d'"
| step_fail: "store_fail_run now ids r msg d = Inr (d', evs) \<Longrightarrow> store_step d d'"
| step_stop: "store_stop_run now ids r d = Inr (d', evs) \<Longrightarrow> store_step d d'"
| step_reserve: "reserve_workspace now wid d = Inr (d', u) \<Longrightarrow> store_step d d'"
| step_release: "release_workspace wid d = Inr (d', u) \<Longrightarrow> store_step d d'"
| step_recover: "recover_running now idss d = (d', err) \<Longrightarrow> store_step d d'"

definition reachable :: "db \<Rightarrow> bool" where
  "reachable d \<longleftrightarrow> store_step\<^sup>*\<^sup>* empty_db d"

text \<open>An update that never makes a submission running.\<close>

definition calm :: "(sub_row \<Rightarrow> sub_row) \<Rightarrow> bool" where
  "calm f \<longleftrightarrow> (\<forall>x. sr_id (f x) = sr_id x \<and> sr_conv (f x) = sr_conv x \<and> sr_key (f x) = sr_key x
     \<and> sr_status (f x) \<noteq> Running)"

lemma next_runnable_Some:
  assumes "next_runnable d = Some r"
  shows "r \<in> set (db_submissions d) \<and> runnable_row d r"
proof -
  obtain rest where "sort_key (\<lambda>r. (sr_accepted r, sr_id r)) (filter (runnable_row d) (db_submissions d)) = r # rest"
    using assms by (auto simp: next_runnable_def split: list.splits)
  then have "r \<in> set (sort_key (\<lambda>r. (sr_accepted r, sr_id r)) (filter (runnable_row d) (db_submissions d)))"
    by (metis list.set_intros(1))
  then show ?thesis unfolding set_sort by simp
qed

lemma load_input_state: "load_input cid i d = Inr (d', parts) \<Longrightarrow> d' = d"
  by (auto simp: load_input_def Let_def split: option.splits if_splits)

lemma load_context_state: "load_context cid d = Inr (d', ctx) \<Longrightarrow> d' = d"
  by (auto simp: load_context_def load_latest_compaction_def load_context_after_def
      split: list.splits option.splits if_splits)

locale store_invariant =
  fixes I :: "db \<Rightarrow> bool"
  assumes inv_conv: "tx_keeps I (insert_conversation cv)"
    and inv_event: "tx_keeps I (append_event now e)"
    and inv_queue: "sr_status r = Queued \<Longrightarrow> tx_keeps I (insert_submission r)"
    and inv_calm: "calm f \<Longrightarrow> tx_keeps I (update_submissions p f)"
    and inv_claim: "I d \<Longrightarrow> r \<in> set (db_submissions d) \<Longrightarrow> runnable_row d r \<Longrightarrow>
      update_submissions (\<lambda>x. sr_id x = sr_id r \<and> sr_status x = Queued) (\<lambda>x. x\<lparr>sr_status := Running\<rparr>) d
        = Inr (d', 1) \<Longrightarrow> I d'"
    and inv_runs: "I d \<Longrightarrow> I (d\<lparr>db_runs := rs\<rparr>)"
    and inv_tools: "I d \<Longrightarrow> I (d\<lparr>db_tools := ts\<rparr>)"
    and inv_reserve: "I d \<Longrightarrow> \<not> workspace_busy wid d \<Longrightarrow> I (d\<lparr>db_reservations := db_reservations d @ [(wid, now)]\<rparr>)"
    and inv_release: "I d \<Longrightarrow> set ws \<subseteq> set (db_reservations d) \<Longrightarrow> I (d\<lparr>db_reservations := ws\<rparr>)"
begin

lemma keeps_insert_run: "tx_keeps I (insert_run r)"
  by (auto simp: tx_keeps_def insert_run_def split: if_splits intro: inv_runs)

lemma keeps_update_runs: "tx_keeps I (update_runs p f)"
  by (auto simp: tx_keeps_def update_runs_def intro: inv_runs)

lemma keeps_insert_tool: "tx_keeps I (insert_tool t)"
  by (auto simp: tx_keeps_def insert_tool_def split: if_splits intro: inv_tools)

lemma keeps_update_tools: "tx_keeps I (update_tools p f)"
  by (auto simp: tx_keeps_def update_tools_def intro: inv_tools)

lemma keeps_create: "tx_keeps I (create_conversation cv)"
  unfolding create_conversation_def by (rule inv_conv)

lemma keeps_running: "tx_keeps I (running_run r e)"
  unfolding running_run_def by auto

lemma keeps_progress: "tx_keeps I (append_environment_progress now r p)"
  unfolding append_environment_progress_def by (auto intro: keeps_running inv_event)

lemma keeps_agent: "tx_keeps I (append_agent_event now r e)"
  unfolding append_agent_event_def by (auto intro: keeps_running inv_event)

lemma keeps_accept: "tx_keeps I (accept now i cid inp)"
proof -
  have "sr_status (queued_row now i cid inp) = Queued" by (simp add: queued_row_def)
  then have "tx_keeps I (accept_new now i cid inp)"
    unfolding accept_new_def conversation_tx_def by (auto intro!: tx_keeps_after inv_queue inv_event)
  then show ?thesis
    unfolding accept_def by (auto intro!: tx_keeps_after split: option.split)
qed

lemma keeps_claim_row:
  assumes "claim_row now rid r d = Inr (d', c)" and "r \<in> set (db_submissions d)" "runnable_row d r" and "I d"
  shows "I d'"
proof -
  obtain d1 d2 d3 e1 where
    d1: "update_submissions (\<lambda>x. sr_id x = sr_id r \<and> sr_status x = Queued) (\<lambda>x. x\<lparr>sr_status := Running\<rparr>) d
           = Inr (d1, 1)"
    and d2: "insert_run (row_of_run (started_run now rid r)) d1 = Inr (d2, ())"
    and d3: "append_event now ((bare_event InputAdmitted (sr_conv r) rid (sr_id r))\<lparr>re_created := Some now\<rparr>) d2
           = Inr (d3, e1)"
    and d4: "\<exists>e2. append_event now ((bare_event RunStarted (sr_conv r) rid (sr_id r))
             \<lparr>re_run := Some (started_run now rid r), re_created := Some now\<rparr>) d3 = Inr (d', e2)"
    using assms(1)
    by (auto simp: claim_row_def conversation_tx_def Let_def dest!: load_input_state load_context_state)
  have "I d1" using inv_claim [OF assms(4,2,3) d1] .
  then have "I d2" using tx_keepsD [OF keeps_insert_run d2] by blast
  then have "I d3" using tx_keepsD [OF inv_event d3] by blast
  then show ?thesis using d4 tx_keepsD [OF inv_event] by blast
qed

lemma keeps_claim: "tx_keeps I (claim_runnable now rid)"
  using keeps_claim_row next_runnable_Some
  by (fastforce simp: tx_keeps_def claim_runnable_def split: option.splits)

lemma keeps_commit: "tx_keeps I (commit_assistant_turn now oid r parts)"
  unfolding commit_assistant_turn_def
  by (auto intro!: tx_keeps_after inv_event keeps_insert_tool split: prod.split)

lemma keeps_tool_finished: "tx_keeps I (tool_finished now oid r res st)"
  unfolding tool_finished_def Let_def by (auto intro!: tx_keeps_after inv_event keeps_update_tools)

lemma keeps_completed: "tx_keeps I (tool_completed now oid r res)"
  unfolding tool_completed_def by (rule keeps_tool_finished)

lemma keeps_denied: "tx_keeps I (tool_denied now oid r res)"
  unfolding tool_denied_def by (auto intro: keeps_tool_finished)

lemma keeps_finish: "tx_keeps I (store_finish_run now oid r answer)"
  unfolding store_finish_run_def
  by (intro tx_keeps_after inv_event keeps_update_runs inv_calm) (auto simp: calm_def)

lemma keeps_interrupt: "tx_keeps I (interrupt_requested_tools now ids r)"
  unfolding interrupt_requested_tools_def
  by (auto intro!: tx_keeps_after tx_keeps_for_each keeps_tool_finished split: prod.split)

lemma keeps_end_run: "st \<noteq> Running \<Longrightarrow> tx_keeps I (end_run now ids r st k msg)"
  unfolding end_run_def
  by (intro tx_keeps_after keeps_interrupt inv_event keeps_update_runs inv_calm) (auto simp: calm_def)

lemma keeps_fail: "tx_keeps I (store_fail_run now ids r msg)"
  unfolding store_fail_run_def by (rule keeps_end_run) simp

lemma keeps_stop: "tx_keeps I (store_stop_run now ids r)"
  unfolding store_stop_run_def by (rule keeps_end_run) simp

lemma keeps_reserve: "tx_keeps I (reserve_workspace now wid)"
  by (auto simp: tx_keeps_def reserve_workspace_def split: if_splits intro: inv_reserve)

lemma keeps_release: "tx_keeps I (release_workspace wid)"
  by (auto simp: tx_keeps_def release_workspace_def intro: inv_release)

lemma keeps_fail_rows: "I d \<Longrightarrow> I (fst (fail_rows now ids k xs d))"
proof (induction xs arbitrary: k d)
  case (Cons x xs)
  show ?case
  proof (cases "store_fail_run now (ids k) (run_of_row x) ''execution was interrupted; outcome unknown'' d")
    case (Inl e)
    with Cons.prems show ?thesis by simp
  next
    case (Inr r)
    obtain d' evs where r: "r = (d', evs)" by (cases r)
    have "I d'" using tx_keepsD [OF keeps_fail Inr [unfolded r] Cons.prems] .
    with Cons.IH Inr r show ?thesis by simp
  qed
qed simp

lemma keeps_recover: "I d \<Longrightarrow> I (fst (recover_running now ids d))"
proof -
  assume "I d"
  then have "I (exec_tx clear_reservations d)"
    using inv_release by (simp add: exec_tx_def clear_reservations_def)
  then show ?thesis unfolding recover_running_def Let_def by (rule keeps_fail_rows)
qed

lemma store_step_keeps:
  assumes "store_step d d'" and "I d"
  shows "I d'"
  using assms
proof cases
  case step_create then show ?thesis using assms(2) tx_keepsD [OF keeps_create] by blast
next
  case step_progress then show ?thesis using assms(2) tx_keepsD [OF keeps_progress] by blast
next
  case step_agent then show ?thesis using assms(2) tx_keepsD [OF keeps_agent] by blast
next
  case step_accept then show ?thesis using assms(2) tx_keepsD [OF keeps_accept] by blast
next
  case step_claim then show ?thesis using assms(2) tx_keepsD [OF keeps_claim] by blast
next
  case step_commit then show ?thesis using assms(2) tx_keepsD [OF keeps_commit] by blast
next
  case step_completed then show ?thesis using assms(2) tx_keepsD [OF keeps_completed] by blast
next
  case step_denied then show ?thesis using assms(2) tx_keepsD [OF keeps_denied] by blast
next
  case step_finish then show ?thesis using assms(2) tx_keepsD [OF keeps_finish] by blast
next
  case step_fail then show ?thesis using assms(2) tx_keepsD [OF keeps_fail] by blast
next
  case step_stop then show ?thesis using assms(2) tx_keepsD [OF keeps_stop] by blast
next
  case step_reserve then show ?thesis using assms(2) tx_keepsD [OF keeps_reserve] by blast
next
  case step_release then show ?thesis using assms(2) tx_keepsD [OF keeps_release] by blast
next
  case step_recover then show ?thesis using keeps_recover [OF assms(2)] by (metis fst_conv)
qed

lemma reachable_keeps: "I empty_db \<Longrightarrow> reachable d \<Longrightarrow> I d"
  unfolding reachable_def by (erule rtranclp_induct) (auto intro: store_step_keeps)

end

subsection \<open>The log is contiguous and describes itself\<close>

definition conv_ids :: "db \<Rightarrow> string list" where
  "conv_ids d = map (\<lambda>r. cv_id (cr_conv r)) (db_conversations d)"

definition conv_log :: "string \<Rightarrow> db \<Rightarrow> event_row list" where
  "conv_log cid d = filter (\<lambda>r. er_conv r = cid) (db_events d)"

definition row_ok :: "event_row \<Rightarrow> bool" where
  "row_ok r \<longleftrightarrow> r = event_row_of (er_payload r) (er_created r) \<and> re_created (er_payload r) = Some (er_created r)"

definition log_ok :: "db \<Rightarrow> bool" where
  "log_ok d \<longleftrightarrow>
     distinct (conv_ids d)
     \<and> (\<forall>cr \<in> set (db_conversations d). 1 \<le> cr_next cr
          \<and> map er_cursor (conv_log (cv_id (cr_conv cr)) d) = [1..<cr_next cr])
     \<and> (\<forall>r \<in> set (db_events d). er_conv r \<in> set (conv_ids d) \<and> row_ok r)"

lemma conv_exists_ids: "conv_exists cid d \<longleftrightarrow> cid \<in> set (conv_ids d)"
  by (auto simp: conv_exists_def conv_ids_def)

lemma find_conv_Some:
  "find_conv cid d = Some cr \<Longrightarrow> cr \<in> set (db_conversations d) \<and> cv_id (cr_conv cr) = cid"
  by (auto simp: find_conv_def find_Some_iff)

lemma append_event_Inr:
  assumes "append_event now e d = Inr (d', e')"
  obtains cr t where
    "find_conv (re_conv e) d = Some cr" "t = event_time now e"
    "e' = e\<lparr>re_id := cr_next cr, re_created := Some t\<rparr>"
    "d' = d\<lparr>db_events := db_events d @ [event_row_of e' t],
            db_conversations := change (\<lambda>r. cv_id (cr_conv r) = re_conv e) (\<lambda>r. r\<lparr>cr_next := cr_next cr + 1\<rparr>)
                                 (db_conversations d)\<rparr>"
    "event_message_id e' = [] \<or> event_message_id e' \<notin> er_message_id ` set (conv_log (re_conv e) d)"
proof -
  from assms obtain cr where cr: "find_conv (re_conv e) d = Some cr"
    and ev: "e' = e\<lparr>re_id := cr_next cr, re_created := Some (event_time now e)\<rparr>"
    and rest: "\<exists>d1. insert_event (event_row_of e' (event_time now e)) d = Inr (d1, ())
       \<and> set_next_cursor (re_conv e) (cr_next cr + 1) d1 = Inr (d', ())"
    by (auto simp: append_event_def Let_def)
  have conv: "er_conv (event_row_of e' t) = re_conv e" "er_message_id (event_row_of e' t) = event_message_id e'" for t
    by (simp_all add: ev event_row_of_def)
  from rest have "d' = d\<lparr>db_events := db_events d @ [event_row_of e' (event_time now e)],
            db_conversations := change (\<lambda>r. cv_id (cr_conv r) = re_conv e) (\<lambda>r. r\<lparr>cr_next := cr_next cr + 1\<rparr>)
                                 (db_conversations d)\<rparr>"
    by (auto simp: insert_event_def set_next_cursor_def split: if_splits)
  moreover from rest have
    "event_message_id e' = [] \<or> event_message_id e' \<notin> er_message_id ` set (conv_log (re_conv e) d)"
    by (auto simp: insert_event_def conv conv_log_def split: if_splits)
  ultimately show thesis using that cr ev by blast
qed

lemma conv_ids_change [simp]:
  "conv_ids (d\<lparr>db_conversations := change p (\<lambda>r. r\<lparr>cr_next := n\<rparr>) (db_conversations d)\<rparr>) = conv_ids d"
  "conv_ids (d\<lparr>db_events := es, db_conversations := change p (\<lambda>r. r\<lparr>cr_next := n\<rparr>) (db_conversations d)\<rparr>)
     = conv_ids d"
  by (auto simp: conv_ids_def change_def)

lemma log_ok_append:
  assumes "append_event now e d = Inr (d', e')" and "log_ok d"
  shows "log_ok d'"
proof -
  from assms(1) obtain cr t where cr: "find_conv (re_conv e) d = Some cr"
    and ev: "e' = e\<lparr>re_id := cr_next cr, re_created := Some t\<rparr>"
    and d': "d' = d\<lparr>db_events := db_events d @ [event_row_of e' t],
            db_conversations := change (\<lambda>r. cv_id (cr_conv r) = re_conv e) (\<lambda>r. r\<lparr>cr_next := cr_next cr + 1\<rparr>)
                                 (db_conversations d)\<rparr>"
    by (rule append_event_Inr)
  note mem = find_conv_Some [OF cr]
  have row: "er_conv (event_row_of e' t) = re_conv e" "er_cursor (event_row_of e' t) = cr_next cr"
    "row_ok (event_row_of e' t)"
    by (simp_all add: event_row_of_def ev row_ok_def)
  have log: "conv_log cid d' = conv_log cid d @ (if re_conv e = cid then [event_row_of e' t] else [])" for cid
    by (simp add: conv_log_def d' row)
  have same: "x = cr" if "x \<in> set (db_conversations d)" "cv_id (cr_conv x) = re_conv e" for x
    using assms(2) that mem by (auto simp: log_ok_def conv_ids_def distinct_map inj_on_def)
  have "1 \<le> cr_next y \<and> map er_cursor (conv_log (cv_id (cr_conv y)) d') = [1..<cr_next y]"
    if y: "y \<in> set (db_conversations d')" for y
  proof -
    from y obtain x where x: "x \<in> set (db_conversations d)"
      and yx: "y = (if cv_id (cr_conv x) = re_conv e then x\<lparr>cr_next := cr_next cr + 1\<rparr> else x)"
      by (auto simp: d' change_def)
    from assms(2) x have old: "1 \<le> cr_next x" "map er_cursor (conv_log (cv_id (cr_conv x)) d) = [1..<cr_next x]"
      by (auto simp: log_ok_def)
    show ?thesis
    proof (cases "cv_id (cr_conv x) = re_conv e")
      case True
      with same [OF x] have "x = cr" by simp
      with old True yx show ?thesis by (simp add: log row)
    next
      case False
      with old yx show ?thesis by (simp add: log)
    qed
  qed
  moreover have "conv_ids d' = conv_ids d" by (simp add: d')
  moreover have "re_conv e \<in> set (conv_ids d)"
    using mem by (force simp: conv_ids_def)
  moreover have "set (db_events d') = insert (event_row_of e' t) (set (db_events d))" by (simp add: d')
  ultimately show ?thesis
    using assms(2) row unfolding log_ok_def by simp
qed

lemma log_ok_frame:
  "db_events d' = db_events d \<Longrightarrow> db_conversations d' = db_conversations d \<Longrightarrow> log_ok d' = log_ok d"
  by (simp add: log_ok_def conv_ids_def conv_log_def)

lemma log_ok_insert_conversation:
  assumes "insert_conversation cv d = Inr (d', u)" and "log_ok d"
  shows "log_ok d'"
proof -
  from assms(1) have new: "cv_id cv \<notin> set (conv_ids d)"
    and d': "d' = d\<lparr>db_conversations := db_conversations d @ [\<lparr>cr_conv = cv, cr_next = 1\<rparr>]\<rparr>"
    by (auto simp: insert_conversation_def conv_exists_ids split: if_splits)
  have "conv_log (cv_id cv) d = []"
    using assms(2) new by (auto simp: log_ok_def conv_log_def filter_empty_conv)
  with assms(2) new show ?thesis by (auto simp: log_ok_def d' conv_ids_def conv_log_def)
qed

interpretation log: store_invariant log_ok
proof
  show "tx_keeps log_ok (insert_conversation cv)" for cv
    unfolding tx_keeps_def using log_ok_insert_conversation by blast
  show "tx_keeps log_ok (append_event now e)" for now e
    unfolding tx_keeps_def using log_ok_append by blast
  have subs: "log_ok (d\<lparr>db_submissions := rs\<rparr>) = log_ok d" for d rs
    by (rule log_ok_frame) simp_all
  show "tx_keeps log_ok (insert_submission r)" for r
    by (auto simp: tx_keeps_def insert_submission_def subs split: if_splits)
  have upd: "tx_keeps log_ok (update_submissions p f)" for p f
    by (auto simp: tx_keeps_def update_submissions_def Let_def subs split: if_splits)
  then show "tx_keeps log_ok (update_submissions p f)" for p f .
  show "log_ok d'" if "log_ok d" "update_submissions (\<lambda>x. sr_id x = sr_id r \<and> sr_status x = Queued)
      (\<lambda>x. x\<lparr>sr_status := Running\<rparr>) d = Inr (d', 1)" for d d' r
    using tx_keepsD [OF upd that(2,1)] .
  show "log_ok d \<Longrightarrow> log_ok (d\<lparr>db_runs := x\<rparr>)" for d x
    by (subst log_ok_frame [of _ d]) simp_all
  show "log_ok d \<Longrightarrow> log_ok (d\<lparr>db_tools := x\<rparr>)" for d x
    by (subst log_ok_frame [of _ d]) simp_all
  show "log_ok d \<Longrightarrow> log_ok (d\<lparr>db_reservations := db_reservations d @ [(wid, now)]\<rparr>)" for d wid now
    by (subst log_ok_frame [of _ d]) simp_all
  show "log_ok d \<Longrightarrow> log_ok (d\<lparr>db_reservations := x\<rparr>)" for d x
    by (subst log_ok_frame [of _ d]) simp_all
qed

lemma log_ok_empty: "log_ok empty_db"
  by (simp add: log_ok_def empty_db_def conv_ids_def)

lemma reachable_log_ok: "reachable d \<Longrightarrow> log_ok d"
  by (rule log.reachable_keeps [OF log_ok_empty])

subsection \<open>Running submissions exclude each other\<close>

definition running_subs :: "db \<Rightarrow> sub_row list" where
  "running_subs d = filter (\<lambda>x. sr_status x = Running) (db_submissions d)"

definition exclusive :: "db \<Rightarrow> bool" where
  "exclusive d \<longleftrightarrow>
     (\<forall>x \<in> set (db_submissions d). sr_conv x \<in> set (conv_ids d))
     \<and> distinct (map (\<lambda>x. lock_of d (sr_conv x)) (running_subs d))"

lemma find_conv_conv:
  "map_option cr_conv (find_conv cid d) = List.find (\<lambda>cv. cv_id cv = cid) (map cr_conv (db_conversations d))"
proof -
  have "map_option cr_conv (List.find (\<lambda>r. cv_id (cr_conv r) = cid) rs)
      = List.find (\<lambda>cv. cv_id cv = cid) (map cr_conv rs)" for rs
    by (induction rs) auto
  then show ?thesis by (simp add: find_conv_def)
qed

lemma lock_of_convs:
  "lock_of d cid = map_option cv_workspace_lock (List.find (\<lambda>cv. cv_id cv = cid) (map cr_conv (db_conversations d)))"
  unfolding lock_of_def find_conv_conv [symmetric] by (simp add: option.map_comp comp_def)

lemma exclusive_frame:
  assumes "db_submissions d' = db_submissions d"
    and "map cr_conv (db_conversations d') = map cr_conv (db_conversations d)"
  shows "exclusive d' = exclusive d"
proof -
  have "conv_ids d' = conv_ids d"
    using assms(2) unfolding conv_ids_def by (metis (no_types, lifting) comp_apply map_eq_conv map_map)
  then show ?thesis by (simp add: exclusive_def running_subs_def lock_of_convs assms)
qed

lemma map_conv_change [simp]: "map cr_conv (change p (\<lambda>r. r\<lparr>cr_next := n\<rparr>) rs) = map cr_conv rs"
  by (simp add: change_def)

lemma find_snoc: "\<exists>x \<in> set xs. P x \<Longrightarrow> List.find P (xs @ [y]) = List.find P xs"
  by (induction xs) auto

lemma exclusive_insert_conversation:
  assumes "insert_conversation cv d = Inr (d', u)" and "exclusive d"
  shows "exclusive d'"
proof -
  from assms(1) have new: "cv_id cv \<notin> set (conv_ids d)"
    and d': "d' = d\<lparr>db_conversations := db_conversations d @ [\<lparr>cr_conv = cv, cr_next = 1\<rparr>]\<rparr>"
    by (auto simp: insert_conversation_def conv_exists_ids split: if_splits)
  have keep: "lock_of d' cid = lock_of d cid" if "cid \<in> set (conv_ids d)" for cid
  proof -
    have "\<exists>cv \<in> set (map cr_conv (db_conversations d)). cv_id cv = cid"
      using that by (auto simp: conv_ids_def)
    from find_snoc [OF this] show ?thesis by (simp add: lock_of_convs d')
  qed
  have "map (\<lambda>x. lock_of d' (sr_conv x)) (running_subs d') = map (\<lambda>x. lock_of d (sr_conv x)) (running_subs d)"
    using assms(2) keep by (auto simp: running_subs_def d' exclusive_def)
  with assms(2) show ?thesis by (auto simp: exclusive_def d' conv_ids_def)
qed

lemma exclusive_calm:
  assumes "calm f" and "update_submissions p f d = Inr (d', n)" and "exclusive d"
  shows "exclusive d'"
proof -
  from assms(2) have d': "d' = d\<lparr>db_submissions := change p f (db_submissions d)\<rparr>"
    by (auto simp: update_submissions_def Let_def split: if_splits)
  have "filter (\<lambda>x. sr_status x = Running) (change p f rs)
      = filter (\<lambda>x. \<not> p x) (filter (\<lambda>x. sr_status x = Running) rs)" for rs
    using assms(1) by (induction rs) (auto simp: change_def calm_def)
  then have "running_subs d' = filter (\<lambda>x. \<not> p x) (running_subs d)"
    by (simp add: running_subs_def d')
  moreover have "\<forall>x \<in> set (db_submissions d'). sr_conv x \<in> set (conv_ids d')"
    using assms(1,3) by (auto simp: d' change_def calm_def exclusive_def conv_ids_def)
  ultimately show ?thesis
    using assms(3) by (auto simp: exclusive_def distinct_map_filter lock_of_def d' find_conv_def)
qed

lemma one_selected:
  assumes "length (filter p rs) = 1" and "r \<in> set rs" and "p r"
  obtains xs ys where "rs = xs @ r # ys" "\<forall>x \<in> set xs \<union> set ys. \<not> p x"
proof -
  obtain xs ys where rs: "rs = xs @ r # ys" using assms(2) by (meson split_list)
  with assms(1,3) have "filter p xs = []" "filter p ys = []" by simp_all
  then have "\<forall>x \<in> set xs \<union> set ys. \<not> p x" unfolding filter_empty_conv by blast
  with rs that show thesis by blast
qed

lemma change_member: "x \<in> set (change p f rs) \<Longrightarrow> \<exists>z \<in> set rs. x = (if p z then f z else z)"
  by (auto simp: change_def)

lemma change_none: "\<forall>x \<in> set rs. \<not> p x \<Longrightarrow> change p f rs = rs"
  by (simp add: change_def map_idI)

lemma exclusive_claim:
  assumes "exclusive d" and "r \<in> set (db_submissions d)" and run: "runnable_row d r"
    and upd: "update_submissions (\<lambda>x. sr_id x = sr_id r \<and> sr_status x = Queued)
                (\<lambda>x. x\<lparr>sr_status := Running\<rparr>) d = Inr (d', 1)"
  shows "exclusive d'"
proof -
  let ?p = "\<lambda>x. sr_id x = sr_id r \<and> sr_status x = Queued"
  let ?f = "\<lambda>x. x\<lparr>sr_status := Running\<rparr>"
  from upd have d': "d' = d\<lparr>db_submissions := change ?p ?f (db_submissions d)\<rparr>"
    and one: "length (filter ?p (db_submissions d)) = 1"
    by (auto simp: update_submissions_def Let_def split: if_splits)
  have queued: "?p r" using run by (simp add: runnable_row_def)
  obtain xs ys where rows: "db_submissions d = xs @ r # ys" and others: "\<forall>x \<in> set xs \<union> set ys. \<not> ?p x"
    by (rule one_selected [OF one assms(2) queued])
  have "change ?p ?f xs = xs" "change ?p ?f ys = ys"
    using others by (auto intro!: change_none)
  then have rows': "db_submissions d' = xs @ ?f r # ys"
    using queued by (simp add: d' rows) (simp add: change_def)
  have lock: "lock_of d' cid = lock_of d cid" for cid by (simp add: d' lock_of_def find_conv_def)
  obtain cr where cr: "find_conv (sr_conv r) d = Some cr" and free: "\<not> lock_busy (cv_workspace_lock (cr_conv cr)) d"
    using run by (auto simp: runnable_row_def split: option.splits)
  have "lock_of d (sr_conv r) = Some (cv_workspace_lock (cr_conv cr))" using cr by (simp add: lock_of_def)
  with free have "lock_of d (sr_conv x) \<noteq> lock_of d (sr_conv r)" if "x \<in> set (running_subs d)" for x
    using that by (auto simp: lock_busy_def running_subs_def)
  then have apart: "lock_of d (sr_conv r) \<notin> set (map (\<lambda>x. lock_of d (sr_conv x)) (running_subs d))" by force
  have old: "running_subs d = filter (\<lambda>x. sr_status x = Running) xs @ filter (\<lambda>x. sr_status x = Running) ys"
    using queued by (simp add: running_subs_def rows)
  have new: "running_subs d' = filter (\<lambda>x. sr_status x = Running) xs @ ?f r # filter (\<lambda>x. sr_status x = Running) ys"
    by (simp add: running_subs_def rows')
  have "distinct (map (\<lambda>x. lock_of d' (sr_conv x)) (running_subs d'))"
    using assms(1) apart by (auto simp: lock exclusive_def old new)
  moreover have "conv_ids d' = conv_ids d" by (simp add: d' conv_ids_def)
  moreover have "\<forall>x \<in> set (db_submissions d'). sr_conv x \<in> set (conv_ids d)"
    using assms(1) by (auto simp: exclusive_def rows rows')
  ultimately show ?thesis by (simp add: exclusive_def)
qed

lemma append_event_frame:
  assumes "append_event now e d = Inr (d', e')"
  shows "db_submissions d' = db_submissions d" "db_runs d' = db_runs d" "db_tools d' = db_tools d"
    "db_reservations d' = db_reservations d"
    "map cr_conv (db_conversations d') = map cr_conv (db_conversations d)"
    "e' = e\<lparr>re_id := re_id e', re_created := Some (event_time now e)\<rparr>"
    "db_events d' = db_events d @ [event_row_of e' (event_time now e)]"
  using assms by (auto elim!: append_event_Inr)

interpretation excl: store_invariant exclusive
proof
  show "tx_keeps exclusive (insert_conversation cv)" for cv
    unfolding tx_keeps_def using exclusive_insert_conversation by blast
  show "tx_keeps exclusive (append_event now e)" for now e
    using exclusive_frame [OF append_event_frame(1,5)] by (auto simp: tx_keeps_def)
  show "tx_keeps exclusive (insert_submission r)" if "sr_status r = Queued" for r
    unfolding tx_keeps_def
  proof (intro allI impI)
    fix d d' u assume ex: "exclusive d" and "insert_submission r d = Inr (d', u)"
    then have d': "d' = d\<lparr>db_submissions := db_submissions d @ [r]\<rparr>" and "sr_conv r \<in> set (conv_ids d)"
      by (auto simp: insert_submission_def conv_exists_ids split: if_splits)
    with ex that show "exclusive d'"
      by (simp add: exclusive_def running_subs_def lock_of_def find_conv_def conv_ids_def)
  qed
  show "tx_keeps exclusive (update_submissions p f)" if "calm f" for p f
    unfolding tx_keeps_def using exclusive_calm [OF that] by blast
  show "exclusive d'" if "exclusive d" "r \<in> set (db_submissions d)" "runnable_row d r"
    "update_submissions (\<lambda>x. sr_id x = sr_id r \<and> sr_status x = Queued) (\<lambda>x. x\<lparr>sr_status := Running\<rparr>) d
       = Inr (d', 1)" for d r d'
    using that by (rule exclusive_claim)
  show "exclusive d \<Longrightarrow> exclusive (d\<lparr>db_runs := x\<rparr>)" for d x
    by (subst exclusive_frame [of _ d]) simp_all
  show "exclusive d \<Longrightarrow> exclusive (d\<lparr>db_tools := x\<rparr>)" for d x
    by (subst exclusive_frame [of _ d]) simp_all
  show "exclusive d \<Longrightarrow> exclusive (d\<lparr>db_reservations := db_reservations d @ [(wid, now)]\<rparr>)" for d wid now
    by (subst exclusive_frame [of _ d]) simp_all
  show "exclusive d \<Longrightarrow> exclusive (d\<lparr>db_reservations := x\<rparr>)" for d x
    by (subst exclusive_frame [of _ d]) simp_all
qed

lemma exclusive_empty: "exclusive empty_db"
  by (simp add: exclusive_def empty_db_def running_subs_def)

lemma reachable_exclusive: "reachable d \<Longrightarrow> exclusive d"
  by (rule excl.reachable_keeps [OF exclusive_empty])

subsection \<open>The log only grows\<close>

text \<open>With the initial log as a parameter, having that log as a prefix is itself an invariant.\<close>

interpretation grows: store_invariant "\<lambda>d. prefix es (db_events d)" for es
proof
  have same: "tx_keeps (\<lambda>d. prefix es (db_events d)) m" if "\<And>d d' a. m d = Inr (d', a) \<Longrightarrow> db_events d' = db_events d"
    for m :: "'a tx"
    using that by (auto simp: tx_keeps_def)
  show "tx_keeps (\<lambda>d. prefix es (db_events d)) (insert_conversation cv)" for cv
    by (rule same) (auto simp: insert_conversation_def split: if_splits)
  show "tx_keeps (\<lambda>d. prefix es (db_events d)) (append_event now e)" for now e
    unfolding tx_keeps_def by (metis append_event_frame(7) prefix_append)
  show "tx_keeps (\<lambda>d. prefix es (db_events d)) (insert_submission r)" for r
    by (rule same) (auto simp: insert_submission_def split: if_splits)
  have upd: "tx_keeps (\<lambda>d. prefix es (db_events d)) (update_submissions p f)" for p f
    by (rule same) (auto simp: update_submissions_def Let_def split: if_splits)
  then show "tx_keeps (\<lambda>d. prefix es (db_events d)) (update_submissions p f)" for p f .
  show "prefix es (db_events d')" if "prefix es (db_events d)"
    "update_submissions (\<lambda>x. sr_id x = sr_id r \<and> sr_status x = Queued) (\<lambda>x. x\<lparr>sr_status := Running\<rparr>) d
       = Inr (d', 1)" for d r d'
    using tx_keepsD [OF upd that(2)] that(1) by blast
qed simp_all

lemma log_grows: "store_step d d' \<Longrightarrow> prefix (db_events d) (db_events d')"
  using grows.store_step_keeps [of d d' "db_events d"] by simp

subsection \<open>An accepted key stays accepted\<close>

definition accepted_as :: "string \<Rightarrow> string \<Rightarrow> string \<Rightarrow> db \<Rightarrow> bool" where
  "accepted_as cid key i d \<longleftrightarrow> map_option sr_id (find_key cid key d) = Some i"

lemma accepted_as_frame: "db_submissions d' = db_submissions d \<Longrightarrow> accepted_as cid key i d' = accepted_as cid key i d"
  by (simp add: accepted_as_def find_key_def)

lemma find_append: "List.find P (xs @ ys) = (case List.find P xs of Some x \<Rightarrow> Some x | None \<Rightarrow> List.find P ys)"
  by (induction xs) auto

lemma find_key_change:
  assumes "\<And>x. sr_id (f x) = sr_id x \<and> sr_conv (f x) = sr_conv x \<and> sr_key (f x) = sr_key x"
  shows "map_option sr_id (List.find (\<lambda>r. sr_conv r = cid \<and> sr_key r = key) (change p f rs))
       = map_option sr_id (List.find (\<lambda>r. sr_conv r = cid \<and> sr_key r = key) rs)"
  using assms by (induction rs) (auto simp: change_def)

interpretation once: store_invariant "accepted_as cid key i" for cid key i
proof
  have same: "tx_keeps (accepted_as cid key i) m" if "\<And>d d' a. m d = Inr (d', a) \<Longrightarrow> db_submissions d' = db_submissions d"
    for m :: "'a tx"
    unfolding tx_keeps_def using that accepted_as_frame by blast
  show "tx_keeps (accepted_as cid key i) (insert_conversation cv)" for cv
    by (rule same) (auto simp: insert_conversation_def split: if_splits)
  show "tx_keeps (accepted_as cid key i) (append_event now e)" for now e
    by (rule same) (rule append_event_frame(1))
  show "tx_keeps (accepted_as cid key i) (insert_submission r)" for r
    by (auto simp: tx_keeps_def insert_submission_def accepted_as_def find_key_def find_append split: if_splits)
  have upd: "tx_keeps (accepted_as cid key i) (update_submissions p f)"
    if "\<And>x. sr_id (f x) = sr_id x \<and> sr_conv (f x) = sr_conv x \<and> sr_key (f x) = sr_key x" for p f
  proof -
    have "accepted_as cid key i (d\<lparr>db_submissions := change p f (db_submissions d)\<rparr>) = accepted_as cid key i d" for d
      using find_key_change [OF that, of cid key p "db_submissions d"] by (simp add: accepted_as_def find_key_def)
    then show ?thesis by (auto simp: tx_keeps_def update_submissions_def Let_def split: if_splits)
  qed
  show "tx_keeps (accepted_as cid key i) (update_submissions p f)" if "calm f" for p f
    by (rule upd) (use that in \<open>simp add: calm_def\<close>)
  show "accepted_as cid key i d'" if "accepted_as cid key i d"
    "update_submissions (\<lambda>x. sr_id x = sr_id r \<and> sr_status x = Queued) (\<lambda>x. x\<lparr>sr_status := Running\<rparr>) d
       = Inr (d', 1)" for d r d'
    using tx_keepsD [OF upd that(2,1)] by simp
qed (simp_all add: accepted_as_def find_key_def)

lemma accepted_stays: "store_step\<^sup>*\<^sup>* d d' \<Longrightarrow> accepted_as cid key i d \<Longrightarrow> accepted_as cid key i d'"
  by (induction rule: rtranclp_induct) (auto intro: once.store_step_keeps)

end
