(* ===== verification/Store_Live.thy ===== *)
theory Store_Live
  imports Store_Inv
begin

section \<open>The store under its manager: coherent tables\<close>

text \<open>
  The manager calls the run operations only with a run that it claimed and that still runs,
  and every identifier it draws is non-empty. Under this discipline the tables stay
  coherent: rows are identified by their keys, a run belongs to its submission, a running
  run to a running submission, and a tool call to a run of its conversation.
\<close>

subsection \<open>Steps of a manager\<close>

definition live_run :: "db \<Rightarrow> rt_run \<Rightarrow> bool" where
  "live_run d r \<longleftrightarrow> (\<exists>x \<in> set (db_runs d). rr_status x = Running \<and> r = run_of_row x)"

inductive live_step :: "db \<Rightarrow> db \<Rightarrow> bool" where
  live_create: "create_conversation cv d = Inr (d', u) \<Longrightarrow> live_step d d'"
| live_progress: "append_environment_progress now r p d = Inr (d', e) \<Longrightarrow> live_step d d'"
| live_agent: "append_agent_event now r ev d = Inr (d', u) \<Longrightarrow> live_step d d'"
| live_accept: "i \<noteq> [] \<Longrightarrow> accept now i cid inp d = Inr (d', a) \<Longrightarrow> live_step d d'"
| live_claim: "rid \<noteq> [] \<Longrightarrow> claim_runnable now rid d = Inr (d', c) \<Longrightarrow> live_step d d'"
| live_commit: "live_run d r \<Longrightarrow> oid \<noteq> [] \<Longrightarrow> commit_assistant_turn now oid r parts d = Inr (d', evs) \<Longrightarrow> live_step d d'"
| live_completed: "live_run d r \<Longrightarrow> oid \<noteq> [] \<Longrightarrow> tool_completed now oid r res d = Inr (d', evs) \<Longrightarrow> live_step d d'"
| live_denied: "live_run d r \<Longrightarrow> oid \<noteq> [] \<Longrightarrow> tool_denied now oid r res d = Inr (d', evs) \<Longrightarrow> live_step d d'"
| live_finish: "live_run d r \<Longrightarrow> oid \<noteq> [] \<Longrightarrow> store_finish_run now oid r answer d = Inr (d', evs) \<Longrightarrow> live_step d d'"
| live_fail: "live_run d r \<Longrightarrow> \<forall>k. ids k \<noteq> [] \<Longrightarrow> store_fail_run now ids r msg d = Inr (d', evs) \<Longrightarrow> live_step d d'"
| live_stop: "live_run d r \<Longrightarrow> \<forall>k. ids k \<noteq> [] \<Longrightarrow> store_stop_run now ids r d = Inr (d', evs) \<Longrightarrow> live_step d d'"
| live_reserve: "reserve_workspace now wid d = Inr (d', u) \<Longrightarrow> live_step d d'"
| live_release: "release_workspace wid d = Inr (d', u) \<Longrightarrow> live_step d d'"
| live_recover: "\<forall>j k. idss j k \<noteq> [] \<Longrightarrow> recover_running now idss d = (d', err) \<Longrightarrow> live_step d d'"

definition live_reachable :: "db \<Rightarrow> bool" where
  "live_reachable d \<longleftrightarrow> live_step\<^sup>*\<^sup>* empty_db d"

lemma live_step_store_step: "live_step d d' \<Longrightarrow> store_step d d'"
  by (induction rule: live_step.induct) (auto intro: store_step.intros)

lemma live_reachable_reachable: "live_reachable d \<Longrightarrow> reachable d"
  unfolding live_reachable_def reachable_def
  by (erule rtranclp_mono [THEN predicate2D, rotated]) (auto intro: live_step_store_step)

subsection \<open>Coherent tables\<close>

definition subs_ok :: "db \<Rightarrow> bool" where
  "subs_ok d \<longleftrightarrow>
     distinct (map sr_id (db_submissions d))
     \<and> (\<forall>s \<in> set (db_submissions d). sr_id s \<noteq> [] \<and> sr_message_id s = sr_id s
          \<and> (sr_status s \<in> {Queued, Running} \<longrightarrow> sr_err s = []))"

definition run_sub :: "run_row \<Rightarrow> sub_row \<Rightarrow> bool" where
  "run_sub x s \<longleftrightarrow> sr_id s = rr_inbound x \<and> sr_conv s = rr_conv x \<and> sr_revision s = rr_revision x
     \<and> (rr_status x = Running \<longrightarrow> sr_status s = Running)"

definition runs_ok :: "db \<Rightarrow> bool" where
  "runs_ok d \<longleftrightarrow>
     distinct (map rr_id (db_runs d))
     \<and> distinct (map rr_inbound (filter (\<lambda>x. rr_status x = Running) (db_runs d)))
     \<and> (\<forall>x \<in> set (db_runs d). rr_id x \<noteq> [] \<and> rr_sub x = rr_inbound x
          \<and> (rr_status x = Running \<longrightarrow> rr_err x = [] \<and> rr_completed x = None)
          \<and> (\<exists>s \<in> set (db_submissions d). run_sub x s))"

definition tools_ok :: "db \<Rightarrow> bool" where
  "tools_ok d \<longleftrightarrow>
     distinct (map (\<lambda>t. (tr_run t, tr_id t)) (db_tools d))
     \<and> (\<forall>t \<in> set (db_tools d). tr_id t \<noteq> [] \<and> tr_kind_name t \<noteq> []
          \<and> (\<exists>x \<in> set (db_runs d). rr_id x = tr_run t \<and> rr_conv x = tr_conv t))"

definition coherent :: "db \<Rightarrow> bool" where
  "coherent d \<longleftrightarrow> subs_ok d \<and> runs_ok d \<and> tools_ok d"

lemma coherent_empty: "coherent empty_db"
  by (simp add: coherent_def subs_ok_def runs_ok_def tools_ok_def empty_db_def)

lemma coherent_frame:
  assumes "db_submissions d' = db_submissions d" "db_runs d' = db_runs d" "db_tools d' = db_tools d"
  shows "coherent d' = coherent d"
  using assms by (simp add: coherent_def subs_ok_def runs_ok_def tools_ok_def)

lemma coherent_append: "append_event now e d = Inr (d', e') \<Longrightarrow> coherent d' = coherent d"
  by (intro coherent_frame append_event_frame)

text \<open>A key identifies its row.\<close>

lemma keyed: "distinct (map k xs) \<Longrightarrow> x \<in> set xs \<Longrightarrow> y \<in> set xs \<Longrightarrow> k x = k y \<Longrightarrow> x = y"
  by (auto simp: distinct_map inj_on_def)

lemma sub_keyed: "coherent d \<Longrightarrow> x \<in> set (db_submissions d) \<Longrightarrow> y \<in> set (db_submissions d) \<Longrightarrow> sr_id x = sr_id y \<Longrightarrow> x = y"
  unfolding coherent_def subs_ok_def by (meson keyed)

lemma run_keyed: "coherent d \<Longrightarrow> x \<in> set (db_runs d) \<Longrightarrow> y \<in> set (db_runs d) \<Longrightarrow> rr_id x = rr_id y \<Longrightarrow> x = y"
  unfolding coherent_def runs_ok_def by (meson keyed)

lemma tool_keyed:
  "coherent d \<Longrightarrow> x \<in> set (db_tools d) \<Longrightarrow> y \<in> set (db_tools d) \<Longrightarrow> tr_run x = tr_run y \<Longrightarrow> tr_id x = tr_id y \<Longrightarrow> x = y"
  unfolding coherent_def tools_ok_def by (blast dest: keyed [where k = "\<lambda>t. (tr_run t, tr_id t)"])

lemma changed_member: "z \<in> set rs \<Longrightarrow> (if p z then f z else z) \<in> set (change p f rs)"
  unfolding change_def set_map by (rule imageI)

lemma run_facts:
  assumes "coherent d" and "x \<in> set (db_runs d)"
  obtains s where "s \<in> set (db_submissions d)" "run_sub x s" "rr_id x \<noteq> []" "rr_sub x = rr_inbound x"
    "rr_status x = Running \<longrightarrow> rr_err x = [] \<and> rr_completed x = None"
proof -
  have "rr_id x \<noteq> []" "rr_sub x = rr_inbound x" "rr_status x = Running \<longrightarrow> rr_err x = [] \<and> rr_completed x = None"
    and "\<exists>s \<in> set (db_submissions d). run_sub x s"
    using assms unfolding coherent_def runs_ok_def by blast+
  with that show thesis by blast
qed

text \<open>What a live run is.\<close>

lemma live_run_facts:
  assumes "coherent d" and "live_run d r"
  obtains x s where "x \<in> set (db_runs d)" "rr_status x = Running" "r = run_of_row x"
    "s \<in> set (db_submissions d)" "sr_id s = run_inbound r" "sr_conv s = run_conv r"
    "sr_revision s = run_revision r" "sr_status s = Running" "sr_err s = []"
    "rr_err x = []" "rr_completed x = None" "rr_sub x = rr_inbound x" "run_id r \<noteq> []" "run_inbound r \<noteq> []"
proof -
  obtain x where x: "x \<in> set (db_runs d)" "rr_status x = Running" "r = run_of_row x"
    using assms(2) by (auto simp: live_run_def)
  then obtain s where s: "s \<in> set (db_submissions d)" "run_sub x s"
    and x': "rr_id x \<noteq> []" "rr_sub x = rr_inbound x" "rr_err x = []" "rr_completed x = None"
    by (auto elim: run_facts [OF assms(1)])
  then have "sr_id s \<noteq> []" "sr_status s \<in> {Queued, Running} \<longrightarrow> sr_err s = []"
    using assms(1) unfolding coherent_def subs_ok_def by blast+
  with that x x' s show thesis by (auto simp: run_sub_def run_of_row_def)
qed

subsection \<open>The transitions of the tables\<close>

lemma coherent_queue:
  assumes "coherent d" and "insert_submission r d = Inr (d', u)"
    and "sr_status r = Queued" "sr_err r = []" "sr_id r \<noteq> []" "sr_message_id r = sr_id r"
  shows "coherent d'"
proof -
  have d': "d' = d\<lparr>db_submissions := db_submissions d @ [r]\<rparr>" and "sr_id r \<notin> sr_id ` set (db_submissions d)"
    using assms(2) by (auto simp: insert_submission_def split: if_splits)
  with assms have "subs_ok d'" by (auto simp: coherent_def subs_ok_def)
  moreover have "runs_ok d'" "tools_ok d'"
    using assms(1) by (auto simp: coherent_def runs_ok_def tools_ok_def d')
  ultimately show ?thesis by (simp add: coherent_def)
qed

text \<open>A queued submission starts running with a new run.\<close>

definition started_tables :: "sub_row \<Rightarrow> run_row \<Rightarrow> db \<Rightarrow> db \<Rightarrow> bool" where
  "started_tables r x d d' \<longleftrightarrow>
     db_submissions d' = change (\<lambda>s. sr_id s = sr_id r \<and> sr_status s = Queued) (\<lambda>s. s\<lparr>sr_status := Running\<rparr>) (db_submissions d)
     \<and> db_runs d' = db_runs d @ [x] \<and> db_tools d' = db_tools d"

lemma coherent_start:
  assumes "coherent d" and r: "r \<in> set (db_submissions d)" "sr_status r = Queued"
    and x: "rr_id x \<notin> rr_id ` set (db_runs d)" "rr_id x \<noteq> []" "rr_sub x = sr_id r" "rr_inbound x = sr_id r"
      "rr_conv x = sr_conv r" "rr_revision x = sr_revision r" "rr_err x = []" "rr_completed x = None"
      "rr_status x = Running"
    and st: "started_tables r x d d'"
  shows "coherent d'"
proof -
  let ?p = "\<lambda>s. sr_id s = sr_id r \<and> sr_status s = Queued"
  let ?f = "\<lambda>s. s\<lparr>sr_status := Running\<rparr>"
  have subs: "db_submissions d' = change ?p ?f (db_submissions d)"
    and runs: "db_runs d' = db_runs d @ [x]" and tools: "db_tools d' = db_tools d"
    using st by (simp_all add: started_tables_def)
  have ids: "map sr_id (change ?p ?f rs) = map sr_id rs" for rs by (simp add: change_def)
  have "subs_ok d'"
    unfolding subs_ok_def subs ids
  proof
    show "distinct (map sr_id (db_submissions d))" using assms(1) by (simp add: coherent_def subs_ok_def)
    show "\<forall>s \<in> set (change ?p ?f (db_submissions d)). sr_id s \<noteq> [] \<and> sr_message_id s = sr_id s
          \<and> (sr_status s \<in> {Queued, Running} \<longrightarrow> sr_err s = [])"
      using assms(1) unfolding coherent_def subs_ok_def by (auto simp: change_def)
  qed
  moreover have "runs_ok d'"
  proof -
    have fresh: "sr_id r \<notin> rr_inbound ` {y \<in> set (db_runs d). rr_status y = Running}"
    proof
      assume "sr_id r \<in> rr_inbound ` {y \<in> set (db_runs d). rr_status y = Running}"
      then obtain y where y: "y \<in> set (db_runs d)" "rr_status y = Running" "rr_inbound y = sr_id r" by force
      obtain s where s: "s \<in> set (db_submissions d)" "run_sub y s" by (rule run_facts [OF assms(1) y(1)])
      with y have "s = r" using sub_keyed [OF assms(1) s(1) r(1)] by (simp add: run_sub_def)
      with s r y show False by (simp add: run_sub_def)
    qed
    have old: "\<exists>s \<in> set (db_submissions d'). run_sub y s" if mem: "y \<in> set (db_runs d)" for y
    proof -
      obtain s where s: "s \<in> set (db_submissions d)" "run_sub y s" by (rule run_facts [OF assms(1) mem])
      have "(if ?p s then ?f s else s) \<in> set (db_submissions d')"
        unfolding subs by (rule changed_member [OF s(1)])
      moreover have "run_sub y (if ?p s then ?f s else s)" using s(2) by (auto simp: run_sub_def)
      ultimately show ?thesis by blast
    qed
    have "?f r \<in> set (db_submissions d')" using r by (force simp: subs change_def)
    moreover have "run_sub x (?f r)" using x by (simp add: run_sub_def)
    ultimately have new: "\<exists>s \<in> set (db_submissions d'). run_sub x s" by blast
    have ok: "runs_ok d" using assms(1) by (simp add: coherent_def)
    have "distinct (map rr_id (db_runs d'))" using ok x(1) by (simp add: runs_ok_def runs)
    moreover have "distinct (map rr_inbound (filter (\<lambda>y. rr_status y = Running) (db_runs d')))"
      using ok fresh x by (simp add: runs_ok_def runs)
    moreover have "rr_id y \<noteq> [] \<and> rr_sub y = rr_inbound y
        \<and> (rr_status y = Running \<longrightarrow> rr_err y = [] \<and> rr_completed y = None)
        \<and> (\<exists>s \<in> set (db_submissions d'). run_sub y s)" if "y \<in> set (db_runs d')" for y
    proof (cases "y = x")
      case True
      with x new show ?thesis by simp
    next
      case False
      with that have "y \<in> set (db_runs d)" by (simp add: runs)
      with ok old show ?thesis unfolding runs_ok_def by blast
    qed
    ultimately show ?thesis unfolding runs_ok_def by blast
  qed
  moreover have "tools_ok d'"
    using assms(1) unfolding coherent_def tools_ok_def runs tools by auto
  ultimately show ?thesis by (simp add: coherent_def)
qed

text \<open>A live run records requested tool calls.\<close>

lemma coherent_tool:
  assumes "coherent d" and "live_run d r" and "insert_tool (requested_row now (run_conv r) (run_id r) inb p) d = Inr (d', u)"
    and "mp_call_id p \<noteq> []" "mp_kind p \<noteq> []"
  shows "coherent d'" and "live_run d' r"
proof -
  let ?t = "requested_row now (run_conv r) (run_id r) inb p"
  have d': "d' = d\<lparr>db_tools := db_tools d @ [?t]\<rparr>"
    and new: "\<not> (\<exists>x \<in> set (db_tools d). tr_run x = tr_run ?t \<and> tr_id x = tr_id ?t)"
    using assms(3) by (auto simp: insert_tool_def split: if_splits)
  obtain x where x: "x \<in> set (db_runs d)" "rr_id x = run_id r" "rr_conv x = run_conv r"
    using assms(2) by (auto simp: live_run_def run_of_row_def)
  have "tools_ok d'"
    using assms(1,4,5) x new unfolding coherent_def tools_ok_def by (auto simp: d' requested_row_def)
  moreover have "subs_ok d'" "runs_ok d'"
    using assms(1) by (simp_all add: coherent_def subs_ok_def runs_ok_def d')
  ultimately show "coherent d'" by (simp add: coherent_def)
  show "live_run d' r" using assms(2) by (simp add: live_run_def d')
qed

lemma coherent_tool_status:
  assumes "coherent d" and "db_submissions d' = db_submissions d" "db_runs d' = db_runs d"
    and "db_tools d' = change p (\<lambda>t. t\<lparr>tr_status := st, tr_updated := now\<rparr>) (db_tools d)"
  shows "coherent d'"
proof -
  have "map (\<lambda>t. (tr_run t, tr_id t)) (db_tools d') = map (\<lambda>t. (tr_run t, tr_id t)) (db_tools d)"
    by (simp add: assms(4) change_def)
  moreover have "\<forall>t \<in> set (db_tools d'). \<exists>u \<in> set (db_tools d).
      tr_id t = tr_id u \<and> tr_kind_name t = tr_kind_name u \<and> tr_run t = tr_run u \<and> tr_conv t = tr_conv u"
    by (auto simp: assms(4) change_def)
  ultimately have "tools_ok d'"
    using assms(1) unfolding coherent_def tools_ok_def assms(3) by (metis (no_types, lifting))
  then show ?thesis using assms(1-3) by (simp add: coherent_def subs_ok_def runs_ok_def)
qed

text \<open>A live run ends: its submission and its run get a terminal status.\<close>

lemma coherent_finish:
  assumes "coherent d" and "live_run d r" and "st \<notin> {Queued, Running}"
    and f: "\<And>s. sr_id (f s) = sr_id s \<and> sr_message_id (f s) = sr_message_id s \<and> sr_conv (f s) = sr_conv s
              \<and> sr_revision (f s) = sr_revision s \<and> sr_status (f s) = st"
    and g: "\<And>x. rr_id (g x) = rr_id x \<and> rr_sub (g x) = rr_sub x \<and> rr_inbound (g x) = rr_inbound x
              \<and> rr_conv (g x) = rr_conv x \<and> rr_revision (g x) = rr_revision x \<and> rr_status (g x) = st"
    and subs: "db_submissions d' = change (\<lambda>s. sr_id s = run_inbound r) f (db_submissions d)"
    and runs: "db_runs d' = change (\<lambda>x. rr_id x = run_id r) g (db_runs d)"
    and tools: "db_tools d' = db_tools d"
  shows "coherent d'"
proof -
  let ?p = "\<lambda>s. sr_id s = run_inbound r"
  let ?q = "\<lambda>x. rr_id x = run_id r"
  obtain z where z: "z \<in> set (db_runs d)" "rr_status z = Running" "r = run_of_row z"
    using assms(2) by (auto simp: live_run_def)
  have okr: "runs_ok d" and oks: "subs_ok d" and okt: "tools_ok d" using assms(1) by (simp_all add: coherent_def)
  have "map sr_id (db_submissions d') = map sr_id (db_submissions d)" using f by (simp add: subs change_def)
  moreover have "sr_id s \<noteq> [] \<and> sr_message_id s = sr_id s \<and> (sr_status s \<in> {Queued, Running} \<longrightarrow> sr_err s = [])"
    if mem: "s \<in> set (db_submissions d')" for s
  proof -
    obtain s0 where s0: "s0 \<in> set (db_submissions d)" "s = (if ?p s0 then f s0 else s0)"
      using change_member [OF mem [unfolded subs]] by blast
    then have "sr_id s0 \<noteq> [] \<and> sr_message_id s0 = sr_id s0 \<and> (sr_status s0 \<in> {Queued, Running} \<longrightarrow> sr_err s0 = [])"
      using oks unfolding subs_ok_def by blast
    with s0(2) f [of s0] assms(3) show ?thesis by (simp split: if_splits)
  qed
  ultimately have "subs_ok d'" using oks unfolding subs_ok_def by simp
  moreover have "runs_ok d'"
  proof -
    have ids: "map rr_id (db_runs d') = map rr_id (db_runs d)" using g by (simp add: runs change_def)
    have "filter (\<lambda>x. rr_status x = Running) (change ?q g xs)
        = filter (\<lambda>x. \<not> ?q x) (filter (\<lambda>x. rr_status x = Running) xs)" for xs
      using g assms(3) by (induction xs) (auto simp: change_def)
    then have "distinct (map rr_inbound (filter (\<lambda>x. rr_status x = Running) (db_runs d')))"
      using okr unfolding runs_ok_def runs by (metis distinct_map_filter)
    moreover have "rr_id y \<noteq> [] \<and> rr_sub y = rr_inbound y
        \<and> (rr_status y = Running \<longrightarrow> rr_err y = [] \<and> rr_completed y = None)
        \<and> (\<exists>s \<in> set (db_submissions d'). run_sub y s)" if mem: "y \<in> set (db_runs d')" for y
    proof -
      obtain x where x: "x \<in> set (db_runs d)" "y = (if ?q x then g x else x)"
        using change_member [OF mem [unfolded runs]] by blast
      obtain s where s: "s \<in> set (db_submissions d)" "run_sub x s"
        and fx: "rr_id x \<noteq> []" "rr_sub x = rr_inbound x" "rr_status x = Running \<longrightarrow> rr_err x = [] \<and> rr_completed x = None"
        by (rule run_facts [OF assms(1) x(1)])
      let ?s = "if ?p s then f s else s"
      have smem: "?s \<in> set (db_submissions d')" unfolding subs by (rule changed_member [OF s(1)])
      have "run_sub y ?s"
      proof (cases "?q x")
        case True
        then have "x = z" using run_keyed [OF assms(1) x(1) z(1)] z(3) by (simp add: run_of_row_def)
        with s(2) z(3) have "?p s" by (simp add: run_sub_def run_of_row_def)
        with True x(2) s(2) f [of s] g [of x] assms(3) show ?thesis by (simp add: run_sub_def)
      next
        case False
        show ?thesis
        proof (cases "?p s")
          case True
          have "rr_status x \<noteq> Running"
          proof
            assume "rr_status x = Running"
            moreover have "rr_inbound x = rr_inbound z" using True s(2) z(3) by (simp add: run_sub_def run_of_row_def)
            ultimately have "x = z"
              using okr x(1) z(1,2) unfolding runs_ok_def
              by (auto intro: keyed [where k = rr_inbound and xs = "filter (\<lambda>x. rr_status x = Running) (db_runs d)"])
            with False z(3) show False by (simp add: run_of_row_def)
          qed
          with True False x(2) s(2) f [of s] show ?thesis by (simp add: run_sub_def)
        next
          case False
          with \<open>\<not> ?q x\<close> x(2) s(2) show ?thesis by simp
        qed
      qed
      with smem have ex: "\<exists>s \<in> set (db_submissions d'). run_sub y s" by blast
      show ?thesis using x(2) fx g [of x] assms(3) ex by (auto split: if_splits)
    qed
    ultimately show ?thesis using okr ids unfolding runs_ok_def by simp
  qed
  moreover have "tools_ok d'"
  proof -
    have "\<exists>y \<in> set (db_runs d'). rr_id y = rr_id x \<and> rr_conv y = rr_conv x" if "x \<in> set (db_runs d)" for x
    proof -
      have "(if ?q x then g x else x) \<in> set (db_runs d')" unfolding runs by (rule changed_member [OF that])
      with g [of x] show ?thesis by (metis (full_types))
    qed
    with okt show ?thesis unfolding tools_ok_def tools by metis
  qed
  ultimately show ?thesis by (simp add: coherent_def)
qed

end
