(* ===== verification/Manager.thy ===== *)
theory Manager
  imports Agent Projection Store_Live
begin

section \<open>The manager (runtime/manager.go, scheduler.go, subscriptions.go, workspaces.go)\<close>

text \<open>
  The manager holds the store, the slots, the runs that execute in this process and, per
  conversation, the live subscribers. Every operation runs under the locks that make it
  one step: an operation on a conversation and its broadcast under that conversation's
  mutex, a claim with its registration and broadcast under the publication lock. The
  runner, the restorer, the preparation of options, the resolution of agent revisions and
  the fingerprint of a definition are parameters.
\<close>

subsection \<open>State\<close>

datatype manager_error =
    Closed
  | NoActiveRun
  | InvalidConversation string
  | InvalidEnvironment string
  | ManagerError string
  | WorkspaceNotFound
  | RestoreUnsupported
  | FromStore store_error

text \<open>
  A subscriber's channel: all events sent to it so far, how many the client has received,
  the buffer size, and the cursor up to which it was served. \<open>su_start\<close>, the cursor it asked
  for, and the events already received are history that the code does not keep.
\<close>

record subscriber =
  su_start :: nat
  su_sent :: "rt_event list"
  su_read :: nat
  su_cap :: nat
  su_last :: nat

record live_conv =
  lc_conversation :: conversation
  lc_subs :: "(nat \<times> subscriber) list"
  lc_next :: nat

record active_run =
  ar_claim :: claimed_run
  ar_stopped :: bool

record manager =
  mg_db :: db
  mg_closed :: bool
  mg_wake :: bool
  mg_active :: nat
  mg_runs :: "string \<Rightarrow> active_run option"
  mg_convs :: "string \<Rightarrow> live_conv option"
  mg_restores :: "string list"
  mg_reports :: "(string \<times> store_error) list"

record config =
  cf_agent :: agent_definition
  cf_rev :: "agent_definition \<Rightarrow> string"
  cf_revisions :: "string \<Rightarrow> string \<Rightarrow> error + agent_definition"
  cf_prepare :: "(conversation_options \<Rightarrow> error + conversation_options) option"
  cf_max :: int
  cf_env_options :: "string list"
  cf_default_env :: string
  cf_can_restore :: bool

definition cf_revision :: "config \<Rightarrow> string" where
  "cf_revision cfg = cf_rev cfg (cf_agent cfg)"

definition max_concurrent :: "config \<Rightarrow> nat" where
  "max_concurrent cfg = (if cf_max cfg \<le> 0 then 4 else nat (cf_max cfg))"

definition notify :: "manager \<Rightarrow> manager" where
  "notify m = m\<lparr>mg_wake := True\<rparr>"

definition report :: "string \<Rightarrow> store_error \<Rightarrow> manager \<Rightarrow> manager" where
  "report what e m = m\<lparr>mg_reports := mg_reports m @ [(what, e)]\<rparr>"

subsection \<open>Subscribers\<close>

definition new_live :: "conversation \<Rightarrow> live_conv" where
  "new_live cv = \<lparr>lc_conversation = cv, lc_subs = [], lc_next = 0\<rparr>"

text \<open>One event for one subscriber: skipped when already served, sent when the buffer has
  room, otherwise the subscriber is dropped.\<close>

definition deliver :: "rt_event \<Rightarrow> nat \<times> subscriber \<Rightarrow> (nat \<times> subscriber) option" where
  "deliver e = (\<lambda>(i, s).
     if re_id e \<noteq> 0 \<and> re_id e \<le> su_last s then Some (i, s)
     else if length (su_sent s) - su_read s < su_cap s
     then Some (i, s\<lparr>su_sent := su_sent s @ [e], su_last := (if re_id e \<noteq> 0 then re_id e else su_last s)\<rparr>)
     else None)"

fun broadcast :: "rt_event list \<Rightarrow> (nat \<times> subscriber) list \<Rightarrow> (nat \<times> subscriber) list" where
  "broadcast [] subs = subs"
| "broadcast (e # es) subs = broadcast es (List.map_filter (deliver e) subs)"

definition publish :: "string \<Rightarrow> rt_event list \<Rightarrow> manager \<Rightarrow> manager" where
  "publish cid es m =
     (case mg_convs m cid of
        None \<Rightarrow> m
      | Some lc \<Rightarrow> m\<lparr>mg_convs := (mg_convs m)(cid \<mapsto> lc\<lparr>lc_subs := broadcast es (lc_subs lc)\<rparr>)\<rparr>)"

subsection \<open>Live conversations\<close>

definition ensure_live :: "conversation \<Rightarrow> manager \<Rightarrow> manager" where
  "ensure_live cv m =
     (case mg_convs m (cv_id cv) of
        Some lc \<Rightarrow> m
      | None \<Rightarrow> m\<lparr>mg_convs := (mg_convs m)(cv_id cv \<mapsto> new_live cv)\<rparr>)"

definition live_conversation :: "string \<Rightarrow> manager \<Rightarrow> (manager_error + live_conv) \<times> manager" where
  "live_conversation cid m =
     (if cid = [] \<or> contains_any cid [slash, backslash] then (Inl (FromStore NotFound), m)
      else if mg_closed m then (Inl Closed, m)
      else case mg_convs m cid of
             Some lc \<Rightarrow> (Inr lc, m)
           | None \<Rightarrow> (case find_conv cid (mg_db m) of
                      None \<Rightarrow> (Inl (FromStore NotFound), m)
                    | Some cr \<Rightarrow> (Inr (new_live (cr_conv cr)), ensure_live (cr_conv cr) m)))"

subsection \<open>Creating a conversation\<close>

definition environment_choice :: "config \<Rightarrow> string \<Rightarrow> manager_error + string" where
  "environment_choice cfg requested =
     (let r = (if trim_space requested = [] then trim_space (cf_default_env cfg) else trim_space requested) in
      if r = [] \<or> cf_env_options cfg = [] then Inr r
      else if r \<in> set (cf_env_options cfg) then Inr r
      else Inl (InvalidEnvironment (quoted r @ '' is not configured'')))"

definition default_environment :: "config \<Rightarrow> string" where
  "default_environment cfg = (case environment_choice cfg [] of Inl e \<Rightarrow> [] | Inr r \<Rightarrow> r)"

definition prepare_options :: "config \<Rightarrow> bool \<Rightarrow> conversation_options \<Rightarrow> manager_error + conversation_options" where
  "prepare_options cfg agent_ws sel =
     (case cf_prepare cfg of
        None \<Rightarrow> Inr sel
      | Some f \<Rightarrow> if agent_ws then Inr sel
                  else (case f sel of Inl e \<Rightarrow> Inl (InvalidConversation e) | Inr s \<Rightarrow> Inr s))"

definition build_conversation :: "config \<Rightarrow> bool \<Rightarrow> string \<Rightarrow> int \<Rightarrow> conversation_options \<Rightarrow> conversation" where
  "build_conversation cfg agent_ws cid now sel =
     (let agent = ad_id (cf_agent cfg);
          v = \<lparr>cv_id = cid, cv_agent_id = agent, cv_workspace_id = cid, cv_agent_workspace = False,
               cv_workspace = op_workspace sel, cv_workspace_lock = op_workspace sel,
               cv_environment = op_environment sel, cv_git_repository = op_git_repository sel,
               cv_git_revision = op_git_revision sel, cv_git_all = op_git_all sel, cv_created = now\<rparr>
      in if agent_ws then v\<lparr>cv_agent_workspace := True, cv_workspace_id := agent_workspace_id agent,
                            cv_workspace_lock := agent_workspace_id agent\<rparr>
         else if op_environment sel = ''e2b'' \<or> op_git_repository sel \<noteq> [] then v\<lparr>cv_workspace_lock := cid\<rparr>
         else v)"

definition choose_conversation :: "config \<Rightarrow> string \<Rightarrow> int \<Rightarrow> conversation_options \<Rightarrow> manager_error + conversation" where
  "choose_conversation cfg cid now sel =
     (let agent_ws = (ad_policy (cf_agent cfg) = workspace_agent) in
      if agent_ws \<and> (op_workspace sel \<noteq> [] \<or> op_git_repository sel \<noteq> [] \<or> op_git_revision sel \<noteq> [] \<or> op_git_all sel)
      then Inl (InvalidConversation ''the agent uses its own workspace; workspace and Git options are not accepted'')
      else and_then (environment_choice cfg (op_environment sel)) (\<lambda>env.
        if agent_ws \<and> env \<noteq> default_environment cfg
        then Inl (InvalidConversation (''the agent's workspace lives in '' @ quoted (default_environment cfg)
               @ ''; environment '' @ quoted env @ '' is not accepted''))
        else and_then (prepare_options cfg agent_ws (sel\<lparr>op_environment := env\<rparr>)) (\<lambda>sel.
          if \<not> agent_ws \<and> op_workspace sel = [] \<and> op_git_repository sel = []
          then Inl (InvalidConversation ''workspace or Git repository is required'')
          else if op_workspace sel \<noteq> [] \<and> op_git_repository sel \<noteq> []
          then Inl (InvalidConversation ''workspace and Git repository are mutually exclusive'')
          else Inr (build_conversation cfg agent_ws cid now sel))))"

definition open_conversation :: "config \<Rightarrow> string \<Rightarrow> int \<Rightarrow> conversation_options \<Rightarrow> manager
    \<Rightarrow> (manager_error + conversation) \<times> manager" where
  "open_conversation cfg cid now sel m =
     (if mg_closed m then (Inl Closed, m)
      else case choose_conversation cfg cid now sel of
             Inl e \<Rightarrow> (Inl e, m)
           | Inr cv \<Rightarrow> (case create_conversation cv (mg_db m) of
                         Inl e \<Rightarrow> (Inl (FromStore e), m)
                       | Inr (d', _) \<Rightarrow> (Inr cv, m\<lparr>mg_db := d'\<rparr>)))"

definition manager_conversations :: "manager \<Rightarrow> manager_error + conversation list" where
  "manager_conversations m = (if mg_closed m then Inl Closed else Inr (conversations (mg_db m)))"

definition manager_agent :: "config \<Rightarrow> agent_summary" where
  "manager_agent cfg = agent_summary_of (cf_agent cfg)"

subsection \<open>Submitting input\<close>

text \<open>The submission as it is accepted: addressed to the conversation's agent, which is the
  server's, under the server's current revision.\<close>

definition addressed :: "config \<Rightarrow> conversation \<Rightarrow> input_submission \<Rightarrow> error + input_submission" where
  "addressed cfg cv inp =
     (if cv_agent_id cv \<noteq> ad_id (cf_agent cfg)
      then Inl (''runtime: conversation agent '' @ quoted (cv_agent_id cv) @ '' is not configured'')
      else if sub_target inp \<noteq> [] \<and> sub_target inp \<noteq> cv_agent_id cv then Inl ''runtime: input targets another agent''
      else if sub_revision inp \<noteq> [] \<and> sub_revision inp \<noteq> cf_revision cfg
      then Inl ''runtime: input selects another agent revision''
      else Inr (inp\<lparr>sub_target := cv_agent_id cv, sub_revision := cf_revision cfg\<rparr>))"

definition admit_input :: "int \<Rightarrow> string \<Rightarrow> string \<Rightarrow> input_submission \<Rightarrow> manager
    \<Rightarrow> (manager_error + accepted_message) \<times> manager" where
  "admit_input now i cid inp m =
     (case accept now i cid inp (mg_db m) of
        Inl e \<Rightarrow> (Inl (FromStore e), m)
      | Inr (d', a, evs) \<Rightarrow>
          (let m1 = publish cid evs (m\<lparr>mg_db := d'\<rparr>) in (Inr a, if am_duplicate a then m1 else notify m1)))"

definition submit_input :: "config \<Rightarrow> int \<Rightarrow> string \<Rightarrow> string \<Rightarrow> input_submission \<Rightarrow> manager
    \<Rightarrow> (manager_error + accepted_message) \<times> manager" where
  "submit_input cfg now i cid inp m =
     (case validate_input inp of
        Inl e \<Rightarrow> (Inl (ManagerError e), m)
      | Inr _ \<Rightarrow> (case live_conversation cid m of
          (Inl e, m1) \<Rightarrow> (Inl e, m1)
        | (Inr lc, m1) \<Rightarrow> (case addressed cfg (lc_conversation lc) inp of
            Inl e \<Rightarrow> (Inl (ManagerError e), m1)
          | Inr inp' \<Rightarrow> admit_input now i cid inp' m1)))"

definition human_input :: "string \<Rightarrow> text_part list \<Rightarrow> input_submission" where
  "human_input key parts = \<lparr>sub_key = key, sub_parts = parts,
     sub_source = \<lparr>src_kind = ''human'', src_adapter = ''http'', src_principal = [], src_conversation = [], src_agent = []\<rparr>,
     sub_causation = [], sub_target = [], sub_revision = []\<rparr>"

definition submit :: "config \<Rightarrow> int \<Rightarrow> string \<Rightarrow> string \<Rightarrow> string \<Rightarrow> text_part list \<Rightarrow> manager
    \<Rightarrow> (manager_error + accepted_message) \<times> manager" where
  "submit cfg now i cid key parts m = submit_input cfg now i cid (human_input key parts) m"

subsection \<open>Stopping a run\<close>

definition manager_stop_run :: "string \<Rightarrow> manager \<Rightarrow> (manager_error + rt_run) \<times> manager" where
  "manager_stop_run cid m =
     (case live_conversation cid m of
        (Inl e, m1) \<Rightarrow> (Inl e, m1)
      | (Inr _, m1) \<Rightarrow> (case mg_runs m1 cid of
          None \<Rightarrow> (Inl NoActiveRun, m1)
        | Some a \<Rightarrow> (Inr (cl_run (ar_claim a)), m1\<lparr>mg_runs := (mg_runs m1)(cid \<mapsto> a\<lparr>ar_stopped := True\<rparr>)\<rparr>)))"

subsection \<open>Views and subscriptions\<close>

definition manager_view :: "config \<Rightarrow> string \<Rightarrow> manager \<Rightarrow> (manager_error + conversation_view \<times> agent_summary) \<times> manager" where
  "manager_view cfg cid m =
     (case live_conversation cid m of
        (Inl e, m1) \<Rightarrow> (Inl e, m1)
      | (Inr _, m1) \<Rightarrow> (case store_view cid (mg_db m1) of
          Inl e \<Rightarrow> (Inl (FromStore e), m1)
        | Inr (_, v) \<Rightarrow>
            (let i = cv_agent_id (vw_conversation v) in
             (Inr (v, if i = ad_id (cf_agent cfg) then agent_summary_of (cf_agent cfg)
                      else \<lparr>as_id = i, as_name = [], as_policy = []\<rparr>), m1))))"

definition manager_events :: "string \<Rightarrow> nat \<Rightarrow> manager \<Rightarrow> (manager_error + rt_event list) \<times> manager" where
  "manager_events cid start m =
     (case live_conversation cid m of
        (Inl e, m1) \<Rightarrow> (Inl e, m1)
      | (Inr _, m1) \<Rightarrow> (case events cid start (mg_db m1) of
          Inl e \<Rightarrow> (Inl (FromStore e), m1)
        | Inr (_, evs) \<Rightarrow> (Inr evs, m1)))"

definition new_subscriber :: "nat \<Rightarrow> rt_event list \<Rightarrow> subscriber" where
  "new_subscriber start backlog =
     \<lparr>su_start = start, su_sent = backlog, su_read = 0, su_cap = length backlog + 64,
      su_last = (if backlog = [] then start else re_id (last backlog))\<rparr>"

definition subscribe :: "string \<Rightarrow> nat \<Rightarrow> manager \<Rightarrow> (manager_error + nat) \<times> manager" where
  "subscribe cid start m =
     (case live_conversation cid m of
        (Inl e, m1) \<Rightarrow> (Inl e, m1)
      | (Inr lc, m1) \<Rightarrow> (case events cid start (mg_db m1) of
          Inl e \<Rightarrow> (Inl (FromStore e), m1)
        | Inr (_, backlog) \<Rightarrow>
            (let i = Suc (lc_next lc) in
             (Inr i, m1\<lparr>mg_convs := (mg_convs m1)(cid \<mapsto>
                lc\<lparr>lc_next := i, lc_subs := lc_subs lc @ [(i, new_subscriber start backlog)]\<rparr>)\<rparr>))))"

text \<open>The client's context ends; the client takes the next event from its channel.\<close>

definition on_subs :: "((nat \<times> subscriber) list \<Rightarrow> (nat \<times> subscriber) list) \<Rightarrow> string \<Rightarrow> manager \<Rightarrow> manager" where
  "on_subs f cid m =
     (case mg_convs m cid of
        None \<Rightarrow> m
      | Some lc \<Rightarrow> m\<lparr>mg_convs := (mg_convs m)(cid \<mapsto> lc\<lparr>lc_subs := f (lc_subs lc)\<rparr>)\<rparr>)"

definition unsubscribe :: "string \<Rightarrow> nat \<Rightarrow> manager \<Rightarrow> manager" where
  "unsubscribe cid i = on_subs (filter (\<lambda>(j, s). j \<noteq> i)) cid"

definition receive :: "string \<Rightarrow> nat \<Rightarrow> manager \<Rightarrow> manager" where
  "receive cid i = on_subs (map (\<lambda>(j, s).
     (j, if j = i \<and> su_read s < length (su_sent s) then s\<lparr>su_read := Suc (su_read s)\<rparr> else s))) cid"

subsection \<open>Dispatching\<close>

definition reserve_slot :: "config \<Rightarrow> manager \<Rightarrow> manager option" where
  "reserve_slot cfg m =
     (if mg_closed m \<or> mg_active m \<ge> max_concurrent cfg then None else Some (m\<lparr>mg_active := mg_active m + 1\<rparr>))"

definition release_slot :: "bool \<Rightarrow> manager \<Rightarrow> manager" where
  "release_slot wake m = (let m1 = m\<lparr>mg_active := mg_active m - 1\<rparr> in if wake then notify m1 else m1)"

definition register :: "claimed_run \<Rightarrow> manager \<Rightarrow> manager" where
  "register cl m = m\<lparr>mg_runs := (mg_runs m)(run_conv (cl_run cl) \<mapsto> \<lparr>ar_claim = cl, ar_stopped = False\<rparr>)\<rparr>"

definition announce :: "claimed_run \<Rightarrow> manager \<Rightarrow> manager" where
  "announce cl m =
     publish (cv_id (cl_conversation cl)) (cl_events cl) (ensure_live (cl_conversation cl) m)"

text \<open>One round of \<^verbatim>\<open>dispatch\<close>, and whether another follows.\<close>

definition dispatch_once :: "config \<Rightarrow> int \<Rightarrow> string \<Rightarrow> manager \<Rightarrow> manager \<times> bool" where
  "dispatch_once cfg now rid m =
     (case reserve_slot cfg m of
        None \<Rightarrow> (m, False)
      | Some m1 \<Rightarrow> (case claim_runnable now rid (mg_db m1) of
          Inl e \<Rightarrow> (let m2 = release_slot False m1 in
                   (if mg_closed m2 then m2 else report ''runtime: claim runnable work'' e m2, False))
        | Inr (d', None) \<Rightarrow> (release_slot False (m1\<lparr>mg_db := d'\<rparr>), False)
        | Inr (d', Some cl) \<Rightarrow> (announce cl (register cl (m1\<lparr>mg_db := d'\<rparr>)), True)))"

lemma dispatch_once_slots:
  assumes "dispatch_once cfg now rid m = (m1, True)"
  shows "mg_active m < max_concurrent cfg" and "mg_active m1 = mg_active m + 1"
  using assms
  by (auto simp: dispatch_once_def reserve_slot_def announce_def register_def publish_def ensure_live_def Let_def
           split: if_splits sum.splits prod.splits option.splits)

lemma dispatch_once_decreases:
  "(m1, again) = dispatch_once cfg now rid m \<Longrightarrow> again \<Longrightarrow> max_concurrent cfg - mg_active m1 < max_concurrent cfg - mg_active m"
  using dispatch_once_slots [of cfg now rid m m1] by (cases again) auto

function manager_dispatch :: "config \<Rightarrow> int \<Rightarrow> (nat \<Rightarrow> string) \<Rightarrow> nat \<Rightarrow> manager \<Rightarrow> manager" where
  "manager_dispatch cfg now ids k m =
     (case dispatch_once cfg now (ids k) m of (m1, again) \<Rightarrow>
        if again then manager_dispatch cfg now ids (Suc k) m1 else m1)"
  by pat_completeness auto
termination
  by (relation "measure (\<lambda>(cfg, now, ids, k, m). max_concurrent cfg - mg_active m)")
     (auto intro: dispatch_once_decreases)

declare manager_dispatch.simps [simp del]

subsection \<open>Executing a run\<close>

record run_request =
  rq_agent :: agent_definition
  rq_conv :: string
  rq_run_id :: string
  rq_inbound :: string
  rq_workspace_id :: string
  rq_agent_workspace :: bool
  rq_workspace :: string
  rq_environment :: string
  rq_git_repository :: string
  rq_git_revision :: string
  rq_git_all :: bool
  rq_text :: string
  rq_context :: "context_turn list"

definition run_request_of :: "agent_definition \<Rightarrow> conversation \<Rightarrow> claimed_run \<Rightarrow> run_request" where
  "run_request_of agent cv cl =
     \<lparr>rq_agent = agent, rq_conv = cv_id cv, rq_run_id = run_id (cl_run cl), rq_inbound = im_id (cl_message cl),
      rq_workspace_id = cv_workspace_id cv, rq_agent_workspace = cv_agent_workspace cv,
      rq_workspace = cv_workspace cv, rq_environment = cv_environment cv, rq_git_repository = cv_git_repository cv,
      rq_git_revision = cv_git_revision cv, rq_git_all = cv_git_all cv,
      rq_text = message_text (im_parts (cl_message cl)), rq_context = cl_context cl\<rparr>"

definition resolve_agent :: "config \<Rightarrow> claimed_run \<Rightarrow> error + agent_definition" where
  "resolve_agent cfg cl =
     (let agent = cv_agent_id (cl_conversation cl);
          rev = run_revision (cl_run cl);
          unavailable = (\<lambda>e. ''runtime: agent revision '' @ quoted rev @ '' of agent '' @ quoted agent
                              @ '' is unavailable: '' @ e)
      in case cf_revisions cfg agent rev of
           Inl e \<Rightarrow> Inl (unavailable e)
         | Inr d \<Rightarrow> if ad_id d \<noteq> agent \<or> cf_rev cfg d \<noteq> rev
                    then Inl (unavailable ''resolved definition does not match'') else Inr d)"

text \<open>What the store is asked to record when the runner has returned.\<close>

definition settlement :: "int \<Rightarrow> (nat \<Rightarrow> string) \<Rightarrow> active_run \<Rightarrow> error + string \<Rightarrow> string \<times> rt_event list tx" where
  "settlement now ids a outcome =
     (let r = cl_run (ar_claim a) in
      case outcome of
        Inl e \<Rightarrow> if ar_stopped a then (''runtime: persist stopped run '' @ run_id r, store_stop_run now ids r)
                 else (''runtime: persist failed run '' @ run_id r, store_fail_run now ids r e)
      | Inr answer \<Rightarrow> (''runtime: persist completed run '' @ run_id r, store_finish_run now (ids 0) r answer))"

text \<open>
  The end of \<^verbatim>\<open>work\<close>: \<open>result\<close> is what the runner returned; it is not called when the
  revision of the run does not resolve.
\<close>

definition end_work :: "config \<Rightarrow> int \<Rightarrow> (nat \<Rightarrow> string) \<Rightarrow> string \<Rightarrow> error + string \<Rightarrow> manager \<Rightarrow> manager" where
  "end_work cfg now ids cid result m =
     (case mg_runs m cid of
        None \<Rightarrow> m
      | Some a \<Rightarrow>
          (let m1 = m\<lparr>mg_runs := (mg_runs m)(cid := None)\<rparr>;
               (what, op) = settlement now ids a (and_then (resolve_agent cfg (ar_claim a)) (\<lambda>_. result))
           in release_slot True (case op (mg_db m1) of
                Inl e \<Rightarrow> report what e m1
              | Inr (d', evs) \<Rightarrow> publish cid evs (m1\<lparr>mg_db := d'\<rparr>))))"

subsection \<open>Events of a run in progress\<close>

record run_event =
  ev_type :: string
  ev_step :: string
  ev_message :: string
  ev_text :: string
  ev_message_id :: string
  ev_part_id :: string
  ev_call_id :: string
  ev_action :: "action option"
  ev_result :: "tool_result option"
  ev_parts :: "message_part list"
  ev_agent :: "rt_event option"

definition commit :: "string \<Rightarrow> rt_event list tx \<Rightarrow> manager \<Rightarrow> (manager_error + unit) \<times> manager" where
  "commit cid op m =
     (case op (mg_db m) of
        Inl e \<Rightarrow> (Inl (FromStore e), m)
      | Inr (d', evs) \<Rightarrow> (Inr (), publish cid evs (m\<lparr>mg_db := d'\<rparr>)))"

definition refuse :: "error \<Rightarrow> manager \<Rightarrow> (manager_error + unit) \<times> manager" where
  "refuse e m = (Inl (ManagerError e), m)"

definition run_delta :: "int \<Rightarrow> rt_run \<Rightarrow> run_event \<Rightarrow> rt_event" where
  "run_delta now r s =
     (bare_event AssistantDelta (run_conv r) (run_id r) (run_inbound r))
       \<lparr>re_delta := Some \<lparr>td_message_id = (if ev_message_id s = [] then run_id r @ '':draft'' else ev_message_id s),
                        td_part_id = (if ev_part_id s = [] then ''text'' else ev_part_id s),
                        td_text = ev_text s\<rparr>,
        re_created := Some now\<rparr>"

definition run_progress :: "int \<Rightarrow> rt_run \<Rightarrow> run_event \<Rightarrow> rt_event" where
  "run_progress now r s =
     (bare_event ToolProgressed (run_conv r) (run_id r) (run_inbound r))
       \<lparr>re_progress := Some \<lparr>pn_call_id = ev_call_id s, pn_text = ev_text s\<rparr>, re_created := Some now\<rparr>"

definition emit_run_event :: "int \<Rightarrow> string \<Rightarrow> rt_run \<Rightarrow> run_event \<Rightarrow> manager
    \<Rightarrow> (manager_error + unit) \<times> manager" where
  "emit_run_event now oid r s m =
     (let cid = run_conv r; t = ev_type s in
      if t = ''runner.agent.event'' then
        (case ev_agent s of
           None \<Rightarrow> refuse ''runtime: agent event is missing'' m
         | Some e \<Rightarrow> commit cid (after (append_agent_event now r e) (\<lambda>_. ok [])) m)
      else if t = ''environment.progress'' then
        commit cid (after (append_environment_progress now r \<lparr>ep_step = ev_step s, ep_message = ev_message s\<rparr>)
                     (\<lambda>e. ok [e])) m
      else if t = ''assistant.delta'' then (Inr (), publish cid [run_delta now r s] m)
      else if t = ''tool.progress'' then (Inr (), publish cid [run_progress now r s] m)
      else if t = ''runner.assistant.turn'' then
        (if ev_parts s = [] then refuse ''runtime: assistant turn is missing its parts'' m
         else commit cid (commit_assistant_turn now oid r (ev_parts s)) m)
      else if t = ''runner.tool.completed'' then
        (case ev_result s of
           None \<Rightarrow> refuse ''runtime: tool completion is missing its result'' m
         | Some res \<Rightarrow> commit cid (tool_completed now oid r res) m)
      else if t = ''runner.tool.denied'' then
        (case ev_result s of
           None \<Rightarrow> refuse ''runtime: tool denial is missing its result'' m
         | Some res \<Rightarrow> commit cid (tool_denied now oid r res) m)
      else refuse (''runtime: unsupported runner event '' @ quoted t) m)"

subsection \<open>Restoring a workspace\<close>

definition valid_workspace_id :: "string \<Rightarrow> bool" where
  "valid_workspace_id i \<longleftrightarrow> trim_space i \<noteq> [] \<and> \<not> contains_any i [slash, backslash, CHR 0x00]"

text \<open>Up to the reservation, which the process holds while the provider restores.\<close>

definition begin_restore :: "config \<Rightarrow> int \<Rightarrow> string \<Rightarrow> manager \<Rightarrow> (manager_error + unit) \<times> manager" where
  "begin_restore cfg now wid m =
     (if \<not> valid_workspace_id wid then (Inl WorkspaceNotFound, m)
      else if \<not> cf_can_restore cfg then (Inl (if mg_closed m then Closed else RestoreUnsupported), m)
      else if mg_closed m then (Inl Closed, m)
      else case reserve_workspace now wid (mg_db m) of
             Inl e \<Rightarrow> (Inl (FromStore e), m)
           | Inr (d', _) \<Rightarrow> (Inr (), m\<lparr>mg_db := d', mg_restores := wid # mg_restores m\<rparr>))"

text \<open>The deferred release, retried once.\<close>

definition end_restore :: "string \<Rightarrow> manager \<Rightarrow> manager" where
  "end_restore wid m =
     (let m1 = m\<lparr>mg_restores := remove1 wid (mg_restores m)\<rparr> in
      notify (case release_workspace wid (mg_db m1) of
          Inr (d', _) \<Rightarrow> m1\<lparr>mg_db := d'\<rparr>
        | Inl e \<Rightarrow> (case release_workspace wid (mg_db m1) of
            Inr (d', _) \<Rightarrow> m1\<lparr>mg_db := d'\<rparr>
          | Inl e' \<Rightarrow> report (''runtime: release workspace '' @ quoted wid @ ''; its runs wait until restart'') e m1)))"

subsection \<open>Opening and closing\<close>

definition close :: "manager \<Rightarrow> manager" where
  "close m =
     (if mg_closed m then m
      else m\<lparr>mg_closed := True, mg_convs := (\<lambda>c. map_option (\<lambda>lc. lc\<lparr>lc_subs := []\<rparr>) (mg_convs m c))\<rparr>)"

definition fresh_manager :: "db \<Rightarrow> manager" where
  "fresh_manager d = \<lparr>mg_db = d, mg_closed = False, mg_wake = True, mg_active = 0, mg_runs = (\<lambda>_. None),
     mg_convs = (\<lambda>_. None), mg_restores = [], mg_reports = []\<rparr>"

text \<open>A store that fails to recover has still recovered the runs before the failing one.\<close>

definition new_manager :: "config \<Rightarrow> int \<Rightarrow> (nat \<Rightarrow> nat \<Rightarrow> string) \<Rightarrow> db \<Rightarrow> (manager_error + manager) \<times> db" where
  "new_manager cfg now idss d =
     (case validate_agent (cf_agent cfg) of
        Inl e \<Rightarrow> (Inl (ManagerError e), d)
      | Inr _ \<Rightarrow> (case cf_revisions cfg (ad_id (cf_agent cfg)) (cf_revision cfg) of
          Inl e \<Rightarrow> (Inl (ManagerError (''runtime: current agent revision is not recorded: '' @ e)), d)
        | Inr _ \<Rightarrow> (case recover_running now idss d of
            (d', Some e) \<Rightarrow> (Inl (FromStore e), d')
          | (d', None) \<Rightarrow> (Inr (fresh_manager d'), d'))))"

subsection \<open>Steps\<close>

text \<open>
  Everything that can happen to one manager process, in any order. A runner emits only for
  the run it was given, so for a registered run; identifiers are drawn non-empty.
\<close>

inductive manager_step :: "config \<Rightarrow> manager \<Rightarrow> manager \<Rightarrow> bool" for cfg where
  ms_open: "open_conversation cfg cid now sel m = (res, m') \<Longrightarrow> manager_step cfg m m'"
| ms_submit: "i \<noteq> [] \<Longrightarrow> submit_input cfg now i cid inp m = (res, m') \<Longrightarrow> manager_step cfg m m'"
| ms_stop: "manager_stop_run cid m = (res, m') \<Longrightarrow> manager_step cfg m m'"
| ms_view: "manager_view cfg cid m = (res, m') \<Longrightarrow> manager_step cfg m m'"
| ms_events: "manager_events cid start m = (res, m') \<Longrightarrow> manager_step cfg m m'"
| ms_subscribe: "subscribe cid start m = (res, m') \<Longrightarrow> manager_step cfg m m'"
| ms_unsubscribe: "unsubscribe cid n m = m' \<Longrightarrow> manager_step cfg m m'"
| ms_receive: "receive cid n m = m' \<Longrightarrow> manager_step cfg m m'"
| ms_dispatch: "rid \<noteq> [] \<Longrightarrow> dispatch_once cfg now rid m = (m', again) \<Longrightarrow> manager_step cfg m m'"
| ms_emit: "oid \<noteq> [] \<Longrightarrow> mg_runs m cid = Some a \<Longrightarrow> resolve_agent cfg (ar_claim a) = Inr agent
    \<Longrightarrow> emit_run_event now oid (cl_run (ar_claim a)) s m = (res, m') \<Longrightarrow> manager_step cfg m m'"
| ms_end: "\<forall>k. ids k \<noteq> [] \<Longrightarrow> end_work cfg now ids cid result m = m' \<Longrightarrow> manager_step cfg m m'"
| ms_restore: "begin_restore cfg now wid m = (res, m') \<Longrightarrow> manager_step cfg m m'"
| ms_restored: "wid \<in> set (mg_restores m) \<Longrightarrow> end_restore wid m = m' \<Longrightarrow> manager_step cfg m m'"
| ms_close: "close m = m' \<Longrightarrow> manager_step cfg m m'"

text \<open>A process starts on the store that earlier processes left behind.\<close>

inductive managed :: "config \<Rightarrow> manager \<Rightarrow> bool" for cfg where
  managed_start: "live_reachable d \<Longrightarrow> \<forall>j k. idss j k \<noteq> [] \<Longrightarrow> new_manager cfg now idss d = (Inr m, d')
    \<Longrightarrow> managed cfg m"
| managed_step: "managed cfg m \<Longrightarrow> manager_step cfg m m' \<Longrightarrow> managed cfg m'"

end
