(* ===== verification/Store_Props.thy ===== *)
theory Store_Props
  imports Store_Inv
begin

section \<open>What the store promises\<close>

text \<open>
  A small store reached by real operations serves the witnesses. The properties say what a
  client of the store relies on: exclusive running, an append-only contiguous log, one
  submission per idempotency key, claiming in order, and settled tool calls at the end of a
  run.
\<close>

subsection \<open>A store reached by operations\<close>

lemma exec_tx_cases: "(\<exists>d' a. m d = Inr (d', a) \<and> exec_tx m d = d') \<or> exec_tx m d = d"
  by (auto simp: exec_tx_def split: sum.split)

lemma exec_steps:
  assumes "\<And>d' a. m d = Inr (d', a) \<Longrightarrow> store_step d d'" and "reachable d"
  shows "reachable (exec_tx m d)"
  using exec_tx_cases [of m d] assms unfolding reachable_def by (metis rtranclp.rtrancl_into_rtrancl)

lemma exec_is_step:
  assumes "\<And>d' a. m d = Inr (d', a) \<Longrightarrow> store_step d d'"
  shows "store_step\<^sup>*\<^sup>* d (exec_tx m d)"
  using exec_tx_cases [of m d] assms by (metis r_into_rtranclp rtranclp.rtrancl_refl)

lemma reachable_empty: "reachable empty_db"
  by (simp add: reachable_def)

lemma reachable_exec:
  "reachable d \<Longrightarrow> reachable (exec_tx (create_conversation cv) d)"
  "reachable d \<Longrightarrow> reachable (exec_tx (accept now i cid inp) d)"
  "reachable d \<Longrightarrow> reachable (exec_tx (claim_runnable now rid) d)"
  "reachable d \<Longrightarrow> reachable (exec_tx (commit_assistant_turn now oid r parts) d)"
  by (auto intro: exec_steps store_step.intros)

definition sample_conversation :: conversation where
  "sample_conversation = \<lparr>cv_id = ''c'', cv_agent_id = ''a'', cv_workspace_id = ''w'', cv_agent_workspace = False,
     cv_workspace = ''/w'', cv_workspace_lock = [], cv_environment = [], cv_git_repository = [],
     cv_git_revision = [], cv_git_all = False, cv_created = 1\<rparr>"

definition sample_sub :: "string \<Rightarrow> input_submission" where
  "sample_sub key = \<lparr>sub_key = key, sub_parts = [\<lparr>tx_type = ''text'', tx_text = ''hi''\<rparr>],
     sub_source = \<lparr>src_kind = ''human'', src_adapter = ''x'', src_principal = [], src_conversation = [], src_agent = []\<rparr>,
     sub_causation = [], sub_target = ''a'', sub_revision = ''v''\<rparr>"

text \<open>One conversation with two inputs, both accepted.\<close>

definition queued_db :: db where
  "queued_db = exec_tx (accept 3 ''s2'' ''c'' (sample_sub ''k2''))
     (exec_tx (accept 2 ''s1'' ''c'' (sample_sub ''k1''))
       (exec_tx (create_conversation sample_conversation) empty_db))"

text \<open>The same store after the older input was claimed.\<close>

definition claimed_db :: db where
  "claimed_db = exec_tx (claim_runnable 4 ''r1'') queued_db"

definition sample_running :: rt_run where
  "sample_running = started_run 4 ''r1'' (queued_row 2 ''s1'' ''c'' (sample_sub ''k1''))"

text \<open>The claimed run has committed a turn with one tool call, still open.\<close>

definition sample_call_part :: message_part where
  "sample_call_part = \<lparr>mp_type = ''tool_call'', mp_text = [], mp_call_id = ''t1'', mp_kind = ''shell'', mp_args = [],
     mp_result = None, mp_metadata = []\<rparr>"

definition working_db :: db where
  "working_db = exec_tx (commit_assistant_turn 5 ''o1'' sample_running [sample_call_part]) claimed_db"

lemma reachable_samples: "reachable queued_db" "reachable claimed_db" "reachable working_db"
  by (simp_all add: queued_db_def claimed_db_def working_db_def reachable_exec reachable_empty)

lemma claimed_db_facts:
  "map sr_status (db_submissions claimed_db) = [Running, Queued]"
  "map er_cursor (db_events claimed_db) = [1, 2, 3, 4]"
  by code_simp+

subsection \<open>The log\<close>

text \<open>C4. In every reachable store the log of each conversation is contiguous: its cursors are
  1, 2, 3, ... in insertion order, up to the next cursor the conversation will assign, and
  every row's columns repeat what its event says.\<close>

theorem log_contiguous:
  assumes "reachable d" and "cr \<in> set (db_conversations d)"
  shows "map er_cursor (conv_log (cv_id (cr_conv cr)) d) = [1..<cr_next cr]
     \<and> (\<forall>r \<in> set (conv_log (cv_id (cr_conv cr)) d). row_ok r)"
proof -
  have "log_ok d" using assms(1) by (rule reachable_log_ok)
  then have "map er_cursor (conv_log (cv_id (cr_conv cr)) d) = [1..<cr_next cr]"
    and "\<forall>r \<in> set (db_events d). row_ok r"
    using assms(2) unfolding log_ok_def by blast+
  then show ?thesis by (simp add: conv_log_def)
qed


lemma log_contiguous_witness:
  "\<exists>cr. cr \<in> set (db_conversations claimed_db) \<and> cr_next cr = 5
     \<and> map er_cursor (conv_log (cv_id (cr_conv cr)) claimed_db) = [1..<cr_next cr]"
proof -
  have row: "db_conversations claimed_db \<noteq> []" "cr_next (hd (db_conversations claimed_db)) = 5" by code_simp+
  then have "hd (db_conversations claimed_db) \<in> set (db_conversations claimed_db)" by simp
  from log_contiguous [OF reachable_samples(2) this] row(2) this show ?thesis by blast
qed

text \<open>The log is append-only: every later store of a store extends its log.\<close>

theorem log_append_only:
  assumes "store_step\<^sup>*\<^sup>* d d'"
  shows "prefix (db_events d) (db_events d')"
  using assms by (induction rule: rtranclp_induct) (auto dest: log_grows elim: prefix_order.trans)

lemma log_append_only_witness: "prefix (db_events empty_db) (db_events claimed_db)"
  using log_append_only reachable_samples(2) unfolding reachable_def by blast

lemma filter_ordered: "sorted_wrt (<) (map f xs) \<Longrightarrow> sorted_wrt (<) (map f (filter p xs))"
  by (induction xs) auto

lemma conv_log_sorted:
  assumes "log_ok d" and "find_conv cid d = Some cr"
  shows "sorted_wrt (<) (map er_cursor (conv_log cid d))"
proof -
  have "cr \<in> set (db_conversations d)" "cv_id (cr_conv cr) = cid" using find_conv_Some [OF assms(2)] by auto
  then have "map er_cursor (conv_log cid d) = [1..<cr_next cr]" using assms(1) unfolding log_ok_def by blast
  then show ?thesis by (simp add: sorted_wrt_upt)
qed

lemma sorted_key_same: "sorted_wrt (<) (map f xs) \<Longrightarrow> sort_key f xs = xs"
  for f :: "'a \<Rightarrow> nat"
proof (rule sort_key_id_if_sorted)
  assume "sorted_wrt (<) (map f xs)"
  then show "sorted (map f xs)" by (rule sorted_wrt_mono_rel [rotated]) simp
qed

lemma log_ok_rows:
  assumes "log_ok d" and "r \<in> set (db_events d)"
  shows "er_conv r = re_conv (er_payload r) \<and> er_cursor r = re_id (er_payload r)
     \<and> er_kind r = re_kind (er_payload r) \<and> er_message_id r = event_message_id (er_payload r)"
proof -
  have "r = event_row_of (er_payload r) (er_created r)" using assms unfolding log_ok_def row_ok_def by blast
  then show ?thesis unfolding event_row_of_def by (metis event_row.select_convs(1-4))
qed

lemma conv_log_ids:
  assumes "log_ok d"
  shows "map re_id (map er_payload (conv_log cid d)) = map er_cursor (conv_log cid d)"
proof -
  have "re_id (er_payload r) = er_cursor r" if "r \<in> set (conv_log cid d)" for r
    using log_ok_rows [OF assms] that by (simp add: conv_log_def)
  then show ?thesis by simp
qed

lemma events_read:
  assumes log: "log_ok d" and "events cid start d = Inr (d', evs)"
  shows "d' = d \<and> sorted_wrt (<) (map re_id evs)
     \<and> evs = filter (\<lambda>e. start < re_id e \<and> \<not> agent_kind (re_kind e)) (map er_payload (conv_log cid d))"
proof -
  let ?rows = "filter (\<lambda>r. start < er_cursor r \<and> \<not> agent_kind (er_kind r)) (conv_log cid d)"
  obtain cr where cr: "find_conv cid d = Some cr" and d': "d' = d"
    and evs: "evs = map er_payload (sort_key er_cursor ?rows)"
    using assms(2)
    by (auto simp: events_def events_after_def conversation_tx_def conv_log_def conj_ac)
  have "sorted_wrt (<) (map er_cursor ?rows)" by (rule filter_ordered [OF conv_log_sorted [OF log cr]])
  then have evs': "evs = map er_payload ?rows" using evs by (simp add: sorted_key_same)
  have same: "er_cursor r = re_id (er_payload r) \<and> er_kind r = re_kind (er_payload r)"
    if "r \<in> set (conv_log cid d)" for r
    using log_ok_rows [OF log] that by (auto simp: conv_log_def)
  have "?rows = filter ((\<lambda>e. start < re_id e \<and> \<not> agent_kind (re_kind e)) \<circ> er_payload) (conv_log cid d)"
    by (rule filter_cong) (simp_all add: same)
  then have "evs = filter (\<lambda>e. start < re_id e \<and> \<not> agent_kind (re_kind e)) (map er_payload (conv_log cid d))"
    by (simp add: evs' filter_map)
  moreover have "sorted_wrt (<) (map re_id (map er_payload (conv_log cid d)))"
    unfolding conv_log_ids [OF log] by (rule conv_log_sorted [OF log cr])
  ultimately show ?thesis using d' filter_ordered by blast
qed

text \<open>Reading the public events of a conversation from a cursor gives its later events that
  are not internal, in increasing cursor order, each with the cursor under which it was stored.\<close>

theorem events_in_order:
  assumes "reachable d" and "events cid start d = Inr (d', evs)"
  shows "d' = d \<and> sorted_wrt (<) (map re_id evs)
     \<and> evs = filter (\<lambda>e. start < re_id e \<and> \<not> agent_kind (re_kind e)) (map er_payload (conv_log cid d))"
  using assms by (intro events_read reachable_log_ok)

lemma events_in_order_witness:
  "\<exists>evs. events ''c'' 1 claimed_db = Inr (claimed_db, evs) \<and> map re_id evs = [2, 3, 4]
     \<and> sorted_wrt (<) (map re_id evs)"
proof -
  have "map_sum id (\<lambda>(d, evs). map re_id evs) (events ''c'' 1 claimed_db) = Inr [2, 3, 4]" by code_simp
  then obtain d' evs where e: "events ''c'' 1 claimed_db = Inr (d', evs)" and ids: "map re_id evs = [2, 3, 4]"
    by (cases "events ''c'' 1 claimed_db") auto
  from events_in_order [OF reachable_samples(2) e] have "d' = claimed_db" "sorted_wrt (<) (map re_id evs)"
    by (rule conjunct1, elim conjE)
  with e ids show ?thesis by (intro exI [of _ evs] conjI) simp_all
qed

subsection \<open>Running submissions\<close>

text \<open>C3. In every reachable store two running submissions are the same submission when they
  share a conversation or a workspace lock.\<close>

theorem running_exclusive:
  assumes "reachable d" and "x \<in> set (db_submissions d)" "y \<in> set (db_submissions d)"
    and "sr_status x = Running" "sr_status y = Running"
    and "sr_conv x = sr_conv y \<or> lock_of d (sr_conv x) = lock_of d (sr_conv y)"
  shows "x = y"
proof -
  have "exclusive d" using assms(1) by (rule reachable_exclusive)
  then have "inj_on (\<lambda>x. lock_of d (sr_conv x)) (set (running_subs d))"
    by (simp add: exclusive_def distinct_map)
  moreover have "x \<in> set (running_subs d)" "y \<in> set (running_subs d)"
    using assms(2-5) by (simp_all add: running_subs_def)
  moreover have "lock_of d (sr_conv x) = lock_of d (sr_conv y)" using assms(6) by auto
  ultimately show ?thesis unfolding inj_on_def by blast
qed


lemma running_exclusive_witness:
  "hd (db_submissions claimed_db) = db_submissions claimed_db ! 0
     \<and> sr_status (hd (db_submissions claimed_db)) = Running"
proof -
  have h: "db_submissions claimed_db \<noteq> []" "sr_status (hd (db_submissions claimed_db)) = Running"
    by code_simp+
  then have m: "hd (db_submissions claimed_db) \<in> set (db_submissions claimed_db)"
    "db_submissions claimed_db ! 0 \<in> set (db_submissions claimed_db)"
    "sr_status (db_submissions claimed_db ! 0) = Running"
    by (auto simp: hd_conv_nth)
  have "hd (db_submissions claimed_db) = db_submissions claimed_db ! 0"
    by (rule running_exclusive [OF reachable_samples(2) m(1,2) h(2) m(3)]) (simp add: h(1) hd_conv_nth)
  with h(2) show ?thesis by simp
qed

lemma next_runnable_least:
  assumes "next_runnable d = Some r"
  shows "\<forall>y \<in> set (db_submissions d). runnable_row d y \<longrightarrow> (sr_accepted r, sr_id r) \<le> (sr_accepted y, sr_id y)"
proof -
  let ?k = "\<lambda>r. (sr_accepted r, sr_id r)"
  obtain rest where rest: "sort_key ?k (filter (runnable_row d) (db_submissions d)) = r # rest"
    using assms by (auto simp: next_runnable_def split: list.splits)
  have "sorted (map ?k (r # rest))" unfolding rest [symmetric] by (rule sorted_sort_key)
  then have "\<forall>y \<in> set (r # rest). ?k r \<le> ?k y" by auto
  moreover have "set (r # rest) = set (filter (runnable_row d) (db_submissions d))"
    unfolding rest [symmetric] by (rule set_sort)
  ultimately show ?thesis by (metis (no_types, lifting) mem_Collect_eq set_filter)
qed

lemma append_event_kind: "append_event now e d = Inr (d', e') \<Longrightarrow> re_kind e' = re_kind e"
  by (auto elim!: append_event_Inr)

lemma claim_row_effect:
  assumes "claim_row now rid r d = Inr (d', c)"
  shows "im_id (cl_message c) = sr_id r \<and> cl_run c = started_run now rid r
     \<and> db_submissions d' = change (\<lambda>x. sr_id x = sr_id r \<and> sr_status x = Queued)
                              (\<lambda>x. x\<lparr>sr_status := Running\<rparr>) (db_submissions d)
     \<and> db_runs d' = db_runs d @ [row_of_run (started_run now rid r)]
     \<and> map re_kind (cl_events c) = [InputAdmitted, RunStarted]"
proof -
  obtain d1 d2 d3 e1 e2 where
    d1: "update_submissions (\<lambda>x. sr_id x = sr_id r \<and> sr_status x = Queued) (\<lambda>x. x\<lparr>sr_status := Running\<rparr>) d
           = Inr (d1, 1)"
    and d2: "insert_run (row_of_run (started_run now rid r)) d1 = Inr (d2, ())"
    and d3: "append_event now ((bare_event InputAdmitted (sr_conv r) rid (sr_id r))\<lparr>re_created := Some now\<rparr>) d2
           = Inr (d3, e1)"
    and d4: "append_event now ((bare_event RunStarted (sr_conv r) rid (sr_id r))
             \<lparr>re_run := Some (started_run now rid r), re_created := Some now\<rparr>) d3 = Inr (d', e2)"
    and c: "im_id (cl_message c) = sr_id r" "cl_run c = started_run now rid r" "cl_events c = [e1, e2]"
    using assms
    by (auto simp: claim_row_def conversation_tx_def Let_def dest!: load_input_state load_context_state)
  have "db_submissions d1 = change (\<lambda>x. sr_id x = sr_id r \<and> sr_status x = Queued)
          (\<lambda>x. x\<lparr>sr_status := Running\<rparr>) (db_submissions d)" "db_runs d1 = db_runs d"
    using d1 by (auto simp: update_submissions_def Let_def split: if_splits)
  moreover have "db_submissions d2 = db_submissions d1" "db_runs d2 = db_runs d1 @ [row_of_run (started_run now rid r)]"
    using d2 by (auto simp: insert_run_def split: if_splits)
  moreover have "re_kind e1 = InputAdmitted" "re_kind e2 = RunStarted"
    using append_event_kind [OF d3] append_event_kind [OF d4] by simp_all
  ultimately show ?thesis
    using c append_event_frame(1,2) [OF d3] append_event_frame(1,2) [OF d4] by simp
qed

text \<open>A claim takes the oldest submission that may run (its conversation and its workspace
  lock are free and its workspace is not reserved), marks it running, and starts one run for it.\<close>

theorem claim_takes_oldest:
  assumes "claim_runnable now rid d = Inr (d', Some c)"
  shows "\<exists>r \<in> set (db_submissions d). runnable_row d r
     \<and> (\<forall>y \<in> set (db_submissions d). runnable_row d y \<longrightarrow> (sr_accepted r, sr_id r) \<le> (sr_accepted y, sr_id y))
     \<and> im_id (cl_message c) = sr_id r \<and> cl_run c = started_run now rid r
     \<and> db_submissions d' = change (\<lambda>x. sr_id x = sr_id r \<and> sr_status x = Queued)
                              (\<lambda>x. x\<lparr>sr_status := Running\<rparr>) (db_submissions d)
     \<and> db_runs d' = db_runs d @ [row_of_run (started_run now rid r)]
     \<and> map re_kind (cl_events c) = [InputAdmitted, RunStarted]"
proof -
  obtain r where nx: "next_runnable d = Some r" and row: "claim_row now rid r d = Inr (d', c)"
    using assms by (auto simp: claim_runnable_def split: option.splits)
  from next_runnable_Some [OF nx] show ?thesis
    by (intro bexI [of _ r] conjI claim_row_effect [OF row, THEN conjunct1]
          claim_row_effect [OF row, THEN conjunct2] next_runnable_least [OF nx]) simp_all
qed

lemma claim_takes_oldest_witness:
  "\<exists>c. claim_runnable 4 ''r1'' queued_db = Inr (claimed_db, Some c)
     \<and> (\<exists>r \<in> set (db_submissions queued_db). im_id (cl_message c) = sr_id r)"
proof -
  have "map_sum id (\<lambda>(d, c). c \<noteq> None) (claim_runnable 4 ''r1'' queued_db) = Inr True" by code_simp
  then obtain d' c where c: "claim_runnable 4 ''r1'' queued_db = Inr (d', Some c)"
    by (cases "claim_runnable 4 ''r1'' queued_db") auto
  then have "d' = claimed_db" by (simp add: claimed_db_def exec_tx_def)
  with c claim_takes_oldest [OF c] show ?thesis by blast
qed

subsection \<open>One submission per idempotency key\<close>

lemma find_key_Some: "find_key cid key d = Some r \<Longrightarrow> sr_conv r = cid \<and> sr_key r = key \<and> r \<in> set (db_submissions d)"
  by (auto simp: find_key_def find_Some_iff)

lemma accept_marks:
  assumes "accept now i cid inp d = Inr (d1, a, evs)"
  shows "accepted_as cid (sub_key inp) (am_inbound a) d1"
proof (cases "find_key cid (sub_key inp) d")
  case (Some r)
  with assms show ?thesis by (auto simp: accept_def accepted_as_def)
next
  case None
  with assms have new: "accept_new now i cid inp d = Inr (d1, a, evs)" by (auto simp: accept_def)
  then obtain d0 e where ins: "insert_submission (queued_row now i cid inp) d = Inr (d0, ())"
    and app: "append_event now ((bare_event InputAccepted cid [] i)\<lparr>re_input := Some inp, re_created := Some now\<rparr>) d0
          = Inr (d1, e)"
    and a: "am_inbound a = i"
    by (auto simp: accept_new_def conversation_tx_def)
  have "db_submissions d1 = db_submissions d @ [queued_row now i cid inp]"
    using ins append_event_frame(1) [OF app] by (auto simp: insert_submission_def split: if_splits)
  with None a show ?thesis
    by (simp add: accepted_as_def find_key_def find_append queued_row_def)
qed

lemma accept_duplicate:
  assumes "accepted_as cid (sub_key inp) i d" and "validate_input inp = Inr ()"
  shows "accept now j cid inp d = Inr (d, \<lparr>am_conv = cid, am_inbound = i, am_duplicate = True\<rparr>, [])"
  using assms by (auto simp: accepted_as_def accept_def)

text \<open>C8. Accepting is idempotent: once a key was accepted for a conversation, accepting the
  same key there again, in any later store and with any valid input, changes nothing, emits
  nothing and answers with the first submission.\<close>

theorem accept_once:
  assumes "accept now i cid inp d = Inr (d1, a, evs)" and "store_step\<^sup>*\<^sup>* d1 d2"
    and "sub_key again = sub_key inp" and "validate_input again = Inr ()"
  shows "accept now' i' cid again d2
       = Inr (d2, \<lparr>am_conv = cid, am_inbound = am_inbound a, am_duplicate = True\<rparr>, [])"
proof -
  have "accepted_as cid (sub_key inp) (am_inbound a) d1" using assms(1) by (rule accept_marks)
  then have "accepted_as cid (sub_key again) (am_inbound a) d2" using accepted_stays [OF assms(2)] assms(3) by simp
  then show ?thesis using assms(4) by (rule accept_duplicate)
qed

lemma accept_once_witness:
  "accept 9 ''s9'' ''c'' (sample_sub ''k1'') claimed_db
     = Inr (claimed_db, \<lparr>am_conv = ''c'', am_inbound = ''s1'', am_duplicate = True\<rparr>, [])"
proof -
  let ?d = "exec_tx (create_conversation sample_conversation) empty_db"
  let ?m = "accept 2 ''s1'' ''c'' (sample_sub ''k1'')"
  have "(case ?m ?d of Inr (d1, a, evs) \<Rightarrow> am_inbound a = ''s1'' | Inl e \<Rightarrow> False)" by code_simp
  then obtain d1 a evs where first: "?m ?d = Inr (d1, a, evs)" and a: "am_inbound a = ''s1''"
    by (auto split: sum.splits)
  have "store_step\<^sup>*\<^sup>* d1 (exec_tx (accept 3 ''s2'' ''c'' (sample_sub ''k2'')) d1)"
    by (rule exec_is_step) (rule step_accept)
  moreover have "store_step\<^sup>*\<^sup>* d' (exec_tx (claim_runnable 4 ''r1'') d')" for d'
    by (rule exec_is_step) (rule step_claim)
  moreover have "d1 = exec_tx ?m ?d" using first by (simp add: exec_tx_def)
  ultimately have "store_step\<^sup>*\<^sup>* d1 claimed_db"
    unfolding claimed_db_def queued_db_def by (metis rtranclp_trans)
  moreover have "validate_input (sample_sub ''k1'') = Inr ()" by code_simp
  ultimately show ?thesis using accept_once [OF first _ refl, of claimed_db 9 "''s9''"] a by simp
qed

subsection \<open>The end of a run\<close>

lemma tool_finished_effect:
  assumes "tool_finished now oid r res st d = Inr (d', evs)"
  shows "db_tools d' = change (requested_tool (run_id r) (tr_action_id res))
           (\<lambda>x. x\<lparr>tr_status := st, tr_updated := now\<rparr>) (db_tools d)"
    and "db_submissions d' = db_submissions d" and "db_runs d' = db_runs d"
    and "map re_kind evs = [ToolOutcomeRecorded]"
    and "map (map_option to_status \<circ> re_outcome) evs = [Some st]"
    and "db_reservations d' = db_reservations d"
proof -
  obtain d1 n e and t :: tool_row where upd: "update_tools (requested_tool (run_id r) (tr_action_id res))
      (\<lambda>x. x\<lparr>tr_status := st, tr_updated := now\<rparr>) d = Inr (d1, n)"
    and app: "append_event now ((bare_event ToolOutcomeRecorded (run_conv r) (run_id r) (run_inbound r))
                 \<lparr>re_created := Some now,
                  re_outcome := Some \<lparr>to_id = oid, to_call_id = tr_action_id res, to_kind = tr_kind_name t,
                                      to_status = st, to_result = Some res\<rparr>\<rparr>) d1 = Inr (d', e)"
    and evs: "evs = [e]"
    using assms by (fastforce simp: tool_finished_def Let_def)
  have "re_outcome e = Some \<lparr>to_id = oid, to_call_id = tr_action_id res, to_kind = tr_kind_name t,
                             to_status = st, to_result = Some res\<rparr>"
    by (subst append_event_frame(6) [OF app]) simp
  then show "map (map_option to_status \<circ> re_outcome) evs = [Some st]" by (simp add: evs)
  show "map re_kind evs = [ToolOutcomeRecorded]" using append_event_kind [OF app] by (simp add: evs)
  show "db_tools d' = change (requested_tool (run_id r) (tr_action_id res))
           (\<lambda>x. x\<lparr>tr_status := st, tr_updated := now\<rparr>) (db_tools d)"
    "db_submissions d' = db_submissions d" "db_runs d' = db_runs d" "db_reservations d' = db_reservations d"
    using upd append_event_frame(1-4) [OF app] by (auto simp: update_tools_def)
qed

lemma interrupts_effect:
  assumes "for_each (\<lambda>(k, t). tool_finished now (ids k) r (interrupted_result t) ToolInterrupted) kts d
     = Inr (d', evss)"
  shows "db_submissions d' = db_submissions d \<and> db_runs d' = db_runs d \<and> db_reservations d' = db_reservations d
     \<and> map re_kind (concat evss) = replicate (length kts) ToolOutcomeRecorded
     \<and> (\<forall>x \<in> set (db_tools d'). tr_run x = run_id r \<and> tr_status x = Requested
           \<longrightarrow> x \<in> set (db_tools d) \<and> x \<notin> snd ` set kts)"
  using assms
proof (induction kts arbitrary: d evss)
  case (Cons kt kts)
  obtain k t where kt: "kt = (k, t)" by (cases kt)
  obtain d1 evs rest where one: "tool_finished now (ids k) r (interrupted_result t) ToolInterrupted d = Inr (d1, evs)"
    and more: "for_each (\<lambda>(k, t). tool_finished now (ids k) r (interrupted_result t) ToolInterrupted) kts d1
       = Inr (d', rest)"
    and evss: "evss = evs # rest"
    using Cons.prems by (auto simp: kt)
  note eff = tool_finished_effect [OF one]
  have here: "x \<in> set (db_tools d) \<and> x \<noteq> t"
    if "x \<in> set (db_tools d1)" "tr_run x = run_id r" "tr_status x = Requested" for x
  proof -
    let ?p = "requested_tool (run_id r) (tr_id t)"
    have "db_tools d1 = change ?p (\<lambda>x. x\<lparr>tr_status := ToolInterrupted, tr_updated := now\<rparr>) (db_tools d)"
      using eff(1) by (simp add: interrupted_result_def)
    with that(1) obtain y where y: "y \<in> set (db_tools d)"
      and x: "x = (if ?p y then y\<lparr>tr_status := ToolInterrupted, tr_updated := now\<rparr> else y)"
      by (auto simp: change_def)
    have "\<not> ?p y" using x that(3) by auto
    moreover have "?p t" if "x = t" using that \<open>tr_run x = run_id r\<close> \<open>tr_status x = Requested\<close>
      by (simp add: requested_tool_def)
    ultimately show ?thesis using x y by auto
  qed
  note ih = Cons.IH [OF more]
  have "db_submissions d' = db_submissions d" "db_runs d' = db_runs d" "db_reservations d' = db_reservations d"
    using ih eff(2,3,6) by simp_all
  moreover have "map re_kind (concat evss) = replicate (length (kt # kts)) ToolOutcomeRecorded"
    using ih eff(4) by (simp add: evss)
  moreover have "x \<in> set (db_tools d) \<and> x \<notin> snd ` set (kt # kts)"
    if "x \<in> set (db_tools d')" "tr_run x = run_id r \<and> tr_status x = Requested" for x
  proof -
    have "x \<in> set (db_tools d1)" "x \<notin> snd ` set kts" using ih that by blast+
    then show ?thesis using here that(2) by (simp add: kt)
  qed
  ultimately show ?case by blast
qed simp

lemma end_run_effect:
  assumes "end_run now ids r st k msg d = Inr (d', evs)"
  shows "db_submissions d' = change (\<lambda>x. sr_id x = run_inbound r) (\<lambda>x. x\<lparr>sr_status := st, sr_err := msg\<rparr>) (db_submissions d)"
    and "db_runs d' = change (\<lambda>x. rr_id x = run_id r)
           (\<lambda>x. x\<lparr>rr_status := st, rr_err := msg, rr_completed := Some now\<rparr>) (db_runs d)"
    and "\<forall>t \<in> set (db_tools d'). tr_run t = run_id r \<longrightarrow> tr_status t \<noteq> Requested"
    and "map re_kind evs = replicate (length (filter (\<lambda>t. tr_run t = run_id r \<and> tr_status t = Requested) (db_tools d)))
           ToolOutcomeRecorded @ [k]"
    and "db_reservations d' = db_reservations d"
proof -
  let ?ts = "filter (\<lambda>t. tr_run t = run_id r \<and> tr_status t = Requested) (db_tools d)"
  obtain d1 evss d2 n d3 m e where
    ints: "for_each (\<lambda>(k, t). tool_finished now (ids k) r (interrupted_result t) ToolInterrupted)
             (List.enumerate 0 ?ts) d = Inr (d1, evss)"
    and subs: "update_submissions (\<lambda>x. sr_id x = run_inbound r) (\<lambda>x. x\<lparr>sr_status := st, sr_err := msg\<rparr>) d1 = Inr (d2, n)"
    and runs: "update_runs (\<lambda>x. rr_id x = run_id r)
                 (\<lambda>x. x\<lparr>rr_status := st, rr_err := msg, rr_completed := Some now\<rparr>) d2 = Inr (d3, m)"
    and app: "append_event now ((bare_event k (run_conv r) (run_id r) (run_inbound r))
                 \<lparr>re_created := Some now,
                  re_run := Some (r\<lparr>run_status := st, run_err := msg, run_completed := Some now\<rparr>)\<rparr>) d3 = Inr (d', e)"
    and evs: "evs = concat evss @ [e]"
    using assms by (auto simp: end_run_def interrupt_requested_tools_def)
  note eff = interrupts_effect [OF ints]
  have d2: "db_submissions d2 = change (\<lambda>x. sr_id x = run_inbound r) (\<lambda>x. x\<lparr>sr_status := st, sr_err := msg\<rparr>) (db_submissions d1)"
    "db_runs d2 = db_runs d1" "db_tools d2 = db_tools d1" "db_reservations d2 = db_reservations d1"
    using subs by (auto simp: update_submissions_def Let_def split: if_splits)
  have d3: "db_runs d3 = change (\<lambda>x. rr_id x = run_id r)
      (\<lambda>x. x\<lparr>rr_status := st, rr_err := msg, rr_completed := Some now\<rparr>) (db_runs d2)"
    "db_submissions d3 = db_submissions d2" "db_tools d3 = db_tools d2" "db_reservations d3 = db_reservations d2"
    using runs by (auto simp: update_runs_def)
  note last = append_event_frame(1-4) [OF app]
  show "db_reservations d' = db_reservations d" using eff d2 d3 last by simp
  show "db_submissions d' = change (\<lambda>x. sr_id x = run_inbound r) (\<lambda>x. x\<lparr>sr_status := st, sr_err := msg\<rparr>) (db_submissions d)"
    using eff d2 d3 last by simp
  show "db_runs d' = change (\<lambda>x. rr_id x = run_id r)
           (\<lambda>x. x\<lparr>rr_status := st, rr_err := msg, rr_completed := Some now\<rparr>) (db_runs d)"
    using eff d2 d3 last by simp
  have tools: "db_tools d' = db_tools d1" using d2 d3 last by simp
  have "snd ` set (List.enumerate 0 ?ts) = set ?ts" by (metis list.set_map map_snd_enumerate)
  then show "\<forall>t \<in> set (db_tools d'). tr_run t = run_id r \<longrightarrow> tr_status t \<noteq> Requested"
    using eff unfolding tools by fastforce
  show "map re_kind evs = replicate (length ?ts) ToolOutcomeRecorded @ [k]"
    using eff append_event_kind [OF app] by (simp add: evs)
qed

text \<open>What the log gets of the end of a run.\<close>

definition interrupted_outcome :: "rt_run \<Rightarrow> tool_row \<Rightarrow> rt_event \<Rightarrow> bool" where
  "interrupted_outcome r t e \<longleftrightarrow> re_kind e = ToolOutcomeRecorded \<and> re_conv e = run_conv r
     \<and> (\<exists>out. re_outcome e = Some out \<and> to_call_id out = tr_id t \<and> to_status out = ToolInterrupted
          \<and> to_result out = Some (interrupted_result t))"

lemma tool_finished_log:
  assumes "tool_finished now oid r (interrupted_result t) ToolInterrupted d = Inr (d', evs)"
  shows "\<exists>e. evs = [e] \<and> db_events d' = db_events d @ [event_row_of e now] \<and> interrupted_outcome r t e"
proof -
  let ?i = "tr_action_id (interrupted_result t)"
  obtain d1 n e and u :: tool_row where upd: "update_tools (requested_tool (run_id r) ?i)
      (\<lambda>x. x\<lparr>tr_status := ToolInterrupted, tr_updated := now\<rparr>) d = Inr (d1, n)"
    and app: "append_event now ((bare_event ToolOutcomeRecorded (run_conv r) (run_id r) (run_inbound r))
                 \<lparr>re_created := Some now,
                  re_outcome := Some \<lparr>to_id = oid, to_call_id = ?i, to_kind = tr_kind_name u,
                                      to_status = ToolInterrupted, to_result = Some (interrupted_result t)\<rparr>\<rparr>) d1 = Inr (d', e)"
    and evs: "evs = [e]"
    using assms by (fastforce simp: tool_finished_def Let_def)
  have "re_outcome e = Some \<lparr>to_id = oid, to_call_id = ?i, to_kind = tr_kind_name u,
      to_status = ToolInterrupted, to_result = Some (interrupted_result t)\<rparr>"
    "re_conv e = run_conv r" "re_kind e = ToolOutcomeRecorded"
    by (subst append_event_frame(6) [OF app], simp)+
  then have "interrupted_outcome r t e" by (simp add: interrupted_outcome_def interrupted_result_def)
  moreover have "db_events d1 = db_events d" using upd by (auto simp: update_tools_def)
  ultimately show ?thesis using append_event_frame(7) [OF app] by (simp add: evs event_time_def)
qed

lemma interrupts_log:
  assumes "for_each (\<lambda>(k, t). tool_finished now (ids k) r (interrupted_result t) ToolInterrupted) kts d = Inr (d', evss)"
  shows "db_events d' = db_events d @ map (\<lambda>e. event_row_of e now) (concat evss)
     \<and> list_all2 (interrupted_outcome r) (map snd kts) (concat evss)"
  using assms
proof (induction kts arbitrary: d evss)
  case (Cons kt kts)
  obtain k t where kt: "kt = (k, t)" by (cases kt)
  obtain d1 evs rest where one: "tool_finished now (ids k) r (interrupted_result t) ToolInterrupted d = Inr (d1, evs)"
    and more: "for_each (\<lambda>(k, t). tool_finished now (ids k) r (interrupted_result t) ToolInterrupted) kts d1
       = Inr (d', rest)"
    and evss: "evss = evs # rest"
    using Cons.prems by (auto simp: kt)
  from tool_finished_log [OF one] Cons.IH [OF more] show ?case by (auto simp: kt evss)
qed simp

lemma end_run_log:
  assumes "end_run now ids r st k msg d = Inr (d', evs)"
  shows "db_events d' = db_events d @ map (\<lambda>e. event_row_of e now) evs
     \<and> (\<exists>es e. evs = es @ [e] \<and> re_kind e = k \<and> re_conv e = run_conv r
          \<and> re_run e = Some (r\<lparr>run_status := st, run_err := msg, run_completed := Some now\<rparr>)
          \<and> list_all2 (interrupted_outcome r) (filter (\<lambda>t. tr_run t = run_id r \<and> tr_status t = Requested) (db_tools d)) es)"
proof -
  let ?ts = "filter (\<lambda>t. tr_run t = run_id r \<and> tr_status t = Requested) (db_tools d)"
  obtain d1 evss d2 n d3 m e where
    ints: "for_each (\<lambda>(k, t). tool_finished now (ids k) r (interrupted_result t) ToolInterrupted)
             (List.enumerate 0 ?ts) d = Inr (d1, evss)"
    and subs: "update_submissions (\<lambda>x. sr_id x = run_inbound r) (\<lambda>x. x\<lparr>sr_status := st, sr_err := msg\<rparr>) d1 = Inr (d2, n)"
    and runs: "update_runs (\<lambda>x. rr_id x = run_id r)
                 (\<lambda>x. x\<lparr>rr_status := st, rr_err := msg, rr_completed := Some now\<rparr>) d2 = Inr (d3, m)"
    and app: "append_event now ((bare_event k (run_conv r) (run_id r) (run_inbound r))
                 \<lparr>re_created := Some now,
                  re_run := Some (r\<lparr>run_status := st, run_err := msg, run_completed := Some now\<rparr>)\<rparr>) d3 = Inr (d', e)"
    and evs: "evs = concat evss @ [e]"
    using assms by (auto simp: end_run_def interrupt_requested_tools_def)
  have "db_events d3 = db_events d1"
    using subs runs by (auto simp: update_submissions_def update_runs_def Let_def split: if_splits)
  moreover have "re_kind e = k" "re_conv e = run_conv r"
    "re_run e = Some (r\<lparr>run_status := st, run_err := msg, run_completed := Some now\<rparr>)"
    by (subst append_event_frame(6) [OF app], simp)+
  ultimately show ?thesis
    using append_event_frame(7) [OF app] interrupts_log [OF ints] by (simp add: evs event_time_def)
qed

text \<open>C9. A run that fails leaves nothing open: none of its tool calls stays requested, and its
  submission and its run are failed with the message and a completion time. The log grows by exactly the
  events that are returned: for each call that was open, in order, the outcome that it was
  interrupted, and after them the failure of the run with the message.\<close>

theorem failed_run_settled:
  assumes "store_fail_run now ids r msg d = Inr (d', evs)"
  shows "(\<forall>t \<in> set (db_tools d'). tr_run t = run_id r \<longrightarrow> tr_status t \<noteq> Requested)
     \<and> (\<forall>x \<in> set (db_submissions d'). sr_id x = run_inbound r \<longrightarrow> sr_status x = Failed \<and> sr_err x = msg)
     \<and> (\<forall>x \<in> set (db_runs d'). rr_id x = run_id r \<longrightarrow> rr_status x = Failed \<and> rr_err x = msg \<and> rr_completed x = Some now)
     \<and> map re_kind evs = replicate (length (filter (\<lambda>t. tr_run t = run_id r \<and> tr_status t = Requested) (db_tools d)))
           ToolOutcomeRecorded @ [RunFailed]
     \<and> db_events d' = db_events d @ map (\<lambda>e. event_row_of e now) evs
     \<and> (\<exists>es e. evs = es @ [e] \<and> re_kind e = RunFailed \<and> re_conv e = run_conv r
          \<and> re_run e = Some (r\<lparr>run_status := Failed, run_err := msg, run_completed := Some now\<rparr>)
          \<and> list_all2 (interrupted_outcome r) (filter (\<lambda>t. tr_run t = run_id r \<and> tr_status t = Requested) (db_tools d)) es)"
proof -
  note eff = end_run_effect [OF assms [unfolded store_fail_run_def]] and log = end_run_log [OF assms [unfolded store_fail_run_def]]
  show ?thesis
    using eff(3) by (intro conjI log [THEN conjunct1] log [THEN conjunct2] eff(4)) (auto simp: eff(1,2) change_def)
qed

lemma failed_run_settled_witness:
  "\<exists>d' evs. store_fail_run 6 (\<lambda>k. ''x'') sample_running ''down'' working_db = Inr (d', evs)
     \<and> map re_kind evs = [ToolOutcomeRecorded, RunFailed]
     \<and> map er_kind (db_events d') = map er_kind (db_events working_db) @ [ToolOutcomeRecorded, RunFailed]"
proof -
  have "case store_fail_run 6 (\<lambda>k. ''x'') sample_running ''down'' working_db of
      Inr (d', evs) \<Rightarrow> True | Inl e \<Rightarrow> False" by code_simp
  then obtain d' evs where e: "store_fail_run 6 (\<lambda>k. ''x'') sample_running ''down'' working_db = Inr (d', evs)"
    by (auto split: sum.splits)
  have "length (filter (\<lambda>t. tr_run t = run_id sample_running \<and> tr_status t = Requested) (db_tools working_db)) = 1"
    by code_simp
  with failed_run_settled [OF e] have kinds: "map re_kind evs = [ToolOutcomeRecorded, RunFailed]"
    and "db_events d' = db_events working_db @ map (\<lambda>e. event_row_of e 6) evs" by simp_all
  then have "map er_kind (db_events d') = map er_kind (db_events working_db) @ [ToolOutcomeRecorded, RunFailed]"
    by (simp add: event_row_of_def comp_def)
  with e kinds show ?thesis by (intro exI conjI)
qed

lemma fail_rows_effect:
  assumes "fail_rows now ids k xs d = (d', None)"
  shows "db_reservations d' = db_reservations d
     \<and> (\<forall>x \<in> set (db_runs d'). rr_status x = Running \<longrightarrow> x \<in> set (db_runs d) \<and> rr_id x \<notin> rr_id ` set xs)"
  using assms
proof (induction xs arbitrary: k d)
  case (Cons y ys)
  then obtain d1 evs where one: "store_fail_run now (ids k) (run_of_row y) ''execution was interrupted; outcome unknown'' d
      = Inr (d1, evs)" and more: "fail_rows now ids (Suc k) ys d1 = (d', None)"
    by (auto split: sum.splits)
  note eff = end_run_effect [OF one [unfolded store_fail_run_def]]
  have here: "x \<in> set (db_runs d) \<and> rr_id x \<noteq> rr_id y" if "x \<in> set (db_runs d1)" "rr_status x = Running" for x
  proof -
    from change_member [OF that(1) [unfolded eff(2)]] obtain z where z: "z \<in> set (db_runs d)"
      and x: "x = (if rr_id z = run_id (run_of_row y) then z\<lparr>rr_status := Failed,
                  rr_err := ''execution was interrupted; outcome unknown'', rr_completed := Some now\<rparr> else z)"
      by blast
    have "rr_id z \<noteq> run_id (run_of_row y)" using x that(2) by auto
    with x z show ?thesis by (simp add: run_of_row_def)
  qed
  show ?case using Cons.IH [OF more] here eff(5) by auto
qed simp

text \<open>C12. Recovery that reports no error leaves no run running and no workspace reserved.\<close>

theorem recovery_settles:
  assumes "recover_running now ids d = (d', None)"
  shows "db_reservations d' = [] \<and> (\<forall>x \<in> set (db_runs d'). rr_status x \<noteq> Running)"
proof -
  let ?d = "exec_tx clear_reservations d"
  have d1: "db_reservations ?d = []" "db_runs ?d = db_runs d"
    by (simp_all add: exec_tx_def clear_reservations_def)
  have "fail_rows now ids 0 (running_rows ?d) ?d = (d', None)" using assms by (simp add: recover_running_def Let_def)
  note eff = fail_rows_effect [OF this]
  have "x \<in> set (running_rows ?d)" if "x \<in> set (db_runs ?d)" "rr_status x = Running" for x
    using that by (simp add: running_rows_def)
  then show ?thesis using eff d1 by auto
qed

lemma recovery_settles_witness:
  "\<exists>d'. recover_running 6 (\<lambda>k j. ''x'') working_db = (d', None)
     \<and> db_reservations d' = [] \<and> map rr_status (db_runs d') = [Failed]"
proof -
  have "(case recover_running 6 (\<lambda>k j. ''x'') working_db of (d', err) \<Rightarrow>
      err = None \<and> map rr_status (db_runs d') = [Failed])" by code_simp
  then obtain d' where e: "recover_running 6 (\<lambda>k j. ''x'') working_db = (d', None)"
    and f: "map rr_status (db_runs d') = [Failed]"
    by (auto split: prod.splits)
  with recovery_settles [OF e] show ?thesis by (intro exI [of _ d'] conjI) simp_all
qed

end
