(* ===== verification/Store_Events.thy ===== *)
theory Store_Events
  imports Store_Props Store_Live
begin

section \<open>The events an operation returns are the public events it appends\<close>

text \<open>
  The manager broadcasts what an operation of the store returns. Each operation is shown to
  append exactly those events, of its conversation, besides internal ones, and to keep the
  rows of the runs that it does not end.
\<close>

subsection \<open>Growth of the log\<close>

definition log_of :: "db \<Rightarrow> rt_event list" where
  "log_of d = map er_payload (db_events d)"

definition public_of :: "string \<Rightarrow> db \<Rightarrow> rt_event list" where
  "public_of cid d = filter (\<lambda>e. re_conv e = cid \<and> \<not> agent_kind (re_kind e)) (log_of d)"

text \<open>The public log of \<open>cid\<close> grows by \<open>evs\<close>, that of the others stays.\<close>

definition adds :: "string \<Rightarrow> rt_event list \<Rightarrow> db \<Rightarrow> db \<Rightarrow> bool" where
  "adds cid evs d d' \<longleftrightarrow> (\<forall>c. public_of c d' = public_of c d @ (if c = cid then evs else []))
     \<and> prefix (log_of d) (log_of d')"

lemma adds_same: "db_events d' = db_events d \<Longrightarrow> adds cid [] d d'"
  by (simp add: adds_def public_of_def log_of_def)

lemma adds_trans: "adds cid es d d1 \<Longrightarrow> adds cid fs d1 d2 \<Longrightarrow> adds cid (es @ fs) d d2"
  by (auto simp: adds_def elim: prefix_order.trans)

lemma append_event_log:
  "append_event now e d = Inr (d', e') \<Longrightarrow> log_of d' = log_of d @ [e'] \<and> re_conv e' = re_conv e \<and> re_kind e' = re_kind e"
  by (auto elim!: append_event_Inr simp: log_of_def event_row_of_def)

lemma append_event_adds:
  assumes "append_event now e d = Inr (d', e')" and "\<not> agent_kind (re_kind e)" and "re_conv e = cid"
  shows "adds cid [e'] d d'"
  using append_event_log [OF assms(1)] assms(2,3) by (simp add: adds_def public_of_def)

lemma append_event_hidden:
  assumes "append_event now e d = Inr (d', e')" and "agent_kind (re_kind e)"
  shows "adds cid [] d d'"
  using append_event_log [OF assms(1)] assms(2) by (simp add: adds_def public_of_def)

lemma create_adds: "create_conversation cv d = Inr (d', u) \<Longrightarrow> adds cid [] d d'"
  by (rule adds_same) (auto simp: create_conversation_def insert_conversation_def Let_def split: if_splits)

lemma accept_adds:
  assumes "accept now i cid inp d = Inr (d', a, evs)"
  shows "adds cid evs d d'"
proof (cases "find_key cid (sub_key inp) d")
  case (Some r)
  with assms have "d' = d" "evs = []" by (auto simp: accept_def)
  then show ?thesis by (simp add: adds_same)
next
  case None
  with assms have new: "accept_new now i cid inp d = Inr (d', a, evs)" by (auto simp: accept_def)
  then obtain d0 e where ins: "insert_submission (queued_row now i cid inp) d = Inr (d0, ())"
    and app: "append_event now ((bare_event InputAccepted cid [] i)\<lparr>re_input := Some inp, re_created := Some now\<rparr>) d0
          = Inr (d', e)" and evs: "evs = [e]"
    by (auto simp: accept_new_def conversation_tx_def)
  have "adds cid [] d d0" using ins by (intro adds_same) (auto simp: insert_submission_def split: if_splits)
  from adds_trans [OF this append_event_adds [OF app]] show ?thesis by (simp add: evs)
qed

lemma claim_row_adds:
  assumes "claim_row now rid r d = Inr (d', c)"
  shows "adds (sr_conv r) (cl_events c) d d'" and "cl_run c = started_run now rid r"
    and "cv_id (cl_conversation c) = sr_conv r"
proof -
  obtain d1 d2 d3 e1 e2 cv where
    cv: "conversation_tx (sr_conv r) d = Inr (d, cv)"
    and d1: "update_submissions (\<lambda>x. sr_id x = sr_id r \<and> sr_status x = Queued) (\<lambda>x. x\<lparr>sr_status := Running\<rparr>) d
           = Inr (d1, 1)"
    and d2: "insert_run (row_of_run (started_run now rid r)) d1 = Inr (d2, ())"
    and d3: "append_event now ((bare_event InputAdmitted (sr_conv r) rid (sr_id r))\<lparr>re_created := Some now\<rparr>) d2
           = Inr (d3, e1)"
    and d4: "append_event now ((bare_event RunStarted (sr_conv r) rid (sr_id r))
             \<lparr>re_run := Some (started_run now rid r), re_created := Some now\<rparr>) d3 = Inr (d', e2)"
    and c: "cl_events c = [e1, e2]" "cl_run c = started_run now rid r" "cl_conversation c = cv"
    using assms
    by (fastforce simp: claim_row_def conversation_tx_def Let_def dest!: load_input_state load_context_state)
  have "adds (sr_conv r) [] d d1" using d1 by (intro adds_same) (auto simp: update_submissions_def Let_def split: if_splits)
  moreover have "adds (sr_conv r) [] d1 d2" using d2 by (intro adds_same) (auto simp: insert_run_def split: if_splits)
  moreover have "adds (sr_conv r) [e1] d2 d3" by (rule append_event_adds [OF d3]) simp_all
  moreover have "adds (sr_conv r) [e2] d3 d'" by (rule append_event_adds [OF d4]) simp_all
  ultimately have "adds (sr_conv r) ((([] @ []) @ [e1]) @ [e2]) d d'" by (intro adds_trans)
  then show "adds (sr_conv r) (cl_events c) d d'" by (simp add: c)
  show "cl_run c = started_run now rid r" by (fact c(2))
  show "cv_id (cl_conversation c) = sr_conv r"
    using cv by (auto simp: conversation_tx_def c(3) dest: find_conv_Some)
qed

lemma claim_adds:
  assumes "claim_runnable now rid d = Inr (d', Some c)"
  shows "adds (run_conv (cl_run c)) (cl_events c) d d'" and "cv_id (cl_conversation c) = run_conv (cl_run c)"
proof -
  obtain r where "claim_row now rid r d = Inr (d', c)"
    using assms by (auto simp: claim_runnable_def split: option.splits)
  note row = claim_row_adds [OF this]
  show "adds (run_conv (cl_run c)) (cl_events c) d d'" "cv_id (cl_conversation c) = run_conv (cl_run c)"
    using row by (simp_all add: started_run_def)
qed

lemma claim_none: "claim_runnable now rid d = Inr (d', None) \<Longrightarrow> d' = d \<and> next_runnable d = None"
  by (auto simp: claim_runnable_def split: option.splits)

lemma progress_adds:
  assumes "append_environment_progress now r p d = Inr (d', e)"
  shows "adds (run_conv r) [e] d d'"
  using assms
  by (auto simp: append_environment_progress_def running_run_def split: if_splits intro!: append_event_adds)

lemma valid_agent_event_kind: "valid_agent_event e \<Longrightarrow> agent_kind (re_kind e)"
  by (auto simp: valid_agent_event_def agent_payload_fits_def split: event_kind.splits)

lemma agent_adds:
  assumes "append_agent_event now r ev d = Inr (d', u)"
  shows "adds cid [] d d'"
  using assms
  by (auto simp: append_agent_event_def running_run_def split: if_splits
      intro!: append_event_hidden dest!: valid_agent_event_kind)

lemma insert_tools_same:
  "for_each (\<lambda>p. insert_tool (g p)) ps d = Inr (d', us) \<Longrightarrow> db_events d' = db_events d \<and> db_runs d' = db_runs d
     \<and> db_submissions d' = db_submissions d \<and> db_reservations d' = db_reservations d"
  by (induction ps arbitrary: d us) (fastforce simp: insert_tool_def split: if_splits)+

lemma commit_adds:
  assumes "commit_assistant_turn now oid r parts d = Inr (d', evs)"
  shows "adds (run_conv r) evs d d'" and "db_runs d' = db_runs d"
proof -
  obtain all tools d1 e us where
    app: "append_event now ((bare_event AssistantCommitted (run_conv r) (run_id r) (run_inbound r))
                 \<lparr>re_output := Some \<lparr>ao_id = oid, ao_parts = all, ao_final = False\<rparr>, re_created := Some now\<rparr>) d = Inr (d1, e)"
    and each: "for_each (\<lambda>p. insert_tool (requested_row now (run_conv r) (run_id r) (run_inbound r) p)) tools d1 = Inr (d', us)"
    and evs: "evs = [e]"
    using assms by (auto simp: commit_assistant_turn_def)
  note same = insert_tools_same [OF each]
  have "adds (run_conv r) [e] d d1" by (rule append_event_adds [OF app]) simp_all
  moreover have "adds (run_conv r) [] d1 d'" using same by (simp add: adds_same)
  ultimately show "adds (run_conv r) evs d d'" using adds_trans by (fastforce simp: evs)
  show "db_runs d' = db_runs d" using same append_event_frame(2) [OF app] by simp
qed

lemma tool_finished_adds:
  assumes "tool_finished now oid r res st d = Inr (d', evs)"
  shows "adds (run_conv r) evs d d'"
proof -
  obtain d1 n e and t :: tool_row where upd: "update_tools (requested_tool (run_id r) (tr_action_id res))
      (\<lambda>x. x\<lparr>tr_status := st, tr_updated := now\<rparr>) d = Inr (d1, n)"
    and app: "append_event now ((bare_event ToolOutcomeRecorded (run_conv r) (run_id r) (run_inbound r))
                 \<lparr>re_created := Some now,
                  re_outcome := Some \<lparr>to_id = oid, to_call_id = tr_action_id res, to_kind = tr_kind_name t,
                                      to_status = st, to_result = Some res\<rparr>\<rparr>) d1 = Inr (d', e)"
    and evs: "evs = [e]"
    using assms by (fastforce simp: tool_finished_def Let_def)
  have "adds (run_conv r) [] d d1" using upd by (intro adds_same) (auto simp: update_tools_def)
  moreover have "adds (run_conv r) [e] d1 d'" by (rule append_event_adds [OF app]) simp_all
  ultimately show ?thesis using adds_trans by (fastforce simp: evs)
qed

lemma completed_adds:
  assumes "tool_completed now oid r res d = Inr (d', evs)"
  shows "adds (run_conv r) evs d d'" and "db_runs d' = db_runs d"
  using assms tool_finished_adds tool_finished_effect(3) unfolding tool_completed_def by blast+

lemma denied_adds:
  assumes "tool_denied now oid r res d = Inr (d', evs)"
  shows "adds (run_conv r) evs d d'" and "db_runs d' = db_runs d"
proof -
  have "tool_finished now oid r res ToolDenied d = Inr (d', evs)"
    using assms by (auto simp: tool_denied_def split: if_splits)
  then show "adds (run_conv r) evs d d'" "db_runs d' = db_runs d"
    using tool_finished_adds tool_finished_effect(3) by blast+
qed

lemma interrupts_adds:
  "for_each (\<lambda>(k, t). tool_finished now (ids k) r (interrupted_result t) ToolInterrupted) kts d = Inr (d', evss)
     \<Longrightarrow> adds (run_conv r) (concat evss) d d'"
proof (induction kts arbitrary: d evss)
  case (Cons kt kts)
  then obtain d1 evs rest where "tool_finished now (ids (fst kt)) r (interrupted_result (snd kt)) ToolInterrupted d = Inr (d1, evs)"
    and "for_each (\<lambda>(k, t). tool_finished now (ids k) r (interrupted_result t) ToolInterrupted) kts d1 = Inr (d', rest)"
    and "evss = evs # rest"
    by (auto simp: split_def)
  then show ?case using Cons.IH tool_finished_adds adds_trans by fastforce
qed (simp add: adds_same)

lemma end_run_adds:
  assumes "end_run now ids r st k msg d = Inr (d', evs)" and "\<not> agent_kind k"
  shows "adds (run_conv r) evs d d'"
proof -
  obtain kts d1 evss d2 n d3 m e where
    ints: "for_each (\<lambda>(k, t). tool_finished now (ids k) r (interrupted_result t) ToolInterrupted) kts d = Inr (d1, evss)"
    and subs: "update_submissions (\<lambda>x. sr_id x = run_inbound r) (\<lambda>x. x\<lparr>sr_status := st, sr_err := msg\<rparr>) d1 = Inr (d2, n)"
    and runs: "update_runs (\<lambda>x. rr_id x = run_id r)
                 (\<lambda>x. x\<lparr>rr_status := st, rr_err := msg, rr_completed := Some now\<rparr>) d2 = Inr (d3, m)"
    and app: "append_event now ((bare_event k (run_conv r) (run_id r) (run_inbound r))
                 \<lparr>re_created := Some now,
                  re_run := Some (r\<lparr>run_status := st, run_err := msg, run_completed := Some now\<rparr>)\<rparr>) d3 = Inr (d', e)"
    and evs: "evs = concat evss @ [e]"
    using assms by (auto simp: end_run_def interrupt_requested_tools_def)
  have "adds (run_conv r) [] d1 d2" using subs by (intro adds_same) (auto simp: update_submissions_def Let_def split: if_splits)
  moreover have "adds (run_conv r) [] d2 d3" using runs by (intro adds_same) (auto simp: update_runs_def)
  moreover have "adds (run_conv r) [e] d3 d'" by (rule append_event_adds [OF app]) (simp_all add: assms(2))
  ultimately have "adds (run_conv r) (((concat evss @ []) @ []) @ [e]) d d'"
    by (intro adds_trans [OF adds_trans [OF adds_trans [OF interrupts_adds [OF ints]]]])
  then show ?thesis by (simp add: evs)
qed

lemma fail_adds: "store_fail_run now ids r msg d = Inr (d', evs) \<Longrightarrow> adds (run_conv r) evs d d'"
  unfolding store_fail_run_def by (erule end_run_adds) simp

lemma stop_adds: "store_stop_run now ids r d = Inr (d', evs) \<Longrightarrow> adds (run_conv r) evs d d'"
  unfolding store_stop_run_def by (erule end_run_adds) simp

lemma finish_adds:
  assumes "store_finish_run now oid r answer d = Inr (d', evs)"
  shows "adds (run_conv r) evs d d'"
    and "db_runs d' = change (\<lambda>x. rr_id x = run_id r) (\<lambda>x. x\<lparr>rr_status := Completed, rr_completed := Some now\<rparr>) (db_runs d)"
proof -
  obtain d1 n d2 m d3 e1 e2 where
    subs: "update_submissions (\<lambda>x. sr_id x = run_inbound r) (\<lambda>x. x\<lparr>sr_status := Completed\<rparr>) d = Inr (d1, n)"
    and runs: "update_runs (\<lambda>x. rr_id x = run_id r) (\<lambda>x. x\<lparr>rr_status := Completed, rr_completed := Some now\<rparr>) d1 = Inr (d2, m)"
    and a1: "append_event now ((bare_event AssistantCommitted (run_conv r) (run_id r) (run_inbound r))
                 \<lparr>re_created := Some now,
                  re_output := Some \<lparr>ao_id = oid, ao_parts = [text_message_part answer], ao_final = True\<rparr>\<rparr>) d2 = Inr (d3, e1)"
    and a2: "append_event now ((bare_event RunCompleted (run_conv r) (run_id r) (run_inbound r))
                 \<lparr>re_created := Some now, re_run := Some (r\<lparr>run_status := Completed, run_completed := Some now\<rparr>)\<rparr>) d3 = Inr (d', e2)"
    and evs: "evs = [e1, e2]"
    using assms by (auto simp: store_finish_run_def)
  have "adds (run_conv r) [] d d1" using subs by (intro adds_same) (auto simp: update_submissions_def Let_def split: if_splits)
  moreover have "adds (run_conv r) [] d1 d2" using runs by (intro adds_same) (auto simp: update_runs_def)
  moreover have "adds (run_conv r) [e1] d2 d3" by (rule append_event_adds [OF a1]) simp_all
  moreover have "adds (run_conv r) [e2] d3 d'" by (rule append_event_adds [OF a2]) simp_all
  ultimately have "adds (run_conv r) ((([] @ []) @ [e1]) @ [e2]) d d'" by (intro adds_trans)
  then show "adds (run_conv r) evs d d'" by (simp add: evs)
  have "db_runs d1 = db_runs d" using subs by (auto simp: update_submissions_def Let_def split: if_splits)
  then show "db_runs d' = change (\<lambda>x. rr_id x = run_id r) (\<lambda>x. x\<lparr>rr_status := Completed, rr_completed := Some now\<rparr>) (db_runs d)"
    using runs append_event_frame(2) [OF a1] append_event_frame(2) [OF a2] by (auto simp: update_runs_def)
qed

subsection \<open>The public log of a conversation\<close>

lemma public_conv_log:
  assumes "log_ok d"
  shows "public_of cid d = filter (\<lambda>e. \<not> agent_kind (re_kind e)) (map er_payload (conv_log cid d))"
proof -
  have "filter (\<lambda>e. re_conv e = cid) (map er_payload rs) = map er_payload (filter (\<lambda>r. er_conv r = cid) rs)"
    if "set rs \<subseteq> set (db_events d)" for rs
    using that log_ok_rows [OF assms] by (induction rs) auto
  then have "filter (\<lambda>e. re_conv e = cid) (log_of d) = map er_payload (conv_log cid d)"
    by (simp add: log_of_def conv_log_def)
  then have "filter (\<lambda>e. \<not> agent_kind (re_kind e)) (filter (\<lambda>e. re_conv e = cid) (log_of d))
      = filter (\<lambda>e. \<not> agent_kind (re_kind e)) (map er_payload (conv_log cid d))" by (rule arg_cong)
  then show ?thesis by (simp only: public_of_def filter_filter conj_commute)
qed

lemma conv_log_cursors:
  assumes "log_ok d"
  obtains n where "map er_cursor (conv_log cid d) = [1..<n]"
proof (cases "cid \<in> set (conv_ids d)")
  case True
  then obtain cr where "cr \<in> set (db_conversations d)" "cv_id (cr_conv cr) = cid" by (auto simp: conv_ids_def)
  with assms that show thesis unfolding log_ok_def by blast
next
  case False
  with assms have "conv_log cid d = []" by (auto simp: log_ok_def conv_log_def filter_empty_conv)
  with that [of 1] show thesis by simp
qed

lemma public_increasing:
  assumes "log_ok d"
  shows "sorted_wrt (<) (map re_id (public_of cid d))" and "\<forall>e \<in> set (public_of cid d). 0 < re_id e"
proof -
  obtain n where n: "map er_cursor (conv_log cid d) = [1..<n]" by (rule conv_log_cursors [OF assms])
  have ids: "map re_id (map er_payload (conv_log cid d)) = [1..<n]" by (simp only: conv_log_ids [OF assms] n)
  then have "sorted_wrt (<) (map re_id (map er_payload (conv_log cid d)))" by (simp only: sorted_wrt_upt)
  then show "sorted_wrt (<) (map re_id (public_of cid d))"
    unfolding public_conv_log [OF assms] by (rule filter_ordered)
  have "re_id e \<in> set [1..<n]" if "e \<in> set (public_of cid d)" for e
    using that unfolding public_conv_log [OF assms] ids [symmetric] by auto
  then show "\<forall>e \<in> set (public_of cid d). 0 < re_id e" by fastforce
qed

lemma events_public:
  assumes "log_ok d" and "events cid start d = Inr (d', evs)"
  shows "evs = filter (\<lambda>e. start < re_id e) (public_of cid d)"
  using events_read [OF assms] by (simp add: public_conv_log [OF assms(1)] filter_filter conj_commute)

end
