(* ===== verification/Store_Replay.thy ===== *)
theory Store_Replay
  imports Store_Ops
begin

section \<open>Rebuilding the indexes from the log (runtime/sqlite/rebuild.go)\<close>

text \<open>
  The tables of submissions, runs and tool calls are indexes of the log. Opening the store
  clears them and replays every conversation's log, in one transaction. The replay checks
  each event against the state built so far and fails on the first that does not fit.
\<close>

subsection \<open>Replaying one event\<close>

text \<open>The admissions that wait for their run start: (conversation, input) to run.\<close>

type_synonym admissions = "((string \<times> string) \<times> string) list"

text \<open>The zero time of the Go library, in microseconds.\<close>

definition zero_micros :: int where
  "zero_micros = - 62135596800000000"

definition event_micros :: "rt_event \<Rightarrow> int" where
  "event_micros e = (case re_created e of Some t \<Rightarrow> t | None \<Rightarrow> zero_micros)"

text \<open>\<^verbatim>\<open>updateOne\<close>: an update that must hit exactly one row.\<close>

definition update_one :: "nat tx \<Rightarrow> unit tx" where
  "update_one m = after m (\<lambda>n. require (n = 1) (Invalid ''expected one index row''))"

definition replay_accepted :: "rt_event \<Rightarrow> admissions \<Rightarrow> admissions tx" where
  "replay_accepted e adm =
     (case re_input e of
        Some inp \<Rightarrow>
          if re_inbound e = [] then bad (Invalid ''accepted input has no identity or payload'')
          else after (lift_error (validate_input inp))
            (\<lambda>_. after (insert_submission
                   \<lparr>sr_id = re_inbound e, sr_conv = re_conv e, sr_key = sub_key inp, sr_message_id = re_inbound e,
                    sr_revision = sub_revision inp, sr_status = Queued, sr_err = [], sr_accepted = event_micros e\<rparr>)
              (\<lambda>_. ok adm))
      | None \<Rightarrow> bad (Invalid ''accepted input has no identity or payload''))"

definition replay_admitted :: "rt_event \<Rightarrow> admissions \<Rightarrow> admissions tx" where
  "replay_admitted e adm =
     (if re_run_id e = [] \<or> re_inbound e = [] then bad (Invalid ''admission has no run or input'')
      else if map_of adm (re_conv e, re_inbound e) \<noteq> None then bad (Invalid ''input admitted twice'')
      else ok (((re_conv e, re_inbound e), re_run_id e) # adm))"

definition replay_started :: "rt_event \<Rightarrow> admissions \<Rightarrow> admissions tx" where
  "replay_started e adm =
     (case re_run e of
        None \<Rightarrow> bad (Invalid ''invalid run start'')
      | Some r \<Rightarrow>
          if run_id r \<noteq> re_run_id e \<or> run_conv r \<noteq> re_conv e \<or> run_inbound r \<noteq> re_inbound e \<or> run_status r \<noteq> Running
          then bad (Invalid ''invalid run start'')
          else if (case map_of adm (re_conv e, run_inbound r) of Some i \<Rightarrow> i | None \<Rightarrow> []) \<noteq> run_id r
          then bad (Invalid ''run start has no matching admission'')
          else after (update_one (update_submissions
                   (\<lambda>x. sr_id x = run_inbound r \<and> sr_conv x = re_conv e \<and> sr_revision x = run_revision r \<and> sr_status x = Queued)
                   (\<lambda>x. x\<lparr>sr_status := Running\<rparr>)))
            (\<lambda>_. after (insert_run
                   \<lparr>rr_id = run_id r, rr_conv = re_conv e, rr_sub = run_inbound r, rr_inbound = run_inbound r,
                    rr_revision = run_revision r, rr_status = run_status r, rr_err = [], rr_started = run_started r,
                    rr_completed = None\<rparr>)
              (\<lambda>_. ok (filter (\<lambda>a. fst a \<noteq> (re_conv e, run_inbound r)) adm))))"

definition replay_part :: "rt_event \<Rightarrow> message_part \<Rightarrow> unit tx" where
  "replay_part e p =
     (if mp_type p \<noteq> ''tool_call'' then ok ()
      else if mp_call_id p = [] \<or> mp_kind p = [] \<or> re_run_id e = []
        then bad (Invalid ''tool request has no identity or kind'')
      else insert_tool
        \<lparr>tr_id = mp_call_id p, tr_conv = re_conv e, tr_run = re_run_id e, tr_inbound = re_inbound e,
         tr_kind_name = mp_kind p, tr_status = Requested, tr_updated = event_micros e\<rparr>)"

definition replay_output :: "rt_event \<Rightarrow> admissions \<Rightarrow> admissions tx" where
  "replay_output e adm =
     (case re_output e of
        None \<Rightarrow> bad (Invalid ''assistant output has no payload'')
      | Some out \<Rightarrow> after (for_each (replay_part e) (ao_parts out)) (\<lambda>_. ok adm))"

definition replay_outcome :: "rt_event \<Rightarrow> admissions \<Rightarrow> admissions tx" where
  "replay_outcome e adm =
     (case re_outcome e of
        None \<Rightarrow> bad (Invalid ''invalid tool outcome'')
      | Some out \<Rightarrow>
          if to_call_id out = [] \<or> to_result out = None
             \<or> to_status out \<notin> {ToolCompleted, ToolFailed, ToolDenied, ToolInterrupted}
          then bad (Invalid ''invalid tool outcome'')
          else after (update_one (update_tools
                   (\<lambda>t. tr_conv t = re_conv e \<and> tr_run t = re_run_id e \<and> tr_id t = to_call_id out
                      \<and> tr_kind_name t = to_kind out \<and> tr_status t = Requested)
                   (\<lambda>t. t\<lparr>tr_status := to_status out, tr_updated := event_micros e\<rparr>)))
            (\<lambda>_. ok adm))"

fun terminal_status :: "event_kind \<Rightarrow> run_status option" where
  "terminal_status RunCompleted = Some Completed"
| "terminal_status RunFailed = Some Failed"
| "terminal_status RunStopped = Some Stopped"
| "terminal_status _ = None"

definition replay_terminal :: "run_status \<Rightarrow> rt_event \<Rightarrow> admissions \<Rightarrow> admissions tx" where
  "replay_terminal st e adm =
     (case re_run e of
        None \<Rightarrow> bad (Invalid ''invalid terminal run'')
      | Some r \<Rightarrow>
          (case run_completed r of
             None \<Rightarrow> bad (Invalid ''invalid terminal run'')
           | Some done_at \<Rightarrow>
               if run_id r \<noteq> re_run_id e \<or> run_conv r \<noteq> re_conv e \<or> run_inbound r \<noteq> re_inbound e \<or> run_status r \<noteq> st
               then bad (Invalid ''invalid terminal run'')
               else after (update_one (update_runs
                        (\<lambda>x. rr_id x = run_id r \<and> rr_conv x = re_conv e \<and> rr_status x = Running)
                        (\<lambda>x. x\<lparr>rr_status := st, rr_err := run_err r, rr_completed := Some done_at\<rparr>)))
                 (\<lambda>_. after (update_one (update_submissions
                          (\<lambda>x. sr_id x = run_inbound r \<and> sr_conv x = re_conv e \<and> sr_status x = Running)
                          (\<lambda>x. x\<lparr>sr_status := st, sr_err := run_err r\<rparr>)))
                   (\<lambda>_. ok adm))))"

definition replay_index_event :: "rt_event \<Rightarrow> admissions \<Rightarrow> admissions tx" where
  "replay_index_event e adm =
     (if re_kind e = InputAccepted then replay_accepted e adm
      else if re_kind e = InputAdmitted then replay_admitted e adm
      else if re_kind e = RunStarted then replay_started e adm
      else if re_kind e = AssistantCommitted then replay_output e adm
      else if re_kind e = ToolOutcomeRecorded then replay_outcome e adm
      else (case terminal_status (re_kind e) of
              Some st \<Rightarrow> replay_terminal st e adm
            | None \<Rightarrow> ok adm))"

subsection \<open>The whole log\<close>

definition index_kind :: "event_kind \<Rightarrow> bool" where
  "index_kind k \<longleftrightarrow> k \<in> {InputAccepted, InputAdmitted, RunStarted, RunCompleted, RunFailed, RunStopped,
     AssistantCommitted, ToolOutcomeRecorded}"

definition clear_indexes :: "unit tx" where
  "clear_indexes d = Inr (d\<lparr>db_tools := [], db_runs := [], db_submissions := []\<rparr>, ())"

definition index_rows :: "db \<Rightarrow> event_row list" where
  "index_rows d = sort_key (\<lambda>r. (er_conv r, er_cursor r)) (filter (\<lambda>r. index_kind (er_kind r)) (db_events d))"

definition replay_row :: "event_row \<Rightarrow> admissions \<Rightarrow> admissions tx" where
  "replay_row r adm =
     after (require (re_conv (er_payload r) = er_conv r \<and> re_id (er_payload r) = er_cursor r
              \<and> re_kind (er_payload r) = er_kind r)
            (Invalid ''payload does not match its log position''))
       (\<lambda>_. replay_index_event (er_payload r) adm)"

fun replay_rows :: "event_row list \<Rightarrow> admissions \<Rightarrow> admissions tx" where
  "replay_rows [] adm = ok adm"
| "replay_rows (r # rs) adm = after (replay_row r adm) (replay_rows rs)"

definition log_end :: "db \<Rightarrow> string \<Rightarrow> nat" where
  "log_end d cid =
     (case filter (\<lambda>r. er_conv r = cid) (db_events d) of
        [] \<Rightarrow> 1
      | rs \<Rightarrow> Max (set (map er_cursor rs)) + 1)"

definition reset_cursors :: "unit tx" where
  "reset_cursors d =
     Inr (d\<lparr>db_conversations := map (\<lambda>c. c\<lparr>cr_next := log_end d (cv_id (cr_conv c))\<rparr>) (db_conversations d)\<rparr>, ())"

definition rebuild_indexes :: "unit tx" where
  "rebuild_indexes =
     after clear_indexes
       (\<lambda>_. after (read index_rows)
       (\<lambda>rows. after (replay_rows rows [])
       (\<lambda>adm. after (require (adm = []) (Invalid ''input admission has no matching run start''))
       (\<lambda>_. reset_cursors))))"

end
