(* ===== verification/Store_Rebuild.thy ===== *)
theory Store_Rebuild
  imports Store_Live Store_Replay
begin

section \<open>The log determines the indexes\<close>

text \<open>
  Under its manager, the store keeps this invariant: replaying the log of any conversation
  from nothing succeeds and gives exactly the rows of that conversation. The replay of one
  conversation is run in a database that holds only that conversation's rows; the theory
  \<open>Store_Lift\<close> carries it over to the whole database.
\<close>

subsection \<open>The rows of one conversation\<close>

definition mini_conv :: "string \<Rightarrow> conv_row" where
  "mini_conv cid = \<lparr>cr_conv = \<lparr>cv_id = cid, cv_agent_id = [], cv_workspace_id = [], cv_agent_workspace = False,
     cv_workspace = [], cv_workspace_lock = [], cv_environment = [], cv_git_repository = [],
     cv_git_revision = [], cv_git_all = False, cv_created = 0\<rparr>, cr_next = 1\<rparr>"

definition part :: "string \<Rightarrow> db \<Rightarrow> db" where
  "part cid d = \<lparr>db_conversations = [mini_conv cid],
     db_submissions = filter (\<lambda>s. sr_conv s = cid) (db_submissions d),
     db_runs = filter (\<lambda>x. rr_conv x = cid) (db_runs d),
     db_tools = filter (\<lambda>t. tr_conv t = cid) (db_tools d),
     db_events = [], db_reservations = []\<rparr>"

definition index_log :: "string \<Rightarrow> db \<Rightarrow> event_row list" where
  "index_log cid d = filter (\<lambda>r. er_conv r = cid \<and> index_kind (er_kind r)) (db_events d)"

definition replayed :: "db \<Rightarrow> bool" where
  "replayed d \<longleftrightarrow> (\<forall>cid. replay_rows (index_log cid d) [] (part cid empty_db) = Inr (part cid d, []))"

lemma part_simps [simp]:
  "db_submissions (part cid d) = filter (\<lambda>s. sr_conv s = cid) (db_submissions d)"
  "db_runs (part cid d) = filter (\<lambda>x. rr_conv x = cid) (db_runs d)"
  "db_tools (part cid d) = filter (\<lambda>t. tr_conv t = cid) (db_tools d)"
  "conv_exists c (part cid d) \<longleftrightarrow> c = cid"
  by (auto simp: part_def conv_exists_def mini_conv_def)

lemma part_eq:
  "part cid d' = part cid d \<longleftrightarrow>
     db_submissions (part cid d') = db_submissions (part cid d) \<and> db_runs (part cid d') = db_runs (part cid d)
     \<and> db_tools (part cid d') = db_tools (part cid d)"
  by (simp add: part_def)

lemma part_frame:
  "db_submissions d' = db_submissions d \<Longrightarrow> db_runs d' = db_runs d \<Longrightarrow> db_tools d' = db_tools d \<Longrightarrow> part cid d' = part cid d"
  by (simp add: part_def)

lemma part_updates [simp]:
  "part cid (d\<lparr>db_events := es\<rparr>) = part cid d" "part cid (d\<lparr>db_conversations := cs\<rparr>) = part cid d"
  "part cid (d\<lparr>db_reservations := ws\<rparr>) = part cid d"
  by (simp_all add: part_def)

lemma replay_rows_append:
  "replay_rows (xs @ ys) adm d = after (replay_rows xs adm) (replay_rows ys) d"
proof (induction xs arbitrary: adm d)
  case Nil
  show ?case by (simp add: after_def ok_def)
next
  case (Cons r rs)
  show ?case by (cases "replay_row r adm d") (auto simp: after_def Cons.IH split: prod.splits)
qed

definition row_for :: "rt_event \<Rightarrow> event_row" where
  "row_for e = event_row_of e (the (re_created e))"

lemma row_for_simps [simp]:
  "er_conv (row_for e) = re_conv e" "er_kind (row_for e) = re_kind e" "er_payload (row_for e) = e"
  by (simp_all add: row_for_def event_row_of_def)

lemma replay_row_for [simp]: "replay_row (row_for e) adm = replay_index_event e adm"
  by (rule ext) (simp add: replay_row_def row_for_def event_row_of_def after_def require_def)

lemma append_event_row:
  assumes "append_event now e d = Inr (d', e')"
  obtains n where "e' = e\<lparr>re_id := n, re_created := Some (event_time now e)\<rparr>"
    "db_events d' = db_events d @ [row_for e']"
    "db_submissions d' = db_submissions d" "db_runs d' = db_runs d" "db_tools d' = db_tools d"
proof -
  note fr = append_event_frame [OF assms]
  have "re_created e' = Some (event_time now e)" by (subst fr(6)) simp
  with fr that show thesis by (simp add: row_for_def)
qed

text \<open>The log grows by the rows of one conversation, whose replay leads from the old rows to the new.\<close>

lemma replayed_extend:
  assumes "replayed d" and "db_events d' = db_events d @ map row_for es" and "\<forall>e \<in> set es. re_conv e = c"
    and "replay_rows (map row_for (filter (\<lambda>e. index_kind (re_kind e)) es)) [] (part c d) = Inr (part c d', [])"
    and "\<And>c'. c' \<noteq> c \<Longrightarrow> part c' d' = part c' d"
  shows "replayed d'"
  unfolding replayed_def
proof
  fix cid
  have old: "replay_rows (index_log cid d) [] (part cid empty_db) = Inr (part cid d, [])"
    using assms(1) by (simp add: replayed_def)
  show "replay_rows (index_log cid d') [] (part cid empty_db) = Inr (part cid d', [])"
  proof (cases "cid = c")
    case True
    have "filter (\<lambda>r. er_conv r = c \<and> index_kind (er_kind r)) (map row_for es)
        = map row_for (filter (\<lambda>e. index_kind (re_kind e)) es)"
      using assms(3) by (induction es) auto
    then have "index_log cid d' = index_log cid d @ map row_for (filter (\<lambda>e. index_kind (re_kind e)) es)"
      by (simp add: index_log_def assms(2) True)
    with old assms(4) True show ?thesis by (simp add: replay_rows_append)
  next
    case False
    have "filter (\<lambda>r. er_conv r = cid \<and> index_kind (er_kind r)) (map row_for es) = []"
      using assms(3) False by (induction es) auto
    then have "index_log cid d' = index_log cid d" by (simp add: index_log_def assms(2))
    with old assms(5) False show ?thesis by simp
  qed
qed

lemma replayed_frame:
  assumes "replayed d" and "db_events d' = db_events d" "db_submissions d' = db_submissions d"
    "db_runs d' = db_runs d" "db_tools d' = db_tools d"
  shows "replayed d'"
  using assms(1) part_frame [OF assms(3-5)] by (simp add: replayed_def index_log_def assms(2))

lemma replayed_irrelevant:
  assumes "replayed d" and "append_event now e d = Inr (d', e')" and "\<not> index_kind (re_kind e)"
  shows "replayed d'"
proof -
  obtain n where e': "e' = e\<lparr>re_id := n, re_created := Some (event_time now e)\<rparr>"
    and fr: "db_events d' = db_events d @ [row_for e']"
      "db_submissions d' = db_submissions d" "db_runs d' = db_runs d" "db_tools d' = db_tools d"
    by (rule append_event_row [OF assms(2)])
  have "part c d' = part c d" for c by (rule part_frame [OF fr(2-4)])
  with assms(1,3) e' show ?thesis
    by (intro replayed_extend [of d d' "[e']" "re_conv e"]) (simp_all add: fr(1) ok_def)
qed

subsection \<open>Updates of one conversation\<close>

lemma filter_change:
  assumes "\<And>x. k (f x) = k x"
  shows "filter (\<lambda>x. k x = c) (change p f xs) = change p f (filter (\<lambda>x. k x = c) xs)"
  using assms by (induction xs) (auto simp: change_def)

lemma change_cong:
  assumes "\<And>x. x \<in> set xs \<Longrightarrow> p x = q x" and "\<And>x. x \<in> set xs \<Longrightarrow> q x \<Longrightarrow> f x = g x"
  shows "change p f xs = change q g xs"
  using assms by (auto simp: change_def)

lemma change_other:
  assumes "\<And>x. x \<in> set xs \<Longrightarrow> p x \<Longrightarrow> k x = c" and "\<And>x. k (f x) = k x" and "c' \<noteq> c"
  shows "filter (\<lambda>x. k x = c') (change p f xs) = filter (\<lambda>x. k x = c') xs"
  using assms by (induction xs) (auto simp: change_def)

lemma selects_one:
  assumes "r \<in> set xs" and "distinct (map k xs)" and "\<And>x. x \<in> set xs \<Longrightarrow> p x \<longleftrightarrow> k x = k r"
  shows "length (filter p xs) = 1"
proof -
  have "filter p xs = filter (\<lambda>x. k x = k r) xs" using assms(3) by (intro filter_cong) auto
  moreover have "length (filter (\<lambda>x. k x = k r) xs) = 1"
    using assms(1,2) by (induction xs) (auto simp: filter_empty_conv, metis imageI)
  ultimately show ?thesis by simp
qed

lemma distinct_part: "distinct (map k xs) \<Longrightarrow> distinct (map k (filter p xs))"
  by (rule distinct_map_filter)

lemma one_running_filter: "one_running rs \<Longrightarrow> one_running (filter q rs)"
  by (induction rs) (auto simp: one_running_def)

subsection \<open>Each transition is what the replay of its events does\<close>

lemma replay_rows_one [simp]: "replay_rows [row_for e] adm d = replay_index_event e adm d"
  by (simp add: after_def ok_def split: sum.splits)

lemma index_kind_simps [simp]:
  "index_kind InputAccepted" "index_kind InputAdmitted" "index_kind RunStarted" "index_kind RunCompleted"
  "index_kind RunFailed" "index_kind RunStopped" "index_kind AssistantCommitted" "index_kind ToolOutcomeRecorded"
  "\<not> index_kind EnvironmentProgressed"
  by (simp_all add: index_kind_def)

text \<open>An accepted input.\<close>

lemma insert_submission_part:
  assumes "insert_submission r d = Inr (d', u)" and "sr_status r = Queued"
  shows "insert_submission r (part (sr_conv r) d) = Inr (part (sr_conv r) d', ())"
    and "c' \<noteq> sr_conv r \<Longrightarrow> part c' d' = part c' d"
proof -
  have d': "d' = d\<lparr>db_submissions := db_submissions d @ [r]\<rparr>"
    and free: "\<not> (\<exists>x \<in> set (db_submissions d). sr_id x = sr_id r)" "sr_revision r \<noteq> []"
      "\<not> (\<exists>x \<in> set (db_submissions d). sr_conv x = sr_conv r \<and> sr_key x = sr_key r)"
    using assms(1) by (auto simp: insert_submission_def split: if_splits)
  show "insert_submission r (part (sr_conv r) d) = Inr (part (sr_conv r) d', ())"
    using free assms(2) by (auto simp: insert_submission_def) (simp add: part_def d')
  show "c' \<noteq> sr_conv r \<Longrightarrow> part c' d' = part c' d" by (simp add: part_def d')
qed

lemma accept_replayed:
  assumes "accept now i cid inp d = Inr (d', a, evs)" and "i \<noteq> []" and "replayed d" "coherent d"
  shows "replayed d' \<and> coherent d'"
proof (cases "find_key cid (sub_key inp) d")
  case (Some r)
  with assms show ?thesis by (auto simp: accept_def)
next
  case None
  let ?r = "queued_row now i cid inp"
  let ?e = "(bare_event InputAccepted cid [] i)\<lparr>re_input := Some inp, re_created := Some now\<rparr>"
  obtain u where valid: "validate_input inp = Inr u" and new: "accept_new now i cid inp d = Inr (d', a, evs)"
    using assms(1) None by (auto simp: accept_def)
  obtain d0 e where ins: "insert_submission ?r d = Inr (d0, ())" and app: "append_event now ?e d0 = Inr (d', e)"
    using new by (auto simp: accept_new_def conversation_tx_def)
  obtain n where e: "e = ?e\<lparr>re_id := n, re_created := Some (event_time now ?e)\<rparr>"
    and fr: "db_events d' = db_events d0 @ [row_for e]" "db_submissions d' = db_submissions d0"
      "db_runs d' = db_runs d0" "db_tools d' = db_tools d0"
    by (rule append_event_row [OF app])
  have same: "part c d' = part c d0" for c by (rule part_frame [OF fr(2-4)])
  have queued: "sr_status ?r = Queued" "sr_conv ?r = cid" by (simp_all add: queued_row_def)
  have "insert_submission ?r (part cid d) = Inr (part cid d', ())"
    using insert_submission_part(1) [OF ins queued(1)] same queued by simp
  moreover have "?r = \<lparr>sr_id = re_inbound e, sr_conv = re_conv e, sr_key = sub_key inp, sr_message_id = re_inbound e,
      sr_revision = sub_revision inp, sr_status = Queued, sr_err = [], sr_accepted = event_micros e\<rparr>"
    by (simp add: e queued_row_def event_micros_def event_time_def)
  ultimately have "replay_index_event e [] (part cid d) = Inr (part cid d', [])"
    using assms(2) valid
    by (simp add: e replay_index_event_def replay_accepted_def after_def lift_error_def ok_def event_micros_def event_time_def)
  moreover have "db_events d0 = db_events d" using ins by (auto simp: insert_submission_def split: if_splits)
  ultimately have "replayed d'"
    using assms(3) insert_submission_part(2) [OF ins queued(1)] queued(2) e
    by (intro replayed_extend [of d d' "[e]" cid]) (simp_all add: fr(1) same)
  moreover have "coherent d0"
    using coherent_queue [OF assms(4) ins] assms(2) by (simp add: queued_row_def)
  ultimately show ?thesis using coherent_append [OF app] by simp
qed

text \<open>An update of the rows of one conversation, seen from that conversation.\<close>

lemma update_submissions_part:
  assumes "\<And>x. x \<in> set (db_submissions d) \<Longrightarrow> p x \<longleftrightarrow> q x" and "\<And>x. q x \<Longrightarrow> sr_conv x = c"
    and "\<And>x. x \<in> set (db_submissions d) \<Longrightarrow> q x \<Longrightarrow> f x = g x" and conv: "\<And>x. sr_conv (f x) = sr_conv x"
    and subs: "db_submissions d' = change p f (db_submissions d)" and one: "one_running (db_submissions d')"
    and "r \<in> set (db_submissions d)" "q r" and "coherent d" "\<And>x. q x \<Longrightarrow> sr_id x = sr_id r"
    and P: "db_submissions P = filter (\<lambda>s. sr_conv s = c) (db_submissions d)"
  shows "update_one (update_submissions q g) P
       = Inr (P\<lparr>db_submissions := filter (\<lambda>s. sr_conv s = c) (db_submissions d')\<rparr>, ())"
proof -
  let ?xs = "filter (\<lambda>s. sr_conv s = c) (db_submissions d)"
  have rows: "filter (\<lambda>s. sr_conv s = c) (db_submissions d') = change q g ?xs"
    unfolding subs by (subst filter_change [where k = sr_conv, OF conv]) (rule change_cong, use assms(1,3) in auto)
  have "distinct (map sr_id ?xs)"
    using assms(9) by (intro distinct_part) (simp add: coherent_def subs_ok_def)
  moreover have "q x \<longleftrightarrow> sr_id x = sr_id r" if "x \<in> set ?xs" for x
  proof
    show "q x \<Longrightarrow> sr_id x = sr_id r" by (rule assms(10))
    assume "sr_id x = sr_id r"
    then have "x = r" using sub_keyed [OF assms(9) _ assms(7), of x] that by simp
    then show "q x" using assms(8) by simp
  qed
  moreover have "r \<in> set ?xs" using assms(2,7,8) by simp
  ultimately have "length (filter q ?xs) = 1" by (intro selects_one)
  moreover have "one_running (change q g ?xs)" unfolding rows [symmetric] by (rule one_running_filter [OF one])
  ultimately show ?thesis
    by (simp add: update_one_def update_submissions_def after_def require_def rows Let_def P)
qed

lemma update_runs_part:
  assumes "\<And>x. x \<in> set (db_runs d) \<Longrightarrow> p x \<longleftrightarrow> q x" and "\<And>x. q x \<Longrightarrow> rr_conv x = c"
    and "\<And>x. x \<in> set (db_runs d) \<Longrightarrow> q x \<Longrightarrow> f x = g x" and conv: "\<And>x. rr_conv (f x) = rr_conv x"
    and runs: "db_runs d' = change p f (db_runs d)"
    and "r \<in> set (db_runs d)" "q r" and "coherent d" "\<And>x. q x \<Longrightarrow> rr_id x = rr_id r"
  shows "update_one (update_runs q g) (part c d)
       = Inr ((part c d)\<lparr>db_runs := filter (\<lambda>x. rr_conv x = c) (db_runs d')\<rparr>, ())"
proof -
  let ?xs = "filter (\<lambda>x. rr_conv x = c) (db_runs d)"
  have rows: "filter (\<lambda>x. rr_conv x = c) (db_runs d') = change q g ?xs"
    unfolding runs by (subst filter_change [where k = rr_conv, OF conv]) (rule change_cong, use assms(1,3) in auto)
  have "distinct (map rr_id ?xs)"
    using assms(8) by (intro distinct_part) (simp add: coherent_def runs_ok_def)
  moreover have "q x \<longleftrightarrow> rr_id x = rr_id r" if "x \<in> set ?xs" for x
  proof
    show "q x \<Longrightarrow> rr_id x = rr_id r" by (rule assms(9))
    assume "rr_id x = rr_id r"
    then have "x = r" using run_keyed [OF assms(8) _ assms(6), of x] that by simp
    then show "q x" using assms(7) by simp
  qed
  moreover have "r \<in> set ?xs" using assms(2,6,7) by simp
  ultimately have "length (filter q ?xs) = 1" by (intro selects_one)
  then show ?thesis
    by (simp add: update_one_def update_runs_def after_def require_def rows)
qed

lemma insert_run_part:
  assumes "insert_run x d = Inr (d', u)" and "s \<in> set (db_submissions P)" "sr_id s = rr_sub x"
    and "db_runs P = filter (\<lambda>y. rr_conv y = rr_conv x) (db_runs d)" and "conv_exists (rr_conv x) P"
  shows "insert_run x P = Inr (P\<lparr>db_runs := filter (\<lambda>y. rr_conv y = rr_conv x) (db_runs d')\<rparr>, ())"
  using assms by (auto simp: insert_run_def split: if_splits)

text \<open>A claim: an admission and a run start.\<close>

lemma claim_row_tables:
  assumes "claim_row now rid r d = Inr (d', c)"
  obtains d1 d2 d3 e1 e2 where
    "update_submissions (\<lambda>x. sr_id x = sr_id r \<and> sr_status x = Queued) (\<lambda>x. x\<lparr>sr_status := Running\<rparr>) d
           = Inr (d1, 1)"
    "insert_run (row_of_run (started_run now rid r)) d1 = Inr (d2, ())"
    "append_event now ((bare_event InputAdmitted (sr_conv r) rid (sr_id r))\<lparr>re_created := Some now\<rparr>) d2
           = Inr (d3, e1)"
    "append_event now ((bare_event RunStarted (sr_conv r) rid (sr_id r))
             \<lparr>re_run := Some (started_run now rid r), re_created := Some now\<rparr>) d3 = Inr (d', e2)"
    "im_id (cl_message c) = sr_id r" "cl_run c = started_run now rid r" "cl_events c = [e1, e2]"
  using assms
  by (auto simp: claim_row_def conversation_tx_def Let_def dest!: load_input_state load_context_state)

lemma claim_replayed:
  assumes "claim_row now rid r d = Inr (d', c)" and "rid \<noteq> []" and r: "r \<in> set (db_submissions d)" "sr_status r = Queued"
    and "replayed d" and co: "coherent d"
  shows "replayed d' \<and> coherent d'"
proof -
  let ?c = "sr_conv r"
  let ?run = "started_run now rid r"
  let ?x = "row_of_run ?run"
  let ?a = "(bare_event InputAdmitted ?c rid (sr_id r))\<lparr>re_created := Some now\<rparr>"
  let ?s = "(bare_event RunStarted ?c rid (sr_id r))\<lparr>re_run := Some ?run, re_created := Some now\<rparr>"
  let ?p = "\<lambda>x. sr_id x = sr_id r \<and> sr_status x = Queued"
  let ?f = "\<lambda>x. x\<lparr>sr_status := Running\<rparr>"
  obtain d1 d2 d3 e1 e2 where upd: "update_submissions ?p ?f d = Inr (d1, 1)"
    and ins: "insert_run ?x d1 = Inr (d2, ())" and app1: "append_event now ?a d2 = Inr (d3, e1)"
    and app2: "append_event now ?s d3 = Inr (d', e2)"
    by (rule claim_row_tables [OF assms(1)])
  have d1: "d1 = d\<lparr>db_submissions := change ?p ?f (db_submissions d)\<rparr>" and one: "one_running (db_submissions d1)"
    using upd by (auto simp: update_submissions_def Let_def split: if_splits)
  have d2: "d2 = d1\<lparr>db_runs := db_runs d1 @ [?x]\<rparr>" and new: "rr_id ?x \<notin> rr_id ` set (db_runs d1)"
    using ins by (auto simp: insert_run_def split: if_splits)
  obtain n1 where e1: "e1 = ?a\<lparr>re_id := n1, re_created := Some (event_time now ?a)\<rparr>"
    and fr1: "db_events d3 = db_events d2 @ [row_for e1]" "db_submissions d3 = db_submissions d2"
      "db_runs d3 = db_runs d2" "db_tools d3 = db_tools d2" by (rule append_event_row [OF app1])
  obtain n2 where e2: "e2 = ?s\<lparr>re_id := n2, re_created := Some (event_time now ?s)\<rparr>"
    and fr2: "db_events d' = db_events d3 @ [row_for e2]" "db_submissions d' = db_submissions d3"
      "db_runs d' = db_runs d3" "db_tools d' = db_tools d3" by (rule append_event_row [OF app2])
  have same: "part c d' = part c d2" for c by (rule part_frame) (simp_all add: fr1 fr2)
  let ?q = "\<lambda>x. sr_id x = sr_id r \<and> sr_conv x = ?c \<and> sr_revision x = sr_revision r \<and> sr_status x = Queued"
  let ?P1 = "(part ?c d)\<lparr>db_submissions := filter (\<lambda>s. sr_conv s = ?c) (db_submissions d1)\<rparr>"
  have u: "update_one (update_submissions ?q ?f) (part ?c d) = Inr (?P1, ())"
    by (rule update_submissions_part [where p = ?p and f = ?f and r = r])
       (use r one co sub_keyed [OF co _ r(1)] in \<open>auto simp: d1\<close>)
  have "?f r \<in> set (db_submissions d1)" using changed_member [OF r(1), of ?p ?f] r(2) by (simp add: d1)
  then have i: "insert_run ?x ?P1 = Inr (part ?c d2, ())"
    by (subst insert_run_part [OF ins, of "?f r"]) (simp_all add: row_of_run_def started_run_def d1 conv_exists_def mini_conv_def part_def d2)
  have "replay_index_event e1 [] (part ?c d) = Inr (part ?c d, [((?c, sr_id r), rid)])"
    using assms(2) r co by (auto simp: e1 replay_index_event_def replay_admitted_def ok_def coherent_def subs_ok_def)
  moreover have "replay_index_event e2 [((?c, sr_id r), rid)] (part ?c d) = Inr (part ?c d2, [])"
    using u i by (simp add: e2 replay_index_event_def replay_started_def after_def ok_def started_run_def row_of_run_def)
  ultimately have "replay_rows (map row_for [e1, e2]) [] (part ?c d) = Inr (part ?c d', [])"
    by (simp add: after_def ok_def same)
  moreover have "part c' d' = part c' d" if "c' \<noteq> ?c" for c'
  proof -
    have "filter (\<lambda>s. sr_conv s = c') (db_submissions d1) = filter (\<lambda>s. sr_conv s = c') (db_submissions d)"
      unfolding d1 by simp (rule change_other [where c = ?c], use that sub_keyed [OF co _ r(1)] in auto)
    then show ?thesis unfolding same using that by (simp add: part_eq d2 row_of_run_def started_run_def) (simp add: d1)
  qed
  ultimately have "replayed d'"
    using assms(5) by (intro replayed_extend [of d d' "[e1, e2]" ?c]) (simp_all add: fr1 fr2 d2 d1 e1 e2)
  moreover have "coherent d'"
    by (rule coherent_start [OF co r, of ?x])
       (use new assms(2) in \<open>simp_all add: started_tables_def row_of_run_def started_run_def fr1 fr2 d2 d1\<close>)
  ultimately show ?thesis by simp
qed

text \<open>A committed assistant turn: one output event with its tool calls.\<close>

definition call_part :: "message_part \<Rightarrow> bool" where
  "call_part p \<longleftrightarrow> mp_type p = ''tool_call''"

lemma normalize_parts_calls:
  "normalize_parts i ps = Inr (all, tools) \<Longrightarrow>
     tools = filter call_part all \<and> (\<forall>p \<in> set all. call_part p \<longrightarrow> mp_call_id p \<noteq> [] \<and> mp_kind p \<noteq> [])"
proof (induction ps arbitrary: i all tools)
  case (Cons p ps)
  show ?case
  proof (cases "mp_type p = ''text''")
    case True
    with Cons.prems obtain all' where "normalize_parts (Suc i) ps = Inr (all', tools)" "all = p # all'"
      by (auto simp: and_then_def split: if_splits sum.splits)
    with Cons.IH True show ?thesis by (auto simp: call_part_def)
  next
    case False
    with Cons.prems have kind: "mp_type p = ''tool_call''" "mp_call_id p \<noteq> []" "mp_kind p \<noteq> []"
      by (auto split: if_splits)
    let ?p = "if args_absent (mp_args p) then p\<lparr>mp_args := ''{}''\<rparr> else p"
    from Cons.prems kind obtain all' tools' where "normalize_parts (Suc i) ps = Inr (all', tools')"
      "all = ?p # all'" "tools = ?p # tools'"
      by (auto simp: and_then_def Let_def split: sum.splits if_splits)
    with Cons.IH kind show ?thesis by (auto simp: call_part_def)
  qed
qed simp

lemma insert_tool_part:
  assumes "insert_tool t d = Inr (d', u)" and "x \<in> set (db_runs d)" "rr_id x = tr_run t" "rr_conv x = tr_conv t"
  shows "insert_tool t (part (tr_conv t) d) = Inr (part (tr_conv t) d', ())"
    and "c' \<noteq> tr_conv t \<Longrightarrow> part c' d' = part c' d"
    and "db_runs d' = db_runs d \<and> db_submissions d' = db_submissions d \<and> db_events d' = db_events d"
proof -
  have d': "d' = d\<lparr>db_tools := db_tools d @ [t]\<rparr>"
    and free: "\<not> (\<exists>y \<in> set (db_tools d). tr_run y = tr_run t \<and> tr_id y = tr_id t)"
    using assms(1) by (auto simp: insert_tool_def split: if_splits)
  show "insert_tool t (part (tr_conv t) d) = Inr (part (tr_conv t) d', ())"
    using free assms(2-4) by (auto simp: insert_tool_def) (simp add: part_def d')
  show "c' \<noteq> tr_conv t \<Longrightarrow> part c' d' = part c' d" by (simp add: part_def d')
  show "db_runs d' = db_runs d \<and> db_submissions d' = db_submissions d \<and> db_events d' = db_events d" by (simp add: d')
qed

lemma calls_replayed:
  assumes "for_each (\<lambda>p. insert_tool (requested_row now (run_conv r) (run_id r) (run_inbound r) p)) (filter call_part ps) d
             = Inr (d', us)"
    and "\<forall>p \<in> set ps. call_part p \<longrightarrow> mp_call_id p \<noteq> [] \<and> mp_kind p \<noteq> []"
    and "coherent d" "live_run d r" "run_id r \<noteq> []"
    and e: "re_conv e = run_conv r" "re_run_id e = run_id r" "re_inbound e = run_inbound r" "event_micros e = now"
  shows "\<exists>us. for_each (replay_part e) ps (part (run_conv r) d) = Inr (part (run_conv r) d', us)"
    and "coherent d'" "live_run d' r" "db_events d' = db_events d"
    and "c' \<noteq> run_conv r \<Longrightarrow> part c' d' = part c' d"
  using assms(1-4)
proof (atomize (full), induction ps arbitrary: d us)
  case Nil
  then show ?case by (simp add: ok_def)
next
  case (Cons p ps)
  show ?case
  proof (cases "call_part p")
    case False
    then have "replay_part e p D = Inr (D, ())" for D by (simp add: replay_part_def call_part_def ok_def)
    moreover have "filter call_part (p # ps) = filter call_part ps" using False by simp
    ultimately show ?thesis using Cons.IH [of d us] Cons.prems by (auto simp: after_def split: prod.splits)
  next
    case True
    let ?t = "requested_row now (run_conv r) (run_id r) (run_inbound r) p"
    obtain d1 us' where one: "insert_tool ?t d = Inr (d1, ())"
      and more: "for_each (\<lambda>p. insert_tool (requested_row now (run_conv r) (run_id r) (run_inbound r) p)) (filter call_part ps) d1
             = Inr (d', us')"
      using Cons.prems True by auto
    have named: "mp_call_id p \<noteq> []" "mp_kind p \<noteq> []" using Cons.prems True by simp_all
    obtain x where x: "x \<in> set (db_runs d)" "rr_id x = tr_run ?t" "rr_conv x = tr_conv ?t"
      using Cons.prems by (auto simp: live_run_def run_of_row_def requested_row_def)
    note part1 = insert_tool_part [OF one x]
    have conv: "tr_conv ?t = run_conv r" by (simp add: requested_row_def)
    have co: "coherent d1" "live_run d1 r" using coherent_tool [OF _ _ one named] Cons.prems by simp_all
    have "replay_part e p (part (run_conv r) d) = Inr (part (run_conv r) d1, ())"
      using part1(1) named True assms(5) e by (simp add: replay_part_def call_part_def requested_row_def)
    moreover note Cons.IH [OF more _ co]
    ultimately show ?thesis
      using Cons.prems part1(2,3) conv by (auto simp: after_def ok_def split: prod.splits)
  qed
qed

lemma commit_replayed:
  assumes "commit_assistant_turn now oid r parts d = Inr (d', evs)" and "live_run d r"
    and "replayed d" "coherent d"
  shows "replayed d' \<and> coherent d'"
proof -
  obtain all tools us d1 e where norm: "normalize_parts 0 parts = Inr (all, tools)"
    and app: "append_event now ((bare_event AssistantCommitted (run_conv r) (run_id r) (run_inbound r))
                 \<lparr>re_output := Some \<lparr>ao_id = oid, ao_parts = all, ao_final = False\<rparr>, re_created := Some now\<rparr>) d
              = Inr (d1, e)"
    and ins': "for_each (\<lambda>p. insert_tool (requested_row now (run_conv r) (run_id r) (run_inbound r) p)) tools d1
              = Inr (d', us)"
    using assms(1) by (auto simp: commit_assistant_turn_def)
  note ins = ins' [unfolded conjunct1 [OF normalize_parts_calls [OF norm]]]
  let ?e = "(bare_event AssistantCommitted (run_conv r) (run_id r) (run_inbound r))
                 \<lparr>re_output := Some \<lparr>ao_id = oid, ao_parts = all, ao_final = False\<rparr>, re_created := Some now\<rparr>"
  obtain n where e: "e = ?e\<lparr>re_id := n, re_created := Some (event_time now ?e)\<rparr>"
    and fr: "db_events d1 = db_events d @ [row_for e]" "db_submissions d1 = db_submissions d"
      "db_runs d1 = db_runs d" "db_tools d1 = db_tools d"
    by (rule append_event_row [OF app])
  have co: "coherent d1" "live_run d1 r"
    using assms(2,4) coherent_append [OF app] by (simp_all add: live_run_def fr)
  have named: "run_id r \<noteq> []" by (rule live_run_facts [OF assms(4,2)])
  have calls: "\<forall>p \<in> set all. call_part p \<longrightarrow> mp_call_id p \<noteq> [] \<and> mp_kind p \<noteq> []"
    using normalize_parts_calls [OF norm] by simp
  have e': "re_conv e = run_conv r" "re_run_id e = run_id r" "re_inbound e = run_inbound r" "event_micros e = now"
    by (simp_all add: e bare_event_def event_micros_def event_time_def)
  note rep = calls_replayed [OF ins calls co named e']
  have same: "part c d1 = part c d" for c by (rule part_frame) (simp_all add: fr)
  obtain us' where "for_each (replay_part e) all (part (run_conv r) d) = Inr (part (run_conv r) d', us')"
    using rep(1) same by auto
  then have "replay_index_event e [] (part (run_conv r) d) = Inr (part (run_conv r) d', [])"
    by (simp add: e replay_index_event_def replay_output_def after_def ok_def)
  then have "replayed d'"
    using assms(3) rep(4,5) e' by (intro replayed_extend [of d d' "[e]" "run_conv r"]) (simp_all add: fr same e)
  with rep(2) show ?thesis by simp
qed

text \<open>A tool outcome.\<close>

lemma tool_of_live_run:
  assumes "coherent d" "live_run d r" "t \<in> set (db_tools d)" "tr_run t = run_id r"
  shows "tr_conv t = run_conv r" "tr_id t \<noteq> []"
proof -
  obtain x where x: "x \<in> set (db_runs d)" "rr_id x = tr_run t" "rr_conv x = tr_conv t" and "tr_id t \<noteq> []"
    using assms(1,3) unfolding coherent_def tools_ok_def by blast
  obtain z where z: "z \<in> set (db_runs d)" "r = run_of_row z" using assms(2) by (auto simp: live_run_def)
  have "x = z" using run_keyed [OF assms(1) x(1) z(1)] x(2) assms(4) z(2) by (simp add: run_of_row_def)
  with x(3) z(2) show "tr_conv t = run_conv r" by (simp add: run_of_row_def)
  show "tr_id t \<noteq> []" by fact
qed

lemma tool_finished_replayed:
  assumes "tool_finished now oid r res st d = Inr (d', evs)" and "live_run d r" and "st \<noteq> Requested"
    and "replayed d" "coherent d"
  shows "replayed d' \<and> coherent d' \<and> live_run d' r \<and> db_runs d' = db_runs d"
proof -
  let ?i = "tr_action_id res"
  let ?p = "requested_tool (run_id r) ?i"
  let ?f = "\<lambda>x. x\<lparr>tr_status := st, tr_updated := now\<rparr>"
  obtain d1 e and t :: tool_row where t: "List.find ?p (db_tools d) = Some t"
    and upd: "update_tools ?p ?f d = Inr (d1, 1)"
    and app: "append_event now ((bare_event ToolOutcomeRecorded (run_conv r) (run_id r) (run_inbound r))
                 \<lparr>re_created := Some now,
                  re_outcome := Some \<lparr>to_id = oid, to_call_id = ?i, to_kind = tr_kind_name t,
                                      to_status = st, to_result = Some res\<rparr>\<rparr>) d1 = Inr (d', e)"
    using assms(1) by (auto simp: tool_finished_def Let_def)
  let ?e = "(bare_event ToolOutcomeRecorded (run_conv r) (run_id r) (run_inbound r))
                 \<lparr>re_created := Some now,
                  re_outcome := Some \<lparr>to_id = oid, to_call_id = ?i, to_kind = tr_kind_name t,
                                      to_status = st, to_result = Some res\<rparr>\<rparr>"
  have d1: "d1 = d\<lparr>db_tools := change ?p ?f (db_tools d)\<rparr>" using upd by (simp add: update_tools_def)
  have mem: "t \<in> set (db_tools d)" "tr_id t = ?i" "tr_run t = run_id r" "tr_status t = Requested"
    using t by (auto simp: find_Some_iff requested_tool_def)
  have conv: "tr_conv t = run_conv r" "?i \<noteq> []" using tool_of_live_run [OF assms(5,2) mem(1,3)] mem(2) by simp_all
  have only: "x = t" if "x \<in> set (db_tools d)" "?p x" for x
    using tool_keyed [OF assms(5) that(1) mem(1)] that(2) mem by (simp add: requested_tool_def)
  obtain n where e: "e = ?e\<lparr>re_id := n, re_created := Some (event_time now ?e)\<rparr>"
    and fr: "db_events d' = db_events d1 @ [row_for e]" "db_submissions d' = db_submissions d1"
      "db_runs d' = db_runs d1" "db_tools d' = db_tools d1"
    by (rule append_event_row [OF app])
  let ?q = "\<lambda>t'. tr_conv t' = run_conv r \<and> tr_run t' = run_id r \<and> tr_id t' = ?i \<and> tr_kind_name t' = tr_kind_name t
      \<and> tr_status t' = Requested"
  let ?xs = "filter (\<lambda>t. tr_conv t = run_conv r) (db_tools d)"
  have pq: "?p x \<longleftrightarrow> ?q x" if "x \<in> set (db_tools d)" for x
    using only [OF that] mem conv by (auto simp: requested_tool_def)
  have rows: "filter (\<lambda>t. tr_conv t = run_conv r) (db_tools d') = change ?q ?f ?xs"
    unfolding fr(4) d1 by simp (subst filter_change [where k = tr_conv], simp, rule change_cong, use pq in auto)
  have "length (filter ?q ?xs) = 1"
  proof (rule selects_one [where k = "\<lambda>t. (tr_run t, tr_id t)" and r = t])
    show "t \<in> set ?xs" using mem conv by simp
    show "distinct (map (\<lambda>t. (tr_run t, tr_id t)) ?xs)"
      using assms(5) by (intro distinct_part) (simp add: coherent_def tools_ok_def)
    show "?q x \<longleftrightarrow> (tr_run x, tr_id x) = (tr_run t, tr_id t)" if "x \<in> set ?xs" for x
      using tool_keyed [OF assms(5) _ mem(1), of x] that mem conv by auto
  qed
  then have "update_one (update_tools ?q ?f) (part (run_conv r) d) = Inr (part (run_conv r) d', ())"
    by (simp add: update_one_def update_tools_def after_def require_def rows [symmetric])
       (simp add: part_def fr d1)
  moreover have "st \<in> {ToolCompleted, ToolFailed, ToolDenied, ToolInterrupted}" using assms(3) by (cases st) auto
  ultimately have "replay_index_event e [] (part (run_conv r) d) = Inr (part (run_conv r) d', [])"
    using conv(2) by (simp add: e replay_index_event_def replay_outcome_def after_def ok_def event_micros_def event_time_def)
  moreover have "part c' d' = part c' d" if "c' \<noteq> run_conv r" for c'
  proof -
    have "filter (\<lambda>t. tr_conv t = c') (db_tools d') = filter (\<lambda>t. tr_conv t = c') (db_tools d)"
      unfolding fr(4) d1 by simp (rule change_other [where c = "run_conv r"], use that only conv in auto)
    then show ?thesis by (simp add: part_eq fr) (simp add: d1)
  qed
  ultimately have "replayed d'"
    using assms(4) by (intro replayed_extend [of d d' "[e]" "run_conv r"]) (simp_all add: fr d1 e)
  moreover have "coherent d'" by (rule coherent_tool_status [OF assms(5)]) (simp_all add: fr d1)
  ultimately show ?thesis using assms(2) by (simp add: live_run_def fr d1)
qed

lemma interrupts_replayed:
  assumes "for_each (\<lambda>(k, t). tool_finished now (ids k) r (interrupted_result t) ToolInterrupted) kts d
     = Inr (d', evss)" and "live_run d r" and "replayed d" "coherent d"
  shows "replayed d' \<and> coherent d' \<and> live_run d' r \<and> db_runs d' = db_runs d"
  using assms
proof (induction kts arbitrary: d evss)
  case (Cons kt kts)
  obtain k t where kt: "kt = (k, t)" by (cases kt)
  obtain d1 evs rest where one: "tool_finished now (ids k) r (interrupted_result t) ToolInterrupted d = Inr (d1, evs)"
    and more: "for_each (\<lambda>(k, t). tool_finished now (ids k) r (interrupted_result t) ToolInterrupted) kts d1
       = Inr (d', rest)"
    using Cons.prems by (auto simp: kt)
  have step: "replayed d1 \<and> coherent d1 \<and> live_run d1 r \<and> db_runs d1 = db_runs d"
    by (rule tool_finished_replayed [OF one Cons.prems(2) _ Cons.prems(3,4)]) simp
  with Cons.IH [OF more] show ?case by simp
qed simp

text \<open>The end of a run.\<close>

lemma live_submission:
  assumes "coherent d" "live_run d r" "s \<in> set (db_submissions d)"
  shows "sr_id s = run_inbound r \<longleftrightarrow> sr_id s = run_inbound r \<and> sr_conv s = run_conv r \<and> sr_status s = Running"
    and "sr_id s = run_inbound r \<Longrightarrow> sr_err s = []"
proof -
  obtain z where z: "z \<in> set (db_submissions d)" "sr_id z = run_inbound r" "sr_conv z = run_conv r"
    "sr_status z = Running" "sr_err z = []" by (rule live_run_facts [OF assms(1,2)])
  have eq: "s = z" if "sr_id s = run_inbound r" using sub_keyed [OF assms(1,3) z(1)] that z(2) by simp
  show "sr_id s = run_inbound r \<longleftrightarrow> sr_id s = run_inbound r \<and> sr_conv s = run_conv r \<and> sr_status s = Running"
    using eq z(3,4) by blast
  show "sr_id s = run_inbound r \<Longrightarrow> sr_err s = []" using eq z(5) by blast
qed

lemma live_row:
  assumes "coherent d" "live_run d r" "x \<in> set (db_runs d)"
  shows "rr_id x = run_id r \<longleftrightarrow> rr_id x = run_id r \<and> rr_conv x = run_conv r \<and> rr_status x = Running"
    and "rr_id x = run_id r \<Longrightarrow> rr_err x = [] \<and> rr_completed x = None"
proof -
  obtain z where z: "z \<in> set (db_runs d)" "rr_status z = Running" "r = run_of_row z" "rr_err z = []" "rr_completed z = None"
    by (rule live_run_facts [OF assms(1,2)])
  have zr: "rr_id z = run_id r" "rr_conv z = run_conv r" using z(3) by (simp_all add: run_of_row_def)
  have eq: "x = z" if "rr_id x = run_id r" using run_keyed [OF assms(1,3) z(1)] that zr(1) by simp
  show "rr_id x = run_id r \<longleftrightarrow> rr_id x = run_id r \<and> rr_conv x = run_conv r \<and> rr_status x = Running"
    using eq z(2) zr by blast
  show "rr_id x = run_id r \<Longrightarrow> rr_err x = [] \<and> rr_completed x = None" using eq z(4,5) by blast
qed

lemma terminal_replayed:
  assumes co: "coherent d" and live: "live_run d r" and "st \<notin> {Queued, Running}" and k: "terminal_status k = Some st"
    and f: "\<And>s. sr_id (f s) = sr_id s \<and> sr_message_id (f s) = sr_message_id s \<and> sr_conv (f s) = sr_conv s
              \<and> sr_revision (f s) = sr_revision s \<and> sr_status (f s) = st"
    and g: "\<And>x. rr_id (g x) = rr_id x \<and> rr_sub (g x) = rr_sub x \<and> rr_inbound (g x) = rr_inbound x
              \<and> rr_conv (g x) = rr_conv x \<and> rr_revision (g x) = rr_revision x \<and> rr_status (g x) = st"
    and f': "\<And>s. sr_err s = [] \<Longrightarrow> f s = s\<lparr>sr_status := st, sr_err := msg\<rparr>"
    and g': "\<And>x. rr_err x = [] \<Longrightarrow> g x = x\<lparr>rr_status := st, rr_err := msg, rr_completed := Some now\<rparr>"
    and subs: "db_submissions d' = change (\<lambda>s. sr_id s = run_inbound r) f (db_submissions d)"
    and runs: "db_runs d' = change (\<lambda>x. rr_id x = run_id r) g (db_runs d)"
    and tools: "db_tools d' = db_tools d" and one: "one_running (db_submissions d')"
    and e: "re_kind e = k" "re_conv e = run_conv r" "re_run_id e = run_id r" "re_inbound e = run_inbound r"
      "re_run e = Some (r\<lparr>run_status := st, run_err := msg, run_completed := Some now\<rparr>)"
  shows "replay_index_event e [] (part (run_conv r) d) = Inr (part (run_conv r) d', [])"
    and "coherent d'" and "c' \<noteq> run_conv r \<Longrightarrow> part c' d' = part c' d"
proof -
  let ?c = "run_conv r"
  obtain x s where x: "x \<in> set (db_runs d)" "rr_status x = Running" "r = run_of_row x"
    and s: "s \<in> set (db_submissions d)" "sr_id s = run_inbound r" "sr_conv s = run_conv r" "sr_status s = Running"
    by (rule live_run_facts [OF co live])
  let ?P = "(part ?c d)\<lparr>db_runs := filter (\<lambda>x. rr_conv x = ?c) (db_runs d')\<rparr>"
  have "update_one (update_runs (\<lambda>x. rr_id x = run_id r \<and> rr_conv x = ?c \<and> rr_status x = Running)
          (\<lambda>x. x\<lparr>rr_status := st, rr_err := msg, rr_completed := Some now\<rparr>)) (part ?c d) = Inr (?P, ())"
    by (rule update_runs_part [OF _ _ _ _ runs x(1) _ co])
       (use x g' g live_row [OF co live] in \<open>auto simp: run_of_row_def\<close>)
  moreover have "update_one (update_submissions (\<lambda>s. sr_id s = run_inbound r \<and> sr_conv s = ?c \<and> sr_status s = Running)
          (\<lambda>s. s\<lparr>sr_status := st, sr_err := msg\<rparr>)) ?P
        = Inr (?P\<lparr>db_submissions := filter (\<lambda>s. sr_conv s = ?c) (db_submissions d')\<rparr>, ())"
    by (rule update_submissions_part [OF _ _ _ _ subs one s(1) _ co])
       (use s f' f live_submission [OF co live] in auto)
  moreover have "?P\<lparr>db_submissions := filter (\<lambda>s. sr_conv s = ?c) (db_submissions d')\<rparr> = part ?c d'"
    by (simp add: part_def tools)
  ultimately have "replay_terminal st e [] (part ?c d) = Inr (part ?c d', [])"
    by (simp add: replay_terminal_def after_def ok_def e)
  moreover have "replay_index_event e = replay_terminal st e"
    using k e(1) by (cases k) (auto simp: replay_index_event_def fun_eq_iff)
  ultimately show "replay_index_event e [] (part ?c d) = Inr (part ?c d', [])" by simp
  show "coherent d'" by (rule coherent_finish [OF co live assms(3) f g subs runs tools])
  show "part c' d' = part c' d" if "c' \<noteq> ?c"
  proof -
    have "filter (\<lambda>s. sr_conv s = c') (db_submissions d') = filter (\<lambda>s. sr_conv s = c') (db_submissions d)"
      unfolding subs by (rule change_other [where c = ?c]) (use that f live_submission [OF co live] in auto)
    moreover have "filter (\<lambda>x. rr_conv x = c') (db_runs d') = filter (\<lambda>x. rr_conv x = c') (db_runs d)"
      unfolding runs by (rule change_other [where c = ?c]) (use that g live_row [OF co live] in auto)
    ultimately show ?thesis by (simp add: part_eq tools)
  qed
qed

subsection \<open>Every manager step keeps the log and the indexes together\<close>

definition faithful :: "db \<Rightarrow> bool" where
  "faithful d \<longleftrightarrow> replayed d \<and> coherent d"

lemma live_run_err: "live_run d r \<Longrightarrow> run_err r = []"
  by (auto simp: live_run_def run_of_row_def)

lemma finish_faithful:
  assumes "store_finish_run now oid r answer d = Inr (d', evs)" and "live_run d r" and "faithful d"
  shows "faithful d'"
proof -
  let ?f = "\<lambda>x. x\<lparr>sr_status := Completed\<rparr>"
  let ?g = "\<lambda>x. x\<lparr>rr_status := Completed, rr_completed := Some now\<rparr>"
  let ?o = "(bare_event AssistantCommitted (run_conv r) (run_id r) (run_inbound r))
                 \<lparr>re_created := Some now,
                  re_output := Some \<lparr>ao_id = oid, ao_parts = [text_message_part answer], ao_final = True\<rparr>\<rparr>"
  let ?e = "(bare_event RunCompleted (run_conv r) (run_id r) (run_inbound r))
                 \<lparr>re_created := Some now, re_run := Some (r\<lparr>run_status := Completed, run_completed := Some now\<rparr>)\<rparr>"
  obtain d1 n d2 m d3 e1 e2 where upd: "update_submissions (\<lambda>x. sr_id x = run_inbound r) ?f d = Inr (d1, n)"
    and updr: "update_runs (\<lambda>x. rr_id x = run_id r) ?g d1 = Inr (d2, m)"
    and app1: "append_event now ?o d2 = Inr (d3, e1)" and app2: "append_event now ?e d3 = Inr (d', e2)"
    using assms(1) by (auto simp: store_finish_run_def)
  have d1: "d1 = d\<lparr>db_submissions := change (\<lambda>x. sr_id x = run_inbound r) ?f (db_submissions d)\<rparr>"
    and one: "one_running (db_submissions d1)"
    using upd by (auto simp: update_submissions_def Let_def split: if_splits)
  have d2: "d2 = d1\<lparr>db_runs := change (\<lambda>x. rr_id x = run_id r) ?g (db_runs d1)\<rparr>"
    using updr by (simp add: update_runs_def)
  obtain n1 where e1: "e1 = ?o\<lparr>re_id := n1, re_created := Some (event_time now ?o)\<rparr>"
    and fr1: "db_events d3 = db_events d2 @ [row_for e1]" "db_submissions d3 = db_submissions d2"
      "db_runs d3 = db_runs d2" "db_tools d3 = db_tools d2" by (rule append_event_row [OF app1])
  obtain n2 where e2: "e2 = ?e\<lparr>re_id := n2, re_created := Some (event_time now ?e)\<rparr>"
    and fr2: "db_events d' = db_events d3 @ [row_for e2]" "db_submissions d' = db_submissions d3"
      "db_runs d' = db_runs d3" "db_tools d' = db_tools d3" by (rule append_event_row [OF app2])
  note live_run_err [OF assms(2)]
  then have run: "r\<lparr>run_status := Completed, run_completed := Some now\<rparr>
      = r\<lparr>run_status := Completed, run_err := [], run_completed := Some now\<rparr>" by simp
  have co: "coherent d" and re: "replayed d" using assms(3) by (simp_all add: faithful_def)
  have tables: "db_submissions d' = change (\<lambda>x. sr_id x = run_inbound r) ?f (db_submissions d)"
    "db_runs d' = change (\<lambda>x. rr_id x = run_id r) ?g (db_runs d)" "db_tools d' = db_tools d"
    "one_running (db_submissions d')"
    using one by (simp_all add: fr1 fr2 d2 d1)
  have e2': "re_kind e2 = RunCompleted" "re_conv e2 = run_conv r" "re_run_id e2 = run_id r" "re_inbound e2 = run_inbound r"
    "re_run e2 = Some (r\<lparr>run_status := Completed, run_err := [], run_completed := Some now\<rparr>)"
    using run by (simp_all add: e2)
  note fin = terminal_replayed [OF co assms(2) _ _ _ _ _ _ tables e2']
  have "replay_index_event e2 [] (part (run_conv r) d) = Inr (part (run_conv r) d', [])"
    by (rule fin(1)) simp_all
  moreover have "replay_index_event e1 [] (part (run_conv r) d) = Inr (part (run_conv r) d, [])"
    by (simp add: e1 replay_index_event_def replay_output_def after_def ok_def replay_part_def text_message_part_def)
  ultimately have "replay_rows (map row_for [e1, e2]) [] (part (run_conv r) d) = Inr (part (run_conv r) d', [])"
    by (simp add: after_def ok_def)
  moreover have "part c' d' = part c' d" if "c' \<noteq> run_conv r" for c' by (rule fin(3)) (use that in simp_all)
  ultimately have "replayed d'"
    using re by (intro replayed_extend [of d d' "[e1, e2]" "run_conv r"]) (simp_all add: fr1 fr2 d2 d1 e1 e2)
  moreover have "coherent d'" by (rule fin(2)) simp_all
  ultimately show ?thesis by (simp add: faithful_def)
qed

lemma end_faithful:
  assumes "end_run now ids r st k msg d = Inr (d', evs)" and "live_run d r" and "faithful d"
    and st: "st \<notin> {Queued, Running}" and k: "terminal_status k = Some st"
  shows "faithful d'"
proof -
  let ?f = "\<lambda>x. x\<lparr>sr_status := st, sr_err := msg\<rparr>"
  let ?g = "\<lambda>x. x\<lparr>rr_status := st, rr_err := msg, rr_completed := Some now\<rparr>"
  let ?e = "(bare_event k (run_conv r) (run_id r) (run_inbound r))
                 \<lparr>re_created := Some now,
                  re_run := Some (r\<lparr>run_status := st, run_err := msg, run_completed := Some now\<rparr>)\<rparr>"
  obtain kts d0 evss d1 n d2 m e where
    ints: "for_each (\<lambda>(k, t). tool_finished now (ids k) r (interrupted_result t) ToolInterrupted) kts d = Inr (d0, evss)"
    and upd: "update_submissions (\<lambda>x. sr_id x = run_inbound r) ?f d0 = Inr (d1, n)"
    and updr: "update_runs (\<lambda>x. rr_id x = run_id r) ?g d1 = Inr (d2, m)"
    and app: "append_event now ?e d2 = Inr (d', e)"
    using assms(1) by (auto simp: end_run_def interrupt_requested_tools_def)
  have d0: "replayed d0" "coherent d0" "live_run d0 r"
    using interrupts_replayed [OF ints assms(2)] assms(3) by (simp_all add: faithful_def)
  have d1: "d1 = d0\<lparr>db_submissions := change (\<lambda>x. sr_id x = run_inbound r) ?f (db_submissions d0)\<rparr>"
    and one: "one_running (db_submissions d1)"
    using upd by (auto simp: update_submissions_def Let_def split: if_splits)
  have d2: "d2 = d1\<lparr>db_runs := change (\<lambda>x. rr_id x = run_id r) ?g (db_runs d1)\<rparr>"
    using updr by (simp add: update_runs_def)
  obtain n2 where e: "e = ?e\<lparr>re_id := n2, re_created := Some (event_time now ?e)\<rparr>"
    and fr: "db_events d' = db_events d2 @ [row_for e]" "db_submissions d' = db_submissions d2"
      "db_runs d' = db_runs d2" "db_tools d' = db_tools d2" by (rule append_event_row [OF app])
  have tables: "db_submissions d' = change (\<lambda>x. sr_id x = run_inbound r) ?f (db_submissions d0)"
    "db_runs d' = change (\<lambda>x. rr_id x = run_id r) ?g (db_runs d0)" "db_tools d' = db_tools d0"
    "one_running (db_submissions d')"
    using one by (simp_all add: fr d2 d1)
  have e': "re_kind e = k" "re_conv e = run_conv r" "re_run_id e = run_id r" "re_inbound e = run_inbound r"
    "re_run e = Some (r\<lparr>run_status := st, run_err := msg, run_completed := Some now\<rparr>)"
    by (simp_all add: e)
  note fin = terminal_replayed [OF d0(2,3) st k _ _ _ _ tables e']
  have "replay_index_event e [] (part (run_conv r) d0) = Inr (part (run_conv r) d', [])"
    by (rule fin(1)) simp_all
  moreover have "index_kind k" using k by (cases k) simp_all
  moreover have "part c' d' = part c' d0" if "c' \<noteq> run_conv r" for c' by (rule fin(3)) (use that in simp_all)
  ultimately have "replayed d'"
    using d0(1) by (intro replayed_extend [of d0 d' "[e]" "run_conv r"]) (simp_all add: fr d2 d1 e)
  moreover have "coherent d'" by (rule fin(2)) simp_all
  ultimately show ?thesis by (simp add: faithful_def)
qed

lemma end_runs_kept:
  assumes "end_run now ids r st k msg d = Inr (d', evs)" and "x \<in> set (db_runs d)" and "rr_id x \<noteq> run_id r"
  shows "x \<in> set (db_runs d')"
proof -
  obtain kts d0 evss d1 n d2 m e where
    ints: "for_each (\<lambda>(k, t). tool_finished now (ids k) r (interrupted_result t) ToolInterrupted) kts d = Inr (d0, evss)"
    and upd: "update_submissions (\<lambda>x. sr_id x = run_inbound r) (\<lambda>x. x\<lparr>sr_status := st, sr_err := msg\<rparr>) d0 = Inr (d1, n)"
    and updr: "update_runs (\<lambda>x. rr_id x = run_id r) (\<lambda>x. x\<lparr>rr_status := st, rr_err := msg, rr_completed := Some now\<rparr>) d1 = Inr (d2, m)"
    and app: "append_event now ((bare_event k (run_conv r) (run_id r) (run_inbound r))
                 \<lparr>re_created := Some now,
                  re_run := Some (r\<lparr>run_status := st, run_err := msg, run_completed := Some now\<rparr>)\<rparr>) d2 = Inr (d', e)"
    using assms(1) by (auto simp: end_run_def interrupt_requested_tools_def)
  have "db_runs d0 = db_runs d"
    using ints
  proof (induction kts arbitrary: d evss)
    case (Cons kt kts)
    then obtain d1 evs rest where "tool_finished now (ids (fst kt)) r (interrupted_result (snd kt)) ToolInterrupted d = Inr (d1, evs)"
      and "for_each (\<lambda>(k, t). tool_finished now (ids k) r (interrupted_result t) ToolInterrupted) kts d1 = Inr (d0, rest)"
      by (auto simp: split_def)
    then show ?case using Cons.IH by (fastforce simp: tool_finished_def Let_def update_tools_def dest: append_event_frame(2))
  qed simp
  then have "x \<in> set (db_runs d1)" using assms(2) upd by (auto simp: update_submissions_def Let_def split: if_splits)
  then have "x \<in> set (db_runs d2)" using assms(3) updr changed_member [of x] by (fastforce simp: update_runs_def change_def)
  then show ?thesis using append_event_frame(2) [OF app] by simp
qed

lemma recover_rows_faithful:
  assumes "fail_rows now idss k xs d = (d', err)" and "faithful d"
    and "distinct (map rr_id xs)" and "\<forall>x \<in> set xs. x \<in> set (db_runs d) \<and> rr_status x = Running"
  shows "faithful d'"
  using assms
proof (induction xs arbitrary: k d)
  case (Cons x xs)
  show ?case
  proof (cases "store_fail_run now (idss k) (run_of_row x) ''execution was interrupted; outcome unknown'' d")
    case (Inl e)
    with Cons.prems show ?thesis by simp
  next
    case (Inr w)
    obtain d1 evs where w: "w = (d1, evs)" by (cases w)
    have live: "live_run d (run_of_row x)" using Cons.prems(4) by (auto simp: live_run_def)
    note failed = Inr [unfolded w store_fail_run_def]
    have "faithful d1" by (rule end_faithful [OF failed live Cons.prems(2)]) simp_all
    moreover have "\<forall>y \<in> set xs. y \<in> set (db_runs d1) \<and> rr_status y = Running"
    proof
      fix y assume y: "y \<in> set xs"
      then have "rr_id y \<noteq> run_id (run_of_row x)" using Cons.prems(3) by (auto simp: run_of_row_def) (metis image_eqI)
      moreover have "y \<in> set (db_runs d)" "rr_status y = Running" using y Cons.prems(4) by simp_all
      ultimately show "y \<in> set (db_runs d1) \<and> rr_status y = Running" using end_runs_kept [OF failed] by simp
    qed
    ultimately show ?thesis using Cons.IH [of "Suc k" d1] Cons.prems Inr w by simp
  qed
qed simp

lemma valid_agent_kind: "valid_agent_event e \<Longrightarrow> \<not> index_kind (re_kind e)"
  by (auto simp: valid_agent_event_def agent_payload_fits_def index_kind_def split: event_kind.splits)

lemma faithful_frame:
  assumes "faithful d" and "db_events d' = db_events d" "db_submissions d' = db_submissions d"
    "db_runs d' = db_runs d" "db_tools d' = db_tools d"
  shows "faithful d'"
  using assms coherent_frame [OF assms(3-5)] replayed_frame [OF _ assms(2-5)] by (simp add: faithful_def)

lemma faithful_irrelevant:
  assumes "faithful d" and "append_event now e d = Inr (d', e')" and "\<not> index_kind (re_kind e)"
  shows "faithful d'"
  using assms replayed_irrelevant coherent_append unfolding faithful_def by blast

lemma live_step_faithful:
  assumes "live_step d d'" and "faithful d"
  shows "faithful d'"
  using assms(1)
proof cases
  case (live_create cv u)
  then show ?thesis using assms(2)
    by (intro faithful_frame [OF assms(2)])
       (auto simp: create_conversation_def insert_conversation_def Let_def split: if_splits)
next
  case (live_progress now r p e)
  then obtain ev where ev: "append_event now ev d = Inr (d', e)" "re_kind ev = EnvironmentProgressed"
    by (auto simp: append_environment_progress_def running_run_def split: if_splits)
  show ?thesis by (rule faithful_irrelevant [OF assms(2) ev(1)]) (simp add: ev(2))
next
  case (live_agent now r ev u)
  then obtain e where e: "append_event now (ev\<lparr>re_conv := run_conv r, re_run_id := run_id r, re_inbound := run_inbound r\<rparr>) d
      = Inr (d', e)" "valid_agent_event ev"
    by (auto simp: append_agent_event_def running_run_def split: if_splits)
  show ?thesis by (rule faithful_irrelevant [OF assms(2) e(1)]) (simp add: valid_agent_kind [OF e(2)])
next
  case (live_accept i now cid inp a)
  then show ?thesis using assms(2) accept_replayed unfolding faithful_def by (cases a) blast
next
  case (live_claim rid now c)
  show ?thesis
  proof (cases "next_runnable d")
    case None
    with live_claim assms(2) show ?thesis by (auto simp: claim_runnable_def)
  next
    case (Some r)
    note r = next_runnable_Some [OF Some]
    from live_claim Some obtain c' where "claim_row now rid r d = Inr (d', c')" by (auto simp: claim_runnable_def)
    moreover have "sr_status r = Queued" using r by (simp add: runnable_row_def)
    ultimately show ?thesis using claim_replayed live_claim(1) r assms(2) unfolding faithful_def by blast
  qed
next
  case (live_commit r oid now parts evs)
  then show ?thesis using assms(2) commit_replayed unfolding faithful_def by blast
next
  case (live_completed r oid now res evs)
  then show ?thesis using assms(2) tool_finished_replayed [of now oid r res _ d d' evs]
    by (fastforce simp: tool_completed_def faithful_def)
next
  case (live_denied r oid now res evs)
  then show ?thesis using assms(2) tool_finished_replayed [of now oid r res _ d d' evs]
    by (fastforce simp: tool_denied_def faithful_def split: if_splits)
next
  case (live_finish r oid now answer evs)
  then show ?thesis using assms(2) finish_faithful by blast
next
  case (live_fail r ids now msg evs)
  then show ?thesis using assms(2) end_faithful [of now ids r Failed RunFailed msg d d' evs] by (simp add: store_fail_run_def)
next
  case (live_stop r ids now evs)
  then show ?thesis using assms(2) end_faithful [of now ids r Stopped RunStopped _ d d' evs] by (simp add: store_stop_run_def)
next
  case (live_reserve now wid u)
  then show ?thesis by (intro faithful_frame [OF assms(2)]) (auto simp: reserve_workspace_def split: if_splits)
next
  case (live_release wid u)
  then show ?thesis by (intro faithful_frame [OF assms(2)]) (auto simp: release_workspace_def)
next
  case (live_recover idss now err)
  let ?d = "exec_tx clear_reservations d"
  have d1: "?d = d\<lparr>db_reservations := []\<rparr>" by (simp add: exec_tx_def clear_reservations_def)
  have "faithful ?d" by (rule faithful_frame [OF assms(2)]) (simp_all add: d1)
  moreover have "distinct (map rr_id (running_rows ?d))"
  proof -
    have "distinct (map rr_id (filter (\<lambda>x. rr_status x = Running) (db_runs ?d)))"
      using assms(2) by (intro distinct_part) (simp add: d1 faithful_def coherent_def runs_ok_def)
    then show ?thesis by (simp add: running_rows_def distinct_map)
  qed
  moreover have "\<forall>x \<in> set (running_rows ?d). x \<in> set (db_runs ?d) \<and> rr_status x = Running"
    by (simp add: running_rows_def)
  moreover have "fail_rows now idss 0 (running_rows ?d) ?d = (d', err)"
    using live_recover by (simp add: recover_running_def Let_def)
  ultimately show ?thesis using recover_rows_faithful by blast
qed

lemma faithful_empty: "faithful empty_db"
proof -
  have "replayed empty_db" by (simp add: replayed_def index_log_def empty_db_def ok_def)
  then show ?thesis by (simp add: faithful_def coherent_empty)
qed

lemma live_reachable_faithful: "live_reachable d \<Longrightarrow> faithful d"
  unfolding live_reachable_def
  by (erule rtranclp_induct) (rule faithful_empty, rule live_step_faithful)

end
