(* ===== verification/Store_Lift.thy ===== *)
theory Store_Lift
  imports Store_Rebuild Store_Props
begin

section \<open>Rebuilding the whole database\<close>

text \<open>
  The replay of one conversation in its own rows carries over to the whole database: a
  replay step touches only rows of its conversation, and its insertions do not collide with
  rows of other conversations. Replaying the conversations one after the other, in the
  order of the query, then rebuilds all of them.
\<close>

subsection \<open>Keys only grow\<close>

definition idx_le :: "db \<Rightarrow> db \<Rightarrow> bool" where
  "idx_le P Q \<longleftrightarrow>
     prefix (map sr_id (db_submissions P)) (map sr_id (db_submissions Q))
     \<and> prefix (map rr_id (db_runs P)) (map rr_id (db_runs Q))
     \<and> prefix (map (\<lambda>t. (tr_run t, tr_id t)) (db_tools P)) (map (\<lambda>t. (tr_run t, tr_id t)) (db_tools Q))"

lemma idx_le_refl [simp]: "idx_le P P"
  by (simp add: idx_le_def)

lemma idx_le_trans: "idx_le P Q \<Longrightarrow> idx_le Q R \<Longrightarrow> idx_le P R"
  unfolding idx_le_def by (meson prefix_order.trans)

text \<open>The rows of a conversation fit into a database: no key is used twice or elsewhere.\<close>

definition room :: "string \<Rightarrow> db \<Rightarrow> db \<Rightarrow> bool" where
  "room c D P \<longleftrightarrow>
     distinct (map sr_id (db_submissions P)) \<and> distinct (map rr_id (db_runs P))
     \<and> distinct (map (\<lambda>t. (tr_run t, tr_id t)) (db_tools P))
     \<and> (\<forall>s \<in> set (db_submissions D). sr_conv s \<noteq> c \<longrightarrow> sr_id s \<notin> set (map sr_id (db_submissions P)))
     \<and> (\<forall>x \<in> set (db_runs D). rr_conv x \<noteq> c \<longrightarrow> rr_id x \<notin> set (map rr_id (db_runs P)))
     \<and> (\<forall>t \<in> set (db_tools D). tr_conv t \<noteq> c \<longrightarrow> (tr_run t, tr_id t) \<notin> set (map (\<lambda>t. (tr_run t, tr_id t)) (db_tools P)))"

lemma room_le:
  assumes "room c D Q" and "idx_le P Q"
  shows "room c D P"
proof -
  have "distinct xs \<and> set xs \<subseteq> set ys" if "prefix xs ys" "distinct ys" for xs ys :: "'x list"
    using that by (auto simp: prefix_def)
  then show ?thesis using assms unfolding room_def idx_le_def by (smt (verit) subset_iff)
qed

definition elsewhere :: "string \<Rightarrow> db \<Rightarrow> db \<Rightarrow> bool" where
  "elsewhere c D D' \<longleftrightarrow>
     db_conversations D' = db_conversations D \<and> db_events D' = db_events D
     \<and> db_reservations D' = db_reservations D \<and> (\<forall>c'. c' \<noteq> c \<longrightarrow> part c' D' = part c' D)"

lemma elsewhere_refl [simp]: "elsewhere c D D"
  by (simp add: elsewhere_def)

lemma elsewhere_trans: "elsewhere c D E \<Longrightarrow> elsewhere c E F \<Longrightarrow> elsewhere c D F"
  by (simp add: elsewhere_def)

lemma elsewhere_members:
  assumes "elsewhere c D D'"
  shows "s \<in> set (db_submissions D') \<Longrightarrow> sr_conv s \<noteq> c \<Longrightarrow> s \<in> set (db_submissions D)"
    and "x \<in> set (db_runs D') \<Longrightarrow> rr_conv x \<noteq> c \<Longrightarrow> x \<in> set (db_runs D)"
    and "t \<in> set (db_tools D') \<Longrightarrow> tr_conv t \<noteq> c \<Longrightarrow> t \<in> set (db_tools D)"
proof -
  have same: "part c' D' = part c' D" if "c' \<noteq> c" for c' using assms that by (simp add: elsewhere_def)
  show "s \<in> set (db_submissions D)" if s: "s \<in> set (db_submissions D')" "sr_conv s \<noteq> c"
  proof -
    have "s \<in> set (db_submissions (part (sr_conv s) D'))" using s by simp
    then show ?thesis unfolding same [OF s(2)] by simp
  qed
  show "x \<in> set (db_runs D)" if x: "x \<in> set (db_runs D')" "rr_conv x \<noteq> c"
  proof -
    have "x \<in> set (db_runs (part (rr_conv x) D'))" using x by simp
    then show ?thesis unfolding same [OF x(2)] by simp
  qed
  show "t \<in> set (db_tools D)" if t: "t \<in> set (db_tools D')" "tr_conv t \<noteq> c"
  proof -
    have "t \<in> set (db_tools (part (tr_conv t) D'))" using t by simp
    then show ?thesis unfolding same [OF t(2)] by simp
  qed
qed

lemma room_elsewhere: "room c D P \<Longrightarrow> elsewhere c D D' \<Longrightarrow> room c D' P"
  unfolding room_def using elsewhere_members [of c D D'] by blast

subsection \<open>Transactions that lift from a conversation to the database\<close>

definition lifts :: "string \<Rightarrow> 'a tx \<Rightarrow> bool" where
  "lifts c m \<longleftrightarrow>
     (\<forall>P P' a. m P = Inr (P', a) \<longrightarrow> idx_le P P')
     \<and> (\<forall>D P a. conv_exists c D \<longrightarrow> one_running (db_submissions D) \<longrightarrow> m (part c D) = Inr (P, a) \<longrightarrow> room c D P
          \<longrightarrow> (\<exists>D'. m D = Inr (D', a) \<and> part c D' = P \<and> elsewhere c D D' \<and> one_running (db_submissions D')))"

lemma liftsI:
  assumes "\<And>P P' a. m P = Inr (P', a) \<Longrightarrow> idx_le P P'"
    and "\<And>D P a. conv_exists c D \<Longrightarrow> one_running (db_submissions D) \<Longrightarrow> m (part c D) = Inr (P, a) \<Longrightarrow> room c D P
          \<Longrightarrow> \<exists>D'. m D = Inr (D', a) \<and> part c D' = P \<and> elsewhere c D D' \<and> one_running (db_submissions D')"
  shows "lifts c m"
  using assms by (simp add: lifts_def)

lemma lifts_grows: "lifts c m \<Longrightarrow> m P = Inr (P', a) \<Longrightarrow> idx_le P P'"
  unfolding lifts_def by blast

lemma liftsE:
  assumes "lifts c m" "conv_exists c D" "one_running (db_submissions D)" "m (part c D) = Inr (P, a)" "room c D P"
  obtains D' where "m D = Inr (D', a)" "part c D' = P" "elsewhere c D D'" "one_running (db_submissions D')"
proof -
  have "\<exists>D'. m D = Inr (D', a) \<and> part c D' = P \<and> elsewhere c D D' \<and> one_running (db_submissions D')"
    using assms unfolding lifts_def by blast
  with that show thesis by blast
qed

lemma elsewhere_conv: "elsewhere c D D' \<Longrightarrow> conv_exists c' D' = conv_exists c' D"
  by (simp add: elsewhere_def conv_exists_def)

lemma lifts_simple [simp, intro]:
  "lifts c (ok a)" "lifts c (bad e)" "lifts c (require b e)" "lifts c (lift_error r)"
  by (auto intro!: liftsI simp: ok_def bad_def require_def lift_error_def split: if_splits sum.splits)

lemma lifts_after [intro]:
  assumes "lifts c m" and "\<And>a. lifts c (f a)"
  shows "lifts c (after m f)"
proof (rule liftsI)
  fix P P' b assume "after m f P = Inr (P', b)"
  then obtain P1 a where "m P = Inr (P1, a)" "f a P1 = Inr (P', b)" by auto
  with lifts_grows [OF assms(1)] lifts_grows [OF assms(2)] show "idx_le P P'" by (meson idx_le_trans)
next
  fix D P b
  assume D: "conv_exists c D" "one_running (db_submissions D)" and run: "after m f (part c D) = Inr (P, b)"
    and fits: "room c D P"
  from run obtain P1 a where m: "m (part c D) = Inr (P1, a)" and f: "f a P1 = Inr (P, b)" by auto
  have "room c D P1" using fits lifts_grows [OF assms(2) f] by (rule room_le)
  then obtain D1 where D1: "m D = Inr (D1, a)" "part c D1 = P1" "elsewhere c D D1" "one_running (db_submissions D1)"
    by (rule liftsE [OF assms(1) D m])
  have "conv_exists c D1" "room c D1 P" using D(1) D1(3) fits by (simp_all add: elsewhere_conv room_elsewhere)
  then obtain D2 where D2: "f a D1 = Inr (D2, b)" "part c D2 = P" "elsewhere c D1 D2" "one_running (db_submissions D2)"
    using liftsE [OF assms(2) _ D1(4), of a P b] f D1(2) by blast
  show "\<exists>D'. after m f D = Inr (D', b) \<and> part c D' = P \<and> elsewhere c D D' \<and> one_running (db_submissions D')"
    using D1 D2 by (intro exI [of _ D2]) (auto intro: elsewhere_trans)
qed

lemma lifts_for_each [intro]: "(\<And>x. x \<in> set xs \<Longrightarrow> lifts c (f x)) \<Longrightarrow> lifts c (for_each f xs)"
  by (induction xs) (auto intro!: lifts_after)

subsection \<open>The primitives of the replay lift\<close>

lemma lifts_insert_submission:
  assumes "sr_conv r = c" "sr_status r = Queued"
  shows "lifts c (insert_submission r)"
proof (rule liftsI)
  fix P P' a assume "insert_submission r P = Inr (P', a)"
  then show "idx_le P P'" by (auto simp: insert_submission_def idx_le_def split: if_splits)
next
  fix D P a
  assume D: "conv_exists c D" "one_running (db_submissions D)" and ins: "insert_submission r (part c D) = Inr (P, a)"
    and fits: "room c D P"
  from ins have P: "P = (part c D)\<lparr>db_submissions := filter (\<lambda>s. sr_conv s = c) (db_submissions D) @ [r]\<rparr>"
    and free: "sr_revision r \<noteq> []" "\<not> (\<exists>x \<in> set (db_submissions D). sr_conv x = c \<and> sr_key x = sr_key r)"
      "\<not> (\<exists>x \<in> set (db_submissions D). sr_conv x = c \<and> sr_id x = sr_id r)"
    using assms by (auto simp: insert_submission_def split: if_splits)
  have "sr_id x \<noteq> sr_id r" if "x \<in> set (db_submissions D)" for x
    using free(3) fits that by (cases "sr_conv x = c") (auto simp: room_def P)
  then have "insert_submission r D = Inr (D\<lparr>db_submissions := db_submissions D @ [r]\<rparr>, a)"
    using free(1,2) D(1) assms by (auto simp: insert_submission_def)
  moreover have "part c (D\<lparr>db_submissions := db_submissions D @ [r]\<rparr>) = P" by (simp add: P part_def assms)
  moreover have "elsewhere c D (D\<lparr>db_submissions := db_submissions D @ [r]\<rparr>)"
    using assms by (simp add: elsewhere_def part_def)
  moreover have "one_running (db_submissions D @ [r])" using D(2) assms by (simp add: one_running_def)
  ultimately show "\<exists>D'. insert_submission r D = Inr (D', a) \<and> part c D' = P \<and> elsewhere c D D' \<and> one_running (db_submissions D')"
    by (intro exI [of _ "D\<lparr>db_submissions := db_submissions D @ [r]\<rparr>"]) simp
qed

lemma lifts_insert_run:
  assumes "rr_conv x = c"
  shows "lifts c (insert_run x)"
proof (rule liftsI)
  fix P P' a assume "insert_run x P = Inr (P', a)"
  then show "idx_le P P'" by (auto simp: insert_run_def idx_le_def split: if_splits)
next
  fix D P a
  assume D: "conv_exists c D" "one_running (db_submissions D)" and ins: "insert_run x (part c D) = Inr (P, a)"
    and fits: "room c D P"
  from ins have P: "P = (part c D)\<lparr>db_runs := filter (\<lambda>y. rr_conv y = c) (db_runs D) @ [x]\<rparr>"
    and free: "rr_revision x \<noteq> []" "\<exists>s \<in> set (db_submissions D). sr_id s = rr_sub x"
      "\<not> (\<exists>y \<in> set (db_runs D). rr_conv y = c \<and> rr_id y = rr_id x)"
    using assms by (auto simp: insert_run_def split: if_splits)
  have "rr_id y \<noteq> rr_id x" if "y \<in> set (db_runs D)" for y
    using free(3) fits that by (cases "rr_conv y = c") (auto simp: room_def P)
  then have "insert_run x D = Inr (D\<lparr>db_runs := db_runs D @ [x]\<rparr>, a)"
    using free(1,2) D(1) assms by (auto simp: insert_run_def)
  moreover have "part c (D\<lparr>db_runs := db_runs D @ [x]\<rparr>) = P" by (simp add: P part_def assms)
  moreover have "elsewhere c D (D\<lparr>db_runs := db_runs D @ [x]\<rparr>)"
    using assms by (simp add: elsewhere_def part_def)
  ultimately show "\<exists>D'. insert_run x D = Inr (D', a) \<and> part c D' = P \<and> elsewhere c D D' \<and> one_running (db_submissions D')"
    using D(2) by (intro exI [of _ "D\<lparr>db_runs := db_runs D @ [x]\<rparr>"]) simp
qed

lemma lifts_insert_tool:
  assumes "tr_conv t = c"
  shows "lifts c (insert_tool t)"
proof (rule liftsI)
  fix P P' a assume "insert_tool t P = Inr (P', a)"
  then show "idx_le P P'" by (auto simp: insert_tool_def idx_le_def split: if_splits)
next
  fix D P a
  assume D: "conv_exists c D" "one_running (db_submissions D)" and ins: "insert_tool t (part c D) = Inr (P, a)"
    and fits: "room c D P"
  from ins have P: "P = (part c D)\<lparr>db_tools := filter (\<lambda>y. tr_conv y = c) (db_tools D) @ [t]\<rparr>"
    and free: "\<exists>y \<in> set (db_runs D). rr_id y = tr_run t"
      "\<not> (\<exists>y \<in> set (db_tools D). tr_conv y = c \<and> tr_run y = tr_run t \<and> tr_id y = tr_id t)"
    using assms by (auto simp: insert_tool_def split: if_splits)
  have "\<not> (tr_run y = tr_run t \<and> tr_id y = tr_id t)" if "y \<in> set (db_tools D)" for y
    using free(2) fits that by (cases "tr_conv y = c") (auto simp: room_def P)
  then have "insert_tool t D = Inr (D\<lparr>db_tools := db_tools D @ [t]\<rparr>, a)"
    using free(1) D(1) assms by (auto simp: insert_tool_def)
  moreover have "part c (D\<lparr>db_tools := db_tools D @ [t]\<rparr>) = P" by (simp add: P part_def assms)
  moreover have "elsewhere c D (D\<lparr>db_tools := db_tools D @ [t]\<rparr>)"
    using assms by (simp add: elsewhere_def part_def)
  ultimately show "\<exists>D'. insert_tool t D = Inr (D', a) \<and> part c D' = P \<and> elsewhere c D D' \<and> one_running (db_submissions D')"
    using D(2) by (intro exI [of _ "D\<lparr>db_tools := db_tools D @ [t]\<rparr>"]) simp
qed

lemma one_running_by_conv: "(\<And>c. one_running (filter (\<lambda>s. sr_conv s = c) rs)) \<Longrightarrow> one_running rs"
proof (induction rs)
  case (Cons x xs)
  have "one_running (filter (\<lambda>s. sr_conv s = c) xs)" for c
    using Cons.prems [of c] by (auto simp: one_running_def split: if_splits)
  then have "one_running xs" by (rule Cons.IH)
  moreover have "sr_conv x \<notin> sr_conv ` {s \<in> set xs. sr_status s = Running}" if "sr_status x = Running"
    using Cons.prems [of "sr_conv x"] that by (auto simp: one_running_def)
  ultimately show ?case by (simp add: one_running_def)
qed (simp add: one_running_def)

lemma filter_selected: "(\<And>x. q x \<Longrightarrow> k x = c) \<Longrightarrow> filter q (filter (\<lambda>x. k x = c) xs) = filter q xs"
  by (auto intro!: filter_cong)

lemma lifts_update_submissions:
  assumes q: "\<And>s. q s \<Longrightarrow> sr_conv s = c" and f: "\<And>s. sr_conv (f s) = sr_conv s \<and> sr_id (f s) = sr_id s"
  shows "lifts c (update_submissions q f)"
proof (rule liftsI)
  fix P P' a assume "update_submissions q f P = Inr (P', a)"
  moreover have "map sr_id (change q f rs) = map sr_id rs" for rs using f by (simp add: change_def)
  ultimately show "idx_le P P'" by (auto simp: update_submissions_def Let_def idx_le_def split: if_splits)
next
  fix D P a
  assume D: "conv_exists c D" "one_running (db_submissions D)" and upd: "update_submissions q f (part c D) = Inr (P, a)"
  let ?D = "D\<lparr>db_submissions := change q f (db_submissions D)\<rparr>"
  have rows: "filter (\<lambda>s. sr_conv s = c) (change q f (db_submissions D)) = change q f (filter (\<lambda>s. sr_conv s = c) (db_submissions D))"
    by (rule filter_change [where k = sr_conv]) (simp add: f)
  have others: "filter (\<lambda>s. sr_conv s = c') (change q f (db_submissions D)) = filter (\<lambda>s. sr_conv s = c') (db_submissions D)"
    if "c' \<noteq> c" for c'
    by (rule change_other [where c = c and k = sr_conv]) (use that q f in auto)
  from upd have P: "P = (part c D)\<lparr>db_submissions := change q f (filter (\<lambda>s. sr_conv s = c) (db_submissions D))\<rparr>"
    and one: "one_running (change q f (filter (\<lambda>s. sr_conv s = c) (db_submissions D)))"
    and n: "a = length (filter q (filter (\<lambda>s. sr_conv s = c) (db_submissions D)))"
    by (auto simp: update_submissions_def Let_def simp del: filter_filter split: if_splits)
  have a: "a = length (filter q (db_submissions D))" unfolding n by (subst filter_selected [where k = sr_conv]) (simp_all add: q)
  have "one_running (filter (\<lambda>s. sr_conv s = c') (change q f (db_submissions D)))" for c'
    using one rows others one_running_filter [OF D(2)] by (cases "c' = c") auto
  then have run: "one_running (change q f (db_submissions D))" by (rule one_running_by_conv)
  then have "update_submissions q f D = Inr (?D, a)" by (simp add: update_submissions_def a)
  moreover have "part c ?D = P" by (simp add: P part_def rows)
  moreover have "elsewhere c D ?D" by (simp add: elsewhere_def part_def others)
  ultimately show "\<exists>D'. update_submissions q f D = Inr (D', a) \<and> part c D' = P \<and> elsewhere c D D' \<and> one_running (db_submissions D')"
    using run by (intro exI [of _ ?D]) simp
qed

lemma lifts_update_runs:
  assumes q: "\<And>x. q x \<Longrightarrow> rr_conv x = c" and f: "\<And>x. rr_conv (f x) = rr_conv x \<and> rr_id (f x) = rr_id x"
  shows "lifts c (update_runs q f)"
proof (rule liftsI)
  fix P P' a assume "update_runs q f P = Inr (P', a)"
  moreover have "map rr_id (change q f rs) = map rr_id rs" for rs using f by (simp add: change_def)
  ultimately show "idx_le P P'" by (auto simp: update_runs_def idx_le_def)
next
  fix D P a
  assume D: "one_running (db_submissions D)" and upd: "update_runs q f (part c D) = Inr (P, a)"
  let ?D = "D\<lparr>db_runs := change q f (db_runs D)\<rparr>"
  have rows: "filter (\<lambda>x. rr_conv x = c) (change q f (db_runs D)) = change q f (filter (\<lambda>x. rr_conv x = c) (db_runs D))"
    by (rule filter_change [where k = rr_conv]) (simp add: f)
  have others: "filter (\<lambda>x. rr_conv x = c') (change q f (db_runs D)) = filter (\<lambda>x. rr_conv x = c') (db_runs D)"
    if "c' \<noteq> c" for c'
    by (rule change_other [where c = c and k = rr_conv]) (use that q f in auto)
  from upd have P: "P = (part c D)\<lparr>db_runs := change q f (filter (\<lambda>x. rr_conv x = c) (db_runs D))\<rparr>"
    and n: "a = length (filter q (filter (\<lambda>x. rr_conv x = c) (db_runs D)))"
    by (auto simp: update_runs_def simp del: filter_filter)
  have a: "a = length (filter q (db_runs D))" unfolding n by (subst filter_selected [where k = rr_conv]) (simp_all add: q)
  have "update_runs q f D = Inr (?D, a)" by (simp add: update_runs_def a)
  moreover have "part c ?D = P" by (simp add: P part_def rows)
  moreover have "elsewhere c D ?D" by (simp add: elsewhere_def part_def others)
  ultimately show "\<exists>D'. update_runs q f D = Inr (D', a) \<and> part c D' = P \<and> elsewhere c D D' \<and> one_running (db_submissions D')"
    using D by (intro exI [of _ ?D]) simp
qed

lemma lifts_update_tools:
  assumes q: "\<And>t. q t \<Longrightarrow> tr_conv t = c"
    and f: "\<And>t. tr_conv (f t) = tr_conv t \<and> tr_run (f t) = tr_run t \<and> tr_id (f t) = tr_id t"
  shows "lifts c (update_tools q f)"
proof (rule liftsI)
  fix P P' a assume "update_tools q f P = Inr (P', a)"
  moreover have "map (\<lambda>t. (tr_run t, tr_id t)) (change q f rs) = map (\<lambda>t. (tr_run t, tr_id t)) rs" for rs
    using f by (simp add: change_def)
  ultimately show "idx_le P P'" by (auto simp: update_tools_def idx_le_def)
next
  fix D P a
  assume D: "one_running (db_submissions D)" and upd: "update_tools q f (part c D) = Inr (P, a)"
  let ?D = "D\<lparr>db_tools := change q f (db_tools D)\<rparr>"
  have rows: "filter (\<lambda>x. tr_conv x = c) (change q f (db_tools D)) = change q f (filter (\<lambda>x. tr_conv x = c) (db_tools D))"
    by (rule filter_change [where k = tr_conv]) (simp add: f)
  have others: "filter (\<lambda>x. tr_conv x = c') (change q f (db_tools D)) = filter (\<lambda>x. tr_conv x = c') (db_tools D)"
    if "c' \<noteq> c" for c'
    by (rule change_other [where c = c and k = tr_conv]) (use that q f in auto)
  from upd have P: "P = (part c D)\<lparr>db_tools := change q f (filter (\<lambda>x. tr_conv x = c) (db_tools D))\<rparr>"
    and n: "a = length (filter q (filter (\<lambda>x. tr_conv x = c) (db_tools D)))"
    by (auto simp: update_tools_def simp del: filter_filter)
  have a: "a = length (filter q (db_tools D))" unfolding n by (subst filter_selected [where k = tr_conv]) (simp_all add: q)
  have "update_tools q f D = Inr (?D, a)" by (simp add: update_tools_def a)
  moreover have "part c ?D = P" by (simp add: P part_def rows)
  moreover have "elsewhere c D ?D" by (simp add: elsewhere_def part_def others)
  ultimately show "\<exists>D'. update_tools q f D = Inr (D', a) \<and> part c D' = P \<and> elsewhere c D D' \<and> one_running (db_submissions D')"
    using D by (intro exI [of _ ?D]) simp
qed

lemma lifts_update_one: "lifts c m \<Longrightarrow> lifts c (update_one m)"
  unfolding update_one_def by (intro lifts_after) simp_all

lemmas lifts_primitives = lifts_insert_submission lifts_insert_run lifts_insert_tool lifts_update_one
  lifts_update_submissions lifts_update_runs lifts_update_tools

subsection \<open>Replaying an event lifts\<close>

lemma lifts_replay_event:
  assumes "re_conv e = c"
  shows "lifts c (replay_index_event e adm)"
proof -
  have "lifts c (replay_accepted e adm)"
    unfolding replay_accepted_def using assms
    by (auto intro!: lifts_after lifts_primitives split: option.split)
  moreover have "lifts c (replay_admitted e adm)" by (simp add: replay_admitted_def)
  moreover have "lifts c (replay_started e adm)"
    unfolding replay_started_def using assms
    by (auto intro!: lifts_after lifts_primitives split: option.split)
  moreover have "lifts c (replay_output e adm)"
    unfolding replay_output_def replay_part_def using assms
    by (auto intro!: lifts_after lifts_for_each lifts_primitives split: option.split)
  moreover have "lifts c (replay_outcome e adm)"
    unfolding replay_outcome_def using assms
    by (auto intro!: lifts_after lifts_primitives split: option.split)
  moreover have "lifts c (replay_terminal st e adm)" for st
    unfolding replay_terminal_def using assms
    by (auto intro!: lifts_after lifts_primitives split: option.split)
  ultimately show ?thesis by (auto simp: replay_index_event_def split: option.split)
qed

lemma lifts_replay_rows: "\<forall>r \<in> set rs. er_conv r = c \<Longrightarrow> lifts c (replay_rows rs adm)"
proof (induction rs arbitrary: adm)
  case (Cons r rs)
  have "lifts c (replay_row r adm)"
  proof (cases "re_conv (er_payload r) = c")
    case True
    then show ?thesis unfolding replay_row_def by (intro lifts_after lifts_replay_event) simp_all
  next
    case False
    then have "replay_row r adm = bad (Invalid ''payload does not match its log position'')"
      using Cons.prems by (auto simp: replay_row_def after_def require_def bad_def fun_eq_iff)
    then show ?thesis by simp
  qed
  with Cons show ?case by (auto intro!: lifts_after)
qed simp

subsection \<open>The query order is conversation by conversation\<close>

lemma least_first:
  assumes "sorted (map k xs)" and "\<forall>x \<in> set xs. c \<le> k x"
  shows "xs = filter (\<lambda>x. k x = c) xs @ filter (\<lambda>x. k x \<noteq> c) xs"
  using assms
proof (induction xs)
  case (Cons x xs)
  show ?case
  proof (cases "k x = c")
    case True
    with Cons show ?thesis by simp
  next
    case False
    with Cons.prems have "c < k x" by (simp add: order_less_le)
    with Cons.prems have "\<forall>y \<in> set (x # xs). k y \<noteq> c" by auto
    then have "filter (\<lambda>x. k x = c) (x # xs) = []" "filter (\<lambda>x. k x \<noteq> c) (x # xs) = x # xs"
      by (auto simp: filter_empty_conv intro: filter_True)
    then show ?thesis by simp
  qed
qed simp

lemma by_key:
  assumes "sorted (map k xs)"
  obtains cs where "distinct cs" "set cs = k ` set xs" "xs = concat (map (\<lambda>c. filter (\<lambda>x. k x = c) xs) cs)"
proof -
  have "\<exists>cs. distinct cs \<and> set cs = k ` set xs \<and> xs = concat (map (\<lambda>c. filter (\<lambda>x. k x = c) xs) cs)"
    using assms
  proof (induction "length xs" arbitrary: xs rule: less_induct)
    case less
    show ?case
    proof (cases xs)
      case (Cons x rest)
      let ?ys = "filter (\<lambda>y. k y \<noteq> k x) xs"
      have split: "xs = filter (\<lambda>y. k y = k x) xs @ ?ys"
        by (rule least_first [OF less.prems]) (use less.prems Cons in auto)
      have "length ?ys < length xs" using length_filter_less [of x xs "\<lambda>y. k y \<noteq> k x"] Cons by simp
      moreover have "sorted (map k ?ys)" using less.prems by (rule sorted_filter)
      ultimately obtain cs where cs: "distinct cs" "set cs = k ` set ?ys"
        "?ys = concat (map (\<lambda>c. filter (\<lambda>y. k y = c) ?ys) cs)"
        using less.hyps by blast
      have new: "k x \<notin> set cs" by (auto simp: cs(2))
      then have m: "map (\<lambda>c. filter (\<lambda>y. k y = c) ?ys) cs = map (\<lambda>c. filter (\<lambda>y. k y = c) xs) cs"
        by (auto intro!: filter_cong)
      have "?ys = concat (map (\<lambda>c. filter (\<lambda>y. k y = c) xs) cs)"
        using cs(3) unfolding m .
      then have "filter (\<lambda>y. k y = k x) xs @ ?ys
          = filter (\<lambda>y. k y = k x) xs @ concat (map (\<lambda>c. filter (\<lambda>y. k y = c) xs) cs)" by (rule arg_cong)
      then have "xs = filter (\<lambda>y. k y = k x) xs @ concat (map (\<lambda>c. filter (\<lambda>y. k y = c) xs) cs)"
        by (rule trans [OF split])
      then have "xs = concat (map (\<lambda>c. filter (\<lambda>y. k y = c) xs) (k x # cs))" by simp
      moreover have "set (k x # cs) = k ` set xs" using cs(2) Cons by auto
      moreover have "distinct (k x # cs)" using cs(1) new by simp
      ultimately show ?thesis by blast
    qed simp
  qed
  with that show thesis by blast
qed

lemma sorted_pairs: "sorted (map (\<lambda>r. (f r, g r)) xs) \<Longrightarrow> sorted (map f xs)"
  by (induction xs) auto

lemma index_rows_of_conv:
  assumes "log_ok d"
  shows "filter (\<lambda>r. er_conv r = cid) (index_rows d) = index_log cid d"
proof -
  let ?f = "\<lambda>r. (er_conv r, er_cursor r)"
  have "filter (\<lambda>r. er_conv r = cid) (index_rows d)
      = sort_key ?f (filter (\<lambda>r. er_conv r = cid) (filter (\<lambda>r. index_kind (er_kind r)) (db_events d)))"
    by (simp only: index_rows_def filter_sort)
  also have "filter (\<lambda>r. er_conv r = cid) (filter (\<lambda>r. index_kind (er_kind r)) (db_events d)) = index_log cid d"
    by (simp add: index_log_def) (rule filter_cong, auto)
  also have "sort_key ?f (index_log cid d) = index_log cid d"
  proof (rule sort_key_id_if_sorted)
    show "sorted (map ?f (index_log cid d))"
    proof (cases "index_log cid d = []")
      case False
      then obtain r where "r \<in> set (db_events d)" "er_conv r = cid"
        by (auto simp: index_log_def filter_empty_conv)
      then have "cid \<in> set (conv_ids d)" using assms unfolding log_ok_def by blast
      then obtain cr where cr: "cr \<in> set (db_conversations d)" "cv_id (cr_conv cr) = cid" by (auto simp: conv_ids_def)
      then have "map er_cursor (conv_log cid d) = [1..<cr_next cr]" using assms unfolding log_ok_def by blast
      then have "sorted (map er_cursor (conv_log cid d))" by simp
      then have "sorted (map er_cursor (filter (\<lambda>r. index_kind (er_kind r)) (conv_log cid d)))" by (rule sorted_filter)
      moreover have "filter (\<lambda>r. index_kind (er_kind r)) (conv_log cid d) = index_log cid d"
        by (simp add: conv_log_def index_log_def)
      ultimately have "sorted (map er_cursor (index_log cid d))" by simp
      moreover have "map ?f (index_log cid d) = map (\<lambda>n. (cid, n)) (map er_cursor (index_log cid d))"
        by (auto simp: index_log_def)
      moreover have "sorted (map (\<lambda>n. (cid, n)) ns)" if "sorted ns" for ns :: "nat list"
        using that by (induction ns) auto
      ultimately show ?thesis by (simp only:)
    qed simp
  qed
  finally show ?thesis .
qed

subsection \<open>All conversations\<close>

text \<open>Between two conversations, each one is either rebuilt or still empty.\<close>

definition blank :: "string \<Rightarrow> db" where
  "blank c = part c empty_db"

definition halfway :: "db \<Rightarrow> db \<Rightarrow> bool" where
  "halfway d D \<longleftrightarrow>
     (\<forall>c. part c D = part c d \<or> part c D = blank c) \<and> one_running (db_submissions D)
     \<and> db_conversations D = db_conversations d \<and> db_events D = db_events d
     \<and> db_reservations D = db_reservations d"

lemma halfway_members:
  assumes "halfway d D"
  shows "s \<in> set (db_submissions D) \<Longrightarrow> s \<in> set (db_submissions d)"
    and "x \<in> set (db_runs D) \<Longrightarrow> x \<in> set (db_runs d)"
    and "t \<in> set (db_tools D) \<Longrightarrow> t \<in> set (db_tools d)"
proof -
  have dich: "part c D = part c d \<or> part c D = blank c" for c using assms by (simp add: halfway_def)
  have none: "db_submissions (blank c) = []" "db_runs (blank c) = []" "db_tools (blank c) = []" for c
    by (simp_all add: blank_def empty_db_def)
  show "s \<in> set (db_submissions d)" if "s \<in> set (db_submissions D)"
  proof -
    have "s \<in> set (db_submissions (part (sr_conv s) D))" using that by simp
    then have "s \<in> set (db_submissions (part (sr_conv s) d))" using dich [of "sr_conv s"] none by (metis empty_iff list.set(1))
    then show ?thesis by simp
  qed
  show "x \<in> set (db_runs d)" if "x \<in> set (db_runs D)"
  proof -
    have "x \<in> set (db_runs (part (rr_conv x) D))" using that by simp
    then have "x \<in> set (db_runs (part (rr_conv x) d))" using dich [of "rr_conv x"] none by (metis empty_iff list.set(1))
    then show ?thesis by simp
  qed
  show "t \<in> set (db_tools d)" if "t \<in> set (db_tools D)"
  proof -
    have "t \<in> set (db_tools (part (tr_conv t) D))" using that by simp
    then have "t \<in> set (db_tools (part (tr_conv t) d))" using dich [of "tr_conv t"] none by (metis empty_iff list.set(1))
    then show ?thesis by simp
  qed
qed

lemma halfway_room:
  assumes "halfway d D" and co: "coherent d"
  shows "room c D (part c d)"
  unfolding room_def
proof (intro conjI ballI impI)
  show "distinct (map sr_id (db_submissions (part c d)))" "distinct (map rr_id (db_runs (part c d)))"
    "distinct (map (\<lambda>t. (tr_run t, tr_id t)) (db_tools (part c d)))"
    unfolding part_simps
    by (rule distinct_part, use co in \<open>simp add: coherent_def subs_ok_def runs_ok_def tools_ok_def\<close>)+
  show "sr_id s \<notin> set (map sr_id (db_submissions (part c d)))" if "s \<in> set (db_submissions D)" "sr_conv s \<noteq> c" for s
    using sub_keyed [OF co _ halfway_members(1) [OF assms(1) that(1)]] that(2) by force
  show "rr_id x \<notin> set (map rr_id (db_runs (part c d)))" if "x \<in> set (db_runs D)" "rr_conv x \<noteq> c" for x
    using run_keyed [OF co _ halfway_members(2) [OF assms(1) that(1)]] that(2) by force
  show "(tr_run t, tr_id t) \<notin> set (map (\<lambda>t. (tr_run t, tr_id t)) (db_tools (part c d)))"
    if "t \<in> set (db_tools D)" "tr_conv t \<noteq> c" for t
    using tool_keyed [OF co _ halfway_members(3) [OF assms(1) that(1)]] that(2) by force
qed

lemma replay_convs:
  assumes "faithful d" "log_ok d" and "distinct cs" and "\<forall>c \<in> set cs. conv_exists c d \<and> part c D = blank c"
    and "halfway d D"
  obtains D' where "replay_rows (concat (map (\<lambda>c. index_log c d) cs)) [] D = Inr (D', [])" "halfway d D'"
    "\<forall>c \<in> set cs. part c D' = part c d" "\<forall>c. c \<notin> set cs \<longrightarrow> part c D' = part c D"
proof -
  have "\<exists>D'. replay_rows (concat (map (\<lambda>c. index_log c d) cs)) [] D = Inr (D', []) \<and> halfway d D'
      \<and> (\<forall>c \<in> set cs. part c D' = part c d) \<and> (\<forall>c. c \<notin> set cs \<longrightarrow> part c D' = part c D)"
    using assms(3-5)
  proof (induction cs arbitrary: D)
    case Nil
    then show ?case by (simp add: ok_def)
  next
    case (Cons c cs)
    have rep: "replay_rows (index_log c d) [] (part c D) = Inr (part c d, [])"
      using assms(1) Cons.prems(2) by (simp add: faithful_def replayed_def blank_def)
    have lift: "lifts c (replay_rows (index_log c d) [])" by (rule lifts_replay_rows) (simp add: index_log_def)
    have D: "conv_exists c D" "one_running (db_submissions D)"
      using Cons.prems(2,3) by (simp_all add: halfway_def conv_exists_def)
    have "room c D (part c d)" using halfway_room [OF Cons.prems(3)] assms(1) by (simp add: faithful_def)
    then obtain D1 where D1: "replay_rows (index_log c d) [] D = Inr (D1, [])" "part c D1 = part c d"
      "elsewhere c D D1" "one_running (db_submissions D1)"
      by (rule liftsE [OF lift D rep])
    have others: "part c' D1 = part c' D" if "c' \<noteq> c" for c' using D1(3) that by (simp add: elsewhere_def)
    have half: "halfway d D1"
      unfolding halfway_def
    proof (intro conjI allI)
      show "part c' D1 = part c' d \<or> part c' D1 = blank c'" for c'
        using D1(2) others [of c'] Cons.prems(3) by (cases "c' = c") (simp_all add: halfway_def)
      show "one_running (db_submissions D1)" by (rule D1(4))
      show "db_conversations D1 = db_conversations d" "db_events D1 = db_events d" "db_reservations D1 = db_reservations d"
        using D1(3) Cons.prems(3) by (simp_all add: elsewhere_def halfway_def)
    qed
    have "\<forall>c \<in> set cs. conv_exists c d \<and> part c D1 = blank c" using Cons.prems(1,2) others by fastforce
    from Cons.IH [OF _ this half] Cons.prems(1) obtain D' where
      D': "replay_rows (concat (map (\<lambda>c. index_log c d) cs)) [] D1 = Inr (D', [])" "halfway d D'"
      "\<forall>c \<in> set cs. part c D' = part c d" "\<forall>c. c \<notin> set cs \<longrightarrow> part c D' = part c D1"
      by auto
    have "replay_rows (concat (map (\<lambda>c. index_log c d) (c # cs))) [] D = Inr (D', [])"
      using D1(1) D'(1) by (simp add: replay_rows_append)
    moreover have "part c D' = part c d" using D'(4) Cons.prems(1) D1(2) by simp
    ultimately show ?case using D' others by (intro exI [of _ D']) auto
  qed
  with that show thesis by blast
qed

lemma log_end_ok:
  assumes "log_ok d" and "cr \<in> set (db_conversations d)"
  shows "log_end d (cv_id (cr_conv cr)) = cr_next cr"
proof -
  have log: "map er_cursor (conv_log (cv_id (cr_conv cr)) d) = [1..<cr_next cr]" and pos: "1 \<le> cr_next cr"
    using assms unfolding log_ok_def by blast+
  show ?thesis
  proof (cases "conv_log (cv_id (cr_conv cr)) d")
    case Nil
    with log have "cr_next cr \<le> 1" by (metis list.map_disc_iff upt_eq_Nil_conv zero_less_one le_zero_eq nat_le_linear)
    with Nil pos show ?thesis by (simp add: log_end_def conv_log_def)
  next
    case (Cons r rs)
    then have "log_end d (cv_id (cr_conv cr)) = Max (set (map er_cursor (conv_log (cv_id (cr_conv cr)) d))) + 1"
      by (simp add: log_end_def conv_log_def)
    also have "set (map er_cursor (conv_log (cv_id (cr_conv cr)) d)) = {1..<cr_next cr}" unfolding log by simp
    also have "Max {1..<cr_next cr} + 1 = cr_next cr"
    proof -
      have "1 < cr_next cr" using log Cons by (cases "1 < cr_next cr") auto
      then have "Max {1..<cr_next cr} = cr_next cr - 1" by (intro Max_eqI) auto
      with \<open>1 < cr_next cr\<close> show ?thesis by simp
    qed
    finally show ?thesis .
  qed
qed

subsection \<open>The rebuild\<close>

lemma rebuild_faithful:
  fixes d x :: db
  assumes "faithful d" "log_ok d"
    and x: "db_events x = db_events d" "db_conversations x = db_conversations d" "db_reservations x = db_reservations d"
  obtains d' where "rebuild_indexes x = Inr (d', ())" "db_conversations d' = db_conversations d"
    "db_events d' = db_events d" "db_reservations d' = db_reservations d" "\<And>c. part c d' = part c d"
proof -
  let ?D = "x\<lparr>db_tools := [], db_runs := [], db_submissions := []\<rparr>"
  have blank_D: "part c ?D = blank c" for c by (simp add: part_def blank_def empty_db_def)
  have rows: "index_rows ?D = index_rows d" by (simp add: index_rows_def x)
  have "sorted (map (\<lambda>r. (er_conv r, er_cursor r)) (index_rows d))" by (simp add: index_rows_def)
  then have "sorted (map er_conv (index_rows d))" by (rule sorted_pairs)
  then obtain cs where cs: "distinct cs" "set cs = er_conv ` set (index_rows d)"
    "index_rows d = concat (map (\<lambda>c. filter (\<lambda>r. er_conv r = c) (index_rows d)) cs)" by (rule by_key)
  have blocks: "index_rows d = concat (map (\<lambda>c. index_log c d) cs)"
    using cs(3) unfolding index_rows_of_conv [OF assms(2)] .
  have "conv_exists c d \<and> part c ?D = blank c" if "c \<in> set cs" for c
  proof -
    obtain r where "r \<in> set (db_events d)" "er_conv r = c" using \<open>c \<in> set cs\<close> by (auto simp: cs(2) index_rows_def)
    then have "c \<in> set (conv_ids d)" using assms(2) unfolding log_ok_def by blast
    then show ?thesis using blank_D by (simp add: conv_exists_ids)
  qed
  then have pre: "\<forall>c \<in> set cs. conv_exists c d \<and> part c ?D = blank c" by blast
  have half: "halfway d ?D" using blank_D by (simp add: halfway_def x one_running_def)
  obtain D' where D': "replay_rows (concat (map (\<lambda>c. index_log c d) cs)) [] ?D = Inr (D', [])" "halfway d D'"
    "\<forall>c \<in> set cs. part c D' = part c d" "\<forall>c. c \<notin> set cs \<longrightarrow> part c D' = part c ?D"
    by (rule replay_convs [OF assms(1,2) cs(1) pre half])
  have all: "part c D' = part c d" for c
  proof (cases "c \<in> set cs")
    case False
    then have "filter (\<lambda>r. er_conv r = c) (index_rows d) = []" by (auto simp: cs(2) filter_empty_conv)
    then have "index_log c d = []" unfolding index_rows_of_conv [OF assms(2)] .
    moreover have "replay_rows (index_log c d) [] (part c empty_db) = Inr (part c d, [])"
      using assms(1) by (simp add: faithful_def replayed_def)
    ultimately have "part c d = blank c" by (simp add: ok_def blank_def)
    then show ?thesis using D'(4) False blank_D by simp
  qed (use D'(3) in blast)
  have same: "db_conversations D' = db_conversations d" "db_events D' = db_events d" "db_reservations D' = db_reservations d"
    using D'(2) by (simp_all add: halfway_def)
  let ?d' = "D'\<lparr>db_conversations := map (\<lambda>c. c\<lparr>cr_next := log_end D' (cv_id (cr_conv c))\<rparr>) (db_conversations D')\<rparr>"
  have "map (\<lambda>c. c\<lparr>cr_next := log_end D' (cv_id (cr_conv c))\<rparr>) (db_conversations D') = db_conversations d"
    unfolding same
  proof (rule map_idI)
    fix c assume "c \<in> set (db_conversations d)"
    then have "log_end d (cv_id (cr_conv c)) = cr_next c" by (rule log_end_ok [OF assms(2)])
    moreover have "log_end D' = log_end d" by (rule ext) (simp add: log_end_def same)
    ultimately show "c\<lparr>cr_next := log_end D' (cv_id (cr_conv c))\<rparr> = c" by simp
  qed
  then have conv: "db_conversations ?d' = db_conversations d" by simp
  have "rebuild_indexes x = Inr (?d', ())"
    using D'(1) by (simp add: rebuild_indexes_def clear_indexes_def after_def read_def rows blocks require_def reset_cursors_def)
  then show thesis by (rule that) (use conv same all in simp_all)
qed

text \<open>C1. The log is the truth. Whatever the index tables of a store run by its manager hold,
  rebuilding them succeeds and gives, for every conversation, exactly the submissions, runs and
  tool calls that the manager's operations had left, row by row and in their order, and the same
  next cursors; the log, the conversations and the reservations are untouched.\<close>

theorem rebuild_reproduces:
  assumes "live_reachable d"
  shows "\<exists>d'. rebuild_indexes (d\<lparr>db_submissions := ss, db_runs := rs, db_tools := ts\<rparr>) = Inr (d', ())
     \<and> db_conversations d' = db_conversations d \<and> db_events d' = db_events d
     \<and> db_reservations d' = db_reservations d
     \<and> (\<forall>cid. filter (\<lambda>s. sr_conv s = cid) (db_submissions d') = filter (\<lambda>s. sr_conv s = cid) (db_submissions d)
          \<and> filter (\<lambda>x. rr_conv x = cid) (db_runs d') = filter (\<lambda>x. rr_conv x = cid) (db_runs d)
          \<and> filter (\<lambda>t. tr_conv t = cid) (db_tools d') = filter (\<lambda>t. tr_conv t = cid) (db_tools d))"
proof -
  let ?x = "d\<lparr>db_submissions := ss, db_runs := rs, db_tools := ts\<rparr>"
  have "faithful d" "log_ok d"
    using live_reachable_faithful [OF assms] reachable_log_ok [OF live_reachable_reachable [OF assms]] by simp_all
  then obtain d' where d': "rebuild_indexes ?x = Inr (d', ())" "db_conversations d' = db_conversations d"
    "db_events d' = db_events d" "db_reservations d' = db_reservations d" "\<And>c. part c d' = part c d"
    by (rule rebuild_faithful [where x = ?x]) simp_all
  have "filter (\<lambda>s. sr_conv s = cid) (db_submissions d') = filter (\<lambda>s. sr_conv s = cid) (db_submissions d)
      \<and> filter (\<lambda>x. rr_conv x = cid) (db_runs d') = filter (\<lambda>x. rr_conv x = cid) (db_runs d)
      \<and> filter (\<lambda>t. tr_conv t = cid) (db_tools d') = filter (\<lambda>t. tr_conv t = cid) (db_tools d)" for cid
    using d'(5) [of cid] unfolding part_eq by simp
  with d'(1-4) show ?thesis by blast
qed

lemma live_exec:
  assumes "\<And>d' a. m d = Inr (d', a) \<Longrightarrow> live_step d d'" and "live_reachable d"
  shows "live_reachable (exec_tx m d)"
  using exec_tx_cases [of m d] assms unfolding live_reachable_def by (metis rtranclp.rtrancl_into_rtrancl)

lemma live_samples: "live_reachable claimed_db" "live_reachable working_db" and live_queued: "live_reachable queued_db"
proof -
  have "live_reachable empty_db" by (simp add: live_reachable_def)
  then have "live_reachable (exec_tx (create_conversation sample_conversation) empty_db)"
    by (rule live_exec [rotated]) (rule live_create)
  then have "live_reachable (exec_tx (accept 2 ''s1'' ''c'' (sample_sub ''k1''))
      (exec_tx (create_conversation sample_conversation) empty_db))"
    by (rule live_exec [rotated]) (rule live_accept, simp_all)
  then show queued: "live_reachable queued_db"
    unfolding queued_db_def by (rule live_exec [rotated]) (rule live_accept, simp_all)
  from queued show claimed: "live_reachable claimed_db"
    unfolding claimed_db_def by (rule live_exec [rotated]) (rule live_claim, simp_all)
  have "live_run claimed_db sample_running" by code_simp
  then show "live_reachable working_db"
    unfolding working_db_def by (intro live_exec [OF _ claimed]) (rule live_commit, simp_all)
qed

lemma rebuild_reproduces_witness:
  "\<exists>d'. rebuild_indexes (working_db\<lparr>db_submissions := [], db_runs := [], db_tools := []\<rparr>) = Inr (d', ())
     \<and> filter (\<lambda>t. tr_conv t = ''c'') (db_tools d') = filter (\<lambda>t. tr_conv t = ''c'') (db_tools working_db)"
  using rebuild_reproduces [OF live_samples(2), of "[]" "[]" "[]"] by blast

end
