(* ===== verification/Store_Workspace.thy ===== *)
theory Store_Workspace
  imports Store_Props
begin

section \<open>A reserved workspace is idle\<close>

text \<open>
  A reservation is taken only for a workspace without a running submission, and a claim
  never takes a submission of a reserved workspace. So while a workspace is reserved
  nothing runs in it. The invariant is one more interpretation of \<open>store_invariant\<close>.
\<close>

definition workspace_of :: "db \<Rightarrow> string \<Rightarrow> string option" where
  "workspace_of d cid = map_option (cv_workspace_id \<circ> cr_conv) (find_conv cid d)"

definition reserved_idle :: "db \<Rightarrow> bool" where
  "reserved_idle d \<longleftrightarrow>
     (\<forall>x \<in> set (db_submissions d). sr_conv x \<in> set (conv_ids d))
     \<and> (\<forall>x \<in> set (db_submissions d). \<forall>wid. sr_status x = Running \<longrightarrow> workspace_of d (sr_conv x) = Some wid \<longrightarrow> \<not> reserved wid d)"

lemma workspace_of_convs:
  "workspace_of d cid = map_option cv_workspace_id (List.find (\<lambda>cv. cv_id cv = cid) (map cr_conv (db_conversations d)))"
  unfolding workspace_of_def find_conv_conv [symmetric] by (simp add: option.map_comp comp_def)

lemma reserved_idle_frame:
  assumes "db_submissions d' = db_submissions d" "db_reservations d' = db_reservations d"
    and "map cr_conv (db_conversations d') = map cr_conv (db_conversations d)"
  shows "reserved_idle d' = reserved_idle d"
proof -
  have "conv_ids d' = conv_ids d"
    using assms(3) unfolding conv_ids_def by (metis (no_types, lifting) comp_apply map_eq_conv map_map)
  then show ?thesis by (simp add: reserved_idle_def workspace_of_convs reserved_def assms)
qed

lemma reserved_idle_insert_conversation:
  assumes "insert_conversation cv d = Inr (d', u)" and "reserved_idle d"
  shows "reserved_idle d'"
proof -
  from assms(1) have d': "d' = d\<lparr>db_conversations := db_conversations d @ [\<lparr>cr_conv = cv, cr_next = 1\<rparr>]\<rparr>"
    by (auto simp: insert_conversation_def split: if_splits)
  have keep: "workspace_of d' cid = workspace_of d cid" if "cid \<in> set (conv_ids d)" for cid
  proof -
    have "\<exists>cv \<in> set (map cr_conv (db_conversations d)). cv_id cv = cid"
      using that by (auto simp: conv_ids_def)
    from find_snoc [OF this] show ?thesis by (simp add: workspace_of_convs d')
  qed
  moreover have "db_submissions d' = db_submissions d" "reserved wid d' = reserved wid d" for wid
    by (simp_all add: d' reserved_def)
  moreover have "set (conv_ids d) \<subseteq> set (conv_ids d')" by (auto simp: d' conv_ids_def)
  ultimately show ?thesis using assms(2) unfolding reserved_idle_def by (auto dest: subsetD)
qed

lemma reserved_idle_change:
  assumes "reserved_idle d" and d': "d' = d\<lparr>db_submissions := change p f (db_submissions d)\<rparr>"
    and conv: "\<And>x. sr_conv (f x) = sr_conv x"
    and free: "\<And>x wid. x \<in> set (db_submissions d) \<Longrightarrow> p x \<Longrightarrow> sr_status (f x) = Running
      \<Longrightarrow> workspace_of d (sr_conv x) = Some wid \<Longrightarrow> \<not> reserved wid d"
  shows "reserved_idle d'"
proof -
  have frame: "workspace_of d' = workspace_of d" "reserved wid d' = reserved wid d" "conv_ids d' = conv_ids d" for wid
    by (simp_all add: d' fun_eq_iff workspace_of_def find_conv_def reserved_def conv_ids_def)
  have "sr_conv y \<in> set (conv_ids d)
      \<and> (\<forall>wid. sr_status y = Running \<longrightarrow> workspace_of d (sr_conv y) = Some wid \<longrightarrow> \<not> reserved wid d)"
    if mem: "y \<in> set (db_submissions d')" for y
  proof -
    have "y \<in> set (change p f (db_submissions d))" using mem by (simp add: d')
    from change_member [OF this] obtain x where x: "x \<in> set (db_submissions d)" "y = (if p x then f x else x)" ..
    with conv have same: "sr_conv y = sr_conv x" by simp
    have "sr_conv x \<in> set (conv_ids d)" using assms(1) x(1) unfolding reserved_idle_def by blast
    moreover have "\<not> reserved wid d" if "sr_status y = Running" "workspace_of d (sr_conv x) = Some wid" for wid
      using free [OF x(1)] assms(1) x that unfolding reserved_idle_def by (cases "p x") auto
    ultimately show ?thesis by (simp add: same)
  qed
  then show ?thesis unfolding reserved_idle_def frame by blast
qed

interpretation idle: store_invariant reserved_idle
proof
  show "tx_keeps reserved_idle (insert_conversation cv)" for cv
    unfolding tx_keeps_def using reserved_idle_insert_conversation by blast
  show "tx_keeps reserved_idle (append_event now e)" for now e
    using reserved_idle_frame [OF append_event_frame(1,4,5)] by (auto simp: tx_keeps_def)
  show "tx_keeps reserved_idle (insert_submission r)" if "sr_status r = Queued" for r
    unfolding tx_keeps_def
  proof (intro allI impI)
    fix d d' u assume idle: "reserved_idle d" and "insert_submission r d = Inr (d', u)"
    then have d': "d' = d\<lparr>db_submissions := db_submissions d @ [r]\<rparr>" and "sr_conv r \<in> set (conv_ids d)"
      by (auto simp: insert_submission_def conv_exists_ids split: if_splits)
    with idle that show "reserved_idle d'"
      by (simp add: reserved_idle_def workspace_of_def find_conv_def conv_ids_def reserved_def)
  qed
  show "tx_keeps reserved_idle (update_submissions p f)" if calm: "calm f" for p f
    unfolding tx_keeps_def
  proof (intro allI impI)
    fix d d' n assume idle: "reserved_idle d" and "update_submissions p f d = Inr (d', n)"
    then have "d' = d\<lparr>db_submissions := change p f (db_submissions d)\<rparr>"
      by (auto simp: update_submissions_def Let_def split: if_splits)
    from reserved_idle_change [OF idle this] calm show "reserved_idle d'" by (simp add: calm_def)
  qed
  show "reserved_idle d'" if idle: "reserved_idle d" and r: "r \<in> set (db_submissions d)" "runnable_row d r"
    and upd: "update_submissions (\<lambda>x. sr_id x = sr_id r \<and> sr_status x = Queued) (\<lambda>x. x\<lparr>sr_status := Running\<rparr>) d
       = Inr (d', 1)" for d r d'
  proof -
    let ?p = "\<lambda>x. sr_id x = sr_id r \<and> sr_status x = Queued"
    from upd have d': "d' = d\<lparr>db_submissions := change ?p (\<lambda>x. x\<lparr>sr_status := Running\<rparr>) (db_submissions d)\<rparr>"
      and one: "length (filter ?p (db_submissions d)) = 1"
      by (auto simp: update_submissions_def Let_def split: if_splits)
    have "?p r" using r(2) by (simp add: runnable_row_def)
    then obtain xs ys where rows: "db_submissions d = xs @ r # ys" "\<forall>x \<in> set xs \<union> set ys. \<not> ?p x"
      by (rule one_selected [OF one r(1)])
    have "\<not> reserved wid d" if "x \<in> set (db_submissions d)" "?p x" "workspace_of d (sr_conv x) = Some wid" for x wid
    proof -
      have "x = r" using that(1,2) rows by auto
      with that(3) r(2) show ?thesis by (auto simp: runnable_row_def workspace_of_def split: option.splits)
    qed
    then show ?thesis by (intro reserved_idle_change [OF idle d']) auto
  qed
  show "reserved_idle d \<Longrightarrow> reserved_idle (d\<lparr>db_runs := x\<rparr>)" for d x
    by (subst reserved_idle_frame [of _ d]) simp_all
  show "reserved_idle d \<Longrightarrow> reserved_idle (d\<lparr>db_tools := x\<rparr>)" for d x
    by (subst reserved_idle_frame [of _ d]) simp_all
  show "reserved_idle (d\<lparr>db_reservations := db_reservations d @ [(wid, now)]\<rparr>)"
    if "reserved_idle d" "\<not> workspace_busy wid d" for d wid now
    using that by (auto simp: reserved_idle_def reserved_def workspace_of_def find_conv_def conv_ids_def workspace_busy_def)
  show "reserved_idle (d\<lparr>db_reservations := ws\<rparr>)"
    if "reserved_idle d" "set ws \<subseteq> set (db_reservations d)" for d ws
  proof -
    have "reserved wid d" if "reserved wid (d\<lparr>db_reservations := ws\<rparr>)" for wid
      using that \<open>set ws \<subseteq> _\<close> by (auto simp: reserved_def)
    moreover have "workspace_of (d\<lparr>db_reservations := ws\<rparr>) = workspace_of d" "conv_ids (d\<lparr>db_reservations := ws\<rparr>) = conv_ids d"
      by (simp_all add: fun_eq_iff workspace_of_def find_conv_def conv_ids_def)
    ultimately show ?thesis using \<open>reserved_idle d\<close> unfolding reserved_idle_def by auto
  qed
qed

lemma reachable_reserved_idle: "reachable d \<Longrightarrow> reserved_idle d"
  by (rule idle.reachable_keeps) (simp_all add: reserved_idle_def empty_db_def)

end
