(* ===== verification/Manager_Inv.thy ===== *)
theory Manager_Inv
  imports Manager Store_Events Store_Lift Store_Workspace
begin

section \<open>What holds in every state of a manager\<close>

text \<open>
  The invariant has one predicate per part of the state: the store is one that live steps
  reach, each registered run is the live run of its conversation, the slots in use are the
  registered runs, and every subscriber was sent the public log from its cursor on. Each
  operation is shown to keep it, by way of a few lemmas on committing and publishing.
\<close>

subsection \<open>Serving a subscriber\<close>

definition durable :: "rt_event list \<Rightarrow> rt_event list" where
  "durable es = filter (\<lambda>e. re_id e \<noteq> 0) es"

definition follows :: "rt_event list \<Rightarrow> subscriber \<Rightarrow> bool" where
  "follows L s \<longleftrightarrow>
     durable (su_sent s) = filter (\<lambda>e. su_start s < re_id e) L
     \<and> su_last s = (if durable (su_sent s) = [] then su_start s else re_id (last (durable (su_sent s))))"

definition served :: "rt_event list \<Rightarrow> subscriber \<Rightarrow> bool" where
  "served L s \<longleftrightarrow> follows L s \<and> su_read s \<le> length (su_sent s) \<and> length (su_sent s) - su_read s \<le> su_cap s"

lemma durable_simps [simp]:
  "durable [] = []"
  "durable (e # es) = (if re_id e \<noteq> 0 then e # durable es else durable es)"
  "durable (es @ fs) = durable es @ durable fs"
  by (simp_all add: durable_def)

lemma durable_all: "\<forall>e \<in> set es. 0 < re_id e \<Longrightarrow> durable es = es"
  by (simp add: durable_def)

lemma follows_send:
  assumes "follows L s" and "re_id e \<noteq> 0" and above: "\<forall>x \<in> set L. re_id x < re_id e"
    and skip: "su_last s < re_id e"
  shows "follows (L @ [e]) (s\<lparr>su_sent := su_sent s @ [e], su_last := re_id e\<rparr>)"
proof -
  have "su_start s < re_id e"
  proof (cases "durable (su_sent s) = []")
    case True
    with assms(1) skip show ?thesis by (simp add: follows_def)
  next
    case False
    then have "last (durable (su_sent s)) \<in> set (filter (\<lambda>e. su_start s < re_id e) L)"
      using assms(1) by (metis last_in_set follows_def)
    with above show ?thesis by (auto intro: less_trans)
  qed
  with assms(1,2) show ?thesis by (simp add: follows_def)
qed

lemma follows_skip:
  assumes "follows L s" and "re_id e \<noteq> 0" and above: "\<forall>x \<in> set L. re_id x < re_id e"
    and skip: "re_id e \<le> su_last s"
  shows "follows (L @ [e]) s"
proof -
  have none: "durable (su_sent s) = []"
  proof (rule ccontr)
    assume some: "durable (su_sent s) \<noteq> []"
    then have "last (durable (su_sent s)) \<in> set (filter (\<lambda>e. su_start s < re_id e) L)"
      using assms(1) by (metis last_in_set follows_def)
    with above have "re_id (last (durable (su_sent s))) < re_id e" by simp
    with skip some assms(1) show False by (simp add: follows_def)
  qed
  with assms(1) skip have "re_id e \<le> su_start s" by (simp add: follows_def)
  with assms(1) none show ?thesis by (simp add: follows_def)
qed

text \<open>One event: a durable one extends the log that the subscriber follows.\<close>

lemma served_deliver:
  assumes "deliver e (i, s) = Some (j, t)" and "served L s"
    and "re_id e \<noteq> 0 \<Longrightarrow> \<forall>x \<in> set L. re_id x < re_id e"
  shows "j = i \<and> served (L @ durable [e]) t"
proof (cases "re_id e \<noteq> 0 \<and> re_id e \<le> su_last s")
  case True
  with assms(1) have "j = i" "t = s" by (auto simp: deliver_def)
  moreover have "follows (L @ [e]) s" using True assms(2,3) by (intro follows_skip) (simp_all add: served_def)
  ultimately show ?thesis using True assms(2) by (simp add: served_def)
next
  case False
  then have room: "length (su_sent s) - su_read s < su_cap s" and j: "j = i"
    and t: "t = s\<lparr>su_sent := su_sent s @ [e], su_last := (if re_id e \<noteq> 0 then re_id e else su_last s)\<rparr>"
    using assms(1) by (auto simp: deliver_def split: if_splits)
  have old: "follows L s" using assms(2) by (simp add: served_def)
  have "follows (L @ durable [e]) t"
  proof (cases "re_id e = 0")
    case True
    with old show ?thesis by (simp add: t follows_def)
  next
    case False
    with \<open>\<not> (re_id e \<noteq> 0 \<and> re_id e \<le> su_last s)\<close> assms(3) show ?thesis
      using follows_send [OF old False] by (simp add: t)
  qed
  moreover have "su_read t \<le> length (su_sent t)" "length (su_sent t) - su_read t \<le> su_cap t"
    using room assms(2) by (auto simp: t served_def)
  ultimately show ?thesis using j unfolding served_def by blast
qed

definition all_served :: "rt_event list \<Rightarrow> (nat \<times> subscriber) list \<Rightarrow> bool" where
  "all_served L subs \<longleftrightarrow> (\<forall>(i, s) \<in> set subs. served L s)"

lemma all_served_broadcast:
  assumes "all_served L subs" and "sorted_wrt (<) (map re_id (L @ durable es))"
  shows "all_served (L @ durable es) (broadcast es subs)"
  using assms
proof (induction es arbitrary: L subs)
  case (Cons e es)
  have "served (L @ durable [e]) t" if mem: "(j, t) \<in> set (List.map_filter (deliver e) subs)" for j t
  proof -
    obtain x where x: "x \<in> set subs" "deliver e x = Some (j, t)"
      using mem by (auto simp: map_filter_def)
    obtain i s where "x = (i, s)" by (cases x)
    with x Cons.prems show ?thesis
      using served_deliver [of e i s j t L] by (auto simp: all_served_def sorted_wrt_append split: if_splits)
  qed
  then have "all_served (L @ durable [e]) (List.map_filter (deliver e) subs)" by (auto simp: all_served_def)
  from Cons.IH [OF this] Cons.prems(2) show ?case by (cases "re_id e = 0") simp_all
qed simp

subsection \<open>The invariant\<close>

definition runs_live :: "db \<Rightarrow> (string \<Rightarrow> active_run option) \<Rightarrow> bool" where
  "runs_live d runs \<longleftrightarrow> (\<forall>cid a. runs cid = Some a \<longrightarrow>
     run_conv (cl_run (ar_claim a)) = cid \<and> live_run d (cl_run (ar_claim a)))"

definition slots_ok :: "config \<Rightarrow> nat \<Rightarrow> (string \<Rightarrow> active_run option) \<Rightarrow> bool" where
  "slots_ok cfg n runs \<longleftrightarrow> finite (dom runs) \<and> card (dom runs) = n \<and> n \<le> max_concurrent cfg"

definition convs_served :: "db \<Rightarrow> (string \<Rightarrow> live_conv option) \<Rightarrow> bool" where
  "convs_served d convs \<longleftrightarrow> (\<forall>cid lc. convs cid = Some lc \<longrightarrow> all_served (public_of cid d) (lc_subs lc))"

definition restores_ok :: "db \<Rightarrow> string list \<Rightarrow> bool" where
  "restores_ok d ws \<longleftrightarrow> distinct ws \<and> (\<forall>w \<in> set ws. reserved w d)"

definition manager_ok :: "config \<Rightarrow> manager \<Rightarrow> bool" where
  "manager_ok cfg m \<longleftrightarrow> live_reachable (mg_db m) \<and> runs_live (mg_db m) (mg_runs m)
     \<and> slots_ok cfg (mg_active m) (mg_runs m) \<and> convs_served (mg_db m) (mg_convs m)
     \<and> restores_ok (mg_db m) (mg_restores m)"

lemma live_reachable_log_ok: "live_reachable d \<Longrightarrow> log_ok d"
  by (rule reachable_log_ok [OF live_reachable_reachable])

lemma live_reachable_coherent: "live_reachable d \<Longrightarrow> coherent d"
  using live_reachable_faithful by (simp add: faithful_def)

lemma live_reachable_step: "live_reachable d \<Longrightarrow> live_step d d' \<Longrightarrow> live_reachable d'"
  unfolding live_reachable_def by (rule rtranclp.rtrancl_into_rtrancl)

subsection \<open>Committing and publishing\<close>

lemma convs_served_elsewhere:
  assumes "convs_served d convs" and "adds cid es d d'" and "es = [] \<or> convs cid = None"
  shows "convs_served d' convs"
  using assms by (auto simp: convs_served_def adds_def)

lemma convs_served_broadcast:
  assumes "convs_served d convs" and "adds cid es d d'" and "log_ok d'" and lc: "convs cid = Some lc"
  shows "convs_served d' (convs(cid \<mapsto> lc\<lparr>lc_subs := broadcast es (lc_subs lc)\<rparr>))"
proof -
  have grow: "public_of cid d' = public_of cid d @ es" "c \<noteq> cid \<Longrightarrow> public_of c d' = public_of c d" for c
    using assms(2) by (simp_all add: adds_def)
  note inc = public_increasing [OF assms(3), of cid]
  have "durable es = es" using inc(2) grow(1) by (auto intro: durable_all)
  then have "all_served (public_of cid d') (broadcast es (lc_subs lc))"
    using all_served_broadcast [of "public_of cid d" "lc_subs lc" es] assms(1) inc(1) grow(1) lc
    by (simp add: convs_served_def)
  with assms(1) grow(2) show ?thesis by (auto simp: convs_served_def)
qed

text \<open>Transient events change no log.\<close>

lemma convs_served_transient:
  assumes "convs_served d convs" and "log_ok d" and "convs cid = Some lc" and "\<forall>e \<in> set es. re_id e = 0"
  shows "convs_served d (convs(cid \<mapsto> lc\<lparr>lc_subs := broadcast es (lc_subs lc)\<rparr>))"
proof -
  have "durable es = []" using assms(4) by (simp add: durable_def)
  then show ?thesis
    using all_served_broadcast [of "public_of cid d" "lc_subs lc" es] public_increasing(1) [OF assms(2)] assms(1,3)
    by (auto simp: convs_served_def)
qed

lemma publish_simps [simp]:
  "mg_db (publish cid es m) = mg_db m" "mg_closed (publish cid es m) = mg_closed m"
  "mg_active (publish cid es m) = mg_active m" "mg_runs (publish cid es m) = mg_runs m"
  "mg_restores (publish cid es m) = mg_restores m" "mg_reports (publish cid es m) = mg_reports m"
  by (simp_all add: publish_def split: option.split)

lemma publish_convs:
  "mg_convs (publish cid es m) = (case mg_convs m cid of None \<Rightarrow> mg_convs m
     | Some lc \<Rightarrow> (mg_convs m)(cid \<mapsto> lc\<lparr>lc_subs := broadcast es (lc_subs lc)\<rparr>))"
  by (simp add: publish_def split: option.split)

lemma broadcast_none [simp]: "broadcast es [] = []"
  by (induction es) (simp_all add: List.map_filter_simps)

text \<open>A store step whose events are published, with the runs that stay registered.\<close>

lemma served_commit:
  assumes "convs_served d (mg_convs m)" and "adds cid es d d'" and "log_ok d'"
  shows "convs_served d' (mg_convs (publish cid es m))"
  using convs_served_broadcast [OF assms(1-3)] convs_served_elsewhere [OF assms(1,2)]
  by (auto simp: publish_convs split: option.split)

lemma runs_live_same: "runs_live d runs \<Longrightarrow> db_runs d' = db_runs d \<Longrightarrow> runs_live d' runs"
  by (simp add: runs_live_def live_run_def)

lemma restores_same: "restores_ok d ws \<Longrightarrow> db_reservations d' = db_reservations d \<Longrightarrow> restores_ok d' ws"
  by (simp add: restores_ok_def reserved_def)

lemma commit_ok:
  assumes "manager_ok cfg m" and "live_step (mg_db m) d'" and "adds cid es (mg_db m) d'"
    and "db_runs d' = db_runs (mg_db m)" and "db_reservations d' = db_reservations (mg_db m)"
  shows "manager_ok cfg (publish cid es (m\<lparr>mg_db := d'\<rparr>))"
proof -
  have live: "live_reachable d'" using assms(1,2) live_reachable_step by (auto simp: manager_ok_def)
  have "convs_served d' (mg_convs (publish cid es (m\<lparr>mg_db := d'\<rparr>)))"
    by (rule served_commit [OF _ assms(3) live_reachable_log_ok [OF live]]) (use assms(1) in \<open>simp_all add: manager_ok_def\<close>)
  with live assms(1,4,5) show ?thesis
    by (simp add: manager_ok_def runs_live_same [OF _ assms(4)] restores_same [OF _ assms(5)])
qed

lemma store_ok:
  assumes "manager_ok cfg m" and "live_step (mg_db m) d'" and "adds cid [] (mg_db m) d'"
    and "db_runs d' = db_runs (mg_db m)" and "restores_ok d' ws"
  shows "manager_ok cfg (m\<lparr>mg_db := d', mg_restores := ws\<rparr>)"
proof -
  have live: "live_reachable d'" using assms(1,2) live_reachable_step by (auto simp: manager_ok_def)
  have "convs_served d' (mg_convs m)"
    by (rule convs_served_elsewhere [OF _ assms(3)]) (use assms(1) in \<open>simp_all add: manager_ok_def\<close>)
  with live assms(1,5) show ?thesis by (simp add: manager_ok_def runs_live_same [OF _ assms(4)])
qed

lemma manager_ok_wake [simp]: "manager_ok cfg (m\<lparr>mg_wake := b\<rparr>) = manager_ok cfg m"
  "manager_ok cfg (m\<lparr>mg_reports := es\<rparr>) = manager_ok cfg m" "manager_ok cfg (m\<lparr>mg_closed := b\<rparr>) = manager_ok cfg m"
  by (simp_all add: manager_ok_def)

lemma manager_ok_notify [simp]: "manager_ok cfg (notify m) = manager_ok cfg m" "manager_ok cfg (report what e m) = manager_ok cfg m"
  by (simp_all add: notify_def report_def)

subsection \<open>The operations of clients\<close>

lemma convs_served_new: "convs_served d convs \<Longrightarrow> convs_served d (convs(c \<mapsto> new_live cv))"
  by (simp add: convs_served_def new_live_def all_served_def)

lemma ensure_live_simps [simp]:
  "mg_db (ensure_live cv m) = mg_db m" "mg_closed (ensure_live cv m) = mg_closed m"
  "mg_active (ensure_live cv m) = mg_active m" "mg_runs (ensure_live cv m) = mg_runs m"
  "mg_restores (ensure_live cv m) = mg_restores m" "mg_reports (ensure_live cv m) = mg_reports m"
  by (simp_all add: ensure_live_def split: option.split)

lemma ensure_live_convs:
  "mg_convs (ensure_live cv m) = (case mg_convs m (cv_id cv) of Some lc \<Rightarrow> mg_convs m
     | None \<Rightarrow> (mg_convs m)(cv_id cv \<mapsto> new_live cv))"
  by (simp add: ensure_live_def split: option.split)

lemma convs_served_ensure: "convs_served d (mg_convs m) \<Longrightarrow> convs_served d (mg_convs (ensure_live cv m))"
  by (simp add: ensure_live_convs convs_served_new split: option.split)

lemma ensure_live_ok: "manager_ok cfg m \<Longrightarrow> manager_ok cfg (ensure_live cv m)"
  by (simp add: manager_ok_def convs_served_ensure)

lemma live_conversation_frame:
  assumes "live_conversation cid m = (res, m')"
  shows "mg_db m' = mg_db m" "mg_runs m' = mg_runs m" "mg_closed m' = mg_closed m" "mg_active m' = mg_active m"
    "mg_restores m' = mg_restores m" "res = Inr lc \<Longrightarrow> mg_convs m' cid = Some lc"
  using assms
  by (auto simp: live_conversation_def ensure_live_convs split: if_splits option.splits dest!: find_conv_Some)

lemma live_conversation_ok:
  "live_conversation cid m = (res, m') \<Longrightarrow> manager_ok cfg m \<Longrightarrow> manager_ok cfg m'"
  by (auto simp: live_conversation_def split: if_splits option.splits intro: ensure_live_ok)

lemma open_ok: "open_conversation cfg cid now sel m = (res, m') \<Longrightarrow> manager_ok cfg m \<Longrightarrow> manager_ok cfg m'"
proof -
  have "manager_ok cfg (m\<lparr>mg_db := d'\<rparr>)" if ok: "manager_ok cfg m" and new: "create_conversation cv (mg_db m) = Inr (d', u)"
    for cv d' u
  proof -
    have "db_runs d' = db_runs (mg_db m)" "db_reservations d' = db_reservations (mg_db m)"
      using new by (auto simp: create_conversation_def insert_conversation_def Let_def split: if_splits)
    then have "manager_ok cfg (m\<lparr>mg_db := d', mg_restores := mg_restores m\<rparr>)"
      using ok by (intro store_ok live_create [OF new] create_adds [OF new])
        (auto simp: manager_ok_def intro: restores_same)
    then show ?thesis by simp
  qed
  then show "open_conversation cfg cid now sel m = (res, m') \<Longrightarrow> manager_ok cfg m \<Longrightarrow> manager_ok cfg m'"
    by (auto simp: open_conversation_def split: if_splits sum.splits prod.splits)
qed

lemma accept_runs:
  assumes "accept now i cid inp d = Inr (d', a)"
  shows "db_runs d' = db_runs d" and "db_reservations d' = db_reservations d"
  using assms
  by (auto simp: accept_def accept_new_def conversation_tx_def insert_submission_def
      dest: append_event_frame(2,4) split: option.splits if_splits)

lemma admit_ok:
  assumes "admit_input now i cid inp m = (res, m')" and "i \<noteq> []" and "manager_ok cfg m"
  shows "manager_ok cfg m'"
proof (cases "accept now i cid inp (mg_db m)")
  case (Inl e)
  with assms show ?thesis by (simp add: admit_input_def)
next
  case (Inr w)
  then obtain d' a evs where acc: "accept now i cid inp (mg_db m) = Inr (d', a, evs)" by (cases w) auto
  have "manager_ok cfg (publish cid evs (m\<lparr>mg_db := d'\<rparr>))"
    by (rule commit_ok [OF assms(3) live_accept [OF assms(2) acc] accept_adds [OF acc] accept_runs [OF acc]])
  with assms(1) acc show ?thesis by (auto simp: admit_input_def Let_def split: if_splits)
qed

lemma submit_ok:
  assumes "submit_input cfg now i cid inp m = (res, m')" and "i \<noteq> []" and "manager_ok cfg m"
  shows "manager_ok cfg m'"
proof -
  obtain r1 m1 where live: "live_conversation cid m = (r1, m1)" by (cases "live_conversation cid m")
  have ok: "manager_ok cfg m1" by (rule live_conversation_ok [OF live assms(3)])
  show ?thesis
    using assms(1,3) ok admit_ok [OF _ assms(2) ok]
    by (auto simp: submit_input_def live split: sum.splits)
qed

lemma stop_ok:
  assumes "manager_stop_run cid m = (res, m')" and "manager_ok cfg m"
  shows "manager_ok cfg m'"
proof -
  obtain r1 m1 where live: "live_conversation cid m = (r1, m1)" by (cases "live_conversation cid m")
  have ok: "manager_ok cfg m1" by (rule live_conversation_ok [OF live assms(2)])
  have "manager_ok cfg (m1\<lparr>mg_runs := (mg_runs m1)(cid \<mapsto> a\<lparr>ar_stopped := True\<rparr>)\<rparr>)" if "mg_runs m1 cid = Some a" for a
  proof -
    have "insert cid (dom (mg_runs m1)) = dom (mg_runs m1)" using that by auto
    with ok that show ?thesis by (simp add: manager_ok_def runs_live_def slots_ok_def)
  qed
  with assms(1) ok show ?thesis by (auto simp: manager_stop_run_def live split: sum.splits option.splits)
qed

lemma view_ok: "manager_view cfg' cid m = (res, m') \<Longrightarrow> manager_ok cfg m \<Longrightarrow> manager_ok cfg m'"
  by (auto simp: manager_view_def Let_def split: prod.splits sum.splits dest: live_conversation_ok)

lemma events_ok: "manager_events cid start m = (res, m') \<Longrightarrow> manager_ok cfg m \<Longrightarrow> manager_ok cfg m'"
  by (auto simp: manager_events_def split: prod.splits sum.splits dest: live_conversation_ok)

lemma served_new:
  assumes "log_ok d" and "events cid start d = Inr (d', backlog)"
  shows "served (public_of cid d) (new_subscriber start backlog)"
proof -
  have "\<forall>e \<in> set backlog. 0 < re_id e" using public_increasing(2) [OF assms(1), of cid] events_public [OF assms] by auto
  then have "durable backlog = backlog" by (rule durable_all)
  then have "follows (public_of cid d) (new_subscriber start backlog)"
    using events_public [OF assms] by (simp add: follows_def new_subscriber_def)
  then show ?thesis unfolding served_def by (auto simp: new_subscriber_def)
qed

lemma convs_ok_update:
  assumes "manager_ok cfg m" and "mg_convs m cid = Some lc" and "all_served (public_of cid (mg_db m)) subs"
  shows "manager_ok cfg (m\<lparr>mg_convs := (mg_convs m)(cid \<mapsto> lc\<lparr>lc_next := n, lc_subs := subs\<rparr>)\<rparr>)"
  using assms by (auto simp: manager_ok_def convs_served_def)

lemma subscribe_ok:
  assumes "subscribe cid start m = (res, m')" and "manager_ok cfg m"
  shows "manager_ok cfg m'"
proof -
  obtain r1 m1 where live: "live_conversation cid m = (r1, m1)" by (cases "live_conversation cid m")
  have ok: "manager_ok cfg m1" by (rule live_conversation_ok [OF live assms(2)])
  have "manager_ok cfg (m1\<lparr>mg_convs := (mg_convs m1)(cid \<mapsto>
      lc\<lparr>lc_next := n, lc_subs := lc_subs lc @ [(n, new_subscriber start backlog)]\<rparr>)\<rparr>)"
    if "r1 = Inr lc" "events cid start (mg_db m1) = Inr (d', backlog)" for lc d' backlog n
  proof -
    have conv: "mg_convs m1 cid = Some lc" using live_conversation_frame(6) [OF live] that(1) by simp
    have "log_ok (mg_db m1)" using ok by (simp add: manager_ok_def live_reachable_log_ok)
    from served_new [OF this that(2)] ok conv
    have "all_served (public_of cid (mg_db m1)) (lc_subs lc @ [(n, new_subscriber start backlog)])"
      by (auto simp: manager_ok_def convs_served_def all_served_def)
    from convs_ok_update [OF ok conv this] show ?thesis .
  qed
  with assms(1) ok show ?thesis by (auto simp: subscribe_def live Let_def split: sum.splits)
qed

lemma on_subs_ok:
  assumes "manager_ok cfg m" and "\<And>L subs. all_served L subs \<Longrightarrow> all_served L (f subs)"
  shows "manager_ok cfg (on_subs f cid m)"
  using assms by (auto simp: on_subs_def manager_ok_def convs_served_def split: option.split)

lemma unsubscribe_ok: "manager_ok cfg m \<Longrightarrow> manager_ok cfg (unsubscribe cid n m)"
  unfolding unsubscribe_def by (rule on_subs_ok) (auto simp: all_served_def)

lemma receive_ok: "manager_ok cfg m \<Longrightarrow> manager_ok cfg (receive cid n m)"
proof -
  have "served L (s\<lparr>su_read := Suc (su_read s)\<rparr>)" if "served L s" "su_read s < length (su_sent s)" for L s
    using that by (auto simp: served_def follows_def)
  then show "manager_ok cfg m \<Longrightarrow> manager_ok cfg (receive cid n m)"
    unfolding receive_def by (intro on_subs_ok) (auto simp: all_served_def)
qed

lemma close_ok: "manager_ok cfg m \<Longrightarrow> manager_ok cfg (close m)"
  by (auto simp: close_def manager_ok_def convs_served_def all_served_def)

end
