(* ===== verification/Manager_Run.thy ===== *)
theory Manager_Run
  imports Manager_Inv
begin

section \<open>The manager's runs: claimed, fed, ended\<close>

text \<open>
  The remaining steps change the registered runs. A claim registers a run for a conversation
  that had none, an ended run frees its slot. The section ends with the invariant of every
  managed state.
\<close>

subsection \<open>Claiming\<close>

lemma started_run_live: "run_of_row (row_of_run (started_run now rid r)) = started_run now rid r"
  by (simp add: run_of_row_def row_of_run_def started_run_def)

text \<open>A conversation whose run is registered is busy, so the claim is for another one.\<close>

lemma claim_unregistered:
  assumes ok: "manager_ok cfg m" and claim: "claim_runnable now rid (mg_db m) = Inr (d', Some cl)"
  shows "mg_runs m (run_conv (cl_run cl)) = None"
proof (rule ccontr)
  assume "mg_runs m (run_conv (cl_run cl)) \<noteq> None"
  then obtain a where a: "mg_runs m (run_conv (cl_run cl)) = Some a" by auto
  obtain r where r: "next_runnable (mg_db m) = Some r" "claim_row now rid r (mg_db m) = Inr (d', cl)"
    using claim by (auto simp: claim_runnable_def split: option.splits)
  have conv: "run_conv (cl_run cl) = sr_conv r" using claim_row_adds(2) [OF r(2)] by (simp add: started_run_def)
  have live: "live_run (mg_db m) (cl_run (ar_claim a))" and same: "run_conv (cl_run (ar_claim a)) = sr_conv r"
    using ok a conv by (auto simp: manager_ok_def runs_live_def)
  have "coherent (mg_db m)" using ok live_reachable_coherent by (simp add: manager_ok_def)
  then obtain s where "s \<in> set (db_submissions (mg_db m))" "sr_conv s = sr_conv r" "sr_status s = Running"
    using live same by (auto elim: live_run_facts)
  then have "conv_busy (sr_conv r) (mg_db m)" by (auto simp: conv_busy_def)
  with next_runnable_Some [OF r(1)] show False by (simp add: runnable_row_def)
qed

lemma claim_row_reservations: "claim_row now rid r d = Inr (d', c) \<Longrightarrow> db_reservations d' = db_reservations d"
  by (auto simp: claim_row_def conversation_tx_def update_submissions_def insert_run_def Let_def split: if_splits
      dest!: load_input_state load_context_state append_event_frame(4))

lemma claim_tables:
  assumes "claim_runnable now rid d = Inr (d', Some cl)"
  shows "db_runs d' = db_runs d @ [row_of_run (cl_run cl)]" and "db_reservations d' = db_reservations d"
    and "run_status (cl_run cl) = Running" and "run_of_row (row_of_run (cl_run cl)) = cl_run cl"
proof -
  obtain r where r: "claim_row now rid r d = Inr (d', cl)"
    using assms by (auto simp: claim_runnable_def split: option.splits)
  have run: "cl_run cl = started_run now rid r" by (rule claim_row_adds(2) [OF r])
  show "db_runs d' = db_runs d @ [row_of_run (cl_run cl)]" using claim_row_effect [OF r] by (simp add: run)
  show "db_reservations d' = db_reservations d" by (rule claim_row_reservations [OF r])
  show "run_status (cl_run cl) = Running" "run_of_row (row_of_run (cl_run cl)) = cl_run cl"
    by (simp_all add: run started_run_live) (simp add: started_run_def)
qed

lemma runs_live_claim:
  assumes "runs_live d runs" and claim: "claim_runnable now rid d = Inr (d', Some cl)"
  shows "runs_live d' (runs(run_conv (cl_run cl) \<mapsto> \<lparr>ar_claim = cl, ar_stopped = False\<rparr>))"
proof -
  have "live_run d' r" if "live_run d r" for r
    using that claim_tables(1) [OF claim] by (auto simp: live_run_def)
  moreover have "live_run d' (cl_run cl)"
    using claim_tables [OF claim] by (auto simp: live_run_def row_of_run_def intro!: bexI [of _ "row_of_run (cl_run cl)"])
  ultimately show ?thesis using assms(1) by (simp add: runs_live_def)
qed

lemma dispatch_once_ok:
  assumes "dispatch_once cfg now rid m = (m', again)" and "rid \<noteq> []" and ok: "manager_ok cfg m"
  shows "manager_ok cfg m'"
proof (cases "reserve_slot cfg m")
  case None
  with assms show ?thesis by (simp add: dispatch_once_def)
next
  case (Some m1)
  then have m1: "m1 = m\<lparr>mg_active := mg_active m + 1\<rparr>" and slot: "mg_active m < max_concurrent cfg"
    by (auto simp: reserve_slot_def split: if_splits)
  show ?thesis
  proof (cases "claim_runnable now rid (mg_db m)")
    case (Inl e)
    then have "m' = release_slot False m1 \<or> m' = report ''runtime: claim runnable work'' e (release_slot False m1)"
      using assms(1) Some by (auto simp: dispatch_once_def m1 Let_def split: if_splits)
    then show ?thesis using ok by (auto simp: m1 release_slot_def)
  next
    case (Inr w)
    obtain d' found where w: "w = (d', found)" by (cases w)
    show ?thesis
    proof (cases found)
      case None
      have "d' = mg_db m" using claim_none [of now rid "mg_db m" d'] Inr w None by simp
      then have "m' = release_slot False (m1\<lparr>mg_db := mg_db m\<rparr>)"
        using assms(1) Some Inr w None by (simp add: dispatch_once_def m1)
      then show ?thesis using ok by (simp add: m1 release_slot_def)
    next
      case (Some cl)
      note claim = Inr [unfolded w Some]
      define m2 where "m2 = ensure_live (cl_conversation cl) (register cl (m1\<lparr>mg_db := d'\<rparr>))"
      have m': "m' = publish (run_conv (cl_run cl)) (cl_events cl) m2"
        using assms(1) \<open>reserve_slot cfg m = Some m1\<close> claim claim_adds(2) [OF claim]
        by (simp add: dispatch_once_def m1 announce_def m2_def)
      have live: "live_reachable d'"
        using ok live_reachable_step live_claim [OF assms(2) claim] by (auto simp: manager_ok_def)
      have "convs_served (mg_db m) (mg_convs m2)"
        using ok convs_served_ensure [of "mg_db m" "register cl (m1\<lparr>mg_db := d'\<rparr>)"]
        by (simp add: m2_def m1 register_def manager_ok_def)
      then have "convs_served d' (mg_convs m')"
        unfolding m' by (rule served_commit [OF _ claim_adds(1) [OF claim] live_reachable_log_ok [OF live]])
      moreover have "runs_live d' (mg_runs m')"
        using runs_live_claim [OF _ claim] ok by (simp add: m' m2_def m1 register_def manager_ok_def)
      moreover have "slots_ok cfg (mg_active m') (mg_runs m')"
        using ok slot claim_unregistered [OF ok claim]
        by (simp add: m' m2_def m1 register_def manager_ok_def slots_ok_def domIff)
      moreover have "restores_ok d' (mg_restores m')"
        using ok restores_same [OF _ claim_tables(2) [OF claim]] by (simp add: m' m2_def m1 register_def manager_ok_def)
      moreover have "mg_db m' = d'" by (simp add: m' m2_def m1 register_def)
      ultimately show ?thesis using live by (simp add: manager_ok_def)
    qed
  qed
qed

subsection \<open>Events of a run in progress\<close>

lemma transient_ok:
  assumes "manager_ok cfg m" and "\<forall>e \<in> set es. re_id e = 0"
  shows "manager_ok cfg (publish cid es m)"
proof -
  have "log_ok (mg_db m)" using assms(1) by (simp add: manager_ok_def live_reachable_log_ok)
  then have "convs_served (mg_db m) (mg_convs (publish cid es m))"
    using convs_served_transient [of "mg_db m" "mg_convs m" cid] assms
    by (auto simp: publish_convs manager_ok_def split: option.split)
  with assms(1) show ?thesis by (simp add: manager_ok_def)
qed

lemma commit_op_ok:
  assumes "commit cid op m = (res, m')" and "manager_ok cfg m"
    and "\<And>d' evs. op (mg_db m) = Inr (d', evs) \<Longrightarrow> live_step (mg_db m) d' \<and> adds cid evs (mg_db m) d'
        \<and> db_runs d' = db_runs (mg_db m) \<and> db_reservations d' = db_reservations (mg_db m)"
  shows "manager_ok cfg m'"
  using assms commit_ok [OF assms(2)] by (fastforce simp: commit_def split: sum.splits prod.splits)

lemma running_run_state: "running_run r e d = Inr (d', u) \<Longrightarrow> d' = d"
  by (auto simp: running_run_def)

lemma progress_tables:
  assumes "append_environment_progress now r p d = Inr (d', e)"
  shows "db_runs d' = db_runs d" and "db_reservations d' = db_reservations d"
  using assms by (auto simp: append_environment_progress_def running_run_def dest: append_event_frame(2,4) split: if_splits)

lemma agent_tables:
  assumes "append_agent_event now r ev d = Inr (d', u)"
  shows "db_runs d' = db_runs d" and "db_reservations d' = db_reservations d"
  using assms by (auto simp: append_agent_event_def running_run_def dest: append_event_frame(2,4) split: if_splits)

lemma commit_turn_reservations:
  "commit_assistant_turn now oid r parts d = Inr (d', evs) \<Longrightarrow> db_reservations d' = db_reservations d"
  by (auto simp: commit_assistant_turn_def dest!: insert_tools_same append_event_frame(4))

lemma tool_op_reservations:
  "tool_completed now oid r res d = Inr (d', evs) \<Longrightarrow> db_reservations d' = db_reservations d"
  "tool_denied now oid r res d = Inr (d', evs) \<Longrightarrow> db_reservations d' = db_reservations d"
  by (auto simp: tool_completed_def tool_denied_def split: if_splits dest: tool_finished_effect(6))

lemma emit_ok:
  assumes "emit_run_event now oid r s m = (res, m')" and "oid \<noteq> []" and "live_run (mg_db m) r" and ok: "manager_ok cfg m"
  shows "manager_ok cfg m'"
proof -
  have refuse: "manager_ok cfg (snd (refuse e m))" for e using ok by (simp add: refuse_def)
  have op: "manager_ok cfg (snd (commit (run_conv r) f m))"
    if "\<And>d' evs. f (mg_db m) = Inr (d', evs) \<Longrightarrow> live_step (mg_db m) d' \<and> adds (run_conv r) evs (mg_db m) d'
        \<and> db_runs d' = db_runs (mg_db m) \<and> db_reservations d' = db_reservations (mg_db m)" for f
    using commit_op_ok [OF _ ok that] by (metis prod.collapse)
  have agent: "manager_ok cfg (snd (commit (run_conv r) (after (append_agent_event now r e) (\<lambda>_. ok [])) m))" for e
    by (rule op) (auto intro: live_agent agent_adds agent_tables)
  have progress: "manager_ok cfg (snd (commit (run_conv r) (after (append_environment_progress now r p) (\<lambda>e. ok [e])) m))" for p
    by (rule op) (auto intro: live_progress progress_adds progress_tables)
  have turn: "manager_ok cfg (snd (commit (run_conv r) (commit_assistant_turn now oid r parts) m))" for parts
    by (rule op) (auto intro: live_commit [OF assms(3,2)] commit_adds commit_turn_reservations)
  have completed: "manager_ok cfg (snd (commit (run_conv r) (tool_completed now oid r x) m))" for x
    by (rule op) (auto intro: live_completed [OF assms(3,2)] completed_adds tool_op_reservations)
  have denied: "manager_ok cfg (snd (commit (run_conv r) (tool_denied now oid r x) m))" for x
    by (rule op) (auto intro: live_denied [OF assms(3,2)] denied_adds tool_op_reservations)
  have sent: "manager_ok cfg (publish (run_conv r) [run_delta now r s] m)"
    "manager_ok cfg (publish (run_conv r) [run_progress now r s] m)"
    using ok by (simp_all add: transient_ok run_delta_def run_progress_def)
  have m': "m' = snd (emit_run_event now oid r s m)" using assms(1) by simp
  show ?thesis
    unfolding m' emit_run_event_def Let_def
    by (simp add: refuse agent progress turn completed denied sent split: option.split)
qed

subsection \<open>The end of a run\<close>

lemma runs_live_end:
  assumes "runs_live d runs" and co: "coherent d" and a: "runs cid = Some a"
    and runs: "db_runs d' = change (\<lambda>x. rr_id x = run_id (cl_run (ar_claim a))) f (db_runs d)"
  shows "runs_live d' (runs(cid := None))"
  unfolding runs_live_def
proof (intro allI impI)
  fix c b assume cb: "(runs(cid := None)) c = Some b"
  then have b: "runs c = Some b" "c \<noteq> cid" by (auto split: if_splits)
  let ?r = "cl_run (ar_claim a)" and ?q = "cl_run (ar_claim b)"
  have convs: "run_conv ?r = cid" "run_conv ?q = c" and "live_run d ?r" and "live_run d ?q"
    using assms(1) a b(1) by (auto simp: runs_live_def)
  then obtain x y where x: "x \<in> set (db_runs d)" "?r = run_of_row x"
    and y: "y \<in> set (db_runs d)" "rr_status y = Running" "?q = run_of_row y"
    by (auto simp: live_run_def)
  have "rr_id y \<noteq> run_id ?r"
  proof
    assume "rr_id y = run_id ?r"
    then have "y = x" using run_keyed [OF co y(1) x(1)] x(2) by (simp add: run_of_row_def)
    with x(2) y(3) convs b(2) show False by simp
  qed
  then have "y \<in> set (db_runs d')" using changed_member [OF y(1), of "\<lambda>x. rr_id x = run_id ?r" f] by (simp add: runs)
  with y convs show "run_conv ?q = c \<and> live_run d' ?q" by (auto simp: live_run_def)
qed

lemma slots_ok_end: "slots_ok cfg n runs \<Longrightarrow> runs cid = Some a \<Longrightarrow> slots_ok cfg (n - 1) (runs(cid := None))"
  by (auto simp: slots_ok_def card_Diff_singleton domI)

lemma release_slot_simps [simp]:
  "mg_db (release_slot w m) = mg_db m" "mg_runs (release_slot w m) = mg_runs m" "mg_convs (release_slot w m) = mg_convs m"
  "mg_restores (release_slot w m) = mg_restores m" "mg_active (release_slot w m) = mg_active m - 1"
  "mg_closed (release_slot w m) = mg_closed m" "mg_reports (release_slot w m) = mg_reports m"
  by (simp_all add: release_slot_def notify_def Let_def)

lemma finish_reservations: "store_finish_run now oid r answer d = Inr (d', evs) \<Longrightarrow> db_reservations d' = db_reservations d"
  by (auto simp: store_finish_run_def update_submissions_def update_runs_def Let_def split: if_splits
      dest!: append_event_frame(4))

text \<open>Whatever the settlement of a live run is, it is a live step that ends that run only.\<close>

lemma settlement_step:
  assumes "settlement now ids a outcome = (what, op)" and "op d = Inr (d', evs)"
    and "live_run d (cl_run (ar_claim a))" and "\<forall>k. ids k \<noteq> []"
  obtains f where "live_step d d'" "adds (run_conv (cl_run (ar_claim a))) evs d d'"
    "db_runs d' = change (\<lambda>x. rr_id x = run_id (cl_run (ar_claim a))) f (db_runs d)"
    "db_reservations d' = db_reservations d"
proof -
  let ?r = "cl_run (ar_claim a)"
  consider (stop) "store_stop_run now ids ?r d = Inr (d', evs)"
    | (fail) e where "store_fail_run now ids ?r e d = Inr (d', evs)"
    | (finish) answer where "store_finish_run now (ids 0) ?r answer d = Inr (d', evs)"
    using assms(1,2) by (auto simp: settlement_def Let_def split: sum.splits if_splits)
  then show thesis
  proof cases
    case stop
    note effect = end_run_effect [OF stop [unfolded store_stop_run_def]]
    show thesis by (rule that [OF live_stop [OF assms(3,4) stop] stop_adds [OF stop] effect(2,5)])
  next
    case fail
    note effect = end_run_effect [OF fail [unfolded store_fail_run_def]]
    show thesis by (rule that [OF live_fail [OF assms(3,4) fail] fail_adds [OF fail] effect(2,5)])
  next
    case finish
    have "ids 0 \<noteq> []" using assms(4) by blast
    show thesis
      by (rule that [OF live_finish [OF assms(3) \<open>ids 0 \<noteq> []\<close> finish] finish_adds [OF finish] finish_reservations [OF finish]])
  qed
qed

lemma end_work_ok:
  assumes "\<forall>k. ids k \<noteq> []" and ok: "manager_ok cfg m"
  shows "manager_ok cfg (end_work cfg now ids cid result m)"
proof (cases "mg_runs m cid")
  case None
  with ok show ?thesis by (simp add: end_work_def)
next
  case (Some a)
  obtain what op where st: "settlement now ids a (and_then (resolve_agent cfg (ar_claim a)) (\<lambda>_. result)) = (what, op)"
    by (cases "settlement now ids a (and_then (resolve_agent cfg (ar_claim a)) (\<lambda>_. result))")
  let ?m1 = "m\<lparr>mg_runs := (mg_runs m)(cid := None)\<rparr>"
  have live: "live_run (mg_db m) (cl_run (ar_claim a))" and conv: "run_conv (cl_run (ar_claim a)) = cid"
    using ok Some by (auto simp: manager_ok_def runs_live_def)
  have co: "coherent (mg_db m)" using ok live_reachable_coherent by (simp add: manager_ok_def)
  have slots: "slots_ok cfg (mg_active m - 1) ((mg_runs m)(cid := None))"
    using ok Some slots_ok_end by (simp add: manager_ok_def)
  show ?thesis
  proof (cases "op (mg_db m)")
    case (Inl e)
    have "runs_live (mg_db m) ((mg_runs m)(cid := None))" using ok by (simp add: manager_ok_def runs_live_def)
    with Inl Some st ok slots show ?thesis
      by (simp add: end_work_def Let_def manager_ok_def report_def)
  next
    case (Inr w)
    obtain d' evs where w: "w = (d', evs)" by (cases w)
    obtain f where step: "live_step (mg_db m) d'" "adds (run_conv (cl_run (ar_claim a))) evs (mg_db m) d'"
      "db_runs d' = change (\<lambda>x. rr_id x = run_id (cl_run (ar_claim a))) f (db_runs (mg_db m))"
      "db_reservations d' = db_reservations (mg_db m)"
      by (rule settlement_step [OF st Inr [unfolded w] live assms(1)])
    have reach: "live_reachable d'" using ok step(1) live_reachable_step by (auto simp: manager_ok_def)
    have "convs_served (mg_db m) (mg_convs (?m1\<lparr>mg_db := d'\<rparr>))" using ok by (simp add: manager_ok_def)
    from served_commit [OF this step(2) [unfolded conv] live_reachable_log_ok [OF reach]]
    have "convs_served d' (mg_convs (publish cid evs (?m1\<lparr>mg_db := d'\<rparr>)))" .
    moreover have "runs_live d' ((mg_runs m)(cid := None))"
      by (rule runs_live_end [where runs = "mg_runs m" and cid = cid, OF _ co Some step(3)]) (use ok in \<open>simp add: manager_ok_def\<close>)
    moreover have "restores_ok d' (mg_restores m)" using ok restores_same [OF _ step(4)] by (simp add: manager_ok_def)
    ultimately show ?thesis
      using Inr w Some st reach slots by (simp add: end_work_def Let_def manager_ok_def)
  qed
qed

subsection \<open>Restoring\<close>

lemma begin_restore_ok:
  assumes "begin_restore cfg now wid m = (res, m')" and ok: "manager_ok cfg m"
  shows "manager_ok cfg m'"
proof -
  have "manager_ok cfg (m\<lparr>mg_db := d', mg_restores := wid # mg_restores m\<rparr>)"
    if reserve: "reserve_workspace now wid (mg_db m) = Inr (d', u)" for d' u
  proof -
    have d': "d' = mg_db m\<lparr>db_reservations := db_reservations (mg_db m) @ [(wid, now)]\<rparr>" and "\<not> reserved wid (mg_db m)"
      using reserve by (auto simp: reserve_workspace_def workspace_busy_def split: if_splits)
    then have "restores_ok d' (wid # mg_restores m)"
      using ok by (auto simp: manager_ok_def restores_ok_def reserved_def)
    then show ?thesis
      using store_ok [OF ok live_reserve [OF reserve] adds_same] by (simp add: d')
  qed
  with assms show ?thesis by (auto simp: begin_restore_def split: if_splits sum.splits prod.splits)
qed

lemma end_restore_ok:
  assumes ok: "manager_ok cfg m"
  shows "manager_ok cfg (end_restore wid m)"
proof -
  obtain d' where release: "release_workspace wid (mg_db m) = Inr (d', ())"
    and d': "d' = mg_db m\<lparr>db_reservations := filter (\<lambda>r. fst r \<noteq> wid) (db_reservations (mg_db m))\<rparr>"
    by (simp add: release_workspace_def)
  have "restores_ok d' (remove1 wid (mg_restores m))"
    using ok by (auto simp: manager_ok_def restores_ok_def reserved_def d' dest: notin_set_remove1)
  then have "manager_ok cfg (m\<lparr>mg_db := d', mg_restores := remove1 wid (mg_restores m)\<rparr>)"
    using store_ok [OF ok live_release [OF release] adds_same] by (simp add: d')
  moreover have "end_restore wid m = notify (m\<lparr>mg_db := d', mg_restores := remove1 wid (mg_restores m)\<rparr>)"
    using release by (simp add: end_restore_def Let_def notify_def)
  ultimately show ?thesis by simp
qed

subsection \<open>Every managed state\<close>

lemma manager_step_ok: "manager_step cfg m m' \<Longrightarrow> manager_ok cfg m \<Longrightarrow> manager_ok cfg m'"
proof (induction rule: manager_step.induct)
  case (ms_emit oid m cid a agent now s res m')
  then have "live_run (mg_db m) (cl_run (ar_claim a))" by (auto simp: manager_ok_def runs_live_def)
  with ms_emit show ?case using emit_ok by blast
qed (auto intro: open_ok submit_ok stop_ok view_ok events_ok subscribe_ok unsubscribe_ok receive_ok dispatch_once_ok
      end_work_ok begin_restore_ok end_restore_ok close_ok)

lemma new_manager_ok:
  assumes "new_manager cfg now idss d = (Inr m, d')" and "live_reachable d" and "\<forall>j k. idss j k \<noteq> []"
  shows "manager_ok cfg m" and "mg_db m = d'"
proof -
  have rec: "recover_running now idss d = (d', None)" and m: "m = fresh_manager d'"
    using assms(1) by (auto simp: new_manager_def split: sum.splits prod.splits option.splits)
  then have "live_reachable d'" using live_recover [OF assms(3)] live_reachable_step [OF assms(2)] by blast
  then show "manager_ok cfg m"
    by (simp add: m fresh_manager_def manager_ok_def runs_live_def slots_ok_def convs_served_def restores_ok_def dom_def)
  show "mg_db m = d'" by (simp add: m fresh_manager_def)
qed

lemma managed_ok: "managed cfg m \<Longrightarrow> manager_ok cfg m"
  by (induction rule: managed.induct) (auto intro: new_manager_ok manager_step_ok)

end
