(* ===== verification/Manager_Props.thy ===== *)
theory Manager_Props
  imports Manager_Run
begin

section \<open>What the manager promises\<close>

subsection \<open>A manager at work\<close>

definition sample_agent :: agent_definition where
  "sample_agent = \<lparr>ad_id = ''a'', ad_name = ''A'', ad_persona = [], ad_slot = ''s'', ad_model = [], ad_max_turns = 5,
     ad_plugins = [], ad_policy = workspace_per_conversation, ad_mcp = []\<rparr>"

definition sample_config :: config where
  "sample_config = \<lparr>cf_agent = sample_agent, cf_rev = (\<lambda>_. ''v''), cf_revisions = (\<lambda>_ _. Inr sample_agent),
     cf_prepare = None, cf_max = 1, cf_env_options = [], cf_default_env = [], cf_can_restore = True\<rparr>"

text \<open>It starts on two queued inputs, a client subscribes, the older input is claimed, a stop is requested.\<close>

definition opened :: manager where
  "opened = fresh_manager queued_db"

definition watched :: manager where
  "watched = snd (subscribe ''c'' 1 opened)"

definition working :: manager where
  "working = fst (dispatch_once sample_config 4 ''r1'' watched)"

definition stopping :: manager where
  "stopping = snd (manager_stop_run ''c'' working)"

lemma managed_samples:
  "managed sample_config opened" "managed sample_config watched" "managed sample_config working"
  "managed sample_config stopping"
proof -
  have "new_manager sample_config 4 (\<lambda>_ _. ''x'') queued_db = (Inr (fresh_manager queued_db), queued_db)"
  proof -
    have "recover_running 4 (\<lambda>_ _. ''x'') queued_db = (queued_db, None)" by code_simp
    moreover have "validate_agent sample_agent = Inr ()" by code_simp
    ultimately show ?thesis by (simp add: new_manager_def sample_config_def)
  qed
  then show 0: "managed sample_config opened"
    unfolding opened_def by (rule managed_start [OF live_queued, rotated]) simp
  show 1: "managed sample_config watched"
    unfolding watched_def by (rule managed_step [OF 0]) (rule ms_subscribe, rule prod.collapse [symmetric])
  show 2: "managed sample_config working"
    unfolding working_def by (rule managed_step [OF 1]) (rule ms_dispatch [where rid = "''r1''"], simp, rule prod.collapse [symmetric])
  show "managed sample_config stopping"
    unfolding stopping_def by (rule managed_step [OF 2]) (rule ms_stop, rule prod.collapse [symmetric])
qed

subsection \<open>The store under a manager\<close>

text \<open>C20. However its operations interleave, a manager leaves a store that only the disciplined
  steps reach: run operations are applied to live runs only, so the store can be rebuilt from its log.\<close>

theorem managed_store_live:
  assumes "managed cfg m"
  shows "live_reachable (mg_db m)"
  using managed_ok [OF assms] by (simp add: manager_ok_def)

lemma managed_store_live_witness: "live_reachable (mg_db working) \<and> mg_runs working ''c'' \<noteq> None"
proof -
  have "mg_runs working ''c'' \<noteq> None" by code_simp
  with managed_store_live [OF managed_samples(3)] show ?thesis by simp
qed

text \<open>The slots in use are exactly the registered runs, and never more than the configured bound.\<close>

theorem slots_bounded:
  assumes "managed cfg m"
  shows "finite (dom (mg_runs m)) \<and> card (dom (mg_runs m)) = mg_active m \<and> mg_active m \<le> max_concurrent cfg"
  using managed_ok [OF assms] by (simp add: manager_ok_def slots_ok_def)

lemma slots_bounded_witness: "mg_active working = 1 \<and> card (dom (mg_runs working)) = 1 \<and> max_concurrent sample_config = 1"
proof -
  have "mg_active working = 1" "max_concurrent sample_config = 1" by code_simp+
  with slots_bounded [OF managed_samples(3)] show ?thesis by simp
qed

text \<open>A registered run is the running run of its conversation in the store, and the runs
  registered for two conversations never share a workspace lock.\<close>

theorem registered_runs_apart:
  assumes "managed cfg m" and "mg_runs m c = Some a" and "mg_runs m c' = Some b"
  shows "run_conv (cl_run (ar_claim a)) = c
     \<and> (\<exists>s \<in> set (db_submissions (mg_db m)). sr_id s = run_inbound (cl_run (ar_claim a)) \<and> sr_conv s = c \<and> sr_status s = Running)
     \<and> (lock_of (mg_db m) c = lock_of (mg_db m) c' \<longrightarrow> c = c')"
proof -
  have ok: "manager_ok cfg m" by (rule managed_ok [OF assms(1)])
  then have reach: "live_reachable (mg_db m)" by (simp add: manager_ok_def)
  have row: "run_conv (cl_run (ar_claim x)) = cid
      \<and> (\<exists>s \<in> set (db_submissions (mg_db m)). sr_id s = run_inbound (cl_run (ar_claim x)) \<and> sr_conv s = cid \<and> sr_status s = Running)"
    if x: "mg_runs m cid = Some x" for cid x
  proof -
    have live: "live_run (mg_db m) (cl_run (ar_claim x))" and conv: "run_conv (cl_run (ar_claim x)) = cid"
      using ok x by (auto simp: manager_ok_def runs_live_def)
    obtain s where "s \<in> set (db_submissions (mg_db m))" "sr_id s = run_inbound (cl_run (ar_claim x))"
      "sr_conv s = run_conv (cl_run (ar_claim x))" "sr_status s = Running"
      by (rule live_run_facts [OF live_reachable_coherent [OF reach] live])
    with conv show ?thesis by auto
  qed
  obtain s t where s: "s \<in> set (db_submissions (mg_db m))" "sr_conv s = c" "sr_status s = Running"
    and t: "t \<in> set (db_submissions (mg_db m))" "sr_conv t = c'" "sr_status t = Running"
    using row [OF assms(2)] row [OF assms(3)] by auto
  have "exclusive (mg_db m)" by (rule reachable_exclusive [OF live_reachable_reachable [OF reach]])
  then have "inj_on (\<lambda>x. lock_of (mg_db m) (sr_conv x)) (set (running_subs (mg_db m)))"
    by (simp add: exclusive_def distinct_map)
  with s t have "lock_of (mg_db m) c = lock_of (mg_db m) c' \<longrightarrow> s = t" by (auto simp: inj_on_def running_subs_def)
  with row [OF assms(2)] s(2) t(2) show ?thesis by auto
qed

lemma registered_runs_apart_witness:
  "\<exists>a. mg_runs working ''c'' = Some a \<and> run_conv (cl_run (ar_claim a)) = ''c''"
proof -
  have "mg_runs working ''c'' \<noteq> None" by code_simp
  then obtain a where a: "mg_runs working ''c'' = Some a" by auto
  from registered_runs_apart [OF managed_samples(3) a a] a show ?thesis by blast
qed

subsection \<open>Delivery\<close>

text \<open>C15. A connected subscriber was sent, besides transient progress, exactly the public events
  of its conversation after the cursor it asked for: each once, in cursor order, none missing,
  whether they came from the backlog or were broadcast. Its unread events fit its buffer.\<close>

theorem subscriber_follows_log:
  assumes "managed cfg m" and "mg_convs m c = Some lc" and "(i, s) \<in> set (lc_subs lc)"
  shows "filter (\<lambda>e. re_id e \<noteq> 0) (su_sent s)
       = filter (\<lambda>e. re_conv e = c \<and> \<not> agent_kind (re_kind e) \<and> su_start s < re_id e) (map er_payload (db_events (mg_db m)))
     \<and> sorted_wrt (<) (map re_id (filter (\<lambda>e. re_id e \<noteq> 0) (su_sent s)))
     \<and> length (su_sent s) - su_read s \<le> su_cap s"
proof -
  have ok: "manager_ok cfg m" by (rule managed_ok [OF assms(1)])
  then have "all_served (public_of c (mg_db m)) (lc_subs lc)"
    using assms(2) by (simp add: manager_ok_def convs_served_def)
  then have served: "served (public_of c (mg_db m)) s" using assms(3) by (auto simp: all_served_def)
  have log: "log_ok (mg_db m)" using ok by (simp add: manager_ok_def live_reachable_log_ok)
  have sent: "filter (\<lambda>e. re_id e \<noteq> 0) (su_sent s) = filter (\<lambda>e. su_start s < re_id e) (public_of c (mg_db m))"
    using served by (simp add: served_def follows_def durable_def)
  also have "\<dots> = filter (\<lambda>e. re_conv e = c \<and> \<not> agent_kind (re_kind e) \<and> su_start s < re_id e) (map er_payload (db_events (mg_db m)))"
    by (simp add: public_of_def log_of_def conj_ac)
  finally show ?thesis
    using served sent filter_ordered [OF public_increasing(1) [OF log, of c]] by (simp add: served_def)
qed

lemma subscriber_follows_log_witness:
  "\<exists>lc i s. mg_convs working ''c'' = Some lc \<and> (i, s) \<in> set (lc_subs lc)
     \<and> map re_id (filter (\<lambda>e. re_id e \<noteq> 0) (su_sent s)) = [2, 3, 4]
     \<and> sorted_wrt (<) (map re_id (filter (\<lambda>e. re_id e \<noteq> 0) (su_sent s)))"
proof -
  have "map_option (map (\<lambda>(i, s). map re_id (su_sent s)) \<circ> lc_subs) (mg_convs working ''c'') = Some [[2, 3, 4]]" by code_simp
  then obtain lc i s where lc: "mg_convs working ''c'' = Some lc" "lc_subs lc = [(i, s)]" "map re_id (su_sent s) = [2, 3, 4]"
    by (auto simp: map_eq_Cons_conv)
  then have mem: "(i, s) \<in> set (lc_subs lc)" by simp
  have "re_id e \<in> {2, 3, 4}" if "e \<in> set (su_sent s)" for e
    using imageI [OF that, of re_id] unfolding set_map [symmetric] lc(3) by simp
  then have "filter (\<lambda>e. re_id e \<noteq> 0) (su_sent s) = su_sent s" by (intro filter_True) fastforce
  with lc(3) subscriber_follows_log [OF managed_samples(3) lc(1) mem] lc(1) mem show ?thesis
    by (intro exI [of _ lc] exI [of _ i] exI [of _ s]) simp
qed

subsection \<open>Restoring and closing\<close>

text \<open>C27. While this process restores a workspace, no submission of a conversation in that
  workspace runs, in this process or any other.\<close>

theorem restore_excludes_runs:
  assumes "managed cfg m" and "w \<in> set (mg_restores m)"
    and "x \<in> set (db_submissions (mg_db m))" and "sr_status x = Running"
  shows "workspace_of (mg_db m) (sr_conv x) \<noteq> Some w"
proof -
  have ok: "manager_ok cfg m" by (rule managed_ok [OF assms(1)])
  then have "reserved w (mg_db m)" using assms(2) by (simp add: manager_ok_def restores_ok_def)
  moreover have "reserved_idle (mg_db m)"
    using ok by (simp add: manager_ok_def reachable_reserved_idle live_reachable_reachable)
  ultimately show ?thesis using assms(3,4) unfolding reserved_idle_def by blast
qed

text \<open>The restored workspace is another one than that of the running conversation.\<close>

definition restoring :: manager where
  "restoring = snd (begin_restore sample_config 5 ''other'' working)"

lemma restore_excludes_runs_witness:
  "\<exists>x \<in> set (db_submissions (mg_db restoring)). sr_status x = Running
     \<and> workspace_of (mg_db restoring) (sr_conv x) \<noteq> Some ''other''"
proof -
  have managed: "managed sample_config restoring"
    unfolding restoring_def by (rule managed_step [OF managed_samples(3)]) (rule ms_restore, rule prod.collapse [symmetric])
  have "''other'' \<in> set (mg_restores restoring)" by code_simp
  moreover have "\<exists>x \<in> set (db_submissions (mg_db restoring)). sr_status x = Running" by code_simp
  ultimately show ?thesis using restore_excludes_runs [OF managed] by blast
qed

definition silent :: "manager \<Rightarrow> bool" where
  "silent m \<longleftrightarrow> mg_closed m \<and> (\<forall>c lc. mg_convs m c = Some lc \<longrightarrow> lc_subs lc = [])"

definition sub_ids :: "db \<Rightarrow> string list" where
  "sub_ids d = map sr_id (db_submissions d)"

text \<open>What a step of a closed manager can still do.\<close>

definition winds_down :: "manager \<Rightarrow> manager \<Rightarrow> bool" where
  "winds_down m m' \<longleftrightarrow> silent m' \<and> dom (mg_runs m') \<subseteq> dom (mg_runs m) \<and> sub_ids (mg_db m') = sub_ids (mg_db m)"

lemma winds_down_refl: "silent m \<Longrightarrow> winds_down m m"
  by (simp add: winds_down_def)

lemma winds_down_trans: "winds_down m m1 \<Longrightarrow> winds_down m1 m2 \<Longrightarrow> winds_down m m2"
  unfolding winds_down_def by (metis subset_trans)

lemma silent_subs: "silent m \<Longrightarrow> f [] = [] \<Longrightarrow> silent (on_subs f c m)"
  by (auto simp: silent_def on_subs_def split: option.splits)

lemma publish_on_subs: "publish c es = on_subs (broadcast es) c"
  by (simp add: fun_eq_iff publish_def on_subs_def)

lemma winds_down_publish: "winds_down m m' \<Longrightarrow> winds_down m (publish c es m')"
  using silent_subs [of m' "broadcast es" c] by (simp add: winds_down_def flip: publish_on_subs)

lemma live_conversation_closed: "mg_closed m \<Longrightarrow> live_conversation cid m = (res, m') \<Longrightarrow> m' = m \<and> (\<exists>e. res = Inl e)"
  by (auto simp: live_conversation_def split: if_splits)

lemma run_ops_submissions:
  "append_environment_progress now r p d = Inr (d', e) \<Longrightarrow> db_submissions d' = db_submissions d"
  "append_agent_event now r ev d = Inr (d', u) \<Longrightarrow> db_submissions d' = db_submissions d"
  "commit_assistant_turn now oid r parts d = Inr (d', evs) \<Longrightarrow> db_submissions d' = db_submissions d"
  "tool_completed now oid r res d = Inr (d', evs) \<Longrightarrow> db_submissions d' = db_submissions d"
  "tool_denied now oid r res d = Inr (d', evs) \<Longrightarrow> db_submissions d' = db_submissions d"
  by (auto simp: append_environment_progress_def append_agent_event_def running_run_def commit_assistant_turn_def
      tool_completed_def tool_denied_def split: if_splits
      dest!: append_event_frame(1) insert_tools_same tool_finished_effect(2))

lemma settlement_submissions:
  assumes "settlement now ids a outcome = (what, op)" and "op d = Inr (d', evs)"
  shows "sub_ids d' = sub_ids d"
proof -
  have same: "map sr_id (change p (\<lambda>x. x\<lparr>sr_status := st, sr_err := msg\<rparr>) rs) = map sr_id rs"
    "map sr_id (change p (\<lambda>x. x\<lparr>sr_status := st\<rparr>) rs) = map sr_id rs" for p st msg rs
    by (simp_all add: change_def)
  have ended: "sub_ids d' = sub_ids d" if "end_run now ids r st k msg d = Inr (d', evs)" for r st k msg
    using end_run_effect(1) [OF that] by (simp add: sub_ids_def same)
  have finished: "sub_ids d' = sub_ids d" if "store_finish_run now oid r answer d = Inr (d', evs)" for oid r answer
    using that by (auto simp: store_finish_run_def update_submissions_def update_runs_def Let_def sub_ids_def same split: if_splits
        dest!: append_event_frame(1))
  show ?thesis
    using assms ended finished
    by (auto simp: settlement_def Let_def store_stop_run_def store_fail_run_def split: sum.splits if_splits)
qed

lemma winds_down_store: "silent m \<Longrightarrow> sub_ids d' = sub_ids (mg_db m) \<Longrightarrow> winds_down m (m\<lparr>mg_db := d'\<rparr>)"
  by (simp add: winds_down_def silent_def)

lemma commit_winds_down:
  assumes "silent m" and "\<And>d' evs. op (mg_db m) = Inr (d', evs) \<Longrightarrow> db_submissions d' = db_submissions (mg_db m)"
  shows "winds_down m (snd (commit cid op m))"
proof (cases "op (mg_db m)")
  case (Inl e)
  with assms(1) show ?thesis by (simp add: commit_def winds_down_refl)
next
  case (Inr w)
  obtain d' evs where w: "w = (d', evs)" by (cases w)
  have "sub_ids d' = sub_ids (mg_db m)" using assms(2) Inr w by (simp add: sub_ids_def)
  then have "winds_down m (publish cid evs (m\<lparr>mg_db := d'\<rparr>))"
    by (intro winds_down_publish winds_down_store assms(1))
  with Inr w show ?thesis by (simp add: commit_def)
qed

lemma emit_winds_down:
  assumes "silent m"
  shows "winds_down m (snd (emit_run_event now oid r s m))"
proof -
  have refuse: "winds_down m (snd (refuse e m))" for e using assms by (simp add: refuse_def winds_down_refl)
  have ops: "winds_down m (snd (commit (run_conv r) (after (append_agent_event now r e) (\<lambda>_. ok [])) m))"
    "winds_down m (snd (commit (run_conv r) (after (append_environment_progress now r p) (\<lambda>e. ok [e])) m))"
    "winds_down m (snd (commit (run_conv r) (commit_assistant_turn now oid r parts) m))"
    "winds_down m (snd (commit (run_conv r) (tool_completed now oid r x) m))"
    "winds_down m (snd (commit (run_conv r) (tool_denied now oid r x) m))" for e p parts x
    by (rule commit_winds_down [OF assms]; auto dest: run_ops_submissions)+
  have sent: "winds_down m (publish c es m)" for c es
    using assms by (intro winds_down_publish winds_down_refl)
  show ?thesis
    unfolding emit_run_event_def Let_def
    by (simp add: refuse ops sent split: option.split)
qed

lemma end_work_winds_down:
  assumes "silent m"
  shows "winds_down m (end_work cfg now ids cid result m)"
proof (cases "mg_runs m cid")
  case None
  with assms show ?thesis by (simp add: end_work_def winds_down_refl)
next
  case (Some a)
  obtain what op where st: "settlement now ids a (and_then (resolve_agent cfg (ar_claim a)) (\<lambda>_. result)) = (what, op)"
    by (cases "settlement now ids a (and_then (resolve_agent cfg (ar_claim a)) (\<lambda>_. result))")
  let ?m1 = "m\<lparr>mg_runs := (mg_runs m)(cid := None)\<rparr>"
  have base: "winds_down m ?m1" using assms by (auto simp: winds_down_def silent_def)
  have slot: "winds_down m m' \<Longrightarrow> winds_down m (release_slot True m')" for m'
    by (simp add: winds_down_def silent_def)
  show ?thesis
  proof (cases "op (mg_db m)")
    case (Inl e)
    with Some st base show ?thesis
      by (simp add: end_work_def Let_def slot winds_down_def silent_def report_def)
  next
    case (Inr w)
    obtain d' evs where w: "w = (d', evs)" by (cases w)
    have "sub_ids d' = sub_ids (mg_db m)" using settlement_submissions [OF st] Inr w by blast
    then have "winds_down m (?m1\<lparr>mg_db := d'\<rparr>)" using base by (simp add: winds_down_def silent_def)
    then have "winds_down m (release_slot True (publish cid evs (?m1\<lparr>mg_db := d'\<rparr>)))"
      by (intro slot winds_down_publish)
    with Inr w Some st show ?thesis by (simp add: end_work_def Let_def)
  qed
qed

lemma end_restore_winds_down: "silent m \<Longrightarrow> winds_down m (end_restore wid m)"
  by (simp add: end_restore_def release_workspace_def Let_def notify_def winds_down_def silent_def sub_ids_def)

lemma closed_operations:
  assumes "silent m"
  shows "open_conversation cfg cid now sel m = (Inl Closed, m)"
    and "snd (submit_input cfg now i cid inp m) = m" and "snd (manager_stop_run cid m) = m" and "snd (manager_view cfg cid m) = m"
    and "snd (manager_events cid start m) = m" and "snd (subscribe cid start m) = m"
    and "dispatch_once cfg now rid m = (m, False)" and "snd (begin_restore cfg now wid m) = m" and "close m = m"
proof -
  have closed: "mg_closed m" using assms by (simp add: silent_def)
  obtain e where live: "live_conversation cid m = (Inl e, m)"
    using live_conversation_closed [OF closed] by (metis surj_pair)
  show "open_conversation cfg cid now sel m = (Inl Closed, m)" by (simp add: open_conversation_def closed)
  show "snd (submit_input cfg now i cid inp m) = m" by (simp add: submit_input_def live split: sum.split)
  show "snd (manager_stop_run cid m) = m" by (simp add: manager_stop_run_def live)
  show "snd (manager_view cfg cid m) = m" by (simp add: manager_view_def live)
  show "snd (manager_events cid start m) = m" by (simp add: manager_events_def live)
  show "snd (subscribe cid start m) = m" by (simp add: subscribe_def live)
  show "dispatch_once cfg now rid m = (m, False)" by (simp add: dispatch_once_def reserve_slot_def closed)
  show "snd (begin_restore cfg now wid m) = m" by (simp add: begin_restore_def closed)
  show "close m = m" by (simp add: close_def closed)
qed

lemma closed_step:
  assumes "manager_step cfg m m'" and silent: "silent m"
  shows "winds_down m m'"
  using assms(1)
proof cases
  case (ms_emit oid cid a agent now s res)
  then have "m' = snd (emit_run_event now oid (cl_run (ar_claim a)) s m)" by simp
  then show ?thesis by (simp only: emit_winds_down [OF silent])
next
  case (ms_unsubscribe cid n)
  then have "m' = on_subs (filter (\<lambda>(j, s). j \<noteq> n)) cid m" by (simp add: unsubscribe_def)
  with silent_subs [OF silent] show ?thesis by (simp add: winds_down_def) (simp add: on_subs_def split: option.split)
next
  case (ms_receive cid n)
  then have "m' = on_subs (map (\<lambda>(j, s). (j, if j = n \<and> su_read s < length (su_sent s) then s\<lparr>su_read := Suc (su_read s)\<rparr> else s))) cid m"
    by (simp add: receive_def)
  with silent_subs [OF silent] show ?thesis by (simp add: winds_down_def) (simp add: on_subs_def split: option.split)
next
  case (ms_end ids now cid result)
  with end_work_winds_down [OF silent] show ?thesis by blast
next
  case (ms_restored wid)
  with end_restore_winds_down [OF silent] show ?thesis by blast
qed (use closed_operations [OF silent] winds_down_refl [OF silent] in \<open>metis snd_conv fst_conv\<close>)+

text \<open>Closing is final: after any further steps the manager is still closed, has no connected
  subscriber, has registered no further run, and has accepted no further submission.\<close>

theorem closing_is_final:
  assumes "(manager_step cfg)\<^sup>*\<^sup>* (close m) m'" and "\<not> mg_closed m"
  shows "mg_closed m' \<and> (\<forall>c lc. mg_convs m' c = Some lc \<longrightarrow> lc_subs lc = [])
     \<and> dom (mg_runs m') \<subseteq> dom (mg_runs m)
     \<and> map sr_id (db_submissions (mg_db m')) = map sr_id (db_submissions (mg_db m))"
proof -
  have start: "winds_down m (close m)"
    using assms(2) by (auto simp: winds_down_def silent_def close_def)
  have "winds_down m m'"
    using assms(1)
  proof (induction rule: rtranclp_induct)
    case (step y z)
    then have "winds_down y z" by (intro closed_step) (simp_all add: winds_down_def)
    with step.IH show ?case by (rule winds_down_trans)
  qed (rule start)
  then show ?thesis by (simp add: winds_down_def silent_def sub_ids_def)
qed

lemma closing_is_final_witness:
  "dom (mg_runs (close working)) \<subseteq> dom (mg_runs working) \<and> mg_closed (close working)"
proof -
  have "\<not> mg_closed working" by code_simp
  from closing_is_final [OF rtranclp.rtrancl_refl this] show ?thesis by blast
qed

end
