(* ===== verification/Manager_Flow.thy ===== *)
theory Manager_Flow
  imports Manager_Props
begin

section \<open>What the manager's operations do\<close>

text \<open>
  The placement of a new conversation, the admission of an input, the two ways a run ends
  that the client or the configuration decides, and the end of a dispatch.
\<close>

subsection \<open>Placing a conversation\<close>

lemma environment_choice_blank:
  "environment_choice cfg [] = Inr env \<Longrightarrow> default_environment cfg = env"
  by (simp add: default_environment_def)

text \<open>A conversation is placed by the workspace policy. Under the agent policy it takes no
  source of its own: it shares the agent's workspace, locks it, and lives in the default
  environment. Otherwise it has exactly one source, its own workspace identity, and locks the
  client's directory, or itself when the directory is not shared (a clone, or a sandbox).\<close>

theorem conversation_placed:
  assumes "choose_conversation cfg cid now sel = Inr cv"
    and "\<forall>f. cf_prepare cfg = Some f \<longrightarrow> (\<forall>s t. f s = Inr t \<longrightarrow> op_environment t = op_environment s)"
  shows "cv_id cv = cid \<and> cv_agent_id cv = ad_id (cf_agent cfg)
     \<and> (if ad_policy (cf_agent cfg) = workspace_agent
        then cv_agent_workspace cv \<and> cv_workspace cv = [] \<and> cv_git_repository cv = []
          \<and> cv_workspace_id cv = agent_workspace_id (cv_agent_id cv) \<and> cv_workspace_lock cv = cv_workspace_id cv
          \<and> cv_environment cv = default_environment cfg
        else \<not> cv_agent_workspace cv \<and> (cv_workspace cv = [] \<longleftrightarrow> cv_git_repository cv \<noteq> [])
          \<and> cv_workspace_id cv = cid
          \<and> cv_workspace_lock cv = (if cv_environment cv = ''e2b'' \<or> cv_git_repository cv \<noteq> [] then cid else cv_workspace cv)
          \<and> (cf_env_options cfg \<noteq> [] \<longrightarrow> cv_environment cv = [] \<or> cv_environment cv \<in> set (cf_env_options cfg)))"
proof -
  let ?agent = "ad_policy (cf_agent cfg) = workspace_agent"
  obtain env s where env: "environment_choice cfg (op_environment sel) = Inr env"
    and s: "prepare_options cfg ?agent (sel\<lparr>op_environment := env\<rparr>) = Inr s"
    and cv: "cv = build_conversation cfg ?agent cid now s"
    and plain: "?agent \<longrightarrow> op_workspace sel = [] \<and> op_git_repository sel = [] \<and> env = default_environment cfg"
    and one: "\<not> ?agent \<longrightarrow> op_workspace s \<noteq> [] \<or> op_git_repository s \<noteq> []" "op_workspace s = [] \<or> op_git_repository s = []"
    using assms(1) by (auto simp: choose_conversation_def Let_def and_then_Inr_iff split: if_splits)
  have same: "op_environment s = env"
    using s assms(2) by (auto simp: prepare_options_def split: option.splits if_splits sum.splits)
  have known: "cf_env_options cfg \<noteq> [] \<longrightarrow> env = [] \<or> env \<in> set (cf_env_options cfg)"
    using env by (auto simp: environment_choice_def Let_def split: if_splits)
  show ?thesis
  proof (cases ?agent)
    case True
    then have "s = sel\<lparr>op_environment := env\<rparr>" using s by (auto simp: prepare_options_def split: option.splits)
    with True plain show ?thesis by (simp add: cv build_conversation_def Let_def)
  next
    case False
    with one same known show ?thesis by (auto simp: cv build_conversation_def Let_def)
  qed
qed

lemma conversation_placed_witness:
  "\<exists>cv. choose_conversation sample_config ''n'' 7 \<lparr>op_workspace = ''/p'', op_environment = [], op_git_repository = [],
        op_git_revision = [], op_git_all = False\<rparr> = Inr cv \<and> cv_workspace_lock cv = ''/p'' \<and> cv_workspace_id cv = ''n''"
proof -
  let ?sel = "\<lparr>op_workspace = ''/p'', op_environment = [], op_git_repository = [], op_git_revision = [], op_git_all = False\<rparr>"
  have "map_sum id (\<lambda>cv. (cv_environment cv, cv_workspace cv, cv_git_repository cv)) (choose_conversation sample_config ''n'' 7 ?sel)
      = Inr ([], ''/p'', [])" by code_simp
  then obtain cv where cv: "choose_conversation sample_config ''n'' 7 ?sel = Inr cv" "cv_environment cv = []" "cv_workspace cv = ''/p''"
    "cv_git_repository cv = []"
    by (cases "choose_conversation sample_config ''n'' 7 ?sel") auto
  have prep: "\<forall>f. cf_prepare sample_config = Some f \<longrightarrow> (\<forall>s t. f s = Inr t \<longrightarrow> op_environment t = op_environment s)"
    by (simp add: sample_config_def)
  have policy: "ad_policy (cf_agent sample_config) \<noteq> workspace_agent" by code_simp
  from conversation_placed [OF cv(1) prep] policy cv show ?thesis by (intro exI [of _ cv]) simp
qed

subsection \<open>Admitting an input\<close>

lemma accept_result:
  assumes "accept now i cid inp d = Inr (d', a, evs)"
  shows "am_conv a = cid \<and> (if am_duplicate a then d' = d \<and> evs = []
       \<and> (\<exists>r \<in> set (db_submissions d). sr_id r = am_inbound a \<and> sr_conv r = cid \<and> sr_key r = sub_key inp)
     else db_submissions d' = db_submissions d @ [queued_row now i cid inp] \<and> am_inbound a = i
       \<and> map re_input evs = [Some inp])"
proof (cases "find_key cid (sub_key inp) d")
  case (Some r)
  with assms find_key_Some [OF Some] show ?thesis by (auto simp: accept_def)
next
  case None
  with assms have new: "accept_new now i cid inp d = Inr (d', a, evs)" by (auto simp: accept_def)
  then obtain d0 e where ins: "insert_submission (queued_row now i cid inp) d = Inr (d0, ())"
    and app: "append_event now ((bare_event InputAccepted cid [] i)\<lparr>re_input := Some inp, re_created := Some now\<rparr>) d0
          = Inr (d', e)" and res: "evs = [e]" "a = \<lparr>am_conv = cid, am_inbound = i, am_duplicate = False\<rparr>"
    by (auto simp: accept_new_def conversation_tx_def)
  have "re_input e = Some inp" by (subst append_event_frame(6) [OF app]) simp
  moreover have "db_submissions d' = db_submissions d @ [queued_row now i cid inp]"
    using ins append_event_frame(1) [OF app] by (auto simp: insert_submission_def split: if_splits)
  ultimately show ?thesis by (simp add: res)
qed

text \<open>A submission that is refused leaves the store as it was. One that is admitted is either a
  repetition, answered with the recorded submission and no change, or a new queued submission
  under the server's current revision whose event names the conversation's agent, and the
  scheduler is woken.\<close>

theorem submission_admitted:
  assumes "submit_input cfg now i cid inp m = (res, m')"
  shows "case res of
      Inl e \<Rightarrow> mg_db m' = mg_db m
    | Inr a \<Rightarrow> if am_duplicate a
        then mg_db m' = mg_db m \<and> (\<exists>r \<in> set (db_submissions (mg_db m)).
               sr_id r = am_inbound a \<and> sr_conv r = cid \<and> sr_key r = sub_key inp)
        else mg_wake m' \<and> am_inbound a = i
          \<and> (\<exists>r. db_submissions (mg_db m') = db_submissions (mg_db m) @ [r] \<and> sr_id r = i \<and> sr_conv r = cid
               \<and> sr_key r = sub_key inp \<and> sr_status r = Queued \<and> sr_revision r = cf_revision cfg)"
proof -
  obtain r1 m1 where live: "live_conversation cid m = (r1, m1)" by (cases "live_conversation cid m")
  note frame = live_conversation_frame [OF live]
  show ?thesis
  proof (cases res)
    case (Inl e)
    with assms frame(1) show ?thesis
      by (auto simp: submit_input_def live admit_input_def Let_def split: sum.splits if_splits)
  next
    case (Inr a)
    obtain lc where lc: "r1 = Inr lc"
      using assms Inr by (auto simp: submit_input_def live split: sum.splits)
    obtain inp' where to: "addressed cfg (lc_conversation lc) inp = Inr inp'"
      using assms Inr by (auto simp: submit_input_def live lc split: sum.splits)
    have admit: "admit_input now i cid inp' m1 = (Inr a, m')"
      using assms Inr to by (auto simp: submit_input_def live lc split: sum.splits)
    then obtain d' a' evs where acc: "accept now i cid inp' (mg_db m) = Inr (d', a', evs)"
      by (auto simp: admit_input_def frame split: sum.splits)
    with admit have "a' = a"
      and m': "m' = (if am_duplicate a then publish cid evs (m1\<lparr>mg_db := d'\<rparr>) else notify (publish cid evs (m1\<lparr>mg_db := d'\<rparr>)))"
      by (auto simp: admit_input_def frame Let_def)
    note acc = acc [unfolded \<open>a' = a\<close>]
    have inp': "sub_key inp' = sub_key inp" "sub_revision inp' = cf_revision cfg"
      using to by (auto simp: addressed_def split: if_splits)
    from accept_result [OF acc] show ?thesis
      by (cases "am_duplicate a") (auto simp: Inr m' inp' queued_row_def notify_def)
  qed
qed

lemma submission_admitted_witness:
  "\<exists>a m'. submit_input sample_config 9 ''s3'' ''c'' (human_input ''k3'' [\<lparr>tx_type = ''text'', tx_text = ''hi''\<rparr>]) working = (Inr a, m')
     \<and> length (db_submissions (mg_db m')) = Suc (length (db_submissions (mg_db working)))"
proof -
  let ?run = "submit_input sample_config 9 ''s3'' ''c'' (human_input ''k3'' [\<lparr>tx_type = ''text'', tx_text = ''hi''\<rparr>]) working"
  have "map_sum (\<lambda>_. ()) am_duplicate (fst ?run) = Inr False" by code_simp
  then obtain a m' where run: "?run = (Inr a, m')" and new: "\<not> am_duplicate a"
    by (cases ?run, cases "fst ?run") auto
  from submission_admitted [OF run] new show ?thesis by (intro exI [of _ a] exI [of _ m'] conjI run) auto
qed

subsection \<open>Ending a run\<close>

lemma change_hit: "x \<in> set (change p f rs) \<Longrightarrow> p x \<Longrightarrow> \<exists>z. x = f z"
  by (auto simp: change_def split: if_splits)

text \<open>After a stop request, a runner that returns an error leaves the run recorded as stopped:
  its submission and its run are stopped, none of its tool calls stays open, the run is no longer
  registered, and its slot is free.\<close>

theorem stopped_run_recorded:
  assumes "manager_stop_run cid m = (Inr r, m1)" and "store_stop_run now ids r (mg_db m1) = Inr (d', evs)"
    and "end_work cfg now ids cid (Inl e) m1 = m2"
  shows "mg_db m2 = d' \<and> mg_runs m2 cid = None \<and> mg_active m2 = mg_active m - 1
     \<and> (\<forall>x \<in> set (db_submissions d'). sr_id x = run_inbound r \<longrightarrow> sr_status x = Stopped)
     \<and> (\<forall>x \<in> set (db_runs d'). rr_id x = run_id r \<longrightarrow> rr_status x = Stopped \<and> rr_completed x = Some now)
     \<and> (\<forall>t \<in> set (db_tools d'). tr_run t = run_id r \<longrightarrow> tr_status t \<noteq> Requested)"
proof -
  obtain r1 m0 where live: "live_conversation cid m = (r1, m0)" by (cases "live_conversation cid m")
  note frame = live_conversation_frame [OF live]
  obtain a where a: "r = cl_run (ar_claim a)" "m1 = m0\<lparr>mg_runs := (mg_runs m0)(cid \<mapsto> a\<lparr>ar_stopped := True\<rparr>)\<rparr>"
    using assms(1) by (auto simp: manager_stop_run_def live split: sum.splits option.splits)
  have "settlement now ids (a\<lparr>ar_stopped := True\<rparr>) (and_then (resolve_agent cfg (ar_claim a)) (\<lambda>_. Inl e))
      = (''runtime: persist stopped run '' @ run_id r, store_stop_run now ids r)"
    by (cases "resolve_agent cfg (ar_claim a)") (simp_all add: settlement_def Let_def a(1))
  then have m2: "mg_db m2 = d'" "mg_runs m2 cid = None" "mg_active m2 = mg_active m - 1"
    using assms(2,3) frame by (auto simp: end_work_def a(2) Let_def)
  note effect = end_run_effect [OF assms(2) [unfolded store_stop_run_def]]
  have "sr_status x = Stopped" if mem: "x \<in> set (db_submissions d')" "sr_id x = run_inbound r" for x
    using change_hit [OF mem(1) [unfolded effect(1)]] mem(2) by auto
  moreover have "rr_status x = Stopped \<and> rr_completed x = Some now" if mem: "x \<in> set (db_runs d')" "rr_id x = run_id r" for x
    using change_hit [OF mem(1) [unfolded effect(2)]] mem(2) by auto
  ultimately show ?thesis using m2 effect(3) by blast
qed

lemma stopped_run_recorded_witness:
  "\<exists>r m1. manager_stop_run ''c'' working = (Inr r, m1) \<and> run_id r = ''r1''
     \<and> mg_runs (end_work sample_config 6 (\<lambda>_. ''n'') ''c'' (Inl ''cancelled'') m1) ''c'' = None"
proof -
  have "map_sum (\<lambda>_. ()) run_id (fst (manager_stop_run ''c'' working)) = Inr ''r1''" by code_simp
  then obtain r m1 where st: "manager_stop_run ''c'' working = (Inr r, m1)" "run_id r = ''r1''"
    by (cases "manager_stop_run ''c'' working", cases "fst (manager_stop_run ''c'' working)") auto
  have "case manager_stop_run ''c'' working of (Inl e, m1) \<Rightarrow> False
      | (Inr r, m1) \<Rightarrow> (case store_stop_run 6 (\<lambda>_. ''n'') r (mg_db m1) of Inl e \<Rightarrow> False | Inr _ \<Rightarrow> True)" by code_simp
  then obtain d' evs where "store_stop_run 6 (\<lambda>_. ''n'') r (mg_db m1) = Inr (d', evs)"
    using st by (auto split: sum.splits)
  from stopped_run_recorded [OF st(1) this refl] st show ?thesis by blast
qed

text \<open>A run never executes under another definition than the one its submission was accepted
  under: a resolved definition has the conversation's agent and the run's revision, and when none
  resolves the run fails with that reason whatever a runner would have answered.\<close>

theorem revision_never_substituted:
  assumes "mg_runs m cid = Some a" and "\<not> ar_stopped a" and r: "r = cl_run (ar_claim a)"
  shows "case resolve_agent cfg (ar_claim a) of
      Inr d \<Rightarrow> ad_id d = cv_agent_id (cl_conversation (ar_claim a)) \<and> cf_rev cfg d = run_revision r
    | Inl e \<Rightarrow> (case store_fail_run now ids r e (mg_db m) of
          Inr (d', evs) \<Rightarrow> mg_db (end_work cfg now ids cid result m) = d'
            \<and> (\<forall>x \<in> set (db_runs d'). rr_id x = run_id r \<longrightarrow> rr_status x = Failed \<and> rr_err x = e)
        | Inl e' \<Rightarrow> mg_db (end_work cfg now ids cid result m) = mg_db m
            \<and> mg_reports (end_work cfg now ids cid result m) = mg_reports m @ [(''runtime: persist failed run '' @ run_id r, e')])"
proof (cases "resolve_agent cfg (ar_claim a)")
  case (Inr d)
  then show ?thesis by (auto simp: resolve_agent_def Let_def r split: sum.splits if_splits)
next
  case (Inl e)
  have st: "settlement now ids a (Inl e) = (''runtime: persist failed run '' @ run_id r, store_fail_run now ids r e)"
    using assms(2) by (simp add: settlement_def Let_def r)
  show ?thesis
  proof (cases "store_fail_run now ids r e (mg_db m)")
    case (Inl e')
    with \<open>resolve_agent cfg (ar_claim a) = Inl e\<close> assms(1) st show ?thesis
      by (simp add: end_work_def Let_def report_def)
  next
    case (Inr w)
    obtain d' evs where w: "w = (d', evs)" by (cases w)
    note effect = end_run_effect [OF Inr [unfolded w store_fail_run_def]]
    have "rr_status x = Failed \<and> rr_err x = e" if mem: "x \<in> set (db_runs d')" "rr_id x = run_id r" for x
      using change_hit [OF mem(1) [unfolded effect(2)]] mem(2) by auto
    with Inr w \<open>resolve_agent cfg (ar_claim a) = Inl e\<close> assms(1) st show ?thesis
      by (simp add: end_work_def Let_def)
  qed
qed

lemma revision_never_substituted_witness:
  "\<exists>a. mg_runs working ''c'' = Some a \<and> \<not> ar_stopped a
     \<and> (case resolve_agent sample_config (ar_claim a) of
          Inr d \<Rightarrow> ad_id d = cv_agent_id (cl_conversation (ar_claim a)) | Inl e \<Rightarrow> True)"
proof -
  have "map_option ar_stopped (mg_runs working ''c'') = Some False" by code_simp
  then obtain a where a: "mg_runs working ''c'' = Some a" "\<not> ar_stopped a" by auto
  from revision_never_substituted [OF a refl, of sample_config] a show ?thesis
    by (intro exI [of _ a]) (auto split: sum.splits)
qed

subsection \<open>Dispatching everything that may run\<close>

text \<open>C40. A dispatch of an open manager claims until all slots are used or no queued submission may
  run; otherwise it has reported why a claim failed.\<close>

theorem dispatch_exhausts:
  assumes "\<not> mg_closed m" and "mg_active m \<le> max_concurrent cfg"
  shows "mg_active (manager_dispatch cfg now ids k m) = max_concurrent cfg
     \<or> next_runnable (mg_db (manager_dispatch cfg now ids k m)) = None
     \<or> (\<exists>e. mg_reports (manager_dispatch cfg now ids k m) = mg_reports m @ [(''runtime: claim runnable work'', e)])"
  using assms
proof (induction cfg now ids k m rule: manager_dispatch.induct)
  case (1 cfg now ids k m)
  obtain m1 again where once: "dispatch_once cfg now (ids k) m = (m1, again)" by (cases "dispatch_once cfg now (ids k) m")
  show ?case
  proof (cases again)
    case True
    have "\<not> mg_closed m1" "mg_reports m1 = mg_reports m"
      using once True 1(2)
      by (auto simp: dispatch_once_def reserve_slot_def announce_def register_def Let_def split: if_splits sum.splits prod.splits option.splits)
    moreover have "mg_active m1 \<le> max_concurrent cfg"
      using dispatch_once_slots [of cfg now "ids k" m m1] once True by simp
    ultimately show ?thesis
      using 1(1) [OF once [symmetric] True] once True by (simp add: manager_dispatch.simps [of _ _ _ _ m])
  next
    case False
    then have "manager_dispatch cfg now ids k m = m1" using once by (simp add: manager_dispatch.simps [of _ _ _ _ m])
    moreover have "mg_active m1 = max_concurrent cfg \<or> next_runnable (mg_db m1) = None
        \<or> (\<exists>e. mg_reports m1 = mg_reports m @ [(''runtime: claim runnable work'', e)])"
      using once False 1(2,3)
      by (auto simp: dispatch_once_def reserve_slot_def release_slot_def report_def Let_def
          split: if_splits sum.splits prod.splits option.splits dest!: claim_none)
    ultimately show ?thesis by simp
  qed
qed

lemma dispatch_exhausts_witness:
  "mg_active (manager_dispatch sample_config 4 (\<lambda>k. ''r'') 0 opened) = 1 \<and> \<not> mg_closed opened"
proof -
  have ready: "\<not> mg_closed opened" "mg_active opened \<le> max_concurrent sample_config" by code_simp+
  have facts: "next_runnable (mg_db (manager_dispatch sample_config 4 (\<lambda>k. ''r'') 0 opened)) = None
      \<longrightarrow> mg_active (manager_dispatch sample_config 4 (\<lambda>k. ''r'') 0 opened) = 1"
    "mg_reports (manager_dispatch sample_config 4 (\<lambda>k. ''r'') 0 opened) = []" "max_concurrent sample_config = 1"
    by code_simp+
  from dispatch_exhausts [OF ready, of 4 "\<lambda>k. ''r''" 0] facts ready show ?thesis by auto
qed

end
