(* ===== verification/Environment_State.thy ===== *)
theory Environment_State
  imports Store_Ops
begin

section \<open>Workspaces, placements and checkpoint entries (environment/state.go, runtime/sqlite/store.go)\<close>

text \<open>
  The part of the runtime database that execution environments use: one row per workspace,
  its checkpoint history, and at most one placement per workspace. The tables are apart from
  those of conversations, so they have a record of their own. Each operation is a function
  to an error or the new tables, with the schema's constraints checked.
\<close>

subsection \<open>Values\<close>

definition strategy_archive :: string where "strategy_archive = ''archive/v1''"
definition strategy_git :: string where "strategy_git = ''git/v1''"
definition strategy_empty :: string where "strategy_empty = ''empty''"

record workspace_state =
  ws_id :: string
  ws_strategy :: string
  ws_source :: string
  ws_base :: string
  ws_generation :: int
  ws_created :: int
  ws_updated :: int

definition state_active :: string where "state_active = ''active''"
definition state_idle :: string where "state_idle = ''idle''"
definition state_recovery :: string where "state_recovery = ''recovery''"

record env_state =
  es_workspace :: string
  es_provider :: string
  es_environment :: string
  es_template :: string
  es_network :: string
  es_status :: string
  es_run :: string
  es_idle_until :: "int option"
  es_expires :: int
  es_updated :: int

datatype checkpoint_kind = CheckpointBase | CheckpointRun | CheckpointRestore

record checkpoint =
  ck_workspace :: string
  ck_seq :: int
  ck_ref :: string
  ck_kind :: checkpoint_kind
  ck_run :: string
  ck_restored :: int
  ck_size :: int
  ck_created :: int

datatype state_error = StateNotFound | StateConstraint string | StateError string

record state_db =
  sd_workspaces :: "workspace_state list"
  sd_checkpoints :: "checkpoint list"
  sd_environments :: "env_state list"

definition empty_state :: state_db where
  "empty_state = \<lparr>sd_workspaces = [], sd_checkpoints = [], sd_environments = []\<rparr>"

subsection \<open>Workspaces\<close>

definition read_workspace :: "string \<Rightarrow> state_db \<Rightarrow> state_error + workspace_state" where
  "read_workspace i s =
     (case List.find (\<lambda>w. ws_id w = i) (sd_workspaces s) of None \<Rightarrow> Inl StateNotFound | Some w \<Rightarrow> Inr w)"

text \<open>An upsert keeps the time of creation.\<close>

definition save_workspace :: "workspace_state \<Rightarrow> state_db \<Rightarrow> state_error + state_db" where
  "save_workspace w s =
     (if ws_id w = [] then Inl (StateConstraint ''workspaces.id'')
      else if ws_strategy w = [] then Inl (StateConstraint ''workspaces.strategy'')
      else if ws_generation w \<le> 0 then Inl (StateConstraint ''workspaces.setup_generation'')
      else if \<exists>x \<in> set (sd_workspaces s). ws_id x = ws_id w
      then Inr (s\<lparr>sd_workspaces := change (\<lambda>x. ws_id x = ws_id w) (\<lambda>x. w\<lparr>ws_created := ws_created x\<rparr>) (sd_workspaces s)\<rparr>)
      else Inr (s\<lparr>sd_workspaces := sd_workspaces s @ [w]\<rparr>))"

subsection \<open>The checkpoint history\<close>

text \<open>The rows of a workspace are appended with increasing sequence numbers, so the order of
  the table is the order of the history.\<close>

definition checkpoints_of :: "string \<Rightarrow> state_db \<Rightarrow> checkpoint list" where
  "checkpoints_of i s = sort_key ck_seq (filter (\<lambda>c. ck_workspace c = i) (sd_checkpoints s))"

definition max_seq :: "string \<Rightarrow> state_db \<Rightarrow> int" where
  "max_seq i s = foldr max (map ck_seq (filter (\<lambda>c. ck_workspace c = i) (sd_checkpoints s))) 0"

definition append_checkpoint :: "checkpoint \<Rightarrow> state_db \<Rightarrow> state_error + (state_db \<times> checkpoint)" where
  "append_checkpoint c s =
     (let c' = c\<lparr>ck_seq := max_seq (ck_workspace c) s + 1\<rparr> in
      if \<not> (\<exists>w \<in> set (sd_workspaces s). ws_id w = ck_workspace c)
      then Inl (StateConstraint ''workspace_checkpoints.workspace_id'')
      else if ck_ref c = [] then Inl (StateConstraint ''workspace_checkpoints.ref'')
      else if ck_size c < 0 then Inl (StateConstraint ''workspace_checkpoints.size_bytes'')
      else Inr (s\<lparr>sd_checkpoints := sd_checkpoints s @ [c']\<rparr>, c'))"

definition current_checkpoint :: "string \<Rightarrow> state_db \<Rightarrow> state_error + checkpoint" where
  "current_checkpoint i s =
     (case checkpoints_of i s of [] \<Rightarrow> Inl StateNotFound | c # cs \<Rightarrow> Inr (last (c # cs)))"

text \<open>The deletions are one transaction; the newest entry at the time of each is left alone.\<close>

definition delete_checkpoint :: "string \<Rightarrow> state_db \<Rightarrow> int \<Rightarrow> state_db" where
  "delete_checkpoint i s n =
     s\<lparr>sd_checkpoints := filter (\<lambda>c. \<not> (ck_workspace c = i \<and> ck_seq c = n \<and> n < max_seq i s)) (sd_checkpoints s)\<rparr>"

definition delete_checkpoints :: "string \<Rightarrow> int list \<Rightarrow> state_db \<Rightarrow> state_db" where
  "delete_checkpoints i ns s = foldl (delete_checkpoint i) s ns"

subsection \<open>Placements\<close>

definition read_environment :: "string \<Rightarrow> state_db \<Rightarrow> state_error + env_state" where
  "read_environment i s =
     (case List.find (\<lambda>e. es_workspace e = i) (sd_environments s) of None \<Rightarrow> Inl StateNotFound | Some e \<Rightarrow> Inr e)"

text \<open>The CHECK constraints: the fields that go with each status.\<close>

definition placement_ok :: "env_state \<Rightarrow> bool" where
  "placement_ok e \<longleftrightarrow>
     es_network e \<in> {''disabled'', ''enabled''}
     \<and> (es_status e = state_active \<and> es_run e \<noteq> [] \<and> es_idle_until e = None
        \<or> es_status e = state_idle \<and> es_run e = [] \<and> es_idle_until e \<noteq> None
        \<or> es_status e = state_recovery \<and> es_run e = [] \<and> es_idle_until e = None)"

definition save_environment :: "env_state \<Rightarrow> state_db \<Rightarrow> state_error + state_db" where
  "save_environment e s =
     (if \<not> (\<exists>w \<in> set (sd_workspaces s). ws_id w = es_workspace e)
      then Inl (StateConstraint ''execution_environments.workspace_id'')
      else if \<not> placement_ok e then Inl (StateConstraint ''execution_environments'')
      else if \<exists>x \<in> set (sd_environments s). es_workspace x \<noteq> es_workspace e
                \<and> es_provider x = es_provider e \<and> es_environment x = es_environment e
      then Inl (StateConstraint ''execution_environments_provider_id'')
      else if \<exists>x \<in> set (sd_environments s). es_workspace x = es_workspace e
      then Inr (s\<lparr>sd_environments := change (\<lambda>x. es_workspace x = es_workspace e) (\<lambda>_. e) (sd_environments s)\<rparr>)
      else Inr (s\<lparr>sd_environments := sd_environments s @ [e]\<rparr>))"

definition delete_environment :: "string \<Rightarrow> string \<Rightarrow> state_db \<Rightarrow> state_db" where
  "delete_environment i env s =
     s\<lparr>sd_environments := filter (\<lambda>e. \<not> (es_workspace e = i \<and> es_environment e = env)) (sd_environments s)\<rparr>"

definition placement_expired :: "int \<Rightarrow> env_state \<Rightarrow> bool" where
  "placement_expired now e \<longleftrightarrow>
     es_status e = state_idle \<and> (case es_idle_until e of Some t \<Rightarrow> t \<le> now | None \<Rightarrow> False) \<or> es_expires e \<le> now"

definition expired_environments :: "string \<Rightarrow> int \<Rightarrow> int \<Rightarrow> state_db \<Rightarrow> env_state list" where
  "expired_environments provider now limit s =
     take (if limit \<le> 0 then 100 else nat limit)
       (sort_key (\<lambda>e. (case es_idle_until e of Some t \<Rightarrow> t | None \<Rightarrow> es_expires e, es_workspace e))
         (filter (\<lambda>e. es_provider e = provider \<and> placement_expired now e) (sd_environments s)))"

subsection \<open>The tables stay well-formed\<close>

definition placements_ok :: "state_db \<Rightarrow> bool" where
  "placements_ok s \<longleftrightarrow>
     distinct (map es_workspace (sd_environments s))
     \<and> distinct (map (\<lambda>e. (es_provider e, es_environment e)) (sd_environments s))
     \<and> (\<forall>e \<in> set (sd_environments s). placement_ok e)"

lemma placements_ok_empty: "placements_ok empty_state"
  by (simp add: placements_ok_def empty_state_def)

lemma distinct_change:
  assumes "distinct (map k xs)" and "\<And>x y. x \<in> set xs \<Longrightarrow> y \<in> set xs \<Longrightarrow> p x \<Longrightarrow> p y \<Longrightarrow> x = y"
    and "\<And>x. x \<in> set xs \<Longrightarrow> \<not> p x \<Longrightarrow> k x \<noteq> v" and "\<And>x. k (f x) = v"
  shows "distinct (map k (change p f xs))"
  using assms
proof (induction xs)
  case (Cons x xs)
  have tail: "distinct (map k (change p f xs))"
    by (rule Cons.IH) (use Cons.prems in auto)
  have img: "k ` set (change p f xs) \<subseteq> k ` {y \<in> set xs. \<not> p y} \<union> (if \<exists>y \<in> set xs. p y then {v} else {})"
    using Cons.prems(4) by (auto simp: change_def)
  have "k (if p x then f x else x) \<notin> k ` set (change p f xs)"
  proof (cases "p x")
    case True
    then have "\<not> (\<exists>y \<in> set xs. p y)"
      using Cons.prems(1,2) by (metis distinct.simps(2) distinct_map list.set_intros)
    then have "k ` set (change p f xs) \<subseteq> k ` {y \<in> set xs. \<not> p y}" using img by simp
    moreover have "v \<notin> k ` {y \<in> set xs. \<not> p y}" using Cons.prems(3) by force
    ultimately show ?thesis using True Cons.prems(4) by auto
  next
    case False
    then show ?thesis using img Cons.prems(1,3) by (auto split: if_splits)
  qed
  moreover have "change p f (x # xs) = (if p x then f x else x) # change p f xs" by (simp add: change_def)
  ultimately show ?case using tail by simp
qed (simp add: change_def)

lemma save_environment_ok:
  assumes "save_environment e s = Inr s'" and ok: "placements_ok s"
  shows "placements_ok s'"
proof (cases "\<exists>x \<in> set (sd_environments s). es_workspace x = es_workspace e")
  case True
  with assms(1) have s': "s' = s\<lparr>sd_environments := change (\<lambda>x. es_workspace x = es_workspace e) (\<lambda>_. e) (sd_environments s)\<rparr>"
    and e: "placement_ok e" and apart: "\<forall>x \<in> set (sd_environments s). es_workspace x \<noteq> es_workspace e
      \<longrightarrow> (es_provider x, es_environment x) \<noteq> (es_provider e, es_environment e)"
    by (auto simp: save_environment_def split: if_splits)
  have one: "x = y" if "x \<in> set (sd_environments s)" "y \<in> set (sd_environments s)" "es_workspace x = es_workspace e"
    "es_workspace y = es_workspace e" for x y
    using ok that by (auto simp: placements_ok_def distinct_map inj_on_def)
  have "distinct (map es_workspace (sd_environments s'))"
    using ok one unfolding s' by (auto simp: placements_ok_def intro!: distinct_change)
  moreover have "distinct (map (\<lambda>e. (es_provider e, es_environment e)) (sd_environments s'))"
    using ok one apart unfolding s' by (auto simp: placements_ok_def intro!: distinct_change)
  moreover have "\<forall>x \<in> set (sd_environments s'). placement_ok x"
    using ok e by (auto simp: placements_ok_def s' change_def)
  ultimately show ?thesis by (simp add: placements_ok_def)
next
  case False
  with assms(1) have "s' = s\<lparr>sd_environments := sd_environments s @ [e]\<rparr>" and "placement_ok e"
    and "\<forall>x \<in> set (sd_environments s). (es_provider x, es_environment x) \<noteq> (es_provider e, es_environment e)"
    by (auto simp: save_environment_def split: if_splits)
  with ok False show ?thesis by (auto simp: placements_ok_def)
qed

lemma delete_environment_ok: "placements_ok s \<Longrightarrow> placements_ok (delete_environment i env s)"
  by (auto simp: placements_ok_def delete_environment_def distinct_map inj_on_def)

end
