(* ===== verification/Archive.thy ===== *)
theory Archive
  imports Environment_State
begin

section \<open>The archive store (runtime/checkpoint/store.go)\<close>

text \<open>
  Content-addressed archives on a file system, here the list of the files under the store's
  directory by directory and name. The digest (SHA-256) is a parameter; what the code relies
  on is that a digest has 32 bytes. Temporary files, which are gone when an operation
  returns, permissions, syncing and I/O errors are left out.
\<close>

subsection \<open>Hexadecimal (encoding/hex)\<close>

definition hex_byte :: "char \<Rightarrow> string" where
  "hex_byte c = [hex_digit (byte c div 16), hex_digit (byte c mod 16)]"

definition hex_encode :: "string \<Rightarrow> string" where
  "hex_encode s = concat (map hex_byte s)"

fun hex_decode :: "string \<Rightarrow> string option" where
  "hex_decode [] = Some []"
| "hex_decode [c] = None"
| "hex_decode (a # b # s) =
     (case (hex_value a, hex_value b) of
        (Some x, Some y) \<Rightarrow> map_option (\<lambda>r. char_of (16 * x + y) # r) (hex_decode s)
      | _ \<Rightarrow> None)"

lemma byte_bound: "byte c < 256"
  by (simp add: byte_def)

lemma hex_decode_encode: "hex_decode (hex_encode s) = Some s"
proof (induction s)
  case (Cons c s)
  have "byte c div 16 < 16" using less_mult_imp_div_less [of "byte c" 16 16] byte_bound [of c] by simp
  then have digits: "hex_value (hex_digit (byte c div 16)) = Some (byte c div 16)"
    "hex_value (hex_digit (byte c mod 16)) = Some (byte c mod 16)"
    by (simp_all add: hex_value_digit)
  have "char_of (16 * (byte c div 16) + byte c mod 16) = c" by (simp add: byte_def)
  with digits Cons.IH show ?case by (simp add: hex_encode_def hex_byte_def)
qed (simp add: hex_encode_def)

subsection \<open>Files\<close>

type_synonym files = "((string \<times> string) \<times> string) list"

definition max_int64 :: int where "max_int64 = 2 ^ 63 - 1"

definition sha_prefix :: string where "sha_prefix = ''sha256:''"

definition tar_suffix :: string where "tar_suffix = ''.tar''"

definition archive_dir :: "(string \<Rightarrow> string) \<Rightarrow> string \<Rightarrow> string" where
  "archive_dir sha wid = hex_encode (sha wid)"

text \<open>The name and the digest that a reference stands for.\<close>

definition archive_name :: "string \<Rightarrow> string \<Rightarrow> error + (string \<times> string)" where
  "archive_name wid ref =
     (if wid = [] then Inl ''runtime: workspace ID is required''
      else case index_of '':'' ref of
        None \<Rightarrow> Inl ''runtime: invalid workspace checkpoint reference''
      | Some k \<Rightarrow> (case hex_decode (drop (Suc k) ref) of
          None \<Rightarrow> Inl ''runtime: invalid workspace checkpoint reference''
        | Some digest \<Rightarrow> if take k ref \<noteq> ''sha256'' \<or> length digest \<noteq> 32
            then Inl ''runtime: invalid workspace checkpoint reference''
            else Inr (drop (Suc k) ref @ tar_suffix, digest)))"

definition request_ok :: "string \<Rightarrow> int \<Rightarrow> bool" where
  "request_ok wid limit \<longleftrightarrow> \<not> (wid = [] \<or> limit < 0 \<or> limit = max_int64)"

definition write_file :: "string \<times> string \<Rightarrow> string \<Rightarrow> files \<Rightarrow> files" where
  "write_file k content fs = (k, content) # filter (\<lambda>f. fst f \<noteq> k) fs"

definition put_archive :: "(string \<Rightarrow> string) \<Rightarrow> string \<Rightarrow> string \<Rightarrow> int \<Rightarrow> files \<Rightarrow> error + (files \<times> string \<times> int)" where
  "put_archive sha wid content limit fs =
     (if \<not> request_ok wid limit then Inl ''runtime: invalid workspace checkpoint request''
      else if int (length content) > limit
      then Inl (''runtime: write workspace checkpoint: runtime: workspace checkpoint exceeds '' @ show_int limit @ '' bytes'')
      else let encoded = hex_encode (sha content) in
        Inr (write_file (archive_dir sha wid, encoded @ tar_suffix) content fs, sha_prefix @ encoded, int (length content)))"

datatype archive_error = ArchiveMissing | ArchiveError error

definition get_archive :: "(string \<Rightarrow> string) \<Rightarrow> string \<Rightarrow> string \<Rightarrow> int \<Rightarrow> files \<Rightarrow> archive_error + string" where
  "get_archive sha wid ref limit fs =
     (if \<not> request_ok wid limit then Inl (ArchiveError ''runtime: invalid workspace checkpoint request'')
      else case archive_name wid ref of
        Inl e \<Rightarrow> Inl (ArchiveError e)
      | Inr (name, digest) \<Rightarrow> (case map_of fs (archive_dir sha wid, name) of
          None \<Rightarrow> Inl ArchiveMissing
        | Some content \<Rightarrow>
            if int (length content) > limit
            then Inl (ArchiveError (''runtime: workspace checkpoint exceeds '' @ show_int limit @ '' bytes''))
            else if sha content \<noteq> digest then Inl (ArchiveError ''runtime: workspace checkpoint digest mismatch'')
            else Inr content))"

fun archive_names :: "string \<Rightarrow> string list \<Rightarrow> error + string list" where
  "archive_names wid [] = Inr []"
| "archive_names wid (r # rs) =
     and_then (archive_name wid r) (\<lambda>(name, _). and_then (archive_names wid rs) (\<lambda>names. Inr (name # names)))"

definition prune_archives :: "(string \<Rightarrow> string) \<Rightarrow> string \<Rightarrow> string list \<Rightarrow> files \<Rightarrow> error + files" where
  "prune_archives sha wid refs fs =
     (if wid = [] then Inl ''runtime: workspace ID is required''
      else and_then (archive_names wid refs) (\<lambda>names.
        Inr (filter (\<lambda>((dir, name), _). dir \<noteq> archive_dir sha wid \<or> name \<in> set names \<or> \<not> has_suffix name tar_suffix) fs)))"

subsection \<open>What the store promises\<close>

lemma write_file_same [simp]: "map_of (write_file k content fs) k = Some content"
  by (simp add: write_file_def)

lemma write_file_other: "k' \<noteq> k \<Longrightarrow> map_of (write_file k content fs) k' = map_of fs k'"
proof -
  assume "k' \<noteq> k"
  then have "map_of (filter (\<lambda>f. fst f \<noteq> k) fs) k' = map_of fs k'" by (induction fs) auto
  with \<open>k' \<noteq> k\<close> show ?thesis by (simp add: write_file_def)
qed

lemma archive_name_ref:
  assumes "wid \<noteq> []" and "length (sha content) = 32"
  shows "archive_name wid (sha_prefix @ hex_encode (sha content)) = Inr (hex_encode (sha content) @ tar_suffix, sha content)"
proof -
  have "index_of '':'' (sha_prefix @ s) = Some 6" for s by (simp add: sha_prefix_def has_prefix_iff)
  then show ?thesis using assms by (simp add: archive_name_def hex_decode_encode sha_prefix_def)
qed

text \<open>C29. What was put is what is got back: after an archive is stored, reading its reference in the
  same workspace returns exactly its content, whatever else is stored; and every archive that
  could be read before still reads the same. A digest has 32 bytes and does not collide with
  that of another stored archive.\<close>

theorem archive_roundtrip:
  assumes put: "put_archive sha wid content limit fs = Inr (fs', ref, n)" and digest: "length (sha content) = 32"
    and apart: "\<forall>f \<in> set fs. sha (snd f) = sha content \<longrightarrow> snd f = content"
  shows "n = int (length content) \<and> n \<le> limit
     \<and> (\<forall>bound. n \<le> bound \<and> bound < max_int64 \<longrightarrow> get_archive sha wid ref bound fs' = Inr content)
     \<and> (\<forall>wid' ref' bound c. get_archive sha wid' ref' bound fs = Inr c \<longrightarrow> get_archive sha wid' ref' bound fs' = Inr c)"
proof -
  have wid: "wid \<noteq> []" and n: "n = int (length content)" "n \<le> limit" and ref: "ref = sha_prefix @ hex_encode (sha content)"
    and fs': "fs' = write_file (archive_dir sha wid, hex_encode (sha content) @ tar_suffix) content fs"
    using put by (auto simp: put_archive_def request_ok_def Let_def split: if_splits)
  have reads: "get_archive sha wid ref bound fs' = Inr content" if "n \<le> bound" "bound < max_int64" for bound
    using that wid by (simp add: get_archive_def request_ok_def ref archive_name_ref [where sha = sha, OF wid digest] fs' n)
  have other: "get_archive sha wid' ref' bound fs' = Inr c" if got: "get_archive sha wid' ref' bound fs = Inr c"
    for wid' ref' bound c
  proof -
    obtain name dig where name: "archive_name wid' ref' = Inr (name, dig)"
      and c: "map_of fs (archive_dir sha wid', name) = Some c" "sha c = dig" and rest: "request_ok wid' bound" "\<not> int (length c) > bound"
      using got by (auto simp: get_archive_def split: if_splits sum.splits option.splits)
    have "map_of fs' (archive_dir sha wid', name) = Some c"
    proof (cases "(archive_dir sha wid', name) = (archive_dir sha wid, hex_encode (sha content) @ tar_suffix)")
      case True
      obtain enc where enc: "name = enc @ tar_suffix" "hex_decode enc = Some dig"
        using name by (auto simp: archive_name_def split: if_splits option.splits)
      with True have "dig = sha content" by (auto simp: hex_decode_encode)
      with c(2) apart map_of_SomeD [OF c(1)] have "c = content" by force
      with True show ?thesis by (simp add: fs')
    next
      case False
      with c(1) show ?thesis by (simp add: fs' write_file_other)
    qed
    with name c(2) rest show ?thesis by (simp add: get_archive_def)
  qed
  show ?thesis using n reads other by blast
qed

lemma archive_roundtrip_witness:
  "\<exists>fs' ref n. put_archive (\<lambda>s. take 32 (s @ replicate 32 CHR 0x00)) ''w'' ''abc'' 10 [] = Inr (fs', ref, n)
     \<and> get_archive (\<lambda>s. take 32 (s @ replicate 32 CHR 0x00)) ''w'' ref 3 fs' = Inr ''abc''"
proof -
  let ?sha = "\<lambda>s. take 32 (s @ replicate 32 CHR 0x00)"
  obtain fs' ref where put: "put_archive ?sha ''w'' ''abc'' 10 [] = Inr (fs', ref, 3)"
    by (simp add: put_archive_def request_ok_def max_int64_def Let_def)
  have "length (?sha ''abc'') = 32" by simp
  moreover have "\<forall>f \<in> set []. ?sha (snd f) = ?sha ''abc'' \<longrightarrow> snd f = ''abc''" by simp
  ultimately have "(3::int) \<le> 3 \<and> 3 < max_int64 \<longrightarrow> get_archive ?sha ''w'' ref 3 fs' = Inr ''abc''"
    using archive_roundtrip [where sha = ?sha, OF put] by blast
  with put show ?thesis by (intro exI [of _ fs'] exI [of _ ref] exI [of _ 3]) (simp add: max_int64_def)
qed

end
