(* ===== verification/Checkpoints.thy ===== *)
theory Checkpoints
  imports Archive "HOL-Library.Multiset"
begin

section \<open>Checkpoint retention (environment/checkpoints.go)\<close>

text \<open>
  Which entries of a workspace's history expire. The map from a sequence number to whether
  it is kept is a function to bool. Times are microseconds since the epoch, so a UTC day is
  a quotient. Sizes are unbounded integers: an archive is a file, whose size times four is
  far below \<open>2^63\<close>.
\<close>

definition retain_recent :: nat where "retain_recent = 10"
definition retain_daily :: int where "retain_daily = 14"
definition retain_bytes :: int where "retain_bytes = 1073741824"
definition retain_copies :: int where "retain_copies = 4"

subsection \<open>Entries kept by count and by day\<close>

definition day_of :: "int \<Rightarrow> int" where
  "day_of t = t div 86400000000"

definition note_day :: "int \<Rightarrow> (int \<Rightarrow> checkpoint option) \<Rightarrow> checkpoint \<Rightarrow> (int \<Rightarrow> checkpoint option)" where
  "note_day today m c =
     (let day = day_of (ck_created c) in
      if day < today - (retain_daily - 1) \<or> today < day then m
      else case m day of
        None \<Rightarrow> m(day \<mapsto> c)
      | Some n \<Rightarrow> if ck_seq c > ck_seq n then m(day \<mapsto> c) else m)"

definition newest_of_day :: "checkpoint list \<Rightarrow> int \<Rightarrow> (int \<Rightarrow> checkpoint option)" where
  "newest_of_day h today = foldl (note_day today) (\<lambda>_. None) h"

definition keep_first :: "checkpoint list \<Rightarrow> int \<Rightarrow> int \<Rightarrow> bool" where
  "keep_first h now n \<longleftrightarrow>
     n \<in> set (map ck_seq (drop (length h - retain_recent) h))
     \<or> (\<exists>c \<in> set h. ck_kind c = CheckpointBase \<and> ck_seq c = n)
     \<or> (\<exists>day \<in> set [day_of now - (retain_daily - 1)..day_of now].
          map_option ck_seq (newest_of_day h (day_of now) day) = Some n)"

subsection \<open>The byte budget\<close>

record archive =
  ar_ref :: string
  ar_size :: int
  ar_last :: int
  ar_protected :: bool

definition vital :: "int \<Rightarrow> checkpoint \<Rightarrow> bool" where
  "vital current c \<longleftrightarrow> ck_seq c = current \<or> ck_kind c = CheckpointBase"

fun add_use :: "int \<Rightarrow> checkpoint \<Rightarrow> archive list \<Rightarrow> archive list" where
  "add_use current c [] =
     [\<lparr>ar_ref = ck_ref c, ar_size = ck_size c, ar_last = ck_seq c, ar_protected = vital current c\<rparr>]"
| "add_use current c (a # as) =
     (if ar_ref a = ck_ref c
      then a\<lparr>ar_last := ck_seq c, ar_protected := ar_protected a \<or> vital current c\<rparr> # as
      else a # add_use current c as)"

definition collect_archives :: "int \<Rightarrow> (int \<Rightarrow> bool) \<Rightarrow> checkpoint list \<Rightarrow> archive list" where
  "collect_archives current keep h =
     foldl (\<lambda>as c. if keep (ck_seq c) then add_use current c as else as) [] h"

definition drop_ref :: "checkpoint list \<Rightarrow> string \<Rightarrow> (int \<Rightarrow> bool) \<Rightarrow> int \<Rightarrow> bool" where
  "drop_ref h r keep n \<longleftrightarrow> keep n \<and> \<not> (\<exists>c \<in> set h. ck_ref c = r \<and> ck_seq c = n)"

fun drop_archives :: "checkpoint list \<Rightarrow> int \<Rightarrow> archive list \<Rightarrow> int \<Rightarrow> (int \<Rightarrow> bool) \<Rightarrow> (int \<Rightarrow> bool)" where
  "drop_archives h budget [] used keep = keep"
| "drop_archives h budget (a # as) used keep =
     (if used \<le> budget then keep
      else if ar_protected a then drop_archives h budget as used keep
      else drop_archives h budget as (used - ar_size a) (drop_ref h (ar_ref a) keep))"

definition byte_budget :: "checkpoint list \<Rightarrow> int" where
  "byte_budget h = max retain_bytes (retain_copies * ck_size (last h))"

definition apply_byte_budget :: "checkpoint list \<Rightarrow> (int \<Rightarrow> bool) \<Rightarrow> (int \<Rightarrow> bool)" where
  "apply_byte_budget h keep =
     (if h = [] then keep
      else let as = collect_archives (ck_seq (last h)) keep h in
        drop_archives h (byte_budget h) (sort_key ar_last as) (sum_list (map ar_size as)) keep)"

subsection \<open>Sources of kept restores\<close>

definition keep_source :: "(int \<Rightarrow> bool) \<Rightarrow> checkpoint \<Rightarrow> (int \<Rightarrow> bool)" where
  "keep_source keep c = (if keep (ck_seq c) \<and> ck_restored c \<noteq> 0 then keep(ck_restored c := True) else keep)"

definition keep_sources :: "checkpoint list \<Rightarrow> (int \<Rightarrow> bool) \<Rightarrow> (int \<Rightarrow> bool)" where
  "keep_sources h keep = foldl keep_source keep (rev h)"

definition kept :: "checkpoint list \<Rightarrow> int \<Rightarrow> int \<Rightarrow> bool" where
  "kept h now = keep_sources h (apply_byte_budget h (keep_first h now))"

definition expired_checkpoints :: "checkpoint list \<Rightarrow> int \<Rightarrow> checkpoint list" where
  "expired_checkpoints h now = filter (\<lambda>c. \<not> kept h now (ck_seq c)) h"

subsection \<open>Histories\<close>

text \<open>An ascending history whose restores point back to entries with the same archive.\<close>

definition history_ok :: "checkpoint list \<Rightarrow> bool" where
  "history_ok h \<longleftrightarrow> sorted_wrt (<) (map ck_seq h)
     \<and> (\<forall>c \<in> set h. 0 < ck_seq c \<and> 0 \<le> ck_size c \<and> (ck_restored c \<noteq> 0 \<longrightarrow> ck_restored c < ck_seq c)
          \<and> (\<forall>b \<in> set h. (ck_ref b = ck_ref c \<longrightarrow> ck_size b = ck_size c)
               \<and> (ck_restored c \<noteq> 0 \<and> ck_seq b = ck_restored c \<longrightarrow> ck_ref b = ck_ref c)))"

lemma seq_keyed: "sorted_wrt (<) (map ck_seq h) \<Longrightarrow> b \<in> set h \<Longrightarrow> c \<in> set h \<Longrightarrow> ck_seq b = ck_seq c \<Longrightarrow> b = c"
  for h :: "checkpoint list"
  using strict_sorted_iff [of "map ck_seq h"] by (auto simp: distinct_map inj_on_def)

text \<open>The references of the kept entries.\<close>

definition refs_of :: "checkpoint list \<Rightarrow> (int \<Rightarrow> bool) \<Rightarrow> string set" where
  "refs_of h keep = {ck_ref c |c. c \<in> set h \<and> keep (ck_seq c)}"

lemma finite_refs_of [simp]: "finite (refs_of h keep)"
proof -
  have "refs_of h keep \<subseteq> ck_ref ` set h" by (auto simp: refs_of_def)
  then show ?thesis using finite_subset by blast
qed

lemma refs_drop_ref:
  assumes "sorted_wrt (<) (map ck_seq h)"
  shows "refs_of h (drop_ref h r keep) = refs_of h keep - {r}"
  using seq_keyed [OF assms] unfolding refs_of_def drop_ref_def by fastforce

text \<open>The archive list describes the kept entries.\<close>

definition archive_of :: "checkpoint list \<Rightarrow> (int \<Rightarrow> bool) \<Rightarrow> int \<Rightarrow> archive \<Rightarrow> bool" where
  "archive_of h keep current a \<longleftrightarrow>
     (\<exists>c \<in> set h. keep (ck_seq c) \<and> ck_ref c = ar_ref a \<and> ck_size c = ar_size a)
     \<and> ar_protected a = (\<exists>c \<in> set h. keep (ck_seq c) \<and> ck_ref c = ar_ref a \<and> vital current c)"

lemma add_use_refs: "map ar_ref (add_use current c as) = (if ck_ref c \<in> ar_ref ` set as then map ar_ref as else map ar_ref as @ [ck_ref c])"
  by (induction as) auto

lemma add_use_member:
  assumes "a \<in> set (add_use current c as)" and "distinct (map ar_ref as)"
  shows "(\<exists>b \<in> set as. ar_ref b = ar_ref a \<and> ar_size b = ar_size a
            \<and> ar_protected a = (ar_protected b \<or> ck_ref c = ar_ref a \<and> vital current c))
     \<or> ar_ref a \<notin> ar_ref ` set as \<and> ar_ref a = ck_ref c \<and> ar_size a = ck_size c \<and> ar_protected a = vital current c"
  using assms
proof (induction as)
  case (Cons x xs)
  show ?case
  proof (cases "ar_ref x = ck_ref c")
    case True
    with Cons.prems show ?thesis by (auto split: if_splits)
  next
    case False
    with Cons show ?thesis by auto
  qed
qed auto

lemma collect_archives_ok:
  "distinct (map ar_ref (collect_archives current keep h))
   \<and> ar_ref ` set (collect_archives current keep h) = refs_of h keep
   \<and> (\<forall>a \<in> set (collect_archives current keep h). archive_of h keep current a)"
proof (induction h rule: rev_induct)
  case Nil
  then show ?case by (simp add: collect_archives_def refs_of_def)
next
  case (snoc c h)
  let ?as = "collect_archives current keep h"
  have step: "collect_archives current keep (h @ [c]) = (if keep (ck_seq c) then add_use current c ?as else ?as)"
    by (simp add: collect_archives_def)
  have refs: "refs_of (h @ [c]) keep = refs_of h keep \<union> (if keep (ck_seq c) then {ck_ref c} else {})"
    by (auto simp: refs_of_def)
  have new: "archive_of (h @ [c]) keep current a" if mem: "a \<in> set (add_use current c ?as)" "keep (ck_seq c)" for a
  proof -
    note known = snoc.IH
    from add_use_member [OF mem(1)] known
    consider (old) b where "b \<in> set ?as" "ar_ref b = ar_ref a" "ar_size b = ar_size a"
        "ar_protected a = (ar_protected b \<or> ck_ref c = ar_ref a \<and> vital current c)"
      | (fresh) "ar_ref a \<notin> refs_of h keep" "ar_ref a = ck_ref c" "ar_size a = ck_size c" "ar_protected a = vital current c"
      by blast
    then show ?thesis
    proof cases
      case old
      then have "archive_of h keep current b" using known by blast
      with old mem(2) show ?thesis by (auto simp: archive_of_def)
    next
      case fresh
      then have "\<forall>x \<in> set h. keep (ck_seq x) \<longrightarrow> ck_ref x \<noteq> ck_ref c" by (auto simp: refs_of_def)
      with fresh mem(2) show ?thesis by (auto simp: archive_of_def)
    qed
  qed
  have same: "archive_of (h @ [c]) keep current a = archive_of h keep current a" if "\<not> keep (ck_seq c)" for a
    using that by (auto simp: archive_of_def)
  have img: "ar_ref ` set (add_use current c ?as) = insert (ck_ref c) (ar_ref ` set ?as)"
    using arg_cong [OF add_use_refs [of current c ?as], of set] by (auto split: if_splits)
  show ?case
  proof (cases "keep (ck_seq c)")
    case True
    moreover have "distinct (map ar_ref (add_use current c ?as))" using snoc.IH by (simp add: add_use_refs)
    ultimately show ?thesis using snoc.IH new by (simp add: step refs img)
  next
    case False
    then show ?thesis using snoc.IH same by (simp add: step refs)
  qed
qed

subsection \<open>The budget holds\<close>

definition used_bytes :: "(string \<Rightarrow> int) \<Rightarrow> string set \<Rightarrow> int" where
  "used_bytes sz R = (\<Sum>r \<in> R. sz r)"

lemma drop_archives_budget:
  assumes "sorted_wrt (<) (map ck_seq h)" and "distinct (map ar_ref as)" and "ar_ref ` set as \<subseteq> refs_of h keep"
    and "\<forall>a \<in> set as. ar_size a = sz (ar_ref a) \<and> ar_protected a = prot (ar_ref a)"
    and "\<forall>r \<in> refs_of h keep - ar_ref ` set as. prot r"
    and "used = used_bytes sz (refs_of h keep)"
  shows "used_bytes sz (refs_of h (drop_archives h budget as used keep)) \<le> budget
     \<or> (\<forall>r \<in> refs_of h (drop_archives h budget as used keep). prot r)"
  using assms(2-)
proof (induction as arbitrary: used keep)
  case Nil
  then show ?case by simp
next
  case (Cons a as)
  show ?case
  proof (cases "used \<le> budget \<or> ar_protected a")
    case True
    then consider "used \<le> budget" | "\<not> used \<le> budget" "ar_protected a" by blast
    then show ?thesis
    proof cases
      case 1
      with Cons.prems(5) show ?thesis by simp
    next
      case 2
      have "\<forall>r \<in> refs_of h keep - ar_ref ` set as. prot r" using Cons.prems(3,4) 2(2) by auto
      with Cons.prems have "used_bytes sz (refs_of h (drop_archives h budget as used keep)) \<le> budget
          \<or> (\<forall>r \<in> refs_of h (drop_archives h budget as used keep). prot r)"
        by (intro Cons.IH) simp_all
      with 2 show ?thesis by simp
    qed
  next
    case False
    let ?keep = "drop_ref h (ar_ref a) keep"
    have refs: "refs_of h ?keep = refs_of h keep - {ar_ref a}" by (rule refs_drop_ref [OF assms(1)])
    have "used - ar_size a = used_bytes sz (refs_of h ?keep)"
      using Cons.prems(2,3,5) by (simp add: used_bytes_def refs sum_diff1)
    moreover have "ar_ref ` set as \<subseteq> refs_of h ?keep" using Cons.prems(1,2) unfolding refs by (simp add: subset_Diff_insert)
    moreover have "\<forall>r \<in> refs_of h ?keep - ar_ref ` set as. prot r" using Cons.prems(4) by (auto simp: refs)
    ultimately have "used_bytes sz (refs_of h (drop_archives h budget as (used - ar_size a) ?keep)) \<le> budget
        \<or> (\<forall>r \<in> refs_of h (drop_archives h budget as (used - ar_size a) ?keep). prot r)"
      using Cons.prems(1,3) by (intro Cons.IH) simp_all
    with False show ?thesis by simp
  qed
qed

text \<open>Dropping only ever removes entries, and none whose archive is protected.\<close>

lemma drop_archives_less: "drop_archives h budget as used keep n \<Longrightarrow> keep n"
proof (induction as arbitrary: used keep)
  case (Cons a as)
  then have "keep n \<or> drop_ref h (ar_ref a) keep n" by (auto split: if_splits)
  then show ?case by (auto simp: drop_ref_def)
qed simp

lemma drop_archives_keeps:
  assumes "sorted_wrt (<) (map ck_seq h)" and "c \<in> set h" and "keep (ck_seq c)"
    and "\<forall>a \<in> set as. ar_ref a = ck_ref c \<longrightarrow> ar_protected a"
  shows "drop_archives h budget as used keep (ck_seq c)"
  using assms(3,4)
proof (induction as arbitrary: used keep)
  case (Cons a as)
  have "drop_ref h (ar_ref a) keep (ck_seq c)" if "\<not> ar_protected a"
    using Cons.prems that seq_keyed [OF assms(1) _ assms(2)] unfolding drop_ref_def by (metis list.set_intros(1))
  with Cons show ?case by simp
qed simp

subsection \<open>Sources\<close>

lemma keep_source_mono: "keep n \<Longrightarrow> keep_source keep c n"
  by (simp add: keep_source_def)

lemma foldl_keep_source_mono: "keep n \<Longrightarrow> foldl keep_source keep cs n"
  by (induction cs arbitrary: keep) (simp_all add: keep_source_mono)

text \<open>Only sequence numbers below those of the entries walked over are added.\<close>

lemma foldl_keep_source_new:
  assumes "\<forall>c \<in> set cs. ck_restored c \<noteq> 0 \<longrightarrow> ck_restored c < ck_seq c"
    and "foldl keep_source keep cs n" and "\<forall>c \<in> set cs. ck_seq c \<le> n"
  shows "keep n"
  using assms
proof (induction cs arbitrary: keep)
  case (Cons c cs)
  then have "keep_source keep c n" by simp
  with Cons.prems(1,3) show ?case by (auto simp: keep_source_def split: if_splits)
qed simp

lemma foldl_keep_source_closed:
  assumes "sorted_wrt (>) (map ck_seq cs)" and "\<forall>c \<in> set cs. ck_restored c \<noteq> 0 \<longrightarrow> ck_restored c < ck_seq c"
    and "c \<in> set cs" and "foldl keep_source keep cs (ck_seq c)" and "ck_restored c \<noteq> 0"
  shows "foldl keep_source keep cs (ck_restored c)"
  using assms
proof (induction cs arbitrary: keep)
  case (Cons x xs)
  show ?case
  proof (cases "c = x")
    case True
    have "\<forall>y \<in> set xs. ck_seq y \<le> ck_seq x" using Cons.prems(1) by auto
    moreover have "foldl keep_source (keep_source keep x) xs (ck_seq x)" using Cons.prems(4) unfolding True by simp
    moreover have "\<forall>c \<in> set xs. ck_restored c \<noteq> 0 \<longrightarrow> ck_restored c < ck_seq c" using Cons.prems(2) by simp
    ultimately have "keep_source keep x (ck_seq x)" using foldl_keep_source_new [of xs "keep_source keep x" "ck_seq x"] by blast
    moreover have "ck_restored x \<noteq> 0" "ck_restored x < ck_seq x" using Cons.prems(2,3,5) unfolding True by simp_all
    ultimately have "keep (ck_seq x)" by (simp add: keep_source_def split: if_splits)
    then have "keep_source keep x (ck_restored x)" using \<open>ck_restored x \<noteq> 0\<close> by (simp add: keep_source_def)
    then show ?thesis using True by (simp add: foldl_keep_source_mono)
  next
    case False
    have "foldl keep_source (keep_source keep x) xs (ck_restored c)"
    proof (rule Cons.IH)
      show "sorted_wrt (>) (map ck_seq xs)" using Cons.prems(1) by simp
      show "\<forall>c \<in> set xs. ck_restored c \<noteq> 0 \<longrightarrow> ck_restored c < ck_seq c" using Cons.prems(2) by simp
      show "c \<in> set xs" using Cons.prems(3) False by simp
      show "foldl keep_source (keep_source keep x) xs (ck_seq c)" using Cons.prems(4) by simp
    qed (rule Cons.prems(5))
    then show ?thesis by simp
  qed
qed simp

lemma refs_keep_source:
  assumes "history_ok h" and "c \<in> set h"
  shows "refs_of h (keep_source keep c) = refs_of h keep"
proof (cases "keep (ck_seq c) \<and> ck_restored c \<noteq> 0")
  case True
  have "ck_ref b = ck_ref c" if "b \<in> set h" "ck_seq b = ck_restored c" for b
    using assms that True unfolding history_ok_def by blast
  with True assms(2) show ?thesis by (auto simp: refs_of_def keep_source_def)
next
  case False
  then have "keep_source keep c = keep" by (auto simp: keep_source_def)
  then show ?thesis by simp
qed

lemma refs_keep_sources:
  assumes "history_ok h" and "set cs \<subseteq> set h"
  shows "refs_of h (foldl keep_source keep cs) = refs_of h keep"
  using assms(2) by (induction cs arbitrary: keep) (simp_all add: refs_keep_source [OF assms(1)])

subsection \<open>What retention promises\<close>

definition size_of_ref :: "checkpoint list \<Rightarrow> string \<Rightarrow> int" where
  "size_of_ref h r = (case List.find (\<lambda>c. ck_ref c = r) h of Some c \<Rightarrow> ck_size c | None \<Rightarrow> 0)"

lemma size_of_ref: "history_ok h \<Longrightarrow> c \<in> set h \<Longrightarrow> size_of_ref h (ck_ref c) = ck_size c"
proof -
  assume ok: "history_ok h" and c: "c \<in> set h"
  then obtain b where b: "List.find (\<lambda>x. ck_ref x = ck_ref c) h = Some b"
    by (cases "List.find (\<lambda>x. ck_ref x = ck_ref c) h") (auto simp: find_None_iff)
  then have "b \<in> set h" "ck_ref b = ck_ref c" by (auto simp: find_Some_iff)
  with ok c have "ck_size b = ck_size c" unfolding history_ok_def by blast
  with b show ?thesis by (simp add: size_of_ref_def)
qed

lemma last_recent: "h \<noteq> [] \<Longrightarrow> last h \<in> set (drop (length h - retain_recent) h)"
proof -
  assume "h \<noteq> []"
  then have "length h - retain_recent < length h" by (simp add: retain_recent_def)
  then have "drop (length h - retain_recent) h \<noteq> []" "last (drop (length h - retain_recent) h) = last h"
    by (simp_all add: last_drop)
  then show ?thesis by (metis last_in_set)
qed

lemma vital_kept_first: "h \<noteq> [] \<Longrightarrow> c \<in> set h \<Longrightarrow> vital (ck_seq (last h)) c \<Longrightarrow> keep_first h now (ck_seq c)"
  using last_recent [of h] by (auto simp: keep_first_def vital_def)

lemma apply_byte_budget_ok:
  fixes now :: int
  assumes ok: "history_ok h" and "h \<noteq> []"
  defines "k \<equiv> apply_byte_budget h (keep_first h now)"
  shows "\<forall>c \<in> set h. vital (ck_seq (last h)) c \<longrightarrow> k (ck_seq c)"
    and "used_bytes (size_of_ref h) (refs_of h k) \<le> byte_budget h
      \<or> (\<forall>r \<in> refs_of h k. \<exists>c \<in> set h. ck_ref c = r \<and> vital (ck_seq (last h)) c)"
proof -
  let ?now = "ck_seq (last h)" and ?k0 = "keep_first h now"
  let ?as = "collect_archives ?now ?k0 h"
  let ?prot = "\<lambda>r. \<exists>c \<in> set h. ck_ref c = r \<and> vital ?now c"
  have sorted: "sorted_wrt (<) (map ck_seq h)" using ok by (simp add: history_ok_def)
  have k: "k = drop_archives h (byte_budget h) (sort_key ar_last ?as) (sum_list (map ar_size ?as)) ?k0"
    using assms(2) by (simp add: k_def apply_byte_budget_def Let_def)
  have as: "distinct (map ar_ref ?as)" "ar_ref ` set ?as = refs_of h ?k0" "\<forall>a \<in> set ?as. archive_of h ?k0 ?now a"
    using collect_archives_ok by blast+
  have each: "ar_size a = size_of_ref h (ar_ref a) \<and> ar_protected a = ?prot (ar_ref a)" if mem: "a \<in> set ?as" for a
  proof -
    have a: "archive_of h ?k0 ?now a" using as(3) mem by blast
    then obtain c where "c \<in> set h" "ck_ref c = ar_ref a" "ck_size c = ar_size a" by (auto simp: archive_of_def)
    with size_of_ref [OF ok] have "ar_size a = size_of_ref h (ar_ref a)" by metis
    moreover have "ar_protected a = ?prot (ar_ref a)"
      using a vital_kept_first [OF assms(2)] unfolding archive_of_def by blast
    ultimately show ?thesis by blast
  qed
  have "k (ck_seq c)" if c: "c \<in> set h" "vital ?now c" for c
    unfolding k
    by (rule drop_archives_keeps [where keep = ?k0, OF sorted c(1) vital_kept_first [OF assms(2) c]]) (use each c in auto)
  then show "\<forall>c \<in> set h. vital ?now c \<longrightarrow> k (ck_seq c)" by blast
  have "sum_list (map ar_size ?as) = sum_list (map (size_of_ref h) (map ar_ref ?as))"
    using each by (simp add: comp_def cong: map_cong)
  also have "\<dots> = used_bytes (size_of_ref h) (refs_of h ?k0)"
    unfolding used_bytes_def sum_list_distinct_conv_sum_set [OF as(1)] using as(2) by simp
  finally have used: "sum_list (map ar_size ?as) = used_bytes (size_of_ref h) (refs_of h ?k0)" .
  have "mset (map ar_ref (sort_key ar_last ?as)) = mset (map ar_ref ?as)" by simp
  then have dist: "distinct (map ar_ref (sort_key ar_last ?as))" using as(1) mset_eq_imp_distinct_iff by blast
  show "used_bytes (size_of_ref h) (refs_of h k) \<le> byte_budget h \<or> (\<forall>r \<in> refs_of h k. ?prot r)"
    unfolding k
    by (rule drop_archives_budget [OF sorted dist _ _ _ used, where prot = ?prot]) (use as(2) each in auto)
qed

lemma history_descending: "history_ok h \<Longrightarrow> sorted_wrt (>) (map ck_seq (rev h))"
  by (simp add: history_ok_def sorted_wrt_rev flip: rev_map)

lemma vital_kept:
  assumes "history_ok h" and "h \<noteq> []" and "c \<in> set h" and "vital (ck_seq (last h)) c"
  shows "kept h now (ck_seq c)"
  unfolding kept_def keep_sources_def
  using apply_byte_budget_ok(1) [OF assms(1,2)] assms(3,4) by (intro foldl_keep_source_mono) blast

lemma current_kept: "history_ok h \<Longrightarrow> h \<noteq> [] \<Longrightarrow> kept h now (ck_seq (last h))"
  by (rule vital_kept) (simp_all add: vital_def)

text \<open>C13. Retention never loses what it must keep: the current checkpoint and the base stay, the
  source of a kept restore stays, and the distinct archives still needed fit the byte budget,
  unless only the archives of the current checkpoint and the base are left.\<close>

theorem retention:
  assumes "history_ok h" and "h \<noteq> []"
  shows "last h \<notin> set (expired_checkpoints h now)
     \<and> (\<forall>c \<in> set (expired_checkpoints h now). ck_kind c \<noteq> CheckpointBase)
     \<and> (\<forall>c \<in> set h - set (expired_checkpoints h now). \<forall>b \<in> set h. ck_restored c \<noteq> 0 \<and> ck_seq b = ck_restored c
           \<longrightarrow> b \<notin> set (expired_checkpoints h now))
     \<and> ((\<Sum>r \<in> ck_ref ` (set h - set (expired_checkpoints h now)). size_of_ref h r) \<le> byte_budget h
        \<or> (\<forall>c \<in> set h - set (expired_checkpoints h now). \<exists>b \<in> set h. ck_ref b = ck_ref c
              \<and> (b = last h \<or> ck_kind b = CheckpointBase)))"
proof -
  let ?k1 = "apply_byte_budget h (keep_first h now)" and ?k = "kept h now"
  note budget = apply_byte_budget_ok [OF assms, of now]
  have k: "?k = foldl keep_source ?k1 (rev h)" by (simp add: kept_def keep_sources_def)
  have vital: "?k (ck_seq c)" if "c \<in> set h" "vital (ck_seq (last h)) c" for c
    by (rule vital_kept [OF assms that])
  have sorted: "sorted_wrt (<) (map ck_seq h)" using assms(1) by (simp add: history_ok_def)
  have source: "?k (ck_restored c)" if "c \<in> set h" "?k (ck_seq c)" "ck_restored c \<noteq> 0" for c
    unfolding k
    by (rule foldl_keep_source_closed [OF history_descending [OF assms(1)]])
       (use assms(1) that in \<open>auto simp: history_ok_def k\<close>)
  have "refs_of h ?k = refs_of h ?k1" unfolding k by (rule refs_keep_sources [OF assms(1)]) simp
  then have used: "used_bytes (size_of_ref h) (refs_of h ?k) \<le> byte_budget h
      \<or> (\<forall>r \<in> refs_of h ?k. \<exists>c \<in> set h. ck_ref c = r \<and> vital (ck_seq (last h)) c)"
    using budget(2) by simp
  have refs: "refs_of h ?k = ck_ref ` (set h - set (expired_checkpoints h now))"
    by (auto simp: refs_of_def expired_checkpoints_def)
  have "b = last h" if "b \<in> set h" "ck_seq b = ck_seq (last h)" for b
    using seq_keyed [OF sorted that(1) last_in_set [OF assms(2)] that(2)] .
  then have ends: "vital (ck_seq (last h)) b \<longleftrightarrow> b = last h \<or> ck_kind b = CheckpointBase" if "b \<in> set h" for b
    using that by (auto simp: vital_def)
  have 1: "last h \<notin> set (expired_checkpoints h now)"
    using vital [of "last h"] assms(2) by (simp add: expired_checkpoints_def vital_def)
  have 2: "\<forall>c \<in> set (expired_checkpoints h now). ck_kind c \<noteq> CheckpointBase"
    using vital by (auto simp: expired_checkpoints_def vital_def)
  have 3: "\<forall>c \<in> set h - set (expired_checkpoints h now). \<forall>b \<in> set h. ck_restored c \<noteq> 0 \<and> ck_seq b = ck_restored c
           \<longrightarrow> b \<notin> set (expired_checkpoints h now)"
    using source by (auto simp: expired_checkpoints_def)
  have 4: "(\<Sum>r \<in> ck_ref ` (set h - set (expired_checkpoints h now)). size_of_ref h r) \<le> byte_budget h
        \<or> (\<forall>c \<in> set h - set (expired_checkpoints h now). \<exists>b \<in> set h. ck_ref b = ck_ref c
              \<and> (b = last h \<or> ck_kind b = CheckpointBase))"
    using used unfolding refs used_bytes_def using ends by blast
  show ?thesis using 1 2 3 4 by blast
qed

text \<open>A base, a run and a restore of the base.\<close>

definition sample_history :: "checkpoint list" where
  "sample_history =
     [\<lparr>ck_workspace = ''w'', ck_seq = 1, ck_ref = ''a'', ck_kind = CheckpointBase, ck_run = [], ck_restored = 0,
       ck_size = 5, ck_created = 0\<rparr>,
      \<lparr>ck_workspace = ''w'', ck_seq = 2, ck_ref = ''b'', ck_kind = CheckpointRun, ck_run = ''r'', ck_restored = 0,
       ck_size = 7, ck_created = 1\<rparr>,
      \<lparr>ck_workspace = ''w'', ck_seq = 3, ck_ref = ''a'', ck_kind = CheckpointRestore, ck_run = [], ck_restored = 1,
       ck_size = 5, ck_created = 2\<rparr>]"

lemma sample_history_ok: "history_ok sample_history"
  by (simp add: history_ok_def sample_history_def)

lemma retention_witness:
  "last sample_history \<notin> set (expired_checkpoints sample_history 3)
   \<and> hd sample_history \<notin> set (expired_checkpoints sample_history 3)"
proof -
  have nonempty: "sample_history \<noteq> []" by (simp add: sample_history_def)
  have "ck_kind (hd sample_history) = CheckpointBase" by (simp add: sample_history_def)
  with retention [OF sample_history_ok nonempty, of 3] show ?thesis by blast
qed

end
