(* ===== verification/Checkpoint_Record.thy ===== *)
theory Checkpoint_Record
  imports Checkpoints
begin

section \<open>Recording and restoring (environment/checkpoints.go, runtime/checkpoint/history.go)\<close>

text \<open>
  A checkpoint whose archive is stored is appended to the history, then retention deletes
  expired entries and unreferenced archives. A restore appends an entry that points at an
  earlier archive. The state tables, the files and the errors reported on the side are one
  world; the provider that applies a restore is a parameter.
\<close>

subsection \<open>Operations\<close>

record world =
  wd_state :: state_db
  wd_files :: files
  wd_errors :: "string list"

definition touch_workspace :: "checkpoint \<Rightarrow> state_db \<Rightarrow> state_error + state_db" where
  "touch_workspace c s =
     and_then (read_workspace (ck_workspace c) s) (\<lambda>w.
       if \<not> ws_updated w < ck_created c then Inr s else save_workspace (w\<lparr>ws_updated := ck_created c\<rparr>) s)"

fun distinct_refs :: "string list \<Rightarrow> checkpoint list \<Rightarrow> string list" where
  "distinct_refs refs [] = refs"
| "distinct_refs refs (c # cs) = distinct_refs (if ck_ref c \<in> set refs then refs else refs @ [ck_ref c]) cs"

definition prune_checkpoints :: "(string \<Rightarrow> string) \<Rightarrow> string \<Rightarrow> int \<Rightarrow> world \<Rightarrow> string option \<times> world" where
  "prune_checkpoints sha wid now w =
     (let h = checkpoints_of wid (wd_state w); expired = expired_checkpoints h now in
      if h = [] then (Some ''environment: workspace has no checkpoints'', w)
      else let w1 = (if expired = [] then w
                     else w\<lparr>wd_state := delete_checkpoints wid (sort (map ck_seq expired)) (wd_state w)\<rparr>);
               refs = distinct_refs [] (filter (\<lambda>c. ck_seq c \<notin> set (map ck_seq expired)) h)
           in case prune_archives sha wid refs (wd_files w1) of
                Inl e \<Rightarrow> (Some e, w1)
              | Inr fs \<Rightarrow> (None, w1\<lparr>wd_files := fs\<rparr>))"

definition side_error :: "string \<Rightarrow> world \<Rightarrow> world" where
  "side_error e w = w\<lparr>wd_errors := wd_errors w @ [e]\<rparr>"

definition record_new :: "(string \<Rightarrow> string) \<Rightarrow> checkpoint \<Rightarrow> world \<Rightarrow> (state_error + checkpoint) \<times> world" where
  "record_new sha c w =
     (case append_checkpoint c (wd_state w) of
        Inl e \<Rightarrow> (Inl e, w)
      | Inr (s1, r) \<Rightarrow>
          (let w1 = w\<lparr>wd_state := s1\<rparr>;
               w2 = (case touch_workspace r s1 of
                       Inl e \<Rightarrow> side_error ''environment: update workspace time'' w1
                     | Inr s2 \<Rightarrow> w1\<lparr>wd_state := s2\<rparr>);
               (err, w3) = prune_checkpoints sha (ck_workspace r) (ck_created r) w2
           in (Inr r, case err of None \<Rightarrow> w3 | Some e \<Rightarrow> side_error (''environment: prune workspace checkpoints: '' @ e) w3)))"

text \<open>A run that left the archive as it was appends nothing.\<close>

definition record_checkpoint :: "(string \<Rightarrow> string) \<Rightarrow> checkpoint \<Rightarrow> world \<Rightarrow> (state_error + checkpoint) \<times> world" where
  "record_checkpoint sha c w =
     (if ck_kind c = CheckpointRun
      then (case current_checkpoint (ck_workspace c) (wd_state w) of
              Inr cur \<Rightarrow> if ck_ref cur = ck_ref c then (Inr cur, w) else record_new sha c w
            | Inl StateNotFound \<Rightarrow> record_new sha c w
            | Inl e \<Rightarrow> (Inl e, w))
      else record_new sha c w)"

record public_checkpoint =
  pc_seq :: int
  pc_kind :: checkpoint_kind
  pc_run :: string
  pc_restored :: int
  pc_size :: int
  pc_created :: int
  pc_current :: bool

definition public_of_checkpoint :: "checkpoint \<Rightarrow> bool \<Rightarrow> public_checkpoint" where
  "public_of_checkpoint c current =
     \<lparr>pc_seq = ck_seq c, pc_kind = ck_kind c, pc_run = ck_run c, pc_restored = ck_restored c, pc_size = ck_size c,
      pc_created = ck_created c, pc_current = current\<rparr>"

datatype history_error =
    HistoryNotFound string
  | CheckpointNotFound string int
  | WorkspaceInUse
  | RestorerFailed error
  | HistoryState state_error

definition history_of :: "string \<Rightarrow> state_db \<Rightarrow> history_error + checkpoint list" where
  "history_of wid s =
     (case read_workspace wid s of
        Inl StateNotFound \<Rightarrow> Inl (HistoryNotFound wid)
      | Inl e \<Rightarrow> Inl (HistoryState e)
      | Inr _ \<Rightarrow> Inr (checkpoints_of wid s))"

text \<open>Newest first, the newest marked as current.\<close>

definition list_checkpoints :: "string \<Rightarrow> state_db \<Rightarrow> history_error + public_checkpoint list" where
  "list_checkpoints wid s =
     and_then (history_of wid s) (\<lambda>h. Inr (map (\<lambda>(k, c). public_of_checkpoint c (k = 0)) (List.enumerate 0 (rev h))))"

definition restore_entry :: "string \<Rightarrow> checkpoint \<Rightarrow> int \<Rightarrow> checkpoint" where
  "restore_entry wid target now =
     \<lparr>ck_workspace = wid, ck_seq = 0, ck_ref = ck_ref target, ck_kind = CheckpointRestore, ck_run = [],
      ck_restored = ck_seq target, ck_size = ck_size target, ck_created = now\<rparr>"

definition restore_workspace :: "(string \<Rightarrow> string) \<Rightarrow> (string \<Rightarrow> checkpoint \<Rightarrow> history_error option) \<Rightarrow> string \<Rightarrow> int \<Rightarrow> int
    \<Rightarrow> world \<Rightarrow> (history_error + public_checkpoint) \<times> world" where
  "restore_workspace sha provider wid seq now w =
     (case history_of wid (wd_state w) of
        Inl e \<Rightarrow> (Inl e, w)
      | Inr h \<Rightarrow> (case List.find (\<lambda>c. ck_seq c = seq) h of
          None \<Rightarrow> (Inl (CheckpointNotFound wid seq), w)
        | Some target \<Rightarrow> (case provider wid target of
            Some e \<Rightarrow> (Inl e, w)
          | None \<Rightarrow> (case record_checkpoint sha (restore_entry wid target now) w of
              (Inl e, w1) \<Rightarrow> (Inl (HistoryState e), w1)
            | (Inr r, w1) \<Rightarrow> (Inr (public_of_checkpoint r True), w1)))))"

subsection \<open>The history of a workspace\<close>

definition seqs_ok :: "state_db \<Rightarrow> bool" where
  "seqs_ok s \<longleftrightarrow> (\<forall>c \<in> set (sd_checkpoints s). 0 < ck_seq c)
     \<and> distinct (map (\<lambda>c. (ck_workspace c, ck_seq c)) (sd_checkpoints s))"

lemma checkpoints_of_set: "set (checkpoints_of wid s) = {c \<in> set (sd_checkpoints s). ck_workspace c = wid}"
  by (auto simp: checkpoints_of_def)

lemma checkpoints_of_ascending:
  assumes "seqs_ok s"
  shows "sorted_wrt (<) (map ck_seq (checkpoints_of wid s))"
proof -
  let ?xs = "filter (\<lambda>c. ck_workspace c = wid) (sd_checkpoints s)"
  have "distinct (map (\<lambda>c. (ck_workspace c, ck_seq c)) ?xs)" using assms by (simp add: seqs_ok_def distinct_map_filter)
  then have "distinct (map ck_seq ?xs)" by (auto simp: distinct_map inj_on_def)
  moreover have "mset (map ck_seq (sort_key ck_seq ?xs)) = mset (map ck_seq ?xs)" by simp
  ultimately have "distinct (map ck_seq (sort_key ck_seq ?xs))" using mset_eq_imp_distinct_iff by blast
  then show ?thesis unfolding checkpoints_of_def strict_sorted_iff by simp
qed

lemma foldr_max: "(x::int) \<in> set xs \<Longrightarrow> x \<le> foldr max xs 0"
  by (induction xs) auto

lemma foldr_max_member: "foldr max xs 0 = (0::int) \<or> foldr max xs 0 \<in> set xs"
  by (induction xs) (auto simp: max_def)

lemma max_seq_above: "c \<in> set (checkpoints_of wid s) \<Longrightarrow> ck_seq c \<le> max_seq wid s"
  unfolding max_seq_def checkpoints_of_set by (rule foldr_max) auto

lemma max_seq_last:
  assumes "seqs_ok s" and "checkpoints_of wid s \<noteq> []"
  shows "max_seq wid s = ck_seq (last (checkpoints_of wid s))"
proof -
  let ?h = "checkpoints_of wid s"
  have last: "last ?h \<in> set ?h" using assms(2) by simp
  then have "0 < ck_seq (last ?h)" using assms(1) by (auto simp: checkpoints_of_set seqs_ok_def)
  with max_seq_above [OF last] have "max_seq wid s \<noteq> 0" by simp
  then have "max_seq wid s \<in> ck_seq ` set ?h"
    using foldr_max_member [of "map ck_seq (filter (\<lambda>c. ck_workspace c = wid) (sd_checkpoints s))"]
    by (auto simp: max_seq_def checkpoints_of_set)
  then obtain c where c: "c \<in> set ?h" "max_seq wid s = ck_seq c" by blast
  have "ck_seq c \<le> ck_seq (last ?h)"
  proof -
    have "sorted (map ck_seq ?h)" by (simp add: checkpoints_of_def)
    moreover obtain i where "i < length ?h" "?h ! i = c" using c(1) by (auto simp: in_set_conv_nth)
    ultimately show ?thesis using assms(2) by (simp add: last_conv_nth sorted_iff_nth_mono_less) (cases "i = length ?h - 1"; force)
  qed
  with c(2) max_seq_above [OF last] show ?thesis by simp
qed

lemma sort_key_snoc:
  fixes f :: "'a \<Rightarrow> int"
  assumes "\<And>x. x \<in> set xs \<Longrightarrow> f x < f y"
  shows "sort_key f (xs @ [y]) = sort_key f xs @ [y]"
proof (rule properties_for_sort_key)
  have none: "filter (\<lambda>x. f y = f x) (sort_key f xs) = []" "filter (\<lambda>x. f y = f x) xs = []"
    using assms by (fastforce simp: filter_empty_conv)+
  show "filter (\<lambda>x. f k = f x) (sort_key f xs @ [y]) = filter (\<lambda>x. f k = f x) (xs @ [y])"
    if "k \<in> set (sort_key f xs @ [y])" for k
    using sort_key_stable [of f "f k" xs] by (simp add: eq_commute [of "f k"])
  show "sorted (map f (sort_key f xs @ [y]))" using assms by (auto simp: sorted_append intro: less_imp_le)
qed simp

lemma append_effect:
  assumes "append_checkpoint c s = Inr (s', r)" and "seqs_ok s"
  shows "r = c\<lparr>ck_seq := max_seq (ck_workspace c) s + 1\<rparr>"
    and "checkpoints_of (ck_workspace c) s' = checkpoints_of (ck_workspace c) s @ [r]"
    and "v \<noteq> ck_workspace c \<Longrightarrow> checkpoints_of v s' = checkpoints_of v s"
    and "seqs_ok s'" and "sd_workspaces s' = sd_workspaces s"
proof -
  let ?r = "c\<lparr>ck_seq := max_seq (ck_workspace c) s + 1\<rparr>"
  have s': "s' = s\<lparr>sd_checkpoints := sd_checkpoints s @ [?r]\<rparr>" and r: "r = ?r"
    using assms(1) by (auto simp: append_checkpoint_def Let_def split: if_splits)
  show "r = ?r" by (fact r)
  have above: "ck_seq x < ck_seq ?r" if "x \<in> set (checkpoints_of (ck_workspace c) s)" for x
    using max_seq_above [OF that] by simp
  then show "checkpoints_of (ck_workspace c) s' = checkpoints_of (ck_workspace c) s @ [r]"
    using sort_key_snoc [of "filter (\<lambda>x. ck_workspace x = ck_workspace c) (sd_checkpoints s)" ck_seq ?r]
    by (simp add: checkpoints_of_def s' r)
  show "v \<noteq> ck_workspace c \<Longrightarrow> checkpoints_of v s' = checkpoints_of v s" by (simp add: checkpoints_of_def s')
  have "0 \<le> max_seq (ck_workspace c) s"
    using foldr_max_member [of "map ck_seq (filter (\<lambda>x. ck_workspace x = ck_workspace c) (sd_checkpoints s))"] assms(2)
    by (auto simp: max_seq_def seqs_ok_def intro: less_imp_le)
  moreover have "(ck_workspace c, max_seq (ck_workspace c) s + 1) \<notin> (\<lambda>c. (ck_workspace c, ck_seq c)) ` set (sd_checkpoints s)"
    using above by (fastforce simp: checkpoints_of_set)
  ultimately show "seqs_ok s'" using assms(2) by (auto simp: seqs_ok_def s')
  show "sd_workspaces s' = sd_workspaces s" by (simp add: s')
qed

lemma last_filter: "xs \<noteq> [] \<Longrightarrow> P (last xs) \<Longrightarrow> filter P xs \<noteq> [] \<and> last (filter P xs) = last xs"
  by (induction xs rule: rev_induct) auto

lemma delete_checkpoint_effect:
  assumes "seqs_ok s" and "checkpoints_of wid s \<noteq> []" and "n < max_seq wid s"
  shows "checkpoints_of wid (delete_checkpoint wid s n) = filter (\<lambda>c. ck_seq c \<noteq> n) (checkpoints_of wid s)"
    and "v \<noteq> wid \<Longrightarrow> checkpoints_of v (delete_checkpoint wid s n) = checkpoints_of v s"
    and "seqs_ok (delete_checkpoint wid s n)" and "max_seq wid (delete_checkpoint wid s n) = max_seq wid s"
    and "sd_workspaces (delete_checkpoint wid s n) = sd_workspaces s"
proof -
  let ?s = "delete_checkpoint wid s n"
  have rows: "sd_checkpoints ?s = filter (\<lambda>c. \<not> (ck_workspace c = wid \<and> ck_seq c = n)) (sd_checkpoints s)"
    using assms(3) by (simp add: delete_checkpoint_def)
  show here: "checkpoints_of wid ?s = filter (\<lambda>c. ck_seq c \<noteq> n) (checkpoints_of wid s)"
    unfolding checkpoints_of_def rows filter_sort filter_filter by (intro arg_cong [where f = "sort_key ck_seq"] filter_cong) auto
  show "v \<noteq> wid \<Longrightarrow> checkpoints_of v ?s = checkpoints_of v s"
    unfolding checkpoints_of_def rows filter_filter by (intro arg_cong [where f = "sort_key ck_seq"] filter_cong) auto
  show ok: "seqs_ok ?s" using assms(1) by (auto simp: seqs_ok_def rows distinct_map_filter)
  have "ck_seq (last (checkpoints_of wid s)) \<noteq> n" using assms max_seq_last by simp
  from last_filter [of "checkpoints_of wid s" "\<lambda>c. ck_seq c \<noteq> n", OF assms(2) this]
  show "max_seq wid ?s = max_seq wid s" using max_seq_last [OF ok] max_seq_last [OF assms(1,2)] here by simp
  show "sd_workspaces ?s = sd_workspaces s" by (simp add: delete_checkpoint_def)
qed

lemma delete_checkpoints_effect:
  assumes "seqs_ok s" and "checkpoints_of wid s \<noteq> []" and "\<forall>n \<in> set ns. n < max_seq wid s"
  shows "checkpoints_of wid (delete_checkpoints wid ns s) = filter (\<lambda>c. ck_seq c \<notin> set ns) (checkpoints_of wid s)
     \<and> (\<forall>v. v \<noteq> wid \<longrightarrow> checkpoints_of v (delete_checkpoints wid ns s) = checkpoints_of v s)
     \<and> seqs_ok (delete_checkpoints wid ns s) \<and> sd_workspaces (delete_checkpoints wid ns s) = sd_workspaces s"
  using assms
proof (induction ns arbitrary: s)
  case (Cons n ns)
  let ?s = "delete_checkpoint wid s n"
  have "n < max_seq wid s" using Cons.prems(3) by simp
  note one = delete_checkpoint_effect [OF Cons.prems(1,2) this]
  have "ck_seq (last (checkpoints_of wid s)) \<noteq> n" using Cons.prems max_seq_last by simp
  from last_filter [of "checkpoints_of wid s" "\<lambda>c. ck_seq c \<noteq> n", OF Cons.prems(2) this]
  have "checkpoints_of wid ?s \<noteq> []" by (simp add: one(1))
  from Cons.IH [OF one(3) this] Cons.prems(3) one show ?case
    by (simp add: delete_checkpoints_def filter_filter conj_commute)
qed (simp add: delete_checkpoints_def)

subsection \<open>Pruning\<close>

lemma distinct_refs_set: "set (distinct_refs refs cs) = set refs \<union> ck_ref ` set cs"
  by (induction cs arbitrary: refs) auto

lemma archive_names_member:
  "archive_names wid refs = Inr names \<Longrightarrow> r \<in> set refs \<Longrightarrow> \<exists>name dig. archive_name wid r = Inr (name, dig) \<and> name \<in> set names"
  by (induction refs arbitrary: names) (auto simp: and_then_Inr_iff)

lemma map_of_filter_key: "(\<And>v. P (k, v)) \<Longrightarrow> map_of (filter P fs) k = map_of fs k"
  by (induction fs) auto

lemma prune_archives_keeps:
  assumes "prune_archives sha wid refs fs = Inr fs'"
  shows "r \<in> set refs \<Longrightarrow> get_archive sha wid r bound fs' = get_archive sha wid r bound fs"
    and "archive_dir sha v \<noteq> archive_dir sha wid \<Longrightarrow> get_archive sha v r bound fs' = get_archive sha v r bound fs"
proof -
  obtain names where names: "archive_names wid refs = Inr names"
    and fs': "fs' = filter (\<lambda>((dir, name), _). dir \<noteq> archive_dir sha wid \<or> name \<in> set names \<or> \<not> has_suffix name tar_suffix) fs"
    using assms by (auto simp: prune_archives_def and_then_Inr_iff split: if_splits)
  show "get_archive sha wid r bound fs' = get_archive sha wid r bound fs" if r: "r \<in> set refs"
  proof -
    obtain name dig where n: "archive_name wid r = Inr (name, dig)" "name \<in> set names"
      using archive_names_member [OF names r] by blast
    have "map_of fs' (archive_dir sha wid, name) = map_of fs (archive_dir sha wid, name)"
      unfolding fs' by (rule map_of_filter_key) (simp add: n(2))
    with n show ?thesis by (simp add: get_archive_def)
  qed
  show "get_archive sha v r bound fs' = get_archive sha v r bound fs" if "archive_dir sha v \<noteq> archive_dir sha wid"
  proof -
    have "map_of fs' (archive_dir sha v, name) = map_of fs (archive_dir sha v, name)" for name
      unfolding fs' by (rule map_of_filter_key) (simp add: that)
    then show ?thesis by (cases "archive_name v r") (auto simp: get_archive_def)
  qed
qed

lemma expired_below:
  assumes "history_ok h" and "h \<noteq> []" and "c \<in> set (expired_checkpoints h now)"
  shows "ck_seq c < ck_seq (last h)"
proof -
  have c: "c \<in> set h" "\<not> kept h now (ck_seq c)" using assms(3) by (simp_all add: expired_checkpoints_def)
  have "kept h now (ck_seq (last h))" by (rule current_kept [OF assms(1,2)])
  with c(2) have other: "c \<noteq> last h" by auto
  have "sorted_wrt (<) (map ck_seq h)" using assms(1) by (simp add: history_ok_def)
  moreover have "h = butlast h @ [last h]" using assms(2) by simp
  ultimately have "sorted_wrt (<) (map ck_seq (butlast h) @ [ck_seq (last h)])" and "c \<in> set (butlast h)"
    using c(1) other by (metis list.simps(8,9) map_append, metis in_set_conv_decomp Un_iff empty_iff list.set(1) set_ConsD set_append)
  then show ?thesis by (simp add: sorted_wrt_append)
qed

text \<open>What pruning leaves.\<close>

lemma prune_effect:
  assumes "prune_checkpoints sha wid now w = (err, w')" and ok: "seqs_ok (wd_state w)"
    and h: "h = checkpoints_of wid (wd_state w)" "history_ok h" "h \<noteq> []"
  shows "checkpoints_of wid (wd_state w') = filter (\<lambda>c. kept h now (ck_seq c)) h"
    and "v \<noteq> wid \<Longrightarrow> checkpoints_of v (wd_state w') = checkpoints_of v (wd_state w)"
    and "seqs_ok (wd_state w')"
    and "c \<in> set (checkpoints_of wid (wd_state w')) \<Longrightarrow>
      get_archive sha wid (ck_ref c) bound (wd_files w') = get_archive sha wid (ck_ref c) bound (wd_files w)"
    and "archive_dir sha v \<noteq> archive_dir sha wid \<Longrightarrow>
      get_archive sha v r bound (wd_files w') = get_archive sha v r bound (wd_files w)"
proof -
  let ?exp = "expired_checkpoints h now"
  let ?ns = "sort (map ck_seq ?exp)"
  define w1 where "w1 = (if ?exp = [] then w else w\<lparr>wd_state := delete_checkpoints wid ?ns (wd_state w)\<rparr>)"
  define refs where "refs = distinct_refs [] (filter (\<lambda>c. ck_seq c \<notin> set (map ck_seq ?exp)) h)"
  have w': "(err, w') = (case prune_archives sha wid refs (wd_files w1) of Inl e \<Rightarrow> (Some e, w1) | Inr fs \<Rightarrow> (None, w1\<lparr>wd_files := fs\<rparr>))"
    using assms(1) h(3) unfolding prune_checkpoints_def Let_def w1_def refs_def h(1) [symmetric] by argo
  have state: "wd_state w' = wd_state w1" and files1: "wd_files w1 = wd_files w"
    using w' by (auto simp: w1_def split: sum.splits)
  have "\<forall>n \<in> set ?ns. n < max_seq wid (wd_state w)"
    using expired_below [OF h(2,3)] max_seq_last [OF ok] h(1,3) by auto
  from delete_checkpoints_effect [OF ok _ this] h(1,3)
  have del: "checkpoints_of wid (delete_checkpoints wid ?ns (wd_state w)) = filter (\<lambda>c. ck_seq c \<notin> ck_seq ` set ?exp) h"
    "\<forall>v. v \<noteq> wid \<longrightarrow> checkpoints_of v (delete_checkpoints wid ?ns (wd_state w)) = checkpoints_of v (wd_state w)"
    "seqs_ok (delete_checkpoints wid ?ns (wd_state w))"
    by simp_all
  have kept: "filter (\<lambda>c. ck_seq c \<notin> ck_seq ` set ?exp) h = filter (\<lambda>c. kept h now (ck_seq c)) h"
    by (intro filter_cong) (auto simp: expired_checkpoints_def)
  have here: "checkpoints_of wid (wd_state w1) = filter (\<lambda>c. ck_seq c \<notin> ck_seq ` set ?exp) h"
    using del(1) by (simp add: w1_def h(1))
  then show hist: "checkpoints_of wid (wd_state w') = filter (\<lambda>c. kept h now (ck_seq c)) h" by (simp add: state kept)
  show "v \<noteq> wid \<Longrightarrow> checkpoints_of v (wd_state w') = checkpoints_of v (wd_state w)" using del(2) by (simp add: state w1_def)
  show "seqs_ok (wd_state w')" using del(3) ok by (simp add: state w1_def)
  have refs: "set refs = ck_ref ` set (checkpoints_of wid (wd_state w'))"
    unfolding hist kept [symmetric] by (simp add: refs_def distinct_refs_set)
  show "get_archive sha wid (ck_ref c) bound (wd_files w') = get_archive sha wid (ck_ref c) bound (wd_files w)"
    if "c \<in> set (checkpoints_of wid (wd_state w'))"
  proof (cases "prune_archives sha wid refs (wd_files w1)")
    case (Inl e)
    with w' files1 show ?thesis by simp
  next
    case (Inr fs)
    have "ck_ref c \<in> set refs" using that refs by simp
    from prune_archives_keeps(1) [OF Inr this] w' Inr files1 show ?thesis by simp
  qed
  show "get_archive sha v r bound (wd_files w') = get_archive sha v r bound (wd_files w)"
    if "archive_dir sha v \<noteq> archive_dir sha wid"
    using w' files1 prune_archives_keeps(2) [OF _ that] by (cases "prune_archives sha wid refs (wd_files w1)") auto
qed

subsection \<open>Recording\<close>

text \<open>An entry that may be appended: content-addressed, and a restore names an entry with its archive.\<close>

definition entry_fits :: "checkpoint list \<Rightarrow> checkpoint \<Rightarrow> bool" where
  "entry_fits h c \<longleftrightarrow> (\<forall>b \<in> set h. ck_ref b = ck_ref c \<longrightarrow> ck_size b = ck_size c)
     \<and> (ck_restored c \<noteq> 0 \<longrightarrow> (\<exists>b \<in> set h. ck_seq b = ck_restored c \<and> ck_ref b = ck_ref c))"

lemma history_ok_append:
  assumes h: "history_ok h" and c: "entry_fits h c" "0 < ck_seq c" "0 \<le> ck_size c"
    and above: "\<And>b. b \<in> set h \<Longrightarrow> ck_seq b < ck_seq c"
  shows "history_ok (h @ [c])"
proof -
  have asc: "sorted_wrt (<) (map ck_seq h)" using h by (simp add: history_ok_def)
  have old: "0 < ck_seq x" "0 \<le> ck_size x" "ck_restored x \<noteq> 0 \<Longrightarrow> ck_restored x < ck_seq x"
    "\<And>b. b \<in> set h \<Longrightarrow> ck_ref b = ck_ref x \<Longrightarrow> ck_size b = ck_size x"
    "\<And>b. b \<in> set h \<Longrightarrow> ck_restored x \<noteq> 0 \<Longrightarrow> ck_seq b = ck_restored x \<Longrightarrow> ck_ref b = ck_ref x"
    if "x \<in> set h" for x
    using h that unfolding history_ok_def by blast+
  have sizes: "ck_size b = ck_size c" if "b \<in> set h" "ck_ref b = ck_ref c" for b
    using c(1) that by (simp add: entry_fits_def)
  have source: "ck_restored c < ck_seq c \<and> (\<forall>b \<in> set h. ck_seq b = ck_restored c \<longrightarrow> ck_ref b = ck_ref c)"
    if res: "ck_restored c \<noteq> 0"
  proof -
    obtain a where a: "a \<in> set h" "ck_seq a = ck_restored c" "ck_ref a = ck_ref c"
      using c(1) res by (auto simp: entry_fits_def)
    have "ck_ref b = ck_ref c" if "b \<in> set h" "ck_seq b = ck_restored c" for b
      using seq_keyed [OF asc that(1) a(1)] that(2) a(2,3) by simp
    with above [OF a(1)] a(2) show ?thesis by simp
  qed
  have late: "ck_seq c \<noteq> ck_restored x" if "x \<in> set h" "ck_restored x \<noteq> 0" for x
    using old(3) [OF that] above [OF that(1)] by simp
  have pair: "(ck_ref b = ck_ref x \<longrightarrow> ck_size b = ck_size x)
      \<and> (ck_restored x \<noteq> 0 \<and> ck_seq b = ck_restored x \<longrightarrow> ck_ref b = ck_ref x)"
    if x: "x \<in> set h \<or> x = c" and b: "b \<in> set h \<or> b = c" for x b
  proof -
    consider "x \<in> set h" "b \<in> set h" | "x \<in> set h" "b = c" | "x = c" "b \<in> set h" | "x = c" "b = c" using x b by blast
    then show ?thesis
    proof cases
      case 1
      then show ?thesis using old(4,5) by blast
    next
      case 2
      then have "ck_ref b = ck_ref x \<longrightarrow> ck_size b = ck_size x" using sizes [of x] by auto
      with 2 late [of x] show ?thesis by auto
    next
      case 3
      then have "ck_ref b = ck_ref x \<longrightarrow> ck_size b = ck_size x" using sizes [of b] by auto
      with 3 source show ?thesis by auto
    qed simp
  qed
  have sorted: "sorted_wrt (<) (map ck_seq (h @ [c]))" using asc above by (auto simp: sorted_wrt_append)
  have own: "0 < ck_seq x \<and> 0 \<le> ck_size x \<and> (ck_restored x \<noteq> 0 \<longrightarrow> ck_restored x < ck_seq x)"
    if "x \<in> set h \<or> x = c" for x
    using that old(1-3) [of x] source c(2,3) by blast
  have members: "x \<in> set (h @ [c]) \<longleftrightarrow> x \<in> set h \<or> x = c" for x by auto
  show ?thesis unfolding history_ok_def members Ball_def using sorted own pair by blast
qed

lemma filter_ordered_int: "sorted_wrt (<) (map f xs) \<Longrightarrow> sorted_wrt (<) (map f (filter P xs))"
  by (induction xs) auto

lemma history_ok_filter: "history_ok h \<Longrightarrow> history_ok (filter P h)"
  by (auto simp: history_ok_def filter_ordered_int)

lemma checkpoints_of_cong: "sd_checkpoints s = sd_checkpoints s' \<Longrightarrow> checkpoints_of v s = checkpoints_of v s'"
  by (simp add: checkpoints_of_def)

lemma touch_keeps_checkpoints: "touch_workspace c s = Inr s' \<Longrightarrow> sd_checkpoints s' = sd_checkpoints s"
  by (auto simp: touch_workspace_def save_workspace_def and_then_Inr_iff split: if_splits)

text \<open>What a record leaves of the history and of the archives.\<close>

definition recorded :: "(string \<Rightarrow> string) \<Rightarrow> string \<Rightarrow> checkpoint \<Rightarrow> world \<Rightarrow> world \<Rightarrow> bool" where
  "recorded sha wid r w w' \<longleftrightarrow>
     (let h = checkpoints_of wid (wd_state w); h' = checkpoints_of wid (wd_state w') in
      history_ok h' \<and> h' \<noteq> [] \<and> last h' = r \<and> set h' \<subseteq> insert r (set h) \<and> seqs_ok (wd_state w')
      \<and> (\<forall>c \<in> set h'. \<forall>n. get_archive sha wid (ck_ref c) n (wd_files w') = get_archive sha wid (ck_ref c) n (wd_files w))
      \<and> (\<forall>v. archive_dir sha v \<noteq> archive_dir sha wid \<longrightarrow>
           checkpoints_of v (wd_state w') = checkpoints_of v (wd_state w)
           \<and> (\<forall>ref n. get_archive sha v ref n (wd_files w') = get_archive sha v ref n (wd_files w))))"

lemma record_new_recorded:
  assumes rec: "record_new sha c w = (Inr r, w')" and ok: "seqs_ok (wd_state w)"
    and h: "history_ok (checkpoints_of (ck_workspace c) (wd_state w))" "entry_fits (checkpoints_of (ck_workspace c) (wd_state w)) c"
  shows "recorded sha (ck_workspace c) r w w'"
    and "r = c\<lparr>ck_seq := max_seq (ck_workspace c) (wd_state w) + 1\<rparr>"
proof -
  let ?wid = "ck_workspace c" and ?h = "checkpoints_of (ck_workspace c) (wd_state w)"
  obtain s1 where app: "append_checkpoint c (wd_state w) = Inr (s1, r)"
    using rec by (auto simp: record_new_def Let_def split: sum.splits prod.splits)
  note add = append_effect [OF app ok]
  show r: "r = c\<lparr>ck_seq := max_seq ?wid (wd_state w) + 1\<rparr>" by (fact add(1))
  define w2 where "w2 = (case touch_workspace r s1 of
      Inl e \<Rightarrow> side_error ''environment: update workspace time'' (w\<lparr>wd_state := s1\<rparr>)
    | Inr s2 \<Rightarrow> (w\<lparr>wd_state := s1\<rparr>)\<lparr>wd_state := s2\<rparr>)"
  obtain err w3 where prune: "prune_checkpoints sha (ck_workspace r) (ck_created r) w2 = (err, w3)" by fastforce
  have w': "wd_state w' = wd_state w3" "wd_files w' = wd_files w3"
    using rec app prune by (auto simp: record_new_def Let_def w2_def [symmetric] side_error_def split: option.splits)
  have "sd_checkpoints (wd_state w2) = sd_checkpoints s1" and files: "wd_files w2 = wd_files w"
    by (auto simp: w2_def side_error_def touch_keeps_checkpoints split: sum.splits)
  then have same: "checkpoints_of v (wd_state w2) = checkpoints_of v s1" and ok2: "seqs_ok (wd_state w2)" for v
    using add(4) by (auto intro: checkpoints_of_cong simp: seqs_ok_def)
  have wr: "ck_workspace r = ?wid" by (simp add: r)
  have h2: "checkpoints_of ?wid (wd_state w2) = ?h @ [r]" using add(2) same by simp
  have above: "ck_seq b < ck_seq r" if "b \<in> set ?h" for b using max_seq_above [OF that] by (simp add: r)
  have pos: "0 < ck_seq r"
  proof -
    have "r \<in> set (checkpoints_of ?wid s1)" by (simp add: add(2))
    then show ?thesis using add(4) by (auto simp: seqs_ok_def checkpoints_of_set)
  qed
  have size: "0 \<le> ck_size r" using app by (auto simp: append_checkpoint_def Let_def split: if_splits)
  have fits: "entry_fits ?h r" using h(2) by (simp add: entry_fits_def r)
  have ok_new: "history_ok (?h @ [r])" by (rule history_ok_append [OF h(1) fits pos size above])
  note pr = prune_effect [OF prune [unfolded wr] ok2 refl, unfolded h2, OF ok_new]
  have cur: "kept (?h @ [r]) (ck_created r) (ck_seq r)" using current_kept [OF ok_new] by simp
  then have h': "checkpoints_of ?wid (wd_state w') = filter (\<lambda>c. kept (?h @ [r]) (ck_created r) (ck_seq c)) ?h @ [r]"
    using pr(1) by (simp add: w')
  have "history_ok (checkpoints_of ?wid (wd_state w'))"
    using history_ok_filter [OF ok_new, of "\<lambda>c. kept (?h @ [r]) (ck_created r) (ck_seq c)"] cur by (simp add: h')
  moreover have "get_archive sha ?wid (ck_ref b) n (wd_files w') = get_archive sha ?wid (ck_ref b) n (wd_files w)"
    if "b \<in> set (checkpoints_of ?wid (wd_state w'))" for b n
    using pr(4) that by (simp add: w' files)
  moreover have "checkpoints_of v (wd_state w') = checkpoints_of v (wd_state w)"
    "get_archive sha v ref n (wd_files w') = get_archive sha v ref n (wd_files w)"
    if "archive_dir sha v \<noteq> archive_dir sha ?wid" for v ref n
  proof -
    have "v \<noteq> ?wid" using that by auto
    then show "checkpoints_of v (wd_state w') = checkpoints_of v (wd_state w)" using pr(2) add(3) same by (simp add: w')
    show "get_archive sha v ref n (wd_files w') = get_archive sha v ref n (wd_files w)"
      using pr(5) [OF _ that] by (simp add: w' files)
  qed
  moreover have "seqs_ok (wd_state w')" using pr(3) by (simp add: w')
  ultimately show "recorded sha ?wid r w w'" unfolding recorded_def Let_def h' by auto
qed

lemma record_checkpoint_recorded:
  assumes rec: "record_checkpoint sha c w = (Inr r, w')" and ok: "seqs_ok (wd_state w)"
    and h: "history_ok (checkpoints_of (ck_workspace c) (wd_state w))" "entry_fits (checkpoints_of (ck_workspace c) (wd_state w)) c"
  shows "recorded sha (ck_workspace c) r w w' \<and> ck_ref r = ck_ref c"
proof (cases "ck_kind c = CheckpointRun \<and> w' = w")
  case True
  note new = record_new_recorded [OF _ ok h, of sha r w']
  show ?thesis
  proof (cases "record_new sha c w = (Inr r, w')")
    case True
    with new show ?thesis by simp
  next
    case False
    with rec True have cur: "current_checkpoint (ck_workspace c) (wd_state w) = Inr r" "ck_ref r = ck_ref c"
      by (auto simp: record_checkpoint_def split: sum.splits state_error.splits if_splits)
    then have "checkpoints_of (ck_workspace c) (wd_state w) \<noteq> []" "last (checkpoints_of (ck_workspace c) (wd_state w)) = r"
      by (auto simp: current_checkpoint_def split: list.splits)
    with ok h(1) cur(2) True show ?thesis by (auto simp: recorded_def)
  qed
next
  case False
  then have "record_new sha c w = (Inr r, w')"
    using rec by (auto simp: record_checkpoint_def split: sum.splits state_error.splits if_splits)
  from record_new_recorded [OF this ok h] show ?thesis by simp
qed

lemma record_checkpoint_failed: "record_checkpoint sha c w = (Inl e, w') \<Longrightarrow> w' = w"
  by (auto simp: record_checkpoint_def record_new_def Let_def split: sum.splits state_error.splits prod.splits if_splits)

text \<open>C10. Recording a checkpoint and pruning keep every archive that is still needed: the new
  entry is the current one, what is left of the history is ordered, and the archive of each
  remaining entry, and every archive and entry of another workspace, reads as before.\<close>

theorem recording_keeps_archives:
  assumes "record_checkpoint sha c w = (Inr r, w')" and "seqs_ok (wd_state w)"
    and "history_ok (checkpoints_of (ck_workspace c) (wd_state w))"
    and "entry_fits (checkpoints_of (ck_workspace c) (wd_state w)) c"
  shows "recorded sha (ck_workspace c) r w w' \<and> ck_ref r = ck_ref c"
  by (rule record_checkpoint_recorded [OF assms])

text \<open>A workspace with the sample history.\<close>

definition sample_world :: world where
  "sample_world =
     \<lparr>wd_state = \<lparr>sd_workspaces = [\<lparr>ws_id = ''w'', ws_strategy = ''s'', ws_source = [], ws_base = [], ws_generation = 1,
                                 ws_created = 0, ws_updated = 0\<rparr>],
                 sd_checkpoints = sample_history, sd_environments = []\<rparr>,
      wd_files = [((archive_dir id ''w'', ''a.tar''), ''x'')], wd_errors = []\<rparr>"

definition sample_entry :: checkpoint where
  "sample_entry = \<lparr>ck_workspace = ''w'', ck_seq = 0, ck_ref = ''c'', ck_kind = CheckpointRun, ck_run = ''r2'', ck_restored = 0,
     ck_size = 9, ck_created = 3\<rparr>"

lemma sample_world_history: "checkpoints_of ''w'' (wd_state sample_world) = sample_history"
  unfolding checkpoints_of_def sample_world_def by (simp add: sample_history_def)

lemma sample_world_seqs: "seqs_ok (wd_state sample_world)"
  by (simp add: seqs_ok_def sample_world_def sample_history_def)

lemma recording_keeps_archives_witness:
  "\<exists>r w'. record_checkpoint id sample_entry sample_world = (Inr r, w') \<and> recorded id ''w'' r sample_world w'"
proof -
  have ws: "ck_workspace sample_entry = ''w''" by (simp add: sample_entry_def)
  have "record_checkpoint id sample_entry sample_world = record_new id sample_entry sample_world"
    unfolding record_checkpoint_def ws current_checkpoint_def sample_world_history by (simp add: sample_history_def sample_entry_def)
  moreover obtain s' r where "append_checkpoint sample_entry (wd_state sample_world) = Inr (s', r)"
    by (simp add: append_checkpoint_def sample_entry_def sample_world_def Let_def)
  then have "\<exists>w'. record_new id sample_entry sample_world = (Inr r, w')"
    by (simp add: record_new_def Let_def split: prod.splits)
  ultimately obtain w' where rec: "record_checkpoint id sample_entry sample_world = (Inr r, w')" by auto
  have "entry_fits sample_history sample_entry"
    by (simp add: entry_fits_def sample_history_def sample_entry_def)
  from recording_keeps_archives [OF rec sample_world_seqs, unfolded ws sample_world_history, OF sample_history_ok this] rec
  show ?thesis by blast
qed

text \<open>Restoring is append only: it records a new current entry that has the archive of the
  chosen entry and names it as its source, after the provider has taken the archive back; a
  workspace or an entry that is not there, or a provider that refuses, changes nothing.\<close>

theorem restoring_appends:
  assumes "restore_workspace sha provider wid seq now w = (res, w')" and "seqs_ok (wd_state w)"
    and "history_ok (checkpoints_of wid (wd_state w))"
  shows "case res of
       Inl e \<Rightarrow> w' = w
     | Inr p \<Rightarrow> \<exists>target r. target \<in> set (checkpoints_of wid (wd_state w)) \<and> ck_seq target = seq
         \<and> provider wid target = None \<and> recorded sha wid r w w'
         \<and> ck_ref r = ck_ref target \<and> ck_kind r = CheckpointRestore \<and> ck_restored r = seq
         \<and> (\<forall>c \<in> set (checkpoints_of wid (wd_state w)). ck_seq c < ck_seq r)
         \<and> p = public_of_checkpoint r True"
proof (cases res)
  case (Inl e)
  then show ?thesis
    using assms(1) record_checkpoint_failed
    by (fastforce simp: restore_workspace_def split: sum.splits option.splits prod.splits)
next
  case (Inr p)
  let ?h = "checkpoints_of wid (wd_state w)"
  obtain target r where t: "List.find (\<lambda>c. ck_seq c = seq) ?h = Some target" "provider wid target = None"
      "record_checkpoint sha (restore_entry wid target now) w = (Inr r, w')" "p = public_of_checkpoint r True"
    using assms(1) Inr
    by (auto simp: restore_workspace_def history_of_def split: sum.splits option.splits prod.splits state_error.splits)
  have target: "target \<in> set ?h" "ck_seq target = seq" using t(1) by (auto simp: find_Some_iff)
  have ws: "ck_workspace (restore_entry wid target now) = wid" by (simp add: restore_entry_def)
  have sizes: "\<forall>b \<in> set ?h. ck_ref b = ck_ref target \<longrightarrow> ck_size b = ck_size target"
    using assms(3) target(1) unfolding history_ok_def by blast
  have fits: "entry_fits ?h (restore_entry wid target now)"
    unfolding entry_fits_def restore_entry_def checkpoint.simps using target sizes by blast
  have "record_new sha (restore_entry wid target now) w = (Inr r, w')"
    using t(3) by (simp add: record_checkpoint_def restore_entry_def)
  from record_new_recorded [OF this assms(2), unfolded ws, OF assms(3) fits]
  have rec: "recorded sha wid r w w'" and r: "r = (restore_entry wid target now)\<lparr>ck_seq := max_seq wid (wd_state w) + 1\<rparr>" by simp_all
  have fields: "ck_ref r = ck_ref target" "ck_kind r = CheckpointRestore" "ck_restored r = seq"
    using target(2) by (simp_all add: r restore_entry_def)
  have above: "\<forall>c \<in> set ?h. ck_seq c < ck_seq r" using max_seq_above by (fastforce simp: r)
  show ?thesis unfolding Inr sum.case using rec fields above t(2,4) target by blast
qed

lemma restoring_appends_witness:
  "\<exists>p r w'. restore_workspace id (\<lambda>_ _. None) ''w'' 2 9 sample_world = (Inr p, w')
     \<and> recorded id ''w'' r sample_world w' \<and> ck_ref r = ''b'' \<and> ck_restored r = 2"
proof -
  obtain target where target: "List.find (\<lambda>c. ck_seq c = 2) sample_history = Some target" "ck_ref target = ''b''" "ck_size target = 7"
    by (simp add: sample_history_def)
  have hist: "history_of ''w'' (wd_state sample_world) = Inr sample_history"
    unfolding history_of_def sample_world_history by (simp add: read_workspace_def sample_world_def)
  obtain s' r where "append_checkpoint (restore_entry ''w'' target 9) (wd_state sample_world) = Inr (s', r)"
    using target(2,3) by (simp add: append_checkpoint_def restore_entry_def sample_world_def Let_def)
  then have "\<exists>w'. record_checkpoint id (restore_entry ''w'' target 9) sample_world = (Inr r, w')"
    by (simp add: record_checkpoint_def restore_entry_def record_new_def Let_def split: prod.splits)
  then obtain p w' where res: "restore_workspace id (\<lambda>_ _. None) ''w'' 2 9 sample_world = (Inr p, w')"
    by (auto simp: restore_workspace_def hist target(1))
  from restoring_appends [OF res sample_world_seqs, unfolded sample_world_history, OF sample_history_ok]
  obtain t r where "t \<in> set sample_history" "ck_seq t = 2" "recorded id ''w'' r sample_world w'" "ck_ref r = ck_ref t" "ck_restored r = 2"
    by auto
  moreover from this(1,2) have "ck_ref t = ''b''" by (auto simp: sample_history_def)
  ultimately show ?thesis using res by auto
qed

end
