(* ===== verification/Go_Path.thy ===== *)
theory Go_Path
  imports Go_Text
begin

section \<open>File paths (path and path/filepath on Unix)\<close>

text \<open>
  The lexical functions the sources use. A path is cleaned by one pass over its components
  with a stack: empty and dot components vanish and a dot-dot removes the component before.
\<close>

abbreviation slash :: char where "slash \<equiv> CHR ''/''"

definition is_abs :: "string \<Rightarrow> bool" where
  "is_abs p \<longleftrightarrow> has_prefix p [slash]"

fun clean_parts :: "bool \<Rightarrow> string list \<Rightarrow> string list \<Rightarrow> string list" where
  "clean_parts rooted st [] = rev st"
| "clean_parts rooted st (c # cs) =
     (if c = [] \<or> c = ''.'' then clean_parts rooted st cs
      else if c = ''..'' then
        (case st of
           [] \<Rightarrow> clean_parts rooted (if rooted then [] else [''..'']) cs
         | x # st' \<Rightarrow> clean_parts rooted (if x = ''..'' then ''..'' # st else st') cs)
      else clean_parts rooted (c # st) cs)"

definition path_comps :: "string \<Rightarrow> string list" where
  "path_comps p = clean_parts (is_abs p) [] (split_on slash p)"

definition path_clean :: "string \<Rightarrow> string" where
  "path_clean p =
     (let s = join_on [slash] (path_comps p) in
      if is_abs p then slash # s else if s = [] then ''.'' else s)"

definition path_join :: "string list \<Rightarrow> string" where
  "path_join ps =
     (case dropWhile (\<lambda>p. p = []) ps of [] \<Rightarrow> [] | q # qs \<Rightarrow> path_clean (join_on [slash] (q # qs)))"

definition path_base :: "string \<Rightarrow> string" where
  "path_base p =
     (if p = [] then ''.''
      else let s = trim_right {slash} p in if s = [] then [slash] else last (split_on slash s))"

text \<open>The path up to and with its last separator.\<close>

definition dir_prefix :: "string \<Rightarrow> string" where
  "dir_prefix p = rev (dropWhile (\<lambda>c. c \<noteq> slash) (rev p))"

definition path_dir :: "string \<Rightarrow> string" where
  "path_dir p = path_clean (dir_prefix p)"

fun common_length :: "string list \<Rightarrow> string list \<Rightarrow> nat" where
  "common_length (x # xs) (y # ys) = (if x = y then common_length xs ys + 1 else 0)"
| "common_length _ _ = 0"

text \<open>\<^verbatim>\<open>filepath.Rel\<close> to an absolute target.\<close>

definition path_rel :: "string \<Rightarrow> string \<Rightarrow> error + string" where
  "path_rel base targ =
     (if \<not> is_abs base then Inl (''Rel: can't make '' @ targ @ '' relative to '' @ base)
      else let bs = path_comps base; ts = path_comps targ; n = common_length bs ts in
        if bs = ts then Inr ''.''
        else Inr (join_on [slash] (replicate (length bs - n) ''..'' @ drop n ts)))"

definition path_abs :: "string \<Rightarrow> string \<Rightarrow> string" where
  "path_abs cwd p = (if is_abs p then path_clean p else path_join [cwd, p])"

subsection \<open>Cleaned absolute paths\<close>

lemma is_abs_iff: "is_abs p \<longleftrightarrow> (\<exists>q. p = slash # q)"
  by (auto simp: is_abs_def has_prefix_iff)

lemma is_abs_simps [simp]: "is_abs (slash # q)" "\<not> is_abs []"
  by (simp_all add: is_abs_iff)

text \<open>Components of a cleaned path: real names.\<close>

definition proper :: "string \<Rightarrow> bool" where
  "proper c \<longleftrightarrow> c \<noteq> [] \<and> c \<noteq> ''.'' \<and> c \<noteq> ''..'' \<and> slash \<notin> set c"

lemma clean_parts_proper:
  assumes "\<forall>c \<in> set cs. slash \<notin> set c" and "\<forall>c \<in> set st. proper c"
  shows "\<forall>c \<in> set (clean_parts True st cs). proper c"
  using assms
proof (induction "True" st cs rule: clean_parts.induct)
  case (2 st c cs)
  have cs: "\<forall>c \<in> set cs. slash \<notin> set c" and c: "slash \<notin> set c" using "2.prems"(1) by auto
  show ?case
  proof (cases "c = [] \<or> c = ''.''")
    case True
    then show ?thesis using "2.hyps"(1) [OF True cs "2.prems"(2)] by auto
  next
    case plain: False
    show ?thesis
    proof (cases "c = ''..''")
      case True
      show ?thesis
      proof (cases st)
        case Nil
        then show ?thesis using "2.hyps"(2) [OF plain True Nil] cs True by simp
      next
        case (Cons x st')
        moreover from this have "x \<noteq> ''..''" using "2.prems"(2) by (simp add: proper_def)
        ultimately show ?thesis using "2.hyps"(3) [OF plain True Cons] cs "2.prems"(2) True by simp
      qed
    next
      case False
      then have "proper c" using plain c by (simp add: proper_def)
      with "2.prems"(2) have "\<forall>c \<in> set (c # st). proper c" by simp
      moreover have "clean_parts True st (c # cs) = clean_parts True (c # st) cs" using plain False by simp
      ultimately show ?thesis using "2.hyps"(4) [OF plain False cs] by presburger
    qed
  qed
qed simp

lemma clean_parts_keep:
  "\<forall>c \<in> set cs. proper c \<Longrightarrow> clean_parts rooted st cs = rev st @ cs"
proof (induction cs arbitrary: st)
  case (Cons c cs)
  then have "clean_parts rooted st (c # cs) = clean_parts rooted (c # st) cs" by (simp add: proper_def)
  with Cons show ?case by simp
qed simp

lemma path_comps_proper: "is_abs p \<Longrightarrow> c \<in> set (path_comps p) \<Longrightarrow> proper c"
  using clean_parts_proper [of "split_on slash p" "[]"] split_on_no_sep by (auto simp: path_comps_def)

lemma path_clean_abs: "is_abs p \<Longrightarrow> path_clean p = slash # join_on [slash] (path_comps p)"
  by (simp add: path_clean_def Let_def)

lemma clean_parts_Nil [simp]: "clean_parts rooted st ([] # cs) = clean_parts rooted st cs"
  by simp

lemma path_comps_join:
  assumes "\<forall>c \<in> set cs. proper c"
  shows "path_comps (slash # join_on [slash] cs) = cs"
proof (cases "cs = []")
  case False
  have "split_on slash (join_on [slash] cs) = cs"
    using assms False by (intro split_join) (auto simp: proper_def)
  then have "path_comps (slash # join_on [slash] cs) = clean_parts True [] ([] # cs)" by (simp add: path_comps_def)
  with clean_parts_keep [OF assms, of True "[]"] show ?thesis by simp
qed (simp add: path_comps_def)

lemma path_comps_clean [simp]: "is_abs p \<Longrightarrow> path_comps (path_clean p) = path_comps p"
  using path_comps_join [of "path_comps p"] path_comps_proper by (simp add: path_clean_abs)

lemma is_abs_clean [simp]: "is_abs p \<Longrightarrow> is_abs (path_clean p)"
  by (simp add: path_clean_abs)

lemma path_clean_idem [simp]: "is_abs p \<Longrightarrow> path_clean (path_clean p) = path_clean p"
  using is_abs_clean [of p] by (simp add: path_clean_abs [of "path_clean p"]) (simp add: path_clean_abs)

lemma path_join_abs:
  assumes "is_abs q"
  shows "path_join (q # qs) = path_clean (join_on [slash] (q # qs))" and "is_abs (join_on [slash] (q # qs))"
proof -
  obtain r where q: "q = slash # r" using assms by (auto simp: is_abs_iff)
  show "path_join (q # qs) = path_clean (join_on [slash] (q # qs))" by (simp add: path_join_def q)
  show "is_abs (join_on [slash] (q # qs))" by (cases qs) (simp_all add: q join_on_Cons)
qed

lemma clean_parts_append:
  "clean_parts rooted st (xs @ ys) = clean_parts rooted (rev (clean_parts rooted st xs)) ys"
  by (induction rooted st xs rule: clean_parts.induct) (auto split: list.splits)

lemma split_on_append2: "split_on sep (x @ sep # y) = split_on sep x @ split_on sep y"
  by (induction x) (auto split: list.splits)

lemma path_rel_inside:
  assumes "is_abs base" and "path_rel base targ = Inr rel" and "rel \<noteq> ''..''" and "\<not> has_prefix rel ''../''"
  shows "\<exists>rest. path_comps targ = path_comps base @ rest"
proof -
  let ?bs = "path_comps base" and ?ts = "path_comps targ"
  have common: "take (common_length bs ts) bs = take (common_length bs ts) ts
      \<and> common_length bs ts \<le> length bs \<and> common_length bs ts \<le> length ts" for bs ts
    by (induction bs ts rule: common_length.induct) auto
  let ?n = "common_length ?bs ?ts"
  show ?thesis
  proof (cases "?bs = ?ts")
    case False
    then have rel: "rel = join_on [slash] (replicate (length ?bs - ?n) ''..'' @ drop ?n ?ts)"
      using assms(1,2) by (simp add: path_rel_def Let_def split: if_splits)
    have "length ?bs - ?n = 0"
    proof (rule ccontr)
      assume "length ?bs - ?n \<noteq> 0"
      then obtain k where "length ?bs - ?n = Suc k" using not0_implies_Suc by blast
      then have r: "rel = join_on [slash] (''..'' # replicate k ''..'' @ drop ?n ?ts)" using rel by simp
      show False
      proof (cases "replicate k ''..'' @ drop ?n ?ts = []")
        case True
        then have "rel = ''..''" using r by (simp only: join_on.simps)
        with assms(3) show False by simp
      next
        case False
        then have "rel = ''../'' @ join_on [slash] (replicate k ''..'' @ drop ?n ?ts)"
          using r by (simp only: join_on_Cons [OF False]) simp
        then have "has_prefix rel ''../''" using has_prefix_append by metis
        with assms(4) show False by simp
      qed
    qed
    with common [of ?bs ?ts] have "?n = length ?bs" by simp
    then have "take (length ?bs) ?ts = ?bs" using common [of ?bs ?ts] by simp
    then have "?ts = ?bs @ drop (length ?bs) ?ts" by (metis append_take_drop_id)
    then show ?thesis by blast
  qed simp
qed

subsection \<open>Going up\<close>

lemma dir_prefix_append: "slash \<notin> set c \<Longrightarrow> dir_prefix (p @ slash # c) = p @ [slash]"
proof -
  assume "slash \<notin> set c"
  then have "dropWhile (\<lambda>d. d \<noteq> slash) (rev c @ slash # rev p) = slash # rev p" by (subst dropWhile_append2) auto
  then show ?thesis by (simp add: dir_prefix_def)
qed

lemma path_comps_trailing: "path_comps (slash # s @ [slash]) = path_comps (slash # s)"
proof -
  have "split_on slash (slash # s @ [slash]) = split_on slash (slash # s) @ [[]]"
    using split_on_append2 [of slash "slash # s" "[]"] by simp
  then show ?thesis by (simp add: path_comps_def clean_parts_append)
qed

lemma dir_split: "\<exists>u. p = u @ last (split_on slash p)"
proof (induction p)
  case (Cons c cs)
  then obtain u where "cs = u @ last (split_on slash cs)" by blast
  moreover obtain l ls where sp: "split_on slash cs = l # ls" by (metis split_on_not_Nil neq_Nil_conv)
  ultimately show ?case
  proof (cases "ls = []")
    case True
    then have "cs = l" using sp join_split [of slash cs] by simp
    then show ?thesis using sp True by auto
  qed auto
qed simp

text \<open>The parent of a cleaned path drops the last component; the root is its own parent.\<close>

lemma path_dir_clean:
  assumes "is_abs p" and "path_clean p = p"
  shows "path_dir p = slash # join_on [slash] (butlast (path_comps p))"
    and "path_comps (path_dir p) = butlast (path_comps p)"
    and "is_abs (path_dir p)" and "path_clean (path_dir p) = path_dir p"
proof -
  let ?cs = "path_comps p"
  have p: "p = slash # join_on [slash] ?cs" using assms by (simp add: path_clean_abs)
  have proper: "\<forall>c \<in> set ?cs. proper c" using path_comps_proper [OF assms(1)] by blast
  then have front: "\<forall>c \<in> set (butlast ?cs). proper c" by (meson in_set_butlastD)
  have "path_comps (dir_prefix p) = butlast ?cs \<and> is_abs (dir_prefix p)"
  proof (cases ?cs rule: rev_cases)
    case Nil
    then have "p = [slash]" using p by simp
    then show ?thesis by (simp add: dir_prefix_def path_comps_def)
  next
    case (snoc bs c)
    have c: "slash \<notin> set c" using proper snoc by (simp add: proper_def)
    have bs: "\<forall>c \<in> set bs. proper c" using proper snoc by simp
    show ?thesis
    proof (cases "bs = []")
      case True
      then have "p = [] @ slash # c" using p snoc by simp
      then have "dir_prefix p = [slash]" using dir_prefix_append [OF c, of "[]"] by simp
      then show ?thesis using snoc True by (simp add: path_comps_def)
    next
      case False
      have "join_on [slash] (bs @ [c]) = join_on [slash] bs @ slash # c" using False
      proof (induction bs)
        case (Cons b bs)
        then show ?case by (cases bs) (simp_all add: join_on_Cons)
      qed simp
      then have "p = (slash # join_on [slash] bs) @ slash # c" using p snoc by simp
      then have "dir_prefix p = slash # join_on [slash] bs @ [slash]" using dir_prefix_append [OF c, of "slash # join_on [slash] bs"] by simp
      then show ?thesis using path_comps_join [OF bs] snoc by (simp add: path_comps_trailing)
    qed
  qed
  then show dir: "path_dir p = slash # join_on [slash] (butlast ?cs)" by (simp add: path_dir_def path_clean_abs)
  show "path_comps (path_dir p) = butlast ?cs" using path_comps_join [OF front] by (simp add: dir)
  then show "is_abs (path_dir p)" "path_clean (path_dir p) = path_dir p" using dir by (simp_all add: path_clean_abs)
qed

text \<open>The directory that the first \<open>k\<close> names of a path lead to.\<close>

definition path_above :: "string \<Rightarrow> nat \<Rightarrow> string" where
  "path_above p k = slash # join_on [slash] (take k (path_comps p))"

lemma above_self: "is_abs p \<Longrightarrow> path_clean p = p \<Longrightarrow> length (path_comps p) \<le> k \<Longrightarrow> path_above p k = p"
  by (simp add: path_above_def path_clean_abs)

lemma above_min: "path_above p (min k (length (path_comps p))) = path_above p k"
  by (cases "k \<le> length (path_comps p)") (simp_all add: path_above_def)

lemma above_dir:
  assumes "is_abs p" and "path_clean p = p" and "path_comps p \<noteq> []" and "k < length (path_comps p)"
  shows "path_above (path_dir p) k = path_above p k"
  using path_dir_clean(2) [OF assms(1,2)] assms(3,4) by (simp add: path_above_def take_butlast)

lemma dir_fixed:
  assumes "is_abs p" and "path_clean p = p"
  shows "path_dir p = p \<longleftrightarrow> path_comps p = []"
proof
  assume "path_dir p = p"
  then have "butlast (path_comps p) = path_comps p" using path_dir_clean(2) [OF assms] by simp
  then show "path_comps p = []" by (metis append_butlast_last_id append_self_conv list.distinct(1))
next
  assume "path_comps p = []"
  then show "path_dir p = p" using path_dir_clean(1) [OF assms] assms by (simp add: path_clean_abs)
qed

text \<open>
  The first \<open>k\<close> names of a path are the longest part of it that is \<open>found\<close>: every longer part
  is not, so at most one \<open>k\<close> qualifies, and it is the whole path when the path itself is found.
\<close>

definition deepest :: "(string \<Rightarrow> bool) \<Rightarrow> string \<Rightarrow> nat \<Rightarrow> bool" where
  "deepest found p k \<longleftrightarrow> k \<le> length (path_comps p) \<and> found (path_above p k)
     \<and> (\<forall>j. k < j \<and> j \<le> length (path_comps p) \<longrightarrow> \<not> found (path_above p j))"

lemma deepest_unique: "deepest found p k \<Longrightarrow> deepest found p l \<Longrightarrow> k = l"
  unfolding deepest_def by (meson linorder_neqE_nat)

lemma deepest_self:
  assumes "is_abs p" and "path_clean p = p" and "found p"
  shows "deepest found p (length (path_comps p))"
  using assms by (simp add: deepest_def above_self)

lemma deepest_dir:
  assumes "is_abs p" and "path_clean p = p" and "path_comps p \<noteq> []" and "\<not> found p" and "deepest found (path_dir p) k"
  shows "deepest found p k \<and> drop k (path_comps p) = drop k (path_comps (path_dir p)) @ [last (path_comps p)]"
proof -
  define n where "n = length (path_comps (path_dir p))"
  note comps = path_dir_clean(2) [OF assms(1,2)]
  have n: "length (path_comps p) = Suc n" using assms(3) by (simp add: n_def comps)
  have same: "path_above (path_dir p) j = path_above p j" if "j \<le> n" for j
    using above_dir [OF assms(1-3)] that n by simp
  have up: "k \<le> n" "found (path_above (path_dir p) k)" "\<And>j. k < j \<Longrightarrow> j \<le> n \<Longrightarrow> \<not> found (path_above (path_dir p) j)"
    using assms(5) by (auto simp: deepest_def n_def)
  have "deepest found p k"
    unfolding deepest_def n
  proof (intro conjI allI impI)
    fix j assume j: "k < j \<and> j \<le> Suc n"
    show "\<not> found (path_above p j)"
    proof (cases "j = Suc n")
      case True
      then show ?thesis using assms(1,2,4) n by (simp add: above_self)
    next
      case False
      then have "j \<le> n" using j by simp
      with j up(3) same show ?thesis by metis
    qed
  qed (use up same in auto)
  moreover have "path_comps p = path_comps (path_dir p) @ [last (path_comps p)]" using assms(3) by (simp add: comps)
  then have "drop k (path_comps p) = drop k (path_comps (path_dir p)) @ [last (path_comps p)]"
    using up(1) n_def by (metis diff_is_0_eq drop0 drop_append)
  ultimately show ?thesis ..
qed

end
