(* ===== verification/Jail.thy ===== *)
theory Jail
  imports Go_Path
begin

section \<open>Path containment (internal/jail/jail.go)\<close>

text \<open>
  The check that keeps the file tools under their root. Symbolic links are resolved by the
  operating system: \<^verbatim>\<open>filepath.EvalSymlinks\<close> is the parameter \<open>ev\<close>, and what the code
  relies on is that it gives an absolute path for an absolute one. The loop that looks for
  the deepest existing ancestor is a partial function, so its termination is a theorem.
\<close>

type_synonym links = "string \<Rightarrow> error + string"

definition jail_root :: "links \<Rightarrow> string \<Rightarrow> string \<Rightarrow> error + string" where
  "jail_root ev cwd root =
     (case ev (path_abs cwd root) of Inl e \<Rightarrow> Inl (''jail: root: '' @ e) | Inr r \<Rightarrow> Inr r)"

partial_function (option) resolve_existing :: "links \<Rightarrow> string \<Rightarrow> string \<Rightarrow> (error + string) option" where
  "resolve_existing ev below cur =
     (case ev cur of
        Inr resolved \<Rightarrow> Some (Inr (path_join [resolved, below]))
      | Inl e \<Rightarrow>
          if path_dir cur = cur then Some (Inl e)
          else resolve_existing ev (path_join [path_base cur, below]) (path_dir cur))"

definition cannot_resolve :: "(error + string) \<Rightarrow> error + string" where
  "cannot_resolve r = (case r of Inl e \<Rightarrow> Inl (''jail: cannot resolve path: '' @ e) | Inr p \<Rightarrow> Inr p)"

definition contained :: "string \<Rightarrow> string \<Rightarrow> string \<Rightarrow> error + string" where
  "contained root path real =
     and_then (path_rel root real) (\<lambda>rel.
       if rel = ''..'' \<or> has_prefix rel ''../'' \<or> is_abs rel
       then Inl (''jail: path '' @ quoted path @ '' escapes root '' @ quoted root)
       else Inr real)"

definition resolve_path :: "links \<Rightarrow> string \<Rightarrow> string \<Rightarrow> string \<Rightarrow> (error + string) option" where
  "resolve_path ev cwd root path =
     (if path = [] then Some (Inl ''jail: empty path'')
      else let p = (if is_abs path then path else path_join [root, path]) in
        map_option (\<lambda>r. and_then (cannot_resolve r) (contained root path)) (resolve_existing ev [] (path_abs cwd p)))"

definition resolve_path_unconfined :: "links \<Rightarrow> string \<Rightarrow> string \<Rightarrow> string \<Rightarrow> (error + string) option" where
  "resolve_path_unconfined ev cwd root path =
     (if \<not> is_abs path then resolve_path ev cwd root path
      else map_option cannot_resolve (resolve_existing ev [] (path_clean path)))"

definition resolver :: "bool \<Rightarrow> links \<Rightarrow> string \<Rightarrow> string \<Rightarrow> string \<Rightarrow> (error + string) option" where
  "resolver unconfined = (if unconfined then resolve_path_unconfined else resolve_path)"

definition jail_check :: "links \<Rightarrow> string \<Rightarrow> string \<Rightarrow> string \<Rightarrow> error option option" where
  "jail_check ev cwd root path =
     map_option (\<lambda>r. case r of Inl e \<Rightarrow> Some e | Inr _ \<Rightarrow> None) (resolve_path ev cwd root path)"

subsection \<open>The search for an existing ancestor\<close>

lemma path_base_clean:
  assumes "is_abs p" and "path_clean p = p" and "path_comps p = bs @ [c]"
  shows "path_base p = c"
proof -
  have all: "\<forall>c \<in> set (bs @ [c]). proper c" using path_comps_proper [OF assms(1)] assms(3) by auto
  then have c: "proper c" by simp
  have p: "p = slash # join_on [slash] (bs @ [c])" using assms by (simp add: path_clean_abs)
  have "last (split_on slash (join_on [slash] (bs @ [c]))) = c"
    using split_join [of "bs @ [c]" slash] all by (simp add: proper_def)
  then have last: "last (split_on slash p) = c" unfolding p by simp
  obtain u where u: "p = u @ c" using dir_split [of p] last by metis
  obtain c' d where cd: "c = c' @ [d]" "d \<noteq> slash" using c by (cases c rule: rev_cases) (auto simp: proper_def)
  then have "trim_right {slash} p = p" using u by (simp add: trim_right_def)
  then show ?thesis using last by (simp add: path_base_def Let_def p)
qed

lemma join_below:
  assumes "proper c" and "\<forall>d \<in> set rest. proper d"
  shows "path_join [c, join_on [slash] rest] = join_on [slash] (c # rest)"
proof -
  have all: "\<forall>d \<in> set (c # rest). proper d" using assms by simp
  have c: "c \<noteq> []" "\<not> is_abs (c @ s)" for s using assms(1) by (cases c; auto simp: proper_def is_abs_iff)+
  have "split_on slash (c @ slash # join_on [slash] rest) = c # split_on slash (join_on [slash] rest)"
    using assms(1) by (intro split_on_append) (simp add: proper_def)
  moreover have "clean_parts False [] (c # split_on slash (join_on [slash] rest)) = c # rest"
  proof (cases "rest = []")
    case True
    then show ?thesis using clean_parts_keep [of "[c]" False "[]"] assms(1) by (simp add: proper_def)
  next
    case False
    then have "split_on slash (join_on [slash] rest) = rest" using assms(2) by (intro split_join) (auto simp: proper_def)
    with clean_parts_keep [OF all, of False "[]"] show ?thesis by simp
  qed
  ultimately have "path_comps (c @ slash # join_on [slash] rest) = c # rest"
    using c(2) by (simp add: path_comps_def)
  moreover have "join_on [slash] (c # rest) \<noteq> []" using c(1) by (cases rest) (simp_all add: join_on_Cons)
  ultimately show ?thesis using c by (simp add: path_join_def path_clean_def Let_def)
qed

lemma join_resolved:
  assumes "is_abs q" and "\<forall>d \<in> set rest. proper d"
  shows "path_comps (path_join [q, join_on [slash] rest]) = path_comps q @ rest"
    and "is_abs (path_join [q, join_on [slash] rest])"
    and "path_clean (path_join [q, join_on [slash] rest]) = path_join [q, join_on [slash] rest]"
proof -
  have j: "path_join [q, join_on [slash] rest] = path_clean (q @ slash # join_on [slash] rest)"
    and abs: "is_abs (q @ slash # join_on [slash] rest)"
    using path_join_abs [OF assms(1), of "[join_on [slash] rest]"] by simp_all
  show "is_abs (path_join [q, join_on [slash] rest])"
    "path_clean (path_join [q, join_on [slash] rest]) = path_join [q, join_on [slash] rest]"
    using abs by (simp_all add: j)
  have "clean_parts True st (split_on slash (join_on [slash] rest)) = rev st @ rest" for st
  proof (cases "rest = []")
    case False
    then have "split_on slash (join_on [slash] rest) = rest" using assms(2) by (intro split_join) (auto simp: proper_def)
    with clean_parts_keep [OF assms(2)] show ?thesis by simp
  qed simp
  then show "path_comps (path_join [q, join_on [slash] rest]) = path_comps q @ rest"
    using abs assms(1) by (simp add: j) (simp add: path_comps_def split_on_append2 clean_parts_append)
qed

text \<open>The result is what the links make of the deepest ancestor they resolve, followed by the names below it.\<close>

lemma resolve_existing_result:
  assumes "is_abs cur" and "path_clean cur = cur" and "\<forall>d \<in> set rest. proper d"
  shows "\<exists>r. resolve_existing ev (join_on [slash] rest) cur = Some r
     \<and> (\<forall>real. r = Inr real \<longrightarrow> (\<exists>k q. deepest (\<lambda>s. \<not> isl (ev s)) cur k \<and> ev (path_above cur k) = Inr q
          \<and> real = path_join [q, join_on [slash] (drop k (path_comps cur) @ rest)]))"
  using assms
proof (induction "length (path_comps cur)" arbitrary: cur rest)
  case 0
  show ?case
  proof (cases "ev cur")
    case (Inl e)
    have "path_comps cur = []" using 0 by simp
    then have "path_dir cur = cur" using path_dir_clean(1) [OF 0(2,3)] 0(2,3) by (simp add: path_clean_abs)
    with Inl show ?thesis by (subst resolve_existing.simps) simp
  next
    case (Inr q)
    then have "deepest (\<lambda>s. \<not> isl (ev s)) cur 0 \<and> ev (path_above cur 0) = Inr q"
      using deepest_self [OF 0(2,3), of "\<lambda>s. \<not> isl (ev s)"] above_self [OF 0(2,3), of 0] 0(1) by simp
    with Inr 0(1) show ?thesis by (subst resolve_existing.simps) auto
  qed
next
  case (Suc n)
  show ?case
  proof (cases "ev cur")
    case (Inr q)
    let ?k = "length (path_comps cur)"
    have "deepest (\<lambda>s. \<not> isl (ev s)) cur ?k \<and> ev (path_above cur ?k) = Inr q"
      using deepest_self [OF Suc.prems(1,2), of "\<lambda>s. \<not> isl (ev s)"] above_self [OF Suc.prems(1,2), of ?k] Inr by simp
    moreover have "resolve_existing ev (join_on [slash] rest) cur = Some (Inr (path_join [q, join_on [slash] (drop ?k (path_comps cur) @ rest)]))"
      using Inr by (subst resolve_existing.simps) simp
    ultimately show ?thesis by blast
  next
    case (Inl e)
    obtain bs c where bc: "path_comps cur = bs @ [c]" using Suc.hyps(2) by (cases "path_comps cur" rule: rev_cases) auto
    have c: "proper c" using path_comps_proper [OF Suc.prems(1), of c] bc by simp
    note dir = path_dir_clean [OF Suc.prems(1,2)]
    have below: "path_join [path_base cur, join_on [slash] rest] = join_on [slash] (c # rest)"
      using path_base_clean [OF Suc.prems(1,2) bc] join_below [OF c Suc.prems(3)] by simp
    have "path_dir cur \<noteq> cur"
    proof
      assume "path_dir cur = cur"
      then have "butlast (path_comps cur) = path_comps cur" using dir(2) by simp
      with bc show False by simp
    qed
    with Inl below have step: "resolve_existing ev (join_on [slash] rest) cur = resolve_existing ev (join_on [slash] (c # rest)) (path_dir cur)"
      by (subst resolve_existing.simps) simp
    have "n = length (path_comps (path_dir cur))" using Suc.hyps(2) by (simp add: dir(2))
    from Suc.hyps(1) [OF this dir(3,4), of "c # rest"] c Suc.prems(3)
    obtain r where r: "resolve_existing ev (join_on [slash] (c # rest)) (path_dir cur) = Some r"
      and real: "\<And>real. r = Inr real \<Longrightarrow> \<exists>k q. deepest (\<lambda>s. \<not> isl (ev s)) (path_dir cur) k \<and> ev (path_above (path_dir cur) k) = Inr q
          \<and> real = path_join [q, join_on [slash] (drop k (path_comps (path_dir cur)) @ c # rest)]" by auto
    have "\<exists>k q. deepest (\<lambda>s. \<not> isl (ev s)) cur k \<and> ev (path_above cur k) = Inr q
          \<and> real = path_join [q, join_on [slash] (drop k (path_comps cur) @ rest)]" if res: "r = Inr real" for real
    proof -
      obtain k q where k: "deepest (\<lambda>s. \<not> isl (ev s)) (path_dir cur) k" "ev (path_above (path_dir cur) k) = Inr q"
        "real = path_join [q, join_on [slash] (drop k (path_comps (path_dir cur)) @ c # rest)]" using real [OF res] by blast
      have ne: "path_comps cur \<noteq> []" and none: "\<not> \<not> isl (ev cur)" using bc Inl by simp_all
      note up = deepest_dir [OF Suc.prems(1,2) ne none k(1)]
      have "k < length (path_comps cur)" using k(1) bc by (simp add: deepest_def dir(2))
      then have "path_above (path_dir cur) k = path_above cur k" by (rule above_dir [OF Suc.prems(1,2) ne])
      then have "deepest (\<lambda>s. \<not> isl (ev s)) cur k \<and> ev (path_above cur k) = Inr q
          \<and> real = path_join [q, join_on [slash] (drop k (path_comps cur) @ rest)]" using k(2,3) up bc by simp
      then show ?thesis by blast
    qed
    with r step show ?thesis by metis
  qed
qed

lemma path_abs_clean: "is_abs cwd \<Longrightarrow> is_abs (path_abs cwd p) \<and> path_clean (path_abs cwd p) = path_abs cwd p"
  using path_join_abs [of cwd "[p]"] by (auto simp: path_abs_def)

lemma resolve_existing_start:
  assumes "is_abs cwd"
  obtains r where "resolve_existing ev [] (path_abs cwd p) = Some r"
    and "\<And>real. r = Inr real \<Longrightarrow> \<exists>k q. deepest (\<lambda>s. \<not> isl (ev s)) (path_abs cwd p) k \<and> ev (path_above (path_abs cwd p) k) = Inr q
          \<and> real = path_join [q, join_on [slash] (drop k (path_comps (path_abs cwd p)))]"
  using resolve_existing_result [of "path_abs cwd p" "[]" ev] path_abs_clean [OF assms, of p] by auto

text \<open>Looking for the deepest existing ancestor always ends: whatever the file system answers,
  a path is resolved or refused.\<close>

theorem jail_returns:
  assumes "is_abs cwd"
  shows "\<exists>r. resolver unconfined ev cwd root path = Some r"
proof -
  have some: "\<exists>r. resolve_existing ev [] (path_abs cwd p) = Some r" for p
    using resolve_existing_start [OF assms, of ev p] by blast
  then have inner: "\<exists>r. resolve_path ev cwd root path = Some r"
    unfolding resolve_path_def Let_def by (metis map_option_eq_Some)
  have "\<exists>r. resolve_path_unconfined ev cwd root path = Some r" if "is_abs path"
    using some [of path] that by (auto simp: resolve_path_unconfined_def path_abs_def)
  with inner show ?thesis by (cases "unconfined \<and> is_abs path") (auto simp: resolver_def resolve_path_unconfined_def)
qed

text \<open>C16. A path the jail accepts is one name under the root: a cleaned absolute path that starts
  with the components of the root, has no dot-dot, and is what the operating system makes of the
  longest part of the requested path it can resolve (all of it when the path resolves, its last
  link included), followed by the names below that part, of which none resolves. So a link of
  the requested path that leads somewhere is never left in the accepted one; a name that does not
  resolve, a dangling link among them, is kept as a name.\<close>

theorem jail_contains:
  assumes links: "\<forall>p q. is_abs p \<and> ev p = Inr q \<longrightarrow> is_abs q" and dirs: "is_abs cwd" "is_abs root"
    and asked: "p = path_abs cwd (if is_abs path then path else path_join [root, path])"
    and acc: "resolve_path ev cwd root path = Some (Inr real)"
  shows "is_abs real \<and> path_clean real = real \<and> (\<exists>rest. path_comps real = path_comps root @ rest)
     \<and> ''..'' \<notin> set (path_comps real)
     \<and> (\<exists>k q. k \<le> length (path_comps p) \<and> ev (path_above p k) = Inr q
          \<and> (\<forall>j. k < j \<and> j \<le> length (path_comps p) \<longrightarrow> (\<exists>e. ev (path_above p j) = Inl e))
          \<and> path_comps real = path_comps q @ drop k (path_comps p))"
proof -
  let ?p = "if is_abs path then path else path_join [root, path]"
  obtain r where r: "resolve_existing ev [] (path_abs cwd ?p) = Some r"
    and res: "\<And>real. r = Inr real \<Longrightarrow> \<exists>k q. deepest (\<lambda>s. \<not> isl (ev s)) p k \<and> ev (path_above p k) = Inr q
          \<and> real = path_join [q, join_on [slash] (drop k (path_comps p))]"
    using resolve_existing_start [OF dirs(1)] unfolding asked by blast
  have "and_then (cannot_resolve r) (contained root path) = Inr real"
    using acc r by (auto simp: resolve_path_def Let_def split: if_splits)
  then have rr: "r = Inr real" and con: "contained root path real = Inr real"
    by (auto simp: and_then_Inr_iff cannot_resolve_def contained_def split: sum.splits if_splits)
  obtain k q where a: "deepest (\<lambda>s. \<not> isl (ev s)) p k" "ev (path_above p k) = Inr q"
    "real = path_join [q, join_on [slash] (drop k (path_comps p))]" using res [OF rr] by blast
  have abs: "is_abs p" using path_abs_clean [OF dirs(1)] by (simp add: asked)
  have q: "is_abs q" using links a(2) is_abs_simps(1) unfolding path_above_def by blast
  have "\<forall>d \<in> set (drop k (path_comps p)). proper d" using path_comps_proper [OF abs] by (meson in_set_dropD)
  note real = join_resolved [OF q this, folded a(3)]
  obtain rel where rel: "path_rel root real = Inr rel" "rel \<noteq> ''..''" "\<not> has_prefix rel ''../''"
    using con by (auto simp: contained_def and_then_Inr_iff split: if_splits)
  have dots: "''..'' \<notin> set (path_comps real)" using path_comps_proper [OF real(2), of "''..''"] by (auto simp: proper_def)
  have "k \<le> length (path_comps p)" "\<forall>j. k < j \<and> j \<le> length (path_comps p) \<longrightarrow> (\<exists>e. ev (path_above p j) = Inl e)"
    using a(1) unfolding deepest_def by (metis isl_def)+
  with dots path_rel_inside [OF dirs(2) rel] real a(2) show ?thesis by metis
qed

text \<open>A root without links, in which nothing else exists.\<close>

definition sample_links :: links where
  "sample_links p = (if p = ''/r'' then Inr ''/r'' else Inl ''missing'')"

lemma jail_returns_witness: "\<exists>r. resolver True sample_links ''/'' ''/r'' ''a'' = Some r"
  by (rule jail_returns) simp

lemma jail_contains_witness:
  "resolve_path sample_links ''/'' ''/r'' ''a/../b'' = Some (Inr ''/r/b'') \<and> (\<exists>rest. path_comps ''/r/b'' = path_comps ''/r'' @ rest)"
proof -
  have comps: "path_comps ''/r/a/../b'' = [''r'', ''b'']" "path_comps ''/r/b'' = [''r'', ''b'']" "path_comps ''/r'' = [''r'']"
    "path_comps ''/r/'' = [''r'']"
    by (simp_all add: path_comps_def)
  have up: "path_dir ''/r/b'' = ''/r''" "path_base ''/r/b'' = ''b''"
    by (simp_all add: path_dir_def dir_prefix_def path_clean_def comps path_base_def trim_right_def)
  have below: "path_join [''b'', []] = ''b''" "path_join [''/r'', ''b''] = ''/r/b''" "path_join [''/r'', ''a/../b''] = ''/r/b''"
    by (simp_all add: path_join_def path_clean_def comps) (simp add: path_comps_def is_abs_iff)
  have "resolve_existing sample_links [] ''/r/b'' = Some (Inr ''/r/b'')"
    by (subst resolve_existing.simps, simp add: sample_links_def up, subst resolve_existing.simps) (simp add: below sample_links_def)
  moreover have "path_rel ''/r'' ''/r/b'' = Inr ''b''" by (simp add: path_rel_def comps)
  ultimately have res: "resolve_path sample_links ''/'' ''/r'' ''a/../b'' = Some (Inr ''/r/b'')"
    by (simp add: resolve_path_def below path_abs_def path_clean_def comps cannot_resolve_def contained_def has_prefix_def is_abs_iff)
  moreover have "\<forall>p q. is_abs p \<and> sample_links p = Inr q \<longrightarrow> is_abs q" by (auto simp: sample_links_def)
  ultimately show ?thesis using jail_contains [OF _ _ _ refl res] by simp
qed

end
