(* ===== verification/Output_Tail.thy ===== *)
theory Output_Tail
  imports Go_Text
begin

section \<open>The bounded tail of a command's output (plugins/bash/output.go, bash.go)\<close>

text \<open>
  A ring buffer that keeps the last bytes written to it and counts the bytes and lines that
  fell off, and the cut of its content to a number of lines and bytes. The growth of the
  buffer's capacity is not represented. Counters are unbounded.
\<close>

record output_tail =
  ot_limit :: nat
  ot_data :: string
  ot_start :: nat
  ot_lines :: nat
  ot_bytes :: nat

definition empty_tail :: "nat \<Rightarrow> output_tail" where
  "empty_tail n = \<lparr>ot_limit = n, ot_data = [], ot_start = 0, ot_lines = 0, ot_bytes = 0\<rparr>"

definition newlines :: "string \<Rightarrow> nat" where
  "newlines s = length (filter (\<lambda>c. c = newline) s)"

text \<open>\<^verbatim>\<open>copy(data[pos:], x)\<close>\<close>

definition copy_at :: "nat \<Rightarrow> string \<Rightarrow> string \<Rightarrow> string" where
  "copy_at pos x d = take pos d @ take (length d - pos) x @ drop (pos + length x) d"

definition tail_fill :: "output_tail \<Rightarrow> string \<Rightarrow> output_tail \<times> string" where
  "tail_fill t d =
     (let keep = min (ot_limit t - length (ot_data t)) (length d) in
      (t\<lparr>ot_data := ot_data t @ take keep d\<rparr>, drop keep d))"

definition tail_replace :: "output_tail \<Rightarrow> string \<Rightarrow> output_tail" where
  "tail_replace t d =
     t\<lparr>ot_lines := ot_lines t + newlines (ot_data t) + newlines (take (length d - ot_limit t) d),
       ot_bytes := ot_bytes t + length d,
       ot_data := copy_at 0 (drop (length d - ot_limit t) d) (ot_data t),
       ot_start := 0\<rparr>"

definition tail_rotate :: "output_tail \<Rightarrow> string \<Rightarrow> output_tail" where
  "tail_rotate t d =
     (let k = min (length d) (ot_limit t - ot_start t) in
      t\<lparr>ot_lines := ot_lines t + newlines (take k (drop (ot_start t) (ot_data t))) + newlines (take (length d - k) (ot_data t)),
        ot_bytes := ot_bytes t + length d,
        ot_data := copy_at 0 (drop k d) (copy_at (ot_start t) (take k d) (ot_data t)),
        ot_start := (ot_start t + length d) mod ot_limit t\<rparr>)"

definition tail_write :: "output_tail \<Rightarrow> string \<Rightarrow> output_tail" where
  "tail_write t d =
     (let (t1, rest) = tail_fill t d in
      if rest = [] then t1
      else if length rest \<ge> ot_limit t1 then tail_replace t1 rest
      else tail_rotate t1 rest)"

definition tail_string :: "output_tail \<Rightarrow> string" where
  "tail_string t = (if ot_start t = 0 then ot_data t else drop (ot_start t) (ot_data t) @ take (ot_start t) (ot_data t))"

subsection \<open>The buffer refines the last bytes of everything written\<close>

definition represents :: "output_tail \<Rightarrow> string \<Rightarrow> bool" where
  "represents t w \<longleftrightarrow>
     tail_string t = drop (length w - ot_limit t) w
     \<and> length (ot_data t) = min (ot_limit t) (length w)
     \<and> ot_bytes t = length w - ot_limit t
     \<and> ot_lines t = newlines (take (length w - ot_limit t) w)
     \<and> (ot_start t = 0 \<or> ot_start t < ot_limit t \<and> length (ot_data t) = ot_limit t)"

lemma newlines_append [simp]: "newlines (x @ y) = newlines x + newlines y"
  by (simp add: newlines_def)

lemma newlines_Nil [simp]: "newlines [] = 0"
  by (simp add: newlines_def)

lemma represents_empty: "represents (empty_tail n) []"
  by (simp add: represents_def empty_tail_def tail_string_def)

lemma newlines_ring: "newlines (tail_string t) = newlines (ot_data t)"
  by (simp add: tail_string_def) (metis add.commute append_take_drop_id newlines_append)

lemma tail_fill_represents:
  assumes "represents t w" and "tail_fill t d = (t1, rest)"
  shows "\<exists>d1. d = d1 @ rest \<and> represents t1 (w @ d1) \<and> ot_limit t1 = ot_limit t
     \<and> (rest \<noteq> [] \<longrightarrow> length (ot_data t1) = ot_limit t1)"
proof -
  let ?k = "min (ot_limit t - length (ot_data t)) (length d)"
  have t1: "t1 = t\<lparr>ot_data := ot_data t @ take ?k d\<rparr>" and rest: "rest = drop ?k d"
    using assms(2) by (simp_all add: tail_fill_def Let_def)
  have "represents t1 (w @ take ?k d)"
  proof (cases "length w < ot_limit t")
    case True
    then have "ot_start t = 0" "length (ot_data t) = length w" using assms(1) by (auto simp: represents_def)
    with True assms(1) show ?thesis by (auto simp: represents_def t1 tail_string_def min_def)
  next
    case False
    then have "?k = 0" using assms(1) by (simp add: represents_def)
    with assms(1) show ?thesis by (simp add: t1)
  qed
  moreover have "length (ot_data t1) = ot_limit t1" if "rest \<noteq> []"
    using that assms(1) by (auto simp: t1 rest represents_def min_def)
  ultimately show ?thesis by (intro exI [of _ "take ?k d"]) (simp add: rest t1)
qed

lemma full_ring:
  assumes "represents t w" and "length (ot_data t) = ot_limit t"
  shows "w = take (length w - ot_limit t) w @ tail_string t" and "ot_limit t \<le> length w" and "length (tail_string t) = ot_limit t"
proof -
  show "w = take (length w - ot_limit t) w @ tail_string t"
    using assms(1) by (simp add: represents_def)
  have "ot_limit t = min (ot_limit t) (length w)" using assms by (simp add: represents_def)
  then show "ot_limit t \<le> length w" by (simp add: min_def split: if_splits)
  then show "length (tail_string t) = ot_limit t" using assms(1) by (simp add: represents_def)
qed

lemma tail_replace_represents:
  assumes "represents t w" and "length (ot_data t) = ot_limit t" and "length d \<ge> ot_limit t"
  shows "represents (tail_replace t d) (w @ d)"
proof -
  note ring = full_ring [OF assms(1,2)]
  have "take (length (w @ d) - ot_limit t) (w @ d) = w @ take (length d - ot_limit t) d"
    using assms(3) ring(2) by simp
  moreover have "newlines w = ot_lines t + newlines (ot_data t)"
    using arg_cong [OF ring(1), of newlines] assms(1) by (simp add: newlines_ring represents_def)
  moreover have "copy_at 0 (drop (length d - ot_limit t) d) (ot_data t) = drop (length d - ot_limit t) d"
    using assms(2,3) by (simp add: copy_at_def)
  ultimately show ?thesis
    using assms ring(2) by (simp add: represents_def tail_replace_def tail_string_def)
qed

lemma rotate_ring:
  assumes "length D = L" and "s < L" and "length d < L" and "k = min (length d) (L - s)"
  defines "D' \<equiv> copy_at 0 (drop k d) (copy_at s (take k d) D)" and "s' \<equiv> (s + length d) mod L"
  shows "drop s' D' @ take s' D' = drop (length d) (drop s D @ take s D) @ d" and "length D' = L"
    and "take (length d) (drop s D @ take s D) = take k (drop s D) @ take (length d - k) D"
proof -
  show "take (length d) (drop s D @ take s D) = take k (drop s D) @ take (length d - k) D"
    using assms(1-4) by (auto simp: min_def)
  have "drop s' D' @ take s' D' = drop (length d) (drop s D @ take s D) @ d \<and> length D' = L"
  proof (cases "length d \<le> L - s")
    case True
    then have D': "D' = take s D @ d @ drop (s + length d) D"
      using assms(1-4) by (simp add: D'_def copy_at_def)
    show ?thesis
    proof (cases "s + length d = L")
      case True
      then have "s' = 0" by (simp add: s'_def)
      with True show ?thesis using assms(1,2) by (simp add: D')
    next
      case False
      then have "s' = s + length d" using True assms(2) by (simp add: s'_def)
      with True show ?thesis using assms(1,2) by (simp add: D' add.commute)
    qed
  next
    case False
    define m where "m = length d - (L - s)"
    have m: "m < s" "s + length d = L + m" "length d = L - s + m" using False assms(2,3) by (simp_all add: m_def)
    have k: "k = L - s" using False assms(4) by simp
    have inner: "copy_at s (take k d) D = take s D @ take k d"
      using assms(1,2) m by (simp add: copy_at_def k)
    have "length (drop k d) = m" using m by (simp add: k)
    then have D': "D' = drop k d @ drop m (take s D) @ take k d"
      unfolding D'_def inner using m assms(1,2) by (simp add: copy_at_def)
    have "s' = m" using m assms(2) by (simp add: s'_def)
    with D' \<open>length (drop k d) = m\<close> show ?thesis
      using m assms(1,2) k by simp
  qed
  then show "drop s' D' @ take s' D' = drop (length d) (drop s D @ take s D) @ d" "length D' = L" by simp_all
qed

lemma tail_rotate_represents:
  assumes "represents t w" and "length (ot_data t) = ot_limit t" and "length d < ot_limit t"
  shows "represents (tail_rotate t d) (w @ d)"
proof -
  note ring = full_ring [OF assms(1,2)]
  let ?s = "ot_start t" and ?D = "ot_data t" and ?L = "ot_limit t"
  define k where "k = min (length d) (?L - ?s)"
  have s: "?s < ?L" using assms(1,3) by (auto simp: represents_def)
  note rot = rotate_ring [OF assms(2) s assms(3) k_def]
  have str: "tail_string t = drop ?s ?D @ take ?s ?D" by (simp add: tail_string_def)
  have t': "ot_data (tail_rotate t d) = copy_at 0 (drop k d) (copy_at ?s (take k d) ?D)"
    "ot_start (tail_rotate t d) = (?s + length d) mod ?L" "ot_limit (tail_rotate t d) = ?L"
    "ot_bytes (tail_rotate t d) = ot_bytes t + length d"
    "ot_lines (tail_rotate t d) = ot_lines t + newlines (take (length d) (tail_string t))"
    using rot(3) by (simp_all add: tail_rotate_def Let_def str flip: k_def)
  have "tail_string (tail_rotate t d) = drop (length d) (tail_string t) @ d"
    using rot(1) unfolding tail_string_def [of "tail_rotate t d"] t' str by (cases "(?s + length d) mod ?L = 0") simp_all
  moreover have "drop (length (w @ d) - ?L) (w @ d) = drop (length d) (tail_string t) @ d"
  proof -
    have "length w - ?L + length d = length (w @ d) - ?L" "length (w @ d) - ?L - length w = 0" using ring(2) assms(3) by simp_all
    moreover have "drop (length d) (tail_string t) = drop (length w - ?L + length d) w"
      using assms(1) by (simp add: represents_def add.commute)
    ultimately show ?thesis by simp
  qed
  moreover have "take (length (w @ d) - ?L) (w @ d) = take (length w - ?L) w @ take (length d) (tail_string t)"
  proof -
    have "length (w @ d) - ?L = (length w - ?L) + length d" "length w - ?L + length d \<le> length w" using ring(2) assms(3) by simp_all
    then have "take (length (w @ d) - ?L) (w @ d) = take (length w - ?L) w @ take (length d) (drop (length w - ?L) w)"
      by (simp add: take_add)
    then show ?thesis using assms(1) by (simp add: represents_def)
  qed
  moreover have "(?s + length d) mod ?L < ?L" using s by simp
  ultimately show ?thesis
    using assms rot(2) ring(2) by (simp add: represents_def t')
qed

lemma tail_write_represents: "represents t w \<Longrightarrow> represents (tail_write t d) (w @ d) \<and> ot_limit (tail_write t d) = ot_limit t"
proof -
  assume t: "represents t w"
  obtain t1 rest where fill: "tail_fill t d = (t1, rest)" by fastforce
  from tail_fill_represents [OF t fill] obtain d1 where d1: "d = d1 @ rest" "represents t1 (w @ d1)" "ot_limit t1 = ot_limit t"
    and full: "rest \<noteq> [] \<Longrightarrow> length (ot_data t1) = ot_limit t1" by blast
  show ?thesis
  proof (cases "rest = []")
    case True
    with fill d1 show ?thesis by (simp add: tail_write_def)
  next
    case False
    from tail_replace_represents [OF d1(2) full [OF False]] tail_rotate_represents [OF d1(2) full [OF False]] fill d1 False
    show ?thesis by (auto simp: tail_write_def tail_replace_def tail_rotate_def Let_def)
  qed
qed

lemma tail_writes_represent: "represents (foldl tail_write (empty_tail n) ds) (concat ds) \<and> ot_limit (foldl tail_write (empty_tail n) ds) = n"
proof (induction ds rule: rev_induct)
  case Nil
  show ?case using represents_empty [of n] by (simp add: empty_tail_def)
next
  case (snoc d ds)
  then show ?case using tail_write_represents [of "foldl tail_write (empty_tail n) ds" "concat ds" d] by simp
qed

text \<open>C38. The ring buffer implements keeping the last bytes: after any sequence of writes its content is
  the longest suffix of everything written that fits, and its counters are the number of bytes
  and of lines before that suffix.\<close>

theorem output_tail_refines:
  "let t = foldl tail_write (empty_tail limit) chunks; w = concat chunks; lost = take (length w - limit) w in
   tail_string t = drop (length w - limit) w \<and> ot_bytes t = length lost \<and> ot_lines t = newlines lost
   \<and> length (ot_data t) \<le> limit"
  using tail_writes_represent [of limit chunks] by (auto simp: Let_def represents_def)

subsection \<open>Cutting to lines and bytes\<close>

definition rune_start :: "char \<Rightarrow> bool" where
  "rune_start c \<longleftrightarrow> \<not> (128 \<le> byte c \<and> byte c < 192)"

definition align_tail :: "string \<Rightarrow> string" where
  "align_tail s =
     (case index_of [newline] s of
        Some i \<Rightarrow> drop (i + 1) s
      | None \<Rightarrow> dropWhile (\<lambda>c. \<not> rune_start c) s)"

definition line_count :: "string \<Rightarrow> nat" where
  "line_count s = newlines s + (if s \<noteq> [] \<and> \<not> has_suffix s [newline] then 1 else 0)"

text \<open>\<^verbatim>\<open>strings.LastIndexByte(s, '\n')\<close>, minus one when there is none.\<close>

definition last_newline :: "string \<Rightarrow> int" where
  "last_newline s = int (length s) - 1 - int (length (takeWhile (\<lambda>c. c \<noteq> newline) (rev s)))"

fun cut_back :: "nat \<Rightarrow> string \<Rightarrow> int \<Rightarrow> int" where
  "cut_back 0 s pos = pos"
| "cut_back (Suc n) s pos = cut_back n s (last_newline (take (nat pos) s))"

record cut_output =
  cu_text :: string
  cu_lines :: nat
  cu_bytes :: nat
  cu_cut :: bool

definition cut_start :: "output_tail \<Rightarrow> cut_output" where
  "cut_start t =
     (let s = tail_string t in
      if ot_bytes t > 0
      then \<lparr>cu_text = align_tail s, cu_lines = ot_lines t + newlines (take (length s - length (align_tail s)) s),
            cu_bytes = ot_bytes t + (length s - length (align_tail s)), cu_cut = True\<rparr>
      else \<lparr>cu_text = s, cu_lines = ot_lines t, cu_bytes = ot_bytes t, cu_cut = False\<rparr>)"

definition cut_lines :: "nat \<Rightarrow> cut_output \<Rightarrow> cut_output" where
  "cut_lines max_lines c =
     (let s = cu_text c; n = line_count s in
      if n > max_lines
      then let cut = cut_back max_lines s (if has_suffix s [newline] then int (length s) - 1 else int (length s));
               result = drop (nat (cut + 1)) s
           in \<lparr>cu_text = result, cu_lines = cu_lines c + (n - max_lines), cu_bytes = cu_bytes c + (length s - length result), cu_cut = True\<rparr>
      else c)"

definition cut_bytes :: "nat \<Rightarrow> cut_output \<Rightarrow> cut_output" where
  "cut_bytes max_bytes c =
     (let pre = cu_text c in
      if length pre > max_bytes
      then let result = align_tail (drop (length pre - max_bytes) pre); cut = length pre - length result
           in \<lparr>cu_text = result, cu_lines = cu_lines c + newlines (take cut pre), cu_bytes = cu_bytes c + cut, cu_cut = True\<rparr>
      else c)"

definition shown :: "nat \<Rightarrow> nat \<Rightarrow> output_tail \<Rightarrow> cut_output" where
  "shown max_lines max_bytes t = cut_bytes max_bytes (cut_lines max_lines (cut_start t))"

definition max_full_file_bytes :: nat where "max_full_file_bytes = 8388608"

definition full_text :: "string \<Rightarrow> string" where
  "full_text s =
     (if length s > max_full_file_bytes then align_tail (drop (length s - max_full_file_bytes) s) else s)"

record exec_extras =
  ex_truncated :: bool
  ex_dropped :: nat
  ex_full :: string

definition ellipsis :: string where "ellipsis = [CHR 0xE2, CHR 0x80, CHR 0xA6]"

definition cut_note :: "cut_output \<Rightarrow> string" where
  "cut_note c =
     (if cu_lines c > 0 then show_nat (cu_lines c) @ '' earlier lines truncated''
      else if cu_bytes c > 0 then show_nat (cu_bytes c) @ '' earlier bytes truncated''
      else ''output truncated'')"

text \<open>\<open>save\<close> writes the spill file and gives its name.\<close>

definition format_tail :: "(string \<Rightarrow> error + string) \<Rightarrow> nat \<Rightarrow> nat \<Rightarrow> output_tail \<Rightarrow> string \<times> exec_extras option" where
  "format_tail save max_lines max_bytes t =
     (let c0 = cut_start t; c = shown max_lines max_bytes t in
      if \<not> cu_cut c then (cu_text c0, None)
      else case save (full_text (cu_text c0)) of
        Inr name \<Rightarrow> (ellipsis @ ''['' @ cut_note c @ ''; full output: '' @ name @ '']'' @ [newline] @ cu_text c,
                     Some \<lparr>ex_truncated = True, ex_dropped = cu_lines c, ex_full = name\<rparr>)
      | Inl e \<Rightarrow> (ellipsis @ ''['' @ cut_note c @ '']'' @ [newline] @ cu_text c,
                  Some \<lparr>ex_truncated = True, ex_dropped = cu_lines c, ex_full = []\<rparr>))"

subsection \<open>What is shown is a bounded suffix, and the counters say what is missing\<close>

text \<open>The counters of a cut describe the part of the output before its text.\<close>

definition cut_of :: "string \<Rightarrow> cut_output \<Rightarrow> bool" where
  "cut_of w c \<longleftrightarrow> (\<exists>lost. w = lost @ cu_text c \<and> cu_lines c = newlines lost \<and> cu_bytes c = length lost
     \<and> (cu_cut c \<longleftrightarrow> lost \<noteq> []))"

lemma align_tail_suffix: "\<exists>x. s = x @ align_tail s"
proof (cases "index_of [newline] s")
  case None
  then show ?thesis
    unfolding align_tail_def by (auto intro: exI [of _ "takeWhile (\<lambda>c. \<not> rune_start c) s"])
next
  case (Some i)
  then show ?thesis
    unfolding align_tail_def by (auto intro: exI [of _ "take (i + 1) s"])
qed

lemma cut_start_of: "represents t w \<Longrightarrow> cut_of w (cut_start t)"
proof -
  assume t: "represents t w"
  let ?lost = "take (length w - ot_limit t) w" and ?s = "tail_string t"
  have w: "w = ?lost @ ?s" "ot_bytes t = length ?lost" "ot_lines t = newlines ?lost" using t by (simp_all add: represents_def)
  show ?thesis
  proof (cases "ot_bytes t > 0")
    case True
    obtain x where x: "?s = x @ align_tail ?s" using align_tail_suffix by blast
    then have "length ?s - length (align_tail ?s) = length x" "take (length x) ?s = x" by (metis add_diff_cancel_right' length_append, metis append_eq_conv_conj)
    then show ?thesis
      using True w x by (auto simp: cut_of_def cut_start_def Let_def intro!: exI [of _ "?lost @ x"])
  next
    case False
    then have "?lost = []" using w(2) by simp
    with w False show ?thesis by (auto simp: cut_of_def cut_start_def Let_def)
  qed
qed

lemma cut_further:
  assumes "cut_of w c" and "cu_text c = x @ text" and "x \<noteq> []"
  shows "cut_of w \<lparr>cu_text = text, cu_lines = cu_lines c + newlines x, cu_bytes = cu_bytes c + length x, cu_cut = True\<rparr>"
proof -
  obtain lost where "w = lost @ cu_text c" "cu_lines c = newlines lost" "cu_bytes c = length lost"
    using assms(1) by (auto simp: cut_of_def)
  with assms(2,3) show ?thesis by (auto simp: cut_of_def intro!: exI [of _ "lost @ x"])
qed

lemma last_newline_split:
  assumes "newlines s > 0"
  obtains u v where "s = u @ newline # v" and "last_newline s = int (length u)" and "newlines v = 0"
proof -
  have "newline \<in> set s" using assms by (auto simp: newlines_def filter_empty_conv)
  then obtain u v where s: "s = u @ newline # v" "newline \<notin> set v" using split_list_last by metis
  have v: "\<forall>c \<in> set (rev v). c \<noteq> newline" using s(2) by auto
  then have "takeWhile (\<lambda>c. c \<noteq> newline) (rev v @ newline # rev u) = rev v" by (subst takeWhile_append2) auto
  then have "last_newline s = int (length u)" by (simp add: last_newline_def s(1))
  moreover have "newlines v = 0" using s(2) by (auto simp: newlines_def filter_empty_conv)
  ultimately show thesis using that s(1) by blast
qed

lemma cut_back_lines:
  assumes "newlines (take (nat pos) s) \<ge> n" and "n > 0" and "nat pos \<le> length s"
  shows "\<exists>u v. s = u @ newline # v \<and> cut_back n s pos = int (length u) \<and> newlines u = newlines (take (nat pos) s) - n"
  using assms
proof (induction n arbitrary: pos)
  case (Suc n)
  let ?p = "take (nat pos) s"
  obtain u v where p: "?p = u @ newline # v" "last_newline ?p = int (length u)" "newlines v = 0"
    using last_newline_split [of ?p] Suc.prems(1) by (metis Suc_le_D zero_less_Suc)
  have s: "s = u @ newline # (v @ drop (nat pos) s)" using p(1) append_take_drop_id [of "nat pos" s] by simp
  have count: "newlines ?p = newlines u + 1" using p(1,3) by (simp add: newlines_def)
  show ?case
  proof (cases "n = 0")
    case True
    then show ?thesis using s p(2) count by auto
  next
    case False
    have "take (length u) s = u" using s by (metis append_eq_conv_conj)
    then have "take (nat (int (length u))) s = u" "nat (int (length u)) \<le> length s" using s by (auto, metis le_add1 length_append)
    with Suc.IH [of "int (length u)"] False count Suc.prems(1) p(2) show ?thesis by auto
  qed
qed simp

lemma ends_newline: "has_suffix s [newline] \<longleftrightarrow> s \<noteq> [] \<and> last s = newline"
  by (cases s rule: rev_cases) (auto simp: has_suffix_iff)

lemma line_count_suffix: "line_count y \<le> line_count (x @ y)"
  by (cases "y = []") (simp_all add: line_count_def ends_newline)

lemma cut_bytes_uncut: "\<not> cu_cut (cut_bytes n c) \<Longrightarrow> cut_bytes n c = c"
  by (simp add: cut_bytes_def Let_def split: if_splits)

lemma cut_lines_uncut: "\<not> cu_cut (cut_lines n c) \<Longrightarrow> cut_lines n c = c"
  by (simp add: cut_lines_def Let_def split: if_splits)

lemma cut_lines_of:
  assumes "cut_of w c" and "max_lines > 0"
  shows "cut_of w (cut_lines max_lines c)" and "line_count (cu_text (cut_lines max_lines c)) \<le> max_lines"
proof -
  let ?s = "cu_text c"
  have "cut_of w (cut_lines max_lines c) \<and> line_count (cu_text (cut_lines max_lines c)) \<le> max_lines"
  proof (cases "line_count ?s > max_lines")
    case True
    define from_end where "from_end = (if has_suffix ?s [newline] then int (length ?s) - 1 else int (length ?s))"
    have nonempty: "?s \<noteq> []" using True by (auto simp: line_count_def)
    have enough: "newlines (take (nat from_end) ?s) = line_count ?s - 1" "nat from_end \<le> length ?s"
    proof -
      show "nat from_end \<le> length ?s" by (simp add: from_end_def nat_le_iff)
      show "newlines (take (nat from_end) ?s) = line_count ?s - 1"
      proof (cases "has_suffix ?s [newline]")
        case True
        then obtain t where "?s = t @ [newline]" by (auto simp: has_suffix_iff)
        with True show ?thesis by (simp add: from_end_def line_count_def newlines_def)
      next
        case False
        with nonempty show ?thesis by (simp add: from_end_def line_count_def)
      qed
    qed
    have "newlines (take (nat from_end) ?s) \<ge> max_lines" using enough(1) True by simp
    from cut_back_lines [OF this assms(2) enough(2)] obtain u v where uv: "?s = u @ newline # v"
      "cut_back max_lines ?s from_end = int (length u)" "newlines u = line_count ?s - 1 - max_lines"
      unfolding enough(1) by blast
    have "nat (int (length u) + 1) = length (u @ [newline])" by simp
    moreover have split: "?s = (u @ [newline]) @ v" using uv(1) by simp
    ultimately have res: "drop (nat (int (length u) + 1)) ?s = v" by (metis append_eq_conv_conj)
    have lost: "newlines (u @ [newline]) = line_count ?s - max_lines" using uv(3) True by (simp add: newlines_def)
    have "cut_lines max_lines c
        = \<lparr>cu_text = v, cu_lines = cu_lines c + newlines (u @ [newline]), cu_bytes = cu_bytes c + length (u @ [newline]), cu_cut = True\<rparr>"
      unfolding lost using True uv(2) res arg_cong [OF split, of length]
      by (simp add: cut_lines_def Let_def flip: from_end_def)
    moreover have "line_count ?s = newlines (u @ [newline]) + line_count v"
    proof -
      have "has_suffix ?s [newline] \<longleftrightarrow> v = [] \<or> has_suffix v [newline]"
        unfolding ends_newline split by simp
      moreover have "newlines ?s = newlines (u @ [newline]) + newlines v" unfolding split newlines_append ..
      ultimately show ?thesis unfolding line_count_def using nonempty by auto
    qed
    then have "line_count v \<le> max_lines" using lost True by simp
    ultimately show ?thesis using cut_further [OF assms(1) split] by simp
  next
    case False
    with assms(1) show ?thesis by (simp add: cut_lines_def Let_def)
  qed
  then show "cut_of w (cut_lines max_lines c)" "line_count (cu_text (cut_lines max_lines c)) \<le> max_lines" by simp_all
qed

lemma cut_bytes_of:
  assumes "cut_of w c"
  shows "cut_of w (cut_bytes max_bytes c)" and "length (cu_text (cut_bytes max_bytes c)) \<le> max_bytes"
    and "line_count (cu_text (cut_bytes max_bytes c)) \<le> line_count (cu_text c)"
proof -
  let ?p = "cu_text c"
  have "cut_of w (cut_bytes max_bytes c) \<and> length (cu_text (cut_bytes max_bytes c)) \<le> max_bytes
      \<and> line_count (cu_text (cut_bytes max_bytes c)) \<le> line_count (cu_text c)"
  proof (cases "length ?p > max_bytes")
    case True
    define r where "r = align_tail (drop (length ?p - max_bytes) ?p)"
    obtain x where x: "drop (length ?p - max_bytes) ?p = x @ r" using align_tail_suffix r_def by metis
    define y where "y = take (length ?p - max_bytes) ?p @ x"
    have p: "?p = y @ r" using x append_take_drop_id [of "length ?p - max_bytes" ?p] by (simp add: y_def)
    then have "length ?p - length r = length y" "take (length y) ?p = y"
      by (metis add_diff_cancel_right' length_append, metis append_eq_conv_conj)
    then have "cut_bytes max_bytes c
        = \<lparr>cu_text = r, cu_lines = cu_lines c + newlines y, cu_bytes = cu_bytes c + length y, cu_cut = True\<rparr>"
      using True by (simp add: cut_bytes_def Let_def flip: r_def)
    moreover have "take (length ?p - max_bytes) ?p \<noteq> []" using True by (cases "?p = []") simp_all
    then have "y \<noteq> []" by (simp add: y_def)
    moreover have "length r \<le> max_bytes" using arg_cong [OF x, of length] by simp
    moreover have "line_count r \<le> line_count ?p" using line_count_suffix [of r y] p by simp
    ultimately show ?thesis using cut_further [OF assms p] by simp
  next
    case False
    with assms show ?thesis by (simp add: cut_bytes_def Let_def)
  qed
  then show "cut_of w (cut_bytes max_bytes c)" "length (cu_text (cut_bytes max_bytes c)) \<le> max_bytes"
    "line_count (cu_text (cut_bytes max_bytes c)) \<le> line_count (cu_text c)" by simp_all
qed

text \<open>A command's output is shown whole or as a suffix within both bounds, with a note that counts
  exactly the lines, or for a partial line the bytes, that were left out of everything the command wrote.\<close>

theorem output_bounded:
  assumes "max_lines > 0"
  shows "let t = foldl tail_write (empty_tail limit) chunks; w = concat chunks; c = shown max_lines max_bytes t;
       lost = take (length w - length (cu_text c)) w in
     w = lost @ cu_text c \<and> line_count (cu_text c) \<le> max_lines \<and> length (cu_text c) \<le> max_bytes
     \<and> cu_lines c = newlines lost \<and> cu_bytes c = length lost
     \<and> fst (format_tail save max_lines max_bytes t)
        = (if lost = [] then w
           else case save (full_text (cu_text (cut_start t))) of
             Inr name \<Rightarrow> ellipsis @ ''['' @ cut_note c @ ''; full output: '' @ name @ '']'' @ [newline] @ cu_text c
           | Inl e \<Rightarrow> ellipsis @ ''['' @ cut_note c @ '']'' @ [newline] @ cu_text c)"
proof -
  let ?t = "foldl tail_write (empty_tail limit) chunks" and ?w = "concat chunks"
  let ?c = "shown max_lines max_bytes ?t"
  have start: "cut_of ?w (cut_start ?t)" using tail_writes_represent cut_start_of by blast
  note ln = cut_lines_of [OF start assms(1)]
  note bt = cut_bytes_of [OF ln(1), of max_bytes, folded shown_def]
  obtain lost where lost: "?w = lost @ cu_text ?c" "cu_lines ?c = newlines lost"
    "cu_bytes ?c = length lost" "cu_cut ?c \<longleftrightarrow> lost \<noteq> []"
    using bt(1) unfolding cut_of_def by blast
  have front: "take (length ?w - length (cu_text ?c)) ?w = lost"
    using lost(1) by (metis add_diff_cancel_right' append_eq_conv_conj length_append)
  have whole: "cu_text (cut_start ?t) = ?w" if "lost = []"
  proof -
    have "\<not> cu_cut ?c" using lost(4) that by simp
    then have "?c = cut_start ?t" unfolding shown_def using cut_bytes_uncut cut_lines_uncut by metis
    then show ?thesis using lost(1) that by simp
  qed
  have formatted: "fst (format_tail save max_lines max_bytes ?t)
      = (if lost = [] then ?w
         else case save (full_text (cu_text (cut_start ?t))) of
             Inr name \<Rightarrow> ellipsis @ ''['' @ cut_note ?c @ ''; full output: '' @ name @ '']'' @ [newline] @ cu_text ?c
           | Inl e \<Rightarrow> ellipsis @ ''['' @ cut_note ?c @ '']'' @ [newline] @ cu_text ?c)"
    using lost(4) whole by (simp add: format_tail_def Let_def split: sum.splits)
  show ?thesis
    unfolding Let_def front using lost(1-3) ln(2) bt(2,3) formatted by simp
qed

lemma output_bounded_witness:
  "length (cu_text (shown 200 5 (foldl tail_write (empty_tail 8) [''abc'', ''defghijk'']))) \<le> 5"
  using output_bounded [of 200 8 "[''abc'', ''defghijk'']" 5 Inr] by (simp add: Let_def)

text \<open>A single long line that ends with a newline: nothing of it is shown.\<close>

lemma long_line_lost:
  "format_tail (\<lambda>_. Inl ''full'') 200 5 (tail_write (empty_tail 100) (''abcdefgh'' @ [newline]))
   = (ellipsis @ ''[1 earlier lines truncated]'' @ [newline], Some \<lparr>ex_truncated = True, ex_dropped = 1, ex_full = []\<rparr>)"
proof -
  have fill: "tail_write (empty_tail 100) (''abcdefgh'' @ [newline])
      = \<lparr>ot_limit = 100, ot_data = ''abcdefgh'' @ [newline], ot_start = 0, ot_lines = 0, ot_bytes = 0\<rparr>"
    by (simp add: tail_write_def tail_fill_def empty_tail_def Let_def)
  have start: "cut_start (tail_write (empty_tail 100) (''abcdefgh'' @ [newline]))
      = \<lparr>cu_text = ''abcdefgh'' @ [newline], cu_lines = 0, cu_bytes = 0, cu_cut = False\<rparr>"
    unfolding fill by (simp add: cut_start_def tail_string_def)
  have "line_count (''abcdefgh'' @ [newline]) = 1" by (simp add: line_count_def ends_newline newlines_def)
  then have few: "cut_lines 200 \<lparr>cu_text = ''abcdefgh'' @ [newline], cu_lines = 0, cu_bytes = 0, cu_cut = False\<rparr>
      = \<lparr>cu_text = ''abcdefgh'' @ [newline], cu_lines = 0, cu_bytes = 0, cu_cut = False\<rparr>"
    by (simp add: cut_lines_def Let_def)
  have "align_tail (''efgh'' @ [newline]) = []" by (simp add: align_tail_def has_prefix_def)
  then have "shown 200 5 (tail_write (empty_tail 100) (''abcdefgh'' @ [newline])) = \<lparr>cu_text = [], cu_lines = 1, cu_bytes = 9, cu_cut = True\<rparr>"
    unfolding shown_def start few by (simp add: cut_bytes_def Let_def newlines_def)
  moreover have "show_nat (Suc 0) = ''1''" by (simp add: show_nat.simps digit_char_def) code_simp
  ultimately show ?thesis by (simp add: format_tail_def Let_def cut_note_def)
qed

end
