(* ===== verification/Unidiff.thy ===== *)
theory Unidiff
  imports Go_Text
begin

section \<open>Unified diffs (internal/unidiff/unidiff.go)\<close>

text \<open>
  The line diff behind the edit tool's review artifact: the table of the longest common
  subsequence, the walk through it, and the grouping of the edit script into hunks. The
  loops over indices are recursions over the same indices.
\<close>

datatype op_kind = Same | Del | Add

record diff_op =
  op_kind :: op_kind
  op_line :: string

definition max_dp_size :: nat where "max_dp_size = 4000000"

subsection \<open>Lines\<close>

definition split_lines :: "string \<Rightarrow> string list \<times> bool" where
  "split_lines s =
     (if s = [] then ([], False)
      else (split_on newline (trim_suffix s [newline]), has_suffix s [newline]))"

definition line_keys :: "string list \<Rightarrow> bool \<Rightarrow> string list" where
  "line_keys ls trailing =
     map (\<lambda>(i, l). if i = length ls - 1 \<and> \<not> trailing then l else l @ [newline]) (List.enumerate 0 ls)"

definition strip_key :: "string \<Rightarrow> string" where
  "strip_key s = trim_suffix s [newline]"

subsection \<open>The longest common subsequence\<close>

text \<open>A row of the table from the row below it, filled from the right.\<close>

fun lcs_row :: "string \<Rightarrow> string list \<Rightarrow> nat list \<Rightarrow> nat list" where
  "lcs_row x [] below = [0]"
| "lcs_row x (y # ys) below =
     (let row = lcs_row x ys (tl below) in
      (if x = y then hd (tl below) + 1 else if hd below \<ge> hd row then hd below else hd row) # row)"

fun lcs_table :: "string list \<Rightarrow> string list \<Rightarrow> nat list list" where
  "lcs_table [] b = [replicate (length b + 1) 0]"
| "lcs_table (x # a) b = (let t = lcs_table a b in lcs_row x b (hd t) # t)"

text \<open>The walk stops at the end of either side and returns where it stopped.\<close>

function diff_walk :: "string list \<Rightarrow> string list \<Rightarrow> nat list list \<Rightarrow> nat \<Rightarrow> nat \<Rightarrow> diff_op list \<Rightarrow> nat \<times> nat \<times> diff_op list" where
  "diff_walk a b t i j ops =
     (if i < length a \<and> j < length b
      then if a ! i = b ! j
           then diff_walk a b t (i + 1) (j + 1) (ops @ [\<lparr>op_kind = Same, op_line = strip_key (a ! i)\<rparr>])
           else if t ! (i + 1) ! j \<ge> t ! i ! (j + 1)
           then diff_walk a b t (i + 1) j (ops @ [\<lparr>op_kind = Del, op_line = strip_key (a ! i)\<rparr>])
           else diff_walk a b t i (j + 1) (ops @ [\<lparr>op_kind = Add, op_line = strip_key (b ! j)\<rparr>])
      else (i, j, ops))"
  by pat_completeness auto
termination
  by (relation "measure (\<lambda>(a, b, t, i, j, ops). (length a - i) + (length b - j))") auto

declare diff_walk.simps [simp del]

definition line_diff :: "string list \<Rightarrow> string list \<Rightarrow> diff_op list" where
  "line_diff a b =
     (let (i, j, ops) = diff_walk a b (lcs_table a b) 0 0 [] in
      ops @ map (\<lambda>l. \<lparr>op_kind = Del, op_line = strip_key l\<rparr>) (drop i a)
          @ map (\<lambda>l. \<lparr>op_kind = Add, op_line = strip_key l\<rparr>) (drop j b))"

definition coarse_diff :: "string list \<Rightarrow> string list \<Rightarrow> diff_op list" where
  "coarse_diff a b =
     map (\<lambda>l. \<lparr>op_kind = Del, op_line = l\<rparr>) a @ map (\<lambda>l. \<lparr>op_kind = Add, op_line = l\<rparr>) b"

subsection \<open>Hunks\<close>

definition on_old :: "diff_op \<Rightarrow> bool" where "on_old d \<longleftrightarrow> op_kind d \<noteq> Add"
definition on_new :: "diff_op \<Rightarrow> bool" where "on_new d \<longleftrightarrow> op_kind d \<noteq> Del"

fun before :: "(diff_op \<Rightarrow> bool) \<Rightarrow> nat \<Rightarrow> diff_op list \<Rightarrow> nat list" where
  "before p n [] = [n]"
| "before p n (d # ds) = n # before p (if p d then n + 1 else n) ds"

definition note_change :: "nat \<Rightarrow> (nat \<times> nat) list \<Rightarrow> nat \<Rightarrow> (nat \<times> nat) list" where
  "note_change ctx cs i =
     (if cs \<noteq> [] \<and> i - snd (last cs) \<le> 2 * ctx
      then butlast cs @ [(fst (last cs), i)]
      else cs @ [(i, i)])"

definition clusters :: "nat \<Rightarrow> diff_op list \<Rightarrow> (nat \<times> nat) list" where
  "clusters ctx ops =
     foldl (\<lambda>cs i. if op_kind (ops ! i) = Same then cs else note_change ctx cs i) [] [0..<length ops]"

text \<open>A hunk: the two ranges of its header and its operations.\<close>

record hunk =
  hk_old_start :: nat
  hk_old_count :: nat
  hk_new_start :: nat
  hk_new_count :: nat
  hk_from :: nat
  hk_ops :: "diff_op list"

definition start_line :: "nat \<Rightarrow> nat \<Rightarrow> nat" where
  "start_line n count = (if count = 0 then n else n + 1)"

definition make_hunk :: "nat \<Rightarrow> diff_op list \<Rightarrow> nat \<times> nat \<Rightarrow> hunk" where
  "make_hunk ctx ops c =
     (let lo = fst c - ctx;
          hi = min (length ops) (snd c + 1 + ctx);
          ds = take (hi - lo) (drop lo ops);
          na = length (filter on_old ds);
          nb = length (filter on_new ds)
      in \<lparr>hk_old_start = start_line (before on_old 0 ops ! lo) na, hk_old_count = na,
          hk_new_start = start_line (before on_new 0 ops ! lo) nb, hk_new_count = nb,
          hk_from = lo, hk_ops = ds\<rparr>)"

definition hunks :: "nat \<Rightarrow> diff_op list \<Rightarrow> hunk list" where
  "hunks ctx ops = map (make_hunk ctx ops) (clusters ctx ops)"

subsection \<open>Rendering\<close>

definition no_newline_mark :: string where
  "no_newline_mark = [CHR 0x5C] @ '' No newline at end of file'' @ [newline]"

definition kind_char :: "op_kind \<Rightarrow> char" where
  "kind_char k = (case k of Same \<Rightarrow> CHR '' '' | Del \<Rightarrow> CHR ''-'' | Add \<Rightarrow> CHR ''+'')"

text \<open>The line is the last one of a side that does not end with a newline. Context lines are not looked at.\<close>

definition marks_end :: "diff_op list \<Rightarrow> nat \<Rightarrow> bool \<Rightarrow> nat \<Rightarrow> bool \<Rightarrow> nat \<Rightarrow> bool" where
  "marks_end ops a_total a_nl b_total b_nl i \<longleftrightarrow>
     op_kind (ops ! i) = Del \<and> before on_old 0 ops ! (i + 1) = a_total \<and> \<not> a_nl
     \<or> op_kind (ops ! i) = Add \<and> before on_new 0 ops ! (i + 1) = b_total \<and> \<not> b_nl"

definition emit_op :: "diff_op list \<Rightarrow> nat \<Rightarrow> bool \<Rightarrow> nat \<Rightarrow> bool \<Rightarrow> nat \<Rightarrow> string" where
  "emit_op ops a_total a_nl b_total b_nl i =
     [kind_char (op_kind (ops ! i))] @ op_line (ops ! i) @ [newline]
     @ (if marks_end ops a_total a_nl b_total b_nl i then no_newline_mark else [])"

definition emit_hunk :: "diff_op list \<Rightarrow> nat \<Rightarrow> bool \<Rightarrow> nat \<Rightarrow> bool \<Rightarrow> hunk \<Rightarrow> string" where
  "emit_hunk ops a_total a_nl b_total b_nl h =
     ''@@ -'' @ show_nat (hk_old_start h) @ '','' @ show_nat (hk_old_count h)
     @ '' +'' @ show_nat (hk_new_start h) @ '','' @ show_nat (hk_new_count h) @ '' @@'' @ [newline]
     @ concat (map (emit_op ops a_total a_nl b_total b_nl) [hk_from h..<hk_from h + length (hk_ops h)])"

definition render :: "string \<Rightarrow> diff_op list \<Rightarrow> nat \<Rightarrow> nat \<Rightarrow> bool \<Rightarrow> nat \<Rightarrow> bool \<Rightarrow> string" where
  "render name ops ctx a_total a_nl b_total b_nl =
     ''--- a/'' @ name @ [newline] @ ''+++ b/'' @ name @ [newline]
     @ concat (map (emit_hunk ops a_total a_nl b_total b_nl) (hunks ctx ops))"

definition edit_script :: "string \<Rightarrow> string \<Rightarrow> diff_op list" where
  "edit_script a b =
     (let (la, na) = split_lines a; (lb, nb) = split_lines b in
      if length la * length lb \<le> max_dp_size then line_diff (line_keys la na) (line_keys lb nb)
      else coarse_diff la lb)"

definition unified :: "string \<Rightarrow> string \<Rightarrow> string \<Rightarrow> int \<Rightarrow> string" where
  "unified name a b context =
     (let ctx = (if context < 0 then 3 else nat context) in
      if a = b then []
      else render name (edit_script a b) ctx
             (length (fst (split_lines a))) (snd (split_lines a)) (length (fst (split_lines b))) (snd (split_lines b)))"

subsection \<open>The script keeps both sides\<close>

definition old_side :: "diff_op list \<Rightarrow> string list" where "old_side ops = map op_line (filter on_old ops)"
definition new_side :: "diff_op list \<Rightarrow> string list" where "new_side ops = map op_line (filter on_new ops)"

lemma sides_simps [simp]:
  "old_side [] = []" "new_side [] = []"
  "old_side (ds @ es) = old_side ds @ old_side es" "new_side (ds @ es) = new_side ds @ new_side es"
  "old_side (\<lparr>op_kind = k, op_line = l\<rparr> # ds) = (if k = Add then old_side ds else l # old_side ds)"
  "new_side (\<lparr>op_kind = k, op_line = l\<rparr> # ds) = (if k = Del then new_side ds else l # new_side ds)"
  by (simp_all add: old_side_def new_side_def on_old_def on_new_def)

lemma sides_map [simp]:
  "old_side (map (\<lambda>l. \<lparr>op_kind = k, op_line = f l\<rparr>) ls) = (if k = Add then [] else map f ls)"
  "new_side (map (\<lambda>l. \<lparr>op_kind = k, op_line = f l\<rparr>) ls) = (if k = Del then [] else map f ls)"
  by (induction ls) auto

text \<open>The script before the newlines are cut off: a kept line is the same key on both sides.\<close>

definition strip_op :: "diff_op \<Rightarrow> diff_op" where
  "strip_op d = d\<lparr>op_line := strip_key (op_line d)\<rparr>"

lemma strip_op_simps [simp]:
  "op_kind (strip_op d) = op_kind d" "op_line (strip_op d) = strip_key (op_line d)" "on_old (strip_op d) = on_old d"
  "on_new (strip_op d) = on_new d" "strip_op \<lparr>op_kind = k, op_line = l\<rparr> = \<lparr>op_kind = k, op_line = strip_key l\<rparr>"
  by (simp_all add: strip_op_def on_old_def on_new_def)

lemma strip_sides [simp]:
  "old_side (map strip_op ds) = map strip_key (old_side ds)" "new_side (map strip_op ds) = map strip_key (new_side ds)"
  by (induction ds) (auto simp: old_side_def new_side_def)

lemma diff_walk_keys:
  assumes "diff_walk a b t i j (map strip_op ks) = (i', j', ops')"
  shows "\<exists>ks'. ops' = map strip_op ks' \<and> old_side ks' @ drop i' a = old_side ks @ drop i a
     \<and> new_side ks' @ drop j' b = new_side ks @ drop j b"
  using assms
proof (induction "length a - i + (length b - j)" arbitrary: i j ks rule: less_induct)
  case less
  show ?case
  proof (cases "i < length a \<and> j < length b")
    case False
    with less.prems have "(i, j, map strip_op ks) = (i', j', ops')" by (auto simp: diff_walk.simps [of a b t i j "map strip_op ks"])
    then show ?thesis by blast
  next
    case True
    then have front: "drop i a = a ! i # drop (i + 1) a" "drop j b = b ! j # drop (j + 1) b"
      by (simp_all add: Cons_nth_drop_Suc)
    define k where "k = (if a ! i = b ! j then \<lparr>op_kind = Same, op_line = a ! i\<rparr>
      else if t ! (i + 1) ! j \<ge> t ! i ! (j + 1) then \<lparr>op_kind = Del, op_line = a ! i\<rparr> else \<lparr>op_kind = Add, op_line = b ! j\<rparr>)"
    define i1 j1 where "i1 = (if op_kind k = Add then i else i + 1)" and "j1 = (if op_kind k = Del then j else j + 1)"
    have "diff_walk a b t i1 j1 (map strip_op (ks @ [k])) = (i', j', ops')"
      using less.prems True by (auto simp: diff_walk.simps [of a b t i j "map strip_op ks"] k_def i1_def j1_def)
    moreover have "length a - i1 + (length b - j1) < length a - i + (length b - j)"
      using True by (cases "op_kind k") (auto simp: i1_def j1_def)
    ultimately obtain ks' where "ops' = map strip_op ks'" "old_side ks' @ drop i' a = old_side (ks @ [k]) @ drop i1 a"
      "new_side ks' @ drop j' b = new_side (ks @ [k]) @ drop j1 b" using less.hyps by blast
    moreover have "old_side (ks @ [k]) @ drop i1 a = old_side ks @ drop i a" "new_side (ks @ [k]) @ drop j1 b = new_side ks @ drop j b"
      by (auto simp: k_def i1_def j1_def front)
    ultimately show ?thesis by metis
  qed
qed

lemma line_diff_keys: "\<exists>ks. line_diff a b = map strip_op ks \<and> old_side ks = a \<and> new_side ks = b"
proof -
  obtain i j ops where w: "diff_walk a b (lcs_table a b) 0 0 (map strip_op []) = (i, j, ops)" using prod_cases3 by blast
  from diff_walk_keys [OF this] obtain ks where ks: "ops = map strip_op ks" "old_side ks @ drop i a = a" "new_side ks @ drop j b = b"
    by auto
  let ?ks = "ks @ map (\<lambda>l. \<lparr>op_kind = Del, op_line = l\<rparr>) (drop i a) @ map (\<lambda>l. \<lparr>op_kind = Add, op_line = l\<rparr>) (drop j b)"
  have "line_diff a b = map strip_op ?ks" using w ks(1) by (simp add: line_diff_def comp_def)
  moreover have "old_side ?ks = a" "new_side ?ks = b" using ks(2,3) by (simp_all add: sides_map [where f = "\<lambda>l. l"])
  ultimately show ?thesis by blast
qed

lemma line_diff_sides: "old_side (line_diff a b) = map strip_key a" "new_side (line_diff a b) = map strip_key b"
  using line_diff_keys [of a b] by auto

lemma strip_line_keys:
  assumes "\<forall>l \<in> set ls. newline \<notin> set l"
  shows "map strip_key (line_keys ls nl) = ls"
proof -
  have plain: "strip_key l = l" if "l \<in> set ls" for l
  proof -
    have "\<not> has_suffix l [newline]" using assms that by (auto simp: has_suffix_iff)
    then show ?thesis by (simp add: strip_key_def trim_suffix_not)
  qed
  have "strip_key (l @ [newline]) = l" for l by (simp add: strip_key_def)
  with plain show ?thesis
    by (intro nth_equalityI) (auto simp: line_keys_def nth_enumerate_eq)
qed

lemma split_lines_clean: "\<forall>l \<in> set (fst (split_lines s)). newline \<notin> set l"
  using split_on_no_sep by (auto simp: split_lines_def)

text \<open>A file as its lines, each with the newline that ends it; only the last may lack it.\<close>

fun whole_lines :: "string \<Rightarrow> string list" where
  "whole_lines [] = []"
| "whole_lines (c # s) =
     (if c = newline then [newline] # whole_lines s
      else case whole_lines s of [] \<Rightarrow> [[c]] | l # ls \<Rightarrow> (c # l) # ls)"

lemma concat_whole_lines: "concat (whole_lines s) = s"
  by (induction s) (auto split: list.splits)

lemma line_keys_Cons: "line_keys (l # ls) nl = (if ls = [] \<and> \<not> nl then l else l @ [newline]) # line_keys ls nl"
proof (rule nth_equalityI)
  fix i assume "i < length (line_keys (l # ls) nl)"
  then show "line_keys (l # ls) nl ! i = ((if ls = [] \<and> \<not> nl then l else l @ [newline]) # line_keys ls nl) ! i"
    by (cases i) (auto simp: line_keys_def nth_enumerate_eq simp del: enumerate_simps)
qed (simp add: line_keys_def)

lemma line_keys_Nil [simp]: "line_keys [] nl = []"
  by (simp add: line_keys_def)

lemma split_whole_end:
  "whole_lines (s @ [newline]) = line_keys (split_on newline s) True"
proof (induction s)
  case (Cons c s)
  obtain l ls where sp: "split_on newline s = l # ls" by (metis split_on_not_Nil neq_Nil_conv)
  then show ?case using Cons by (auto simp: line_keys_Cons)
qed (simp add: line_keys_Cons)

lemma split_whole_open:
  "s \<noteq> [] \<Longrightarrow> last s \<noteq> newline \<Longrightarrow> whole_lines s = line_keys (split_on newline s) False"
proof (induction s)
  case (Cons c s)
  show ?case
  proof (cases "s = []")
    case True
    then show ?thesis using Cons.prems by (simp add: line_keys_Cons)
  next
    case False
    obtain l ls where sp: "split_on newline s = l # ls" by (metis split_on_not_Nil neq_Nil_conv)
    then show ?thesis using Cons False by (auto simp: line_keys_Cons)
  qed
qed simp

lemma whole_lines: "whole_lines s = line_keys (fst (split_lines s)) (snd (split_lines s))"
proof (cases s rule: rev_cases)
  case (snoc u c)
  show ?thesis
  proof (cases "c = newline")
    case True
    then show ?thesis using split_whole_end [of u] snoc by (simp add: split_lines_def)
  next
    case False
    then have "\<not> has_suffix s [newline]" using snoc by (auto simp: has_suffix_iff)
    then show ?thesis using split_whole_open [of s] snoc False by (simp add: split_lines_def trim_suffix_not)
  qed
qed (simp add: split_lines_def)

lemma edit_script_keys:
  "\<exists>ks. edit_script a b = map strip_op ks \<and> old_side ks = whole_lines a \<and> new_side ks = whole_lines b"
proof (cases "length (fst (split_lines a)) * length (fst (split_lines b)) \<le> max_dp_size")
  case True
  then have "edit_script a b = line_diff (whole_lines a) (whole_lines b)"
    by (simp add: edit_script_def whole_lines split_beta)
  then show ?thesis using line_diff_keys by simp
next
  case False
  let ?ks = "map (\<lambda>l. \<lparr>op_kind = Del, op_line = l\<rparr>) (whole_lines a) @ map (\<lambda>l. \<lparr>op_kind = Add, op_line = l\<rparr>) (whole_lines b)"
  have cut: "map (\<lambda>l. \<lparr>op_kind = k, op_line = l\<rparr>) (fst (split_lines s)) = map (\<lambda>l. \<lparr>op_kind = k, op_line = strip_key l\<rparr>) (whole_lines s)" for k s
  proof -
    have "map (\<lambda>l. \<lparr>op_kind = k, op_line = strip_key l\<rparr>) (whole_lines s) = map (\<lambda>l. \<lparr>op_kind = k, op_line = l\<rparr>) (map strip_key (whole_lines s))" by simp
    then show ?thesis unfolding whole_lines strip_line_keys [OF split_lines_clean] by simp
  qed
  have "edit_script a b = map strip_op ?ks"
    using False by (simp add: edit_script_def coarse_diff_def cut comp_def split_beta)
  moreover have "old_side ?ks = whole_lines a" "new_side ?ks = whole_lines b" by (simp_all add: sides_map [where f = "\<lambda>l. l"])
  ultimately show ?thesis by blast
qed

subsection \<open>The script is minimal\<close>

fun lcs_len :: "'a list \<Rightarrow> 'a list \<Rightarrow> nat" where
  "lcs_len [] b = 0"
| "lcs_len a [] = 0"
| "lcs_len (x # a) (y # b) = (if x = y then lcs_len a b + 1 else max (lcs_len a (y # b)) (lcs_len (x # a) b))"

fun tails :: "'a list \<Rightarrow> 'a list list" where
  "tails [] = [[]]"
| "tails (y # b) = (y # b) # tails b"

lemma lcs_len_Nil2 [simp]: "lcs_len a [] = 0"
  by (cases a) auto

lemma hd_tails [simp]: "hd (map f (tails b)) = f b"
  by (cases b) auto

lemma tails_not_Nil [simp]: "tails b \<noteq> []"
  by (cases b) auto

lemma length_tails [simp]: "length (tails b) = length b + 1"
  by (induction b) auto

lemma nth_tails: "j \<le> length b \<Longrightarrow> tails b ! j = drop j b"
  by (induction b arbitrary: j) (auto simp: nth_Cons' drop_Cons')

lemma lcs_row: "lcs_row x b (map (lcs_len a) (tails b)) = map (lcs_len (x # a)) (tails b)"
proof (induction b)
  case (Cons y b)
  have "hd (map (lcs_len (x # a)) (tails b)) = lcs_len (x # a) b" by simp
  moreover have "hd (tl (map (lcs_len a) (tails (y # b)))) = lcs_len a b" by simp
  ultimately show ?case using Cons by (auto simp: Let_def max_def)
qed simp

lemma lcs_table: "lcs_table a b = map (\<lambda>a'. map (lcs_len a') (tails b)) (tails a)"
proof (induction a)
  case Nil
  have "map (lcs_len []) (tails b) = replicate (length b + 1) 0"
    by (rule nth_equalityI) (auto simp: nth_Cons' simp del: replicate_Suc)
  then show ?case by simp
next
  case (Cons x a)
  then show ?case by (simp add: Let_def lcs_row)
qed

lemma lcs_table_nth: "i \<le> length a \<Longrightarrow> j \<le> length b \<Longrightarrow> lcs_table a b ! i ! j = lcs_len (drop i a) (drop j b)"
  by (simp add: lcs_table nth_tails)

definition kept_lines :: "diff_op list \<Rightarrow> nat" where
  "kept_lines ops = length (filter (\<lambda>d. op_kind d = Same) ops)"

lemma diff_walk_kept:
  assumes "diff_walk a b (lcs_table a b) i j ops = (i', j', ops')"
  shows "kept_lines ops' = kept_lines ops + lcs_len (drop i a) (drop j b)"
  using assms
proof (induction "length a - i + (length b - j)" arbitrary: i j ops rule: less_induct)
  case less
  let ?t = "lcs_table a b"
  show ?case
  proof (cases "i < length a \<and> j < length b")
    case False
    with less.prems show ?thesis by (auto simp: diff_walk.simps [of a b ?t i j ops])
  next
    case True
    then have front: "drop i a = a ! i # drop (i + 1) a" "drop j b = b ! j # drop (j + 1) b"
      by (simp_all add: Cons_nth_drop_Suc)
    have table: "?t ! (i + 1) ! j = lcs_len (drop (i + 1) a) (drop j b)" "?t ! i ! (j + 1) = lcs_len (drop i a) (drop (j + 1) b)"
      using True by (simp_all add: lcs_table_nth)
    consider "a ! i = b ! j" | "a ! i \<noteq> b ! j" "?t ! (i + 1) ! j \<ge> ?t ! i ! (j + 1)"
      | "a ! i \<noteq> b ! j" "\<not> ?t ! (i + 1) ! j \<ge> ?t ! i ! (j + 1)" by blast
    then show ?thesis
    proof cases
      case 1
      with less.prems True have "diff_walk a b ?t (i + 1) (j + 1) (ops @ [\<lparr>op_kind = Same, op_line = strip_key (a ! i)\<rparr>]) = (i', j', ops')"
        by (simp add: diff_walk.simps [of a b ?t i j ops])
      moreover have "length a - (i + 1) + (length b - (j + 1)) < length a - i + (length b - j)" using True by linarith
      ultimately have "kept_lines ops' = kept_lines ops + 1 + lcs_len (drop (i + 1) a) (drop (j + 1) b)"
        using less.hyps [of "i + 1" "j + 1"] by (simp add: kept_lines_def)
      with 1 show ?thesis by (simp add: front)
    next
      case 2
      with less.prems True have "diff_walk a b ?t (i + 1) j (ops @ [\<lparr>op_kind = Del, op_line = strip_key (a ! i)\<rparr>]) = (i', j', ops')"
        by (simp add: diff_walk.simps [of a b ?t i j ops])
      moreover have "length a - (i + 1) + (length b - j) < length a - i + (length b - j)" using True by linarith
      ultimately have "kept_lines ops' = kept_lines ops + lcs_len (drop (i + 1) a) (drop j b)"
        using less.hyps [of "i + 1" "j"] by (simp add: kept_lines_def)
      with 2 show ?thesis unfolding table by (simp add: front max_def)
    next
      case 3
      with less.prems True have "diff_walk a b ?t i (j + 1) (ops @ [\<lparr>op_kind = Add, op_line = strip_key (b ! j)\<rparr>]) = (i', j', ops')"
        by (simp add: diff_walk.simps [of a b ?t i j ops])
      moreover have "length a - i + (length b - (j + 1)) < length a - i + (length b - j)" using True by linarith
      ultimately have "kept_lines ops' = kept_lines ops + lcs_len (drop i a) (drop (j + 1) b)"
        using less.hyps [of "i" "j + 1"] by (simp add: kept_lines_def)
      with 3 show ?thesis unfolding table by (simp add: front max_def)
    qed
  qed
qed

lemma line_diff_kept: "kept_lines (line_diff a b) = lcs_len a b"
proof -
  obtain i j ops where w: "diff_walk a b (lcs_table a b) 0 0 [] = (i, j, ops)" using prod_cases3 by blast
  have none: "kept_lines (map (\<lambda>l. \<lparr>op_kind = k, op_line = f l\<rparr>) ls) = 0" if "k \<noteq> Same" for k f ls
    using that by (induction ls) (auto simp: kept_lines_def)
  have "kept_lines (line_diff a b) = kept_lines ops"
    using none [of Del strip_key "drop i a"] none [of Add strip_key "drop j b"] by (simp add: line_diff_def w kept_lines_def)
  with diff_walk_kept [OF w] show ?thesis by (simp add: kept_lines_def)
qed

lemma lcs_len_upper: "subseq s a \<Longrightarrow> subseq s b \<Longrightarrow> length s \<le> lcs_len a b"
proof (induction a b arbitrary: s rule: lcs_len.induct)
  case (3 x a y b)
  show ?case
  proof (cases "x = y")
    case True
    show ?thesis
    proof (cases s)
      case (Cons z s')
      with "3.prems" True have "subseq s' a" "subseq s' b"
        by (metis subseq_Cons2_iff subseq_Cons' list_emb_Cons_iff2 subseq_Cons2_neq)+
      with "3.IH"(1) [OF True] Cons True show ?thesis by simp
    qed simp
  next
    case False
    have "subseq s a \<or> subseq s b" if "s \<noteq> []"
      using "3.prems" False that by (cases s) (auto simp: list_emb_Cons_iff2 split: if_splits)
    then consider "s = []" | "subseq s a" | "subseq s b" by blast
    then show ?thesis
    proof cases
      case 2
      then show ?thesis using "3.IH"(2) [OF False] "3.prems" False by fastforce
    next
      case 3
      then show ?thesis using "3.IH"(3) [OF False] "3.prems" False by fastforce
    qed simp
  qed
qed auto

lemma lcs_len_reached: "\<exists>s. subseq s a \<and> subseq s b \<and> length s = lcs_len a b"
proof (induction a b rule: lcs_len.induct)
  case (3 x a y b)
  show ?case
  proof (cases "x = y")
    case True
    then obtain s where "subseq s a" "subseq s b" "length s = lcs_len a b" using "3.IH"(1) by blast
    then have "subseq (x # s) (x # a)" "subseq (x # s) (y # b)" "length (x # s) = lcs_len (x # a) (y # b)" using True by auto
    then show ?thesis by blast
  next
    case False
    then show ?thesis using "3.IH"(2,3) by (auto simp: max_def)
  qed
qed (auto intro: exI [of _ "[]"])

text \<open>C33. The line diff is a correct and minimal edit script: its context and deleted lines are the
  old file, its context and added lines are the new file, and no common subsequence of the two
  is longer than the lines it keeps.\<close>

theorem diff_minimal:
  "old_side (line_diff a b) = map strip_key a \<and> new_side (line_diff a b) = map strip_key b
   \<and> (\<exists>s. subseq s a \<and> subseq s b \<and> length s = kept_lines (line_diff a b))
   \<and> \<not> (\<exists>s. subseq s a \<and> subseq s b \<and> kept_lines (line_diff a b) < length s)"
  using line_diff_sides [of a b] lcs_len_reached [of a b] lcs_len_upper [of _ a b]
  unfolding line_diff_kept by (auto simp: not_less)

subsection \<open>The hunks say where they apply\<close>

text \<open>
  How a reader of the diff applies it to the lines of a file, newlines included: skip to the line
  named by the header, check the lines the hunk expects, count them, put in the new ones, and go on
  after them. A deleted line must be the file's byte for byte; a context line is kept as the file
  has it and compared without its newline, because the renderer never marks a context line that
  ends without one.
\<close>

fun apply_ops :: "diff_op list \<Rightarrow> string list \<Rightarrow> (string list \<times> string list) option" where
  "apply_ops [] ls = Some ([], ls)"
| "apply_ops (d # ds) ls =
     (case op_kind d of
        Add \<Rightarrow> map_option (\<lambda>(new, rest). (op_line d # new, rest)) (apply_ops ds ls)
      | k \<Rightarrow> (case ls of
          [] \<Rightarrow> None
        | l # ls' \<Rightarrow>
            if k = Same \<and> strip_key l \<noteq> strip_key (op_line d) \<or> k = Del \<and> l \<noteq> op_line d then None
            else map_option (\<lambda>(new, rest). (if k = Same then l # new else new, rest)) (apply_ops ds ls')))"

definition hunk_offset :: "nat \<Rightarrow> nat \<Rightarrow> nat" where
  "hunk_offset start count = (if count = 0 then start else start - 1)"

text \<open>The arguments count the old lines consumed and the new lines produced so far.\<close>

fun apply_hunks :: "nat \<Rightarrow> nat \<Rightarrow> string list \<Rightarrow> hunk list \<Rightarrow> string list option" where
  "apply_hunks n m ls [] = Some ls"
| "apply_hunks n m ls (h # hs) =
     (let k = hunk_offset (hk_old_start h) (hk_old_count h) - n in
      if hunk_offset (hk_old_start h) (hk_old_count h) < n \<or> length ls < k
         \<or> hunk_offset (hk_new_start h) (hk_new_count h) \<noteq> m + k then None
      else case apply_ops (hk_ops h) (drop k ls) of
        None \<Rightarrow> None
      | Some (new, rest) \<Rightarrow>
          if length ls - k - length rest \<noteq> hk_old_count h \<or> length new \<noteq> hk_new_count h then None
          else map_option (\<lambda>r. take k ls @ new @ r) (apply_hunks (n + k + hk_old_count h) (m + k + hk_new_count h) rest hs))"

lemma apply_ops_old: "apply_ops ds (old_side ds @ ls) = Some (new_side ds, ls)"
  by (induction ds) (auto simp: old_side_def new_side_def on_old_def on_new_def split: op_kind.splits)

lemma before_nth: "i \<le> length ds \<Longrightarrow> before p n ds ! i = n + length (filter p (take i ds))"
proof (induction ds arbitrary: n i)
  case (Cons d ds)
  then show ?case by (cases i) auto
qed simp

lemma hunk_offset_start [simp]: "hunk_offset (start_line n count) count = n"
  by (simp add: hunk_offset_def start_line_def)

text \<open>The clusters, in order and apart, with every change in one of them.\<close>

definition clusters_ok :: "nat \<Rightarrow> diff_op list \<Rightarrow> nat \<Rightarrow> (nat \<times> nat) list \<Rightarrow> bool" where
  "clusters_ok ctx ops n cs \<longleftrightarrow>
     (\<forall>c \<in> set cs. fst c \<le> snd c \<and> snd c < n)
     \<and> sorted_wrt (\<lambda>c d. snd c + 2 * ctx < fst d) cs
     \<and> (\<forall>i < n. op_kind (ops ! i) \<noteq> Same \<longrightarrow> (\<exists>c \<in> set cs. fst c \<le> i \<and> i \<le> snd c))"

lemma note_change_ok:
  assumes ok: "clusters_ok ctx ops n cs"
  shows "clusters_ok ctx ops (Suc n) (note_change ctx cs n)"
proof (cases "cs \<noteq> [] \<and> n - snd (last cs) \<le> 2 * ctx")
  case True
  define bs c where "bs = butlast cs" and "c = last cs"
  have cs: "cs = bs @ [c]" using True by (simp add: bs_def c_def)
  have new: "note_change ctx cs n = bs @ [(fst c, n)]" using True by (simp add: note_change_def bs_def c_def)
  have bounds: "fst c \<le> snd c" "snd c < n" using ok by (auto simp: clusters_ok_def cs)
  have inside: "\<exists>d \<in> set (bs @ [(fst c, n)]). fst d \<le> i \<and> i \<le> snd d" if i: "i < Suc n" "op_kind (ops ! i) \<noteq> Same" for i
  proof (cases "i = n")
    case True
    then show ?thesis using bounds by auto
  next
    case False
    then have "i < n" using i(1) by simp
    then obtain d where "d \<in> set cs" "fst d \<le> i" "i \<le> snd d" using ok i(2) unfolding clusters_ok_def by blast
    then show ?thesis using bounds by (auto simp: cs)
  qed
  show ?thesis
    unfolding clusters_ok_def new
    using ok bounds inside by (auto simp: clusters_ok_def cs sorted_wrt_append less_Suc_eq)
next
  case False
  then have new: "note_change ctx cs n = cs @ [(n, n)]" by (auto simp: note_change_def)
  have far: "snd c + 2 * ctx < n" if c: "c \<in> set cs" for c
  proof -
    from c have "cs \<noteq> []" by auto
    with False have last: "snd (last cs) + 2 * ctx < n" by simp
    have "c = last cs \<or> snd c + 2 * ctx < fst (last cs)"
      using ok c \<open>cs \<noteq> []\<close> unfolding clusters_ok_def
      by (cases cs rule: rev_cases) (auto simp: sorted_wrt_append)
    moreover have "fst (last cs) \<le> snd (last cs)" using ok \<open>cs \<noteq> []\<close> by (auto simp: clusters_ok_def)
    ultimately show ?thesis using last by auto
  qed
  have inside: "\<exists>d \<in> set (cs @ [(n, n)]). fst d \<le> i \<and> i \<le> snd d" if "i < Suc n" "op_kind (ops ! i) \<noteq> Same" for i
    using ok that by (cases "i = n") (auto simp: clusters_ok_def)
  show ?thesis
    unfolding clusters_ok_def new
    using ok far inside by (auto simp: clusters_ok_def sorted_wrt_append less_Suc_eq)
qed

lemma clusters_ok: "clusters_ok ctx ops (length ops) (clusters ctx ops)"
proof -
  have "clusters_ok ctx ops n (foldl (\<lambda>cs i. if op_kind (ops ! i) = Same then cs else note_change ctx cs i) [] [0..<n])"
    for n
  proof (induction n)
    case (Suc n)
    then show ?case
      using note_change_ok [OF Suc] by (auto simp: clusters_ok_def less_Suc_eq)
  qed (simp add: clusters_ok_def)
  then show ?thesis by (simp add: clusters_def)
qed

lemma same_sides: "\<forall>d \<in> set ds. op_kind d = Same \<Longrightarrow> old_side ds = new_side ds \<and> length (old_side ds) = length ds"
  by (induction ds) (auto simp: old_side_def new_side_def on_old_def on_new_def)

lemma apply_hunks_ranges:
  assumes "\<forall>c \<in> set cs. fst c \<le> snd c \<and> snd c < length ops" and "sorted_wrt (\<lambda>c d. snd c + 2 * ctx < fst d) cs"
    and "\<forall>i. p \<le> i \<and> i < length ops \<and> op_kind (ops ! i) \<noteq> Same \<longrightarrow> (\<exists>c \<in> set cs. fst c \<le> i \<and> i \<le> snd c)"
    and "\<forall>c \<in> set cs. p \<le> fst c - ctx" and "p \<le> length ops"
  shows "apply_hunks (length (old_side (take p ops))) (length (new_side (take p ops))) (old_side (drop p ops))
     (map (make_hunk ctx ops) cs) = Some (new_side (drop p ops))"
  using assms
proof (induction cs arbitrary: p)
  case Nil
  have "\<forall>d \<in> set (drop p ops). op_kind d = Same"
    using Nil.prems(3,5) by (fastforce simp: in_set_conv_nth)
  then show ?case using same_sides by auto
next
  case (Cons c cs)
  define lo hi where "lo = fst c - ctx" and "hi = min (length ops) (snd c + 1 + ctx)"
  define ds where "ds = take (hi - lo) (drop lo ops)"
  have c: "fst c \<le> snd c" "snd c < length ops" using Cons.prems(1) by auto
  have range: "p \<le> lo" "lo < hi" "hi \<le> length ops" using Cons.prems(4) c by (auto simp: lo_def hi_def)
  have later: "hi \<le> fst d - ctx" "snd c < fst d" if "d \<in> set cs" for d
    using Cons.prems(1,2) that c by (auto simp: hi_def)
  have gap: "op_kind d = Same" if "d \<in> set (take (lo - p) (drop p ops))" for d
  proof (rule ccontr)
    assume changed: "op_kind d \<noteq> Same"
    from that obtain k where k: "k < lo - p" "d = ops ! (p + k)" using range by (auto simp: in_set_conv_nth)
    have "p \<le> p + k \<and> p + k < length ops \<and> op_kind (ops ! (p + k)) \<noteq> Same" using k changed range by auto
    then obtain e where e: "e \<in> set (c # cs)" "fst e \<le> p + k" using Cons.prems(3) by blast
    then have "lo \<le> fst e" using later(2) [of e] c by (cases "e = c") (auto simp: lo_def)
    with e(2) k(1) show False by simp
  qed
  have split: "drop p ops = take (lo - p) (drop p ops) @ ds @ drop hi ops"
  proof -
    have "drop lo ops = ds @ drop hi ops"
      using append_take_drop_id [of "hi - lo" "drop lo ops"] range by (simp add: ds_def)
    then show ?thesis using append_take_drop_id [of "lo - p" "drop p ops"] range by simp
  qed
  have take_lo: "take lo ops = take p ops @ take (lo - p) (drop p ops)"
    using range by (metis le_add_diff_inverse take_add)
  have take_hi: "take hi ops = take lo ops @ ds"
    using range by (metis ds_def le_add_diff_inverse less_imp_le take_add)
  define mid where "mid = take (lo - p) (drop p ops)"
  have mid: "old_side mid = new_side mid" "length (old_side mid) = length mid" using same_sides [of mid] gap by (auto simp: mid_def)
  have h: "make_hunk ctx ops c =
      \<lparr>hk_old_start = start_line (length (old_side (take lo ops))) (length (old_side ds)), hk_old_count = length (old_side ds),
       hk_new_start = start_line (length (new_side (take lo ops))) (length (new_side ds)), hk_new_count = length (new_side ds),
       hk_from = lo, hk_ops = ds\<rparr>"
    using range by (simp add: make_hunk_def Let_def before_nth ds_def lo_def hi_def old_side_def new_side_def)
  have "\<forall>i. hi \<le> i \<and> i < length ops \<and> op_kind (ops ! i) \<noteq> Same \<longrightarrow> (\<exists>d \<in> set cs. fst d \<le> i \<and> i \<le> snd d)"
  proof (intro allI impI)
    fix i assume i: "hi \<le> i \<and> i < length ops \<and> op_kind (ops ! i) \<noteq> Same"
    then have "p \<le> i" using range by simp
    with i obtain d where "d \<in> set (c # cs)" "fst d \<le> i" "i \<le> snd d" using Cons.prems(3) by blast
    moreover have "\<not> i \<le> snd c" using i by (auto simp: hi_def)
    ultimately show "\<exists>d \<in> set cs. fst d \<le> i \<and> i \<le> snd d" by auto
  qed
  then have rest: "apply_hunks (length (old_side (take hi ops))) (length (new_side (take hi ops))) (old_side (drop hi ops))
      (map (make_hunk ctx ops) cs) = Some (new_side (drop hi ops))"
    using Cons.prems(1,2) later(1) range by (intro Cons.IH) auto
  have old: "old_side (drop p ops) = old_side mid @ old_side ds @ old_side (drop hi ops)"
    and new: "new_side (drop p ops) = new_side mid @ new_side ds @ new_side (drop hi ops)"
    using arg_cong [OF split, of old_side] arg_cong [OF split, of new_side] by (simp_all add: mid_def)
  have counts: "length (old_side (take lo ops)) = length (old_side (take p ops)) + length mid"
    "length (new_side (take lo ops)) = length (new_side (take p ops)) + length mid"
    using arg_cong [OF take_lo, of old_side] arg_cong [OF take_lo, of new_side] mid by (simp_all add: mid_def)
  show ?case
    using rest mid
    by (simp add: h Let_def old new counts take_hi apply_ops_old)
qed

lemma apply_all_hunks: "apply_hunks 0 0 (old_side ops) (hunks ctx ops) = Some (new_side ops)"
  using apply_hunks_ranges [of "clusters ctx ops" ops ctx 0] clusters_ok [of ctx ops]
  by (auto simp: hunks_def clusters_ok_def)

text \<open>What a reader finds in a hunk: each line with its newline, unless the mark follows it.\<close>

definition op_text :: "diff_op list \<Rightarrow> nat \<Rightarrow> bool \<Rightarrow> nat \<Rightarrow> bool \<Rightarrow> nat \<Rightarrow> string" where
  "op_text ops a_total a_nl b_total b_nl i =
     op_line (ops ! i) @ (if marks_end ops a_total a_nl b_total b_nl i then [] else [newline])"

definition read_hunk :: "diff_op list \<Rightarrow> nat \<Rightarrow> bool \<Rightarrow> nat \<Rightarrow> bool \<Rightarrow> hunk \<Rightarrow> hunk" where
  "read_hunk ops a_total a_nl b_total b_nl h =
     h\<lparr>hk_ops := map (\<lambda>i. \<lparr>op_kind = op_kind (ops ! i), op_line = op_text ops a_total a_nl b_total b_nl i\<rparr>)
                    [hk_from h..<hk_from h + length (hk_ops h)]\<rparr>"

definition read_diff :: "nat \<Rightarrow> string \<Rightarrow> string \<Rightarrow> hunk list" where
  "read_diff ctx a b =
     map (read_hunk (edit_script a b) (length (fst (split_lines a))) (snd (split_lines a)) (length (fst (split_lines b))) (snd (split_lines b)))
       (hunks ctx (edit_script a b))"

lemma nth_side: "i < length ds \<Longrightarrow> p (ds ! i) \<Longrightarrow> length (filter p (take i ds)) < length (filter p ds)
    \<and> filter p ds ! length (filter p (take i ds)) = ds ! i"
proof (induction ds arbitrary: i)
  case (Cons d ds)
  then show ?case by (cases i) auto
qed simp

lemma line_keys_nth: "i < length ls \<Longrightarrow> line_keys ls nl ! i = (if i + 1 = length ls \<and> \<not> nl then ls ! i else ls ! i @ [newline])"
  by (auto simp: line_keys_def nth_enumerate_eq)

lemma before_strip: "before p n (map f ds) = before p n ds" if "\<And>d. p (f d) = p d" for p n ds
  by (induction ds arbitrary: n) (auto simp: that)

lemma clusters_strip: "clusters ctx (map strip_op ks) = clusters ctx ks"
  unfolding clusters_def by (intro foldl_cong) auto

text \<open>The texts a reader finds are the lines of the two files.\<close>

lemma op_text_keys:
  assumes old: "old_side ks = line_keys la na" and new: "new_side ks = line_keys lb nb"
    and i: "i < length ks" and changed: "op_kind (ks ! i) \<noteq> Same"
    and la: "\<forall>l \<in> set la. newline \<notin> set l" and lb: "\<forall>l \<in> set lb. newline \<notin> set l"
  shows "op_text (map strip_op ks) (length la) na (length lb) nb i = op_line (ks ! i)"
proof -
  have key: "op_line d = strip_key (op_line d) @ (if n + 1 = length ls \<and> \<not> nl then [] else [newline])"
    if "map op_line (filter p ks) = line_keys ls nl" "filter p ks ! n = d" "n < length (filter p ks)" "\<forall>l \<in> set ls. newline \<notin> set l"
    for d p ls nl n
  proof -
    have len: "length (filter p ks) = length ls" using arg_cong [OF that(1), of length] by (simp add: line_keys_def)
    have line: "op_line d = line_keys ls nl ! n" using that(1-3) by (metis nth_map)
    have "map strip_key (line_keys ls nl) ! n = ls ! n" by (simp add: strip_line_keys [OF that(4)])
    then have "strip_key (op_line d) = ls ! n" using line len that(3) by (simp add: line_keys_def)
    then show ?thesis using line len that(3) by (simp add: line_keys_nth)
  qed
  have total: "length (filter on_old ks) = length la" "length (filter on_new ks) = length lb"
    using arg_cong [OF old, of length] arg_cong [OF new, of length] by (simp_all add: old_side_def new_side_def line_keys_def)
  have count: "before p 0 (map strip_op ks) ! (i + 1) = length (filter p (take i ks)) + 1"
    if "p (ks ! i)" "\<And>d. p (strip_op d) = p d" for p
    using i that by (simp add: before_strip before_nth take_Suc_conv_app_nth)
  show ?thesis
  proof (cases "op_kind (ks ! i)")
    case Del
    then have p: "on_old (ks ! i)" by (simp add: on_old_def)
    note side = nth_side [OF i, of on_old, OF p]
    have "op_line (ks ! i) = strip_key (op_line (ks ! i)) @ (if length (filter on_old (take i ks)) + 1 = length la \<and> \<not> na then [] else [newline])"
      using side la by (intro key [of on_old la na]) (auto simp: old [unfolded old_side_def])
    then show ?thesis using i Del count [of on_old, OF p] by (simp add: op_text_def marks_end_def)
  next
    case Add
    then have p: "on_new (ks ! i)" by (simp add: on_new_def)
    note side = nth_side [OF i, of on_new, OF p]
    have "op_line (ks ! i) = strip_key (op_line (ks ! i)) @ (if length (filter on_new (take i ks)) + 1 = length lb \<and> \<not> nb then [] else [newline])"
      using side lb by (intro key [of on_new lb nb]) (auto simp: new [unfolded new_side_def])
    then show ?thesis using i Add count [of on_new, OF p] by (simp add: op_text_def marks_end_def)
  qed (use changed in simp)
qed

text \<open>Two scripts a reader cannot tell apart, and hunks made of them.\<close>

definition reads_as :: "diff_op \<Rightarrow> diff_op \<Rightarrow> bool" where
  "reads_as d e \<longleftrightarrow> op_kind d = op_kind e
     \<and> (if op_kind e = Same then strip_key (op_line d) = strip_key (op_line e) else op_line d = op_line e)"

lemma apply_ops_reads: "list_all2 reads_as ds es \<Longrightarrow> apply_ops ds ls = apply_ops es ls"
  by (induction ds es arbitrary: ls rule: list_all2_induct) (auto simp: reads_as_def split: op_kind.splits list.splits)

definition hunk_reads_as :: "hunk \<Rightarrow> hunk \<Rightarrow> bool" where
  "hunk_reads_as g h \<longleftrightarrow> list_all2 reads_as (hk_ops g) (hk_ops h) \<and> g\<lparr>hk_ops := []\<rparr> = h\<lparr>hk_ops := []\<rparr>"

lemma apply_hunks_reads: "list_all2 hunk_reads_as gs hs \<Longrightarrow> apply_hunks n m ls gs = apply_hunks n m ls hs"
proof (induction gs hs arbitrary: n m ls rule: list_all2_induct)
  case (Cons g gs h hs)
  have "hk_old_start g = hk_old_start h" "hk_old_count g = hk_old_count h" "hk_new_start g = hk_new_start h"
    "hk_new_count g = hk_new_count h" "\<And>ls. apply_ops (hk_ops g) ls = apply_ops (hk_ops h) ls"
    using Cons.hyps(1) apply_ops_reads unfolding hunk_reads_as_def by (cases g; cases h; auto)+
  then show ?case using Cons.IH by (simp add: Let_def split: option.split prod.split)
qed simp

lemma read_hunk_keys:
  assumes keys: "old_side ks = line_keys la na" "new_side ks = line_keys lb nb"
    and lines: "\<forall>l \<in> set la. newline \<notin> set l" "\<forall>l \<in> set lb. newline \<notin> set l"
    and c: "snd c < length ks"
  shows "hunk_reads_as (read_hunk (map strip_op ks) (length la) na (length lb) nb (make_hunk ctx (map strip_op ks) c)) (make_hunk ctx ks c)"
proof -
  let ?lo = "fst c - ctx" and ?hi = "min (length ks) (snd c + 1 + ctx)"
  have cut: "take n (drop m (map strip_op ks)) = map strip_op (take n (drop m ks))" for n m by (simp add: take_map drop_map)
  have same: "on_old \<circ> strip_op = on_old" "on_new \<circ> strip_op = on_new" by (simp_all add: fun_eq_iff)
  have h: "make_hunk ctx (map strip_op ks) c = (make_hunk ctx ks c)\<lparr>hk_ops := map strip_op (hk_ops (make_hunk ctx ks c))\<rparr>"
    by (simp add: make_hunk_def Let_def cut filter_map same before_strip)
  have found: "reads_as \<lparr>op_kind = op_kind (map strip_op ks ! i), op_line = op_text (map strip_op ks) (length la) na (length lb) nb i\<rparr> (ks ! i)"
    if i: "i < length ks" for i
  proof (cases "op_kind (ks ! i) = Same")
    case True
    then have "op_text (map strip_op ks) (length la) na (length lb) nb i = strip_key (op_line (ks ! i)) @ [newline]"
      using i by (simp add: op_text_def marks_end_def)
    then show ?thesis using i True by (simp add: reads_as_def) (simp add: strip_key_def)
  next
    case False
    then show ?thesis using i op_text_keys [OF keys i False lines] by (simp add: reads_as_def)
  qed
  have ops: "hk_ops (make_hunk ctx ks c) = take (?hi - ?lo) (drop ?lo ks)" "hk_from (make_hunk ctx ks c) = ?lo"
    by (simp_all add: make_hunk_def Let_def)
  have "list_all2 reads_as (map (\<lambda>i. \<lparr>op_kind = op_kind (map strip_op ks ! i), op_line = op_text (map strip_op ks) (length la) na (length lb) nb i\<rparr>)
      [?lo..<?lo + length (take (?hi - ?lo) (drop ?lo ks))]) (take (?hi - ?lo) (drop ?lo ks))"
    using found by (auto simp: list_all2_conv_all_nth)
  then show ?thesis unfolding h by (simp add: hunk_reads_as_def read_hunk_def ops)
qed

text \<open>C25. The hunks of a diff lead from the old file to the new one, final newlines included: read in
  order, each names the lines where it stands in both files and how many it covers, finds there
  exactly the lines it deletes and keeps, and the lines it leaves are those of the new file, byte
  for byte, with any amount of context and for files too large for the exact diff as well. Two files
  that differ, if only in their last newline, therefore have a hunk.\<close>

theorem hunks_patch:
  "concat (whole_lines a) = a
   \<and> map_option concat (apply_hunks 0 0 (whole_lines a) (read_diff ctx a b)) = Some b"
proof -
  obtain ks where ks: "edit_script a b = map strip_op ks" "old_side ks = whole_lines a" "new_side ks = whole_lines b"
    using edit_script_keys by blast
  have "list_all2 hunk_reads_as (read_diff ctx a b) (hunks ctx ks)"
    using read_hunk_keys [OF ks(2,3) [unfolded whole_lines] split_lines_clean split_lines_clean] clusters_ok [of ctx ks]
    by (auto simp: read_diff_def ks(1) hunks_def clusters_strip list_all2_map1 list_all2_map2 clusters_ok_def intro!: list.rel_refl_strong)
  then have "apply_hunks 0 0 (whole_lines a) (read_diff ctx a b) = Some (whole_lines b)"
    using apply_hunks_reads apply_all_hunks [of ks ctx] by (simp add: ks)
  then show ?thesis by (simp add: concat_whole_lines)
qed

text \<open>A final line that both files have without a newline is not marked when it is context.\<close>

lemma context_end_unmarked:
  "unified ''f'' (''x'' @ [newline] @ ''c'') (''y'' @ [newline] @ ''c'') 3
     = concat (map (\<lambda>l. l @ [newline]) [''--- a/f'', ''+++ b/f'', ''@@ -1,2 +1,2 @@'', ''-x'', ''+y'', '' c''])"
proof -
  have lines: "split_lines (''x'' @ [newline] @ ''c'') = ([''x'', ''c''], False)"
    "split_lines (''y'' @ [newline] @ ''c'') = ([''y'', ''c''], False)"
    by (simp_all add: split_lines_def trim_suffix_def has_suffix_def has_prefix_def)
  have "edit_script (''x'' @ [newline] @ ''c'') (''y'' @ [newline] @ ''c'')
      = [\<lparr>op_kind = Del, op_line = ''x''\<rparr>, \<lparr>op_kind = Add, op_line = ''y''\<rparr>, \<lparr>op_kind = Same, op_line = ''c''\<rparr>]"
    unfolding edit_script_def lines
    by (simp add: max_dp_size_def line_keys_def line_diff_def Let_def diff_walk.simps strip_key_def trim_suffix_def
        has_suffix_def has_prefix_def)
  moreover have "show_nat 1 = ''1''" "show_nat (Suc (Suc 0)) = ''2''"
    by (simp_all add: show_nat.simps digit_char_def) code_simp+
  ultimately show ?thesis
    unfolding unified_def lines
    by (simp add: render_def hunks_def clusters_def note_change_def make_hunk_def Let_def on_old_def on_new_def
        start_line_def emit_hunk_def emit_op_def marks_end_def kind_char_def upt_rec)
qed

end
