(* ===== verification/Edit.thy ===== *)
theory Edit
  imports Unidiff Go_Path Protocol
begin

section \<open>The edit tool (plugins/edit/edit.go)\<close>

text \<open>
  Search/replace patches: reading the patch, finding each search text exactly once (exactly,
  or up to trailing blanks and typographic quotes), and rewriting the file with its byte
  order mark and its line endings. Resolving a path, reading, inspecting and writing a file
  are parameters; the locks around the read and the write make the operation one step.
\<close>

definition search_marker :: string where "search_marker = ''<<<<<<< SEARCH''"
definition split_marker :: string where "split_marker = ''=======''"
definition replace_prefix :: string where "replace_prefix = ''>>>>>>>''"
definition bom_utf8 :: string where "bom_utf8 = [CHR 0xEF, CHR 0xBB, CHR 0xBF]"
definition kind_edit :: action_kind where "kind_edit = ''edit_file''"

record edit_block =
  eb_search :: string
  eb_replace :: string

subsection \<open>Reading a patch\<close>

datatype patch_mode = Outside | InSearch | InReplace

record patch_state =
  pp_blocks :: "edit_block list"
  pp_search :: string
  pp_replace :: string
  pp_mode :: patch_mode

definition patch_flush :: "patch_state \<Rightarrow> error + patch_state" where
  "patch_flush s =
     (case pp_mode s of
        Outside \<Rightarrow> Inr s
      | InSearch \<Rightarrow> Inl (''patch block '' @ show_nat (length (pp_blocks s) + 1) @ '': missing ======= separator'')
      | InReplace \<Rightarrow>
          if pp_search s = [] then Inl (''patch block '' @ show_nat (length (pp_blocks s) + 1) @ '': SEARCH text must not be empty'')
          else Inr \<lparr>pp_blocks = pp_blocks s @ [\<lparr>eb_search = trim_suffix (pp_search s) [newline], eb_replace = trim_suffix (pp_replace s) [newline]\<rparr>],
                    pp_search = [], pp_replace = [], pp_mode = Outside\<rparr>)"

definition trim_blanks :: "string \<Rightarrow> string" where
  "trim_blanks = trim_right {CHR '' '', CHR 0x09}"

definition patch_line :: "patch_state \<Rightarrow> string \<Rightarrow> error + patch_state" where
  "patch_line s line =
     (let t = trim_blanks line in
      if t = search_marker then and_then (patch_flush s) (\<lambda>s'. Inr (s'\<lparr>pp_mode := InSearch\<rparr>))
      else if t = split_marker \<and> pp_mode s = InSearch then Inr (s\<lparr>pp_mode := InReplace\<rparr>)
      else if has_prefix t replace_prefix \<and> pp_mode s = InReplace then patch_flush s
      else if pp_mode s = InSearch then Inr (s\<lparr>pp_search := pp_search s @ line @ [newline]\<rparr>)
      else if pp_mode s = InReplace then Inr (s\<lparr>pp_replace := pp_replace s @ line @ [newline]\<rparr>)
      else Inr s)"

definition parse_patch :: "string \<Rightarrow> error + edit_block list" where
  "parse_patch patch =
     and_then (fold_res patch_line \<lparr>pp_blocks = [], pp_search = [], pp_replace = [], pp_mode = Outside\<rparr> (split_on newline patch))
       (\<lambda>s. and_then (patch_flush s) (\<lambda>s'. Inr (pp_blocks s')))"

subsection \<open>Finding the text\<close>

definition typographic :: "char \<Rightarrow> char \<Rightarrow> char \<Rightarrow> string option" where
  "typographic a b c =
     (if a = CHR 0xE2 \<and> b = CHR 0x80 \<and> c \<in> {CHR 0x9C, CHR 0x9D, CHR 0x9E} then Some [CHR 0x22]
      else if a = CHR 0xE2 \<and> b = CHR 0x80 \<and> c \<in> {CHR 0x98, CHR 0x99} then Some [CHR 0x27]
      else if a = CHR 0xE2 \<and> b = CHR 0x80 \<and> c \<in> {CHR 0x93, CHR 0x94} then Some ''-''
      else if a = CHR 0xE2 \<and> b = CHR 0x88 \<and> c = CHR 0x92 then Some ''-''
      else if a = CHR 0xE2 \<and> b = CHR 0x80 \<and> c = CHR 0xA6 then Some ''...''
      else None)"

fun ascii_normalize :: "string \<Rightarrow> string" where
  "ascii_normalize (a # b # c # s) =
     (case typographic a b c of Some r \<Rightarrow> r @ ascii_normalize s | None \<Rightarrow> a # ascii_normalize (b # c # s))"
| "ascii_normalize s = s"

definition normalize_line :: "string \<Rightarrow> string" where
  "normalize_line s = ascii_normalize (trim_blanks s)"

definition fuzzy_find :: "string \<Rightarrow> string \<Rightarrow> (nat \<times> nat) option" where
  "fuzzy_find content old =
     (let norm = map normalize_line (split_on newline content);
          needle = map normalize_line (split_on newline (trim_suffix old [newline]));
          hits = filter (\<lambda>i. take (length needle) (drop i norm) = needle)
                   (filter (\<lambda>i. i + length needle \<le> length norm) [0..<length norm])
      in case hits of [] \<Rightarrow> None | i # _ \<Rightarrow> Some (i, length hits))"

definition replace_line_range :: "string \<Rightarrow> nat \<Rightarrow> nat \<Rightarrow> string \<Rightarrow> string" where
  "replace_line_range content start n fresh =
     (let ls = split_on newline content in
      join_on [newline] (take start ls @ (if fresh = [] then [] else split_on newline fresh) @ drop (start + n) ls))"

definition not_found_error :: "string \<Rightarrow> nat \<Rightarrow> nat \<Rightarrow> error" where
  "not_found_error path idx total_blocks =
     (if total_blocks = 1
      then ''could not find the exact text in '' @ path @ ''. The old text must match exactly including all whitespace and newlines.''
      else ''could not find patch block '' @ show_nat (idx + 1) @ '' in '' @ path
           @ ''. The SEARCH text must match exactly including all whitespace and newlines.'')"

definition duplicate_error :: "string \<Rightarrow> nat \<Rightarrow> nat \<Rightarrow> nat \<Rightarrow> error" where
  "duplicate_error path idx total_blocks occurrences =
     (if total_blocks = 1
      then ''found '' @ show_nat occurrences @ '' occurrences of the text in '' @ path
           @ ''. The text must be unique. Please provide more context to make it unique.''
      else ''found '' @ show_nat occurrences @ '' occurrences of patch block '' @ show_nat (idx + 1) @ '' in '' @ path
           @ ''. Each SEARCH text must be unique. Please provide more context to make it unique.'')"

definition empty_error :: "string \<Rightarrow> nat \<Rightarrow> nat \<Rightarrow> error" where
  "empty_error path idx total_blocks =
     (if total_blocks = 1 then ''SEARCH text must not be empty in '' @ path @ ''.''
      else ''patch block '' @ show_nat (idx + 1) @ '': SEARCH text must not be empty in '' @ path @ ''.'')"

definition apply_one :: "string \<Rightarrow> edit_block \<Rightarrow> string \<Rightarrow> nat \<Rightarrow> nat \<Rightarrow> error + string" where
  "apply_one content b path idx total_blocks =
     (if eb_search b = [] then Inl (empty_error path idx total_blocks)
      else let n = str_count content (eb_search b) in
        if n = 1 then Inr (replace_first content (eb_search b) (eb_replace b))
        else if n > 1 then Inl (duplicate_error path idx total_blocks n)
        else case fuzzy_find content (eb_search b) of
          None \<Rightarrow> Inl (not_found_error path idx total_blocks)
        | Some (start, occ) \<Rightarrow>
            if occ > 1 then Inl (duplicate_error path idx total_blocks occ)
            else Inr (replace_line_range content start
                       (length (split_on newline (trim_suffix (eb_search b) [newline]))) (eb_replace b)))"

definition apply_blocks :: "string \<Rightarrow> edit_block list \<Rightarrow> string \<Rightarrow> error + string" where
  "apply_blocks original blocks path =
     fold_res (\<lambda>cur (i, b). apply_one cur b path i (length blocks)) original (List.enumerate 0 blocks)"

subsection \<open>The handler\<close>

definition carriage :: char where "carriage = CHR 0x0D"

definition crlf :: string where "crlf = [carriage, newline]"

text \<open>What is remembered of a file, and the text that the blocks see.\<close>

definition read_text :: "string \<Rightarrow> string \<times> string \<times> string" where
  "read_text raw =
     (let (bom, content) = (case cut_prefix raw bom_utf8 of Some after \<Rightarrow> (bom_utf8, after) | None \<Rightarrow> ([], raw));
          ending = (if contains content crlf then crlf else [newline])
      in (bom, ending, str_replace_all content crlf [newline]))"

definition write_text :: "string \<Rightarrow> string \<Rightarrow> string \<Rightarrow> string" where
  "write_text bom ending current = bom @ str_replace_all current [newline] ending"

record edit_env =
  ee_resolve :: "string \<Rightarrow> error + string"
  ee_read :: "string \<Rightarrow> error + string"
  ee_stat :: "string \<Rightarrow> error option"
  ee_write :: "string \<Rightarrow> string \<Rightarrow> error option"

definition failed_result :: "string \<Rightarrow> error \<Rightarrow> tool_result" where
  "failed_result i e = zero_result\<lparr>tr_action_id := i, tr_error := e\<rparr>"

definition json_text :: "string \<Rightarrow> string" where
  "json_text s = marshal (JString s)"

definition edit_payload :: "nat \<Rightarrow> string \<Rightarrow> string \<Rightarrow> string" where
  "edit_payload n base diff =
     [CHR 0x7B] @ json_text ''blocks'' @ '':'' @ show_nat n @ '','' @ json_text ''path'' @ '':'' @ json_text base
     @ '','' @ json_text ''diff'' @ '':'' @ json_text diff @ [CHR 0x7D]"

definition edit_done :: "action \<Rightarrow> nat \<Rightarrow> string \<Rightarrow> string \<Rightarrow> string \<Rightarrow> tool_result" where
  "edit_done a n path original current =
     zero_result\<lparr>tr_action_id := act_id a, tr_ok := True, tr_kind := kind_edit,
       tr_output := ''Successfully replaced '' @ show_nat n @ '' block(s) in '' @ path @ ''.'',
       tr_payload := edit_payload n (path_base path) (unified (path_base path) original current 3)\<rparr>"

text \<open>The second result is the write that replaced the file.\<close>

definition edit_file :: "edit_env \<Rightarrow> string \<Rightarrow> edit_block list \<Rightarrow> action \<Rightarrow> tool_result \<times> (string \<times> string) option" where
  "edit_file env path blocks a =
     (case ee_read env path of
        Inl e \<Rightarrow> (failed_result (act_id a) (''could not edit file: '' @ path @ ''. '' @ e @ ''.''), None)
      | Inr raw \<Rightarrow> (case ee_stat env path of
          Some e \<Rightarrow> (failed_result (act_id a) (''could not stat file: '' @ path @ ''. '' @ e @ ''.''), None)
        | None \<Rightarrow>
            (let (bom, ending, original) = read_text raw in
             case apply_blocks original blocks path of
               Inl e \<Rightarrow> (failed_result (act_id a) e, None)
             | Inr current \<Rightarrow>
                 if current = original then (edit_done a (length blocks) path original current, None)
                 else (case ee_write env path (write_text bom ending current) of
                     Some e \<Rightarrow> (failed_result (act_id a) e, None)
                   | None \<Rightarrow> (edit_done a (length blocks) path original current, Some (path, write_text bom ending current))))))"

definition edit_apply :: "edit_env \<Rightarrow> action \<Rightarrow> tool_result \<times> (string \<times> string) option" where
  "edit_apply env a =
     (case string_arg (act_args a) ''path'' of
        Inl e \<Rightarrow> (failed_result (act_id a) (''invalid arguments: '' @ e), None)
      | Inr path_arg \<Rightarrow> (case string_arg (act_args a) ''patch'' of
          Inl e \<Rightarrow> (failed_result (act_id a) (''invalid arguments: '' @ e), None)
        | Inr patch \<Rightarrow> (case ee_resolve env path_arg of
            Inl e \<Rightarrow> (failed_result (act_id a) e, None)
          | Inr path \<Rightarrow> (case parse_patch patch of
              Inl e \<Rightarrow> (failed_result (act_id a) e, None)
            | Inr blocks \<Rightarrow>
                if blocks = [] then (failed_result (act_id a) ''patch contains no SEARCH/REPLACE blocks'', None)
                else edit_file env path blocks a))))"

subsection \<open>Patches read back\<close>

definition render_block :: "edit_block \<Rightarrow> string" where
  "render_block b =
     search_marker @ newline # eb_search b @ newline # split_marker @ newline # eb_replace b @ newline
       # replace_prefix @ '' REPLACE'' @ [newline]"

definition render_patch :: "edit_block list \<Rightarrow> string" where
  "render_patch bs = concat (map render_block bs)"

text \<open>A block whose lines cannot be taken for the markers that end them.\<close>

definition plain_block :: "edit_block \<Rightarrow> bool" where
  "plain_block b \<longleftrightarrow>
     (\<forall>l \<in> set (split_on newline (eb_search b)). trim_blanks l \<noteq> search_marker \<and> trim_blanks l \<noteq> split_marker)
     \<and> (\<forall>l \<in> set (split_on newline (eb_replace b)). trim_blanks l \<noteq> search_marker \<and> \<not> has_prefix (trim_blanks l) replace_prefix)"

lemma join_lines: "ls \<noteq> [] \<Longrightarrow> concat (map (\<lambda>l. l @ [newline]) ls) = join_on [newline] ls @ [newline]"
proof (induction ls)
  case (Cons l ls)
  then show ?case by (cases ls) (simp_all add: join_on_Cons)
qed simp

lemma patch_lines_search:
  assumes "\<forall>l \<in> set ls. trim_blanks l \<noteq> search_marker \<and> trim_blanks l \<noteq> split_marker" and "pp_mode s = InSearch"
  shows "fold_res patch_line s ls = Inr (s\<lparr>pp_search := pp_search s @ concat (map (\<lambda>l. l @ [newline]) ls)\<rparr>)"
  using assms
proof (induction ls arbitrary: s)
  case (Cons l ls)
  then have "patch_line s l = Inr (s\<lparr>pp_search := pp_search s @ l @ [newline]\<rparr>)" by (simp add: patch_line_def Let_def)
  with Cons show ?case by simp
qed simp

lemma patch_lines_replace:
  assumes "\<forall>l \<in> set ls. trim_blanks l \<noteq> search_marker \<and> \<not> has_prefix (trim_blanks l) replace_prefix" and "pp_mode s = InReplace"
  shows "fold_res patch_line s ls = Inr (s\<lparr>pp_replace := pp_replace s @ concat (map (\<lambda>l. l @ [newline]) ls)\<rparr>)"
  using assms
proof (induction ls arbitrary: s)
  case (Cons l ls)
  then have "patch_line s l = Inr (s\<lparr>pp_replace := pp_replace s @ l @ [newline]\<rparr>)" by (auto simp: patch_line_def Let_def)
  with Cons show ?case by simp
qed simp

lemma trim_markers: "trim_blanks search_marker = search_marker" "trim_blanks split_marker = split_marker"
  "trim_blanks (replace_prefix @ '' REPLACE'') = replace_prefix @ '' REPLACE''"
  by (simp_all add: trim_blanks_def trim_right_def search_marker_def split_marker_def replace_prefix_def)

lemma marker_lines:
  "pp_mode s = Outside \<Longrightarrow> patch_line s search_marker = Inr (s\<lparr>pp_mode := InSearch\<rparr>)"
  "pp_mode s = InSearch \<Longrightarrow> patch_line s split_marker = Inr (s\<lparr>pp_mode := InReplace\<rparr>)"
  "pp_mode s = InReplace \<Longrightarrow> patch_line s (replace_prefix @ '' REPLACE'') = patch_flush s"
proof -
  have "split_marker \<noteq> search_marker" "replace_prefix @ '' REPLACE'' \<noteq> search_marker"
    by (simp_all add: search_marker_def split_marker_def replace_prefix_def)
  then show "pp_mode s = Outside \<Longrightarrow> patch_line s search_marker = Inr (s\<lparr>pp_mode := InSearch\<rparr>)"
    "pp_mode s = InSearch \<Longrightarrow> patch_line s split_marker = Inr (s\<lparr>pp_mode := InReplace\<rparr>)"
    "pp_mode s = InReplace \<Longrightarrow> patch_line s (replace_prefix @ '' REPLACE'') = patch_flush s"
    unfolding patch_line_def Let_def trim_markers by (simp_all add: patch_flush_def)
qed

lemma patch_block_lines:
  assumes "plain_block b"
  shows "fold_res patch_line \<lparr>pp_blocks = bs, pp_search = [], pp_replace = [], pp_mode = Outside\<rparr>
      ([search_marker] @ split_on newline (eb_search b) @ [split_marker] @ split_on newline (eb_replace b) @ [replace_prefix @ '' REPLACE''])
    = Inr \<lparr>pp_blocks = bs @ [b], pp_search = [], pp_replace = [], pp_mode = Outside\<rparr>"
  using assms
  by (simp add: marker_lines plain_block_def patch_lines_search patch_lines_replace join_lines patch_flush_def del: append_assoc)

lemma render_block_lines:
  "split_on newline (render_block b @ rest)
   = [search_marker] @ split_on newline (eb_search b) @ [split_marker] @ split_on newline (eb_replace b)
       @ [replace_prefix @ '' REPLACE''] @ split_on newline rest"
proof -
  have marks: "newline \<notin> set search_marker" "newline \<notin> set split_marker" "newline \<notin> set (replace_prefix @ '' REPLACE'')"
    by (simp_all add: search_marker_def split_marker_def replace_prefix_def)
  have "render_block b @ rest = search_marker @ newline # (eb_search b @ newline # (split_marker @ newline # (eb_replace b @ newline
      # ((replace_prefix @ '' REPLACE'') @ newline # rest))))" by (simp add: render_block_def)
  then show ?thesis
    by (simp only: split_on_append2 split_on_single [OF marks(1)] split_on_single [OF marks(2)] split_on_single [OF marks(3)])
qed

lemma render_patch_lines:
  assumes "\<forall>b \<in> set bs. plain_block b"
  shows "fold_res patch_line \<lparr>pp_blocks = cs, pp_search = [], pp_replace = [], pp_mode = Outside\<rparr> (split_on newline (render_patch bs))
    = Inr \<lparr>pp_blocks = cs @ bs, pp_search = [], pp_replace = [], pp_mode = Outside\<rparr>"
  using assms
proof (induction bs arbitrary: cs)
  case Nil
  have "\<not> trim_blanks [] = search_marker" "\<not> trim_blanks [] = split_marker"
    by (simp_all add: trim_blanks_def trim_right_def search_marker_def split_marker_def)
  then show ?case by (simp add: render_patch_def patch_line_def Let_def)
next
  case (Cons b bs)
  have "render_patch (b # bs) = render_block b @ render_patch bs" by (simp add: render_patch_def)
  then have lines: "split_on newline (render_patch (b # bs))
     = ([search_marker] @ split_on newline (eb_search b) @ [split_marker] @ split_on newline (eb_replace b) @ [replace_prefix @ '' REPLACE''])
       @ split_on newline (render_patch bs)"
    using render_block_lines [of b "render_patch bs"] by simp
  have "plain_block b" using Cons.prems by simp
  from patch_block_lines [OF this, of cs] Cons show ?case
    unfolding lines fold_res_append by simp
qed

text \<open>A patch reads back as the blocks it was written from, in order, whatever their search and
  replacement texts, as long as no line of a text is a marker that ends it.\<close>

theorem patch_roundtrip:
  assumes "\<forall>b \<in> set bs. plain_block b"
  shows "parse_patch (render_patch bs) = Inr bs"
  using render_patch_lines [OF assms, of "[]"] by (simp add: parse_patch_def patch_flush_def)

lemma patch_roundtrip_witness:
  "parse_patch (render_patch [\<lparr>eb_search = ''a'', eb_replace = ''=======''\<rparr>, \<lparr>eb_search = '' b '', eb_replace = []\<rparr>])
     = Inr [\<lparr>eb_search = ''a'', eb_replace = ''=======''\<rparr>, \<lparr>eb_search = '' b '', eb_replace = []\<rparr>]"
  by (rule patch_roundtrip)
     (simp add: plain_block_def trim_blanks_def trim_right_def search_marker_def split_marker_def replace_prefix_def has_prefix_def)

subsection \<open>An edit replaces one region\<close>

definition occurs_once :: "string \<Rightarrow> string \<Rightarrow> string \<Rightarrow> string \<Rightarrow> bool" where
  "occurs_once u s v body \<longleftrightarrow> body = u @ s @ v \<and> (\<forall>u' v'. body = u' @ s @ v' \<longrightarrow> u' = u)"

lemma occurs_once_index: "occurs_once u s v body \<Longrightarrow> index_of s body = Some (length u)"
proof -
  assume once: "occurs_once u s v body"
  then obtain i where i: "index_of s body = Some i" by (metis index_of_None_iff occurs_once_def option.exhaust)
  from index_of_split [OF i] once have "take i body = u" unfolding occurs_once_def by metis
  moreover have "i \<le> length body" using index_of_Some [OF i] by simp
  ultimately show ?thesis using i by auto
qed

lemma count_sub_once:
  assumes "occurs_once u s v body" and "s \<noteq> []" and "length body \<le> n"
  shows "count_sub n s body = 1"
  using assms(1,3)
proof (induction n arbitrary: u body)
  case 0
  then have "body = u @ s @ v" unfolding occurs_once_def by blast
  with assms(2) 0(2) show ?case by simp
next
  case (Suc n)
  have "body = u @ s @ v" using Suc.prems(1) unfolding occurs_once_def by blast
  then have "body \<noteq> []" using assms(2) by simp
  then obtain c cs where body: "body = c # cs" by (cases body) auto
  show ?case
  proof (cases "has_prefix body s")
    case True
    then obtain t where t: "body = [] @ s @ t" by (auto simp: has_prefix_iff)
    then have u: "u = []" using Suc.prems(1) unfolding occurs_once_def by blast
    then have v: "v = t" using t \<open>body = u @ s @ v\<close> by simp
    have "\<not> contains v s"
    proof
      assume "contains v s"
      then obtain x y where "v = x @ s @ y" unfolding contains_def using index_of_None_iff [of s v] by metis
      then have "body = (s @ x) @ s @ y" using t v by simp
      then have "s @ x = u" using Suc.prems(1) unfolding occurs_once_def by blast
      with u assms(2) show False by simp
    qed
    moreover have "length v \<le> n" using t v Suc.prems(2) assms(2) by (cases s) auto
    ultimately have "count_sub n s v = 0" using count_sub_zero_iff [OF assms(2)] by blast
    moreover have "drop (length s) body = v" using t v by simp
    ultimately show ?thesis using True body by simp
  next
    case False
    then have "u \<noteq> []" using \<open>body = u @ s @ v\<close> by auto
    then obtain u2 where u: "u = c # u2" using \<open>body = u @ s @ v\<close> body by (cases u) auto
    have "occurs_once u2 s v cs" unfolding occurs_once_def
    proof (intro conjI allI impI)
      show "cs = u2 @ s @ v" using \<open>body = u @ s @ v\<close> body u by simp
      fix u' v' assume "cs = u' @ s @ v'"
      then have "body = (c # u') @ s @ v'" using body by simp
      then have "c # u' = u" using Suc.prems(1) unfolding occurs_once_def by blast
      then show "u' = u2" using u by simp
    qed
    from Suc.IH [OF this] Suc.prems(2) False body show ?thesis by simp
  qed
qed

lemma apply_one_once:
  assumes "occurs_once u s v body" and "s \<noteq> []"
  shows "apply_one body \<lparr>eb_search = s, eb_replace = r\<rparr> path i n = Inr (u @ r @ v)"
proof -
  have "body = u @ s @ v" using assms(1) unfolding occurs_once_def by blast
  then have "take (length u) body @ r @ drop (length u + length s) body = u @ r @ v" by simp
  moreover have "str_count body s = 1" using count_sub_once [OF assms] by (simp add: str_count_def)
  ultimately show ?thesis
    using occurs_once_index [OF assms(1)] assms(2) by (simp add: apply_one_def replace_first_def)
qed

text \<open>A text with line feeds only, written with a line ending.\<close>

definition line_text :: "string \<Rightarrow> string \<Rightarrow> string" where
  "line_text ending x = concat (map (\<lambda>c. if c = newline then ending else [c]) x)"

lemma line_text_append [simp]: "line_text ending (x @ y) = line_text ending x @ line_text ending y"
  by (simp add: line_text_def)

lemma replace_newlines: "length x \<le> n \<Longrightarrow> replace_all n [newline] ending x = line_text ending x"
proof (induction n arbitrary: x)
  case (Suc n)
  then show ?case by (cases x) (auto simp: line_text_def has_prefix_def)
qed (simp add: line_text_def)

lemma restore_text: "str_replace_all x [newline] ending = line_text ending x"
  by (simp add: str_replace_all_def replace_newlines)

lemma line_text_newline: "line_text [newline] x = x"
  by (induction x) (auto simp: line_text_def)

text \<open>A text as the tool sees it: every carriage return that a line feed follows is gone.\<close>

fun unix_text :: "string \<Rightarrow> string" where
  "unix_text (a # b # s) = (if a = carriage \<and> b = newline then newline # unix_text s else a # unix_text (b # s))"
| "unix_text [a] = [a]"
| "unix_text [] = []"

text \<open>Every line feed ends a carriage return.\<close>

fun crlf_only :: "string \<Rightarrow> bool" where
  "crlf_only (a # b # s) = (if a = carriage \<and> b = newline then crlf_only s else a \<noteq> newline \<and> crlf_only (b # s))"
| "crlf_only [a] \<longleftrightarrow> a \<noteq> newline"
| "crlf_only [] \<longleftrightarrow> True"

definition uniform_endings :: "string \<Rightarrow> bool" where
  "uniform_endings s \<longleftrightarrow> \<not> contains s crlf \<or> crlf_only s"

lemma replace_crlf: "length x \<le> n \<Longrightarrow> replace_all n crlf [newline] x = unix_text x"
proof (induction x arbitrary: n rule: unix_text.induct)
  case (1 a b s)
  then obtain m where n: "n = Suc m" by (cases n) auto
  have pre: "has_prefix (a # b # s) crlf \<longleftrightarrow> a = carriage \<and> b = newline" by (auto simp: has_prefix_def crlf_def)
  show ?case
  proof (cases "a = carriage \<and> b = newline")
    case True
    then show ?thesis using "1.IH"(1) [of m] "1.prems" n pre by (simp add: crlf_def)
  next
    case False
    then show ?thesis using "1.IH"(2) [of m] "1.prems" n pre by auto
  qed
next
  case (2 a)
  have "replace_all m crlf [newline] [] = []" for m by (cases m) simp_all
  with 2 show ?case by (cases n) (simp_all add: has_prefix_def crlf_def)
next
  case 3
  then show ?case by (cases n) simp_all
qed

lemma unix_text_restored: "crlf_only x \<Longrightarrow> line_text crlf (unix_text x) = x"
  by (induction x rule: unix_text.induct) (auto simp: line_text_def crlf_def carriage_def split: if_splits)

lemma unix_text_same: "\<not> contains x crlf \<Longrightarrow> unix_text x = x"
  using replace_crlf [of x "length x"] by (simp add: replace_all_absent crlf_def)

lemma read_text_parts:
  assumes "raw = bom @ content" and "bom = bom_utf8 \<or> bom = [] \<and> \<not> has_prefix raw bom_utf8"
  shows "read_text raw = (bom, if contains content crlf then crlf else [newline], unix_text content)"
proof -
  have "(case cut_prefix raw bom_utf8 of Some after \<Rightarrow> (bom_utf8, after) | None \<Rightarrow> ([], raw)) = (bom, content)"
    using assms by (auto simp: cut_prefix_def)
  then show ?thesis by (simp add: read_text_def str_replace_all_def replace_crlf)
qed

text \<open>C22. An edit whose search text occurs at exactly one place of the file, as the tool sees it
  without a byte order mark and with line feeds only, replaces that region and nothing else. What is
  written is the byte order mark, the text before the region, the replacement and the text after
  it, with the file's line ending: CRLF when the file has one, a line feed otherwise. In a file
  whose line endings are uniform this is what surrounded the region byte for byte; in a mixed file
  the lone line feeds become CRLF, as \<open>mixed_endings_change\<close> shows.\<close>

theorem edit_replaces_region:
  assumes raw: "ee_read env path = Inr raw" "raw = bom @ content" "bom = bom_utf8 \<or> bom = [] \<and> \<not> has_prefix raw bom_utf8"
    and seen: "unix_text content = u @ s @ v" "ending = (if contains content crlf then crlf else [newline])"
    and io: "ee_stat env path = None" "\<forall>w. ee_write env path w = None"
    and once: "occurs_once u s v (u @ s @ v)" "s \<noteq> []" "r \<noteq> s"
  shows "edit_file env path [\<lparr>eb_search = s, eb_replace = r\<rparr>] a
      = (edit_done a 1 path (u @ s @ v) (u @ r @ v), Some (path, bom @ line_text ending u @ line_text ending r @ line_text ending v))
     \<and> (uniform_endings content \<longrightarrow> raw = bom @ line_text ending u @ line_text ending s @ line_text ending v)"
proof -
  have "apply_blocks (u @ s @ v) [\<lparr>eb_search = s, eb_replace = r\<rparr>] path = Inr (u @ r @ v)"
    using apply_one_once [OF once(1,2)] by (simp add: apply_blocks_def)
  moreover have "u @ r @ v \<noteq> u @ s @ v" using once(3) by simp
  moreover have "read_text raw = (bom, ending, u @ s @ v)" using read_text_parts [OF raw(2,3)] seen by simp
  moreover have "line_text ending (unix_text content) = content" if "uniform_endings content"
    using that seen(2) unix_text_restored unix_text_same by (auto simp: uniform_endings_def line_text_newline)
  then have "uniform_endings content \<longrightarrow> raw = bom @ line_text ending u @ line_text ending s @ line_text ending v"
    using raw(2) by (simp add: seen(1))
  ultimately show ?thesis
    using raw(1) io by (simp add: edit_file_def write_text_def restore_text)
qed

lemma edit_replaces_region_witness:
  "snd (edit_file \<lparr>ee_resolve = Inr, ee_read = \<lambda>_. Inr (''a'' @ crlf @ ''b''), ee_stat = \<lambda>_. None, ee_write = \<lambda>_ _. None\<rparr> ''f''
      [\<lparr>eb_search = ''b'', eb_replace = ''c'' @ [newline]\<rparr>] (finish_action [])) = Some (''f'', ''a'' @ crlf @ ''c'' @ crlf)
   \<and> uniform_endings (''a'' @ crlf @ ''b'')"
proof -
  let ?env = "\<lparr>ee_resolve = Inr, ee_read = \<lambda>_. Inr (''a'' @ crlf @ ''b''), ee_stat = \<lambda>_. None, ee_write = \<lambda>_ _. None\<rparr>"
  let ?raw = "''a'' @ crlf @ ''b''"
  have raw: "?raw = [] @ ?raw" "[] = bom_utf8 \<or> [] = [] \<and> \<not> has_prefix ?raw bom_utf8"
    by (simp_all add: crlf_def carriage_def has_prefix_def bom_utf8_def)
  have seen: "unix_text ?raw = (''a'' @ [newline]) @ ''b'' @ []" "crlf = (if contains ?raw crlf then crlf else [newline])"
    by (simp_all add: crlf_def carriage_def contains_def has_prefix_def)
  have "occurs_once (''a'' @ [newline]) ''b'' [] ((''a'' @ [newline]) @ ''b'' @ [])"
    by (simp add: occurs_once_def append_eq_Cons_conv Cons_eq_append_conv)
  from edit_replaces_region [of ?env "''f''", OF _ raw seen _ _ this, of "''c'' @ [newline]" "finish_action []"]
  show ?thesis by (simp add: line_text_def uniform_endings_def crlf_def carriage_def)
qed

text \<open>Overlapping occurrences are counted once.\<close>

lemma overlap_not_counted:
  "apply_one ''aXaXa'' \<lparr>eb_search = ''aXa'', eb_replace = ''b''\<rparr> ''f'' 0 1 = Inr ''bXa'' \<and> ''aXaXa'' = ''aX'' @ ''aXa''"
  by (simp add: apply_one_def str_count_def numeral_eq_Suc has_prefix_def replace_first_def)

text \<open>A file with mixed line endings: an edit of one line changes the ending of another.\<close>

lemma mixed_endings_change:
  "(let (bom, ending, original) = read_text (''a'' @ crlf @ ''b'' @ [newline] @ ''c'') in
     map_sum id (write_text bom ending) (apply_blocks original [\<lparr>eb_search = ''c'', eb_replace = ''d''\<rparr>] ''f''))
   = Inr (''a'' @ crlf @ ''b'' @ crlf @ ''d'')"
  by (simp add: read_text_def cut_prefix_def has_prefix_def bom_utf8_def contains_def crlf_def carriage_def str_replace_all_def
      numeral_eq_Suc apply_blocks_def apply_one_def str_count_def replace_first_def write_text_def)

end
