(* ===== verification/Command_Tools.thy ===== *)
theory Command_Tools
  imports Output_Tail Edit
begin

section \<open>The command tools (plugins/bash/bash.go, plugins/shell/shell.go)\<close>

text \<open>
  The handlers around a command. The process is a parameter: given the command and the
  timeout it yields what was written to its output, chunk by chunk, and how it ended, in
  the precedence of the code's checks (success, cancellation by the caller, the timeout,
  an exit status, any other error).
\<close>

datatype outcome = Succeeded | Canceled | TimedOut | Exited int | Failed error

type_synonym process = "string \<Rightarrow> int \<Rightarrow> string list \<times> outcome"

subsection \<open>Decimal numbers (strconv)\<close>

definition digits_value :: "string \<Rightarrow> int" where
  "digits_value s = foldl (\<lambda>n c. 10 * n + int (byte c - 48)) 0 s"

definition parse_int :: "string \<Rightarrow> int option" where
  "parse_int s =
     (let neg = has_prefix s ''-''; d = (if neg \<or> has_prefix s ''+'' then drop 1 s else s);
          n = (if neg then - digits_value d else digits_value d) in
      if d = [] \<or> \<not> list_all is_digit d then None
      else if n < - (2 ^ 63) \<or> 2 ^ 63 \<le> n then None
      else Some n)"

subsection \<open>bash\<close>

definition kind_bash :: action_kind where "kind_bash = ''bash''"

definition max_timeout_seconds :: int where "max_timeout_seconds = 600"

record bash_config =
  bc_timeout :: int
  bc_max_lines :: int
  bc_max_bytes :: int

definition bash_max_lines :: "bash_config \<Rightarrow> nat" where
  "bash_max_lines cfg = (if bc_max_lines cfg > 0 then nat (bc_max_lines cfg) else 200)"

definition bash_max_bytes :: "bash_config \<Rightarrow> nat" where
  "bash_max_bytes cfg = (if bc_max_bytes cfg > 0 then nat (bc_max_bytes cfg) else 51200)"

definition timeout_error :: error where
  "timeout_error = ''invalid timeout: must be a positive number of seconds''"

text \<open>A timeout is an integer, or a string that holds one; a missing or null one is the default.\<close>

definition bash_timeout :: "bash_config \<Rightarrow> (string \<times> json) list \<Rightarrow> error + int" where
  "bash_timeout cfg ms =
     (case object_map ms ''timeout'' of
        None \<Rightarrow> Inr (bc_timeout cfg)
      | Some JNull \<Rightarrow> Inr (bc_timeout cfg)
      | Some v \<Rightarrow>
          (case (case v of JNumber n \<Rightarrow> parse_int n | JString n \<Rightarrow> parse_int n | _ \<Rightarrow> None) of
             None \<Rightarrow> Inl timeout_error
           | Some n \<Rightarrow>
               if n \<le> 0 then Inl timeout_error
               else if n > max_timeout_seconds then Inl (''invalid timeout: maximum is '' @ show_int max_timeout_seconds @ '' seconds'')
               else Inr n))"

definition extras_payload :: "exec_extras \<Rightarrow> string" where
  "extras_payload x =
     [CHR 0x7B] @ join_on '',''
       ((if ex_truncated x then [json_text ''truncated'' @ '':true''] else [])
        @ (if ex_dropped x \<noteq> 0 then [json_text ''dropped_lines'' @ '':'' @ show_nat (ex_dropped x)] else [])
        @ (if ex_full x \<noteq> [] then [json_text ''full_output'' @ '':'' @ json_text (ex_full x)] else []))
     @ [CHR 0x7D]"

definition bash_result :: "int \<Rightarrow> tool_result \<Rightarrow> outcome \<Rightarrow> tool_result" where
  "bash_result timeout res r =
     (case r of
        Succeeded \<Rightarrow> res
      | Canceled \<Rightarrow> res\<lparr>tr_ok := False, tr_error := ''canceled''\<rparr>
      | TimedOut \<Rightarrow> res\<lparr>tr_ok := False, tr_error := ''command timed out after '' @ show_int timeout @ ''s''\<rparr>
      | Exited n \<Rightarrow> res\<lparr>tr_exit_code := n, tr_error := ''exit '' @ show_int n\<rparr>
      | Failed e \<Rightarrow> res\<lparr>tr_ok := False, tr_error := e\<rparr>)"

definition bash_run :: "bash_config \<Rightarrow> process \<Rightarrow> (string \<Rightarrow> error + string) \<Rightarrow> action \<Rightarrow> tool_result" where
  "bash_run cfg exec save a =
     (case string_arg (act_args a) ''command'' of
        Inl e \<Rightarrow> failed_result (act_id a) (''invalid arguments: '' @ e)
      | Inr command \<Rightarrow>
          if command = [] then failed_result (act_id a) ''empty command''
          else (case object_args (act_args a) of
            Inl e \<Rightarrow> failed_result (act_id a) (''invalid arguments: '' @ e)
          | Inr ms \<Rightarrow> (case bash_timeout cfg ms of
              Inl e \<Rightarrow> failed_result (act_id a) e
            | Inr timeout \<Rightarrow>
                (let (chunks, r) = exec command timeout;
                     t = foldl tail_write (empty_tail (max max_full_file_bytes (bash_max_bytes cfg))) chunks;
                     (text, extras) = format_tail save (bash_max_lines cfg) (bash_max_bytes cfg) t
                 in bash_result timeout
                      (zero_result\<lparr>tr_action_id := act_id a, tr_ok := True, tr_kind := kind_bash, tr_output := text,
                         tr_payload := (case extras of None \<Rightarrow> [] | Some x \<Rightarrow> extras_payload x)\<rparr>) r))))"

subsection \<open>shell\<close>

record shell_config =
  sc_allow :: "string list"
  sc_timeout :: int
  sc_max_output :: int

definition space_at :: "string \<Rightarrow> bool" where
  "space_at s \<longleftrightarrow> (case s of [] \<Rightarrow> False | c # _ \<Rightarrow> is_ascii_space c) \<or> List.find (has_prefix s) wide_spaces \<noteq> None"

fun until_space :: "string \<Rightarrow> string" where
  "until_space [] = []"
| "until_space (c # cs) = (if space_at (c # cs) then [] else c # until_space cs)"

text \<open>The first of \<^verbatim>\<open>strings.Fields\<close>, empty when there is none.\<close>

definition first_field :: "string \<Rightarrow> string" where
  "first_field s = until_space (strip_front wide_spaces (length s) s)"

definition shell_truncate :: "string \<Rightarrow> int \<Rightarrow> string" where
  "shell_truncate s n =
     (if n \<le> 0 \<or> int (length s) \<le> n then s else take (nat n) s @ [newline] @ ellipsis @ ''[truncated]'')"

definition shell_timeout :: "shell_config \<Rightarrow> int" where
  "shell_timeout cfg = (if sc_timeout cfg \<le> 0 then 10000000000 else sc_timeout cfg)"

text \<open>\<open>show_time\<close> prints the duration.\<close>

definition shell_run :: "shell_config \<Rightarrow> (int \<Rightarrow> string) \<Rightarrow> process \<Rightarrow> action \<Rightarrow> tool_result" where
  "shell_run cfg show_time exec a =
     (case string_arg (act_args a) ''command'' of
        Inl e \<Rightarrow> failed_result (act_id a) (''invalid arguments: '' @ e)
      | Inr command \<Rightarrow>
          if first_field command = [] then failed_result (act_id a) ''empty command''
          else if first_field command \<notin> set (sc_allow cfg)
          then failed_result (act_id a) (''command '' @ quoted (first_field command) @ '' not in allowlist'')
          else (let (chunks, r) = exec command (shell_timeout cfg);
                    res = zero_result\<lparr>tr_action_id := act_id a, tr_ok := (r = Succeeded),
                            tr_output := shell_truncate (concat chunks) (sc_max_output cfg)\<rparr>
                in case r of
                     Succeeded \<Rightarrow> res
                   | Canceled \<Rightarrow> res\<lparr>tr_ok := False, tr_error := ''canceled''\<rparr>
                   | TimedOut \<Rightarrow> res\<lparr>tr_ok := False, tr_error := ''command timed out after '' @ show_time (shell_timeout cfg)\<rparr>
                   | Exited n \<Rightarrow> res\<lparr>tr_ok := True, tr_exit_code := n, tr_error := ''exit '' @ show_int n\<rparr>
                   | Failed e \<Rightarrow> res\<lparr>tr_ok := False, tr_error := e\<rparr>))"

subsection \<open>What the handlers do\<close>

text \<open>A handler is a function of the process; two processes that agree on a command give the same result.\<close>

definition refuses :: "(process \<Rightarrow> tool_result) \<Rightarrow> bool" where
  "refuses handler \<longleftrightarrow> (\<forall>p q. handler p = handler q)"

lemma bash_max_lines_pos: "bash_max_lines cfg > 0"
  by (simp add: bash_max_lines_def)

lemma shell_run_allowlisted:
  assumes "first_field command \<notin> set (sc_allow cfg)" and "string_arg (act_args a) ''command'' = Inr command"
  shows "\<not> tr_ok (shell_run cfg st exec a) \<and> refuses (\<lambda>exec. shell_run cfg st exec a)"
  using assms by (auto simp: shell_run_def refuses_def failed_result_def zero_result_def)

lemma bash_timeout_range: "bash_timeout cfg ms = Inr n \<Longrightarrow> n = bc_timeout cfg \<or> 0 < n \<and> n \<le> max_timeout_seconds"
  by (auto simp: bash_timeout_def split: option.splits json.splits if_splits)

text \<open>A shell command runs only when its arguments are right and its first word is on the list; a
  bash command runs only with a timeout in range. In every other case the result is a failure
  that does not depend on the process. A non-zero exit is a successful observation with its code,
  and a cancelled, timed out or failed command is a failure with its reason.\<close>

theorem commands_guarded:
  "(\<not> refuses (\<lambda>exec. shell_run scfg st exec a) \<longrightarrow>
      (\<exists>command. string_arg (act_args a) ''command'' = Inr command \<and> first_field command \<in> set (sc_allow scfg)))
   \<and> (\<not> refuses (\<lambda>exec. bash_run bcfg exec save a) \<longrightarrow>
      (\<exists>command ms n. string_arg (act_args a) ''command'' = Inr command \<and> command \<noteq> [] \<and> object_args (act_args a) = Inr ms
         \<and> bash_timeout bcfg ms = Inr n \<and> (n = bc_timeout bcfg \<or> 0 < n \<and> n \<le> max_timeout_seconds)
         \<and> (\<forall>exec. case snd (exec command n) of
              Succeeded \<Rightarrow> tr_ok (bash_run bcfg exec save a) \<and> tr_error (bash_run bcfg exec save a) = [] \<and> tr_exit_code (bash_run bcfg exec save a) = 0
            | Exited k \<Rightarrow> tr_ok (bash_run bcfg exec save a) \<and> tr_exit_code (bash_run bcfg exec save a) = k
            | Canceled \<Rightarrow> \<not> tr_ok (bash_run bcfg exec save a) \<and> tr_error (bash_run bcfg exec save a) = ''canceled''
            | TimedOut \<Rightarrow> \<not> tr_ok (bash_run bcfg exec save a)
            | Failed e \<Rightarrow> \<not> tr_ok (bash_run bcfg exec save a) \<and> tr_error (bash_run bcfg exec save a) = e)))"
proof (intro conjI impI)
  assume run: "\<not> refuses (\<lambda>exec. shell_run scfg st exec a)"
  show "\<exists>command. string_arg (act_args a) ''command'' = Inr command \<and> first_field command \<in> set (sc_allow scfg)"
  proof (cases "string_arg (act_args a) ''command''")
    case (Inl e)
    with run show ?thesis by (simp add: refuses_def shell_run_def)
  next
    case (Inr command)
    with run shell_run_allowlisted [OF _ Inr, of scfg st] show ?thesis by blast
  qed
next
  assume run: "\<not> refuses (\<lambda>exec. bash_run bcfg exec save a)"
  obtain command where c: "string_arg (act_args a) ''command'' = Inr command" "command \<noteq> []"
    using run by (cases "string_arg (act_args a) ''command''") (auto simp: refuses_def bash_run_def split: if_splits)
  obtain ms where ms: "object_args (act_args a) = Inr ms"
    using run c by (cases "object_args (act_args a)") (auto simp: refuses_def bash_run_def)
  obtain n where n: "bash_timeout bcfg ms = Inr n"
    using run c ms by (cases "bash_timeout bcfg ms") (auto simp: refuses_def bash_run_def)
  have "case snd (exec command n) of
              Succeeded \<Rightarrow> tr_ok (bash_run bcfg exec save a) \<and> tr_error (bash_run bcfg exec save a) = [] \<and> tr_exit_code (bash_run bcfg exec save a) = 0
            | Exited k \<Rightarrow> tr_ok (bash_run bcfg exec save a) \<and> tr_exit_code (bash_run bcfg exec save a) = k
            | Canceled \<Rightarrow> \<not> tr_ok (bash_run bcfg exec save a) \<and> tr_error (bash_run bcfg exec save a) = ''canceled''
            | TimedOut \<Rightarrow> \<not> tr_ok (bash_run bcfg exec save a)
            | Failed e \<Rightarrow> \<not> tr_ok (bash_run bcfg exec save a) \<and> tr_error (bash_run bcfg exec save a) = e" for exec
    using c ms n by (auto simp: bash_run_def bash_result_def zero_result_def split: prod.splits outcome.splits)
  with c ms n bash_timeout_range [OF n] show "\<exists>command ms n. string_arg (act_args a) ''command'' = Inr command \<and> command \<noteq> [] \<and> object_args (act_args a) = Inr ms
         \<and> bash_timeout bcfg ms = Inr n \<and> (n = bc_timeout bcfg \<or> 0 < n \<and> n \<le> max_timeout_seconds)
         \<and> (\<forall>exec. case snd (exec command n) of
              Succeeded \<Rightarrow> tr_ok (bash_run bcfg exec save a) \<and> tr_error (bash_run bcfg exec save a) = [] \<and> tr_exit_code (bash_run bcfg exec save a) = 0
            | Exited k \<Rightarrow> tr_ok (bash_run bcfg exec save a) \<and> tr_exit_code (bash_run bcfg exec save a) = k
            | Canceled \<Rightarrow> \<not> tr_ok (bash_run bcfg exec save a) \<and> tr_error (bash_run bcfg exec save a) = ''canceled''
            | TimedOut \<Rightarrow> \<not> tr_ok (bash_run bcfg exec save a)
            | Failed e \<Rightarrow> \<not> tr_ok (bash_run bcfg exec save a) \<and> tr_error (bash_run bcfg exec save a) = e)" by blast
qed

lemma commands_guarded_witness:
  "\<exists>command. string_arg (act_args (\<lparr>act_id = [], act_kind = kind_bash, act_args = ''{'' @ json_text ''command'' @ '':'' @ json_text ''ls'' @ ''}'', act_danger = no_danger\<rparr>)) ''command'' = Inr command
     \<and> first_field command \<in> set (sc_allow \<lparr>sc_allow = [''ls''], sc_timeout = 0, sc_max_output = 0\<rparr>)"
proof -
  let ?a = "\<lparr>act_id = [], act_kind = kind_bash, act_args = ''{'' @ json_text ''command'' @ '':'' @ json_text ''ls'' @ ''}'', act_danger = no_danger\<rparr>"
  let ?cfg = "\<lparr>sc_allow = [''ls''], sc_timeout = 0, sc_max_output = 0\<rparr> :: shell_config"
  have "string_arg (''{'' @ json_text ''command'' @ '':'' @ json_text ''ls'' @ ''}'') ''command'' = Inr ''ls''" by code_simp
  then have arg: "string_arg (act_args ?a) ''command'' = Inr ''ls''" by simp
  have field: "first_field ''ls'' = ''ls''" by code_simp
  have "\<not> refuses (\<lambda>exec. shell_run ?cfg show_int exec ?a)"
  proof
    assume "refuses (\<lambda>exec. shell_run ?cfg show_int exec ?a)"
    then have "shell_run ?cfg show_int (\<lambda>_ _. ([], Succeeded)) ?a = shell_run ?cfg show_int (\<lambda>_ _. ([], Canceled)) ?a"
      by (simp only: refuses_def)
    then show False using arg field by (simp add: shell_run_def zero_result_def)
  qed
  with commands_guarded [where scfg = ?cfg and st = show_int and a = ?a and bcfg = "\<lparr>bc_timeout = 1, bc_max_lines = 1, bc_max_bytes = 1\<rparr>" and save = Inl]
  show ?thesis by blast
qed

end
