(* ===== verification/Tool_Pattern.thy ===== *)
theory Tool_Pattern
  imports Go_Text
begin

section \<open>Tool patterns (internal/toolpattern/toolpattern.go)\<close>

text \<open>
  The glob patterns of policies and tool filters, over \<^verbatim>\<open>path.Match\<close> of the standard
  library. A match is \<^term>\<open>None\<close> for a malformed pattern. The matcher follows the library:
  the pattern is cut into chunks at its stars, a star takes the first place where the next
  chunk matches and never crosses a slash, and a failed match still checks the syntax of the
  rest.
\<close>

subsection \<open>Runes\<close>

definition decode_rune :: "string \<Rightarrow> nat \<times> nat" where
  "decode_rune s =
     (case (rune_len s, s) of
        (Some (Suc 0), a # _) \<Rightarrow> (byte a, 1)
      | (Some (Suc (Suc 0)), a # b # _) \<Rightarrow> ((byte a - 192) * 64 + (byte b - 128), 2)
      | (Some (Suc (Suc (Suc 0))), a # b # c # _) \<Rightarrow> ((byte a - 224) * 4096 + (byte b - 128) * 64 + (byte c - 128), 3)
      | (Some _, a # b # c # d # _) \<Rightarrow>
          ((byte a - 240) * 262144 + (byte b - 128) * 4096 + (byte c - 128) * 64 + (byte d - 128), 4)
      | (_, []) \<Rightarrow> (65533, 0)
      | _ \<Rightarrow> (65533, 1))"

subsection \<open>Chunks\<close>

definition get_esc :: "string \<Rightarrow> (nat \<times> string) option" where
  "get_esc c =
     (case c of
        [] \<Rightarrow> None
      | x # xs \<Rightarrow>
          if x = CHR ''-'' \<or> x = CHR '']'' then None
          else let d = (if x = CHR 0x5C then xs else c) in
            if d = [] then None
            else let (r, n) = decode_rune d; rest = drop n d in
              if r = 65533 \<and> n = 1 \<or> rest = [] then None else Some (r, rest))"

lemma decode_rune_pos: "s \<noteq> [] \<Longrightarrow> 1 \<le> snd (decode_rune s)"
  by (auto simp: decode_rune_def split: option.splits nat.splits list.splits)

lemma get_esc_shorter: "get_esc c = Some (r, c') \<Longrightarrow> length c' < length c \<and> c' \<noteq> []"
proof -
  assume e: "get_esc c = Some (r, c')"
  then obtain x xs where c: "c = x # xs" by (cases c) (auto simp: get_esc_def)
  define d where "d = (if x = CHR 0x5C then xs else c)"
  obtain r' n where n: "decode_rune d = (r', n)" by fastforce
  have d: "d \<noteq> []" "c' = drop n d" "c' \<noteq> []"
    using e n by (auto simp: get_esc_def c Let_def d_def split: if_splits)
  moreover have "1 \<le> n" using decode_rune_pos [OF d(1)] n by simp
  ultimately show ?thesis by (auto simp: c d_def split: if_splits)
qed

function class_ranges :: "string \<Rightarrow> nat \<Rightarrow> bool \<Rightarrow> bool \<Rightarrow> (bool \<times> string) option" where
  "class_ranges c r m some =
     (if some \<and> c \<noteq> [] \<and> hd c = CHR '']'' then Some (m, tl c)
      else case get_esc c of
        None \<Rightarrow> None
      | Some (lo, c1) \<Rightarrow>
          if hd c1 = CHR ''-'' then
            (case get_esc (tl c1) of
               None \<Rightarrow> None
             | Some (hi, c2) \<Rightarrow> class_ranges c2 r (m \<or> lo \<le> r \<and> r \<le> hi) True)
          else class_ranges c1 r (m \<or> r = lo) True)"
  by pat_completeness auto
termination
  by (relation "measure (\<lambda>(c, r, m, some). length c)") (auto dest!: get_esc_shorter)

declare class_ranges.simps [simp del]

lemma class_ranges_shorter: "class_ranges c r m some = Some (x, c') \<Longrightarrow> length c' < length c"
proof (induction c r m some rule: class_ranges.induct)
  case (1 c r m some)
  show ?case
  proof (cases "some \<and> c \<noteq> [] \<and> hd c = CHR '']''")
    case True
    then have "class_ranges c r m some = Some (m, tl c)" by (subst class_ranges.simps) simp
    with "1.prems" True show ?thesis by (cases c) simp_all
  next
    case False
    with "1.prems" obtain lo c1 where e: "get_esc c = Some (lo, c1)"
      by (auto simp: class_ranges.simps [of c r m some] split: option.splits)
    note s1 = get_esc_shorter [OF e]
    show ?thesis
    proof (cases "hd c1 = CHR ''-''")
      case True
      with "1.prems" False e obtain hi c2 where e2: "get_esc (tl c1) = Some (hi, c2)"
        and r: "class_ranges c2 r (m \<or> lo \<le> r \<and> r \<le> hi) True = Some (x, c')"
        by (auto simp: class_ranges.simps [of c r m some] split: option.splits)
      from "1.IH"(1) [OF False e refl True e2 refl r] get_esc_shorter [OF e2] s1 show ?thesis
        by (auto simp: less_diff_conv)
    next
      case nodash: False
      with "1.prems" False e have r: "class_ranges c1 r (m \<or> r = lo) True = Some (x, c')"
        by (auto simp: class_ranges.simps [of c r m some] split: option.splits)
      from "1.IH"(2) [OF False e refl nodash r] s1 show ?thesis by simp
    qed
  qed
qed

text \<open>The rest of the name after a chunk; the inner \<^term>\<open>None\<close> is no match.\<close>

function match_chunk :: "string \<Rightarrow> string \<Rightarrow> bool \<Rightarrow> string option option" where
  "match_chunk chunk s failed =
     (case chunk of
        [] \<Rightarrow> Some (if failed then None else Some s)
      | x # xs \<Rightarrow>
          let failed = (failed \<or> s = []) in
          if x = CHR ''['' then
            (let (r, n) = (if failed then (0, 0) else decode_rune s);
                 negated = (xs \<noteq> [] \<and> hd xs = CHR ''^'')
             in case class_ranges (if negated then tl xs else xs) r False False of
                  None \<Rightarrow> None
                | Some (m, rest) \<Rightarrow> match_chunk rest (drop n s) (failed \<or> m = negated))
          else if x = CHR ''?'' then
            match_chunk xs (if failed then s else drop (snd (decode_rune s)) s) (failed \<or> hd s = CHR ''/'')
          else if x = CHR 0x5C then
            (case xs of
               [] \<Rightarrow> None
             | y # ys \<Rightarrow> match_chunk ys (if failed then s else tl s) (failed \<or> y \<noteq> hd s))
          else match_chunk xs (if failed then s else tl s) (failed \<or> x \<noteq> hd s))"
  by pat_completeness auto
termination
  by (relation "measure (\<lambda>(chunk, s, failed). length chunk)") (auto dest!: class_ranges_shorter split: if_splits)

declare match_chunk.simps [simp del]

fun scan_until :: "bool \<Rightarrow> string \<Rightarrow> string \<times> string" where
  "scan_until inside [] = ([], [])"
| "scan_until inside (c # cs) =
     (if c = CHR 0x5C then
        (case cs of
           [] \<Rightarrow> ([c], [])
         | d # ds \<Rightarrow> (let (a, b) = scan_until inside ds in (c # d # a, b)))
      else if c = CHR ''*'' \<and> \<not> inside then ([], c # cs)
      else let (a, b) = scan_until (if c = CHR ''['' then True else if c = CHR '']'' then False else inside) cs in (c # a, b))"

definition scan_chunk :: "string \<Rightarrow> bool \<times> string \<times> string" where
  "scan_chunk p =
     (let q = dropWhile (\<lambda>c. c = CHR ''*'') p; (chunk, rest) = scan_until False q in (q \<noteq> p, chunk, rest))"

lemma scan_until_append: "scan_until inside s = (a, b) \<Longrightarrow> s = a @ b"
proof (induction inside s arbitrary: a b rule: scan_until.induct)
  case (2 inside c cs)
  show ?case
  proof (cases "c = CHR 0x5C")
    case True
    show ?thesis
    proof (cases cs)
      case Nil
      with True "2.prems" show ?thesis by simp
    next
      case (Cons d ds)
      obtain a' b' where r: "scan_until inside ds = (a', b')" by fastforce
      with True Cons "2.prems" "2.IH"(1) [OF True Cons r] show ?thesis by simp
    qed
  next
    case False
    show ?thesis
    proof (cases "c = CHR ''*'' \<and> \<not> inside")
      case True
      with False "2.prems" show ?thesis by simp
    next
      case other: False
      obtain a' b' where r: "scan_until (if c = CHR ''['' then True else if c = CHR '']'' then False else inside) cs = (a', b')"
        by fastforce
      with False other "2.prems" "2.IH"(2) [OF False other r] show ?thesis by auto
    qed
  qed
qed simp

lemma scan_chunk_shorter: "p \<noteq> [] \<Longrightarrow> scan_chunk p = (star, chunk, rest) \<Longrightarrow> length rest < length p"
proof -
  assume p: "p \<noteq> []" and s: "scan_chunk p = (star, chunk, rest)"
  let ?q = "dropWhile (\<lambda>c. c = CHR ''*'') p"
  have q: "?q = chunk @ rest" using s scan_until_append by (auto simp: scan_chunk_def Let_def split: prod.splits)
  show ?thesis
  proof (cases "?q = p")
    case True
    then have "chunk \<noteq> []"
    proof (cases p)
      case (Cons c cs)
      with True have "c \<noteq> CHR ''*''" by (metis (full_types) dropWhile.simps(2) length_Cons length_dropWhile_le not_less_eq_eq)
      then show ?thesis using s True Cons by (auto simp: scan_chunk_def Let_def split: prod.splits if_splits list.splits)
    qed (use p in simp)
    then show ?thesis using arg_cong [OF q, of length] True by (cases chunk) auto
  next
    case False
    have "p = takeWhile (\<lambda>c. c = CHR ''*'') p @ ?q" by simp
    with False have "takeWhile (\<lambda>c. c = CHR ''*'') p \<noteq> []" by (metis append_Nil)
    then have "0 < length (takeWhile (\<lambda>c. c = CHR ''*'') p)" by blast
    moreover have "length p = length (takeWhile (\<lambda>c. c = CHR ''*'') p) + length ?q"
      by (metis length_append takeWhile_dropWhile_id)
    ultimately have "length ?q < length p" by linarith
    then show ?thesis using arg_cong [OF q, of length] by simp
  qed
qed

lemma scan_chunk_rest: "(star, chunk, rest) = scan_chunk p \<Longrightarrow> p \<noteq> [] \<Longrightarrow> length rest < length p"
  using scan_chunk_shorter by metis

subsection \<open>Whole patterns\<close>

text \<open>The first place after a star where the chunk matches, before the next slash.\<close>

fun try_star :: "string \<Rightarrow> bool \<Rightarrow> string \<Rightarrow> string option option" where
  "try_star chunk final [] = Some None"
| "try_star chunk final (c # cs) =
     (if c = CHR ''/'' then Some None
      else case match_chunk chunk cs False of
        None \<Rightarrow> None
      | Some (Some t) \<Rightarrow> if final \<and> t \<noteq> [] then try_star chunk final cs else Some (Some t)
      | Some None \<Rightarrow> try_star chunk final cs)"

function well_formed :: "string \<Rightarrow> bool" where
  "well_formed p =
     (if p = [] then True
      else let (_, chunk, rest) = scan_chunk p in match_chunk chunk [] False \<noteq> None \<and> well_formed rest)"
  by pat_completeness auto
termination
  by (relation "measure length") (auto dest: scan_chunk_rest)

declare well_formed.simps [simp del]

function path_match :: "string \<Rightarrow> string \<Rightarrow> bool option" where
  "path_match p name =
     (if p = [] then Some (name = [])
      else let (star, chunk, rest) = scan_chunk p in
        if star \<and> chunk = [] then Some (CHR ''/'' \<notin> set name)
        else case match_chunk chunk name False of
          None \<Rightarrow> None
        | Some r \<Rightarrow>
            if (case r of Some t \<Rightarrow> t = [] \<or> rest \<noteq> [] | None \<Rightarrow> False) then path_match rest (the r)
            else case (if star then try_star chunk (rest = []) name else Some None) of
                None \<Rightarrow> None
              | Some (Some u) \<Rightarrow> path_match rest u
              | Some None \<Rightarrow> if well_formed rest then Some False else None)"
  by pat_completeness auto
termination
  by (relation "measure (\<lambda>(p, name). length p)") (auto dest: scan_chunk_rest)

declare path_match.simps [simp del]

definition pattern_valid :: "string \<Rightarrow> bool" where
  "pattern_valid p \<longleftrightarrow> p \<noteq> [] \<and> path_match p [] \<noteq> None"

definition pattern_match :: "string \<Rightarrow> string \<Rightarrow> bool" where
  "pattern_match p name \<longleftrightarrow> p = ''*'' \<or> p = name \<or> path_match p name = Some True"

subsection \<open>Patterns without wildcards\<close>

definition literal :: "string \<Rightarrow> bool" where
  "literal p \<longleftrightarrow> set p \<inter> {CHR ''*'', CHR ''?'', CHR ''['', CHR 0x5C} = {}"

lemma scan_until_literal: "literal p \<Longrightarrow> scan_until False p = (p, [])"
  by (induction p) (auto simp: literal_def)

lemma match_chunk_literal:
  "literal p \<Longrightarrow> match_chunk p s failed = Some (if failed \<or> take (length p) s \<noteq> p then None else Some (drop (length p) s))"
proof (induction p arbitrary: s failed)
  case Nil
  then show ?case by (simp add: match_chunk.simps)
next
  case (Cons x p)
  then have x: "x \<noteq> CHR ''['' \<and> x \<noteq> CHR ''?'' \<and> x \<noteq> CHR 0x5C" and p: "literal p" by (auto simp: literal_def)
  have "match_chunk (x # p) s failed
      = match_chunk p (if failed \<or> s = [] then s else tl s) (failed \<or> s = [] \<or> x \<noteq> hd s)"
    using x by (simp add: match_chunk.simps [of "x # p" s failed])
  then show ?case using Cons.IH [OF p] by (cases s) auto
qed

lemma path_match_literal: "literal p \<Longrightarrow> path_match p name = Some (name = p)"
proof (cases "p = []")
  case False
  assume p: "literal p"
  then have "dropWhile (\<lambda>c. c = CHR ''*'') p = p" by (cases p) (auto simp: literal_def)
  then have s: "scan_chunk p = (False, p, [])" using scan_until_literal [OF p] by (simp add: scan_chunk_def)
  have "drop (length p) name = [] \<and> take (length p) name = p \<longleftrightarrow> name = p"
    by (metis append_Nil2 append_take_drop_id drop_all order_refl take_all)
  then show ?thesis
    using False s by (auto simp: path_match.simps [of p name] match_chunk_literal [OF p] path_match.simps [of "[]"] well_formed.simps [of "[]"])
qed (simp add: path_match.simps)

lemma pattern_match_literal: "literal p \<Longrightarrow> pattern_match p name \<longleftrightarrow> name = p"
  using path_match_literal [of p name] by (auto simp: pattern_match_def literal_def)

text \<open>A prefix pattern, as for the tools of one MCP server.\<close>

lemma path_match_prefix:
  assumes "literal p" and "p \<noteq> []"
  shows "path_match (p @ ''*'') name = Some (\<exists>t. name = p @ t \<and> CHR ''/'' \<notin> set t)"
proof -
  have "scan_until False (p @ ''*'') = (p, ''*'')" using assms(1) by (induction p) (auto simp: literal_def)
  moreover have "dropWhile (\<lambda>c. c = CHR ''*'') (p @ ''*'') = p @ ''*''"
    using assms by (cases p) (auto simp: literal_def)
  ultimately have s: "scan_chunk (p @ ''*'') = (False, p, ''*'')" by (simp add: scan_chunk_def)
  have star: "path_match ''*'' t = Some (CHR ''/'' \<notin> set t)" for t
    by (simp add: path_match.simps [of "''*''"] scan_chunk_def)
  have wf: "well_formed ''*''"
    by (simp add: well_formed.simps [of "''*''"] scan_chunk_def match_chunk.simps [of "[]"] well_formed.simps [of "[]"])
  have "take (length p) name = p \<longleftrightarrow> (\<exists>t. name = p @ t)" using has_prefix_iff [of name p] by (simp add: has_prefix_def)
  then show ?thesis
    using assms(2) s star wf by (auto simp: path_match.simps [of "p @ ''*''" name] match_chunk_literal [OF assms(1)])
qed

end
