(* ===== verification/Action_Policy.thy ===== *)
theory Action_Policy
  imports Tool_Pattern Preflight
begin

section \<open>Action policies (plugins/actionpolicy/policy.go, plugins/hostconfig/plugin_policy.go)\<close>

text \<open>
  Host-side rules and optional classifiers composed into one start hook. A classifier is any
  function of the request; that the request's context ends during the classifications is a
  parameter. Confidences are compared as float64 values.
\<close>

subsection \<open>Floats\<close>

fun float_less :: "float64 \<Rightarrow> float64 \<Rightarrow> bool" where
  "float_less FNaN _ = False"
| "float_less _ FNaN = False"
| "float_less (FNum a) (FNum b) = (a < b)"
| "float_less FNegInf b = (b \<noteq> FNegInf)"
| "float_less a FPosInf = (a \<noteq> FPosInf)"
| "float_less _ _ = False"

text \<open>The float64 nearest to 0.9.\<close>

definition default_confidence :: float64 where
  "default_confidence = FNum (8106479329266893 / 9007199254740992)"

subsection \<open>Rules\<close>

record policy_rule =
  ru_action :: permission
  ru_reason :: string
  ru_match :: "(start_input \<Rightarrow> bool) option"

definition remote_tool :: "start_input \<Rightarrow> bool" where
  "remote_tool req \<longleftrightarrow> (case si_tool req of None \<Rightarrow> False | Some t \<Rightarrow> so_remote (ts_source t))"

definition tool_rule :: "permission \<Rightarrow> string \<Rightarrow> string list \<Rightarrow> policy_rule" where
  "tool_rule p reason kinds =
     \<lparr>ru_action = p, ru_reason = reason, ru_match = Some (\<lambda>req.
        \<exists>kind \<in> set kinds. \<not> (p = Allow \<and> kind = ''*'' \<and> remote_tool req) \<and> pattern_match kind (act_kind (si_action req)))\<rparr>"

subsection \<open>Policies\<close>

type_synonym classifier = "start_input \<Rightarrow> error + action_assessment"

record policy =
  po_rules :: "policy_rule list"
  po_classifiers :: "classifier option list"
  po_classifier_id :: string
  po_min :: float64
  po_generated :: bool

datatype capability = CapClassifier classifier | CapOther

definition classifier_capability :: "string \<Rightarrow> string" where
  "classifier_capability i = ''classifier:'' @ i"

definition bind_classifier :: "(string \<Rightarrow> capability option) \<Rightarrow> policy \<Rightarrow> error + policy" where
  "bind_classifier caps p =
     (if po_classifier_id p = [] then Inr p
      else if po_classifiers p \<noteq> [] then Inl ''actionpolicy: use ClassifierID or Classifiers, not both''
      else (case caps (classifier_capability (po_classifier_id p)) of
          None \<Rightarrow> Inl (''actionpolicy: classifier '' @ quoted (po_classifier_id p) @ '' is not registered'')
        | Some CapOther \<Rightarrow> Inl (''actionpolicy: capability '' @ quoted (po_classifier_id p) @ '' is not a classifier'')
        | Some (CapClassifier c) \<Rightarrow> Inr (p\<lparr>po_classifiers := [Some c]\<rparr>)))"

definition permission_name :: "permission \<Rightarrow> string" where
  "permission_name p = (case p of Unset \<Rightarrow> [] | Allow \<Rightarrow> ''allow'' | Ask \<Rightarrow> ''ask'' | Deny \<Rightarrow> ''deny'' | Unknown s \<Rightarrow> s)"

definition check_rule :: "nat \<times> policy_rule \<Rightarrow> error + unit" where
  "check_rule = (\<lambda>(i, r).
     if ru_match r = None then Inl (''actionpolicy: rule '' @ show_nat i @ '' has no matcher'')
     else if ru_action r \<notin> {Deny, Ask, Allow} then Inl (''actionpolicy: rule '' @ show_nat i @ '' has invalid action '' @ quoted (permission_name (ru_action r)))
     else Inr ())"

definition check_classifier :: "nat \<times> classifier option \<Rightarrow> error + unit" where
  "check_classifier = (\<lambda>(i, c).
     if c = None then Inl (''actionpolicy: classifier '' @ show_nat i @ '' is nil'') else Inr ())"

definition policy_setup :: "(string \<Rightarrow> capability option) \<Rightarrow> policy \<Rightarrow> error + policy" where
  "policy_setup caps p =
     and_then (bind_classifier caps p) (\<lambda>p.
     and_then (fold_res (\<lambda>_. check_rule) () (List.enumerate 0 (po_rules p))) (\<lambda>_.
     and_then (fold_res (\<lambda>_. check_classifier) () (List.enumerate 0 (po_classifiers p))) (\<lambda>_.
       if float_less (po_min p) (FNum 0) \<or> float_less (FNum 1) (po_min p) \<or> po_min p = FNaN
       then Inl ''actionpolicy: MinSafeConfidence must be between 0 and 1''
       else Inr p)))"

subsection \<open>Deciding\<close>

definition valid_assessment :: "action_assessment \<Rightarrow> bool" where
  "valid_assessment a \<longleftrightarrow>
     (as_risk a = ''safe'' \<or> as_risk a = ''review'')
     \<and> as_confidence a \<noteq> FNaN \<and> as_confidence a \<noteq> FPosInf \<and> as_confidence a \<noteq> FNegInf
     \<and> float_le (FNum 0) (as_confidence a) \<and> float_le (as_confidence a) (FNum 1)"

definition rule_applies :: "start_input \<Rightarrow> permission \<Rightarrow> policy_rule \<Rightarrow> bool" where
  "rule_applies req p r \<longleftrightarrow> ru_action r = p \<and> (case ru_match r of Some f \<Rightarrow> f req | None \<Rightarrow> False)"

definition by_rules :: "policy_rule list \<Rightarrow> start_input \<Rightarrow> permission_decision option" where
  "by_rules rules req =
     (case List.find (\<lambda>(p, r). rule_applies req p r) (List.product [Deny, Ask, Allow] rules) of
        Some (p, r) \<Rightarrow> Some (decision p (ru_reason r))
      | None \<Rightarrow> None)"

definition classifier_decision :: "float64 \<Rightarrow> bool \<Rightarrow> action_assessment \<Rightarrow> permission_decision" where
  "classifier_decision threshold generated a =
     (let d = \<lparr>pd_permission = Ask, pd_reason = ''classifier_review'', pd_assessment = Some a\<rparr> in
      if as_risk a = ''safe'' \<and> float_le threshold (as_confidence a)
      then if as_probability a \<or> generated then d\<lparr>pd_permission := Allow, pd_reason := ''classifier_safe''\<rparr>
           else d\<lparr>pd_reason := ''classifier_generated_confidence''\<rparr>
      else d)"

definition assess :: "classifier option \<Rightarrow> start_input \<Rightarrow> error + action_assessment" where
  "assess c req =
     (case c of
        None \<Rightarrow> Inl ''nil classifier''
      | Some f \<Rightarrow> and_then (f req) (\<lambda>a. if valid_assessment a then Inr a else Inl ''invalid assessment''))"

text \<open>\<open>ended i\<close>: the context has ended when classifier \<open>i\<close> returns. The failures are collected in order.\<close>

fun classify :: "(action_assessment \<Rightarrow> permission_decision) \<Rightarrow> (nat \<Rightarrow> bool) \<Rightarrow> start_input \<Rightarrow> nat \<Rightarrow> classifier option list
    \<Rightarrow> error list + permission_decision" where
  "classify verdict ended req i [] = Inl []"
| "classify verdict ended req i (c # cs) =
     (case assess c req of
        Inr a \<Rightarrow> Inr (verdict a)
      | Inl e \<Rightarrow>
          (let failure = ''classifier '' @ show_nat (i + 1) @ '': '' @ e in
           if ended i then Inl [failure]
           else case classify verdict ended req (i + 1) cs of
             Inl es \<Rightarrow> Inl (failure # es)
           | Inr d \<Rightarrow> Inr d))"

definition policy_threshold :: "policy \<Rightarrow> float64" where
  "policy_threshold p = (if po_min p = FNum 0 then default_confidence else po_min p)"

definition decide :: "policy \<Rightarrow> (nat \<Rightarrow> bool) \<Rightarrow> start_input \<Rightarrow> permission_decision \<times> error option" where
  "decide p ended req =
     (case by_rules (po_rules p) req of
        Some d \<Rightarrow> (d, None)
      | None \<Rightarrow>
          (case classify (classifier_decision (policy_threshold p) (po_generated p)) ended req 0 (po_classifiers p) of
             Inr d \<Rightarrow> (d, None)
           | Inl failures \<Rightarrow>
               if po_classifiers p = [] then (decision Ask ''no_matching_rule'', None)
               else (decision Ask ''classifier_unavailable'',
                     Some (''actionpolicy: no classifier assessed the call: '' @ join_on [newline] failures))))"

definition policy_hook :: "policy \<Rightarrow> (nat \<Rightarrow> bool) \<Rightarrow> start_input \<Rightarrow> error option \<times> start_output" where
  "policy_hook p ended req =
     (let (d, e) = decide p ended req in
      (e, \<lparr>sto_common = \<lparr>ho_stop = False, ho_stop_reason = [], ho_system_message = [], ho_additional_context = []\<rparr>,
           sto_permission = pd_permission d, sto_fallback = Unset, sto_reason = pd_reason d,
           sto_assessment = pd_assessment d, sto_updated_input = []\<rparr>))"

subsection \<open>Settings of the host (plugins/hostconfig/plugin_policy.go)\<close>

record rule_settings =
  rs_action :: permission
  rs_tools :: "string list"
  rs_reason :: string

record policy_settings =
  ps_classifier :: string
  ps_min :: "float64 option"
  ps_generated :: bool
  ps_rules :: "rule_settings list"

definition check_rule_settings :: "string \<Rightarrow> nat \<times> rule_settings \<Rightarrow> error + unit" where
  "check_rule_settings i = (\<lambda>(n, r).
     let place = ''config plugins.'' @ i @ ''.rules['' @ show_nat n @ '']'' in
     if rs_action r \<notin> {Allow, Ask, Deny} then Inl (place @ ''.action must be allow, ask, or deny'')
     else if rs_tools r = [] then Inl (place @ ''.tools must not be empty'')
     else if \<exists>t \<in> set (rs_tools r). \<not> pattern_valid t then Inl (place @ ''.tools must be tool names or patterns'')
     else Inr ())"

text \<open>The checks on the decoded settings.\<close>

definition check_policy_settings :: "string \<Rightarrow> bool \<Rightarrow> policy_settings \<Rightarrow> error + policy_settings" where
  "check_policy_settings i enabled s =
     (if enabled \<and> ps_classifier s = [] \<and> ps_rules s = []
      then Inl (''config plugins.'' @ i @ '' needs a classifier or rules when enabled'')
      else if (case ps_min s of None \<Rightarrow> False | Some m \<Rightarrow> float_le m (FNum 0) \<or> float_less (FNum 1) m \<or> m = FNaN)
      then Inl (''config plugins.'' @ i @ ''.min_safe_confidence must be greater than 0 and at most 1'')
      else and_then (fold_res (\<lambda>_. check_rule_settings i) () (List.enumerate 0 (ps_rules s))) (\<lambda>_. Inr s))"

definition policy_requires :: "policy_settings \<Rightarrow> string list" where
  "policy_requires s = (if ps_classifier s = [] then [] else [classifier_capability (ps_classifier s)])"

definition build_policy :: "policy_settings \<Rightarrow> policy" where
  "build_policy s =
     \<lparr>po_rules = map (\<lambda>r. tool_rule (rs_action r) (if rs_reason r = [] then ''rule_'' @ permission_name (rs_action r) else rs_reason r) (rs_tools r))
                   (ps_rules s),
      po_classifiers = [], po_classifier_id = ps_classifier s, po_min = (case ps_min s of None \<Rightarrow> FNum 0 | Some m \<Rightarrow> m),
      po_generated = ps_generated s\<rparr>"

subsection \<open>What a policy decides\<close>

lemma by_rules_cases:
  "by_rules rules req =
     (case List.find (rule_applies req Deny) rules of
        Some r \<Rightarrow> Some (decision Deny (ru_reason r))
      | None \<Rightarrow> (case List.find (rule_applies req Ask) rules of
          Some r \<Rightarrow> Some (decision Ask (ru_reason r))
        | None \<Rightarrow> (case List.find (rule_applies req Allow) rules of
            Some r \<Rightarrow> Some (decision Allow (ru_reason r))
          | None \<Rightarrow> None)))"
proof -
  have app: "List.find P (xs @ ys) = (case List.find P xs of Some x \<Rightarrow> Some x | None \<Rightarrow> List.find P ys)" for P xs ys
    by (induction xs) auto
  have pair: "List.find (\<lambda>(p, r). rule_applies req p r) (map (Pair q) rules) = map_option (Pair q) (List.find (rule_applies req q) rules)" for q
    by (induction rules) auto
  show ?thesis by (simp add: by_rules_def app pair split: option.splits)
qed

text \<open>Which rules decide, without their order.\<close>

definition rule_permission :: "policy_rule set \<Rightarrow> start_input \<Rightarrow> permission option" where
  "rule_permission R req =
     (if \<exists>r \<in> R. rule_applies req Deny r then Some Deny
      else if \<exists>r \<in> R. rule_applies req Ask r then Some Ask
      else if \<exists>r \<in> R. rule_applies req Allow r then Some Allow
      else None)"

lemma by_rules_permission: "map_option pd_permission (by_rules rules req) = rule_permission (set rules) req"
  unfolding by_rules_cases rule_permission_def
  by (auto split: option.splits simp: find_None_iff decision_def dest!: find_Some_iff [THEN iffD1])

lemma classify_result:
  "classify verdict ended req i cs = Inr d \<Longrightarrow> \<exists>c \<in> set cs. \<exists>a. assess c req = Inr a \<and> d = verdict a"
proof (induction cs arbitrary: i)
  case (Cons c cs)
  then show ?case by (auto simp: Let_def split: sum.splits if_splits)
qed simp

lemma assess_valid: "assess c req = Inr a \<Longrightarrow> valid_assessment a"
  by (auto simp: assess_def and_then_Inr_iff split: option.splits if_splits)

text \<open>C34. A policy never allows by accident: a matching deny rule denies, else a matching ask rule asks,
  in whatever order the rules are declared; it allows only when an allow rule matches, or when no
  rule matches and a classifier gave a valid safe assessment at or above the threshold whose
  confidence counts. Everything else asks, and an outage of all classifiers is reported.\<close>

theorem policy_decides_safely:
  shows "(case rule_permission (set (po_rules p)) req of
            Some q \<Rightarrow> pd_permission (fst (decide p ended req)) = q \<and> snd (decide p ended req) = None
          | None \<Rightarrow> pd_permission (fst (decide p ended req)) \<in> {Ask, Allow})
     \<and> (pd_permission (fst (decide p ended req)) = Allow \<longrightarrow>
          rule_permission (set (po_rules p)) req = Some Allow
          \<or> rule_permission (set (po_rules p)) req = None
            \<and> (\<exists>c \<in> set (po_classifiers p). \<exists>a. assess c req = Inr a \<and> valid_assessment a \<and> as_risk a = ''safe''
                 \<and> float_le (policy_threshold p) (as_confidence a) \<and> (as_probability a \<or> po_generated p)
                 \<and> pd_assessment (fst (decide p ended req)) = Some a))
     \<and> (snd (decide p ended req) \<noteq> None \<longrightarrow> pd_permission (fst (decide p ended req)) = Ask)"
proof (cases "by_rules (po_rules p) req")
  case (Some d)
  then have "rule_permission (set (po_rules p)) req = Some (pd_permission d)"
    using by_rules_permission [of "po_rules p" req] by simp
  with Some show ?thesis by (simp add: decide_def)
next
  case None
  then have none: "rule_permission (set (po_rules p)) req = None" using by_rules_permission [of "po_rules p" req] by simp
  let ?give = "classifier_decision (policy_threshold p) (po_generated p)"
  show ?thesis
  proof (cases "classify ?give ended req 0 (po_classifiers p)")
    case (Inl es)
    with None none show ?thesis by (auto simp: decide_def decision_def)
  next
    case (Inr d)
    from classify_result [OF this] obtain c a where c: "c \<in> set (po_classifiers p)" "assess c req = Inr a" "d = ?give a" by blast
    have "decide p ended req = (?give a, None)" using None Inr c(3) by (simp add: decide_def)
    moreover have "pd_permission (?give a) = Allow \<or> pd_permission (?give a) = Ask" "pd_assessment (?give a) = Some a"
      "pd_permission (?give a) = Allow \<Longrightarrow> as_risk a = ''safe'' \<and> float_le (policy_threshold p) (as_confidence a) \<and> (as_probability a \<or> po_generated p)"
      by (auto simp: classifier_decision_def Let_def split: if_splits)
    ultimately show ?thesis using none c(1,2) assess_valid [OF c(2)] by auto
  qed
qed

lemma policy_decides_safely_witness:
  "\<forall>req. pd_permission (fst (decide \<lparr>po_rules = [tool_rule Deny ''no'' [''*'']], po_classifiers = [], po_classifier_id = [],
     po_min = FNum 0, po_generated = False\<rparr> (\<lambda>_. False) req)) = Deny"
proof
  fix req
  have "rule_permission (set [tool_rule Deny ''no'' [''*'']]) req = Some Deny"
    by (simp add: rule_permission_def rule_applies_def tool_rule_def pattern_match_def)
  then show "pd_permission (fst (decide \<lparr>po_rules = [tool_rule Deny ''no'' [''*'']], po_classifiers = [], po_classifier_id = [],
      po_min = FNum 0, po_generated = False\<rparr> (\<lambda>_. False) req)) = Deny"
    using policy_decides_safely [where p = "\<lparr>po_rules = [tool_rule Deny ''no'' [''*'']], po_classifiers = [], po_classifier_id = [],
      po_min = FNum 0, po_generated = False\<rparr>" and req = req and ended = "\<lambda>_. False"] by simp
qed

text \<open>A bare star never allows a remote tool.\<close>

lemma bare_star_not_remote:
  "remote_tool req \<Longrightarrow> \<not> rule_applies req Allow (tool_rule Allow reason [''*''])"
  by (simp add: rule_applies_def tool_rule_def)

end
