(* ===== verification/Plugin_Order.thy ===== *)
theory Plugin_Order
  imports Go_Text
begin

section \<open>Configured plugins and their order (plugins/hostconfig/plugin_config.go)\<close>

text \<open>
  The host's settings list plugins by ID. Each entry is decoded by the factory registered for
  its ID, or by an installed manifest, into a plugin that declares the capabilities it provides
  and requires; the enabled ones are ordered so that providers come first. The order is found by
  a depth-first walk, a partial function whose termination is a theorem. Host plugins \<open>'h\<close> and
  model providers \<open>'f\<close> are opaque here.
\<close>

record plugin_entry =
  en_id :: string
  en_version :: string
  en_enabled :: "bool option"
  en_config :: string

record 'h built_plugin =
  bt_id :: string
  bt_host :: "'h option"
  bt_manifest :: string
  bt_config :: string

record ('h, 'f) build_context =
  bx_getenv :: "string \<Rightarrow> string"
  bx_providers :: "string \<Rightarrow> 'f option"
  bx_plugins :: "'h built_plugin list"

record ('h, 'f) configured =
  cf_id :: string
  cf_provides :: "string list"
  cf_requires :: "string list"
  cf_build :: "('h, 'f) build_context \<Rightarrow> error + ('h, 'f) build_context"

type_synonym ('h, 'f) factory = "string \<Rightarrow> bool \<Rightarrow> string \<Rightarrow> error + ('h, 'f) configured"

type_synonym ('h, 'f) registration = "string \<times> ('h, 'f) factory"

type_synonym ('h, 'f) registry = "string \<rightharpoonup> ('h, 'f) registration"

subsection \<open>The registry and the build context\<close>

definition register_factory :: "('h, 'f) registry \<Rightarrow> string \<Rightarrow> string \<Rightarrow> ('h, 'f) factory option \<Rightarrow> error + ('h, 'f) registry" where
  "register_factory reg i version f =
     (case f of
        None \<Rightarrow> Inl ''plugin registration requires ID, version, and factory''
      | Some factory \<Rightarrow>
          if i = [] \<or> version = [] then Inl ''plugin registration requires ID, version, and factory''
          else if i \<in> dom reg then Inl (''plugin '' @ quoted i @ '' is already registered'')
          else Inr (reg(i \<mapsto> (version, factory))))"

definition add_host_plugin :: "'h \<Rightarrow> ('h, 'f) build_context \<Rightarrow> ('h, 'f) build_context" where
  "add_host_plugin p b = b\<lparr>bx_plugins := bx_plugins b @ [\<lparr>bt_id = [], bt_host = Some p, bt_manifest = [], bt_config = []\<rparr>]\<rparr>"

definition add_manifest :: "string \<Rightarrow> ('h, 'f) build_context \<Rightarrow> ('h, 'f) build_context" where
  "add_manifest path b = b\<lparr>bx_plugins := bx_plugins b @ [\<lparr>bt_id = [], bt_host = None, bt_manifest = path, bt_config = []\<rparr>]\<rparr>"

definition add_manifest_config :: "string \<Rightarrow> string \<Rightarrow> ('h, 'f) build_context \<Rightarrow> ('h, 'f) build_context" where
  "add_manifest_config path config b =
     b\<lparr>bx_plugins := bx_plugins b @ [\<lparr>bt_id = [], bt_host = None, bt_manifest = path, bt_config = config\<rparr>]\<rparr>"

subsection \<open>Decoding the entries\<close>

definition plugin_error :: "string \<Rightarrow> string \<Rightarrow> error" where
  "plugin_error i s = ''config plugins.'' @ i @ s"

text \<open>\<open>installed\<close> looks up an installed manifest.\<close>

definition decode_entry ::
    "('h, 'f) registry \<Rightarrow> (string \<Rightarrow> error + ('h, 'f) registration) \<Rightarrow> plugin_entry \<Rightarrow> bool \<Rightarrow> error + ('h, 'f) configured" where
  "decode_entry reg installed e enabled =
     and_then (case reg (en_id e) of Some r \<Rightarrow> Inr r | None \<Rightarrow> installed (en_id e)) (\<lambda>(version, decode).
       if en_version e \<noteq> version
       then Inl (plugin_error (en_id e) ('': unsupported version '' @ quoted (en_version e) @ '' (supported: '' @ version @ '')''))
       else decode (en_id e) enabled (en_config e))"

record ('h, 'f) plan =
  pl_plugins :: "string \<rightharpoonup> ('h, 'f) configured"
  pl_active :: "string \<Rightarrow> bool"
  pl_ids :: "string list"

definition empty_plan :: "('h, 'f) plan" where
  "empty_plan = \<lparr>pl_plugins = Map.empty, pl_active = (\<lambda>_. False), pl_ids = []\<rparr>"

definition add_entry :: "(plugin_entry \<Rightarrow> bool \<Rightarrow> error + ('h, 'f) configured) \<Rightarrow> ('h, 'f) plan \<Rightarrow> nat \<times> plugin_entry \<Rightarrow> error + ('h, 'f) plan" where
  "add_entry decode pl = (\<lambda>(n, e).
     if en_id e = [] then Inl (''config plugins['' @ show_nat n @ ''].id is required'')
     else if en_id e \<in> dom (pl_plugins pl) then Inl (plugin_error (en_id e) '': duplicate plugin ID'')
     else (case en_enabled e of
         None \<Rightarrow> Inl (plugin_error (en_id e) ''.enabled is required'')
       | Some enabled \<Rightarrow> and_then (decode e enabled) (\<lambda>p.
           Inr (pl\<lparr>pl_plugins := (pl_plugins pl)(en_id e \<mapsto> p), pl_active := (pl_active pl)(en_id e := enabled),
                   pl_ids := pl_ids pl @ [en_id e]\<rparr>))))"

definition collect_entries :: "(plugin_entry \<Rightarrow> bool \<Rightarrow> error + ('h, 'f) configured) \<Rightarrow> plugin_entry list \<Rightarrow> error + ('h, 'f) plan" where
  "collect_entries decode raw = fold_res (add_entry decode) empty_plan (List.enumerate 0 raw)"

definition claim_capability :: "string \<Rightarrow> (string \<rightharpoonup> string) \<Rightarrow> string \<Rightarrow> error + (string \<rightharpoonup> string)" where
  "claim_capability i providers c =
     (case providers c of
        Some other \<Rightarrow> Inl (plugin_error i ('': capability '' @ quoted c @ '' already provided by '' @ quoted other))
      | None \<Rightarrow> Inr (providers(c \<mapsto> i)))"

definition provided_by :: "('h, 'f) plan \<Rightarrow> string \<Rightarrow> string list" where
  "provided_by pl i = (case pl_plugins pl i of None \<Rightarrow> [] | Some p \<Rightarrow> cf_provides p)"

definition collect_providers :: "('h, 'f) plan \<Rightarrow> error + (string \<rightharpoonup> string)" where
  "collect_providers pl =
     fold_res (\<lambda>providers i. if \<not> pl_active pl i then Inr providers
         else fold_res (claim_capability i) providers (provided_by pl i))
       Map.empty (pl_ids pl)"

subsection \<open>Ordering\<close>

datatype mark = Fresh | Entered | Placed

record ('h, 'f) walk =
  wk_mark :: "string \<Rightarrow> mark"
  wk_order :: "('h, 'f) configured list"

definition cycle_error :: "string \<Rightarrow> error" where
  "cycle_error i = plugin_error i '': cyclic capability dependency''"

definition enter :: "string \<Rightarrow> ('h, 'f) walk \<Rightarrow> ('h, 'f) walk" where
  "enter i w = w\<lparr>wk_mark := (wk_mark w)(i := Entered)\<rparr>"

definition place :: "string \<Rightarrow> ('h, 'f) configured \<Rightarrow> ('h, 'f) walk \<Rightarrow> ('h, 'f) walk" where
  "place i p w = w\<lparr>wk_mark := (wk_mark w)(i := Placed), wk_order := wk_order w @ [p]\<rparr>"

text \<open>The loop of \<^verbatim>\<open>visit\<close> over the requirements of the plugin \<open>i\<close>, with the recursive call written out.\<close>

partial_function (option) visit_needs ::
    "(string \<rightharpoonup> ('h, 'f) configured) \<Rightarrow> (string \<rightharpoonup> string) \<Rightarrow> string \<Rightarrow> string list \<Rightarrow> ('h, 'f) walk \<Rightarrow> (error + ('h, 'f) walk) option" where
  "visit_needs plugins providers i cs w =
     (case cs of
        [] \<Rightarrow> Some (Inr w)
      | c # cs' \<Rightarrow>
          (case providers c of
             None \<Rightarrow> Some (Inl (plugin_error i ('': required capability '' @ quoted c @ '' is missing or disabled'')))
           | Some j \<Rightarrow>
               (case wk_mark w j of
                  Placed \<Rightarrow> visit_needs plugins providers i cs' w
                | Entered \<Rightarrow> Some (Inl (cycle_error j))
                | Fresh \<Rightarrow>
                    (case plugins j of
                       None \<Rightarrow> Some (Inl ''nil plugin'')
                     | Some p \<Rightarrow>
                         Option.bind (visit_needs plugins providers j (cf_requires p) (enter j w)) (\<lambda>r.
                           case r of
                             Inl e \<Rightarrow> Some (Inl e)
                           | Inr w' \<Rightarrow> visit_needs plugins providers i cs' (place j p w'))))))"

definition visit :: "(string \<rightharpoonup> ('h, 'f) configured) \<Rightarrow> (string \<rightharpoonup> string) \<Rightarrow> string \<Rightarrow> ('h, 'f) walk \<Rightarrow> (error + ('h, 'f) walk) option" where
  "visit plugins providers j w =
     (case wk_mark w j of
        Placed \<Rightarrow> Some (Inr w)
      | Entered \<Rightarrow> Some (Inl (cycle_error j))
      | Fresh \<Rightarrow>
          (case plugins j of
             None \<Rightarrow> Some (Inl ''nil plugin'')
           | Some p \<Rightarrow> map_option (\<lambda>r. and_then r (\<lambda>w'. Inr (place j p w')))
                       (visit_needs plugins providers j (cf_requires p) (enter j w))))"

fun visit_active :: "('h, 'f) plan \<Rightarrow> (string \<rightharpoonup> string) \<Rightarrow> string list \<Rightarrow> ('h, 'f) walk \<Rightarrow> (error + ('h, 'f) walk) option" where
  "visit_active pl providers [] w = Some (Inr w)"
| "visit_active pl providers (i # is) w =
     (if \<not> pl_active pl i then visit_active pl providers is w
      else Option.bind (visit (pl_plugins pl) providers i w) (\<lambda>r.
        case r of Inl e \<Rightarrow> Some (Inl e) | Inr w' \<Rightarrow> visit_active pl providers is w'))"

definition order_plugins :: "('h, 'f) plan \<Rightarrow> (string \<rightharpoonup> string) \<Rightarrow> (error + ('h, 'f) configured list) option" where
  "order_plugins pl providers =
     map_option (map_sum id wk_order) (visit_active pl providers (pl_ids pl) \<lparr>wk_mark = (\<lambda>_. Fresh), wk_order = []\<rparr>)"

definition decode_plugin_configs :: "(plugin_entry \<Rightarrow> bool \<Rightarrow> error + ('h, 'f) configured) \<Rightarrow> plugin_entry list
    \<Rightarrow> (error + ('h, 'f) configured list) option" where
  "decode_plugin_configs decode raw =
     (case collect_entries decode raw of
        Inl e \<Rightarrow> Some (Inl e)
      | Inr pl \<Rightarrow> (case collect_providers pl of
          Inl e \<Rightarrow> Some (Inl e)
        | Inr providers \<Rightarrow> order_plugins pl providers))"

subsection \<open>Building\<close>

definition stamp :: "nat \<Rightarrow> string \<Rightarrow> 'h built_plugin list \<Rightarrow> 'h built_plugin list" where
  "stamp n i ps = take n ps @ map (\<lambda>b. b\<lparr>bt_id := i\<rparr>) (drop n ps)"

definition build_one :: "('h, 'f) build_context \<Rightarrow> ('h, 'f) configured \<Rightarrow> error + ('h, 'f) build_context" where
  "build_one b p =
     (case cf_build p b of
        Inl e \<Rightarrow> Inl (plugin_error (cf_id p) ('': '' @ e))
      | Inr b' \<Rightarrow> Inr (b'\<lparr>bx_plugins := stamp (length (bx_plugins b)) (cf_id p) (bx_plugins b')\<rparr>))"

definition build_plugins :: "(string \<Rightarrow> string) \<Rightarrow> (string \<Rightarrow> 'f option) \<Rightarrow> ('h, 'f) configured list \<Rightarrow> error + 'h built_plugin list" where
  "build_plugins getenv providers ps =
     map_sum id bx_plugins (fold_res build_one \<lparr>bx_getenv = getenv, bx_providers = providers, bx_plugins = []\<rparr> ps)"

definition build_settings :: "(plugin_entry \<Rightarrow> bool \<Rightarrow> error + ('h, 'f) configured) \<Rightarrow> (string \<Rightarrow> string) \<Rightarrow> (string \<Rightarrow> 'f option)
    \<Rightarrow> plugin_entry list \<Rightarrow> (error + 'h built_plugin list) option" where
  "build_settings decode getenv providers raw =
     map_option (\<lambda>r. and_then r (build_plugins getenv providers)) (decode_plugin_configs decode raw)"

subsection \<open>The walk ends, and says why when it fails\<close>

definition needs_of :: "(string \<rightharpoonup> ('h, 'f) configured) \<Rightarrow> string \<Rightarrow> string list" where
  "needs_of plugins i = (case plugins i of None \<Rightarrow> [] | Some p \<Rightarrow> cf_requires p)"

text \<open>\<open>(a, b)\<close>: the plugin \<open>a\<close> requires a capability that \<open>b\<close> provides.\<close>

definition depends :: "(string \<rightharpoonup> ('h, 'f) configured) \<Rightarrow> (string \<rightharpoonup> string) \<Rightarrow> (string \<times> string) set" where
  "depends plugins providers = {(a, b). \<exists>c \<in> set (needs_of plugins a). providers c = Some b}"

text \<open>What the walk is given: providers are among the finitely many plugins \<open>D\<close>, and all of these are decoded.\<close>

definition plan_ok :: "string set \<Rightarrow> (string \<rightharpoonup> ('h, 'f) configured) \<Rightarrow> (string \<rightharpoonup> string) \<Rightarrow> bool" where
  "plan_ok D plugins providers \<longleftrightarrow> finite D \<and> D \<subseteq> dom plugins \<and> ran providers \<subseteq> D"

definition after_needs :: "(string \<Rightarrow> string list) \<Rightarrow> (string \<rightharpoonup> string) \<Rightarrow> string list \<Rightarrow> bool" where
  "after_needs needs providers ks \<longleftrightarrow> (\<forall>n < length ks. \<forall>c \<in> set (needs (ks ! n)). \<exists>j \<in> set (take n ks). providers c = Some j)"

lemma after_needs_snoc:
  "after_needs needs providers (ks @ [k]) \<longleftrightarrow>
     after_needs needs providers ks \<and> (\<forall>c \<in> set (needs k). \<exists>j \<in> set ks. providers c = Some j)"
  unfolding after_needs_def length_append_singleton All_less_Suc by (auto simp: nth_append)

definition walk_ok :: "string set \<Rightarrow> (string \<rightharpoonup> ('h, 'f) configured) \<Rightarrow> (string \<rightharpoonup> string) \<Rightarrow> string list \<Rightarrow> ('h, 'f) walk \<Rightarrow> bool" where
  "walk_ok D plugins providers ks w \<longleftrightarrow>
     distinct ks \<and> set ks = {x. wk_mark w x = Placed} \<and> set ks \<subseteq> D \<and> {x. wk_mark w x = Entered} \<subseteq> D
     \<and> wk_order w = map (\<lambda>i. the (plugins i)) ks \<and> after_needs (needs_of plugins) providers ks"

definition lead_to :: "(string \<rightharpoonup> ('h, 'f) configured) \<Rightarrow> (string \<rightharpoonup> string) \<Rightarrow> string \<Rightarrow> ('h, 'f) walk \<Rightarrow> bool" where
  "lead_to plugins providers i w \<longleftrightarrow> (\<forall>x. wk_mark w x = Entered \<longrightarrow> (x, i) \<in> (depends plugins providers)\<^sup>*)"

text \<open>Why no order exists.\<close>

definition stuck :: "string set \<Rightarrow> (string \<rightharpoonup> ('h, 'f) configured) \<Rightarrow> (string \<rightharpoonup> string) \<Rightarrow> bool" where
  "stuck D plugins providers \<longleftrightarrow>
     (\<exists>i \<in> D. \<exists>c \<in> set (needs_of plugins i). providers c = None) \<or> (\<exists>i. (i, i) \<in> (depends plugins providers)\<^sup>+)"

definition walked :: "string set \<Rightarrow> (string \<rightharpoonup> ('h, 'f) configured) \<Rightarrow> (string \<rightharpoonup> string) \<Rightarrow> string \<Rightarrow> string list
    \<Rightarrow> ('h, 'f) walk \<Rightarrow> error + ('h, 'f) walk \<Rightarrow> string set \<Rightarrow> bool" where
  "walked D plugins providers i ks w r goal \<longleftrightarrow>
     (case r of
        Inl _ \<Rightarrow> stuck D plugins providers
      | Inr w' \<Rightarrow> (\<exists>ext. walk_ok D plugins providers (ks @ ext) w' \<and> goal \<subseteq> set (ks @ ext)
          \<and> (\<forall>x \<in> set ext. (i, x) \<in> (depends plugins providers)\<^sup>*)
          \<and> {x. wk_mark w' x = Entered} = {x. wk_mark w x = Entered}))"

lemma enter_ok:
  assumes "walk_ok D plugins providers ks w" and "j \<in> D" and "wk_mark w j = Fresh"
  shows "walk_ok D plugins providers ks (enter j w)"
  using assms by (auto simp: walk_ok_def enter_def)

lemma place_ok:
  assumes "walk_ok D plugins providers ks w" and "j \<in> D" and "wk_mark w j = Entered" and "plugins j = Some p"
    and "\<forall>c \<in> set (cf_requires p). \<exists>k \<in> set ks. providers c = Some k"
  shows "walk_ok D plugins providers (ks @ [j]) (place j p w)"
  using assms by (auto simp: walk_ok_def place_def after_needs_snoc needs_of_def)

definition providers_of :: "(string \<rightharpoonup> string) \<Rightarrow> string list \<Rightarrow> string set" where
  "providers_of providers cs = {j. \<exists>c \<in> set cs. providers c = Some j}"

lemma fresh_count:
  assumes "finite D" and "j \<in> D" and "wk_mark w j = Fresh"
  shows "card {x \<in> D. wk_mark (enter j w) x = Fresh} < card {x \<in> D. wk_mark w x = Fresh}"
proof (rule psubset_card_mono)
  show "{x \<in> D. wk_mark (enter j w) x = Fresh} \<subset> {x \<in> D. wk_mark w x = Fresh}"
    using assms by (auto simp: enter_def)
qed (use assms(1) in simp)

lemma fresh_less:
  assumes "finite D" and "walk_ok D plugins providers ks w" and "walk_ok D plugins providers (ks @ ext) w'"
    and "{x. wk_mark w' x = Entered} = {x. wk_mark w x = Entered}"
  shows "card {x \<in> D. wk_mark w' x = Fresh} \<le> card {x \<in> D. wk_mark w x = Fresh}"
proof (rule card_mono)
  show "{x \<in> D. wk_mark w' x = Fresh} \<subseteq> {x \<in> D. wk_mark w x = Fresh}"
  proof
    fix x assume x: "x \<in> {x \<in> D. wk_mark w' x = Fresh}"
    have "wk_mark w x \<noteq> Entered" using assms(4) x by (metis (mono_tags, lifting) mark.distinct(1) mem_Collect_eq)
    moreover have "wk_mark w x \<noteq> Placed"
    proof
      assume "wk_mark w x = Placed"
      then have "x \<in> set (ks @ ext)" using assms(2) by (simp add: walk_ok_def)
      moreover have "set (ks @ ext) = {x. wk_mark w' x = Placed}" using assms(3) unfolding walk_ok_def by blast
      ultimately have "wk_mark w' x = Placed" by blast
      then show False using x by simp
    qed
    ultimately show "x \<in> {x \<in> D. wk_mark w x = Fresh}" using x by (cases "wk_mark w x") auto
  qed
qed (use assms(1) in simp)

text \<open>One step of the walk into a plugin not yet seen, given the walk over its requirements.\<close>

lemma entered_step:
  assumes plan: "plan_ok D plugins providers" and ok: "walk_ok D plugins providers ks w" and lead: "lead_to plugins providers i w"
    and j: "(i, j) \<in> depends plugins providers" "j \<in> D" "wk_mark w j = Fresh" "plugins j = Some p"
    and inner: "walked D plugins providers j ks (enter j w) (Inr w') (providers_of providers (cf_requires p))"
    and all: "\<forall>c \<in> set (cf_requires p). providers c \<noteq> None"
  shows "\<exists>ext. walk_ok D plugins providers (ks @ ext @ [j]) (place j p w')
     \<and> (\<forall>x \<in> set (ext @ [j]). (i, x) \<in> (depends plugins providers)\<^sup>*)
     \<and> {x. wk_mark (place j p w') x = Entered} = {x. wk_mark w x = Entered}"
proof -
  obtain ext where ext: "walk_ok D plugins providers (ks @ ext) w'" "providers_of providers (cf_requires p) \<subseteq> set (ks @ ext)"
    "\<forall>x \<in> set ext. (j, x) \<in> (depends plugins providers)\<^sup>*" and mark: "{x. wk_mark w' x = Entered} = {x. wk_mark (enter j w) x = Entered}"
    using inner by (auto simp: walked_def)
  have "wk_mark w' j = Entered" using mark by (auto simp: enter_def set_eq_iff)
  moreover have "\<forall>c \<in> set (cf_requires p). \<exists>k \<in> set (ks @ ext). providers c = Some k"
    using ext(2) all by (fastforce simp: providers_of_def)
  ultimately have "walk_ok D plugins providers ((ks @ ext) @ [j]) (place j p w')"
    using place_ok [OF ext(1) j(2) _ j(4)] by blast
  moreover have "\<forall>x \<in> set (ext @ [j]). (i, x) \<in> (depends plugins providers)\<^sup>*"
    using ext(3) j(1) by (auto intro: converse_rtrancl_into_rtrancl)
  moreover have "{x. wk_mark (place j p w') x = Entered} = {x. wk_mark w x = Entered}"
    using mark j(3) by (auto simp: place_def enter_def set_eq_iff)
  ultimately show ?thesis by auto
qed

lemma enter_lead:
  assumes "lead_to plugins providers i w" and "(i, j) \<in> depends plugins providers"
  shows "lead_to plugins providers j (enter j w)"
  using assms by (auto simp: lead_to_def enter_def intro: rtrancl_into_rtrancl)

lemma walked_goal: "walked D plugins providers i ks w r g \<Longrightarrow> g' \<subseteq> set ks \<union> g \<Longrightarrow> walked D plugins providers i ks w r g'"
  unfolding walked_def by (cases r) (simp, simp, blast)

lemma visit_needs_walked:
  assumes plan: "plan_ok D plugins providers"
  shows "m = (card {x \<in> D. wk_mark w x = Fresh}, length cs) \<Longrightarrow> walk_ok D plugins providers ks w \<Longrightarrow> lead_to plugins providers i w \<Longrightarrow> i \<in> D
    \<Longrightarrow> set cs \<subseteq> set (needs_of plugins i)
    \<Longrightarrow> \<exists>r. visit_needs plugins providers i cs w = Some r
      \<and> walked D plugins providers i ks w r (providers_of providers cs) \<and> (\<forall>w'. r = Inr w' \<longrightarrow> (\<forall>c \<in> set cs. providers c \<noteq> None))"
proof (induction m arbitrary: ks w i cs rule: wf_induct_rule [OF wf_lex_prod [OF wf_less_than wf_less_than]])
  case (1 m ks w i cs)
  note IH = 1(1) [OF _ refl] and m = 1(2) and ok = 1(3) and lead = 1(4) and i = 1(5) and cs = 1(6)
  show ?case
  proof (cases cs)
    case Nil
    then show ?thesis using ok by (simp add: visit_needs.simps walked_def providers_of_def exI [of _ "[]"])
  next
    case (Cons c cs')
    show ?thesis
    proof (cases "providers c")
      case None
      then have "stuck D plugins providers" using i cs Cons by (auto simp: stuck_def)
      then show ?thesis using Cons None by (subst visit_needs.simps) (simp add: walked_def)
    next
      case (Some j)
      have dep: "(i, j) \<in> depends plugins providers" using Some cs Cons by (auto simp: depends_def)
      have jD: "j \<in> D" using plan Some by (auto simp: plan_ok_def ran_def)
      then obtain p where p: "plugins j = Some p" using plan by (auto simp: plan_ok_def)
      have fin: "finite D" using plan by (simp add: plan_ok_def)
      have rest: "set cs' \<subseteq> set (needs_of plugins i)" using cs Cons by simp
      show ?thesis
      proof (cases "wk_mark w j")
        case Placed
        obtain r where r: "visit_needs plugins providers i cs' w = Some r"
            "walked D plugins providers i ks w r (providers_of providers cs')" "\<forall>w'. r = Inr w' \<longrightarrow> (\<forall>c \<in> set cs'. providers c \<noteq> None)"
          using IH [OF _ ok lead i rest] by (auto simp: Cons m)
        have "j \<in> set ks" using Placed ok by (simp add: walk_ok_def)
        then have "walked D plugins providers i ks w r (providers_of providers cs)"
          using Some by (intro walked_goal [OF r(2)]) (auto simp: providers_of_def Cons)
        then show ?thesis using Some Placed Cons r by (subst visit_needs.simps) simp
      next
        case Entered
        then have "(j, j) \<in> (depends plugins providers)\<^sup>+"
          using lead dep by (auto simp: lead_to_def intro: rtrancl_into_trancl1)
        then have "stuck D plugins providers" by (auto simp: stuck_def)
        then show ?thesis using Some Entered Cons by (subst visit_needs.simps) (simp add: walked_def)
      next
        case Fresh
        have "\<exists>r. visit_needs plugins providers j (cf_requires p) (enter j w) = Some r
            \<and> walked D plugins providers j ks (enter j w) r (providers_of providers (cf_requires p))
            \<and> (\<forall>w'. r = Inr w' \<longrightarrow> (\<forall>c \<in> set (cf_requires p). providers c \<noteq> None))"
          by (rule IH [OF _ enter_ok [OF ok jD Fresh] enter_lead [OF lead dep] jD])
            (use fresh_count [OF fin jD Fresh] p m in \<open>auto simp: needs_of_def\<close>)
        then obtain r where r: "visit_needs plugins providers j (cf_requires p) (enter j w) = Some r"
          "walked D plugins providers j ks (enter j w) r (providers_of providers (cf_requires p))"
          "\<forall>w'. r = Inr w' \<longrightarrow> (\<forall>c \<in> set (cf_requires p). providers c \<noteq> None)" by blast
        show ?thesis
        proof (cases r)
          case (Inl e)
          then show ?thesis using r Some Fresh p Cons
            by (subst visit_needs.simps) (simp add: walked_def)
        next
          case (Inr w1)
          from entered_step [OF plan ok lead dep jD Fresh p, of w1] r Inr
          obtain ext where ext: "walk_ok D plugins providers (ks @ ext @ [j]) (place j p w1)"
            "\<forall>x \<in> set (ext @ [j]). (i, x) \<in> (depends plugins providers)\<^sup>*"
            and mark: "{x. wk_mark (place j p w1) x = Entered} = {x. wk_mark w x = Entered}" by blast
          have "lead_to plugins providers i (place j p w1)"
            using lead mark unfolding lead_to_def by blast
          moreover have "card {x \<in> D. wk_mark (place j p w1) x = Fresh} \<le> card {x \<in> D. wk_mark w x = Fresh}"
            using fresh_less [OF fin ok ext(1) mark] .
          ultimately obtain r2 where r2: "visit_needs plugins providers i cs' (place j p w1) = Some r2"
            "walked D plugins providers i (ks @ ext @ [j]) (place j p w1) r2 (providers_of providers cs')"
            "\<forall>w'. r2 = Inr w' \<longrightarrow> (\<forall>c \<in> set cs'. providers c \<noteq> None)"
            using IH [of "place j p w1" cs' "ks @ ext @ [j]" i] ext(1) i rest Cons m by fastforce
          have "walked D plugins providers i ks w r2 (providers_of providers cs)"
          proof (cases r2)
            case (Inl e)
            then show ?thesis using r2 by (simp add: walked_def)
          next
            case (Inr w2)
            with r2(2) obtain ext2 where e2: "walk_ok D plugins providers (ks @ ext @ j # ext2) w2"
              "providers_of providers cs' \<subseteq> set (ks @ ext @ j # ext2)" "\<forall>x \<in> set ext2. (i, x) \<in> (depends plugins providers)\<^sup>*"
              "{x. wk_mark w2 x = Entered} = {x. wk_mark w x = Entered}"
              using mark by (auto simp: walked_def)
            moreover have "providers_of providers cs \<subseteq> set (ks @ ext @ j # ext2)"
              using e2(2) Cons Some by (auto simp: providers_of_def)
            moreover have "\<forall>x \<in> set (ext @ j # ext2). (i, x) \<in> (depends plugins providers)\<^sup>*" using ext(2) e2(3) by auto
            ultimately show ?thesis unfolding walked_def Inr sum.case by blast
          qed
          then show ?thesis using Some Fresh p Cons r Inr r2
            by (subst visit_needs.simps) auto
        qed
      qed
    qed
  qed
qed

text \<open>The walk over the enabled plugins.\<close>

lemma visit_walked:
  assumes plan: "plan_ok D plugins providers" and ok: "walk_ok D plugins providers ks w"
    and idle: "{x. wk_mark w x = Entered} = {}" and j: "j \<in> D"
  shows "\<exists>r. visit plugins providers j w = Some r \<and> (case r of
      Inl _ \<Rightarrow> stuck D plugins providers
    | Inr w' \<Rightarrow> (\<exists>ext. walk_ok D plugins providers (ks @ ext) w' \<and> j \<in> set (ks @ ext)
        \<and> {x. wk_mark w' x = Entered} = {} \<and> (\<forall>x \<in> set ext. (j, x) \<in> (depends plugins providers)\<^sup>*)
        \<and> (ext \<noteq> [] \<longrightarrow> last ext = j)))"
proof (cases "wk_mark w j")
  case Placed
  then have "j \<in> set ks" using ok by (simp add: walk_ok_def)
  then show ?thesis using Placed ok idle by (auto simp: visit_def intro!: exI [of _ "[]"])
next
  case Entered
  then show ?thesis using idle by auto
next
  case Fresh
  obtain p where p: "plugins j = Some p" using plan j by (auto simp: plan_ok_def)
  have "lead_to plugins providers j (enter j w)" using idle by (auto simp: lead_to_def enter_def)
  from visit_needs_walked [OF plan refl enter_ok [OF ok j Fresh] this j, of "cf_requires p"] p
  obtain r where r: "visit_needs plugins providers j (cf_requires p) (enter j w) = Some r"
    "walked D plugins providers j ks (enter j w) r (providers_of providers (cf_requires p))"
    "\<forall>w'. r = Inr w' \<longrightarrow> (\<forall>c \<in> set (cf_requires p). providers c \<noteq> None)"
    by (auto simp: needs_of_def)
  show ?thesis
  proof (cases r)
    case (Inl e)
    then show ?thesis using r Fresh p by (simp add: visit_def walked_def)
  next
    case (Inr w1)
    obtain ext where ext: "walk_ok D plugins providers (ks @ ext) w1" "providers_of providers (cf_requires p) \<subseteq> set (ks @ ext)"
      "\<forall>x \<in> set ext. (j, x) \<in> (depends plugins providers)\<^sup>*" and mark: "{x. wk_mark w1 x = Entered} = {x. wk_mark (enter j w) x = Entered}"
      using r Inr by (auto simp: walked_def)
    have entered: "{x. wk_mark w1 x = Entered} = {j}" using mark idle by (auto simp: enter_def)
    then have "wk_mark w1 j = Entered" by blast
    moreover have "\<forall>c \<in> set (cf_requires p). \<exists>k \<in> set (ks @ ext). providers c = Some k"
      using ext(2) r(3) Inr by (fastforce simp: providers_of_def)
    ultimately have "walk_ok D plugins providers ((ks @ ext) @ [j]) (place j p w1)"
      using place_ok [OF ext(1) j _ p] by blast
    moreover have "{x. wk_mark (place j p w1) x = Entered} = {}" using entered by (auto simp: place_def set_eq_iff)
    ultimately show ?thesis using r Inr Fresh p ext(3)
      by (auto simp: visit_def intro!: exI [of _ "ext @ [j]"])
  qed
qed

lemma visit_active_walked:
  assumes plan: "plan_ok D (pl_plugins pl) providers" and D: "\<And>i. i \<in> set is \<Longrightarrow> pl_active pl i \<Longrightarrow> i \<in> D"
    and ok: "walk_ok D (pl_plugins pl) providers ks w" and idle: "{x. wk_mark w x = Entered} = {}"
  shows "\<exists>r. visit_active pl providers is w = Some r \<and> (case r of
      Inl _ \<Rightarrow> stuck D (pl_plugins pl) providers
    | Inr w' \<Rightarrow> (\<exists>ks'. walk_ok D (pl_plugins pl) providers ks' w' \<and> set ks \<union> {i \<in> set is. pl_active pl i} \<subseteq> set ks'))"
  using D ok idle
proof (induction "is" arbitrary: ks w)
  case Nil
  then show ?case by auto
next
  case (Cons i "is")
  show ?case
  proof (cases "pl_active pl i")
    case False
    have same: "{x \<in> set (i # is). pl_active pl x} = {x \<in> set is. pl_active pl x}" using False by auto
    show ?thesis unfolding same using False Cons.IH [OF _ Cons.prems(2,3)] Cons.prems(1) by simp
  next
    case True
    with Cons.prems have "i \<in> D" by simp
    from visit_walked [OF plan Cons.prems(2,3) this] obtain r where r: "visit (pl_plugins pl) providers i w = Some r"
      "case r of Inl _ \<Rightarrow> stuck D (pl_plugins pl) providers
       | Inr w' \<Rightarrow> (\<exists>ext. walk_ok D (pl_plugins pl) providers (ks @ ext) w' \<and> i \<in> set (ks @ ext) \<and> {x. wk_mark w' x = Entered} = {})"
      by (fastforce split: sum.splits)
    show ?thesis
    proof (cases r)
      case (Inl e)
      then show ?thesis using True r by simp
    next
      case (Inr w1)
      with r obtain ext where ext: "walk_ok D (pl_plugins pl) providers (ks @ ext) w1" "i \<in> set (ks @ ext)" "{x. wk_mark w1 x = Entered} = {}"
        by auto
      from Cons.IH [OF _ ext(1,3)] Cons.prems(1) obtain r2 where r2: "visit_active pl providers is w1 = Some r2"
        "case r2 of Inl _ \<Rightarrow> stuck D (pl_plugins pl) providers
         | Inr w' \<Rightarrow> (\<exists>ks'. walk_ok D (pl_plugins pl) providers ks' w' \<and> set (ks @ ext) \<union> {i \<in> set is. pl_active pl i} \<subseteq> set ks')"
        by auto
      then show ?thesis using True r(1) Inr ext(2) by (auto split: sum.splits)
    qed
  qed
qed

text \<open>When an order was found, nothing stands in its way.\<close>

lemma after_needs_trancl:
  assumes ord: "after_needs (needs_of plugins) providers ks" and ks: "set ks = D" and "distinct ks" and ran: "ran providers \<subseteq> D"
    and dep: "(a, b) \<in> (depends plugins providers)\<^sup>+" and a: "a \<in> D"
  shows "\<exists>m n. m < n \<and> n < length ks \<and> ks ! n = a \<and> ks ! m = b"
proof -
  have one: "\<exists>m n. m < n \<and> n < length ks \<and> ks ! n = a \<and> ks ! m = b" if dep: "(a, b) \<in> depends plugins providers" and "a \<in> D" for a b
  proof -
    from that ks obtain n where n: "n < length ks" "ks ! n = a" by (auto simp: in_set_conv_nth)
    from dep obtain c where "c \<in> set (needs_of plugins a)" "providers c = Some b" by (auto simp: depends_def)
    with ord n have "b \<in> set (take n ks)" unfolding after_needs_def by force
    then obtain m where "m < n" "ks ! m = b" using n by (auto simp: in_set_conv_nth)
    with n show ?thesis by blast
  qed
  have provided: "b \<in> D" if "(a, b) \<in> depends plugins providers" for a b
    using that ran by (auto simp: depends_def ran_def)
  from dep a show ?thesis
  proof (induction rule: trancl_induct)
    case (base y)
    then show ?case using one by blast
  next
    case (step y z)
    then obtain m n where mn: "m < n" "n < length ks" "ks ! n = a" "ks ! m = y" by blast
    from step.hyps(1) have "y \<in> D" by (cases rule: tranclE) (auto dest: provided)
    with one [OF step.hyps(2)] obtain m' n' where "m' < n'" "n' < length ks" "ks ! n' = y" "ks ! m' = z" by blast
    moreover from this mn assms(3) have "n' = m" by (metis nth_eq_iff_index_eq order.strict_trans)
    ultimately show ?case using mn order.strict_trans by blast
  qed
qed

lemma after_needs_not_stuck:
  assumes "after_needs (needs_of plugins) providers ks" and "set ks = D" and "distinct ks" and "ran providers \<subseteq> D"
  shows "\<not> stuck D plugins providers"
proof -
  have "i \<in> D" if "(i, i) \<in> (depends plugins providers)\<^sup>+" for i
    using that by (cases rule: tranclE) (use assms(4) in \<open>auto simp: depends_def ran_def\<close>)
  then have "\<not> (\<exists>i. (i, i) \<in> (depends plugins providers)\<^sup>+)"
    using after_needs_trancl [OF assms] assms(3) by (metis nth_eq_iff_index_eq order.strict_trans less_irrefl)
  moreover have "providers c \<noteq> None" if "i \<in> D" "c \<in> set (needs_of plugins i)" for i c
    using that assms(1,2) unfolding after_needs_def by (metis in_set_conv_nth option.distinct(1))
  ultimately show ?thesis by (auto simp: stuck_def)
qed

subsection \<open>From the settings to the order\<close>

lemma collect_entries_plan:
  "collect_entries decode raw = Inr pl \<Longrightarrow>
     pl_ids pl = map en_id raw \<and> distinct (pl_ids pl) \<and> dom (pl_plugins pl) = set (pl_ids pl)
     \<and> (\<forall>e \<in> set raw. \<exists>b p. en_enabled e = Some b \<and> decode e b = Inr p
          \<and> pl_plugins pl (en_id e) = Some p \<and> pl_active pl (en_id e) = b)"
proof (induction raw arbitrary: pl rule: rev_induct)
  case Nil
  then show ?case by (auto simp: collect_entries_def empty_plan_def)
next
  case (snoc e raw)
  then obtain pl0 where pl0: "collect_entries decode raw = Inr pl0" and step: "add_entry decode pl0 (length raw, e) = Inr pl"
    by (auto simp: collect_entries_def enumerate_append_eq and_then_Inr_iff)
  from step obtain b p where e: "en_id e \<notin> dom (pl_plugins pl0)" "en_enabled e = Some b" "decode e b = Inr p"
    and pl: "pl = pl0\<lparr>pl_plugins := (pl_plugins pl0)(en_id e \<mapsto> p), pl_active := (pl_active pl0)(en_id e := b), pl_ids := pl_ids pl0 @ [en_id e]\<rparr>"
    by (auto simp: add_entry_def and_then_Inr_iff split: if_splits option.splits)
  note IH = snoc.IH [OF pl0]
  have other: "en_id e' \<noteq> en_id e" if "e' \<in> set raw" for e'
  proof -
    have "dom (pl_plugins pl0) = en_id ` set raw" using IH by auto
    with e(1) that show ?thesis by (metis image_eqI)
  qed
  show ?case
  proof (intro conjI ballI)
    fix e' assume "e' \<in> set (raw @ [e])"
    then show "\<exists>b p. en_enabled e' = Some b \<and> decode e' b = Inr p \<and> pl_plugins pl (en_id e') = Some p \<and> pl_active pl (en_id e') = b"
      using IH e pl other by auto
  next
    show "dom (pl_plugins pl) = set (pl_ids pl)" using IH pl by simp
  qed (use IH e(1) pl in auto)
qed

lemma claim_capabilities:
  "fold_res (claim_capability i) pr cs = Inr pr' \<Longrightarrow> (\<forall>c. pr' c = (if c \<in> set cs then Some i else pr c)) \<and> (\<forall>c \<in> set cs. pr c = None)"
proof (induction cs arbitrary: pr)
  case (Cons c cs)
  from Cons.prems have c: "pr c = None" and rest: "fold_res (claim_capability i) (pr(c \<mapsto> i)) cs = Inr pr'"
    by (auto simp: and_then_Inr_iff) (auto simp: claim_capability_def split: option.splits)
  from Cons.IH [OF rest] c show ?case by (auto split: if_splits)
qed simp

lemma collect_providers_iff:
  assumes "collect_providers pl = Inr providers"
  shows "providers c = Some i \<longleftrightarrow> i \<in> set (pl_ids pl) \<and> pl_active pl i \<and> c \<in> set (provided_by pl i)"
proof -
  have "fold_res (\<lambda>pr i. if \<not> pl_active pl i then Inr pr else fold_res (claim_capability i) pr (provided_by pl i)) Map.empty is = Inr pr
      \<Longrightarrow> \<forall>c i. pr c = Some i \<longleftrightarrow> i \<in> set is \<and> pl_active pl i \<and> c \<in> set (provided_by pl i)" for "is" pr
  proof (induction "is" arbitrary: pr rule: rev_induct)
    case (snoc j "is")
    from snoc.prems obtain pr0 where
      pr0: "fold_res (\<lambda>pr i. if \<not> pl_active pl i then Inr pr else fold_res (claim_capability i) pr (provided_by pl i)) Map.empty is = Inr pr0"
      and step: "(if \<not> pl_active pl j then Inr pr0 else fold_res (claim_capability j) pr0 (provided_by pl j)) = Inr pr"
      by (auto simp: and_then_Inr_iff)
    note IH = snoc.IH [OF pr0]
    show ?case
    proof (cases "pl_active pl j")
      case False
      with step IH show ?thesis by auto
    next
      case True
      with claim_capabilities [of j pr0 "provided_by pl j" pr] step
      have "\<forall>c. pr c = (if c \<in> set (provided_by pl j) then Some j else pr0 c)" "\<forall>c \<in> set (provided_by pl j). pr0 c = None" by auto
      with IH True show ?thesis by (auto split: if_splits) (metis option.distinct(1))+
    qed
  qed simp
  from this [of "pl_ids pl" providers] assms show ?thesis by (simp add: collect_providers_def)
qed

definition enabled_ids :: "('h, 'f) plan \<Rightarrow> string set" where
  "enabled_ids pl = {i \<in> set (pl_ids pl). pl_active pl i}"

lemma collected_plan_ok:
  assumes "collect_entries decode raw = Inr pl" and "collect_providers pl = Inr providers"
  shows "plan_ok (enabled_ids pl) (pl_plugins pl) providers"
  using collect_entries_plan [OF assms(1)] collect_providers_iff [OF assms(2)]
  by (auto simp: plan_ok_def enabled_ids_def ran_def)

lemma order_plugins_result:
  assumes "plan_ok (enabled_ids pl) (pl_plugins pl) providers"
  shows "\<exists>r. order_plugins pl providers = Some r \<and> (case r of
      Inl _ \<Rightarrow> stuck (enabled_ids pl) (pl_plugins pl) providers
    | Inr ps \<Rightarrow> (\<exists>ks. distinct ks \<and> set ks = enabled_ids pl \<and> ps = map (\<lambda>i. the (pl_plugins pl i)) ks
        \<and> after_needs (needs_of (pl_plugins pl)) providers ks))"
proof -
  let ?w = "\<lparr>wk_mark = (\<lambda>_. Fresh), wk_order = []\<rparr> :: ('a, 'b) walk"
  have "walk_ok (enabled_ids pl) (pl_plugins pl) providers [] ?w" by (simp add: walk_ok_def after_needs_def)
  from visit_active_walked [OF assms _ this, of "pl_ids pl"]
  have "\<exists>r. visit_active pl providers (pl_ids pl) ?w = Some r \<and> (case r of Inl _ \<Rightarrow> stuck (enabled_ids pl) (pl_plugins pl) providers
     | Inr w \<Rightarrow> (\<exists>ks. walk_ok (enabled_ids pl) (pl_plugins pl) providers ks w \<and> enabled_ids pl \<subseteq> set ks))"
    unfolding enabled_ids_def list.set Un_empty_left by simp
  then obtain r where r: "visit_active pl providers (pl_ids pl) ?w = Some r"
    "case r of Inl _ \<Rightarrow> stuck (enabled_ids pl) (pl_plugins pl) providers
     | Inr w \<Rightarrow> (\<exists>ks. walk_ok (enabled_ids pl) (pl_plugins pl) providers ks w \<and> enabled_ids pl \<subseteq> set ks)" by blast
  then show ?thesis by (cases r) (auto simp: order_plugins_def walk_ok_def)
qed

text \<open>C30. Decoding the plugin settings always ends, and once the entries decode and no capability is
  provided twice, it fails exactly when an enabled plugin requires a capability that no enabled
  plugin provides, or plugins require each other in a cycle.\<close>

theorem plugin_order_exists:
  "\<exists>r. decode_plugin_configs decode raw = Some r
     \<and> (\<forall>pl providers. collect_entries decode raw = Inr pl \<and> collect_providers pl = Inr providers \<longrightarrow>
          (isl r \<longleftrightarrow> (\<exists>i \<in> enabled_ids pl. \<exists>c \<in> set (needs_of (pl_plugins pl) i). \<forall>j \<in> enabled_ids pl. c \<notin> set (provided_by pl j))
                \<or> (\<exists>i. (i, i) \<in> (depends (pl_plugins pl) providers)\<^sup>+)))"
proof (cases "\<exists>pl providers. collect_entries decode raw = Inr pl \<and> collect_providers pl = Inr providers")
  case False
  then show ?thesis by (auto simp: decode_plugin_configs_def split: sum.splits)
next
  case True
  then obtain pl providers where pl: "collect_entries decode raw = Inr pl" "collect_providers pl = Inr providers" by blast
  note plan = collected_plan_ok [OF pl]
  from order_plugins_result [OF plan] obtain r where r: "order_plugins pl providers = Some r"
    "case r of Inl _ \<Rightarrow> stuck (enabled_ids pl) (pl_plugins pl) providers
     | Inr ps \<Rightarrow> (\<exists>ks. distinct ks \<and> set ks = enabled_ids pl \<and> after_needs (needs_of (pl_plugins pl)) providers ks)"
    by (fastforce split: sum.splits)
  have "isl r \<longleftrightarrow> stuck (enabled_ids pl) (pl_plugins pl) providers"
    using r(2) after_needs_not_stuck [of "pl_plugins pl" providers _ "enabled_ids pl"] plan
    by (auto simp: plan_ok_def split: sum.splits)
  moreover have "providers c = None \<longleftrightarrow> (\<forall>j \<in> enabled_ids pl. c \<notin> set (provided_by pl j))" for c
    using collect_providers_iff [OF pl(2), of c] by (cases "providers c") (auto simp: enabled_ids_def)
  ultimately show ?thesis using pl r(1) by (simp add: decode_plugin_configs_def stuck_def)
qed

text \<open>C39. The plugins come out in an order that can be built: they are exactly the decoded enabled
  entries, each once, and every capability a plugin requires is provided by one before it.\<close>

theorem plugins_ordered:
  assumes "decode_plugin_configs decode raw = Some (Inr ps)"
  shows "\<exists>es. distinct es \<and> set es = {e \<in> set raw. en_enabled e = Some True} \<and> map (\<lambda>e. decode e True) es = map Inr ps
     \<and> (\<forall>n < length ps. \<forall>c \<in> set (cf_requires (ps ! n)). \<exists>m < n. c \<in> set (cf_provides (ps ! m)))"
proof -
  from assms obtain pl providers where pl: "collect_entries decode raw = Inr pl" "collect_providers pl = Inr providers"
    and ord: "order_plugins pl providers = Some (Inr ps)"
    by (auto simp: decode_plugin_configs_def split: sum.splits)
  from order_plugins_result [OF collected_plan_ok [OF pl]] ord obtain ks where
    ks: "distinct ks" "set ks = enabled_ids pl" "ps = map (\<lambda>i. the (pl_plugins pl i)) ks"
    "after_needs (needs_of (pl_plugins pl)) providers ks" by auto
  note plan = collect_entries_plan [OF pl(1)]
  define entry where "entry i = (THE e. e \<in> set raw \<and> en_id e = i)" for i
  have unique: "e = e'" if "e \<in> set raw" "e' \<in> set raw" "en_id e = en_id e'" for e e'
    using plan that by (metis distinct_map inj_onD)
  have entry: "entry (en_id e) = e" if "e \<in> set raw" for e
    unfolding entry_def using that unique by blast
  have on: "i \<in> set ks \<longleftrightarrow> (\<exists>e \<in> set raw. en_enabled e = Some True \<and> en_id e = i)" for i
    using plan ks(2) unique by (fastforce simp: enabled_ids_def)
  have decoded: "decode (entry i) True = Inr (the (pl_plugins pl i))" if "i \<in> set ks" for i
    using that on plan entry by fastforce
  have some: "pl_plugins pl i = Some (the (pl_plugins pl i))" if "i \<in> set ks" for i
    using that on plan by fastforce
  have needs: "\<exists>m < n. c \<in> set (cf_provides (ps ! m))" if n: "n < length ps" and c: "c \<in> set (cf_requires (ps ! n))" for n c
  proof -
    have "ks ! n \<in> set ks" using n ks(3) by simp
    with some obtain q where "pl_plugins pl (ks ! n) = Some q" by blast
    then have "c \<in> set (needs_of (pl_plugins pl) (ks ! n))" using n c ks(3) by (simp add: needs_of_def)
    then obtain j where "j \<in> set (take n ks)" "providers c = Some j"
      using ks(3,4) n unfolding after_needs_def by force
    then obtain m where m: "m < n" "providers c = Some (ks ! m)" by (auto simp: in_set_conv_nth)
    with collect_providers_iff [OF pl(2)] have "c \<in> set (provided_by pl (ks ! m))" by blast
    moreover have "ks ! m \<in> set ks" using m(1) n ks(3) by simp
    with some obtain q' where "pl_plugins pl (ks ! m) = Some q'" by blast
    ultimately have "c \<in> set (cf_provides (ps ! m))" using m(1) n ks(3) by (simp add: provided_by_def)
    with m(1) show ?thesis by blast
  qed
  have entry_ok: "entry i \<in> set raw \<and> en_enabled (entry i) = Some True \<and> en_id (entry i) = i" if i: "i \<in> set ks" for i
  proof -
    from i on obtain e where "e \<in> set raw" "en_enabled e = Some True" "en_id e = i" by blast
    with entry show ?thesis by auto
  qed
  have "inj_on entry (set ks)" using entry_ok by (intro inj_on_inverseI [of _ en_id]) blast
  with ks(1) have "distinct (map entry ks)" by (simp add: distinct_map)
  moreover have "set (map entry ks) = {e \<in> set raw. en_enabled e = Some True}"
  proof (intro equalityI subsetI)
    fix e assume "e \<in> {e \<in> set raw. en_enabled e = Some True}"
    then have "en_id e \<in> set ks" "entry (en_id e) = e" using on entry by auto
    then show "e \<in> set (map entry ks)" by (metis image_eqI set_map)
  qed (use entry_ok in auto)
  moreover have "map (\<lambda>e. decode e True) (map entry ks) = map Inr ps"
    using decoded ks(3) by simp
  ultimately show ?thesis using needs by blast
qed

text \<open>A policy listed before the classifier it requires.\<close>

definition sample_decode :: "plugin_entry \<Rightarrow> bool \<Rightarrow> error + (unit, unit) configured" where
  "sample_decode e _ = Inr \<lparr>cf_id = en_id e, cf_provides = (if en_id e = ''c'' then [''k''] else []),
     cf_requires = (if en_id e = ''c'' then [] else [''k'']), cf_build = Inr\<rparr>"

definition sample_entry :: "string \<Rightarrow> plugin_entry" where
  "sample_entry i = \<lparr>en_id = i, en_version = [], en_enabled = Some True, en_config = []\<rparr>"

lemma sample_order:
  "decode_plugin_configs sample_decode [sample_entry ''p'', sample_entry ''c'']
     = Some (Inr [\<lparr>cf_id = ''c'', cf_provides = [''k''], cf_requires = [], cf_build = Inr\<rparr>,
         \<lparr>cf_id = ''p'', cf_provides = [], cf_requires = [''k''], cf_build = Inr\<rparr>])"
  by (simp add: decode_plugin_configs_def collect_entries_def add_entry_def sample_entry_def sample_decode_def empty_plan_def
      collect_providers_def provided_by_def claim_capability_def order_plugins_def visit_def visit_needs.simps enter_def place_def)

lemma plugins_ordered_witness:
  "\<exists>es. distinct es \<and> set es = {e \<in> set [sample_entry ''p'', sample_entry ''c'']. en_enabled e = Some True} \<and> length es = 2"
proof -
  from plugins_ordered [OF sample_order] obtain es where es: "distinct es"
    "set es = {e \<in> set [sample_entry ''p'', sample_entry ''c'']. en_enabled e = Some True}" by blast
  then have "length es = card {e \<in> set [sample_entry ''p'', sample_entry ''c'']. en_enabled e = Some True}"
    using distinct_card by metis
  also have "{e \<in> set [sample_entry ''p'', sample_entry ''c'']. en_enabled e = Some True} = {sample_entry ''p'', sample_entry ''c''}"
    by (auto simp: sample_entry_def)
  also have "card {sample_entry ''p'', sample_entry ''c''} = 2" by (simp add: sample_entry_def)
  finally show ?thesis using es by blast
qed

lemma plugin_order_exists_witness:
  "\<exists>r. decode_plugin_configs sample_decode [sample_entry ''p''] = Some r \<and> isl r"
proof -
  let ?pl = "\<lparr>pl_plugins = [''p'' \<mapsto> \<lparr>cf_id = ''p'', cf_provides = [], cf_requires = [''k''], cf_build = Inr\<rparr>],
    pl_active = (\<lambda>_. False)(''p'' := True), pl_ids = [''p'']\<rparr> :: (unit, unit) plan"
  have "collect_entries sample_decode [sample_entry ''p''] = Inr ?pl"
    by (simp add: collect_entries_def add_entry_def sample_entry_def sample_decode_def empty_plan_def)
  moreover have "collect_providers ?pl = Inr Map.empty" by (simp add: collect_providers_def provided_by_def)
  moreover have "\<exists>i \<in> enabled_ids ?pl. \<exists>c \<in> set (needs_of (pl_plugins ?pl) i). \<forall>j \<in> enabled_ids ?pl. c \<notin> set (provided_by ?pl j)"
    by (simp add: enabled_ids_def needs_of_def provided_by_def)
  ultimately show ?thesis using plugin_order_exists [of sample_decode "[sample_entry ''p'']"] by blast
qed

subsection \<open>Evaluating one plugin before it is enabled\<close>

text \<open>Every entry decoded as if it were enabled.\<close>

record ('h, 'f) attempts =
  at_decoded :: "string \<rightharpoonup> ('h, 'f) configured"
  at_failed :: "string \<rightharpoonup> error"

definition attempt :: "(plugin_entry \<Rightarrow> bool \<Rightarrow> error + ('h, 'f) configured) \<Rightarrow> ('h, 'f) attempts \<Rightarrow> plugin_entry \<Rightarrow> ('h, 'f) attempts" where
  "attempt decode a e =
     (case decode e True of
        Inl err \<Rightarrow> a\<lparr>at_failed := (at_failed a)(en_id e \<mapsto> err)\<rparr>
      | Inr p \<Rightarrow> a\<lparr>at_decoded := (at_decoded a)(en_id e \<mapsto> p)\<rparr>)"

definition attempts_of :: "(plugin_entry \<Rightarrow> bool \<Rightarrow> error + ('h, 'f) configured) \<Rightarrow> plugin_entry list \<Rightarrow> ('h, 'f) attempts" where
  "attempts_of decode raw = foldl (attempt decode) \<lparr>at_decoded = Map.empty, at_failed = Map.empty\<rparr> raw"

text \<open>The first enabled provider, else the first one; \<open>fallback\<close> is empty while none was seen.\<close>

fun provider_in :: "('h, 'f) attempts \<Rightarrow> string \<Rightarrow> string \<Rightarrow> plugin_entry list \<Rightarrow> string" where
  "provider_in a c fallback [] = fallback"
| "provider_in a c fallback (e # es) =
     (case at_decoded a (en_id e) of
        None \<Rightarrow> provider_in a c fallback es
      | Some p \<Rightarrow>
          if c \<notin> set (cf_provides p) then provider_in a c fallback es
          else if en_enabled e = Some True then en_id e
          else provider_in a c (if fallback = [] then en_id e else fallback) es)"

definition no_provider_error :: "('h, 'f) attempts \<Rightarrow> plugin_entry list \<Rightarrow> string \<Rightarrow> error" where
  "no_provider_error a raw c =
     foldl (\<lambda>err e. case at_failed a (en_id e) of
         None \<Rightarrow> err
       | Some f \<Rightarrow> err @ '' (plugins.'' @ en_id e @ '' is invalid: '' @ f @ '')'')
       (''no configured plugin provides '' @ quoted c) raw"

definition provider_of :: "('h, 'f) attempts \<Rightarrow> plugin_entry list \<Rightarrow> string \<Rightarrow> error + string" where
  "provider_of a raw c =
     (let j = provider_in a c [] raw in if j \<noteq> [] then Inr j else Inl (no_provider_error a raw c))"

text \<open>The loop of \<^verbatim>\<open>need\<close> over the requirements of \<open>i\<close>; \<open>N\<close> holds what is needed so far.\<close>

partial_function (option) need_all ::
    "('h, 'f) attempts \<Rightarrow> (string \<Rightarrow> error + string) \<Rightarrow> string \<Rightarrow> string list \<Rightarrow> (string \<Rightarrow> bool) \<Rightarrow> (error + (string \<Rightarrow> bool)) option" where
  "need_all a provider i cs N =
     (case cs of
        [] \<Rightarrow> Some (Inr N)
      | c # cs' \<Rightarrow>
          (case provider c of
             Inl e \<Rightarrow> Some (Inl (plugin_error i ('': '' @ e)))
           | Inr j \<Rightarrow>
               if N j then need_all a provider i cs' N
               else (case at_decoded a j of
                   None \<Rightarrow>
                     (case at_failed a j of
                        Some e \<Rightarrow> Some (Inl e)
                      | None \<Rightarrow> need_all a provider i cs' (N(j := True)))
                 | Some p \<Rightarrow>
                     Option.bind (need_all a provider j (cf_requires p) (N(j := True))) (\<lambda>r.
                       case r of Inl e \<Rightarrow> Some (Inl e) | Inr N' \<Rightarrow> need_all a provider i cs' N'))))"

definition need :: "('h, 'f) attempts \<Rightarrow> (string \<Rightarrow> error + string) \<Rightarrow> string \<Rightarrow> (error + (string \<Rightarrow> bool)) option" where
  "need a provider i =
     (case at_decoded a i of
        None \<Rightarrow> (case at_failed a i of Some e \<Rightarrow> Some (Inl e) | None \<Rightarrow> Some (Inr ((\<lambda>_. False)(i := True))))
      | Some p \<Rightarrow> need_all a provider i (cf_requires p) ((\<lambda>_. False)(i := True)))"

definition enabled_subset :: "(string \<Rightarrow> bool) \<Rightarrow> plugin_entry list \<Rightarrow> plugin_entry list" where
  "enabled_subset N raw = map (\<lambda>e. e\<lparr>en_enabled := Some True\<rparr>) (filter (\<lambda>e. N (en_id e)) raw)"

definition evaluation_plugins :: "(plugin_entry \<Rightarrow> bool \<Rightarrow> error + ('h, 'f) configured) \<Rightarrow> plugin_entry list \<Rightarrow> string
    \<Rightarrow> (error + ('h, 'f) configured list) option" where
  "evaluation_plugins decode raw i =
     (if i \<notin> en_id ` set raw then Some (Inl (''plugin '' @ quoted i @ '' is not in the plugins config''))
      else (let a = attempts_of decode raw in
        case need a (provider_of a raw) i of
          None \<Rightarrow> None
        | Some (Inl e) \<Rightarrow> Some (Inl e)
        | Some (Inr N) \<Rightarrow> decode_plugin_configs decode (enabled_subset N raw)))"

definition build_plugin :: "(plugin_entry \<Rightarrow> bool \<Rightarrow> error + ('h, 'f) configured) \<Rightarrow> (string \<Rightarrow> string) \<Rightarrow> (string \<Rightarrow> 'f option)
    \<Rightarrow> plugin_entry list \<Rightarrow> string \<Rightarrow> (error + 'h built_plugin list) option" where
  "build_plugin decode getenv providers raw i =
     map_option (\<lambda>r. and_then r (build_plugins getenv providers)) (evaluation_plugins decode raw i)"

text \<open>What a needed plugin needs: the chosen provider of each of its requirements.\<close>

definition chosen :: "('h, 'f) attempts \<Rightarrow> (string \<Rightarrow> error + string) \<Rightarrow> (string \<times> string) set" where
  "chosen a provider = {(x, y). \<exists>p. at_decoded a x = Some p \<and> (\<exists>c \<in> set (cf_requires p). provider c = Inr y)}"

definition supplied :: "('h, 'f) attempts \<Rightarrow> (string \<Rightarrow> error + string) \<Rightarrow> string list \<Rightarrow> (string \<Rightarrow> bool) \<Rightarrow> bool" where
  "supplied a provider cs N \<longleftrightarrow> (\<forall>c \<in> set cs. \<exists>j. provider c = Inr j \<and> N j)"

definition grown :: "('h, 'f) attempts \<Rightarrow> (string \<Rightarrow> error + string) \<Rightarrow> string \<Rightarrow> (string \<Rightarrow> bool) \<Rightarrow> (string \<Rightarrow> bool) \<Rightarrow> bool" where
  "grown a provider i N N' \<longleftrightarrow> (\<forall>x. N x \<longrightarrow> N' x)
     \<and> (\<forall>x. N' x \<and> \<not> N x \<longrightarrow> (i, x) \<in> (chosen a provider)\<^sup>+
          \<and> (\<forall>p. at_decoded a x = Some p \<longrightarrow> supplied a provider (cf_requires p) N'))"

lemma supplied_mono: "supplied a provider cs N \<Longrightarrow> (\<And>x. N x \<Longrightarrow> N' x) \<Longrightarrow> supplied a provider cs N'"
  unfolding supplied_def by blast

lemma grown_trans:
  assumes "grown a provider i N N'" and "grown a provider i N' N''"
  shows "grown a provider i N N''"
  using assms supplied_mono unfolding grown_def by metis

lemma grown_step:
  assumes "grown a provider j (N(j := True)) N'" and "(i, j) \<in> chosen a provider"
    and "\<And>p. at_decoded a j = Some p \<Longrightarrow> supplied a provider (cf_requires p) N'"
  shows "grown a provider i N N'"
  unfolding grown_def
proof (intro conjI allI impI)
  fix x assume x: "N' x \<and> \<not> N x"
  have "(i, x) \<in> (chosen a provider)\<^sup>+ \<and> (\<forall>p. at_decoded a x = Some p \<longrightarrow> supplied a provider (cf_requires p) N')"
  proof (cases "x = j")
    case True
    then show ?thesis using assms(2,3) by blast
  next
    case False
    with x assms(1) show ?thesis using assms(2) unfolding grown_def by (metis fun_upd_other trancl_into_trancl2)
  qed
  then show "(i, x) \<in> (chosen a provider)\<^sup>+" "\<And>p. at_decoded a x = Some p \<Longrightarrow> supplied a provider (cf_requires p) N'" by blast+
next
  fix x assume "N x"
  then show "N' x" using assms(1) unfolding grown_def by (metis fun_upd_apply)
qed

lemma need_all_grown:
  assumes fin: "finite D" and D: "\<And>c j. provider c = Inr j \<Longrightarrow> j \<in> D"
  shows "m = (card {x \<in> D. \<not> N x}, length cs) \<Longrightarrow> at_decoded a i = Some q \<Longrightarrow> set cs \<subseteq> set (cf_requires q)
    \<Longrightarrow> \<exists>r. need_all a provider i cs N = Some r \<and> (\<forall>N'. r = Inr N' \<longrightarrow> grown a provider i N N' \<and> supplied a provider cs N')"
proof (induction m arbitrary: N i q cs rule: wf_induct_rule [OF wf_lex_prod [OF wf_less_than wf_less_than]])
  case (1 m N i q cs)
  note IH = 1(1) [OF _ refl] and m = 1(2) and q = 1(3) and cs = 1(4)
  show ?case
  proof (cases cs)
    case Nil
    then show ?thesis by (simp add: need_all.simps grown_def supplied_def)
  next
    case (Cons c cs')
    show ?thesis
    proof (cases "provider c")
      case (Inl e)
      then show ?thesis using Cons by (subst need_all.simps) simp
    next
      case (Inr j)
      have ij: "(i, j) \<in> chosen a provider" using q cs Cons Inr by (auto simp: chosen_def)
      have step: "\<exists>r. need_all a provider i cs' N1 = Some r \<and> (\<forall>N'. r = Inr N' \<longrightarrow> grown a provider i N N' \<and> supplied a provider cs N')"
        if g: "grown a provider i N N1" "N1 j" for N1
      proof -
        have "card {x \<in> D. \<not> N1 x} \<le> card {x \<in> D. \<not> N x}"
          using g fin by (intro card_mono) (auto simp: grown_def)
        then have "((card {x \<in> D. \<not> N1 x}, length cs'), m) \<in> less_than <*lex*> less_than" using Cons m by auto
        from IH [OF this q] cs Cons obtain r where r: "need_all a provider i cs' N1 = Some r"
          "\<forall>N'. r = Inr N' \<longrightarrow> grown a provider i N1 N' \<and> supplied a provider cs' N'" by auto
        have "grown a provider i N N' \<and> supplied a provider cs N'" if "r = Inr N'" for N'
        proof
          show "grown a provider i N N'" using grown_trans [OF g(1)] r(2) that by blast
          have "N' j" using g(2) r(2) that by (auto simp: grown_def)
          then show "supplied a provider cs N'" using r(2) that Cons Inr by (auto simp: supplied_def)
        qed
        with r(1) show ?thesis by blast
      qed
      show ?thesis
      proof (cases "N j")
        case True
        have "grown a provider i N N" by (simp add: grown_def)
        from step [OF this True] show ?thesis using True Inr Cons by (subst need_all.simps) simp
      next
        case False
        have less: "card {x \<in> D. \<not> (N(j := True)) x} < card {x \<in> D. \<not> N x}"
          using D [OF Inr] False fin by (intro psubset_card_mono) auto
        show ?thesis
        proof (cases "at_decoded a j")
          case None
          show ?thesis
          proof (cases "at_failed a j")
            case (Some e)
            then show ?thesis using None False Inr Cons by (subst need_all.simps) simp
          next
            case none: None
            have "grown a provider i N (N(j := True))" using ij None by (auto simp: grown_def)
            from step [OF this] show ?thesis using none None False Inr Cons by (subst need_all.simps) simp
          qed
        next
          case (Some p)
          have "((card {x \<in> D. \<not> (N(j := True)) x}, length (cf_requires p)), m) \<in> less_than <*lex*> less_than"
            using less m by simp
          from IH [OF this Some order_refl] obtain r where r: "need_all a provider j (cf_requires p) (N(j := True)) = Some r"
            "\<forall>N'. r = Inr N' \<longrightarrow> grown a provider j (N(j := True)) N' \<and> supplied a provider (cf_requires p) N'" by blast
          show ?thesis
          proof (cases r)
            case (Inl e)
            then show ?thesis using r Some False Inr Cons by (subst need_all.simps) simp
          next
            case inr: (Inr N1)
            have "grown a provider i N N1" using grown_step [OF _ ij, of N N1] r(2) inr Some by auto
            moreover have "N1 j" using r(2) inr by (auto simp: grown_def)
            ultimately show ?thesis using step r(1) inr Some False Inr Cons by (subst need_all.simps) simp
          qed
        qed
      qed
    qed
  qed
qed

lemma provider_in_cases:
  "provider_in a c f es = f \<or> (\<exists>e \<in> set es. provider_in a c f es = en_id e
     \<and> (\<exists>p. at_decoded a (en_id e) = Some p \<and> c \<in> set (cf_provides p)))"
proof (induction es arbitrary: f)
  case (Cons e es)
  show ?case
  proof (cases "at_decoded a (en_id e)")
    case None
    with Cons.IH [of f] show ?thesis by auto
  next
    case (Some p)
    with Cons.IH [of f] Cons.IH [of "if f = [] then en_id e else f"] show ?thesis by (auto split: if_splits)
  qed
qed simp

lemma provider_of_decoded:
  "provider_of a raw c = Inr j \<Longrightarrow> j \<in> en_id ` set raw \<and> (\<exists>p. at_decoded a j = Some p \<and> c \<in> set (cf_provides p))"
  using provider_in_cases [of a c "[]" raw] by (auto simp: provider_of_def Let_def split: if_splits)

lemma attempts_of_member:
  assumes "e \<in> set raw" and "\<And>e'. e' \<in> set raw \<Longrightarrow> en_id e' = en_id e \<Longrightarrow> decode e' True = Inr p"
  shows "at_decoded (attempts_of decode raw) (en_id e) = Some p"
  using assms
proof (induction raw rule: rev_induct)
  case (snoc e' raw)
  have last: "attempts_of decode (raw @ [e']) = attempt decode (attempts_of decode raw) e'" by (simp add: attempts_of_def)
  show ?case
  proof (cases "en_id e' = en_id e")
    case True
    then show ?thesis using snoc.prems(2) [of e'] last by (simp add: attempt_def)
  next
    case False
    with snoc.prems have "e \<in> set raw" by auto
    with snoc have "at_decoded (attempts_of decode raw) (en_id e) = Some p" by simp
    then show ?thesis using False last by (auto simp: attempt_def split: sum.splits)
  qed
qed simp

text \<open>Decoding ends: the fact behind \<open>plugin_order_exists\<close>.\<close>

lemma plan_decodes: "\<exists>r. decode_plugin_configs decode raw = Some r"
proof (cases "\<exists>pl providers. collect_entries decode raw = Inr pl \<and> collect_providers pl = Inr providers")
  case False
  then show ?thesis by (auto simp: decode_plugin_configs_def split: sum.splits)
next
  case True
  then obtain pl providers where pl: "collect_entries decode raw = Inr pl" "collect_providers pl = Inr providers" by blast
  from order_plugins_result [OF collected_plan_ok [OF pl]] pl show ?thesis by (auto simp: decode_plugin_configs_def)
qed

text \<open>The closure of one plugin, ordered like any settings.\<close>

lemma evaluation_walk:
  fixes decode :: "plugin_entry \<Rightarrow> bool \<Rightarrow> error + ('h, 'f) configured" and i :: string and raw :: "plugin_entry list"
  defines "a \<equiv> attempts_of decode raw"
  assumes flag: "\<And>e b x. decode (e\<lparr>en_enabled := x\<rparr>) b = decode e b"
    and i: "i \<in> en_id ` set raw" and N: "need a (provider_of a raw) i = Some (Inr N)"
    and closed: "\<And>x. N x \<Longrightarrow> x \<in> en_id ` set raw \<and> (x = i \<or> (i, x) \<in> (chosen a (provider_of a raw))\<^sup>+)
        \<and> (\<forall>p. at_decoded a x = Some p \<longrightarrow> supplied a (provider_of a raw) (cf_requires p) N)" and "N i"
    and pl: "collect_entries decode (enabled_subset N raw) = Inr pl" "collect_providers pl = Inr providers"
  shows "enabled_ids pl = {x. N x}" and "\<And>x. N x \<Longrightarrow> at_decoded a x = pl_plugins pl x"
    and "\<And>x. N x \<Longrightarrow> x \<noteq> i \<Longrightarrow> (i, x) \<in> (depends (pl_plugins pl) providers)\<^sup>+"
proof -
  note plan = collect_entries_plan [OF pl(1)]
  have ids: "x \<in> set (pl_ids pl) \<longleftrightarrow> N x" for x
    using plan closed by (auto simp: enabled_subset_def image_iff) metis
  have on: "\<exists>p. decode e True = Inr p \<and> pl_plugins pl (en_id e) = Some p \<and> pl_active pl (en_id e)" if "e \<in> set raw" "N (en_id e)" for e
  proof -
    have "e\<lparr>en_enabled := Some True\<rparr> \<in> set (enabled_subset N raw)" using that by (auto simp: enabled_subset_def)
    with plan show ?thesis by (force simp: flag)
  qed
  have act: "pl_active pl x" if "N x" for x using on closed [OF that] that by auto
  show all: "enabled_ids pl = {x. N x}" using ids act by (auto simp: enabled_ids_def)
  show same: "at_decoded a x = pl_plugins pl x" if "N x" for x
  proof -
    obtain e where e: "e \<in> set raw" "en_id e = x" using closed [of x] \<open>N x\<close> by auto
    obtain p where p: "pl_plugins pl x = Some p" using on [of e] e \<open>N x\<close> by auto
    have "decode e' True = Inr p" if "e' \<in> set raw" "en_id e' = en_id e" for e'
      using on [of e'] that e p \<open>N x\<close> by auto
    with attempts_of_member [OF e(1), of decode p] have "at_decoded (attempts_of decode raw) (en_id e) = Some p" by blast
    then show ?thesis using e p by (simp add: a_def)
  qed
  have step: "N y \<and> (x, y) \<in> depends (pl_plugins pl) providers" if x: "N x" and xy: "(x, y) \<in> chosen a (provider_of a raw)" for x y
  proof -
    obtain p c where p: "at_decoded a x = Some p" "c \<in> set (cf_requires p)" "provider_of a raw c = Inr y"
      using xy by (auto simp: chosen_def)
    then have "N y" using closed [OF x] by (fastforce simp: supplied_def)
    moreover obtain q where "at_decoded a y = Some q" "c \<in> set (cf_provides q)" using provider_of_decoded [OF p(3)] by blast
    ultimately have "providers c = Some y"
      using collect_providers_iff [OF pl(2), of c y] ids act same by (simp add: provided_by_def)
    with p same [OF x] \<open>N y\<close> show ?thesis by (auto simp: depends_def needs_of_def)
  qed
  have "N x \<and> (i, x) \<in> (depends (pl_plugins pl) providers)\<^sup>+" if "(i, x) \<in> (chosen a (provider_of a raw))\<^sup>+" for x
    using that
  proof (induction rule: trancl_induct)
    case (base y)
    then show ?case using step \<open>N i\<close> by blast
  next
    case (step y z)
    then show ?case using \<open>\<And>x y. N x \<Longrightarrow> (x, y) \<in> chosen a (provider_of a raw) \<Longrightarrow> N y \<and> (x, y) \<in> depends (pl_plugins pl) providers\<close>
      by (meson trancl.trancl_into_trancl)
  qed
  then show "(i, x) \<in> (depends (pl_plugins pl) providers)\<^sup>+" if "N x" "x \<noteq> i" for x using closed that by blast
qed

lemma need_closed:
  assumes i: "i \<in> en_id ` set raw"
  shows "\<exists>r. need a (provider_of a raw) i = Some r \<and> (\<forall>N. r = Inr N \<longrightarrow> N i \<and> (\<forall>x. N x \<longrightarrow> x \<in> en_id ` set raw
      \<and> (x = i \<or> (i, x) \<in> (chosen a (provider_of a raw))\<^sup>+)
      \<and> (\<forall>p. at_decoded a x = Some p \<longrightarrow> supplied a (provider_of a raw) (cf_requires p) N)))"
proof (cases "at_decoded a i")
  case None
  then show ?thesis using i by (cases "at_failed a i") (auto simp: need_def)
next
  case (Some p)
  have fin: "finite (en_id ` set raw)" by simp
  have D: "j \<in> en_id ` set raw" if "provider_of a raw c = Inr j" for c j using provider_of_decoded [OF that] by blast
  obtain r where r: "need_all a (provider_of a raw) i (cf_requires p) ((\<lambda>_. False)(i := True)) = Some r"
    "\<forall>N. r = Inr N \<longrightarrow> grown a (provider_of a raw) i ((\<lambda>_. False)(i := True)) N \<and> supplied a (provider_of a raw) (cf_requires p) N"
    using need_all_grown [where provider = "provider_of a raw" and N = "(\<lambda>_. False)(i := True)", OF fin _ refl Some order_refl] D by blast
  have raw: "x \<in> en_id ` set raw" if "(i, x) \<in> (chosen a (provider_of a raw))\<^sup>+" for x
    using that by (cases rule: tranclE) (auto simp: chosen_def dest: D)
  have "N i \<and> (\<forall>x. N x \<longrightarrow> x \<in> en_id ` set raw \<and> (x = i \<or> (i, x) \<in> (chosen a (provider_of a raw))\<^sup>+)
      \<and> (\<forall>p. at_decoded a x = Some p \<longrightarrow> supplied a (provider_of a raw) (cf_requires p) N))" if "r = Inr N" for N
  proof -
    from r(2) that have g: "grown a (provider_of a raw) i ((\<lambda>_. False)(i := True)) N" and sup: "supplied a (provider_of a raw) (cf_requires p) N"
      by blast+
    from g have "N i" by (simp add: grown_def)
    moreover have "x \<in> en_id ` set raw \<and> (x = i \<or> (i, x) \<in> (chosen a (provider_of a raw))\<^sup>+)
      \<and> (\<forall>p. at_decoded a x = Some p \<longrightarrow> supplied a (provider_of a raw) (cf_requires p) N)" if "N x" for x
    proof (cases "x = i")
      case True
      then show ?thesis using i sup Some by simp
    next
      case False
      then have "(i, x) \<in> (chosen a (provider_of a raw))\<^sup>+ \<and> (\<forall>p. at_decoded a x = Some p \<longrightarrow> supplied a (provider_of a raw) (cf_requires p) N)"
        using g that unfolding grown_def by (metis fun_upd_other)
      then show ?thesis using raw by blast
    qed
    ultimately show ?thesis by blast
  qed
  moreover have "need a (provider_of a raw) i = Some r" using r(1) Some by (simp add: need_def)
  ultimately show ?thesis by blast
qed

text \<open>Evaluating one plugin always ends, and what is built is the plugin and only what it
  needs: it comes last, and every other plugin built is, transitively, the chosen provider of a
  capability it requires.\<close>

theorem evaluation_order:
  "\<exists>r. evaluation_plugins (decode_entry reg installed) raw i = Some r \<and> (\<forall>ps. r = Inr ps \<longrightarrow>
      (\<exists>ks. ks \<noteq> [] \<and> distinct ks \<and> last ks = i
         \<and> ps = map (\<lambda>k. the (at_decoded (attempts_of (decode_entry reg installed) raw) k)) ks
         \<and> (\<forall>k \<in> set ks. (i, k) \<in> (chosen (attempts_of (decode_entry reg installed) raw)
                (provider_of (attempts_of (decode_entry reg installed) raw) raw))\<^sup>*)))"
proof (cases "i \<in> en_id ` set raw")
  case False
  then show ?thesis by (simp add: evaluation_plugins_def)
next
  case True
  let ?d = "decode_entry reg installed"
  let ?a = "attempts_of ?d raw"
  have flag: "?d (e\<lparr>en_enabled := x\<rparr>) b = ?d e b" for e b x 
  proof -
    have same: "en_id (e\<lparr>en_enabled := x\<rparr>) = en_id e" "en_version (e\<lparr>en_enabled := x\<rparr>) = en_version e"
      "en_config (e\<lparr>en_enabled := x\<rparr>) = en_config e" by simp_all
    show ?thesis unfolding decode_entry_def same ..
  qed
  obtain r where r: "need ?a (provider_of ?a raw) i = Some r" and closed: "\<And>N. r = Inr N \<Longrightarrow> N i \<and> (\<forall>x. N x \<longrightarrow> x \<in> en_id ` set raw
      \<and> (x = i \<or> (i, x) \<in> (chosen ?a (provider_of ?a raw))\<^sup>+)
      \<and> (\<forall>p. at_decoded ?a x = Some p \<longrightarrow> supplied ?a (provider_of ?a raw) (cf_requires p) N))"
    using need_closed [OF True, of ?a] by blast
  show ?thesis
  proof (cases r)
    case (Inl e)
    then show ?thesis using r True by (simp add: evaluation_plugins_def Let_def)
  next
    case (Inr N)
    note N = closed [OF Inr]
    have eval: "evaluation_plugins ?d raw i = decode_plugin_configs ?d (enabled_subset N raw)"
      using r Inr True by (simp add: evaluation_plugins_def Let_def)
    obtain q where q: "decode_plugin_configs ?d (enabled_subset N raw) = Some q" using plan_decodes by blast
    have "\<exists>ks. ks \<noteq> [] \<and> distinct ks \<and> last ks = i \<and> ps = map (\<lambda>k. the (at_decoded ?a k)) ks
         \<and> (\<forall>k \<in> set ks. (i, k) \<in> (chosen ?a (provider_of ?a raw))\<^sup>*)" if inr: "q = Inr ps" for ps
    proof -
      obtain pl providers where pl: "collect_entries ?d (enabled_subset N raw) = Inr pl" "collect_providers pl = Inr providers"
        and ord: "order_plugins pl providers = Some (Inr ps)"
        using q inr by (auto simp: decode_plugin_configs_def split: sum.splits)
      note walk = evaluation_walk [OF flag True r [unfolded Inr] _ _ pl]
      have walk: "enabled_ids pl = {x. N x}" "\<And>x. N x \<Longrightarrow> at_decoded ?a x = pl_plugins pl x"
        "\<And>x. N x \<Longrightarrow> x \<noteq> i \<Longrightarrow> (i, x) \<in> (depends (pl_plugins pl) providers)\<^sup>+"
        using walk N by blast+
      from order_plugins_result [OF collected_plan_ok [OF pl]] ord obtain ks where
        ks: "distinct ks" "set ks = {x. N x}" "ps = map (\<lambda>k. the (pl_plugins pl k)) ks" "after_needs (needs_of (pl_plugins pl)) providers ks"
        using walk(1) by auto
      have ran: "ran providers \<subseteq> {x. N x}" using collected_plan_ok [OF pl] walk(1) by (simp add: plan_ok_def)
      have "ps = map (\<lambda>k. the (at_decoded ?a k)) ks" using ks(2,3) walk(2) by simp
      moreover have "\<forall>k \<in> set ks. (i, k) \<in> (chosen ?a (provider_of ?a raw))\<^sup>*" using N ks(2) by (auto dest: trancl_into_rtrancl)
      moreover have "last ks = i"
      proof (rule ccontr)
        assume other: "last ks \<noteq> i"
        have ne: "ks \<noteq> []" using N ks(2) by auto
        then have "N (last ks)" using ks(2) last_in_set by blast
        from after_needs_trancl [OF ks(4,2,1) ran walk(3) [OF this other]] N
        obtain m n where "m < n" "n < length ks" "ks ! m = last ks" by blast
        moreover from this ks(1) ne have "m = length ks - 1" by (simp add: last_conv_nth nth_eq_iff_index_eq)
        ultimately show False by linarith
      qed
      moreover have "ks \<noteq> []" using N ks(2) by auto
      ultimately show ?thesis using ks(1) by blast
    qed
    with eval q show ?thesis by auto
  qed
qed

lemma evaluation_order_witness:
  "\<exists>r. evaluation_plugins (decode_entry ([''c'' \<mapsto> (''1'', \<lambda>i _ _. Inr \<lparr>cf_id = i, cf_provides = [], cf_requires = [], cf_build = Inr\<rparr>)] :: (unit, unit) registry) (\<lambda>_. Inl [])) [\<lparr>en_id = ''c'', en_version = ''1'', en_enabled = Some False, en_config = []\<rparr>] ''c'' = Some r
     \<and> map_sum id (map cf_id) r = Inr [''c'']"
proof -
  let ?p = "\<lparr>cf_id = ''c'', cf_provides = [], cf_requires = [], cf_build = Inr\<rparr> :: (unit, unit) configured"
  let ?reg = "[''c'' \<mapsto> (''1'', \<lambda>i _ _. Inr \<lparr>cf_id = i, cf_provides = [], cf_requires = [], cf_build = Inr\<rparr>)] :: (unit, unit) registry"
  let ?raw = "[\<lparr>en_id = ''c'', en_version = ''1'', en_enabled = Some False, en_config = []\<rparr>]"
  have a: "attempts_of (decode_entry ?reg (\<lambda>_. Inl [])) ?raw = \<lparr>at_decoded = [''c'' \<mapsto> ?p], at_failed = Map.empty\<rparr>"
    by (simp add: attempts_of_def attempt_def decode_entry_def)
  have "evaluation_plugins (decode_entry ?reg (\<lambda>_. Inl [])) ?raw ''c'' = Some (Inr [?p])"
    by (simp add: evaluation_plugins_def a need_def need_all.simps enabled_subset_def decode_entry_def decode_plugin_configs_def collect_entries_def
        add_entry_def empty_plan_def collect_providers_def provided_by_def order_plugins_def visit_def visit_needs.simps enter_def place_def)
  moreover obtain r where "evaluation_plugins (decode_entry ?reg (\<lambda>_. Inl [])) ?raw ''c'' = Some r"
    using evaluation_order [of ?reg "\<lambda>_. Inl []" ?raw "''c''"] by blast
  ultimately show ?thesis by simp
qed

end
