(* ===== verification/Mcp_Config.thy ===== *)
theory Mcp_Config
  imports Tool_Pattern Json
begin

section \<open>Servers and secrets of the MCP plugin (plugins/mcp/config.go, secrets.go)\<close>

text \<open>
  What the host configuration may say about a remote tool server, the secrets its headers refer
  to, and the text that is shown instead of them. Parsing a URL and recognising a loopback
  address are the Go library's, so they are parameters. A Go map whose order the code leaves
  open is a list in some order.
\<close>

subsection \<open>Names\<close>

definition lower_alnum :: "char \<Rightarrow> bool" where
  "lower_alnum c \<longleftrightarrow> 97 \<le> byte c \<and> byte c \<le> 122 \<or> is_digit c"

definition name_char :: "char \<Rightarrow> bool" where
  "name_char c \<longleftrightarrow> lower_alnum c \<or> 65 \<le> byte c \<and> byte c \<le> 90 \<or> c = CHR ''_'' \<or> c = CHR ''-''"

text \<open>\<^verbatim>\<open>^[a-z0-9]([a-z0-9_-]*[a-z0-9])?$\<close>\<close>

definition server_name_pattern :: "string \<Rightarrow> bool" where
  "server_name_pattern s \<longleftrightarrow>
     s \<noteq> [] \<and> list_all (\<lambda>c. lower_alnum c \<or> c = CHR ''_'' \<or> c = CHR ''-'') s \<and> lower_alnum (hd s) \<and> lower_alnum (last s)"

definition max_server_name :: nat where "max_server_name = 32"

definition server_name_ok :: "string \<Rightarrow> bool" where
  "server_name_ok s \<longleftrightarrow> server_name_pattern s \<and> length s \<le> max_server_name \<and> \<not> contains s ''__''"

text \<open>\<^verbatim>\<open>^[A-Za-z0-9_-]{1,64}$\<close> and \<^verbatim>\<open>^[A-Za-z0-9_-]+$\<close>\<close>

definition valid_secret_name :: "string \<Rightarrow> bool" where
  "valid_secret_name s \<longleftrightarrow> list_all name_char s \<and> 1 \<le> length s \<and> length s \<le> 64"

definition tool_name_pattern :: "string \<Rightarrow> bool" where
  "tool_name_pattern s \<longleftrightarrow> list_all name_char s \<and> s \<noteq> []"

subsection \<open>Servers\<close>

record server_config =
  mc_type :: string
  mc_url :: string
  mc_headers :: "(string \<times> string) list"
  mc_enabled :: "bool option"
  mc_approval :: string
  mc_enabled_tools :: "string list"
  mc_disabled_tools :: "string list"
  mc_startup_sec :: "int option"
  mc_tool_sec :: "int option"
  mc_command :: string
  mc_args :: "string list"
  mc_env :: "(string \<times> string) list"
  mc_oauth :: string

record tool_filter =
  fl_enabled :: "string list"
  fl_disabled :: "string list"

definition validate_filter :: "tool_filter \<Rightarrow> error + unit" where
  "validate_filter f =
     (case List.find (\<lambda>p. \<not> pattern_valid p) (fl_enabled f @ fl_disabled f) of
        Some p \<Rightarrow> Inl (''tool pattern '' @ quoted p @ '' is malformed'')
      | None \<Rightarrow> Inr ())"

definition filter_allows :: "tool_filter \<Rightarrow> string \<Rightarrow> bool" where
  "filter_allows f tool \<longleftrightarrow>
     \<not> (fl_enabled f \<noteq> [] \<and> \<not> list_ex (\<lambda>p. pattern_match p tool) (fl_enabled f))
     \<and> \<not> list_ex (\<lambda>p. pattern_match p tool) (fl_disabled f)"

definition server_enabled :: "server_config \<Rightarrow> bool" where
  "server_enabled c \<longleftrightarrow> mc_enabled c \<noteq> Some False"

definition server_filter :: "server_config \<Rightarrow> tool_filter" where
  "server_filter c = \<lparr>fl_enabled = mc_enabled_tools c, fl_disabled = mc_disabled_tools c\<rparr>"

definition approval_mode :: "server_config \<Rightarrow> string" where
  "approval_mode c = (if mc_approval c = [] then ''auto'' else mc_approval c)"

text \<open>Durations in nanoseconds; the product wraps as Go's 64-bit integer does.\<close>

definition int64 :: "int \<Rightarrow> int" where
  "int64 n = (n + 2 ^ 63) mod 2 ^ 64 - 2 ^ 63"

definition timeout_seconds :: "int option \<Rightarrow> int \<Rightarrow> int" where
  "timeout_seconds s fallback = (case s of None \<Rightarrow> fallback | Some n \<Rightarrow> int64 (n * 1000000000))"

definition startup_timeout :: "server_config \<Rightarrow> int" where
  "startup_timeout c = timeout_seconds (mc_startup_sec c) 10000000000"

definition tool_timeout :: "server_config \<Rightarrow> int" where
  "tool_timeout c = timeout_seconds (mc_tool_sec c) 60000000000"

subsection \<open>Secret references\<close>

definition ref_open :: string where "ref_open = ''${secret:''"

definition secret_ref :: "string \<Rightarrow> (string \<times> string) option" where
  "secret_ref s =
     (case cut_prefix s ref_open of
        None \<Rightarrow> None
      | Some r \<Rightarrow>
          (let n = takeWhile name_char r in
           if valid_secret_name n \<and> has_prefix (drop (length n) r) ''}'' then Some (n, drop (Suc (length n)) r) else None))"

lemma secret_ref_shorter: "secret_ref s = Some (n, r) \<Longrightarrow> length r < length s"
  by (auto simp: secret_ref_def cut_prefix_def ref_open_def Let_def has_prefix_iff split: if_splits)

datatype piece = Lit char | Ref string

text \<open>The matches of \<^verbatim>\<open>secretRefPattern\<close>, leftmost first, and the bytes between them.\<close>

function scan_refs :: "string \<Rightarrow> piece list" where
  "scan_refs [] = []"
| "scan_refs (c # cs) = (case secret_ref (c # cs) of Some (n, r) \<Rightarrow> Ref n # scan_refs r | None \<Rightarrow> Lit c # scan_refs cs)"
  by pat_completeness auto
termination
  by (relation "measure length") (auto dest: secret_ref_shorter)

definition lit_text :: "piece \<Rightarrow> string" where
  "lit_text p = (case p of Lit c \<Rightarrow> [c] | Ref _ \<Rightarrow> [])"

definition one_line :: "string \<Rightarrow> bool" where
  "one_line s \<longleftrightarrow> \<not> list_ex (\<lambda>c. c = CHR 0x0D \<or> c = CHR 0x0A) s"

definition validate_header_value :: "string \<Rightarrow> error + unit" where
  "validate_header_value v =
     (if \<not> one_line v then Inl ''value must be a single line''
      else if contains (concat (map lit_text (scan_refs v))) ''${''
      then Inl ''only ${secret:<name>} references are supported; environment expansion is not''
      else Inr ())"

subsection \<open>Validation of a server\<close>

record parsed_url =
  pu_scheme :: string
  pu_host :: string
  pu_hostname :: string
  pu_user :: bool
  pu_fragment :: string
  pu_query :: "string list"

definition validate_url :: "(string \<Rightarrow> parsed_url option) \<Rightarrow> (string \<Rightarrow> bool) \<Rightarrow> string \<Rightarrow> error + unit" where
  "validate_url parse loopback raw =
     (if raw = [] then Inl ''url is required''
      else if contains raw ''${'' then Inl ''secret references are supported only in headers, not in url''
      else (case parse raw of
          None \<Rightarrow> Inl ''url is not a valid absolute URL''
        | Some u \<Rightarrow>
            if pu_host u = [] then Inl ''url is not a valid absolute URL''
            else if pu_user u then Inl ''url must not contain credentials''
            else if pu_fragment u \<noteq> [] then Inl ''url must not have a fragment''
            else if pu_scheme u = ''https'' then Inr ()
            else if pu_scheme u = ''http'' then
              if pu_hostname u = ''localhost'' \<or> loopback (pu_hostname u) then Inr ()
              else Inl ''url must use https unless the host is localhost or a loopback address''
            else Inl (''url scheme must be https, not '' @ quoted (pu_scheme u))))"

definition header_specials :: string where
  "header_specials = ''()<>@,;:'' @ [CHR 0x5C, CHR 0x22] @ ''/[]?={}''"

definition valid_header_name :: "string \<Rightarrow> bool" where
  "valid_header_name s \<longleftrightarrow> s \<noteq> [] \<and> list_all (\<lambda>c. 32 < byte c \<and> byte c < 127 \<and> c \<notin> set header_specials) s"

definition check_header :: "string \<times> string \<Rightarrow> error + unit" where
  "check_header = (\<lambda>(header, v).
     if \<not> valid_header_name header then Inl (''header name '' @ quoted header @ '' is not valid'')
     else case validate_header_value v of
       Inl e \<Rightarrow> Inl (''header '' @ quoted header @ '': '' @ e)
     | Inr _ \<Rightarrow> Inr ())"

definition check_seconds :: "string \<times> int option \<Rightarrow> error + unit" where
  "check_seconds = (\<lambda>(field, s).
     case s of Some n \<Rightarrow> if n \<le> 0 then Inl (field @ '' must be positive'') else Inr () | None \<Rightarrow> Inr ())"

definition approval_modes :: "string list" where
  "approval_modes = [[], ''auto'', ''ask'', ''writes'', ''allow'']"

definition validate_server :: "(string \<Rightarrow> parsed_url option) \<Rightarrow> (string \<Rightarrow> bool) \<Rightarrow> string \<Rightarrow> server_config \<Rightarrow> error + unit" where
  "validate_server parse loopback name c =
     (if \<not> server_name_ok name then Inl ''server name must match the pattern''
      else if mc_command c \<noteq> [] \<or> mc_args c \<noteq> [] \<or> mc_env c \<noteq> [] \<or> mc_type c = ''stdio''
      then Inl ''stdio servers are not supported yet''
      else if mc_oauth c \<noteq> [] then Inl ''oauth is not supported yet''
      else if mc_type c \<noteq> ''http'' then Inl (''type must be http, not '' @ quoted (mc_type c))
      else and_then (validate_url parse loopback (mc_url c)) (\<lambda>_.
           and_then (fold_res (\<lambda>_. check_header) () (mc_headers c)) (\<lambda>_.
           if mc_approval c \<notin> set approval_modes then Inl (''approvalMode must be one of its modes, not '' @ quoted (mc_approval c))
           else and_then (validate_filter (server_filter c)) (\<lambda>_.
                fold_res (\<lambda>_. check_seconds) ()
                  [(''startupTimeoutSec'', mc_startup_sec c), (''toolTimeoutSec'', mc_tool_sec c)]))))"

definition validate_servers :: "(string \<Rightarrow> parsed_url option) \<Rightarrow> (string \<Rightarrow> bool) \<Rightarrow> (string \<times> server_config) list \<Rightarrow> error + unit" where
  "validate_servers parse loopback servers =
     fold_res (\<lambda>_ (name, c). case validate_server parse loopback name c of
          Inl e \<Rightarrow> Inl (''mcpServers.'' @ name @ '': '' @ e) | Inr _ \<Rightarrow> Inr ())
       () (sort_key fst servers)"

subsection \<open>Storing secrets\<close>

text \<open>The store file as the map it holds; writing it is one replacement under the advisory lock.\<close>

type_synonym secret_store = "string \<rightharpoonup> string"

definition decode_secrets :: "string \<Rightarrow> error + secret_store" where
  "decode_secrets data =
     (if trim_space data = [] then Inr Map.empty
      else (case unmarshal data of
          Some JNull \<Rightarrow> Inr Map.empty
        | Some (JObject ms) \<Rightarrow>
            if list_all (\<lambda>(k, v). case v of JString _ \<Rightarrow> True | JNull \<Rightarrow> True | _ \<Rightarrow> False) ms
            then Inr (\<lambda>k. map_option (\<lambda>v. case v of JString s \<Rightarrow> s | _ \<Rightarrow> []) (object_map ms k))
            else Inl ''secret store is not a JSON object of names to values''
        | _ \<Rightarrow> Inl ''secret store is not a JSON object of names to values''))"

definition set_secret :: "error + secret_store \<Rightarrow> string \<Rightarrow> string \<Rightarrow> error + secret_store" where
  "set_secret stored name v =
     (if \<not> valid_secret_name name then Inl (''secret name '' @ quoted name @ '' must match the pattern'')
      else if v = [] then Inl ''secret value must not be empty''
      else if \<not> one_line v then Inl ''secret value must be a single line''
      else and_then stored (\<lambda>m. Inr (m(name \<mapsto> v))))"

subsection \<open>Resolving headers\<close>

record resolving =
  rv_text :: string
  rv_used :: "string list"
  rv_missing :: string

definition resolve_piece :: "secret_store \<Rightarrow> resolving \<Rightarrow> piece \<Rightarrow> resolving" where
  "resolve_piece secrets r p =
     (case p of
        Lit c \<Rightarrow> r\<lparr>rv_text := rv_text r @ [c]\<rparr>
      | Ref n \<Rightarrow>
          (case secrets n of
             Some s \<Rightarrow> if s = [] then r\<lparr>rv_missing := n\<rparr> else r\<lparr>rv_text := rv_text r @ s, rv_used := rv_used r @ [s]\<rparr>
           | None \<Rightarrow> r\<lparr>rv_missing := n\<rparr>))"

definition resolve_value :: "secret_store \<Rightarrow> string \<Rightarrow> resolving" where
  "resolve_value secrets v = foldl (resolve_piece secrets) \<lparr>rv_text = [], rv_used = [], rv_missing = []\<rparr> (scan_refs v)"

definition resolve_header :: "secret_store \<Rightarrow> (string \<times> string) list \<times> string list \<Rightarrow> string \<times> string
    \<Rightarrow> error + (string \<times> string) list \<times> string list" where
  "resolve_header secrets acc = (\<lambda>(header, v).
     let r = resolve_value secrets v in
     if rv_missing r \<noteq> [] then Inl (''secret '' @ quoted (rv_missing r) @ '' is not set; run: pons mcp set-secret '' @ rv_missing r)
     else if \<not> one_line (rv_text r) then Inl (''header '' @ quoted header @ '' resolves to more than one line'')
     else Inr (fst acc @ [(header, rv_text r)], snd acc @ rv_used r))"

definition resolve_headers :: "(string \<times> string) list \<Rightarrow> secret_store \<Rightarrow> error + (string \<times> string) list \<times> string list" where
  "resolve_headers headers secrets = fold_res (resolve_header secrets) ([], []) headers"

subsection \<open>Redaction\<close>

definition min_redacted_secret :: nat where "min_redacted_secret = 8"

definition secret_mark :: string where "secret_mark = ''[secret]''"

text \<open>JSON escaping without the HTML characters.\<close>

definition plain_escape_byte :: "char \<Rightarrow> string" where
  "plain_escape_byte c = (if c \<in> {CHR ''<'', CHR ''>'', CHR 0x26} then [c] else escape_byte c)"

fun plain_escape_string :: "string \<Rightarrow> string" where
  "plain_escape_string (a # b # c # r) =
     (if a = CHR 0xE2 \<and> b = CHR 0x80 \<and> (c = CHR 0xA8 \<or> c = CHR 0xA9)
      then [CHR 0x5C, CHR ''u'', CHR ''2'', CHR ''0'', CHR ''2'', if c = CHR 0xA8 then CHR ''8'' else CHR ''9''] @ plain_escape_string r
      else plain_escape_byte a @ plain_escape_string (b # c # r))"
| "plain_escape_string s = concat (map plain_escape_byte s)"

definition json_string :: "string \<Rightarrow> bool \<Rightarrow> string" where
  "json_string s html = (if html then escape_string s else plain_escape_string s)"

definition redacted_forms :: "string list \<Rightarrow> string list" where
  "redacted_forms secrets =
     concat (map (\<lambda>s. [json_string s True, json_string s False, s]) (filter (\<lambda>s. \<not> length s < min_redacted_secret) secrets))"

text \<open>The replacer: at each position the first form that starts there.\<close>

fun redact :: "string list \<Rightarrow> nat \<Rightarrow> string \<Rightarrow> string" where
  "redact forms 0 s = s"
| "redact forms (Suc n) s =
     (case s of
        [] \<Rightarrow> []
      | c # cs \<Rightarrow>
          (case List.find (\<lambda>f. f \<noteq> [] \<and> has_prefix s f) forms of
             Some f \<Rightarrow> secret_mark @ redact forms n (drop (length f) s)
           | None \<Rightarrow> c # redact forms n cs))"

definition redact_text :: "string list \<Rightarrow> string \<Rightarrow> string" where
  "redact_text secrets s = redact (redacted_forms secrets) (length s) s"

subsection \<open>What redaction hides\<close>

text \<open>A reading of a redacted text: bytes shown as they are, and pieces shown as the mark.\<close>

datatype shown_part = Kept char | Hidden string

definition part_text :: "shown_part \<Rightarrow> string" where
  "part_text p = (case p of Kept c \<Rightarrow> [c] | Hidden h \<Rightarrow> h)"

definition part_shown :: "shown_part \<Rightarrow> string" where
  "part_shown p = (case p of Kept c \<Rightarrow> [c] | Hidden _ \<Rightarrow> secret_mark)"

lemma shown_part_simps [simp]:
  "part_text (Kept c) = [c]" "part_text (Hidden h) = h" "part_shown (Kept c) = [c]" "part_shown (Hidden h) = secret_mark"
  by (simp_all add: part_text_def part_shown_def)

lemma redact_parts:
  "length s \<le> n \<Longrightarrow> \<exists>ps. s = concat (map part_text ps) \<and> redact forms n s = concat (map part_shown ps)
     \<and> (\<forall>h. Hidden h \<in> set ps \<longrightarrow> h \<in> set forms)
     \<and> (\<forall>xs c ys. ps = xs @ Kept c # ys \<longrightarrow> (\<forall>f \<in> set forms. f \<noteq> [] \<longrightarrow> \<not> has_prefix (c # concat (map part_text ys)) f))"
proof (induction n arbitrary: s)
  case 0
  then show ?case by (intro exI [of _ "[]"]) simp
next
  case (Suc n)
  show ?case
  proof (cases s)
    case Nil
    then show ?thesis by (intro exI [of _ "[]"]) simp
  next
    case (Cons c cs)
    show ?thesis
    proof (cases "List.find (\<lambda>f. f \<noteq> [] \<and> has_prefix s f) forms")
      case None
      from Suc.IH [of cs] Suc.prems Cons obtain ps where ps: "cs = concat (map part_text ps)" "redact forms n cs = concat (map part_shown ps)"
        "\<forall>h. Hidden h \<in> set ps \<longrightarrow> h \<in> set forms"
        "\<forall>xs c ys. ps = xs @ Kept c # ys \<longrightarrow> (\<forall>f \<in> set forms. f \<noteq> [] \<longrightarrow> \<not> has_prefix (c # concat (map part_text ys)) f)" by auto
      show ?thesis
      proof (intro exI [of _ "Kept c # ps"] conjI allI impI ballI)
        fix xs d ys f assume "Kept c # ps = xs @ Kept d # ys" "f \<in> set forms" "f \<noteq> []"
        then show "\<not> has_prefix (d # concat (map part_text ys)) f"
          using ps(1,4) None Cons by (cases xs) (auto simp: find_None_iff)
      qed (use ps Cons None in auto)
    next
      case (Some f)
      then have f: "f \<in> set forms" "f \<noteq> []" "has_prefix s f" by (auto simp: find_Some_iff)
      from f(2) obtain d ds where "f = d # ds" by (cases f) auto
      then have "length (drop (length f) s) \<le> n" using Suc.prems Cons by simp
      from Suc.IH [OF this] obtain ps where ps: "drop (length f) s = concat (map part_text ps)"
        "redact forms n (drop (length f) s) = concat (map part_shown ps)" "\<forall>h. Hidden h \<in> set ps \<longrightarrow> h \<in> set forms"
        "\<forall>xs c ys. ps = xs @ Kept c # ys \<longrightarrow> (\<forall>f \<in> set forms. f \<noteq> [] \<longrightarrow> \<not> has_prefix (c # concat (map part_text ys)) f)" by blast
      have "s = f @ drop (length f) s" using f(3) by (metis append_take_drop_id has_prefix_def)
      have red: "redact forms (Suc n) s = secret_mark @ redact forms n (drop (length f) s)" using Cons Some by simp
      show ?thesis
      proof (intro exI [of _ "Hidden f # ps"] conjI allI impI ballI)
        fix xs d ys g assume "Hidden f # ps = xs @ Kept d # ys" "g \<in> set forms" "g \<noteq> []"
        then show "\<not> has_prefix (d # concat (map part_text ys)) g" using ps(4) by (cases xs) auto
      qed (use ps(1,2,3) red f(1) \<open>s = f @ drop (length f) s\<close> in \<open>auto simp del: redact.simps\<close>)
    qed
  qed
qed

lemma kept_run:
  assumes "ps = xs @ map Kept run @ ys" and "f \<noteq> []" and "contains run f"
    and "\<And>xs c ys. ps = xs @ Kept c # ys \<Longrightarrow> \<not> has_prefix (c # concat (map part_text ys)) f"
  shows False
proof -
  from assms(3) obtain i where i: "index_of f run = Some i" by (auto simp: contains_def)
  from index_of_Some [OF i] have run: "run = take i run @ f @ drop (i + length f) run"
    by (metis add.commute append_assoc append_take_drop_id take_add)
  obtain c f' where f: "f = c # f'" using assms(2) by (cases f) auto
  let ?ys = "map Kept (f' @ drop (i + length f) run) @ ys"
  have "ps = (xs @ map Kept (take i run)) @ Kept c # ?ys"
    using assms(1) run f by (metis Cons_eq_appendI append.assoc list.simps(9) map_append)
  from assms(4) [OF this] show False
    by (simp add: f has_prefix_def comp_def)
qed

text \<open>C21. Redacted text shows no secret: the text splits into bytes shown as they are and pieces shown
  as a mark, every piece hidden is a secret of at least eight bytes or its JSON form, and no run
  of bytes shown contains such a secret in any of these forms.\<close>

theorem secrets_not_shown:
  "\<exists>ps. s = concat (map part_text ps) \<and> redact_text secrets s = concat (map part_shown ps)
     \<and> (\<forall>h. Hidden h \<in> set ps \<longrightarrow> (\<exists>v \<in> set secrets. 8 \<le> length v \<and> h \<in> {v, json_string v True, json_string v False}))
     \<and> (\<forall>xs run ys. ps = xs @ map Kept run @ ys \<longrightarrow>
          (\<forall>v \<in> set secrets. 8 \<le> length v \<longrightarrow>
             \<not> contains run v \<and> \<not> contains run (json_string v True) \<and> \<not> contains run (json_string v False)))"
proof -
  from redact_parts [OF order_refl, of s "redacted_forms secrets"] obtain ps where ps: "s = concat (map part_text ps)"
    "redact_text secrets s = concat (map part_shown ps)" "\<forall>h. Hidden h \<in> set ps \<longrightarrow> h \<in> set (redacted_forms secrets)"
    "\<And>xs c ys f. ps = xs @ Kept c # ys \<Longrightarrow> f \<in> set (redacted_forms secrets) \<Longrightarrow> f \<noteq> [] \<Longrightarrow> \<not> has_prefix (c # concat (map part_text ys)) f"
    by (auto simp: redact_text_def)
  have forms: "f \<in> set (redacted_forms secrets) \<longleftrightarrow> (\<exists>v \<in> set secrets. 8 \<le> length v \<and> f \<in> {v, json_string v True, json_string v False})" for f
    by (auto simp: redacted_forms_def min_redacted_secret_def not_less)
  have hidden: "\<not> contains run f" if run: "ps = xs @ map Kept run @ ys" and f: "f \<in> set (redacted_forms secrets)" "f \<noteq> []" for xs run ys f
    using kept_run [OF run f(2)] ps(4) [OF _ f] by blast
  have nonempty: "json_string v b \<noteq> []" if "8 \<le> length v" for v b
    using that by (cases v rule: escape_string.cases)
      (auto simp: json_string_def escape_byte_def plain_escape_byte_def)
  show ?thesis
  proof (intro exI [of _ ps] conjI allI impI ballI)
    fix xs run ys v assume "ps = xs @ map Kept run @ ys" "v \<in> set secrets" "8 \<le> length v"
    note run = this
    have "v \<noteq> []" "json_string v True \<noteq> []" "json_string v False \<noteq> []" using run(3) nonempty by auto
    moreover have "v \<in> set (redacted_forms secrets)" "json_string v True \<in> set (redacted_forms secrets)"
      "json_string v False \<in> set (redacted_forms secrets)" unfolding forms using run(2,3) by blast+
    ultimately show "\<not> contains run v" "\<not> contains run (json_string v True)" "\<not> contains run (json_string v False)"
      using hidden [OF run(1)] by blast+
  qed (use ps forms in blast)+
qed

lemma secrets_not_shown_witness:
  "\<exists>ps. ''key=topsecret1;'' = concat (map part_text ps) \<and> \<not> (\<exists>xs ys. ps = xs @ map Kept ''topsecret1'' @ ys)"
proof -
  obtain ps where ps: "''key=topsecret1;'' = concat (map part_text ps)"
    "\<forall>xs run ys. ps = xs @ map Kept run @ ys \<longrightarrow> (\<forall>v \<in> set [''topsecret1'']. 8 \<le> length v \<longrightarrow>
       \<not> contains run v \<and> \<not> contains run (json_string v True) \<and> \<not> contains run (json_string v False))"
    using secrets_not_shown [of "''key=topsecret1;''" "[''topsecret1'']"] by blast
  have "contains ''topsecret1'' ''topsecret1''" by (simp add: contains_def has_prefix_def)
  moreover have "\<forall>xs run ys. ps = xs @ map Kept run @ ys \<longrightarrow> \<not> contains run ''topsecret1''" using ps(2) by simp
  ultimately have "\<not> (\<exists>xs ys. ps = xs @ map Kept ''topsecret1'' @ ys)" by blast
  with ps(1) show ?thesis by blast
qed

subsection \<open>Headers resolve\<close>

definition ref_names :: "string \<Rightarrow> string list" where
  "ref_names v = concat (map (\<lambda>p. case p of Lit _ \<Rightarrow> [] | Ref n \<Rightarrow> [n]) (scan_refs v))"

definition filled :: "secret_store \<Rightarrow> string \<Rightarrow> string" where
  "filled secrets v = concat (map (\<lambda>p. case p of Lit c \<Rightarrow> [c] | Ref n \<Rightarrow> the (secrets n)) (scan_refs v))"

definition store_ok :: "secret_store \<Rightarrow> bool" where
  "store_ok m \<longleftrightarrow> (\<forall>v \<in> ran m. v \<noteq> [] \<and> one_line v)"

lemma set_secret_ok: "set_secret stored n v = Inr m \<Longrightarrow> (\<And>m0. stored = Inr m0 \<Longrightarrow> store_ok m0) \<Longrightarrow> store_ok m"
  by (auto simp: set_secret_def store_ok_def and_then_Inr_iff ran_def split: if_splits) blast+

lemma resolve_pieces:
  assumes "\<forall>n. Ref n \<in> set ps \<longrightarrow> (\<exists>s. secrets n = Some s \<and> s \<noteq> [])"
  shows "foldl (resolve_piece secrets) r ps = r\<lparr>rv_text := rv_text r @ concat (map (\<lambda>p. case p of Lit c \<Rightarrow> [c] | Ref n \<Rightarrow> the (secrets n)) ps),
     rv_used := rv_used r @ concat (map (\<lambda>p. case p of Lit _ \<Rightarrow> [] | Ref n \<Rightarrow> [the (secrets n)]) ps)\<rparr>"
  using assms
proof (induction ps arbitrary: r)
  case (Cons p ps)
  then show ?case by (cases p) (force simp: resolve_piece_def)+
qed simp

lemma one_line_append [simp]: "one_line (a @ b) \<longleftrightarrow> one_line a \<and> one_line b"
  by (auto simp: one_line_def)

lemma secret_ref_rest: "secret_ref s = Some (n, r) \<Longrightarrow> \<exists>k. r = drop k s"
  by (auto simp: secret_ref_def cut_prefix_def Let_def split: if_splits)

lemma scan_refs_lits: "Lit c \<in> set (scan_refs v) \<Longrightarrow> c \<in> set v"
proof (induction v rule: scan_refs.induct)
  case (2 d ds)
  show ?case
  proof (cases "secret_ref (d # ds)")
    case None
    with 2 show ?thesis by auto
  next
    case (Some x)
    obtain n r where x: "x = (n, r)" by (cases x)
    have "set r \<subseteq> set (d # ds)"
      using secret_ref_rest [of "d # ds"] Some x set_drop_subset by metis
    moreover have "c \<in> set r" using 2 Some x by auto
    ultimately show ?thesis by blast
  qed
qed simp

lemma filled_one_line:
  assumes "one_line v" and "\<forall>n \<in> set (ref_names v). \<exists>s. secrets n = Some s \<and> one_line s"
  shows "one_line (filled secrets v)"
proof -
  have "one_line (concat (map (\<lambda>p. case p of Lit c \<Rightarrow> [c] | Ref n \<Rightarrow> the (secrets n)) ps))"
    if "\<forall>c. Lit c \<in> set ps \<longrightarrow> one_line [c]" "\<forall>n. Ref n \<in> set ps \<longrightarrow> one_line (the (secrets n))" for ps
    using that by (induction ps) (auto simp: one_line_def split: piece.splits)
  moreover have "one_line [c]" if "Lit c \<in> set (scan_refs v)" for c
    using scan_refs_lits [OF that] assms(1) by (auto simp: one_line_def list_ex_iff)
  moreover have "one_line (the (secrets n))" if "Ref n \<in> set (scan_refs v)" for n
  proof -
    have "n \<in> set (ref_names v)" using that by (force simp: ref_names_def)
    with assms(2) show ?thesis by fastforce
  qed
  ultimately show ?thesis by (simp add: filled_def)
qed

text \<open>Headers that passed validation resolve as soon as every secret they name is stored: each header
  is its value with the references filled in, on one line, and the secrets reported for
  redaction are exactly those that were filled in.\<close>

theorem headers_resolve:
  assumes "\<forall>h \<in> set headers. check_header h = Inr ()" and "store_ok secrets"
    and "\<forall>h \<in> set headers. \<forall>n \<in> set (ref_names (snd h)). n \<in> dom secrets"
  shows "\<exists>used. resolve_headers headers secrets = Inr (map (\<lambda>(k, v). (k, filled secrets v)) headers, used)
    \<and> set used = {s. \<exists>h \<in> set headers. \<exists>n \<in> set (ref_names (snd h)). secrets n = Some s}
    \<and> (\<forall>h \<in> set headers. one_line (filled secrets (snd h)))"
proof -
  have one: "resolve_header secrets acc (k, v) = Inr (fst acc @ [(k, filled secrets v)], snd acc @ map (\<lambda>n. the (secrets n)) (ref_names v))
      \<and> one_line (filled secrets v)" if h: "(k, v) \<in> set headers" for acc k v
  proof -
    from assms(1) h have "one_line v" by (auto simp: check_header_def validate_header_value_def split: if_splits sum.splits)
    moreover have stored: "\<exists>s. secrets n = Some s \<and> s \<noteq> [] \<and> one_line s" if "n \<in> set (ref_names v)" for n
      using assms(2,3) h that by (fastforce simp: store_ok_def ran_def)
    ultimately have line: "one_line (filled secrets v)" by (intro filled_one_line) auto
    have "\<forall>n. Ref n \<in> set (scan_refs v) \<longrightarrow> (\<exists>s. secrets n = Some s \<and> s \<noteq> [])"
      using stored by (force simp: ref_names_def)
    from resolve_pieces [OF this] have "resolve_value secrets v = \<lparr>rv_text = filled secrets v,
        rv_used = concat (map (\<lambda>p. case p of Lit _ \<Rightarrow> [] | Ref n \<Rightarrow> [the (secrets n)]) (scan_refs v)), rv_missing = []\<rparr>"
      by (simp add: resolve_value_def filled_def)
    moreover have "concat (map (\<lambda>p. case p of Lit _ \<Rightarrow> [] | Ref n \<Rightarrow> [the (secrets n)]) ps)
        = map (\<lambda>n. the (secrets n)) (concat (map (\<lambda>p. case p of Lit _ \<Rightarrow> [] | Ref n \<Rightarrow> [n]) ps))" for ps
      by (induction ps) (auto split: piece.splits)
    ultimately show ?thesis using line by (simp add: resolve_header_def ref_names_def)
  qed
  have "resolve_headers headers secrets = Inr (map (\<lambda>(k, v). (k, filled secrets v)) headers,
      concat (map (\<lambda>h. map (\<lambda>n. the (secrets n)) (ref_names (snd h))) headers))"
  proof -
    have "fold_res (resolve_header secrets) acc hs = Inr (fst acc @ map (\<lambda>(k, v). (k, filled secrets v)) hs,
        snd acc @ concat (map (\<lambda>h. map (\<lambda>n. the (secrets n)) (ref_names (snd h))) hs))" if "set hs \<subseteq> set headers" for acc hs
      using that by (induction hs arbitrary: acc) (auto simp: one)
    from this [of headers "([], [])"] show ?thesis by (simp add: resolve_headers_def)
  qed
  moreover have "set (concat (map (\<lambda>h. map (\<lambda>n. the (secrets n)) (ref_names (snd h))) headers))
      = {s. \<exists>h \<in> set headers. \<exists>n \<in> set (ref_names (snd h)). secrets n = Some s}"
  proof (intro equalityI subsetI)
    fix s assume "s \<in> set (concat (map (\<lambda>h. map (\<lambda>n. the (secrets n)) (ref_names (snd h))) headers))"
    then obtain h n where h: "h \<in> set headers" "n \<in> set (ref_names (snd h))" "s = the (secrets n)" by auto
    with assms(3) obtain t where "secrets n = Some t" by blast
    with h show "s \<in> {s. \<exists>h \<in> set headers. \<exists>n \<in> set (ref_names (snd h)). secrets n = Some s}" by auto
  next
    fix s assume "s \<in> {s. \<exists>h \<in> set headers. \<exists>n \<in> set (ref_names (snd h)). secrets n = Some s}"
    then obtain h n where "h \<in> set headers" "n \<in> set (ref_names (snd h))" "secrets n = Some s" by blast
    then show "s \<in> set (concat (map (\<lambda>h. map (\<lambda>n. the (secrets n)) (ref_names (snd h))) headers))" by force
  qed
  moreover have "\<forall>h \<in> set headers. one_line (filled secrets (snd h))" using one by auto
  ultimately show ?thesis by blast
qed

lemma headers_resolve_witness:
  "resolve_headers [(''Authorization'', ''Bearer ${secret:t}'')] [''t'' \<mapsto> ''abc''] = Inr ([(''Authorization'', ''Bearer abc'')], [''abc''])"
proof -
  have check: "\<forall>h \<in> set [(''Authorization'', ''Bearer ${secret:t}'')]. check_header h = Inr ()" by code_simp
  have ok: "store_ok [''t'' \<mapsto> ''abc'']" by (simp add: store_ok_def one_line_def)
  have names: "ref_names ''Bearer ${secret:t}'' = [''t'']" by code_simp
  then have dom: "\<forall>h \<in> set [(''Authorization'', ''Bearer ${secret:t}'')]. \<forall>n \<in> set (ref_names (snd h)). n \<in> dom [''t'' \<mapsto> ''abc'']"
    by simp
  have "resolve_headers [(''Authorization'', ''Bearer ${secret:t}'')] [''t'' \<mapsto> ''abc'']
      = Inr ([(''Authorization'', ''Bearer abc'')], [''abc''])" by code_simp
  then show ?thesis using headers_resolve [OF check ok dom] by simp
qed

end
