(* ===== verification/Mcp_Tools.thy ===== *)
theory Mcp_Tools
  imports Mcp_Config Registry Preflight
begin

section \<open>Tools of remote servers (plugins/mcp/manager.go, plugin.go, client.go)\<close>

text \<open>
  The manager of the configured servers, what a server's reported tools become, the retry rule
  of a tool call, the registration of a run's tools and the approval hook. The MCP SDK is not
  part of the repository: a session's answers are arguments. Connections opened and closed
  concurrently, goroutines and logging are left out.
\<close>

subsection \<open>The manager\<close>

record mcp_server =
  ms_name :: string
  ms_config :: server_config
  ms_connects :: bool
  ms_headers :: "(string \<times> string) list"
  ms_secrets :: "string list"
  ms_response_bytes :: int

record mcp_manager =
  mm_servers :: "(string \<times> mcp_server) list"
  mm_max_result :: nat

definition default_max_result :: nat where "default_max_result = 1048576"

definition min_response_bytes :: int where "min_response_bytes = 8388608"

definition url_secrets :: "(string \<Rightarrow> parsed_url option) \<Rightarrow> string \<Rightarrow> string list" where
  "url_secrets parse raw = (case parse raw of None \<Rightarrow> [] | Some u \<Rightarrow> pu_query u)"

definition open_entry :: "(string \<Rightarrow> parsed_url option) \<Rightarrow> secret_store \<Rightarrow> nat \<Rightarrow> string \<times> server_config \<Rightarrow> error + mcp_server" where
  "open_entry parse secrets max_result = (\<lambda>(name, c).
     let entry = \<lparr>ms_name = name, ms_config = c, ms_connects = False, ms_headers = [], ms_secrets = [], ms_response_bytes = 0\<rparr> in
     if \<not> server_enabled c then Inr entry
     else (case resolve_headers (mc_headers c) secrets of
         Inl e \<Rightarrow> Inl (''mcpServers.'' @ name @ '': '' @ e)
       | Inr (headers, used) \<Rightarrow>
           Inr (entry\<lparr>ms_connects := True, ms_headers := headers, ms_secrets := used @ url_secrets parse (mc_url c),
                     ms_response_bytes := max (4 * int max_result) min_response_bytes\<rparr>)))"

definition new_mcp_manager :: "(string \<Rightarrow> parsed_url option) \<Rightarrow> (string \<Rightarrow> bool) \<Rightarrow> (string \<times> server_config) list \<Rightarrow> secret_store \<Rightarrow> int
    \<Rightarrow> error + mcp_manager" where
  "new_mcp_manager parse loopback servers secrets max_result =
     and_then (validate_servers parse loopback servers) (\<lambda>_.
       let limit = (if max_result \<le> 0 then default_max_result else nat max_result) in
       and_then (fold_res (\<lambda>es s. and_then (open_entry parse secrets limit s) (\<lambda>e. Inr (es @ [(fst s, e)]))) [] (sort_key fst servers))
         (\<lambda>entries. Inr \<lparr>mm_servers = entries, mm_max_result = limit\<rparr>))"

record server_info =
  sv_name :: string
  sv_host :: string
  sv_approval :: string
  sv_enabled :: bool

definition server_infos :: "(string \<Rightarrow> parsed_url option) \<Rightarrow> mcp_manager option \<Rightarrow> server_info list" where
  "server_infos parse m =
     (case m of
        None \<Rightarrow> []
      | Some m \<Rightarrow> map (\<lambda>(name, e).
          \<lparr>sv_name = name, sv_host = (case parse (mc_url (ms_config e)) of None \<Rightarrow> [] | Some u \<Rightarrow> pu_host u),
           sv_approval = approval_mode (ms_config e), sv_enabled = server_enabled (ms_config e)\<rparr>) (sort_key fst (mm_servers m)))"

definition is_configured :: "mcp_manager option \<Rightarrow> string \<Rightarrow> bool" where
  "is_configured m name \<longleftrightarrow> (case m of None \<Rightarrow> False | Some m \<Rightarrow> map_of (mm_servers m) name \<noteq> None)"

subsection \<open>Sessions\<close>

text \<open>An error of a session: its text, whether it means the session is lost, whether a deadline passed.\<close>

record session_error =
  se_text :: string
  se_lost :: bool
  se_deadline :: bool

record mcp_tool =
  mt_name :: string
  mt_description :: string
  mt_schema :: string
  mt_readonly :: bool

record remote_answer =
  cr_text :: string
  cr_structured :: string
  cr_error :: bool

text \<open>The pages of a tool list: \<open>page\<close> answers a cursor with tools and the next cursor.\<close>

definition max_listed_tools :: nat where "max_listed_tools = 1024"

partial_function (option) list_pages ::
    "(string \<Rightarrow> session_error + mcp_tool option list \<times> string) \<Rightarrow> string \<Rightarrow> mcp_tool list \<Rightarrow> (session_error + mcp_tool list) option" where
  "list_pages page cursor tools =
     (case page cursor of
        Inl e \<Rightarrow> Some (Inl e)
      | Inr (ts, cursor') \<Rightarrow>
          (let all = tools @ map the (filter (\<lambda>t. t \<noteq> None) ts) in
           if max_listed_tools < length all
           then Some (Inl \<lparr>se_text = ''server reports more than 1024 tools'', se_lost = False, se_deadline = False\<rparr>)
           else if cursor' = [] \<or> cursor' = cursor then Some (Inr all)
           else list_pages page cursor' all))"

datatype content = TextContent string | ImageContent | AudioContent | ResourceLink | EmbeddedResource | OtherContent

definition content_text :: "content \<Rightarrow> string" where
  "content_text c =
     (case c of
        TextContent t \<Rightarrow> t
      | ImageContent \<Rightarrow> ''[image content omitted]''
      | AudioContent \<Rightarrow> ''[audio content omitted]''
      | ResourceLink \<Rightarrow> ''[resource link omitted]''
      | EmbeddedResource \<Rightarrow> ''[embedded resource omitted]''
      | OtherContent \<Rightarrow> ''[unsupported content omitted]'')"

definition call_args :: "string \<Rightarrow> string" where
  "call_args args = (if trim_space args = [] \<or> trim_space args = ''null'' then ''{}'' else args)"

text \<open>The answer to a call: input requests, content, structured content, the error flag.\<close>

definition read_answer :: "bool \<Rightarrow> content list \<Rightarrow> string option \<Rightarrow> bool \<Rightarrow> session_error + remote_answer" where
  "read_answer wants_input cs structured failed =
     (if wants_input
      then Inl \<lparr>se_text = ''server asked for more input, which pons does not support'', se_lost = False, se_deadline = False\<rparr>
      else Inr \<lparr>cr_text = join_on [newline] (map content_text cs), cr_structured = (case structured of None \<Rightarrow> [] | Some j \<Rightarrow> j),
                cr_error = failed\<rparr>)"

text \<open>The request of a call as the transport saw it: handed to the network, refused for its session.\<close>

record call_attempt =
  ca_outcome :: "session_error + remote_answer"
  ca_sent :: bool
  ca_refused :: bool
  ca_ended :: bool

definition lost_session :: "call_attempt \<Rightarrow> bool" where
  "lost_session a \<longleftrightarrow> ca_refused a \<or> (case ca_outcome a of Inl e \<Rightarrow> se_lost e | Inr _ \<Rightarrow> False)"

text \<open>\<open>attempt_at n\<close>: the \<open>n\<close>-th attempt, or the error of opening its session. The attempts made are returned.\<close>

function call_tool :: "(nat \<Rightarrow> session_error + call_attempt) \<Rightarrow> nat \<Rightarrow> (session_error + remote_answer) \<times> call_attempt list" where
  "call_tool attempt_at n =
     (case attempt_at n of
        Inl e \<Rightarrow> (Inl e, [])
      | Inr a \<Rightarrow>
          (case ca_outcome a of
             Inr r \<Rightarrow> (Inr r, [a])
           | Inl e \<Rightarrow>
               if \<not> lost_session a then (Inl e, [a])
               else if n > 0 \<or> \<not> (ca_refused a \<or> \<not> ca_sent a) \<or> ca_ended a then (Inl e, [a])
               else (let (r, rest) = call_tool attempt_at (n + 1) in (r, a # rest))))"
  by pat_completeness auto
termination
  by (relation "measure (\<lambda>(_, n). 1 - n)") auto

declare call_tool.simps [simp del]

text \<open>Listing changes nothing, so any failure is retried once.\<close>

fun list_tools :: "(nat \<Rightarrow> session_error + (session_error + mcp_tool list) \<times> bool) \<Rightarrow> nat \<Rightarrow> nat \<Rightarrow> session_error option \<Rightarrow> session_error + mcp_tool list" where
  "list_tools attempt_at n 0 e = (case e of None \<Rightarrow> Inr [] | Some e \<Rightarrow> Inl e)"
| "list_tools attempt_at n (Suc k) e =
     (case attempt_at n of
        Inl e' \<Rightarrow> Inl e'
      | Inr (Inr tools, _) \<Rightarrow> Inr tools
      | Inr (Inl e', ended) \<Rightarrow> if ended then Inl e' else list_tools attempt_at (n + 1) k (Some e'))"

text \<open>\<^verbatim>\<open>strings.ToValidUTF8\<close> with an empty replacement.\<close>

fun to_valid_utf8 :: "nat \<Rightarrow> string \<Rightarrow> string" where
  "to_valid_utf8 0 s = []"
| "to_valid_utf8 (Suc n) s =
     (case s of
        [] \<Rightarrow> []
      | c # cs \<Rightarrow> (case rune_len s of None \<Rightarrow> to_valid_utf8 n cs | Some k \<Rightarrow> take k s @ to_valid_utf8 n (drop k s)))"

definition max_failure_text :: nat where "max_failure_text = 512"

definition failure_text :: "mcp_server \<Rightarrow> bool \<Rightarrow> session_error \<Rightarrow> error" where
  "failure_text s ended e =
     (if se_deadline e \<and> \<not> ended then ''MCP server '' @ quoted (ms_name s) @ '' did not answer in time''
      else (let t = redact_text (ms_secrets s) (se_text e);
                shown = (if length t > max_failure_text
                         then to_valid_utf8 max_failure_text (take max_failure_text t) @ [CHR 0xE2, CHR 0x80, CHR 0xA6] else t)
            in ''MCP server '' @ quoted (ms_name s) @ '': '' @ shown))"

subsection \<open>Schemas\<close>

text \<open>The members of an object as the bytes of their values.\<close>

fun raw_members :: "nat \<Rightarrow> string \<Rightarrow> (string \<times> string) list" where
  "raw_members 0 s = []"
| "raw_members (Suc n) s =
     (case skip_ws s of
        c # r \<Rightarrow>
          (case parse_string (length r) r of
             Some (k, r1) \<Rightarrow>
               (let v = skip_ws (drop 1 (skip_ws r1)) in
                case parse_value (parse_fuel v) v of
                  Some (_, r3) \<Rightarrow> (k, take (length v - length r3) v) # raw_members n (drop 1 (skip_ws r3))
                | None \<Rightarrow> [])
           | None \<Rightarrow> [])
      | [] \<Rightarrow> [])"

definition object_members :: "string \<Rightarrow> (string \<times> string) list option" where
  "object_members raw =
     (case unmarshal raw of
        Some (JObject _) \<Rightarrow> Some (raw_members (length raw) (drop 1 (skip_ws raw)))
      | _ \<Rightarrow> None)"

text \<open>Compaction of raw JSON on output: white space outside strings goes, HTML characters are escaped.\<close>

fun compact :: "bool \<Rightarrow> string \<Rightarrow> string" where
  "compact q [] = []"
| "compact False (c # cs) =
     (if json_space c then compact False cs else c # compact (c = CHR 0x22) cs)"
| "compact True (c # cs) =
     (if c = CHR 0x5C then (case cs of [] \<Rightarrow> [c] | d # ds \<Rightarrow> c # d # compact True ds)
      else if c = CHR 0x22 then c # compact False cs
      else if c \<in> {CHR ''<'', CHR ''>'', CHR 0x26} then escape_byte c @ compact True cs
      else if take 2 (c # cs) = [CHR 0xE2, CHR 0x80] \<and> take 1 (drop 1 cs) \<in> {[CHR 0xA8], [CHR 0xA9]}
      then [CHR 0x5C, CHR ''u'', CHR ''2'', CHR ''0'', CHR ''2'', if take 1 (drop 1 cs) = [CHR 0xA8] then CHR ''8'' else CHR ''9'']
           @ compact True (drop 2 cs)
      else c # compact True cs)"

definition raw_object :: "(string \<times> string) list \<Rightarrow> string" where
  "raw_object ms =
     [CHR 0x7B] @ join_on '','' (map (\<lambda>(k, v). [CHR 0x22] @ escape_string k @ [CHR 0x22] @ '':'' @ compact False v) (canonical_members ms)) @ [CHR 0x7D]"

definition max_schema_size :: nat where "max_schema_size = 65536"

definition combinators :: "string list" where
  "combinators = [''anyOf'', ''oneOf'', ''allOf'', ''not'', ''enum'']"

text \<open>\<open>Inl\<close> is the reason why the tool is skipped.\<close>

definition safe_schema :: "string list \<Rightarrow> string \<Rightarrow> string + string" where
  "safe_schema secrets raw0 =
     (let raw = call_args raw0 in
      if length raw > max_schema_size then Inl (''input schema is larger than 65536 bytes'')
      else (case object_members raw of
          None \<Rightarrow> Inl ''input schema is not an object''
        | Some ms \<Rightarrow>
            (let m = map_of (rev ms) in
             if (case m ''type'' of Some t \<Rightarrow> trim_space t \<noteq> [CHR 0x22] @ ''object'' @ [CHR 0x22] | None \<Rightarrow> False)
             then Inl ''input schema does not describe an object''
             else (case List.find (\<lambda>c. m c \<noteq> None) combinators of
                 Some c \<Rightarrow> Inl (''input schema uses a top-level '' @ c)
               | None \<Rightarrow>
                   (let ms1 = ms @ [(''type'', [CHR 0x22] @ ''object'' @ [CHR 0x22])];
                        ms2 = (if m ''properties'' = None then ms1 @ [(''properties'', ''{}'')] else ms1);
                        schema = redact_text secrets (raw_object ms2)
                    in if unmarshal schema = None then Inl ''input schema cannot be encoded'' else Inr schema)))))"

subsection \<open>Selection\<close>

definition max_kind_length :: nat where "max_kind_length = 64"
definition max_description_size :: nat where "max_description_size = 2048"

definition tool_kind :: "string \<Rightarrow> string \<Rightarrow> action_kind" where
  "tool_kind server tool = ''mcp__'' @ server @ ''__'' @ tool"

record prepared_tool =
  pt_tool :: mcp_tool
  pt_kind :: action_kind

definition bounded_description :: "string list \<Rightarrow> string \<Rightarrow> string" where
  "bounded_description secrets d =
     (let t = redact_text secrets d in if length t > max_description_size then trim_valid (take max_description_size t) else t)"

definition prepare_tool :: "mcp_server \<Rightarrow> mcp_tool \<Rightarrow> string + prepared_tool" where
  "prepare_tool s t =
     (let kind = tool_kind (ms_name s) (mt_name t) in
      if \<not> tool_name_pattern (mt_name t) then Inl ''tool name has unsupported characters''
      else if length kind > max_kind_length then Inl ''full tool name is longer than 64 characters''
      else (case safe_schema (ms_secrets s) (mt_schema t) of
          Inl reason \<Rightarrow> Inl reason
        | Inr schema \<Rightarrow>
            Inr \<lparr>pt_tool = t\<lparr>mt_description := bounded_description (ms_secrets s) (mt_description t), mt_schema := schema\<rparr>, pt_kind = kind\<rparr>))"

record tool_info =
  ti_name :: string
  ti_readonly :: bool
  ti_status :: string

fun select_from :: "mcp_server \<Rightarrow> tool_filter \<Rightarrow> string list \<Rightarrow> mcp_tool list \<Rightarrow> prepared_tool list \<times> tool_info list" where
  "select_from s grant seen [] = ([], [])"
| "select_from s grant seen (t # ts) =
     (let info = (\<lambda>status. \<lparr>ti_name = mt_name t, ti_readonly = mt_readonly t, ti_status = status\<rparr>) in
      if \<not> filter_allows (server_filter (ms_config s)) (mt_name t) \<or> \<not> filter_allows grant (mt_name t)
      then map_prod id ((#) (info ''filtered'')) (select_from s grant seen ts)
      else (case prepare_tool s t of
          Inl reason \<Rightarrow> map_prod id ((#) (info (''skipped: '' @ reason))) (select_from s grant seen ts)
        | Inr p \<Rightarrow>
            if mt_name t \<in> set seen then map_prod id ((#) (info ''skipped: tool is listed twice'')) (select_from s grant seen ts)
            else map_prod ((#) p) ((#) (info ''available'')) (select_from s grant (mt_name t # seen) ts)))"

definition select_tools :: "mcp_server \<Rightarrow> tool_filter \<Rightarrow> mcp_tool list \<Rightarrow> prepared_tool list \<times> tool_info list" where
  "select_tools s grant ts = select_from s grant [] ts"

definition report_tools :: "mcp_manager \<Rightarrow> (mcp_server \<Rightarrow> session_error + mcp_tool list) \<Rightarrow> bool \<Rightarrow> string \<Rightarrow> error + tool_info list" where
  "report_tools m listing ended name =
     (case map_of (mm_servers m) name of
        None \<Rightarrow> Inl (''MCP server '' @ quoted name @ '' is not configured'')
      | Some s \<Rightarrow>
          if \<not> ms_connects s then Inl (''MCP server '' @ quoted name @ '' is disabled'')
          else (case listing s of
              Inl e \<Rightarrow> Inl (failure_text s ended e)
            | Inr ts \<Rightarrow> Inr (snd (select_tools s \<lparr>fl_enabled = [], fl_disabled = []\<rparr> ts))))"

subsection \<open>A run's plugin\<close>

record registered_tool =
  rg_mode :: string
  rg_readonly :: bool

text \<open>The world of a run's calls: how a call's attempts go, and whether its context has ended.\<close>

record call_world =
  cw_try :: "string \<Rightarrow> string \<Rightarrow> string \<Rightarrow> moment \<Rightarrow> nat \<Rightarrow> session_error + call_attempt"
  cw_ended :: "moment \<Rightarrow> bool"

definition mcp_payload :: "string \<Rightarrow> string \<Rightarrow> string" where
  "mcp_payload server tool =
     [CHR 0x7B] @ marshal (JString ''server'') @ '':'' @ marshal (JString server) @ '','' @ marshal (JString ''tool'') @ '':'' @ marshal (JString tool)
     @ [CHR 0x7D]"

definition answer_text :: "string list \<Rightarrow> remote_answer \<Rightarrow> string" where
  "answer_text secrets r =
     (let text = redact_text secrets (cr_text r); structured = redact_text secrets (cr_structured r) in
      if text = [] \<and> unmarshal structured \<noteq> None then structured else text)"

definition mcp_result :: "nat \<Rightarrow> mcp_server \<Rightarrow> string \<Rightarrow> remote_answer \<Rightarrow> tool_result" where
  "mcp_result limit s tool r =
     (let text = answer_text (ms_secrets s) r; payload = mcp_payload (ms_name s) tool in
      if length text + length payload > limit
      then zero_result\<lparr>tr_error := ''MCP server '' @ quoted (ms_name s) @ '': result exceeds '' @ show_nat limit @ '' bytes''\<rparr>
      else if cr_error r then zero_result\<lparr>tr_error := (if text = [] then ''tool reported an error'' else text), tr_payload := payload\<rparr>
      else zero_result\<lparr>tr_ok := True, tr_output := text, tr_payload := payload\<rparr>)"

definition mcp_handler :: "nat \<Rightarrow> call_world \<Rightarrow> mcp_server \<Rightarrow> string \<Rightarrow> tool_port" where
  "mcp_handler limit w s tool m a =
     Returned
       (case fst (call_tool (cw_try w (ms_name s) tool (call_args (act_args a)) m) 0) of
          Inl e \<Rightarrow> zero_result\<lparr>tr_error := failure_text s (cw_ended w m) e\<rparr>
        | Inr r \<Rightarrow> mcp_result limit s tool r) None"

definition approval_answer :: "registered_tool option \<Rightarrow> start_output" where
  "approval_answer r =
     (let answer = (\<lambda>p f reason. \<lparr>sto_common = silent_output, sto_permission = p, sto_fallback = f, sto_reason = reason,
                                sto_assessment = None, sto_updated_input = []\<rparr>) in
      case r of
        None \<Rightarrow> answer Unset Unset []
      | Some t \<Rightarrow>
          if rg_mode t = ''allow'' then answer Unset Unset []
          else if rg_mode t = ''auto'' then answer Unset Ask ''mcp_no_decision''
          else if rg_mode t = ''writes'' \<and> rg_readonly t then answer Unset Unset []
          else if rg_mode t = ''writes'' then answer Ask Unset ''mcp_write_approval''
          else answer Ask Unset ''mcp_approval'')"

definition approval_hook :: "(action_kind \<rightharpoonup> registered_tool) \<Rightarrow> moment \<Rightarrow> start_input \<Rightarrow> error option \<times> start_output" where
  "approval_hook registered m req = (None, approval_answer (registered (act_kind (si_action req))))"

record mcp_setup_state =
  su_core :: core
  su_registered :: "action_kind \<rightharpoonup> registered_tool"
  su_reasons :: "string list"
  su_missing :: "string list"

definition max_tools_per_server :: nat where "max_tools_per_server = 128"

fun granted_servers :: "mcp_manager option \<Rightarrow> string list \<Rightarrow> error + mcp_server list" where
  "granted_servers m [] = Inr []"
| "granted_servers m (n # ns) =
     (if \<not> is_configured m n then Inl (''mcp: granted server '' @ quoted n @ '' is not configured'')
      else and_then (granted_servers m ns) (\<lambda>es.
        let e = the (map_of (mm_servers (the m)) n) in Inr (if ms_connects e then e # es else es)))"

definition mcp_tool_def :: "nat \<Rightarrow> call_world \<Rightarrow> mcp_server \<Rightarrow> prepared_tool \<Rightarrow> tool_def" where
  "mcp_tool_def limit w s p =
     \<lparr>td_handler = Some (mcp_handler limit w s (mt_name (pt_tool p))), td_description = mt_description (pt_tool p), td_params = [],
      td_input_schema = mt_schema (pt_tool p),
      td_source = \<lparr>so_plugin_name = ''mcp'', so_plugin_version = [], so_capability = [], so_capability_version = 0,
                    so_executable = [], so_external = True, so_remote = True\<rparr>,
      td_resources = None\<rparr>"

fun register_tools :: "nat \<Rightarrow> call_world \<Rightarrow> mcp_server \<Rightarrow> prepared_tool list \<Rightarrow> mcp_setup_state \<Rightarrow> mcp_setup_state \<times> error option" where
  "register_tools limit w s [] st = (st, None)"
| "register_tools limit w s (p # ps) st =
     (case add_tool (pt_kind p) (mcp_tool_def limit w s p) (su_core st) of
        Inl e \<Rightarrow> (st, Some (''mcp server '' @ quoted (ms_name s) @ '': '' @ e))
      | Inr c \<Rightarrow> register_tools limit w s ps
          (st\<lparr>su_core := c, su_registered := (su_registered st)(pt_kind p \<mapsto>
               \<lparr>rg_mode = approval_mode (ms_config s), rg_readonly = mt_readonly (pt_tool p)\<rparr>)\<rparr>))"

definition unavailable :: "mcp_server \<Rightarrow> string \<Rightarrow> mcp_setup_state \<Rightarrow> mcp_setup_state" where
  "unavailable s reason st =
     st\<lparr>su_reasons := su_reasons st @ [reason],
        su_missing := su_missing st @ [''MCP server '' @ quoted (ms_name s) @ '' is unavailable in this run, so its tools are missing.'']\<rparr>"

definition setup_server :: "nat \<Rightarrow> call_world \<Rightarrow> (string \<times> tool_filter) list \<Rightarrow> mcp_server \<times> (session_error + mcp_tool list) \<Rightarrow> mcp_setup_state
    \<Rightarrow> mcp_setup_state \<times> error option" where
  "setup_server limit w grants = (\<lambda>(s, listed) st.
     case listed of
       Inl e \<Rightarrow> (unavailable s (failure_text s False e) st, None)
     | Inr ts \<Rightarrow>
         (let selected = fst (select_tools s (the (map_of grants (ms_name s))) ts) in
          if length selected > max_tools_per_server
          then (unavailable s (''MCP server '' @ quoted (ms_name s) @ '' offers '' @ show_nat (length selected)
                  @ '' tools, more than the limit of 128; narrow enabledTools'') st, None)
          else register_tools limit w s selected st))"

fun setup_servers :: "nat \<Rightarrow> call_world \<Rightarrow> (string \<times> tool_filter) list \<Rightarrow> (mcp_server \<times> (session_error + mcp_tool list)) list
    \<Rightarrow> mcp_setup_state \<Rightarrow> mcp_setup_state \<times> error option" where
  "setup_servers limit w grants [] st = (st, None)"
| "setup_servers limit w grants (x # xs) st =
     (case setup_server limit w grants x st of
        (st', Some e) \<Rightarrow> (st', Some e)
      | (st', None) \<Rightarrow> setup_servers limit w grants xs st')"

definition mcp_hooks :: "mcp_setup_state \<Rightarrow> hooks" where
  "mcp_hooks st =
     no_hooks\<lparr>on_tool_call_start := Some (approval_hook (su_registered st)),
       on_agent_start := (if su_reasons st = [] then None
         else Some (\<lambda>_ _. Inr \<lparr>ho_stop = False, ho_stop_reason = [], ho_system_message = join_on [newline] (su_reasons st),
                               ho_additional_context = join_on [newline] (su_missing st)\<rparr>))\<rparr>"

text \<open>\<open>listing\<close> is what connecting to a server gives within its deadline, \<open>ended\<close> whether the run's
  context has ended by then.\<close>

definition mcp_setup :: "mcp_manager option \<Rightarrow> call_world \<Rightarrow> (mcp_server \<Rightarrow> session_error + mcp_tool list) \<Rightarrow> error option
    \<Rightarrow> (string \<times> tool_filter) list \<Rightarrow> core \<Rightarrow> core \<times> error option" where
  "mcp_setup m w listing ended grants c =
     (case granted_servers m (sort (map fst grants)) of
        Inl e \<Rightarrow> (c, Some e)
      | Inr granted \<Rightarrow>
          if ended \<noteq> None then (c, ended)
          else (case setup_servers (case m of None \<Rightarrow> 0 | Some m \<Rightarrow> mm_max_result m) w grants (map (\<lambda>s. (s, listing s)) granted)
                  \<lparr>su_core = c, su_registered = Map.empty, su_reasons = [], su_missing = []\<rparr> of
              (st, Some e) \<Rightarrow> (su_core st, Some e)
            | (st, None) \<Rightarrow> (add_hooks (mcp_hooks st) (su_core st), None)))"

subsection \<open>Names of remote tools\<close>

definition split_kind :: "action_kind \<Rightarrow> (string \<times> string) option" where
  "split_kind k =
     (case cut_prefix k ''mcp__'' of
        None \<Rightarrow> None
      | Some r \<Rightarrow> map_option (\<lambda>i. (take i r, drop (i + 2) r)) (index_of ''__'' r))"

lemma server_name_index:
  assumes "server_name_ok s"
  shows "index_of ''__'' (s @ ''__'' @ t) = Some (length s)"
proof -
  have "index_of ''__'' (s @ ''__'' @ t) = Some (length s)"
    if "\<not> contains s ''__''" "s \<noteq> [] \<Longrightarrow> last s \<noteq> CHR ''_''" for s
    using that
  proof (induction s)
    case Nil
    then show ?case by (simp add: has_prefix_def)
  next
    case (Cons c s)
    have tail: "\<not> contains s ''__''" using Cons.prems(1) by (auto simp: contains_def split: if_splits)
    have "\<not> has_prefix (c # s @ ''__'' @ t) ''__''"
    proof (cases s)
      case Nil
      then show ?thesis using Cons.prems(2) by (simp add: has_prefix_def)
    next
      case (Cons d ds)
      then show ?thesis using Cons.prems(1) by (auto simp: has_prefix_def contains_def split: if_splits)
    qed
    then show ?case using Cons.IH [OF tail] Cons.prems(2) by (cases s) auto
  qed
  moreover have "last s \<noteq> CHR ''_''" if "s \<noteq> []"
    using assms by (auto simp: server_name_ok_def server_name_pattern_def lower_alnum_def is_digit_def byte_def)
  ultimately show ?thesis using assms by (simp add: server_name_ok_def)
qed

text \<open>The name under which a remote tool is registered says which server and which tool it is: for
  every valid server name it splits at the first double underscore after the prefix.\<close>

theorem remote_name_splits:
  assumes "server_name_ok server"
  shows "split_kind (tool_kind server tool) = Some (server, tool)"
  using server_name_index [OF assms, of tool]
  by (simp add: split_kind_def tool_kind_def cut_prefix_def has_prefix_def)

lemma remote_name_splits_witness: "split_kind (tool_kind ''git-hub'' ''__x'') = Some (''git-hub'', ''__x'')"
  by (rule remote_name_splits) code_simp

subsection \<open>A call runs at most once\<close>

text \<open>C35. A tool call is sent at most twice and its tool runs at most once: given that a request the
  server refused for its session, or that was never sent, did not run, at most one of the
  attempts ran, and the answer is that of the last attempt made.\<close>

theorem tool_runs_once:
  assumes "\<And>a. executed a \<Longrightarrow> ca_sent a \<and> \<not> ca_refused a"
  shows "length (filter executed (snd (call_tool attempt_at 0))) \<le> 1 \<and> length (snd (call_tool attempt_at 0)) \<le> 2
     \<and> (\<forall>r. fst (call_tool attempt_at 0) = Inr r \<longrightarrow>
          snd (call_tool attempt_at 0) \<noteq> [] \<and> ca_outcome (last (snd (call_tool attempt_at 0))) = Inr r)"
proof -
  have second: "length (snd (call_tool attempt_at 1)) \<le> 1 \<and> (\<forall>r. fst (call_tool attempt_at 1) = Inr r \<longrightarrow>
      snd (call_tool attempt_at 1) \<noteq> [] \<and> ca_outcome (last (snd (call_tool attempt_at 1))) = Inr r)"
    by (subst (1 2 3 4) call_tool.simps) (auto split: sum.splits)
  have few: "length (filter executed (snd (call_tool attempt_at 1))) \<le> 1"
    using second length_filter_le [of executed "snd (call_tool attempt_at 1)"] by linarith
  show ?thesis
  proof (cases "attempt_at 0")
    case (Inl e)
    then show ?thesis by (subst (1 2 3 4 5) call_tool.simps) simp
  next
    case (Inr a)
    show ?thesis
    proof (cases "\<exists>e. ca_outcome a = Inl e \<and> lost_session a \<and> (ca_refused a \<or> \<not> ca_sent a) \<and> \<not> ca_ended a")
      case True
      then have "call_tool attempt_at 0 = (fst (call_tool attempt_at 1), a # snd (call_tool attempt_at 1))"
        using Inr by (subst call_tool.simps) (auto simp: split_def Let_def)
      moreover have "\<not> executed a" using assms True by blast
      ultimately show ?thesis using second few by auto
    next
      case False
      then have "call_tool attempt_at 0 = (ca_outcome a, [a])"
        using Inr by (subst call_tool.simps) (auto split: sum.splits)
      then show ?thesis by simp
    qed
  qed
qed

lemma tool_runs_once_witness:
  "length (filter (\<lambda>a. ca_sent a \<and> \<not> ca_refused a) (snd (call_tool (\<lambda>n. Inr \<lparr>ca_outcome =
      (if n = 0 then Inl \<lparr>se_text = [], se_lost = True, se_deadline = False\<rparr> else Inr \<lparr>cr_text = [], cr_structured = [], cr_error = False\<rparr>),
      ca_sent = True, ca_refused = (n = 0), ca_ended = False\<rparr>) 0))) \<le> 1"
  using tool_runs_once [where executed = "\<lambda>a. ca_sent a \<and> \<not> ca_refused a" and attempt_at = "\<lambda>n. Inr \<lparr>ca_outcome =
      (if n = 0 then Inl \<lparr>se_text = [], se_lost = True, se_deadline = False\<rparr> else Inr \<lparr>cr_text = [], cr_structured = [], cr_error = False\<rparr>),
      ca_sent = True, ca_refused = (n = 0), ca_ended = False\<rparr>"] by blast

subsection \<open>What a run gets\<close>

lemma select_from_ok:
  "set (map (\<lambda>p. mt_name (pt_tool p)) (fst (select_from s grant seen ts))) \<inter> set seen = {}
   \<and> distinct (map (\<lambda>p. mt_name (pt_tool p)) (fst (select_from s grant seen ts)))
   \<and> (\<forall>p \<in> set (fst (select_from s grant seen ts)). pt_kind p = tool_kind (ms_name s) (mt_name (pt_tool p)) \<and> length (pt_kind p) \<le> 64
        \<and> filter_allows (server_filter (ms_config s)) (mt_name (pt_tool p)) \<and> filter_allows grant (mt_name (pt_tool p)))"
proof (induction ts arbitrary: seen)
  case (Cons t ts)
  have prep: "mt_name (pt_tool p) = mt_name t \<and> pt_kind p = tool_kind (ms_name s) (mt_name t) \<and> length (pt_kind p) \<le> 64"
    if "prepare_tool s t = Inr p" for p
    using that by (auto simp: prepare_tool_def Let_def max_kind_length_def split: if_splits sum.splits)
  show ?case
    using Cons.IH [of seen] Cons.IH [of "mt_name t # seen"] prep
    by (auto simp: Let_def split: sum.splits)
qed simp

lemma tool_kind_inject: "tool_kind s t = tool_kind s t' \<longleftrightarrow> t = t'"
  by (simp add: tool_kind_def)

lemma register_tools_ok:
  assumes "distinct (map pt_kind ps)" and "\<forall>p \<in> set ps. c_handlers (su_core st) (pt_kind p) = None"
    and "\<forall>p \<in> set ps. pt_kind p = tool_kind (ms_name s) (mt_name (pt_tool p))"
  shows "\<exists>st'. register_tools limit w s ps st = (st', None)
     \<and> (\<forall>k. k \<notin> pt_kind ` set ps \<longrightarrow> c_handlers (su_core st') k = c_handlers (su_core st) k \<and> su_registered st' k = su_registered st k)
     \<and> (\<forall>p \<in> set ps. \<exists>t. su_registered st' (pt_kind p) = Some t \<and> rg_mode t = approval_mode (ms_config s))
     \<and> c_hooks (su_core st') = c_hooks (su_core st)"
  using assms
proof (induction ps arbitrary: st)
  case (Cons p ps)
  obtain c where c: "add_tool (pt_kind p) (mcp_tool_def limit w s p) (su_core st) = Inr c" "c_hooks c = c_hooks (su_core st)"
    "\<forall>k. k \<noteq> pt_kind p \<longrightarrow> c_handlers c k = c_handlers (su_core st) k"
    using Cons.prems by (auto simp: add_tool_def has_tool_def mcp_tool_def_def tool_kind_def ActFinish_def)
  let ?st = "st\<lparr>su_core := c, su_registered := (su_registered st)(pt_kind p \<mapsto>
               \<lparr>rg_mode = approval_mode (ms_config s), rg_readonly = mt_readonly (pt_tool p)\<rparr>)\<rparr>"
  have "\<forall>q \<in> set ps. c_handlers (su_core ?st) (pt_kind q) = None"
    using Cons.prems(1,2) c(3) by (simp add: image_iff) metis
  with Cons.IH [of ?st] Cons.prems(1,3) obtain st' where st': "register_tools limit w s ps ?st = (st', None)"
    "\<forall>k. k \<notin> pt_kind ` set ps \<longrightarrow> c_handlers (su_core st') k = c_handlers c k \<and> su_registered st' k = su_registered ?st k"
    "\<forall>p \<in> set ps. \<exists>t. su_registered st' (pt_kind p) = Some t \<and> rg_mode t = approval_mode (ms_config s)"
    "c_hooks (su_core st') = c_hooks c" by auto
  have new: "\<exists>t. su_registered st' (pt_kind p) = Some t \<and> rg_mode t = approval_mode (ms_config s)"
    using st'(2) Cons.prems(1) by auto
  have reg: "register_tools limit w s (p # ps) st = (st', None)" using st'(1) c(1) by simp
  have "\<forall>k. k \<notin> pt_kind ` set (p # ps) \<longrightarrow> c_handlers (su_core st') k = c_handlers (su_core st) k \<and> su_registered st' k = su_registered st k"
    using st'(2) c(3) by simp
  with reg new st'(3,4) c(2) show ?case by auto
qed simp

text \<open>What every manager that was created satisfies.\<close>

definition manager_names_ok :: "mcp_manager \<Rightarrow> bool" where
  "manager_names_ok m \<longleftrightarrow> (\<forall>(n, e) \<in> set (mm_servers m). ms_name e = n \<and> server_name_ok n)"

lemma new_mcp_manager_names:
  assumes "new_mcp_manager parse loopback servers secrets limit = Inr m"
  shows "manager_names_ok m"
proof -
  obtain lim where valid: "validate_servers parse loopback servers = Inr ()"
    and entries: "fold_res (\<lambda>es s. and_then (open_entry parse secrets lim s) (\<lambda>e. Inr (es @ [(fst s, e)]))) [] (sort_key fst servers) = Inr (mm_servers m)"
    using assms by (auto simp: new_mcp_manager_def and_then_Inr_iff Let_def)
  have names: "server_name_ok n" if "(n, c) \<in> set servers" for n c
  proof -
    have "\<forall>x \<in> set xs. \<exists>n c. x = (n, c) \<and> server_name_ok n"
      if "fold_res (\<lambda>_ (name, c). case validate_server parse loopback name c of
          Inl e \<Rightarrow> Inl (''mcpServers.'' @ name @ '': '' @ e) | Inr _ \<Rightarrow> Inr ()) () xs = Inr ()" for xs
      using that by (induction xs) (auto simp: and_then_Inr_iff validate_server_def split: sum.splits if_splits)
    with valid have "\<forall>x \<in> set (sort_key fst servers). \<exists>n c. x = (n, c) \<and> server_name_ok n"
      unfolding validate_servers_def by blast
    with that show ?thesis by auto
  qed
  have "\<forall>(n, e) \<in> set es'. ms_name e = n \<and> server_name_ok n"
    if "fold_res (\<lambda>es s. and_then (open_entry parse secrets lim s) (\<lambda>e. Inr (es @ [(fst s, e)]))) es xs = Inr es'"
      "\<forall>(n, e) \<in> set es. ms_name e = n \<and> server_name_ok n" "\<forall>x \<in> set xs. server_name_ok (fst x)" for es es' xs
    using that
  proof (induction xs arbitrary: es)
    case (Cons x xs)
    then obtain e where e: "open_entry parse secrets lim x = Inr e"
      "fold_res (\<lambda>es s. and_then (open_entry parse secrets lim s) (\<lambda>e. Inr (es @ [(fst s, e)]))) (es @ [(fst x, e)]) xs = Inr es'"
      by (auto simp: and_then_Inr_iff)
    from e(1) have "ms_name e = fst x" by (auto simp: open_entry_def Let_def split: prod.splits sum.splits if_splits)
    then show ?case using Cons.IH [OF e(2)] Cons.prems(2,3) by auto
  qed simp
  moreover have "\<forall>x \<in> set (sort_key fst servers). server_name_ok (fst x)" using names by auto
  ultimately show ?thesis using entries unfolding manager_names_ok_def by (metis (no_types, lifting) empty_iff empty_set)
qed

text \<open>A kind that a grant may add, and the server it belongs to.\<close>

definition grantable :: "mcp_manager \<Rightarrow> (string \<times> tool_filter) list \<Rightarrow> mcp_server \<Rightarrow> action_kind \<Rightarrow> bool" where
  "grantable m grants e k \<longleftrightarrow>
     (\<exists>f t. map_of (mm_servers m) (ms_name e) = Some e \<and> ms_connects e \<and> map_of grants (ms_name e) = Some f
        \<and> k = tool_kind (ms_name e) t \<and> length k \<le> 64
        \<and> filter_allows (server_filter (ms_config e)) t \<and> filter_allows f t)"

definition registered_by :: "mcp_server list \<Rightarrow> mcp_manager \<Rightarrow> (string \<times> tool_filter) list \<Rightarrow> core \<Rightarrow> mcp_setup_state \<Rightarrow> bool" where
  "registered_by es m grants c st \<longleftrightarrow>
     c_hooks (su_core st) = c_hooks c
     \<and> (\<forall>k. c_handlers (su_core st) k \<noteq> c_handlers c k \<longrightarrow>
          (\<exists>e \<in> set es. grantable m grants e k \<and> (\<exists>t. su_registered st k = Some t \<and> rg_mode t = approval_mode (ms_config e))))"

lemma setup_server_ok:
  assumes reg: "registered_by es m grants c st" and e: "map_of (mm_servers m) (ms_name e) = Some e" "ms_connects e"
    "ms_name e \<notin> ms_name ` set es" "ms_name e \<in> fst ` set grants" and names: "\<forall>x \<in> insert e (set es). server_name_ok (ms_name x)"
    and free: "\<forall>k. c_handlers c (''mcp__'' @ k) = None"
  shows "\<exists>st'. setup_server limit w grants (e, listed) st = (st', None) \<and> registered_by (e # es) m grants c st'"
proof -
  have keep: "registered_by (e # es) m grants c st" using reg by (auto simp: registered_by_def)
  obtain f where f: "map_of grants (ms_name e) = Some f" using e(4) by (metis map_of_eq_None_iff option.exhaust)
  show ?thesis
  proof (cases listed)
    case (Inl err)
    then show ?thesis using keep by (simp add: setup_server_def unavailable_def registered_by_def)
  next
    case (Inr ts)
    let ?ps = "fst (select_tools e f ts)"
    note sel = select_from_ok [of e f "[]" ts, folded select_tools_def]
    show ?thesis
    proof (cases "length ?ps > max_tools_per_server")
      case True
      then show ?thesis using keep Inr f by (simp add: setup_server_def unavailable_def registered_by_def)
    next
      case False
      have "inj_on (tool_kind (ms_name e)) A" for A by (auto simp: inj_on_def tool_kind_inject)
      then have "distinct (map (tool_kind (ms_name e)) (map (\<lambda>p. mt_name (pt_tool p)) ?ps))"
        using sel by (simp only: distinct_map)
      moreover have "map (tool_kind (ms_name e)) (map (\<lambda>p. mt_name (pt_tool p)) ?ps) = map pt_kind ?ps" using sel by simp
      ultimately have "distinct (map pt_kind ?ps)" by (simp only:)
      moreover have "c_handlers (su_core st) (pt_kind p) = None" if "p \<in> set ?ps" for p
      proof (rule ccontr)
        have k: "pt_kind p = tool_kind (ms_name e) (mt_name (pt_tool p))" using sel that by blast
        assume "c_handlers (su_core st) (pt_kind p) \<noteq> None"
        then have "c_handlers (su_core st) (pt_kind p) \<noteq> c_handlers c (pt_kind p)" using free k by (simp add: tool_kind_def)
        then obtain e' t where "e' \<in> set es" "pt_kind p = tool_kind (ms_name e') t"
          using reg by (auto simp: registered_by_def grantable_def)
        with k have "tool_kind (ms_name e) (mt_name (pt_tool p)) = tool_kind (ms_name e') t" by simp
        moreover have "split_kind (tool_kind n t) = Some (n, t)" if "server_name_ok n" for n t
          using server_name_index [OF that, of t] by (simp add: split_kind_def tool_kind_def cut_prefix_def has_prefix_def)
        ultimately have "ms_name e = ms_name e'" using names \<open>e' \<in> set es\<close> by (metis fst_conv insert_iff option.inject)
        with e(3) \<open>e' \<in> set es\<close> show False by blast
      qed
      ultimately obtain st' where st': "register_tools limit w e ?ps st = (st', None)"
        "\<forall>k. k \<notin> pt_kind ` set ?ps \<longrightarrow> c_handlers (su_core st') k = c_handlers (su_core st) k \<and> su_registered st' k = su_registered st k"
        "\<forall>p \<in> set ?ps. \<exists>t. su_registered st' (pt_kind p) = Some t \<and> rg_mode t = approval_mode (ms_config e)"
        "c_hooks (su_core st') = c_hooks (su_core st)"
        using register_tools_ok [of ?ps st e limit w] sel by blast
      have new: "grantable m grants e (pt_kind p)" if "p \<in> set ?ps" for p
        using sel e(1,2) f that unfolding grantable_def by blast
      have "registered_by (e # es) m grants c st'"
        unfolding registered_by_def
      proof (intro conjI allI impI)
        show "c_hooks (su_core st') = c_hooks c" using st'(4) reg by (simp add: registered_by_def)
        fix k assume k: "c_handlers (su_core st') k \<noteq> c_handlers c k"
        show "\<exists>e' \<in> set (e # es). grantable m grants e' k \<and> (\<exists>t. su_registered st' k = Some t \<and> rg_mode t = approval_mode (ms_config e'))"
        proof (cases "k \<in> pt_kind ` set ?ps")
          case True
          then show ?thesis using new st'(3) by auto
        next
          case False
          then show ?thesis using k st'(2) reg unfolding registered_by_def by (metis list.set_intros(2))
        qed
      qed
      then show ?thesis using st'(1) Inr f False by (simp add: setup_server_def)
    qed
  qed
qed

lemma setup_servers_ok:
  assumes "registered_by es m grants c st" and "\<forall>x \<in> set xs. map_of (mm_servers m) (ms_name (fst x)) = Some (fst x) \<and> ms_connects (fst x)
      \<and> ms_name (fst x) \<in> fst ` set grants"
    and "distinct (map (ms_name \<circ> fst) xs)" and "ms_name ` set es \<inter> (ms_name \<circ> fst) ` set xs = {}"
    and "\<forall>e \<in> set es \<union> fst ` set xs. server_name_ok (ms_name e)" and free: "\<forall>k. c_handlers c (''mcp__'' @ k) = None"
  shows "\<exists>st'. setup_servers limit w grants xs st = (st', None) \<and> registered_by (rev (map fst xs) @ es) m grants c st'"
  using assms
proof (induction xs arbitrary: es st)
  case (Cons x xs)
  obtain e listed where x: "x = (e, listed)" by (cases x)
  have "\<exists>st'. setup_server limit w grants (e, listed) st = (st', None) \<and> registered_by (e # es) m grants c st'"
    using Cons.prems x by (intro setup_server_ok) auto
  then obtain st' where st': "setup_server limit w grants (e, listed) st = (st', None)" "registered_by (e # es) m grants c st'" by blast
  have "\<exists>st''. setup_servers limit w grants xs st' = (st'', None) \<and> registered_by (rev (map fst xs) @ e # es) m grants c st''"
    using Cons.prems x by (intro Cons.IH [OF st'(2)]) auto
  then show ?case using st'(1) x by auto
qed simp

lemma granted_servers_ok:
  assumes "granted_servers (Some m) ns = Inr es" and "manager_names_ok m" and "distinct ns"
  shows "(\<forall>e \<in> set es. map_of (mm_servers m) (ms_name e) = Some e \<and> ms_connects e \<and> ms_name e \<in> set ns \<and> server_name_ok (ms_name e))
     \<and> distinct (map ms_name es)"
  using assms(1,3)
proof (induction ns arbitrary: es)
  case (Cons n ns)
  then obtain es' e where es': "granted_servers (Some m) ns = Inr es'" and e: "map_of (mm_servers m) n = Some e"
    and es: "es = (if ms_connects e then e # es' else es')"
    by (auto simp: and_then_Inr_iff is_configured_def split: if_splits)
  have n: "n = ms_name e" "server_name_ok n" using assms(2) map_of_SomeD [OF e] by (auto simp: manager_names_ok_def)
  have ih: "(\<forall>e \<in> set es'. map_of (mm_servers m) (ms_name e) = Some e \<and> ms_connects e \<and> ms_name e \<in> set ns \<and> server_name_ok (ms_name e))
      \<and> distinct (map ms_name es')"
    using Cons.IH [OF es'] Cons.prems(2) by simp
  then have "ms_name e \<notin> ms_name ` set es'" using Cons.prems(2) n(1) by auto
  with ih e n show ?case unfolding es by (cases "ms_connects e") simp_all
qed simp

lemma granted_servers_total:
  assumes "\<forall>n \<in> set ns. is_configured m n"
  shows "\<exists>es. granted_servers m ns = Inr es"
  using assms by (induction ns) (auto simp: Let_def)

text \<open>The setup of a run succeeds when every granted server is configured, the listing did not
  end the run and no other plugin registered a name of this namespace. Every handler it adds
  is a tool of a connected, granted server which that server's filter and the grant's filter
  both admit, under a name of at most 64 bytes; the approval mode recorded for it is that of
  its server; and the one hook it adds answers the start of calls from that record.\<close>

theorem mcp_setup_registers:
  assumes "new_mcp_manager parse loopback servers secrets limit = Inr m"
    and "distinct (map fst grants)" and "\<forall>g \<in> set grants. is_configured (Some m) (fst g)"
    and "\<forall>k. c_handlers c (''mcp__'' @ k) = None"
  shows "\<exists>c' h registered. mcp_setup (Some m) w listing None grants c = (c', None)
     \<and> c_hooks c' = c_hooks c @ [h] \<and> on_tool_call_start h = Some (approval_hook registered)
     \<and> (\<forall>k. c_handlers c' k \<noteq> c_handlers c k \<longrightarrow>
          (\<exists>e t. grantable m grants e k \<and> registered k = Some t \<and> rg_mode t = approval_mode (ms_config e)))"
proof -
  have names: "manager_names_ok m" using new_mcp_manager_names [OF assms(1)] .
  have "\<forall>n \<in> set (sort (map fst grants)). is_configured (Some m) n" using assms(3) by auto
  then obtain es where es: "granted_servers (Some m) (sort (map fst grants)) = Inr es" using granted_servers_total by blast
  let ?xs = "map (\<lambda>s. (s, listing s)) es" and ?st = "\<lparr>su_core = c, su_registered = Map.empty, su_reasons = [], su_missing = []\<rparr>"
  note ok = granted_servers_ok [OF es names]
  have "\<exists>st'. setup_servers (mm_max_result m) w grants ?xs ?st = (st', None) \<and> registered_by (rev (map fst ?xs) @ []) m grants c st'"
    using ok assms(2,4) by (intro setup_servers_ok) (auto simp: registered_by_def comp_def)
  then obtain st where st: "setup_servers (mm_max_result m) w grants ?xs ?st = (st, None)" "registered_by (rev es) m grants c st"
    by (auto simp: comp_def)
  have "mcp_setup (Some m) w listing None grants c = (add_hooks (mcp_hooks st) (su_core st), None)"
    using es st(1) by (simp add: mcp_setup_def)
  moreover have "on_tool_call_start (mcp_hooks st) = Some (approval_hook (su_registered st))" by (simp add: mcp_hooks_def)
  ultimately show ?thesis using st(2) unfolding registered_by_def
    by (intro exI [of _ "add_hooks (mcp_hooks st) (su_core st)"] exI [of _ "mcp_hooks st"] exI [of _ "su_registered st"])
       (simp add: add_hooks_def, blast)
qed

definition sample_server :: "string \<times> server_config" where
  "sample_server =
     (''git'', \<lparr>mc_type = ''http'', mc_url = ''https://git.example'', mc_headers = [(''Authorization'', ''Bearer ${secret:t}'')], mc_enabled = None,
       mc_approval = ''writes'', mc_enabled_tools = [], mc_disabled_tools = [], mc_startup_sec = None, mc_tool_sec = Some 30,
       mc_command = [], mc_args = [], mc_env = [], mc_oauth = []\<rparr>)"

definition sample_parse :: "string \<Rightarrow> parsed_url option" where
  "sample_parse raw =
     Some \<lparr>pu_scheme = ''https'', pu_host = ''git.example'', pu_hostname = ''git.example'', pu_user = False, pu_fragment = [], pu_query = []\<rparr>"

definition sample_manager :: mcp_manager where
  "sample_manager =
     \<lparr>mm_servers = [(''git'', \<lparr>ms_name = ''git'', ms_config = snd sample_server, ms_connects = True,
         ms_headers = [(''Authorization'', ''Bearer abc'')], ms_secrets = [''abc''], ms_response_bytes = 8388608\<rparr>)], mm_max_result = 100\<rparr>"

definition sample_world :: call_world where
  "sample_world = \<lparr>cw_try = (\<lambda>_ _ _ _ _. Inl \<lparr>se_text = [], se_lost = False, se_deadline = False\<rparr>), cw_ended = (\<lambda>_. False)\<rparr>"

definition sample_listing :: "mcp_server \<Rightarrow> session_error + mcp_tool list" where
  "sample_listing s = Inr [\<lparr>mt_name = ''read'', mt_description = ''Read.'', mt_schema = ''{}'', mt_readonly = True\<rparr>]"

lemma mcp_setup_registers_witness:
  "\<exists>c' h. mcp_setup (Some sample_manager) sample_world sample_listing None [(''git'', \<lparr>fl_enabled = [], fl_disabled = []\<rparr>)]
      (new_core (\<lambda>_. None) (\<lambda>_. 0)) = (c', None) \<and> c_hooks c' = c_hooks (new_core (\<lambda>_. None) (\<lambda>_. 0)) @ [h]"
proof -
  have m: "new_mcp_manager sample_parse (\<lambda>_. False) [sample_server] [''t'' \<mapsto> ''abc''] 100 = Inr sample_manager" by code_simp
  have one: "distinct (map fst [(''git'', \<lparr>fl_enabled = [], fl_disabled = []\<rparr>)])" by simp
  have known: "\<forall>g \<in> set [(''git'', \<lparr>fl_enabled = [], fl_disabled = []\<rparr>)]. is_configured (Some sample_manager) (fst g)"
    by (simp add: is_configured_def sample_manager_def)
  have free: "\<forall>k. c_handlers (new_core (\<lambda>_. None) (\<lambda>_. 0)) (''mcp__'' @ k) = None" by (simp add: new_core_def)
  show ?thesis using mcp_setup_registers [OF m one known free, of sample_world sample_listing] by blast
qed

subsection \<open>The approval mode is respected\<close>

text \<open>C23. A call of a registered remote tool is allowed without asking only when its server's approval
  mode is allow, or is writes and the tool is annotated as read-only, or is auto and some
  start hook explicitly allowed the very call that will run.\<close>

theorem approval_respected:
  assumes "h \<in> set (c_hooks c)" and "on_tool_call_start h = Some (approval_hook registered)"
    and "registered (act_kind (si_action req)) = Some t"
    and "pd_permission (cd_decision (decide_tool_call c k idx req)) = Allow"
  shows "rg_mode t = ''allow'' \<or> rg_mode t = ''writes'' \<and> rg_readonly t
     \<or> rg_mode t = ''auto'' \<and> (\<exists>h' \<in> set (c_hooks c). \<exists>g r. on_tool_call_start h' = Some g
          \<and> fst (g (k, idx, r) (cd_input (decide_tool_call c k idx req))) = None
          \<and> sto_permission (snd (g (k, idx, r) (cd_input (decide_tool_call c k idx req)))) = Allow)"
proof -
  let ?inp = "cd_input (decide_tool_call c k idx req)"
  obtain r where "unanimous c (k, idx, r) ?inp"
    using decide_rounds_allow [OF assms(4) [unfolded decide_tool_call_def] order.refl]
    by (auto simp: decide_tool_call_def Let_def)
  then obtain out where out: "approval_hook registered (k, idx, r) ?inp = (None, out)" "no_objection (sto_permission out)"
    and fallback: "sto_permission out = Unset \<and> sto_fallback out \<noteq> Unset \<longrightarrow>
        (\<exists>h' \<in> set (c_hooks c). \<exists>g. on_tool_call_start h' = Some g
           \<and> fst (g (k, idx, r) ?inp) = None \<and> sto_permission (snd (g (k, idx, r) ?inp)) = Allow)"
    using assms(1,2) unfolding unanimous_def by blast
  have "act_kind (si_action ?inp) = act_kind (si_action req)"
    using same_call_decide [of req c k idx] by (simp add: same_call_def)
  then have answer: "out = approval_answer (Some t)" using out(1) assms(3) by (simp add: approval_hook_def)
  have "sto_permission out = Ask"
    if "rg_mode t \<noteq> ''allow''" "rg_mode t \<noteq> ''auto''" "\<not> (rg_mode t = ''writes'' \<and> rg_readonly t)"
    unfolding answer approval_answer_def Let_def using that by simp
  then consider "rg_mode t = ''allow''" | "rg_mode t = ''auto''" | "rg_mode t = ''writes'' \<and> rg_readonly t"
    | "sto_permission out = Ask" by blast
  then show ?thesis
  proof cases
    case 2
    then have "sto_permission out = Unset \<and> sto_fallback out \<noteq> Unset" unfolding answer approval_answer_def by (simp add: Let_def)
    with fallback 2 show ?thesis by blast
  next
    case 4
    with out(2) show ?thesis by (simp add: no_objection_def)
  qed simp_all
qed

definition approval_core :: core where
  "approval_core =
     (new_core (\<lambda>_. None) (\<lambda>_. 0))\<lparr>c_hooks := [no_hooks\<lparr>on_tool_call_start := Some (approval_hook
        [''mcp__git__read'' \<mapsto> \<lparr>rg_mode = ''writes'', rg_readonly = True\<rparr>])\<rparr>]\<rparr>"

lemma approval_respected_witness:
  "pd_permission (cd_decision (decide_tool_call approval_core 0 0 (sample_start ''mcp__git__read''))) = Allow
   \<and> (rg_mode \<lparr>rg_mode = ''writes'', rg_readonly = True\<rparr> = ''allow'' \<or> True)"
proof -
  have allowed: "pd_permission (cd_decision (decide_tool_call approval_core 0 0 (sample_start ''mcp__git__read''))) = Allow" by code_simp
  show ?thesis
    using approval_respected [of "hd (c_hooks approval_core)" approval_core "[''mcp__git__read'' \<mapsto> \<lparr>rg_mode = ''writes'', rg_readonly = True\<rparr>]",
        OF _ _ _ allowed] allowed by (simp add: approval_core_def sample_start_def)
qed

end
