(* ===== verification/Json_Round.thy ===== *)
theory Json_Round
  imports Json
begin

section \<open>What the JSON writer writes, the reader reads back\<close>

text \<open>
  Arguments of tool calls and the blocks of a conversation are stored as JSON and read back.
  This theory proves that the reader inverts the writer on every value it can write faithfully:
  strings that are valid UTF-8, numbers that are JSON numbers; of an object, each key's last
  value in byte order of the keys.
\<close>

subsection \<open>Strings\<close>

lemma rune_len_prefix: "rune_len s = Some k \<Longrightarrow> rune_len (take k s @ t) = Some k"
  by (cases s rule: rune_len.cases) (auto simp: rune_len.simps Let_def split: if_splits list.splits)

lemma append_single: "(@) [c] = (#) c"
  by (rule ext) simp

definition wide_separator :: "string \<Rightarrow> bool" where
  "wide_separator s \<longleftrightarrow> take 3 s = [CHR 0xE2, CHR 0x80, CHR 0xA8] \<or> take 3 s = [CHR 0xE2, CHR 0x80, CHR 0xA9]"

lemma escape_string_Cons: "\<not> wide_separator (c # s) \<Longrightarrow> escape_string (c # s) = escape_byte c @ escape_string s"
  by (cases s; cases "tl s") (auto simp: wide_separator_def)

lemma escape_byte_plain: "128 \<le> byte c \<Longrightarrow> escape_byte c = [c]"
proof -
  assume "128 \<le> byte c"
  moreover from this have "c \<notin> {CHR 0x22, CHR 0x5C, CHR 0x08, CHR 0x0C, CHR 0x0A, CHR 0x0D, CHR 0x09, CHR ''<'', CHR ''>'', CHR 0x26}"
    by (auto simp: byte_def)
  ultimately show ?thesis by (simp add: escape_byte_def)
qed

lemma char_of_byte: "char_of (byte c) = c"
  by (simp add: byte_def)

lemma parse_string_escape_byte:
  assumes "byte c < 128"
  shows "parse_string (Suc n) (escape_byte c @ t) = map_option (apfst ((#) c)) (parse_string n t)"
proof -
  have hex: "unicode_escape ([CHR ''0'', CHR ''0'', hex_digit (byte c div 16), hex_digit (byte c mod 16)] @ t) = Some ([c], t)"
  proof -
    have "hex_value (hex_digit (byte c div 16)) = Some (byte c div 16)" "hex_value (hex_digit (byte c mod 16)) = Some (byte c mod 16)"
      using assms by (auto intro!: hex_value_digit)
    moreover have "hex_value (CHR ''0'') = Some 0" by (simp add: hex_value_def byte_def)
    ultimately have "hex4 ([CHR ''0'', CHR ''0'', hex_digit (byte c div 16), hex_digit (byte c mod 16)] @ t) = Some (byte c, t)"
      by simp
    with assms show ?thesis by (simp add: unicode_escape_def utf8_encode_def char_of_byte)
  qed
  show ?thesis
  proof (cases "c \<in> {CHR 0x22, CHR 0x5C, CHR 0x08, CHR 0x0C, CHR 0x0A, CHR 0x0D, CHR 0x09}")
    case True
    then show ?thesis by (auto simp: escape_byte_def simple_escape_def)
  next
    case False
    show ?thesis
    proof (cases "byte c < 32 \<or> c \<in> {CHR ''<'', CHR ''>'', CHR 0x26}")
      case True
      then have "escape_byte c = [CHR 0x5C, CHR ''u'', CHR ''0'', CHR ''0'', hex_digit (byte c div 16), hex_digit (byte c mod 16)]"
        using False by (simp add: escape_byte_def)
      then show ?thesis using hex by (simp add: append_single)
    next
      case plain: False
      then have "escape_byte c = [c]" using False by (simp add: escape_byte_def)
      then show ?thesis using plain False assms by (simp add: rune_len.simps append_single)
    qed
  qed
qed

lemma escape_rune:
  assumes "rune_len s = Some k" "1 < k" "\<not> wide_separator s"
  shows "escape_string s = take k s @ escape_string (drop k s)"
proof -
  have high: "escape_string (c # u) = c # escape_string u" if "128 \<le> byte c" "c \<noteq> CHR 0xE2" for c u
    using that escape_string_Cons [of c u] by (auto simp: wide_separator_def escape_byte_plain)
  have first: "escape_string (c # u) = c # escape_string u" if "128 \<le> byte c" "s = c # u" for c u
    using that escape_string_Cons [of c u] assms(3) by (auto simp: escape_byte_plain)
  have cont: "128 \<le> byte c \<and> c \<noteq> CHR 0xE2" if "cont_byte lo hi c" "128 \<le> lo" "hi \<le> 191" for c lo hi
    using that by (auto simp: cont_byte_def byte_def)
  show ?thesis
    using assms(1,2)
    by (cases s rule: rune_len.cases) (auto simp: rune_len.simps Let_def first high simp del: escape_string.simps dest!: cont split: if_splits list.splits)
qed

lemma parse_string_rune:
  assumes "rune_len s = Some k" "1 < k"
  shows "parse_string (Suc n) (take k s @ t) = map_option (apfst ((@) (take k s))) (parse_string n t)"
proof -
  obtain c u where s: "s = c # u" using assms(1) by (cases s) (auto simp: rune_len.simps)
  have high: "128 \<le> byte c" using assms s by (auto simp: rune_len.simps Let_def split: if_splits)
  then have other: "c \<noteq> CHR 0x22" "c \<noteq> CHR 0x5C" "\<not> byte c < 32" by (auto simp: byte_def)
  obtain k' where k: "k = Suc k'" using assms(2) by (cases k) auto
  have len: "rune_len (take k s @ t) = Some k" by (rule rune_len_prefix [OF assms(1)])
  have "min (length s) k = k" using rune_len_bounds [OF assms(1)] by simp
  then show ?thesis using len other unfolding s k by simp
qed

lemma parse_string_separator:
  "parse_string (Suc n) ([CHR 0x5C, CHR ''u'', CHR ''2'', CHR ''0'', CHR ''2'', if b then CHR ''8'' else CHR ''9''] @ t)
     = map_option (apfst ((@) [CHR 0xE2, CHR 0x80, if b then CHR 0xA8 else CHR 0xA9])) (parse_string n t)"
  by (cases b) (simp_all add: unicode_escape_def hex_value_def byte_def utf8_encode_def char_of_def bit_iff_odd)

lemma escape_separator:
  assumes "wide_separator s"
  obtains b where "s = [CHR 0xE2, CHR 0x80, if b then CHR 0xA8 else CHR 0xA9] @ drop 3 s"
    and "escape_string s = [CHR 0x5C, CHR ''u'', CHR ''2'', CHR ''0'', CHR ''2'', if b then CHR ''8'' else CHR ''9''] @ escape_string (drop 3 s)"
proof -
  have "s = take 3 s @ drop 3 s" by simp
  with assms consider "s = [CHR 0xE2, CHR 0x80, CHR 0xA8] @ drop 3 s" | "s = [CHR 0xE2, CHR 0x80, CHR 0xA9] @ drop 3 s"
    unfolding wide_separator_def by metis
  then show thesis
  proof cases
    case 1
    then have "escape_string s = escape_string (CHR 0xE2 # CHR 0x80 # CHR 0xA8 # drop 3 s)" by simp
    then show ?thesis using that [of True] 1 by simp
  next
    case 2
    then have "escape_string s = escape_string (CHR 0xE2 # CHR 0x80 # CHR 0xA9 # drop 3 s)" by simp
    then show ?thesis using that [of False] 2 by simp
  qed
qed

lemma parse_escaped:
  assumes "valid_utf8_fuel m s" and "length s < n"
  shows "parse_string n (escape_string s @ CHR 0x22 # t) = Some (s, t)"
  using assms
proof (induction m arbitrary: s n)
  case 0
  then show ?case by (cases n) auto
next
  case (Suc m)
  obtain n' where n: "n = Suc n'" using Suc.prems(2) by (cases n) auto
  show ?case
  proof (cases "s = []")
    case True
    then show ?thesis by (simp add: n)
  next
    case False
    then obtain k where k: "rune_len s = Some k" and rest: "valid_utf8_fuel m (drop k s)" using Suc.prems(1) by (auto split: option.splits)
    have bounds: "0 < k" "k \<le> length s" using rune_len_bounds [OF k] by auto
    then have ih: "parse_string n' (escape_string (drop k s) @ CHR 0x22 # t) = Some (drop k s, t)"
      using Suc.IH [OF rest, of n'] Suc.prems(2) n by simp
    show ?thesis
    proof (cases "wide_separator s")
      case True
      then obtain b where b: "s = [CHR 0xE2, CHR 0x80, if b then CHR 0xA8 else CHR 0xA9] @ drop 3 s"
        "escape_string s = [CHR 0x5C, CHR ''u'', CHR ''2'', CHR ''0'', CHR ''2'', if b then CHR ''8'' else CHR ''9''] @ escape_string (drop 3 s)"
        by (rule escape_separator)
      have "rune_len ([CHR 0xE2, CHR 0x80, if b then CHR 0xA8 else CHR 0xA9] @ drop 3 s) = Some 3"
        by (cases b) (simp_all add: rune_len.simps byte_def cont_byte_def)
      then have "k = 3" using k b(1) by simp
      then show ?thesis
        using ih b unfolding n b(2) append_assoc parse_string_separator
        by (metis (no_types, lifting) apfst_conv option.simps(9))
    next
      case plain: False
      show ?thesis
      proof (cases "k = 1")
        case True
        obtain c u where s: "s = c # u" using False by (cases s) auto
        have "byte c < 128" using k True s by (auto simp: rune_len.simps Let_def split: if_splits list.splits)
        then show ?thesis using ih True plain unfolding s n escape_string_Cons [OF plain [unfolded s]] append_assoc
          by (simp add: parse_string_escape_byte del: parse_string.simps)
      next
        case False
        with bounds have "1 < k" by simp
        then show ?thesis using ih unfolding n escape_rune [OF k \<open>1 < k\<close> plain] append_assoc
          by (simp add: parse_string_rune [OF k] del: parse_string.simps)
      qed
    qed
  qed
qed

lemma escape_string_length: "length s \<le> length (escape_string s)"
proof (induction s rule: escape_string.induct)
  case (1 a b c r)
  have "1 \<le> length (escape_byte a)" by (simp add: escape_byte_def)
  with 1 show ?case by auto
next
  case "2_1"
  then show ?case by simp
next
  case "2_2"
  then show ?case by (simp add: escape_byte_def)
next
  case "2_3"
  then show ?case by (simp add: escape_byte_def)
qed

lemma parse_quoted:
  assumes "valid_utf8 s"
  shows "parse_string (length (escape_string s @ CHR 0x22 # t)) (escape_string s @ CHR 0x22 # t) = Some (s, t)"
  using assms escape_string_length [of s] unfolding valid_utf8_def by (intro parse_escaped) auto

declare parse_string.simps [simp del]

subsection \<open>Numbers\<close>

text \<open>What may follow a value inside a text.\<close>

definition value_end :: "string \<Rightarrow> bool" where
  "value_end t \<longleftrightarrow> t = [] \<or> hd t \<in> {CHR '','', CHR 0x5D, CHR 0x7D} \<or> json_space (hd t)"

lemma value_end_no_digit: "value_end t \<Longrightarrow> takeWhile is_digit t = [] \<and> dropWhile is_digit t = t"
  by (cases t) (auto simp: value_end_def is_digit_def byte_def json_space_def)

lemma digits_append:
  assumes "value_end t"
  shows "takeWhile is_digit (s @ t) = takeWhile is_digit s" "dropWhile is_digit (s @ t) = dropWhile is_digit s @ t"
  using value_end_no_digit [OF assms] by (induction s) auto

lemma parse_digits_append: "value_end t \<Longrightarrow> parse_digits s = Some (d, r) \<Longrightarrow> parse_digits (s @ t) = Some (d, r @ t)"
  by (auto simp: parse_digits_def digits_append split: if_splits)

lemma parse_int_append: "value_end t \<Longrightarrow> parse_int_part s = Some (d, r) \<Longrightarrow> parse_int_part (s @ t) = Some (d, r @ t)"
  by (cases s) (auto simp: parse_int_part_def digits_append split: if_splits)

lemma parse_frac_append:
  assumes "value_end t" and "parse_frac s = Some (d, r)"
  shows "parse_frac (s @ t) = Some (d, r @ t)"
proof (cases s)
  case Nil
  with assms show ?thesis by (cases t) (auto simp: parse_frac_def value_end_def json_space_def)
next
  case (Cons c u)
  with assms show ?thesis
    by (cases "parse_digits u") (auto simp: parse_frac_def parse_digits_append split: if_splits)
qed

lemma parse_exp_append:
  assumes "value_end t" and "parse_exp s = Some (d, r)"
  shows "parse_exp (s @ t) = Some (d, r @ t)"
proof (cases s)
  case Nil
  with assms show ?thesis by (cases t) (auto simp: parse_exp_def value_end_def json_space_def)
next
  case s: (Cons c u)
  show ?thesis
  proof (cases u)
    case Nil
    with s assms show ?thesis by (auto simp: parse_exp_def split: if_splits)
  next
    case (Cons e v)
    with s assms show ?thesis
      by (auto simp: parse_exp_def split: if_splits
          dest!: parse_digits_append [OF assms(1), of v] parse_digits_append [OF assms(1), of "e # v"])
  qed
qed

lemma parse_number_append:
  assumes "value_end t" and "parse_number s = Some (d, r)"
  shows "parse_number (s @ t) = Some (d, r @ t)"
proof -
  obtain c u where s: "s = c # u" using assms(2) by (cases s) (auto simp: parse_number_def parse_int_part_def)
  let ?sign = "if c = CHR ''-'' then [c] else []" and ?s1 = "if c = CHR ''-'' then u else s"
  obtain i s2 f s3 e where parts: "parse_int_part ?s1 = Some (i, s2)" "parse_frac s2 = Some (f, s3)" "parse_exp s3 = Some (e, r)"
    "d = ?sign @ i @ f @ e"
    using assms(2) s by (auto simp: parse_number_def split: option.splits if_splits)
  have "parse_int_part (?s1 @ t) = Some (i, s2 @ t)" using parse_int_append [OF assms(1) parts(1)] .
  then show ?thesis
    using parts(4) parse_frac_append [OF assms(1) parts(2)] parse_exp_append [OF assms(1) parts(3)] s
    by (auto simp: parse_number_def)
qed

lemma number_first:
  assumes "parse_number s = Some (d, r)"
  shows "s \<noteq> [] \<and> (hd s = CHR ''-'' \<or> is_digit (hd s))"
  using assms by (cases s) (auto simp: parse_number_def parse_int_part_def is_digit_def byte_def split: if_splits)

subsection \<open>Values\<close>

fun json_ok :: "json \<Rightarrow> bool" where
  "json_ok (JNumber x) \<longleftrightarrow> parse_number x = Some (x, [])"
| "json_ok (JString s) \<longleftrightarrow> valid_utf8 s"
| "json_ok (JArray vs) \<longleftrightarrow> list_all json_ok vs"
| "json_ok (JObject ms) \<longleftrightarrow> list_all (\<lambda>(k, v). valid_utf8 k \<and> json_ok v) ms"
| "json_ok _ \<longleftrightarrow> True"

text \<open>The value that the written form stands for: keys sorted, each with its last value.\<close>

fun canon :: "json \<Rightarrow> json" where
  "canon (JArray vs) = JArray (map canon vs)"
| "canon (JObject ms) = JObject (canonical_members (map (\<lambda>(k, v). (k, canon v)) ms))"
| "canon v = v"

lemma canonical_members_map: "canonical_members (map (\<lambda>(k, v). (k, f v)) ms) = map (\<lambda>(k, v). (k, f v)) (canonical_members ms)"
proof -
  have keys: "map fst (map (\<lambda>(k, v). (k, f v)) ms) = map fst ms" by auto
  have lookup: "map_of (rev (map (\<lambda>(k, v). (k, f v)) ms)) k = map_option f (map_of (rev ms) k)" for k
    by (simp add: rev_map map_of_map)
  have "canonical_members (map (\<lambda>(k, v). (k, f v)) ms) = map (\<lambda>k. (k, the (map_option f (map_of (rev ms) k)))) (sort (remdups (map fst ms)))"
    unfolding canonical_members_def keys lookup ..
  also have "\<dots> = map (\<lambda>k. (k, f (the (map_of (rev ms) k)))) (sort (remdups (map fst ms)))"
  proof (rule map_cong [OF refl])
    fix k assume "k \<in> set (sort (remdups (map fst ms)))"
    then have "map_of (rev ms) k \<noteq> None" by (auto simp: map_of_eq_None_iff)
    then show "(k, the (map_option f (map_of (rev ms) k))) = (k, f (the (map_of (rev ms) k)))" by auto
  qed
  finally show ?thesis by (simp add: canonical_members_def comp_def)
qed

lemma canonical_members_subset: "set (canonical_members ms) \<subseteq> set ms"
proof
  fix x assume "x \<in> set (canonical_members ms)"
  then obtain k where k: "k \<in> set (map fst ms)" "x = (k, the (map_of (rev ms) k))" by (auto simp: canonical_members_def)
  then have "map_of (rev ms) k \<noteq> None" by (auto simp: map_of_eq_None_iff)
  then obtain v where "map_of (rev ms) k = Some v" by blast
  with k(2) map_of_SomeD [OF this] show "x \<in> set ms" by simp
qed

lemma marshal_object:
  "marshal (JObject ms) = [CHR 0x7B] @ join_on '','' (map (\<lambda>(k, v). [CHR 0x22] @ escape_string k @ [CHR 0x22] @ '':'' @ marshal v)
     (canonical_members ms)) @ [CHR 0x7D]"
  unfolding marshal.simps canonical_members_map map_map by (simp add: comp_def case_prod_unfold)

lemma marshal_first: "json_ok v \<Longrightarrow> \<exists>c u. marshal v = c # u \<and> \<not> json_space c \<and> c \<noteq> CHR 0x5D \<and> c \<noteq> CHR 0x7D"
proof (cases v)
  case (JNumber x)
  assume "json_ok v"
  with JNumber number_first [of x x "[]"] show ?thesis
    by (cases x) (auto simp: json_space_def is_digit_def byte_def)
qed (auto simp: json_space_def)

definition reads :: "json \<Rightarrow> bool" where
  "reads v \<longleftrightarrow> (\<forall>t. value_end t \<longrightarrow> (\<exists>n0. \<forall>n \<ge> n0. parse_value n (marshal v @ t) = Some (canon v, t)))"

lemma reads_at: "reads v \<Longrightarrow> value_end t \<Longrightarrow> \<exists>n0. \<forall>n \<ge> n0. parse_value n (marshal v @ t) = Some (canon v, t)"
  by (simp add: reads_def)

lemma reads_from:
  assumes "\<And>t n. value_end t \<Longrightarrow> parse_value (Suc n) (marshal v @ t) = Some (canon v, t)"
  shows "reads v"
  unfolding reads_def
proof (intro allI impI exI [of _ 1])
  fix t n assume "value_end t" "1 \<le> (n :: nat)"
  with assms show "parse_value n (marshal v @ t) = Some (canon v, t)" by (cases n) auto
qed

lemma value_end_simps [simp]: "value_end (CHR '','' # t)" "value_end (CHR 0x5D # t)" "value_end (CHR 0x7D # t)"
  by (simp_all add: value_end_def)

lemma reads_elements:
  assumes "vs \<noteq> []" and "\<forall>v \<in> set vs. reads v"
  shows "\<exists>n0. \<forall>n \<ge> n0. parse_elements n (join_on '','' (map marshal vs) @ CHR 0x5D # t) = Some (map canon vs, t)"
  using assms
proof (induction vs rule: induct_list012)
  case (2 v)
  have "reads v" using 2 by simp
  then obtain n0 where n0: "\<And>n. n \<ge> n0 \<Longrightarrow> parse_value n (marshal v @ CHR 0x5D # t) = Some (canon v, CHR 0x5D # t)"
    using reads_at [OF _ value_end_simps(2)] by blast
  have "parse_elements (Suc n) (marshal v @ CHR 0x5D # t) = Some ([canon v], t)" if "n \<ge> n0" for n
    using n0 [OF that] by (simp add: parse_elements.simps skip_ws_def json_space_def)
  then have "parse_elements n (marshal v @ CHR 0x5D # t) = Some ([canon v], t)" if "n \<ge> Suc n0" for n
    using that by (cases n) auto
  then show ?case by auto
next
  case (3 v w vs)
  let ?t = "join_on '','' (map marshal (w # vs)) @ CHR 0x5D # t"
  obtain n1 where n1: "\<And>n. n \<ge> n1 \<Longrightarrow> parse_elements n ?t = Some (map canon (w # vs), t)"
    using 3 by auto
  have "reads v" using 3 by simp
  then obtain n0 where n0: "\<And>n. n \<ge> n0 \<Longrightarrow> parse_value n (marshal v @ CHR '','' # ?t) = Some (canon v, CHR '','' # ?t)"
    using reads_at [OF _ value_end_simps(1)] by blast
  have split: "join_on '','' (map marshal (v # w # vs)) @ CHR 0x5D # t = marshal v @ CHR '','' # ?t" by simp
  have "parse_elements (Suc n) (marshal v @ CHR '','' # ?t) = Some (map canon (v # w # vs), t)" if "n \<ge> max n0 n1" for n
    using n0 [of n] n1 [of n] that by (simp add: parse_elements.simps skip_ws_def json_space_def)
  then have "parse_elements n (marshal v @ CHR '','' # ?t) = Some (map canon (v # w # vs), t)" if "n \<ge> Suc (max n0 n1)" for n
    using that by (cases n) auto
  then show ?case unfolding split by blast
qed simp

definition member_text :: "string \<times> json \<Rightarrow> string" where
  "member_text = (\<lambda>(k, v). [CHR 0x22] @ escape_string k @ [CHR 0x22] @ '':'' @ marshal v)"

lemma reads_members:
  assumes "ms \<noteq> []" and "\<forall>(k, v) \<in> set ms. valid_utf8 k \<and> reads v"
  shows "\<exists>n0. \<forall>n \<ge> n0. parse_members n (join_on '','' (map member_text ms) @ CHR 0x7D # t) = Some (map (\<lambda>(k, v). (k, canon v)) ms, t)"
  using assms
proof (induction ms rule: induct_list012)
  case (2 m)
  obtain k v where m: "m = (k, v)" by (cases m)
  have "reads v" using 2 m by simp
  then obtain n0 where n0: "\<And>n. n \<ge> n0 \<Longrightarrow> parse_value n (marshal v @ CHR 0x7D # t) = Some (canon v, CHR 0x7D # t)"
    using reads_at [OF _ value_end_simps(3)] by blast
  have "parse_members (Suc n) (member_text m @ CHR 0x7D # t) = Some ([(k, canon v)], t)" if "n \<ge> n0" for n
    using n0 [OF that] parse_quoted [of k "CHR '':'' # marshal v @ CHR 0x7D # t"] 2 m
    by (simp add: parse_members.simps member_text_def skip_ws_def json_space_def)
  then have "parse_members n (member_text m @ CHR 0x7D # t) = Some ([(k, canon v)], t)" if "n \<ge> Suc n0" for n
    using that by (cases n) auto
  then show ?case using m by auto
next
  case (3 m m' ms)
  obtain k v where m: "m = (k, v)" by (cases m)
  let ?t = "join_on '','' (map member_text (m' # ms)) @ CHR 0x7D # t"
  obtain n1 where n1: "\<And>n. n \<ge> n1 \<Longrightarrow> parse_members n ?t = Some (map (\<lambda>(k, v). (k, canon v)) (m' # ms), t)"
    using 3 by auto
  have "reads v" using 3 m by simp
  then obtain n0 where n0: "\<And>n. n \<ge> n0 \<Longrightarrow> parse_value n (marshal v @ CHR '','' # ?t) = Some (canon v, CHR '','' # ?t)"
    using reads_at [OF _ value_end_simps(1)] by blast
  have split: "join_on '','' (map member_text (m # m' # ms)) @ CHR 0x7D # t = member_text m @ CHR '','' # ?t" by simp
  have "parse_members (Suc n) (member_text m @ CHR '','' # ?t) = Some (map (\<lambda>(k, v). (k, canon v)) (m # m' # ms), t)" if "n \<ge> max n0 n1" for n
    using n0 [of n] n1 [of n] that parse_quoted [of k "CHR '':'' # marshal v @ CHR '','' # ?t"] 3 m
    by (simp add: parse_members.simps member_text_def skip_ws_def json_space_def)
  then have "parse_members n (member_text m @ CHR '','' # ?t) = Some (map (\<lambda>(k, v). (k, canon v)) (m # m' # ms), t)" if "n \<ge> Suc (max n0 n1)" for n
    using that by (cases n) auto
  then show ?case unfolding split by blast
qed simp

lemma reads_number:
  assumes "parse_number x = Some (x, [])"
  shows "reads (JNumber x)"
proof (rule reads_from)
  fix t n assume "value_end t"
  then have all: "parse_number (x @ t) = Some (x, t)" using parse_number_append [OF _ assms] by simp
  obtain c u where x: "x = c # u" using number_first [OF assms] by (cases x) auto
  have "c = CHR ''-'' \<or> is_digit c" using number_first [OF assms] x by simp
  then have "\<not> json_space c" "c \<noteq> CHR 0x7B" "c \<noteq> CHR 0x5B" "c \<noteq> CHR 0x22" "c \<noteq> CHR ''n''" "c \<noteq> CHR ''t''" "c \<noteq> CHR ''f''"
    by (auto simp: json_space_def is_digit_def byte_def)
  with all x show "parse_value (Suc n) (marshal (JNumber x) @ t) = Some (canon (JNumber x), t)"
    by (simp add: parse_value.simps skip_ws_def)
qed

lemma reads_array:
  assumes "\<forall>v \<in> set vs. reads v \<and> json_ok v"
  shows "reads (JArray vs)"
proof (cases vs)
  case Nil
  then show ?thesis by (intro reads_from) (simp add: parse_value.simps skip_ws_def json_space_def)
next
  case (Cons v ws)
  show ?thesis
    unfolding reads_def
  proof (intro allI impI)
    fix t :: string
    let ?r = "join_on '','' (map marshal vs) @ CHR 0x5D # t"
    obtain n0 where n0: "\<And>n. n \<ge> n0 \<Longrightarrow> parse_elements n ?r = Some (map canon vs, t)"
      using reads_elements [of vs t] assms Cons by auto
    have "json_ok v" using assms Cons by simp
    then obtain c u where c: "marshal v = c # u" "\<not> json_space c" "c \<noteq> CHR 0x5D" using marshal_first [of v] by blast
    then obtain u' where r: "?r = c # u'" using Cons by (cases ws) auto
    have "parse_value (Suc n) (marshal (JArray vs) @ t) = Some (canon (JArray vs), t)" if "n \<ge> n0" for n
      using n0 [OF that] r c by (simp add: parse_value.simps skip_ws_def json_space_def)
    then have "parse_value n (marshal (JArray vs) @ t) = Some (canon (JArray vs), t)" if "n \<ge> Suc n0" for n
      using that by (cases n) auto
    then show "\<exists>n0. \<forall>n \<ge> n0. parse_value n (marshal (JArray vs) @ t) = Some (canon (JArray vs), t)" by blast
  qed
qed

lemma reads_object:
  assumes "\<forall>(k, v) \<in> set ms. valid_utf8 k \<and> reads v"
  shows "reads (JObject ms)"
proof -
  let ?ms = "canonical_members ms"
  have written: "marshal (JObject ms) @ t = CHR 0x7B # join_on '','' (map member_text ?ms) @ CHR 0x7D # t" for t
    unfolding marshal_object member_text_def by simp
  have val: "canon (JObject ms) = JObject (map (\<lambda>(k, v). (k, canon v)) ?ms)" by (simp add: canonical_members_map)
  show ?thesis
  proof (cases ?ms)
    case Nil
    show ?thesis by (rule reads_from) (simp only: written val Nil, simp add: parse_value.simps skip_ws_def json_space_def)
  next
    case (Cons m ms')
    have all: "\<forall>(k, v) \<in> set ?ms. valid_utf8 k \<and> reads v" using assms canonical_members_subset [of ms] by blast
    show ?thesis
      unfolding reads_def
    proof (intro allI impI)
      fix t :: string
      let ?r = "join_on '','' (map member_text ?ms) @ CHR 0x7D # t"
      obtain n0 where n0: "\<And>n. n \<ge> n0 \<Longrightarrow> parse_members n ?r = Some (map (\<lambda>(k, v). (k, canon v)) ?ms, t)"
        using reads_members [OF _ all, of t] Cons by auto
      obtain k v where m: "m = (k, v)" by (cases m)
      obtain u' where r: "?r = CHR 0x22 # u'" using Cons m by (cases ms') (auto simp: member_text_def)
      have "parse_value (Suc n) (CHR 0x7B # ?r) = Some (JObject (map (\<lambda>(k, v). (k, canon v)) ?ms), t)" if "n \<ge> n0" for n
        using n0 [OF that] unfolding r by (simp add: parse_value.simps skip_ws_def json_space_def)
      then have "parse_value n (CHR 0x7B # ?r) = Some (JObject (map (\<lambda>(k, v). (k, canon v)) ?ms), t)" if "n \<ge> Suc n0" for n
        using that by (cases n) auto
      then show "\<exists>n0. \<forall>n \<ge> n0. parse_value n (marshal (JObject ms) @ t) = Some (canon (JObject ms), t)"
        unfolding written val by blast
    qed
  qed
qed

lemma json_reads: "json_ok v \<Longrightarrow> reads v"
proof (induction v)
  case (JString s)
  show ?case
    by (rule reads_from) (use JString parse_quoted [of s] in \<open>simp add: parse_value.simps skip_ws_def json_space_def\<close>)
next
  case (JArray vs)
  then show ?case by (intro reads_array) (auto simp: list_all_iff)
next
  case (JObject ms)
  have "valid_utf8 k \<and> reads v" if "(k, v) \<in> set ms" for k v
    using JObject.IH [OF that, of v] JObject.prems that by (auto simp: list_all_iff)
  then show ?case by (intro reads_object) blast
qed (auto intro!: reads_from simp: parse_value.simps skip_ws_def json_space_def reads_number)

text \<open>Reading back what was written gives the value in canonical form.\<close>

lemma unmarshal_marshal:
  assumes "json_ok v"
  shows "unmarshal (marshal v) = Some (canon v)"
proof -
  obtain n0 where n0: "\<And>n. n \<ge> n0 \<Longrightarrow> parse_value n (marshal v) = Some (canon v, [])"
    using reads_at [OF json_reads [OF assms], of "[]"] by (auto simp: value_end_def)
  have "parse_value (parse_fuel (marshal v)) (marshal v) = parse_value (max n0 (parse_fuel (marshal v))) (marshal v)"
    using parse_value_fuel [of "marshal v" "max n0 (parse_fuel (marshal v))"] by simp
  then show ?thesis using n0 [of "max n0 (parse_fuel (marshal v))"] by (simp add: unmarshal_def skip_ws_def)
qed

subsection \<open>The canonical form\<close>

lemma canonical_members_keys: "map fst (canonical_members ms) = sort (remdups (map fst ms))"
  by (simp add: canonical_members_def comp_def)

lemma canonical_members_idem [simp]: "canonical_members (canonical_members ms) = canonical_members ms"
proof -
  let ?ks = "sort (remdups (map fst ms))" and ?g = "\<lambda>k. the (map_of (rev ms) k)"
  have "map_of (rev (canonical_members ms)) k = Some (?g k)" if "k \<in> set ?ks" for k
    using that by (simp add: canonical_members_def rev_map map_of_map_restrict restrict_map_def)
  then have "map (\<lambda>k. (k, the (map_of (rev (canonical_members ms)) k))) ?ks = canonical_members ms"
    unfolding canonical_members_def [of ms] by (intro map_cong) auto
  moreover have "sort (remdups ?ks) = ?ks" by (simp add: distinct_remdups_id sorted_sort_id)
  ultimately show ?thesis
    unfolding canonical_members_def [of "canonical_members ms"] canonical_members_keys by simp
qed

lemma marshal_canon: "marshal (canon v) = marshal v"
proof (induction v)
  case (JObject ms)
  have "canonical_members (map (\<lambda>(k, v). (k, canon v)) ms) = map (\<lambda>(k, v). (k, canon v)) (canonical_members ms)"
    by (rule canonical_members_map)
  moreover have "map (\<lambda>(k, v). [CHR 0x22] @ escape_string k @ [CHR 0x22] @ '':'' @ marshal v) (map (\<lambda>(k, v). (k, canon v)) (canonical_members ms))
      = map (\<lambda>(k, v). [CHR 0x22] @ escape_string k @ [CHR 0x22] @ '':'' @ marshal v) (canonical_members ms)"
    using JObject.IH canonical_members_subset [of ms] by (auto 4 3)
  ultimately show ?case unfolding canon.simps marshal_object canonical_members_idem by (simp only:)
qed (simp_all cong: map_cong)

end
