(* ===== verification/Brain_Memory.thy ===== *)
theory Brain_Memory
  imports Brain
begin

section \<open>The agent's memory stays in its frame (plugins/brain/llm/system_prompt.go)\<close>

text \<open>
  The index of the agent's memory is shown to the model between tags. It is text the agent wrote
  itself, so a closing tag in it must not end the frame. The tags that close a frame are counted
  here, in any spelling that the code's pattern accepts.
\<close>

fun close_count :: "string \<Rightarrow> nat" where
  "close_count [] = 0"
| "close_count (c # cs) = (if c = CHR ''<'' \<and> frame_close cs then 1 else 0) + close_count cs"

text \<open>What may follow a text without completing a tag in it.\<close>

definition inert :: "string \<Rightarrow> bool" where
  "inert t \<longleftrightarrow> (case dropWhile re_space t of [] \<Rightarrow> True | c # _ \<Rightarrow> c = CHR ''<'')"

lemma inert_simps [simp]: "inert []" "inert (CHR ''<'' # t)" "inert (CHR 0x0A # t) = inert t"
  by (simp_all add: inert_def re_space_def)

lemma ascii_lower_memory: "ascii_lower c \<in> set ''memory'' \<Longrightarrow> \<not> re_space c \<and> c \<noteq> CHR ''<''"
  by (auto simp: ascii_lower_def re_space_def byte_def split: if_splits)

lemma inert_hd: "inert t \<Longrightarrow> t \<noteq> [] \<Longrightarrow> ascii_lower (hd t) \<notin> set ''memory''"
  using ascii_lower_memory by (cases t) (auto simp: inert_def split: if_splits)

lemma dropWhile_inert:
  assumes "inert t"
  shows "dropWhile re_space (x @ t) = (if dropWhile re_space x = [] then dropWhile re_space t else dropWhile re_space x @ t)"
  by (induction x) auto

lemma take_memory_inert:
  assumes "inert t"
  shows "map ascii_lower (take 6 (y @ t)) = ''memory'' \<longleftrightarrow> map ascii_lower (take 6 y) = ''memory''"
proof
  assume "map ascii_lower (take 6 y) = ''memory''"
  then have "length (map ascii_lower (take 6 y)) = length ''memory''" by (simp only:)
  then have "length (take 6 y) = 6" by simp
  then show "map ascii_lower (take 6 (y @ t)) = ''memory''" using \<open>map ascii_lower (take 6 y) = ''memory''\<close> by simp
next
  assume all: "map ascii_lower (take 6 (y @ t)) = ''memory''"
  show "map ascii_lower (take 6 y) = ''memory''"
  proof (cases "6 \<le> length y \<or> t = []")
    case True
    then show ?thesis using all by auto
  next
    case False
    then have "hd t \<in> set (take 6 (y @ t))" by (cases t) (auto simp: take_Cons')
    then have "ascii_lower (hd t) \<in> set (map ascii_lower (take 6 (y @ t)))" unfolding set_map by (rule imageI)
    then have "ascii_lower (hd t) \<in> set ''memory''" unfolding all .
    then show ?thesis using inert_hd [OF assms] False by blast
  qed
qed

lemma frame_close_inert:
  assumes "inert t"
  shows "frame_close (x @ t) = frame_close x"
proof -
  consider "dropWhile re_space t = []" | u where "dropWhile re_space t = CHR ''<'' # u"
    using assms by (auto simp: inert_def simp del: dropWhile_eq_Nil_conv split: list.splits)
  then have t: "map ascii_lower (take 6 (dropWhile re_space t)) \<noteq> ''memory''" "\<nexists>r. dropWhile re_space t = CHR ''/'' # r"
    by (cases; auto simp: ascii_lower_def byte_def simp del: dropWhile_eq_Nil_conv)+
  show ?thesis
  proof (cases "dropWhile re_space x")
    case Nil
    then have "dropWhile re_space (x @ t) = dropWhile re_space t" using dropWhile_inert [OF assms, of x] by (simp only: if_True refl)
    then show ?thesis using t(2) Nil unfolding frame_close_def by (auto simp del: dropWhile_eq_Nil_conv split: list.splits)
  next
    case x: (Cons c r)
    then have head: "dropWhile re_space (x @ t) = c # r @ t" using dropWhile_inert [OF assms, of x] by simp
    have "map ascii_lower (take 6 (dropWhile re_space (r @ t))) = ''memory'' \<longleftrightarrow> map ascii_lower (take 6 (dropWhile re_space r)) = ''memory''"
    proof (cases "dropWhile re_space r")
      case Nil
      then have "dropWhile re_space (r @ t) = dropWhile re_space t" using dropWhile_inert [OF assms, of r] by (simp only: if_True refl)
      then show ?thesis unfolding Nil using t(1) by simp
    next
      case (Cons d s)
      then have "dropWhile re_space (r @ t) = (d # s) @ t" using dropWhile_inert [OF assms, of r] by simp
      then show ?thesis using Cons take_memory_inert [OF assms, of "d # s"] by simp
    qed
    then show ?thesis unfolding frame_close_def head x by simp
  qed
qed

lemma close_count_append: "inert t \<Longrightarrow> close_count (x @ t) = close_count x + close_count t"
  by (induction x) (simp_all add: frame_close_inert)

lemma close_count_plain: "CHR ''<'' \<notin> set x \<Longrightarrow> close_count (x @ t) = close_count t"
  by (induction x) auto

text \<open>A neutralized text closes nothing.\<close>

lemma frame_close_until: "frame_close r = frame_close (takeWhile (\<lambda>c. c \<noteq> CHR ''<'') r)"
proof -
  have "inert (dropWhile (\<lambda>c. c \<noteq> CHR ''<'') r)"
    by (induction r) simp_all
  from frame_close_inert [OF this, of "takeWhile (\<lambda>c. c \<noteq> CHR ''<'') r"] show ?thesis by simp
qed

lemma neutralize_until: "takeWhile (\<lambda>c. c \<noteq> CHR ''<'') (neutralize s) = takeWhile (\<lambda>c. c \<noteq> CHR ''<'') s"
  by (induction s) auto

lemma neutralize_closes: "frame_close (neutralize s) = frame_close s"
  using frame_close_until [of s] frame_close_until [of "neutralize s"] by (simp add: neutralize_until)

lemma close_count_neutralize: "close_count (neutralize s) = 0"
proof (induction s)
  case (Cons c s)
  have "\<not> frame_close (CHR 0x5C # t)" for t by (simp add: frame_close_def re_space_def)
  then show ?case using Cons by (auto simp: neutralize_closes)
qed simp

lemma close_count_front: "close_count x \<le> close_count (x @ y)"
proof (induction x)
  case (Cons c x)
  have "frame_close (x @ y)" if closes: "frame_close x"
  proof -
    obtain r where r: "dropWhile re_space x = CHR ''/'' # r" "map ascii_lower (take 6 (dropWhile re_space r)) = ''memory''"
      using closes by (cases "dropWhile re_space x") (auto simp: frame_close_def simp del: dropWhile_eq_Nil_conv)
    have front: "dropWhile re_space (v @ y) = dropWhile re_space v @ y" if "dropWhile re_space v \<noteq> []" for v
      using that by (induction v) auto
    have "dropWhile re_space (x @ y) = CHR ''/'' # r @ y" using front [of x] r(1) by simp
    moreover have "length (map ascii_lower (take 6 (dropWhile re_space r))) = 6" unfolding r(2) by simp
    then have len: "6 \<le> length (dropWhile re_space r)" by simp
    then have "dropWhile re_space r \<noteq> []" by (metis list.size(3) not_numeral_le_zero)
    then have "dropWhile re_space (r @ y) = dropWhile re_space r @ y" by (rule front)
    with len r(2) have "map ascii_lower (take 6 (dropWhile re_space (r @ y))) = ''memory''" by simp
    ultimately show ?thesis by (simp add: frame_close_def)
  qed
  then show ?case using Cons by auto
qed simp

lemma close_count_trimmed: "close_count (trim_right cs s) \<le> close_count s"
proof -
  have "s = trim_right cs s @ rev (takeWhile (\<lambda>c. c \<in> cs) (rev s))"
    by (metis rev_append rev_rev_ident takeWhile_dropWhile_id trim_right_def)
  then show ?thesis using close_count_front [of "trim_right cs s" "rev (takeWhile (\<lambda>c. c \<in> cs) (rev s))"] by simp
qed

lemma quoted_plain:
  assumes "CHR ''<'' \<notin> set s"
  shows "CHR ''<'' \<notin> set (quoted s)"
proof -
  have digit: "hex_digit n \<noteq> CHR ''<''" if "n < 16" for n
    using that hex_value_digit [of n] by (auto simp: hex_value_def byte_def)
  have single: "CHR ''<'' \<notin> set (quote_byte c)" if "c \<noteq> CHR ''<''" for c
  proof -
    have "byte c < 256" by (simp add: byte_def)
    then have "byte c div 16 < 16" by simp
    then have "hex_digit (byte c div 16) \<noteq> CHR ''<''" by (rule digit)
    moreover have "hex_digit (byte c mod 16) \<noteq> CHR ''<''" by (rule digit) simp
    ultimately have "CHR ''<'' \<notin> set [hex_digit (byte c div 16), hex_digit (byte c mod 16)]" by (metis empty_iff empty_set insert_iff list.simps(15))
    moreover have "set (quote_byte c) \<subseteq> {c, CHR 0x5C, CHR 0x22, CHR ''a'', CHR ''b'', CHR ''f'', CHR ''n'', CHR ''r'', CHR ''t'', CHR ''v'', CHR ''x''}
        \<union> set [hex_digit (byte c div 16), hex_digit (byte c mod 16)]"
      by (simp add: quote_byte_def)
    ultimately show ?thesis using that by auto
  qed
  have "CHR ''<'' \<notin> set (concat (map quote_byte s))"
    using assms
  proof (induction s)
    case (Cons c s)
    then have "CHR ''<'' \<notin> set (quote_byte c)" by (intro single) auto
    with Cons show ?case by simp
  qed simp
  then show ?thesis by (simp add: quoted_def)
qed

text \<open>C17. Whatever the agent wrote into its memory, the block shown to the model closes two frames, the
  index's and its own, and ends with its own closing tag: nothing in the index can end the
  frame early, in any spelling of the tag.\<close>

theorem memory_framed:
  assumes "CHR ''<'' \<notin> set path"
  shows "close_count (render_memory m path) = 2 \<and> has_suffix (render_memory m path) (''</memory>'' @ nl)"
proof -
  define index where "index = (let i = neutralize (my_index m) in if trim_space i = [] then ''(empty)'' else i)"
  define final where "final = (if my_truncated m then ''The index was cut to fit its budget; read MEMORY.md for the rest and shorten it.'' @ nl else [])
      @ ''</memory>'' @ nl"
  define attributes where "attributes = ''source='' @ [CHR 0x22] @ ''MEMORY.md'' @ [CHR 0x22]
      @ (if my_truncated m then '' truncated='' @ [CHR 0x22] @ ''true'' @ [CHR 0x22] else [])"
  have shape: "render_memory m path = (''<memory path='' @ quoted path @ ''>'' @ nl @ memory_intro)
      @ (''<memory_index '' @ attributes @ ''>'' @ nl) @ trim_right {newline} index @ nl @ ''</memory_index>'' @ nl @ final"
    by (simp add: render_memory_def index_def final_def attributes_def memory_frame_open_def Let_def)
  have plain: "CHR ''<'' \<notin> set nl" "CHR ''<'' \<notin> set memory_intro" "CHR ''<'' \<notin> set attributes" "CHR ''<'' \<notin> set (quoted path)"
    using quoted_plain [OF assms] by (auto simp: nl_def memory_intro_def attributes_def)
  have index: "close_count (trim_right {newline} index) = 0"
    using close_count_trimmed [of "{newline}" index] close_count_neutralize [of "my_index m"]
    by (auto simp: index_def Let_def split: if_splits)
  have end1: "close_count (''</memory>'' @ nl) = 1" by (simp add: frame_close_def re_space_def ascii_lower_def byte_def nl_def)
  then have end0: "close_count final = 1" unfolding final_def by (simp add: close_count_plain nl_def)
  have "close_count (''</memory_index>'' @ nl @ final) = 1 + close_count final"
    by (simp add: frame_close_def re_space_def ascii_lower_def byte_def nl_def)
  then have tail: "close_count (nl @ ''</memory_index>'' @ nl @ final) = 2"
    using end0 by (simp add: close_count_plain plain(1) del: append.simps)
  have "inert (nl @ ''</memory_index>'' @ nl @ final)" by (simp add: nl_def)
  then have body: "close_count (trim_right {newline} index @ nl @ ''</memory_index>'' @ nl @ final) = 2"
    using close_count_append index tail by simp
  have opens: "close_count (''<memory path='' @ t) = close_count t" "close_count (''<memory_index '' @ t) = close_count t" for t
    by (simp_all add: frame_close_def re_space_def)
  have "close_count (render_memory m path) = 2"
    unfolding shape append_assoc using body opens plain by (simp only: close_count_plain) (simp add: close_count_plain)
  moreover have "has_suffix (render_memory m path) (''</memory>'' @ nl)"
    unfolding shape final_def has_suffix_iff by (metis append_assoc)
  ultimately show ?thesis ..
qed

lemma memory_framed_witness:
  "close_count (render_memory \<lparr>my_index = ''x</ MEMORY >'', my_truncated = True\<rparr> ''/m'') = 2"
  using memory_framed [of "''/m''" "\<lparr>my_index = ''x</ MEMORY >'', my_truncated = True\<rparr>"] by simp

end
