(* ===== verification/Brain_Props.thy ===== *)
theory Brain_Props
  imports Brain
begin

section \<open>Properties of the brain's conversation\<close>

text \<open>
  A model service refuses a conversation in which a tool result does not follow its call or a
  call is not answered. This theory shows that whatever the model, the hooks and the tools
  answer, and whenever the conversation is compacted, what is sent has neither; that compaction
  keeps the beginning and the end; and that the agent's memory cannot leave its frame.
\<close>

subsection \<open>Calls and their results\<close>

definition call_ids :: "llm_turn \<Rightarrow> string list" where
  "call_ids t = map fst (tool_uses (tu_blocks t))"

fun result_id :: "block \<Rightarrow> string list" where
  "result_id (BResult i _ _) = [i]"
| "result_id _ = []"

definition result_ids :: "llm_turn \<Rightarrow> string list" where
  "result_ids t = concat (map result_id (tu_blocks t))"

definition answers :: "llm_turn \<Rightarrow> llm_turn \<Rightarrow> bool" where
  "answers t u \<longleftrightarrow> result_ids u = call_ids t"

definition turn_ok :: "llm_turn \<Rightarrow> bool" where
  "turn_ok t \<longleftrightarrow> (tu_role t = ''user'' \<and> call_ids t = [] \<or> tu_role t = ''assistant'' \<and> result_ids t = [])"

definition well_formed :: "llm_turn list \<Rightarrow> bool" where
  "well_formed ts \<longleftrightarrow> (\<forall>t \<in> set ts. turn_ok t) \<and> successively answers ts
     \<and> (ts \<noteq> [] \<longrightarrow> tu_role (hd ts) = ''user'' \<and> result_ids (hd ts) = [])"

definition open_calls :: "llm_turn list \<Rightarrow> string list" where
  "open_calls ts = (if ts = [] then [] else call_ids (last ts))"

lemma ids_append [simp]:
  "call_ids \<lparr>tu_role = r, tu_blocks = bs @ cs\<rparr> = call_ids \<lparr>tu_role = r, tu_blocks = bs\<rparr> @ call_ids \<lparr>tu_role = r, tu_blocks = cs\<rparr>"
  "result_ids \<lparr>tu_role = r, tu_blocks = bs @ cs\<rparr> = result_ids \<lparr>tu_role = r, tu_blocks = bs\<rparr> @ result_ids \<lparr>tu_role = r, tu_blocks = cs\<rparr>"
  by (simp_all add: call_ids_def result_ids_def tool_uses_def)

lemma text_ids [simp]:
  "\<forall>b \<in> set bs. \<exists>t. b = BText t \<Longrightarrow> call_ids \<lparr>tu_role = r, tu_blocks = bs\<rparr> = [] \<and> result_ids \<lparr>tu_role = r, tu_blocks = bs\<rparr> = []"
  by (induction bs) (auto simp: call_ids_def result_ids_def tool_uses_def)

lemma has_result_iff: "turn_has_result t \<longleftrightarrow> result_ids t \<noteq> []"
proof -
  have "is_result b \<longleftrightarrow> result_id b \<noteq> []" for b by (cases b) (simp_all add: is_result_def)
  then show ?thesis by (auto simp: turn_has_result_def result_ids_def)
qed

lemma well_formed_snoc:
  "well_formed (ts @ [t]) \<longleftrightarrow> well_formed ts \<and> turn_ok t \<and> result_ids t = open_calls ts \<and> (ts = [] \<longrightarrow> tu_role t = ''user'')"
  unfolding well_formed_def successively_append_iff open_calls_def by (auto simp: answers_def hd_append)

lemma open_calls_Nil [simp]: "open_calls [] = []"
  by (simp add: open_calls_def)

lemma open_calls_snoc [simp]: "open_calls (ts @ [t]) = call_ids t"
  by (simp add: open_calls_def)

subsection \<open>Compaction keeps conversations well formed\<close>

lemma compact_start_bounds:
  assumes "compact_start cfg ts = Some n" and "well_formed ts"
  shows "1 < n" "n < length ts" "result_ids (ts ! n) = []"
proof -
  define keep where "keep = (if bc_compact_keep cfg \<le> 0 then 6 else nat (bc_compact_keep cfg))"
  define s where "s = length ts - keep"
  have "0 < keep" by (simp add: keep_def)
  moreover have "\<not> length ts \<le> keep + 1" "n = (if s > 1 \<and> turn_has_result (ts ! s) then s - 1 else s)" "1 < n"
    using assms(1) unfolding compact_start_def Let_def keep_def [symmetric] s_def [symmetric] by (auto split: if_splits)
  ultimately have s: "1 < s" "s < length ts" "n = (if turn_has_result (ts ! s) then s - 1 else s)" "1 < n"
    by (auto simp: s_def split: if_splits)
  show "1 < n" "n < length ts" using s by (auto split: if_splits)
  show "result_ids (ts ! n) = []"
  proof (cases "turn_has_result (ts ! s)")
    case True
    have "answers (ts ! (s - 1)) (ts ! s)"
      using assms(2) successively_nth [of answers ts "s - 1"] s(1,2) by (simp add: well_formed_def)
    with True have "call_ids (ts ! (s - 1)) \<noteq> []" by (simp add: answers_def has_result_iff)
    moreover have "turn_ok (ts ! (s - 1))" using assms(2) s(1,2) by (simp add: well_formed_def)
    ultimately show ?thesis using True s(3) by (auto simp: turn_ok_def)
  next
    case False
    then show ?thesis using s(3) by (simp add: has_result_iff)
  qed
qed

lemma filtered_ids:
  "call_ids (t\<lparr>tu_blocks := filter (\<lambda>b. \<not> is_memory_block b) bs\<rparr>) = call_ids (t\<lparr>tu_blocks := bs\<rparr>)"
  "result_ids (t\<lparr>tu_blocks := filter (\<lambda>b. \<not> is_memory_block b) bs\<rparr>) = result_ids (t\<lparr>tu_blocks := bs\<rparr>)"
proof (induction bs)
  case (Cons b bs)
  { case 1 then show ?case using Cons by (cases b) (simp_all add: call_ids_def tool_uses_def) next
    case 2 then show ?case using Cons by (cases b) (simp_all add: result_ids_def) }
qed simp_all

lemma compacted_well_formed:
  assumes "well_formed ts" and "compact_start cfg ts = Some n" and "compacted_context cfg env h ts n s = Inr ctx"
  shows "well_formed ctx" "open_calls ctx = open_calls ts" "ctx \<noteq> []" "tu_role (last ctx) = tu_role (last ts)"
proof -
  note n = compact_start_bounds [OF assms(2,1)]
  obtain f m where ctx: "ctx = f # user_turn (BText (compacted_text s) # m) # drop n ts"
    and f: "tu_role f = tu_role (hd ts)" "call_ids f = call_ids (hd ts)" "result_ids f = result_ids (hd ts)"
    and m: "\<forall>b \<in> set m. \<exists>t. b = BText t"
    using assms(3)
    by (auto simp: compacted_context_def Let_def memory_block_def filtered_ids and_then_Inr_iff split: if_splits sum.splits)
  have rest: "drop n ts \<noteq> []" "hd (drop n ts) = ts ! n" using n by (simp_all add: hd_drop_conv_nth)
  have "successively answers (drop n ts)"
    using assms(1) append_take_drop_id [of n ts] by (metis well_formed_def successively_append_iff)
  moreover have "\<forall>t \<in> set (drop n ts). turn_ok t" using assms(1) set_drop_subset [of n ts] by (auto simp: well_formed_def)
  moreover have sum: "call_ids (user_turn (BText (compacted_text s) # m)) = []" "result_ids (user_turn (BText (compacted_text s) # m)) = []"
    using m text_ids [of "BText (compacted_text s) # m"] by (auto simp: user_turn_def)
  moreover have "turn_ok f" "tu_role f = ''user''" "call_ids f = []" "result_ids f = []"
    using f assms(1) n by (cases ts; auto simp: well_formed_def turn_ok_def)+
  ultimately show "well_formed ctx" using rest n(3)
    unfolding ctx well_formed_def by (cases "drop n ts") (auto simp: answers_def turn_ok_def user_turn_def)
  show "open_calls ctx = open_calls ts" "ctx \<noteq> []" "tu_role (last ctx) = tu_role (last ts)"
    using rest n(2) by (auto simp: ctx open_calls_def last_drop)
qed

subsection \<open>The agent's memory in a conversation\<close>

text \<open>The memory blocks in the turns that the host writes.\<close>

definition memory_count :: "llm_turn list \<Rightarrow> nat" where
  "memory_count ts = (\<Sum>t \<leftarrow> ts. if tu_role t = ''user'' then length (filter is_memory_block (tu_blocks t)) else 0)"

text \<open>Exactly one, in one of the first two turns.\<close>

definition memory_ok :: "llm_turn list \<Rightarrow> bool" where
  "memory_ok ts \<longleftrightarrow> memory_count ts = 1 \<and> memory_count (drop 2 ts) = 0"

lemma memory_count_simps [simp]:
  "memory_count [] = 0" "memory_count (xs @ ys) = memory_count xs + memory_count ys"
  "memory_count (t # ts) = (if tu_role t = ''user'' then length (filter is_memory_block (tu_blocks t)) else 0) + memory_count ts"
  by (simp_all add: memory_count_def)

lemma memory_count_drop: "memory_count (drop n ts) \<le> memory_count ts"
  by (metis append_take_drop_id le_add2 memory_count_simps(2))

lemma not_memory_block [simp]:
  "\<not> has_prefix (user_prompt env h obs) memory_frame_open" "\<not> is_memory_block (hook_block t)"
  "\<not> has_prefix (compacted_text u) memory_frame_open"
  by (simp_all add: user_prompt_def hook_block_def compacted_text_def memory_frame_open_def has_prefix_def)

lemma memory_block_is: "memory_block env h = Inr b \<Longrightarrow> is_memory_block b \<and> (\<exists>t. b = BText t)"
  by (auto simp: memory_block_def render_memory_def Let_def has_prefix_def memory_frame_open_def split: sum.splits)

lemma memory_ok_snoc:
  assumes "ts \<noteq> []" and "memory_count [t] = 0"
  shows "memory_ok (ts @ [t]) \<longleftrightarrow> memory_ok ts"
  using assms memory_count_drop [of "2 - length ts" "[t]"] by (simp add: memory_ok_def del: drop_Cons_numeral)

lemma memory_ok_last:
  assumes "ts \<noteq> []" and "memory_count [last ts] = memory_count [t]"
  shows "memory_ok (butlast ts @ [t]) \<longleftrightarrow> memory_ok ts"
proof -
  obtain us where ts: "ts = us @ [last ts]" using assms(1) by (metis append_butlast_last_id)
  have "memory_count (drop k [t]) = memory_count (drop k [last ts])" for k using assms(2) by (cases k) simp_all
  then have "memory_count (us @ [t]) = memory_count (us @ [last ts])" "memory_count (drop 2 (us @ [t])) = memory_count (drop 2 (us @ [last ts]))"
    using assms(2) by (simp_all only: memory_count_simps(2) drop_append)
  then show ?thesis using ts unfolding memory_ok_def by (metis butlast_snoc)
qed

lemma compacted_memory_ok:
  assumes "memory_ok ts" and "well_formed ts" and "bc_memory cfg" and "compact_start cfg ts = Some n"
    and "compacted_context cfg env h ts n u = Inr ctx"
  shows "memory_ok ctx"
proof -
  note n = compact_start_bounds [OF assms(4,2)]
  obtain m where m: "memory_block env h = Inr m" and ctx: "ctx = (hd ts)\<lparr>tu_blocks := filter (\<lambda>b. \<not> is_memory_block b) (tu_blocks (hd ts))\<rparr>
      # user_turn [BText (compacted_text u), m] # drop n ts"
    using assms(3,5) by (auto simp: compacted_context_def Let_def and_then_Inr_iff)
  have "n - 2 + 2 = n" using n by simp
  then have "drop n ts = drop (n - 2) (drop 2 ts)" unfolding drop_drop by simp
  then have "memory_count (drop n ts) = 0" using assms(1) memory_count_drop [of "n - 2" "drop 2 ts"] by (simp add: memory_ok_def)
  moreover have "filter is_memory_block [b\<leftarrow>bs . \<not> is_memory_block b] = []" for bs by (induction bs) auto
  ultimately show ?thesis using memory_block_is [OF m] unfolding ctx by (simp add: memory_ok_def user_turn_def)
qed

subsection \<open>The steps of a conversation\<close>

text \<open>Of a client it is used that answers are assistant turns without results.\<close>

definition client_ok :: "brain_env \<Rightarrow> bool" where
  "client_ok env \<longleftrightarrow> (\<forall>s ts tools a. en_complete env s ts tools = Inr a \<longrightarrow> tu_role a = ''assistant'' \<and> result_ids a = [])"

definition pending_ids :: "brain_state \<Rightarrow> string list" where
  "pending_ids b = concat (map result_id (bs_pending b))"

text \<open>
  How the core drives the brain: it seeds it with a recorded conversation whose calls are all
  answered, asks for a response when every call of the last one has its result, lets hooks
  change a response before its calls run, and interprets results in the order of the calls.
\<close>

inductive conversation :: "brain_config \<Rightarrow> brain_state \<Rightarrow> bool" for cfg where
  conv_start: "conversation cfg new_brain"
| conv_seed: "conversation cfg b \<Longrightarrow> well_formed ts \<Longrightarrow> open_calls ts = [] \<Longrightarrow> ts \<noteq> [] \<and> bc_memory cfg \<longrightarrow> memory_ok ts
    \<Longrightarrow> brain_seed cfg env ts message h b = (b', None) \<Longrightarrow> conversation cfg b'"
| conv_respond: "conversation cfg b \<Longrightarrow> bs_turns b \<noteq> [] \<Longrightarrow> pending_ids b = open_calls (bs_turns b) \<Longrightarrow> client_ok env
    \<Longrightarrow> brain_respond cfg env obs b = (b', r) \<Longrightarrow> conversation cfg b'"
| conv_reconcile: "conversation cfg b \<Longrightarrow> bs_pending b = [] \<Longrightarrow> brain_reconcile resp b = (b', e) \<Longrightarrow> conversation cfg b'"
| conv_interpret: "conversation cfg b \<Longrightarrow> open_calls (bs_turns b) = pending_ids b @ tr_action_id tr # rest
    \<Longrightarrow> brain_interpret tr b = (b', i) \<Longrightarrow> conversation cfg b'"

definition brain_ok :: "brain_config \<Rightarrow> brain_state \<Rightarrow> bool" where
  "brain_ok cfg b \<longleftrightarrow> well_formed (bs_turns b) \<and> (\<exists>rest. open_calls (bs_turns b) = pending_ids b @ rest)
     \<and> (\<forall>p \<in> set (bs_pending b). is_result p) \<and> (bs_turns b \<noteq> [] \<and> bc_memory cfg \<longrightarrow> memory_ok (bs_turns b))"

lemma pending_facts:
  assumes "\<forall>p \<in> set ps. is_result p"
  shows "tool_uses ps = []" "filter is_memory_block ps = []" "concat (map result_id ps) = [] \<longleftrightarrow> ps = []"
proof -
  have "p \<in> set ps \<Longrightarrow> \<exists>i c f. p = BResult i c f" for p using assms by (cases p) (auto simp: is_result_def)
  then show "tool_uses ps = []" "filter is_memory_block ps = []" "concat (map result_id ps) = [] \<longleftrightarrow> ps = []"
    by (induction ps) (fastforce simp: tool_uses_def)+
qed

text \<open>A conversation as it is sent: well formed and without an open call.\<close>

definition sendable :: "brain_config \<Rightarrow> llm_turn list \<Rightarrow> bool" where
  "sendable cfg ts \<longleftrightarrow> well_formed ts \<and> open_calls ts = [] \<and> ts \<noteq> [] \<and> (bc_memory cfg \<longrightarrow> memory_ok ts)"

lemma sendable_add:
  assumes "sendable cfg ts" and "\<forall>b \<in> set bs. \<exists>t. b = BText t" and "filter is_memory_block bs = []"
  shows "sendable cfg (ts @ [user_turn bs])"
  using assms by (simp add: sendable_def well_formed_snoc memory_ok_snoc user_turn_def turn_ok_def)

lemma sendable_pending:
  assumes "brain_ok cfg b" and "bs_turns b \<noteq> []" and "pending_ids b = open_calls (bs_turns b)"
  shows "sendable cfg (bs_turns (fold_pending b)) \<and> bs_pending (fold_pending b) = []"
proof (cases "bs_pending b = []")
  case True
  then show ?thesis using assms by (simp add: fold_pending_def brain_ok_def sendable_def pending_ids_def)
next
  case False
  note facts = pending_facts [of "bs_pending b"]
  have "call_ids (user_turn (bs_pending b)) = []" "result_ids (user_turn (bs_pending b)) = open_calls (bs_turns b)"
    "memory_count [user_turn (bs_pending b)] = 0"
    using assms facts by (simp_all add: user_turn_def call_ids_def result_ids_def pending_ids_def brain_ok_def)
  then show ?thesis using False assms
    by (simp add: fold_pending_def append_turn_def brain_ok_def sendable_def well_formed_snoc memory_ok_snoc turn_ok_def user_turn_def)
qed

lemma sendable_extend:
  assumes "sendable cfg (us @ [t])" and "\<forall>b \<in> set bs. \<exists>t. b = BText t" and "filter is_memory_block bs = []"
  shows "sendable cfg (us @ [t\<lparr>tu_blocks := tu_blocks t @ bs\<rparr>])"
proof -
  have ids: "call_ids (t\<lparr>tu_blocks := tu_blocks t @ bs\<rparr>) = call_ids t" "result_ids (t\<lparr>tu_blocks := tu_blocks t @ bs\<rparr>) = result_ids t"
    using text_ids [OF assms(2), of "[]"] by (simp_all add: call_ids_def result_ids_def tool_uses_def)
  have "memory_ok (us @ [t\<lparr>tu_blocks := tu_blocks t @ bs\<rparr>]) \<longleftrightarrow> memory_ok (us @ [t])"
    using memory_ok_last [of "us @ [t]" "t\<lparr>tu_blocks := tu_blocks t @ bs\<rparr>"] assms(3) by simp
  then show ?thesis using assms(1) ids by (auto simp: sendable_def well_formed_snoc turn_ok_def)
qed

lemma sendable_prepared:
  assumes "brain_ok cfg b" and "bs_turns b \<noteq> []" and "pending_ids b = open_calls (bs_turns b)"
  shows "sendable cfg (bs_turns (prepare_turn env obs b)) \<and> bs_pending (prepare_turn env obs b) = []"
proof -
  define c where "c = fold_message env obs (fold_pending b)"
  have b0: "sendable cfg (bs_turns (fold_pending b))" "bs_pending (fold_pending b) = []" using sendable_pending [OF assms] by auto
  have "sendable cfg (bs_turns (fold_pending b) @ [user_turn [BText (user_prompt env (bs_hands (fold_pending b)) obs)]])"
    by (rule sendable_add [OF b0(1)]) simp_all
  then have c: "sendable cfg (bs_turns c)" "bs_pending c = []"
    using b0 by (simp_all add: c_def fold_message_def append_turn_def)
  then obtain us t where us: "bs_turns c = us @ [t]" unfolding sendable_def by (metis append_butlast_last_id)
  have texts: "\<forall>b \<in> set (map hook_block (ob_context obs)). \<exists>t. b = BText t" "filter is_memory_block (map hook_block (ob_context obs)) = []"
    by (simp_all add: filter_empty_conv) (simp add: hook_block_def)
  show ?thesis
    unfolding prepare_turn_def c_def [symmetric] fold_context_def Let_def us
    using c us sendable_extend [OF c(1) [unfolded us] texts] sendable_add [OF c(1) texts] by (simp add: append_turn_def)
qed

text \<open>What a compaction that succeeds does: nothing, or it replaces and records the conversation.\<close>

lemma brain_compact_cases:
  assumes "brain_compact cfg env n b = Inr b'"
  obtains "b' = b" | start u ctx where "compact_start cfg (bs_turns b) = Some start"
    and "compacted_context cfg env (bs_hands b) (bs_turns b) start u = Inr ctx" and "b' = b\<lparr>bs_turns := ctx\<rparr>"
    and "en_complete env summarize_system [user_turn [BText (render_turns (drop 1 (take start (bs_turns b))))]] [] = Inr u"
    and "en_event env \<lparr>be_type = ''context.compacted'', be_turn = n, be_blocks = [], be_summary = compacted_text u,
      be_compacted = start - 1, be_retained = length (bs_turns b) - start, be_turns = ctx\<rparr> = None"
proof (cases "compact_start cfg (bs_turns b)")
  case None
  then show ?thesis using assms that(1) by (simp add: brain_compact_def)
next
  case start: (Some start)
  then obtain u where u: "en_complete env summarize_system [user_turn [BText (render_turns (drop 1 (take start (bs_turns b))))]] [] = Inr u"
    using assms unfolding brain_compact_def Let_def by (auto split: sum.splits)
  then obtain ctx where "compacted_context cfg env (bs_hands b) (bs_turns b) start u = Inr ctx"
    using assms start unfolding brain_compact_def Let_def by (auto split: sum.splits)
  then show ?thesis using assms start u that(2) [OF start] unfolding brain_compact_def Let_def
    by (simp split: option.splits)
qed

lemma compact_turn_cases:
  assumes "compact_turn cfg env n b = Inr b'"
  obtains "b' = b" | "brain_compact cfg env n b = Inr b'"
  using assms unfolding compact_turn_def by (auto split: if_splits sum.splits compact_failure.splits)

lemma sendable_compacted:
  assumes "sendable cfg (bs_turns b)" and "compact_turn cfg env n b = Inr b'"
  shows "sendable cfg (bs_turns b') \<and> bs_pending b' = bs_pending b"
  using assms(2)
proof (cases rule: compact_turn_cases)
  case 1
  then show ?thesis using assms(1) by simp
next
  case 2
  then show ?thesis
  proof (cases rule: brain_compact_cases)
    case 1
    then show ?thesis using assms(1) by simp
  next
    case (2 start u ctx)
    have wf: "well_formed (bs_turns b)" and mem: "bc_memory cfg \<Longrightarrow> memory_ok (bs_turns b)" using assms(1) by (simp_all add: sendable_def)
    note kept = compacted_well_formed [OF wf 2(1,2)]
    have "bc_memory cfg \<Longrightarrow> memory_ok ctx" using compacted_memory_ok [OF mem wf _ 2(1,2)] by blast
    then have "sendable cfg ctx" using kept(1-3) assms(1) unfolding sendable_def by simp
    then show ?thesis by (simp add: 2(3))
  qed
qed

lemma part_results: "part_block p = Inr c \<Longrightarrow> result_id c = []"
  by (auto simp: part_block_def split: part_type.splits sum.splits)

lemma parts_results: "part_blocks ps = Inr cs \<Longrightarrow> concat (map result_id cs) = []"
  by (induction ps arbitrary: cs) (auto simp: and_then_Inr_iff part_results)

lemma reconciled_results: "reconcile_blocks bs ps = Inr cs \<Longrightarrow> concat (map result_id cs) = []"
proof (induction bs ps arbitrary: cs rule: reconcile_blocks.induct)
  case (1 ps)
  then show ?case using parts_results by simp
next
  case (2 b bs ps)
  then show ?case by (cases b; cases ps) (auto simp: and_then_Inr_iff part_results)
qed

lemma brain_seed_ok:
  assumes "brain_seed cfg env ts message h b = (b', None)"
  obtains bs where "bs_turns b' = ts @ [user_turn bs]" "bs_pending b' = []" "\<forall>b \<in> set bs. \<exists>t. b = BText t"
    and "bc_memory cfg \<longrightarrow> length (filter is_memory_block bs) = (if ts = [] then 1 else 0)"
    and "call_ids (user_turn bs) = []" "result_ids (user_turn bs) = []"
proof -
  obtain bs where bs: "bs_turns b' = ts @ [user_turn bs]" "bs_pending b' = []" "\<forall>b \<in> set bs. \<exists>t. b = BText t"
    "bc_memory cfg \<longrightarrow> length (filter is_memory_block bs) = (if ts = [] then 1 else 0)"
    using assms memory_block_is by (auto simp: brain_seed_def Let_def split: if_splits sum.splits)
  have "call_ids (user_turn bs) = [] \<and> result_ids (user_turn bs) = []" using text_ids [OF bs(3)] by (simp add: user_turn_def)
  then show thesis using that bs by blast
qed

lemma conversation_ok: "conversation cfg b \<Longrightarrow> brain_ok cfg b"
proof (induction rule: conversation.induct)
  case conv_start
  show ?case by (simp add: new_brain_def brain_ok_def well_formed_def open_calls_def pending_ids_def)
next
  case (conv_seed b ts env message h b')
  obtain bs where b': "bs_turns b' = ts @ [user_turn bs]" "bs_pending b' = []" and bs: "\<forall>b \<in> set bs. \<exists>t. b = BText t"
    and mem: "bc_memory cfg \<longrightarrow> length (filter is_memory_block bs) = (if ts = [] then 1 else 0)"
    and "call_ids (user_turn bs) = []" "result_ids (user_turn bs) = []"
    using conv_seed.hyps(5) by (rule brain_seed_ok)
  moreover have "memory_ok (ts @ [user_turn bs])" if "bc_memory cfg"
  proof (cases "ts = []")
    case True
    then show ?thesis using mem that by (simp add: memory_ok_def user_turn_def)
  next
    case False
    then show ?thesis using conv_seed.hyps(4) mem that by (simp add: memory_ok_snoc user_turn_def)
  qed
  ultimately show ?case using conv_seed.hyps(2,3) b'
    by (simp add: brain_ok_def well_formed_snoc pending_ids_def turn_ok_def user_turn_def)
next
  case (conv_respond b env obs b' r)
  let ?b1 = "prepare_turn env obs b"
  have b1: "sendable cfg (bs_turns ?b1)" "bs_pending ?b1 = []"
    using sendable_prepared [OF conv_respond.IH conv_respond.hyps(2,3)] by auto
  have ok: "brain_ok cfg c" if "sendable cfg (bs_turns c)" "bs_pending c = []" for c
    using that by (simp add: brain_ok_def sendable_def pending_ids_def)
  show ?case
  proof (cases "compact_turn cfg env (ob_turn obs) ?b1")
    case (Inl e)
    then show ?thesis using conv_respond.hyps(5) ok [OF b1] by (simp add: brain_respond_def Let_def)
  next
    case (Inr b2)
    have b2: "sendable cfg (bs_turns b2)" "bs_pending b2 = []" using sendable_compacted [OF b1(1) Inr] b1(2) by auto
    have "b' = b2 \<or> (\<exists>a. b' = append_turn a b2 \<and> tu_role a = ''assistant'' \<and> result_ids a = [])"
      using conv_respond.hyps(4,5) Inr unfolding brain_respond_def client_ok_def Let_def
      by (auto split: sum.splits option.splits)
    then show ?thesis
    proof
      assume "b' = b2"
      with ok [OF b2] show ?thesis by simp
    next
      assume "\<exists>a. b' = append_turn a b2 \<and> tu_role a = ''assistant'' \<and> result_ids a = []"
      then obtain a where a: "b' = append_turn a b2" "tu_role a = ''assistant''" "result_ids a = []" by blast
      with b2 show ?thesis
        by (simp add: brain_ok_def sendable_def append_turn_def well_formed_snoc turn_ok_def memory_ok_snoc pending_ids_def)
    qed
  qed
next
  case (conv_reconcile b resp b' e)
  show ?case
  proof (cases "b' = b")
    case True
    then show ?thesis using conv_reconcile.IH by simp
  next
    case False
    then obtain bs where ne: "bs_turns b \<noteq> []" and role: "tu_role (last (bs_turns b)) = ''assistant''"
      and rec: "reconcile_blocks (tu_blocks (last (bs_turns b))) (ar_parts resp) = Inr bs"
      and b': "b' = b\<lparr>bs_turns := butlast (bs_turns b) @ [(last (bs_turns b))\<lparr>tu_blocks := bs\<rparr>]\<rparr>"
      using conv_reconcile.hyps(3) by (auto simp: brain_reconcile_def split: if_splits sum.splits)
    have "concat (map result_id bs) = []" by (rule reconciled_results [OF rec])
    then have none: "result_ids ((last (bs_turns b))\<lparr>tu_blocks := bs\<rparr>) = []" by (simp add: result_ids_def)
    obtain us where us: "bs_turns b = us @ [last (bs_turns b)]" using ne by (metis append_butlast_last_id)
    have "well_formed (us @ [last (bs_turns b)])" using conv_reconcile.IH us by (metis brain_ok_def)
    moreover from this role have "result_ids (last (bs_turns b)) = []" "us \<noteq> []"
      by (auto simp: well_formed_snoc turn_ok_def)
    moreover have "bc_memory cfg \<Longrightarrow> memory_ok (us @ [(last (bs_turns b))\<lparr>tu_blocks := bs\<rparr>])"
      using conv_reconcile.IH ne us role memory_ok_last [of "bs_turns b" "(last (bs_turns b))\<lparr>tu_blocks := bs\<rparr>"]
      by (simp add: brain_ok_def) (metis butlast_snoc)
    moreover have "bs_turns b' = us @ [(last (bs_turns b))\<lparr>tu_blocks := bs\<rparr>]" using b' us by simp (metis butlast_snoc)
    moreover have "bs_pending b' = []" using b' conv_reconcile.hyps(2) by simp
    ultimately show ?thesis using none role
      by (simp add: brain_ok_def well_formed_snoc turn_ok_def pending_ids_def)
  qed
next
  case (conv_interpret b tr rest b' i)
  then show ?case
    by (auto simp: brain_interpret_def Let_def brain_ok_def pending_ids_def is_result_def)
qed


definition sample_config :: brain_config where
  "sample_config = \<lparr>bc_persona = [], bc_memory = True, bc_compact_chars = -1, bc_compact_keep = 0, bc_harness_prompt = ''Rules.'', bc_memory_guidance = []\<rparr>"

definition sample_env :: brain_env where
  "sample_env = \<lparr>en_complete = (\<lambda>_ _ _. Inr \<lparr>tu_role = ''assistant'', tu_blocks = [BToolUse ''c1'' ''bash'' None]\<rparr>),
     en_memory = Inr \<lparr>my_index = ''likes tea'', my_truncated = False\<rparr>, en_event = (\<lambda>_. None), en_date = (\<lambda>_. ''2026-01-01''),
     en_platform = ''linux/amd64'', en_tools = []\<rparr>"

definition sample_hands :: hands where
  "sample_hands = \<lparr>ha_workspace = ''/w'', ha_platform = [], ha_network = [], ha_memory_path = ''/m''\<rparr>"

definition sample_observation :: observation where
  "sample_observation = \<lparr>ob_turn = 1, ob_message = ''go'', ob_workspace = ''/w'', ob_platform = [], ob_history = [], ob_context = [''be brief''], ob_now = 0\<rparr>"

definition seeded_brain :: brain_state where
  "seeded_brain = fst (brain_seed sample_config sample_env [] ''go'' sample_hands new_brain)"

lemma seeded_conversation: "conversation sample_config seeded_brain \<and> bs_turns seeded_brain \<noteq> [] \<and> pending_ids seeded_brain = open_calls (bs_turns seeded_brain)"
proof -
  have "brain_seed sample_config sample_env [] ''go'' sample_hands new_brain = (seeded_brain, None)"
    by (simp add: seeded_brain_def brain_seed_def memory_block_def sample_config_def sample_env_def Let_def)
  moreover from this have "bs_turns seeded_brain \<noteq> [] \<and> bs_pending seeded_brain = [] \<and> open_calls (bs_turns seeded_brain) = []"
    by (rule brain_seed_ok) (simp add: open_calls_def)
  ultimately show ?thesis
    using conv_seed [OF conv_start, of "[]" sample_config sample_env "''go''" sample_hands seeded_brain]
    by (simp add: well_formed_def pending_ids_def)
qed


subsection \<open>What a compaction keeps\<close>

text \<open>A compaction replaces the turns between the first and a tail of the most recent ones by one
  summary. The tail is kept as it is, has at least the configured number of turns and at most
  one more, the first turn loses only an outdated memory index, and the conversation that goes
  on is the one that was recorded.\<close>

theorem compaction_keeps:
  assumes "brain_compact cfg env n b = Inr b'" and "b' \<noteq> b"
    and "keep = (if bc_compact_keep cfg \<le> 0 then 6 else bc_compact_keep cfg)"
  shows "\<exists>start u f m. 1 < start \<and> start < length (bs_turns b)
     \<and> bs_turns b' = f # user_turn (BText (compacted_text u) # m) # drop start (bs_turns b)
     \<and> length (bs_turns b) - start \<in> {nat keep, Suc (nat keep)}
     \<and> f = (hd (bs_turns b))\<lparr>tu_blocks := filter (\<lambda>c. \<not> bc_memory cfg \<or> \<not> is_memory_block c) (tu_blocks (hd (bs_turns b)))\<rparr>
     \<and> (\<exists>e. be_turns e = bs_turns b' \<and> en_event env e = None \<and> be_type e = ''context.compacted'')"
  using assms(1)
proof (cases rule: brain_compact_cases)
  case 1
  with assms(2) show ?thesis by simp
next
  case (2 start u ctx)
  define s where "s = length (bs_turns b) - nat keep"
  have keep: "nat keep = (if bc_compact_keep cfg \<le> 0 then 6 else nat (bc_compact_keep cfg))" "0 < nat keep" using assms(3) by auto
  have start: "\<not> length (bs_turns b) \<le> nat keep + 1" "start = (if s > 1 \<and> turn_has_result (bs_turns b ! s) then s - 1 else s)" "1 < start"
    using 2(1) unfolding compact_start_def Let_def keep(1) [symmetric] s_def [symmetric] by (auto split: if_splits)
  then have bounds: "1 < start" "start < length (bs_turns b)" "length (bs_turns b) - start \<in> {nat keep, Suc (nat keep)}"
    using keep(2) unfolding s_def by (auto split: if_splits)
  obtain f m where "ctx = f # user_turn (BText (compacted_text u) # m) # drop start (bs_turns b)"
    "f = (hd (bs_turns b))\<lparr>tu_blocks := filter (\<lambda>c. \<not> bc_memory cfg \<or> \<not> is_memory_block c) (tu_blocks (hd (bs_turns b)))\<rparr>"
    using 2(2) by (auto simp: compacted_context_def Let_def and_then_Inr_iff split: if_splits)
  moreover have "bs_turns b' = ctx" using 2(3) by simp
  ultimately show ?thesis using bounds 2(5) by (metis brain_event.select_convs(1,7))
qed

definition long_brain :: brain_state where
  "long_brain = new_brain\<lparr>bs_turns := [user_turn [BText ''a''], \<lparr>tu_role = ''assistant'', tu_blocks = [BText ''b'']\<rparr>, user_turn [BText ''c''],
     \<lparr>tu_role = ''assistant'', tu_blocks = [BText ''d'']\<rparr>]\<rparr>"

definition keep_one :: brain_config where
  "keep_one = sample_config\<lparr>bc_compact_keep := 1, bc_memory := False\<rparr>"

lemma compaction_keeps_witness:
  "\<exists>b'. brain_compact keep_one sample_env 3 long_brain = Inr b' \<and> (\<exists>start f u m. 1 < start \<and>
     bs_turns b' = f # user_turn (BText (compacted_text u) # m) # drop start (bs_turns long_brain))"
proof -
  obtain b' where b': "brain_compact keep_one sample_env 3 long_brain = Inr b'" "length (bs_turns b') = 3"
    by (simp add: brain_compact_def compact_start_def keep_one_def sample_config_def long_brain_def turn_has_result_def is_result_def
        sample_env_def compacted_context_def user_turn_def Let_def)
  moreover from this have "b' \<noteq> long_brain" by (auto simp: long_brain_def)
  ultimately show ?thesis using compaction_keeps [OF b'(1) _ refl] by blast
qed

subsection \<open>Reading a response, and changing it\<close>

lemma find_by_id:
  assumes "distinct (map act_id as)" and "a \<in> set as"
  shows "action_by_id as (act_id a) = a"
proof -
  have "List.find (\<lambda>x. act_id x = act_id a) as' = Some a" if "distinct (map act_id as')" "a \<in> set as'" for as'
    using that by (induction as') (auto simp: rev_image_eqI)
  moreover have "distinct (map act_id (rev as))" using assms(1) by (simp flip: rev_map)
  ultimately show ?thesis using assms(2) by (simp add: action_by_id_def)
qed

lemma tool_uses_simps [simp]:
  "tool_uses [] = []" "tool_uses (BText t # bs) = tool_uses bs" "tool_uses (BToolUse i n m # bs) = (i, n, m) # tool_uses bs"
  "tool_uses (BResult i c f # bs) = tool_uses bs" "tool_uses (BRaw r # bs) = tool_uses bs"
  by (simp_all add: tool_uses_def)

lemma response_parts_simps [simp]:
  "response_parts as [] = []"
  "response_parts as (BText t # bs) = (if t = [] then [] else [\<lparr>ap_type = PartText, ap_text = t, ap_action = no_action\<rparr>]) @ response_parts as bs"
  "response_parts as (BToolUse i n m # bs) = \<lparr>ap_type = PartToolCall, ap_text = [], ap_action = action_by_id as i\<rparr> # response_parts as bs"
  "response_parts as (BResult i c f # bs) = response_parts as bs" "response_parts as (BRaw r # bs) = response_parts as bs"
  by (simp_all add: response_parts_def)

text \<open>The calls among a response's recorded parts are its actions, and both are the model's calls.\<close>

lemma response_calls:
  assumes "read_response bs = Inr r" and "tool_uses bs \<noteq> []" and "distinct (map fst (tool_uses bs))"
  shows "ar_actions r = map tool_use_action (tool_uses bs)"
    and "map ap_action (filter (\<lambda>p. ap_type p = PartToolCall) (ar_parts r)) = ar_actions r"
proof -
  let ?as = "map tool_use_action (tool_uses bs)"
  have r: "r = \<lparr>ar_parts = response_parts ?as bs, ar_actions = ?as\<rparr>" using assms(1,2) by (simp add: read_response_def Let_def)
  then show "ar_actions r = map tool_use_action (tool_uses bs)" by simp
  have ids: "act_id (tool_use_action c) = fst c" for c by (simp add: tool_use_action_def split_def)
  then have "distinct (map act_id ?as)" using assms(3) by (simp add: comp_def)
  note by_id = find_by_id [OF this]
  have "map ap_action (filter (\<lambda>p. ap_type p = PartToolCall) (response_parts ?as cs)) = map tool_use_action (tool_uses cs)"
    if "set (tool_uses cs) \<subseteq> set (tool_uses bs)" for cs
    using that
  proof (induction cs)
    case (Cons c cs)
    show ?case
    proof (cases c)
      case (BToolUse i n m)
      then have "(i, n, m) \<in> set (tool_uses bs)" using Cons.prems by simp
      then have "action_by_id ?as i = tool_use_action (i, n, m)" using by_id [of "tool_use_action (i, n, m)"] ids [of "(i, n, m)"] by simp
      with BToolUse Cons show ?thesis by simp
    qed (use Cons in auto)
  qed simp
  then show "map ap_action (filter (\<lambda>p. ap_type p = PartToolCall) (ar_parts r)) = ar_actions r" using r by simp
qed

definition is_raw :: "block \<Rightarrow> bool" where
  "is_raw b \<longleftrightarrow> (case b of BRaw _ \<Rightarrow> True | _ \<Rightarrow> False)"

lemma part_block_visible: "part_block p = Inr c \<Longrightarrow> \<not> is_raw c"
  by (auto simp: part_block_def is_raw_def split: part_type.splits sum.splits)

lemma part_blocks_visible: "part_blocks ps = Inr cs \<Longrightarrow> filter is_raw cs = [] \<and> filter (\<lambda>c. \<not> is_raw c) cs = cs"
  by (induction ps arbitrary: cs) (auto simp: and_then_Inr_iff part_block_visible)

lemma reconciled_blocks:
  "reconcile_blocks bs ps = Inr cs \<Longrightarrow> filter is_raw cs = filter is_raw bs \<and> part_blocks ps = Inr (filter (\<lambda>c. \<not> is_raw c) cs)"
proof (induction bs ps arbitrary: cs rule: reconcile_blocks.induct)
  case (1 ps)
  then show ?case using part_blocks_visible by simp
next
  case (2 b bs ps)
  then show ?case
    by (cases b; cases ps) (auto simp: and_then_Inr_iff part_block_visible is_raw_def [of "BRaw _"] is_raw_def [of "BText _"]
        is_raw_def [of "BToolUse _ _ _"] is_raw_def [of "BResult _ _ _"])
qed

text \<open>After hooks changed a response, the transcript holds exactly the parts that will run and be
  shown, in their order; every provider item keeps its place among the items, and no other
  turn changes. A response that cannot be recorded leaves the transcript as it was.\<close>

theorem reconcile_exact:
  assumes "brain_reconcile r b = (b', e)"
  shows "(e \<noteq> None \<longrightarrow> b' = b)
     \<and> (e = None \<longrightarrow> bs_turns b \<noteq> [] \<and> butlast (bs_turns b') = butlast (bs_turns b) \<and> bs_pending b' = bs_pending b
          \<and> filter is_raw (tu_blocks (last (bs_turns b'))) = filter is_raw (tu_blocks (last (bs_turns b)))
          \<and> part_blocks (ar_parts r) = Inr (filter (\<lambda>c. \<not> is_raw c) (tu_blocks (last (bs_turns b')))))"
  using assms reconciled_blocks [of "tu_blocks (last (bs_turns b))" "ar_parts r"]
  by (auto simp: brain_reconcile_def split: if_splits sum.splits)

lemma reconcile_exact_witness:
  "part_blocks [] = Inr (filter (\<lambda>c. \<not> is_raw c) (tu_blocks (last (bs_turns (fst (brain_reconcile \<lparr>ar_parts = [], ar_actions = []\<rparr> long_brain))))))"
proof -
  have "brain_reconcile \<lparr>ar_parts = [], ar_actions = []\<rparr> long_brain = (fst (brain_reconcile \<lparr>ar_parts = [], ar_actions = []\<rparr> long_brain), None)"
    by (simp add: brain_reconcile_def long_brain_def)
  from reconcile_exact [OF this] show ?thesis by simp
qed

end
