(* ===== verification/Brain_Turn.thy ===== *)
theory Brain_Turn
  imports Core_Props Brain_Props
begin

section \<open>A turn of the core with the model's brain (core.go, plugins/brain/llm/llm.go)\<close>

text \<open>
  \<open>Brain_Props\<close> shows that every request to the model is well formed when the brain is driven in
  the right way: the results of all calls are interpreted, in the order of the calls, before the
  next response is asked for. This theory shows that the turn loop drives it that way.
\<close>

subsection \<open>The brain's part of a turn\<close>

text \<open>The response is reconciled when calls will run, and every result of the turn is interpreted.\<close>

definition record_plan :: "turn_plan \<Rightarrow> brain_state \<Rightarrow> brain_state \<times> error option" where
  "record_plan pl b =
     (if tp_run pl = [] then (b, None) else brain_reconcile \<lparr>ar_parts = tp_parts pl, ar_actions = tp_run pl\<rparr> b)"

definition interpret_results :: "tool_result list \<Rightarrow> brain_state \<Rightarrow> brain_state" where
  "interpret_results results b = fold (\<lambda>tr b. fst (brain_interpret tr b)) results b"

subsection \<open>Which calls a response names\<close>

lemma part_ids_simps [simp]:
  "part_ids [] = []"
  "part_ids (p # ps) = (if ap_type p = PartToolCall then act_id (ap_action p) # part_ids ps else part_ids ps)"
  by (simp_all add: part_ids_def tool_part_def)

lemma id_by_id: "i \<in> act_id ` set as \<Longrightarrow> act_id (action_by_id as i) = i"
proof -
  assume "i \<in> act_id ` set as"
  then obtain a where a: "List.find (\<lambda>a. act_id a = i) (rev as) = Some a"
    by (cases "List.find (\<lambda>a. act_id a = i) (rev as)") (auto simp: find_None_iff)
  moreover from a have "act_id a = i" by (auto simp: find_Some_iff)
  ultimately show ?thesis by (simp add: action_by_id_def)
qed

lemma response_part_ids:
  assumes "set (map fst (tool_uses bs)) \<subseteq> act_id ` set as"
  shows "part_ids (response_parts as bs) = map fst (tool_uses bs)"
  using assms
proof (induction bs)
  case (Cons b bs)
  then show ?case by (cases b) (simp_all add: id_by_id)
qed simp

lemma read_response_ids:
  assumes "read_response bs = Inr r" and "tool_uses bs \<noteq> []"
  shows "map act_id (ar_actions r) = map fst (tool_uses bs)" "part_ids (ar_parts r) = map fst (tool_uses bs)"
proof -
  let ?as = "map tool_use_action (tool_uses bs)"
  have r: "r = \<lparr>ar_parts = response_parts ?as bs, ar_actions = ?as\<rparr>" using assms by (simp add: read_response_def Let_def)
  have ids: "act_id \<circ> tool_use_action = fst" by (auto simp: tool_use_action_def)
  then show "map act_id (ar_actions r) = map fst (tool_uses bs)" using r by simp
  have "act_id ` set ?as = fst ` set (tool_uses bs)" using ids by (metis (no_types) image_comp set_map)
  then show "part_ids (ar_parts r) = map fst (tool_uses bs)" using r by (simp add: response_part_ids)
qed

lemma prefix_same_set:
  assumes "distinct xs" and "set (take n xs) = set xs"
  shows "take n xs = xs"
proof -
  have "card (set (take n xs)) = length (take n xs)" "card (set xs) = length xs"
    using assms(1) by (simp_all add: distinct_card del: length_take)
  with assms(2) have "length xs \<le> n" by simp
  then show ?thesis by simp
qed

lemma refreshed_ids:
  assumes "set (part_ids parts) \<subseteq> act_id ` set run"
  shows "part_ids (refresh_parts run parts) = part_ids parts"
proof -
  have look: "act_id (case map_of (rev (map (\<lambda>a. (act_id a, a)) run)) i of Some a \<Rightarrow> a | None \<Rightarrow> zero_action) = i"
    if i: "i \<in> act_id ` set run" for i
  proof -
    obtain a where a: "map_of (rev (map (\<lambda>a. (act_id a, a)) run)) i = Some a"
      using i by (cases "map_of (rev (map (\<lambda>a. (act_id a, a)) run)) i") (auto simp: map_of_eq_None_iff image_iff)
    then show ?thesis using map_of_SomeD [OF a] by auto
  qed
  from assms show ?thesis
    by (induction parts) (auto simp: refresh_parts_def look)
qed

text \<open>The parts that are recorded name the calls that run, in their order, and these are the model's.\<close>

lemma planned_ids:
  assumes "plan_turn c ob r s = (t, Inr pl)" and "read_response bs = Inr r" and "runnable (ar_actions r) \<noteq> []"
    and "tool_uses bs \<noteq> []"
  shows "part_ids (tp_parts pl) = map act_id (tp_run pl)"
proof -
  obtain parts where n: "normalize_assistant_parts (ar_parts r) (runnable (ar_actions r)) = Inr parts"
    and p: "tp_parts pl = refresh_parts (tp_run pl) parts"
    and ids: "map act_id (tp_run pl) = map act_id (runnable (ar_actions r))"
    using plan_turn_parts [OF assms(1)] assms(3) by (metis (mono_tags, lifting))
  note calls = read_response_ids [OF assms(2,4)]
  then have ne: "ar_parts r \<noteq> []" using assms(4) by auto
  with n have parts: "parts = ar_parts r"
    by (auto simp: normalize_assistant_parts_def and_then_Inr_iff split: if_splits)
  have "distinct (part_ids parts)"
    using n ne parts by (auto simp: normalize_assistant_parts_def and_then_Inr_iff dest: match_parts_Inr split: if_splits)
  moreover have same: "set (part_ids parts) = act_id ` set (runnable (ar_actions r))" using normalize_ids [OF n] ne by simp
  moreover obtain k where k: "runnable (ar_actions r) = take k (ar_actions r)"
    by (simp add: runnable_def) (metis takeWhile_eq_take)
  ultimately have "take k (map act_id (ar_actions r)) = map act_id (ar_actions r)"
    using calls parts by (intro prefix_same_set) (simp_all flip: take_map set_map)
  then have "map act_id (tp_run pl) = part_ids parts" using ids k calls parts by (metis take_map)
  moreover from this same ids have "set (part_ids parts) \<subseteq> act_id ` set (tp_run pl)" by (metis set_map subset_refl)
  ultimately show ?thesis using refreshed_ids p by metis
qed

subsection \<open>What the brain holds after each step\<close>

lemma part_blocks_ids: "part_blocks ps = Inr cs \<Longrightarrow> map fst (tool_uses cs) = part_ids ps"
  by (induction ps arbitrary: cs) (auto simp: and_then_Inr_iff part_block_def split: part_type.splits sum.splits)

lemma visible_tool_uses: "tool_uses (filter (\<lambda>c. \<not> is_raw c) cs) = tool_uses cs"
  by (induction cs) (auto simp: is_raw_def tool_uses_def split: block.splits)

lemma reconciled_ids:
  assumes "brain_reconcile r b = (b', None)"
  shows "call_ids (last (bs_turns b')) = part_ids (ar_parts r)" "bs_pending b' = bs_pending b" "bs_turns b' \<noteq> []"
proof -
  obtain bs where "reconcile_blocks (tu_blocks (last (bs_turns b))) (ar_parts r) = Inr bs"
    and b': "b' = b\<lparr>bs_turns := butlast (bs_turns b) @ [(last (bs_turns b))\<lparr>tu_blocks := bs\<rparr>]\<rparr>"
    using assms by (auto simp: brain_reconcile_def split: if_splits sum.splits)
  from part_blocks_ids [OF reconciled_blocks [OF this(1), THEN conjunct2]]
  have "map fst (tool_uses bs) = part_ids (ar_parts r)" unfolding visible_tool_uses .
  then show "call_ids (last (bs_turns b')) = part_ids (ar_parts r)" "bs_pending b' = bs_pending b" "bs_turns b' \<noteq> []"
    using b' by (simp_all add: call_ids_def)
qed

lemma compact_turn_pending: "compact_turn cfg env n b = Inr b' \<Longrightarrow> bs_pending b' = bs_pending b"
  by (auto simp: compact_turn_def brain_compact_def Let_def split: if_splits sum.splits option.splits compact_failure.splits)

lemma brain_responded:
  assumes "conversation cfg b" and "bs_turns b \<noteq> []" and "pending_ids b = open_calls (bs_turns b)"
    and "brain_respond cfg env obs b = (b1, Inr r)"
  obtains ts a where "bs_turns b1 = ts @ [a]" "read_response (tu_blocks a) = Inr r" "bs_pending b1 = []"
proof -
  have "bs_pending (prepare_turn env obs b) = []" using sendable_prepared [OF conversation_ok [OF assms(1)] assms(2,3)] by blast
  moreover obtain b2 a where b2: "compact_turn cfg env (ob_turn obs) (prepare_turn env obs b) = Inr b2"
    and a: "b1 = append_turn a b2" "read_response (tu_blocks a) = Inr r"
    using assms(4) unfolding brain_respond_def Let_def by (auto split: sum.split_asm option.split_asm)
  ultimately show thesis using that [of "bs_turns b2" a] compact_turn_pending [OF b2] by (simp add: append_turn_def)
qed

lemma interpreted:
  assumes "conversation cfg b" and "open_calls (bs_turns b) = pending_ids b @ map tr_action_id results"
  shows "conversation cfg (interpret_results results b) \<and> bs_turns (interpret_results results b) = bs_turns b
     \<and> pending_ids (interpret_results results b) = open_calls (bs_turns b)"
  using assms
proof (induction results arbitrary: b)
  case Nil
  then show ?case by (simp add: interpret_results_def)
next
  case (Cons tr results)
  let ?b = "fst (brain_interpret tr b)"
  have b: "bs_turns ?b = bs_turns b" "pending_ids ?b = pending_ids b @ [tr_action_id tr]"
    by (simp_all add: brain_interpret_def pending_ids_def Let_def)
  have "conversation cfg ?b"
    by (rule conv_interpret [of cfg b tr "map tr_action_id results" _ "snd (brain_interpret tr b)"]) (use Cons.prems in simp_all)
  from Cons.IH [OF this] b Cons.prems(2) show ?case by (simp add: interpret_results_def)
qed

text \<open>The response begins with a call of the reserved tool \<^verbatim>\<open>finish\<close>: the core runs nothing of it.\<close>

definition finish_first :: "assistant_response \<Rightarrow> bool" where
  "finish_first response \<longleftrightarrow> ar_parts response \<noteq> [] \<and> runnable (ar_actions response) = []"

text \<open>C6. A turn of the core leaves the brain ready for the next one. It starts from a conversation whose
  open calls all have their result waiting. When hooks settle a response and
  its calls run or are denied, the transcript names exactly the calls that ran, and the results that
  the core interprets answer them one by one, so the next request is well formed again. When the
  model calls the reserved tool \<^verbatim>\<open>finish\<close> before any other, nothing runs and nothing is interpreted:
  exactly the calls of that response stay open in the transcript, and no result waits for them.\<close>

theorem turn_leaves_ready:
  assumes "conversation cfg b" and "bs_turns b \<noteq> []" and "pending_ids b = open_calls (bs_turns b)" and "client_ok env"
    and "brain_respond cfg env obs b = (b1, Inr response)"
    and "plan_turn c ob response s = (t, Inr pl)"
    and "record_plan pl b1 = (b2, None)"
    and "turn_log_ok \<lparr>tl_turn = n, tl_actions = tp_actions pl, tl_results = results\<rparr>"
  shows "conversation cfg (interpret_results results b2) \<and> bs_turns (interpret_results results b2) \<noteq> []
     \<and> (if finish_first response
        then results = [] \<and> pending_ids (interpret_results results b2) = []
          \<and> open_calls (bs_turns (interpret_results results b2)) = map act_id (ar_actions response)
        else pending_ids (interpret_results results b2) = open_calls (bs_turns (interpret_results results b2))
          \<and> pending_ids (interpret_results results b2) = map act_id (tp_run pl))"
proof -
  obtain ts a where a: "bs_turns b1 = ts @ [a]" "read_response (tu_blocks a) = Inr response" "bs_pending b1 = []"
    using brain_responded [OF assms(1,2,3,5)] .
  have b1: "conversation cfg b1" by (rule conv_respond [OF assms(1-5)])
  have "runnable (tp_actions pl) = tp_run pl" using plan_turn_ok [OF assms(6)] by (simp add: plan_ok_def)
  then have results: "map tr_action_id results = map act_id (tp_run pl)"
    using assms(8) by (auto simp: turn_log_ok_def list_all2_conv_all_nth intro: nth_equalityI)
  have run: "map act_id (tp_run pl) = map act_id (runnable (ar_actions response))" using plan_turn_parts [OF assms(6)] by blast
  have no_tools: "runnable (ar_actions response) = [] \<and> ar_parts response = []" if "tool_uses (tu_blocks a) = []"
    using a(2) that by (auto simp: read_response_def Let_def runnable_def finish_action_def split: if_splits)
  show ?thesis
  proof (cases "finish_first response")
    case True
    then have tools: "tool_uses (tu_blocks a) \<noteq> []" and none: "tp_run pl = []" using no_tools run by (auto simp: finish_first_def)
    then have "b2 = b1" "results = []" using assms(7) results by (simp_all add: record_plan_def)
    then show ?thesis
      using True a b1 read_response_ids(1) [OF a(2) tools] by (simp add: interpret_results_def pending_ids_def open_calls_def call_ids_def)
  next
    case False
    have "conversation cfg b2 \<and> bs_turns b2 \<noteq> [] \<and> open_calls (bs_turns b2) = pending_ids b2 @ map tr_action_id results
        \<and> pending_ids b2 = []"
    proof (cases "tool_uses (tu_blocks a) = []")
      case True
      then have none: "tp_run pl = []" using no_tools run by simp
      then have "b2 = b1" using assms(7) by (simp add: record_plan_def)
      then show ?thesis using none results a(1,3) b1 True by (simp add: pending_ids_def open_calls_def call_ids_def)
    next
      case tools: False
      then have ne: "runnable (ar_actions response) \<noteq> []" "tp_run pl \<noteq> []"
        using read_response_ids(2) [OF a(2)] False run by (auto simp: finish_first_def)
      then have rec: "brain_reconcile \<lparr>ar_parts = tp_parts pl, ar_actions = tp_run pl\<rparr> b1 = (b2, None)"
        using assms(7) by (simp add: record_plan_def)
      have "part_ids (tp_parts pl) = map act_id (tp_run pl)" by (rule planned_ids [OF assms(6) a(2) ne(1) tools])
      then show ?thesis
        using reconciled_ids [OF rec] conv_reconcile [OF b1 a(3) rec] a(3) results by (simp add: open_calls_def pending_ids_def)
    qed
    then show ?thesis using interpreted [of cfg b2 results] False results by auto
  qed
qed

lemma turn_leaves_ready_witness:
  "\<exists>b. conversation sample_config b \<and> open_calls (bs_turns b) = [''c1''] \<and> pending_ids b = [''c1'']"
proof -
  let ?r = "brain_respond sample_config sample_env sample_observation seeded_brain"
  let ?resp = "\<lparr>ar_parts = [\<lparr>ap_type = PartToolCall, ap_text = [], ap_action = tool_use_action (''c1'', ''bash'', None)\<rparr>],
     ar_actions = [tool_use_action (''c1'', ''bash'', None)]\<rparr>"
  let ?p = "plan_turn echo_core (observe echo_core ''hi'' 1 (begin_state echo_core)) ?resp (begin_state echo_core)"
  let ?tr = "zero_result\<lparr>tr_action_id := ''c1'', tr_kind := ''bash''\<rparr>"
  have "snd ?r = Inr ?resp" by code_simp
  then obtain b1 where b1: "?r = (b1, Inr ?resp)" by (cases ?r) auto
  have "(case snd ?p of Inr pl \<Rightarrow> tp_run pl = ar_actions ?resp \<and> tp_actions pl = ar_actions ?resp \<and> tp_parts pl = ar_parts ?resp | Inl _ \<Rightarrow> False)"
    by code_simp
  then obtain t pl where p: "?p = (t, Inr pl)" and pl: "tp_run pl = ar_actions ?resp" "tp_actions pl = ar_actions ?resp" "tp_parts pl = ar_parts ?resp"
    by (cases ?p) (auto split: sum.splits)
  let ?q = "brain_reconcile \<lparr>ar_parts = ar_parts ?resp, ar_actions = ar_actions ?resp\<rparr> (fst ?r)"
  have q: "snd ?q = None" "open_calls (bs_turns (fst ?q)) = [''c1'']" by code_simp+
  then obtain b2 where b2: "record_plan pl b1 = (b2, None)" "open_calls (bs_turns b2) = [''c1'']"
    using pl b1 by (cases ?q) (simp add: record_plan_def)
  have log: "turn_log_ok \<lparr>tl_turn = 1, tl_actions = tp_actions pl, tl_results = [?tr]\<rparr>" unfolding pl by code_simp
  have client: "client_ok sample_env" by (simp add: client_ok_def sample_env_def result_ids_def)
  note seeded = seeded_conversation
  have "bs_turns (interpret_results [?tr] b2) = bs_turns b2" by (simp add: interpret_results_def brain_interpret_def Let_def)
  moreover have "conversation sample_config (interpret_results [?tr] b2)
     \<and> pending_ids (interpret_results [?tr] b2) = open_calls (bs_turns (interpret_results [?tr] b2))"
    using turn_leaves_ready [OF _ _ _ client b1 p b2(1) log] seeded
    by (simp add: finish_first_def runnable_def tool_use_action_def ActFinish_def split: if_splits)
  ultimately show ?thesis using b2(2) by metis
qed

text \<open>That a finishing call stays open is real: the core ends a run at a lone call of \<^verbatim>\<open>finish\<close> without
  reconciling, so the transcript keeps a call that no result answers, and a run that is kept going sends it again.\<close>

definition finishing_env :: brain_env where
  "finishing_env = sample_env\<lparr>en_complete := (\<lambda>_ _ _. Inr \<lparr>tu_role = ''assistant'', tu_blocks = [BToolUse ''c1'' ''finish'' None]\<rparr>)\<rparr>"

lemma finish_call_unanswered:
  "let (b, r) = brain_respond sample_config finishing_env sample_observation seeded_brain in
     (case r of Inr response \<Rightarrow> runnable (ar_actions response) = [] \<and> finish_answer (ar_actions response) \<noteq> None | Inl _ \<Rightarrow> False)
     \<and> open_calls (bs_turns b) = [''c1''] \<and> bs_pending b = []"
  by code_simp

end
