(* ===== verification/Json_Struct.thy ===== *)
theory Json_Struct
  imports Json_Round
begin

section \<open>Structs as JSON (encoding/json)\<close>

text \<open>
  How a Go struct is written (fields in their order, compact or indented) and read (fields found by
  name, strictly or not). Several components keep their configuration or talk in this form.
\<close>

subsection \<open>Writing\<close>

text \<open>A byte that is not UTF-8 is written as the escape of U+FFFD, which a valid U+FFFD is not.\<close>

fun escape_runes :: "nat \<Rightarrow> string \<Rightarrow> string" where
  "escape_runes 0 s = []"
| "escape_runes (Suc n) s =
     (if s = [] then []
      else (case rune_len s of
          None \<Rightarrow> CHR 0x5C # ''ufffd'' @ escape_runes n (tl s)
        | Some k \<Rightarrow> escape_string (take k s) @ escape_runes n (drop k s)))"

definition escape_text :: "string \<Rightarrow> string" where
  "escape_text s = escape_runes (length s) s"

definition quoted_key :: "string \<Rightarrow> string" where
  "quoted_key k = [CHR 0x22] @ escape_text k @ [CHR 0x22]"

text \<open>\<open>br\<close> breaks a line before a value of the given depth, \<open>gap\<close> follows a colon. Members keep their order.\<close>

fun laid_out :: "(nat \<Rightarrow> string) \<Rightarrow> string \<Rightarrow> nat \<Rightarrow> json \<Rightarrow> string" where
  "laid_out br gap d (JArray vs) =
     (if vs = [] then ''[]''
      else CHR 0x5B # br (Suc d) @ join_on (CHR '','' # br (Suc d)) (map (laid_out br gap (Suc d)) vs) @ br d @ [CHR 0x5D])"
| "laid_out br gap d (JObject ms) =
     (if ms = [] then [CHR 0x7B, CHR 0x7D]
      else CHR 0x7B # br (Suc d)
           @ join_on (CHR '','' # br (Suc d)) (map (\<lambda>(k, v). quoted_key k @ CHR '':'' # gap @ laid_out br gap (Suc d) v) ms)
           @ br d @ [CHR 0x7D])"
| "laid_out br gap d (JString s) = quoted_key s"
| "laid_out br gap d v = marshal v"

text \<open>\<^verbatim>\<open>json.Marshal\<close> and \<^verbatim>\<open>json.MarshalIndent\<close> with two spaces.\<close>

definition compact_json :: "json \<Rightarrow> string" where
  "compact_json = laid_out (\<lambda>_. []) [] 0"

definition indented_json :: "json \<Rightarrow> string" where
  "indented_json = laid_out (\<lambda>d. CHR 0x0A # replicate (2 * d) CHR 0x20) [CHR 0x20] 0"

text \<open>A field that is omitted when it is empty.\<close>

definition omit_empty :: "bool \<Rightarrow> string \<Rightarrow> json \<Rightarrow> (string \<times> json) list" where
  "omit_empty is_empty k v = (if is_empty then [] else [(k, v)])"

definition json_strings :: "string list \<Rightarrow> json" where
  "json_strings ss = JArray (map JString ss)"

definition json_int :: "int \<Rightarrow> json" where
  "json_int i = JNumber (show_int i)"

subsection \<open>Reading\<close>

text \<open>Names are compared without case; two letters beyond ASCII fold into it (U+017F, U+212A).\<close>

definition lower_byte :: "char \<Rightarrow> char" where
  "lower_byte c = (if 65 \<le> byte c \<and> byte c \<le> 90 then char_of (byte c + 32) else c)"

fun fold_name :: "string \<Rightarrow> string" where
  "fold_name (a # b # c # r) =
     (if a = CHR 0xC5 \<and> b = CHR 0xBF then CHR ''s'' # fold_name (c # r)
      else if a = CHR 0xE2 \<and> b = CHR 0x84 \<and> c = CHR 0xAA then CHR ''k'' # fold_name r
      else lower_byte a # fold_name (b # c # r))"
| "fold_name [a, b] = (if a = CHR 0xC5 \<and> b = CHR 0xBF then ''s'' else [lower_byte a, lower_byte b])"
| "fold_name s = map lower_byte s"

type_synonym 's fields = "(string \<times> (json \<Rightarrow> 's \<Rightarrow> error + 's)) list"

definition field_named :: "'s fields \<Rightarrow> string \<Rightarrow> (json \<Rightarrow> 's \<Rightarrow> error + 's) option" where
  "field_named fs k =
     (case map_of fs k of
        Some f \<Rightarrow> Some f
      | None \<Rightarrow> map_option snd (List.find (\<lambda>(n, f). fold_name n = fold_name k) fs))"

definition json_kind :: "json \<Rightarrow> string" where
  "json_kind v = (case v of JNull \<Rightarrow> ''null'' | JBool _ \<Rightarrow> ''bool'' | JNumber _ \<Rightarrow> ''number'' | JString _ \<Rightarrow> ''string''
     | JArray _ \<Rightarrow> ''array'' | JObject _ \<Rightarrow> ''object'')"

definition type_mismatch :: "json \<Rightarrow> string \<Rightarrow> error" where
  "type_mismatch v ty = ''json: cannot unmarshal '' @ json_kind v @ '' into Go value of type '' @ ty"

definition unknown_field :: "string \<Rightarrow> error" where
  "unknown_field k = ''json: unknown field '' @ quoted k"

text \<open>A struct takes an object member by member and is left as it is by null.\<close>

definition member_into :: "bool \<Rightarrow> 's fields \<Rightarrow> 's \<Rightarrow> string \<times> json \<Rightarrow> error + 's" where
  "member_into strict fs s m =
     (case field_named fs (fst m) of
        Some f \<Rightarrow> f (snd m) s
      | None \<Rightarrow> if strict then Inl (unknown_field (fst m)) else Inr s)"

definition struct_into :: "bool \<Rightarrow> 's fields \<Rightarrow> json \<Rightarrow> 's \<Rightarrow> error + 's" where
  "struct_into strict fs v s =
     (case v of
        JNull \<Rightarrow> Inr s
      | JObject ms \<Rightarrow> fold_res (member_into strict fs) s ms
      | _ \<Rightarrow> Inl (type_mismatch v ''struct''))"

definition string_into :: "json \<Rightarrow> string \<Rightarrow> error + string" where
  "string_into v s = (case v of JNull \<Rightarrow> Inr s | JString t \<Rightarrow> Inr t | _ \<Rightarrow> Inl (type_mismatch v ''string''))"

definition bool_into :: "json \<Rightarrow> bool \<Rightarrow> error + bool" where
  "bool_into v b = (case v of JNull \<Rightarrow> Inr b | JBool c \<Rightarrow> Inr c | _ \<Rightarrow> Inl (type_mismatch v ''bool''))"

text \<open>An integer is written without fraction or exponent and fits 64 bits.\<close>

definition int_of_text :: "string \<Rightarrow> int option" where
  "int_of_text s =
     (let digits = (case s of c # r \<Rightarrow> if c = CHR ''-'' then r else s | [] \<Rightarrow> []);
          n = foldl (\<lambda>n c. 10 * n + int (byte c - 48)) 0 digits;
          i = (if s \<noteq> [] \<and> hd s = CHR ''-'' then - n else n)
      in if digits \<noteq> [] \<and> (\<forall>c \<in> set digits. is_digit c) \<and> - (2 ^ 63) \<le> i \<and> i < 2 ^ 63 then Some i else None)"

definition int_into :: "json \<Rightarrow> int \<Rightarrow> error + int" where
  "int_into v i =
     (case v of
        JNull \<Rightarrow> Inr i
      | JNumber t \<Rightarrow> (case int_of_text t of Some j \<Rightarrow> Inr j | None \<Rightarrow> Inl (type_mismatch v ''int''))
      | _ \<Rightarrow> Inl (type_mismatch v ''int''))"

text \<open>Elements are read into those the slice already has; null empties the slice.\<close>

fun strings_into :: "string list \<Rightarrow> json list \<Rightarrow> error + string list" where
  "strings_into old [] = Inr []"
| "strings_into old (v # vs) =
     and_then (string_into v (case old of [] \<Rightarrow> [] | s # _ \<Rightarrow> s)) (\<lambda>s.
     and_then (strings_into (tl old) vs) (\<lambda>ss. Inr (s # ss)))"

definition string_list_into :: "json \<Rightarrow> string list \<Rightarrow> error + string list" where
  "string_list_into v old =
     (case v of JNull \<Rightarrow> Inr [] | JArray vs \<Rightarrow> strings_into old vs | _ \<Rightarrow> Inl (type_mismatch v ''[]string''))"

text \<open>A map keeps its entries and takes each member's value, read from nothing.\<close>

fun put_entry :: "string \<Rightarrow> 'v \<Rightarrow> (string \<times> 'v) list \<Rightarrow> (string \<times> 'v) list" where
  "put_entry k v [] = [(k, v)]"
| "put_entry k v (e # es) = (if fst e = k then (k, v) # es else e # put_entry k v es)"

definition map_into :: "(json \<Rightarrow> error + 'v) \<Rightarrow> json \<Rightarrow> (string \<times> 'v) list \<Rightarrow> error + (string \<times> 'v) list" where
  "map_into f v es =
     (case v of
        JNull \<Rightarrow> Inr []
      | JObject ms \<Rightarrow> fold_res (\<lambda>es (k, v). and_then (f v) (\<lambda>x. Inr (put_entry k x es))) es ms
      | _ \<Rightarrow> Inl (type_mismatch v ''map''))"

text \<open>One field of a record, from the reader of its type, its selector and its update.\<close>

definition field :: "string \<Rightarrow> (json \<Rightarrow> 'a \<Rightarrow> error + 'a) \<Rightarrow> ('s \<Rightarrow> 'a) \<Rightarrow> ('a \<Rightarrow> 's \<Rightarrow> 's) \<Rightarrow> string \<times> (json \<Rightarrow> 's \<Rightarrow> error + 's)" where
  "field k rd get put = (k, \<lambda>v s. and_then (rd v (get s)) (\<lambda>x. Inr (put x s)))"

text \<open>A decoder that admits nothing but white space after its value.\<close>

definition decode_exactly :: "(json \<Rightarrow> error + 's) \<Rightarrow> string \<Rightarrow> error + 's" where
  "decode_exactly f s =
     (case parse_value (parse_fuel s) s of
        None \<Rightarrow> Inl ''invalid JSON''
      | Some (v, r) \<Rightarrow> and_then (f v) (\<lambda>x. if skip_ws r = [] then Inr x else Inl ''trailing data''))"

subsection \<open>What is written can be read\<close>

lemma escape_string_take:
  assumes "rune_len s = Some k"
  shows "escape_string s = escape_string (take k s) @ escape_string (drop k s)"
proof (cases "wide_separator s")
  case True
  then obtain b where b: "s = [CHR 0xE2, CHR 0x80, if b then CHR 0xA8 else CHR 0xA9] @ drop 3 s"
    "escape_string s = [CHR 0x5C, CHR ''u'', CHR ''2'', CHR ''0'', CHR ''2'', if b then CHR ''8'' else CHR ''9''] @ escape_string (drop 3 s)"
    by (rule escape_separator)
  have "rune_len ([CHR 0xE2, CHR 0x80, if b then CHR 0xA8 else CHR 0xA9] @ drop 3 s) = Some 3"
    by (cases b) (simp_all add: rune_len.simps byte_def cont_byte_def)
  then have k: "k = 3" using assms b(1) by simp
  have "take 3 s = [CHR 0xE2, CHR 0x80, if b then CHR 0xA8 else CHR 0xA9]" using b(1) by (metis append_eq_conv_conj length_Cons list.size(3) numeral_3_eq_3)
  then have "escape_string (take 3 s) = [CHR 0x5C, CHR ''u'', CHR ''2'', CHR ''0'', CHR ''2'', if b then CHR ''8'' else CHR ''9'']"
    by (cases b) simp_all
  with b(2) k show ?thesis by simp
next
  case plain: False
  note bounds = rune_len_bounds [OF assms]
  show ?thesis
  proof (cases "k = 1")
    case True
    obtain c u where s: "s = c # u" using bounds by (cases s) auto
    show ?thesis using escape_string_Cons [OF plain [unfolded s]] True s by simp
  next
    case False
    then have k: "1 < k" using bounds by simp
    have "escape_string s = take k s @ escape_string (drop k s)" by (rule escape_rune [OF assms k plain])
    moreover have "\<not> wide_separator (take k s)"
    proof (cases "3 \<le> k")
      case False
      then have "length (take 3 (take k s)) < 3" by simp
      then show ?thesis unfolding wide_separator_def by (metis length_Cons less_irrefl list.size(3) numeral_3_eq_3)
    qed (use plain in \<open>simp add: wide_separator_def\<close>)
    then have "escape_string (take k s) = take k s"
      using escape_rune [of "take k s" k] rune_len_prefix [OF assms, of "[]"] k bounds by simp
    ultimately show ?thesis by simp
  qed
qed

lemma escape_runes_valid: "valid_utf8_fuel n s \<Longrightarrow> escape_runes n s = escape_string s"
proof (induction n arbitrary: s)
  case (Suc n)
  then show ?case by (cases "s = []") (auto simp: escape_string_take split: option.splits)
qed simp

lemma escape_text_valid: "valid_utf8 s \<Longrightarrow> escape_text s = escape_string s"
  by (simp add: escape_text_def valid_utf8_def escape_runes_valid)

definition ws_only :: "string \<Rightarrow> bool" where
  "ws_only w \<longleftrightarrow> (\<forall>c \<in> set w. json_space c)"

lemma skip_ws_only [simp]: "ws_only w \<Longrightarrow> skip_ws (w @ t) = skip_ws t"
  by (induction w) (auto simp: ws_only_def skip_ws_def)

definition read_back :: "(json \<Rightarrow> string) \<Rightarrow> json \<Rightarrow> bool" where
  "read_back f v \<longleftrightarrow> (\<forall>w t. ws_only w \<and> value_end t \<longrightarrow> (\<exists>n0. \<forall>n \<ge> n0. parse_value n (w @ f v @ t) = Some (v, t)))"

lemma read_backD:
  "read_back f v \<Longrightarrow> ws_only w \<Longrightarrow> value_end t \<Longrightarrow> \<exists>n0. \<forall>n \<ge> n0. parse_value n (w @ f v @ t) = Some (v, t)"
  by (simp add: read_back_def)

lemma value_end_ws: "ws_only w \<Longrightarrow> value_end t \<Longrightarrow> value_end (w @ t)"
  by (cases w) (auto simp: ws_only_def value_end_def)

lemma skip_first: "\<not> json_space c \<Longrightarrow> skip_ws (c # u) = c # u"
  by (simp add: skip_ws_def)

lemma skip_closing [simp]: "skip_ws (CHR 0x5D # t) = CHR 0x5D # t" "skip_ws (CHR 0x7D # t) = CHR 0x7D # t"
  "skip_ws (CHR '','' # t) = CHR '','' # t" "skip_ws (CHR '':'' # t) = CHR '':'' # t" "skip_ws (CHR 0x22 # t) = CHR 0x22 # t"
  by (simp_all add: skip_ws_def json_space_def)

lemma elements_read_back:
  assumes "vs \<noteq> []" and "\<forall>v \<in> set vs. read_back f v" and w: "ws_only w" "ws_only w'"
  shows "\<exists>n0. \<forall>n \<ge> n0. parse_elements n (w @ join_on (CHR '','' # w) (map f vs) @ w' @ CHR 0x5D # t) = Some (vs, t)"
  using assms(1,2)
proof (induction vs rule: induct_list012)
  case (2 v)
  have "read_back f v" using 2 by simp
  then obtain n0 where n0: "\<And>n. n \<ge> n0 \<Longrightarrow> parse_value n (w @ f v @ w' @ CHR 0x5D # t) = Some (v, w' @ CHR 0x5D # t)"
    using read_backD [OF _ w(1) value_end_ws [OF w(2) value_end_simps(2)]] by blast
  have "parse_elements (Suc n) (w @ f v @ w' @ CHR 0x5D # t) = Some ([v], t)" if "n \<ge> n0" for n
    using n0 [OF that] w(2) by (simp add: parse_elements.simps)
  then have "parse_elements n (w @ f v @ w' @ CHR 0x5D # t) = Some ([v], t)" if "n \<ge> Suc n0" for n
    using that by (cases n) auto
  then show ?case by auto
next
  case (3 v x vs)
  let ?t = "w @ join_on (CHR '','' # w) (map f (x # vs)) @ w' @ CHR 0x5D # t"
  obtain n1 where n1: "\<And>n. n \<ge> n1 \<Longrightarrow> parse_elements n ?t = Some (x # vs, t)"
    using 3 by auto
  have "read_back f v" using 3 by simp
  then obtain n0 where n0: "\<And>n. n \<ge> n0 \<Longrightarrow> parse_value n (w @ f v @ CHR '','' # ?t) = Some (v, CHR '','' # ?t)"
    using read_backD [OF _ w(1) value_end_simps(1)] by blast
  have split: "w @ join_on (CHR '','' # w) (map f (v # x # vs)) @ w' @ CHR 0x5D # t = w @ f v @ CHR '','' # ?t" by simp
  have "parse_elements (Suc n) (w @ f v @ CHR '','' # ?t) = Some (v # x # vs, t)" if "n \<ge> max n0 n1" for n
    using n0 [of n] n1 [of n] that by (simp add: parse_elements.simps)
  then have "parse_elements n (w @ f v @ CHR '','' # ?t) = Some (v # x # vs, t)" if "n \<ge> Suc (max n0 n1)" for n
    using that by (cases n) auto
  then show ?case unfolding split by blast
qed simp

definition member_out :: "(json \<Rightarrow> string) \<Rightarrow> string \<Rightarrow> string \<times> json \<Rightarrow> string" where
  "member_out f gap = (\<lambda>(k, v). quoted_key k @ CHR '':'' # gap @ f v)"

lemma one_member:
  assumes "valid_utf8 k" and "ws_only w" and v: "parse_value n (gap @ f v @ r) = Some (v, r)"
  shows "parse_members (Suc n) (w @ member_out f gap (k, v) @ r) =
     (case skip_ws r of
        [] \<Rightarrow> None
      | e # r4 \<Rightarrow> if e = CHR 0x7D then Some ([(k, v)], r4)
                  else if e = CHR '','' then map_option (apfst ((#) (k, v))) (parse_members n r4) else None)"
  using parse_quoted [OF assms(1), of "CHR '':'' # gap @ f v @ r"] assms(2) v
  by (simp add: parse_members.simps member_out_def quoted_key_def escape_text_valid [OF assms(1)])

lemma members_read_back:
  assumes "ms \<noteq> []" and "\<forall>(k, v) \<in> set ms. valid_utf8 k \<and> read_back f v" and w: "ws_only w" "ws_only w'" "ws_only gap"
  shows "\<exists>n0. \<forall>n \<ge> n0. parse_members n (w @ join_on (CHR '','' # w) (map (member_out f gap) ms) @ w' @ CHR 0x7D # t) = Some (ms, t)"
  using assms(1,2)
proof (induction ms rule: induct_list012)
  case (2 m)
  obtain k v where m: "m = (k, v)" by (cases m)
  have k: "valid_utf8 k" and "read_back f v" using 2 m by auto
  then obtain n0 where n0: "\<And>n. n \<ge> n0 \<Longrightarrow> parse_value n (gap @ f v @ w' @ CHR 0x7D # t) = Some (v, w' @ CHR 0x7D # t)"
    using read_backD [OF _ w(3) value_end_ws [OF w(2) value_end_simps(3)]] by blast
  have "parse_members (Suc n) (w @ member_out f gap m @ w' @ CHR 0x7D # t) = Some ([m], t)" if "n \<ge> n0" for n
    using one_member [where k = k and w = w and n = n and gap = gap and f = f and v = v and r = "w' @ CHR 0x7D # t"] k n0 [OF that] w m by simp
  then have "parse_members n (w @ member_out f gap m @ w' @ CHR 0x7D # t) = Some ([m], t)" if "n \<ge> Suc n0" for n
    using that by (cases n) auto
  then show ?case by auto
next
  case (3 m m' ms)
  obtain k v where m: "m = (k, v)" by (cases m)
  let ?t = "w @ join_on (CHR '','' # w) (map (member_out f gap) (m' # ms)) @ w' @ CHR 0x7D # t"
  obtain n1 where n1: "\<And>n. n \<ge> n1 \<Longrightarrow> parse_members n ?t = Some (m' # ms, t)"
    using 3 by auto
  have k: "valid_utf8 k" and "read_back f v" using 3 m by auto
  then obtain n0 where n0: "\<And>n. n \<ge> n0 \<Longrightarrow> parse_value n (gap @ f v @ CHR '','' # ?t) = Some (v, CHR '','' # ?t)"
    using read_backD [OF _ w(3) value_end_simps(1)] by blast
  have split: "w @ join_on (CHR '','' # w) (map (member_out f gap) (m # m' # ms)) @ w' @ CHR 0x7D # t = w @ member_out f gap m @ CHR '','' # ?t" by simp
  have "parse_members (Suc n) (w @ member_out f gap m @ CHR '','' # ?t) = Some (m # m' # ms, t)" if n: "n \<ge> max n0 n1" for n
  proof -
    have "n \<ge> n0" "n \<ge> n1" using n by auto
    then show ?thesis using one_member [where k = k and w = w and n = n and gap = gap and f = f and v = v and r = "CHR '','' # ?t"] k w n0 [of n] n1 [of n] m by simp
  qed
  then have "parse_members n (w @ member_out f gap m @ CHR '','' # ?t) = Some (m # m' # ms, t)" if "n \<ge> Suc (max n0 n1)" for n
    using that by (cases n) auto
  then show ?case unfolding split by blast
qed simp

lemma laid_out_first: "json_ok v \<Longrightarrow> \<exists>c u. laid_out br gap d v = c # u \<and> \<not> json_space c \<and> c \<noteq> CHR 0x5D \<and> c \<noteq> CHR 0x7D"
  using marshal_first [of v] by (cases v) (auto simp: json_space_def quoted_key_def)

lemma read_back_from:
  assumes "\<And>w t. ws_only w \<Longrightarrow> value_end t \<Longrightarrow> \<exists>n0. \<forall>n \<ge> n0. parse_value (Suc n) (w @ f v @ t) = Some (v, t)"
  shows "read_back f v"
  unfolding read_back_def
proof (intro allI impI)
  fix w t assume "ws_only w \<and> value_end t"
  then obtain n0 where n0: "\<And>n. n \<ge> n0 \<Longrightarrow> parse_value (Suc n) (w @ f v @ t) = Some (v, t)" using assms by blast
  have "parse_value n (w @ f v @ t) = Some (v, t)" if "n \<ge> Suc n0" for n using n0 [of "n - 1"] that by (cases n) auto
  then show "\<exists>n0. \<forall>n \<ge> n0. parse_value n (w @ f v @ t) = Some (v, t)" by blast
qed

lemma read_back_atom:
  assumes "reads v" and "canon v = v" and "\<And>d. laid_out br gap d v = marshal v"
  shows "read_back (laid_out br gap d) v"
proof (rule read_back_from)
  fix w t assume w: "ws_only w" and t: "value_end t"
  obtain n0 where n0: "\<And>n. n \<ge> n0 \<Longrightarrow> parse_value n (marshal v @ t) = Some (v, t)"
    using reads_at [OF assms(1) t] assms(2) by auto
  have "parse_value (Suc n) (w @ marshal v @ t) = parse_value (Suc n) (marshal v @ t)" for n
    using w by (simp add: parse_value.simps)
  with n0 show "\<exists>n0. \<forall>n \<ge> n0. parse_value (Suc n) (w @ laid_out br gap d v @ t) = Some (v, t)"
    unfolding assms(3) by (metis le_Suc_eq)
qed

lemma laid_out_reads:
  assumes br: "\<And>d. ws_only (br d)" and gap: "ws_only gap" and "json_ok v"
  shows "read_back (laid_out br gap d) v"
  using assms(3)
proof (induction v arbitrary: d)
  case (JArray vs)
  show ?case
  proof (cases vs)
    case Nil
    then show ?thesis by (intro read_back_from) (simp add: parse_value.simps, simp add: skip_ws_def json_space_def)
  next
    case (Cons v ws)
    show ?thesis
    proof (rule read_back_from)
      fix w t :: string assume w: "ws_only w"
      let ?r = "br (Suc d) @ join_on (CHR '','' # br (Suc d)) (map (laid_out br gap (Suc d)) vs) @ br d @ CHR 0x5D # t"
      have all: "\<forall>v \<in> set vs. read_back (laid_out br gap (Suc d)) v" using JArray by (auto simp: list_all_iff)
      obtain n0 where n0: "\<And>n. n \<ge> n0 \<Longrightarrow> parse_elements n ?r = Some (vs, t)"
        using elements_read_back [OF _ all br [of "Suc d"] br [of d], of t] Cons by auto
      have "json_ok v" using JArray.prems Cons by simp
      then obtain c u where c: "laid_out br gap (Suc d) v = c # u" "\<not> json_space c" "c \<noteq> CHR 0x5D" using laid_out_first [of v] by blast
      then obtain u' where r: "skip_ws ?r = c # u'" using Cons br by (cases ws) (auto simp: skip_first)
      have "skip_ws (w @ laid_out br gap d (JArray vs) @ t) = CHR 0x5B # ?r" using Cons w by (simp add: skip_first json_space_def)
      then have "parse_value (Suc n) (w @ laid_out br gap d (JArray vs) @ t) = Some (JArray vs, t)" if "n \<ge> n0" for n
        using n0 [OF that] r c by (simp add: parse_value.simps del: laid_out.simps)
      then show "\<exists>n0. \<forall>n \<ge> n0. parse_value (Suc n) (w @ laid_out br gap d (JArray vs) @ t) = Some (JArray vs, t)" by blast
    qed
  qed
next
  case (JObject ms)
  show ?case
  proof (cases ms)
    case Nil
    then show ?thesis by (intro read_back_from) (simp add: parse_value.simps, simp add: skip_ws_def json_space_def)
  next
    case (Cons m ms')
    show ?thesis
    proof (rule read_back_from)
      fix w t :: string assume w: "ws_only w"
      let ?f = "laid_out br gap (Suc d)"
      let ?r = "br (Suc d) @ join_on (CHR '','' # br (Suc d)) (map (member_out ?f gap) ms) @ br d @ CHR 0x7D # t"
      have "read_back ?f v" if "(k, v) \<in> set ms" for k v
        using JObject.IH [OF that, of v] JObject.prems that by (auto simp: list_all_iff)
      then have all: "\<forall>(k, v) \<in> set ms. valid_utf8 k \<and> read_back ?f v" using JObject.prems by (auto simp: list_all_iff)
      obtain n0 where n0: "\<And>n. n \<ge> n0 \<Longrightarrow> parse_members n ?r = Some (ms, t)"
        using members_read_back [OF _ all br [of "Suc d"] br [of d] gap, of t] Cons by auto
      obtain k v where m: "m = (k, v)" by (cases m)
      obtain u' where r: "skip_ws ?r = CHR 0x22 # u'"
        using Cons m br by (cases ms') (auto simp: member_out_def quoted_key_def)
      have "skip_ws (w @ laid_out br gap d (JObject ms) @ t) = CHR 0x7B # ?r"
        using Cons w unfolding member_out_def by (simp add: skip_first json_space_def)
      then have "parse_value (Suc n) (w @ laid_out br gap d (JObject ms) @ t) = Some (JObject ms, t)" if "n \<ge> n0" for n
        using n0 [OF that] r by (simp add: parse_value.simps del: laid_out.simps)
      then show "\<exists>n0. \<forall>n \<ge> n0. parse_value (Suc n) (w @ laid_out br gap d (JObject ms) @ t) = Some (JObject ms, t)" by blast
    qed
  qed
qed (simp_all add: read_back_atom json_reads quoted_key_def escape_text_valid)

text \<open>What a struct was written as, in either form, is the value that is read.\<close>

lemma decode_written:
  assumes "read_back f v" and "ws_only w"
  shows "decode_exactly g (f v @ w) = g v"
proof -
  have "value_end w" using value_end_ws [OF assms(2), of "[]"] by (simp add: value_end_def)
  then obtain n0 where n0: "\<And>n. n \<ge> n0 \<Longrightarrow> parse_value n (f v @ w) = Some (v, w)"
    using read_backD [OF assms(1), of "[]" w] by (auto simp: ws_only_def)
  have "parse_value (parse_fuel (f v @ w)) (f v @ w) = parse_value (max n0 (parse_fuel (f v @ w))) (f v @ w)"
    using parse_value_fuel [of "f v @ w" "max n0 (parse_fuel (f v @ w))"] by simp
  then have "parse_value (parse_fuel (f v @ w)) (f v @ w) = Some (v, w)" using n0 [of "max n0 (parse_fuel (f v @ w))"] by simp
  moreover have "skip_ws w = []" using skip_ws_only [OF assms(2), of "[]"] by (simp add: skip_ws_def)
  ultimately show ?thesis by (cases "g v") (auto simp: decode_exactly_def)
qed

lemma compact_reads: "json_ok v \<Longrightarrow> read_back compact_json v"
  unfolding compact_json_def by (intro laid_out_reads) (auto simp: ws_only_def)

lemma indented_reads: "json_ok v \<Longrightarrow> read_back indented_json v"
  unfolding indented_json_def by (intro laid_out_reads) (auto simp: ws_only_def json_space_def)

lemma compact_inject:
  assumes "json_ok v" and "json_ok v'" and "compact_json v = compact_json v'"
  shows "v = v'"
  using decode_written [OF compact_reads [OF assms(1)], of "[]" Inr] decode_written [OF compact_reads [OF assms(2)], of "[]" Inr] assms(3)
  by (simp add: ws_only_def)

subsection \<open>What is read is well formed\<close>

lemma valid_utf8_fuel_more: "valid_utf8_fuel n s \<Longrightarrow> n \<le> m \<Longrightarrow> valid_utf8_fuel m s"
proof (induction n arbitrary: m s)
  case 0
  then show ?case by (cases m) auto
next
  case (Suc n)
  then show ?case by (cases m) (auto split: option.splits)
qed

lemma valid_utf8_rune:
  assumes "rune_len s = Some k" and "valid_utf8 (drop k s)"
  shows "valid_utf8 s"
proof -
  note bounds = rune_len_bounds [OF assms(1)]
  then obtain n where n: "length s = Suc n" by (cases s) auto
  have "valid_utf8_fuel n (drop k s)"
    using assms(2) bounds n unfolding valid_utf8_def by (auto elim: valid_utf8_fuel_more)
  then show ?thesis using assms(1) n by (simp add: valid_utf8_def)
qed

lemma valid_utf8_append:
  assumes "valid_utf8_fuel n s" and "valid_utf8 t"
  shows "valid_utf8 (s @ t)"
  using assms(1)
proof (induction n arbitrary: s)
  case (Suc n)
  show ?case
  proof (cases "s = []")
    case False
    then obtain k where k: "rune_len s = Some k" and rest: "valid_utf8_fuel n (drop k s)" using Suc.prems by (auto split: option.splits)
    have "rune_len (s @ t) = Some k" using rune_len_prefix [OF k, of "drop k s @ t"] unfolding append_assoc [symmetric] append_take_drop_id .
    moreover have "drop k (s @ t) = drop k s @ t" using rune_len_bounds [OF k] by simp
    ultimately show ?thesis using Suc.IH [OF rest] valid_utf8_rune by metis
  qed (simp add: assms(2))
qed (simp add: assms(2))

lemma valid_append [intro]: "valid_utf8 s \<Longrightarrow> valid_utf8 t \<Longrightarrow> valid_utf8 (s @ t)"
  unfolding valid_utf8_def [of s] by (rule valid_utf8_append)

lemma valid_one_rune: "rune_len s = Some k \<Longrightarrow> valid_utf8 (take k s)"
  using rune_len_prefix [of s k "[]"] by (auto intro: valid_utf8_rune [of _ k])

lemma byte_char_of [simp]: "n < 256 \<Longrightarrow> byte (char_of n) = n"
  by (simp add: byte_def)

lemma valid_ascii: "byte c < 128 \<Longrightarrow> valid_utf8 [c]"
  by (rule valid_utf8_rune [of _ 1]) (auto simp: rune_len.simps)

lemma valid_Cons: "byte c < 128 \<Longrightarrow> valid_utf8 s \<Longrightarrow> valid_utf8 (c # s)"
  using valid_append [OF valid_ascii, of c s] by simp

lemma valid_ascii_text: "\<forall>c \<in> set s. byte c < 128 \<Longrightarrow> valid_utf8 s"
  by (induction s) (auto intro: valid_Cons)

lemma valid_encoded:
  assumes "u < 1114112" and "\<not> (55296 \<le> u \<and> u < 57344)"
  shows "valid_utf8 (utf8_encode u)"
proof -
  consider "u < 128" | "128 \<le> u" "u < 2048" | "2048 \<le> u" "u < 65536" | "65536 \<le> u" by linarith
  then show ?thesis
  proof cases
    case 1
    then show ?thesis by (simp add: utf8_encode_def valid_ascii)
  next
    case 2
    have "rune_len (utf8_encode u) = Some 2" using 2 by (auto simp: utf8_encode_def rune_len.simps cont_byte_def Let_def)
    from valid_utf8_rune [OF this] 2 show ?thesis by (auto simp: utf8_encode_def)
  next
    case 3
    have "u div 64 mod 64 \<le> 31" if c: "\<not> 55296 \<le> u" "u div 4096 = 13"
    proof -
      have "u div 64 < 864" "u div 64 div 64 = 13" using c by (simp_all add: div_mult2_eq [symmetric])
      then show ?thesis using minus_mult_div_eq_mod [of "u div 64" 64] by linarith
    qed
    then have "rune_len (utf8_encode u) = Some 3" using 3 assms(2) by (auto simp: utf8_encode_def rune_len.simps cont_byte_def Let_def)
    from valid_utf8_rune [OF this] 3 show ?thesis by (auto simp: utf8_encode_def)
  next
    case 4
    have "u div 4096 mod 64 \<le> 15" if c: "u div 262144 = 4"
    proof -
      have "u div 4096 < 272" "u div 4096 div 64 = 4" using c assms(1) by (simp_all add: div_mult2_eq [symmetric])
      then show ?thesis using minus_mult_div_eq_mod [of "u div 4096" 64] by linarith
    qed
    then have "rune_len (utf8_encode u) = Some 4" using 4 assms(1) by (auto simp: utf8_encode_def rune_len.simps cont_byte_def Let_def)
    from valid_utf8_rune [OF this] 4 show ?thesis by (auto simp: utf8_encode_def)
  qed
qed

lemma valid_replacement [simp]: "valid_utf8 replacement"
  by (simp add: replacement_def valid_utf8_def rune_len.simps byte_def cont_byte_def numeral_3_eq_3)

lemma hex4_bound: "hex4 s = Some (u, r) \<Longrightarrow> u < 65536"
proof (induction s rule: hex4.induct)
  case (1 a b c d r')
  have bound: "hex_value x = Some w \<Longrightarrow> w < 16" for x w by (auto simp: hex_value_def Let_def split: if_splits)
  show ?case using 1 bound by (auto split: option.splits) (fastforce dest: bound)
qed auto

lemma valid_escape:
  assumes "unicode_escape s = Some (t, r)"
  shows "valid_utf8 t"
proof -
  obtain u r1 where u: "hex4 s = Some (u, r1)" using assms by (auto simp: unicode_escape_def split: option.splits)
  have "u < 65536" by (rule hex4_bound [OF u])
  with u assms show ?thesis
    by (cases "55296 \<le> u \<and> u < 57344") (auto simp: unicode_escape_def intro!: valid_encoded split: option.splits if_splits)
qed

lemma valid_parsed: "parse_string n s = Some (x, r) \<Longrightarrow> valid_utf8 x"
proof (induction n arbitrary: s x r)
  case 0
  then show ?case by (simp add: parse_string.simps)
next
  case (Suc n)
  have simple: "valid_utf8 (c # y)" if "simple_escape e = Some c" "valid_utf8 y" for c e y
    using valid_append [OF valid_ascii [of c] that(2)] that(1) by (auto simp: simple_escape_def byte_def split: if_splits)
  show ?case
    using Suc.prems
    by (auto simp: parse_string.simps(2) split: list.splits if_splits option.splits
        intro!: valid_append dest: Suc.IH valid_escape valid_one_rune simple)
qed

text \<open>The text of a number is a number by itself.\<close>

definition undigit :: "string \<Rightarrow> bool" where
  "undigit t \<longleftrightarrow> t = [] \<or> \<not> is_digit (hd t)"

lemma undigit_stops: "undigit t \<Longrightarrow> takeWhile is_digit t = [] \<and> dropWhile is_digit t = t"
  unfolding undigit_def by (cases t) auto

lemma undigit_take:
  assumes "undigit t"
  shows "takeWhile is_digit (takeWhile is_digit s @ t) = takeWhile is_digit s" "dropWhile is_digit (takeWhile is_digit s @ t) = t"
proof -
  have all: "is_digit x" if "x \<in> set (takeWhile is_digit s)" for x using that by (auto dest: set_takeWhileD)
  show "takeWhile is_digit (takeWhile is_digit s @ t) = takeWhile is_digit s"
    using undigit_stops [OF assms] takeWhile_append2 [OF all, where ys = t] by simp
  show "dropWhile is_digit (takeWhile is_digit s @ t) = t"
    using undigit_stops [OF assms] dropWhile_append2 [OF all, where ys = t] by simp
qed

lemma int_part_again: "parse_int_part s = Some (d, r) \<Longrightarrow> undigit t \<Longrightarrow> parse_int_part (d @ t) = Some (d, t)"
  by (cases s) (auto simp: parse_int_part_def undigit_take split: if_splits)

lemma int_part_first: "parse_int_part s = Some (d, r) \<Longrightarrow> \<exists>x y. d = x # y \<and> is_digit x"
proof -
  have "is_digit (CHR ''0'')" by (simp add: is_digit_def byte_def)
  moreover assume "parse_int_part s = Some (d, r)"
  ultimately show ?thesis by (cases s) (auto simp: parse_int_part_def split: if_splits)
qed

lemma digits_again: "parse_digits s = Some (d, r) \<Longrightarrow> undigit t \<Longrightarrow> parse_digits (d @ t) = Some (d, t) \<and> d \<noteq> []"
  by (auto simp: parse_digits_def undigit_take split: if_splits)

definition exp_start :: "string \<Rightarrow> bool" where
  "exp_start t \<longleftrightarrow> t = [] \<or> hd t = CHR ''e'' \<or> hd t = CHR ''E''"

lemma exp_undigit: "exp_start t \<Longrightarrow> undigit t"
  by (auto simp: exp_start_def undigit_def is_digit_def byte_def)

lemma frac_again:
  assumes "parse_frac s = Some (d, r)" and "exp_start t"
  shows "parse_frac (d @ t) = Some (d, t) \<and> undigit (d @ t)"
proof (cases "d = []")
  case True
  then show ?thesis using assms exp_undigit [OF assms(2)] by (cases t) (auto simp: parse_frac_def exp_start_def)
next
  case False
  then obtain u d' where s: "s = CHR ''.'' # u" "parse_digits u = Some (d', r)" "d = CHR ''.'' # d'"
    using assms(1) by (auto simp: parse_frac_def split: list.splits if_splits)
  then show ?thesis using digits_again [OF s(2) exp_undigit [OF assms(2)]]
    by (auto simp: parse_frac_def undigit_def is_digit_def byte_def)
qed

lemma exp_again:
  assumes "parse_exp s = Some (d, r)"
  shows "parse_exp d = Some (d, []) \<and> exp_start d"
proof -
  have dig: "parse_digits d' = Some (d', [])" "d' \<noteq> []" "is_digit (hd d')" if "parse_digits u = Some (d', r)" for u d'
  proof -
    show "parse_digits d' = Some (d', [])" "d' \<noteq> []" using digits_again [OF that, of "[]"] by (auto simp: undigit_def)
    then show "is_digit (hd d')" by (cases d') (auto simp: parse_digits_def split: if_splits)
  qed
  consider "d = []" | c sg u d' where "c = CHR ''e'' \<or> c = CHR ''E''" "sg = CHR ''+'' \<or> sg = CHR ''-''" "d = c # sg # d'" "parse_digits u = Some (d', r)"
    | c u d' where "c = CHR ''e'' \<or> c = CHR ''E''" "d = c # d'" "parse_digits u = Some (d', r)"
    using assms by (auto simp: parse_exp_def split: list.splits if_splits)
  then show ?thesis
  proof cases
    case 1
    then show ?thesis by (simp add: parse_exp_def exp_start_def)
  next
    case 2
    then show ?thesis using dig [OF 2(4)] by (auto simp: parse_exp_def exp_start_def)
  next
    case 3
    note d = dig [OF 3(3)]
    then obtain x y where xy: "d' = x # y" "is_digit x" by (cases d') auto
    then have "x \<noteq> CHR ''+''" "x \<noteq> CHR ''-''" by (auto simp: is_digit_def byte_def)
    then show ?thesis using d 3 xy by (auto simp: parse_exp_def exp_start_def)
  qed
qed

lemma number_again:
  assumes "parse_number s = Some (d, r)"
  shows "parse_number d = Some (d, [])"
proof -
  obtain c u where s: "s = c # u" using assms by (cases s) (auto simp: parse_number_def parse_int_part_def)
  let ?sign = "if c = CHR ''-'' then [c] else []" and ?s1 = "if c = CHR ''-'' then u else s"
  obtain i s2 f s3 e where parts: "parse_int_part ?s1 = Some (i, s2)" "parse_frac s2 = Some (f, s3)" "parse_exp s3 = Some (e, r)"
    "d = ?sign @ i @ f @ e"
    using assms s by (auto simp: parse_number_def split: option.splits if_splits)
  note e = exp_again [OF parts(3)]
  have f: "parse_frac (f @ e) = Some (f, e)" "undigit (f @ e)" using frac_again [OF parts(2)] e by auto
  have i: "parse_int_part (i @ f @ e) = Some (i, f @ e)" using int_part_again [OF parts(1) f(2)] .
  obtain x y where xy: "i = x # y" "is_digit x"
    using int_part_first [OF parts(1)] by blast
  then have "x \<noteq> CHR ''-''" by (auto simp: is_digit_def byte_def)
  then show ?thesis using parts(4) i f(1) e xy by (auto simp: parse_number_def)
qed

lemma parsed_ok:
  "parse_value n s = Some (v, r) \<Longrightarrow> json_ok v"
  "parse_members n s = Some (ms, r) \<Longrightarrow> list_all (\<lambda>(k, v). valid_utf8 k \<and> json_ok v) ms"
  "parse_elements n s = Some (vs, r) \<Longrightarrow> list_all json_ok vs"
proof (induction n arbitrary: s v ms vs r)
  case 0
  { case 1 then show ?case by (simp add: parse_value.simps) }
  { case 2 then show ?case by (simp add: parse_members.simps) }
  { case 3 then show ?case by (simp add: parse_elements.simps) }
next
  case (Suc n)
  { case 1 then show ?case
      by (auto simp: parse_value.simps(2) number_again intro: Suc.IH valid_parsed split: list.splits if_splits) }
  { case 2
    then obtain k r1 x r2 v r3 where one: "parse_string (length r1) r1 = Some (k, x)" "parse_value n r2 = Some (v, r3)"
      "ms = [(k, v)] \<or> (\<exists>r4 ms' t. parse_members n r4 = Some (ms', t) \<and> ms = (k, v) # ms')"
      by (auto simp: parse_members.simps(2) split: list.splits if_splits option.splits) blast+
    have "valid_utf8 k" "json_ok v" by (rule valid_parsed [OF one(1)], rule Suc.IH(1) [OF one(2)])
    then show ?case using one(3) Suc.IH(2) by auto }
  { case 3
    then obtain v r1 where one: "parse_value n s = Some (v, r1)" "vs = [v] \<or> (\<exists>r2 ws t. parse_elements n r2 = Some (ws, t) \<and> vs = v # ws)"
      by (auto simp: parse_elements.simps(2) split: list.splits if_splits option.splits) blast+
    then show ?case using Suc.IH(1) [OF one(1)] Suc.IH(3) by auto }
qed

subsection \<open>What a struct keeps\<close>

lemma field_named_mem: "field_named fs k = Some f \<Longrightarrow> \<exists>n. (n, f) \<in> set fs"
  by (auto simp: field_named_def find_Some_iff dest: map_of_SomeD split: option.splits) (metis nth_mem)

text \<open>What every field keeps, reading well-formed values, the struct keeps.\<close>

definition field_keeps :: "('s \<Rightarrow> bool) \<Rightarrow> string \<times> (json \<Rightarrow> 's \<Rightarrow> error + 's) \<Rightarrow> bool" where
  "field_keeps P f \<longleftrightarrow> (\<forall>w x x'. json_ok w \<and> P x \<and> snd f w x = Inr x' \<longrightarrow> P x')"

lemma keeps_field:
  "(\<And>w x a. json_ok w \<Longrightarrow> P x \<Longrightarrow> rd w (get x) = Inr a \<Longrightarrow> P (put a x)) \<Longrightarrow> field_keeps P (field k rd get put)"
  by (auto simp: field_keeps_def field_def and_then_Inr_iff)

lemma struct_into_keeps:
  assumes "struct_into strict fs v s = Inr s'" and "json_ok v" and "P s" and fields: "\<forall>f \<in> set fs. field_keeps P f"
  shows "P s'"
proof (cases v)
  case (JObject ms)
  have "P s'" if "fold_res (member_into strict fs) s ms = Inr s'" "list_all (\<lambda>(k, v). valid_utf8 k \<and> json_ok v) ms" "P s" for s
    using that
  proof (induction ms arbitrary: s)
    case (Cons m ms)
    obtain x where x: "member_into strict fs s m = Inr x" "fold_res (member_into strict fs) x ms = Inr s'"
      using Cons.prems(1) by (auto simp: and_then_Inr_iff)
    have "P x"
    proof (cases "field_named fs (fst m)")
      case None
      then show ?thesis using x(1) Cons.prems(3) by (auto simp: member_into_def split: if_splits)
    next
      case (Some f)
      obtain n where "(n, f) \<in> set fs" using field_named_mem [OF Some] by blast
      then show ?thesis using fields x(1) Some Cons.prems by (fastforce simp: member_into_def split_def field_keeps_def)
    qed
    then show ?case using Cons.IH [OF x(2)] Cons.prems(2) by simp
  qed simp
  then show ?thesis using assms JObject by (simp add: struct_into_def)
qed (use assms in \<open>simp_all add: struct_into_def\<close>)

lemma string_into_valid: "string_into v s = Inr t \<Longrightarrow> json_ok v \<Longrightarrow> valid_utf8 s \<Longrightarrow> valid_utf8 t"
  by (cases v) (auto simp: string_into_def)

lemma strings_into_valid:
  "strings_into old vs = Inr ss \<Longrightarrow> list_all json_ok vs \<Longrightarrow> \<forall>s \<in> set old. valid_utf8 s \<Longrightarrow> \<forall>s \<in> set ss. valid_utf8 s"
proof (induction old vs arbitrary: ss rule: strings_into.induct)
  case (2 old v vs)
  then obtain s ss' where s: "string_into v (case old of [] \<Rightarrow> [] | s # _ \<Rightarrow> s) = Inr s" "strings_into (tl old) vs = Inr ss'" "ss = s # ss'"
    by (auto simp: and_then_Inr_iff)
  have "valid_utf8 s" using string_into_valid [OF s(1)] 2(3,4) by (cases old) auto
  moreover have "\<forall>x \<in> set (tl old). valid_utf8 x" using 2(4) by (cases old) auto
  ultimately show ?case using 2(1) [OF s(2)] 2(3) s(3) by simp
qed simp

lemma string_list_into_valid:
  "string_list_into v old = Inr ss \<Longrightarrow> json_ok v \<Longrightarrow> \<forall>s \<in> set old. valid_utf8 s \<Longrightarrow> \<forall>s \<in> set ss. valid_utf8 s"
  by (cases v) (auto simp: string_list_into_def dest: strings_into_valid)

lemma put_entry_new: "k \<notin> fst ` set es \<Longrightarrow> put_entry k v es = es @ [(k, v)]"
  by (induction es) auto

lemma put_entry_set: "x \<in> set (put_entry k v es) \<Longrightarrow> x = (k, v) \<or> x \<in> set es"
  by (induction es) (auto split: if_splits)

lemma map_into_valid:
  assumes "map_into f v es = Inr es'" and "json_ok v" and "\<forall>(k, x) \<in> set es. valid_utf8 k \<and> Q x"
    and each: "\<And>w x. f w = Inr x \<Longrightarrow> json_ok w \<Longrightarrow> Q x"
  shows "\<forall>(k, x) \<in> set es'. valid_utf8 k \<and> Q x"
proof (cases v)
  case (JObject ms)
  have "\<forall>(k, x) \<in> set es'. valid_utf8 k \<and> Q x"
    if "fold_res (\<lambda>es (k, v). and_then (f v) (\<lambda>x. Inr (put_entry k x es))) es ms = Inr es'"
      "list_all (\<lambda>(k, v). valid_utf8 k \<and> json_ok v) ms" "\<forall>(k, x) \<in> set es. valid_utf8 k \<and> Q x" for es
    using that
  proof (induction ms arbitrary: es)
    case (Cons m ms)
    obtain k w where m: "m = (k, w)" by (cases m)
    obtain x where x: "f w = Inr x" "fold_res (\<lambda>es (k, v). and_then (f v) (\<lambda>x. Inr (put_entry k x es))) (put_entry k x es) ms = Inr es'"
      using Cons.prems(1) m by (cases "f w") auto
    have "Q x" using each [OF x(1)] Cons.prems(2) m by simp
    then have "\<forall>(k, x) \<in> set (put_entry k x es). valid_utf8 k \<and> Q x"
      using Cons.prems(2,3) m by (auto dest!: put_entry_set)
    then show ?case using Cons.IH [OF x(2)] Cons.prems(2) by simp
  qed simp
  then show ?thesis using assms JObject by (simp add: map_into_def)
qed (use assms in \<open>simp_all add: map_into_def\<close>)

subsection \<open>Types that are written and read\<close>

text \<open>What a type's writer and reader owe each other, and what follows for files and maps of it.\<close>

locale json_codec =
  fixes wr :: "'a \<Rightarrow> json" and rd :: "json \<Rightarrow> error + 'a" and fit :: "'a \<Rightarrow> bool"
  assumes writes: "fit x \<Longrightarrow> json_ok (wr x)" and reads_back: "fit x \<Longrightarrow> rd (wr x) = Inr x"
begin

lemma file_back: "fit x \<Longrightarrow> ws_only w \<Longrightarrow> decode_exactly rd (indented_json (wr x) @ w) = Inr x"
proof -
  assume x: "fit x" and w: "ws_only w"
  show ?thesis unfolding decode_written [OF indented_reads [OF writes [OF x]] w] by (rule reads_back [OF x])
qed

lemma text_inject:
  assumes "fit x" and "fit y" and "compact_json (wr x) = compact_json (wr y)"
  shows "x = y"
proof -
  have "wr x = wr y" by (rule compact_inject [OF writes [OF assms(1)] writes [OF assms(2)] assms(3)])
  then have "rd (wr x) = rd (wr y)" by (rule arg_cong)
  then show ?thesis unfolding reads_back [OF assms(1)] reads_back [OF assms(2)] by (rule sum.inject(2) [THEN iffD1])
qed

lemma map_back:
  assumes "distinct (map fst xs)" and "\<forall>(k, x) \<in> set xs. fit x"
  shows "map_into rd (JObject (map (\<lambda>(k, x). (k, wr x)) xs)) [] = Inr xs"
proof -
  have "fold_res (\<lambda>es (k, v). and_then (rd v) (\<lambda>x. Inr (put_entry k x es))) es (map (\<lambda>(k, x). (k, wr x)) xs) = Inr (es @ xs)"
    if "distinct (map fst (es @ xs))" for es
    using that assms(2)
  proof (induction xs arbitrary: es)
    case (Cons m xs)
    obtain k x where m: "m = (k, x)" by (cases m)
    have "k \<notin> fst ` set es" using Cons.prems(1) m by auto
    then show ?case using Cons.IH [of "es @ [m]"] Cons.prems m by (simp add: put_entry_new reads_back)
  qed simp
  then show ?thesis using assms(1) by (simp add: map_into_def)
qed

end

end
