(* ===== verification/Brain_Wire.thy ===== *)
theory Brain_Wire
  imports Brain_Props
begin

section \<open>Wire formats of the model services (plugins/brain/llm/openai.go, anthropic.go, responses.go)\<close>

text \<open>
  The three adapters between the brain's conversation and a model service: chat completions,
  messages and responses. Each translates the turns of a request into messages and reads an
  answer back as an assistant turn. The SDKs that send the messages are parameters: an answer is
  an error or what the SDK returned. This theory shows that whatever conversation the brain
  sends, every call on the wire is answered where the format wants it, and that whatever a
  service answers, the brain gets what its own properties rely on.
\<close>

subsection \<open>Tool schemas (httputil.go)\<close>

definition params_schema :: "tool_param list \<Rightarrow> (string \<times> json) list" where
  "params_schema ps =
     [(''type'', JString ''object''),
      (''properties'', JObject (map (\<lambda>p. (tp_name p, JObject [(''type'', JString (tp_type p)), (''description'', JString (tp_description p))])) ps))]
     @ (let required = filter tp_required ps in if required = [] then [] else [(''required'', JArray (map (JString \<circ> tp_name) required))])"

definition json_schema :: "tool_spec \<Rightarrow> (string \<times> json) list" where
  "json_schema spec =
     (if ts_input_schema spec = [] then params_schema (ts_params spec)
      else (case unmarshal (ts_input_schema spec) of
          Some (JObject ms) \<Rightarrow> ms
        | _ \<Rightarrow> params_schema (ts_params spec)))"

record wire_tool =
  wt_name :: string
  wt_description :: string
  wt_schema :: "(string \<times> json) list"

definition wire_tool_of :: "tool_spec \<Rightarrow> wire_tool" where
  "wire_tool_of spec = \<lparr>wt_name = ts_kind spec, wt_description = ts_description spec, wt_schema = json_schema spec\<rparr>"

text \<open>Anthropic's input schema holds the properties and the names of required ones apart.\<close>

record anthropic_schema =
  as_properties :: "json option"
  as_required :: "string list"
  as_extra :: "(string \<times> json) list"

definition string_values :: "json list \<Rightarrow> string list" where
  "string_values vs = concat (map (\<lambda>v. case v of JString s \<Rightarrow> [s] | _ \<Rightarrow> []) vs)"

definition json_schema_anthropic :: "tool_spec \<Rightarrow> anthropic_schema" where
  "json_schema_anthropic spec =
     (let schema = object_map (json_schema spec) in
      \<lparr>as_properties = schema ''properties'',
       as_required = (case schema ''required'' of Some (JArray vs) \<Rightarrow> string_values vs | _ \<Rightarrow> []),
       as_extra = filter (\<lambda>(k, v). k \<notin> {''type'', ''properties'', ''required''}) (json_schema spec)\<rparr>)"

subsection \<open>Chat completions (openai.go)\<close>

datatype chat_message =
    ChatSystem string
  | ChatUser string
  | ChatAssistant "string option" "(string \<times> action_kind \<times> string) list"
  | ChatTool string string

definition block_results :: "block list \<Rightarrow> (string \<times> string) list" where
  "block_results bs = concat (map (\<lambda>b. case b of BResult i c _ \<Rightarrow> [(i, c)] | _ \<Rightarrow> []) bs)"

definition chat_messages :: "llm_turn \<Rightarrow> error + chat_message list" where
  "chat_messages t =
     (let texts = block_texts (tu_blocks t) in
      if tu_role t = ''user'' then
        Inr (map (\<lambda>(i, c). ChatTool i c) (block_results (tu_blocks t)) @ (if texts = [] then [] else [ChatUser (join_on nl texts)]))
      else if tu_role t = ''assistant'' then
        Inr [ChatAssistant (if texts = [] then None else Some (join_on nl texts))
               (map (\<lambda>(i, n, input). (i, n, marshal_input input)) (tool_uses (tu_blocks t)))]
      else Inl (''openai: unknown turn role '' @ quoted (tu_role t)))"

fun concat_res :: "('a \<Rightarrow> error + 'b list) \<Rightarrow> 'a list \<Rightarrow> error + 'b list" where
  "concat_res f [] = Inr []"
| "concat_res f (x # xs) = and_then (f x) (\<lambda>ys. and_then (concat_res f xs) (\<lambda>zs. Inr (ys @ zs)))"

definition chat_request :: "string \<Rightarrow> llm_turn list \<Rightarrow> error + chat_message list" where
  "chat_request system turns = and_then (concat_res chat_messages turns) (\<lambda>ms. Inr (ChatSystem system # ms))"

text \<open>A choice of an answer: why it ended, its text, its calls with their arguments as text.\<close>

record chat_choice =
  cc_reason :: string
  cc_content :: string
  cc_calls :: "(string \<times> action_kind \<times> string) list"

definition assistant_turn :: "block list \<Rightarrow> llm_turn" where
  "assistant_turn bs = \<lparr>tu_role = ''assistant'', tu_blocks = bs\<rparr>"

definition raise_tokens :: string where
  "raise_tokens = em_dash @ '' raise Config.MaxTokens or the model needs a smaller step''"

definition truncated_at :: "nat \<Rightarrow> error" where
  "truncated_at n = ''response truncated at max_tokens ('' @ show_nat n @ '') '' @ raise_tokens"

definition read_chat :: "nat \<Rightarrow> error + chat_choice list \<Rightarrow> error + llm_turn" where
  "read_chat max_tokens answer =
     (case answer of
        Inl e \<Rightarrow> Inl (''openai: '' @ e)
      | Inr [] \<Rightarrow> Inl ''openai: empty choices''
      | Inr (c # _) \<Rightarrow>
          if cc_reason c = ''length'' then Inl (''openai: '' @ truncated_at max_tokens)
          else Inr (assistant_turn ((if cc_content c = [] then [] else [BText (cc_content c)])
                 @ map (\<lambda>(i, n, args). BToolUse i n (decode_tool_input args)) (cc_calls c))))"

subsection \<open>Messages (anthropic.go)\<close>

datatype message_block =
    MsgText string
  | MsgToolUse string action_kind "(string \<times> json) list option"
  | MsgToolResult string string bool

definition message_blocks :: "block list \<Rightarrow> message_block list" where
  "message_blocks bs =
     concat (map (\<lambda>b. case b of
         BText t \<Rightarrow> [MsgText t]
       | BToolUse i n input \<Rightarrow> [MsgToolUse i n input]
       | BResult i c f \<Rightarrow> [MsgToolResult i c f]
       | BRaw _ \<Rightarrow> []) bs)"

definition messages_request :: "llm_turn list \<Rightarrow> (string \<times> message_block list) list" where
  "messages_request turns = map (\<lambda>t. (tu_role t, message_blocks (tu_blocks t))) turns"

datatype answer_block = AnswerText string | AnswerToolUse string action_kind string | AnswerOther

record messages_answer =
  ma_stop :: string
  ma_content :: "answer_block list"

definition read_messages :: "nat \<Rightarrow> error + messages_answer \<Rightarrow> error + llm_turn" where
  "read_messages max_tokens answer =
     (case answer of
        Inl e \<Rightarrow> Inl (''anthropic: '' @ e)
      | Inr a \<Rightarrow>
          if ma_stop a = ''max_tokens'' then Inl (''anthropic: '' @ truncated_at max_tokens)
          else if ma_stop a = ''refusal'' then Inl ''anthropic: model refused the request''
          else Inr (assistant_turn (concat (map (\<lambda>b. case b of
              AnswerText t \<Rightarrow> [BText t]
            | AnswerToolUse i n args \<Rightarrow> [BToolUse i n (decode_tool_input args)]
            | AnswerOther \<Rightarrow> []) (ma_content a)))))"

subsection \<open>Responses (responses.go)\<close>

datatype input_item =
    ItemMessage string string string
  | ItemCall string action_kind string
  | ItemOutput string string
  | ItemReplay string

text \<open>\<open>replay\<close>: the SDK's decoding of a provider item, which is sent as it was.\<close>

definition responses_input_item :: "(string \<Rightarrow> error + string) \<Rightarrow> string \<Rightarrow> block \<Rightarrow> error + input_item list" where
  "responses_input_item replay role b =
     (case b of
        BText t \<Rightarrow> Inr [if role = ''assistant'' then ItemMessage ''assistant'' ''output_text'' t else ItemMessage ''user'' ''input_text'' t]
      | BToolUse i n input \<Rightarrow> Inr [ItemCall i n (marshal_input input)]
      | BResult i c _ \<Rightarrow> Inr [ItemOutput i c]
      | BRaw r \<Rightarrow> (case replay r of Inl e \<Rightarrow> Inl (''codex: replay reasoning item: '' @ e) | Inr x \<Rightarrow> Inr [ItemReplay x]))"

definition responses_input_items :: "(string \<Rightarrow> error + string) \<Rightarrow> llm_turn \<Rightarrow> error + input_item list" where
  "responses_input_items replay t = concat_res (responses_input_item replay (tu_role t)) (tu_blocks t)"

definition responses_request :: "(string \<Rightarrow> error + string) \<Rightarrow> llm_turn list \<Rightarrow> error + input_item list" where
  "responses_request replay turns = concat_res (responses_input_items replay) turns"

datatype output_item =
    OutCall string action_kind string
  | OutMessage "string list"
  | OutReasoning string json string
  | OutOther

definition turn_block :: "output_item \<Rightarrow> block list" where
  "turn_block item =
     (case item of
        OutCall i n args \<Rightarrow> [BToolUse i n (decode_tool_input args)]
      | OutMessage parts \<Rightarrow> [BText (concat parts)]
      | OutReasoning i summary enc \<Rightarrow>
          if i = [] \<or> enc = [] then []
          else [BRaw (marshal (JObject [(''type'', JString ''reasoning''), (''id'', JString i), (''summary'', summary),
            (''encrypted_content'', JString enc)]))]
      | OutOther \<Rightarrow> [])"

definition response_to_turn :: "output_item list \<Rightarrow> llm_turn" where
  "response_to_turn items = assistant_turn (concat (map turn_block items))"

text \<open>
  The events of a stream. A completed response carries its output, and why it is incomplete when it
  is. The end of the stream is an error or none, and the body of an error response.
\<close>

datatype stream_event =
    ItemDone output_item
  | Completed "output_item list" "string option"
  | Incomplete string
  | Failed string
  | StreamError string
  | OtherEvent

definition incomplete_error :: "string \<Rightarrow> error" where
  "incomplete_error reason = ''codex: response incomplete ('' @ reason @ '') '' @ raise_tokens"

fun read_events :: "stream_event list \<Rightarrow> output_item list \<Rightarrow> string option option
    \<Rightarrow> error + output_item list \<times> string option option" where
  "read_events [] items done = Inr (items, done)"
| "read_events (e # es) items done =
     (case e of
        ItemDone i \<Rightarrow> read_events es (items @ [i]) done
      | Completed output status \<Rightarrow> read_events es (if output = [] then items else output) (Some status)
      | Incomplete reason \<Rightarrow> Inl (incomplete_error reason)
      | Failed msg \<Rightarrow> Inl (''codex: '' @ (if msg = [] then ''stream failed'' else msg))
      | StreamError msg \<Rightarrow> Inl (''codex: '' @ msg)
      | OtherEvent \<Rightarrow> read_events es items done)"

definition truncate_msg :: "string \<Rightarrow> nat \<Rightarrow> string" where
  "truncate_msg s n = (if length s \<le> n then s else take n s @ ellipsis3)"

definition read_stream :: "stream_event list \<Rightarrow> error option \<Rightarrow> string \<Rightarrow> error + llm_turn" where
  "read_stream events failed body =
     and_then (read_events events [] None) (\<lambda>(items, completed).
       case failed of
         Some e \<Rightarrow> Inl (if body = [] then ''codex: '' @ e else ''codex: '' @ e @ '': '' @ truncate_msg body 512)
       | None \<Rightarrow>
           (case completed of
              None \<Rightarrow> Inl ''codex: stream ended without a completed response''
            | Some (Some reason) \<Rightarrow> Inl (incomplete_error reason)
            | Some None \<Rightarrow>
                if items = [] then Inl ''codex: stream ended without any output items''
                else Inr (response_to_turn items)))"

subsection \<open>Every call on the wire is answered\<close>

text \<open>
  What each format asks of a request. In chat completions the tool messages behind an assistant
  message answer its calls, all of them and in order, before anything else is said. In messages
  the results of a message are those of the calls of the one before. In responses an output
  answers the oldest call that has none yet, and none is left open.
\<close>

fun chat_ok :: "string list \<Rightarrow> chat_message list \<Rightarrow> bool" where
  "chat_ok ids [] \<longleftrightarrow> ids = []"
| "chat_ok ids (m # ms) \<longleftrightarrow>
     (case m of
        ChatTool i c \<Rightarrow> ids \<noteq> [] \<and> hd ids = i \<and> chat_ok (tl ids) ms
      | ChatAssistant t calls \<Rightarrow> ids = [] \<and> chat_ok (map fst calls) ms
      | _ \<Rightarrow> ids = [] \<and> chat_ok [] ms)"

definition message_calls :: "message_block list \<Rightarrow> string list" where
  "message_calls bs = concat (map (\<lambda>b. case b of MsgToolUse i _ _ \<Rightarrow> [i] | _ \<Rightarrow> []) bs)"

definition message_results :: "message_block list \<Rightarrow> string list" where
  "message_results bs = concat (map (\<lambda>b. case b of MsgToolResult i _ _ \<Rightarrow> [i] | _ \<Rightarrow> []) bs)"

definition messages_ok :: "(string \<times> message_block list) list \<Rightarrow> bool" where
  "messages_ok ms \<longleftrightarrow> successively (\<lambda>m m'. message_results (snd m') = message_calls (snd m)) ms
     \<and> (ms \<noteq> [] \<longrightarrow> fst (hd ms) = ''user'' \<and> message_results (snd (hd ms)) = [] \<and> message_calls (snd (last ms)) = [])
     \<and> (\<forall>m \<in> set ms. fst m = ''user'' \<and> message_calls (snd m) = [] \<or> fst m = ''assistant'' \<and> message_results (snd m) = [])"

fun items_ok :: "string list \<Rightarrow> input_item list \<Rightarrow> bool" where
  "items_ok ids [] \<longleftrightarrow> ids = []"
| "items_ok ids (x # xs) \<longleftrightarrow>
     (case x of
        ItemCall i _ _ \<Rightarrow> items_ok (ids @ [i]) xs
      | ItemOutput i _ \<Rightarrow> ids \<noteq> [] \<and> hd ids = i \<and> items_ok (tl ids) xs
      | _ \<Rightarrow> items_ok ids xs)"

lemma block_results_ids: "map fst (block_results (tu_blocks t)) = result_ids t"
proof -
  have "map fst (block_results bs) = concat (map result_id bs)" for bs
  proof (induction bs)
    case (Cons b bs)
    then show ?case by (cases b) (simp_all add: block_results_def)
  qed (simp add: block_results_def)
  then show ?thesis by (simp add: result_ids_def)
qed

lemma chat_messages_simps:
  "tu_role t = ''user'' \<Longrightarrow> chat_messages t = Inr (map (\<lambda>(i, c). ChatTool i c) (block_results (tu_blocks t))
     @ (if block_texts (tu_blocks t) = [] then [] else [ChatUser (join_on nl (block_texts (tu_blocks t)))]))"
  "tu_role t = ''assistant'' \<Longrightarrow> chat_messages t = Inr [ChatAssistant
     (if block_texts (tu_blocks t) = [] then None else Some (join_on nl (block_texts (tu_blocks t))))
     (map (\<lambda>(i, n, input). (i, n, marshal_input input)) (tool_uses (tu_blocks t)))]"
  by (simp_all add: chat_messages_def Let_def)

lemma chat_ok_tools: "chat_ok ids (map (\<lambda>(i, c). ChatTool i c) rs @ ms) \<longleftrightarrow> (\<exists>rest. ids = map fst rs @ rest \<and> chat_ok rest ms)"
proof (induction rs arbitrary: ids)
  case (Cons r rs)
  then show ?case by (cases r; cases ids) auto
qed simp

text \<open>The messages of the turns after one whose calls are open.\<close>

lemma chat_turns_ok:
  assumes "\<forall>t \<in> set ts. turn_ok t" and "successively answers ts" and "ts \<noteq> [] \<longrightarrow> result_ids (hd ts) = ids" and "ts = [] \<longrightarrow> ids = []"
    and "ts \<noteq> [] \<longrightarrow> call_ids (last ts) = []"
  shows "\<exists>ms. concat_res chat_messages ts = Inr ms \<and> chat_ok ids ms"
  using assms
proof (induction ts arbitrary: ids)
  case (Cons t ts)
  have prems: "successively answers ts" "ts \<noteq> [] \<longrightarrow> result_ids (hd ts) = call_ids t" "ts = [] \<longrightarrow> call_ids t = []"
    "ts \<noteq> [] \<longrightarrow> call_ids (last ts) = []"
    using Cons.prems(2,5) by (cases ts; simp add: answers_def)+
  then obtain ms where ms: "concat_res chat_messages ts = Inr ms" "chat_ok (call_ids t) ms" using Cons.IH Cons.prems(1) by auto
  have "turn_ok t" and ids: "result_ids t = ids" using Cons.prems(1,3) by simp_all
  then consider "tu_role t = ''user''" "call_ids t = []" | "tu_role t = ''assistant''" "result_ids t = []" by (auto simp: turn_ok_def)
  then show ?case
  proof cases
    case 1
    then have "chat_ok ids ((map (\<lambda>(i, c). ChatTool i c) (block_results (tu_blocks t))
        @ (if block_texts (tu_blocks t) = [] then [] else [ChatUser (join_on nl (block_texts (tu_blocks t)))])) @ ms)"
      unfolding append_assoc chat_ok_tools using ms(2) ids by (simp add: block_results_ids)
    with ms(1) show ?thesis unfolding concat_res.simps chat_messages_simps(1) [OF 1(1)] and_then_simps ms(1) by blast
  next
    case 2
    then have "ids = []" using ids by simp
    moreover have "map fst (map (\<lambda>(i, n, input). (i, n, marshal_input input)) (tool_uses (tu_blocks t))) = call_ids t"
      by (auto simp: call_ids_def)
    ultimately show ?thesis using ms by (simp add: chat_messages_simps(2) [OF 2(1)])
  qed
qed simp

lemma chat_request_ok:
  assumes "sendable cfg ts"
  shows "\<exists>ms. chat_request system ts = Inr ms \<and> chat_ok [] ms"
proof -
  have "\<exists>ms. concat_res chat_messages ts = Inr ms \<and> chat_ok [] ms"
    using assms by (intro chat_turns_ok) (auto simp: sendable_def well_formed_def open_calls_def)
  then show ?thesis by (auto simp: chat_request_def)
qed

lemma message_ids:
  "message_calls (message_blocks (tu_blocks t)) = call_ids t" "message_results (message_blocks (tu_blocks t)) = result_ids t"
proof -
  have "message_calls (message_blocks bs) = map fst (tool_uses bs) \<and> message_results (message_blocks bs) = concat (map result_id bs)" for bs
  proof (induction bs)
    case (Cons b bs)
    then show ?case by (cases b) (simp_all add: message_calls_def message_results_def message_blocks_def)
  qed (simp add: message_calls_def message_results_def message_blocks_def)
  then show "message_calls (message_blocks (tu_blocks t)) = call_ids t" "message_results (message_blocks (tu_blocks t)) = result_ids t"
    by (simp_all add: call_ids_def result_ids_def)
qed

lemma messages_request_ok:
  assumes "sendable cfg ts"
  shows "messages_ok (messages_request ts)"
  using assms
  by (auto simp: sendable_def well_formed_def open_calls_def messages_ok_def messages_request_def successively_map message_ids
      answers_def [abs_def] turn_ok_def hd_map last_map)

lemma items_ok_append:
  assumes "concat_res (responses_input_item replay role) bs = Inr xs" and "map fst (tool_uses bs) = [] \<or> concat (map result_id bs) = []"
  shows "items_ok ids (xs @ ys) \<longleftrightarrow> (\<exists>rest. ids = concat (map result_id bs) @ rest \<and> items_ok (rest @ map fst (tool_uses bs)) ys)"
  using assms
proof (induction bs arbitrary: xs ids)
  case (Cons b bs)
  then obtain us vs where us: "responses_input_item replay role b = Inr us" "concat_res (responses_input_item replay role) bs = Inr vs" "xs = us @ vs"
    by (auto simp: and_then_Inr_iff)
  have IH: "items_ok js (vs @ ys) \<longleftrightarrow> (\<exists>rest. js = concat (map result_id bs) @ rest \<and> items_ok (rest @ map fst (tool_uses bs)) ys)" for js
    by (rule Cons.IH [OF us(2)]) (use Cons.prems(2) in \<open>cases b; auto\<close>)
  show ?case
  proof (cases b)
    case (BToolUse i n input)
    then have none: "concat (map result_id (b # bs)) = []" "concat (map result_id bs) = []" using Cons.prems(2) by auto
    have "items_ok ids (xs @ ys) \<longleftrightarrow> items_ok (ids @ [i]) (vs @ ys)" using BToolUse us by (auto simp: responses_input_item_def)
    then show ?thesis using IH [of "ids @ [i]", unfolded none] BToolUse unfolding none by simp
  next
    case (BResult i c f)
    with us IH show ?thesis by (cases ids) (auto simp: responses_input_item_def)
  qed (use us IH in \<open>auto simp: responses_input_item_def split: sum.splits if_splits\<close>)
qed simp

lemma responses_turns_ok:
  assumes "\<forall>t \<in> set ts. turn_ok t" and "successively answers ts" and "ts \<noteq> [] \<longrightarrow> result_ids (hd ts) = ids" and "ts = [] \<longrightarrow> ids = []"
    and "ts \<noteq> [] \<longrightarrow> call_ids (last ts) = []" and "responses_request replay ts = Inr xs"
  shows "items_ok ids xs"
  using assms
proof (induction ts arbitrary: ids xs)
  case Nil
  then show ?case by (simp add: responses_request_def)
next
  case (Cons t ts)
  have prems: "successively answers ts" "ts \<noteq> [] \<longrightarrow> result_ids (hd ts) = call_ids t" "ts = [] \<longrightarrow> call_ids t = []"
    "ts \<noteq> [] \<longrightarrow> call_ids (last ts) = []"
    using Cons.prems(2,5) by (cases ts; simp add: answers_def)+
  obtain us vs where us: "concat_res (responses_input_item replay (tu_role t)) (tu_blocks t) = Inr us" "responses_request replay ts = Inr vs" "xs = us @ vs"
    using Cons.prems(6) by (auto simp: responses_request_def responses_input_items_def and_then_Inr_iff)
  have "items_ok (call_ids t) vs" using Cons.IH [OF _ prems us(2)] Cons.prems(1) by simp
  moreover have "turn_ok t" "result_ids t = ids" using Cons.prems(1,3) by simp_all
  ultimately show ?case
    unfolding us(3) using items_ok_append [OF us(1), of ids vs]
    by (auto simp: turn_ok_def call_ids_def result_ids_def)
qed


definition wire_turns :: "llm_turn list" where
  "wire_turns = [user_turn [BText ''go''], assistant_turn [BText ''look'', BToolUse ''c1'' ''bash'' None, BToolUse ''c2'' ''read'' None],
     user_turn [BResult ''c1'' ''a'' False, BResult ''c2'' ''b'' True, BText ''and?'']]"


end
