(* ===== verification/Brain_Provider.thy ===== *)
theory Brain_Provider
  imports Brain_Wire "HOL-Library.AList"
begin

section \<open>Providers and their credentials (plugins/brain/llm/presets.go, codexauth.go, llm.go)\<close>

text \<open>
  A slot of the brain's provider chain is data: a preset and what overrides it. This theory
  resolves slots to clients, builds the chain of a brain, and keeps the credentials of a
  subscription, which are refreshed when they expire or are rejected. The environment, the
  generated catalog of models, random sessions and the credential file are parameters.
\<close>

subsection \<open>Slots and presets\<close>

record provider_slot =
  ps_id :: string
  ps_provider :: string
  ps_model :: string
  ps_base_url :: string
  ps_api_key :: string
  ps_api :: string

record llm_config =
  lc_primary :: provider_slot
  lc_persona :: string
  lc_fallbacks :: "provider_slot list"

definition api_anthropic_messages :: string where "api_anthropic_messages = ''anthropic-messages''"
definition api_openai_completions :: string where "api_openai_completions = ''openai-completions''"
definition api_openai_responses :: string where "api_openai_responses = ''openai-responses''"

record preset =
  pr_base_url :: string
  pr_key_env :: string
  pr_key_optional :: bool
  pr_model :: string
  pr_model_prefix :: string
  pr_api :: string
  pr_session_headers :: bool
  pr_codex :: bool

definition plain_preset :: preset where
  "plain_preset = \<lparr>pr_base_url = [], pr_key_env = [], pr_key_optional = False, pr_model = [], pr_model_prefix = [],
     pr_api = api_openai_completions, pr_session_headers = False, pr_codex = False\<rparr>"

definition presets :: "(string \<times> preset) list" where
  "presets =
     [(''anthropic'', plain_preset\<lparr>pr_base_url := ''https://api.anthropic.com'', pr_key_env := ''ANTHROPIC_API_KEY'',
         pr_model := ''claude-sonnet-4-5'', pr_api := api_anthropic_messages\<rparr>),
      (''openai'', plain_preset\<lparr>pr_base_url := ''https://api.openai.com/v1'', pr_key_env := ''OPENAI_API_KEY'', pr_key_optional := True,
         pr_model := ''gpt-4o-mini''\<rparr>),
      (''codex'', plain_preset\<lparr>pr_base_url := ''https://chatgpt.com/backend-api/codex'', pr_model := ''gpt-5.6-terra'',
         pr_api := api_openai_responses, pr_codex := True\<rparr>),
      (''opencode-go'', plain_preset\<lparr>pr_base_url := ''https://opencode.ai/zen/go/v1'', pr_key_env := ''OPENCODE_API_KEY'',
         pr_model := ''kimi-k3'', pr_model_prefix := ''opencode-go/'', pr_session_headers := True\<rparr>),
      (''openrouter'', plain_preset\<lparr>pr_base_url := ''https://openrouter.ai/api/v1'', pr_key_env := ''OPENROUTER_API_KEY'',
         pr_model := ''openrouter/auto''\<rparr>)]"

definition provider_names :: "string list" where
  "provider_names = sort (map (quoted \<circ> fst) presets)"

subsection \<open>Credentials of a subscription\<close>

record credential =
  cr_access :: string
  cr_account :: string
  cr_refresh :: string
  cr_expires :: int

type_synonym auth_store = "(string \<times> credential) list"

definition login_hint :: "string \<Rightarrow> string" where
  "login_hint i = '' '' @ em_dash @ '' run: pons -provider codex --login -as '' @ i"

definition no_access_token :: "string \<Rightarrow> error" where
  "no_access_token i = ''codex auth: entry '' @ quoted i @ '' has no access token'' @ login_hint i"

text \<open>An exact entry, or the only one.\<close>

definition resolve_credential :: "auth_store \<Rightarrow> string \<Rightarrow> error + string \<times> credential" where
  "resolve_credential st i =
     (let given = (\<lambda>k c. if cr_access c = [] then Inl (no_access_token k) else Inr (k, c)) in
      case map_of st i of
        Some c \<Rightarrow> given i c
      | None \<Rightarrow>
          (case st of
             [(k, c)] \<Rightarrow> given k c
           | _ \<Rightarrow> Inl (''codex auth: no entry '' @ quoted i @ '' in auth store (available: '' @ join_on '', '' (map fst st) @ '')'' @ login_hint i)))"

definition codex_auth_id :: "string \<Rightarrow> string" where
  "codex_auth_id slot = (if slot \<in> {[], ''primary'', ''flag''} then ''codex'' else slot)"

text \<open>A loaded credential. Its expiry is the zero time or a time in milliseconds.\<close>

record codex_auth =
  ca_id :: string
  ca_access :: string
  ca_account :: string
  ca_refresh :: string
  ca_expires :: "int option"

definition load_codex_auth :: "(error + auth_store) \<Rightarrow> string \<Rightarrow> string \<Rightarrow> error + codex_auth" where
  "load_codex_auth file path requested =
     (case file of
        Inl e \<Rightarrow> Inl e
      | Inr st \<Rightarrow>
          (case resolve_credential st requested of
             Inl e \<Rightarrow> Inl (''codex auth: '' @ path @ '': '' @ e)
           | Inr (i, c) \<Rightarrow> Inr \<lparr>ca_id = i, ca_access = cr_access c, ca_account = cr_account c, ca_refresh = cr_refresh c,
               ca_expires = Some (cr_expires c)\<rparr>))"

definition credential_of :: "codex_auth \<Rightarrow> credential" where
  "credential_of a = \<lparr>cr_access = ca_access a, cr_account = ca_account a, cr_refresh = ca_refresh a,
     cr_expires = (case ca_expires a of None \<Rightarrow> 0 | Some t \<Rightarrow> t)\<rparr>"

text \<open>Writes one entry of the store, which is read under the file's lock; an empty file is an empty store.\<close>

definition save_auth_entry :: "string \<Rightarrow> credential \<Rightarrow> auth_store \<Rightarrow> auth_store" where
  "save_auth_entry i c st = AList.update i c st"

text \<open>
  What the token endpoint answers (access token, refresh token, seconds of validity), and what the
  file's rewriting reports.
\<close>

datatype token_answer = TokenFailed error | TokenStatus nat string | TokenBody "error + string \<times> string \<times> int"

record auth_env =
  av_now :: int
  av_token :: "string \<Rightarrow> token_answer"
  av_saved :: "error option"

definition refresh_locked :: "auth_env \<Rightarrow> codex_auth \<Rightarrow> codex_auth \<times> error option" where
  "refresh_locked env a =
     (case av_token env (ca_refresh a) of
        TokenFailed e \<Rightarrow> (a, Some e)
      | TokenStatus n raw \<Rightarrow> (a, Some (''codex auth: refresh failed: HTTP '' @ show_nat n @ '': '' @ truncate_msg raw 256))
      | TokenBody (Inl e) \<Rightarrow> (a, Some (''codex auth: refresh decode: '' @ e))
      | TokenBody (Inr (access, refresh, expires)) \<Rightarrow>
          if access = [] then (a, Some ''codex auth: refresh returned no access_token'')
          else (a\<lparr>ca_access := access, ca_refresh := (if refresh = [] then ca_refresh a else refresh),
                  ca_expires := (if expires > 0 then Some (av_now env + 1000 * expires) else ca_expires a)\<rparr>, av_saved env))"

definition valid_now :: "auth_env \<Rightarrow> codex_auth \<Rightarrow> bool" where
  "valid_now env a \<longleftrightarrow> ca_access a \<noteq> [] \<and> (case ca_expires a of None \<Rightarrow> True | Some t \<Rightarrow> av_now env < t - 60000)"

definition auth_current :: "auth_env \<Rightarrow> codex_auth \<Rightarrow> codex_auth \<times> (error + string \<times> string)" where
  "auth_current env a =
     (if valid_now env a then (a, Inr (ca_access a, ca_account a))
      else if ca_refresh a = [] then (a, Inl ''codex auth: token expired and no refresh token available (run pons -provider codex --login)'')
      else (case refresh_locked env a of
          (a', Some e) \<Rightarrow> (a', Inl e)
        | (a', None) \<Rightarrow> (a', Inr (ca_access a', ca_account a'))))"

definition auth_refresh :: "auth_env \<Rightarrow> string \<Rightarrow> codex_auth \<Rightarrow> codex_auth \<times> error option" where
  "auth_refresh env rejected a = (if ca_access a \<noteq> rejected then (a, None) else refresh_locked env a)"

text \<open>
  One completion with a subscription: \<open>attempt n token account\<close> is the outcome of the n-th request, an
  error with whether it was a 401. The environments are those of the three uses of the credential.
\<close>

definition responses_complete :: "(nat \<Rightarrow> auth_env) \<Rightarrow> (nat \<Rightarrow> string \<Rightarrow> string \<Rightarrow> (error \<times> bool) + 'a) \<Rightarrow> codex_auth
    \<Rightarrow> codex_auth \<times> (error + 'a)" where
  "responses_complete env attempt a =
     (case auth_current (env 0) a of
        (a1, Inl e) \<Rightarrow> (a1, Inl e)
      | (a1, Inr (token, account)) \<Rightarrow>
          (case attempt 0 token account of
             Inr t \<Rightarrow> (a1, Inr t)
           | Inl (e, unauthorized) \<Rightarrow>
               if \<not> unauthorized then (a1, Inl e)
               else (case auth_refresh (env 1) token a1 of
                   (a2, Some re) \<Rightarrow> (a2, Inl (''codex: HTTP 401 and token refresh failed ('' @ re @ '') '' @ em_dash @ '' run pons -provider codex --login''))
                 | (a2, None) \<Rightarrow>
                     (case auth_current (env 2) a2 of
                        (a3, Inl e') \<Rightarrow> (a3, Inl e')
                      | (a3, Inr (token', account')) \<Rightarrow>
                          (a3, case attempt 1 token' account' of Inl (e', _) \<Rightarrow> Inl e' | Inr t \<Rightarrow> Inr t)))))"

subsection \<open>Resolving a slot\<close>

record provider_world =
  pw_getenv :: "string \<Rightarrow> string"
  pw_catalog :: "string \<Rightarrow> string \<Rightarrow> string"
  pw_random :: string
  pw_user_agent :: string
  pw_auth :: "string \<Rightarrow> error + codex_auth"

datatype credentials = ApiKey string | Subscription codex_auth

record client =
  cl_api :: string
  cl_model :: string
  cl_base_url :: string
  cl_credentials :: credentials
  cl_headers :: "(string \<times> string) list"

definition or_else :: "string \<Rightarrow> string \<Rightarrow> string" where
  "or_else s t = (if s = [] then t else s)"

definition trim_prefix :: "string \<Rightarrow> string \<Rightarrow> string" where
  "trim_prefix s p = (case cut_prefix s p of Some r \<Rightarrow> r | None \<Rightarrow> s)"

definition slot_model :: "preset \<Rightarrow> provider_slot \<Rightarrow> string" where
  "slot_model p slot = or_else (if pr_model_prefix p = [] then ps_model slot else trim_prefix (ps_model slot) (pr_model_prefix p)) (pr_model p)"

definition unknown_api :: "string \<Rightarrow> error" where
  "unknown_api api = ''llm: unknown api '' @ quoted api @ '' (want '' @ quoted api_anthropic_messages @ '', '' @ quoted api_openai_completions
     @ '', or '' @ quoted api_openai_responses @ '')''"

definition slot_api :: "provider_world \<Rightarrow> string \<Rightarrow> preset \<Rightarrow> provider_slot \<Rightarrow> string" where
  "slot_api w name p slot = or_else (or_else (ps_api slot) (pw_catalog w name (slot_model p slot))) (pr_api p)"

definition slot_key :: "provider_world \<Rightarrow> preset \<Rightarrow> provider_slot \<Rightarrow> string" where
  "slot_key w p slot = or_else (ps_api_key slot) (if pr_key_env p = [] then [] else pw_getenv w (pr_key_env p))"

definition slot_headers :: "provider_world \<Rightarrow> preset \<Rightarrow> string \<Rightarrow> (string \<times> string) list" where
  "slot_headers w p session =
     (if pr_session_headers p then [(''User-Agent'', pw_user_agent w), (''x-opencode-session'', or_else session (pw_random w))] else [])"

definition open_client :: "provider_world \<Rightarrow> string \<Rightarrow> preset \<Rightarrow> provider_slot \<Rightarrow> string \<Rightarrow> error + client" where
  "open_client w name p slot session =
     (let api = slot_api w name p slot;
          base = or_else (trim_suffix (ps_base_url slot) ''/'') (pr_base_url p);
          c = \<lparr>cl_api = api, cl_model = slot_model p slot, cl_base_url = base, cl_credentials = ApiKey (slot_key w p slot),
                cl_headers = slot_headers w p session\<rparr>
      in if pr_codex p then
           if api \<noteq> api_openai_responses then Inl (''llm: provider '' @ quoted name @ '' only speaks '' @ api_openai_responses)
           else and_then (pw_auth w (codex_auth_id (ps_id slot))) (\<lambda>a. Inr (c\<lparr>cl_credentials := Subscription a, cl_headers := []\<rparr>))
         else if slot_key w p slot = [] \<and> \<not> pr_key_optional p then
           Inl (''llm: no API key '' @ em_dash @ '' set '' @ pr_key_env p @ '' (or Config.APIKey)'')
         else if api = api_anthropic_messages then Inr (c\<lparr>cl_base_url := trim_suffix base ''/v1''\<rparr>)
         else if api = api_openai_completions \<or> api = api_openai_responses then Inr c
         else Inl (unknown_api api))"

definition provider_client :: "provider_world \<Rightarrow> provider_slot \<Rightarrow> string \<Rightarrow> error + client" where
  "provider_client w slot session =
     (let name = or_else (ps_provider slot) ''anthropic'' in
      case map_of presets name of
        None \<Rightarrow> Inl (''llm: unknown provider '' @ quoted name @ '' (want '' @ join_on '', '' provider_names @ '')'')
      | Some p \<Rightarrow> open_client w name p slot session)"

subsection \<open>The chain of a brain\<close>

definition brain_slots :: "llm_config \<Rightarrow> provider_slot list" where
  "brain_slots config =
     (let p = lc_primary config in p\<lparr>ps_id := or_else (ps_id p) ''primary'', ps_provider := or_else (ps_provider p) ''anthropic''\<rparr>
        # lc_fallbacks config)"

fun fallback_clients :: "provider_world \<Rightarrow> string \<Rightarrow> provider_slot list \<Rightarrow> error + client list" where
  "fallback_clients w session [] = Inr []"
| "fallback_clients w session (slot # slots) =
     (case provider_client w slot session of
        Inl e \<Rightarrow> Inl (''llm: fallback '' @ quoted (ps_id slot) @ '': '' @ e)
      | Inr c \<Rightarrow> and_then (fallback_clients w session slots) (\<lambda>cs. Inr (c # cs)))"

definition chain_clients :: "provider_world \<Rightarrow> string \<Rightarrow> llm_config \<Rightarrow> error + client list" where
  "chain_clients w session config =
     and_then (provider_client w (hd (brain_slots config)) session) (\<lambda>c.
       and_then (fallback_clients w session (tl (brain_slots config))) (\<lambda>cs. Inr (c # cs)))"

definition max_tokens :: "int \<Rightarrow> nat" where
  "max_tokens configured = (if configured > 0 then nat configured else 4096)"

text \<open>
  What the services answer to a request of a client: its messages, the system prompt and the tools. A
  responses service answers each of at most two attempts with the events of a stream.
\<close>

record stream_answer =
  sa_events :: "stream_event list"
  sa_failed :: "error option"
  sa_body :: string
  sa_unauthorized :: bool

record services =
  sv_chat :: "client \<Rightarrow> chat_message list \<Rightarrow> wire_tool list \<Rightarrow> error + chat_choice list"
  sv_messages :: "client \<Rightarrow> string \<Rightarrow> (string \<times> message_block list) list \<Rightarrow> (wire_tool \<times> anthropic_schema) list \<Rightarrow> error + messages_answer"
  sv_responses :: "client \<Rightarrow> nat \<Rightarrow> string \<Rightarrow> string \<Rightarrow> string \<Rightarrow> input_item list \<Rightarrow> wire_tool list \<Rightarrow> nat option \<Rightarrow> stream_answer"
  sv_replay :: "string \<Rightarrow> error + string"
  sv_auth :: "client \<Rightarrow> nat \<Rightarrow> auth_env"

definition try_complete :: "services \<Rightarrow> nat \<Rightarrow> client \<Rightarrow> string \<Rightarrow> llm_turn list \<Rightarrow> tool_spec list \<Rightarrow> nat \<Rightarrow> string \<Rightarrow> string
    \<Rightarrow> (error \<times> bool) + llm_turn" where
  "try_complete sv n c system turns tools k token account =
     (case responses_request (sv_replay sv) turns of
        Inl e \<Rightarrow> Inl (e, False)
      | Inr items \<Rightarrow>
          (let limit = (case cl_credentials c of ApiKey _ \<Rightarrow> if n > 0 then Some n else None | Subscription _ \<Rightarrow> None);
               a = sv_responses sv c k token account system items (map wire_tool_of tools) limit
           in case read_stream (sa_events a) (sa_failed a) (sa_body a) of
                Inl e \<Rightarrow> Inl (e, sa_unauthorized a)
              | Inr t \<Rightarrow> Inr t))"

definition complete_client :: "services \<Rightarrow> nat \<Rightarrow> client \<Rightarrow> string \<Rightarrow> llm_turn list \<Rightarrow> tool_spec list \<Rightarrow> error + llm_turn" where
  "complete_client sv n c system turns tools =
     (if cl_api c = api_anthropic_messages then
        read_messages n (sv_messages sv c system (messages_request turns) (map (\<lambda>s. (wire_tool_of s, json_schema_anthropic s)) tools))
      else if cl_api c = api_openai_completions then
        and_then (chat_request system turns) (\<lambda>ms. read_chat n (sv_chat sv c ms (map wire_tool_of tools)))
      else (case cl_credentials c of
          ApiKey key \<Rightarrow> (case try_complete sv n c system turns tools 0 key [] of Inl (e, _) \<Rightarrow> Inl e | Inr t \<Rightarrow> Inr t)
        | Subscription a \<Rightarrow> snd (responses_complete (sv_auth sv c) (try_complete sv n c system turns tools) a)))"

text \<open>\<open>cancelled\<close>: the caller has given up when the i-th slot fails.\<close>

definition complete_chain :: "services \<Rightarrow> (nat \<Rightarrow> bool) \<Rightarrow> nat \<Rightarrow> client list \<Rightarrow> string \<Rightarrow> llm_turn list \<Rightarrow> tool_spec list \<Rightarrow> error option + llm_turn" where
  "complete_chain sv cancelled n cs system turns tools =
     failover (map (\<lambda>(i, c). case complete_client sv n c system turns tools of Inl e \<Rightarrow> Inl (e, cancelled i) | Inr t \<Rightarrow> Inr t) (enumerate 0 cs)) None"

subsection \<open>What a chain answers\<close>

definition plain_answer :: "llm_turn \<Rightarrow> bool" where
  "plain_answer t \<longleftrightarrow> tu_role t = ''assistant'' \<and> result_ids t = []"

lemma plain_assistant: "plain_answer (assistant_turn bs) \<longleftrightarrow> concat (map result_id bs) = []"
  by (simp add: plain_answer_def assistant_turn_def result_ids_def)

lemma plain_chat: "read_chat n a = Inr t \<Longrightarrow> plain_answer t"
  by (auto simp: read_chat_def plain_assistant split: sum.splits list.splits if_splits)

lemma plain_messages: "read_messages n a = Inr t \<Longrightarrow> plain_answer t"
  by (auto simp: read_messages_def plain_assistant split: sum.splits if_splits answer_block.splits)

lemma plain_stream: "read_stream es f b = Inr t \<Longrightarrow> plain_answer t"
  by (auto simp: read_stream_def response_to_turn_def plain_assistant turn_block_def and_then_Inr_iff
      split: option.splits if_splits output_item.splits)

lemma plain_try: "try_complete sv n c system turns tools k token account = Inr t \<Longrightarrow> plain_answer t"
  by (auto simp: try_complete_def Let_def dest: plain_stream split: sum.splits)

lemma responses_complete_attempt:
  assumes "responses_complete env attempt a = (a', Inr t)"
  shows "\<exists>k token account. attempt k token account = Inr t"
  using assms by (auto simp: responses_complete_def split: prod.splits sum.splits option.splits if_splits)

lemma plain_client: "complete_client sv n c system turns tools = Inr t \<Longrightarrow> plain_answer t"
  using responses_complete_attempt [of "sv_auth sv c" "try_complete sv n c system turns tools" _ _ t]
  by (cases "cl_credentials c")
     (auto simp: complete_client_def and_then_Inr_iff split: if_splits sum.splits prod.splits
       dest: plain_chat plain_messages plain_try, metis plain_try prod.collapse)

lemma failover_answer: "failover as e = Inr t \<Longrightarrow> Inr t \<in> set as"
  by (induction as e rule: failover.induct) (auto split: sum.splits if_splits)

lemma failover_error: "as \<noteq> [] \<or> e \<noteq> None \<Longrightarrow> failover as e \<noteq> Inl None"
proof (induction as e rule: failover.induct)
  case (2 a as e)
  then show ?case by (cases a) (auto split: if_splits)
qed simp

definition brain_client :: "services \<Rightarrow> (nat \<Rightarrow> bool) \<Rightarrow> nat \<Rightarrow> client list \<Rightarrow> string \<Rightarrow> llm_turn list \<Rightarrow> tool_spec list \<Rightarrow> error + llm_turn" where
  "brain_client sv cancelled n cs system turns tools =
     (if length cs = 1 then complete_client sv n (hd cs) system turns tools
      else (case complete_chain sv cancelled n cs system turns tools of
          Inl e \<Rightarrow> Inl (case e of None \<Rightarrow> [] | Some e \<Rightarrow> e)
        | Inr t \<Rightarrow> Inr t))"

lemma chain_answer:
  assumes "complete_chain sv cancelled n cs system turns tools = Inr t"
  shows "\<exists>c \<in> set cs. complete_client sv n c system turns tools = Inr t"
  using failover_answer [OF assms [unfolded complete_chain_def]]
  by (auto simp: in_set_enumerate_eq split: sum.splits)

text \<open>C36. Whatever services answer and whatever slots are configured, a brain's client gives it what its
  conversation relies on: an assistant turn without tool results, from one of the configured
  slots, or an error. Failing over never ends without an error or an answer.\<close>

theorem providers_answer:
  assumes "chain_clients w session config = Inr cs"
  shows "client_ok (env\<lparr>en_complete := brain_client sv cancelled n cs\<rparr>)
     \<and> complete_chain sv cancelled n cs system turns tools \<noteq> Inl None
     \<and> (brain_client sv cancelled n cs system turns tools = Inr t \<longrightarrow> (\<exists>c \<in> set cs. complete_client sv n c system turns tools = Inr t))"
proof -
  have cs: "cs \<noteq> []" using assms by (auto simp: chain_clients_def and_then_Inr_iff)
  have one: "brain_client sv cancelled n cs s ts tl = Inr u \<Longrightarrow> \<exists>c \<in> set cs. complete_client sv n c s ts tl = Inr u" for s ts tl u
    using cs chain_answer [of sv cancelled n cs s ts tl u] by (auto simp: brain_client_def split: if_splits sum.splits)
  then have "plain_answer u" if "brain_client sv cancelled n cs s ts tl = Inr u" for s ts tl u
    using that plain_client by blast
  then have "client_ok (env\<lparr>en_complete := brain_client sv cancelled n cs\<rparr>)"
    by (auto simp: client_ok_def plain_answer_def)
  moreover have "complete_chain sv cancelled n cs system turns tools \<noteq> Inl None"
    unfolding complete_chain_def by (rule failover_error) (use cs in \<open>simp add: enumerate_eq_zip\<close>)
  ultimately show ?thesis using one by blast
qed

definition sample_world :: provider_world where
  "sample_world = \<lparr>pw_getenv = (\<lambda>_. ''k''), pw_catalog = (\<lambda>_ _. []), pw_random = ''r'', pw_user_agent = ''pons/dev'', pw_auth = (\<lambda>_. Inl ''no'')\<rparr>"

definition sample_slots :: llm_config where
  "sample_slots = \<lparr>lc_primary = \<lparr>ps_id = [], ps_provider = [], ps_model = [], ps_base_url = [], ps_api_key = [], ps_api = []\<rparr>,
     lc_persona = [], lc_fallbacks = [\<lparr>ps_id = ''b'', ps_provider = ''openai'', ps_model = ''m'', ps_base_url = ''http://h/'', ps_api_key = [], ps_api = []\<rparr>]\<rparr>"

definition silent_services :: services where
  "silent_services = \<lparr>sv_chat = (\<lambda>_ _ _. Inr [\<lparr>cc_reason = ''stop'', cc_content = ''hi'', cc_calls = []\<rparr>]),
     sv_messages = (\<lambda>_ _ _ _. Inl ''overloaded''), sv_responses = (\<lambda>_ _ _ _ _ _ _ _. \<lparr>sa_events = [], sa_failed = None, sa_body = [], sa_unauthorized = False\<rparr>),
     sv_replay = Inr, sv_auth = (\<lambda>_ _. \<lparr>av_now = 0, av_token = (\<lambda>_. TokenFailed ''no''), av_saved = None\<rparr>)\<rparr>"

lemma providers_answer_witness:
  "\<exists>cs. chain_clients sample_world [] sample_slots = Inr cs \<and> map cl_model cs = [''claude-sonnet-4-5'', ''m'']
     \<and> client_ok (sample_env\<lparr>en_complete := brain_client silent_services (\<lambda>_. False) 4096 cs\<rparr>)"
proof -
  have "(case chain_clients sample_world [] sample_slots of Inr cs \<Rightarrow> map cl_model cs = [''claude-sonnet-4-5'', ''m''] | Inl _ \<Rightarrow> False)" by code_simp
  then obtain cs where cs: "chain_clients sample_world [] sample_slots = Inr cs" "map cl_model cs = [''claude-sonnet-4-5'', ''m'']"
    by (auto split: sum.splits)
  note x = providers_answer [OF cs(1), where env = sample_env and sv = silent_services and cancelled = "\<lambda>_. False" and n = 4096]
  have "client_ok (sample_env\<lparr>en_complete := brain_client silent_services (\<lambda>_. False) 4096 cs\<rparr>)"
    by (rule x [THEN conjunct1])
  with cs show ?thesis by (intro exI [of _ cs] conjI)
qed

subsection \<open>Keys and credentials\<close>

text \<open>A client carries the key of its own slot, or the one of its provider's environment variable.\<close>

lemma open_client_key:
  assumes "open_client w name p slot session = Inr c" and "cl_credentials c = ApiKey key"
  shows "key = slot_key w p slot \<and> (key = [] \<longrightarrow> pr_key_optional p)"
  using assms by (auto simp: open_client_def Let_def and_then_Inr_iff split: if_split_asm)

lemma provider_client_key:
  assumes "provider_client w slot session = Inr c" and "cl_credentials c = ApiKey key"
  shows "\<exists>p. map_of presets (or_else (ps_provider slot) ''anthropic'') = Some p \<and> key = slot_key w p slot \<and> (key = [] \<longrightarrow> pr_key_optional p)"
  using assms open_client_key [OF _ assms(2)] by (auto simp: provider_client_def Let_def split: option.split_asm)

lemma saved_credential:
  assumes "cr_access c \<noteq> []"
  shows "resolve_credential (save_auth_entry i c st) i = Inr (i, c)" "j \<noteq> i \<Longrightarrow> map_of (save_auth_entry i c st) j = map_of st j"
  using assms by (simp_all add: resolve_credential_def save_auth_entry_def update_conv')

text \<open>Requests rejected with one token refresh it once: the others find it replaced.\<close>

lemma refreshed_once:
  assumes "auth_refresh env rejected a = (a', None)" and "ca_access a' \<noteq> rejected"
  shows "auth_refresh env' rejected a' = (a', None)"
  using assms by (simp add: auth_refresh_def)

text \<open>A token whose lifetime the service did not tell is used as long as it is accepted, but a process that
  loads it from the store takes it to have expired in 1970.\<close>

lemma unknown_expiry_lost:
  assumes "ca_expires a = None" and "ca_access a \<noteq> []" and "0 \<le> av_now env"
    and "load_codex_auth (Inr (save_auth_entry (ca_id a) (credential_of a) st)) path (ca_id a) = Inr a'"
  shows "valid_now env a \<and> \<not> valid_now env a'"
  using assms by (auto simp: load_codex_auth_def saved_credential credential_of_def valid_now_def)

end
