(* ===== verification/Runner.thy ===== *)
theory Runner
  imports Brain_Provider Store_Context Agent Go_Path Mcp_Config
begin

section \<open>From the runtime to the brain and back (cmd/pons/runtime_mode.go)\<close>

text \<open>
  The server's runner turns a recorded conversation into the brain's turns and the brain's blocks
  into recorded content, picks the provider chain of an agent revision, and checks where a
  conversation may work. This theory holds these functions; the run itself is in \<open>Runner_Run\<close>.
\<close>

subsection \<open>Recorded content\<close>

definition hydrate_error :: "string \<Rightarrow> string \<Rightarrow> error" where
  "hydrate_error i what = ''hydrate tool call '' @ quoted i @ '' arguments: '' @ what"

definition runtime_tool_input :: "string \<Rightarrow> string \<Rightarrow> error + (string \<times> json) list" where
  "runtime_tool_input i raw =
     (let arguments = (if trim_space raw = [] \<or> trim_space raw = ''null'' then ''{}'' else trim_space raw) in
      case decode_first arguments of
        Some (JObject ms) \<Rightarrow> if unmarshal arguments = None then Inl (hydrate_error i ''trailing JSON'') else Inr ms
      | Some JNull \<Rightarrow> Inl (hydrate_error i ''trailing JSON'')
      | _ \<Rightarrow> Inl (hydrate_error i ''not an object''))"

definition block_of_content :: "agent_content \<Rightarrow> error + block" where
  "block_of_content p =
     (if ac_type p = ''text'' then Inr (BText (ac_text p))
      else if ac_type p = ''tool_call'' then
        and_then (runtime_tool_input (ac_call_id p) (ac_args p)) (\<lambda>ms. Inr (BToolUse (ac_call_id p) (ac_kind p) (Some ms)))
      else if ac_type p = ''tool_result'' then Inr (BResult (ac_call_id p) (ac_text p) (ac_is_error p))
      else if ac_type p = ''provider_item'' then
        if unmarshal (ac_item p) = None then Inl ''hydrate compacted context: invalid provider item'' else Inr (BRaw (ac_item p))
      else Inl (''hydrate compacted context: unsupported block '' @ quoted (ac_type p)))"

fun map_res :: "('a \<Rightarrow> error + 'b) \<Rightarrow> 'a list \<Rightarrow> error + 'b list" where
  "map_res f [] = Inr []"
| "map_res f (x # xs) = and_then (f x) (\<lambda>y. and_then (map_res f xs) (\<lambda>ys. Inr (y # ys)))"

definition turn_of_context :: "context_turn \<Rightarrow> error + llm_turn" where
  "turn_of_context t =
     (if ct_role t \<noteq> ''user'' \<and> ct_role t \<noteq> ''assistant''
      then Inl (''hydrate compacted context: unsupported role '' @ quoted (ct_role t))
      else and_then (map_res block_of_content (ct_content t)) (\<lambda>bs. Inr \<lparr>tu_role = ct_role t, tu_blocks = bs\<rparr>))"

definition runtime_context_turns :: "context_turn list \<Rightarrow> error + llm_turn list" where
  "runtime_context_turns ts = map_res turn_of_context ts"

definition content_of_block :: "block \<Rightarrow> agent_content" where
  "content_of_block b =
     (case b of
        BText t \<Rightarrow> no_content\<lparr>ac_type := ''text'', ac_text := t\<rparr>
      | BToolUse i n input \<Rightarrow> no_content\<lparr>ac_type := ''tool_call'', ac_call_id := i, ac_kind := n, ac_args := marshal_input input\<rparr>
      | BResult i c f \<Rightarrow> no_content\<lparr>ac_type := ''tool_result'', ac_call_id := i, ac_text := c, ac_is_error := f\<rparr>
      | BRaw r \<Rightarrow> no_content\<lparr>ac_type := ''provider_item'', ac_item := r\<rparr>)"

definition runtime_agent_content :: "block list \<Rightarrow> agent_content list" where
  "runtime_agent_content bs = map content_of_block bs"

definition context_of_turn :: "llm_turn \<Rightarrow> context_turn" where
  "context_of_turn t = \<lparr>ct_role = tu_role t, ct_content = runtime_agent_content (tu_blocks t)\<rparr>"

text \<open>The recent evidence shown to hooks: at most 16 turns, and the current instruction.\<close>

definition action_items :: "context_turn \<Rightarrow> context_item list" where
  "action_items t =
     concat (map (\<lambda>p.
         if ac_type p = ''text'' then
           if ct_role t = ''user'' then [\<lparr>ci_source = ContextUser, ci_action_id = [], ci_kind = [], ci_text = ac_text p\<rparr>]
           else if ct_role t = ''assistant'' then [\<lparr>ci_source = ContextAssistant, ci_action_id = [], ci_kind = [], ci_text = ac_text p\<rparr>]
           else []
         else if ac_type p = ''tool_call'' then
           [\<lparr>ci_source = ContextAction, ci_action_id = ac_call_id p, ci_kind = ac_kind p, ci_text = ac_args p\<rparr>]
         else if ac_type p = ''tool_result'' then
           [\<lparr>ci_source = ContextToolResult, ci_action_id = ac_call_id p, ci_kind = ac_kind p, ci_text = ac_text p\<rparr>]
         else []) (ct_content t))"

definition max_context_turns :: nat where "max_context_turns = 16"

definition runtime_action_context :: "context_turn list \<Rightarrow> string \<Rightarrow> context_item list" where
  "runtime_action_context turns current =
     concat (map action_items (drop (length turns - max_context_turns) turns))
     @ [\<lparr>ci_source = ContextUser, ci_action_id = [], ci_kind = [], ci_text = current\<rparr>]"

subsection \<open>The provider chain of an agent\<close>

fun fallback_index :: "provider_slot list \<Rightarrow> string \<Rightarrow> nat option" where
  "fallback_index [] i = None"
| "fallback_index (p # ps) i = (if ps_id p = i then Some 0 else map_option Suc (fallback_index ps i))"

definition onboarding :: "string \<Rightarrow> string" where
  "onboarding introduce =
     ''You are new: your owner has not written standing instructions for you yet. At the start of a conversation, briefly ''
     @ introduce @ '', say that you are new, and ask what they would like help with; then help with whatever they ask. Save what you learn about how they want you to work in your memory.''"

definition unnamed_identity :: string where
  "unnamed_identity = ''Your owner has not named you yet. If asked your name, say so rather than using another assistant's name.''"

definition persona_prompt :: "agent_definition \<Rightarrow> string" where
  "persona_prompt agent =
     (let identity = (if ad_name agent = [] then unnamed_identity else ''Your name is '' @ ad_name agent @ ''.'');
          introduce = (if ad_name agent = [] then ''introduce yourself'' else ''introduce yourself as '' @ ad_name agent)
      in identity @ nl @ nl @ (if ad_persona agent = [] then onboarding introduce else ad_persona agent))"

text \<open>\<open>slot\<close> is the name of the configured primary slot, \<open>config\<close> the server's brain configuration.\<close>

definition agent_brain_config :: "string \<Rightarrow> llm_config \<Rightarrow> agent_definition \<Rightarrow> error + llm_config" where
  "agent_brain_config slot config agent =
     (let finish = (\<lambda>c. c\<lparr>lc_primary := (lc_primary c)\<lparr>ps_model := ad_model agent\<rparr>, lc_persona := persona_prompt agent\<rparr>) in
      if ad_slot agent = slot then Inr (finish config)
      else (case fallback_index (lc_fallbacks config) (ad_slot agent) of
          None \<Rightarrow> Inl (''agent revision uses provider slot '' @ quoted (ad_slot agent) @ '', which is not configured'')
        | Some i \<Rightarrow>
            Inr (finish (config\<lparr>lc_primary := lc_fallbacks config ! i,
              lc_fallbacks := (lc_primary config)\<lparr>ps_id := slot\<rparr> # take i (lc_fallbacks config) @ drop (i + 1) (lc_fallbacks config)\<rparr>))))"

lemma fallback_index_Some: "fallback_index ps i = Some n \<Longrightarrow> n < length ps \<and> ps_id (ps ! n) = i"
  by (induction ps arbitrary: n) (auto split: if_splits)

text \<open>The revision's model, from the slot it names; the rest of the chain stays, in its order.\<close>

lemma agent_slot:
  assumes "agent_brain_config slot config agent = Inr c"
  shows "ps_model (lc_primary c) = ad_model agent
     \<and> (ad_slot agent = slot \<or> (\<exists>p \<in> set (lc_fallbacks config). ps_id p = ad_slot agent \<and> ps_provider p = ps_provider (lc_primary c)
            \<and> ps_api_key p = ps_api_key (lc_primary c) \<and> ps_base_url p = ps_base_url (lc_primary c)))"
proof (cases "ad_slot agent = slot")
  case True
  then show ?thesis using assms by (auto simp: agent_brain_config_def Let_def)
next
  case False
  then obtain i where i: "fallback_index (lc_fallbacks config) (ad_slot agent) = Some i" and c: "ps_model (lc_primary c) = ad_model agent"
    "ps_provider (lc_primary c) = ps_provider (lc_fallbacks config ! i)" "ps_api_key (lc_primary c) = ps_api_key (lc_fallbacks config ! i)"
    "ps_base_url (lc_primary c) = ps_base_url (lc_fallbacks config ! i)"
    using assms by (auto simp: agent_brain_config_def Let_def split: option.splits)
  from fallback_index_Some [OF i] c show ?thesis by (metis nth_mem)
qed

subsection \<open>Granted servers and who decides their calls\<close>

definition mcp_grants :: "agent_definition \<Rightarrow> (string \<times> tool_filter) list" where
  "mcp_grants agent = map (\<lambda>(s, g). (s, \<lparr>fl_enabled = gr_enabled g, fl_disabled = gr_disabled g\<rparr>)) (ad_mcp agent)"

datatype mcp_decider = DeciderNone | DeciderRules | DeciderJudged

text \<open>A host plugin: none (an external hook plugin), an action policy with or without a classifier, another.\<close>

datatype host_source = ExternalHook | PolicySource bool | OtherSource

fun decider_from :: "mcp_decider \<Rightarrow> host_source list \<Rightarrow> mcp_decider" where
  "decider_from d [] = d"
| "decider_from d (s # ss) =
     (case s of
        ExternalHook \<Rightarrow> DeciderJudged
      | PolicySource judged \<Rightarrow> if judged then DeciderJudged else decider_from DeciderRules ss
      | OtherSource \<Rightarrow> decider_from d ss)"

definition mcp_decider_of :: "host_source list \<Rightarrow> mcp_decider" where
  "mcp_decider_of ss = decider_from DeciderNone ss"

subsection \<open>Where a conversation may work\<close>

text \<open>The host's file system: a missing path is told apart from other failures.\<close>

datatype path_error = MissingPath error | FailedPath error

record host_files =
  hf_resolve :: "string \<Rightarrow> path_error + string"
  hf_stat :: "string \<Rightarrow> path_error + nat \<times> bool"

definition path_error_text :: "path_error \<Rightarrow> error" where
  "path_error_text e = (case e of MissingPath t \<Rightarrow> t | FailedPath t \<Rightarrow> t)"

definition lexically_inside :: "string \<Rightarrow> bool" where
  "lexically_inside rel \<longleftrightarrow> rel = ''.'' \<or> (rel \<noteq> ''..'' \<and> \<not> has_prefix rel ''../'')"

text \<open>Looks for a directory above \<open>current\<close> that is the file \<open>parent\<close>.\<close>

partial_function (option) same_above :: "host_files \<Rightarrow> nat \<Rightarrow> string \<Rightarrow> (error + bool) option" where
  "same_above fs parent current =
     (case hf_stat fs current of
        Inr (f, _) \<Rightarrow> if f = parent then Some (Inr True)
                     else if path_dir current = current then Some (Inr False) else same_above fs parent (path_dir current)
      | Inl (FailedPath e) \<Rightarrow> Some (Inl e)
      | Inl (MissingPath _) \<Rightarrow> if path_dir current = current then Some (Inr False) else same_above fs parent (path_dir current))"

definition path_contains :: "host_files \<Rightarrow> string \<Rightarrow> string \<Rightarrow> (error + bool) option" where
  "path_contains fs parent child =
     (case path_rel parent child of
        Inl e \<Rightarrow> Some (Inl e)
      | Inr relative \<Rightarrow>
          if lexically_inside relative then Some (Inr True)
          else (case hf_stat fs parent of
              Inl (MissingPath _) \<Rightarrow> Some (Inr False)
            | Inl (FailedPath e) \<Rightarrow> Some (Inl e)
            | Inr (f, _) \<Rightarrow> same_above fs f child))"

partial_function (option) resolve_missing_from :: "host_files \<Rightarrow> string \<Rightarrow> string list \<Rightarrow> (error + string) option" where
  "resolve_missing_from fs current missing =
     (case hf_resolve fs current of
        Inr resolved \<Rightarrow> Some (Inr (path_clean (foldl (\<lambda>r part. path_join [r, part]) resolved (rev missing))))
      | Inl (FailedPath e) \<Rightarrow> Some (Inl e)
      | Inl (MissingPath e) \<Rightarrow>
          if path_dir current = current then Some (Inl e)
          else resolve_missing_from fs (path_dir current) (missing @ [path_base current]))"

definition resolve_path_with_missing_leaf :: "host_files \<Rightarrow> string \<Rightarrow> string \<Rightarrow> (error + string) option" where
  "resolve_path_with_missing_leaf fs cwd path = resolve_missing_from fs (path_abs cwd path) []"

definition validate_workspace_outside_state :: "host_files \<Rightarrow> string \<Rightarrow> string \<Rightarrow> string \<Rightarrow> (error + unit) option" where
  "validate_workspace_outside_state fs cwd workspace state =
     Option.bind (resolve_path_with_missing_leaf fs cwd workspace) (\<lambda>w. case w of
         Inl e \<Rightarrow> Some (Inl (''runtime server: resolve workspace: '' @ e))
       | Inr w \<Rightarrow> Option.bind (resolve_path_with_missing_leaf fs cwd state) (\<lambda>s. case s of
           Inl e \<Rightarrow> Some (Inl (''runtime server: resolve state directory: '' @ e))
         | Inr s \<Rightarrow>
             (let compared = (\<lambda>c rest. case c of
                   Inl e \<Rightarrow> Some (Inl (''runtime server: compare workspace and state directory: '' @ e))
                 | Inr True \<Rightarrow> Some (Inl ''runtime server: workspace and runtime state directory must not contain each other'')
                 | Inr False \<Rightarrow> rest)
              in Option.bind (path_contains fs w s) (\<lambda>c1. compared c1
                   (Option.bind (path_contains fs s w) (\<lambda>c2. compared c2 (Some (Inr ()))))))))"

definition validate_conversation_workspace :: "host_files \<Rightarrow> string \<Rightarrow> string \<Rightarrow> string \<Rightarrow> string \<Rightarrow> (error + string) option" where
  "validate_conversation_workspace fs cwd workspace allowed_root state =
     (if workspace = [] \<or> \<not> is_abs workspace then Some (Inl ''host workspace must be an absolute path'')
      else (case hf_resolve fs workspace of
          Inl e \<Rightarrow> Some (Inl (''resolve host workspace: '' @ path_error_text e))
        | Inr resolved \<Rightarrow>
            (case hf_stat fs resolved of
               Inl e \<Rightarrow> Some (Inl (''stat host workspace: '' @ path_error_text e))
             | Inr (_, dir) \<Rightarrow>
                 if \<not> dir then Some (Inl ''host workspace must be a directory'')
                 else (case hf_resolve fs allowed_root of
                     Inl e \<Rightarrow> Some (Inl (''resolve workspace root: '' @ path_error_text e))
                   | Inr resolved_root \<Rightarrow>
                       Option.bind (path_contains fs resolved_root resolved) (\<lambda>c. case c of
                           Inl e \<Rightarrow> Some (Inl e)
                         | Inr False \<Rightarrow> Some (Inl (''host workspace '' @ quoted workspace @ '' is outside allowed root '' @ quoted allowed_root))
                         | Inr True \<Rightarrow>
                             Option.bind (validate_workspace_outside_state fs cwd resolved state) (\<lambda>v. case v of
                                 Inl e \<Rightarrow> Some (Inl e)
                               | Inr _ \<Rightarrow> Some (Inr resolved)))))))"

text \<open>\<open>split\<close> is \<^verbatim>\<open>net.SplitHostPort\<close>, \<open>loopback\<close> whether a host is a loopback IP address.\<close>

definition validate_loopback_address :: "(string \<Rightarrow> error + string) \<Rightarrow> (string \<Rightarrow> bool) \<Rightarrow> string \<Rightarrow> error + unit" where
  "validate_loopback_address split loopback address =
     (case split address of
        Inl e \<Rightarrow> Inl (''runtime server: address: '' @ e)
      | Inr host \<Rightarrow> if host = ''localhost'' \<or> loopback host then Inr ()
                    else Inl ''runtime server: v1 must bind to a loopback address'')"

definition loopback_request_allowed :: "(string \<Rightarrow> error + string) \<Rightarrow> (string \<Rightarrow> bool) \<Rightarrow> string \<Rightarrow> string \<Rightarrow> bool" where
  "loopback_request_allowed split loopback host_header origin \<longleftrightarrow>
     (case split host_header of
        Inl _ \<Rightarrow> False
      | Inr host \<Rightarrow> (host = ''localhost'' \<or> loopback host) \<and> (origin = [] \<or> origin = ''http://'' @ host_header))"

subsection \<open>What was recorded is replayed\<close>

text \<open>The block that a recorded block is read back as: arguments in canonical form, nil as no arguments.\<close>

definition canon_members :: "(string \<times> json) list \<Rightarrow> (string \<times> json) list" where
  "canon_members ms = canonical_members (map (\<lambda>(k, v). (k, canon v)) ms)"

lemma canon_object: "canon (JObject ms) = JObject (canon_members ms)"
  by (simp add: canon_members_def)

definition replayed :: "block \<Rightarrow> block" where
  "replayed b = (case b of BToolUse i n input \<Rightarrow> BToolUse i n (Some (case input of None \<Rightarrow> [] | Some ms \<Rightarrow> canon_members ms)) | _ \<Rightarrow> b)"

definition recordable :: "block \<Rightarrow> bool" where
  "recordable b \<longleftrightarrow> (case b of BToolUse _ _ (Some ms) \<Rightarrow> json_ok (JObject ms) | BRaw r \<Rightarrow> unmarshal r \<noteq> None | _ \<Rightarrow> True)"

lemma marshal_object_ends: "\<exists>t. marshal (JObject ms) = CHR 0x7B # t @ [CHR 0x7D]"
  unfolding marshal_object by auto

lemma decode_first_marshal:
  assumes "json_ok (JObject ms)"
  shows "decode_first (marshal (JObject ms)) = Some (JObject (canon_members ms))"
proof -
  define t where "t = marshal (JObject ms)"
  have "unmarshal t = Some (JObject (canon_members ms))" unfolding t_def using unmarshal_marshal [OF assms] by (simp only: canon_object)
  then obtain r where "parse_value (parse_fuel t) t = Some (JObject (canon_members ms), r)" by (auto simp: unmarshal_def split: option.splits if_splits)
  then show ?thesis by (simp add: decode_first_def flip: t_def del: marshal.simps)
qed

lemma trim_braces: "trim_space (CHR 0x7B # t @ [CHR 0x7D]) = CHR 0x7B # t @ [CHR 0x7D]"
  by (simp add: trim_space_def is_ascii_space_def has_prefix_def wide_spaces_def Let_def)

lemma runtime_tool_input_marshal:
  assumes "json_ok (JObject ms)"
  shows "runtime_tool_input i (marshal (JObject ms)) = Inr (canon_members ms)"
proof -
  obtain t where t: "marshal (JObject ms) = CHR 0x7B # t @ [CHR 0x7D]" using marshal_object_ends by blast
  have "unmarshal (marshal (JObject ms)) \<noteq> None" using unmarshal_marshal [OF assms] by simp
  then show ?thesis using decode_first_marshal [OF assms] unfolding t
    by (simp add: runtime_tool_input_def trim_braces Let_def del: append.simps)
qed

lemma runtime_tool_input_null: "runtime_tool_input i ''null'' = Inr []"
proof -
  have "trim_space ''null'' = ''null''" by code_simp
  moreover have "decode_first ''{}'' = Some (JObject [])" "unmarshal ''{}'' = Some (JObject [])" by code_simp+
  ultimately show ?thesis by (simp add: runtime_tool_input_def Let_def)
qed

lemma block_replayed: "recordable b \<Longrightarrow> block_of_content (content_of_block b) = Inr (replayed b)"
  by (auto simp: recordable_def content_of_block_def block_of_content_def replayed_def no_content_def marshal_input_def
      runtime_tool_input_marshal runtime_tool_input_null simp del: marshal.simps json_ok.simps split: block.splits option.splits)

lemma blocks_replayed: "\<forall>b \<in> set bs. recordable b \<Longrightarrow> map_res block_of_content (runtime_agent_content bs) = Inr (map replayed bs)"
  by (induction bs) (simp_all add: runtime_agent_content_def block_replayed)

definition replayed_turn :: "llm_turn \<Rightarrow> llm_turn" where
  "replayed_turn t = t\<lparr>tu_blocks := map replayed (tu_blocks t)\<rparr>"

definition recordable_turn :: "llm_turn \<Rightarrow> bool" where
  "recordable_turn t \<longleftrightarrow> tu_role t \<in> {''user'', ''assistant''} \<and> (\<forall>b \<in> set (tu_blocks t). recordable b)"

lemma turns_replayed: "\<forall>t \<in> set ts. recordable_turn t \<Longrightarrow> runtime_context_turns (map context_of_turn ts) = Inr (map replayed_turn ts)"
proof (induction ts)
  case (Cons t ts)
  then have "turn_of_context (context_of_turn t) = Inr (replayed_turn t)"
    by (auto simp: turn_of_context_def context_of_turn_def recordable_turn_def blocks_replayed replayed_turn_def)
  with Cons show ?case by (simp add: runtime_context_turns_def)
qed (simp add: runtime_context_turns_def)

lemma replayed_ids [simp]: "call_ids (replayed_turn t) = call_ids t" "result_ids (replayed_turn t) = result_ids t"
  "length (filter is_memory_block (tu_blocks (replayed_turn t))) = length (filter is_memory_block (tu_blocks t))"
  "tu_role (replayed_turn t) = tu_role t"
proof -
  have "map fst (tool_uses (map replayed bs)) = map fst (tool_uses bs)" "concat (map result_id (map replayed bs)) = concat (map result_id bs)"
    "length (filter is_memory_block (map replayed bs)) = length (filter is_memory_block bs)" for bs
    by (induction bs) (auto simp: replayed_def split: block.splits)
  then show "call_ids (replayed_turn t) = call_ids t" "result_ids (replayed_turn t) = result_ids t"
    "length (filter is_memory_block (tu_blocks (replayed_turn t))) = length (filter is_memory_block (tu_blocks t))"
    by (simp_all add: call_ids_def result_ids_def replayed_turn_def)
  show "tu_role (replayed_turn t) = tu_role t" by (simp add: replayed_turn_def)
qed

lemma memory_count_replayed [simp]: "memory_count (map replayed_turn ts) = memory_count ts"
  by (induction ts) simp_all

lemma sendable_replayed: "sendable cfg (map replayed_turn ts) = sendable cfg ts"
proof -
  have "successively answers (map replayed_turn ts) = successively answers ts"
    by (simp add: successively_map answers_def [abs_def])
  then show ?thesis
    by (cases ts) (simp_all add: sendable_def well_formed_def open_calls_def turn_ok_def memory_ok_def last_map drop_map)
qed

text \<open>C14. A conversation that was recorded is read back as it was: the same turns, blocks, calls and
  results, with the arguments of calls in canonical form. Recording it again changes nothing
  more, and a conversation that could be sent to the model can be sent after it was replayed.\<close>

theorem conversation_replays:
  assumes "\<forall>t \<in> set ts. recordable_turn t"
  shows "\<exists>us. runtime_context_turns (map context_of_turn ts) = Inr us \<and> us = map replayed_turn ts
     \<and> sendable cfg us = sendable cfg ts
     \<and> (\<forall>t \<in> set ts. (\<forall>i n. BToolUse i n None \<notin> set (tu_blocks t)) \<longrightarrow> context_of_turn (replayed_turn t) = context_of_turn t)"
proof -
  have "content_of_block (replayed b) = content_of_block b" if "\<forall>i n. b \<noteq> BToolUse i n None" for b
  proof (cases b)
    case (BToolUse i n input)
    with that obtain ms where ms: "input = Some ms" by (cases input) auto
    have "marshal (JObject (canon_members ms)) = marshal (JObject ms)" using marshal_canon [of "JObject ms"] unfolding canon_object .
    then show ?thesis using BToolUse ms by (simp add: replayed_def content_of_block_def marshal_input_def del: marshal.simps)
  qed (simp_all add: replayed_def)
  note same = this
  have "context_of_turn (replayed_turn t) = context_of_turn t" if t: "\<forall>i n. BToolUse i n None \<notin> set (tu_blocks t)" for t
  proof -
    have "content_of_block (replayed b) = content_of_block b" if b: "b \<in> set (tu_blocks t)" for b
      by (rule same) (use t b in auto)
    then show ?thesis by (simp add: context_of_turn_def replayed_turn_def runtime_agent_content_def)
  qed
  then show ?thesis using turns_replayed [OF assms] sendable_replayed by blast
qed

definition recorded_turns :: "llm_turn list" where
  "recorded_turns = [user_turn [BText ''go''], \<lparr>tu_role = ''assistant'', tu_blocks = [BToolUse ''c1'' ''bash'' (Some [(''b'', JNumber ''1''), (''a'', JString ''x'')])]\<rparr>,
     user_turn [BResult ''c1'' ''done'' False]]"

lemma conversation_replays_witness:
  "runtime_context_turns (map context_of_turn recorded_turns) = Inr (map replayed_turn recorded_turns)"
proof -
  have "\<forall>t \<in> set recorded_turns. recordable_turn t" unfolding recorded_turns_def by code_simp
  then show ?thesis using conversation_replays by blast
qed

end
