(* ===== verification/Runner_Paths.thy ===== *)
theory Runner_Paths
  imports Runner Jail
begin

section \<open>Where a conversation may work (cmd/pons/runtime_mode.go)\<close>

text \<open>
  What \<open>Runner\<close> checks before hands get a workspace, read as a statement about the directory tree:
  an accepted workspace lies in the allowed root, and neither contains the state directory nor
  lies in it, whether one looks at names or at the identity of files.
\<close>

subsection \<open>One path in another\<close>

text \<open>\<open>c\<close> is below \<open>p\<close> by its names, or some directory above it is the same file as \<open>p\<close>.\<close>

definition inside :: "host_files \<Rightarrow> string \<Rightarrow> string \<Rightarrow> bool" where
  "inside fs p c \<longleftrightarrow> (\<exists>rest. path_comps c = path_comps p @ rest)
     \<or> (\<exists>k f d e. hf_stat fs p = Inr (f, d) \<and> hf_stat fs (path_above c k) = Inr (f, e))"

lemma same_above_result:
  assumes "is_abs cur" and "path_clean cur = cur"
  shows "\<exists>r. same_above fs parent cur = Some r
     \<and> (\<forall>b. r = Inr b \<longrightarrow> b = (\<exists>k d. hf_stat fs (path_above cur k) = Inr (parent, d)))"
  using assms
proof (induction "length (path_comps cur)" arbitrary: cur)
  case 0
  then have top: "path_dir cur = cur" and same: "\<And>k. path_above cur k = cur" by (simp_all add: dir_fixed above_self)
  show ?case
    by (cases "hf_stat fs cur") (auto simp: same top same_above.simps [of fs parent cur] split: path_error.splits prod.splits)
next
  case (Suc n)
  then have ne: "path_comps cur \<noteq> []" by auto
  note dir = path_dir_clean [OF Suc.prems]
  have "n = length (path_comps (path_dir cur))" using Suc.hyps(2) by (simp add: dir(2))
  from Suc.hyps(1) [OF this dir(3,4)] obtain r where r: "same_above fs parent (path_dir cur) = Some r"
    "\<forall>b. r = Inr b \<longrightarrow> b = (\<exists>k d. hf_stat fs (path_above (path_dir cur) k) = Inr (parent, d))" by blast
  have up: "(\<exists>k d. hf_stat fs (path_above cur k) = Inr (parent, d))
     \<longleftrightarrow> (\<exists>d. hf_stat fs cur = Inr (parent, d)) \<or> (\<exists>k d. hf_stat fs (path_above (path_dir cur) k) = Inr (parent, d))" (is "?l \<longleftrightarrow> ?m \<or> ?r")
  proof
    assume ?l
    then obtain k d where k: "hf_stat fs (path_above cur k) = Inr (parent, d)" by blast
    show "?m \<or> ?r"
    proof (cases "k < length (path_comps cur)")
      case True
      then show ?thesis using k above_dir [OF Suc.prems ne True] by metis
    next
      case False
      then show ?thesis using k above_self [OF Suc.prems, of k] by (metis not_less)
    qed
  next
    assume "?m \<or> ?r"
    then show ?l
    proof
      assume ?m
      then show ?l using above_self [OF Suc.prems, of "length (path_comps cur)"] by (metis order_refl)
    next
      assume ?r
      then obtain k d where k: "hf_stat fs (path_above (path_dir cur) k) = Inr (parent, d)" by blast
      define j where "j = min k n"
      have "length (path_comps (path_dir cur)) = n" using Suc.hyps(2) by (simp add: dir(2))
      then have "path_above (path_dir cur) k = path_above (path_dir cur) j" using above_min [of "path_dir cur" k] by (simp add: j_def)
      moreover have "path_above (path_dir cur) j = path_above cur j" using above_dir [OF Suc.prems ne] Suc.hyps(2) by (simp add: j_def)
      ultimately show ?l using k by metis
    qed
  qed
  have "path_dir cur \<noteq> cur" using dir_fixed [OF Suc.prems] ne by simp
  then show ?case
    using r up by (cases "hf_stat fs cur") (auto simp: same_above.simps [of fs parent cur] split: path_error.splits prod.splits)
qed

subsection \<open>Containment\<close>

lemma rel_inside:
  assumes "is_abs base" and "is_abs targ" and "path_rel base targ = Inr rel"
  shows "lexically_inside rel \<longleftrightarrow> (\<exists>rest. path_comps targ = path_comps base @ rest)"
proof
  assume "lexically_inside rel"
  then consider "rel = ''.''" | "rel \<noteq> ''..''" "\<not> has_prefix rel ''../''" by (auto simp: lexically_inside_def)
  then show "\<exists>rest. path_comps targ = path_comps base @ rest"
  proof cases
    case 1
    have "rel \<noteq> ''..''" "\<not> has_prefix rel ''../''" using 1 by (simp_all add: has_prefix_iff)
    then show ?thesis using path_rel_inside [OF assms(1,3)] by blast
  next
    case 2
    then show ?thesis using path_rel_inside [OF assms(1,3)] by blast
  qed
next
  assume "\<exists>rest. path_comps targ = path_comps base @ rest"
  then obtain rest where rest: "path_comps targ = path_comps base @ rest" ..
  have n: "common_length bs (bs @ cs) = length bs" for bs cs by (induction bs) auto
  show "lexically_inside rel"
  proof (cases rest)
    case Nil
    then have "rel = ''.''" using assms(1,3) rest by (simp add: path_rel_def)
    then show ?thesis by (simp add: lexically_inside_def)
  next
    case (Cons c cs)
    then have rel: "rel = join_on [slash] (c # cs)" using assms(1,3) rest n by (simp add: path_rel_def Let_def)
    have c: "proper c" using path_comps_proper [OF assms(2), of c] rest Cons by simp
    have "rel \<noteq> ''..'' \<and> \<not> has_prefix rel ''../''"
    proof (cases "cs = []")
      case True
      then show ?thesis using rel c by (auto simp: proper_def has_prefix_iff)
    next
      case False
      then have r: "rel = c @ slash # join_on [slash] cs" using rel by (simp add: join_on_Cons)
      have "slash \<in> set rel" using r by simp
      then have "rel \<noteq> ''..''" by auto
      moreover have False if "rel = ''../'' @ u" for u
      proof -
        have "\<forall>x \<in> set c. x \<noteq> slash" using c by (auto simp: proper_def)
        then have "takeWhile (\<lambda>x. x \<noteq> slash) rel = c" unfolding r by (subst takeWhile_append2) auto
        moreover have "takeWhile (\<lambda>x. x \<noteq> slash) rel = ''..''" unfolding that by simp
        ultimately have "c = ''..''" by simp
        with c show False by (simp add: proper_def)
      qed
      ultimately show ?thesis by (auto simp: has_prefix_iff)
    qed
    then show ?thesis by (simp add: lexically_inside_def)
  qed
qed

text \<open>The check always returns, and says exactly whether one path lies in the other.\<close>

lemma path_contains_result:
  assumes "is_abs p" and "is_abs c" and "path_clean c = c"
  shows "\<exists>r. path_contains fs p c = Some r \<and> (\<forall>b. r = Inr b \<longrightarrow> b = inside fs p c)"
proof -
  have "\<exists>rel. path_rel p c = Inr rel" using assms(1) by (simp add: path_rel_def Let_def)
  then obtain rel where rel: "path_rel p c = Inr rel" ..
  note lex = rel_inside [OF assms(1,2) rel]
  show ?thesis
  proof (cases "lexically_inside rel")
    case True
    then show ?thesis using lex rel by (auto simp: path_contains_def inside_def)
  next
    case False
    show ?thesis
    proof (cases "hf_stat fs p")
      case (Inl e)
      then show ?thesis using False lex rel by (cases e) (auto simp: path_contains_def inside_def)
    next
      case (Inr fd)
      obtain f d where fd: "fd = (f, d)" by (cases fd)
      obtain r where "same_above fs f c = Some r" "\<forall>b. r = Inr b \<longrightarrow> b = (\<exists>k d. hf_stat fs (path_above c k) = Inr (f, d))"
        using same_above_result [OF assms(2,3)] by blast
      then show ?thesis using False lex rel Inr fd by (auto simp: path_contains_def inside_def)
    qed
  qed
qed

subsection \<open>Paths whose last names are missing\<close>

text \<open>
  \<open>res\<close> is where the links lead of the longest part of \<open>p\<close> that exists (all of it when \<open>p\<close> exists),
  followed by the names below that part, which are all reported missing. This determines \<open>res\<close>.
\<close>

definition located :: "host_files \<Rightarrow> string \<Rightarrow> string \<Rightarrow> bool" where
  "located fs p res \<longleftrightarrow> is_abs res \<and> path_clean res = res
     \<and> (\<exists>k q. k \<le> length (path_comps p) \<and> hf_resolve fs (path_above p k) = Inr q
          \<and> (\<forall>j. k < j \<and> j \<le> length (path_comps p) \<longrightarrow> (\<exists>e. hf_resolve fs (path_above p j) = Inl (MissingPath e)))
          \<and> path_comps res = path_comps q @ drop k (path_comps p))"

lemma located_unique:
  assumes "located fs p res" and "located fs p res'"
  shows "res = res'"
proof -
  obtain k q where k: "k \<le> length (path_comps p)" "hf_resolve fs (path_above p k) = Inr q"
    "\<And>j. k < j \<Longrightarrow> j \<le> length (path_comps p) \<Longrightarrow> \<exists>e. hf_resolve fs (path_above p j) = Inl (MissingPath e)"
    "path_comps res = path_comps q @ drop k (path_comps p)" using assms(1) unfolding located_def by blast
  obtain l r where l: "l \<le> length (path_comps p)" "hf_resolve fs (path_above p l) = Inr r"
    "\<And>j. l < j \<Longrightarrow> j \<le> length (path_comps p) \<Longrightarrow> \<exists>e. hf_resolve fs (path_above p j) = Inl (MissingPath e)"
    "path_comps res' = path_comps r @ drop l (path_comps p)" using assms(2) unfolding located_def by blast
  have "k = l" using k(2) k(3) [of l] k(1) l(2) l(3) [of k] l(1) by (metis Inl_Inr_False nat_neq_iff)
  then have "path_comps res = path_comps res'" using k(2,4) l(2,4) by simp
  moreover have "is_abs res" "path_clean res = res" "is_abs res'" "path_clean res' = res'" using assms by (simp_all add: located_def)
  ultimately show ?thesis using path_clean_abs by metis
qed

definition resolves_abs :: "host_files \<Rightarrow> bool" where
  "resolves_abs fs \<longleftrightarrow> (\<forall>p q. is_abs p \<and> hf_resolve fs p = Inr q \<longrightarrow> is_abs q \<and> path_clean q = q)"

lemma join_names:
  assumes "is_abs q" and "path_clean q = q" and "\<forall>d \<in> set ds. proper d"
  shows "is_abs (foldl (\<lambda>r part. path_join [r, part]) q ds) \<and> path_clean (foldl (\<lambda>r part. path_join [r, part]) q ds) = foldl (\<lambda>r part. path_join [r, part]) q ds
     \<and> path_comps (foldl (\<lambda>r part. path_join [r, part]) q ds) = path_comps q @ ds"
  using assms
proof (induction ds arbitrary: q)
  case (Cons d ds)
  have d: "proper d" using Cons.prems(3) by simp
  let ?q = "path_join [q, d]"
  have join: "?q = path_clean (join_on [slash] [q, d])" "is_abs (join_on [slash] [q, d])" using path_join_abs [OF Cons.prems(1), of "[d]"] by auto
  have "join_on [slash] [q, d] = q @ slash # d" by simp
  then have "path_comps (join_on [slash] [q, d]) = clean_parts True [] (split_on slash q @ split_on slash d)"
    using join(2) by (simp add: path_comps_def split_on_append2)
  also have "\<dots> = path_comps q @ [d]"
    using d split_on_single [of slash d] Cons.prems(1) by (simp add: clean_parts_append path_comps_def proper_def)
  finally have "path_comps ?q = path_comps q @ [d]" using join by simp
  moreover have "is_abs ?q" "path_clean ?q = ?q" using join by simp_all
  ultimately show ?case using Cons.IH [of ?q] Cons.prems(3) by simp
qed simp

lemma resolve_missing_result:
  assumes links: "resolves_abs fs" and "is_abs cur" and "path_clean cur = cur" and "\<forall>d \<in> set missing. proper d"
  shows "\<exists>r. resolve_missing_from fs cur missing = Some r
     \<and> (\<forall>res. r = Inr res \<longrightarrow> is_abs res \<and> path_clean res = res
          \<and> (\<exists>k q. deepest (\<lambda>s. \<not> (\<exists>e. hf_resolve fs s = Inl (MissingPath e))) cur k \<and> hf_resolve fs (path_above cur k) = Inr q
               \<and> path_comps res = path_comps q @ drop k (path_comps cur) @ rev missing))"
  using assms(2-4)
proof (induction "length (path_comps cur)" arbitrary: cur missing)
  case 0
  then have top: "path_dir cur = cur" by (simp add: dir_fixed)
  show ?case
  proof (cases "hf_resolve fs cur")
    case (Inl e)
    then show ?thesis using top by (cases e) (auto simp: resolve_missing_from.simps [of fs cur missing])
  next
    case (Inr q)
    then have q: "is_abs q" "path_clean q = q" using links 0(2) by (auto simp: resolves_abs_def)
    have rev: "\<forall>d \<in> set (rev missing). proper d" using 0(4) by simp
    have "deepest (\<lambda>s. \<not> (\<exists>e. hf_resolve fs s = Inl (MissingPath e))) cur 0 \<and> hf_resolve fs (path_above cur 0) = Inr q"
      using Inr 0 by (auto simp: deepest_def above_self)
    with join_names [OF q rev] Inr 0(1) show ?thesis by (auto simp: resolve_missing_from.simps [of fs cur missing])
  qed
next
  case (Suc n)
  note dir = path_dir_clean [OF Suc.prems(1,2)]
  show ?case
  proof (cases "hf_resolve fs cur")
    case (Inr q)
    let ?k = "length (path_comps cur)" and ?res = "foldl (\<lambda>r part. path_join [r, part]) q (rev missing)"
    from Inr have q: "is_abs q" "path_clean q = q" using links Suc.prems(1) by (auto simp: resolves_abs_def)
    have rev: "\<forall>d \<in> set (rev missing). proper d" using Suc.prems(3) by simp
    have "deepest (\<lambda>s. \<not> (\<exists>e. hf_resolve fs s = Inl (MissingPath e))) cur ?k \<and> hf_resolve fs (path_above cur ?k) = Inr q
        \<and> path_comps ?res = path_comps q @ drop ?k (path_comps cur) @ rev missing"
      using Inr Suc.prems(1,2) join_names [OF q rev] by (simp add: deepest_def above_self)
    moreover have "resolve_missing_from fs cur missing = Some (Inr ?res)"
      using Inr join_names [OF q rev] by (simp add: resolve_missing_from.simps [of fs cur missing])
    ultimately show ?thesis using join_names [OF q rev] by blast
  next
    case (Inl e)
    show ?thesis
    proof (cases e)
      case (FailedPath x)
      with Inl show ?thesis by (simp add: resolve_missing_from.simps [of fs cur missing])
    next
      case (MissingPath x)
      obtain bs c where bc: "path_comps cur = bs @ [c]" using Suc.hyps(2) by (cases "path_comps cur" rule: rev_cases) auto
      have c: "path_base cur = c" "proper c" using path_base_clean [OF Suc.prems(1,2) bc] path_comps_proper [OF Suc.prems(1), of c] bc by simp_all
      have "path_dir cur \<noteq> cur" using dir_fixed [OF Suc.prems(1,2)] bc by simp
      then have step: "resolve_missing_from fs cur missing = resolve_missing_from fs (path_dir cur) (missing @ [c])"
        using Inl MissingPath c by (simp add: resolve_missing_from.simps [of fs cur missing])
      have "n = length (path_comps (path_dir cur))" using Suc.hyps(2) by (simp add: dir(2))
      from Suc.hyps(1) [OF this dir(3,4), of "missing @ [c]"] c Suc.prems(3)
      obtain r where r: "resolve_missing_from fs (path_dir cur) (missing @ [c]) = Some r"
        and real: "\<And>res. r = Inr res \<Longrightarrow> is_abs res \<and> path_clean res = res
          \<and> (\<exists>k q. deepest (\<lambda>s. \<not> (\<exists>e. hf_resolve fs s = Inl (MissingPath e))) (path_dir cur) k \<and> hf_resolve fs (path_above (path_dir cur) k) = Inr q
               \<and> path_comps res = path_comps q @ drop k (path_comps (path_dir cur)) @ c # rev missing)"
        by auto
      have "is_abs res \<and> path_clean res = res
          \<and> (\<exists>k q. deepest (\<lambda>s. \<not> (\<exists>e. hf_resolve fs s = Inl (MissingPath e))) cur k \<and> hf_resolve fs (path_above cur k) = Inr q
               \<and> path_comps res = path_comps q @ drop k (path_comps cur) @ rev missing)"
        if res: "r = Inr res" for res
      proof -
        obtain k q where k: "deepest (\<lambda>s. \<not> (\<exists>e. hf_resolve fs s = Inl (MissingPath e))) (path_dir cur) k"
          "hf_resolve fs (path_above (path_dir cur) k) = Inr q"
          "path_comps res = path_comps q @ drop k (path_comps (path_dir cur)) @ c # rev missing" using real [OF res] by blast
        have ne: "path_comps cur \<noteq> []" and gone: "\<not> \<not> (\<exists>e. hf_resolve fs cur = Inl (MissingPath e))" using bc Inl MissingPath by simp_all
        note up = deepest_dir [OF Suc.prems(1,2) ne gone k(1)]
        have "k < length (path_comps cur)" using k(1) bc by (simp add: deepest_def dir(2))
        then have "path_above (path_dir cur) k = path_above cur k" by (rule above_dir [OF Suc.prems(1,2) ne])
        then have "deepest (\<lambda>s. \<not> (\<exists>e. hf_resolve fs s = Inl (MissingPath e))) cur k \<and> hf_resolve fs (path_above cur k) = Inr q
            \<and> path_comps res = path_comps q @ drop k (path_comps cur) @ rev missing" using k(2,3) up bc by simp
        then show ?thesis using real [OF res] by blast
      qed
      with r step show ?thesis by metis
    qed
  qed
qed

lemma resolve_path_located:
  assumes "resolves_abs fs" and "is_abs cwd"
  shows "\<exists>r. resolve_path_with_missing_leaf fs cwd p = Some r \<and> (\<forall>res. r = Inr res \<longrightarrow> located fs (path_abs cwd p) res)"
proof -
  have abs: "is_abs (path_abs cwd p)" "path_clean (path_abs cwd p) = path_abs cwd p" using path_abs_clean [OF assms(2)] by auto
  let ?found = "\<lambda>s. \<not> (\<exists>e. hf_resolve fs s = Inl (MissingPath e))"
  obtain r where r: "resolve_missing_from fs (path_abs cwd p) [] = Some r"
    and res: "\<And>res. r = Inr res \<Longrightarrow> is_abs res \<and> path_clean res = res
       \<and> (\<exists>k q. deepest ?found (path_abs cwd p) k \<and> hf_resolve fs (path_above (path_abs cwd p) k) = Inr q
            \<and> path_comps res = path_comps q @ drop k (path_comps (path_abs cwd p)))"
    using resolve_missing_result [OF assms(1) abs, of "[]"] by auto
  have "located fs (path_abs cwd p) res" if "r = Inr res" for res
    using res [OF that] unfolding located_def deepest_def by blast
  with r show ?thesis unfolding resolve_path_with_missing_leaf_def by auto
qed

subsection \<open>The accepted workspaces\<close>

text \<open>Neither path lies in the other.\<close>

definition apart :: "host_files \<Rightarrow> string \<Rightarrow> string \<Rightarrow> bool" where
  "apart fs p q \<longleftrightarrow> \<not> inside fs p q \<and> \<not> inside fs q p"

lemma outside_state:
  assumes "resolves_abs fs" and "is_abs cwd"
  shows "\<exists>r. validate_workspace_outside_state fs cwd w st = Some r
     \<and> (r = Inr () \<longrightarrow> (\<exists>rw rs. located fs (path_abs cwd w) rw \<and> located fs (path_abs cwd st) rs \<and> apart fs rw rs))"
proof -
  obtain a where a: "resolve_path_with_missing_leaf fs cwd w = Some a" "\<And>res. a = Inr res \<Longrightarrow> located fs (path_abs cwd w) res"
    using resolve_path_located [OF assms, of w] by blast
  obtain b where b: "resolve_path_with_missing_leaf fs cwd st = Some b" "\<And>res. b = Inr res \<Longrightarrow> located fs (path_abs cwd st) res"
    using resolve_path_located [OF assms, of st] by blast
  show ?thesis
  proof (cases "\<exists>rw rs. a = Inr rw \<and> b = Inr rs")
    case False
    then show ?thesis using a(1) b(1) by (cases a; cases b) (simp_all add: validate_workspace_outside_state_def)
  next
    case True
    then obtain rw rs where ab: "a = Inr rw" "b = Inr rs" by blast
    have loc: "located fs (path_abs cwd w) rw" "located fs (path_abs cwd st) rs" using a(2) b(2) ab by simp_all
    obtain c where c: "path_contains fs rw rs = Some c" "\<And>x. c = Inr x \<Longrightarrow> x = inside fs rw rs"
      using path_contains_result [of rw rs fs] loc by (auto simp: located_def)
    obtain d where d: "path_contains fs rs rw = Some d" "\<And>x. d = Inr x \<Longrightarrow> x = inside fs rs rw"
      using path_contains_result [of rs rw fs] loc by (auto simp: located_def)
    show ?thesis
    proof (cases "c = Inr False \<and> d = Inr False")
      case True
      then have "apart fs rw rs" using c(2) d(2) by (auto simp: apart_def)
      then show ?thesis using a(1) b(1) ab c(1) d(1) True loc by (auto simp: validate_workspace_outside_state_def)
    next
      case False
      then show ?thesis using a(1) b(1) ab c(1) d(1)
        by (cases c; cases d) (auto simp: validate_workspace_outside_state_def split: bool.splits)
    qed
  qed
qed

text \<open>C18. A workspace a client may choose is a directory that lies in the allowed root, and it is apart from
  the server's state directory: the place where the links of either lead (of the longest part of
  it that exists, followed by the names that do not exist yet) neither contains the other's nor
  lies in it, by name or by the identity of their files. The check always returns an answer.\<close>

theorem workspace_confined:
  assumes "resolves_abs fs" and "is_abs cwd" and "is_abs allowed"
  shows "\<exists>r. validate_conversation_workspace fs cwd w allowed st = Some r
     \<and> (\<forall>res. r = Inr res \<longrightarrow> hf_resolve fs w = Inr res \<and> (\<exists>f. hf_stat fs res = Inr (f, True))
          \<and> (\<exists>rr. hf_resolve fs allowed = Inr rr \<and> inside fs rr res)
          \<and> (\<exists>rw rs. located fs res rw \<and> located fs (path_abs cwd st) rs \<and> apart fs rw rs))"
proof (cases "\<exists>res f rr. w \<noteq> [] \<and> is_abs w \<and> hf_resolve fs w = Inr res \<and> hf_stat fs res = Inr (f, True) \<and> hf_resolve fs allowed = Inr rr")
  case False
  then show ?thesis
    by (auto simp: validate_conversation_workspace_def split: sum.splits)
next
  case True
  then obtain res f rr where w: "w \<noteq> []" "is_abs w" and res: "hf_resolve fs w = Inr res" "hf_stat fs res = Inr (f, True)"
    and rr: "hf_resolve fs allowed = Inr rr" by blast
  have abs: "is_abs res" "path_clean res = res" "is_abs rr" using assms w res(1) rr by (auto simp: resolves_abs_def)
  obtain c where c: "path_contains fs rr res = Some c" "\<And>x. c = Inr x \<Longrightarrow> x = inside fs rr res"
    using path_contains_result [OF abs(3,1,2), of fs] by blast
  obtain v where v: "validate_workspace_outside_state fs cwd res st = Some v"
    "v = Inr () \<longrightarrow> (\<exists>rw rs. located fs (path_abs cwd res) rw \<and> located fs (path_abs cwd st) rs \<and> apart fs rw rs)"
    using outside_state [OF assms(1,2), of res st] by blast
  have "path_abs cwd res = res" using abs by (simp add: path_abs_def)
  show ?thesis
  proof (cases c)
    case (Inl e)
    then show ?thesis using w res rr c(1) by (simp add: validate_conversation_workspace_def)
  next
    case (Inr x)
    then show ?thesis using w res rr c v \<open>path_abs cwd res = res\<close>
      by (cases x; cases v) (auto simp: validate_conversation_workspace_def)
  qed
qed

declare same_above.simps [code] resolve_missing_from.simps [code]

text \<open>A host with a link: \<^verbatim>\<open>/w/l\<close> leads to \<^verbatim>\<open>/w/p\<close>.\<close>

definition sample_host :: host_files where
  "sample_host =
     \<lparr>hf_resolve = (\<lambda>p. if p \<in> {''/w/l'', ''/w/p''} then Inr ''/w/p'' else if p \<in> {''/'', ''/w''} then Inr p
        else if is_abs p then Inl (MissingPath ''no such file'') else Inl (FailedPath ''relative'')),
      hf_stat = (\<lambda>p. if p = ''/w/p'' then Inr (3, True) else if p = ''/w'' then Inr (2, True) else if p = ''/'' then Inr (1, True)
        else Inl (MissingPath ''no such file''))\<rparr>"

lemma workspace_confined_witness:
  "inside sample_host ''/w'' ''/w/p'' \<and> hf_resolve sample_host ''/w/l'' = Inr ''/w/p''"
proof -
  have links: "resolves_abs sample_host"
    by (auto simp: resolves_abs_def sample_host_def path_clean_def path_comps_def split: if_splits)
  obtain r where r: "validate_conversation_workspace sample_host ''/'' ''/w/l'' ''/w'' ''/s'' = Some r"
    "\<And>res. r = Inr res \<Longrightarrow> hf_resolve sample_host ''/w/l'' = Inr res \<and> (\<exists>rr. hf_resolve sample_host ''/w'' = Inr rr \<and> inside sample_host rr res)"
    using workspace_confined [OF links, of "''/''" "''/w''" "''/w/l''" "''/s''"] by auto
  have "validate_conversation_workspace sample_host ''/'' ''/w/l'' ''/w'' ''/s'' = Some (Inr ''/w/p'')" by code_simp
  then have "r = Inr ''/w/p''" using r(1) by simp
  then show ?thesis using r(2) [of "''/w/p''"] by (simp add: sample_host_def)
qed

end
