(* ===== verification/Run_Events.thy ===== *)
theory Run_Events
  imports Core_Props
begin

section \<open>The events of a run (core.go, Run)\<close>

text \<open>
  What every event that a run emits carries, whoever the brain, the hooks and the tools are: the
  facts that a reporter of events relies on. The invariant is kept by every piece of the loop; the
  pieces that need a fact about a value get it from the piece that produced the value.
\<close>

definition event_fits :: "event \<Rightarrow> bool" where
  "event_fits e \<longleftrightarrow>
     (ev_type e \<in> {EventTurnStart, EventTurnEnd, EventActionStart} \<longrightarrow> ev_turn e > 0)
     \<and> (ev_type e = EventActionStart \<longrightarrow> (\<exists>a. ev_action e = Some a \<and> act_id a \<noteq> []))
     \<and> (ev_type e = EventAssistantResponse \<longrightarrow> (\<exists>p \<in> set (ev_parts e). ap_type p = PartText \<or> ap_type p = PartToolCall))"

definition log_fits :: "run_state \<Rightarrow> bool" where
  "log_fits s \<longleftrightarrow> (\<forall>e. LEvent e \<in> set (rs_log s) \<longrightarrow> event_fits e)"

text \<open>A response whose calls come with parts, so that the core checks their identifiers.\<close>

definition with_parts :: "assistant_response \<Rightarrow> bool" where
  "with_parts r \<longleftrightarrow> ar_parts r \<noteq> [] \<or> runnable (ar_actions r) = []"

lemma log_fits_frame [simp]:
  "log_fits (s\<lparr>rs_fx := fx\<rparr>) = log_fits s" "log_fits (s\<lparr>rs_denials := d\<rparr>) = log_fits s"
  "log_fits (s\<lparr>rs_recent := r\<rparr>) = log_fits s" "log_fits (s\<lparr>rs_history := h\<rparr>) = log_fits s"
  "log_fits (s\<lparr>rs_result := res\<rparr>) = log_fits s" "log_fits (s\<lparr>rs_agent_open := b\<rparr>) = log_fits s"
  "log_fits (s\<lparr>rs_open_turn := ot\<rparr>) = log_fits s" "log_fits (s\<lparr>rs_end_reason := er\<rparr>) = log_fits s"
  "log_fits (s\<lparr>rs_end_stop := es\<rparr>) = log_fits s"
  by (simp_all add: log_fits_def)

lemma log_fits_note:
  "log_fits s \<Longrightarrow> (\<And>e. x = LEvent e \<Longrightarrow> event_fits e) \<Longrightarrow> log_fits (s\<lparr>rs_log := rs_log s @ [x]\<rparr>)"
  by (auto simp: log_fits_def)

lemma fits_quiet: "ev_type e \<notin> {EventTurnStart, EventTurnEnd, EventActionStart, EventAssistantResponse} \<Longrightarrow> event_fits e"
  by (simp add: event_fits_def)

interpretation fits: quiet_invariant log_fits
  by unfold_locales (auto intro!: log_fits_note fits_quiet)

lemma keeps_fit_emit: "event_fits e \<Longrightarrow> keeps log_fits (emit c e)"
  by (rule keeps_emit) (rule log_fits_note, auto)

lemma keeps_fit_hooks: "keeps log_fits (run_hooks c h name sel common inp)"
  by (rule keeps_run_hooks) (auto intro: log_fits_note)

lemma keeps_fit_step: "keeps log_fits (run_step c n h name sel inp)"
  unfolding run_step_def by (auto intro!: keeps_then keeps_fit_hooks fits.keeps_report split: prod.split)

lemma keeps_fit_end_turn: "keeps log_fits (end_turn c lg err)"
  unfolding end_turn_def by (rule keeps_fit_step)

lemma keeps_fit_end_agent: "keeps log_fits (end_agent c inp)"
  unfolding end_agent_def
  by (auto intro!: keeps_then keeps_fit_hooks fits.keeps_report keeps_give split: prod.split)

lemma keeps_fit_stop: "keeps log_fits (stop_if_asked c n)"
  unfolding stop_if_asked_def stop_run_def
  by (intro keeps_then keeps_gets keeps_if keeps_update keeps_fail_as keeps_fit_emit keeps_exit keeps_give) (simp_all add: fits_quiet)

lemmas keeps_fit = keeps_then keeps_gets keeps_if keeps_fail_as keeps_exit keeps_give keeps_fit_emit keeps_fit_step
  keeps_fit_end_turn keeps_fit_end_agent keeps_fit_stop fits.keeps_ask_brain fits.keeps_decide_calls fits.keeps_reconcile
  fits.keeps_resolve_calls fits.keeps_report fits.keeps_interpret

subsection \<open>What a turn hands on\<close>

lemma keeps_open_turn: "n > 0 \<Longrightarrow> keeps log_fits (open_turn c b msg n)"
proof -
  assume "n > 0"
  then have "event_fits (plain_event EventTurnStart m [])" if "m = n" for m using that by (simp add: event_fits_def)
  then have "keeps log_fits (begin_turn c b ob)" if "ob_turn ob = n" for ob
    using that unfolding begin_turn_def Let_def by (intro keeps_fit keeps_update) simp_all
  then show ?thesis
    unfolding open_turn_def keeps_def then_do_def gets_def by (simp add: observe_def)
qed

lemma opened:
  assumes "open_turn c b msg n s = (t, Inr (ob, response))"
  shows "ob_turn ob = n \<and> (\<exists>k o'. br_respond b k o' = Inr response)"
proof -
  obtain s1 s2 where "ask_brain b (observe c msg n s) s1 = (s2, Inr response)" and ob: "ob = observe c msg n s"
    using assms by (auto simp: open_turn_def begin_turn_def then_do_Inr_iff Let_def split: if_splits)
  then obtain k o' where "br_respond b k o' = Inr response"
    by (auto simp: ask_brain_def then_do_Inr_iff split: sum.splits)
  with ob show ?thesis by (auto simp: observe_def)
qed

lemma collect_named: "collect_ids as rem = Inr rem' \<Longrightarrow> \<forall>a \<in> set as. act_id a \<noteq> []"
  by (induction as arbitrary: rem) (auto split: if_splits)

lemma match_types: "match_parts i parts rem = Inr left \<Longrightarrow> \<forall>p \<in> set parts. ap_type p = PartText \<or> ap_type p = PartToolCall"
proof (induction parts arbitrary: i rem)
  case (Cons p parts)
  show ?case
  proof (cases "ap_type p")
    case PartText
    with Cons show ?thesis by (auto split: if_splits)
  next
    case PartToolCall
    with Cons show ?thesis by (auto split: if_splits option.splits)
  next
    case (PartOther x)
    with Cons show ?thesis by simp
  qed
qed simp

text \<open>The calls of a plan have identifiers and the parts that are recorded with them can be reported.\<close>

definition plan_fits :: "turn_plan \<Rightarrow> bool" where
  "plan_fits pl \<longleftrightarrow> (\<forall>a \<in> set (tp_run pl). act_id a \<noteq> [])
     \<and> (tp_run pl \<noteq> [] \<longrightarrow> (\<exists>p \<in> set (tp_parts pl). ap_type p = PartText \<or> ap_type p = PartToolCall))"

lemma planned_fits:
  assumes "plan_turn c ob response s = (t, Inr pl)" and "with_parts response"
  shows "plan_fits pl"
proof -
  obtain parts where n: "(if runnable (ar_actions response) = [] then Inr []
       else normalize_assistant_parts (ar_parts response) (runnable (ar_actions response))) = Inr parts"
    and p: "tp_parts pl = refresh_parts (tp_run pl) parts"
    and ids: "map act_id (tp_run pl) = map act_id (runnable (ar_actions response))"
    using plan_turn_parts [OF assms(1)] .
  show ?thesis
  proof (cases "runnable (ar_actions response) = []")
    case True
    then show ?thesis using ids by (simp add: plan_fits_def)
  next
    case False
    then have ne: "ar_parts response \<noteq> []" using assms(2) by (simp add: with_parts_def)
    with n False have "and_then (collect_ids (runnable (ar_actions response)) []) (\<lambda>rem. and_then (match_parts 0 (ar_parts response) rem)
        (\<lambda>left. if left \<noteq> [] then Inl ''assistant response omits an executable action'' else Inr (ar_parts response))) = Inr parts"
      by (simp add: normalize_assistant_parts_def)
    then obtain rem left where rem: "collect_ids (runnable (ar_actions response)) [] = Inr rem"
      "match_parts 0 (ar_parts response) rem = Inr left"
      and last: "(if left \<noteq> [] then Inl ''assistant response omits an executable action'' else Inr (ar_parts response)) = Inr parts"
      by (elim and_then_InrE)
    from last have parts: "parts = ar_parts response" by (simp split: if_splits)
    have same: "act_id ` set (tp_run pl) = act_id ` set (runnable (ar_actions response))" using ids by (metis set_map)
    have named: "\<forall>a \<in> set (runnable (ar_actions response)). act_id a \<noteq> []" by (rule collect_named [OF rem(1)])
    have "act_id a \<noteq> []" if "a \<in> set (tp_run pl)" for a
    proof -
      have "act_id a \<in> act_id ` set (runnable (ar_actions response))" using that by (simp flip: same)
      with named show ?thesis by auto
    qed
    moreover obtain q qs where q: "ar_parts response = q # qs" using ne by (cases "ar_parts response") auto
    then have "\<exists>p \<in> set (tp_parts pl). ap_type p = ap_type q" by (auto simp: p parts refresh_parts_def)
    ultimately show ?thesis using match_types [OF rem(2)] q by (auto simp: plan_fits_def)
  qed
qed

subsection \<open>The pieces of a turn\<close>

lemma keeps_plan_turn: "keeps log_fits (plan_turn c ob response)"
  unfolding plan_turn_def Let_def
  by (auto split: sum.split prod.split intro!: keeps_fit keeps_update)

lemma keeps_record_calls:
  assumes "plan_fits pl"
  shows "keeps log_fits (record_calls c b n pl)"
proof (cases "tp_run pl = []")
  case True
  then have "record_calls c b n pl = then_do (give ()) (\<lambda>_. if tp_checked pl
      then fail_as (at_turn ''tool call permission'' n) (resolve_calls c (tp_requests pl) (tp_calls pl)) else give (tp_calls pl))"
    unfolding record_calls_def by simp
  then show ?thesis by (simp only:) (intro keeps_fit)
next
  case False
  then have "event_fits (response_event n pl)" using assms by (simp add: event_fits_def response_event_def plan_fits_def)
  then show ?thesis unfolding record_calls_def by (intro keeps_fit)
qed

lemma keeps_announce_starts:
  assumes "n > 0" and "\<forall>call \<in> set calls. act_id (call_action call) \<noteq> []"
  shows "keeps log_fits (announce_starts c n calls)"
  unfolding announce_starts_def using assms
  by (intro keeps_each keeps_fit) (simp add: event_fits_def start_event_def)

lemma keeps_execute_calls: "keeps log_fits (execute_calls c n calls)"
  unfolding execute_calls_def
  by (intro keeps_fit keeps_update) (auto simp: log_fits_def executed_entries_def)

lemma keeps_close_calls: "keeps log_fits (close_calls c n pairs)"
proof (induction pairs)
  case (Cons pair pairs)
  obtain call res where pair: "pair = (call, res)" by (cases pair)
  have fit: "event_fits (close_event c n call r)" for r by (rule fits_quiet) (simp add: close_event_def)
  have "keeps log_fits (close_call c n call res)"
    unfolding close_call_def
    by (intro keeps_then fits.keeps_end_tool_call)
       (auto split: prod.split intro!: keeps_fit fit keeps_update simp: add_open_result_def)
  then show ?case unfolding pair close_calls.simps by (intro keeps_fit Cons.IH)
qed (simp add: keeps_give)

lemma keeps_close_turn: "tl_turn lg > 0 \<Longrightarrow> keeps log_fits (close_turn c pl lg)"
proof -
  assume "tl_turn lg > 0"
  then have "event_fits (turn_end_event lg)" by (simp add: event_fits_def turn_end_event_def)
  then show ?thesis unfolding close_turn_def by (intro keeps_fit keeps_update) (simp_all add: book_turn_def)
qed

lemma keeps_finish_run: "keeps log_fits (finish_run c n answer)"
  unfolding finish_run_def ask_continue_def
  by (auto intro!: keeps_fit keeps_update fits_quiet split: prod.split simp: set_answer_def reopen_def Let_def)

lemma keeps_reflect: "keeps log_fits (reflect c b ob lg)"
  unfolding reflect_def by (auto intro!: keeps_fit keeps_update fits_quiet split: option.split)

text \<open>A piece followed by a rest that needs a fact about the value.\<close>

lemma keeps_bind:
  assumes "keeps I m" and "\<And>s t a. m s = (t, Inr a) \<Longrightarrow> F a" and "\<And>a. F a \<Longrightarrow> keeps I (f a)"
  shows "keeps I (then_do m f)"
  unfolding keeps_def
proof (intro allI impI)
  fix s assume s: "I s"
  obtain t r where r: "m s = (t, r)" by (cases "m s")
  then have "I t" using keepsD [OF assms(1) s] by simp
  then show "I (fst (then_do m f s))" using r assms(2,3) by (cases r) (auto simp: then_do_def keeps_def)
qed

lemma keeps_one_turn:
  assumes n: "n > 0" and brain: "\<And>k ob r. br_respond b k ob = Inr r \<Longrightarrow> with_parts r"
  shows "keeps log_fits (one_turn c b msg n)"
proof -
  have finish: "keeps log_fits (case finish_answer as of Some answer \<Rightarrow> finish_run c n answer | None \<Rightarrow> give ())" for as
    by (auto split: option.split intro: keeps_finish_run keeps_give)
  have rest: "keeps log_fits (then_do (announce_starts c n calls) (\<lambda>_. then_do (execute_calls c n calls)
        (\<lambda>results0. then_do (close_calls c n (zip calls results0))
      (\<lambda>results. let lg = \<lparr>tl_turn = n, tl_actions = tp_actions pl, tl_results = results\<rparr> in
         then_do (close_turn c pl lg)
      (\<lambda>_. then_do (case finish_answer (ar_actions response) of
                      Some answer \<Rightarrow> finish_run c n answer
                    | None \<Rightarrow> give ())
      (\<lambda>_. reflect c b ob lg))))))" if "\<forall>call \<in> set calls. act_id (call_action call) \<noteq> []" for calls pl response ob
    unfolding Let_def using n that
    by (intro keeps_then keeps_announce_starts keeps_execute_calls keeps_close_calls keeps_close_turn finish keeps_reflect) simp_all
  have plan: "keeps log_fits (then_do (plan_turn c ob response) (\<lambda>pl. then_do (record_calls c b n pl)
        (\<lambda>calls. then_do (announce_starts c n calls) (\<lambda>_. then_do (execute_calls c n calls)
        (\<lambda>results0. then_do (close_calls c n (zip calls results0))
      (\<lambda>results. let lg = \<lparr>tl_turn = n, tl_actions = tp_actions pl, tl_results = results\<rparr> in
         then_do (close_turn c pl lg)
      (\<lambda>_. then_do (case finish_answer (ar_actions response) of
                      Some answer \<Rightarrow> finish_run c n answer
                    | None \<Rightarrow> give ())
      (\<lambda>_. reflect c b ob lg))))))))" if ob: "ob_turn ob = n" and r: "with_parts response" for ob response
  proof (rule keeps_bind [OF keeps_plan_turn, of _ _ _ "\<lambda>pl. plan_ok c n pl \<and> plan_fits pl"])
    show "plan_turn c ob response s = (t, Inr pl) \<Longrightarrow> plan_ok c n pl \<and> plan_fits pl" for s t pl
      using plan_turn_ok planned_fits r ob by blast
    fix pl assume pl: "plan_ok c n pl \<and> plan_fits pl"
    show "keeps log_fits (then_do (record_calls c b n pl)
        (\<lambda>calls. then_do (announce_starts c n calls) (\<lambda>_. then_do (execute_calls c n calls)
        (\<lambda>results0. then_do (close_calls c n (zip calls results0))
      (\<lambda>results. let lg = \<lparr>tl_turn = n, tl_actions = tp_actions pl, tl_results = results\<rparr> in
         then_do (close_turn c pl lg)
      (\<lambda>_. then_do (case finish_answer (ar_actions response) of
                      Some answer \<Rightarrow> finish_run c n answer
                    | None \<Rightarrow> give ())
      (\<lambda>_. reflect c b ob lg)))))))"
    proof (rule keeps_bind [of _ _ "\<lambda>calls. \<forall>call \<in> set calls. act_id (call_action call) \<noteq> []"])
      show "keeps log_fits (record_calls c b n pl)" using pl keeps_record_calls by blast
      fix s t calls assume "record_calls c b n pl s = (t, Inr calls)"
      then have "map call_action calls = tp_run pl" using record_calls_ready pl by (auto simp: calls_ready_def)
      then have "set (tp_run pl) = call_action ` set calls" by (metis set_map)
      then show "\<forall>call \<in> set calls. act_id (call_action call) \<noteq> []" using pl by (auto simp: plan_fits_def)
    qed (rule rest)
  qed
  show ?thesis
    unfolding one_turn_def
  proof (rule keeps_bind [OF keeps_open_turn [OF n], of _ _ _ "\<lambda>(ob, r). ob_turn ob = n \<and> with_parts r"])
    show "open_turn c b msg n s = (t, Inr a) \<Longrightarrow> case a of (ob, r) \<Rightarrow> ob_turn ob = n \<and> with_parts r" for s t a
      using opened [of c b msg n s t] brain by (cases a) blast
  qed (use plan in auto)
qed

lemma keeps_run_body:
  assumes "\<And>k ob r. br_respond b k ob = Inr r \<Longrightarrow> with_parts r"
  shows "keeps log_fits (run_body c b msg)"
proof -
  have "keeps log_fits (turns c b msg left n)" if "n > 0" for left n
    using that
  proof (induction left arbitrary: n)
    case 0
    show ?case unfolding turns.simps exhausted_def by (intro keeps_fit keeps_update) (simp_all add: fits_quiet)
  next
    case (Suc left)
    then show ?case unfolding turns.simps by (intro keeps_then keeps_one_turn assms) simp_all
  qed
  then show ?thesis unfolding run_body_def by (intro keeps_fit keeps_update) (simp_all add: fits_quiet)
qed

lemma run_events_fit:
  assumes "\<forall>b k ob r. c_brain c = Some b \<and> br_respond b k ob = Inr r \<longrightarrow> with_parts r"
    and "LEvent e \<in> set (rs_log (fst (run_core c msg)))"
  shows "event_fits e"
proof (cases "c_brain c")
  case None
  then show ?thesis using assms(2) by (simp add: run_core_def begin_state_def)
next
  case (Some b)
  have first: "log_fits (begin_state c)" by (simp add: log_fits_def begin_state_def)
  have "keeps log_fits (run_body c b msg)" using assms(1) Some by (intro keeps_run_body) blast
  note body = keepsD [OF this first]
  have turn: "log_fits (fst (close_open_turn c (s, err)))" if s: "log_fits s" for s err
  proof (cases "rs_open_turn s")
    case (Some lg)
    have "log_fits (s\<lparr>rs_fx := no_effects\<rparr>)" using s by simp
    from keepsD [OF keeps_fit_end_turn this] Some show ?thesis by (simp add: close_open_turn_def Let_def split_beta)
  qed (use s in \<open>simp add: close_open_turn_def\<close>)
  have agent: "log_fits (fst (close_open_agent c (s, err)))" if s: "log_fits s" for s err
  proof (cases "rs_agent_open s")
    case True
    have "log_fits (s\<lparr>rs_fx := no_effects\<rparr>)" using s by simp
    from keepsD [OF keeps_fit_end_agent this] True show ?thesis by (simp add: close_open_agent_def Let_def split_beta)
  qed (use s in \<open>simp add: close_open_agent_def\<close>)
  have "log_fits (fst (run_core c msg))"
    using Some agent turn [OF body] by (simp add: run_core_def Let_def split_beta) (metis prod.collapse)
  with assms(2) show ?thesis by (simp add: log_fits_def)
qed

end
