(* ===== verification/Runner_Run.thy ===== *)
theory Runner_Run
  imports Runner_Paths Manager_Flow Mcp_Tools Run_Events
begin

section \<open>A run of the server (cmd/pons/runtime_mode.go, environment/gitworkspace/gitworkspace.go)\<close>

text \<open>
  How the server prepares a conversation, what it checks and grants before hands start, and how it
  reports the harness's and the brain's events to the manager. The environment provider, the
  agent's directory and the file system are parameters.
\<close>

subsection \<open>Workspace plans\<close>

datatype workspace_strategy = NoStrategy | EmptyStrategy | GitStrategy | OtherStrategy string

record workspace_plan =
  wp_strategy :: workspace_strategy
  wp_source :: string
  wp_revision :: string

definition no_plan :: workspace_plan where
  "no_plan = \<lparr>wp_strategy = NoStrategy, wp_source = [], wp_revision = []\<rparr>"

definition is_full_git_object_id :: "string \<Rightarrow> bool" where
  "is_full_git_object_id v \<longleftrightarrow> length v = 40
     \<and> (\<forall>c \<in> set v. 48 \<le> byte c \<and> byte c \<le> 57 \<or> 97 \<le> byte c \<and> byte c \<le> 102 \<or> 65 \<le> byte c \<and> byte c \<le> 70)"

text \<open>The runes that are refused are all ASCII, so the bytes of the name can be checked.\<close>

definition valid_branch_ref :: "string \<Rightarrow> bool" where
  "valid_branch_ref ref \<longleftrightarrow>
     (case cut_prefix ref ''refs/heads/'' of
        None \<Rightarrow> False
      | Some branch \<Rightarrow>
          branch \<noteq> [] \<and> length branch \<le> 255 \<and> branch \<noteq> ''HEAD''
          \<and> \<not> has_prefix branch ''/'' \<and> \<not> has_suffix branch ''/'' \<and> \<not> has_suffix branch ''.''
          \<and> \<not> contains branch ''..'' \<and> \<not> contains branch [CHR 0x40, CHR 0x7B] \<and> \<not> contains branch ''//''
          \<and> (\<forall>part \<in> set (split_on CHR ''/'' branch). \<not> has_prefix part ''.'' \<and> \<not> has_prefix part ''-''
               \<and> \<not> has_suffix part ''.lock'' \<and> \<not> has_suffix part ''.'')
          \<and> (\<forall>c \<in> set branch. byte c > 32 \<and> byte c \<noteq> 127 \<and> c \<notin> set (''~^:?*['' @ [CHR 0x5C])))"

definition branch_ref :: "string \<Rightarrow> error + string" where
  "branch_ref branch =
     (if valid_branch_ref (''refs/heads/'' @ branch) then Inr (''refs/heads/'' @ branch) else Inl ''environment: invalid Git branch name'')"

definition validate_plan :: "(string \<Rightarrow> parsed_url option) \<Rightarrow> workspace_plan \<Rightarrow> error + unit" where
  "validate_plan parse p =
     (let bare = wp_source p = [] \<and> wp_revision p = [] in
      case wp_strategy p of
        NoStrategy \<Rightarrow> if bare then Inr () else Inl ''environment: workspace plan strategy is required''
      | EmptyStrategy \<Rightarrow> if bare then Inr () else Inl ''environment: empty workspace takes no source''
      | OtherStrategy s \<Rightarrow> Inl (''environment: unsupported workspace strategy '' @ quoted s)
      | GitStrategy \<Rightarrow>
          (let ok = (case parse (wp_source p) of None \<Rightarrow> False
                     | Some u \<Rightarrow> pu_scheme u = ''https'' \<and> pu_host u \<noteq> [] \<and> \<not> pu_user u \<and> pu_query u = [] \<and> pu_fragment u = [])
           in if \<not> ok then Inl ''environment: git/v1 source must be a credential-free HTTPS repository URL without query or fragment''
              else if \<not> is_full_git_object_id (wp_revision p) \<and> \<not> valid_branch_ref (wp_revision p)
              then Inl ''environment: git/v1 base revision must be a full 40-character SHA-1 commit ID or refs/heads/<branch>''
              else Inr ()))"

subsection \<open>The server\<close>

text \<open>
  \<open>so_environment\<close>: whether the configured provider is durable, if there is one; \<open>so_git_app\<close>: it is the
  E2B provider with GitHub credentials. \<open>so_network\<close> and \<open>so_read_write\<close> are those of its
  specification.
\<close>

record server_options =
  so_plugin_paths :: "string list"
  so_mcp :: "mcp_manager option"
  so_workspace_root :: string
  so_state_dir :: string
  so_slot :: string
  so_max_turns :: int
  so_brain :: llm_config
  so_environment :: "bool option"
  so_git_app :: bool
  so_sandbox :: string
  so_network :: string
  so_read_write :: "string list"

text \<open>What lies outside: files, the directory of an agent (its memory and workspace), URLs.\<close>

record server_world =
  sw_files :: host_files
  sw_cwd :: string
  sw_memory :: "(string \<Rightarrow> error + string) option"
  sw_workspace :: "string \<Rightarrow> error + string"
  sw_parse :: "string \<Rightarrow> parsed_url option"

definition prepare_conversation :: "server_options \<Rightarrow> server_world \<Rightarrow> conversation_options \<Rightarrow> (error + conversation_options) option" where
  "prepare_conversation opts w sel =
     (let git = op_git_repository sel \<noteq> [];
          placed = (if git then Some (Inr sel)
                    else map_option (\<lambda>r. and_then r (\<lambda>res. Inr (sel\<lparr>op_workspace := res\<rparr>)))
                      (validate_conversation_workspace (sw_files w) (sw_cwd w) (op_workspace sel) (so_workspace_root opts) (so_state_dir opts)))
      in if git \<noteq> (op_git_revision sel \<noteq> []) then Some (Inl ''git repository and revision must be set together'')
         else if git \<and> (so_sandbox opts \<noteq> ''e2b'' \<or> op_environment sel \<noteq> ''e2b'') then Some (Inl ''git workspace requires E2B sandbox'')
         else if git \<and> op_workspace sel \<noteq> [] then Some (Inl ''git conversation cannot also select a host workspace'')
         else (case (if git then validate_plan (sw_parse w) \<lparr>wp_strategy = GitStrategy, wp_source = op_git_repository sel, wp_revision = op_git_revision sel\<rparr>
                     else Inr ()) of
             Inl e \<Rightarrow> Some (Inl e)
           | Inr _ \<Rightarrow> map_option (\<lambda>r. and_then r (\<lambda>sel.
               if op_git_all sel \<and> op_environment sel \<noteq> ''e2b'' then Inl ''installation-wide Git access requires E2B sandbox''
               else if op_git_all sel \<and> \<not> so_git_app opts then Inl ''installation-wide Git access requires E2B with GitHub App authentication''
               else Inr sel)) placed))"

subsection \<open>Before hands start\<close>

definition inconsistent :: "string \<Rightarrow> string \<Rightarrow> error" where
  "inconsistent what i = what @ '' has inconsistent workspace '' @ quoted i"

text \<open>Where a run works: the path the provider gets and its plan. The conversation decides, never the policy.\<close>

definition plan_workspace :: "server_options \<Rightarrow> server_world \<Rightarrow> run_request \<Rightarrow> (error + string \<times> workspace_plan) option" where
  "plan_workspace opts w rq =
     (let own = agent_workspace_id (ad_id (rq_agent rq)) in
      if rq_agent_workspace rq then
        Some (if rq_workspace_id rq \<noteq> own \<or> rq_workspace rq \<noteq> [] \<or> rq_git_repository rq \<noteq> []
              then Inl (inconsistent ''agent workspace run'' (rq_workspace_id rq))
              else if sw_memory w = None then Inl ''agent workspace requires the agent directory''
              else if so_environment opts = Some True then Inr (rq_workspace rq, no_plan\<lparr>wp_strategy := EmptyStrategy\<rparr>)
              else and_then (sw_workspace w (ad_id (rq_agent rq))) (\<lambda>p. Inr (p, no_plan)))
      else if rq_workspace_id rq = [] \<or> rq_workspace_id rq = own then Some (Inl (inconsistent ''run'' (rq_workspace_id rq)))
      else if rq_git_repository rq = [] then
        map_option (\<lambda>r. case r of Inl e \<Rightarrow> Inl (''run host workspace: '' @ e) | Inr _ \<Rightarrow> Inr (rq_workspace rq, no_plan))
          (validate_conversation_workspace (sw_files w) (sw_cwd w) (rq_workspace rq) (so_workspace_root opts) (so_state_dir opts))
      else Some (Inr (rq_workspace rq, \<lparr>wp_strategy = GitStrategy, wp_source = rq_git_repository rq, wp_revision = rq_git_revision rq\<rparr>)))"

definition check_revision :: "server_options \<Rightarrow> agent_definition \<Rightarrow> error + unit" where
  "check_revision opts agent =
     and_then (validate_agent agent) (\<lambda>_.
       if ad_plugins agent \<noteq> so_plugin_paths opts
       then Inl ''agent revision's hands plugin configuration changed; restore its plugin list or submit new work''
       else (case List.find (\<lambda>(s, g). \<not> is_configured (so_mcp opts) s) (ad_mcp agent) of
           None \<Rightarrow> Inr ()
         | Some (s, _) \<Rightarrow> Inl (''agent revision grants MCP server '' @ quoted s @ '', which is no longer configured; restore it or submit new work'')))"

definition execution_environment :: "server_options \<Rightarrow> string \<Rightarrow> error + bool" where
  "execution_environment opts requested =
     (case so_environment opts of
        None \<Rightarrow> Inl (''execution environment '' @ quoted requested @ '' is not configured'')
      | Some du \<Rightarrow> if requested \<noteq> [] \<and> requested \<noteq> so_sandbox opts
                        then Inl (''execution environment '' @ quoted requested @ '' is not configured'') else Inr du)"

text \<open>What the provider is asked to start.\<close>

record launch =
  la_workspace_id :: string
  la_workspace :: string
  la_run_id :: string
  la_plan :: workspace_plan
  la_git_all :: bool
  la_network :: string
  la_read_write :: "string list"
  la_brain :: llm_config
  la_turns :: "llm_turn list"
  la_max_turns :: int
  la_recent :: "context_item list"
  la_mcp :: "(string \<times> tool_filter) list"

definition memory_grant :: "server_world \<Rightarrow> string \<Rightarrow> error + string list" where
  "memory_grant w i = (case sw_memory w of None \<Rightarrow> Inr [] | Some f \<Rightarrow> (case f i of Inl e \<Rightarrow> Inl e | Inr p \<Rightarrow> Inr [p]))"

definition launch_with :: "server_options \<Rightarrow> run_request \<Rightarrow> string \<times> workspace_plan \<Rightarrow> llm_config \<Rightarrow> string list \<Rightarrow> llm_turn list \<Rightarrow> launch" where
  "launch_with opts rq placed brain memory ts =
     \<lparr>la_workspace_id = rq_workspace_id rq, la_workspace = fst placed, la_run_id = rq_run_id rq, la_plan = snd placed,
      la_git_all = rq_git_all rq, la_network = (if rq_git_repository rq \<noteq> [] \<or> rq_git_all rq then ''enabled'' else so_network opts),
      la_read_write = so_read_write opts @ memory, la_brain = brain, la_turns = ts, la_max_turns = ad_max_turns (rq_agent rq),
      la_recent = runtime_action_context (rq_context rq) (rq_text rq), la_mcp = mcp_grants (rq_agent rq)\<rparr>"

text \<open>What follows the placement; \<open>open_brain\<close> is what building the brain reports.\<close>

definition placed_run :: "server_options \<Rightarrow> server_world \<Rightarrow> (llm_config \<Rightarrow> error option) \<Rightarrow> run_request \<Rightarrow> string \<times> workspace_plan \<Rightarrow> error + launch" where
  "placed_run opts w open_brain rq placed =
     and_then (agent_brain_config (so_slot opts) (so_brain opts) (rq_agent rq)) (\<lambda>brain.
     and_then (execution_environment opts (rq_environment rq)) (\<lambda>_.
     and_then (memory_grant w (ad_id (rq_agent rq))) (\<lambda>memory.
     and_then (case open_brain brain of Some e \<Rightarrow> Inl (''brain: '' @ e) | None \<Rightarrow> Inr ()) (\<lambda>_.
     and_then (runtime_context_turns (rq_context rq)) (\<lambda>turns. Inr (launch_with opts rq placed brain memory turns))))))"

text \<open>Everything up to the start of hands.\<close>

definition prepare_run :: "server_options \<Rightarrow> server_world \<Rightarrow> (llm_config \<Rightarrow> error option) \<Rightarrow> run_request \<Rightarrow> (error + launch) option" where
  "prepare_run opts w open_brain rq =
     (case check_revision opts (rq_agent rq) of
        Inl e \<Rightarrow> Some (Inl e)
      | Inr _ \<Rightarrow> map_option (\<lambda>placed. and_then placed (placed_run opts w open_brain rq)) (plan_workspace opts w rq))"

text \<open>What started: where the hands see their workspace, their grants, the platform and the network.\<close>

record session_metadata =
  sm_workspace :: string
  sm_read_write :: "string list"
  sm_platform :: string
  sm_network :: string

definition session_hands :: "server_options \<Rightarrow> bool \<Rightarrow> launch \<Rightarrow> session_metadata \<Rightarrow> error + hands" where
  "session_hands opts memory l md =
     (if length (sm_read_write md) \<noteq> length (la_read_write l)
      then Inl (''execution environment '' @ quoted (so_sandbox opts) @ '' did not grant the agent's memory'')
      else Inr \<lparr>ha_workspace = sm_workspace md, ha_platform = sm_platform md, ha_network = sm_network md,
             ha_memory_path = (if memory then sm_read_write md ! (length (la_read_write l) - 1) else [])\<rparr>)"

definition run_result_of :: "run_result \<Rightarrow> error option \<Rightarrow> error + string" where
  "run_result_of res err =
     (case err of
        Some e \<Rightarrow> Inl e
      | None \<Rightarrow> if rr_exhausted res then Inl (''agent exhausted '' @ show_nat (rr_turns res) @ '' turns'') else Inr (rr_answer res))"

subsection \<open>What a run reports\<close>

definition no_report :: run_event where
  "no_report = \<lparr>ev_type = [], ev_step = [], ev_message = [], ev_text = [], ev_message_id = [], ev_part_id = [], ev_call_id = [],
     ev_action = None, ev_result = None, ev_parts = [], ev_agent = None\<rparr>"

definition agent_report :: "rt_event \<Rightarrow> run_event" where
  "agent_report e = no_report\<lparr>run_event.ev_type := ''runner.agent.event'', ev_agent := Some e\<rparr>"

definition progress_report :: "string \<Rightarrow> string \<Rightarrow> run_event" where
  "progress_report step message = no_report\<lparr>run_event.ev_type := ''environment.progress'', ev_step := step, ev_message := message\<rparr>"

definition bare :: "event_kind \<Rightarrow> rt_event" where
  "bare k = bare_event k [] [] []"

text \<open>The brain's events (\<^verbatim>\<open>OnEvent\<close>) and the input it was seeded with.\<close>

definition brain_report :: "brain_event \<Rightarrow> run_event" where
  "brain_report e =
     (if be_type e = ''context.compacted'' then
        agent_report ((bare ContextCompacted)\<lparr>re_compaction := Some \<lparr>cm_turn = int (be_turn e), cm_summary = be_summary e,
          cm_compacted = int (be_compacted e), cm_retained = int (be_retained e), cm_context = map context_of_turn (be_turns e)\<rparr>\<rparr>)
      else agent_report ((bare ModelCompleted)\<lparr>re_model := Some \<lparr>mo_turn = int (be_turn e), mo_content = runtime_agent_content (be_blocks e)\<rparr>\<rparr>))"

definition prepared_report :: "llm_turn \<Rightarrow> run_event" where
  "prepared_report t = agent_report ((bare InputPrepared)\<lparr>re_prepared := Some (context_of_turn t)\<rparr>)"

definition report_part :: "assistant_part \<Rightarrow> message_part list" where
  "report_part p =
     (case ap_type p of
        PartText \<Rightarrow> [text_message_part (ap_text p)]
      | PartToolCall \<Rightarrow> [(text_message_part [])\<lparr>mp_type := ''tool_call'', mp_call_id := act_id (ap_action p),
          mp_kind := act_kind (ap_action p), mp_args := act_args (ap_action p)\<rparr>]
      | PartOther t \<Rightarrow> [])"

definition event_action_id :: "event \<Rightarrow> string" where
  "event_action_id e = (case event.ev_action e of None \<Rightarrow> [] | Some a \<Rightarrow> act_id a)"

definition event_action_kind :: "event \<Rightarrow> string" where
  "event_action_kind e = (case event.ev_action e of None \<Rightarrow> [] | Some a \<Rightarrow> act_kind a)"

definition boundary_report :: "event_kind \<Rightarrow> nat \<Rightarrow> string \<Rightarrow> run_event" where
  "boundary_report k n t = agent_report ((bare k)\<lparr>re_boundary := Some \<lparr>ab_turn = int n, ab_text = t\<rparr>\<rparr>)"

definition iteration_report :: "event_kind \<Rightarrow> nat \<Rightarrow> run_event" where
  "iteration_report k n = agent_report ((bare k)\<lparr>re_iteration := Some (int n)\<rparr>)"

text \<open>The harness's events (\<^verbatim>\<open>OnEventError\<close>); those that are only logged report nothing.\<close>

definition event_report :: "event \<Rightarrow> run_event option" where
  "event_report e =
     (case event.ev_type e of
        EventActionDecision \<Rightarrow> None
      | EventHookError \<Rightarrow> None
      | EventSystemMessage \<Rightarrow> None
      | EventAssistantResponse \<Rightarrow>
          Some (no_report\<lparr>run_event.ev_type := ''runner.assistant.turn'', run_event.ev_parts := concat (map report_part (event.ev_parts e))\<rparr>)
      | EventActionEnd \<Rightarrow>
          Some (no_report\<lparr>run_event.ev_type := ''runner.tool.completed'', ev_call_id := event_action_id e, run_event.ev_result := event.ev_result e\<rparr>)
      | EventActionDenied \<Rightarrow>
          Some (no_report\<lparr>run_event.ev_type := ''runner.tool.denied'', ev_call_id := event_action_id e, run_event.ev_result := event.ev_result e\<rparr>)
      | EventAgentStart \<Rightarrow> Some (boundary_report AgentStarted 0 [])
      | EventTurnStart \<Rightarrow> Some (iteration_report IterationStarted (event.ev_turn e))
      | EventTurnEnd \<Rightarrow> Some (iteration_report IterationCompleted (event.ev_turn e))
      | EventActionStart \<Rightarrow>
          Some (agent_report ((bare ToolExecutionStarted)\<lparr>re_execution := Some \<lparr>tex_turn = int (event.ev_turn e),
            tex_call_id = event_action_id e, tex_kind = event_action_kind e\<rparr>\<rparr>))
      | EventFinish \<Rightarrow> Some (boundary_report AgentFinished (event.ev_turn e) (event.ev_text e))
      | EventStopped \<Rightarrow> Some (boundary_report AgentStopped (event.ev_turn e) (event.ev_text e))
      | EventExhausted \<Rightarrow> Some (boundary_report AgentExhausted (event.ev_turn e) (event.ev_text e)))"

subsection \<open>A conversation runs where it was placed\<close>

text \<open>C28. The conversation's workspace, fixed when it was opened, decides where its runs work, and the
  consistency checks of a run never refuse it, whatever the policy of the agent's revision is by
  then: a conversation of the agent's workspace runs in the agent's directory (or seeds a durable
  provider with an empty one), a Git conversation from its repository at its revision, and one
  with a client's directory only after that directory passed the workspace checks again.\<close>

theorem runs_where_placed:
  assumes "choose_conversation cfg cid now sel = Inr cv"
    and "\<forall>f. cf_prepare cfg = Some f \<longrightarrow> (\<forall>s t. f s = Inr t \<longrightarrow> op_environment t = op_environment s)"
    and "cid \<noteq> []" and "cid \<noteq> agent_workspace_id (ad_id agent)" and "ad_id agent = cv_agent_id cv"
    and "sw_memory w \<noteq> None"
  shows "plan_workspace opts w (run_request_of agent cv cl) =
     (if cv_agent_workspace cv then
        Some (if so_environment opts = Some True then Inr ([], no_plan\<lparr>wp_strategy := EmptyStrategy\<rparr>)
              else and_then (sw_workspace w (ad_id agent)) (\<lambda>p. Inr (p, no_plan)))
      else if cv_git_repository cv \<noteq> [] then
        Some (Inr ([], \<lparr>wp_strategy = GitStrategy, wp_source = cv_git_repository cv, wp_revision = cv_git_revision cv\<rparr>))
      else map_option (\<lambda>r. case r of Inl e \<Rightarrow> Inl (''run host workspace: '' @ e) | Inr _ \<Rightarrow> Inr (cv_workspace cv, no_plan))
        (validate_conversation_workspace (sw_files w) (sw_cwd w) (cv_workspace cv) (so_workspace_root opts) (so_state_dir opts)))"
  using conversation_placed [OF assms(1,2)] assms(3-6)
  by (auto simp: plan_workspace_def run_request_of_def Let_def split: if_splits)

text \<open>A conversation of a client's directory, run under a revision that now prefers the agent's own workspace.\<close>

definition sample_server :: server_options where
  "sample_server = \<lparr>so_plugin_paths = [], so_mcp = None, so_workspace_root = ''/w'', so_state_dir = ''/s'', so_slot = ''primary'', so_max_turns = 25,
     so_brain = sample_slots, so_environment = Some False, so_git_app = False, so_sandbox = ''seatbelt'', so_network = ''disabled'', so_read_write = []\<rparr>"

definition sample_server_world :: server_world where
  "sample_server_world = \<lparr>sw_files = sample_host, sw_cwd = ''/'', sw_memory = Some (\<lambda>i. Inr (''/s/agents/'' @ i @ ''/memory'')),
     sw_workspace = (\<lambda>i. Inr (''/s/agents/'' @ i @ ''/workspace'')), sw_parse = (\<lambda>_. None)\<rparr>"

definition moved_agent :: agent_definition where
  "moved_agent = (cf_agent sample_config)\<lparr>ad_policy := workspace_agent\<rparr>"

lemma runs_where_placed_witness:
  "\<exists>cv. \<forall>cl. plan_workspace sample_server sample_server_world (run_request_of moved_agent cv cl) = Some (Inr (''/w/p'', no_plan))"
proof -
  let ?sel = "\<lparr>op_workspace = ''/w/p'', op_environment = [], op_git_repository = [], op_git_revision = [], op_git_all = False\<rparr>"
  have "map_sum id (\<lambda>cv. (cv_agent_workspace cv, cv_git_repository cv, cv_workspace cv, cv_agent_id cv = ad_id moved_agent,
      ''n'' \<noteq> agent_workspace_id (ad_id moved_agent))) (choose_conversation sample_config ''n'' 7 ?sel) = Inr (False, [], ''/w/p'', True, True)" by code_simp
  then obtain cv where cv: "choose_conversation sample_config ''n'' 7 ?sel = Inr cv" "\<not> cv_agent_workspace cv" "cv_git_repository cv = []"
    "cv_workspace cv = ''/w/p''" "cv_agent_id cv = ad_id moved_agent" "''n'' \<noteq> agent_workspace_id (ad_id moved_agent)"
    by (cases "choose_conversation sample_config ''n'' 7 ?sel") auto
  have prep: "\<forall>f. cf_prepare sample_config = Some f \<longrightarrow> (\<forall>s t. f s = Inr t \<longrightarrow> op_environment t = op_environment s)"
    by (simp add: sample_config_def)
  have memory: "sw_memory sample_server_world \<noteq> None" by (simp add: sample_server_world_def)
  have "validate_conversation_workspace (sw_files sample_server_world) (sw_cwd sample_server_world) ''/w/p'' (so_workspace_root sample_server)
      (so_state_dir sample_server) = Some (Inr ''/w/p'')" by code_simp
  then have "plan_workspace sample_server sample_server_world (run_request_of moved_agent cv cl) = Some (Inr (''/w/p'', no_plan))" for cl
    using runs_where_placed [OF cv(1) prep _ cv(6) cv(5) [symmetric] memory, of sample_server cl] cv by simp
  then show ?thesis by blast
qed

subsection \<open>What a run is granted\<close>

lemma checked_again: "map_option (\<lambda>r. case r of Inl e \<Rightarrow> Inl (f e) | Inr _ \<Rightarrow> Inr y) v = Some (Inr x) \<longleftrightarrow> x = y \<and> (\<exists>res. v = Some (Inr res))"
proof (cases v)
  case (Some r)
  then show ?thesis by (cases r) auto
qed simp

text \<open>C24. Hands that start were granted no more than the server's configuration and this agent: a workspace
  that passed the checks, or one the server placed; beside the configured directories only the
  memory of the run's agent; network access only where it is configured or the conversation works
  on Git; tools only of servers that are configured and granted by the revision; and the brain
  uses the model of the revision, from the slot that the revision names.\<close>

theorem launch_granted:
  assumes "prepare_run opts w open_brain rq = Some (Inr l)"
  shows "(rq_agent_workspace rq \<or> rq_git_repository rq \<noteq> [] \<or> (la_workspace l = rq_workspace rq
            \<and> (\<exists>res. validate_conversation_workspace (sw_files w) (sw_cwd w) (rq_workspace rq) (so_workspace_root opts) (so_state_dir opts) = Some (Inr res))))
     \<and> (rq_agent_workspace rq \<longrightarrow> rq_workspace_id rq = agent_workspace_id (ad_id (rq_agent rq)) \<and> (so_environment opts \<noteq> Some True \<longrightarrow> sw_workspace w (ad_id (rq_agent rq)) = Inr (la_workspace l)))
     \<and> (\<exists>memory. la_read_write l = so_read_write opts @ memory \<and> (\<forall>p \<in> set memory. \<exists>f. sw_memory w = Some f \<and> f (ad_id (rq_agent rq)) = Inr p) \<and> length memory \<le> 1)
     \<and> (la_network l = so_network opts \<or> rq_git_repository rq \<noteq> [] \<or> rq_git_all rq)
     \<and> map fst (la_mcp l) = map fst (ad_mcp (rq_agent rq)) \<and> (\<forall>s \<in> set (map fst (la_mcp l)). is_configured (so_mcp opts) s)
     \<and> ps_model (lc_primary (la_brain l)) = ad_model (rq_agent rq)
     \<and> (ad_slot (rq_agent rq) = so_slot opts \<or> (\<exists>p \<in> set (lc_fallbacks (so_brain opts)). ps_id p = ad_slot (rq_agent rq) \<and> ps_provider p = ps_provider (lc_primary (la_brain l))
            \<and> ps_api_key p = ps_api_key (lc_primary (la_brain l)) \<and> ps_base_url p = ps_base_url (lc_primary (la_brain l))))"
proof -
  let ?agent = "rq_agent rq"
  obtain placed where rev: "check_revision opts ?agent = Inr ()" and place: "plan_workspace opts w rq = Some (Inr placed)"
    and run: "placed_run opts w open_brain rq placed = Inr l"
    using assms by (auto simp: prepare_run_def and_then_Inr_iff split: sum.split_asm)
  obtain path plan where placed: "placed = (path, plan)" by (cases placed)
  note plan = place [unfolded placed]
  obtain brain memory turns where brain: "agent_brain_config (so_slot opts) (so_brain opts) ?agent = Inr brain"
    and memory: "memory_grant w (ad_id ?agent) = Inr memory" and l: "l = launch_with opts rq placed brain memory turns"
    using run by (auto simp: placed_run_def and_then_Inr_iff)
  have where_run: "rq_agent_workspace rq \<or> rq_git_repository rq \<noteq> [] \<or> (path = rq_workspace rq
      \<and> (\<exists>res. validate_conversation_workspace (sw_files w) (sw_cwd w) (rq_workspace rq) (so_workspace_root opts) (so_state_dir opts) = Some (Inr res)))"
    "rq_agent_workspace rq \<longrightarrow> rq_workspace_id rq = agent_workspace_id (ad_id ?agent) \<and> (so_environment opts \<noteq> Some True \<longrightarrow> sw_workspace w (ad_id ?agent) = Inr path)"
    using plan by (auto simp: plan_workspace_def Let_def and_then_Inr_iff checked_again simp del: map_option_eq_Some split: if_split_asm)
  have mem: "(\<forall>p \<in> set memory. \<exists>f. sw_memory w = Some f \<and> f (ad_id ?agent) = Inr p) \<and> length memory \<le> 1"
    using memory by (auto simp: memory_grant_def split: option.split_asm sum.split_asm)
  have mcp: "map fst (mcp_grants ?agent) = map fst (ad_mcp ?agent)" by (simp add: mcp_grants_def comp_def split_def)
  have conf: "\<forall>s \<in> set (map fst (ad_mcp ?agent)). is_configured (so_mcp opts) s"
    using rev by (auto simp: check_revision_def and_then_Inr_iff find_None_iff split: if_split_asm option.split_asm)
  have slot: "ps_model (lc_primary brain) = ad_model ?agent
     \<and> (ad_slot ?agent = so_slot opts \<or> (\<exists>p \<in> set (lc_fallbacks (so_brain opts)). ps_id p = ad_slot ?agent \<and> ps_provider p = ps_provider (lc_primary brain)
            \<and> ps_api_key p = ps_api_key (lc_primary brain) \<and> ps_base_url p = ps_base_url (lc_primary brain)))"
    using agent_slot [OF brain] .
  from where_run mem mcp conf slot show ?thesis unfolding l placed launch_with_def by auto
qed

definition sample_request :: run_request where
  "sample_request = \<lparr>rq_agent = moved_agent\<lparr>ad_slot := ''primary'', ad_plugins := [], ad_mcp := [], ad_model := ''m''\<rparr>, rq_conv = ''n'', rq_run_id = ''r'',
     rq_inbound = ''i'', rq_workspace_id = ''n'', rq_agent_workspace = False, rq_workspace = ''/w/p'', rq_environment = [], rq_git_repository = [],
     rq_git_revision = [], rq_git_all = False, rq_text = ''go'', rq_context = []\<rparr>"

lemma launch_granted_witness:
  "\<exists>l memory. prepare_run sample_server sample_server_world (\<lambda>_. None) sample_request = Some (Inr l) \<and> la_workspace l = ''/w/p''
     \<and> la_read_write l = memory \<and> length memory \<le> 1 \<and> ps_model (lc_primary (la_brain l)) = ''m''"
proof -
  have "(case prepare_run sample_server sample_server_world (\<lambda>_. None) sample_request of Some (Inr l) \<Rightarrow> True | _ \<Rightarrow> False)" by code_simp
  then obtain l where l: "prepare_run sample_server sample_server_world (\<lambda>_. None) sample_request = Some (Inr l)"
    by (auto split: option.splits sum.splits)
  from launch_granted [OF l] have "la_workspace l = ''/w/p''" "\<exists>memory. la_read_write l = memory \<and> length memory \<le> 1"
    "ps_model (lc_primary (la_brain l)) = ''m''"
    by (auto simp: sample_request_def sample_server_def)
  with l show ?thesis by blast
qed

subsection \<open>What is reported can be stored\<close>

lemma bare_simps [simp]:
  "re_kind (bare k) = k" "re_input (bare k) = None" "re_output (bare k) = None" "re_outcome (bare k) = None" "re_run (bare k) = None"
  "re_boundary (bare k) = None" "re_iteration (bare k) = None" "re_model (bare k) = None" "re_execution (bare k) = None"
  "re_compaction (bare k) = None" "re_prepared (bare k) = None"
  by (simp_all add: bare_def bare_event_def)

text \<open>
  The manager takes an event with its payload, an internal event is one the store takes, and a denied
  call has a result that is no success: only the state of the store may still refuse it.
\<close>

definition well_reported :: "run_event \<Rightarrow> bool" where
  "well_reported s \<longleftrightarrow> (\<forall>now oid r m err. fst (emit_run_event now oid r s m) \<noteq> Inl (ManagerError err))
     \<and> (\<forall>e. ev_agent s = Some e \<longrightarrow> valid_agent_event e)
     \<and> (run_event.ev_type s = ''runner.tool.denied'' \<longrightarrow> (\<forall>res. run_event.ev_result s = Some res \<longrightarrow> \<not> tr_ok res))"

lemma commit_no_refusal: "fst (commit cid op m) \<noteq> Inl (ManagerError err)"
  by (auto simp: commit_def split: sum.splits prod.splits)

lemma well_reported_agent: "valid_agent_event e \<Longrightarrow> well_reported (agent_report e)"
  by (simp add: well_reported_def agent_report_def no_report_def emit_run_event_def commit_no_refusal Let_def)

lemma boundary_ok: "k \<in> {AgentStarted, AgentFinished, AgentStopped, AgentExhausted} \<Longrightarrow> well_reported (boundary_report k n t)"
  unfolding boundary_report_def by (rule well_reported_agent) (auto simp: valid_agent_event_def agent_payloads_def agent_payload_fits_def)

lemma iteration_ok: "k \<in> {IterationStarted, IterationCompleted} \<Longrightarrow> n > 0 \<Longrightarrow> well_reported (iteration_report k n)"
  unfolding iteration_report_def by (rule well_reported_agent) (auto simp: valid_agent_event_def agent_payloads_def agent_payload_fits_def)

lemma reported_parts: "p \<in> set ps \<Longrightarrow> ap_type p = PartText \<or> ap_type p = PartToolCall \<Longrightarrow> concat (map report_part ps) \<noteq> []"
  by (fastforce simp: report_part_def)

lemma event_report_ok:
  assumes e: "event_fits e" "closing_ok e" "event_report e = Some s"
  shows "well_reported s"
proof (cases "event.ev_type e")
  case EventActionStart
  then have "valid_agent_event ((bare ToolExecutionStarted)\<lparr>re_execution := Some \<lparr>tex_turn = int (event.ev_turn e),
          tex_call_id = event_action_id e, tex_kind = event_action_kind e\<rparr>\<rparr>)"
    using e(1) by (auto simp: event_fits_def event_action_id_def valid_agent_event_def agent_payloads_def agent_payload_fits_def)
  from well_reported_agent [OF this] e(3) EventActionStart show ?thesis by (simp add: event_report_def)
next
  case EventAssistantResponse
  then obtain p where "p \<in> set (event.ev_parts e)" "ap_type p = PartText \<or> ap_type p = PartToolCall"
    using e(1) by (auto simp: event_fits_def)
  from reported_parts [OF this] show ?thesis
    using e(3) EventAssistantResponse by (auto simp: event_report_def well_reported_def no_report_def emit_run_event_def commit_no_refusal Let_def)
next
  case EventActionEnd
  then show ?thesis using e(2,3)
    by (auto simp: closing_ok_def event_report_def well_reported_def no_report_def emit_run_event_def commit_no_refusal Let_def)
next
  case EventActionDenied
  then show ?thesis using e(2,3)
    by (auto simp: closing_ok_def event_report_def well_reported_def no_report_def emit_run_event_def commit_no_refusal Let_def)
qed (use e boundary_ok iteration_ok in \<open>auto simp: event_fits_def event_report_def\<close>)

lemma brain_report_ok: "be_turn b > 0 \<Longrightarrow> be_turns b \<noteq> [] \<or> be_type b \<noteq> ''context.compacted'' \<Longrightarrow> well_reported (brain_report b)"
  unfolding brain_report_def
  by (auto intro!: well_reported_agent simp: valid_agent_event_def agent_payloads_def agent_payload_fits_def)

lemma prepared_report_ok: "tu_role t = ''user'' \<Longrightarrow> tu_blocks t \<noteq> [] \<Longrightarrow> well_reported (prepared_report t)"
  unfolding prepared_report_def
  by (auto intro!: well_reported_agent simp: valid_agent_event_def agent_payloads_def agent_payload_fits_def context_of_turn_def runtime_agent_content_def)

text \<open>The server's brain sends parts with its calls.\<close>

lemma brain_sends_parts: "read_response bs = Inr r \<Longrightarrow> with_parts r"
proof (cases "tool_uses bs = []")
  case False
  assume "read_response bs = Inr r"
  then have "ar_parts r = response_parts (map tool_use_action (tool_uses bs)) bs" using False by (auto simp: read_response_def Let_def)
  moreover have "response_parts as bs \<noteq> []" if "tool_uses bs \<noteq> []" for as using that
  proof (induction bs)
    case (Cons b bs)
    then show ?case by (cases b) auto
  qed simp
  ultimately show ?thesis using False by (simp add: with_parts_def)
qed (auto simp: read_response_def Let_def with_parts_def runnable_def finish_action_def split: if_splits)


definition parts_core :: core where
  "parts_core = echo_core\<lparr>c_brain := Some (two_step_brain\<lparr>br_respond := \<lambda>_ ob. Inr (if ob_turn ob = 1
     then \<lparr>ar_parts = [\<lparr>ap_type = PartToolCall, ap_text = [], ap_action = echo_action\<rparr>], ar_actions = [echo_action]\<rparr>
     else \<lparr>ar_parts = [], ar_actions = [echo_action\<lparr>act_kind := ActFinish\<rparr>]\<rparr>)\<rparr>)\<rparr>"


end
