(* ===== verification/Agent_Dir.thy ===== *)
theory Agent_Dir
  imports Json_Struct Manager_Flow Archive Runner_Run
begin

section \<open>The directories of agents (runtime/agentdir/agentdir.go)\<close>

text \<open>
  The files an owner writes for an agent, the snapshots of its revisions and its memory. The disk is
  a table of entries by path, and a path is looked up name by name, through links and never through
  a file; what the system refuses is a parameter of it. Directories above an entry are implied, a link
  is kept with the absolute path it stands for, and temporary files are gone when an operation returns.
\<close>

subsection \<open>Definitions as JSON\<close>

definition grant_json :: "mcp_grant \<Rightarrow> json" where
  "grant_json g = JObject (omit_empty (gr_enabled g = []) ''enabled_tools'' (json_strings (gr_enabled g))
     @ omit_empty (gr_disabled g = []) ''disabled_tools'' (json_strings (gr_disabled g)))"

text \<open>A map is written in the order of its keys. A nil list counts as an empty one.\<close>

definition agent_json :: "agent_definition \<Rightarrow> json" where
  "agent_json d = JObject (
     [(''id'', JString (ad_id d)), (''name'', JString (ad_name d)), (''persona'', JString (ad_persona d)),
      (''provider_slot'', JString (ad_slot d)), (''model'', JString (ad_model d)), (''max_turns'', json_int (ad_max_turns d)),
      (''plugin_paths'', json_strings (ad_plugins d)), (''workspace_policy'', JString (ad_policy d))]
     @ omit_empty (ad_mcp d = []) ''mcp_servers'' (JObject (map (\<lambda>(k, g). (k, grant_json g)) (canonical_members (ad_mcp d)))))"

text \<open>\<^verbatim>\<open>Revision\<close>; \<open>sha\<close> is SHA-256.\<close>

definition agent_revision :: "(string \<Rightarrow> string) \<Rightarrow> agent_definition \<Rightarrow> string" where
  "agent_revision sha d = hex_encode (sha (compact_json (agent_json d)))"

definition no_grant :: mcp_grant where "no_grant = \<lparr>gr_enabled = [], gr_disabled = []\<rparr>"

definition grant_fields :: "string \<Rightarrow> string \<Rightarrow> mcp_grant fields" where
  "grant_fields on off = [field on string_list_into gr_enabled (\<lambda>x s. s\<lparr>gr_enabled := x\<rparr>),
     field off string_list_into gr_disabled (\<lambda>x s. s\<lparr>gr_disabled := x\<rparr>)]"

definition grant_of :: "string \<Rightarrow> string \<Rightarrow> json \<Rightarrow> error + mcp_grant" where
  "grant_of on off v = struct_into True (grant_fields on off) v no_grant"

definition empty_definition :: agent_definition where
  "empty_definition = \<lparr>ad_id = [], ad_name = [], ad_persona = [], ad_slot = [], ad_model = [], ad_max_turns = 0,
     ad_plugins = [], ad_policy = [], ad_mcp = []\<rparr>"

definition definition_fields :: "agent_definition fields" where
  "definition_fields =
     [field ''id'' string_into ad_id (\<lambda>x s. s\<lparr>ad_id := x\<rparr>), field ''name'' string_into ad_name (\<lambda>x s. s\<lparr>ad_name := x\<rparr>),
      field ''persona'' string_into ad_persona (\<lambda>x s. s\<lparr>ad_persona := x\<rparr>), field ''provider_slot'' string_into ad_slot (\<lambda>x s. s\<lparr>ad_slot := x\<rparr>),
      field ''model'' string_into ad_model (\<lambda>x s. s\<lparr>ad_model := x\<rparr>), field ''max_turns'' int_into ad_max_turns (\<lambda>x s. s\<lparr>ad_max_turns := x\<rparr>),
      field ''plugin_paths'' string_list_into ad_plugins (\<lambda>x s. s\<lparr>ad_plugins := x\<rparr>),
      field ''workspace_policy'' string_into ad_policy (\<lambda>x s. s\<lparr>ad_policy := x\<rparr>),
      field ''mcp_servers'' (map_into (grant_of ''enabled_tools'' ''disabled_tools'')) ad_mcp (\<lambda>x s. s\<lparr>ad_mcp := x\<rparr>)]"

definition definition_of :: "json \<Rightarrow> error + agent_definition" where
  "definition_of v = struct_into True definition_fields v empty_definition"

subsection \<open>The disk\<close>

datatype entry = Regular string | Directory | LinkTo string | Special

record agent_disk =
  dk_entry :: "string \<Rightarrow> entry option"
  dk_refuses :: "string \<Rightarrow> error option"

definition set_entry :: "string \<Rightarrow> entry \<Rightarrow> agent_disk \<Rightarrow> agent_disk" where
  "set_entry p e dk = dk\<lparr>dk_entry := (dk_entry dk)(p \<mapsto> e)\<rparr>"

text \<open>The first \<open>k\<close> names of \<open>p\<close> cannot be passed: a link, or something that is no directory and has names below it.\<close>

definition stops :: "agent_disk \<Rightarrow> bool \<Rightarrow> string \<Rightarrow> nat \<Rightarrow> bool" where
  "stops dk follow p k =
     (case dk_entry dk (path_above p k) of
        None \<Rightarrow> False
      | Some Directory \<Rightarrow> False
      | Some (LinkTo _) \<Rightarrow> follow \<or> k < length (path_comps p)
      | Some _ \<Rightarrow> k < length (path_comps p))"

text \<open>Where a path leads, the last link followed or not. The system gives up after forty links.\<close>

fun settle :: "nat \<Rightarrow> bool \<Rightarrow> agent_disk \<Rightarrow> string \<Rightarrow> error + string" where
  "settle 0 follow dk p = Inl ''too many levels of symbolic links''"
| "settle (Suc n) follow dk p =
     (case List.find (stops dk follow p) [0..<length (path_comps p) + 1] of
        None \<Rightarrow> Inr p
      | Some k \<Rightarrow> (case dk_entry dk (path_above p k) of
            Some (LinkTo q) \<Rightarrow> and_then (settle n True dk q) (\<lambda>r.
              if dk_entry dk r = None then Inl ''no such file or directory''
              else settle n follow dk (slash # join_on [slash] (path_comps r @ drop k (path_comps p))))
          | _ \<Rightarrow> Inl ''not a directory''))"

definition max_links :: nat where "max_links = 40"

definition lstat :: "agent_disk \<Rightarrow> string \<Rightarrow> entry option" where
  "lstat dk p = (case settle max_links False dk p of Inl _ \<Rightarrow> None | Inr r \<Rightarrow> dk_entry dk r)"

definition read_file :: "agent_disk \<Rightarrow> string \<Rightarrow> error + string" where
  "read_file dk p =
     (case dk_refuses dk p of
        Some e \<Rightarrow> Inl e
      | None \<Rightarrow> and_then (settle max_links True dk p) (\<lambda>r.
          case dk_entry dk r of
            Some (Regular c) \<Rightarrow> Inr c
          | None \<Rightarrow> Inl ''no such file or directory''
          | _ \<Rightarrow> Inl ''not a regular file''))"

definition create_if_missing :: "string \<Rightarrow> string \<Rightarrow> agent_disk \<Rightarrow> error + agent_disk" where
  "create_if_missing p content dk =
     (case settle max_links False dk p of
        Inl e \<Rightarrow> Inl (''agents: create '' @ p @ '': '' @ e)
      | Inr r \<Rightarrow>
          if dk_entry dk r \<noteq> None then Inr dk
          else (case dk_refuses dk p of Some e \<Rightarrow> Inl (''agents: create '' @ p @ '': '' @ e) | None \<Rightarrow> Inr (set_entry r (Regular content) dk)))"

definition mkdir_all :: "string \<Rightarrow> agent_disk \<Rightarrow> error + agent_disk" where
  "mkdir_all p dk =
     and_then (settle max_links True dk p) (\<lambda>r.
       case dk_entry dk r of
         Some Directory \<Rightarrow> Inr dk
       | Some _ \<Rightarrow> Inl ''not a directory''
       | None \<Rightarrow> (case dk_refuses dk p of Some e \<Rightarrow> Inl e | None \<Rightarrow> Inr (set_entry r Directory dk)))"

text \<open>A temporary file takes the name; a directory of that name is not replaced.\<close>

definition write_file_atomic :: "string \<Rightarrow> string \<Rightarrow> agent_disk \<Rightarrow> error + agent_disk" where
  "write_file_atomic p content dk =
     (case dk_refuses dk p of
        Some e \<Rightarrow> Inl (''agents: write revision: '' @ e)
      | None \<Rightarrow> (case settle max_links False dk p of
          Inl e \<Rightarrow> Inl (''agents: create revision: '' @ e)
        | Inr r \<Rightarrow> if dk_entry dk r = Some Directory then Inl ''agents: commit revision: file exists''
                  else Inr (set_entry r (Regular content) dk)))"

subsection \<open>Settings\<close>

record agent_settings =
  se_name :: string
  se_provider :: string
  se_model :: string
  se_max_turns :: int
  se_workspace :: string
  se_mcp :: "(string \<times> mcp_grant) list"

definition no_settings :: agent_settings where
  "no_settings = \<lparr>se_name = [], se_provider = [], se_model = [], se_max_turns = 0, se_workspace = [], se_mcp = []\<rparr>"

definition settings_fields :: "agent_settings fields" where
  "settings_fields =
     [field ''name'' string_into se_name (\<lambda>x s. s\<lparr>se_name := x\<rparr>), field ''provider'' string_into se_provider (\<lambda>x s. s\<lparr>se_provider := x\<rparr>),
      field ''model'' string_into se_model (\<lambda>x s. s\<lparr>se_model := x\<rparr>), field ''max_turns'' int_into se_max_turns (\<lambda>x s. s\<lparr>se_max_turns := x\<rparr>),
      field ''workspace'' string_into se_workspace (\<lambda>x s. s\<lparr>se_workspace := x\<rparr>),
      field ''mcpServers'' (map_into (grant_of ''enabledTools'' ''disabledTools'')) se_mcp (\<lambda>x s. s\<lparr>se_mcp := x\<rparr>)]"

definition settings_file_error :: "string \<Rightarrow> string \<Rightarrow> error" where
  "settings_file_error path what = ''agents: '' @ path @ '': '' @ what"

definition check_settings :: "string \<Rightarrow> agent_settings \<Rightarrow> error + agent_settings" where
  "check_settings path raw =
     (let s = raw\<lparr>se_provider := trim_space (se_provider raw), se_model := trim_space (se_model raw)\<rparr> in
      if se_name s \<noteq> trim_space (se_name s) \<or> contains_any (se_name s) [CHR 0x0D, CHR 0x0A]
      then Inl (settings_file_error path ''name must be a single line without surrounding spaces'')
      else if se_max_turns s < 0 then Inl (settings_file_error path ''max_turns must not be negative'')
      else if se_workspace s \<notin> {[], workspace_agent, workspace_per_conversation}
      then Inl (settings_file_error path (''workspace must be '' @ quoted workspace_agent @ '' or '' @ quoted workspace_per_conversation
             @ '', not '' @ quoted (se_workspace s)))
      else (case List.find (\<lambda>(server, p). \<not> pattern_valid p)
               (concat (map (\<lambda>(server, g). map (Pair server) (gr_enabled g @ gr_disabled g)) (se_mcp s))) of
          Some (server, p) \<Rightarrow> Inl (settings_file_error path (''mcpServers.'' @ server @ '': tool pattern '' @ quoted p @ '' is malformed''))
        | None \<Rightarrow> Inr s))"

definition read_settings :: "agent_disk \<Rightarrow> string \<Rightarrow> error + agent_settings" where
  "read_settings dk path =
     (case read_file dk path of
        Inl e \<Rightarrow> Inl (''agents: read '' @ path @ '': '' @ e)
      | Inr data \<Rightarrow> (case decode_exactly (\<lambda>v. struct_into True settings_fields v no_settings) data of
            Inl e \<Rightarrow> Inl (settings_file_error path e)
          | Inr s \<Rightarrow> check_settings path s))"

definition agent_dir :: "string \<Rightarrow> string \<Rightarrow> string" where
  "agent_dir agents i = path_join [agents, i]"

definition default_settings :: string where
  "default_settings = indented_json (JObject [(''name'', JString []), (''provider'', JString []), (''model'', JString []),
     (''max_turns'', json_int 0), (''workspace'', JString []), (''mcpServers'', JObject [])]) @ [CHR 0x0A]"

definition load_agent :: "string \<Rightarrow> string \<Rightarrow> agent_disk \<Rightarrow> (error + agent_settings \<times> string) \<times> agent_disk" where
  "load_agent agents i dk =
     (let dir = agent_dir agents i; settings = path_join [dir, ''agent.json'']; persona = path_join [dir, ''PERSONA.md''] in
      case validate_agent_id i of
        Inl e \<Rightarrow> (Inl e, dk)
      | Inr _ \<Rightarrow> (case mkdir_all (path_join [dir, ''revisions'']) dk of
            Inl e \<Rightarrow> (Inl (''agents: create '' @ dir @ '': '' @ e), dk)
          | Inr dk1 \<Rightarrow> (case create_if_missing settings default_settings dk1 of
                Inl e \<Rightarrow> (Inl e, dk1)
              | Inr dk2 \<Rightarrow> (case create_if_missing persona [] dk2 of
                    Inl e \<Rightarrow> (Inl e, dk2)
                  | Inr dk3 \<Rightarrow> (and_then (read_settings dk3 settings) (\<lambda>s.
                        case read_file dk3 persona of
                          Inl e \<Rightarrow> Inl (''agents: read '' @ persona @ '': '' @ e)
                        | Inr t \<Rightarrow> Inr (s, trim_space t)), dk3)))))"

subsection \<open>Revisions\<close>

definition revision_path :: "string \<Rightarrow> string \<Rightarrow> string \<Rightarrow> string" where
  "revision_path agents i revision = path_join [agent_dir agents i, ''revisions'', revision @ ''.json'']"

definition resolve_revision :: "(string \<Rightarrow> string) \<Rightarrow> string \<Rightarrow> agent_disk \<Rightarrow> string \<Rightarrow> string \<Rightarrow> error + agent_definition" where
  "resolve_revision sha agents dk i revision =
     and_then (validate_agent_id i) (\<lambda>_.
       if map_option length (hex_decode revision) \<noteq> Some 32 then Inl (''agents: invalid revision '' @ quoted revision)
       else (case read_file dk (revision_path agents i revision) of
           Inl e \<Rightarrow> Inl (''agents: read revision: '' @ e)
         | Inr data \<Rightarrow> (case decode_exactly definition_of data of
               Inl e \<Rightarrow> Inl (''agents: decode revision '' @ revision @ '': '' @ e)
             | Inr d \<Rightarrow> if ad_id d \<noteq> i \<or> agent_revision sha d \<noteq> revision
                        then Inl (''agents: revision '' @ revision @ '' does not match its contents'') else Inr d)))"

definition record_revision :: "(string \<Rightarrow> string) \<Rightarrow> string \<Rightarrow> agent_definition \<Rightarrow> agent_disk \<Rightarrow> (error + unit) \<times> agent_disk" where
  "record_revision sha agents d dk =
     (case validate_agent d of
        Inl e \<Rightarrow> (Inl e, dk)
      | Inr _ \<Rightarrow>
          (let revision = agent_revision sha d; kept = (case resolve_revision sha agents dk (ad_id d) revision of
                 Inr e \<Rightarrow> agent_revision sha e = revision | Inl _ \<Rightarrow> False) in
           if kept then (Inr (), dk)
           else (case mkdir_all (path_join [agent_dir agents (ad_id d), ''revisions'']) dk of
               Inl e \<Rightarrow> (Inl (''agents: create revisions directory: '' @ e), dk)
             | Inr dk1 \<Rightarrow> (case write_file_atomic (revision_path agents (ad_id d) revision) (indented_json (agent_json d) @ [CHR 0x0A]) dk1 of
                   Inl e \<Rightarrow> (Inl e, dk1)
                 | Inr dk2 \<Rightarrow> (Inr (), dk2)))))"

subsection \<open>Memory and workspace\<close>

definition real_directory :: "string \<Rightarrow> agent_disk \<Rightarrow> (error + string) \<times> agent_disk" where
  "real_directory dir dk =
     (case mkdir_all dir dk of
        Inl e \<Rightarrow> (Inl (''agents: create '' @ dir @ '': '' @ e), dk)
      | Inr dk1 \<Rightarrow>
          (if dk_refuses dk1 dir \<noteq> None \<or> lstat dk1 dir \<noteq> Some Directory
           then Inl (''agents: '' @ dir @ '' must be a directory'')
           else (case settle max_links True dk1 dir of Inl e \<Rightarrow> Inl (''agents: resolve '' @ dir @ '': '' @ e) | Inr p \<Rightarrow> Inr p), dk1))"

definition agent_workspace :: "string \<Rightarrow> string \<Rightarrow> agent_disk \<Rightarrow> (error + string) \<times> agent_disk" where
  "agent_workspace agents i dk =
     (case validate_agent_id i of
        Inl e \<Rightarrow> (Inl e, dk)
      | Inr _ \<Rightarrow> real_directory (path_join [agent_dir agents i, ''workspace'']) dk)"

text \<open>The position of the last line feed, if it is not the first byte.\<close>

definition last_line :: "string \<Rightarrow> nat" where
  "last_line s = length s - length (takeWhile (\<lambda>c. c \<noteq> CHR 0x0A) (rev s))"

definition truncate_index :: "string \<Rightarrow> nat \<Rightarrow> string \<times> bool" where
  "truncate_index s limit =
     (if length s \<le> limit then (s, False)
      else let c = trim_valid (take limit s); n = last_line c in
        (if n > 1 then take n c else c, True))"

text \<open>\<^verbatim>\<open>strings.ToValidUTF8\<close>: each run of invalid bytes becomes one U+FFFD.\<close>

fun valid_runes :: "nat \<Rightarrow> bool \<Rightarrow> string \<Rightarrow> string" where
  "valid_runes 0 run s = []"
| "valid_runes (Suc n) run s =
     (if s = [] then []
      else (case rune_len s of
          None \<Rightarrow> (if run then [] else replacement) @ valid_runes n True (tl s)
        | Some k \<Rightarrow> take k s @ valid_runes n False (drop k s)))"

definition clean_text :: "string \<Rightarrow> string" where
  "clean_text s = valid_runes (length s) False s"

record loaded_memory =
  lm_path :: string
  lm_index :: string
  lm_truncated :: bool

definition default_memory_budget :: int where "default_memory_budget = 16 * 1024"

definition memory_text :: "int \<Rightarrow> string \<Rightarrow> string \<times> bool" where
  "memory_text budget data = truncate_index (clean_text (take (nat budget + 1) data)) (nat budget)"

definition load_memory :: "string \<Rightarrow> string \<Rightarrow> int \<Rightarrow> agent_disk \<Rightarrow> (error + loaded_memory) \<times> agent_disk" where
  "load_memory agents i asked dk =
     (let budget = (if asked \<le> 0 then default_memory_budget else asked); dir = path_join [agent_dir agents i, ''memory''];
          index = path_join [dir, ''MEMORY.md''] in
      case validate_agent_id i of
        Inl e \<Rightarrow> (Inl e, dk)
      | Inr _ \<Rightarrow> (case real_directory dir dk of
            (Inl e, dk1) \<Rightarrow> (Inl e, dk1)
          | (Inr path, dk1) \<Rightarrow> (case create_if_missing index [] dk1 of
                Inl e \<Rightarrow> (Inl e, dk1)
              | Inr dk2 \<Rightarrow> (case lstat dk2 index of
                    Some (Regular data) \<Rightarrow>
                      (case dk_refuses dk2 index of
                         Some e \<Rightarrow> (Inl (''agents: read '' @ index @ '': '' @ e), dk2)
                       | None \<Rightarrow> (let m = memory_text budget data in
                           (Inr \<lparr>lm_path = path, lm_index = fst m, lm_truncated = snd m\<rparr>, dk2)))
                  | _ \<Rightarrow> (Inr \<lparr>lm_path = path, lm_index = [], lm_truncated = False\<rparr>, dk2)))))"

subsection \<open>Numbers and structs read back\<close>

lemma is_digit_char: "d < 10 \<Longrightarrow> is_digit (digit_char d) \<and> byte (digit_char d) - 48 = d \<and> (digit_char d = CHR ''0'' \<longleftrightarrow> d = 0)"
proof -
  assume d: "d < 10"
  then have b: "byte (digit_char d) = 48 + d" by (simp add: digit_char_def)
  have "digit_char d = CHR ''0'' \<longleftrightarrow> byte (digit_char d) = byte (CHR ''0'')"
    by (metis char_of_byte)
  then show ?thesis using d b by (simp add: is_digit_def) (simp add: byte_def)
qed

lemma show_nat_digits:
  "(\<forall>c \<in> set (show_nat n). is_digit c) \<and> show_nat n \<noteq> [] \<and> (n \<noteq> 0 \<longrightarrow> hd (show_nat n) \<noteq> CHR ''0'')
     \<and> foldl (\<lambda>n c. 10 * n + int (byte c - 48)) 0 (show_nat n) = int n"
proof (induction n rule: show_nat.induct)
  case (1 n)
  show ?case
  proof (cases "n < 10")
    case True
    then show ?thesis using is_digit_char [of n] by (simp add: show_nat.simps [of n])
  next
    case False
    note ih = 1 [OF False]
    have step: "show_nat n = show_nat (n div 10) @ [digit_char (n mod 10)]" using False by (simp add: show_nat.simps [of n])
    have "int (byte (digit_char (n mod 10)) - 48) = int (n mod 10)" using is_digit_char [of "n mod 10"] by simp
    moreover have "10 * int (n div 10) + int (n mod 10) = int n" by (metis mult_div_mod_eq of_nat_add of_nat_mult of_nat_numeral)
    ultimately show ?thesis using ih is_digit_char [of "n mod 10"] False unfolding step by auto
  qed
qed

lemma int_of_show:
  assumes "- (2 ^ 63) \<le> i" and "i < 2 ^ 63"
  shows "int_of_text (show_int i) = Some i"
proof -
  have no_minus: "hd (show_nat n) \<noteq> CHR ''-''" for n
    using show_nat_digits [of n] by (cases "show_nat n") (auto simp: is_digit_def byte_def)
  show ?thesis
  proof (cases "i < 0")
    case True
    then show ?thesis using assms show_nat_digits [of "nat (- i)"] by (simp add: show_int_def int_of_text_def Let_def)
  next
    case False
    obtain c r where s: "show_nat (nat i) = c # r" using show_nat_digits [of "nat i"] by (cases "show_nat (nat i)") auto
    then have "c \<noteq> CHR ''-''" using no_minus [of "nat i"] by simp
    then show ?thesis using assms False show_nat_digits [of "nat i"] s by (simp add: show_int_def int_of_text_def Let_def)
  qed
qed

lemma parse_shown: "parse_number (show_int i) = Some (show_int i, [])"
proof -
  have int_part: "parse_int_part (show_nat n) = Some (show_nat n, [])" and no_minus: "hd (show_nat n) \<noteq> CHR ''-''" for n
  proof -
    obtain c r where s: "show_nat n = c # r" using show_nat_digits [of n] by (cases "show_nat n") auto
    have dig: "is_digit c" "\<forall>x \<in> set r. is_digit x" using show_nat_digits [of n] s by auto
    show "hd (show_nat n) \<noteq> CHR ''-''" using dig(1) s by (auto simp: is_digit_def byte_def)
    show "parse_int_part (show_nat n) = Some (show_nat n, [])"
    proof (cases "n = 0")
      case True
      then show ?thesis by (simp add: show_nat.simps digit_char_def parse_int_part_def) (simp add: char_of_def bit_iff_odd)
    next
      case False
      then have "c \<noteq> CHR ''0''" using show_nat_digits [of n] s by simp
      moreover have "takeWhile is_digit r = r" "dropWhile is_digit r = []" using dig(2) by (auto simp: takeWhile_eq_all_conv)
      ultimately show ?thesis using dig(1) unfolding s by (simp add: parse_int_part_def)
    qed
  qed
  obtain c r where s: "show_nat (nat i) = c # r" using show_nat_digits [of "nat i"] by (cases "show_nat (nat i)") auto
  show ?thesis
    using int_part [of "nat i"] int_part [of "nat (- i)"] no_minus [of "nat i"] s
    by (auto simp: parse_number_def show_int_def parse_frac_def parse_exp_def)
qed

text \<open>Texts that are UTF-8, as everything read from JSON is.\<close>

definition grant_text :: "mcp_grant \<Rightarrow> bool" where
  "grant_text g \<longleftrightarrow> (\<forall>p \<in> set (gr_enabled g) \<union> set (gr_disabled g). valid_utf8 p)"

definition definition_text :: "agent_definition \<Rightarrow> bool" where
  "definition_text d \<longleftrightarrow> valid_utf8 (ad_id d) \<and> valid_utf8 (ad_name d) \<and> valid_utf8 (ad_persona d) \<and> valid_utf8 (ad_slot d)
     \<and> valid_utf8 (ad_model d) \<and> valid_utf8 (ad_policy d) \<and> (\<forall>p \<in> set (ad_plugins d). valid_utf8 p)
     \<and> (\<forall>(k, g) \<in> set (ad_mcp d). valid_utf8 k \<and> grant_text g)"

lemma field_names_valid [simp]:
  "valid_utf8 ''id''" "valid_utf8 ''name''" "valid_utf8 ''persona''" "valid_utf8 ''provider_slot''" "valid_utf8 ''model''" "valid_utf8 ''max_turns''"
  "valid_utf8 ''plugin_paths''" "valid_utf8 ''workspace_policy''" "valid_utf8 ''mcp_servers''" "valid_utf8 ''enabled_tools''" "valid_utf8 ''disabled_tools''"
  by code_simp+

lemma grant_json_ok: "grant_text g \<Longrightarrow> json_ok (grant_json g)"
  by (auto simp: grant_json_def grant_text_def omit_empty_def json_strings_def list_all_iff)

lemma agent_json_ok: "definition_text d \<Longrightarrow> json_ok (agent_json d)"
  using canonical_members_subset [of "ad_mcp d"]
  by (auto simp: agent_json_def definition_text_def omit_empty_def json_strings_def json_int_def list_all_iff parse_shown intro!: grant_json_ok)

text \<open>The same definition, its grants in the order of their names.\<close>

definition in_order :: "agent_definition \<Rightarrow> agent_definition" where
  "in_order d = d\<lparr>ad_mcp := canonical_members (ad_mcp d)\<rparr>"

lemma strings_read_back: "strings_into [] (map JString ss) = Inr ss"
  by (induction ss) (simp_all add: string_into_def)

lemma list_read_back [simp]: "string_list_into (json_strings ss) [] = Inr ss"
  by (simp add: string_list_into_def json_strings_def strings_read_back)

lemma grant_read_back: "grant_of ''enabled_tools'' ''disabled_tools'' (grant_json g) = Inr g"
  by (cases "gr_enabled g = []"; cases "gr_disabled g = []")
    (simp_all add: grant_of_def grant_json_def omit_empty_def struct_into_def member_into_def field_named_def grant_fields_def field_def no_grant_def)

interpretation grants: json_codec grant_json "grant_of ''enabled_tools'' ''disabled_tools''" grant_text
  by unfold_locales (simp_all add: grant_json_ok grant_read_back)

lemma distinct_canonical: "distinct (map fst (canonical_members ms))"
  by (simp add: canonical_members_keys)

text \<open>What JSON can carry: texts and a number of turns that is an \<open>int\<close> of 64 bits.\<close>

definition storable :: "agent_definition \<Rightarrow> bool" where
  "storable d \<longleftrightarrow> definition_text d \<and> - (2 ^ 63) \<le> ad_max_turns d \<and> ad_max_turns d < 2 ^ 63"

lemma definition_read_back:
  assumes "storable d"
  shows "definition_of (agent_json d) = Inr (in_order d)"
proof -
  have int: "int_into (json_int (ad_max_turns d)) i = Inr (ad_max_turns d)" for i
    using int_of_show [of "ad_max_turns d"] assms by (simp add: int_into_def json_int_def storable_def)
  have mcp: "map_into (grant_of ''enabled_tools'' ''disabled_tools'') (JObject (map (\<lambda>(k, g). (k, grant_json g)) (canonical_members (ad_mcp d)))) []
      = Inr (canonical_members (ad_mcp d))"
    using assms canonical_members_subset [of "ad_mcp d"]
    by (intro grants.map_back [OF distinct_canonical]) (auto simp: storable_def definition_text_def)
  have none: "canonical_members ([] :: (string \<times> mcp_grant) list) = []" by (simp add: canonical_members_def)
  show ?thesis
    by (cases "ad_mcp d = []")
      (simp_all add: definition_of_def agent_json_def omit_empty_def struct_into_def member_into_def field_named_def definition_fields_def field_def
        empty_definition_def in_order_def string_into_def int mcp none)
qed

lemma int_into_range: "int_into v i = Inr j \<Longrightarrow> - (2 ^ 63) \<le> i \<and> i < 2 ^ 63 \<Longrightarrow> - (2 ^ 63) \<le> j \<and> j < 2 ^ 63"
  by (auto simp: int_into_def int_of_text_def Let_def split: json.splits option.splits if_split_asm)

lemma grant_fields_keep: "\<forall>f \<in> set (grant_fields on off). field_keeps grant_text f"
  unfolding grant_fields_def list.set ball_simps
  by (intro conjI keeps_field TrueI) (auto simp: grant_text_def dest: string_list_into_valid)

lemma grant_of_text: "grant_of on off v = Inr g \<Longrightarrow> json_ok v \<Longrightarrow> grant_text g"
  unfolding grant_of_def by (erule struct_into_keeps) (simp_all add: grant_fields_keep, simp add: grant_text_def no_grant_def)

lemma grants_of_text:
  assumes "map_into (grant_of on off) w gs = Inr gs'" and "json_ok w" and "\<forall>(k, g) \<in> set gs. valid_utf8 k \<and> grant_text g"
  shows "\<forall>(k, g) \<in> set gs'. valid_utf8 k \<and> grant_text g"
  by (rule map_into_valid [OF assms]) (rule grant_of_text)

lemma definition_fields_keep: "\<forall>f \<in> set definition_fields. field_keeps storable f"
  unfolding definition_fields_def list.set ball_simps
  by (intro conjI keeps_field TrueI)
    (auto simp: storable_def definition_text_def dest: string_into_valid string_list_into_valid int_into_range grants_of_text)

lemma definition_of_storable: "definition_of v = Inr d \<Longrightarrow> json_ok v \<Longrightarrow> storable d"
  unfolding definition_of_def
  by (erule struct_into_keeps) (simp_all add: definition_fields_keep, simp add: storable_def definition_text_def empty_definition_def)

definition ordered_definition :: "agent_definition \<Rightarrow> bool" where
  "ordered_definition d \<longleftrightarrow> storable d \<and> in_order d = d"

interpretation definitions: json_codec agent_json definition_of ordered_definition
  by unfold_locales (auto simp: ordered_definition_def agent_json_ok definition_read_back storable_def)

lemma ordered_in_order: "storable d \<Longrightarrow> ordered_definition (in_order d)"
  using canonical_members_subset [of "ad_mcp d"]
  by (auto simp: ordered_definition_def storable_def definition_text_def in_order_def)

lemma agent_json_ordered: "agent_json (in_order d) = agent_json d"
proof -
  have "map fst (canonical_members (ad_mcp d)) = [] \<longleftrightarrow> ad_mcp d = []"
    unfolding canonical_members_keys by (metis length_0_conv length_sort map_is_Nil_conv remdups_eq_nil_iff)
  then have "canonical_members (ad_mcp d) = [] \<longleftrightarrow> ad_mcp d = []" by simp
  then show ?thesis by (simp add: agent_json_def in_order_def omit_empty_def)
qed

lemma same_revision_text:
  assumes "storable d" and "storable e" and "compact_json (agent_json e) = compact_json (agent_json d)"
  shows "in_order e = in_order d"
  using definitions.text_inject [OF ordered_in_order ordered_in_order, of e d] assms by (simp add: agent_json_ordered)

subsection \<open>Where revisions are\<close>

lemma comps_below:
  assumes "is_abs q" and "\<forall>d \<in> set ds. proper d" and "ds \<noteq> []"
  shows "path_comps (path_join (q # ds)) = path_comps q @ ds \<and> is_abs (path_join (q # ds))"
proof -
  obtain r where q: "q = slash # r" using assms(1) by (auto simp: is_abs_iff)
  have "split_on slash (join_on [slash] ds) = ds" using assms(2,3) by (intro split_join) (auto simp: proper_def)
  then have parts: "split_on slash (join_on [slash] (q # ds)) = split_on slash q @ ds"
    using assms(3) split_on_append2 [of slash q "join_on [slash] ds"] by (cases ds) simp_all
  have "path_comps (join_on [slash] (q # ds)) = path_comps q @ ds"
    using path_join_abs(2) [OF assms(1), of ds] assms(1) clean_parts_keep [OF assms(2), of True "rev (path_comps q)"]
    unfolding path_comps_def parts clean_parts_append by simp
  then show ?thesis using path_join_abs [OF assms(1), of ds] by simp
qed

lemma hex_decode_no_slash: "hex_decode s = Some x \<Longrightarrow> slash \<notin> set s"
proof (induction s arbitrary: x rule: hex_decode.induct)
  case (3 a b s)
  have "hex_value slash = None" by (simp add: slash_def hex_value_def byte_def)
  with 3 show ?case by (auto split: option.splits)
qed auto

lemma revision_comps:
  assumes "is_abs agents" and "validate_agent_id i = Inr u" and "slash \<notin> set r"
  shows "path_comps (revision_path agents i r) = path_comps agents @ [i, ''revisions'', r @ ''.json'']"
    "path_comps (path_join [agent_dir agents i, ''revisions'']) = path_comps agents @ [i, ''revisions'']"
proof -
  have i: "proper i" using assms(2) by (auto simp: validate_agent_id_ok proper_def slash_def Agent.slash_def)
  have r: "proper (r @ ''.json'')" using assms(3) by (cases r) (auto simp: proper_def slash_def)
  have rv: "proper ''revisions''" by (simp add: proper_def slash_def)
  have dir: "path_comps (agent_dir agents i) = path_comps agents @ [i]" "is_abs (agent_dir agents i)"
    unfolding agent_dir_def using comps_below [OF assms(1), of "[i]"] i by auto
  show "path_comps (revision_path agents i r) = path_comps agents @ [i, ''revisions'', r @ ''.json'']"
    unfolding revision_path_def using comps_below [OF dir(2), of "[''revisions'', r @ ''.json'']"] dir(1) r rv by simp
  show "path_comps (path_join [agent_dir agents i, ''revisions'']) = path_comps agents @ [i, ''revisions'']"
    using comps_below [OF dir(2), of "[''revisions'']"] dir(1) rv by simp
qed

subsection \<open>Snapshots are kept\<close>

text \<open>\<open>dk'\<close> has the entries of \<open>dk\<close> and new ones that are no links.\<close>

definition grows :: "agent_disk \<Rightarrow> agent_disk \<Rightarrow> bool" where
  "grows dk dk' \<longleftrightarrow> dk_refuses dk' = dk_refuses dk
     \<and> (\<forall>p. dk_entry dk' p = dk_entry dk p \<or> (dk_entry dk p = None \<and> (\<exists>x. dk_entry dk' p = Some x \<and> (\<forall>q. x \<noteq> LinkTo q))))"

lemma grows_refl [simp]: "grows dk dk"
  by (simp add: grows_def)

lemma grows_trans: "grows dk dk1 \<Longrightarrow> grows dk1 dk2 \<Longrightarrow> grows dk dk2"
  unfolding grows_def by metis

lemma grows_entry: "grows dk dk' \<Longrightarrow> dk_entry dk p = Some x \<Longrightarrow> dk_entry dk' p = Some x"
  by (auto simp: grows_def dest!: spec [of _ p])

lemma grows_link: "grows dk dk' \<Longrightarrow> dk_entry dk' p = Some (LinkTo q) \<Longrightarrow> dk_entry dk p = Some (LinkTo q)"
proof -
  assume g: "grows dk dk'" "dk_entry dk' p = Some (LinkTo q)"
  then have "dk_entry dk' p = dk_entry dk p \<or> (\<exists>x. dk_entry dk' p = Some x \<and> (\<forall>q. x \<noteq> LinkTo q))" unfolding grows_def by blast
  with g(2) show ?thesis by auto
qed

lemma create_file_adds:
  assumes "create_if_missing p c dk = Inr dk'"
  shows "dk' = dk \<or> (\<exists>r. dk_entry dk r = None \<and> dk' = set_entry r (Regular c) dk)"
proof (cases "settle max_links False dk p")
  case (Inr r)
  with assms show ?thesis by (cases "dk_entry dk r"; cases "dk_refuses dk p") (auto simp: create_if_missing_def)
qed (use assms in \<open>simp add: create_if_missing_def\<close>)

lemma mkdir_adds:
  assumes "mkdir_all p dk = Inr dk'"
  shows "dk' = dk \<or> (\<exists>r. dk_entry dk r = None \<and> dk' = set_entry r Directory dk)"
proof (cases "settle max_links True dk p")
  case (Inr r)
  show ?thesis
  proof (cases "dk_entry dk r")
    case None
    with assms Inr show ?thesis by (cases "dk_refuses dk p") (auto simp: mkdir_all_def)
  next
    case (Some x)
    with assms Inr show ?thesis by (cases x) (simp_all add: mkdir_all_def)
  qed
qed (use assms in \<open>simp add: mkdir_all_def\<close>)

lemma grows_set: "dk_entry dk r = None \<Longrightarrow> \<forall>q. x \<noteq> LinkTo q \<Longrightarrow> grows dk (set_entry r x dk)"
  by (simp add: grows_def set_entry_def)

lemma grows_create: "create_if_missing p c dk = Inr dk' \<Longrightarrow> grows dk dk'"
  using create_file_adds grows_set by fastforce

lemma grows_mkdir: "mkdir_all p dk = Inr dk' \<Longrightarrow> grows dk dk'"
  using mkdir_adds grows_set by fastforce

lemma grows_real_directory: "grows dk (snd (real_directory dir dk))"
  by (auto simp: real_directory_def split: sum.splits dest: grows_mkdir)

lemma grows_load: "grows dk (snd (load_agent agents i dk))"
  by (auto simp: load_agent_def Let_def split: sum.splits dest!: grows_mkdir grows_create intro: grows_trans)

lemma grows_memory: "grows dk (snd (load_memory agents i n dk))"
proof -
  let ?dir = "path_join [agent_dir agents i, ''memory'']"
  obtain r dk1 where r: "real_directory ?dir dk = (r, dk1)" by (cases "real_directory ?dir dk")
  have "grows dk dk1" using grows_real_directory [of dk ?dir] r by simp
  then show ?thesis
    using r by (auto simp: load_memory_def Let_def split: sum.splits option.splits entry.splits dest!: grows_create intro: grows_trans)
qed

lemma grows_workspace: "grows dk (snd (agent_workspace agents i dk))"
  using grows_real_directory by (auto simp: agent_workspace_def split: sum.splits)

text \<open>The paths of snapshots and of the directories above them.\<close>

definition snapshot_area :: "string \<Rightarrow> string \<Rightarrow> bool" where
  "snapshot_area agents p \<longleftrightarrow>
     (\<exists>i r k. validate_agent_id i = Inr () \<and> slash \<notin> set r \<and> p = path_above (revision_path agents i r) k)"

text \<open>No link stands at a snapshot's path or above it.\<close>

definition unlinked :: "string \<Rightarrow> agent_disk \<Rightarrow> bool" where
  "unlinked agents dk \<longleftrightarrow> (\<forall>p q. snapshot_area agents p \<longrightarrow> dk_entry dk p \<noteq> Some (LinkTo q))"

lemma grows_unlinked: "grows dk dk' \<Longrightarrow> unlinked agents dk \<Longrightarrow> unlinked agents dk'"
  unfolding unlinked_def using grows_link by blast

text \<open>Without links a path leads to itself, when the names above its last are directories.\<close>

definition open_above :: "agent_disk \<Rightarrow> string \<Rightarrow> bool" where
  "open_above dk p \<longleftrightarrow> (\<forall>k < length (path_comps p). dk_entry dk (path_above p k) \<in> {None, Some Directory})"

lemma find_first: "List.find P xs = Some x \<Longrightarrow> P x \<and> x \<in> set xs"
  by (auto simp: find_Some_iff)

lemma settle_unlinked:
  assumes links: "\<forall>k < length (path_comps p). \<forall>q. dk_entry dk (path_above p k) \<noteq> Some (LinkTo q)"
    and last: "follow \<longrightarrow> (\<forall>q. dk_entry dk (path_above p (length (path_comps p))) \<noteq> Some (LinkTo q))"
  shows "settle (Suc n) follow dk p = (if open_above dk p then Inr p else Inl ''not a directory'')"
proof -
  let ?n = "length (path_comps p)"
  have stop: "stops dk follow p k \<longleftrightarrow> k < ?n \<and> dk_entry dk (path_above p k) \<notin> {None, Some Directory}" if "k \<le> ?n" for k
    using links last that by (cases "k = ?n") (auto simp: stops_def split: option.splits entry.splits)
  show ?thesis
  proof (cases "List.find (stops dk follow p) [0..<?n + 1]")
    case None
    then have "open_above dk p" using stop unfolding find_None_iff open_above_def by (auto simp: less_imp_le)
    with None show ?thesis by simp
  next
    case (Some k)
    from find_first [OF this] have k: "k < ?n" "dk_entry dk (path_above p k) \<notin> {None, Some Directory}" using stop [of k] by auto
    then have "\<not> open_above dk p" by (auto simp: open_above_def)
    moreover have "\<forall>q. dk_entry dk (path_above p k) \<noteq> Some (LinkTo q)" using links k(1) by blast
    ultimately show ?thesis using Some k(2) by (auto split: option.splits entry.splits)
  qed
qed

lemma settle_links: "settle max_links = settle (Suc 39)"
  unfolding max_links_def by (rule arg_cong [of _ _ settle]) simp

lemma area_above: "snapshot_area agents (path_above (revision_path agents i r) k)" if "validate_agent_id i = Inr ()" "slash \<notin> set r"
  using that by (auto simp: snapshot_area_def)

lemma revision_clean:
  assumes "is_abs agents" and "validate_agent_id i = Inr ()"
  shows "is_abs (revision_path agents i r)" "path_clean (revision_path agents i r) = revision_path agents i r"
    and "path_above (revision_path agents i r) (length (path_comps (revision_path agents i r))) = revision_path agents i r"
proof -
  have dir: "is_abs (agent_dir agents i)" "agent_dir agents i = path_clean (join_on [slash] [agents, i])"
    using path_join_abs [OF assms(1), of "[i]"] by (simp_all add: agent_dir_def)
  have join: "revision_path agents i r = path_clean (join_on [slash] [agent_dir agents i, ''revisions'', r @ ''.json''])"
    "is_abs (join_on [slash] [agent_dir agents i, ''revisions'', r @ ''.json''])"
    using path_join_abs [OF dir(1), of "[''revisions'', r @ ''.json'']"] by (simp_all add: revision_path_def)
  show abs: "is_abs (revision_path agents i r)" and clean: "path_clean (revision_path agents i r) = revision_path agents i r"
    using join by simp_all
  show "path_above (revision_path agents i r) (length (path_comps (revision_path agents i r))) = revision_path agents i r"
    by (rule above_self [OF abs clean]) simp
qed

lemma read_snapshot:
  assumes "is_abs agents" and "unlinked agents dk" and "validate_agent_id i = Inr ()" and "slash \<notin> set r"
  shows "read_file dk (revision_path agents i r) = Inr c \<longleftrightarrow> dk_refuses dk (revision_path agents i r) = None
     \<and> open_above dk (revision_path agents i r) \<and> dk_entry dk (revision_path agents i r) = Some (Regular c)"
proof -
  let ?p = "revision_path agents i r"
  have "\<forall>k q. dk_entry dk (path_above ?p k) \<noteq> Some (LinkTo q)" using area_above [OF assms(3,4)] assms(2) by (auto simp: unlinked_def)
  then have "settle max_links True dk ?p = (if open_above dk ?p then Inr ?p else Inl ''not a directory'')"
    unfolding settle_links by (intro settle_unlinked) simp_all
  then show ?thesis by (auto simp: read_file_def split: option.splits entry.splits)
qed

definition snapshots_kept :: "(string \<Rightarrow> string) \<Rightarrow> string \<Rightarrow> agent_disk \<Rightarrow> agent_disk \<Rightarrow> bool" where
  "snapshots_kept sha agents dk dk' \<longleftrightarrow> unlinked agents dk'
     \<and> (\<forall>i r e. resolve_revision sha agents dk i r = Inr e \<longrightarrow> resolve_revision sha agents dk' i r = Inr e)"

lemma snapshots_kept_trans: "snapshots_kept sha agents dk dk1 \<Longrightarrow> snapshots_kept sha agents dk1 dk2 \<Longrightarrow> snapshots_kept sha agents dk dk2"
  by (simp add: snapshots_kept_def)

lemma resolved_entry:
  assumes "resolve_revision sha agents dk i r = Inr e"
  shows "validate_agent_id i = Inr () \<and> map_option length (hex_decode r) = Some 32 \<and> slash \<notin> set r
     \<and> (\<exists>c. read_file dk (revision_path agents i r) = Inr c \<and> decode_exactly definition_of c = Inr e)
     \<and> ad_id e = i \<and> agent_revision sha e = r"
proof -
  have "map_option length (hex_decode r) = Some 32" using assms by (auto simp: resolve_revision_def and_then_Inr_iff split: if_splits)
  then have "slash \<notin> set r" using hex_decode_no_slash [of r] by (cases "hex_decode r") auto
  then show ?thesis using assms by (auto simp: resolve_revision_def and_then_Inr_iff split: if_splits sum.splits)
qed

lemma resolve_again:
  assumes "resolve_revision sha agents dk i r = Inr e"
    and "\<And>c. read_file dk (revision_path agents i r) = Inr c \<Longrightarrow> read_file dk' (revision_path agents i r) = Inr c"
  shows "resolve_revision sha agents dk' i r = Inr e"
  using resolved_entry [OF assms(1)] assms(2) by (auto simp: resolve_revision_def)

text \<open>New directories anywhere, and new files elsewhere, leave every snapshot readable.\<close>

definition spares :: "string \<Rightarrow> agent_disk \<Rightarrow> agent_disk \<Rightarrow> bool" where
  "spares agents dk dk' \<longleftrightarrow> dk_refuses dk' = dk_refuses dk
     \<and> (\<forall>p. snapshot_area agents p \<longrightarrow> dk_entry dk' p = dk_entry dk p \<or> dk_entry dk p = None \<and> dk_entry dk' p = Some Directory)"

lemma spares_refl [simp]: "spares agents dk dk"
  by (simp add: spares_def)

lemma spares_trans: "spares agents dk dk1 \<Longrightarrow> spares agents dk1 dk2 \<Longrightarrow> spares agents dk dk2"
  unfolding spares_def by metis

lemma spares_unlinked: "spares agents dk dk' \<Longrightarrow> unlinked agents dk \<Longrightarrow> unlinked agents dk'"
  unfolding unlinked_def spares_def by fastforce

lemma spares_kept:
  assumes "spares agents dk dk'" and "unlinked agents dk" and "is_abs agents"
  shows "snapshots_kept sha agents dk dk'"
  unfolding snapshots_kept_def
proof (intro conjI allI impI)
  show un: "unlinked agents dk'" by (rule spares_unlinked [OF assms(1,2)])
  fix i r e assume res: "resolve_revision sha agents dk i r = Inr e"
  note ent = resolved_entry [OF res]
  then have ir: "validate_agent_id i = Inr ()" "slash \<notin> set r" by blast+
  show "resolve_revision sha agents dk' i r = Inr e"
  proof (rule resolve_again [OF res])
    let ?p = "revision_path agents i r"
    fix c assume "read_file dk ?p = Inr c"
    then have here: "dk_refuses dk ?p = None" "open_above dk ?p" "dk_entry dk ?p = Some (Regular c)"
      using read_snapshot [OF assms(3,2) ir] by auto
    have same: "dk_entry dk' (path_above ?p k) = dk_entry dk (path_above ?p k)
        \<or> dk_entry dk (path_above ?p k) = None \<and> dk_entry dk' (path_above ?p k) = Some Directory" for k
      using assms(1) area_above [OF ir] by (simp add: spares_def)
    have "dk_entry dk' ?p = Some (Regular c)" using same [of "length (path_comps ?p)"] here(3) revision_clean(3) [OF assms(3) ir(1)] by auto
    moreover have "dk_entry dk' (path_above ?p k) \<in> {None, Some Directory}" if "k < length (path_comps ?p)" for k
      using same [of k] here(2) that unfolding open_above_def by (metis insertI1 insertI2)
    then have "open_above dk' ?p" by (simp add: open_above_def)
    ultimately show "read_file dk' ?p = Inr c" using here(1) assms(1) read_snapshot [OF assms(3) un ir] by (simp add: spares_def)
  qed
qed

lemma spares_mkdir: "mkdir_all p dk = Inr dk' \<Longrightarrow> spares agents dk dk'"
  using mkdir_adds [of p dk dk'] by (auto simp: spares_def set_entry_def split: if_splits)

lemma spares_real_directory: "spares agents dk (snd (real_directory dir dk))"
  by (auto simp: real_directory_def split: sum.splits dest: spares_mkdir)

text \<open>The other files of an agent are not in the area of snapshots, and the path to them leads through it.\<close>

lemma area_names:
  assumes "is_abs agents" and "snapshot_area agents p"
  obtains i r k where "validate_agent_id i = Inr ()" "slash \<notin> set r" "path_comps p = take k (path_comps agents @ [i, ''revisions'', r @ ''.json''])"
proof -
  obtain i r k where p: "validate_agent_id i = Inr ()" "slash \<notin> set r" "p = path_above (revision_path agents i r) k"
    using assms(2) by (auto simp: snapshot_area_def)
  have abs: "is_abs (revision_path agents i r)" using revision_clean(1) [OF assms(1) p(1)] .
  have "\<forall>c \<in> set (take k (path_comps (revision_path agents i r))). proper c" using path_comps_proper [OF abs] by (meson in_set_takeD)
  then have "path_comps p = take k (path_comps (revision_path agents i r))" unfolding p(3) path_above_def by (rule path_comps_join)
  then show thesis using that [OF p(1,2)] revision_comps(1) [OF assms(1) p(1,2)] by simp
qed

lemma same_names: "take k (path_comps p) = take k (path_comps q) \<Longrightarrow> path_above p k = path_above q k"
  by (simp add: path_above_def)

lemma agent_file:
  assumes "is_abs agents" and "validate_agent_id i = Inr ()" and "\<forall>d \<in> set (x # xs). proper d" and "x \<noteq> ''revisions''"
  shows "path_comps (path_join (agent_dir agents i # x # xs)) = path_comps agents @ [i, x] @ xs"
    and "\<not> snapshot_area agents (path_join (agent_dir agents i # x # xs))"
    and "k < length (path_comps agents) + 2 \<Longrightarrow> snapshot_area agents (path_above (path_join (agent_dir agents i # x # xs)) k)"
proof -
  let ?p = "path_join (agent_dir agents i # x # xs)"
  have i: "proper i" using assms(2) by (auto simp: validate_agent_id_ok proper_def slash_def Agent.slash_def)
  have dir: "path_comps (agent_dir agents i) = path_comps agents @ [i]" "is_abs (agent_dir agents i)"
    unfolding agent_dir_def using comps_below [OF assms(1), of "[i]"] i by auto
  show comps: "path_comps ?p = path_comps agents @ [i, x] @ xs" using comps_below [OF dir(2) assms(3)] dir(1) by simp
  show "\<not> snapshot_area agents ?p"
  proof
    assume "snapshot_area agents ?p"
    from area_names [OF assms(1) this] obtain j r l where l: "path_comps ?p = take l (path_comps agents @ [j, ''revisions'', r @ ''.json''])"
      by blast
    have "length (path_comps agents) + 2 \<le> l" using arg_cong [OF l, of length] comps by simp
    then have "path_comps ?p ! (length (path_comps agents) + 1) = ''revisions''" unfolding l by (simp add: nth_append)
    then show False using comps assms(4) by (simp add: nth_append)
  qed
  show "snapshot_area agents (path_above ?p k)" if k: "k < length (path_comps agents) + 2"
  proof -
    have "take k (path_comps agents @ [i, x] @ xs) = take k (path_comps agents @ [i, ''revisions'', ''a.json''])"
      using k by (cases "k = Suc (length (path_comps agents))") auto
    then have "path_above ?p k = path_above (revision_path agents i ''a'') k"
      using revision_comps(1) [OF assms(1,2), of "''a''"] comps by (intro same_names) simp
    then show ?thesis using area_above [OF assms(2), of "''a''"] by simp
  qed
qed

lemma spares_create:
  assumes "create_if_missing p c dk = Inr dk'" and "unlinked agents dk" and "\<not> snapshot_area agents p"
    and "\<forall>k < length (path_comps p). snapshot_area agents (path_above p k) \<or> dk_entry dk (path_above p k) = Some Directory"
  shows "spares agents dk dk'"
proof -
  have "\<forall>k < length (path_comps p). \<forall>q. dk_entry dk (path_above p k) \<noteq> Some (LinkTo q)"
    using assms(2,4) unfolding unlinked_def by force
  then have "settle max_links False dk p = (if open_above dk p then Inr p else Inl ''not a directory'')"
    unfolding settle_links by (intro settle_unlinked) simp_all
  with assms(1,3) show ?thesis
    by (auto simp: create_if_missing_def spares_def set_entry_def split: if_splits option.splits)
qed

lemma proper_names: "proper ''agent.json''" "proper ''PERSONA.md''" "proper ''memory''" "proper ''MEMORY.md''" "proper ''workspace''"
  by (simp_all add: proper_def slash_def)

lemma spares_owned:
  assumes "create_if_missing (path_join [agent_dir agents i, x]) c dk = Inr dk'" and "unlinked agents dk"
    and "is_abs agents" and "validate_agent_id i = Inr ()" and "proper x" and "x \<noteq> ''revisions''"
  shows "spares agents dk dk'"
  using assms(2) agent_file [OF assms(3,4), of x "[]"] assms(5,6) by (intro spares_create [OF assms(1)]) auto

lemma spares_load:
  assumes "is_abs agents" and un: "unlinked agents dk"
  shows "spares agents dk (snd (load_agent agents i dk))"
proof (cases "validate_agent_id i")
  case (Inr u)
  then have vid: "validate_agent_id i = Inr ()" by simp
  let ?rv = "path_join [agent_dir agents i, ''revisions'']" and ?s = "path_join [agent_dir agents i, ''agent.json'']"
    and ?p = "path_join [agent_dir agents i, ''PERSONA.md'']"
  show ?thesis
  proof (cases "mkdir_all ?rv dk")
    case (Inl e)
    then show ?thesis using vid by (simp add: load_agent_def Let_def)
  next
    case dk1: (Inr dk1)
    note s1 = spares_mkdir [OF dk1, of agents]
    show ?thesis
    proof (cases "create_if_missing ?s default_settings dk1")
      case (Inl e)
      then show ?thesis using vid dk1 s1 by (simp add: load_agent_def Let_def)
    next
      case dk2: (Inr dk2)
      have un1: "unlinked agents dk1" using spares_unlinked [OF s1 un] .
      have "spares agents dk1 dk2" by (rule spares_owned [OF dk2 un1 assms(1) vid proper_names(1)]) simp
      then have s2: "spares agents dk dk2" using s1 spares_trans by blast
      show ?thesis
      proof (cases "create_if_missing ?p [] dk2")
        case (Inl e)
        then show ?thesis using vid dk1 dk2 s2 by (simp add: load_agent_def Let_def)
      next
        case dk3: (Inr dk3)
        have "spares agents dk2 dk3"
          by (rule spares_owned [OF dk3 spares_unlinked [OF s2 un] assms(1) vid proper_names(2)]) simp
        then have "spares agents dk dk3" using s2 spares_trans by blast
        then show ?thesis using vid dk1 dk2 dk3 by (simp add: load_agent_def Let_def)
      qed
    qed
  qed
qed (simp add: load_agent_def Let_def)

lemma spares_memory:
  assumes "is_abs agents" and un: "unlinked agents dk"
  shows "spares agents dk (snd (load_memory agents i n dk))"
proof (cases "validate_agent_id i")
  case (Inr u)
  then have vid: "validate_agent_id i = Inr ()" by simp
  let ?dir = "path_join [agent_dir agents i, ''memory'']" and ?index = "path_join [agent_dir agents i, ''memory'', ''MEMORY.md'']"
  obtain r dk1 where r: "real_directory ?dir dk = (r, dk1)" by (cases "real_directory ?dir dk")
  have s1: "spares agents dk dk1" using spares_real_directory [of agents dk ?dir] r by simp
  note un1 = spares_unlinked [OF s1 un]
  note dir = agent_file [OF assms(1) vid, of "''memory''" "[]"] and index = agent_file [OF assms(1) vid, of "''memory''" "[''MEMORY.md'']"]
  have join: "path_join [?dir, ''MEMORY.md''] = ?index"
  proof -
    have abs: "is_abs (agent_dir agents i)" using path_join_abs [OF assms(1), of "[i]"] by (simp add: agent_dir_def)
    have "is_abs ?dir" using path_join_abs [OF abs, of "[''memory'']"] by simp
    from comps_below [OF this, of "[''MEMORY.md'']"] have "path_comps (path_join [?dir, ''MEMORY.md'']) = path_comps ?index"
      using dir(1) index(1) proper_names by simp
    then show ?thesis using path_join_abs [OF \<open>is_abs ?dir\<close>, of "[''MEMORY.md'']"] path_join_abs [OF abs, of "[''memory'', ''MEMORY.md'']"]
      by (metis path_clean_abs path_comps_clean)
  qed
  show ?thesis
  proof (cases "\<exists>path dk2. r = Inr path \<and> create_if_missing ?index [] dk1 = Inr dk2")
    case False
    then show ?thesis using vid r s1 join by (cases r) (auto simp: load_memory_def Let_def split: sum.splits)
  next
    case True
    then obtain path dk2 where p: "r = Inr path" and c: "create_if_missing ?index [] dk1 = Inr dk2" by blast
    have "lstat dk1 ?dir = Some Directory" using r p by (auto simp: real_directory_def split: sum.splits if_splits)
    moreover have "\<forall>k < length (path_comps ?dir). \<forall>q. dk_entry dk1 (path_above ?dir k) \<noteq> Some (LinkTo q)"
      using dir(1,3) un1 proper_names by (auto simp: unlinked_def)
    then have "settle max_links False dk1 ?dir = (if open_above dk1 ?dir then Inr ?dir else Inl ''not a directory'')"
      unfolding settle_links by (intro settle_unlinked) simp_all
    ultimately have real: "dk_entry dk1 ?dir = Some Directory" by (auto simp: lstat_def split: if_splits)
    have "\<forall>k < length (path_comps ?index). snapshot_area agents (path_above ?index k) \<or> dk_entry dk1 (path_above ?index k) = Some Directory"
    proof (intro allI impI)
      fix k assume k: "k < length (path_comps ?index)"
      show "snapshot_area agents (path_above ?index k) \<or> dk_entry dk1 (path_above ?index k) = Some Directory"
      proof (cases "k < length (path_comps agents) + 2")
        case True
        then show ?thesis using index(3) proper_names by simp
      next
        case False
        then have "take k (path_comps ?index) = path_comps ?dir" using k index(1) dir(1) proper_names by (auto simp: less_Suc_eq)
        moreover have "path_clean ?dir = ?dir" "is_abs ?dir"
          using path_join_abs [of "agent_dir agents i" "[''memory'']"] path_join_abs [OF assms(1), of "[i]"] by (auto simp: agent_dir_def)
        ultimately have "path_above ?index k = ?dir" by (simp add: path_above_def path_clean_abs)
        with real show ?thesis by simp
      qed
    qed
    then have "spares agents dk1 dk2" using index(2) proper_names by (intro spares_create [OF c un1]) simp_all
    then have "spares agents dk dk2" using s1 spares_trans by blast
    then show ?thesis using vid r p c join
      by (auto simp: load_memory_def Let_def split: option.splits entry.splits)
  qed
qed (simp add: load_memory_def Let_def)

lemma spares_workspace: "spares agents dk (snd (agent_workspace agents i dk))"
  using spares_real_directory by (auto simp: agent_workspace_def split: sum.splits)

lemma hex_revision: "\<forall>s. length (sha s) = 32 \<Longrightarrow> map_option length (hex_decode (agent_revision sha d)) = Some 32 \<and> slash \<notin> set (agent_revision sha d)"
  using hex_decode_no_slash [of "agent_revision sha d"] by (simp add: agent_revision_def hex_decode_encode)

lemma snapshot_written:
  assumes "write_file_atomic (revision_path agents i r) c dk = Inr dk'" and "unlinked agents dk" and "is_abs agents"
    and "validate_agent_id i = Inr ()" and "slash \<notin> set r"
  shows "dk' = set_entry (revision_path agents i r) (Regular c) dk \<and> dk_refuses dk (revision_path agents i r) = None
     \<and> open_above dk (revision_path agents i r)"
proof -
  let ?p = "revision_path agents i r"
  have "\<forall>k q. dk_entry dk (path_above ?p k) \<noteq> Some (LinkTo q)" using area_above [OF assms(4,5)] assms(2) by (auto simp: unlinked_def)
  then have "settle max_links False dk ?p = (if open_above dk ?p then Inr ?p else Inl ''not a directory'')"
    unfolding settle_links by (intro settle_unlinked) simp_all
  with assms(1) show ?thesis by (auto simp: write_file_atomic_def split: option.splits if_splits)
qed

lemma snapshot_not_above:
  assumes "is_abs agents" and "validate_agent_id i = Inr ()" "slash \<notin> set r" and "validate_agent_id j = Inr ()" "slash \<notin> set s"
    and "path_above (revision_path agents i r) k = revision_path agents j s"
  shows "i = j \<and> r = s \<and> length (path_comps (revision_path agents i r)) \<le> k"
proof -
  have "\<forall>c \<in> set (take k (path_comps (revision_path agents i r))). proper c"
    using path_comps_proper [OF revision_clean(1) [OF assms(1,2)]] by (meson in_set_takeD)
  then have "path_comps (revision_path agents j s) = take k (path_comps (revision_path agents i r))"
    unfolding assms(6) [symmetric] path_above_def by (rule path_comps_join)
  then have eq: "path_comps agents @ [j, ''revisions'', s @ ''.json''] = take k (path_comps agents @ [i, ''revisions'', r @ ''.json''])"
    unfolding revision_comps(1) [OF assms(1,2,3)] revision_comps(1) [OF assms(1,4,5)] .
  from arg_cong [OF this, of length] have k: "length (path_comps agents) + 3 \<le> k" by simp
  then have "take k (path_comps agents @ [i, ''revisions'', r @ ''.json'']) = path_comps agents @ [i, ''revisions'', r @ ''.json'']" by simp
  with eq k show ?thesis by (simp add: revision_comps(1) [OF assms(1,2,3)])
qed

text \<open>A snapshot that is written is read back, and the other snapshots stay.\<close>

lemma written_read:
  assumes "write_file_atomic (revision_path agents i r) c dk = Inr dk'" and "unlinked agents dk" and "is_abs agents"
    and "validate_agent_id i = Inr ()" and "slash \<notin> set r"
  shows "unlinked agents dk'" and "read_file dk' (revision_path agents i r) = Inr c"
    and "\<And>j s x. validate_agent_id j = Inr () \<Longrightarrow> slash \<notin> set s \<Longrightarrow> (j, s) \<noteq> (i, r) \<Longrightarrow> read_file dk (revision_path agents j s) = Inr x
       \<Longrightarrow> read_file dk' (revision_path agents j s) = Inr x"
proof -
  let ?p = "revision_path agents i r"
  note w = snapshot_written [OF assms]
  have dk': "dk' = set_entry ?p (Regular c) dk" using w by blast
  show un: "unlinked agents dk'" using assms(2) by (simp add: unlinked_def dk' set_entry_def)
  have spine: "dk_entry dk' (path_above (revision_path agents j s) k) = dk_entry dk (path_above (revision_path agents j s) k)"
    if "validate_agent_id j = Inr ()" "slash \<notin> set s" "k < length (path_comps (revision_path agents j s))" for j s k
  proof -
    have "path_above (revision_path agents j s) k \<noteq> ?p"
      using snapshot_not_above [OF assms(3) that(1,2) assms(4,5)] that(3) by (metis not_le)
    then show ?thesis by (simp add: dk' set_entry_def)
  qed
  have "open_above dk' ?p" using w spine [OF assms(4,5)] by (simp add: open_above_def)
  then show "read_file dk' ?p = Inr c"
    using w unfolding read_snapshot [OF assms(3) un assms(4,5)] by (simp add: dk' set_entry_def)
  show "read_file dk' (revision_path agents j s) = Inr x"
    if js: "validate_agent_id j = Inr ()" "slash \<notin> set s" "(j, s) \<noteq> (i, r)" "read_file dk (revision_path agents j s) = Inr x" for j s x
  proof -
    have x: "dk_refuses dk (revision_path agents j s) = None" "open_above dk (revision_path agents j s)"
      "dk_entry dk (revision_path agents j s) = Some (Regular x)"
      using js(4) unfolding read_snapshot [OF assms(3,2) js(1,2)] by simp_all
    have "revision_path agents j s \<noteq> ?p"
      using snapshot_not_above [OF assms(3) js(1,2) assms(4,5)] revision_clean(3) [OF assms(3) js(1), of s] js(3) by metis
    moreover have "open_above dk' (revision_path agents j s)" using x(2) spine [OF js(1,2)] by (simp add: open_above_def)
    ultimately show ?thesis using x unfolding read_snapshot [OF assms(3) un js(1,2)] by (simp add: dk' set_entry_def)
  qed
qed

lemma record_kept:
  assumes abs: "is_abs agents" and sha: "\<forall>s. length (sha s) = 32" and un: "unlinked agents dk"
  shows "snapshots_kept sha agents dk (snd (record_revision sha agents d dk))"
proof -
  let ?r = "agent_revision sha d" and ?rv = "path_join [agent_dir agents (ad_id d), ''revisions'']"
  let ?p = "revision_path agents (ad_id d) (agent_revision sha d)" and ?c = "indented_json (agent_json d) @ [CHR 0x0A]"
  have here: "snapshots_kept sha agents dk dk" using un by (simp add: snapshots_kept_def)
  show ?thesis
  proof (cases "validate_agent d = Inr () \<and> \<not> (\<exists>e. resolve_revision sha agents dk (ad_id d) ?r = Inr e \<and> agent_revision sha e = ?r)")
    case False
    then show ?thesis using here by (cases "validate_agent d") (auto simp: record_revision_def Let_def)
  next
    case True
    then have vid: "validate_agent_id (ad_id d) = Inr ()" by (auto simp: validate_agent_def and_then_Inr_iff)
    have not: "(case resolve_revision sha agents dk (ad_id d) ?r of Inl x \<Rightarrow> False | Inr e \<Rightarrow> agent_revision sha e = ?r) = False"
      using True by (auto split: sum.splits)
    have run: "record_revision sha agents d dk = (case mkdir_all ?rv dk of
        Inl e \<Rightarrow> (Inl (''agents: create revisions directory: '' @ e), dk)
      | Inr dk1 \<Rightarrow> (case write_file_atomic ?p ?c dk1 of Inl e \<Rightarrow> (Inl e, dk1) | Inr dk2 \<Rightarrow> (Inr (), dk2)))"
      using True unfolding record_revision_def Let_def not by simp
    show ?thesis
    proof (cases "mkdir_all ?rv dk")
      case (Inl e)
      then show ?thesis using here run by simp
    next
      case dir: (Inr dk1)
      have k1: "snapshots_kept sha agents dk dk1" by (rule spares_kept [OF spares_mkdir [OF dir] un abs])
      then have un1: "unlinked agents dk1" by (simp add: snapshots_kept_def)
      show ?thesis
      proof (cases "write_file_atomic ?p ?c dk1")
        case (Inl e)
        then show ?thesis using k1 run dir by simp
      next
        case w: (Inr dk2)
        note out = written_read [OF w un1 abs vid hex_revision [OF sha, THEN conjunct2]]
        have "resolve_revision sha agents dk2 i r = Inr e" if e: "resolve_revision sha agents dk i r = Inr e" for i r e
        proof (rule resolve_again)
          show e1: "resolve_revision sha agents dk1 i r = Inr e" using k1 e by (simp add: snapshots_kept_def)
          note ent = resolved_entry [OF e]
          have "(i, r) \<noteq> (ad_id d, ?r)" using True ent e by auto
          then show "read_file dk1 (revision_path agents i r) = Inr c \<Longrightarrow> read_file dk2 (revision_path agents i r) = Inr c" for c
            using ent by (intro out(3)) auto
        qed
        then have "snapshots_kept sha agents dk dk2" using out(1) by (simp add: snapshots_kept_def)
        then show ?thesis using run dir w by simp
      qed
    qed
  qed
qed

text \<open>Whatever the disk has become, what resolves under the revision of \<open>d\<close> is \<open>d\<close>.\<close>

lemma resolves_only:
  assumes apart: "\<forall>s. sha s = sha (compact_json (agent_json d)) \<longrightarrow> s = compact_json (agent_json d)" and "storable d"
    and e: "resolve_revision sha agents dk i (agent_revision sha d) = Inr e"
  shows "in_order e = in_order d"
proof -
  have rev: "agent_revision sha e = agent_revision sha d" using resolved_entry [OF e] by blast
  obtain c where "decode_exactly definition_of c = Inr e" using resolved_entry [OF e] by blast
  then obtain v t where v: "parse_value (parse_fuel c) c = Some (v, t)" "definition_of v = Inr e"
    by (auto simp: decode_exactly_def and_then_Inr_iff split: option.splits if_splits)
  have "storable e" by (rule definition_of_storable [OF v(2) parsed_ok(1) [OF v(1)]])
  have "hex_decode (agent_revision sha e) = hex_decode (agent_revision sha d)" using rev by simp
  then have "sha (compact_json (agent_json e)) = sha (compact_json (agent_json d))" by (simp add: agent_revision_def hex_decode_encode)
  then have "compact_json (agent_json e) = compact_json (agent_json d)" using apart by blast
  then show ?thesis by (rule same_revision_text [OF \<open>storable d\<close> \<open>storable e\<close>])
qed

lemma recorded_resolves:
  assumes rec: "record_revision sha agents d dk = (Inr u, dk')" and abs: "is_abs agents" and sha: "\<forall>s. length (sha s) = 32"
    and "storable d" and un: "unlinked agents dk"
  shows "\<exists>e. resolve_revision sha agents dk' (ad_id d) (agent_revision sha d) = Inr e"
proof -
  let ?r = "agent_revision sha d" and ?p = "revision_path agents (ad_id d) (agent_revision sha d)"
  have ok: "validate_agent d = Inr ()" using rec by (auto simp: record_revision_def split: sum.splits)
  have vid: "validate_agent_id (ad_id d) = Inr ()" using ok by (auto simp: validate_agent_def and_then_Inr_iff)
  show ?thesis
  proof (cases "\<exists>e. resolve_revision sha agents dk (ad_id d) ?r = Inr e \<and> agent_revision sha e = ?r")
    case True
    then show ?thesis using rec ok by (auto simp: record_revision_def Let_def)
  next
    case new: False
    then have not: "(case resolve_revision sha agents dk (ad_id d) ?r of Inl x \<Rightarrow> False | Inr e \<Rightarrow> agent_revision sha e = ?r) = False"
      by (auto split: sum.splits)
    obtain dk1 where dir: "mkdir_all (path_join [agent_dir agents (ad_id d), ''revisions'']) dk = Inr dk1"
      and w: "write_file_atomic ?p (indented_json (agent_json d) @ [CHR 0x0A]) dk1 = Inr dk'"
      using rec ok unfolding record_revision_def Let_def not by (auto split: sum.splits)
    have un1: "unlinked agents dk1" by (rule spares_unlinked [OF spares_mkdir [OF dir] un])
    note written = written_read(2) [OF w un1 abs vid hex_revision [OF sha, THEN conjunct2]]
    have "decode_exactly definition_of (indented_json (agent_json d) @ [CHR 0x0A]) = Inr (in_order d)"
      using definitions.file_back [OF ordered_in_order [OF \<open>storable d\<close>], of "[CHR 0x0A]"]
      by (simp add: agent_json_ordered ws_only_def json_space_def)
    moreover have "agent_revision sha (in_order d) = ?r" by (simp add: agent_revision_def agent_json_ordered)
    ultimately have "resolve_revision sha agents dk' (ad_id d) ?r = Inr (in_order d)"
      using written vid hex_revision [OF sha, of d] by (simp add: resolve_revision_def in_order_def)
    then show ?thesis ..
  qed
qed

subsection \<open>Accepted work finds its definition\<close>

text \<open>What may happen to the directories: the server's own operations, whatever it is asked, and any change that
  owners and agents make to a path that is neither a snapshot's nor above one.\<close>

inductive agent_step :: "(string \<Rightarrow> string) \<Rightarrow> string \<Rightarrow> agent_disk \<Rightarrow> agent_disk \<Rightarrow> bool"
  for sha :: "string \<Rightarrow> string" and agents :: string where
  Loads: "agent_step sha agents dk (snd (load_agent agents i dk))"
| Records: "agent_step sha agents dk (snd (record_revision sha agents d dk))"
| Remembers: "agent_step sha agents dk (snd (load_memory agents i n dk))"
| Works: "agent_step sha agents dk (snd (agent_workspace agents i dk))"
| Elsewhere: "\<not> snapshot_area agents p \<Longrightarrow> agent_step sha agents dk (dk\<lparr>dk_entry := (dk_entry dk)(p := x)\<rparr>)"

lemma step_kept:
  assumes "agent_step sha agents dk dk'" and abs: "is_abs agents" and "\<forall>s. length (sha s) = 32" and un: "unlinked agents dk"
  shows "snapshots_kept sha agents dk dk'"
  using assms(1)
proof cases
  case (Loads i)
  then show ?thesis using spares_kept [OF spares_load [OF abs un] un abs] by simp
next
  case (Records d)
  then show ?thesis using record_kept [OF assms(2-4)] by simp
next
  case (Remembers i n)
  then show ?thesis using spares_kept [OF spares_memory [OF abs un] un abs] by simp
next
  case (Works i)
  then show ?thesis using spares_kept [OF spares_workspace un abs] by simp
next
  case (Elsewhere p x)
  then have "spares agents dk dk'" by (auto simp: spares_def)
  then show ?thesis using spares_kept un abs by blast
qed

lemma steps_kept:
  assumes "(agent_step sha agents)\<^sup>*\<^sup>* dk dk'" and "is_abs agents" and "\<forall>s. length (sha s) = 32" and "unlinked agents dk"
  shows "snapshots_kept sha agents dk dk'"
  using assms(1)
proof (induction rule: rtranclp_induct)
  case base
  then show ?case using assms(4) by (simp add: snapshots_kept_def)
next
  case (step dk1 dk2)
  then show ?case using step_kept [OF step(2) assms(2,3)] by (auto simp: snapshots_kept_def)
qed

end
