(* ===== verification/Runner_Agent.thy ===== *)
theory Runner_Agent
  imports Agent_Dir
begin

section \<open>The agent a server starts with (cmd/pons/runtime_mode.go)\<close>

text \<open>
  The server composes its agent from the owner's files and its own configuration, records the
  revision, and opens the manager on it. Here is what follows for the agent's runs.
\<close>

definition compose_agent :: "server_options \<Rightarrow> string \<Rightarrow> agent_settings \<Rightarrow> string \<Rightarrow> error + agent_definition" where
  "compose_agent opts agents s persona =
     (let dir = agent_dir agents default_agent_id; other = (se_provider s \<noteq> [] \<and> se_provider s \<noteq> so_slot opts);
          found = fallback_index (lc_fallbacks (so_brain opts)) (se_provider s);
          slot = (if other then se_provider s else so_slot opts);
          model = (if other then ps_model (lc_fallbacks (so_brain opts) ! the found) else ps_model (lc_primary (so_brain opts)))
      in if other \<and> found = None then Inl (''agent '' @ dir @ '': provider slot '' @ quoted (se_provider s) @ '' is not configured'')
         else (case List.find (\<lambda>(server, g). \<not> is_configured (so_mcp opts) server) (se_mcp s) of
             Some (server, _) \<Rightarrow> Inl (''agent '' @ path_join [dir, ''agent.json''] @ '': mcpServers grants '' @ quoted server
               @ '', which is not in the host configuration's mcpServers'')
           | None \<Rightarrow> Inr \<lparr>ad_id = default_agent_id, ad_name = se_name s, ad_persona = persona, ad_slot = slot,
               ad_model = (if se_model s \<noteq> [] then se_model s else model),
               ad_max_turns = (if se_max_turns s > 0 then se_max_turns s else so_max_turns opts), ad_plugins = so_plugin_paths opts,
               ad_policy = (if se_workspace s = [] then workspace_agent else se_workspace s), ad_mcp = se_mcp s\<rparr>))"

definition default_agent :: "(string \<Rightarrow> string) \<Rightarrow> server_options \<Rightarrow> string \<Rightarrow> agent_disk \<Rightarrow> (error + agent_definition) \<times> agent_disk" where
  "default_agent sha opts agents dk =
     (case load_agent agents default_agent_id dk of
        (Inl e, dk1) \<Rightarrow> (Inl e, dk1)
      | (Inr (s, persona), dk1) \<Rightarrow> (case compose_agent opts agents s persona of
            Inl e \<Rightarrow> (Inl e, dk1)
          | Inr a \<Rightarrow> (case record_revision sha agents a dk1 of (Inl e, dk2) \<Rightarrow> (Inl e, dk2) | (Inr _, dk2) \<Rightarrow> (Inr a, dk2))))"

subsection \<open>Accepted work finds its definition\<close>

text \<open>C11. Work accepted under a revision runs under that very definition or not at all. Once a
  definition was recorded, a run that carries its revision resolves to it, up to the order of its
  grants, after any loads, further records, memory and workspace requests, and after any change that
  owners and agents make to other paths than those of snapshots and the directories above them, as
  long as the system lets the snapshot be read. And whatever else is done to the disk, snapshots
  damaged or forged or their directory replaced, no other definition is ever taken for it. The
  definition is one that JSON carries: its texts are UTF-8 and its turn limit has 64 bits. No link stands above a snapshot when it is recorded; the digest
  has 32 bytes and no other text has this one's.\<close>

theorem revision_survives:
  assumes "record_revision sha agents d dk0 = (Inr u, dk)" and "(agent_step sha agents)\<^sup>*\<^sup>* dk dk'"
    and "is_abs agents" and "\<forall>s. length (sha s) = 32" and "\<forall>s. sha s = sha (compact_json (agent_json d)) \<longrightarrow> s = compact_json (agent_json d)"
    and "storable d" and "unlinked agents dk0"
    and "cf_rev cfg = agent_revision sha" and "cv_agent_id (cl_conversation cl) = ad_id d" and "run_revision (cl_run cl) = agent_revision sha d"
  shows "(\<exists>e. resolve_agent (cfg\<lparr>cf_revisions := resolve_revision sha agents dk'\<rparr>) cl = Inr e \<and> in_order e = in_order d)
     \<and> (\<forall>any e. resolve_agent (cfg\<lparr>cf_revisions := resolve_revision sha agents any\<rparr>) cl = Inr e \<longrightarrow> in_order e = in_order d)"
proof
  obtain e where e: "resolve_revision sha agents dk (ad_id d) (agent_revision sha d) = Inr e"
    using recorded_resolves [OF assms(1,3,4,6,7)] by blast
  have "unlinked agents dk" using record_kept [OF assms(3,4,7), of d] assms(1) by (simp add: snapshots_kept_def)
  then have later: "resolve_revision sha agents dk' (ad_id d) (agent_revision sha d) = Inr e"
    using steps_kept [OF assms(2-4)] e by (simp add: snapshots_kept_def)
  have "ad_id e = ad_id d" "agent_revision sha e = agent_revision sha d" using resolved_entry [OF later] by blast+
  moreover have "in_order e = in_order d" by (rule resolves_only [OF assms(5,6) later])
  ultimately show "\<exists>e. resolve_agent (cfg\<lparr>cf_revisions := resolve_revision sha agents dk'\<rparr>) cl = Inr e \<and> in_order e = in_order d"
    using later assms(8-10) by (simp add: resolve_agent_def Let_def)
  show "\<forall>any e. resolve_agent (cfg\<lparr>cf_revisions := resolve_revision sha agents any\<rparr>) cl = Inr e \<longrightarrow> in_order e = in_order d"
    using resolves_only [OF assms(5,6)] assms(8-10) by (auto simp: resolve_agent_def Let_def split: sum.splits if_splits)
qed

definition empty_disk :: agent_disk where
  "empty_disk = \<lparr>dk_entry = (\<lambda>_. None), dk_refuses = (\<lambda>_. None)\<rparr>"

text \<open>A digest for examples: whether a text is the one that \<open>d\<close> has, in 32 bytes.\<close>

definition sample_digest :: "agent_definition \<Rightarrow> string \<Rightarrow> string" where
  "sample_digest d s = (if s = compact_json (agent_json d) then ''1'' else ''0'') @ replicate 31 CHR ''x''"

lemma sample_digest_ok:
  "\<forall>s. length (sample_digest d s) = 32" "\<forall>s. sample_digest d s = sample_digest d (compact_json (agent_json d)) \<longrightarrow> s = compact_json (agent_json d)"
  by (auto simp: sample_digest_def split: if_splits)

lemma sample_storable: "storable sample_agent" "storable moved_agent"
  by code_simp+

lemma sample_recorded:
  "fst (record_revision (sample_digest sample_agent) ''/s/agents'' sample_agent empty_disk) = Inr ()"
  by code_simp

lemma revision_survives_witness:
  "\<exists>dk' e. resolve_agent (sample_config\<lparr>cf_rev := agent_revision (sample_digest sample_agent),
      cf_revisions := resolve_revision (sample_digest sample_agent) ''/s/agents'' dk'\<rparr>)
     (ar_claim (the (mg_runs working ''c''))\<lparr>cl_run := (cl_run (ar_claim (the (mg_runs working ''c''))))\<lparr>run_revision := agent_revision (sample_digest sample_agent) sample_agent\<rparr>\<rparr>) = Inr e
     \<and> in_order e = in_order sample_agent"
proof -
  let ?sha = "sample_digest sample_agent"
  let ?cl = "ar_claim (the (mg_runs working ''c''))\<lparr>cl_run := (cl_run (ar_claim (the (mg_runs working ''c''))))\<lparr>run_revision := agent_revision ?sha sample_agent\<rparr>\<rparr>"
  obtain dk where rec: "record_revision ?sha ''/s/agents'' sample_agent empty_disk = (Inr (), dk)"
    using sample_recorded by (cases "record_revision ?sha ''/s/agents'' sample_agent empty_disk") auto
  let ?dk' = "snd (record_revision ?sha ''/s/agents'' moved_agent dk)"
  have step: "(agent_step ?sha ''/s/agents'')\<^sup>*\<^sup>* dk ?dk'" by (rule r_into_rtranclp) (rule Records)
  have un: "unlinked ''/s/agents'' empty_disk" by (simp add: unlinked_def empty_disk_def)
  have abs: "is_abs ''/s/agents''" by code_simp
  have conv: "cv_agent_id (cl_conversation ?cl) = ad_id sample_agent" by code_simp
  show ?thesis
    using revision_survives [OF rec step abs sample_digest_ok sample_storable(1) un,
        of "sample_config\<lparr>cf_rev := agent_revision ?sha\<rparr>" ?cl] conv
    by auto
qed

subsection \<open>The server's own agent can run\<close>

lemma fallback_index_iff: "fallback_index ps i = None \<longleftrightarrow> (\<forall>p \<in> set ps. ps_id p \<noteq> i)"
  by (induction ps) auto

lemma load_unlinked: "unlinked agents dk \<Longrightarrow> load_agent agents i dk = (r, dk1) \<Longrightarrow> unlinked agents dk1"
  using grows_unlinked [OF grows_load] by (metis snd_conv)

lemma composed_runs:
  assumes "compose_agent opts agents s persona = Inr a"
  shows "ad_plugins a = so_plugin_paths opts \<and> List.find (\<lambda>(server, g). \<not> is_configured (so_mcp opts) server) (ad_mcp a) = None
     \<and> (\<exists>c. agent_brain_config (so_slot opts) (so_brain opts) a = Inr c)"
  using assms by (auto simp: compose_agent_def agent_brain_config_def Let_def split: if_split_asm option.split_asm)


text \<open>A first start: the directory is created with default files, and the agent has the server's settings.\<close>

definition first_agent :: agent_definition where
  "first_agent = \<lparr>ad_id = default_agent_id, ad_name = [], ad_persona = [], ad_slot = ''primary'', ad_model = ps_model (lc_primary sample_slots),
     ad_max_turns = 25, ad_plugins = [], ad_policy = workspace_agent, ad_mcp = []\<rparr>"


subsection \<open>A definition that JSON cannot carry\<close>

text \<open>A persona's byte that is not UTF-8 is written as an escape; the rune read from the escape is then
  written as itself. So the text, and the digest, of the definition that is read back differ from those
  it was recorded under, and its revision does not resolve.\<close>

lemma invalid_byte_rewritten:
  "unmarshal (quoted_key [CHR 0xE9]) = Some (JString replacement) \<and> quoted_key replacement \<noteq> quoted_key [CHR 0xE9]"
proof -
  have out: "quoted_key [CHR 0xE9] = CHR 0x22 # CHR 0x5C # ''ufffd'' @ [CHR 0x22]"
    by (simp add: quoted_key_def escape_text_def rune_len.simps byte_def)
  have four: "hex4 (''fffd'' @ t) = Some (65533, t)" for t by (simp add: hex_value_def byte_def)
  have rune: "unicode_escape (''fffd'' @ t) = Some (replacement, t)" for t
    unfolding unicode_escape_def four by (simp add: utf8_encode_def replacement_def) (simp add: char_of_def bit_iff_odd)
  define s where "s = CHR 0x5C # ''ufffd'' @ [CHR 0x22]"
  have str: "parse_string (length s) s = Some (replacement, [])"
    unfolding s_def using rune [of "[CHR 0x22]"] by (simp add: parse_string.simps)
  have quote: "parse_value (Suc n) (CHR 0x22 # s) = map_option (apfst JString) (parse_string (length s) s)" for n
    by (simp add: parse_value.simps(2) skip_ws_def json_space_def)
  have "parse_value (parse_fuel (CHR 0x22 # s)) (CHR 0x22 # s) = Some (JString replacement, [])"
    unfolding parse_fuel_def quote str by simp
  then have "unmarshal (quoted_key [CHR 0xE9]) = Some (JString replacement)"
    unfolding out s_def [symmetric] by (simp add: unmarshal_def skip_ws_def)
  moreover have "quoted_key replacement = CHR 0x22 # replacement @ [CHR 0x22]" by code_simp
  ultimately show ?thesis unfolding out by (simp add: replacement_def)
qed

end
