(* ===== verification/Agent_Memory.thy ===== *)
theory Agent_Memory
  imports Agent_Dir
begin

section \<open>What a run sees of an agent's memory (runtime/agentdir/agentdir.go)\<close>

text \<open>
  The index of an agent's memory is read up to a budget of bytes, cleaned and cut. Here are the
  lemmas on cutting UTF-8, and what is loaded.
\<close>

subsection \<open>Cutting UTF-8\<close>

declare rune_len.simps [simp del]

lemma valid_head: "valid_utf8 s \<Longrightarrow> s \<noteq> [] \<Longrightarrow> \<exists>k. rune_len s = Some k \<and> valid_utf8 (drop k s)"
proof -
  assume s: "valid_utf8 s" "s \<noteq> []"
  then obtain n k where n: "length s = Suc n" and k: "rune_len s = Some k" "valid_utf8_fuel n (drop k s)"
    by (cases "length s") (auto simp: valid_utf8_def split: option.splits)
  have "valid_utf8_fuel m t \<Longrightarrow> valid_utf8 t" for m t
  proof (induction m arbitrary: t)
    case (Suc m)
    then show ?case by (cases "t = []") (auto split: option.splits dest: valid_utf8_rune)
  qed simp
  with k show ?thesis by blast
qed

lemma valid_induct [consumes 1, case_names Nil Rune]:
  assumes "valid_utf8 s" and "P []"
    and "\<And>s k. rune_len s = Some k \<Longrightarrow> valid_utf8 (drop k s) \<Longrightarrow> P (drop k s) \<Longrightarrow> P s"
  shows "P s"
  using assms(1)
proof (induction "length s" arbitrary: s rule: less_induct)
  case less
  show ?case
  proof (cases "s = []")
    case False
    obtain k where k: "rune_len s = Some k" "valid_utf8 (drop k s)" using valid_head [OF less.prems False] by blast
    have "length (drop k s) < length s" using rune_len_bounds [OF k(1)] by auto
    with k less.hyps show ?thesis using assms(3) by blast
  qed (simp add: assms(2))
qed

lemma valid_strip: "valid_utf8 a \<Longrightarrow> valid_utf8 (a @ b) \<Longrightarrow> valid_utf8 b"
proof (induction a rule: valid_induct)
  case (Rune s k)
  note bounds = rune_len_bounds [OF Rune(1)]
  have len: "rune_len (s @ b) = Some k" using rune_len_prefix [OF Rune(1), of "drop k s @ b"] unfolding append_assoc [symmetric] append_take_drop_id .
  have "s @ b \<noteq> []" using bounds by auto
  then have "valid_utf8 (drop k (s @ b))" using valid_head [OF Rune(4)] len by auto
  then show ?case using Rune(3) bounds by simp
qed simp

lemma rune_cases:
  assumes "rune_len s = Some k"
  obtains (one) c r where "s = c # r" "k = 1" "byte c < 128"
  | (two) b0 b1 r where "s = b0 # b1 # r" "k = 2" "194 \<le> byte b0" "128 \<le> byte b1" "byte b1 \<le> 191"
  | (three) b0 b1 b2 r where "s = b0 # b1 # b2 # r" "k = 3" "224 \<le> byte b0" "128 \<le> byte b1" "byte b1 \<le> 191" "128 \<le> byte b2" "byte b2 \<le> 191"
  | (four) b0 b1 b2 b3 r where "s = b0 # b1 # b2 # b3 # r" "k = 4" "240 \<le> byte b0" "128 \<le> byte b1" "byte b1 \<le> 191" "128 \<le> byte b2" "byte b2 \<le> 191"
      "128 \<le> byte b3" "byte b3 \<le> 191"
proof -
  obtain c u where s: "s = c # u" using rune_len_bounds [OF assms] by (cases s) auto
  consider "byte c < 128" | "194 \<le> byte c" "byte c \<le> 223" | "224 \<le> byte c" "byte c \<le> 239" | "240 \<le> byte c" "byte c \<le> 244"
    | "128 \<le> byte c" "byte c < 194" | "244 < byte c" by linarith
  then show thesis
  proof cases
    case 1
    then show ?thesis using assms s one by (simp add: rune_len.simps Let_def)
  next
    case 2
    then show ?thesis using assms s two by (cases u) (auto simp: rune_len.simps Let_def cont_byte_def split: if_split_asm)
  next
    case 3
    then show ?thesis using assms s three
      by (cases u; cases "tl u") (auto simp: rune_len.simps Let_def cont_byte_def split: if_split_asm)
  next
    case 4
    then show ?thesis using assms s four
      by (cases u; cases "tl u"; cases "tl (tl u)") (auto simp: rune_len.simps Let_def cont_byte_def split: if_split_asm)
  qed (use assms s in \<open>simp_all add: rune_len.simps Let_def\<close>)
qed

lemma rune_high: "rune_len s = Some k \<Longrightarrow> 1 < k \<Longrightarrow> j < k \<Longrightarrow> 128 \<le> byte (s ! j)"
  by (erule rune_cases) (auto simp: nth_Cons' less_Suc_eq numeral_2_eq_2 numeral_3_eq_3)

lemma rune_small: "rune_len s = Some k \<Longrightarrow> k \<le> 4"
  by (erule rune_cases) auto

lemma broken_rune:
  "128 \<le> byte b \<Longrightarrow> byte b \<le> 191 \<Longrightarrow> rune_len (b # r) = None"
  "194 \<le> byte b0 \<Longrightarrow> rune_len [b0] = None" "224 \<le> byte b0 \<Longrightarrow> rune_len [b0, b] = None" "240 \<le> byte b0 \<Longrightarrow> rune_len [b0, b, b'] = None"
  by (simp_all add: rune_len.simps Let_def)

text \<open>A cut behind an ASCII byte cuts between runes.\<close>

lemma valid_cut_ascii:
  "valid_utf8 s \<Longrightarrow> 0 < n \<Longrightarrow> n \<le> length s \<Longrightarrow> byte (s ! (n - 1)) < 128 \<Longrightarrow> valid_utf8 (take n s)"
proof (induction s arbitrary: n rule: valid_induct)
  case (Rune s k)
  note bounds = rune_len_bounds [OF Rune(1)]
  have "\<not> n < k"
  proof
    assume "n < k"
    then have "1 < k" "n - 1 < k" using Rune.prems by auto
    from rune_high [OF Rune(1) this] Rune.prems show False by simp
  qed
  then have split: "take n s = take k s @ take (n - k) (drop k s)" using take_add [of k "n - k" s] by simp
  have "valid_utf8 (take (n - k) (drop k s))"
  proof (cases "n = k")
    case False
    then show ?thesis using Rune.IH [of "n - k"] Rune.prems \<open>\<not> n < k\<close> bounds by simp
  qed simp
  then show ?case unfolding split using valid_one_rune [OF Rune(1)] by blast
qed simp

lemma valid_runes_Nil [simp]: "valid_runes n run [] = []"
  by (cases n) auto

lemma valid_runes_valid: "valid_utf8 (valid_runes n run s)"
  by (induction n run s rule: valid_runes.induct) (auto split: option.splits dest: valid_one_rune)

lemma valid_runes_same: "valid_utf8 s \<Longrightarrow> length s \<le> n \<Longrightarrow> valid_runes n run s = s"
proof (induction s arbitrary: n run rule: valid_induct)
  case (Rune s k)
  note bounds = rune_len_bounds [OF Rune(1)]
  then obtain m where n: "n = Suc m" using Rune.prems by (cases n) auto
  show ?case using Rune.IH [of m False] Rune.prems Rune(1) bounds n by (cases "s = []") auto
qed simp

lemma valid_runes_fuel: "length s \<le> n \<Longrightarrow> length s \<le> m \<Longrightarrow> valid_runes m run s = valid_runes n run s"
proof (induction m run s arbitrary: n rule: valid_runes.induct)
  case (2 m run s)
  show ?case
  proof (cases "s = []")
    case False
    then obtain n' where n: "n = Suc n'" using 2(3) by (cases n) auto
    have drop: "length (drop k s) \<le> n'" "length (drop k s) \<le> m" if "rune_len s = Some k" for k
      using rune_len_bounds [OF that] 2(3,4) n by auto
    show ?thesis
    proof (cases "rune_len s")
      case None
      then show ?thesis using 2(1) [OF False None, of n'] 2(3,4) False n by (cases s) auto
    next
      case (Some k)
      then show ?thesis using 2(2) [OF False Some drop [OF Some]] False n by simp
    qed
  qed simp
qed simp

text \<open>A rune that was cut off becomes one replacement rune.\<close>

lemma cut_rune:
  assumes "rune_len s = Some k" and "0 < m" and "m < k"
  shows "valid_runes (Suc (Suc (Suc n))) False (take m s) = replacement"
  using assms(1)
proof (cases rule: rune_cases)
  case one
  then show ?thesis using assms by simp
next
  case two
  then have "m = 1" using assms by simp
  then show ?thesis using two by (simp add: broken_rune)
next
  case three
  then consider "m = 1" | "m = 2" using assms by linarith
  then show ?thesis using three by cases (simp_all add: broken_rune)
next
  case four
  then consider "m = 1" | "m = 2" | "m = 3" using assms by linarith
  then show ?thesis using four by cases (simp_all add: broken_rune)
qed

lemma clean_cut:
  "valid_utf8 s \<Longrightarrow> m \<le> length s \<Longrightarrow> m + 2 \<le> n \<Longrightarrow> \<exists>k \<le> m. valid_utf8 (take k s)
     \<and> ((k = m \<and> valid_runes n False (take m s) = take m s) \<or> (m \<le> k + 3 \<and> valid_runes n False (take m s) = take k s @ replacement))"
proof (induction s arbitrary: m n rule: valid_induct)
  case Nil
  then show ?case by (cases n) auto
next
  case (Rune s k)
  note bounds = rune_len_bounds [OF Rune(1)]
  consider "m = 0" | "0 < m" "m < k" | "k \<le> m" by linarith
  then show ?case
  proof cases
    case 1
    then show ?thesis by (cases n) auto
  next
    case 2
    have "n = Suc (Suc (Suc (n - 3)))" using Rune.prems(2) 2(1) by linarith
    then have "valid_runes n False (take m s) = replacement" using cut_rune [OF Rune(1) 2, of "n - 3"] by simp
    moreover have "m \<le> 3" using rune_small [OF Rune(1)] 2(2) by simp
    ultimately show ?thesis by (intro exI [of _ 0]) simp
  next
    case 3
    obtain n' where n: "n = Suc n'" using Rune.prems(2) by (cases n) auto
    have "m - k \<le> length (drop k s)" "m - k + 2 \<le> n'" using Rune.prems 3 bounds n by auto
    from Rune.IH [OF this] obtain j where j: "j \<le> m - k" "valid_utf8 (take j (drop k s))"
      "(j = m - k \<and> valid_runes n' False (take (m - k) (drop k s)) = take (m - k) (drop k s))
         \<or> (m - k \<le> j + 3 \<and> valid_runes n' False (take (m - k) (drop k s)) = take j (drop k s) @ replacement)"
      by blast
    have head: "take (k + i) s = take k s @ take i (drop k s)" for i by (rule take_add)
    have tm: "take m s = take k s @ take (m - k) (drop k s)" using head [of "m - k"] 3 by simp
    have "rune_len (take m s) = Some k" unfolding tm by (rule rune_len_prefix [OF Rune(1)])
    moreover have "take k (take m s) = take k s" "drop k (take m s) = take (m - k) (drop k s)" using 3 by (simp_all add: min_absorb1 drop_take)
    moreover have "take m s \<noteq> []" using 3 bounds by auto
    ultimately have step: "valid_runes n False (take m s) = take k s @ valid_runes n' False (take (m - k) (drop k s))" using n by simp
    have "valid_utf8 (take (k + j) s)" unfolding head using valid_one_rune [OF Rune(1)] j(2) by blast
    then show ?thesis using j 3 unfolding step by (intro exI [of _ "k + j"]) (auto simp: head tm)
  qed
qed

subsection \<open>The index\<close>

lemma last_line_end: "0 < last_line s \<Longrightarrow> last_line s \<le> length s \<and> s ! (last_line s - 1) = CHR 0x0A"
proof -
  let ?t = "takeWhile (\<lambda>c. c \<noteq> CHR 0x0A) (rev s)"
  assume pos: "0 < last_line s"
  then have short: "length ?t < length (rev s)" by (simp add: last_line_def)
  have "rev s ! length ?t = CHR 0x0A" using nth_length_takeWhile [OF short] by simp
  moreover have "rev s ! length ?t = s ! (length s - Suc (length ?t))" using short by (simp add: rev_nth)
  moreover have "last_line s - 1 = length s - Suc (length ?t)" by (simp add: last_line_def)
  ultimately show ?thesis using short by (simp add: last_line_def)
qed

lemma truncate_index_cut:
  assumes "truncate_index s limit = (x, b)" and "valid_utf8 s"
  shows "length x \<le> limit \<and> prefix x s \<and> valid_utf8 x \<and> (b \<longleftrightarrow> limit < length s) \<and> (\<not> b \<longrightarrow> x = s)"
proof (cases "length s \<le> limit")
  case True
  then show ?thesis using assms by (auto simp: truncate_index_def)
next
  case False
  let ?c = "trim_valid (take limit s)"
  have c: "prefix ?c (take limit s)" "valid_utf8 ?c" using trim_valid_prefix by auto
  have len: "length ?c \<le> limit" using prefix_length_le [OF c(1)] by simp
  have pre: "prefix ?c s" using c(1) take_is_prefix by (rule prefix_order.trans)
  have x: "x = (if last_line ?c > 1 then take (last_line ?c) ?c else ?c)" "b"
    using assms(1) False by (auto simp: truncate_index_def Let_def split: if_splits)
  show ?thesis
  proof (cases "last_line ?c > 1")
    case cut: True
    then have "0 < last_line ?c" by simp
    note e = last_line_end [OF this]
    have "byte (?c ! (last_line ?c - 1)) < 128" using e by (simp add: byte_def)
    then have "valid_utf8 (take (last_line ?c) ?c)" using valid_cut_ascii [OF c(2)] cut e by simp
    moreover have "prefix (take (last_line ?c) ?c) s" using take_is_prefix pre by (rule prefix_order.trans)
    ultimately show ?thesis using x cut len False by simp
  qed (use x len pre c False in simp)
qed

text \<open>A partial replacement rune is not UTF-8.\<close>

lemma partial_replacement: "prefix y replacement \<Longrightarrow> valid_utf8 y \<Longrightarrow> y = [] \<or> y = replacement"
proof -
  assume y: "prefix y replacement" "valid_utf8 y"
  then have "y = [] \<or> y = take 1 replacement \<or> y = take 2 replacement \<or> y = replacement"
    by (auto simp: replacement_def prefix_Cons)
  moreover have "\<not> valid_utf8 (take 1 replacement)" "\<not> valid_utf8 (take 2 replacement)" by code_simp+
  ultimately show ?thesis using y(2) by auto
qed

lemma memory_text_cut:
  assumes "memory_text budget c = (x, b)" and "0 < budget"
  shows "valid_utf8 x \<and> int (length x) \<le> budget \<and> (valid_utf8 c \<longrightarrow> prefix x c \<and> (b \<longleftrightarrow> budget < int (length c)) \<and> (\<not> b \<longrightarrow> x = c))"
proof -
  let ?m = "nat budget + 1"
  let ?d = "take ?m c"
  have clean: "valid_utf8 (clean_text ?d)" unfolding clean_text_def by (rule valid_runes_valid)
  note cut = truncate_index_cut [OF assms(1) [unfolded memory_text_def] clean]
  have "prefix x c \<and> (b \<longleftrightarrow> budget < int (length c)) \<and> (\<not> b \<longrightarrow> x = c)" if c: "valid_utf8 c"
  proof (cases "length c \<le> nat budget")
    case True
    then have "clean_text ?d = c" using valid_runes_same [OF c, of "length c" False] by (simp add: clean_text_def)
    with cut True assms(2) show ?thesis by auto
  next
    case False
    then have len: "length ?d = ?m" by simp
    obtain k where k: "k \<le> ?m" "valid_utf8 (take k c)"
      "(k = ?m \<and> valid_runes (?m + 2) False ?d = ?d) \<or> (?m \<le> k + 3 \<and> valid_runes (?m + 2) False ?d = take k c @ replacement)"
      using clean_cut [OF c, of ?m "?m + 2"] False by auto
    have fuel: "clean_text ?d = valid_runes (?m + 2) False ?d" unfolding clean_text_def len by (rule valid_runes_fuel [symmetric]) (use len in simp_all)
    show ?thesis using k(3)
    proof
      assume "k = ?m \<and> valid_runes (?m + 2) False ?d = ?d"
      then have "clean_text ?d = ?d" using fuel by simp
      with cut len False assms(2) take_is_prefix [of ?m c] show ?thesis by (auto intro: prefix_order.trans)
    next
      assume r: "?m \<le> k + 3 \<and> valid_runes (?m + 2) False ?d = take k c @ replacement"
      then have out: "clean_text ?d = take k c @ replacement" using fuel by simp
      have k': "length (take k c) = k" using k(1) False by simp
      have long: "length x < k + 3" using cut r assms(2) by auto
      have "prefix x (take k c)"
      proof (rule ccontr)
        assume no: "\<not> prefix x (take k c)"
        have "prefix x (take k c @ replacement)" using cut out by simp
        with no obtain y where y: "x = take k c @ y" "prefix y replacement" by (auto simp: prefix_append)
        have "valid_utf8 (take k c @ y)" using cut unfolding y(1) [symmetric] by blast
        then have "valid_utf8 y" by (rule valid_strip [OF k(2)])
        then have "y = [] \<or> y = replacement" by (rule partial_replacement [OF y(2)])
        then show False using no long y(1) k' by (auto simp: replacement_def)
      qed
      then have "prefix x c" using take_is_prefix by (rule prefix_order.trans)
      moreover have "length (take k c @ replacement) > nat budget" using r k' by (simp add: replacement_def)
      ultimately show ?thesis using cut out False assms(2) by auto
    qed
  qed
  with cut assms(2) show ?thesis by auto
qed

text \<open>C31. What a run is shown of an agent's memory fits the budget, is UTF-8, and comes from a real directory of
  the agent and from nothing but its index file. Of an index that is UTF-8 it is an initial part, the
  whole of it exactly when it is not reported as truncated, which is when the file is longer than the
  budget; an index that is no regular file is shown as empty.\<close>

theorem memory_bounded:
  assumes "load_memory agents i asked dk = (Inr m, dk')" and "n = (if asked \<le> 0 then default_memory_budget else asked)"
    and "dir = path_join [agent_dir agents i, ''memory'']" and "index = path_join [dir, ''MEMORY.md'']"
  shows "valid_utf8 (lm_index m) \<and> int (length (lm_index m)) \<le> n
     \<and> (\<exists>dk1. lstat dk1 dir = Some Directory \<and> settle max_links True dk1 dir = Inr (lm_path m) \<and> grows dk dk1 \<and> grows dk1 dk')
     \<and> (\<forall>c. lstat dk' index = Some (Regular c) \<and> valid_utf8 c \<longrightarrow>
          prefix (lm_index m) c \<and> (lm_truncated m \<longleftrightarrow> n < int (length c)) \<and> (\<not> lm_truncated m \<longrightarrow> lm_index m = c))
     \<and> ((\<forall>c. lstat dk' index \<noteq> Some (Regular c)) \<longrightarrow> lm_index m = [] \<and> \<not> lm_truncated m)"
proof -
  have n: "0 < n" using assms(2) by (simp add: default_memory_budget_def)
  obtain p dk1 where r: "real_directory dir dk = (Inr p, dk1)"
    using assms(1) unfolding load_memory_def Let_def assms(3,4) [symmetric] by (auto split: sum.split_asm prod.split_asm)
  have rd: "lstat dk1 dir = Some Directory" "settle max_links True dk1 dir = Inr p" "grows dk dk1"
    using r grows_real_directory [of dk dir] by (auto simp: real_directory_def split: sum.split_asm if_split_asm)
  obtain c: "create_if_missing index [] dk1 = Inr dk'"
    using assms(1) r unfolding load_memory_def Let_def assms(3,4) [symmetric]
    by (auto split: sum.split_asm option.split_asm entry.split_asm)
  have shown: "(\<exists>x b. lm_index m = x \<and> lm_truncated m = b \<and> (\<exists>c. lstat dk' index = Some (Regular c) \<and> memory_text n c = (x, b)))
      \<or> ((\<forall>c. lstat dk' index \<noteq> Some (Regular c)) \<and> lm_index m = [] \<and> \<not> lm_truncated m)" and path: "lm_path m = p"
    using assms(1) r c unfolding load_memory_def Let_def assms(3,4) [symmetric] assms(2) [symmetric]
    by (auto split: sum.split_asm option.split_asm entry.split_asm)
  from shown have "valid_utf8 (lm_index m) \<and> int (length (lm_index m)) \<le> n
     \<and> (\<forall>c. lstat dk' index = Some (Regular c) \<and> valid_utf8 c \<longrightarrow>
          prefix (lm_index m) c \<and> (lm_truncated m \<longleftrightarrow> n < int (length c)) \<and> (\<not> lm_truncated m \<longrightarrow> lm_index m = c))
     \<and> ((\<forall>c. lstat dk' index \<noteq> Some (Regular c)) \<longrightarrow> lm_index m = [] \<and> \<not> lm_truncated m)"
  proof (elim disjE exE conjE)
    fix x b c assume "lm_index m = x" "lm_truncated m = b" "lstat dk' index = Some (Regular c)" "memory_text n c = (x, b)"
    with memory_text_cut [OF _ n, of c x b] show ?thesis by simp
  qed (use n in simp)
  with rd path grows_create [OF c] show ?thesis by blast
qed

definition noted_disk :: agent_disk where
  "noted_disk = \<lparr>dk_entry = [''/a/d/memory/MEMORY.md'' \<mapsto> Regular (''# Notes'' @ [CHR 0x0A] @ ''likes tea'')], dk_refuses = (\<lambda>_. None)\<rparr>"

lemma memory_bounded_witness:
  "\<exists>m dk'. load_memory ''/a'' ''d'' 12 noted_disk = (Inr m, dk') \<and> length (lm_index m) \<le> 12 \<and> lm_truncated m"
proof -
  have "map_sum id (\<lambda>_. ()) (fst (load_memory ''/a'' ''d'' 12 noted_disk)) = Inr ()"
    "lstat (snd (load_memory ''/a'' ''d'' 12 noted_disk)) (path_join [path_join [agent_dir ''/a'' ''d'', ''memory''], ''MEMORY.md''])
       = Some (Regular (''# Notes'' @ [CHR 0x0A] @ ''likes tea''))" by code_simp+
  then obtain m dk' where m: "load_memory ''/a'' ''d'' 12 noted_disk = (Inr m, dk')"
    "lstat dk' (path_join [path_join [agent_dir ''/a'' ''d'', ''memory''], ''MEMORY.md'']) = Some (Regular (''# Notes'' @ [CHR 0x0A] @ ''likes tea''))"
    by (cases "load_memory ''/a'' ''d'' 12 noted_disk"; cases "fst (load_memory ''/a'' ''d'' 12 noted_disk)") auto
  have "valid_utf8 (''# Notes'' @ [CHR 0x0A] @ ''likes tea'')" by code_simp
  with memory_bounded [OF m(1) refl refl refl] m show ?thesis by auto
qed

text \<open>Invalid bytes shrink when they are cleaned: a file longer than the budget can be shown in part and
  reported as complete.\<close>

lemma invalid_run_hidden:
  "memory_text 4 (replicate 5 (CHR 0xE9) @ ''abc'') = (replacement, False)"
  by code_simp

end
