(* ===== verification/Spec2Isabelle.thy ===== *)
theory Spec2Isabelle
  imports Core_Props Manager_Flow Projection Checkpoint_Record Jail Command_Tools Action_Policy Plugin_Order Mcp_Tools Brain_Memory Brain_Turn Runner_Agent Agent_Memory
begin

text \<open>
  Verification of pons, a runtime for agents that call tools. The program has four parts.

  \<^bold>\<open>The harness\<close> (core.go, hooks.go, permission.go, preflight.go, protocol/). A brain answers each
  turn with a plan, a list of tool calls; the core announces them, asks hooks, policies and an
  approver, executes what is allowed through its registry of tools, and records results and
  lifecycle events.

  \<^bold>\<open>The durable runtime\<close> (runtime/). Clients submit messages to conversations; the manager claims
  submissions from the SQLite store, runs the harness for each, and stores every step twice, as
  an event of the conversation's append-only log and in index tables. Subscribers follow the log.

  \<^bold>\<open>Workspaces\<close> (environment/, runtime/checkpoint/). Checkpoints of a conversation's workspace are
  archived, listed, restored and pruned under a retention policy.

  \<^bold>\<open>Tools and host policies\<close> (internal/, plugins/). The local tools a harness registers, and the
  rules that decide calls before they run.

  \<^bold>\<open>Conventions.\<close> Go strings are byte strings, so a HOL \<open>string\<close> is a list of bytes and lengths are byte
  counts. A function that returns an error gives a sum, \<open>Inl\<close> the error; a pointer that may be
  nil is an option; an interface (brain, tool handler, hook, approver, runner, process, file
  system) is a function argument. Maps whose order does not matter are HOL maps or association
  lists. Go's \<open>int\<close> is 64 bit; every int here counts memory, rows or turns, so it is a \<open>nat\<close> or
  \<open>int\<close>, and where a value is parsed from text its range is checked. Floats are rationals with
  infinities and NaN.

  \<^bold>\<open>Theories.\<close>
  \<^item> \<open>Prelude\<close>, \<open>Go_Text\<close>, \<open>Json\<close>: generic lemmas, the functions of Go's strings, utf8 and json packages.
  \<^item> \<open>Protocol\<close>, \<open>Core_Types\<close>, \<open>Hooks\<close>, \<open>Permission\<close>, \<open>Preflight\<close>, \<open>Registry\<close>: the vocabulary of
    protocol/protocol.go, the hooks and their combination (hooks.go), requests for permission
    (permission.go), the decision rounds before execution (preflight.go) and the tool registry
    (core.go). \<open>Core_Loop\<close>, \<open>Run_Logic\<close>, \<open>Run_Safety\<close>, \<open>Core_Props\<close>: the turn loop of core.go, what each
    run reports and executes, and the properties of runs. \<open>Run_Events\<close>: what the events of a run
    carry, which the reports of \<open>Runner_Run\<close> rely on.
  \<^item> \<open>Runtime_Types\<close>, \<open>Store_Db\<close>, \<open>Store_Ops\<close>, \<open>Store_Context\<close>: the data of runtime/types.go, the tables
    of runtime/sqlite/store.go as lists of rows, its operations as transactions and the context
    they rebuild for a model. \<open>Store_Replay\<close>, \<open>Store_Rebuild\<close>: runtime/sqlite/rebuild.go.
    \<open>Store_Inv\<close>, \<open>Store_Events\<close>, \<open>Store_Live\<close>, \<open>Store_Lift\<close>, \<open>Store_Workspace\<close>, \<open>Store_Props\<close>: the invariants of
    every store reached by operations, and what follows from them.
  \<^item> \<open>Agent\<close>, \<open>Manager\<close>, \<open>Manager_Run\<close>, \<open>Manager_Inv\<close>, \<open>Manager_Flow\<close>, \<open>Manager_Props\<close>: runtime/agent.go,
    manager.go, scheduler.go, subscriptions.go and workspaces.go, as a machine whose steps are
    the manager's critical sections. \<open>Projection\<close>: runtime/projection.go.
  \<^item> \<open>Environment_State\<close>, \<open>Checkpoints\<close>, \<open>Archive\<close>, \<open>Checkpoint_Record\<close>: the tables of workspace and
    environment states, environment/checkpoints.go and runtime/checkpoint/.
  \<^item> \<open>Unidiff\<close>, \<open>Go_Path\<close>, \<open>Jail\<close>, \<open>Edit\<close>, \<open>Output_Tail\<close>, \<open>Command_Tools\<close>: internal/unidiff, internal/jail and
    the edit, bash and shell plugins. \<open>Go_Path\<close> also says which part of a path is the deepest that
    exists (\<open>path_above\<close>, \<open>deepest\<close>), in which the places of \<open>Jail\<close> and \<open>Runner_Paths\<close> are stated. \<open>Tool_Pattern\<close>, \<open>Action_Policy\<close>: internal/toolpattern and the
    action policies. \<open>Plugin_Order\<close>: plugins/hostconfig/plugin_config.go. \<open>Mcp_Config\<close>, \<open>Mcp_Tools\<close>:
    configuration, secrets, tool selection, calls and approval of plugins/mcp/.
  \<^item> \<open>Json_Round\<close>, \<open>Brain\<close>, \<open>Brain_Props\<close>, \<open>Brain_Memory\<close>: writing a JSON value and reading it back; the brain
    of plugins/brain/llm (llm.go, system_prompt.go): its conversation, prompts, answers and compaction,
    and which conversations it can reach. \<open>Brain_Turn\<close>: the turn loop drives this brain in the way that
    the properties of its conversations need. \<open>Brain_Wire\<close>, \<open>Brain_Provider\<close>: the three wire formats of model
    services (openai.go, anthropic.go, responses.go), the slots of a provider chain (presets.go) and
    the credentials of a subscription (codexauth.go). \<open>Runner\<close>, \<open>Runner_Paths\<close>, \<open>Runner_Run\<close>: what
    cmd/pons/runtime_mode.go does between the runtime and the brain: where it lets a conversation
    work (with the plans of environment/gitworkspace/), what a run is granted and what it reports.
  \<^item> \<open>Json_Struct\<close>: structs written to and read from JSON (encoding/json), with a contract for the types that
    are (the locale \<open>json_codec\<close>). \<open>Agent_Dir\<close>, \<open>Agent_Memory\<close>: runtime/agentdir/, the owner's settings, the
    snapshots of revisions, workspaces and memories, on a disk whose paths are looked up name by name
    through symbolic links. \<open>Runner_Agent\<close>: the agent a server starts with.

  \<^bold>\<open>What the lemmas show.\<close> Of runs: nothing executes that was not announced and allowed; preflight
  allows only what all hooks saw in its final form; the history is well formed and ends once.
  Of the store: the log is contiguous and never rewritten, one submission runs per conversation
  and workspace, accepting is idempotent, failing and recovering settle everything, and the
  index tables are a function of the log: rebuilding them reproduces them. Of the manager:
  every interleaving keeps its slots bounded and its store among the disciplined ones, and a
  subscriber misses nothing and sees nothing twice. Of checkpoints: retention keeps what must
  be kept and recording never loses a kept archive. Of the tools: a diff is minimal and leads
  from one file to the other with its final newline, an edit replaces the region it names, a path
  stays in its root with every link of its existing part resolved, the
  output tail is the end of what was written, and a policy follows its precedence. Of plugins:
  they are built after the plugins that provide what they require. Of remote tools: a run gets only
  tools that were granted, a call runs at most once, the approval mode of its server is respected,
  and secrets are redacted from what a server sends. Of the brain: every request pairs each call with
  its result on every wire format, compaction keeps that so, whatever services answer, a turn of the
  core leaves it ready to be asked again unless the model calls \<^verbatim>\<open>finish\<close> first, memory cannot
  leave its frame, and a recorded conversation is replayed as it was. Of a server: a client's workspace
  stays in the allowed root and apart from the server's state, a run works where its conversation was
  placed, hands are granted what the configuration and the agent grant, and whatever the core
  reports of a run has the form the manager takes. Of agents: a recorded revision resolves to its definition whatever
  happens to other files later, and to no other definition whatever is done to its snapshot, so
  accepted work runs under it; a server starts only with an agent
  that it can run; and what is loaded of a memory fits its budget.

  \<^bold>\<open>Bounds and fuel.\<close> A run has at most its configured number of turns (25 by default), which the
  loop counts down, so it is structurally recursive. The rounds of preflight are limited to 8
  updates of an input, the constant of the code. The JSON parser recurses on fuel, the length of
  its text plus one; each call consumes a byte, so the fuel does not run out. The search for an
  existing ancestor of a path is a partial function whose termination is a theorem. A path of the
  agents' disk passes forty links at most, the limit of the system. The
  retention constants, the 4,000,000 cells of the exact diff and the 8 MiB of kept output are
  the code's.

  \<^bold>\<open>Assumptions.\<close> A payload decodes to the value that was encoded into it; ids given to new rows are
  fresh; each manager operation is atomic under its lock; the digests of archives and of agent definitions have 32 bytes and
  do not collide; resolving symbolic links gives an absolute path. Each property that relies
  on such a hypothesis states it.

  \<^bold>\<open>Not modelled.\<close> The command line, HTTP handlers and clients, the SDKs of model services, interactive
  logins, child processes of external plugins, MCP transports, remote sandboxes, git, and the web client:
  they move bytes between this code and other systems. Goroutines appear as interleaved steps,
  timeouts and cancellation as choices of the environment; logging, temporary files and
  file permissions are left out.
\<close>

end
